(* ===== verification/Prelude.thy ===== *)
theory Prelude
  imports Main "HOL-Library.Word"
begin

text \<open>
  Shared vocabulary of the development: the machine integer types of the C code, the byte-order
  conversions of \<open>arpa/inet.h\<close> on a little-endian host, little-endian loads and stores on a
  byte-addressed memory, and generic lemmas on words, bytes and lists.
\<close>

unbundle bit_operations_syntax

type_synonym u8 = "8 word"
type_synonym u16 = "16 word"
type_synonym u32 = "32 word"
type_synonym u64 = "64 word"

text \<open>A byte-addressed memory: the receive buffer a packet lives in. Addresses are offsets.\<close>

type_synonym mem = "nat \<Rightarrow> u8"

named_theorems byte_simps "loads, stores and byte order conversions"
named_theorems width_simps "values of words as natural numbers"

section \<open>Byte order\<close>

text \<open>\<open>htons\<close>, \<open>ntohs\<close>, \<open>htonl\<close> and \<open>ntohl\<close> on a little-endian host swap bytes.\<close>

definition bswap16 :: "u16 \<Rightarrow> u16" where
  "bswap16 x = push_bit 8 x OR drop_bit 8 x"

definition bswap32 :: "u32 \<Rightarrow> u32" where
  "bswap32 x = push_bit 24 x OR (push_bit 8 x AND 0xff0000) OR (drop_bit 8 x AND 0xff00)
     OR drop_bit 24 x"

abbreviation htons :: "u16 \<Rightarrow> u16" where "htons \<equiv> bswap16"
abbreviation ntohs :: "u16 \<Rightarrow> u16" where "ntohs \<equiv> bswap16"
abbreviation htonl :: "u32 \<Rightarrow> u32" where "htonl \<equiv> bswap32"
abbreviation ntohl :: "u32 \<Rightarrow> u32" where "ntohl \<equiv> bswap32"

lemma bit_bswap16:
  "bit (bswap16 x) n \<longleftrightarrow> (if n < 8 then bit x (n + 8) else n < 16 \<and> bit x (n - 8))"
proof -
  have "n < 16 \<or> \<not> bit x (8 + n)" if "n < 8" using that by simp
  moreover have "\<not> bit x (8 + n)" if "n \<ge> 8" using that by (auto dest: bit_imp_le_length)
  ultimately show ?thesis
    by (auto simp: bswap16_def bit_or_iff bit_push_bit_iff bit_drop_bit_eq ac_simps)
qed

lemma bswap16_bswap16 [simp]: "bswap16 (bswap16 x) = x"
  by (rule bit_word_eqI) (auto simp: bit_bswap16 ac_simps)

lemma bswap16_inject [simp]: "bswap16 x = bswap16 y \<longleftrightarrow> x = y"
  by (metis bswap16_bswap16)

lemma bswap16_0 [simp]: "bswap16 0 = 0"
  by (simp add: bswap16_def)

lemma bswap16_eq_0_iff [simp]: "bswap16 x = 0 \<longleftrightarrow> x = 0"
  by (metis bswap16_0 bswap16_bswap16)

lemma bswap16_and: "bswap16 (x AND y) = bswap16 x AND bswap16 y"
  by (rule bit_word_eqI) (auto simp: bit_bswap16 bit_and_iff)

lemma bit_bswap32:
  "bit (bswap32 x) n \<longleftrightarrow>
     (if n < 8 then bit x (n + 24) else if n < 16 then bit x (n + 8)
      else if n < 24 then bit x (n - 8) else n < 32 \<and> bit x (n - 24))"
proof -
  have c: "n \<in> {0..<32} \<or> n \<ge> 32" by auto
  have high: "\<not> bit x k" if "k \<ge> 32" for k using that by (auto dest: bit_imp_le_length)
  have m1: "bit (0xff0000 :: u32) k \<longleftrightarrow> 16 \<le> k \<and> k < 24" for k
  proof -
    have "(0xff0000 :: u32) = push_bit 16 (mask 8)" by (simp add: mask_eq_exp_minus_1)
    then show ?thesis by (simp only: bit_push_bit_iff bit_mask_iff) auto
  qed
  have m2: "bit (0xff00 :: u32) k \<longleftrightarrow> 8 \<le> k \<and> k < 16" for k
  proof -
    have "(0xff00 :: u32) = push_bit 8 (mask 8)" by (simp add: mask_eq_exp_minus_1)
    then show ?thesis by (simp only: bit_push_bit_iff bit_mask_iff) auto
  qed
  show ?thesis
    by (auto simp: bswap32_def bit_or_iff bit_and_iff bit_push_bit_iff bit_drop_bit_eq m1 m2
        not_less high ac_simps simp del: bit_numeral_word_iff)
qed

lemma bswap32_bswap32 [simp]: "bswap32 (bswap32 x) = x"
  by (rule bit_word_eqI) (auto simp: bit_bswap32 ac_simps)

lemma bswap32_inject [simp]: "bswap32 x = bswap32 y \<longleftrightarrow> x = y"
  by (metis bswap32_bswap32)

lemma bswap32_0 [simp]: "bswap32 0 = 0"
  by (simp add: bswap32_def)

lemma bswap32_eq_0_iff [simp]: "bswap32 x = 0 \<longleftrightarrow> x = 0"
  by (metis bswap32_0 bswap32_bswap32)

lemma bswap32_and: "bswap32 (x AND y) = bswap32 x AND bswap32 y"
  by (rule bit_word_eqI) (auto simp: bit_bswap32 bit_and_iff)

lemma bswap32_or: "bswap32 (x OR y) = bswap32 x OR bswap32 y"
  by (rule bit_word_eqI) (auto simp: bit_bswap32 bit_or_iff)

lemma bswap32_not: "bswap32 (NOT x) = NOT (bswap32 x)"
  by (rule bit_word_eqI) (auto simp: bit_bswap32 bit_not_iff)

section \<open>Little-endian words and bytes\<close>

primrec le_val :: "u8 list \<Rightarrow> nat" where
  "le_val [] = 0"
| "le_val (b # bs) = unat b + 256 * le_val bs"

definition le_word :: "u8 list \<Rightarrow> 'a::len word" where
  "le_word bs = word_of_nat (le_val bs)"

definition le_bytes :: "nat \<Rightarrow> 'a::len word \<Rightarrow> u8 list" where
  "le_bytes n w = map (\<lambda>i. ucast (drop_bit (8 * i) w)) [0..<n]"

lemma length_le_bytes [simp]: "length (le_bytes n w) = n"
  by (simp add: le_bytes_def)

lemma le_val_horner: "int (le_val bs) = horner_sum uint (2 ^ LENGTH(8)) bs"
proof (induction bs)
  case Nil
  then show ?case by simp
next
  case (Cons b bs)
  have "int (unat b) = uint b" by (rule of_nat_unat)
  with Cons show ?case by (simp only: le_val.simps horner_sum_simps of_nat_add of_nat_mult) simp
qed

lemma le_val_append: "le_val (xs @ ys) = le_val xs + 256 ^ length xs * le_val ys"
  by (induction xs) (simp_all add: algebra_simps)

lemma le_val_less: "le_val bs < 256 ^ length bs"
proof (induction bs)
  case Nil
  then show ?case by simp
next
  case (Cons b bs)
  have "unat b \<le> 255" proof -
    have "unat b < 2 ^ LENGTH(8)" by (rule unsigned_less)
    then show ?thesis by simp
  qed
  with Cons show ?case by simp
qed

lemma le_val_take_less: "le_val (take n bs) < 256 ^ n"
proof -
  have "le_val (take n bs) < 256 ^ length (take n bs)" by (rule le_val_less)
  also have "(256::nat) ^ length (take n bs) \<le> 256 ^ n" by (rule power_increasing) auto
  finally show ?thesis .
qed

lemma bit_le_word:
  "bit (le_word bs :: 'a::len word) n \<longleftrightarrow>
     n < LENGTH('a) \<and> n div 8 < length bs \<and> bit (bs ! (n div 8)) (n mod 8)"
proof -
  have "(le_word bs :: 'a word) = word_of_int (horner_sum uint (2 ^ LENGTH(8)) bs)"
    unfolding le_word_def le_val_horner [symmetric] by simp
  then show ?thesis
    using bit_horner_sum_uint_exp_iff [of bs n] by (simp add: bit_word_of_int_iff)
qed

lemma unat_le_word: "unat (le_word bs :: 'a::len word) = le_val bs mod 2 ^ LENGTH('a)"
  by (simp add: le_word_def unsigned_of_nat take_bit_eq_mod)

lemma unat_le_word_small:
  "8 * length bs \<le> LENGTH('a::len) \<Longrightarrow> unat (le_word bs :: 'a word) = le_val bs"
proof -
  assume a: "8 * length bs \<le> LENGTH('a)"
  have "le_val bs < 256 ^ length bs" by (rule le_val_less)
  also have "(256::nat) ^ length bs = 2 ^ (8 * length bs)" by (simp add: power_mult)
  also have "(2::nat) ^ (8 * length bs) \<le> 2 ^ LENGTH('a)" using a by (intro power_increasing) auto
  finally show ?thesis by (simp add: unat_le_word)
qed

lemma le_word_le_bytes:
  "8 * n = LENGTH('a::len) \<Longrightarrow> le_word (le_bytes n w) = (w :: 'a word)"
  by (rule bit_word_eqI)
    (auto simp: bit_le_word le_bytes_def bit_ucast_iff bit_drop_bit_eq bit_unsigned_iff
      less_mult_imp_div_less ac_simps)

lemma le_bytes_le_word:
  assumes "8 * length bs \<le> LENGTH('a::len)"
  shows "le_bytes (length bs) (le_word bs :: 'a word) = bs"
proof (rule nth_equalityI)
  show "length (le_bytes (length bs) (le_word bs :: 'a word)) = length bs" by simp
next
  fix i
  assume "i < length (le_bytes (length bs) (le_word bs :: 'a word))"
  then have i: "i < length bs" by simp
  have "bit (ucast (drop_bit (8 * i) (le_word bs :: 'a word)) :: u8) k = bit (bs ! i) k" if "k < 8" for k
  proof -
    have d: "(8 * i + k) div 8 = i" and m: "(8 * i + k) mod 8 = k" using that by auto
    have "8 * i + k < LENGTH('a)" using i that assms by simp
    with i that show ?thesis
      by (simp add: bit_ucast_iff bit_drop_bit_eq bit_le_word d m bit_unsigned_iff)
  qed
  then show "le_bytes (length bs) (le_word bs :: 'a word) ! i = bs ! i"
    using i by (simp only: le_bytes_def) (auto intro!: bit_word_eqI)
qed

section \<open>Memory\<close>

definition load :: "mem \<Rightarrow> nat \<Rightarrow> nat \<Rightarrow> u8 list" where
  "load m a n = map m [a..<a + n]"

definition store :: "mem \<Rightarrow> nat \<Rightarrow> u8 list \<Rightarrow> mem" where
  "store m a bs = (\<lambda>i. if a \<le> i \<and> i < a + length bs then bs ! (i - a) else m i)"

definition ld16 :: "mem \<Rightarrow> nat \<Rightarrow> u16" where
  "ld16 m a = le_word (load m a 2)"

definition ld32 :: "mem \<Rightarrow> nat \<Rightarrow> u32" where
  "ld32 m a = le_word (load m a 4)"

definition st16 :: "mem \<Rightarrow> nat \<Rightarrow> u16 \<Rightarrow> mem" where
  "st16 m a v = store m a (le_bytes 2 v)"

lemma length_load [simp]: "length (load m a n) = n"
  by (simp add: load_def)

lemma nth_load [simp]: "i < n \<Longrightarrow> load m a n ! i = m (a + i)"
  by (simp add: load_def)

lemma load_0 [simp]: "load m a 0 = []"
  by (simp add: load_def)

lemma load_append: "load m a (n + k) = load m a n @ load m (a + n) k"
  by (rule nth_equalityI) (auto simp: nth_append)

lemma load_cong: "(\<And>i. a \<le> i \<Longrightarrow> i < a + n \<Longrightarrow> m i = m' i) \<Longrightarrow> load m a n = load m' a n"
  by (simp add: load_def)

lemma load_store_same [simp]: "length bs = n \<Longrightarrow> load (store m a bs) a n = bs"
  by (rule nth_equalityI) (auto simp: store_def)

lemma load_store_disjoint:
  "a + n \<le> b \<or> b + length bs \<le> a \<Longrightarrow> load (store m b bs) a n = load m a n"
  by (rule load_cong) (auto simp: store_def)

lemma ld16_st16 [simp]: "ld16 (st16 m a v) a = v"
  by (simp add: ld16_def st16_def le_word_le_bytes)

lemma st16_other: "i < a \<or> a + 2 \<le> i \<Longrightarrow> st16 m a v i = m i"
  by (auto simp: st16_def store_def)

lemma unat_u8_less [width_simps]: "unat (x :: u8) < 256"
  using unsigned_less [of x] by simp

lemma unat_u16_less [width_simps]: "unat (x :: u16) < 65536"
  using unsigned_less [of x] by simp

lemma unat_u16_le [width_simps]: "unat (x :: u16) \<le> 65535"
  using unat_u16_less [of x] by linarith

lemma unat_u32_less [width_simps]: "unat (x :: u32) < 4294967296"
  using unsigned_less [of x] by simp

lemma unat_not_word: "unat (NOT x :: 'a::len word) = 2 ^ LENGTH('a) - 1 - unat x"
proof -
  have "NOT x = -1 - x" by (simp add: not_eq_complement)
  then have "unat (NOT x) = unat (-1 - x)" by simp
  also have "\<dots> = unat (-1 :: 'a word) - unat x" by (rule unat_sub) simp
  finally show ?thesis by (simp add: unsigned_minus_1_eq_mask mask_eq_exp_minus_1)
qed

lemma unat_not_u16: "unat (NOT x :: u16) = 65535 - unat x"
  by (simp add: unat_not_word)

lemma unat_not_u32: "unat (NOT x :: u32) = 4294967295 - unat x"
  by (simp add: unat_not_word)

lemma unat_ucast_up:
  "LENGTH('a::len) \<le> LENGTH('b::len) \<Longrightarrow> unat (ucast (x :: 'a word) :: 'b word) = unat x"
proof -
  assume "LENGTH('a) \<le> LENGTH('b)"
  then have "(2::nat) ^ LENGTH('a) \<le> 2 ^ LENGTH('b)" by (intro power_increasing) auto
  then have "unat x < 2 ^ LENGTH('b)" using unsigned_less [of x] by (meson less_le_trans)
  then show ?thesis by (simp only: unsigned_ucast_eq take_bit_nat_eq_self)
qed

lemma unat_ucasts [simp]:
  "unat (ucast (x :: u8) :: u16) = unat x" "unat (ucast (x :: u8) :: u32) = unat x"
  "unat (ucast (x :: u8) :: u64) = unat x" "unat (ucast (y :: u16) :: u32) = unat y"
  "unat (ucast (y :: u16) :: u64) = unat y" "unat (ucast (z :: u32) :: u64) = unat z"
  by (simp_all add: unat_ucast_up)

end
