(* ===== verification/Net_Types.thy ===== *)
theory Net_Types
  imports Prelude
begin

text \<open>
  The data of \<open>src/src/tayga.h\<close> and \<open>src/src/gso.h\<close> that describe packets: addresses, the
  IPv4, IPv6, fragment and ICMP headers, the VirtIO header and \<open>struct pkt\<close>. Multi-byte fields
  hold the raw value a little-endian host loads from the wire, so the model converts with
  \<open>ntohs\<close> and \<open>htonl\<close> where the C code does. A pointer into the receive buffer is an offset.
\<close>

section \<open>Addresses\<close>

text \<open>\<open>struct in_addr\<close> is its \<open>s_addr\<close>; \<open>struct in6_addr\<close> is its four \<open>s6_addr32\<close> words.\<close>

type_synonym in_addr = u32

record in6_addr =
  a0 :: u32
  a1 :: u32
  a2 :: u32
  a3 :: u32

text \<open>The byte view \<open>s6_addr\<close> of the union, and the address made of 16 bytes.\<close>

definition in6_words :: "in6_addr \<Rightarrow> u32 list" where
  "in6_words a = [a0 a, a1 a, a2 a, a3 a]"

definition s6_addr :: "in6_addr \<Rightarrow> nat \<Rightarrow> u8" where
  "s6_addr a i = ucast (drop_bit (8 * (i mod 4)) (in6_words a ! (i div 4)))"

definition s6_addr16_0 :: "in6_addr \<Rightarrow> u16" where
  "s6_addr16_0 a = ucast (a0 a)"

definition s6_addr16_3 :: "in6_addr \<Rightarrow> u16" where
  "s6_addr16_3 a = ucast (drop_bit 16 (a1 a))"

definition in6_of_bytes :: "u8 list \<Rightarrow> in6_addr" where
  "in6_of_bytes bs =
     \<lparr>a0 = le_word (take 4 bs), a1 = le_word (take 4 (drop 4 bs)),
      a2 = le_word (take 4 (drop 8 bs)), a3 = le_word (take 4 (drop 12 bs))\<rparr>"

definition in6_bytes :: "in6_addr \<Rightarrow> u8 list" where
  "in6_bytes a = le_bytes 4 (a0 a) @ le_bytes 4 (a1 a) @ le_bytes 4 (a2 a) @ le_bytes 4 (a3 a)"

definition in6_zero :: in6_addr where
  "in6_zero = \<lparr>a0 = 0, a1 = 0, a2 = 0, a3 = 0\<rparr>"

definition WKPF :: u32 where
  "WKPF = htonl 0x0064ff9b"

lemma length_in6_bytes [simp]: "length (in6_bytes a) = 16"
  by (simp add: in6_bytes_def)

lemma in6_of_bytes_in6_bytes [simp]: "in6_of_bytes (in6_bytes a) = a"
  by (simp add: in6_of_bytes_def in6_bytes_def le_word_le_bytes)

section \<open>Constants\<close>

definition IP4_F_DF :: u16 where "IP4_F_DF = 0x4000"
definition IP4_F_MF :: u16 where "IP4_F_MF = 0x2000"
definition IP4_F_MASK :: u16 where "IP4_F_MASK = 0x1fff"
definition IP6_F_MF :: u16 where "IP6_F_MF = 0x0001"
definition IP6_F_MASK :: u16 where "IP6_F_MASK = 0xfff8"
definition MTU_ADJ :: u32 where "MTU_ADJ = 20"
definition MTU_MIN :: u32 where "MTU_MIN = 1280"
definition HEADROOM :: nat where "HEADROOM = 64"
definition RECV_BUF_SIZE :: nat where "RECV_BUF_SIZE = HEADROOM + 40 + 65535 + 12 + 1"
definition IPPROTO_TCP :: u8 where "IPPROTO_TCP = 6"
definition IPPROTO_UDP :: u8 where "IPPROTO_UDP = 17"
definition IPPROTO_DCCP :: u8 where "IPPROTO_DCCP = 33"
definition IPPROTO_UDPLITE :: u8 where "IPPROTO_UDPLITE = 136"
definition VIRTIO_NET_HDR_F_NEEDS_CSUM :: u8 where "VIRTIO_NET_HDR_F_NEEDS_CSUM = 1"
definition VIRTIO_NET_HDR_F_DATA_VALID :: u8 where "VIRTIO_NET_HDR_F_DATA_VALID = 2"
definition VIRTIO_NET_HDR_GSO_NONE :: u8 where "VIRTIO_NET_HDR_GSO_NONE = 0"
definition VIRTIO_NET_HDR_GSO_TCPV4 :: u8 where "VIRTIO_NET_HDR_GSO_TCPV4 = 1"
definition VIRTIO_NET_HDR_GSO_TCPV6 :: u8 where "VIRTIO_NET_HDR_GSO_TCPV6 = 4"
definition VIRTIO_NET_HDR_GSO_UDP_L4 :: u8 where "VIRTIO_NET_HDR_GSO_UDP_L4 = 5"
definition VIRTIO_NET_HDR_GSO_ECN :: u8 where "VIRTIO_NET_HDR_GSO_ECN = 0x80"

lemmas ip_flag_defs = IP4_F_DF_def IP4_F_MF_def IP4_F_MASK_def IP6_F_MF_def IP6_F_MASK_def

lemmas proto_defs = IPPROTO_TCP_def IPPROTO_UDP_def IPPROTO_DCCP_def IPPROTO_UDPLITE_def

section \<open>Packet error codes\<close>

datatype err = ERROR_NONE | ERROR_REJECT | ERROR_DROP | ERROR_LOCAL

section \<open>Headers\<close>

record ip4 =
  i4_ver_ihl :: u8
  i4_tos :: u8
  i4_length :: u16
  i4_ident :: u16
  i4_flags_offset :: u16
  i4_ttl :: u8
  i4_proto :: u8
  i4_cksum :: u16
  i4_src :: in_addr
  i4_dest :: in_addr

record ip6 =
  i6_ver_tc_fl :: u32
  i6_payload_length :: u16
  i6_next_header :: u8
  i6_hop_limit :: u8
  i6_src :: in6_addr
  i6_dest :: in6_addr

record ip6_frag =
  fr_next_header :: u8
  fr_reserved :: u8
  fr_offset_flags :: u16
  fr_ident :: u32

record icmp =
  ic_type :: u8
  ic_code :: u8
  ic_cksum :: u16
  ic_word :: u32

record vnet_hdr =
  vh_flags :: u8
  vh_gso_type :: u8
  vh_hdr_len :: u16
  vh_gso_size :: u16
  vh_csum_start :: u16
  vh_csum_offset :: u16
  vh_num_buffers :: u16

definition vnet_zero :: vnet_hdr where
  "vnet_zero = \<lparr>vh_flags = 0, vh_gso_type = 0, vh_hdr_len = 0, vh_gso_size = 0,
     vh_csum_start = 0, vh_csum_offset = 0, vh_num_buffers = 0\<rparr>"

text \<open>Reading a structure through a pointer into the buffer, and its bytes in memory.\<close>

definition ld_in6 :: "mem \<Rightarrow> nat \<Rightarrow> in6_addr" where
  "ld_in6 m a = in6_of_bytes (load m a 16)"

definition ld_ip4 :: "mem \<Rightarrow> nat \<Rightarrow> ip4" where
  "ld_ip4 m a = \<lparr>i4_ver_ihl = m a, i4_tos = m (a + 1), i4_length = ld16 m (a + 2),
     i4_ident = ld16 m (a + 4), i4_flags_offset = ld16 m (a + 6), i4_ttl = m (a + 8),
     i4_proto = m (a + 9), i4_cksum = ld16 m (a + 10), i4_src = ld32 m (a + 12),
     i4_dest = ld32 m (a + 16)\<rparr>"

definition ld_ip6 :: "mem \<Rightarrow> nat \<Rightarrow> ip6" where
  "ld_ip6 m a = \<lparr>i6_ver_tc_fl = ld32 m a, i6_payload_length = ld16 m (a + 4),
     i6_next_header = m (a + 6), i6_hop_limit = m (a + 7), i6_src = ld_in6 m (a + 8),
     i6_dest = ld_in6 m (a + 24)\<rparr>"

definition ld_ip6_frag :: "mem \<Rightarrow> nat \<Rightarrow> ip6_frag" where
  "ld_ip6_frag m a = \<lparr>fr_next_header = m a, fr_reserved = m (a + 1),
     fr_offset_flags = ld16 m (a + 2), fr_ident = ld32 m (a + 4)\<rparr>"

definition ld_icmp :: "mem \<Rightarrow> nat \<Rightarrow> icmp" where
  "ld_icmp m a = \<lparr>ic_type = m a, ic_code = m (a + 1), ic_cksum = ld16 m (a + 2),
     ic_word = ld32 m (a + 4)\<rparr>"

definition ip4_bytes :: "ip4 \<Rightarrow> u8 list" where
  "ip4_bytes h = [i4_ver_ihl h, i4_tos h] @ le_bytes 2 (i4_length h) @ le_bytes 2 (i4_ident h)
     @ le_bytes 2 (i4_flags_offset h) @ [i4_ttl h, i4_proto h] @ le_bytes 2 (i4_cksum h)
     @ le_bytes 4 (i4_src h) @ le_bytes 4 (i4_dest h)"

definition ip6_bytes :: "ip6 \<Rightarrow> u8 list" where
  "ip6_bytes h = le_bytes 4 (i6_ver_tc_fl h) @ le_bytes 2 (i6_payload_length h)
     @ [i6_next_header h, i6_hop_limit h] @ in6_bytes (i6_src h) @ in6_bytes (i6_dest h)"

definition ip6_frag_bytes :: "ip6_frag \<Rightarrow> u8 list" where
  "ip6_frag_bytes h = [fr_next_header h, fr_reserved h] @ le_bytes 2 (fr_offset_flags h)
     @ le_bytes 4 (fr_ident h)"

definition icmp_bytes :: "icmp \<Rightarrow> u8 list" where
  "icmp_bytes h = [ic_type h, ic_code h] @ le_bytes 2 (ic_cksum h) @ le_bytes 4 (ic_word h)"

definition vnet_bytes :: "vnet_hdr \<Rightarrow> u8 list" where
  "vnet_bytes h = [vh_flags h, vh_gso_type h] @ le_bytes 2 (vh_hdr_len h)
     @ le_bytes 2 (vh_gso_size h) @ le_bytes 2 (vh_csum_start h) @ le_bytes 2 (vh_csum_offset h)
     @ le_bytes 2 (vh_num_buffers h)"

lemma length_ip4_bytes [simp]: "length (ip4_bytes h) = 20"
  by (simp add: ip4_bytes_def)

lemma length_ip6_bytes [simp]: "length (ip6_bytes h) = 40"
  by (simp add: ip6_bytes_def)

lemma length_ip6_frag_bytes [simp]: "length (ip6_frag_bytes h) = 8"
  by (simp add: ip6_frag_bytes_def)

lemma length_icmp_bytes [simp]: "length (icmp_bytes h) = 8"
  by (simp add: icmp_bytes_def)

lemma length_vnet_bytes [simp]: "length (vnet_bytes h) = 12"
  by (simp add: vnet_bytes_def)

section \<open>Packets\<close>

text \<open>
  \<open>struct pkt\<close>. The pointers \<open>ip4\<close>, \<open>ip6\<close> and \<open>data\<close> are offsets into the receive buffer,
  \<open>ip6_frag\<close> and \<open>icmp\<close> may be null.
\<close>

record pkt =
  p_tun_fd :: int
  p_ip4 :: nat
  p_ip6 :: nat
  p_ip6_frag :: "nat option"
  p_icmp :: "nat option"
  p_data_proto :: u8
  p_data :: nat
  p_data_len :: u32
  p_header_len :: u32
  p_vhdr :: vnet_hdr
  p_has_vhdr :: bool

definition pkt_zero :: pkt where
  "pkt_zero = \<lparr>p_tun_fd = 0, p_ip4 = 0, p_ip6 = 0, p_ip6_frag = None, p_icmp = None,
     p_data_proto = 0, p_data = 0, p_data_len = 0, p_header_len = 0, p_vhdr = vnet_zero,
     p_has_vhdr = False\<rparr>"

definition needs_csum :: "pkt \<Rightarrow> bool" where
  "needs_csum p \<longleftrightarrow> p_has_vhdr p \<and> vh_flags (p_vhdr p) AND VIRTIO_NET_HDR_F_NEEDS_CSUM \<noteq> 0"

text \<open>The bytes of the transport header and payload a packet record points to.\<close>

definition pkt_payload :: "mem \<Rightarrow> pkt \<Rightarrow> u8 list" where
  "pkt_payload m p = load m (p_data p) (unat (p_data_len p))"

section \<open>A header to apply properties to\<close>

definition sample_ip4 :: ip4 where
  "sample_ip4 = \<lparr>i4_ver_ihl = 0x45, i4_tos = 0, i4_length = htons 40, i4_ident = 1,
     i4_flags_offset = htons IP4_F_DF, i4_ttl = 64, i4_proto = IPPROTO_TCP, i4_cksum = 0,
     i4_src = 0x0a0200c0, i4_dest = 0x08080404\<rparr>"

end
