(* ===== verification/Addr.thy ===== *)
theory Addr
  imports Net_Types
begin

text \<open>
  Address classes and prefix masks of \<open>src/src/addrmap.c\<close>: \<open>validate_ip4_addr\<close>,
  \<open>validate_ip6_addr\<close>, \<open>is_private_ip4_addr\<close>, \<open>calc_ip4_mask\<close>, \<open>calc_ip6_mask\<close> and the macro
  \<open>IN6_IS_IN_NET\<close> of \<open>tayga.h\<close>. An out-parameter is threaded: the mask the caller passes in
  is an argument and the one it holds afterwards is returned beside the status.
\<close>

section \<open>Definitions\<close>

definition validate_ip4_addr :: "in_addr \<Rightarrow> err" where
  "validate_ip4_addr a =
     (if a AND htonl 0xff000000 = htonl 0x00000000 then ERROR_DROP
      else if a AND htonl 0xff000000 = htonl 0x7f000000 then ERROR_DROP
      else if a AND htonl 0xffff0000 = htonl 0xa9fe0000 then ERROR_LOCAL
      else if a AND htonl 0xf0000000 = htonl 0xe0000000 then ERROR_DROP
      else if a = 0xffffffff then ERROR_DROP
      else ERROR_NONE)"

definition validate_ip6_addr :: "in6_addr \<Rightarrow> err" where
  "validate_ip6_addr a =
     (if a0 a = WKPF then ERROR_NONE
      else if s6_addr a 0 = 0 then ERROR_DROP
      else if s6_addr a 0 = 0xff then ERROR_DROP
      else if s6_addr16_0 a AND htons 0xffc0 = htons 0xfe80 then ERROR_DROP
      else ERROR_NONE)"

definition is_private_ip4_addr :: "in_addr \<Rightarrow> err" where
  "is_private_ip4_addr a =
     (if a AND htonl 0xff000000 = htonl 0x0a000000 then ERROR_REJECT
      else if a AND htonl 0xffc00000 = htonl 0x64400000 then ERROR_REJECT
      else if a AND htonl 0xfff00000 = htonl 0xac100000 then ERROR_REJECT
      else if a AND htonl 0xffffff00 = htonl 0xc0000200 then ERROR_REJECT
      else if a AND htonl 0xffff0000 = htonl 0xc0a80000 then ERROR_REJECT
      else if a AND htonl 0xfffe0000 = htonl 0xc6120000 then ERROR_REJECT
      else if a AND htonl 0xffffff00 = htonl 0xc6336400 then ERROR_REJECT
      else if a AND htonl 0xffffff00 = htonl 0xcb007100 then ERROR_REJECT
      else if a AND htonl 0xffffff00 = htonl 0xc0000000
        \<and> a AND htonl 0xfffffff8 \<noteq> htonl 0xc0000000 then ERROR_REJECT
      else if a AND htonl 0xf0000000 = htonl 0xf0000000 then ERROR_REJECT
      else ERROR_NONE)"

text \<open>The status is the C return value: 0, or -1 for a bad length or set host bits.\<close>

definition calc_ip4_mask :: "in_addr \<Rightarrow> in_addr option \<Rightarrow> int \<Rightarrow> int \<times> in_addr" where
  "calc_ip4_mask mk addr len =
     (if len < 0 \<or> len > 32 then (-1, mk)
      else (let mk = htonl (if len = 0 then 0 else push_bit (nat (32 - len)) 0xffffffff)
            in (case addr of
                  Some a \<Rightarrow> if a AND NOT mk \<noteq> 0 then (-1, mk) else (0, mk)
                | None \<Rightarrow> (0, mk))))"

definition ip6_mask_byte :: "int \<Rightarrow> nat \<Rightarrow> u8" where
  "ip6_mask_byte len i =
     (let bits = len - int i * 8
      in if bits \<ge> 8 then 0xff
         else if bits > 0 then ucast (push_bit (nat (8 - bits)) (0xff :: u32))
         else 0)"

definition calc_ip6_mask :: "in6_addr \<Rightarrow> in6_addr option \<Rightarrow> int \<Rightarrow> int \<times> in6_addr" where
  "calc_ip6_mask mk addr len =
     (if len < 0 \<or> len > 128 then (-1, mk)
      else (let mk = in6_of_bytes (map (ip6_mask_byte len) [0..<16])
            in (case addr of
                  Some a \<Rightarrow> if list_ex (\<lambda>i. s6_addr a i AND NOT (s6_addr mk i) \<noteq> 0) [0..<16]
                            then (-1, mk) else (0, mk)
                | None \<Rightarrow> (0, mk))))"

definition in6_is_in_net :: "in6_addr \<Rightarrow> in6_addr \<Rightarrow> in6_addr \<Rightarrow> bool" where
  "in6_is_in_net addr net mk \<longleftrightarrow>
     a0 net = a0 addr AND a0 mk \<and> a1 net = a1 addr AND a1 mk
     \<and> a2 net = a2 addr AND a2 mk \<and> a3 net = a3 addr AND a3 mk"

section \<open>Address classes as ranges\<close>

text \<open>A test against a prefix mask is a test of the leading bits in host order.\<close>

lemma and_mask_eq_iff:
  fixes a :: in_addr
  assumes "k \<le> 32" "m = push_bit k (mask (32 - k))" "c = push_bit k d" "unat d < 2 ^ (32 - k)"
  shows "a AND htonl m = htonl c \<longleftrightarrow> unat (ntohl a) div 2 ^ k = unat d"
proof -
  have "a AND htonl m = htonl c \<longleftrightarrow> ntohl (a AND htonl m) = ntohl (htonl c)"
    by (simp only: bswap32_inject)
  also have "\<dots> \<longleftrightarrow> ntohl a AND m = c" by (simp only: bswap32_and bswap32_bswap32)
  also have "ntohl a AND m = push_bit k (drop_bit k (ntohl a))"
    unfolding assms(2) using assms(1)
    by (intro bit_word_eqI) (auto simp: bit_and_iff bit_push_bit_iff bit_mask_iff bit_drop_bit_eq)
  also have "push_bit k (drop_bit k (ntohl a)) = c \<longleftrightarrow> drop_bit k (ntohl a) = d"
  proof
    assume e: "push_bit k (drop_bit k (ntohl a)) = c"
    have sm: "drop_bit k (push_bit k x) = x" if "unat x < 2 ^ (32 - k)" for x :: u32
    proof (rule bit_word_eqI)
      fix n
      have "x = take_bit (32 - k) x"
        using that by (simp add: word_unat_eq_iff unsigned_take_bit_eq take_bit_nat_eq_self)
      then have "bit x n \<longleftrightarrow> n < 32 - k \<and> bit x n" by (metis bit_take_bit_iff)
      then show "bit (drop_bit k (push_bit k x)) n \<longleftrightarrow> bit x n"
        by (auto simp: bit_drop_bit_eq bit_push_bit_iff)
    qed
    have "unat (drop_bit k (ntohl a)) = unat (ntohl a) div 2 ^ k"
      by (simp only: unat_drop_bit_eq) (simp only: drop_bit_eq_div)
    also have "\<dots> < 2 ^ (32 - k)"
    proof (rule less_mult_imp_div_less)
      have "(2 :: nat) ^ (32 - k) * 2 ^ k = 2 ^ 32"
        using assms(1) by (simp flip: power_add)
      then show "unat (ntohl a) < 2 ^ (32 - k) * 2 ^ k"
        using unat_u32_less [of "ntohl a"] by simp
    qed
    finally have "drop_bit k (push_bit k (drop_bit k (ntohl a))) = drop_bit k (ntohl a)" by (rule sm)
    then show "drop_bit k (ntohl a) = d" using e assms(3) sm [OF assms(4)] by simp
  qed (simp add: assms(3))
  also have "\<dots> \<longleftrightarrow> unat (ntohl a) div 2 ^ k = unat d"
    by (simp only: word_unat_eq_iff unat_drop_bit_eq) (simp only: drop_bit_eq_div)
  finally show ?thesis .
qed

text \<open>\<open>in4_net a p k\<close>: the host-order address lies in the block of size \<open>2 ^ k\<close> numbered \<open>p\<close>.\<close>

definition in4_net :: "in_addr \<Rightarrow> nat \<Rightarrow> nat \<Rightarrow> bool" where
  "in4_net a p k \<longleftrightarrow> unat (ntohl a) div 2 ^ k = p"

lemma mask_tests:
  "a AND htonl 0xff000000 = htonl 0x00000000 \<longleftrightarrow> in4_net a 0 24"
  "a AND htonl 0xff000000 = htonl 0x7f000000 \<longleftrightarrow> in4_net a 127 24"
  "a AND htonl 0xffff0000 = htonl 0xa9fe0000 \<longleftrightarrow> in4_net a (169 * 256 + 254) 16"
  "a AND htonl 0xf0000000 = htonl 0xe0000000 \<longleftrightarrow> in4_net a 14 28"
  "a AND htonl 0xff000000 = htonl 0x0a000000 \<longleftrightarrow> in4_net a 10 24"
  "a AND htonl 0xffc00000 = htonl 0x64400000 \<longleftrightarrow> in4_net a (100 * 4 + 1) 22"
  "a AND htonl 0xfff00000 = htonl 0xac100000 \<longleftrightarrow> in4_net a (172 * 16 + 1) 20"
  "a AND htonl 0xffffff00 = htonl 0xc0000200 \<longleftrightarrow> in4_net a (192 * 65536 + 2) 8"
  "a AND htonl 0xffff0000 = htonl 0xc0a80000 \<longleftrightarrow> in4_net a (192 * 256 + 168) 16"
  "a AND htonl 0xfffe0000 = htonl 0xc6120000 \<longleftrightarrow> in4_net a (198 * 128 + 9) 17"
  "a AND htonl 0xffffff00 = htonl 0xc6336400 \<longleftrightarrow> in4_net a (198 * 65536 + 51 * 256 + 100) 8"
  "a AND htonl 0xffffff00 = htonl 0xcb007100 \<longleftrightarrow> in4_net a (203 * 65536 + 113) 8"
  "a AND htonl 0xffffff00 = htonl 0xc0000000 \<longleftrightarrow> in4_net a (192 * 65536) 8"
  "a AND htonl 0xfffffff8 = htonl 0xc0000000 \<longleftrightarrow> in4_net a (192 * 2097152) 3"
  "a AND htonl 0xf0000000 = htonl 0xf0000000 \<longleftrightarrow> in4_net a 15 28"
proof -
  have r: "a AND htonl m = htonl c \<longleftrightarrow> in4_net a p k"
    if "k \<le> 32" "m = push_bit k (mask (32 - k))" "c = push_bit k (word_of_nat p)" "p < 2 ^ (32 - k)" for m c p k
  proof -
    have "p < 2 ^ 32" using that(4) power_increasing [of "32 - k" 32 "2::nat"] by simp
    then have "unat (word_of_nat p :: u32) = p" by (simp add: unsigned_of_nat take_bit_nat_eq_self)
    then show ?thesis unfolding in4_net_def using and_mask_eq_iff [OF that(1,2,3), of a] that(4) by simp
  qed
  show
  "a AND htonl 0xff000000 = htonl 0x00000000 \<longleftrightarrow> in4_net a 0 24"
  "a AND htonl 0xff000000 = htonl 0x7f000000 \<longleftrightarrow> in4_net a 127 24"
  "a AND htonl 0xffff0000 = htonl 0xa9fe0000 \<longleftrightarrow> in4_net a (169 * 256 + 254) 16"
  "a AND htonl 0xf0000000 = htonl 0xe0000000 \<longleftrightarrow> in4_net a 14 28"
  "a AND htonl 0xff000000 = htonl 0x0a000000 \<longleftrightarrow> in4_net a 10 24"
  "a AND htonl 0xffc00000 = htonl 0x64400000 \<longleftrightarrow> in4_net a (100 * 4 + 1) 22"
  "a AND htonl 0xfff00000 = htonl 0xac100000 \<longleftrightarrow> in4_net a (172 * 16 + 1) 20"
  "a AND htonl 0xffffff00 = htonl 0xc0000200 \<longleftrightarrow> in4_net a (192 * 65536 + 2) 8"
  "a AND htonl 0xffff0000 = htonl 0xc0a80000 \<longleftrightarrow> in4_net a (192 * 256 + 168) 16"
  "a AND htonl 0xfffe0000 = htonl 0xc6120000 \<longleftrightarrow> in4_net a (198 * 128 + 9) 17"
  "a AND htonl 0xffffff00 = htonl 0xc6336400 \<longleftrightarrow> in4_net a (198 * 65536 + 51 * 256 + 100) 8"
  "a AND htonl 0xffffff00 = htonl 0xcb007100 \<longleftrightarrow> in4_net a (203 * 65536 + 113) 8"
  "a AND htonl 0xffffff00 = htonl 0xc0000000 \<longleftrightarrow> in4_net a (192 * 65536) 8"
  "a AND htonl 0xfffffff8 = htonl 0xc0000000 \<longleftrightarrow> in4_net a (192 * 2097152) 3"
  "a AND htonl 0xf0000000 = htonl 0xf0000000 \<longleftrightarrow> in4_net a 15 28"
    by (rule r; (simp add: mask_eq_exp_minus_1 push_bit_eq_mult; fail))+
qed

lemma ntohl_eq_iff: "ntohl a = b \<longleftrightarrow> a = htonl b"
  by (metis bswap32_bswap32)

lemma bcast_iff: "a = (0xffffffff :: u32) \<longleftrightarrow> unat (ntohl a) = 4294967295"
proof -
  have "htonl 0xffffffff = 0xffffffff" by (simp add: bswap32_def push_bit_eq_mult)
  then have "a = 0xffffffff \<longleftrightarrow> ntohl a = 0xffffffff" by (metis bswap32_bswap32)
  also have "\<dots> \<longleftrightarrow> unat (ntohl a) = unat (0xffffffff :: u32)" by (rule word_unat_eq_iff)
  finally show ?thesis by simp
qed

text \<open>Membership in a dotted-quad block, the way the standards write them.\<close>

definition quad :: "nat \<Rightarrow> nat \<Rightarrow> nat \<Rightarrow> nat \<Rightarrow> nat" where
  "quad b3 b2 b1 b0 = ((b3 * 256 + b2) * 256 + b1) * 256 + b0"

definition in_cidr :: "in_addr \<Rightarrow> nat \<Rightarrow> nat \<Rightarrow> bool" where
  "in_cidr a q len \<longleftrightarrow> q \<le> unat (ntohl a) \<and> unat (ntohl a) < q + 2 ^ (32 - len)"

lemma in_cidr_iff:
  assumes "len \<le> 32" "q = p * 2 ^ (32 - len)"
  shows "in_cidr a q len \<longleftrightarrow> in4_net a p (32 - len)"
proof -
  let ?h = "unat (ntohl a)" and ?b = "(2 :: nat) ^ (32 - len)"
  have "?h div ?b = p \<longleftrightarrow> p * ?b \<le> ?h \<and> ?h < p * ?b + ?b"
    by (metis add.commute div_nat_eqI dividend_less_div_times mult.commute mult_Suc times_div_less_eq_dividend zero_less_numeral zero_less_power)
  then show ?thesis by (simp add: in_cidr_def in4_net_def assms(2))
qed

text \<open>The private ranges are exactly the listed CIDR blocks.\<close>

theorem is_private_ip4_addr_iff:
  "is_private_ip4_addr a =
     (if in_cidr a (quad 10 0 0 0) 8 \<or> in_cidr a (quad 100 64 0 0) 10 \<or> in_cidr a (quad 172 16 0 0) 12
        \<or> in_cidr a (quad 192 0 2 0) 24 \<or> in_cidr a (quad 192 168 0 0) 16 \<or> in_cidr a (quad 198 18 0 0) 15
        \<or> in_cidr a (quad 198 51 100 0) 24 \<or> in_cidr a (quad 203 0 113 0) 24
        \<or> in_cidr a (quad 192 0 0 0) 24 \<and> \<not> in_cidr a (quad 192 0 0 0) 29
        \<or> in_cidr a (quad 240 0 0 0) 4
      then ERROR_REJECT else ERROR_NONE)"
proof -
  have c: "in_cidr a (quad 10 0 0 0) 8 = in4_net a 10 24"
    "in_cidr a (quad 100 64 0 0) 10 = in4_net a (100 * 4 + 1) 22"
    "in_cidr a (quad 172 16 0 0) 12 = in4_net a (172 * 16 + 1) 20"
    "in_cidr a (quad 192 0 2 0) 24 = in4_net a (192 * 65536 + 2) 8"
    "in_cidr a (quad 192 168 0 0) 16 = in4_net a (192 * 256 + 168) 16"
    "in_cidr a (quad 198 18 0 0) 15 = in4_net a (198 * 128 + 9) 17"
    "in_cidr a (quad 198 51 100 0) 24 = in4_net a (198 * 65536 + 51 * 256 + 100) 8"
    "in_cidr a (quad 203 0 113 0) 24 = in4_net a (203 * 65536 + 113) 8"
    "in_cidr a (quad 192 0 0 0) 24 = in4_net a (192 * 65536) 8"
    "in_cidr a (quad 192 0 0 0) 29 = in4_net a (192 * 2097152) 3"
    "in_cidr a (quad 240 0 0 0) 4 = in4_net a 15 28"
    using in_cidr_iff [of 8 _ 10 a] in_cidr_iff [of 10 _ 401 a] in_cidr_iff [of 12 _ 2753 a]
      in_cidr_iff [of 24 _ "192 * 65536 + 2" a] in_cidr_iff [of 16 _ "192 * 256 + 168" a]
      in_cidr_iff [of 15 _ "198 * 128 + 9" a] in_cidr_iff [of 24 _ "198 * 65536 + 51 * 256 + 100" a]
      in_cidr_iff [of 24 _ "203 * 65536 + 113" a] in_cidr_iff [of 24 _ "192 * 65536" a]
      in_cidr_iff [of 29 _ "192 * 2097152" a] in_cidr_iff [of 4 _ 15 a]
    by (simp_all add: quad_def)
  show ?thesis unfolding is_private_ip4_addr_def mask_tests c by simp
qed

lemma validate_ip4_addr_iff:
  "validate_ip4_addr a =
     (if in_cidr a (quad 0 0 0 0) 8 \<or> in_cidr a (quad 127 0 0 0) 8 \<or> in_cidr a (quad 224 0 0 0) 4
        \<or> in_cidr a (quad 255 255 255 255) 32 then ERROR_DROP
      else if in_cidr a (quad 169 254 0 0) 16 then ERROR_LOCAL else ERROR_NONE)"
proof -
  have c: "in_cidr a (quad 0 0 0 0) 8 = in4_net a 0 24" "in_cidr a (quad 127 0 0 0) 8 = in4_net a 127 24"
    "in_cidr a (quad 169 254 0 0) 16 = in4_net a (169 * 256 + 254) 16"
    "in_cidr a (quad 224 0 0 0) 4 = in4_net a 14 28"
    using in_cidr_iff [of 8 _ 0 a] in_cidr_iff [of 8 _ 127 a] in_cidr_iff [of 16 _ "169 * 256 + 254" a]
      in_cidr_iff [of 4 _ 14 a]
    by (simp_all add: quad_def)
  have b: "in_cidr a (quad 255 255 255 255) 32 \<longleftrightarrow> a = 0xffffffff"
    unfolding bcast_iff by (auto simp: in_cidr_def quad_def)
  have d: "in4_net a (169 * 256 + 254) 16 \<Longrightarrow> \<not> in4_net a 14 28 \<and> a \<noteq> 0xffffffff"
    unfolding in4_net_def bcast_iff by auto
  show ?thesis unfolding validate_ip4_addr_def mask_tests c b using d by auto
qed

section \<open>Literals\<close>

text \<open>Addresses as they are written, and the rewriting of closed computations on them.\<close>

definition ip4_lit :: "u8 \<Rightarrow> u8 \<Rightarrow> u8 \<Rightarrow> u8 \<Rightarrow> in_addr" where
  "ip4_lit b1 b2 b3 b4 = le_word [b1, b2, b3, b4]"

definition ip6_lit :: "u32 \<Rightarrow> u32 \<Rightarrow> u32 \<Rightarrow> u32 \<Rightarrow> in6_addr" where
  "ip6_lit w x y z = \<lparr>a0 = htonl w, a1 = htonl x, a2 = htonl y, a3 = htonl z\<rparr>"

lemma upt16: "[0..<16] = [0, 1, 2, 3, 4, 5, 6, 7, 8, 9, 10, 11, 12, 13, 14, 15]"
  by (simp add: upt_rec)

lemmas eval_addr = calc_ip4_mask_def calc_ip6_mask_def ip4_lit_def ip6_lit_def s6_addr_def
  in6_of_bytes_def ip6_mask_byte_def upt16 bswap32_def bswap16_def in6_words_def le_word_def

end
