(* ===== verification/Prefix.thy ===== *)
theory Prefix
  imports Addr
begin

text \<open>
  Addresses as bit strings, most significant network bit first, and prefix matching on them.
  The locale \<open>bit_space\<close> states the interface (a bit observer and its width, extensional) and
  proves the nesting facts once; the IPv4 and IPv6 interpretations connect them with the C
  tests \<open>addr == (mask & a)\<close> and \<open>IN6_IS_IN_NET\<close>.
\<close>

section \<open>The interface\<close>

locale bit_space =
  fixes abit :: "'a \<Rightarrow> nat \<Rightarrow> bool"
    and width :: nat
  assumes ext: "(\<And>i. i < width \<Longrightarrow> abit a i = abit b i) \<Longrightarrow> a = b"
begin

definition pmatch :: "'a \<Rightarrow> 'a \<Rightarrow> nat \<Rightarrow> bool" where
  "pmatch a net len \<longleftrightarrow> (\<forall>i<width. abit net i = (i < len \<and> abit a i))"

definition canon :: "'a \<Rightarrow> nat \<Rightarrow> bool" where
  "canon net len \<longleftrightarrow> (\<forall>i<width. abit net i \<longrightarrow> i < len)"

lemma pmatch_refl: "canon net len \<Longrightarrow> pmatch net net len"
  by (auto simp: pmatch_def canon_def)

lemma pmatch_canon: "pmatch a net len \<Longrightarrow> canon net len"
  by (auto simp: pmatch_def canon_def)

lemma pmatch_same: "pmatch a n1 len \<Longrightarrow> pmatch a n2 len \<Longrightarrow> n1 = n2"
  by (rule ext) (auto simp: pmatch_def)

lemma pmatch_nested: "pmatch a n1 l1 \<Longrightarrow> pmatch a n2 l2 \<Longrightarrow> l1 \<le> l2 \<Longrightarrow> pmatch n2 n1 l1"
  by (auto simp: pmatch_def)

lemma pmatch_trans: "pmatch a n2 l2 \<Longrightarrow> pmatch n2 n1 l1 \<Longrightarrow> l1 \<le> l2 \<Longrightarrow> pmatch a n1 l1"
  by (auto simp: pmatch_def)

lemma pmatch_full: "width \<le> len \<Longrightarrow> pmatch a net len \<longleftrightarrow> a = net"
  using ext [of net a] by (auto simp: pmatch_def)

lemma pmatch_zero: "(\<And>i. i < width \<Longrightarrow> \<not> abit net i) \<Longrightarrow> pmatch a net 0"
  by (simp add: pmatch_def)

lemma pmatch_agree: "canon net len \<Longrightarrow> pmatch a net len \<longleftrightarrow> (\<forall>i<width. i < len \<longrightarrow> abit a i = abit net i)"
  by (auto simp: pmatch_def canon_def)

end

section \<open>IPv4\<close>

definition ip4_bit :: "in_addr \<Rightarrow> nat \<Rightarrow> bool" where
  "ip4_bit a i \<longleftrightarrow> bit (ntohl a) (31 - i)"

lemma ip4_ext: "(\<And>i. i < 32 \<Longrightarrow> ip4_bit a i = ip4_bit b i) \<Longrightarrow> a = b"
proof -
  assume e: "\<And>i. i < 32 \<Longrightarrow> ip4_bit a i = ip4_bit b i"
  have "ntohl a = ntohl b"
  proof (rule bit_word_eqI)
    fix n :: nat
    assume "n < LENGTH(32)"
    then have "bit (ntohl a) (31 - (31 - n)) = bit (ntohl b) (31 - (31 - n))"
      using e [of "31 - n"] by (simp add: ip4_bit_def)
    then show "bit (ntohl a) n = bit (ntohl b) n" using \<open>n < LENGTH(32)\<close> by simp
  qed
  then show "a = b" by simp
qed

interpretation v4: bit_space ip4_bit 32
  by unfold_locales (rule ip4_ext)

text \<open>A mask as \<open>calc_ip4_mask\<close> makes it.\<close>

definition is_mask4 :: "in_addr \<Rightarrow> nat \<Rightarrow> bool" where
  "is_mask4 m len \<longleftrightarrow> len \<le> 32 \<and> (\<forall>i<32. ip4_bit m i = (i < len))"

lemma ip4_bit_and: "ip4_bit (a AND b) i \<longleftrightarrow> ip4_bit a i \<and> ip4_bit b i"
  by (simp add: ip4_bit_def bswap32_and bit_and_iff)

lemma ip4_bit_or: "ip4_bit (a OR b) i \<longleftrightarrow> ip4_bit a i \<or> ip4_bit b i"
  by (simp add: ip4_bit_def bswap32_or bit_or_iff)

lemma ip4_bit_not: "i < 32 \<Longrightarrow> ip4_bit (NOT a) i \<longleftrightarrow> \<not> ip4_bit a i"
proof -
  have "31 - i < 32" by arith
  then show ?thesis by (simp add: ip4_bit_def bswap32_not bit_not_iff)
qed

lemma ip4_bit_0 [simp]: "\<not> ip4_bit 0 i"
  by (simp add: ip4_bit_def)

lemma ip4_eq_0_iff: "a = 0 \<longleftrightarrow> (\<forall>i<32. \<not> ip4_bit a i)"
  using ip4_ext [of a 0] by auto

lemma pmatch4_iff:
  "is_mask4 m len \<Longrightarrow> net = m AND a \<longleftrightarrow> v4.pmatch a net len"
  unfolding v4.pmatch_def is_mask4_def
  by (auto simp: ip4_bit_and intro!: ip4_ext)

lemma canon4_iff: "is_mask4 m len \<Longrightarrow> a AND NOT m = 0 \<longleftrightarrow> v4.canon a len"
  unfolding v4.canon_def is_mask4_def ip4_eq_0_iff
  by (auto simp: ip4_bit_and ip4_bit_not)

lemma calc_ip4_mask_bits:
  assumes "0 \<le> len" "len \<le> 32"
  shows "is_mask4 (snd (calc_ip4_mask m0 addr len)) (nat len)"
proof -
  let ?m = "htonl (if len = 0 then 0 else push_bit (nat (32 - len)) 0xffffffff)"
  have ones: "(0xffffffff :: u32) = mask 32" by (simp add: mask_eq_exp_minus_1)
  have "snd (calc_ip4_mask m0 addr len) = ?m"
    using assms by (simp add: calc_ip4_mask_def Let_def split: option.split)
  moreover have "is_mask4 ?m (nat len)"
    using assms unfolding is_mask4_def ip4_bit_def ones
    by (auto simp: bit_push_bit_iff bit_mask_iff)
  ultimately show ?thesis by simp
qed

text \<open>An IPv4 prefix is accepted exactly when its length is valid and it has no host bits.\<close>

theorem calc_ip4_mask_ok:
  "fst (calc_ip4_mask m0 (Some a) len) = 0 \<longleftrightarrow>
     0 \<le> len \<and> len \<le> 32 \<and> (\<forall>i<32. ip4_bit a i \<longrightarrow> int i < len)"
proof (cases "0 \<le> len \<and> len \<le> 32")
  case True
  note m = calc_ip4_mask_bits [of len m0 "Some a"]
  have "fst (calc_ip4_mask m0 (Some a) len) = 0 \<longleftrightarrow> a AND NOT (snd (calc_ip4_mask m0 (Some a) len)) = 0"
    using True by (simp add: calc_ip4_mask_def Let_def)
  also have "\<dots> \<longleftrightarrow> v4.canon a (nat len)" using True m by (intro canon4_iff) simp
  finally show ?thesis using True by (auto simp: v4.canon_def zless_nat_eq_int_zless)
qed (auto simp: calc_ip4_mask_def)

lemma calc_ip4_mask_ok_witness: "fst (calc_ip4_mask 0 (Some (ip4_lit 192 0 2 1)) 24) \<noteq> 0"
proof -
  have "ip4_bit (ip4_lit 192 0 2 1) 31" by (simp add: ip4_bit_def eval_addr)
  then show ?thesis unfolding calc_ip4_mask_ok by (auto intro!: exI [of _ 31])
qed

section \<open>IPv6\<close>

definition ip6_bit :: "in6_addr \<Rightarrow> nat \<Rightarrow> bool" where
  "ip6_bit a i \<longleftrightarrow> bit (ntohl (in6_words a ! (i div 32))) (31 - i mod 32)"

lemma ip6_bit_word: "w < 4 \<Longrightarrow> j < 32 \<Longrightarrow> ip6_bit a (32 * w + j) = ip4_bit (in6_words a ! w) j"
  by (simp add: ip6_bit_def ip4_bit_def)

lemma ip6_bit_eq: "ip6_bit a i = ip4_bit (in6_words a ! (i div 32)) (i mod 32)"
  by (simp add: ip6_bit_def ip4_bit_def)

lemma in6_words_nth [simp]:
  "in6_words a ! 0 = a0 a" "in6_words a ! Suc 0 = a1 a" "in6_words a ! 1 = a1 a" "in6_words a ! 2 = a2 a"
  "in6_words a ! 3 = a3 a"
  by (simp_all add: in6_words_def)

lemma in6_eqI: "(\<And>w. w < 4 \<Longrightarrow> in6_words a ! w = in6_words b ! w) \<Longrightarrow> a = b"
proof -
  assume e: "\<And>w. w < 4 \<Longrightarrow> in6_words a ! w = in6_words b ! w"
  from e [of 0] e [of 1] e [of 2] e [of 3] show "a = b"
    by (cases a; cases b) (simp add: in6_words_def)
qed

lemma ip6_ext: "(\<And>i. i < 128 \<Longrightarrow> ip6_bit a i = ip6_bit b i) \<Longrightarrow> a = b"
proof -
  assume e: "\<And>i. i < 128 \<Longrightarrow> ip6_bit a i = ip6_bit b i"
  show "a = b"
  proof (rule in6_eqI, rule ip4_ext)
    fix w j :: nat
    assume "w < 4" "j < 32"
    then show "ip4_bit (in6_words a ! w) j = ip4_bit (in6_words b ! w) j"
      using e [of "32 * w + j"] by (simp add: ip6_bit_word)
  qed
qed

interpretation v6: bit_space ip6_bit 128
  by unfold_locales (rule ip6_ext)

definition is_mask6 :: "in6_addr \<Rightarrow> nat \<Rightarrow> bool" where
  "is_mask6 m len \<longleftrightarrow> len \<le> 128 \<and> (\<forall>i<128. ip6_bit m i = (i < len))"

lemma all_128_iff: "(\<forall>i<128. P i) \<longleftrightarrow> (\<forall>w<4. \<forall>j<32. P (32 * w + j))" for P :: "nat \<Rightarrow> bool"
proof
  assume r: "\<forall>w<4. \<forall>j<32. P (32 * w + j)"
  show "\<forall>i<128. P i"
  proof (intro allI impI)
    fix i :: nat
    assume "i < 128"
    then have "i div 32 < 4" "i mod 32 < 32" by auto
    with r have "P (32 * (i div 32) + i mod 32)" by blast
    then show "P i" by (simp only: mult_div_mod_eq)
  qed
qed auto

lemma less_4_iff: "w < 4 \<longleftrightarrow> w = 0 \<or> w = 1 \<or> w = 2 \<or> w = (3 :: nat)"
  by auto

lemma in6_is_in_net_words:
  "in6_is_in_net a net m \<longleftrightarrow> (\<forall>w<4. in6_words net ! w = in6_words a ! w AND in6_words m ! w)"
  unfolding less_4_iff by (auto simp: in6_is_in_net_def)

lemma pmatch6_iff: "is_mask6 m len \<Longrightarrow> in6_is_in_net a net m \<longleftrightarrow> v6.pmatch a net len"
proof -
  assume m: "is_mask6 m len"
  have eq: "x = y AND z \<longleftrightarrow> (\<forall>j<32. ip4_bit x j = (ip4_bit y j \<and> ip4_bit z j))" for x y z :: u32
    using ip4_ext [of x "y AND z"] by (auto simp: ip4_bit_and)
  have "in6_is_in_net a net m \<longleftrightarrow> (\<forall>i<128. ip6_bit net i = (ip6_bit a i \<and> ip6_bit m i))"
    unfolding in6_is_in_net_words all_128_iff by (simp add: ip6_bit_word eq)
  then show ?thesis using m unfolding v6.pmatch_def is_mask6_def by auto
qed

lemma in6_is_in_net_refl:
  "is_mask6 m len \<Longrightarrow> v6.canon a len \<Longrightarrow> in6_is_in_net a a m"
  by (simp add: pmatch6_iff v6.pmatch_refl)

text \<open>The byte view: network bit \<open>i\<close> is bit \<open>7 - i mod 8\<close> of byte \<open>i div 8\<close>.\<close>

lemma ip4_bit_byte: "j < 32 \<Longrightarrow> ip4_bit x j = bit x (8 * (j div 8) + (7 - j mod 8))"
proof -
  assume j: "j < 32"
  define d r where "d = j div 8" and "r = j mod 8"
  have jd: "j = 8 * d + r" "r < 8" by (simp_all add: d_def r_def)
  then have "d < 4" using j by linarith
  then consider "d = 0" | "d = 1" | "d = 2" | "d = 3" unfolding less_4_iff by blast
  then have "ip4_bit x (8 * d + r) = bit x (8 * d + (7 - r))"
    by cases (use jd(2) in \<open>auto simp: ip4_bit_def bit_bswap32\<close>)
  then show ?thesis by (simp only: d_def r_def mult_div_mod_eq)
qed

lemma diff_less_8: "7 - r < (8 :: nat)"
  by simp

lemma bit_s6_addr: "k < 8 \<Longrightarrow> bit (s6_addr a n) k = bit (in6_words a ! (n div 4)) (8 * (n mod 4) + k)"
  by (simp add: s6_addr_def bit_ucast_iff bit_drop_bit_eq)

lemma ip6_bit_byte: "i < 128 \<Longrightarrow> ip6_bit a i = bit (s6_addr a (i div 8)) (7 - i mod 8)"
proof -
  assume "i < 128"
  have m: "i mod 32 = 8 * (i div 8 mod 4) + i mod 8" using mod_mult2_eq [of i 8 4] by simp
  then have "i mod 32 div 8 = i div 8 mod 4" "i mod 32 mod 8 = i mod 8"
    by (simp_all only: m) simp_all
  moreover have "i div 32 = i div 8 div 4" using div_mult2_eq [of i 8 4] by simp
  ultimately show ?thesis
    using bit_s6_addr [OF diff_less_8 [of "i mod 8"], of a "i div 8"]
    by (subst ip6_bit_eq, subst ip4_bit_byte) simp_all
qed

lemma s6_addr_of_bytes: "length bs = 16 \<Longrightarrow> n < 16 \<Longrightarrow> s6_addr (in6_of_bytes bs) n = bs ! n"
proof (rule bit_word_eqI)
  fix k :: nat
  assume a: "length bs = 16" "n < 16" "k < LENGTH(8)"
  define w where "w = n div 4"
  have n: "n = 4 * w + n mod 4" "w < 4" using a(2) by (simp_all add: w_def)
  have "in6_words (in6_of_bytes bs) ! w = le_word (take 4 (drop (4 * w) bs))"
    using n(2) unfolding less_4_iff by (auto simp: in6_of_bytes_def)
  moreover have "(8 * (n mod 4) + k) div 8 = n mod 4" "(8 * (n mod 4) + k) mod 8 = k" "8 * (n mod 4) + k < 32"
    using a(3) by auto
  ultimately show "bit (s6_addr (in6_of_bytes bs) n) k = bit (bs ! n) k"
    using a n by (subst bit_s6_addr) (simp_all add: bit_le_word flip: w_def)
qed

lemma bit_ff: "bit (0xff :: 'a::len word) k \<longleftrightarrow> k < 8 \<and> k < LENGTH('a)"
proof -
  have "(0xff :: 'a word) = mask 8" by (simp add: mask_eq_exp_minus_1)
  then show ?thesis by (simp only: bit_mask_iff) auto
qed

lemma bit_ip6_mask_byte:
  "k < 8 \<Longrightarrow> bit (ip6_mask_byte len i) k \<longleftrightarrow> 8 * int i + (7 - int k) < len"
  by (auto simp: ip6_mask_byte_def Let_def bit_ff bit_ucast_iff bit_push_bit_iff simp del: bit_numeral_word_iff)

lemma calc_ip6_mask_bits:
  assumes "0 \<le> len" "len \<le> 128"
  shows "is_mask6 (snd (calc_ip6_mask m0 addr len)) (nat len)"
proof -
  let ?m = "in6_of_bytes (map (ip6_mask_byte len) [0..<16])"
  have "ip6_bit ?m i \<longleftrightarrow> i < nat len" if i: "i < 128" for i
  proof -
    have "ip6_bit ?m i = bit (ip6_mask_byte len (i div 8)) (7 - i mod 8)"
      using i by (simp add: ip6_bit_byte s6_addr_of_bytes)
    also have "\<dots> \<longleftrightarrow> 8 * int (i div 8) + (7 - int (7 - i mod 8)) < len"
      by (rule bit_ip6_mask_byte) simp
    also have "8 * int (i div 8) + (7 - int (7 - i mod 8)) = int i"
    proof -
      have "int (7 - i mod 8) = 7 - int (i mod 8)" by (simp add: of_nat_diff)
      moreover have "int i = 8 * int (i div 8) + int (i mod 8)"
        by (metis mult_div_mod_eq of_nat_add of_nat_mult of_nat_numeral)
      ultimately show ?thesis by linarith
    qed
    finally show ?thesis using assms by auto
  qed
  moreover have "snd (calc_ip6_mask m0 addr len) = ?m"
    using assms by (simp add: calc_ip6_mask_def Let_def split: option.split)
  ultimately show ?thesis using assms unfolding is_mask6_def by simp
qed

text \<open>
  What \<open>calc_ip6_mask\<close> accepts: a length in range and an address without host bits.
\<close>

lemma canon6_iff:
  assumes "is_mask6 m len"
  shows "list_ex (\<lambda>i. s6_addr a i AND NOT (s6_addr m i) \<noteq> 0) [0..<16] \<longleftrightarrow> \<not> v6.canon a len"
proof -
  have z: "x AND NOT y = 0 \<longleftrightarrow> (\<forall>k<8. bit x (7 - k) \<longrightarrow> bit y (7 - k))" for x y :: u8
  proof
    assume r: "\<forall>k<8. bit x (7 - k) \<longrightarrow> bit y (7 - k)"
    show "x AND NOT y = 0"
    proof (rule bit_word_eqI)
      fix n :: nat
      assume "n < LENGTH(8)"
      then have "bit x n \<longrightarrow> bit y n" using r [rule_format, of "7 - n"] by auto
      then show "bit (x AND NOT y) n = bit (0 :: u8) n" by (simp add: bit_and_iff bit_not_iff)
    qed
  next
    assume "x AND NOT y = 0"
    then have "\<not> bit (x AND NOT y) (7 - k)" for k by simp
    then have b: "\<not> (bit x (7 - k) \<and> 7 - k < 8 \<and> \<not> bit y (7 - k))" for k
      by (simp add: bit_and_iff bit_not_iff)
    show "\<forall>k<8. bit x (7 - k) \<longrightarrow> bit y (7 - k)" using b by (metis diff_less_8)
  qed
  have b: "(\<forall>i<128. P i) \<longleftrightarrow> (\<forall>n<16. \<forall>k<8. P (8 * n + k))" for P :: "nat \<Rightarrow> bool"
  proof
    assume r: "\<forall>n<16. \<forall>k<8. P (8 * n + k)"
    show "\<forall>i<128. P i"
    proof (intro allI impI)
      fix i :: nat
      assume "i < 128"
      then have "i div 8 < 16" "i mod 8 < 8" by auto
      with r have "P (8 * (i div 8) + i mod 8)" by blast
      then show "P i" by (simp only: mult_div_mod_eq)
    qed
  qed auto
  have "v6.canon a len \<longleftrightarrow> (\<forall>i<128. ip6_bit a i \<longrightarrow> ip6_bit m i)"
    using assms unfolding v6.canon_def is_mask6_def by auto
  also have "\<dots> \<longleftrightarrow> (\<forall>n<16. \<forall>k<8. bit (s6_addr a n) (7 - k) \<longrightarrow> bit (s6_addr m n) (7 - k))"
    unfolding b by (simp add: ip6_bit_byte)
  also have "\<dots> \<longleftrightarrow> (\<forall>n<16. s6_addr a n AND NOT (s6_addr m n) = 0)" unfolding z ..
  finally show ?thesis by (auto simp: list_ex_iff)
qed

text \<open>An IPv6 prefix is accepted exactly when its length is valid and it has no host bits.\<close>

theorem calc_ip6_mask_ok:
  "fst (calc_ip6_mask m0 (Some a) len) = 0 \<longleftrightarrow>
     0 \<le> len \<and> len \<le> 128 \<and> (\<forall>i<128. ip6_bit a i \<longrightarrow> int i < len)"
proof (cases "0 \<le> len \<and> len \<le> 128")
  case True
  define m where "m = snd (calc_ip6_mask m0 (Some a) len)"
  have m: "is_mask6 m (nat len)" using True unfolding m_def by (intro calc_ip6_mask_bits) auto
  have "fst (calc_ip6_mask m0 (Some a) len) = 0 \<longleftrightarrow>
      \<not> list_ex (\<lambda>i. s6_addr a i AND NOT (s6_addr m i) \<noteq> 0) [0..<16]"
    using True unfolding m_def by (auto simp: calc_ip6_mask_def Let_def)
  also have "\<dots> \<longleftrightarrow> v6.canon a (nat len)" by (simp add: canon6_iff [OF m])
  finally show ?thesis using True by (auto simp: v6.canon_def zless_nat_eq_int_zless)
qed (auto simp: calc_ip6_mask_def)

lemma calc_ip6_mask_ok_witness:
  "fst (calc_ip6_mask in6_zero (Some (ip6_lit 0x20010db8 0x00640001 0 0)) 48) \<noteq> 0"
proof -
  have "ip6_bit (ip6_lit 0x20010db8 0x00640001 0 0) 63" by (simp add: ip6_bit_def eval_addr)
  then show ?thesis unfolding calc_ip6_mask_ok by (auto intro!: exI [of _ 63])
qed

text \<open>The bit-level facts about an address that passes the check of the mask routines.\<close>

lemma canon4_calc:
  assumes "n \<le> 32" "fst (calc_ip4_mask 0 (Some a) (int n)) = 0"
  shows "v4.canon a n" "is_mask4 (snd (calc_ip4_mask 0 None (int n))) n"
proof -
  show m: "is_mask4 (snd (calc_ip4_mask 0 None (int n))) n"
    using calc_ip4_mask_bits [of "int n" 0 None] assms(1) by simp
  have "a AND NOT (snd (calc_ip4_mask 0 None (int n))) = 0"
    using assms by (simp add: calc_ip4_mask_def Let_def split: if_splits)
  then show "v4.canon a n" using canon4_iff [OF m] by blast
qed

lemma canon6_calc:
  assumes "n \<le> 128" "fst (calc_ip6_mask in6_zero (Some a) (int n)) = 0"
  shows "v6.canon a n" "is_mask6 (snd (calc_ip6_mask in6_zero None (int n))) n"
proof -
  let ?m = "snd (calc_ip6_mask in6_zero None (int n))"
  show m: "is_mask6 ?m n" using calc_ip6_mask_bits [of "int n" in6_zero None] assms(1) by simp
  have "\<not> list_ex (\<lambda>i. s6_addr a i AND NOT (s6_addr ?m i) \<noteq> 0) [0..<16]"
    using assms by (simp add: calc_ip6_mask_def Let_def split: if_splits)
  then show "v6.canon a n" using canon6_iff [OF m] by blast
qed

end
