(* ===== verification/Rfc6052.thy ===== *)
theory Rfc6052
  imports Prefix
begin

text \<open>
  The RFC 6052 address algorithm of \<open>src/src/addrmap.c\<close>: \<open>append_to_prefix\<close> embeds an IPv4
  address in a translation prefix of length 32, 40, 48, 56, 64 or 96 and
  \<open>extract_from_prefix\<close> takes it out again. The error code \<open>Inl e\<close> is the nonzero return
  value; \<open>Inr\<close> carries the out-parameter. The only configuration read is \<open>wkpf_strict\<close>.
\<close>

definition append_to_prefix :: "bool \<Rightarrow> in_addr \<Rightarrow> in6_addr \<Rightarrow> nat \<Rightarrow> err + in6_addr" where
  "append_to_prefix wkpf_strict addr4 prefix prefix_len =
     (if validate_ip4_addr addr4 \<noteq> ERROR_NONE then Inl ERROR_DROP
      else if a0 prefix = WKPF \<and> a1 prefix = 0 \<and> a2 prefix = 0 \<and> wkpf_strict
        \<and> is_private_ip4_addr addr4 \<noteq> ERROR_NONE then Inl ERROR_REJECT
      else if prefix_len = 32 then
        Inr \<lparr>a0 = a0 prefix, a1 = addr4, a2 = 0, a3 = 0\<rparr>
      else if prefix_len = 40 then
        Inr \<lparr>a0 = a0 prefix, a1 = a1 prefix OR push_bit 8 addr4,
             a2 = drop_bit 16 addr4 AND 0x0000ff00, a3 = 0\<rparr>
      else if prefix_len = 48 then
        Inr \<lparr>a0 = a0 prefix, a1 = a1 prefix OR push_bit 16 addr4,
             a2 = drop_bit 8 addr4 AND 0x00ffff00, a3 = 0\<rparr>
      else if prefix_len = 56 then
        Inr \<lparr>a0 = a0 prefix, a1 = a1 prefix OR push_bit 24 addr4,
             a2 = addr4 AND 0xffffff00, a3 = 0\<rparr>
      else if prefix_len = 64 then
        Inr \<lparr>a0 = a0 prefix, a1 = a1 prefix, a2 = push_bit 8 addr4, a3 = drop_bit 24 addr4\<rparr>
      else if prefix_len = 96 then
        Inr \<lparr>a0 = a0 prefix, a1 = a1 prefix, a2 = a2 prefix, a3 = addr4\<rparr>
      else Inl ERROR_DROP)"

text \<open>
  \<open>extract_from_prefix\<close> stores the address and then returns its validation, so a
  \<open>ERROR_LOCAL\<close> or \<open>ERROR_DROP\<close> verdict comes with the address written.
\<close>

definition extract_bits :: "in6_addr \<Rightarrow> nat \<Rightarrow> in_addr option" where
  "extract_bits addr6 prefix_len =
     (if prefix_len = 32 then
        if a2 addr6 \<noteq> 0 \<or> a3 addr6 \<noteq> 0 then None else Some (a1 addr6)
      else if prefix_len = 40 then
        if a2 addr6 AND htonl 0xff00ffff \<noteq> 0 \<or> a3 addr6 \<noteq> 0 then None
        else Some (drop_bit 8 (a1 addr6) OR push_bit 16 (a2 addr6))
      else if prefix_len = 48 then
        if a2 addr6 AND htonl 0xff0000ff \<noteq> 0 \<or> a3 addr6 \<noteq> 0 then None
        else Some (ucast (s6_addr16_3 addr6) OR push_bit 8 (a2 addr6))
      else if prefix_len = 56 then
        if s6_addr addr6 8 \<noteq> 0 \<or> a3 addr6 \<noteq> 0 then None
        else Some (ucast (s6_addr addr6 7) OR a2 addr6)
      else if prefix_len = 64 then
        if s6_addr addr6 8 \<noteq> 0 \<or> a3 addr6 AND htonl 0x00ffffff \<noteq> 0 then None
        else Some (drop_bit 8 (a2 addr6) OR push_bit 24 (a3 addr6))
      else if prefix_len = 96 then Some (a3 addr6)
      else None)"

definition extract_from_prefix :: "in6_addr \<Rightarrow> nat \<Rightarrow> err + in_addr" where
  "extract_from_prefix addr6 prefix_len =
     (case extract_bits addr6 prefix_len of
        None \<Rightarrow> Inl ERROR_DROP
      | Some addr4 \<Rightarrow>
          (if validate_ip4_addr addr4 = ERROR_NONE then Inr addr4
           else Inl (validate_ip4_addr addr4)))"

section \<open>Bits\<close>

text \<open>A prefix fit for translation: one of the six lengths, with its host bits clear.\<close>

definition rfc6052_len :: "nat \<Rightarrow> bool" where
  "rfc6052_len n \<longleftrightarrow> n \<in> {32, 40, 48, 56, 64, 96}"

text \<open>Where bit \<open>i\<close> of the IPv6 address comes from: octet 8 (bits 64 to 71) is skipped.\<close>

definition v4_pos :: "nat \<Rightarrow> nat \<Rightarrow> nat option" where
  "v4_pos len i =
     (if len = 96 then (if i < 96 then None else Some (i - 96))
      else if i < len \<or> 64 \<le> i \<and> i < 72 then None
      else let p = (if i < 64 then i - len else i - len - 8) in if p < 32 then Some p else None)"

definition embedded_bit :: "in6_addr \<Rightarrow> nat \<Rightarrow> in_addr \<Rightarrow> nat \<Rightarrow> bool" where
  "embedded_bit prefix len a i \<longleftrightarrow>
     i < len \<and> ip6_bit prefix i \<or> (case v4_pos len i of Some p \<Rightarrow> ip4_bit a p | None \<Rightarrow> False)"

lemma range_mask_bits:
  "bit (0x0000ff00 :: u32) n \<longleftrightarrow> 8 \<le> n \<and> n < 16"
  "bit (0x00ffff00 :: u32) n \<longleftrightarrow> 8 \<le> n \<and> n < 24"
  "bit (0xffffff00 :: u32) n \<longleftrightarrow> 8 \<le> n \<and> n < 32"
  "bit (0x00ffffff :: u32) n \<longleftrightarrow> n < 24"
  "bit (0xff0000ff :: u32) n \<longleftrightarrow> n < 8 \<or> 24 \<le> n \<and> n < 32"
  "bit (0xff00ffff :: u32) n \<longleftrightarrow> n < 16 \<or> 24 \<le> n \<and> n < 32"
proof -
  have e: "(0x0000ff00 :: u32) = push_bit 8 (mask 8)" "(0x00ffff00 :: u32) = push_bit 8 (mask 16)"
    "(0xffffff00 :: u32) = push_bit 8 (mask 24)" "(0x00ffffff :: u32) = mask 24"
    "(0xff0000ff :: u32) = mask 8 OR push_bit 24 (mask 8)"
    "(0xff00ffff :: u32) = mask 16 OR push_bit 24 (mask 8)"
    by (simp_all add: mask_eq_exp_minus_1 push_bit_eq_mult)
  show
  "bit (0x0000ff00 :: u32) n \<longleftrightarrow> 8 \<le> n \<and> n < 16"
  "bit (0x00ffff00 :: u32) n \<longleftrightarrow> 8 \<le> n \<and> n < 24"
  "bit (0xffffff00 :: u32) n \<longleftrightarrow> 8 \<le> n \<and> n < 32"
  "bit (0x00ffffff :: u32) n \<longleftrightarrow> n < 24"
  "bit (0xff0000ff :: u32) n \<longleftrightarrow> n < 8 \<or> 24 \<le> n \<and> n < 32"
  "bit (0xff00ffff :: u32) n \<longleftrightarrow> n < 16 \<or> 24 \<le> n \<and> n < 32"
    unfolding e bit_or_iff bit_push_bit_iff bit_mask_iff by auto
qed

text \<open>Shifts by whole bytes on a little-endian host move network bits the other way.\<close>

lemma ip4_bit_split: "d < 4 \<Longrightarrow> r + s = 7 \<Longrightarrow> ip4_bit x (8 * d + r) = bit x (8 * d + s)"
proof -
  assume a: "d < 4" "r + s = 7"
  then have "7 - r = s" "(8 * d + r) div 8 = d" "(8 * d + r) mod 8 = r" "8 * d + r < 32" by auto
  then show ?thesis by (simp add: ip4_bit_byte)
qed

lemma split_32: "i < 32 \<Longrightarrow> \<exists>d r s. i = 8 * d + r \<and> d < 4 \<and> r + s = (7 :: nat)"
proof -
  assume "i < 32"
  then have "i div 8 < 4" by auto
  moreover have "i = 8 * (i div 8) + i mod 8" by simp
  moreover have "i mod 8 + (7 - i mod 8) = 7" by simp
  ultimately show ?thesis by blast
qed

lemma ip4_bit_push:
  assumes "i < 32"
  shows "ip4_bit (push_bit (8 * k) x) i \<longleftrightarrow> 8 * k \<le> i \<and> ip4_bit x (i - 8 * k)"
proof -
  obtain d r s where i: "i = 8 * d + r" "d < 4" "r + s = 7" using split_32 [OF assms] by blast
  show ?thesis
  proof (cases "k \<le> d")
    case True
    then obtain e where d: "d = k + e" using le_Suc_ex by blast
    have "i - 8 * k = 8 * e + r" by (simp add: i(1) d)
    moreover have "ip4_bit x (8 * e + r) = bit x (8 * e + s)" using i d by (intro ip4_bit_split) auto
    moreover have "ip4_bit (push_bit (8 * k) x) i = bit (push_bit (8 * k) x) (8 * d + s)"
      unfolding i(1) using i by (intro ip4_bit_split) auto
    ultimately show ?thesis using i d by (simp add: bit_push_bit_iff)
  next
    case False
    then have "8 * d + s < 8 * k" "8 * d + r < 8 * k" using i(3) by linarith+
    then show ?thesis using i by (auto simp: ip4_bit_split [OF i(2,3)] bit_push_bit_iff)
  qed
qed

lemma ip4_bit_drop:
  assumes "i < 32"
  shows "ip4_bit (drop_bit (8 * k) x) i \<longleftrightarrow> i + 8 * k < 32 \<and> ip4_bit x (i + 8 * k)"
proof -
  obtain d r s where i: "i = 8 * d + r" "d < 4" "r + s = 7" using split_32 [OF assms] by blast
  have l: "ip4_bit (drop_bit (8 * k) x) i = bit x (8 * k + (8 * d + s))"
    unfolding i(1) ip4_bit_split [OF i(2,3)] bit_drop_bit_eq by simp
  show ?thesis
  proof (cases "d + k < 4")
    case True
    have "ip4_bit x (8 * (d + k) + r) = bit x (8 * (d + k) + s)"
      using True i(3) by (rule ip4_bit_split)
    moreover have "i + 8 * k = 8 * (d + k) + r" "8 * k + (8 * d + s) = 8 * (d + k) + s" "i + 8 * k < 32"
      using i True by simp_all
    ultimately show ?thesis using l by (simp only: simp_thms)
  next
    case False
    then have "32 \<le> 8 * k + (8 * d + s)" by simp
    then have "\<not> bit x (8 * k + (8 * d + s))" by (auto dest: bit_imp_le_length)
    then show ?thesis using False i l by auto
  qed
qed

lemmas ip4_bit_shifts =
  ip4_bit_push [of _ 1, simplified] ip4_bit_push [of _ 2, simplified] ip4_bit_push [of _ 3, simplified]
  ip4_bit_drop [of _ 1, simplified] ip4_bit_drop [of _ 2, simplified] ip4_bit_drop [of _ 3, simplified]

lemma ip4_bit_masks:
  assumes "i < 32"
  shows "ip4_bit 0x0000ff00 i \<longleftrightarrow> 8 \<le> i \<and> i < 16" "ip4_bit 0x00ffff00 i \<longleftrightarrow> 8 \<le> i \<and> i < 24"
    "ip4_bit 0xffffff00 i \<longleftrightarrow> 8 \<le> i"
    "ip4_bit (htonl 0xff00ffff) i \<longleftrightarrow> i < 8 \<or> 16 \<le> i"
    "ip4_bit (htonl 0xff0000ff) i \<longleftrightarrow> i < 8 \<or> 24 \<le> i"
    "ip4_bit (htonl 0x00ffffff) i \<longleftrightarrow> 8 \<le> i"
proof -
  obtain d r s where i: "i = 8 * d + r" "d < 4" "r + s = 7" using split_32 [OF assms] by blast
  show "ip4_bit 0x0000ff00 i \<longleftrightarrow> 8 \<le> i \<and> i < 16" "ip4_bit 0x00ffff00 i \<longleftrightarrow> 8 \<le> i \<and> i < 24"
    "ip4_bit 0xffffff00 i \<longleftrightarrow> 8 \<le> i"
    unfolding i(1) ip4_bit_split [OF i(2,3)] range_mask_bits using i unfolding less_4_iff by auto
  show "ip4_bit (htonl 0xff00ffff) i \<longleftrightarrow> i < 8 \<or> 16 \<le> i"
    "ip4_bit (htonl 0xff0000ff) i \<longleftrightarrow> i < 8 \<or> 24 \<le> i"
    "ip4_bit (htonl 0x00ffffff) i \<longleftrightarrow> 8 \<le> i"
    unfolding ip4_bit_def bswap32_bswap32 range_mask_bits using assms by auto
qed

lemmas ip4_bit_simps = ip4_bit_or ip4_bit_and ip4_bit_shifts ip4_bit_masks algebra_simps

section \<open>Correctness\<close>

lemma append_to_prefix_cases:
  assumes "append_to_prefix strict a p n = Inr x"
  shows "validate_ip4_addr a = ERROR_NONE" "rfc6052_len n"
    "n = 32 \<Longrightarrow> x = \<lparr>a0 = a0 p, a1 = a, a2 = 0, a3 = 0\<rparr>"
    "n = 40 \<Longrightarrow> x = \<lparr>a0 = a0 p, a1 = a1 p OR push_bit 8 a, a2 = drop_bit 16 a AND 0x0000ff00, a3 = 0\<rparr>"
    "n = 48 \<Longrightarrow> x = \<lparr>a0 = a0 p, a1 = a1 p OR push_bit 16 a, a2 = drop_bit 8 a AND 0x00ffff00, a3 = 0\<rparr>"
    "n = 56 \<Longrightarrow> x = \<lparr>a0 = a0 p, a1 = a1 p OR push_bit 24 a, a2 = a AND 0xffffff00, a3 = 0\<rparr>"
    "n = 64 \<Longrightarrow> x = \<lparr>a0 = a0 p, a1 = a1 p, a2 = push_bit 8 a, a3 = drop_bit 24 a\<rparr>"
    "n = 96 \<Longrightarrow> x = \<lparr>a0 = a0 p, a1 = a1 p, a2 = a2 p, a3 = a\<rparr>"
  using assms by (simp_all add: append_to_prefix_def rfc6052_len_def split: if_splits)

text \<open>A bit of the 128-bit address by its word and its place in the word.\<close>

lemma canon_word:
  assumes "v6.canon p n" "w < 4" "j < 32" "n \<le> 32 * w + j"
  shows "\<not> ip4_bit (in6_words p ! w) j"
proof -
  have "32 * w + j < 128" using assms(2,3) by linarith
  then have "\<not> ip6_bit p (32 * w + j)" using assms(1,4) unfolding v6.canon_def by auto
  then show ?thesis using assms(2,3) by (simp add: ip6_bit_word)
qed

lemma embedded_bit_word:
  "w < 4 \<Longrightarrow> j < 32 \<Longrightarrow> embedded_bit p n a (32 * w + j) \<longleftrightarrow>
     32 * w + j < n \<and> ip4_bit (in6_words p ! w) j
     \<or> (case v4_pos n (32 * w + j) of Some q \<Rightarrow> ip4_bit a q | None \<Rightarrow> False)"
  by (simp add: embedded_bit_def ip6_bit_word)

lemma append_word_bits:
  assumes "append_to_prefix strict a p n = Inr x" "v6.canon p n" "w < 4" "j < 32"
  shows "ip4_bit (in6_words x ! w) j = embedded_bit p n a (32 * w + j)"
proof -
  note c = append_to_prefix_cases [OF assms(1)]
  note k = canon_word [OF assms(2,3,4)]
  from c(2) consider "n = 32" | "n = 40" | "n = 48" | "n = 56" | "n = 64" | "n = 96"
    unfolding rfc6052_len_def by blast
  then show ?thesis
  proof cases
    assume "n = 32"
    then show ?thesis unfolding embedded_bit_word [OF assms(3,4)] using c(3) k assms(3,4)
      by (auto simp: less_4_iff v4_pos_def Let_def split: if_splits)
  next
    assume "n = 40"
    then show ?thesis unfolding embedded_bit_word [OF assms(3,4)] using c(4) k assms(3,4)
      by (auto simp: less_4_iff v4_pos_def Let_def ip4_bit_simps split: if_splits)
  next
    assume "n = 48"
    then show ?thesis unfolding embedded_bit_word [OF assms(3,4)] using c(5) k assms(3,4)
      by (auto simp: less_4_iff v4_pos_def Let_def ip4_bit_simps split: if_splits)
  next
    assume "n = 56"
    then show ?thesis unfolding embedded_bit_word [OF assms(3,4)] using c(6) k assms(3,4)
      by (auto simp: less_4_iff v4_pos_def Let_def ip4_bit_simps split: if_splits)
  next
    assume "n = 64"
    then show ?thesis unfolding embedded_bit_word [OF assms(3,4)] using c(7) k assms(3,4)
      by (auto simp: less_4_iff v4_pos_def Let_def ip4_bit_simps split: if_splits)
  next
    assume "n = 96"
    then show ?thesis unfolding embedded_bit_word [OF assms(3,4)] using c(8) k assms(3,4)
      by (auto simp: less_4_iff v4_pos_def Let_def split: if_splits)
  qed
qed

text \<open>The address built: prefix, the IPv4 bits around the reserved octet, zeros.\<close>

lemma append_bits:
  "append_to_prefix strict a p n = Inr x \<Longrightarrow> v6.canon p n \<Longrightarrow> i < 128
    \<Longrightarrow> ip6_bit x i = embedded_bit p n a i"
  using append_word_bits [of strict a p n x "i div 32" "i mod 32"] by (simp add: ip6_bit_eq)

lemma v4_pos_below: "v4_pos n i = Some q \<Longrightarrow> n \<le> i"
  by (auto simp: v4_pos_def Let_def split: if_splits)

lemma append_pmatch:
  assumes "append_to_prefix strict a p n = Inr x" "v6.canon p n"
  shows "v6.pmatch x p n"
  unfolding v6.pmatch_def
proof (intro allI impI)
  fix i :: nat
  assume i: "i < 128"
  have "ip6_bit p i \<longrightarrow> i < n" using assms(2) i by (simp add: v6.canon_def)
  moreover have "i < n \<Longrightarrow> v4_pos n i = None" using v4_pos_below [of n i] by fastforce
  ultimately show "ip6_bit p i = (i < n \<and> ip6_bit x i)"
    unfolding append_bits [OF assms i] embedded_bit_def by auto
qed

lemma s6_views:
  "ucast (s6_addr16_3 x) = drop_bit 16 (a1 x)" "ucast (s6_addr x 7) = drop_bit 24 (a1 x)"
  "s6_addr x 8 = 0 \<longleftrightarrow> (\<forall>j<8. \<not> ip4_bit (a2 x) j)"
proof -
  show "ucast (s6_addr16_3 x) = drop_bit 16 (a1 x)" "ucast (s6_addr x 7) = drop_bit 24 (a1 x)"
    by (rule bit_word_eqI; auto simp: s6_addr16_3_def s6_addr_def bit_ucast_iff bit_drop_bit_eq
        dest: bit_imp_le_length)+
  have "s6_addr x 8 = 0 \<longleftrightarrow> (\<forall>j<8. \<not> bit (s6_addr x 8) j)"
    by (auto intro: bit_word_eqI)
  also have "\<dots> \<longleftrightarrow> (\<forall>j<8. \<not> bit (a2 x) j)" by (simp add: bit_s6_addr)
  also have "\<dots> \<longleftrightarrow> (\<forall>j<8. \<not> bit (a2 x) (7 - j))"
  proof
    assume r: "\<forall>j<8. \<not> bit (a2 x) (7 - j)"
    show "\<forall>j<8. \<not> bit (a2 x) j"
    proof (intro allI impI)
      fix j :: nat
      assume "j < 8"
      then show "\<not> bit (a2 x) j" using r [rule_format, of "7 - j"] by auto
    qed
  qed (simp add: diff_less_8)
  finally show "s6_addr x 8 = 0 \<longleftrightarrow> (\<forall>j<8. \<not> ip4_bit (a2 x) j)"
    by (simp add: ip4_bit_byte)
qed

lemma word_and_eq_0: "x AND y = (0 :: u32) \<longleftrightarrow> (\<forall>j<32. \<not> (ip4_bit x j \<and> ip4_bit y j))"
  by (simp add: ip4_eq_0_iff ip4_bit_and)

text \<open>Equality byte by byte: every shift then has a definite effect.\<close>

lemma ip4_ext_bytes:
  assumes "\<And>i. i < 8 \<Longrightarrow> ip4_bit a i = ip4_bit b i"
    and "\<And>i. 8 \<le> i \<Longrightarrow> i < 16 \<Longrightarrow> ip4_bit a i = ip4_bit b i"
    and "\<And>i. 16 \<le> i \<Longrightarrow> i < 24 \<Longrightarrow> ip4_bit a i = ip4_bit b i"
    and "\<And>i. 24 \<le> i \<Longrightarrow> i < 32 \<Longrightarrow> ip4_bit a i = ip4_bit b i"
  shows "a = b"
  by (rule ip4_ext) (meson assms not_le)

lemma ip4_bit_high_masks:
  assumes "i < 32"
  shows "ip4_bit 0xff000000 i \<longleftrightarrow> 24 \<le> i" "ip4_bit 0xffff0000 i \<longleftrightarrow> 16 \<le> i"
proof -
  have e: "(0xff000000 :: u32) = push_bit (8 * 3) (NOT 0)" "(0xffff0000 :: u32) = push_bit (8 * 2) (NOT 0)"
    by (simp_all add: push_bit_eq_mult)
  have "ip4_bit (NOT 0) j" if "j < 32" for j
    using that by (simp only: ip4_bit_not ip4_bit_0 not_False_eq_True)
  then show "ip4_bit 0xff000000 i \<longleftrightarrow> 24 \<le> i" "ip4_bit 0xffff0000 i \<longleftrightarrow> 16 \<le> i"
    unfolding e ip4_bit_push [OF assms] using assms by auto
qed

lemma extract_append_bits:
  assumes "append_to_prefix strict a p n = Inr x" "v6.canon p n"
  shows "extract_bits x n = Some a"
proof -
  note c = append_to_prefix_cases [OF assms(1)]
  have k: "\<not> ip4_bit (a1 p) j" if "n \<le> 32 + j" "j < 32" for j
    using canon_word [OF assms(2), of 1 j] that by simp
  from c(2) consider "n = 32" | "n = 40" | "n = 48" | "n = 56" | "n = 64" | "n = 96"
    unfolding rfc6052_len_def by blast
  then show ?thesis
  proof cases
    assume n: "n = 40"
    have "drop_bit 8 (a1 p OR push_bit 8 a) OR push_bit 16 (drop_bit 16 a AND 0x0000ff00) = a"
      by (rule ip4_ext_bytes; use k n in \<open>auto simp: ip4_bit_simps ip4_bit_high_masks\<close>)
    moreover have "(drop_bit 16 a AND 0x0000ff00) AND htonl 0xff00ffff = 0"
      unfolding word_and_eq_0 by (auto simp: ip4_bit_simps)
    ultimately show ?thesis using c(4) n by (simp add: extract_bits_def)
  next
    assume n: "n = 48"
    have "drop_bit 16 (a1 p OR push_bit 16 a) OR push_bit 8 (drop_bit 8 a AND 0x00ffff00) = a"
      by (rule ip4_ext_bytes; use k n in \<open>auto simp: ip4_bit_simps ip4_bit_high_masks\<close>)
    moreover have "(drop_bit 8 a AND 0x00ffff00) AND htonl 0xff0000ff = 0"
      unfolding word_and_eq_0 by (auto simp: ip4_bit_simps)
    ultimately show ?thesis using c(5) n by (simp add: extract_bits_def s6_views)
  next
    assume n: "n = 56"
    have "drop_bit 24 (a1 p OR push_bit 24 a) OR (a AND 0xffffff00) = a"
      by (rule ip4_ext_bytes; use k n in \<open>auto simp: ip4_bit_simps ip4_bit_high_masks\<close>)
    moreover have "\<forall>j<8. \<not> ip4_bit (a AND 0xffffff00) j"
      by (auto simp: ip4_bit_simps)
    ultimately show ?thesis using c(6) n by (simp add: extract_bits_def s6_views)
  next
    assume n: "n = 64"
    have "drop_bit 8 (push_bit 8 a) OR push_bit 24 (drop_bit 24 a) = a"
      by (rule ip4_ext_bytes; use k n in \<open>auto simp: ip4_bit_simps ip4_bit_high_masks\<close>)
    moreover have "\<forall>j<8. \<not> ip4_bit (push_bit 8 a) j" "drop_bit 24 a AND htonl 0x00ffffff = 0"
      unfolding word_and_eq_0 by (auto simp: ip4_bit_simps)
    ultimately show ?thesis using c(7) n by (simp add: extract_bits_def s6_views)
  qed (use c(3,8) in \<open>simp_all add: extract_bits_def\<close>)
qed

text \<open>C37. Extraction undoes embedding in an RFC 6052 prefix.\<close>

theorem extract_append:
  assumes "append_to_prefix strict a p n = Inr x" "v6.canon p n"
  shows "extract_from_prefix x n = Inr a"
  using extract_append_bits [OF assms] append_to_prefix_cases(1) [OF assms(1)]
  by (simp add: extract_from_prefix_def)

lemma extract_append_witness:
  "extract_from_prefix (ip6_lit 0x0064ff9b 0 0 0x08080404) 96 = Inr (ip4_lit 8 8 4 4)"
proof (rule extract_append)
  show "append_to_prefix True (ip4_lit 8 8 4 4) (ip6_lit 0x0064ff9b 0 0 0) 96
      = Inr (ip6_lit 0x0064ff9b 0 0 0x08080404)"
    by (simp add: append_to_prefix_def validate_ip4_addr_def is_private_ip4_addr_def WKPF_def eval_addr)
  show "v6.canon (ip6_lit 0x0064ff9b 0 0 0) 96"
    by (rule canon6_calc) (simp_all add: eval_addr)
qed

lemma pmatch_word:
  assumes "v6.pmatch x p n" "w < 4" "j < 32"
  shows "ip4_bit (in6_words p ! w) j \<longleftrightarrow> 32 * w + j < n \<and> ip4_bit (in6_words x ! w) j"
proof -
  have "32 * w + j < 128" using assms(2,3) by linarith
  then have "ip6_bit p (32 * w + j) = (32 * w + j < n \<and> ip6_bit x (32 * w + j))"
    using assms(1) unfolding v6.pmatch_def by blast
  then show ?thesis using assms(2,3) by (simp add: ip6_bit_word)
qed

lemma in6_eq_iff: "x = y \<longleftrightarrow> a0 x = a0 y \<and> a1 x = a1 y \<and> a2 x = a2 y \<and> a3 x = a3 (y :: in6_addr)"
  by (cases x; cases y) simp

lemma append_to_prefix_total:
  assumes "validate_ip4_addr a = ERROR_NONE" "rfc6052_len n"
    and "\<not> (a0 p = WKPF \<and> a1 p = 0 \<and> a2 p = 0 \<and> strict \<and> is_private_ip4_addr a \<noteq> ERROR_NONE)"
  obtains y where "append_to_prefix strict a p n = Inr y"
  using assms unfolding rfc6052_len_def append_to_prefix_def by auto

text \<open>The other direction: an address the extraction accepts is the one the prefix builds.\<close>

text \<open>Embedding undoes extraction for an address in the prefix.\<close>

theorem append_extract:
  assumes "extract_from_prefix x n = Inr a" "v6.pmatch x p n"
    and "\<not> (a0 p = WKPF \<and> a1 p = 0 \<and> a2 p = 0 \<and> strict \<and> is_private_ip4_addr a \<noteq> ERROR_NONE)"
  shows "append_to_prefix strict a p n = Inr x"
proof -
  have v: "validate_ip4_addr a = ERROR_NONE" and b: "extract_bits x n = Some a"
    using assms(1) by (auto simp: extract_from_prefix_def split: option.splits if_splits)
  have r: "rfc6052_len n"
    using b unfolding extract_bits_def rfc6052_len_def by (auto split: if_splits)
  obtain y where y: "append_to_prefix strict a p n = Inr y"
    by (rule append_to_prefix_total [OF v r assms(3)])
  note c = append_to_prefix_cases [OF y]
  have k: "ip4_bit (a0 p) j = (j < n \<and> ip4_bit (a0 x) j)" "ip4_bit (a1 p) j = (32 + j < n \<and> ip4_bit (a1 x) j)"
    "ip4_bit (a2 p) j = (64 + j < n \<and> ip4_bit (a2 x) j)"
    if "j < 32" for j
    using pmatch_word [OF assms(2), of 0 j] pmatch_word [OF assms(2), of 1 j] pmatch_word [OF assms(2), of 2 j] that
    by simp_all
  from r consider "n = 32" | "n = 40" | "n = 48" | "n = 56" | "n = 64" | "n = 96"
    unfolding rfc6052_len_def by blast
  then have "y = x"
  proof cases
    assume n: "n = 32"
    have "a0 p = a0 x" by (rule ip4_ext) (use k n in auto)
    moreover have "a1 x = a" "a2 x = 0" "a3 x = 0" using b n by (auto simp: extract_bits_def split: if_splits)
    ultimately show ?thesis using n c(3) by (simp add: in6_eq_iff)
  next
    assume n: "n = 40"
    have a: "a = drop_bit 8 (a1 x) OR push_bit 16 (a2 x)" and z: "a2 x AND htonl 0xff00ffff = 0" "a3 x = 0"
      using b n by (auto simp: extract_bits_def split: if_splits)
    from z(1) have z1: "\<not> ip4_bit (a2 x) j" if "j < 8 \<or> 16 \<le> j" "j < 32" for j
      using that unfolding word_and_eq_0 by (auto simp: ip4_bit_masks)
    have z2: "\<not> ip4_bit (a2 x) (i - 24)" if "i < 32" for i
    proof -
      have "i - 24 < 8" using that by linarith
      then show ?thesis using z1 by simp
    qed
    have "a0 p = a0 x" "a1 p OR push_bit 8 a = a1 x" "drop_bit 16 a AND 0x0000ff00 = a2 x"
      unfolding a by (rule ip4_ext_bytes; use k n z1 z2 in \<open>auto simp: ip4_bit_simps\<close>)+
    then show ?thesis using n z(2) c(4) by (simp add: in6_eq_iff)
  next
    assume n: "n = 48"
    have a: "a = drop_bit 16 (a1 x) OR push_bit 8 (a2 x)" and z: "a2 x AND htonl 0xff0000ff = 0" "a3 x = 0"
      using b n by (auto simp: extract_bits_def s6_views split: if_splits)
    from z(1) have z1: "\<not> ip4_bit (a2 x) j" if "j < 8 \<or> 24 \<le> j" "j < 32" for j
      using that unfolding word_and_eq_0 by (auto simp: ip4_bit_masks)
    have z2: "\<not> ip4_bit (a2 x) (i - 24)" if "i < 32" for i
    proof -
      have "i - 24 < 8" using that by linarith
      then show ?thesis using z1 by simp
    qed
    have "a0 p = a0 x" "a1 p OR push_bit 16 a = a1 x" "drop_bit 8 a AND 0x00ffff00 = a2 x"
      unfolding a by (rule ip4_ext_bytes; use k n z1 z2 in \<open>auto simp: ip4_bit_simps\<close>)+
    then show ?thesis using n z(2) c(5) by (simp add: in6_eq_iff)
  next
    assume n: "n = 56"
    have a: "a = drop_bit 24 (a1 x) OR a2 x" and z: "\<forall>j<8. \<not> ip4_bit (a2 x) j" "a3 x = 0"
      using b n by (auto simp: extract_bits_def s6_views split: if_splits)
    have z2: "\<not> ip4_bit (a2 x) (i - 24)" if "i < 32" for i
    proof -
      have "i - 24 < 8" using that by linarith
      then show ?thesis using z(1) by simp
    qed
    have "a0 p = a0 x" "a1 p OR push_bit 24 a = a1 x" "a AND 0xffffff00 = a2 x"
      unfolding a by (rule ip4_ext_bytes; use k n z z2 in \<open>auto simp: ip4_bit_simps\<close>)+
    then show ?thesis using n z(2) c(6) by (simp add: in6_eq_iff)
  next
    assume n: "n = 64"
    have a: "a = drop_bit 8 (a2 x) OR push_bit 24 (a3 x)" and z: "\<forall>j<8. \<not> ip4_bit (a2 x) j"
      "a3 x AND htonl 0x00ffffff = 0"
      using b n by (auto simp: extract_bits_def s6_views split: if_splits)
    from z(2) have z1: "\<not> ip4_bit (a3 x) j" if "8 \<le> j" "j < 32" for j
      using that unfolding word_and_eq_0 by (auto simp: ip4_bit_masks)
    have "a0 p = a0 x" "a1 p = a1 x" "push_bit 8 a = a2 x" "drop_bit 24 a = a3 x"
      unfolding a by (rule ip4_ext_bytes; use k n z z1 in \<open>auto simp: ip4_bit_simps\<close>)+
    then show ?thesis using n c(7) by (simp add: in6_eq_iff)
  next
    assume n: "n = 96"
    have "a0 p = a0 x" "a1 p = a1 x" "a2 p = a2 x" by (rule ip4_ext_bytes; use k n in auto)+
    then show ?thesis using b n c(8) by (simp add: extract_bits_def in6_eq_iff)
  qed
  then show ?thesis using y by simp
qed

lemma append_extract_witness:
  "append_to_prefix True (ip4_lit 8 8 4 4) (ip6_lit 0x0064ff9b 0 0 0) 96
     = Inr (ip6_lit 0x0064ff9b 0 0 0x08080404)"
proof (rule append_extract)
  show "extract_from_prefix (ip6_lit 0x0064ff9b 0 0 0x08080404) 96 = Inr (ip4_lit 8 8 4 4)"
    by (simp add: extract_from_prefix_def extract_bits_def validate_ip4_addr_def eval_addr)
  have "in6_is_in_net (ip6_lit 0x0064ff9b 0 0 0x08080404) (ip6_lit 0x0064ff9b 0 0 0)
      (snd (calc_ip6_mask in6_zero None (int 96)))"
    by (simp add: in6_is_in_net_def eval_addr)
  then show "v6.pmatch (ip6_lit 0x0064ff9b 0 0 0x08080404) (ip6_lit 0x0064ff9b 0 0 0) 96"
    using pmatch6_iff canon6_calc [of 96 "ip6_lit 0x0064ff9b 0 0 0"] by (simp add: eval_addr)
  show "\<not> (a0 (ip6_lit 0x0064ff9b 0 0 0) = WKPF \<and> a1 (ip6_lit 0x0064ff9b 0 0 0) = 0
      \<and> a2 (ip6_lit 0x0064ff9b 0 0 0) = 0 \<and> True \<and> is_private_ip4_addr (ip4_lit 8 8 4 4) \<noteq> ERROR_NONE)"
    by (simp add: is_private_ip4_addr_def eval_addr)
qed

end
