(* ===== verification/Maps.thy ===== *)
theory Maps
  imports Prefix
begin

text \<open>
  The mapping tables of \<open>src/src/addrmap.c\<close>: \<open>struct map4\<close>, \<open>struct map6\<close> and the operations
  \<open>find_map4\<close>, \<open>find_map6\<close>, \<open>insert_map4\<close>, \<open>insert_map6\<close> on \<open>gcfg.map4_list\<close> and
  \<open>gcfg.map6_list\<close>. The lists are kept by descending prefix length, so the first match is the
  longest one; the locale \<open>lpm_table\<close> states that contract and both tables implement it.

  An embedded structure carries the identity of the object that contains it (\<open>m4_obj\<close>,
  \<open>m6_obj\<close>): \<open>container_of\<close> reads it, and the pointer comparisons of the code compare it.
\<close>

section \<open>Data\<close>

datatype map_type = MAP_TYPE_STATIC | MAP_TYPE_RFC6052 | MAP_TYPE_DYNAMIC_POOL | MAP_TYPE_DYNAMIC_HOST

record map4 =
  m4_addr :: in_addr
  m4_mask :: in_addr
  m4_prefix_len :: nat
  m4_type :: map_type
  m4_obj :: nat

record map6 =
  m6_addr :: in6_addr
  m6_mask :: in6_addr
  m6_prefix_len :: nat
  m6_type :: map_type
  m6_obj :: nat

section \<open>Operations\<close>

fun find_map4 :: "map4 list \<Rightarrow> in_addr \<Rightarrow> map4 option" where
  "find_map4 [] addr4 = None"
| "find_map4 (m # ms) addr4 =
     (if m4_addr m = m4_mask m AND addr4 then Some m else find_map4 ms addr4)"

fun find_map6 :: "map6 list \<Rightarrow> in6_addr \<Rightarrow> map6 option" where
  "find_map6 [] addr6 = None"
| "find_map6 (m # ms) addr6 =
     (if in6_is_in_net addr6 (m6_addr m) (m6_mask m) then Some m else find_map6 ms addr6)"

text \<open>
  The scan of \<open>insert_map4\<close>: \<open>i\<close> is the place of the entry looked at and \<open>pos\<close> the variable
  \<open>insert_pos\<close>. The whole list is scanned, since a conflict may follow the insert position.
\<close>

fun scan_map4 :: "map4 \<Rightarrow> nat \<Rightarrow> nat option \<Rightarrow> map4 list \<Rightarrow> map4 + nat option" where
  "scan_map4 m i pos [] = Inr pos"
| "scan_map4 m i pos (s # ss) =
     (if m4_prefix_len s = m4_prefix_len m \<and> m4_addr s = m4_addr m then Inl s
      else scan_map4 m (i + 1)
        (if m4_prefix_len s < m4_prefix_len m \<and> pos = None then Some i else pos) ss)"

text \<open>\<open>list_add_tail (&m->list, pos)\<close>: before the entry at \<open>pos\<close>, or at the end.\<close>

definition add_before :: "'a \<Rightarrow> nat option \<Rightarrow> 'a list \<Rightarrow> 'a list" where
  "add_before m pos ms = (case pos of Some p \<Rightarrow> take p ms @ m # drop p ms | None \<Rightarrow> ms @ [m])"

definition insert_map4 :: "map4 \<Rightarrow> map4 list \<Rightarrow> map4 + map4 list" where
  "insert_map4 m ms =
     (case scan_map4 m 0 None ms of
        Inl conflict \<Rightarrow> Inl conflict
      | Inr insert_pos \<Rightarrow> Inr (add_before m insert_pos ms))"

fun scan_map6 :: "map6 \<Rightarrow> nat \<Rightarrow> nat option \<Rightarrow> map6 list \<Rightarrow> map6 + nat option" where
  "scan_map6 m i pos [] = Inr pos"
| "scan_map6 m i pos (s # ss) =
     (if m6_prefix_len s < m6_prefix_len m then
        if in6_is_in_net (m6_addr m) (m6_addr s) (m6_mask s) then Inl s
        else scan_map6 m (i + 1) (if pos = None then Some i else pos) ss
      else
        if in6_is_in_net (m6_addr s) (m6_addr m) (m6_mask m) then Inl s
        else scan_map6 m (i + 1) pos ss)"

definition insert_map6 :: "map6 \<Rightarrow> map6 list \<Rightarrow> map6 + map6 list" where
  "insert_map6 m ms =
     (case scan_map6 m 0 None ms of
        Inl conflict \<Rightarrow> Inl conflict
      | Inr insert_pos \<Rightarrow> Inr (add_before m insert_pos ms))"

definition map6_overlaps :: "map6 \<Rightarrow> map6 \<Rightarrow> bool" where
  "map6_overlaps a b \<longleftrightarrow>
     in6_is_in_net (m6_addr a) (m6_addr b) (m6_mask b) \<or> in6_is_in_net (m6_addr b) (m6_addr a) (m6_mask a)"

section \<open>The contract\<close>

text \<open>
  A table of prefixes: lookup returns the longest match, insertion adds one entry and keeps
  the invariant.
\<close>

locale lpm_table =
  fixes find_entry :: "'e list \<Rightarrow> 'a \<Rightarrow> 'e option"
    and insert_entry :: "'e \<Rightarrow> 'e list \<Rightarrow> 'e + 'e list"
    and inv :: "'e list \<Rightarrow> bool"
    and admissible :: "'e \<Rightarrow> bool"
    and covers :: "'e \<Rightarrow> 'a \<Rightarrow> bool"
    and plen :: "'e \<Rightarrow> nat"
  assumes find_None: "inv t \<Longrightarrow> find_entry t a = None \<longleftrightarrow> (\<forall>e\<in>set t. \<not> covers e a)"
    and find_Some: "inv t \<Longrightarrow> find_entry t a = Some e
      \<Longrightarrow> e \<in> set t \<and> covers e a \<and> (\<forall>e'\<in>set t. covers e' a \<longrightarrow> plen e' \<le> plen e)"
    and same_len: "inv t \<Longrightarrow> e \<in> set t \<Longrightarrow> e' \<in> set t \<Longrightarrow> covers e a \<Longrightarrow> covers e' a
      \<Longrightarrow> plen e = plen e' \<Longrightarrow> e = e'"
    and insert_inv: "inv t \<Longrightarrow> admissible e \<Longrightarrow> insert_entry e t = Inr t' \<Longrightarrow> inv t'"
    and insert_set: "insert_entry e t = Inr t' \<Longrightarrow> set t' = insert e (set t)"
begin

lemma find_Some_iff:
  assumes "inv t"
  shows "find_entry t a = Some e \<longleftrightarrow>
    e \<in> set t \<and> covers e a \<and> (\<forall>e'\<in>set t. covers e' a \<longrightarrow> plen e' \<le> plen e)"
proof
  assume r: "e \<in> set t \<and> covers e a \<and> (\<forall>e'\<in>set t. covers e' a \<longrightarrow> plen e' \<le> plen e)"
  then have "find_entry t a \<noteq> None" using find_None [OF assms] by blast
  then obtain f where f: "find_entry t a = Some f" by blast
  from find_Some [OF assms f] r have "plen e = plen f" by (meson le_antisym)
  with f find_Some [OF assms f] r same_len [OF assms] show "find_entry t a = Some e" by blast
qed (rule find_Some [OF assms])

text \<open>Lookup after insertion: the new entry wins exactly where it is the longer match.\<close>

lemma find_insert:
  assumes "inv t" "admissible e" "insert_entry e t = Inr t'" "e \<notin> set t"
  shows "find_entry t' a =
    (case find_entry t a of
       None \<Rightarrow> if covers e a then Some e else None
     | Some f \<Rightarrow> if covers e a \<and> plen f < plen e then Some e else Some f)"
proof -
  have i: "inv t'" by (rule insert_inv [OF assms(1,2,3)])
  have s: "set t' = insert e (set t)" by (rule insert_set [OF assms(3)])
  show ?thesis
  proof (cases "find_entry t a")
    case None
    then show ?thesis using find_None [OF assms(1), of a] find_Some_iff [OF i, of a e] find_None [OF i, of a] s
      by auto
  next
    case (Some f)
    note f = find_Some [OF assms(1) Some]
    have "\<not> (covers e a \<and> plen f = plen e)"
      using same_len [OF i, of f e a] f s assms(4) by auto
    then show ?thesis using Some f s find_Some_iff [OF i, of a e] find_Some_iff [OF i, of a f] by auto
  qed
qed

lemma find_found: "inv t \<Longrightarrow> find_entry t a = Some e \<Longrightarrow> e \<in> set t \<and> covers e a"
  using find_Some by blast

end

section \<open>Sorted insertion\<close>

lemma add_before_shape:
  "add_before m (if \<exists>s\<in>set ms. \<not> P s then Some (length (takeWhile P ms)) else None) ms
    = takeWhile P ms @ m # dropWhile P ms"
proof (cases "\<exists>s\<in>set ms. \<not> P s")
  case True
  have "take (length (takeWhile P ms)) ms = takeWhile P ms" "drop (length (takeWhile P ms)) ms = dropWhile P ms"
    by (simp_all flip: takeWhile_eq_take dropWhile_eq_drop)
  with True show ?thesis by (simp add: add_before_def)
next
  case False
  then have e: "takeWhile P ms = ms" "dropWhile P ms = []"
    by (simp_all add: takeWhile_eq_all_conv dropWhile_eq_Nil_conv)
  show ?thesis using False unfolding e add_before_def by simp
qed

lemma set_insert_shape: "set (takeWhile P ms @ m # dropWhile P ms) = insert m (set ms)"
proof -
  have "set ms = set (takeWhile P ms) \<union> set (dropWhile P ms)"
    by (metis set_append takeWhile_dropWhile_id)
  then show ?thesis by auto
qed

lemma sorted_insert_shape:
  fixes f :: "'e \<Rightarrow> nat"
  assumes "sorted_wrt (\<lambda>a b. f b \<le> f a) ms"
  shows "sorted_wrt (\<lambda>a b. f b \<le> f a)
    (takeWhile (\<lambda>s. f m \<le> f s) ms @ m # dropWhile (\<lambda>s. f m \<le> f s) ms)"
proof -
  let ?P = "\<lambda>s. f m \<le> f s"
  let ?t = "takeWhile ?P ms" and ?d = "dropWhile ?P ms"
  have s: "sorted_wrt (\<lambda>a b. f b \<le> f a) (?t @ ?d)" using assms by simp
  have t: "\<forall>x\<in>set ?t. f m \<le> f x" by (auto dest: set_takeWhileD)
  have d: "\<forall>x\<in>set ?d. f x < f m"
  proof (cases ?d)
    case Nil
    then show ?thesis by (metis empty_iff empty_set)
  next
    case (Cons y ys)
    then have "\<not> ?P y" by (metis dropWhile_eq_Cons_conv)
    moreover have "\<forall>x\<in>set ys. f x \<le> f y" using s Cons by (simp add: sorted_wrt_append)
    ultimately show ?thesis using Cons by fastforce
  qed
  show ?thesis using s t d by (fastforce simp: sorted_wrt_append)
qed

lemma distinct_map_insert:
  "distinct (map f (xs @ ys)) \<Longrightarrow> f m \<notin> f ` set (xs @ ys) \<Longrightarrow> distinct (map f (xs @ m # ys))"
  by auto

lemma sorted_wrt_insert:
  "(\<And>x y. R x y \<Longrightarrow> R y x) \<Longrightarrow> sorted_wrt R (xs @ ys) \<Longrightarrow> \<forall>x\<in>set (xs @ ys). R m x
    \<Longrightarrow> sorted_wrt R (xs @ m # ys)"
  by (auto simp: sorted_wrt_append)

section \<open>The IPv4 table\<close>

definition wf_map4 :: "map4 \<Rightarrow> bool" where
  "wf_map4 m \<longleftrightarrow> is_mask4 (m4_mask m) (m4_prefix_len m) \<and> v4.canon (m4_addr m) (m4_prefix_len m)"

definition covers4 :: "map4 \<Rightarrow> in_addr \<Rightarrow> bool" where
  "covers4 m a \<longleftrightarrow> v4.pmatch a (m4_addr m) (m4_prefix_len m)"

definition table4 :: "map4 list \<Rightarrow> bool" where
  "table4 ms \<longleftrightarrow> (\<forall>m\<in>set ms. wf_map4 m)
     \<and> sorted_wrt (\<lambda>a b. m4_prefix_len b \<le> m4_prefix_len a) ms
     \<and> distinct (map (\<lambda>m. (m4_prefix_len m, m4_addr m)) ms)"

lemma covers4_test: "wf_map4 m \<Longrightarrow> m4_addr m = m4_mask m AND a \<longleftrightarrow> covers4 m a"
  unfolding wf_map4_def covers4_def by (intro pmatch4_iff) simp

lemma find_map4_eq: "(\<forall>m\<in>set ms. wf_map4 m) \<Longrightarrow> find_map4 ms a = List.find (\<lambda>m. covers4 m a) ms"
  by (induction ms) (simp_all add: covers4_test)

lemma scan_map4_eq:
  "scan_map4 m i pos ms =
     (case List.find (\<lambda>s. m4_prefix_len s = m4_prefix_len m \<and> m4_addr s = m4_addr m) ms of
        Some s \<Rightarrow> Inl s
      | None \<Rightarrow> Inr (case pos of Some p \<Rightarrow> Some p
                  | None \<Rightarrow> if \<exists>s\<in>set ms. \<not> m4_prefix_len m \<le> m4_prefix_len s
                      then Some (i + length (takeWhile (\<lambda>s. m4_prefix_len m \<le> m4_prefix_len s) ms))
                      else None))"
  by (induction ms arbitrary: i pos) (auto split: option.splits simp: not_le)

lemma insert_map4_eq:
  "insert_map4 m ms =
     (case List.find (\<lambda>s. m4_prefix_len s = m4_prefix_len m \<and> m4_addr s = m4_addr m) ms of
        Some s \<Rightarrow> Inl s
      | None \<Rightarrow> Inr (takeWhile (\<lambda>s. m4_prefix_len m \<le> m4_prefix_len s) ms @ m
                   # dropWhile (\<lambda>s. m4_prefix_len m \<le> m4_prefix_len s) ms))"
  unfolding insert_map4_def scan_map4_eq add_before_shape [symmetric]
  by (auto split: option.split)

lemma find_SomeD: "List.find P xs = Some x \<Longrightarrow> x \<in> set xs \<and> P x"
  by (induction xs) (auto split: if_splits)

lemma find_sorted:
  fixes f :: "'e \<Rightarrow> nat"
  shows "sorted_wrt (\<lambda>a b. f b \<le> f a) ms \<Longrightarrow> List.find P ms = Some x
    \<Longrightarrow> \<forall>y\<in>set ms. P y \<longrightarrow> f y \<le> f x"
  by (induction ms) (auto split: if_splits)

lemma insert_map4_set: "insert_map4 m ms = Inr ms' \<Longrightarrow> set ms' = insert m (set ms)"
  unfolding insert_map4_eq by (auto simp: set_insert_shape simp del: set_append split: option.splits)

lemma insert_map4_table:
  assumes "table4 ms" "wf_map4 m" "insert_map4 m ms = Inr ms'"
  shows "table4 ms'"
proof -
  let ?P = "\<lambda>s. m4_prefix_len m \<le> m4_prefix_len s"
  let ?key = "\<lambda>m. (m4_prefix_len m, m4_addr m)"
  have ms': "ms' = takeWhile ?P ms @ m # dropWhile ?P ms"
    and n: "\<forall>s\<in>set ms. ?key s \<noteq> ?key m"
    using assms(3) unfolding insert_map4_eq by (auto split: option.splits simp: find_None_iff)
  have "\<forall>x\<in>set ms'. wf_map4 x"
    using assms(1,2) insert_map4_set [OF assms(3)] by (auto simp: table4_def)
  moreover have "sorted_wrt (\<lambda>a b. m4_prefix_len b \<le> m4_prefix_len a) ms'"
    unfolding ms' using assms(1) by (intro sorted_insert_shape) (simp add: table4_def)
  moreover have "distinct (map ?key ms')"
  proof -
    have "distinct (map ?key (takeWhile ?P ms @ dropWhile ?P ms))"
      using assms(1) by (simp add: table4_def del: map_append)
    moreover have "?key m \<notin> ?key ` set (takeWhile ?P ms @ dropWhile ?P ms)"
      using n by (simp del: set_append) (metis (no_types, lifting) Pair_inject imageE)
    ultimately show ?thesis unfolding ms' by (rule distinct_map_insert)
  qed
  ultimately show ?thesis by (simp add: table4_def)
qed

interpretation t4: lpm_table find_map4 insert_map4 table4 wf_map4 covers4 m4_prefix_len
proof unfold_locales
  fix t a
  assume t: "table4 t"
  then have f: "find_map4 t a = List.find (\<lambda>m. covers4 m a) t"
    by (intro find_map4_eq) (simp add: table4_def)
  show "find_map4 t a = None \<longleftrightarrow> (\<forall>e\<in>set t. \<not> covers4 e a)"
    unfolding f find_None_iff by blast
  fix e
  show "find_map4 t a = Some e \<Longrightarrow>
      e \<in> set t \<and> covers4 e a \<and> (\<forall>e'\<in>set t. covers4 e' a \<longrightarrow> m4_prefix_len e' \<le> m4_prefix_len e)"
    using find_SomeD [of _ t e] find_sorted [of m4_prefix_len t _ e] t unfolding f table4_def by blast
  fix e'
  assume "e \<in> set t" "e' \<in> set t" "covers4 e a" "covers4 e' a" "m4_prefix_len e = m4_prefix_len e'"
  moreover from this have "m4_addr e = m4_addr e'" unfolding covers4_def by (metis v4.pmatch_same)
  ultimately show "e = e'" using t by (auto simp: table4_def distinct_map inj_on_def)
next
  show "\<And>t e t'. table4 t \<Longrightarrow> wf_map4 e \<Longrightarrow> insert_map4 e t = Inr t' \<Longrightarrow> table4 t'"
    by (rule insert_map4_table)
  show "\<And>t e t'. insert_map4 e t = Inr t' \<Longrightarrow> set t' = insert e (set t)"
    by (rule insert_map4_set)
qed

section \<open>The IPv6 table\<close>

definition wf_map6 :: "map6 \<Rightarrow> bool" where
  "wf_map6 m \<longleftrightarrow> is_mask6 (m6_mask m) (m6_prefix_len m) \<and> v6.canon (m6_addr m) (m6_prefix_len m)"

definition covers6 :: "map6 \<Rightarrow> in6_addr \<Rightarrow> bool" where
  "covers6 m a \<longleftrightarrow> v6.pmatch a (m6_addr m) (m6_prefix_len m)"

text \<open>Two entries are disjoint when no address matches both.\<close>

definition disjoint6 :: "map6 \<Rightarrow> map6 \<Rightarrow> bool" where
  "disjoint6 s m \<longleftrightarrow> (\<forall>a. \<not> (covers6 s a \<and> covers6 m a))"

definition table6 :: "map6 list \<Rightarrow> bool" where
  "table6 ms \<longleftrightarrow> (\<forall>m\<in>set ms. wf_map6 m)
     \<and> sorted_wrt (\<lambda>a b. m6_prefix_len b \<le> m6_prefix_len a) ms \<and> sorted_wrt disjoint6 ms"

lemma covers6_test: "wf_map6 m \<Longrightarrow> in6_is_in_net a (m6_addr m) (m6_mask m) \<longleftrightarrow> covers6 m a"
  unfolding wf_map6_def covers6_def by (intro pmatch6_iff) simp

lemma covers6_self: "wf_map6 m \<Longrightarrow> covers6 m (m6_addr m)"
  unfolding covers6_def wf_map6_def by (intro v6.pmatch_refl) simp

lemma disjoint6_sym: "disjoint6 a b \<Longrightarrow> disjoint6 b a"
  by (auto simp: disjoint6_def)

lemma find_map6_eq: "(\<forall>m\<in>set ms. wf_map6 m) \<Longrightarrow> find_map6 ms a = List.find (\<lambda>m. covers6 m a) ms"
  by (induction ms) (simp_all add: covers6_test)

text \<open>The conflict test of the scan is overlap of the two blocks.\<close>

definition conflict6 :: "map6 \<Rightarrow> map6 \<Rightarrow> bool" where
  "conflict6 m s \<longleftrightarrow>
     (if m6_prefix_len s < m6_prefix_len m then in6_is_in_net (m6_addr m) (m6_addr s) (m6_mask s)
      else in6_is_in_net (m6_addr s) (m6_addr m) (m6_mask m))"

lemma overlap_iff:
  assumes "wf_map6 m" "wf_map6 s" "m6_prefix_len s \<le> m6_prefix_len m"
  shows "covers6 s (m6_addr m) \<longleftrightarrow> \<not> disjoint6 m s"
  using assms covers6_self [OF assms(1)] v6.pmatch_nested [of _ "m6_addr s" "m6_prefix_len s" "m6_addr m" "m6_prefix_len m"]
  unfolding disjoint6_def covers6_def by blast

lemma conflict6_iff: "wf_map6 m \<Longrightarrow> wf_map6 s \<Longrightarrow> conflict6 m s \<longleftrightarrow> \<not> disjoint6 m s"
  using overlap_iff [of m s] overlap_iff [of s m] disjoint6_sym
  by (auto simp: conflict6_def covers6_test)

lemma map6_overlaps_iff:
  assumes "wf_map6 a" "wf_map6 b"
  shows "map6_overlaps a b \<longleftrightarrow> \<not> disjoint6 a b"
proof -
  have o: "map6_overlaps a b \<longleftrightarrow> covers6 b (m6_addr a) \<or> covers6 a (m6_addr b)"
    using assms by (simp add: map6_overlaps_def covers6_test)
  have d: "map6_overlaps a b \<Longrightarrow> \<not> disjoint6 a b"
    using covers6_self [OF assms(1)] covers6_self [OF assms(2)] unfolding o disjoint6_def by blast
  show ?thesis
  proof (cases "m6_prefix_len b \<le> m6_prefix_len a")
    case True
    then show ?thesis using overlap_iff [OF assms] d o by blast
  next
    case False
    then show ?thesis using overlap_iff [OF assms(2,1)] d o disjoint6_sym by (meson nat_le_linear)
  qed
qed

lemma scan_map6_eq:
  "scan_map6 m i pos ms =
     (case List.find (conflict6 m) ms of
        Some s \<Rightarrow> Inl s
      | None \<Rightarrow> Inr (case pos of Some p \<Rightarrow> Some p
                  | None \<Rightarrow> if \<exists>s\<in>set ms. \<not> m6_prefix_len m \<le> m6_prefix_len s
                      then Some (i + length (takeWhile (\<lambda>s. m6_prefix_len m \<le> m6_prefix_len s) ms))
                      else None))"
  by (induction ms arbitrary: i pos) (auto split: option.splits simp: not_le conflict6_def)

lemma insert_map6_eq:
  "insert_map6 m ms =
     (case List.find (conflict6 m) ms of
        Some s \<Rightarrow> Inl s
      | None \<Rightarrow> Inr (takeWhile (\<lambda>s. m6_prefix_len m \<le> m6_prefix_len s) ms @ m
                   # dropWhile (\<lambda>s. m6_prefix_len m \<le> m6_prefix_len s) ms))"
  unfolding insert_map6_def scan_map6_eq add_before_shape [symmetric]
  by (auto split: option.split)

lemma insert_map6_set: "insert_map6 m ms = Inr ms' \<Longrightarrow> set ms' = insert m (set ms)"
  unfolding insert_map6_eq by (auto simp: set_insert_shape simp del: set_append split: option.splits)

lemma insert_map6_table:
  assumes "table6 ms" "wf_map6 m" "insert_map6 m ms = Inr ms'"
  shows "table6 ms'"
proof -
  let ?P = "\<lambda>s. m6_prefix_len m \<le> m6_prefix_len s"
  have ms': "ms' = takeWhile ?P ms @ m # dropWhile ?P ms" and n: "\<forall>s\<in>set ms. \<not> conflict6 m s"
    using assms(3) unfolding insert_map6_eq by (auto split: option.splits simp: find_None_iff)
  have "\<forall>x\<in>set ms'. wf_map6 x"
    using assms(1,2) insert_map6_set [OF assms(3)] by (auto simp: table6_def)
  moreover have "sorted_wrt (\<lambda>a b. m6_prefix_len b \<le> m6_prefix_len a) ms'"
    unfolding ms' using assms(1) by (intro sorted_insert_shape) (simp add: table6_def)
  moreover have "sorted_wrt disjoint6 ms'"
    unfolding ms'
  proof (rule sorted_wrt_insert)
    show "sorted_wrt disjoint6 (takeWhile ?P ms @ dropWhile ?P ms)"
      using assms(1) by (simp add: table6_def)
    show "\<forall>x\<in>set (takeWhile ?P ms @ dropWhile ?P ms). disjoint6 m x"
      using n assms(1,2) conflict6_iff [of m] unfolding takeWhile_dropWhile_id table6_def by blast
  qed (rule disjoint6_sym)
  ultimately show ?thesis by (simp add: table6_def)
qed

lemma sorted_wrt_pair:
  "sorted_wrt R xs \<Longrightarrow> (\<And>x y. R x y \<Longrightarrow> R y x) \<Longrightarrow> x \<in> set xs \<Longrightarrow> y \<in> set xs \<Longrightarrow> x = y \<or> R x y"
  by (induction xs) auto

lemma table6_unique:
  "table6 t \<Longrightarrow> e \<in> set t \<Longrightarrow> e' \<in> set t \<Longrightarrow> covers6 e a \<Longrightarrow> covers6 e' a \<Longrightarrow> e = e'"
  using sorted_wrt_pair [of disjoint6 t e e', OF _ disjoint6_sym] unfolding table6_def disjoint6_def by blast

interpretation t6: lpm_table find_map6 insert_map6 table6 wf_map6 covers6 m6_prefix_len
proof unfold_locales
  fix t a
  assume t: "table6 t"
  then have f: "find_map6 t a = List.find (\<lambda>m. covers6 m a) t"
    by (intro find_map6_eq) (simp add: table6_def)
  show "find_map6 t a = None \<longleftrightarrow> (\<forall>e\<in>set t. \<not> covers6 e a)"
    unfolding f find_None_iff by blast
  fix e
  show "find_map6 t a = Some e \<Longrightarrow>
      e \<in> set t \<and> covers6 e a \<and> (\<forall>e'\<in>set t. covers6 e' a \<longrightarrow> m6_prefix_len e' \<le> m6_prefix_len e)"
    using find_SomeD [of _ t e] find_sorted [of m6_prefix_len t _ e] t unfolding f table6_def by blast
  fix e'
  assume "e \<in> set t" "e' \<in> set t" "covers6 e a" "covers6 e' a" "m6_prefix_len e = m6_prefix_len e'"
  then show "e = e'" using t table6_unique by blast
next
  show "\<And>t e t'. table6 t \<Longrightarrow> wf_map6 e \<Longrightarrow> insert_map6 e t = Inr t' \<Longrightarrow> table6 t'"
    by (rule insert_map6_table)
  show "\<And>t e t'. insert_map6 e t = Inr t' \<Longrightarrow> set t' = insert e (set t)"
    by (rule insert_map6_set)
qed

text \<open>Removing entries keeps both invariants.\<close>

lemma table4_filter: "table4 ms \<Longrightarrow> table4 (filter P ms)"
  by (auto simp: table4_def sorted_wrt_filter distinct_map_filter)

lemma table6_filter: "table6 ms \<Longrightarrow> table6 (filter P ms)"
  by (auto simp: table6_def sorted_wrt_filter)

end
