(* ===== verification/State.thy ===== *)
theory State
  imports Maps
begin

text \<open>
  The data of \<open>src/src/tayga.h\<close> beside packets: cache entries, static and dynamic mappings, the
  dynamic pool, and \<open>struct config\<close> (\<open>gcfg\<close>) with the clock \<open>now\<close>. Objects the C code reaches
  through pointers live in stores indexed by identities; a linked list is the list of the
  identities it links, in order, and the operations of \<open>list.h\<close> act on it. Mutual exclusion is
  not modelled: an operation runs while it holds its locks.
\<close>

section \<open>Lists of objects\<close>

text \<open>
  \<open>list_add\<close> and \<open>list_add_tail\<close> first unlink the entry from the list it is on, so moving an
  entry between lists is removing it from the one and adding it to the other.
\<close>

definition list_del :: "'a \<Rightarrow> 'a list \<Rightarrow> 'a list" where
  "list_del x xs = filter (\<lambda>y. y \<noteq> x) xs"

definition list_add :: "'a \<Rightarrow> 'a list \<Rightarrow> 'a list" where
  "list_add x xs = x # list_del x xs"

definition list_add_tail :: "'a \<Rightarrow> 'a list \<Rightarrow> 'a list" where
  "list_add_tail x xs = list_del x xs @ [x]"

text \<open>\<open>list_add (x, f)\<close> and \<open>list_add_tail (x, f)\<close> with an entry \<open>f\<close> in place of the head.\<close>

fun list_add_after :: "'a \<Rightarrow> 'a \<Rightarrow> 'a list \<Rightarrow> 'a list" where
  "list_add_after x f [] = []"
| "list_add_after x f (y # ys) = (if y = f then y # x # ys else y # list_add_after x f ys)"

lemma set_list_del [simp]: "set (list_del x xs) = set xs - {x}"
  by (auto simp: list_del_def)

lemma set_list_add [simp]: "set (list_add x xs) = insert x (set xs)"
  by (auto simp: list_add_def)

lemma set_list_add_tail [simp]: "set (list_add_tail x xs) = insert x (set xs)"
  by (auto simp: list_add_tail_def)

lemma distinct_list_del: "distinct xs \<Longrightarrow> distinct (list_del x xs)"
  by (simp add: list_del_def)

lemma distinct_list_add [simp]: "distinct (list_add x xs) = distinct (list_del x xs)"
  by (simp add: list_add_def)

lemma distinct_list_add_tail [simp]: "distinct (list_add_tail x xs) = distinct (list_del x xs)"
  by (simp add: list_add_tail_def)

lemma list_del_notin [simp]: "x \<notin> set xs \<Longrightarrow> list_del x xs = xs"
  by (induction xs) (auto simp: list_del_def)

lemma list_del_Cons: "list_del x (y # ys) = (if y = x then list_del x ys else y # list_del x ys)"
  by (simp add: list_del_def)

lemma set_list_add_after: "f \<in> set xs \<Longrightarrow> set (list_add_after x f xs) = insert x (set xs)"
  by (induction xs) auto

lemma list_add_after_split: "f \<notin> set xs \<Longrightarrow> list_add_after x f (xs @ f # ys) = xs @ f # x # ys"
  by (induction xs) auto

section \<open>Data\<close>

record cache_entry =
  c_addr6 :: in6_addr
  c_addr4 :: in_addr
  c_last_use :: int
  c_flags :: u32
  c_ip4_ident :: u16

definition CACHE_F_REP_AGEOUT :: u32 where "CACHE_F_REP_AGEOUT = 8"
definition CACHE_MAX_AGE :: int where "CACHE_MAX_AGE = 120"
definition CACHE_CHECK_INTERVAL :: int where "CACHE_CHECK_INTERVAL = 5"
definition POOL_CHECK_INTERVAL :: int where "POOL_CHECK_INTERVAL = 45"

datatype map_origin = MAP_ORIGIN_SELF | MAP_ORIGIN_CONFFILE | MAP_ORIGIN_MAPFILE

record map_static =
  ms_map4 :: map4
  ms_map6 :: map6
  ms_line_no :: int
  ms_origin :: map_origin

record free_addr =
  fa_addr :: u32
  fa_count :: u32

record map_dynamic =
  d_map4 :: map4
  d_map6 :: map6
  d_cache_entry :: "nat option"
  d_last_use :: int
  d_free :: free_addr

text \<open>An entry of the free list is the pool's own \<open>free_head\<close> or the one in a lease.\<close>

datatype free_ref = Free_Head | Free_Of nat

record dynamic_pool =
  dp_map4 :: map4
  dp_mapped :: "nat list"
  dp_dormant :: "nat list"
  dp_free :: "free_ref list"
  dp_free_head :: free_addr

datatype udp_cksum_mode = UDP_CKSUM_DROP | UDP_CKSUM_CALC | UDP_CKSUM_FWD

text \<open>
  The state: the fields of \<open>gcfg\<close> the modelled code reads or writes, the clock, the object
  stores and the allocator. \<open>g_alloc\<close> supplies the identities \<open>malloc\<close> returns; when it is
  empty, \<open>malloc\<close> returns a null pointer.
\<close>

record gstate =
  g_mtu :: u16
  g_local_addr4 :: in_addr
  g_local_addr6 :: in6_addr
  g_map4_list :: "map4 list"
  g_map6_list :: "map6 list"
  g_data_dir :: bool
  g_dyn_min_lease :: int
  g_dyn_max_lease :: int
  g_max_commit_delay :: int
  g_dynamic_pool :: "dynamic_pool option"
  g_hash_bits :: nat
  g_cache_size :: nat
  g_rand :: "nat \<Rightarrow> u32"
  g_cache_pool :: "nat list"
  g_cache_active :: "nat list"
  g_hash_table4 :: "nat \<Rightarrow> nat list"
  g_hash_table6 :: "nat \<Rightarrow> nat list"
  g_last_map_write :: int
  g_map_write_pending :: bool
  g_ipv6_offlink_mtu :: u32
  g_wkpf_strict :: bool
  g_udp_cksum_mode :: udp_cksum_mode
  g_now :: int
  g_entry :: "nat \<Rightarrow> cache_entry"
  g_static :: "nat \<Rightarrow> map_static option"
  g_dyn :: "nat \<Rightarrow> map_dynamic option"
  g_alloc :: "nat list"

end
