(* ===== verification/Cache.thy ===== *)
theory Cache
  imports State
begin

text \<open>
  The address cache of \<open>src/src/addrmap.c\<close>: \<open>hash_ip4\<close>, \<open>hash_ip6\<close>, \<open>create_cache\<close>,
  \<open>cache_insert\<close>, the lookups at the head of \<open>map_ip4_to_ip6\<close> and \<open>map_ip6_to_ip4\<close>,
  \<open>report_ageout\<close> and \<open>addrmap_maint\<close>. A cache entry is on exactly one of \<open>cache_pool\<close> and
  \<open>cache_active\<close>; an active one is in the bucket of each table its addresses hash to.
\<close>

section \<open>Hashing\<close>

definition hash_ip4 :: "gstate \<Rightarrow> in_addr \<Rightarrow> nat" where
  "hash_ip4 g addr4 = unat (drop_bit (32 - g_hash_bits g) (addr4 * g_rand g 0))"

definition hash_ip6 :: "gstate \<Rightarrow> in6_addr \<Rightarrow> nat" where
  "hash_ip6 g addr6 =
     (let h = a0 addr6 + g_rand g 0;
          h = h XOR (a1 addr6 + g_rand g 1);
          h = h XOR (a2 addr6 + g_rand g 2);
          h = h XOR (a3 addr6 + g_rand g 3)
      in unat (drop_bit (32 - g_hash_bits g) h))"

section \<open>Operations\<close>

definition add_to_hash_table :: "nat \<Rightarrow> nat \<Rightarrow> nat \<Rightarrow> gstate \<Rightarrow> gstate" where
  "add_to_hash_table c hash4 hash6 g =
     g\<lparr>g_hash_table4 := (g_hash_table4 g)(hash4 := list_add c (g_hash_table4 g hash4)),
       g_hash_table6 := (g_hash_table6 g)(hash6 := list_add c (g_hash_table6 g hash6))\<rparr>"

text \<open>
  \<open>list_del\<close> of an entry's \<open>hash4\<close> and \<open>hash6\<close> nodes takes it off whatever bucket it is on.
\<close>

definition unhash :: "nat \<Rightarrow> gstate \<Rightarrow> gstate" where
  "unhash c g = g\<lparr>g_hash_table4 := (\<lambda>h. list_del c (g_hash_table4 g h)),
                  g_hash_table6 := (\<lambda>h. list_del c (g_hash_table6 g h))\<rparr>"

text \<open>
  \<open>create_cache\<close>: fresh tables; a first call also allocates the entries, a later one files the
  active entries again. \<open>mem_ok\<close> says whether its allocations succeed; the storage allocated is
  \<open>[0..<cache_size]\<close>.
\<close>

definition rehash :: "nat \<Rightarrow> gstate \<Rightarrow> gstate" where
  "rehash c g = add_to_hash_table c (hash_ip4 g (c_addr4 (g_entry g c))) (hash_ip6 g (c_addr6 (g_entry g c))) g"

definition zero_entry :: cache_entry where
  "zero_entry = \<lparr>c_addr6 = in6_zero, c_addr4 = 0, c_last_use = 0, c_flags = 0, c_ip4_ident = 0\<rparr>"

definition create_cache :: "bool \<Rightarrow> gstate \<Rightarrow> err \<times> gstate" where
  "create_cache mem_ok g =
     (let new_pool = g_cache_pool g = [] \<and> g_cache_active g = []
      in if \<not> mem_ok then (ERROR_REJECT, g)
         else
           (let g = g\<lparr>g_hash_table4 := (\<lambda>_. []), g_hash_table6 := (\<lambda>_. [])\<rparr>
            in (ERROR_NONE,
                if new_pool then
                  g\<lparr>g_cache_pool := fold list_add_tail [0..<g_cache_size g] (g_cache_pool g),
                    g_entry := (\<lambda>c. if c < g_cache_size g then zero_entry else g_entry g c)\<rparr>
                else fold rehash (g_cache_active g) g)))"

text \<open>The lookup loops over one bucket.\<close>

fun bucket_find4 :: "(nat \<Rightarrow> cache_entry) \<Rightarrow> in_addr \<Rightarrow> nat list \<Rightarrow> nat option" where
  "bucket_find4 ent addr4 [] = None"
| "bucket_find4 ent addr4 (c # cs) =
     (if addr4 = c_addr4 (ent c) then Some c else bucket_find4 ent addr4 cs)"

fun bucket_find6 :: "(nat \<Rightarrow> cache_entry) \<Rightarrow> in6_addr \<Rightarrow> nat list \<Rightarrow> nat option" where
  "bucket_find6 ent addr6 [] = None"
| "bucket_find6 ent addr6 (c # cs) =
     (if addr6 = c_addr6 (ent c) then Some c else bucket_find6 ent addr6 cs)"

fun bucket_find_pair :: "(nat \<Rightarrow> cache_entry) \<Rightarrow> in_addr \<Rightarrow> in6_addr \<Rightarrow> nat list \<Rightarrow> nat option" where
  "bucket_find_pair ent addr4 addr6 [] = None"
| "bucket_find_pair ent addr4 addr6 (c # cs) =
     (if c_addr4 (ent c) = addr4 \<and> c_addr6 (ent c) = addr6 then Some c
      else bucket_find_pair ent addr4 addr6 cs)"

definition touch :: "nat \<Rightarrow> gstate \<Rightarrow> gstate" where
  "touch c g = g\<lparr>g_entry := (g_entry g)(c := (g_entry g c)\<lparr>c_last_use := g_now g\<rparr>)\<rparr>"

definition cache_lookup4 :: "in_addr \<Rightarrow> gstate \<Rightarrow> (in6_addr \<times> gstate) option" where
  "cache_lookup4 addr4 g =
     (case bucket_find4 (g_entry g) addr4 (g_hash_table4 g (hash_ip4 g addr4)) of
        Some c \<Rightarrow> Some (c_addr6 (g_entry g c), touch c g)
      | None \<Rightarrow> None)"

definition cache_lookup6 :: "in6_addr \<Rightarrow> gstate \<Rightarrow> (in_addr \<times> gstate) option" where
  "cache_lookup6 addr6 g =
     (case bucket_find6 (g_entry g) addr6 (g_hash_table6 g (hash_ip6 g addr6)) of
        Some c \<Rightarrow> Some (c_addr4 (g_entry g c), touch c g)
      | None \<Rightarrow> None)"

definition cache_insert ::
  "in_addr \<Rightarrow> in6_addr \<Rightarrow> nat \<Rightarrow> nat \<Rightarrow> gstate \<Rightarrow> nat option \<times> gstate" where
  "cache_insert addr4 addr6 hash4 hash6 g =
     (case bucket_find_pair (g_entry g) addr4 addr6 (g_hash_table4 g hash4) of
        Some c \<Rightarrow> (Some c, touch c g)
      | None \<Rightarrow>
          (case g_cache_pool g of
             [] \<Rightarrow> (None, g)
           | c # _ \<Rightarrow>
               (let g = g\<lparr>g_entry := (g_entry g)(c := \<lparr>c_addr6 = addr6, c_addr4 = addr4,
                            c_last_use = g_now g, c_flags = 0, c_ip4_ident = 1\<rparr>)\<rparr>;
                    g = g\<lparr>g_cache_pool := list_del c (g_cache_pool g),
                          g_cache_active := list_add c (g_cache_active g)\<rparr>
                in (Some c, add_to_hash_table c hash4 hash6 g))))"

definition set_d :: "nat \<Rightarrow> map_dynamic \<Rightarrow> gstate \<Rightarrow> gstate" where
  "set_d i d g = g\<lparr>g_dyn := (g_dyn g)(i \<mapsto> d)\<rparr>"

definition report_ageout :: "nat \<Rightarrow> gstate \<Rightarrow> gstate" where
  "report_ageout c g =
     (case find_map4 (g_map4_list g) (c_addr4 (g_entry g c)) of
        None \<Rightarrow> g
      | Some m4 \<Rightarrow>
          if m4_type m4 \<noteq> MAP_TYPE_DYNAMIC_HOST then g
          else (case g_dyn g (m4_obj m4) of
                  None \<Rightarrow> g
                | Some d \<Rightarrow>
                    if d_cache_entry d = Some c
                    then set_d (m4_obj m4) (d\<lparr>d_last_use := c_last_use (g_entry g c), d_cache_entry := None\<rparr>) g
                    else g))"

text \<open>Retiring an entry: the body both \<open>addrmap_maint\<close> and \<open>addrmap_reload\<close> run.\<close>

definition retire :: "nat \<Rightarrow> gstate \<Rightarrow> gstate" where
  "retire c g =
     (let g = (if c_flags (g_entry g c) AND CACHE_F_REP_AGEOUT \<noteq> 0 then report_ageout c g else g);
          g = g\<lparr>g_cache_active := list_del c (g_cache_active g),
                g_cache_pool := list_add c (g_cache_pool g)\<rparr>
      in unhash c g)"

definition maint_entry :: "nat \<Rightarrow> gstate \<Rightarrow> gstate" where
  "maint_entry c g =
     (if c_last_use (g_entry g c) + CACHE_MAX_AGE < g_now g then retire c g else g)"

definition addrmap_maint :: "gstate \<Rightarrow> gstate" where
  "addrmap_maint g = fold maint_entry (g_cache_active g) g"

section \<open>Invariant\<close>

definition ent4 :: "gstate \<Rightarrow> nat \<Rightarrow> in_addr" where
  "ent4 g c = c_addr4 (g_entry g c)"

definition ent6 :: "gstate \<Rightarrow> nat \<Rightarrow> in6_addr" where
  "ent6 g c = c_addr6 (g_entry g c)"

definition cache_inv :: "gstate \<Rightarrow> bool" where
  "cache_inv g \<longleftrightarrow>
     distinct (g_cache_pool g @ g_cache_active g)
     \<and> (\<forall>h. distinct (g_hash_table4 g h) \<and> distinct (g_hash_table6 g h))
     \<and> (\<forall>h. set (g_hash_table4 g h) = {c \<in> set (g_cache_active g). hash_ip4 g (ent4 g c) = h})
     \<and> (\<forall>h. set (g_hash_table6 g h) = {c \<in> set (g_cache_active g). hash_ip6 g (ent6 g c) = h})
     \<and> inj_on (\<lambda>c. (ent4 g c, ent6 g c)) (set (g_cache_active g))"

text \<open>What the cache holds: the set of address pairs.\<close>

definition cache_pairs :: "gstate \<Rightarrow> (in_addr \<times> in6_addr) set" where
  "cache_pairs g = (\<lambda>c. (ent4 g c, ent6 g c)) ` set (g_cache_active g)"

text \<open>The fields of the state that the cache operations read beside the cache itself.\<close>

lemma hash_cong:
  "g_hash_bits g = g_hash_bits g' \<Longrightarrow> g_rand g = g_rand g' \<Longrightarrow> hash_ip4 g = hash_ip4 g'"
  "g_hash_bits g = g_hash_bits g' \<Longrightarrow> g_rand g = g_rand g' \<Longrightarrow> hash_ip6 g = hash_ip6 g'"
  by (rule ext, simp add: hash_ip4_def, rule ext, simp add: hash_ip6_def Let_def)

lemma hash_update [simp]:
  "hash_ip4 (g_entry_update f g) = hash_ip4 g" "hash_ip6 (g_entry_update f g) = hash_ip6 g"
  "hash_ip4 (g_cache_pool_update f1 g) = hash_ip4 g" "hash_ip6 (g_cache_pool_update f1 g) = hash_ip6 g"
  "hash_ip4 (g_cache_active_update f1 g) = hash_ip4 g" "hash_ip6 (g_cache_active_update f1 g) = hash_ip6 g"
  "hash_ip4 (g_hash_table4_update f2 g) = hash_ip4 g" "hash_ip6 (g_hash_table4_update f2 g) = hash_ip6 g"
  "hash_ip4 (g_hash_table6_update f2 g) = hash_ip4 g" "hash_ip6 (g_hash_table6_update f2 g) = hash_ip6 g"
  "hash_ip4 (g_dyn_update f3 g) = hash_ip4 g" "hash_ip6 (g_dyn_update f3 g) = hash_ip6 g"
  by (rule hash_cong; simp)+

lemma bucket_find4_SomeD: "bucket_find4 ent a cs = Some c \<Longrightarrow> c \<in> set cs \<and> c_addr4 (ent c) = a"
  by (induction cs) (auto split: if_splits)

lemma bucket_find4_None: "bucket_find4 ent a cs = None \<longleftrightarrow> (\<forall>c\<in>set cs. c_addr4 (ent c) \<noteq> a)"
  by (induction cs) auto

lemma bucket_find6_SomeD: "bucket_find6 ent a cs = Some c \<Longrightarrow> c \<in> set cs \<and> c_addr6 (ent c) = a"
  by (induction cs) (auto split: if_splits)

lemma bucket_find6_None: "bucket_find6 ent a cs = None \<longleftrightarrow> (\<forall>c\<in>set cs. c_addr6 (ent c) \<noteq> a)"
  by (induction cs) auto

lemma bucket_find_pair_SomeD:
  "bucket_find_pair ent a b cs = Some c \<Longrightarrow> c \<in> set cs \<and> c_addr4 (ent c) = a \<and> c_addr6 (ent c) = b"
  by (induction cs) (auto split: if_splits)

lemma bucket_find_pair_None:
  "bucket_find_pair ent a b cs = None \<longleftrightarrow> (\<forall>c\<in>set cs. \<not> (c_addr4 (ent c) = a \<and> c_addr6 (ent c) = b))"
  by (induction cs) auto

text \<open>The invariant depends on the addresses, the lists, the tables and the hash only.\<close>

lemma cache_cong:
  assumes "g_cache_pool g' = g_cache_pool g" "g_cache_active g' = g_cache_active g"
    "g_hash_table4 g' = g_hash_table4 g" "g_hash_table6 g' = g_hash_table6 g"
    "hash_ip4 g' = hash_ip4 g" "hash_ip6 g' = hash_ip6 g" "ent4 g' = ent4 g" "ent6 g' = ent6 g"
  shows "cache_inv g' = cache_inv g" "cache_pairs g' = cache_pairs g"
  by (simp_all add: cache_inv_def cache_pairs_def assms)

lemma ent_touch [simp]: "ent4 (touch c g) = ent4 g" "ent6 (touch c g) = ent6 g"
  by (auto simp: touch_def ent4_def ent6_def)

lemma touch_frame [simp]:
  "g_cache_pool (touch c g) = g_cache_pool g" "g_cache_active (touch c g) = g_cache_active g"
  "g_hash_table4 (touch c g) = g_hash_table4 g" "g_hash_table6 (touch c g) = g_hash_table6 g"
  "hash_ip4 (touch c g) = hash_ip4 g" "hash_ip6 (touch c g) = hash_ip6 g"
  "g_map4_list (touch c g) = g_map4_list g" "g_map6_list (touch c g) = g_map6_list g"
  "g_dyn (touch c g) = g_dyn g" "g_static (touch c g) = g_static g"
  "g_dynamic_pool (touch c g) = g_dynamic_pool g" "g_now (touch c g) = g_now g"
  "g_alloc (touch c g) = g_alloc g"
  by (simp_all add: touch_def)

lemma touch_inv: "cache_inv g \<Longrightarrow> cache_inv (touch c g)"
  by (subst cache_cong(1)) simp_all

lemma touch_pairs: "cache_pairs (touch c g) = cache_pairs g"
  by (rule cache_cong(2)) simp_all

text \<open>Lookup in a bucket is lookup in the whole cache.\<close>

lemma bucket4_iff:
  "cache_inv g \<Longrightarrow> c \<in> set (g_hash_table4 g (hash_ip4 g a)) \<and> ent4 g c = a
    \<longleftrightarrow> c \<in> set (g_cache_active g) \<and> ent4 g c = a"
  by (auto simp: cache_inv_def)

lemma bucket6_iff:
  "cache_inv g \<Longrightarrow> c \<in> set (g_hash_table6 g (hash_ip6 g a)) \<and> ent6 g c = a
    \<longleftrightarrow> c \<in> set (g_cache_active g) \<and> ent6 g c = a"
  by (auto simp: cache_inv_def)

lemma cache_lookup4_Some:
  assumes "cache_inv g" "cache_lookup4 a g = Some (b, g')"
  shows "(a, b) \<in> cache_pairs g" "cache_inv g'" "cache_pairs g' = cache_pairs g"
proof -
  from assms(2) obtain c where c: "bucket_find4 (g_entry g) a (g_hash_table4 g (hash_ip4 g a)) = Some c"
    and r: "b = ent6 g c" "g' = touch c g"
    by (auto simp: ent6_def cache_lookup4_def split: option.splits)
  from bucket_find4_SomeD [OF c, folded ent4_def] have "c \<in> set (g_cache_active g)" "ent4 g c = a"
    using bucket4_iff [OF assms(1)] by blast+
  then show "(a, b) \<in> cache_pairs g" using r by (auto simp: cache_pairs_def)
  show "cache_inv g'" "cache_pairs g' = cache_pairs g"
    using assms(1) by (simp_all add: r touch_inv touch_pairs)
qed

lemma cache_lookup4_None:
  assumes "cache_inv g"
  shows "cache_lookup4 a g = None \<longleftrightarrow> (\<forall>b. (a, b) \<notin> cache_pairs g)"
proof -
  have "cache_lookup4 a g = None \<longleftrightarrow> bucket_find4 (g_entry g) a (g_hash_table4 g (hash_ip4 g a)) = None"
    by (simp add: cache_lookup4_def split: option.split)
  also have "\<dots> \<longleftrightarrow> (\<forall>c\<in>set (g_cache_active g). ent4 g c \<noteq> a)"
    unfolding bucket_find4_None using bucket4_iff [OF assms, of _ a] by (auto simp: ent4_def)
  finally show ?thesis by (auto simp: cache_pairs_def)
qed

lemma cache_lookup6_None:
  assumes "cache_inv g"
  shows "cache_lookup6 b g = None \<longleftrightarrow> (\<forall>a. (a, b) \<notin> cache_pairs g)"
proof -
  have "cache_lookup6 b g = None \<longleftrightarrow> bucket_find6 (g_entry g) b (g_hash_table6 g (hash_ip6 g b)) = None"
    by (simp add: cache_lookup6_def split: option.split)
  also have "\<dots> \<longleftrightarrow> (\<forall>c\<in>set (g_cache_active g). ent6 g c \<noteq> b)"
    unfolding bucket_find6_None using bucket6_iff [OF assms, of _ b] by (auto simp: ent6_def)
  finally show ?thesis by (auto simp: cache_pairs_def)
qed

lemma cache_lookup6_Some:
  assumes "cache_inv g" "cache_lookup6 b g = Some (a, g')"
  shows "(a, b) \<in> cache_pairs g" "cache_inv g'" "cache_pairs g' = cache_pairs g"
proof -
  from assms(2) obtain c where c: "bucket_find6 (g_entry g) b (g_hash_table6 g (hash_ip6 g b)) = Some c"
    and r: "a = ent4 g c" "g' = touch c g"
    by (auto simp: ent4_def cache_lookup6_def split: option.splits)
  from bucket_find6_SomeD [OF c, folded ent6_def] have "c \<in> set (g_cache_active g)" "ent6 g c = b"
    using bucket6_iff [OF assms(1)] by blast+
  then show "(a, b) \<in> cache_pairs g" using r by (auto simp: cache_pairs_def)
  show "cache_inv g'" "cache_pairs g' = cache_pairs g"
    using assms(1) by (simp_all add: r touch_inv touch_pairs)
qed

section \<open>Insertion\<close>

lemma distinct_list_add_other: "distinct xs \<Longrightarrow> distinct (list_add c xs)"
  by (simp add: distinct_list_del)

lemma set_add_hash:
  "set (((f :: nat \<Rightarrow> nat list)(h0 := list_add c (f h0))) h) = (if h = h0 then insert c (set (f h)) else set (f h))"
  by simp

lemma cache_insert_spec:
  assumes inv: "cache_inv g"
    and ins: "cache_insert a b (hash_ip4 g a) (hash_ip6 g b) g = (r, g')"
  shows "cache_inv g'"
    and "cache_pairs g' = (if r = None then cache_pairs g else insert (a, b) (cache_pairs g))"
    and "r = None \<longleftrightarrow> g_cache_pool g = [] \<and> (a, b) \<notin> cache_pairs g"
    and "r = Some c \<Longrightarrow> c \<in> set (g_cache_active g') \<and> ent4 g' c = a \<and> ent6 g' c = b"
proof -
  let ?bk = "g_hash_table4 g (hash_ip4 g a)"
  have bk: "c \<in> set ?bk \<and> ent4 g c = a \<and> ent6 g c = b
      \<longleftrightarrow> c \<in> set (g_cache_active g) \<and> ent4 g c = a \<and> ent6 g c = b" for c
    using bucket4_iff [OF inv, of c a] by blast
  have "cache_inv g' \<and> cache_pairs g' = (if r = None then cache_pairs g else insert (a, b) (cache_pairs g))
    \<and> (r = None \<longleftrightarrow> g_cache_pool g = [] \<and> (a, b) \<notin> cache_pairs g)
    \<and> (\<forall>c. r = Some c \<longrightarrow> c \<in> set (g_cache_active g') \<and> ent4 g' c = a \<and> ent6 g' c = b)"
  proof (cases "bucket_find_pair (g_entry g) a b ?bk")
    case (Some c)
    then have r: "r = Some c" "g' = touch c g" using ins by (simp_all add: cache_insert_def)
    have c: "c \<in> set (g_cache_active g)" "ent4 g c = a" "ent6 g c = b"
      using bucket_find_pair_SomeD [OF Some, folded ent4_def ent6_def] bk by blast+
    then have "(a, b) \<in> cache_pairs g" by (auto simp: cache_pairs_def)
    then show ?thesis using r c inv by (simp add: touch_inv touch_pairs insert_absorb)
  next
    case None
    then have new: "(a, b) \<notin> cache_pairs g"
      unfolding bucket_find_pair_None ent4_def [symmetric] ent6_def [symmetric] using bk
      by (auto simp: cache_pairs_def)
    show ?thesis
    proof (cases "g_cache_pool g")
      case Nil
      then have "r = None" "g' = g" using ins None by (simp_all add: cache_insert_def)
      then show ?thesis using inv new Nil by simp
    next
      case (Cons c pool)
      let ?e = "\<lparr>c_addr6 = b, c_addr4 = a, c_last_use = g_now g, c_flags = 0, c_ip4_ident = 1\<rparr>"
      have r: "r = Some c" and g': "g' = add_to_hash_table c (hash_ip4 g a) (hash_ip6 g b)
          (g\<lparr>g_entry := (g_entry g)(c := ?e), g_cache_pool := list_del c (g_cache_pool g),
             g_cache_active := list_add c (g_cache_active g)\<rparr>)"
        using ins None Cons by (simp_all add: cache_insert_def Let_def)
      have cp: "c \<notin> set pool" "c \<notin> set (g_cache_active g)"
        using inv Cons by (auto simp: cache_inv_def)
      have f: "g_cache_pool g' = pool" "g_cache_active g' = c # g_cache_active g"
        "hash_ip4 g' = hash_ip4 g" "hash_ip6 g' = hash_ip6 g"
        "ent4 g' = (ent4 g)(c := a)" "ent6 g' = (ent6 g)(c := b)"
        using cp Cons by (auto simp: g' add_to_hash_table_def ent4_def ent6_def list_add_def list_del_Cons
            intro!: hash_cong)
      have h4: "g_hash_table4 g' = (g_hash_table4 g)(hash_ip4 g a := list_add c (g_hash_table4 g (hash_ip4 g a)))"
        and h6: "g_hash_table6 g' = (g_hash_table6 g)(hash_ip6 g b := list_add c (g_hash_table6 g (hash_ip6 g b)))"
        by (simp_all add: g' add_to_hash_table_def)
      have pairs: "cache_pairs g' = insert (a, b) (cache_pairs g)"
        using cp by (auto simp: cache_pairs_def f image_iff)
      have "cache_inv g'"
        unfolding cache_inv_def
      proof (intro conjI allI)
        show "distinct (g_cache_pool g' @ g_cache_active g')"
          using inv Cons cp by (auto simp: f cache_inv_def)
        fix h
        show "distinct (g_hash_table4 g' h)" "distinct (g_hash_table6 g' h)"
          using inv by (auto simp: h4 h6 cache_inv_def intro: distinct_list_del)
        show "set (g_hash_table4 g' h) = {x \<in> set (g_cache_active g'). hash_ip4 g' (ent4 g' x) = h}"
          unfolding h4 set_add_hash f using inv cp(2) by (auto simp: cache_inv_def)
        show "set (g_hash_table6 g' h) = {x \<in> set (g_cache_active g'). hash_ip6 g' (ent6 g' x) = h}"
          unfolding h6 set_add_hash f using inv cp(2) by (auto simp: cache_inv_def)
        have "inj_on (\<lambda>x. (ent4 g' x, ent6 g' x)) (set (g_cache_active g))"
          using inv cp(2) by (auto simp: f cache_inv_def inj_on_def)
        then show "inj_on (\<lambda>x. (ent4 g' x, ent6 g' x)) (set (g_cache_active g'))"
          using new cp(2) by (auto simp: f cache_pairs_def image_iff)
      qed
      then show ?thesis using r pairs new Cons f by simp
    qed
  qed
  then show "cache_inv g'"
    and "cache_pairs g' = (if r = None then cache_pairs g else insert (a, b) (cache_pairs g))"
    and "r = None \<longleftrightarrow> g_cache_pool g = [] \<and> (a, b) \<notin> cache_pairs g"
    and "r = Some c \<Longrightarrow> c \<in> set (g_cache_active g') \<and> ent4 g' c = a \<and> ent6 g' c = b"
    by blast+
qed

section \<open>Ageing\<close>

lemma report_ageout_frame [simp]:
  "g_cache_pool (report_ageout c g) = g_cache_pool g" "g_cache_active (report_ageout c g) = g_cache_active g"
  "g_hash_table4 (report_ageout c g) = g_hash_table4 g" "g_hash_table6 (report_ageout c g) = g_hash_table6 g"
  "g_entry (report_ageout c g) = g_entry g" "g_now (report_ageout c g) = g_now g"
  "g_map4_list (report_ageout c g) = g_map4_list g" "g_map6_list (report_ageout c g) = g_map6_list g"
  "g_static (report_ageout c g) = g_static g" "g_dynamic_pool (report_ageout c g) = g_dynamic_pool g"
  "hash_ip4 (report_ageout c g) = hash_ip4 g" "hash_ip6 (report_ageout c g) = hash_ip6 g"
  by (auto simp: report_ageout_def set_d_def split: option.split)

lemma retire_fields:
  "g_cache_pool (retire c g) = list_add c (g_cache_pool g)"
  "g_cache_active (retire c g) = list_del c (g_cache_active g)"
  "g_hash_table4 (retire c g) = (\<lambda>h. list_del c (g_hash_table4 g h))"
  "g_hash_table6 (retire c g) = (\<lambda>h. list_del c (g_hash_table6 g h))"
  "g_entry (retire c g) = g_entry g" "g_now (retire c g) = g_now g"
  "hash_ip4 (retire c g) = hash_ip4 g" "hash_ip6 (retire c g) = hash_ip6 g"
  "g_map4_list (retire c g) = g_map4_list g" "g_map6_list (retire c g) = g_map6_list g"
  "g_static (retire c g) = g_static g" "g_dynamic_pool (retire c g) = g_dynamic_pool g"
  by (simp_all add: retire_def unhash_def Let_def)

lemma retire_ent [simp]: "ent4 (retire c g) = ent4 g" "ent6 (retire c g) = ent6 g"
  by (auto simp: ent4_def ent6_def retire_fields)

lemma retire_inv:
  assumes inv: "cache_inv g" and c: "c \<in> set (g_cache_active g)"
  shows "cache_inv (retire c g)"
    and "cache_pairs (retire c g) = cache_pairs g - {(ent4 g c, ent6 g c)}"
proof -
  have cp: "c \<notin> set (g_cache_pool g)" using inv c by (auto simp: cache_inv_def)
  have inj: "inj_on (\<lambda>c. (ent4 g c, ent6 g c)) (set (g_cache_active g))"
    using inv by (simp add: cache_inv_def)
  show "cache_inv (retire c g)"
    unfolding cache_inv_def retire_fields retire_ent
  proof (intro conjI allI)
    show "distinct (list_add c (g_cache_pool g) @ list_del c (g_cache_active g))"
      using inv cp by (auto simp: cache_inv_def list_add_def intro: distinct_list_del)
    fix h
    show "distinct (list_del c (g_hash_table4 g h))" "distinct (list_del c (g_hash_table6 g h))"
      using inv by (auto simp: cache_inv_def intro: distinct_list_del)
    show "set (list_del c (g_hash_table4 g h))
        = {x \<in> set (list_del c (g_cache_active g)). hash_ip4 g (ent4 g x) = h}"
      "set (list_del c (g_hash_table6 g h))
        = {x \<in> set (list_del c (g_cache_active g)). hash_ip6 g (ent6 g x) = h}"
      using inv by (auto simp: cache_inv_def)
    show "inj_on (\<lambda>c. (ent4 g c, ent6 g c)) (set (list_del c (g_cache_active g)))"
      using inj by (rule inj_on_subset) auto
  qed
  show "cache_pairs (retire c g) = cache_pairs g - {(ent4 g c, ent6 g c)}"
    unfolding cache_pairs_def retire_fields retire_ent set_list_del
    using inj c by (subst inj_on_image_set_diff [OF inj]) auto
qed

text \<open>Ageing the entries of a list in turn: those too old are retired, the others stay.\<close>

definition expired :: "gstate \<Rightarrow> nat \<Rightarrow> bool" where
  "expired g c \<longleftrightarrow> c_last_use (g_entry g c) + CACHE_MAX_AGE < g_now g"

lemma maint_fold:
  "cache_inv g \<Longrightarrow> set cs \<subseteq> set (g_cache_active g) \<Longrightarrow> distinct cs \<Longrightarrow>
     cache_inv (fold maint_entry cs g)
     \<and> set (g_cache_active (fold maint_entry cs g)) = set (g_cache_active g) - {c \<in> set cs. expired g c}
     \<and> set (g_cache_pool (fold maint_entry cs g)) = set (g_cache_pool g) \<union> {c \<in> set cs. expired g c}
     \<and> g_entry (fold maint_entry cs g) = g_entry g"
proof (induction cs arbitrary: g)
  case (Cons c cs)
  show ?case
  proof (cases "expired g c")
    case True
    then have m: "maint_entry c g = retire c g" by (simp add: maint_entry_def expired_def)
    have e: "expired (retire c g) = expired g" by (rule ext) (simp add: expired_def retire_fields)
    have c: "c \<in> set (g_cache_active g)" using Cons.prems by simp
    have "set cs \<subseteq> set (g_cache_active (retire c g))" "distinct cs"
      using Cons.prems by (auto simp: retire_fields)
    from Cons.IH [OF retire_inv(1) [OF Cons.prems(1) c] this]
    show ?thesis unfolding fold_simps m e comp_def retire_fields set_list_del set_list_add
      using True by auto
  next
    case False
    then have "maint_entry c g = g" by (simp add: maint_entry_def expired_def)
    then show ?thesis using Cons False by auto
  qed
qed simp

lemma pairs_of_active:
  "cache_pairs g = (\<lambda>c. (ent4 g c, ent6 g c)) ` set (g_cache_active g)"
  by (simp add: cache_pairs_def)

lemma addrmap_maint_inv:
  assumes "cache_inv g"
  shows "cache_inv (addrmap_maint g)"
    and "set (g_cache_active (addrmap_maint g)) = {c \<in> set (g_cache_active g). \<not> expired g c}"
    and "set (g_cache_pool (addrmap_maint g)) \<union> set (g_cache_active (addrmap_maint g))
      = set (g_cache_pool g) \<union> set (g_cache_active g)"
  using maint_fold [OF assms, of "g_cache_active g"] assms
  by (auto simp: addrmap_maint_def cache_inv_def)

section \<open>Creation\<close>

lemma add_to_hash_fields:
  "g_cache_pool (add_to_hash_table c h4 h6 g) = g_cache_pool g"
  "g_cache_active (add_to_hash_table c h4 h6 g) = g_cache_active g"
  "g_entry (add_to_hash_table c h4 h6 g) = g_entry g"
  "hash_ip4 (add_to_hash_table c h4 h6 g) = hash_ip4 g" "hash_ip6 (add_to_hash_table c h4 h6 g) = hash_ip6 g"
  "g_hash_table4 (add_to_hash_table c h4 h6 g) = (g_hash_table4 g)(h4 := list_add c (g_hash_table4 g h4))"
  "g_hash_table6 (add_to_hash_table c h4 h6 g) = (g_hash_table6 g)(h6 := list_add c (g_hash_table6 g h6))"
  by (simp_all add: add_to_hash_table_def)

lemma rehash_fold:
  "(\<forall>h. distinct (g_hash_table4 g h) \<and> distinct (g_hash_table6 g h)) \<Longrightarrow>
   (let g' = fold rehash cs g in
     (\<forall>h. distinct (g_hash_table4 g' h) \<and> distinct (g_hash_table6 g' h))
     \<and> (\<forall>h. set (g_hash_table4 g' h) = set (g_hash_table4 g h) \<union> {c \<in> set cs. hash_ip4 g (ent4 g c) = h})
     \<and> (\<forall>h. set (g_hash_table6 g' h) = set (g_hash_table6 g h) \<union> {c \<in> set cs. hash_ip6 g (ent6 g c) = h})
     \<and> g_cache_pool g' = g_cache_pool g \<and> g_cache_active g' = g_cache_active g
     \<and> ent4 g' = ent4 g \<and> ent6 g' = ent6 g \<and> hash_ip4 g' = hash_ip4 g \<and> hash_ip6 g' = hash_ip6 g)"
proof (induction cs arbitrary: g)
  case (Cons c cs)
  let ?g = "rehash c g"
  have e: "ent4 ?g = ent4 g" "ent6 ?g = ent6 g" "hash_ip4 ?g = hash_ip4 g" "hash_ip6 ?g = hash_ip6 g"
    "g_cache_pool ?g = g_cache_pool g" "g_cache_active ?g = g_cache_active g"
    by (auto simp: ent4_def ent6_def rehash_def add_to_hash_fields)
  have t: "g_hash_table4 ?g = (g_hash_table4 g)(hash_ip4 g (ent4 g c) := list_add c (g_hash_table4 g (hash_ip4 g (ent4 g c))))"
    "g_hash_table6 ?g = (g_hash_table6 g)(hash_ip6 g (ent6 g c) := list_add c (g_hash_table6 g (hash_ip6 g (ent6 g c))))"
    by (simp_all add: rehash_def add_to_hash_fields ent4_def ent6_def)
  have d: "\<forall>h. distinct (g_hash_table4 ?g h) \<and> distinct (g_hash_table6 ?g h)"
    using Cons(2) by (simp add: t distinct_list_del)
  show ?case
    using Cons(1) [OF d] unfolding fold_simps comp_def Let_def e unfolding t by auto
qed simp

lemma create_cache_inv:
  assumes "g_cache_pool g = [] \<and> g_cache_active g = []
    \<or> distinct (g_cache_pool g @ g_cache_active g) \<and> inj_on (\<lambda>c. (ent4 g c, ent6 g c)) (set (g_cache_active g))"
  shows "cache_inv (snd (create_cache True g))"
    and "cache_pairs (snd (create_cache True g)) = cache_pairs g"
proof -
  have t: "cache_inv (snd (create_cache True g)) \<and> cache_pairs (snd (create_cache True g)) = cache_pairs g"
  proof (cases "g_cache_pool g = [] \<and> g_cache_active g = []")
    case True
    have "fold list_add_tail [0..<n] [] = [0..<n]" for n :: nat
      by (induction n) (simp_all add: list_add_tail_def)
    with True show ?thesis
      by (simp add: create_cache_def Let_def cache_inv_def cache_pairs_def)
  next
    case False
    let ?g = "g\<lparr>g_hash_table4 := (\<lambda>_. []), g_hash_table6 := (\<lambda>_. [])\<rparr>"
    have s: "snd (create_cache True g) = fold rehash (g_cache_active g) ?g"
      using False by (auto simp: create_cache_def Let_def)
    have e: "ent4 ?g = ent4 g" "ent6 ?g = ent6 g" by (auto simp: ent4_def ent6_def)
    show ?thesis
      using rehash_fold [of ?g "g_cache_active g"] assms False
      unfolding s Let_def by (simp add: e cache_inv_def cache_pairs_def)
  qed
  then show "cache_inv (snd (create_cache True g))"
    and "cache_pairs (snd (create_cache True g)) = cache_pairs g" by blast+
qed

end
