(* ===== verification/Dynamic.thy ===== *)
theory Dynamic
  imports Cache
begin

text \<open>
  The dynamic pool of \<open>src/src/dynamic.c\<close>: allocation of a lease (\<open>assign_dynamic\<close>,
  \<open>alloc_map_dynamic\<close>), the moves between the mapped and the dormant list, loading leases from
  the map file (\<open>load_map\<close>), maintenance (\<open>dynamic_maint\<close>) and the counters
  (\<open>dynamic_get_stats\<close>). The free list tiles the pool: each entry is an address in use (or the
  pool's first address) with the number of free addresses after it.
\<close>

section \<open>Operations\<close>

text \<open>
  Dereferencing. A reference to an object that does not exist never occurs under the invariant
  below; the defaults only make the functions total.
\<close>

definition free_at :: "gstate \<Rightarrow> dynamic_pool \<Rightarrow> free_ref \<Rightarrow> free_addr" where
  "free_at g p r = (case r of
       Free_Head \<Rightarrow> dp_free_head p
     | Free_Of i \<Rightarrow> (case g_dyn g i of Some d \<Rightarrow> d_free d | None \<Rightarrow> \<lparr>fa_addr = 0, fa_count = 0\<rparr>))"

definition upd_pool :: "(dynamic_pool \<Rightarrow> dynamic_pool) \<Rightarrow> gstate \<Rightarrow> gstate" where
  "upd_pool f g = g\<lparr>g_dynamic_pool := map_option f (g_dynamic_pool g)\<rparr>"

definition set_count :: "free_ref \<Rightarrow> u32 \<Rightarrow> gstate \<Rightarrow> gstate" where
  "set_count r n g = (case r of
       Free_Head \<Rightarrow> upd_pool (\<lambda>p. p\<lparr>dp_free_head := (dp_free_head p)\<lparr>fa_count := n\<rparr>\<rparr>) g
     | Free_Of i \<Rightarrow> (case g_dyn g i of
           Some d \<Rightarrow> set_d i (d\<lparr>d_free := (d_free d)\<lparr>fa_count := n\<rparr>\<rparr>) g
         | None \<Rightarrow> g))"

definition last_use_of :: "gstate \<Rightarrow> nat \<Rightarrow> int" where
  "last_use_of g i = (case g_dyn g i of Some d \<Rightarrow> d_last_use d | None \<Rightarrow> 0)"

text \<open>\<open>alloc_map_dynamic\<close>: \<open>f\<close> is the free run that holds the address.\<close>

definition new_lease :: "nat \<Rightarrow> in6_addr \<Rightarrow> in_addr \<Rightarrow> free_addr \<Rightarrow> map_dynamic" where
  "new_lease i addr6 addr4 fa =
     \<lparr>d_map4 = \<lparr>m4_addr = addr4, m4_mask = snd (calc_ip4_mask 0 None 32), m4_prefix_len = 32,
                m4_type = MAP_TYPE_DYNAMIC_HOST, m4_obj = i\<rparr>,
      d_map6 = \<lparr>m6_addr = addr6, m6_mask = snd (calc_ip6_mask in6_zero None 128), m6_prefix_len = 128,
                m6_type = MAP_TYPE_DYNAMIC_HOST, m6_obj = i\<rparr>,
      d_cache_entry = None, d_last_use = 0, d_free = fa\<rparr>"

definition alloc_map_dynamic ::
  "in6_addr \<Rightarrow> in_addr \<Rightarrow> free_ref \<Rightarrow> gstate \<Rightarrow> nat option \<times> gstate" where
  "alloc_map_dynamic addr6 addr4 f g =
     (case (g_alloc g, g_dynamic_pool g) of
        (i # ids, Some p) \<Rightarrow>
          (let a = ntohl addr4;
               fa = free_at g p f;
               d = new_lease i addr6 addr4 \<lparr>fa_addr = a, fa_count = fa_count fa - (a - fa_addr fa)\<rparr>;
               g = set_d i d (g\<lparr>g_alloc := ids\<rparr>);
               g = set_count f (a - fa_addr fa - 1) g;
               g = upd_pool (\<lambda>p. p\<lparr>dp_free := list_add_after (Free_Of i) f (dp_free p)\<rparr>) g
           in (Some i, g))
      | _ \<Rightarrow> (None, g))"

text \<open>The results of the two insertions are ignored, as in the code.\<close>

definition move_to_mapped :: "nat \<Rightarrow> gstate \<Rightarrow> gstate" where
  "move_to_mapped i g =
     (case g_dyn g i of
        None \<Rightarrow> g
      | Some d \<Rightarrow>
          (let g = (case insert_map4 (d_map4 d) (g_map4_list g) of
                      Inr ms \<Rightarrow> g\<lparr>g_map4_list := ms\<rparr> | Inl _ \<Rightarrow> g);
               g = (case insert_map6 (d_map6 d) (g_map6_list g) of
                      Inr ms \<Rightarrow> g\<lparr>g_map6_list := ms\<rparr> | Inl _ \<Rightarrow> g)
           in upd_pool (\<lambda>p. p\<lparr>dp_dormant := list_del i (dp_dormant p),
                              dp_mapped := list_add i (dp_mapped p)\<rparr>) g))"

fun insert_older :: "(nat \<Rightarrow> int) \<Rightarrow> nat \<Rightarrow> nat list \<Rightarrow> nat list" where
  "insert_older lu i [] = [i]"
| "insert_older lu i (s # ss) = (if lu s < lu i then i # s # ss else s # insert_older lu i ss)"

definition dormant_insert :: "(nat \<Rightarrow> int) \<Rightarrow> nat \<Rightarrow> nat list \<Rightarrow> nat list" where
  "dormant_insert lu i xs =
     (if xs = [] then [i]
      else if lu (last xs) \<ge> lu i then xs @ [i]
      else insert_older lu i xs)"

definition move_to_dormant :: "nat \<Rightarrow> gstate \<Rightarrow> gstate" where
  "move_to_dormant i g =
     (let g = g\<lparr>g_map4_list := filter (\<lambda>m. m4_obj m \<noteq> i) (g_map4_list g),
                g_map6_list := filter (\<lambda>m. m6_obj m \<noteq> i) (g_map6_list g)\<rparr>
      in upd_pool (\<lambda>p. p\<lparr>dp_mapped := list_del i (dp_mapped p),
                         dp_dormant := dormant_insert (last_use_of g) i (dp_dormant p)\<rparr>) g)"

text \<open>
  The hash of the IPv6 address. The inner loop folds the carry above the pool's host bits back
  in; for a pool prefix of at most 31 bits, which the configuration enforces, it terminates.
\<close>

function fold_base :: "nat \<Rightarrow> u32 \<Rightarrow> u32" where
  "fold_base plen base =
     (if plen < 32 \<and> base AND NOT (drop_bit plen 0xffffffff) \<noteq> 0
      then fold_base plen ((base AND drop_bit plen 0xffffffff) + drop_bit (32 - plen) base)
      else base)"
  by pat_completeness auto

definition dyn_base :: "nat \<Rightarrow> in6_addr \<Rightarrow> u32" where
  "dyn_base plen addr6 = fold (\<lambda>w base. fold_base plen (base + w)) (in6_words addr6) 0"

text \<open>
  The inner \<open>while (addr < end)\<close> of the search. The bounds are \<open>uint64_t\<close> below \<open>2 ^ 33\<close> and are
  natural numbers here; \<open>end \<le> 2 ^ 32\<close> holds for every free run.
\<close>

function scan_run :: "map4 list \<Rightarrow> nat \<Rightarrow> nat \<Rightarrow> nat \<Rightarrow> nat option" where
  "scan_run ms pobj addr lim =
     (if addr < lim \<and> lim \<le> 4294967296 then
        (case find_map4 ms (htonl (word_of_nat addr)) of
           None \<Rightarrow> None
         | Some m4 \<Rightarrow>
             if m4_obj m4 = pobj then Some addr
             else scan_run ms pobj (unat (ntohl (m4_addr m4) OR NOT (ntohl (m4_mask m4))) + 1) lim)
      else None)"
  by pat_completeness auto

fun scan_free :: "gstate \<Rightarrow> dynamic_pool \<Rightarrow> nat \<Rightarrow> nat \<Rightarrow> free_ref list \<Rightarrow> (free_ref \<times> nat) option" where
  "scan_free g p low high [] = None"
| "scan_free g p low high (f # fs) =
     (let fa = free_at g p f;
          addr = max (unat (fa_addr fa) + 1) low;
          lim = min (unat (fa_addr fa) + unat (fa_count fa) + 1) high
      in (case scan_run (g_map4_list g) (m4_obj (dp_map4 p)) addr lim of
            Some a \<Rightarrow> Some (f, a)
          | None \<Rightarrow> scan_free g p low high fs))"

definition find_dormant :: "gstate \<Rightarrow> in6_addr \<Rightarrow> nat list \<Rightarrow> nat option" where
  "find_dormant g addr6 ids =
     List.find (\<lambda>i. case g_dyn g i of Some d \<Rightarrow> m6_addr (d_map6 d) = addr6 | None \<Rightarrow> False) ids"

definition search_free :: "gstate \<Rightarrow> dynamic_pool \<Rightarrow> in6_addr \<Rightarrow> (free_ref \<times> nat) option" where
  "search_free g p addr6 =
     (let mx = drop_bit (m4_prefix_len (dp_map4 p)) 0xffffffff;
          base = dyn_base (m4_prefix_len (dp_map4 p)) addr6;
          head = unat (fa_addr (dp_free_head p));
          first = unat (fa_addr (dp_free_head p) OR (base AND mx))
      in (case scan_free g p first (head + unat mx + 1) (dp_free p) of
            Some r \<Rightarrow> Some r
          | None \<Rightarrow> scan_free g p head first (dp_free p)))"

definition set_map6_addr :: "nat \<Rightarrow> in6_addr \<Rightarrow> gstate \<Rightarrow> gstate" where
  "set_map6_addr i addr6 g =
     (case g_dyn g i of
        Some d \<Rightarrow> set_d i (d\<lparr>d_map6 := (d_map6 d)\<lparr>m6_addr := addr6\<rparr>\<rparr>) g
      | None \<Rightarrow> g)"

definition assign_dynamic :: "in6_addr \<Rightarrow> gstate \<Rightarrow> nat option \<times> gstate" where
  "assign_dynamic addr6 g =
     (case g_dynamic_pool g of
        None \<Rightarrow> (None, g)
      | Some p \<Rightarrow>
          (case find_dormant g addr6 (dp_dormant p) of
             Some i \<Rightarrow> (Some i, move_to_mapped i g)
           | None \<Rightarrow>
               (case search_free g p addr6 of
                  Some (f, a) \<Rightarrow>
                    (case alloc_map_dynamic addr6 (htonl (word_of_nat a)) f g of
                       (None, g) \<Rightarrow> (None, g)
                     | (Some i, g) \<Rightarrow> (Some i, move_to_mapped i (g\<lparr>g_map_write_pending := True\<rparr>)))
                | None \<Rightarrow>
                    (if dp_dormant p = [] then (None, g)
                     else (let i = last (dp_dormant p);
                               g = (set_map6_addr i addr6 g)\<lparr>g_map_write_pending := True\<rparr>
                           in (Some i, move_to_mapped i g))))))"

text \<open>Loading one row of the map file, and what \<open>load_dynamic\<close> does after the last row.\<close>

definition load_map :: "in6_addr \<Rightarrow> in_addr \<Rightarrow> int \<Rightarrow> gstate \<Rightarrow> gstate" where
  "load_map addr6 addr4 last_use g =
     (case g_dynamic_pool g of
        None \<Rightarrow> g
      | Some p \<Rightarrow>
          if m4_addr (dp_map4 p) \<noteq> addr4 AND m4_mask (dp_map4 p) then g
          else if map_option m4_obj (find_map4 (g_map4_list g) addr4) \<noteq> Some (m4_obj (dp_map4 p)) then g
          else if validate_ip6_addr addr6 \<noteq> ERROR_NONE then g
          else if find_map6 (g_map6_list g) addr6 \<noteq> None then g
          else
            (let addr = ntohl addr4
             in (case List.find (\<lambda>f. fa_addr (free_at g p f) + fa_count (free_at g p f) \<ge> addr) (dp_free p) of
                   None \<Rightarrow> g
                 | Some f \<Rightarrow>
                     if fa_addr (free_at g p f) \<ge> addr then g
                     else (case alloc_map_dynamic addr6 addr4 f g of
                             (None, g) \<Rightarrow> g
                           | (Some i, g) \<Rightarrow>
                               (case g_dyn g i of
                                  Some d \<Rightarrow> move_to_dormant i (set_d i (d\<lparr>d_last_use := last_use\<rparr>) g)
                                | None \<Rightarrow> g)))))"

definition set_last_use :: "nat \<Rightarrow> int \<Rightarrow> gstate \<Rightarrow> gstate" where
  "set_last_use i t g = (case g_dyn g i of Some d \<Rightarrow> set_d i (d\<lparr>d_last_use := t\<rparr>) g | None \<Rightarrow> g)"

text \<open>Move the leases that are recent enough, newest first, to the mapped list.\<close>

fun activate_recent :: "nat list \<Rightarrow> gstate \<Rightarrow> gstate" where
  "activate_recent [] g = g"
| "activate_recent (i # is) g =
     (if last_use_of g i + g_dyn_min_lease g < g_now g then g
      else activate_recent is (move_to_mapped i g))"

definition load_dynamic :: "(in6_addr \<times> in_addr \<times> int) list \<Rightarrow> int \<Rightarrow> gstate \<Rightarrow> gstate" where
  "load_dynamic rows time g =
     (case g_dynamic_pool g of
        None \<Rightarrow> g
      | Some _ \<Rightarrow>
          (let g = fold (\<lambda>(a6, a4, t) g. load_map a6 a4 t g) rows g;
               g = g\<lparr>g_now := time\<rparr>;
               dormant = (case g_dynamic_pool g of Some p \<Rightarrow> dp_dormant p | None \<Rightarrow> []);
               last_use = fold (\<lambda>i t. if last_use_of g i > t then last_use_of g i else t) dormant 0
           in if last_use > g_now g
              then fold (\<lambda>i g. set_last_use i (g_now g - g_dyn_min_lease g) g) dormant g
              else activate_recent dormant g))"

text \<open>
  Maintenance: idle leases without a cache entry become dormant; then the oldest dormant leases
  beyond the maximum lease are dissolved into the free run before them.
\<close>

definition lease_idle :: "nat \<Rightarrow> gstate \<Rightarrow> gstate" where
  "lease_idle i g =
     (case g_dyn g i of
        None \<Rightarrow> g
      | Some d \<Rightarrow>
          if d_cache_entry d \<noteq> None then g
          else if d_last_use d + g_dyn_min_lease g < g_now g then move_to_dormant i g
          else g)"

fun prev_ref :: "free_ref \<Rightarrow> free_ref list \<Rightarrow> free_ref option" where
  "prev_ref r (a # b # rs) = (if b = r then Some a else prev_ref r (b # rs))"
| "prev_ref r _ = None"

definition dissolve :: "nat \<Rightarrow> gstate \<Rightarrow> gstate" where
  "dissolve i g =
     (case (g_dynamic_pool g, g_dyn g i) of
        (Some p, Some d) \<Rightarrow>
          (let g = (case prev_ref (Free_Of i) (dp_free p) of
                      Some f \<Rightarrow> set_count f (fa_count (free_at g p f) + (fa_count (d_free d) + 1)) g
                    | None \<Rightarrow> g);
               g = upd_pool (\<lambda>p. p\<lparr>dp_free := list_del (Free_Of i) (dp_free p),
                                   dp_dormant := list_del i (dp_dormant p)\<rparr>) g
           in g\<lparr>g_dyn := (g_dyn g)(i := None)\<rparr>)
      | _ \<Rightarrow> g)"

text \<open>The loop takes dormant leases from the end of the list, the oldest first.\<close>

fun dissolve_old :: "nat list \<Rightarrow> gstate \<Rightarrow> gstate" where
  "dissolve_old [] g = g"
| "dissolve_old (i # is) g =
     (if last_use_of g i + g_dyn_max_lease g \<ge> g_now g then g
      else dissolve_old is (dissolve i g))"

definition dynamic_sweep :: "gstate \<Rightarrow> gstate" where
  "dynamic_sweep g =
     (let mapped = (case g_dynamic_pool g of Some p \<Rightarrow> dp_mapped p | None \<Rightarrow> []);
          g = fold lease_idle mapped g;
          dormant = (case g_dynamic_pool g of Some p \<Rightarrow> dp_dormant p | None \<Rightarrow> [])
      in dissolve_old (rev dormant) g)"

definition lease_row :: "gstate \<Rightarrow> nat \<Rightarrow> in_addr \<times> in6_addr \<times> int" where
  "lease_row g i =
     (case g_dyn g i of
        Some d \<Rightarrow> (m4_addr (d_map4 d), m6_addr (d_map6 d),
           (case d_cache_entry d of Some c \<Rightarrow> c_last_use (g_entry g c) | None \<Rightarrow> d_last_use d))
      | None \<Rightarrow> (0, in6_zero, 0))"

text \<open>
  \<open>mem_ok\<close> is whether the snapshot could be allocated, \<open>write_ok\<close> whether the file could be
  written; the rows are what is written.
\<close>

definition dynamic_maint ::
  "bool \<Rightarrow> bool \<Rightarrow> bool \<Rightarrow> gstate \<Rightarrow> (in_addr \<times> in6_addr \<times> int) list option \<times> gstate" where
  "dynamic_maint shutdown mem_ok write_ok g =
     (let g = dynamic_sweep g;
          observed = g_now g;
          write_maps = g_data_dir g \<and> (shutdown \<or> g_map_write_pending g
            \<or> g_last_map_write g + g_max_commit_delay g < observed \<or> g_last_map_write g > observed)
      in if \<not> write_maps then (None, g)
         else if \<not> mem_ok then (None, g\<lparr>g_map_write_pending := True\<rparr>)
         else
           (let rows = (case g_dynamic_pool g of
                          Some p \<Rightarrow> map (lease_row g) (dp_mapped p @ dp_dormant p) | None \<Rightarrow> []);
                g = g\<lparr>g_map_write_pending := False\<rparr>
            in if write_ok then (Some rows, g\<lparr>g_last_map_write := observed\<rparr>)
               else (Some rows, g\<lparr>g_map_write_pending := True\<rparr>)))"

definition dynamic_get_stats :: "gstate \<Rightarrow> u32 \<times> u32 \<times> u32" where
  "dynamic_get_stats g =
     (case g_dynamic_pool g of
        None \<Rightarrow> (0, 0, 0)
      | Some p \<Rightarrow> (word_of_nat (length (dp_mapped p)), word_of_nat (length (dp_dormant p)),
                  sum_list (map (\<lambda>f. fa_count (free_at g p f)) (dp_free p))))"

text \<open>The pool as \<open>config_dynamic_pool\<close> sets it up.\<close>

definition init_pool :: "map4 \<Rightarrow> dynamic_pool" where
  "init_pool m4 = \<lparr>dp_map4 = m4, dp_mapped = [], dp_dormant = [], dp_free = [Free_Head],
     dp_free_head = \<lparr>fa_addr = ntohl (m4_addr m4), fa_count = drop_bit (m4_prefix_len m4) 0xffffffff\<rparr>\<rparr>"

section \<open>Termination\<close>

lemma low_mask: "plen \<le> 32 \<Longrightarrow> drop_bit plen (0xffffffff :: u32) = mask (32 - plen)"
proof -
  assume "plen \<le> 32"
  have ones: "(0xffffffff :: u32) = mask 32" by (simp add: mask_eq_exp_minus_1)
  show ?thesis unfolding ones
    by (rule bit_word_eqI) (use \<open>plen \<le> 32\<close> in \<open>auto simp: bit_drop_bit_eq bit_mask_iff\<close>)
qed

lemma unat_and_mask: "k \<le> 32 \<Longrightarrow> unat ((b :: u32) AND mask k) = unat b mod 2 ^ k"
proof -
  assume "k \<le> 32"
  have "b AND mask k = take_bit k b" by (simp add: take_bit_eq_mask)
  then have "unat (b AND mask k) = take_bit k (unat b)" by (simp only: unsigned_take_bit_eq)
  then show ?thesis by (simp only: take_bit_eq_mod)
qed

lemma and_not_mask_iff: "k \<le> 32 \<Longrightarrow> (b :: u32) AND NOT (mask k) = 0 \<longleftrightarrow> unat b < 2 ^ k"
proof -
  assume k: "k \<le> 32"
  have "b AND NOT (mask k) = 0 \<longleftrightarrow> b = b AND mask k"
  proof
    assume z: "b AND NOT (mask k) = 0"
    have "b = (b AND mask k) OR (b AND NOT (mask k))"
      by (rule bit_word_eqI) (auto simp: bit_and_iff bit_or_iff bit_not_iff)
    then show "b = b AND mask k" by (simp add: z)
  next
    assume e: "b = b AND mask k"
    show "b AND NOT (mask k) = 0"
      by (subst e) (rule bit_word_eqI, auto simp: bit_and_iff bit_not_iff)
  qed
  also have "\<dots> \<longleftrightarrow> unat b = unat b mod 2 ^ k"
    by (simp only: word_unat_eq_iff unat_and_mask [OF k])
  also have "\<dots> \<longleftrightarrow> unat b < 2 ^ k" by (metis mod_less mod_less_divisor zero_less_numeral zero_less_power)
  finally show ?thesis .
qed

lemma fold_base_step:
  assumes "plen < 32"
  defines "k \<equiv> 32 - plen"
  shows "unat (((b :: u32) AND mask k) + drop_bit k b) = unat b mod 2 ^ k + unat b div 2 ^ k"
proof -
  have k: "k \<le> 32" "0 < k" using assms by auto
  have d: "unat (drop_bit k b) = unat b div 2 ^ k"
    by (simp only: unat_drop_bit_eq) (simp only: drop_bit_eq_div)
  have "unat b mod 2 ^ k + unat b div 2 ^ k \<le> unat b"
  proof -
    have "unat b = unat b mod 2 ^ k + unat b div 2 ^ k * 2 ^ k"
      by (rule mod_div_mult_eq [symmetric])
    moreover have "unat b div 2 ^ k * 1 \<le> unat b div 2 ^ k * 2 ^ k" by (rule mult_le_mono2) simp
    ultimately show ?thesis by linarith
  qed
  also have "\<dots> < 4294967296" by (rule unat_u32_less)
  finally show ?thesis using k by (simp add: unat_word_ariths d unat_and_mask)
qed

lemma fold_base_less:
  assumes "plen < 32" "2 ^ (32 - plen) \<le> unat (b :: u32)"
  shows "unat b mod 2 ^ (32 - plen) + unat b div 2 ^ (32 - plen) < unat b"
proof -
  let ?m = "(2 :: nat) ^ (32 - plen)"
  have m: "2 \<le> ?m" using assms(1) by (cases "32 - plen") auto
  have q: "0 < unat b div ?m" using assms(2) by (simp add: div_greater_zero_iff)
  have "unat b = unat b mod ?m + unat b div ?m * ?m" by (rule mod_div_mult_eq [symmetric])
  moreover have "unat b div ?m * 2 \<le> unat b div ?m * ?m" using m by (rule mult_le_mono2)
  ultimately show ?thesis using q by linarith
qed

termination fold_base
proof (relation "measure (\<lambda>(plen, b). unat b)")
  fix plen and b :: u32
  assume a: "plen < 32 \<and> b AND NOT (drop_bit plen 0xffffffff) \<noteq> 0"
  have lm: "drop_bit plen 0xffffffff = (mask (32 - plen) :: u32)" using a by (intro low_mask) simp
  from a have "b AND NOT (mask (32 - plen)) \<noteq> 0" unfolding lm by blast
  then have "2 ^ (32 - plen) \<le> unat b" by (simp only: and_not_mask_iff not_less diff_le_self)
  with a show "((plen, (b AND drop_bit plen 0xffffffff) + drop_bit (32 - plen) b), plen, b)
      \<in> measure (\<lambda>(plen, b). unat b)"
    unfolding lm by (simp add: fold_base_step fold_base_less)
qed simp

declare fold_base.simps [simp del]

lemma or_ge: "unat a \<le> unat (a OR x :: u32)"
proof -
  have "uint a \<le> uint a OR uint x" by (rule or_greater_eq) simp
  then show ?thesis by (simp add: uint_or word_le_nat_alt [symmetric] word_le_def)
qed

lemma find_map4_SomeD: "find_map4 ms a = Some m \<Longrightarrow> m \<in> set ms \<and> m4_addr m = m4_mask m AND a"
  by (induction ms) (auto split: if_splits)

text \<open>The last address of the block of a match is at or after the address looked up.\<close>

lemma skip_forward:
  assumes "find_map4 ms (htonl a) = Some m"
  shows "unat a \<le> unat (ntohl (m4_addr m) OR NOT (ntohl (m4_mask m)))"
proof -
  have "ntohl (m4_addr m) = ntohl (m4_mask m) AND a"
    using find_map4_SomeD [OF assms] by (simp add: bswap32_and)
  then have "ntohl (m4_addr m) OR NOT (ntohl (m4_mask m)) = a OR NOT (ntohl (m4_mask m))"
    by (simp only:) (rule bit_word_eqI, auto simp: bit_or_iff bit_and_iff bit_not_iff)
  then show ?thesis by (simp only: or_ge)
qed

termination scan_run
proof (relation "measure (\<lambda>(ms, pobj, addr, lim). lim - addr)")
  fix ms :: "map4 list" and pobj addr lim m4
  assume a: "addr < lim \<and> lim \<le> 4294967296" and f: "find_map4 ms (htonl (word_of_nat addr)) = Some m4"
  have "unat (word_of_nat addr :: u32) = addr"
    using a by (simp add: unsigned_of_nat take_bit_nat_eq_self)
  with skip_forward [OF f] have "addr \<le> unat (ntohl (m4_addr m4) OR NOT (ntohl (m4_mask m4)))" by simp
  then show "((ms, pobj, unat (ntohl (m4_addr m4) OR NOT (ntohl (m4_mask m4))) + 1, lim), ms, pobj, addr, lim)
      \<in> measure (\<lambda>(ms, pobj, addr, lim). lim - addr)"
    using a by (auto intro!: diff_less_mono2)
qed simp

declare scan_run.simps [simp del]

end
