(* ===== verification/Dynamic_Inv.thy ===== *)
theory Dynamic_Inv
  imports Dynamic
begin

text \<open>
  The invariant of the dynamic pool and its preservation: the free list tiles the pool's address
  block, each lease owns the first address of one run, the dormant list is ordered by age, and
  the counters add up. From the tiling it follows that no two leases share an IPv4 address.
\<close>

section \<open>Tilings\<close>

fun tiles :: "nat \<Rightarrow> nat \<Rightarrow> free_addr list \<Rightarrow> bool" where
  "tiles lo hi [] \<longleftrightarrow> lo = hi"
| "tiles lo hi (x # xs) \<longleftrightarrow> unat (fa_addr x) = lo \<and> tiles (lo + unat (fa_count x) + 1) hi xs"

lemma tiles_append: "tiles lo hi (xs @ ys) \<longleftrightarrow> (\<exists>mid. tiles lo mid xs \<and> tiles mid hi ys)"
  by (induction xs arbitrary: lo) auto

lemma tiles_sum: "tiles lo hi xs \<Longrightarrow> lo + sum_list (map (\<lambda>x. unat (fa_count x) + 1) xs) = hi"
  by (induction xs arbitrary: lo) fastforce+

lemma tiles_le: "tiles lo hi xs \<Longrightarrow> lo \<le> hi"
  using tiles_sum [of lo hi xs] by linarith

lemma tiles_addr_less: "tiles lo hi xs \<Longrightarrow> x \<in> set xs \<Longrightarrow> lo \<le> unat (fa_addr x) \<and> unat (fa_addr x) + unat (fa_count x) < hi"
proof (induction xs arbitrary: lo)
  case (Cons y ys)
  then have t: "unat (fa_addr y) = lo" "tiles (lo + unat (fa_count y) + 1) hi ys" by simp_all
  from tiles_le [OF t(2)] t Cons show ?case
    by (auto dest!: Cons.IH [OF t(2)])
qed simp

lemma tiles_distinct: "tiles lo hi xs \<Longrightarrow> distinct (map fa_addr xs)"
proof (induction xs arbitrary: lo)
  case (Cons y ys)
  then have t: "unat (fa_addr y) = lo" "tiles (lo + unat (fa_count y) + 1) hi ys" by simp_all
  have "fa_addr y \<notin> fa_addr ` set ys"
  proof
    assume "fa_addr y \<in> fa_addr ` set ys"
    then obtain x where "x \<in> set ys" "fa_addr x = fa_addr y" by auto
    then show False using tiles_addr_less [OF t(2)] t(1) by fastforce
  qed
  then show ?case using Cons.IH [OF t(2)] by simp
qed simp

text \<open>Cutting a run at an address inside it, and joining two neighbours.\<close>

lemma tiles_cut:
  assumes "tiles lo hi (xs @ x # ys)" "fa_addr x < a" "unat a \<le> unat (fa_addr x) + unat (fa_count x)"
  shows "tiles lo hi (xs @ x\<lparr>fa_count := a - fa_addr x - 1\<rparr>
    # \<lparr>fa_addr = a, fa_count = fa_count x - (a - fa_addr x)\<rparr> # ys)"
proof -
  have lt: "unat (fa_addr x) < unat a" using assms(2) by (simp add: word_less_nat_alt)
  have s: "unat (a - fa_addr x) = unat a - unat (fa_addr x)"
    using lt by (simp add: unat_sub word_le_nat_alt)
  have s1: "unat (a - fa_addr x - 1) = unat a - unat (fa_addr x) - 1"
  proof -
    have "1 \<le> a - fa_addr x" using s lt by (simp add: word_le_nat_alt)
    then have "unat (a - fa_addr x - 1) = unat (a - fa_addr x) - unat (1 :: u32)" by (rule unat_sub)
    then show ?thesis by (simp add: s)
  qed
  have s2: "unat (fa_count x - (a - fa_addr x)) = unat (fa_count x) - (unat a - unat (fa_addr x))"
  proof -
    have "a - fa_addr x \<le> fa_count x" unfolding word_le_nat_alt s using assms(3) lt by linarith
    then have "unat (fa_count x - (a - fa_addr x)) = unat (fa_count x) - unat (a - fa_addr x)" by (rule unat_sub)
    then show ?thesis by (simp only: s)
  qed
  have e: "unat a + (unat (fa_count x) - (unat a - unat (fa_addr x))) = unat (fa_addr x) + unat (fa_count x)"
    using lt assms(3) by linarith
  from assms(1) obtain mid where m: "tiles lo mid xs" "unat (fa_addr x) = mid" "tiles (mid + unat (fa_count x) + 1) hi ys"
    by (auto simp: tiles_append)
  have "mid + (unat a - unat (fa_addr x) - 1) + 1 = unat a" using lt m(2) by linarith
  then have "tiles mid hi (x\<lparr>fa_count := a - fa_addr x - 1\<rparr>
    # \<lparr>fa_addr = a, fa_count = fa_count x - (a - fa_addr x)\<rparr> # ys)"
    using m e by (simp add: s1 s2)
  with m(1) show ?thesis by (auto simp: tiles_append)
qed

lemma tiles_join:
  assumes "tiles lo hi (xs @ x # y # ys)" "hi \<le> 4294967296"
  shows "tiles lo hi (xs @ x\<lparr>fa_count := fa_count x + (fa_count y + 1)\<rparr> # ys)"
proof -
  from assms(1) obtain mid where m: "tiles lo mid xs" "unat (fa_addr x) = mid"
    "tiles (mid + unat (fa_count x) + 1 + unat (fa_count y) + 1) hi ys"
    by (auto simp: tiles_append)
  have "mid + unat (fa_count x) + 1 + unat (fa_count y) + 1 \<le> 4294967296"
    using tiles_le [OF m(3)] assms(2) by linarith
  then have "unat (fa_count x + (fa_count y + 1)) = unat (fa_count x) + unat (fa_count y) + 1"
    by (simp add: unat_word_ariths)
  then have "tiles mid hi (x\<lparr>fa_count := fa_count x + (fa_count y + 1)\<rparr> # ys)"
    using m(2,3) by (simp add: ac_simps)
  with m(1) show ?thesis by (auto simp: tiles_append)
qed

section \<open>The invariant\<close>

definition lease_ok :: "gstate \<Rightarrow> nat \<Rightarrow> bool" where
  "lease_ok g i \<longleftrightarrow> (\<exists>d. g_dyn g i = Some d \<and> m4_obj (d_map4 d) = i \<and> m6_obj (d_map6 d) = i
     \<and> ntohl (m4_addr (d_map4 d)) = fa_addr (d_free d) \<and> wf_map4 (d_map4 d) \<and> wf_map6 (d_map6 d)
     \<and> m4_prefix_len (d_map4 d) = 32 \<and> m6_prefix_len (d_map6 d) = 128
     \<and> m4_type (d_map4 d) = MAP_TYPE_DYNAMIC_HOST \<and> m6_type (d_map6 d) = MAP_TYPE_DYNAMIC_HOST)"

definition leases :: "dynamic_pool \<Rightarrow> nat list" where
  "leases p = dp_mapped p @ dp_dormant p"

definition pool_base :: "dynamic_pool \<Rightarrow> nat" where
  "pool_base p = unat (fa_addr (dp_free_head p))"

definition pool_size :: "dynamic_pool \<Rightarrow> nat" where
  "pool_size p = 2 ^ (32 - m4_prefix_len (dp_map4 p))"

text \<open>
  The structural part over a set \<open>S\<close> of leases. Between the allocation of a lease and its move
  to the mapped list, \<open>S\<close> is one ahead of the two lists.
\<close>

definition pool_core :: "gstate \<Rightarrow> dynamic_pool \<Rightarrow> nat set \<Rightarrow> bool" where
  "pool_core g p S \<longleftrightarrow>
     m4_prefix_len (dp_map4 p) \<le> 31
     \<and> pool_base p + pool_size p \<le> 4294967296
     \<and> (\<exists>rs. dp_free p = Free_Head # rs)
     \<and> distinct (dp_free p)
     \<and> set (dp_free p) = insert Free_Head (Free_Of ` S)
     \<and> (\<forall>i\<in>S. lease_ok g i)
     \<and> tiles (pool_base p) (pool_base p + pool_size p) (map (free_at g p) (dp_free p))
     \<and> distinct (g_alloc g)
     \<and> set (g_alloc g) \<inter> S = {}"

definition pool_shape :: "gstate \<Rightarrow> dynamic_pool \<Rightarrow> bool" where
  "pool_shape g p \<longleftrightarrow> pool_core g p (set (leases p)) \<and> distinct (leases p)"

definition dormant_sorted :: "gstate \<Rightarrow> dynamic_pool \<Rightarrow> bool" where
  "dormant_sorted g p \<longleftrightarrow> sorted_wrt (\<lambda>i j. last_use_of g j \<le> last_use_of g i) (dp_dormant p)"

definition pool_inv :: "gstate \<Rightarrow> bool" where
  "pool_inv g \<longleftrightarrow> (case g_dynamic_pool g of None \<Rightarrow> True | Some p \<Rightarrow> pool_shape g p)"

text \<open>Accounting: the counters of \<open>dynamic_get_stats\<close> add up to the pool without its base.\<close>

lemma length_free: "pool_shape g p \<Longrightarrow> length (dp_free p) = length (leases p) + 1"
proof -
  assume s: "pool_shape g p"
  then have e: "set (dp_free p) = insert Free_Head (Free_Of ` set (leases p))"
    and d: "distinct (dp_free p)" "distinct (leases p)" by (simp_all add: pool_shape_def pool_core_def)
  have "length (dp_free p) = card (insert Free_Head (Free_Of ` set (leases p)))"
    using distinct_card [OF d(1)] unfolding e by (rule sym)
  also have "\<dots> = Suc (card (Free_Of ` set (leases p)))" by (rule card_insert_disjoint) auto
  also have "\<dots> = Suc (length (leases p))"
    using distinct_card [OF d(2)] by (simp add: card_image inj_on_def)
  finally show ?thesis by simp
qed

lemma sum_list_Suc: "sum_list (map (\<lambda>x. f x + 1) xs) = sum_list (map f xs) + length xs" for f :: "'a \<Rightarrow> nat"
  by (induction xs) simp_all

lemma pool_account:
  assumes "pool_shape g p"
  shows "length (dp_mapped p) + length (dp_dormant p)
    + sum_list (map (\<lambda>f. unat (fa_count (free_at g p f))) (dp_free p)) + 1 = pool_size p"
proof -
  have "pool_base p + sum_list (map (\<lambda>x. unat (fa_count x) + 1) (map (free_at g p) (dp_free p)))
      = pool_base p + pool_size p"
    by (rule tiles_sum) (use assms in \<open>simp add: pool_shape_def pool_core_def\<close>)
  then have "sum_list (map (\<lambda>f. unat (fa_count (free_at g p f)) + 1) (dp_free p)) = pool_size p"
    by (simp add: comp_def)
  then show ?thesis unfolding sum_list_Suc using length_free [OF assms] by (simp add: leases_def)
qed

text \<open>No two leases own the same IPv4 address.\<close>

lemma lease_addr_inj:
  assumes "pool_shape g p" "i \<in> set (leases p)" "j \<in> set (leases p)"
    and "g_dyn g i = Some d" "g_dyn g j = Some e" "m4_addr (d_map4 d) = m4_addr (d_map4 e)"
  shows "i = j"
proof -
  have ti: "tiles (pool_base p) (pool_base p + pool_size p) (map (free_at g p) (dp_free p))"
    using assms(1) unfolding pool_shape_def pool_core_def by blast
  have dm: "distinct (map fa_addr (map (free_at g p) (dp_free p)))"
    by (rule tiles_distinct [OF ti])
  have inj: "inj_on (\<lambda>f. fa_addr (free_at g p f)) (set (dp_free p))"
    using dm by (simp add: distinct_map comp_def)
  have "Free_Of i \<in> set (dp_free p)" "Free_Of j \<in> set (dp_free p)"
    using assms(1,2,3) by (auto simp: pool_shape_def pool_core_def)
  moreover have "fa_addr (free_at g p (Free_Of i)) = ntohl (m4_addr (d_map4 d))"
    "fa_addr (free_at g p (Free_Of j)) = ntohl (m4_addr (d_map4 e))"
    using assms by (auto simp: free_at_def pool_shape_def pool_core_def lease_ok_def)
  ultimately have "Free_Of i = Free_Of j" using inj assms(6) unfolding inj_on_def by metis
  then show ?thesis by simp
qed

section \<open>Changing a run\<close>

definition valid_ref :: "gstate \<Rightarrow> free_ref \<Rightarrow> bool" where
  "valid_ref g f \<longleftrightarrow> (case f of Free_Head \<Rightarrow> True | Free_Of j \<Rightarrow> g_dyn g j \<noteq> None)"

lemma core_valid_ref: "pool_core g p S \<Longrightarrow> f \<in> set (dp_free p) \<Longrightarrow> valid_ref g f"
  by (auto simp: pool_core_def valid_ref_def lease_ok_def)

lemma set_count_spec:
  assumes "g_dynamic_pool g = Some p" "valid_ref g f"
  obtains p' where "g_dynamic_pool (set_count f n g) = Some p'"
    "dp_map4 p' = dp_map4 p" "dp_mapped p' = dp_mapped p" "dp_dormant p' = dp_dormant p"
    "dp_free p' = dp_free p" "pool_base p' = pool_base p"
    "\<And>r. free_at (set_count f n g) p' r = (if r = f then (free_at g p f)\<lparr>fa_count := n\<rparr> else free_at g p r)"
proof (cases f)
  case Free_Head
  show ?thesis
    by (rule that [of "p\<lparr>dp_free_head := (dp_free_head p)\<lparr>fa_count := n\<rparr>\<rparr>"])
      (auto simp: Free_Head set_count_def upd_pool_def assms pool_base_def free_at_def split: free_ref.split)
next
  case (Free_Of j)
  with assms(2) obtain d where "g_dyn g j = Some d" by (auto simp: valid_ref_def)
  then show ?thesis
    by (intro that [of p]) (auto simp: Free_Of set_count_def set_d_def assms free_at_def split: free_ref.split)
qed

lemma set_count_frame [simp]:
  "g_alloc (set_count f n g) = g_alloc g" "g_map4_list (set_count f n g) = g_map4_list g"
  "g_map6_list (set_count f n g) = g_map6_list g" "last_use_of (set_count f n g) = last_use_of g"
  "lease_ok (set_count f n g) = lease_ok g"
  by (auto simp: set_count_def set_d_def upd_pool_def last_use_of_def lease_ok_def fun_eq_iff
      split: free_ref.split option.split)

lemma free_at_upd_pool:
  "dp_free_head p' = dp_free_head p \<Longrightarrow> g_dyn g' = g_dyn g \<Longrightarrow> free_at g' p' = free_at g p"
  by (rule ext) (simp add: free_at_def split: free_ref.split)

lemma lease_ok_cong: "g_dyn g' i = g_dyn g i \<Longrightarrow> lease_ok g' i = lease_ok g i"
  by (simp add: lease_ok_def)

lemma wf_full4: "wf_map4 \<lparr>m4_addr = a, m4_mask = snd (calc_ip4_mask 0 None 32), m4_prefix_len = 32, m4_type = t, m4_obj = i\<rparr>"
  using calc_ip4_mask_bits [of 32 0 None] by (simp add: wf_map4_def v4.canon_def)

lemma wf_full6: "wf_map6 \<lparr>m6_addr = a, m6_mask = snd (calc_ip6_mask z None 128), m6_prefix_len = 128, m6_type = t, m6_obj = i\<rparr>"
  using calc_ip6_mask_bits [of 128 z None] by (simp add: wf_map6_def v6.canon_def)

lemma new_lease_ok:
  "g_dyn g i = Some (new_lease i addr6 addr4 \<lparr>fa_addr = ntohl addr4, fa_count = n\<rparr>) \<Longrightarrow> lease_ok g i"
  by (simp add: lease_ok_def new_lease_def wf_full4 wf_full6)

lemma alloc_core:
  assumes core: "pool_core g p S" and pool: "g_dynamic_pool g = Some p" and f: "f \<in> set (dp_free p)"
    and al: "g_alloc g = i # ids"
    and a: "fa_addr (free_at g p f) < ntohl addr4"
      "unat (ntohl addr4) \<le> unat (fa_addr (free_at g p f)) + unat (fa_count (free_at g p f))"
  obtains p' g' where "alloc_map_dynamic addr6 addr4 f g = (Some i, g')" "g_dynamic_pool g' = Some p'"
    "pool_core g' p' (insert i S)" "dp_mapped p' = dp_mapped p" "dp_dormant p' = dp_dormant p"
    "dp_map4 p' = dp_map4 p" "i \<notin> S" "g_map4_list g' = g_map4_list g" "g_map6_list g' = g_map6_list g"
    "\<exists>fa. g_dyn g' i = Some (new_lease i addr6 addr4 fa)"
    "\<And>j. j \<noteq> i \<Longrightarrow> last_use_of g' j = last_use_of g j" "g_now g' = g_now g"
proof -
  have iS: "i \<notin> S" using core al by (auto simp: pool_core_def)
  then have fi: "Free_Of i \<notin> set (dp_free p)" using core by (auto simp: pool_core_def)
  then have ne: "Free_Of i \<noteq> f" using f by auto
  let ?fa = "free_at g p f"
  let ?a = "ntohl addr4"
  let ?d = "new_lease i addr6 addr4 \<lparr>fa_addr = ?a, fa_count = fa_count ?fa - (?a - fa_addr ?fa)\<rparr>"
  let ?g1 = "set_d i ?d (g\<lparr>g_alloc := ids\<rparr>)"
  have v: "valid_ref g f" by (rule core_valid_ref [OF core f])
  have v1: "valid_ref ?g1 f" using v by (auto simp: valid_ref_def set_d_def split: free_ref.splits)
  have p1: "g_dynamic_pool ?g1 = Some p" by (simp add: set_d_def pool)
  have f1: "free_at ?g1 p r = (if r = Free_Of i then d_free ?d else free_at g p r)" for r
    by (auto simp: free_at_def set_d_def split: free_ref.split)
  obtain p2 where p2: "g_dynamic_pool (set_count f (?a - fa_addr ?fa - 1) ?g1) = Some p2"
    "dp_map4 p2 = dp_map4 p" "dp_mapped p2 = dp_mapped p" "dp_dormant p2 = dp_dormant p"
    "dp_free p2 = dp_free p" "pool_base p2 = pool_base p"
    "\<And>r. free_at (set_count f (?a - fa_addr ?fa - 1) ?g1) p2 r
      = (if r = f then (free_at ?g1 p f)\<lparr>fa_count := ?a - fa_addr ?fa - 1\<rparr> else free_at ?g1 p r)"
    by (rule set_count_spec [OF p1 v1]) blast
  let ?g2 = "set_count f (?a - fa_addr ?fa - 1) ?g1"
  let ?p' = "p2\<lparr>dp_free := list_add_after (Free_Of i) f (dp_free p2)\<rparr>"
  let ?g' = "upd_pool (\<lambda>p. p\<lparr>dp_free := list_add_after (Free_Of i) f (dp_free p)\<rparr>) ?g2"
  have g': "alloc_map_dynamic addr6 addr4 f g = (Some i, ?g')"
    by (simp add: alloc_map_dynamic_def al pool Let_def)
  have gp: "g_dynamic_pool ?g' = Some ?p'" using p2(1) by (simp add: upd_pool_def)
  have fa': "free_at ?g' ?p' r = (if r = f then ?fa\<lparr>fa_count := ?a - fa_addr ?fa - 1\<rparr>
      else if r = Free_Of i then d_free ?d else free_at g p r)" for r
  proof -
    have "free_at ?g' ?p' r = free_at ?g2 p2 r"
      using free_at_upd_pool [of ?p' p2 ?g' ?g2] by (simp add: upd_pool_def)
    then show ?thesis using p2(7) [of r] ne by (auto simp: f1)
  qed
  obtain xs ys where sp: "dp_free p = xs @ f # ys" using f by (meson split_list)
  have nin: "f \<notin> set xs" "f \<notin> set ys" "Free_Of i \<notin> set xs" "Free_Of i \<notin> set ys"
    using core fi unfolding pool_core_def sp by auto
  have fr: "dp_free ?p' = xs @ f # Free_Of i # ys"
    using nin(1) by (simp add: p2(5) sp list_add_after_split)
  have mp: "map (free_at ?g' ?p') (dp_free ?p') = map (free_at g p) xs
      @ ?fa\<lparr>fa_count := ?a - fa_addr ?fa - 1\<rparr> # d_free ?d # map (free_at g p) ys"
    unfolding fr using nin ne by (auto simp: fa')
  have dfree: "d_free ?d = \<lparr>fa_addr = ?a, fa_count = fa_count ?fa - (?a - fa_addr ?fa)\<rparr>"
    by (simp add: new_lease_def)
  have base: "pool_base ?p' = pool_base p" "pool_size ?p' = pool_size p"
    using p2 by (simp_all add: pool_base_def pool_size_def)
  have ti: "tiles (pool_base ?p') (pool_base ?p' + pool_size ?p') (map (free_at ?g' ?p') (dp_free ?p'))"
    unfolding mp base dfree
    by (rule tiles_cut [OF _ a]) (use core sp in \<open>simp add: pool_core_def\<close>)
  have dyn: "\<exists>n. g_dyn ?g' i = Some (new_lease i addr6 addr4 \<lparr>fa_addr = ?a, fa_count = n\<rparr>)"
    using ne by (auto simp: upd_pool_def set_count_def set_d_def split: free_ref.split option.split)
  have lok: "lease_ok ?g' j" if "j \<in> insert i S" for j
  proof (cases "j = i")
    case True
    then show ?thesis using dyn new_lease_ok by blast
  next
    case False
    have "lease_ok ?g' j = lease_ok ?g2 j" by (rule lease_ok_cong) (simp add: upd_pool_def)
    also have "\<dots> = lease_ok ?g1 j" by simp
    also have "\<dots> = lease_ok g j" by (rule lease_ok_cong) (simp add: set_d_def False)
    finally show ?thesis using core that False by (simp add: pool_core_def)
  qed
  have core': "pool_core ?g' ?p' (insert i S)"
    unfolding pool_core_def
  proof (intro conjI)
    show "m4_prefix_len (dp_map4 ?p') \<le> 31" "pool_base ?p' + pool_size ?p' \<le> 4294967296"
      using core base p2 by (simp_all add: pool_core_def)
    show "\<exists>rs. dp_free ?p' = Free_Head # rs"
      using core sp unfolding fr by (cases xs) (auto simp: pool_core_def)
    show "distinct (dp_free ?p')" using core fi ne unfolding fr by (auto simp: pool_core_def sp)
    have "set (dp_free p) = insert Free_Head (Free_Of ` S)" using core by (simp add: pool_core_def)
    then show "set (dp_free ?p') = insert Free_Head (Free_Of ` insert i S)" unfolding fr sp by auto
    show "\<forall>i\<in>insert i S. lease_ok ?g' i" using lok by blast
    show "distinct (g_alloc ?g')" "set (g_alloc ?g') \<inter> insert i S = {}"
      using core al by (auto simp: pool_core_def upd_pool_def set_d_def)
  qed (rule ti)
  have lu: "last_use_of ?g' j = last_use_of g j" if "j \<noteq> i" for j
  proof -
    have "last_use_of ?g' j = last_use_of ?g2 j" unfolding last_use_of_def upd_pool_def by simp
    also have "\<dots> = last_use_of ?g1 j" by (simp only: set_count_frame)
    also have "\<dots> = last_use_of g j" using that by (simp add: last_use_of_def set_d_def)
    finally show ?thesis .
  qed
  show ?thesis
    by (rule that [OF g' gp core' _ _ _ iS _ _ _ lu])
      (use p2 dyn in \<open>auto simp: upd_pool_def set_d_def set_count_def split: free_ref.splits option.splits\<close>)
qed

section \<open>Moves between the lists\<close>

text \<open>Only the two lists of leases change: the core is kept, over the same set.\<close>

lemma core_lists:
  assumes "pool_core g p S" "dp_map4 p' = dp_map4 p" "dp_free p' = dp_free p"
    "dp_free_head p' = dp_free_head p" "g_dyn g' = g_dyn g" "g_alloc g' = g_alloc g"
  shows "pool_core g' p' S"
proof -
  have "free_at g' p' = free_at g p" by (rule free_at_upd_pool [OF assms(4,5)])
  moreover have "lease_ok g' i = lease_ok g i" for i by (rule lease_ok_cong) (simp add: assms(5))
  ultimately show ?thesis using assms by (simp add: pool_core_def pool_base_def pool_size_def)
qed

lemma move_to_mapped_fields:
  assumes "g_dyn g i = Some d"
  shows "g_dyn (move_to_mapped i g) = g_dyn g" "g_alloc (move_to_mapped i g) = g_alloc g"
    "g_dynamic_pool (move_to_mapped i g) = map_option (\<lambda>p. p\<lparr>dp_dormant := list_del i (dp_dormant p),
       dp_mapped := list_add i (dp_mapped p)\<rparr>) (g_dynamic_pool g)"
    "g_map4_list (move_to_mapped i g) = (case insert_map4 (d_map4 d) (g_map4_list g) of
        Inr ms \<Rightarrow> ms | Inl _ \<Rightarrow> g_map4_list g)"
    "g_map6_list (move_to_mapped i g) = (case insert_map6 (d_map6 d) (g_map6_list g) of
        Inr ms \<Rightarrow> ms | Inl _ \<Rightarrow> g_map6_list g)"
  using assms by (auto simp: move_to_mapped_def Let_def upd_pool_def split: sum.split)

lemma move_to_mapped_core:
  assumes "pool_core g p S" "g_dynamic_pool g = Some p" "i \<in> S" "S = insert i (set (leases p))" "distinct (leases p)"
  obtains p' where "g_dynamic_pool (move_to_mapped i g) = Some p'" "pool_shape (move_to_mapped i g) p'"
    "set (leases p') = S" "dp_mapped p' = list_add i (dp_mapped p)"
proof -
  have "lease_ok g i" using assms(1,3) by (simp add: pool_core_def)
  then obtain d where d: "g_dyn g i = Some d" by (auto simp: lease_ok_def)
  let ?p' = "p\<lparr>dp_dormant := list_del i (dp_dormant p), dp_mapped := list_add i (dp_mapped p)\<rparr>"
  have p': "g_dynamic_pool (move_to_mapped i g) = Some ?p'"
    by (simp add: move_to_mapped_fields [OF d] assms(2))
  have S: "set (leases ?p') = S" using assms(4) by (auto simp: leases_def)
  have "distinct (leases ?p')"
    using assms(5) by (auto simp: leases_def list_add_def intro: distinct_list_del)
  moreover have "pool_core (move_to_mapped i g) ?p' S"
    by (rule core_lists [OF assms(1)]) (simp_all add: move_to_mapped_fields [OF d])
  ultimately show ?thesis using that p' S by (simp add: pool_shape_def)
qed

lemma set_insert_older [simp]: "set (insert_older lu i xs) = insert i (set xs)"
  by (induction xs) auto

lemma distinct_insert_older: "i \<notin> set xs \<Longrightarrow> distinct xs \<Longrightarrow> distinct (insert_older lu i xs)"
  by (induction xs) auto

lemma set_dormant_insert [simp]: "set (dormant_insert lu i xs) = insert i (set xs)"
  by (auto simp: dormant_insert_def)

lemma distinct_dormant_insert: "i \<notin> set xs \<Longrightarrow> distinct xs \<Longrightarrow> distinct (dormant_insert lu i xs)"
  by (simp add: dormant_insert_def distinct_insert_older)

lemma insert_older_sorted:
  "sorted_wrt (\<lambda>i j. lu j \<le> lu i) xs \<Longrightarrow> sorted_wrt (\<lambda>i j. lu j \<le> (lu i :: int)) (insert_older lu i xs)"
  by (induction xs) fastforce+

lemma last_least: "sorted_wrt (\<lambda>i j. lu j \<le> (lu i :: int)) xs \<Longrightarrow> x \<in> set xs \<Longrightarrow> lu (last xs) \<le> lu x"
  by (induction xs) auto

text \<open>The shortcut of the code, appending when the last lease is not older, keeps the order too.\<close>

lemma dormant_insert_sorted:
  "sorted_wrt (\<lambda>i j. lu j \<le> lu i) xs \<Longrightarrow> sorted_wrt (\<lambda>i j. lu j \<le> (lu i :: int)) (dormant_insert lu i xs)"
  using last_least [of lu xs] insert_older_sorted [of lu xs i]
  by (auto simp: dormant_insert_def sorted_wrt_append) (meson order_trans)

lemma move_to_dormant_fields:
  "g_dyn (move_to_dormant i g) = g_dyn g" "g_alloc (move_to_dormant i g) = g_alloc g"
  "last_use_of (move_to_dormant i g) = last_use_of g" "g_now (move_to_dormant i g) = g_now g"
  "g_map4_list (move_to_dormant i g) = filter (\<lambda>m. m4_obj m \<noteq> i) (g_map4_list g)"
  "g_map6_list (move_to_dormant i g) = filter (\<lambda>m. m6_obj m \<noteq> i) (g_map6_list g)"
  "g_dynamic_pool (move_to_dormant i g) = map_option (\<lambda>p. p\<lparr>dp_mapped := list_del i (dp_mapped p),
     dp_dormant := dormant_insert (last_use_of g) i (dp_dormant p)\<rparr>) (g_dynamic_pool g)"
proof -
  have l: "last_use_of (g\<lparr>g_map4_list := a, g_map6_list := b\<rparr>) = last_use_of g" for a b
    by (simp add: last_use_of_def fun_eq_iff)
  show "g_dyn (move_to_dormant i g) = g_dyn g" "g_alloc (move_to_dormant i g) = g_alloc g"
    "last_use_of (move_to_dormant i g) = last_use_of g" "g_now (move_to_dormant i g) = g_now g"
    "g_map4_list (move_to_dormant i g) = filter (\<lambda>m. m4_obj m \<noteq> i) (g_map4_list g)"
    "g_map6_list (move_to_dormant i g) = filter (\<lambda>m. m6_obj m \<noteq> i) (g_map6_list g)"
    "g_dynamic_pool (move_to_dormant i g) = map_option (\<lambda>p. p\<lparr>dp_mapped := list_del i (dp_mapped p),
       dp_dormant := dormant_insert (last_use_of g) i (dp_dormant p)\<rparr>) (g_dynamic_pool g)"
    by (simp_all add: move_to_dormant_def Let_def upd_pool_def l) (simp add: last_use_of_def fun_eq_iff)
qed

lemma move_to_dormant_core:
  assumes "pool_core g p S" "g_dynamic_pool g = Some p" "S = insert i (set (leases p))" "distinct (leases p)"
    "i \<notin> set (dp_dormant p)"
  obtains p' where "g_dynamic_pool (move_to_dormant i g) = Some p'" "pool_shape (move_to_dormant i g) p'"
    "set (leases p') = S" "dp_mapped p' = list_del i (dp_mapped p)"
    "dp_dormant p' = dormant_insert (last_use_of g) i (dp_dormant p)"
proof -
  let ?p' = "p\<lparr>dp_mapped := list_del i (dp_mapped p), dp_dormant := dormant_insert (last_use_of g) i (dp_dormant p)\<rparr>"
  have p': "g_dynamic_pool (move_to_dormant i g) = Some ?p'"
    by (simp add: move_to_dormant_fields assms(2))
  have S: "set (leases ?p') = S" using assms(3) by (auto simp: leases_def)
  have "distinct (leases ?p')"
    using assms(4,5) by (auto simp: leases_def intro: distinct_list_del distinct_dormant_insert)
  moreover have "pool_core (move_to_dormant i g) ?p' S"
    by (rule core_lists [OF assms(1)]) (simp_all add: move_to_dormant_fields)
  ultimately show ?thesis using that p' S by (simp add: pool_shape_def)
qed

text \<open>The list stays ordered by age, the oldest last.\<close>

lemma move_to_dormant_sorted:
  assumes "dormant_sorted g p" "dp_dormant p' = dormant_insert (last_use_of g) i (dp_dormant p)"
  shows "dormant_sorted (move_to_dormant i g) p'"
  using dormant_insert_sorted [of "last_use_of g" "dp_dormant p" i] assms
  by (simp add: dormant_sorted_def move_to_dormant_fields)

end
