(* ===== verification/Dynamic_Search.thy ===== *)
theory Dynamic_Search
  imports Dynamic_Inv
begin

text \<open>
  \<open>assign_dynamic\<close> of \<open>src/src/dynamic.c\<close>: the search for a free address is sound and complete,
  and an assignment keeps the pool's invariant, whichever of the three ways it succeeds:
  reactivating a dormant lease, allocating a free address, or reassigning the oldest lease.
\<close>

section \<open>The search for a free address\<close>

lemma scan_run_Some:
  "scan_run ms pobj addr lim = Some a \<Longrightarrow> addr \<le> a \<and> a < lim \<and> lim \<le> 4294967296
     \<and> map_option m4_obj (find_map4 ms (htonl (word_of_nat a))) = Some pobj"
proof (induction ms pobj addr lim rule: scan_run.induct)
  case (1 ms pobj addr lim)
  from 1(2) have c: "addr < lim \<and> lim \<le> 4294967296" by (subst (asm) scan_run.simps) (auto split: if_splits)
  then obtain m4 where m: "find_map4 ms (htonl (word_of_nat addr)) = Some m4"
    using 1(2) by (subst (asm) scan_run.simps) (auto split: option.splits)
  show ?case
  proof (cases "m4_obj m4 = pobj")
    case True
    then have "a = addr" using 1(2) c m by (simp add: scan_run.simps [of ms pobj addr])
    then show ?thesis using c m True by simp
  next
    case False
    let ?n = "unat (ntohl (m4_addr m4) OR NOT (ntohl (m4_mask m4))) + 1"
    have "scan_run ms pobj ?n lim = Some a" using 1(2) c m False by (simp add: scan_run.simps [of ms pobj addr])
    from 1(1) [OF c m False this] skip_forward [OF m] c show ?thesis
      by (simp add: unsigned_of_nat take_bit_nat_eq_self)
  qed
qed

lemma scan_free_Some:
  assumes "scan_free g p low high fs = Some (f, a)"
  shows "f \<in> set fs" "unat (fa_addr (free_at g p f)) < a"
    "a \<le> unat (fa_addr (free_at g p f)) + unat (fa_count (free_at g p f))" "low \<le> a" "a < high"
    "a < 4294967296"
    "map_option m4_obj (find_map4 (g_map4_list g) (htonl (word_of_nat a))) = Some (m4_obj (dp_map4 p))"
proof -
  have "f \<in> set fs \<and> unat (fa_addr (free_at g p f)) < a
    \<and> a \<le> unat (fa_addr (free_at g p f)) + unat (fa_count (free_at g p f)) \<and> low \<le> a \<and> a < high
    \<and> a < 4294967296
    \<and> map_option m4_obj (find_map4 (g_map4_list g) (htonl (word_of_nat a))) = Some (m4_obj (dp_map4 p))"
    using assms
  proof (induction fs)
    case (Cons x xs)
    let ?fa = "free_at g p x"
    show ?case
    proof (cases "scan_run (g_map4_list g) (m4_obj (dp_map4 p)) (max (unat (fa_addr ?fa) + 1) low)
        (min (unat (fa_addr ?fa) + unat (fa_count ?fa) + 1) high)")
      case None
      then show ?thesis using Cons by (simp add: Let_def)
    next
      case (Some b)
      then have "x = f" "b = a" using Cons(2) by (simp_all add: Let_def)
      with scan_run_Some [OF Some] show ?thesis by auto
    qed
  qed simp
  then show "f \<in> set fs" "unat (fa_addr (free_at g p f)) < a"
    "a \<le> unat (fa_addr (free_at g p f)) + unat (fa_count (free_at g p f))" "low \<le> a" "a < high"
    "a < 4294967296"
    "map_option m4_obj (find_map4 (g_map4_list g) (htonl (word_of_nat a))) = Some (m4_obj (dp_map4 p))"
    by blast+
qed

text \<open>
  Completeness. In the pool's block the lookup always finds at least the pool's entry; a longer
  entry covers no address whose longest match is the pool, so its whole block may be skipped.
\<close>

definition pool_free :: "gstate \<Rightarrow> dynamic_pool \<Rightarrow> nat \<Rightarrow> bool" where
  "pool_free g p a \<longleftrightarrow> map_option m4_obj (find_map4 (g_map4_list g) (htonl (word_of_nat a))) = Some (m4_obj (dp_map4 p))"

definition in_pool :: "dynamic_pool \<Rightarrow> nat \<Rightarrow> bool" where
  "in_pool p a \<longleftrightarrow> covers4 (dp_map4 p) (htonl (word_of_nat a))"

definition objs_distinct :: "gstate \<Rightarrow> bool" where
  "objs_distinct g \<longleftrightarrow> distinct (map m4_obj (g_map4_list g))"

text \<open>Numeric view of a block: the addresses from its base to its last one.\<close>

lemma mask_host_bits:
  assumes "wf_map4 m"
  defines "k \<equiv> 32 - m4_prefix_len m"
  shows "ntohl (m4_mask m) = push_bit k (mask (32 - k))" "NOT (ntohl (m4_mask m)) = mask k"
    "\<And>n. bit (ntohl (m4_addr m)) n \<Longrightarrow> k \<le> n" "m4_prefix_len m \<le> 32"
proof -
  have len: "m4_prefix_len m \<le> 32" using assms(1) by (simp add: wf_map4_def is_mask4_def)
  have b: "bit (ntohl (m4_mask m)) n \<longleftrightarrow> k \<le> n" if "n < 32" for n
  proof -
    have "ip4_bit (m4_mask m) (31 - n) \<longleftrightarrow> 31 - n < m4_prefix_len m"
      using assms(1) that by (auto simp: wf_map4_def is_mask4_def)
    moreover have "31 - (31 - n) = n" using that by simp
    ultimately have "bit (ntohl (m4_mask m)) n \<longleftrightarrow> 31 - n < m4_prefix_len m" by (simp add: ip4_bit_def)
    then show ?thesis unfolding k_def using len that by linarith
  qed
  show "ntohl (m4_mask m) = push_bit k (mask (32 - k))"
    by (rule bit_word_eqI) (auto simp: b bit_push_bit_iff bit_mask_iff)
  show "NOT (ntohl (m4_mask m)) = mask k"
    by (rule bit_word_eqI) (auto simp: b bit_not_iff bit_mask_iff)
  show "k \<le> n" if "bit (ntohl (m4_addr m)) n" for n
  proof -
    have n: "n < 32" using that bit_imp_le_length [of "ntohl (m4_addr m)" n] by simp
    have "31 - (31 - n) = n" using n by simp
    then have "ip4_bit (m4_addr m) (31 - n)" using that by (simp add: ip4_bit_def)
    then have "31 - n < m4_prefix_len m" using assms(1) n by (auto simp: wf_map4_def v4.canon_def)
    then show ?thesis unfolding k_def using len n by linarith
  qed
  show "m4_prefix_len m \<le> 32" by (rule len)
qed

lemma unat_mask_u32: "k \<le> 32 \<Longrightarrow> unat (mask k :: u32) = 2 ^ k - 1"
proof -
  assume k: "k \<le> 32"
  have "NOT 0 AND mask k = (mask k :: u32)" by simp
  then have "unat (mask k :: u32) = unat (NOT 0 :: u32) mod 2 ^ k" using unat_and_mask [OF k, of "NOT 0"] by simp
  moreover have "unat (NOT 0 :: u32) = 2 ^ (32 - k) * 2 ^ k - 1"
    unfolding unat_not_u32 using k by (simp flip: power_add)
  moreover have "(q * b - 1) mod b = b - 1" if qb: "0 < q" "0 < b" for q b :: nat
  proof -
    obtain r where "q = Suc r" using qb(1) by (cases q) auto
    then have e: "q * b - 1 = (b - 1) + r * b" using qb(2) by simp
    show ?thesis unfolding e using qb(2) by (simp only: mod_mult_self1) simp
  qed
  ultimately show ?thesis by simp
qed

lemma block_numeric:
  assumes "wf_map4 m"
  defines "k \<equiv> 32 - m4_prefix_len m" and "N \<equiv> unat (ntohl (m4_addr m))"
  shows "covers4 m a \<longleftrightarrow> N \<le> unat (ntohl a) \<and> unat (ntohl a) < N + 2 ^ k"
    and "unat (ntohl (m4_addr m) OR NOT (ntohl (m4_mask m))) + 1 = N + 2 ^ k"
    and "\<exists>q. N = q * 2 ^ k" "N + 2 ^ k \<le> 4294967296"
proof -
  note h = mask_host_bits [OF assms(1), folded k_def]
  have k: "k \<le> 32" by (simp add: k_def)
  define d where "d = drop_bit k (ntohl (m4_addr m))"
  have c: "ntohl (m4_addr m) = push_bit k d"
  proof (rule bit_word_eqI)
    fix n :: nat
    assume "n < LENGTH(32)"
    then show "bit (ntohl (m4_addr m)) n = bit (push_bit k d) n"
      using h(3) [of n] by (auto simp: d_def bit_push_bit_iff bit_drop_bit_eq)
  qed
  have ud: "unat d = N div 2 ^ k"
    unfolding d_def N_def by (simp only: unat_drop_bit_eq) (simp only: drop_bit_eq_div)
  have p32: "(2 :: nat) ^ (32 - k) * 2 ^ k = 4294967296" using k by (simp flip: power_add)
  have dl: "unat d < 2 ^ (32 - k)"
    unfolding ud by (rule less_mult_imp_div_less) (use unat_u32_less [of "ntohl (m4_addr m)"] p32 in \<open>simp add: N_def\<close>)
  have N: "N = unat d * 2 ^ k"
  proof -
    have "unat d * 2 ^ k < 2 ^ (32 - k) * 2 ^ k" using dl by (rule mult_strict_right_mono) simp
    then have l: "unat d * 2 ^ k < 4294967296" by (simp only: p32)
    have "N = unat (push_bit k d)" by (simp add: N_def c)
    also have "\<dots> = take_bit 32 (push_bit k (unat d))" by (simp add: unsigned_push_bit_eq)
    also have "\<dots> = push_bit k (unat d)"
      by (rule take_bit_nat_eq_self) (use l in \<open>simp add: push_bit_eq_mult mult.commute\<close>)
    finally show ?thesis by (simp add: push_bit_eq_mult)
  qed
  then show "\<exists>q. N = q * 2 ^ k" by blast
  have "unat d + 1 \<le> 2 ^ (32 - k)" using dl by simp
  then have "(unat d + 1) * 2 ^ k \<le> 2 ^ (32 - k) * 2 ^ k" by (rule mult_le_mono1)
  then show top: "N + 2 ^ k \<le> 4294967296" using p32 N by simp
  have "covers4 m a \<longleftrightarrow> m4_addr m = m4_mask m AND a" using covers4_test [OF assms(1)] by simp
  also have "\<dots> \<longleftrightarrow> a AND htonl (ntohl (m4_mask m)) = htonl (ntohl (m4_addr m))" by (auto simp: and.commute)
  also have "\<dots> \<longleftrightarrow> unat (ntohl a) div 2 ^ k = unat d"
    unfolding h(1) c by (rule and_mask_eq_iff [OF k refl refl dl])
  also have "\<dots> \<longleftrightarrow> N \<le> unat (ntohl a) \<and> unat (ntohl a) < N + 2 ^ k"
  proof -
    have "x div b = q \<longleftrightarrow> q * b \<le> x \<and> x < q * b + b" if "0 < b" for x b q :: nat
      using that by (metis add.commute div_nat_eqI dividend_less_div_times mult.commute mult_Suc times_div_less_eq_dividend)
    then show ?thesis unfolding N by simp
  qed
  finally show "covers4 m a \<longleftrightarrow> N \<le> unat (ntohl a) \<and> unat (ntohl a) < N + 2 ^ k" .
  have "ntohl (m4_addr m) OR mask k = ntohl (m4_addr m) + mask k"
    by (rule disjunctive_add [symmetric]) (auto simp: bit_mask_iff not_less [symmetric] dest: h(3))
  moreover have um: "unat (mask k :: u32) = 2 ^ k - 1"
    by (rule unat_mask_u32 [OF k])
  moreover have "N + (2 ^ k - 1) < 4294967296" using top by (simp add: Suc_le_eq [symmetric])
  ultimately have "unat (ntohl (m4_addr m) OR mask k) = N + (2 ^ k - 1)"
    by (simp add: unat_word_ariths N_def)
  then show "unat (ntohl (m4_addr m) OR NOT (ntohl (m4_mask m))) + 1 = N + 2 ^ k"
    unfolding h(2) by simp
qed

lemma objs_unique:
  "distinct (map m4_obj ms) \<Longrightarrow> m \<in> set ms \<Longrightarrow> m' \<in> set ms \<Longrightarrow> m4_obj m = m4_obj m' \<Longrightarrow> m = m'"
  by (auto simp: distinct_map inj_on_def)

lemma longer_hides_pool:
  assumes t: "table4 ms" "distinct (map m4_obj ms)" and P: "P \<in> set ms" "covers4 P x"
    and m: "find_map4 ms x = Some m" "m4_obj m \<noteq> m4_obj P" and y: "covers4 m y"
  shows "map_option m4_obj (find_map4 ms y) \<noteq> Some (m4_obj P)"
proof
  assume "map_option m4_obj (find_map4 ms y) = Some (m4_obj P)"
  then obtain q where q: "find_map4 ms y = Some q" "m4_obj q = m4_obj P" by auto
  note fq = t4.find_Some [OF t(1) q(1)]
  note fm = t4.find_Some [OF t(1) m(1)]
  have "q = P" using objs_unique [OF t(2), of q P] fq P q(2) by simp
  with fq fm y have "m4_prefix_len m \<le> m4_prefix_len P" by blast
  with fm P have "m4_prefix_len m = m4_prefix_len P" by (meson le_antisym)
  then have "m = P" using t4.same_len [OF t(1), of m P x] fm P by blast
  with m(2) show False by simp
qed

lemma scan_run_None:
  assumes t: "table4 ms" "distinct (map m4_obj ms)" and P: "P \<in> set ms" and lim: "lim \<le> 4294967296"
  shows "\<forall>a. addr \<le> a \<and> a < lim \<longrightarrow> covers4 P (htonl (word_of_nat a)) \<Longrightarrow>
    scan_run ms (m4_obj P) addr lim = None \<Longrightarrow> addr \<le> a \<Longrightarrow> a < lim \<Longrightarrow>
    map_option m4_obj (find_map4 ms (htonl (word_of_nat a))) \<noteq> Some (m4_obj P)"
proof (induction "lim - addr" arbitrary: addr rule: less_induct)
  case less
  let ?x = "htonl (word_of_nat addr)"
  have al: "addr < lim" using less.prems by linarith
  have ua: "unat (word_of_nat b :: u32) = b" if "b < lim" for b
    using that lim by (simp add: unsigned_of_nat take_bit_nat_eq_self)
  have cx: "covers4 P ?x" using less.prems al by simp
  then obtain m where m: "find_map4 ms ?x = Some m"
    using t4.find_None [OF t(1), of ?x] P by fastforce
  then have ne: "m4_obj m \<noteq> m4_obj P"
    using less.prems(2) al lim by (auto simp: scan_run.simps [of ms _ addr])
  note fm = t4.find_Some [OF t(1) m]
  have wf: "wf_map4 m" using t(1) fm by (auto simp: table4_def)
  define nx where "nx = unat (ntohl (m4_addr m) OR NOT (ntohl (m4_mask m))) + 1"
  note bn = block_numeric [OF wf]
  have in_m: "covers4 m ?x" using fm by blast
  have nxt: "scan_run ms (m4_obj P) nx lim = None"
    using less.prems(2) al lim m ne unfolding nx_def by (simp add: scan_run.simps [of ms _ addr])
  show ?case
  proof (cases "a < nx")
    case True
    have "covers4 m (htonl (word_of_nat a))"
      using in_m True less.prems(3) ua [OF al] ua [OF less.prems(4)]
      unfolding bn(1) nx_def bn(2) by simp
    then show ?thesis using longer_hides_pool [OF t P cx m ne] by blast
  next
    case False
    have "addr < nx" using in_m ua [OF al] unfolding bn(1) nx_def bn(2) by simp
    then have "lim - nx < lim - addr" using al by (rule diff_less_mono2)
    from less.hyps [OF this _ nxt _ less.prems(4)] False less.prems(1) \<open>addr < nx\<close> show ?thesis by auto
  qed
qed

lemma scan_free_None:
  "scan_free g p low high fs = None \<Longrightarrow> f \<in> set fs \<Longrightarrow>
    scan_run (g_map4_list g) (m4_obj (dp_map4 p)) (max (unat (fa_addr (free_at g p f)) + 1) low)
      (min (unat (fa_addr (free_at g p f)) + unat (fa_count (free_at g p f)) + 1) high) = None"
  by (induction fs) (auto simp: Let_def split: option.splits)

text \<open>The pool's own entry is in the table and covers exactly the block the free list tiles.\<close>

definition pool_mapped :: "gstate \<Rightarrow> dynamic_pool \<Rightarrow> bool" where
  "pool_mapped g p \<longleftrightarrow> dp_map4 p \<in> set (g_map4_list g) \<and> distinct (map m4_obj (g_map4_list g))
     \<and> table4 (g_map4_list g) \<and> pool_base p = unat (ntohl (m4_addr (dp_map4 p)))"

lemma pool_covers:
  assumes "pool_mapped g p" "pool_core g p S" "pool_base p \<le> a" "a < pool_base p + pool_size p"
  shows "covers4 (dp_map4 p) (htonl (word_of_nat a))"
proof -
  have wf: "wf_map4 (dp_map4 p)" using assms(1) by (auto simp: pool_mapped_def table4_def)
  have "a < 4294967296" using assms(2,4) by (simp add: pool_core_def)
  then have "unat (word_of_nat a :: u32) = a" by (simp add: unsigned_of_nat take_bit_nat_eq_self)
  then show ?thesis using assms unfolding block_numeric(1) [OF wf] by (simp add: pool_mapped_def pool_size_def)
qed

lemma head_or_first:
  assumes "pool_mapped g p" "pool_core g p S"
  shows "unat (fa_addr (dp_free_head p) OR (b AND drop_bit (m4_prefix_len (dp_map4 p)) 0xffffffff)) < pool_base p + pool_size p"
    "unat (drop_bit (m4_prefix_len (dp_map4 p)) (0xffffffff :: u32)) + 1 = pool_size p"
proof -
  let ?l = "m4_prefix_len (dp_map4 p)"
  have l: "?l \<le> 31" using assms(2) by (simp add: pool_core_def)
  have lm: "drop_bit ?l (0xffffffff :: u32) = mask (32 - ?l)" using l by (intro low_mask) simp
  have um: "unat (mask (32 - ?l) :: u32) = 2 ^ (32 - ?l) - 1"
    by (rule unat_mask_u32) simp
  then show "unat (drop_bit ?l (0xffffffff :: u32)) + 1 = pool_size p"
    unfolding lm by (simp add: pool_size_def)
  have "unat (fa_addr (dp_free_head p) OR (b AND mask (32 - ?l))) \<le>
      unat (fa_addr (dp_free_head p)) + unat (b AND mask (32 - ?l))"
  proof -
    have h: "fa_addr (dp_free_head p) = ntohl (m4_addr (dp_map4 p))"
      using assms(1) by (simp add: pool_mapped_def pool_base_def word_unat_eq_iff)
    have wf: "wf_map4 (dp_map4 p)" using assms(1) by (auto simp: pool_mapped_def table4_def)
    have "fa_addr (dp_free_head p) OR (b AND mask (32 - ?l)) = fa_addr (dp_free_head p) + (b AND mask (32 - ?l))"
      by (rule disjunctive_add [symmetric])
        (auto simp: h bit_and_iff bit_mask_iff not_less [symmetric] dest: mask_host_bits(3) [OF wf])
    then show ?thesis by (simp add: unat_word_ariths)
  qed
  moreover have "unat (b AND mask (32 - ?l)) < 2 ^ (32 - ?l)" by (simp add: unat_and_mask)
  ultimately show "unat (fa_addr (dp_free_head p) OR (b AND drop_bit ?l 0xffffffff)) < pool_base p + pool_size p"
    unfolding lm pool_base_def pool_size_def by linarith
qed

text \<open>The search gives up only when no address of any free run is the pool's to give.\<close>

lemma search_free_complete:
  assumes core: "pool_core g p S" and pm: "pool_mapped g p"
    and none: "search_free g p addr6 = None" and f: "f \<in> set (dp_free p)"
    and a: "unat (fa_addr (free_at g p f)) < a" "a \<le> unat (fa_addr (free_at g p f)) + unat (fa_count (free_at g p f))"
  shows "map_option m4_obj (find_map4 (g_map4_list g) (htonl (word_of_nat a))) \<noteq> Some (m4_obj (dp_map4 p))"
proof -
  let ?l = "m4_prefix_len (dp_map4 p)"
  let ?first = "unat (fa_addr (dp_free_head p) OR (dyn_base ?l addr6 AND drop_bit ?l 0xffffffff))"
  let ?top = "pool_base p + pool_size p"
  have tp: "unat (fa_addr (dp_free_head p)) + unat (drop_bit ?l (0xffffffff :: u32)) + 1 = ?top"
    using head_or_first(2) [OF pm core] by (simp add: pool_base_def)
  have n: "scan_free g p ?first ?top (dp_free p) = None" "scan_free g p (pool_base p) ?first (dp_free p) = None"
    using none unfolding search_free_def Let_def tp unfolding pool_base_def
    by (auto split: option.splits)
  have ti: "tiles (pool_base p) ?top (map (free_at g p) (dp_free p))" using core by (simp add: pool_core_def)
  have fb: "pool_base p \<le> unat (fa_addr (free_at g p f))"
    "unat (fa_addr (free_at g p f)) + unat (fa_count (free_at g p f)) < ?top"
    using tiles_addr_less [OF ti, of "free_at g p f"] f by auto
  have top: "?top \<le> 4294967296" using core by (simp add: pool_core_def)
  have ft: "?first < ?top" by (rule head_or_first(1) [OF pm core])
  have tb: "table4 (g_map4_list g)" "distinct (map m4_obj (g_map4_list g))" "dp_map4 p \<in> set (g_map4_list g)"
    using pm by (simp_all add: pool_mapped_def)
  have cov: "covers4 (dp_map4 p) (htonl (word_of_nat b))" if "pool_base p \<le> b" "b < ?top" for b
    by (rule pool_covers [OF pm core that])
  show ?thesis
  proof (cases "?first \<le> a")
    case True
    show ?thesis
      by (rule scan_run_None [OF tb _ _ scan_free_None [OF n(1) f]])
        (use cov a fb top True in auto)
  next
    case False
    show ?thesis
      by (rule scan_run_None [OF tb _ _ scan_free_None [OF n(2) f]])
        (use cov a fb top ft False in auto)
  qed
qed

section \<open>Assignment\<close>

lemma pending_core: "pool_core (g\<lparr>g_map_write_pending := b\<rparr>) p S = pool_core g p S"
proof -
  have "free_at (g\<lparr>g_map_write_pending := b\<rparr>) p = free_at g p" by (rule free_at_upd_pool) simp_all
  moreover have "lease_ok (g\<lparr>g_map_write_pending := b\<rparr>) i = lease_ok g i" for i by (rule lease_ok_cong) simp
  ultimately show ?thesis by (simp add: pool_core_def)
qed

lemma set_map6_addr_core:
  assumes "pool_core g p S" "g_dyn g i = Some d" "i \<in> S"
  shows "pool_core (set_map6_addr i a g) p S" "g_dynamic_pool (set_map6_addr i a g) = g_dynamic_pool g"
    "g_dyn (set_map6_addr i a g) i = Some (d\<lparr>d_map6 := (d_map6 d)\<lparr>m6_addr := a\<rparr>\<rparr>)"
proof -
  let ?g = "set_map6_addr i a g"
  have e: "?g = g\<lparr>g_dyn := (g_dyn g)(i \<mapsto> d\<lparr>d_map6 := (d_map6 d)\<lparr>m6_addr := a\<rparr>\<rparr>)\<rparr>"
    by (simp add: set_map6_addr_def set_d_def assms(2))
  show "g_dynamic_pool ?g = g_dynamic_pool g"
    "g_dyn ?g i = Some (d\<lparr>d_map6 := (d_map6 d)\<lparr>m6_addr := a\<rparr>\<rparr>)" by (simp_all add: e)
  have f: "free_at ?g p = free_at g p"
    using assms(2) by (auto simp: fun_eq_iff free_at_def e split: free_ref.split)
  have "lease_ok g i" using assms(1,3) by (simp add: pool_core_def)
  then have "lease_ok ?g i" using assms(2) by (auto simp: lease_ok_def e wf_map6_def v6.canon_def)
  moreover have "lease_ok ?g j = lease_ok g j" if "j \<noteq> i" for j
    by (rule lease_ok_cong) (simp add: e that)
  ultimately have "lease_ok ?g j" if "j \<in> S" for j
    using assms(1) that by (cases "j = i") (auto simp: pool_core_def)
  then show "pool_core ?g p S" using assms(1) by (simp add: pool_core_def f) (simp add: e)
qed

lemma pool_shape_core: "pool_shape g p \<Longrightarrow> pool_core g p (set (leases p)) \<and> distinct (leases p)"
  by (simp add: pool_shape_def)

lemma find_dormant_SomeD:
  "find_dormant g a ids = Some i \<Longrightarrow> i \<in> set ids \<and> (\<exists>d. g_dyn g i = Some d \<and> m6_addr (d_map6 d) = a)"
  unfolding find_dormant_def by (drule find_SomeD) (auto split: option.splits)

lemma search_free_Some:
  assumes "search_free g p a6 = Some (f, a)"
  shows "f \<in> set (dp_free p)" "unat (fa_addr (free_at g p f)) < a"
    "a \<le> unat (fa_addr (free_at g p f)) + unat (fa_count (free_at g p f))" "a < 4294967296"
    "map_option m4_obj (find_map4 (g_map4_list g) (htonl (word_of_nat a))) = Some (m4_obj (dp_map4 p))"
  using assms unfolding search_free_def Let_def
  by (auto split: option.splits dest: scan_free_Some)

lemma assign_dynamic_shape:
  assumes pool: "g_dynamic_pool g = Some p" and shape: "pool_shape g p"
    and asg: "assign_dynamic a6 g = (r, g')"
  obtains p' where "g_dynamic_pool g' = Some p'" "pool_shape g' p'" "set (leases p) \<subseteq> set (leases p')"
    "r = None \<Longrightarrow> g' = g"
    "\<And>i. r = Some i \<Longrightarrow> i \<in> set (dp_mapped p') \<and> (\<exists>d. g_dyn g' i = Some d \<and> m6_addr (d_map6 d) = a6)"
proof -
  note core = pool_shape_core [OF shape]
  show ?thesis
  proof (cases "find_dormant g a6 (dp_dormant p)")
    case (Some i)
    then have r: "r = Some i" "g' = move_to_mapped i g" using asg pool by (simp_all add: assign_dynamic_def)
    from find_dormant_SomeD [OF Some] obtain d where d: "i \<in> set (dp_dormant p)" "g_dyn g i = Some d" "m6_addr (d_map6 d) = a6"
      by blast
    have "i \<in> set (leases p)" using d(1) by (simp add: leases_def)
    then obtain p' where p': "g_dynamic_pool g' = Some p'" "pool_shape g' p'" "set (leases p') = set (leases p)"
      "dp_mapped p' = list_add i (dp_mapped p)"
      using move_to_mapped_core [of g p "set (leases p)" i] core pool unfolding r(2) by (metis insert_absorb)
    show ?thesis
      by (rule that [OF p'(1,2)]) (use p' r d in \<open>auto simp: move_to_mapped_fields\<close>)
  next
    case None
    note nd = None
    show ?thesis
    proof (cases "search_free g p a6")
      case (Some fa)
      obtain f a where fa: "fa = (f, a)" by (cases fa)
      note sf = search_free_Some [OF Some [unfolded fa]]
      let ?a4 = "htonl (word_of_nat a)"
      have ua: "unat (ntohl ?a4) = a" using sf(4) by (simp add: unsigned_of_nat take_bit_nat_eq_self)
      show ?thesis
      proof (cases "g_alloc g")
        case Nil
        then have "alloc_map_dynamic a6 ?a4 f g = (None, g)" by (simp add: alloc_map_dynamic_def split: option.split)
        then have "r = None" "g' = g" using asg pool nd Some fa by (simp_all add: assign_dynamic_def)
        then show ?thesis using that pool shape by auto
      next
        case (Cons i ids)
        have lt: "fa_addr (free_at g p f) < ntohl ?a4" unfolding word_less_nat_alt ua by (rule sf(2))
        have le: "unat (ntohl ?a4) \<le> unat (fa_addr (free_at g p f)) + unat (fa_count (free_at g p f))"
          unfolding ua by (rule sf(3))
        obtain p1 g1 where g1: "alloc_map_dynamic a6 ?a4 f g = (Some i, g1)" "g_dynamic_pool g1 = Some p1"
          "pool_core g1 p1 (insert i (set (leases p)))" "dp_mapped p1 = dp_mapped p" "dp_dormant p1 = dp_dormant p"
          "i \<notin> set (leases p)" "\<exists>fa. g_dyn g1 i = Some (new_lease i a6 ?a4 fa)"
          by (rule alloc_core [OF conjunct1 [OF core] pool sf(1) Cons lt le, of a6]) blast
        let ?g2 = "g1\<lparr>g_map_write_pending := True\<rparr>"
        have r: "r = Some i" "g' = move_to_mapped i ?g2"
          using asg pool nd Some fa g1(1) by (simp_all add: assign_dynamic_def)
        have le1: "leases p1 = leases p" using g1(4,5) by (simp add: leases_def)
        have c2: "pool_core ?g2 p1 (insert i (set (leases p)))" using g1(3) by (simp add: pending_core)
        obtain p' where p': "g_dynamic_pool g' = Some p'" "pool_shape g' p'"
          "set (leases p') = insert i (set (leases p))" "dp_mapped p' = list_add i (dp_mapped p1)"
          unfolding r(2) by (rule move_to_mapped_core [OF c2]) (use g1(2) core le1 in auto)
        have "g_dyn g' = g_dyn g1" using g1(7) unfolding r(2) by (auto simp: move_to_mapped_fields)
        then show ?thesis
          by (intro that [OF p'(1,2)]) (use p' r g1(7) in \<open>auto simp: new_lease_def\<close>)
      qed
    next
      case None
      show ?thesis
      proof (cases "dp_dormant p = []")
        case True
        then have "r = None" "g' = g" using asg pool nd None by (simp_all add: assign_dynamic_def)
        then show ?thesis using that pool shape by auto
      next
        case False
        let ?i = "last (dp_dormant p)"
        have i: "?i \<in> set (leases p)" using False by (simp add: leases_def)
        then have "lease_ok g ?i" using core by (simp add: pool_core_def)
        then obtain d where d: "g_dyn g ?i = Some d" by (auto simp: lease_ok_def)
        let ?g2 = "(set_map6_addr ?i a6 g)\<lparr>g_map_write_pending := True\<rparr>"
        have r: "r = Some ?i" "g' = move_to_mapped ?i ?g2"
          using asg pool nd None False by (simp_all add: assign_dynamic_def Let_def)
        note sc = set_map6_addr_core [OF conjunct1 [OF core] d i, of a6]
        have c2: "pool_core ?g2 p (set (leases p))" using sc(1) by (simp add: pending_core)
        obtain p' where p': "g_dynamic_pool g' = Some p'" "pool_shape g' p'"
          "set (leases p') = set (leases p)" "dp_mapped p' = list_add ?i (dp_mapped p)"
          unfolding r(2) by (rule move_to_mapped_core [OF c2 _ i]) (use i core sc(2) pool in auto)
        have "g_dyn g' ?i = Some (d\<lparr>d_map6 := (d_map6 d)\<lparr>m6_addr := a6\<rparr>\<rparr>)"
          using sc(3) unfolding r(2) by (subst move_to_mapped_fields(1)) auto
        then show ?thesis
          by (intro that [OF p'(1,2)]) (use p' r in auto)
      qed
    qed
  qed
qed

end
