(* ===== verification/Addrmap.thy ===== *)
theory Addrmap
  imports Rfc6052 Dynamic_Search
begin

text \<open>
  Address translation, \<open>map_ip4_to_ip6\<close> and \<open>map_ip6_to_ip4\<close> of \<open>src/src/addrmap.c\<close>: the
  cache, the longest match, the three kinds of mapping, the hairpin checks, and the publication
  of the pair in the cache. The result is \<open>Inl e\<close> for a nonzero return value \<open>e\<close> and \<open>Inr a\<close>
  with the out-parameter otherwise.
\<close>

section \<open>Explicit address mappings\<close>

text \<open>The bits of the IPv4 address after its prefix, put after the IPv6 prefix.\<close>

definition or_word :: "nat \<Rightarrow> u32 \<Rightarrow> in6_addr \<Rightarrow> in6_addr" where
  "or_word w x a =
     (if w = 0 then a\<lparr>a0 := a0 a OR x\<rparr> else if w = 1 then a\<lparr>a1 := a1 a OR x\<rparr>
      else if w = 2 then a\<lparr>a2 := a2 a OR x\<rparr> else if w = 3 then a\<lparr>a3 := a3 a OR x\<rparr> else a)"

definition eam_suffix4 :: "map4 \<Rightarrow> in_addr \<Rightarrow> u32" where
  "eam_suffix4 m addr4 = ntohl addr4 AND NOT (ntohl (m4_mask m))"

definition eam_embed :: "map4 \<Rightarrow> map6 \<Rightarrow> in_addr \<Rightarrow> in6_addr" where
  "eam_embed m4 m6 addr4 =
     (let addr6 = m6_addr m6;
          suffix = eam_suffix4 m4 addr4;
          bits = 32 - m4_prefix_len m4
      in if m6_prefix_len m6 + bits = 128 then or_word 3 (htonl suffix) addr6
         else if bits > 0 then
           (let pos = m6_prefix_len m6;
                word = pos div 32;
                off = pos mod 32;
                shifted = push_bit (64 - off - bits) (ucast suffix :: u64);
                addr6 = or_word word (htonl (ucast (drop_bit 32 shifted))) addr6
            in if off + bits > 32 then or_word (word + 1) (htonl (ucast shifted)) addr6 else addr6)
         else addr6)"

definition eam_extract :: "map4 \<Rightarrow> map6 \<Rightarrow> in6_addr \<Rightarrow> in_addr" where
  "eam_extract m4 m6 addr6 =
     (let bits = 32 - m4_prefix_len m4;
          suffix =
            (if m6_prefix_len m6 + bits = 128 then ntohl (a3 addr6) AND NOT (ntohl (m4_mask m4))
             else if bits > 0 then
               (let pos = m6_prefix_len m6;
                    word = pos div 32;
                    off = pos mod 32;
                    raw = push_bit 32 (ucast (ntohl (in6_words addr6 ! word)) :: u64)
                      OR (if off + bits > 32 then ucast (ntohl (in6_words addr6 ! (word + 1))) else 0)
                in ucast (drop_bit (64 - off - bits) raw AND drop_bit (64 - bits) 0xffffffffffffffff))
             else 0)
      in m4_addr m4 OR htonl suffix)"

section \<open>Translation\<close>

text \<open>Publication of a pair; a dynamic lease remembers the cache entry that keeps it alive.\<close>

definition publish :: "in_addr \<Rightarrow> in6_addr \<Rightarrow> nat option \<Rightarrow> gstate \<Rightarrow> gstate" where
  "publish addr4 addr6 dyn g =
     (case cache_insert addr4 addr6 (hash_ip4 g addr4) (hash_ip6 g addr6) g of
        (c, g) \<Rightarrow>
          (case dyn of
             None \<Rightarrow> g
           | Some i \<Rightarrow>
               (let g = (case g_dyn g i of Some d \<Rightarrow> set_d i (d\<lparr>d_cache_entry := c\<rparr>) g | None \<Rightarrow> g)
                in (case c of
                      None \<Rightarrow> g
                    | Some c \<Rightarrow> g\<lparr>g_entry := (g_entry g)(c := (g_entry g c)
                        \<lparr>c_flags := c_flags (g_entry g c) OR CACHE_F_REP_AGEOUT\<rparr>)\<rparr>))))"

definition map4_slow :: "in_addr \<Rightarrow> gstate \<Rightarrow> (err + in6_addr) \<times> gstate" where
  "map4_slow addr4 g =
     (case find_map4 (g_map4_list g) addr4 of
        None \<Rightarrow> (Inl ERROR_REJECT, g)
      | Some map4 \<Rightarrow>
          (case m4_type map4 of
             MAP_TYPE_STATIC \<Rightarrow>
               (case g_static g (m4_obj map4) of
                  None \<Rightarrow> (Inl ERROR_DROP, g)
                | Some s \<Rightarrow>
                    (let addr6 = eam_embed map4 (ms_map6 s) addr4;
                         bits = 32 - m4_prefix_len map4;
                         cache_pair = (m6_prefix_len (ms_map6 s) + bits = 128)
                     in if bits > 0 \<and> (validate_ip6_addr addr6 \<noteq> ERROR_NONE \<or> g_local_addr6 g = addr6)
                        then (Inl ERROR_DROP, g)
                        else if bits > 0 \<and> map_option m6_obj (find_map6 (g_map6_list g) addr6)
                            \<noteq> Some (m6_obj (ms_map6 s))
                        then (Inl ERROR_DROP, g)
                        else (Inr addr6,
                              if g_cache_size g > 0 \<and> cache_pair then publish addr4 addr6 None g else g)))
           | MAP_TYPE_RFC6052 \<Rightarrow>
               (case g_static g (m4_obj map4) of
                  None \<Rightarrow> (Inl ERROR_DROP, g)
                | Some s \<Rightarrow>
                    (case append_to_prefix (g_wkpf_strict g) addr4 (m6_addr (ms_map6 s))
                        (m6_prefix_len (ms_map6 s)) of
                       Inl e \<Rightarrow> (Inl e, g)
                     | Inr addr6 \<Rightarrow>
                         (Inr addr6, if g_cache_size g > 0 then publish addr4 addr6 None g else g)))
           | MAP_TYPE_DYNAMIC_POOL \<Rightarrow> (Inl ERROR_REJECT, g)
           | MAP_TYPE_DYNAMIC_HOST \<Rightarrow>
               (case g_dyn g (m4_obj map4) of
                  None \<Rightarrow> (Inl ERROR_DROP, g)
                | Some d \<Rightarrow>
                    (let addr6 = m6_addr (d_map6 d);
                         g = set_d (m4_obj map4) (d\<lparr>d_last_use := g_now g\<rparr>) g
                     in (Inr addr6,
                         if g_cache_size g > 0 then publish addr4 addr6 (Some (m4_obj map4)) g else g)))))"

definition map_ip4_to_ip6 :: "in_addr \<Rightarrow> gstate \<Rightarrow> (err + in6_addr) \<times> gstate" where
  "map_ip4_to_ip6 addr4 g =
     (case (if g_cache_size g > 0 then cache_lookup4 addr4 g else None) of
        Some (addr6, g) \<Rightarrow> (Inr addr6, g)
      | None \<Rightarrow> map4_slow addr4 g)"

text \<open>The second half, once the IPv6 entry is known.\<close>

definition map6_entry :: "in6_addr \<Rightarrow> map6 \<Rightarrow> gstate \<Rightarrow> (err + in_addr) \<times> gstate" where
  "map6_entry addr6 map6 g =
     (case m6_type map6 of
        MAP_TYPE_STATIC \<Rightarrow>
          (case g_static g (m6_obj map6) of
             None \<Rightarrow> (Inl ERROR_DROP, g)
           | Some s \<Rightarrow>
               (let addr4 = eam_extract (ms_map4 s) map6 addr6;
                    bits = 32 - m4_prefix_len (ms_map4 s);
                    cache_pair = (m6_prefix_len map6 + bits = 128)
                in if bits > 0 \<and> (validate_ip4_addr addr4 \<noteq> ERROR_NONE \<or> g_local_addr4 g = addr4)
                   then (Inl ERROR_DROP, g)
                   else if bits > 0 \<and> map_option m4_obj (find_map4 (g_map4_list g) addr4)
                       \<noteq> Some (m4_obj (ms_map4 s))
                   then (Inl ERROR_DROP, g)
                   else (Inr addr4,
                         if g_cache_size g > 0 \<and> cache_pair then publish addr4 addr6 None g else g)))
      | MAP_TYPE_RFC6052 \<Rightarrow>
          (case extract_from_prefix addr6 (m6_prefix_len map6) of
             Inl _ \<Rightarrow> (Inl ERROR_DROP, g)
           | Inr addr4 \<Rightarrow>
               (if a0 (m6_addr map6) = WKPF \<and> a1 (m6_addr map6) = 0 \<and> a2 (m6_addr map6) = 0
                   \<and> g_wkpf_strict g \<and> is_private_ip4_addr addr4 \<noteq> ERROR_NONE
                then (Inl ERROR_REJECT, g)
                else
                  (case g_static g (m6_obj map6) of
                     None \<Rightarrow> (Inl ERROR_DROP, g)
                   | Some s \<Rightarrow>
                       (if map_option m4_obj (find_map4 (g_map4_list g) addr4) \<noteq> Some (m4_obj (ms_map4 s))
                        then (Inl ERROR_DROP, g)
                        else (Inr addr4,
                              if g_cache_size g > 0 then publish addr4 addr6 None g else g)))))
      | MAP_TYPE_DYNAMIC_HOST \<Rightarrow>
          (case g_dyn g (m6_obj map6) of
             None \<Rightarrow> (Inl ERROR_DROP, g)
           | Some d \<Rightarrow>
               (let addr4 = m4_addr (d_map4 d);
                    g = set_d (m6_obj map6) (d\<lparr>d_last_use := g_now g\<rparr>) g
                in (Inr addr4,
                    if g_cache_size g > 0 then publish addr4 addr6 (Some (m6_obj map6)) g else g)))
      | MAP_TYPE_DYNAMIC_POOL \<Rightarrow> (Inl ERROR_DROP, g))"

definition map6_slow :: "in6_addr \<Rightarrow> bool \<Rightarrow> gstate \<Rightarrow> (err + in_addr) \<times> gstate" where
  "map6_slow addr6 dyn_alloc g =
     (case find_map6 (g_map6_list g) addr6 of
        Some map6 \<Rightarrow> map6_entry addr6 map6 g
      | None \<Rightarrow>
          (if \<not> dyn_alloc then (Inl ERROR_REJECT, g)
           else
             (case assign_dynamic addr6 g of
                (None, g) \<Rightarrow> (Inl ERROR_REJECT, g)
              | (Some i, g) \<Rightarrow>
                  (case g_dyn g i of
                     None \<Rightarrow> (Inl ERROR_REJECT, g)
                   | Some d \<Rightarrow> map6_entry addr6 (d_map6 d) g))))"

definition map_ip6_to_ip4 :: "in6_addr \<Rightarrow> bool \<Rightarrow> gstate \<Rightarrow> (err + in_addr) \<times> gstate" where
  "map_ip6_to_ip4 addr6 dyn_alloc g =
     (case (if g_cache_size g > 0 then cache_lookup6 addr6 g else None) of
        Some (addr4, g) \<Rightarrow> (Inr addr4, g)
      | None \<Rightarrow> map6_slow addr6 dyn_alloc g)"

section \<open>The embedding, bit by bit\<close>

lemma ip6_bit_or_word:
  "i < 128 \<Longrightarrow> ip6_bit (or_word w x a) i \<longleftrightarrow> ip6_bit a i \<or> i div 32 = w \<and> ip4_bit x (i mod 32)"
proof -
  assume "i < 128"
  then have "i div 32 < 4" by auto
  then show ?thesis unfolding ip6_bit_eq less_4_iff
    by (auto simp: or_word_def ip4_bit_or)
qed

lemma ip4_bit_htonl: "ip4_bit (htonl x) j = bit x (31 - j)"
  by (simp add: ip4_bit_def)

lemma bit_suffix4:
  assumes "wf_map4 m" "n < 32"
  shows "bit (eam_suffix4 m a) n \<longleftrightarrow> n < 32 - m4_prefix_len m \<and> ip4_bit a (31 - n)"
proof -
  have "31 - (31 - n) = n" using assms(2) by simp
  then show ?thesis
    using assms(2) unfolding eam_suffix4_def mask_host_bits(2) [OF assms(1)]
    by (simp add: bit_and_iff bit_mask_iff ip4_bit_def conj_commute)
qed

lemma eam_embed_bits:
  assumes wf: "wf_map4 m4" "wf_map6 m6" and fit: "m6_prefix_len m6 + (32 - m4_prefix_len m4) \<le> 128"
    and i: "i < 128"
  shows "ip6_bit (eam_embed m4 m6 a) i \<longleftrightarrow>
    ip6_bit (m6_addr m6) i \<or> m6_prefix_len m6 \<le> i \<and> i < m6_prefix_len m6 + (32 - m4_prefix_len m4)
      \<and> ip4_bit a (m4_prefix_len m4 + (i - m6_prefix_len m6))"
proof -
  define l4 l6 where l: "l4 = m4_prefix_len m4" "l6 = m6_prefix_len m6"
  have l4: "l4 \<le> 32" using wf(1) by (simp add: l wf_map4_def is_mask4_def)
  let ?s = "eam_suffix4 m4 a"
  define w j where wj: "w = i div 32" "j = i mod 32"
  have ij: "i = 32 * w + j" "j < 32" "w < 4" using i by (auto simp: wj)
  consider (eq) "l6 + (32 - l4) = 128" | (no) "l4 = 32" "l6 + (32 - l4) \<noteq> 128"
    | (gen) "l4 < 32" "l6 + (32 - l4) < 128"
    using fit l4 by (fastforce simp: l)
  then show ?thesis
  proof cases
    case eq
    then have e: "eam_embed m4 m6 a = or_word 3 (htonl ?s) (m6_addr m6)"
      by (simp add: eam_embed_def Let_def l)
    have "bit ?s (31 - j) \<longleftrightarrow> 31 - j < 32 - l4 \<and> ip4_bit a j"
      using bit_suffix4 [OF wf(1), of "31 - j" a] ij(2) by (simp add: l)
    moreover have "w = 3 \<and> 31 - j < 32 - l4 \<longleftrightarrow> l6 \<le> i \<and> i < l6 + (32 - l4)"
      using eq ij l4 by auto
    moreover have "w = 3 \<Longrightarrow> 31 - j < 32 - l4 \<Longrightarrow> l4 + (i - l6) = j"
      using eq ij l4 by auto
    ultimately show ?thesis
      unfolding e ip6_bit_or_word [OF i] wj [symmetric] ip4_bit_htonl l [symmetric] by auto
  next
    case no
    then have e: "eam_embed m4 m6 a = m6_addr m6"
      by (simp add: eam_embed_def Let_def flip: l)
    show ?thesis unfolding e l [symmetric] using no by auto
  next
    case gen
    define off where "off = l6 mod 32"
    define q where "q = l6 div 32"
    have lq: "l6 = 32 * q + off" "off < 32" by (simp_all add: off_def q_def)
    define bits where "bits = 32 - l4"
    have b: "0 < bits" "bits \<le> 32" "l4 = 32 - bits" using gen l4 by (auto simp: bits_def)
    define sh where "sh = (push_bit (64 - off - bits) (ucast ?s :: u64))"
    have bs: "bit sh n \<longleftrightarrow> n < 64 \<and> 64 - off - bits \<le> n \<and> n - (64 - off - bits) < bits
        \<and> ip4_bit a (31 - (n - (64 - off - bits)))" for n
      using bit_suffix4 [OF wf(1), of "n - (64 - off - bits)" a] bit_imp_le_length [of ?s "n - (64 - off - bits)"] b
      by (auto simp: sh_def bit_push_bit_iff bit_ucast_iff bits_def l)
    have e: "eam_embed m4 m6 a =
        (let x = or_word q (htonl (ucast (drop_bit 32 sh))) (m6_addr m6)
         in if off + bits > 32 then or_word (q + 1) (htonl (ucast sh)) x else x)"
      using gen unfolding eam_embed_def Let_def l [symmetric] bits_def [symmetric] off_def [symmetric]
        q_def [symmetric] sh_def [symmetric] using b by simp
    have lt: "31 - j < 32" by arith
    have h1: "bit (ucast (drop_bit 32 sh) :: u32) (31 - j) \<longleftrightarrow>
        off \<le> j \<and> j < off + bits \<and> ip4_bit a (l4 + (j - off))"
    proof -
      have "bit (ucast (drop_bit 32 sh) :: u32) (31 - j) \<longleftrightarrow> bit sh (63 - j)"
        using ij(2) lt by (simp add: bit_ucast_iff bit_drop_bit_eq)
      moreover have "64 - off - bits \<le> 63 - j \<longleftrightarrow> j < off + bits" using ij lq b by linarith
      moreover have "j < off + bits \<Longrightarrow> 63 - j - (64 - off - bits) < bits \<longleftrightarrow> off \<le> j"
        using ij lq b by linarith
      moreover have "j < off + bits \<Longrightarrow> off \<le> j \<Longrightarrow> 31 - (63 - j - (64 - off - bits)) = l4 + (j - off)"
        using ij lq b by linarith
      ultimately show ?thesis using ij by (auto simp: bs)
    qed
    have h2: "bit (ucast sh :: u32) (31 - j) \<longleftrightarrow> j + 32 < off + bits \<and> ip4_bit a (l4 + (j + 32 - off))"
    proof -
      have "bit (ucast sh :: u32) (31 - j) \<longleftrightarrow> bit sh (31 - j)"
        using ij(2) lt by (simp add: bit_ucast_iff)
      moreover have "64 - off - bits \<le> 31 - j \<longleftrightarrow> j + 32 < off + bits" using ij lq b by linarith
      moreover have "j + 32 < off + bits \<Longrightarrow> 31 - j - (64 - off - bits) < bits"
        using ij lq b by linarith
      moreover have "j + 32 < off + bits \<Longrightarrow> 31 - (31 - j - (64 - off - bits)) = l4 + (j + 32 - off)"
        using ij lq b by linarith
      ultimately show ?thesis using ij by (auto simp: bs)
    qed
    have r: "ip6_bit (eam_embed m4 m6 a) i \<longleftrightarrow> ip6_bit (m6_addr m6) i
        \<or> w = q \<and> off \<le> j \<and> j < off + bits \<and> ip4_bit a (l4 + (j - off))
        \<or> w = q + 1 \<and> j + 32 < off + bits \<and> ip4_bit a (l4 + (j + 32 - off))"
      unfolding e Let_def by (auto simp: ip6_bit_or_word i ip4_bit_htonl h1 h2 simp flip: wj)
    have c1: "w = q \<Longrightarrow> (off \<le> j \<and> j < off + bits \<longleftrightarrow> l6 \<le> i \<and> i < l6 + bits) \<and> i - l6 = j - off"
      using ij lq by auto
    have c2: "w = q + 1 \<Longrightarrow> (j + 32 < off + bits \<longleftrightarrow> l6 \<le> i \<and> i < l6 + bits) \<and> i - l6 = j + 32 - off"
      using ij lq by auto
    have c3: "w \<noteq> q \<Longrightarrow> w \<noteq> q + 1 \<Longrightarrow> \<not> (l6 \<le> i \<and> i < l6 + bits)"
    proof (rule notI)
      assume "w \<noteq> q" "w \<noteq> q + 1" "l6 \<le> i \<and> i < l6 + bits"
      moreover from this have "q \<le> w" "w < q + 2" using ij lq b by linarith+
      ultimately show False by linarith
    qed
    show ?thesis unfolding r l [symmetric] bits_def [symmetric] using c1 c2 c3 by metis
  qed
qed

lemma bit_high_mask: "bits \<le> 64 \<Longrightarrow> bit (drop_bit (64 - bits) (0xffffffffffffffff :: u64)) n \<longleftrightarrow> n < bits"
proof -
  assume b: "bits \<le> 64"
  have e: "(0xffffffffffffffff :: u64) = mask 64" by (simp add: mask_eq_exp_minus_1)
  show ?thesis unfolding e using b by (auto simp: bit_drop_bit_eq bit_mask_iff)
qed

lemma eam_extract_bits:
  assumes wf: "wf_map4 m4" "wf_map6 m6" and fit: "m6_prefix_len m6 + (32 - m4_prefix_len m4) \<le> 128"
    and j: "j < 32"
  shows "ip4_bit (eam_extract m4 m6 x) j \<longleftrightarrow>
    ip4_bit (m4_addr m4) j \<or> m4_prefix_len m4 \<le> j \<and> ip6_bit x (m6_prefix_len m6 + (j - m4_prefix_len m4))"
proof -
  define l4 l6 where l: "l4 = m4_prefix_len m4" "l6 = m6_prefix_len m6"
  have l4: "l4 \<le> 32" using wf(1) by (simp add: l wf_map4_def is_mask4_def)
  have lt: "31 - j < 32" by arith
  have jj: "31 - (31 - j) = j" using j by simp
  consider (eq) "l6 + (32 - l4) = 128" | (no) "l4 = 32" "l6 + (32 - l4) \<noteq> 128"
    | (gen) "l4 < 32" "l6 + (32 - l4) < 128"
    using fit l4 by (fastforce simp: l)
  then show ?thesis
  proof cases
    case eq
    have e: "eam_extract m4 m6 x = m4_addr m4 OR htonl (ntohl (a3 x) AND NOT (ntohl (m4_mask m4)))"
      using eq by (simp add: eam_extract_def Let_def l)
    have "31 - j < 32 - l4 \<longleftrightarrow> l4 \<le> j" using j l4 by linarith
    moreover have "l4 \<le> j \<Longrightarrow> l6 + (j - l4) = 32 * 3 + j" using eq l4 by linarith
    ultimately show ?thesis
      unfolding e ip4_bit_or ip4_bit_htonl mask_host_bits(2) [OF wf(1)] l [symmetric]
      using ip6_bit_word [of 3 j x] j lt by (auto simp: bit_and_iff bit_mask_iff ip4_bit_def)
  next
    case no
    then have e: "eam_extract m4 m6 x = m4_addr m4"
      by (simp add: eam_extract_def Let_def flip: l)
    show ?thesis unfolding e l [symmetric] using no j by auto
  next
    case gen
    define off where "off = l6 mod 32"
    define q where "q = l6 div 32"
    have lq: "l6 = 32 * q + off" "off < 32" by (simp_all add: off_def q_def)
    define bits where "bits = 32 - l4"
    have b: "0 < bits" "bits \<le> 32" "l4 = 32 - bits" using gen l4 by (auto simp: bits_def)
    have q4: "q < 4" using lq gen by linarith
    define w1 where "w1 = (if off + bits > 32 then ucast (ntohl (in6_words x ! (q + 1))) else 0 :: u64)"
    define raw where "raw = (push_bit 32 (ucast (ntohl (in6_words x ! q)) :: u64) OR w1)"
    have e: "eam_extract m4 m6 x = m4_addr m4 OR
        htonl (ucast (drop_bit (64 - off - bits) raw AND drop_bit (64 - bits) 0xffffffffffffffff))"
      using gen b unfolding eam_extract_def Let_def l [symmetric] bits_def [symmetric] off_def [symmetric]
        q_def [symmetric] w1_def [symmetric] raw_def [symmetric] by simp
    have rb: "bit raw n \<longleftrightarrow> 32 \<le> n \<and> n < 64 \<and> bit (ntohl (in6_words x ! q)) (n - 32)
        \<or> n < 32 \<and> off + bits > 32 \<and> bit (ntohl (in6_words x ! (q + 1))) n" for n
      using bit_imp_le_length [of "ntohl (in6_words x ! (q + 1))" n]
        bit_imp_le_length [of "ntohl (in6_words x ! q)" "n - 32"]
      by (auto simp: raw_def w1_def bit_or_iff bit_push_bit_iff bit_ucast_iff)
    let ?n = "31 - j + (64 - off - bits)"
    have s: "bit (ucast (drop_bit (64 - off - bits) raw AND drop_bit (64 - bits) 0xffffffffffffffff) :: u32) (31 - j)
        \<longleftrightarrow> l4 \<le> j \<and> bit raw ?n"
    proof -
      have u: "bit (ucast (y AND z) :: u32) (31 - j) \<longleftrightarrow> bit y (31 - j) \<and> bit z (31 - j)" for y z :: u64
        using lt by (simp add: bit_ucast_iff bit_and_iff)
      have "31 - j < bits \<longleftrightarrow> l4 \<le> j" using j b by linarith
      moreover have "bit (drop_bit (64 - bits) (0xffffffffffffffff :: u64)) (31 - j) \<longleftrightarrow> 31 - j < bits"
        using b by (intro bit_high_mask) simp
      moreover have "bit (drop_bit (64 - off - bits) raw) (31 - j) \<longleftrightarrow> bit raw ?n"
        by (simp add: bit_drop_bit_eq add.commute)
      ultimately show ?thesis unfolding u by blast
    qed
    have g: "bit raw ?n \<longleftrightarrow> ip6_bit x (l6 + (j - l4))" if lj: "l4 \<le> j"
    proof (cases "off + (j - l4) < 32")
      case True
      have "?n = 32 + (31 - (off + (j - l4)))" using True lj j b lq by linarith
      moreover have "31 - (off + (j - l4)) < 32" by arith
      ultimately have "bit raw ?n \<longleftrightarrow> bit (ntohl (in6_words x ! q)) (31 - (off + (j - l4)))"
        by (simp add: rb)
      moreover have i: "l6 + (j - l4) = 32 * q + (off + (j - l4))" using lq by simp
      ultimately show ?thesis using ip6_bit_word [OF q4 True, of x] unfolding i by (simp add: ip4_bit_def)
    next
      case False
      have ob: "off + bits > 32" using False lj j b by linarith
      have n: "?n = 31 - (off + (j - l4) - 32)" "?n < 32" using False lj j b lq by linarith+
      have "bit raw ?n \<longleftrightarrow> bit (ntohl (in6_words x ! (q + 1))) (31 - (off + (j - l4) - 32))"
        unfolding rb using n ob by simp
      moreover have "q + 1 < 4" using gen lq ob b by linarith
      moreover have i: "l6 + (j - l4) = 32 * (q + 1) + (off + (j - l4) - 32)" using lq False by simp
      moreover have "off + (j - l4) - 32 < 32" using lj j lq by linarith
      ultimately show ?thesis using ip6_bit_word [of "q + 1" "off + (j - l4) - 32" x]
        unfolding i by (simp add: ip4_bit_def)
    qed
    show ?thesis
      unfolding e ip4_bit_or ip4_bit_htonl s l [symmetric] using g by auto
  qed
qed

text \<open>The two directions are inverse to each other on the blocks of the mapping.\<close>

lemma eam_extract_embed:
  assumes wf: "wf_map4 m4" "wf_map6 m6" and fit: "m6_prefix_len m6 + (32 - m4_prefix_len m4) \<le> 128"
    and a: "covers4 m4 a"
  shows "eam_extract m4 m6 (eam_embed m4 m6 a) = a"
proof (rule ip4_ext)
  fix j :: nat
  assume j: "j < 32"
  have l4: "m4_prefix_len m4 \<le> 32" using wf(1) by (simp add: wf_map4_def is_mask4_def)
  have p: "ip4_bit (m4_addr m4) j = (j < m4_prefix_len m4 \<and> ip4_bit a j)"
    using a j by (simp add: covers4_def v4.pmatch_def)
  have c: "\<not> ip6_bit (m6_addr m6) i" if "m6_prefix_len m6 \<le> i" "i < 128" for i
    using wf(2) that by (auto simp: wf_map6_def v6.canon_def)
  show "ip4_bit (eam_extract m4 m6 (eam_embed m4 m6 a)) j = ip4_bit a j"
  proof (cases "m4_prefix_len m4 \<le> j")
    case True
    have i: "m6_prefix_len m6 + (j - m4_prefix_len m4) < 128"
      "m6_prefix_len m6 + (j - m4_prefix_len m4) < m6_prefix_len m6 + (32 - m4_prefix_len m4)"
      using True j fit l4 by linarith+
    show ?thesis
      unfolding eam_extract_bits [OF wf fit j] eam_embed_bits [OF wf fit i(1)]
      using True p c [OF _ i(1)] i(2) by auto
  next
    case False
    then show ?thesis unfolding eam_extract_bits [OF wf fit j] using p by auto
  qed
qed

lemma eam_embed_covers:
  assumes wf: "wf_map4 m4" "wf_map6 m6" and fit: "m6_prefix_len m6 + (32 - m4_prefix_len m4) \<le> 128"
  shows "covers6 m6 (eam_embed m4 m6 a)"
  unfolding covers6_def v6.pmatch_def
proof (intro allI impI)
  fix i :: nat
  assume i: "i < 128"
  have "ip6_bit (m6_addr m6) i \<Longrightarrow> i < m6_prefix_len m6" using wf(2) i by (auto simp: wf_map6_def v6.canon_def)
  then show "ip6_bit (m6_addr m6) i = (i < m6_prefix_len m6 \<and> ip6_bit (eam_embed m4 m6 a) i)"
    unfolding eam_embed_bits [OF wf fit i] by auto
qed

end
