(* ===== verification/Store.thy ===== *)
theory Store
  imports Dynamic_Search
begin

text \<open>
  The object stores behind the two mapping lists: a list entry is embedded in the object its
  identity names, objects of different kinds have different identities, and the allocator hands
  out only identities that nothing uses. Kept by every operation on the dynamic pool.
\<close>

section \<open>Static objects\<close>

text \<open>
  The embedded maps in the lists are those of the static objects; an object's two maps have its
  identity and its type, are well formed, and the IPv4 suffix fits after the IPv6 prefix.
\<close>

definition statics_ok :: "gstate \<Rightarrow> bool" where
  "statics_ok g \<longleftrightarrow>
     (\<forall>m\<in>set (g_map4_list g). \<forall>s. g_static g (m4_obj m) = Some s \<longrightarrow> ms_map4 s = m)
     \<and> (\<forall>m\<in>set (g_map6_list g). \<forall>s. g_static g (m6_obj m) = Some s \<longrightarrow> ms_map6 s = m)
     \<and> (\<forall>i s. g_static g i = Some s \<longrightarrow> m4_obj (ms_map4 s) = i \<and> m6_obj (ms_map6 s) = i
          \<and> m4_type (ms_map4 s) = m6_type (ms_map6 s) \<and> wf_map4 (ms_map4 s) \<and> wf_map6 (ms_map6 s)
          \<and> m6_prefix_len (ms_map6 s) + (32 - m4_prefix_len (ms_map4 s)) \<le> 128)"

section \<open>The store\<close>

definition ids_free :: "gstate \<Rightarrow> bool" where
  "ids_free g \<longleftrightarrow> distinct (g_alloc g)
     \<and> (\<forall>m\<in>set (g_map4_list g). m4_obj m \<notin> set (g_alloc g))
     \<and> (\<forall>m\<in>set (g_map6_list g). m6_obj m \<notin> set (g_alloc g))
     \<and> (\<forall>i\<in>set (g_alloc g). g_static g i = None \<and> g_dyn g i = None)"

definition leases_own :: "gstate \<Rightarrow> bool" where
  "leases_own g \<longleftrightarrow> (\<forall>i d. g_dyn g i = Some d \<longrightarrow> g_static g i = None \<and> m4_obj (d_map4 d) = i \<and> m6_obj (d_map6 d) = i)"

text \<open>A mapping of the map file is in the IPv4 list whenever it is in the IPv6 list.\<close>

definition file_both :: "gstate \<Rightarrow> bool" where
  "file_both g \<longleftrightarrow> (\<forall>m\<in>set (g_map6_list g). \<forall>s. g_static g (m6_obj m) = Some s \<longrightarrow> ms_origin s = MAP_ORIGIN_MAPFILE
     \<longrightarrow> ms_map4 s \<in> set (g_map4_list g))"

definition store_inv :: "gstate \<Rightarrow> bool" where
  "store_inv g \<longleftrightarrow> statics_ok g \<and> ids_free g \<and> leases_own g \<and> file_both g"

text \<open>What the store depends on; of a lease only the two maps.\<close>

definition maps_of :: "gstate \<Rightarrow> nat \<Rightarrow> (map4 \<times> map6) option" where
  "maps_of g i = map_option (\<lambda>d. (d_map4 d, d_map6 d)) (g_dyn g i)"

lemma maps_of_None: "g_dyn g i = None \<longleftrightarrow> maps_of g i = None"
  by (simp add: maps_of_def)

lemma leases_own_maps:
  "leases_own g \<longleftrightarrow> (\<forall>i. case maps_of g i of None \<Rightarrow> True
     | Some (a, b) \<Rightarrow> g_static g i = None \<and> m4_obj a = i \<and> m6_obj b = i)"
  by (simp add: leases_own_def maps_of_def split: option.split)

lemma store_cong:
  assumes "g_map4_list g' = g_map4_list g" "g_map6_list g' = g_map6_list g" "g_static g' = g_static g"
    "g_alloc g' = g_alloc g" "maps_of g' = maps_of g"
  shows "store_inv g' = store_inv g"
  unfolding store_inv_def statics_ok_def ids_free_def leases_own_maps file_both_def maps_of_None assms ..

lemma store_lease:
  "store_inv g \<Longrightarrow> g_dyn g i = Some d \<Longrightarrow> i \<notin> set (g_alloc g) \<and> g_static g i = None
     \<and> m4_obj (d_map4 d) = i \<and> m6_obj (d_map6 d) = i"
  unfolding store_inv_def leases_own_def ids_free_def by (metis option.distinct(1))

lemma statics_lists: "statics_ok (g\<lparr>g_map4_list := l4, g_map6_list := l6\<rparr>) \<longleftrightarrow>
     (\<forall>m\<in>set l4. \<forall>s. g_static g (m4_obj m) = Some s \<longrightarrow> ms_map4 s = m)
     \<and> (\<forall>m\<in>set l6. \<forall>s. g_static g (m6_obj m) = Some s \<longrightarrow> ms_map6 s = m)
     \<and> (\<forall>i s. g_static g i = Some s \<longrightarrow> m4_obj (ms_map4 s) = i \<and> m6_obj (ms_map6 s) = i
          \<and> m4_type (ms_map4 s) = m6_type (ms_map6 s) \<and> wf_map4 (ms_map4 s) \<and> wf_map6 (ms_map6 s)
          \<and> m6_prefix_len (ms_map6 s) + (32 - m4_prefix_len (ms_map4 s)) \<le> 128)"
  by (simp add: statics_ok_def)

text \<open>A lease enters the lists.\<close>

lemma store_insert:
  assumes g: "store_inv g" and i: "i \<notin> set (g_alloc g)" "g_static g i = None"
    and l4: "set (g_map4_list g) \<subseteq> set l4" "\<forall>m\<in>set l4. m \<in> set (g_map4_list g) \<or> m4_obj m = i"
    and l6: "\<forall>m\<in>set l6. m \<in> set (g_map6_list g) \<or> m6_obj m = i"
  shows "store_inv (g\<lparr>g_map4_list := l4, g_map6_list := l6\<rparr>)"
proof -
  have st: "statics_ok g" "ids_free g" "leases_own g" "file_both g" using g by (simp_all add: store_inv_def)
  have s4: "m \<in> set (g_map4_list g)" if "m \<in> set l4" "g_static g (m4_obj m) = Some s" for m s
    using that i l4 by (metis option.distinct(1))
  have s6: "m \<in> set (g_map6_list g)" if "m \<in> set l6" "g_static g (m6_obj m) = Some s" for m s
    using that i l6 by (metis option.distinct(1))
  have "statics_ok (g\<lparr>g_map4_list := l4, g_map6_list := l6\<rparr>)"
    using st(1) s4 s6 unfolding statics_lists unfolding statics_ok_def by blast
  moreover have "m4_obj m \<notin> set (g_alloc g)" if "m \<in> set l4" for m
    using bspec [OF l4(2) that] i(1) st(2) by (auto simp: ids_free_def)
  moreover have "m6_obj m \<notin> set (g_alloc g)" if "m \<in> set l6" for m
    using bspec [OF l6 that] i(1) st(2) by (auto simp: ids_free_def)
  moreover have "ids_free (g\<lparr>g_map4_list := l4, g_map6_list := l6\<rparr>) \<longleftrightarrow> distinct (g_alloc g)
      \<and> (\<forall>m\<in>set l4. m4_obj m \<notin> set (g_alloc g)) \<and> (\<forall>m\<in>set l6. m6_obj m \<notin> set (g_alloc g))
      \<and> (\<forall>i\<in>set (g_alloc g). g_static g i = None \<and> g_dyn g i = None)" by (simp add: ids_free_def)
  moreover have "distinct (g_alloc g)" "\<forall>i\<in>set (g_alloc g). g_static g i = None \<and> g_dyn g i = None"
    using st(2) by (simp_all add: ids_free_def)
  moreover have "leases_own (g\<lparr>g_map4_list := l4, g_map6_list := l6\<rparr>) = leases_own g" by (simp add: leases_own_def)
  moreover have "file_both (g\<lparr>g_map4_list := l4, g_map6_list := l6\<rparr>)"
    using st(4) s6 l4(1) unfolding file_both_def by simp blast
  ultimately show ?thesis using st(3) unfolding store_inv_def by blast
qed

lemma store_mapped:
  assumes "store_inv g"
  shows "store_inv (move_to_mapped i g)"
proof (cases "g_dyn g i")
  case (Some d)
  let ?l4 = "case insert_map4 (d_map4 d) (g_map4_list g) of Inl _ \<Rightarrow> g_map4_list g | Inr ms \<Rightarrow> ms"
  let ?l6 = "case insert_map6 (d_map6 d) (g_map6_list g) of Inl _ \<Rightarrow> g_map6_list g | Inr ms \<Rightarrow> ms"
  note d = store_lease [OF assms Some]
  have "store_inv (g\<lparr>g_map4_list := ?l4, g_map6_list := ?l6\<rparr>)"
    by (rule store_insert [OF assms, of i])
      (use d insert_map4_set [of "d_map4 d" "g_map4_list g"] insert_map6_set [of "d_map6 d" "g_map6_list g"] in
        \<open>auto split: sum.split\<close>)
  moreover have "store_inv (move_to_mapped i g) = store_inv (g\<lparr>g_map4_list := ?l4, g_map6_list := ?l6\<rparr>)"
    by (rule store_cong) (auto simp: move_to_mapped_fields [OF Some] maps_of_def move_to_mapped_def Some Let_def
        upd_pool_def split: sum.split option.split)
  ultimately show ?thesis by simp
qed (simp add: move_to_mapped_def assms)

lemma store_dormant:
  assumes g: "store_inv g" and i: "g_static g i = None"
  shows "store_inv (move_to_dormant i g)"
proof -
  let ?g = "g\<lparr>g_map4_list := filter (\<lambda>m. m4_obj m \<noteq> i) (g_map4_list g), g_map6_list := filter (\<lambda>m. m6_obj m \<noteq> i) (g_map6_list g)\<rparr>"
  have st: "statics_ok g" "ids_free g" "leases_own g" "file_both g" using g by (simp_all add: store_inv_def)
  have "m4_obj (ms_map4 s) \<noteq> i" if "g_static g (m6_obj m) = Some s" "m6_obj m \<noteq> i" for m s
    using that st(1) unfolding statics_ok_def by metis
  then have "file_both ?g" using st(4) unfolding file_both_def by simp blast
  moreover have "statics_ok ?g" "ids_free ?g" "leases_own ?g"
    using st by (simp_all add: statics_ok_def ids_free_def leases_own_def)
  ultimately have "store_inv ?g" by (simp add: store_inv_def)
  moreover have "store_inv (move_to_dormant i g) = store_inv ?g"
    by (rule store_cong) (simp_all add: maps_of_def move_to_dormant_def upd_pool_def Let_def fun_eq_iff)
  ultimately show ?thesis by simp
qed

lemma store_new_lease:
  assumes g: "store_inv g" and a: "g_alloc g = i # ids" and d: "m4_obj (d_map4 d) = i" "m6_obj (d_map6 d) = i"
  shows "store_inv (set_d i d (g\<lparr>g_alloc := ids\<rparr>))"
proof -
  have st: "statics_ok g" "ids_free g" "leases_own g" "file_both g" using g by (simp_all add: store_inv_def)
  have i: "i \<notin> set ids" "g_static g i = None" using st(2) a by (simp_all add: ids_free_def)
  have "ids_free (set_d i d (g\<lparr>g_alloc := ids\<rparr>))" using st(2) a i by (auto simp: ids_free_def set_d_def)
  moreover have "leases_own (set_d i d (g\<lparr>g_alloc := ids\<rparr>))" using st(3) i d by (auto simp: leases_own_def set_d_def)
  ultimately show ?thesis using st by (simp add: store_inv_def statics_ok_def file_both_def set_d_def)
qed

lemma store_alloc:
  assumes g: "store_inv g" and a: "alloc_map_dynamic a6 a4 f g = (r, g')"
  shows "store_inv g'"
proof (cases "g_alloc g")
  case (Cons i ids)
  show ?thesis
  proof (cases "g_dynamic_pool g")
    case (Some p)
    let ?d = "new_lease i a6 a4 \<lparr>fa_addr = ntohl a4, fa_count = fa_count (free_at g p f) - (ntohl a4 - fa_addr (free_at g p f))\<rparr>"
    have "store_inv (set_d i ?d (g\<lparr>g_alloc := ids\<rparr>))"
      by (rule store_new_lease [OF g Cons]) (simp_all add: new_lease_def)
    moreover have "store_inv g' = store_inv (set_d i ?d (g\<lparr>g_alloc := ids\<rparr>))"
      by (rule store_cong) (use a in \<open>auto simp: alloc_map_dynamic_def Cons Some Let_def maps_of_def set_d_def set_count_def
        upd_pool_def fun_eq_iff split: free_ref.splits option.splits\<close>)
    ultimately show ?thesis by simp
  qed (use assms Cons in \<open>simp add: alloc_map_dynamic_def\<close>)
qed (use assms in \<open>simp add: alloc_map_dynamic_def\<close>)

lemma store_set_d:
  assumes "store_inv g" "g_dyn g i = Some d" "m4_obj (d_map4 d') = m4_obj (d_map4 d)" "m6_obj (d_map6 d') = m6_obj (d_map6 d)"
  shows "store_inv (set_d i d' g)"
proof -
  have st: "statics_ok g" "ids_free g" "leases_own g" "file_both g" using assms(1) by (simp_all add: store_inv_def)
  have "leases_own (set_d i d' g)" using st(3) store_lease [OF assms(1,2)] assms(3,4) by (auto simp: leases_own_def set_d_def)
  moreover have "ids_free (set_d i d' g)" using st(2) store_lease [OF assms(1,2)] by (auto simp: ids_free_def set_d_def)
  ultimately show ?thesis using st by (simp add: store_inv_def statics_ok_def file_both_def set_d_def)
qed

lemma store_set_map6_addr: "store_inv g \<Longrightarrow> store_inv (set_map6_addr i a g)"
  by (simp add: set_map6_addr_def store_set_d split: option.split)

lemma store_pending [simp]: "store_inv (g\<lparr>g_map_write_pending := b\<rparr>) = store_inv g"
  by (rule store_cong) (simp_all add: maps_of_def fun_eq_iff)

lemma store_assign: "store_inv g \<Longrightarrow> assign_dynamic a6 g = (r, g') \<Longrightarrow> store_inv g'"
  using store_alloc store_mapped store_set_map6_addr
  by (auto simp: assign_dynamic_def Let_def split: option.splits prod.splits if_splits)

section \<open>Static mappings\<close>

text \<open>A mapping whose two maps carry its identity, agree on the type and are well formed.\<close>

definition static_wf :: "nat \<Rightarrow> map_static \<Rightarrow> bool" where
  "static_wf i m \<longleftrightarrow> m4_obj (ms_map4 m) = i \<and> m6_obj (ms_map6 m) = i
     \<and> m4_type (ms_map4 m) = m6_type (ms_map6 m) \<and> wf_map4 (ms_map4 m) \<and> wf_map6 (ms_map6 m)
     \<and> m6_prefix_len (ms_map6 m) + (32 - m4_prefix_len (ms_map4 m)) \<le> 128"

text \<open>The identity \<open>i\<close> is in no list, store or in the allocator.\<close>

definition fresh_id :: "nat \<Rightarrow> gstate \<Rightarrow> bool" where
  "fresh_id i g \<longleftrightarrow> i \<notin> set (g_alloc g) \<and> g_static g i = None \<and> g_dyn g i = None
     \<and> i \<notin> m4_obj ` set (g_map4_list g) \<and> i \<notin> m6_obj ` set (g_map6_list g)"

text \<open>A mapping enters the lists; that of the translator itself may skip the IPv6 list.\<close>

lemma store_add:
  assumes g: "store_inv g" and i: "fresh_id i g" and m: "static_wf i m"
    and l4: "set l4 = insert (ms_map4 m) (set (g_map4_list g))"
    and l6: "set l6 \<subseteq> insert (ms_map6 m) (set (g_map6_list g))"
  shows "store_inv (g\<lparr>g_map4_list := l4, g_map6_list := l6, g_static := (g_static g)(i := Some m)\<rparr>)"
proof -
  let ?g = "g\<lparr>g_map4_list := l4, g_map6_list := l6, g_static := (g_static g)(i := Some m)\<rparr>"
  have st: "statics_ok g" "ids_free g" "leases_own g" "file_both g" using g by (simp_all add: store_inv_def)
  have "statics_ok ?g"
    using st(1) i m l4 l6 unfolding statics_ok_def static_wf_def fresh_id_def by simp blast
  moreover have "ids_free ?g" using st(2) i m l4 l6 by (auto simp: ids_free_def fresh_id_def static_wf_def)
  moreover have "leases_own ?g" using st(3) i unfolding leases_own_def fresh_id_def by simp blast
  moreover have "file_both ?g" using st(4) i m l4 l6 unfolding file_both_def fresh_id_def static_wf_def by simp blast
  ultimately show ?thesis by (simp add: store_inv_def)
qed

lemma store_drop:
  assumes "store_inv g"
  shows "store_inv (g\<lparr>g_alloc := drop k (g_alloc g)\<rparr>)"
proof -
  have "ids_free g" using assms by (simp add: store_inv_def)
  then have "ids_free (g\<lparr>g_alloc := drop k (g_alloc g)\<rparr>)"
    using set_drop_subset [of k "g_alloc g"] unfolding ids_free_def by auto
  moreover have "statics_ok (g\<lparr>g_alloc := drop k (g_alloc g)\<rparr>) = statics_ok g"
    "leases_own (g\<lparr>g_alloc := drop k (g_alloc g)\<rparr>) = leases_own g"
    "file_both (g\<lparr>g_alloc := drop k (g_alloc g)\<rparr>) = file_both g"
    by (simp_all add: statics_ok_def leases_own_def file_both_def)
  ultimately show ?thesis using assms by (simp add: store_inv_def)
qed

end
