(* ===== verification/Addrmap_Inv.thy ===== *)
theory Addrmap_Inv
  imports Addrmap Store
begin

text \<open>
  What translation keeps: the cache and pool invariants and the order of the mapping tables.
  What it returns: only reject and drop errors, and for an explicit mapping an address that
  translates back.
\<close>

section \<open>Frames\<close>

text \<open>States whose leases differ at most in \<open>last_use\<close> and \<open>cache_entry\<close>.\<close>

definition dyn_same :: "gstate \<Rightarrow> gstate \<Rightarrow> bool" where
  "dyn_same g g' \<longleftrightarrow> (\<forall>i. map_option (\<lambda>d. (d_map4 d, d_map6 d, d_free d)) (g_dyn g' i)
     = map_option (\<lambda>d. (d_map4 d, d_map6 d, d_free d)) (g_dyn g i))"

lemma dyn_same_refl [simp]: "dyn_same g g"
  by (simp add: dyn_same_def)

lemma dyn_same_trans: "dyn_same g g' \<Longrightarrow> dyn_same g' g'' \<Longrightarrow> dyn_same g g''"
  by (simp add: dyn_same_def)

lemma dyn_same_lease: "dyn_same g g' \<Longrightarrow> lease_ok g' i = lease_ok g i"
  unfolding dyn_same_def lease_ok_def
  by (drule spec [of _ i]) (cases "g_dyn g' i"; cases "g_dyn g i"; simp)

lemma dyn_same_free: "dyn_same g g' \<Longrightarrow> free_at g' p = free_at g p"
proof (rule ext)
  fix r
  assume s: "dyn_same g g'"
  show "free_at g' p r = free_at g p r"
  proof (cases r)
    case (Free_Of i)
    from s have "map_option (\<lambda>d. (d_map4 d, d_map6 d, d_free d)) (g_dyn g' i)
      = map_option (\<lambda>d. (d_map4 d, d_map6 d, d_free d)) (g_dyn g i)" by (simp add: dyn_same_def)
    then show ?thesis by (cases "g_dyn g' i"; cases "g_dyn g i") (auto simp: Free_Of free_at_def)
  qed (simp add: free_at_def)
qed

lemma dyn_same_shape:
  "dyn_same g g' \<Longrightarrow> g_alloc g' = g_alloc g \<Longrightarrow> pool_shape g' p = pool_shape g p"
  by (simp add: pool_shape_def pool_core_def dyn_same_free dyn_same_lease)

lemma dyn_same_pool_inv:
  "dyn_same g g' \<Longrightarrow> g_alloc g' = g_alloc g \<Longrightarrow> g_dynamic_pool g' = g_dynamic_pool g \<Longrightarrow> pool_inv g' = pool_inv g"
  by (simp add: pool_inv_def dyn_same_shape split: option.split)

lemma set_d_same:
  "g_dyn g i = Some d \<Longrightarrow> d_map4 d' = d_map4 d \<Longrightarrow> d_map6 d' = d_map6 d \<Longrightarrow> d_free d' = d_free d
    \<Longrightarrow> dyn_same g (set_d i d' g)"
  by (simp add: dyn_same_def set_d_def)

lemma set_d_cache [simp]: "cache_inv (set_d i d g) = cache_inv g" "cache_pairs (set_d i d g) = cache_pairs g"
  by (rule cache_cong; simp add: set_d_def ent4_def ent6_def fun_eq_iff)+

text \<open>What an operation must leave alone for the tables and the pool to stay as they are.\<close>

definition cache_only :: "gstate \<Rightarrow> gstate \<Rightarrow> bool" where
  "cache_only g g' \<longleftrightarrow> g_map4_list g' = g_map4_list g \<and> g_map6_list g' = g_map6_list g
     \<and> g_static g' = g_static g \<and> g_dynamic_pool g' = g_dynamic_pool g \<and> g_alloc g' = g_alloc g
     \<and> dyn_same g g'"

lemma cache_only_refl [simp]: "cache_only g g"
  by (simp add: cache_only_def)

lemma cache_only_trans: "cache_only g g' \<Longrightarrow> cache_only g' g'' \<Longrightarrow> cache_only g g''"
  by (auto simp: cache_only_def intro: dyn_same_trans)

lemma cache_insert_only: "cache_insert a b h4 h6 g = (c, g') \<Longrightarrow> cache_only g g' \<and> g_dyn g' = g_dyn g"
  by (auto simp: cache_insert_def add_to_hash_table_def Let_def cache_only_def touch_def dyn_same_def
      split: option.splits list.splits)

definition translation_inv :: "gstate \<Rightarrow> bool" where
  "translation_inv g \<longleftrightarrow> cache_inv g \<and> pool_inv g \<and> table4 (g_map4_list g) \<and> table6 (g_map6_list g)
     \<and> store_inv g"

lemma dyn_same_maps: "dyn_same g g' \<Longrightarrow> maps_of g' = maps_of g"
proof (rule ext)
  fix i
  assume "dyn_same g g'"
  then have "map_option (\<lambda>d. (d_map4 d, d_map6 d, d_free d)) (g_dyn g' i)
      = map_option (\<lambda>d. (d_map4 d, d_map6 d, d_free d)) (g_dyn g i)" by (simp add: dyn_same_def)
  then show "maps_of g' i = maps_of g i" by (cases "g_dyn g' i"; cases "g_dyn g i") (simp_all add: maps_of_def)
qed

lemma cache_only_store: "cache_only g g' \<Longrightarrow> store_inv g' = store_inv g"
  by (rule store_cong) (simp_all add: cache_only_def dyn_same_maps)

lemma cache_only_inv:
  "cache_only g g' \<Longrightarrow> translation_inv g \<Longrightarrow> cache_inv g' \<Longrightarrow> translation_inv g'"
  using dyn_same_pool_inv [of g g'] cache_only_store [of g g'] by (simp add: translation_inv_def cache_only_def)

lemma flags_cache:
  "cache_inv (g\<lparr>g_entry := (g_entry g)(c := (g_entry g c)\<lparr>c_flags := f\<rparr>)\<rparr>) = cache_inv g"
  "cache_only g (g\<lparr>g_entry := (g_entry g)(c := (g_entry g c)\<lparr>c_flags := f\<rparr>)\<rparr>)"
  by (rule cache_cong; simp add: ent4_def ent6_def fun_eq_iff) (simp add: cache_only_def dyn_same_def)

lemma publish_inv:
  assumes "translation_inv g"
  shows "cache_only g (publish a b i g)" "translation_inv (publish a b i g)"
proof -
  obtain c g1 where ci: "cache_insert a b (hash_ip4 g a) (hash_ip6 g b) g = (c, g1)" by fastforce
  have inv1: "cache_inv g1" using cache_insert_spec(1) [OF _ ci] assms by (simp add: translation_inv_def)
  have o1: "cache_only g g1" using cache_insert_only [OF ci] by blast
  have "cache_only g (publish a b i g) \<and> cache_inv (publish a b i g)"
  proof (cases i)
    case None
    then show ?thesis using o1 inv1 by (simp add: publish_def ci)
  next
    case (Some j)
    let ?g2 = "case g_dyn g1 j of Some d \<Rightarrow> set_d j (d\<lparr>d_cache_entry := c\<rparr>) g1 | None \<Rightarrow> g1"
    have o2: "cache_only g1 ?g2"
      by (cases "g_dyn g1 j") (auto simp: cache_only_def set_d_same, auto simp: set_d_def)
    have i2: "cache_inv ?g2" using inv1 by (simp split: option.split)
    show ?thesis
    proof (cases c)
      case None
      show ?thesis using cache_only_trans [OF o1 o2] i2 Some unfolding publish_def ci Let_def None by simp
    next
      case (Some e)
      have p: "publish a b i g = ?g2\<lparr>g_entry := (g_entry ?g2)(e := (g_entry ?g2 e)
          \<lparr>c_flags := c_flags (g_entry ?g2 e) OR CACHE_F_REP_AGEOUT\<rparr>)\<rparr>"
        unfolding publish_def ci Let_def \<open>i = Some j\<close> Some by simp
      show ?thesis unfolding p using flags_cache [of ?g2 e] cache_only_trans [OF o1 cache_only_trans [OF o2]] i2 by blast
    qed
  qed
  then show "cache_only g (publish a b i g)" "translation_inv (publish a b i g)"
    using cache_only_inv assms by blast+
qed

section \<open>Translation keeps the invariants\<close>

lemma touch_only: "cache_only g (touch c g)"
  by (simp add: cache_only_def dyn_same_def)

lemma last_use_inv:
  assumes "translation_inv g" "g_dyn g i = Some d"
  shows "cache_only g (set_d i (d\<lparr>d_last_use := t\<rparr>) g)" "translation_inv (set_d i (d\<lparr>d_last_use := t\<rparr>) g)"
proof -
  show o: "cache_only g (set_d i (d\<lparr>d_last_use := t\<rparr>) g)"
    using assms(2) by (auto simp: cache_only_def set_d_same) (auto simp: set_d_def)
  show "translation_inv (set_d i (d\<lparr>d_last_use := t\<rparr>) g)"
    by (rule cache_only_inv [OF o assms(1)]) (use assms(1) in \<open>simp add: translation_inv_def\<close>)
qed

lemma refresh_publish_inv:
  assumes "translation_inv g" "g_dyn g i = Some d"
  shows "cache_only g (publish a b j (set_d i (d\<lparr>d_last_use := t\<rparr>) g))"
    "translation_inv (publish a b j (set_d i (d\<lparr>d_last_use := t\<rparr>) g))"
  using last_use_inv [OF assms] publish_inv [of "set_d i (d\<lparr>d_last_use := t\<rparr>) g"] cache_only_trans
  by blast+

lemma map4_slow_inv:
  assumes "translation_inv g" "map4_slow a g = (r, g')"
  shows "cache_only g g'" "translation_inv g'"
proof -
  have "cache_only g g' \<and> translation_inv g'"
    using assms publish_inv [of g a] last_use_inv [OF assms(1)] refresh_publish_inv [OF assms(1)]
    unfolding map4_slow_def
    by (auto simp: Let_def split: option.splits map_type.splits if_splits sum.splits)
  then show "cache_only g g'" "translation_inv g'" by blast+
qed

lemma map6_entry_inv:
  assumes "translation_inv g" "map6_entry b m g = (r, g')"
  shows "cache_only g g'" "translation_inv g'"
proof -
  have "cache_only g g' \<and> translation_inv g'"
    using assms publish_inv [of g _ b] last_use_inv [OF assms(1)] refresh_publish_inv [OF assms(1)]
    unfolding map6_entry_def
    by (auto simp: Let_def split: option.splits map_type.splits if_splits sum.splits)
  then show "cache_only g g'" "translation_inv g'" by blast+
qed

lemma lease_maps_wf:
  assumes "pool_core g p S" "i \<in> S" "g_dyn g i = Some d"
  shows "wf_map4 (d_map4 d)" "wf_map6 (d_map6 d)"
  using assms by (auto simp: pool_core_def lease_ok_def)

lemma move_to_mapped_tables:
  assumes "table4 (g_map4_list g)" "table6 (g_map6_list g)" "g_dyn g i = Some d"
    "wf_map4 (d_map4 d)" "wf_map6 (d_map6 d)"
  shows "table4 (g_map4_list (move_to_mapped i g))" "table6 (g_map6_list (move_to_mapped i g))"
  using assms insert_map4_table [of "g_map4_list g" "d_map4 d"] insert_map6_table [of "g_map6_list g" "d_map6 d"]
  by (auto simp: move_to_mapped_fields split: sum.split)

lemma move_to_mapped_cache [simp]: "cache_inv (move_to_mapped i g) = cache_inv g"
  by (rule cache_cong(1))
    (auto simp: move_to_mapped_def upd_pool_def Let_def ent4_def ent6_def fun_eq_iff hash_ip4_def hash_ip6_def
      split: option.split sum.split)

lemma pending_frames [simp]:
  "cache_inv (g\<lparr>g_map_write_pending := w\<rparr>) = cache_inv g"
  by (rule cache_cong(1)) (simp_all add: ent4_def ent6_def fun_eq_iff hash_ip4_def hash_ip6_def)

lemma move_to_mapped_dyn: "g_dyn (move_to_mapped i g) = g_dyn g"
  by (auto simp: move_to_mapped_def upd_pool_def Let_def split: option.split sum.split)

lemma set_map6_addr_frames [simp]:
  "cache_inv (set_map6_addr i a g) = cache_inv g" "g_map4_list (set_map6_addr i a g) = g_map4_list g"
  "g_map6_list (set_map6_addr i a g) = g_map6_list g"
  by (simp_all add: set_map6_addr_def split: option.split) (simp_all add: set_d_def)

lemma alloc_cache: "alloc_map_dynamic a6 a4 f g = (r, g') \<Longrightarrow> cache_inv g' = cache_inv g"
  by (rule cache_cong(1))
    (auto simp: alloc_map_dynamic_def Let_def set_d_def set_count_def upd_pool_def ent4_def ent6_def
      fun_eq_iff hash_ip4_def hash_ip6_def split: list.splits option.splits free_ref.splits)

lemma assign_dynamic_cases:
  assumes "assign_dynamic a6 g = (r, g')" "g_dynamic_pool g = Some p"
  obtains (react) i where "find_dormant g a6 (dp_dormant p) = Some i" "r = Some i" "g' = move_to_mapped i g"
  | (fresh) i f a g1 where "search_free g p a6 = Some (f, a)"
      "alloc_map_dynamic a6 (htonl (word_of_nat a)) f g = (Some i, g1)"
      "r = Some i" "g' = move_to_mapped i (g1\<lparr>g_map_write_pending := True\<rparr>)"
  | (nomem) f a where "search_free g p a6 = Some (f, a)"
      "alloc_map_dynamic a6 (htonl (word_of_nat a)) f g = (None, g')" "r = None"
  | (reassign) i where "dp_dormant p \<noteq> []" "i = last (dp_dormant p)" "r = Some i"
      "g' = move_to_mapped i ((set_map6_addr i a6 g)\<lparr>g_map_write_pending := True\<rparr>)"
  | (exhausted) "dp_dormant p = []" "r = None" "g' = g"
  using assms by (auto simp: assign_dynamic_def Let_def split: option.splits prod.splits if_splits)

lemma assign_dynamic_inv:
  assumes inv: "translation_inv g" and asg: "assign_dynamic a6 g = (r, g')"
  shows "translation_inv g'" and "r = Some i \<Longrightarrow> \<exists>d. g_dyn g' i = Some d \<and> m6_addr (d_map6 d) = a6"
proof -
  have "translation_inv g' \<and> (\<forall>i. r = Some i \<longrightarrow> (\<exists>d. g_dyn g' i = Some d \<and> m6_addr (d_map6 d) = a6))"
  proof (cases "g_dynamic_pool g")
    case None
    then show ?thesis using inv asg by (simp add: assign_dynamic_def)
  next
    case (Some p)
    have shape: "pool_shape g p" using inv Some by (simp add: translation_inv_def pool_inv_def)
    obtain p' where p': "g_dynamic_pool g' = Some p'" "pool_shape g' p'"
      and res: "\<And>i. r = Some i \<Longrightarrow> i \<in> set (dp_mapped p') \<and> (\<exists>d. g_dyn g' i = Some d \<and> m6_addr (d_map6 d) = a6)"
      by (rule assign_dynamic_shape [OF Some shape asg]) blast
    have pool: "pool_inv g'" using p' by (simp add: pool_inv_def)
    have wf: "wf_map4 (d_map4 d)" "wf_map6 (d_map6 d)" if "r = Some i" "g_dyn g' i = Some d" for i d
    proof -
      have "i \<in> set (leases p')" using res [OF that(1)] by (simp add: leases_def)
      then show "wf_map4 (d_map4 d)" "wf_map6 (d_map6 d)"
        using lease_maps_wf [of g' p' "set (leases p')" i d] p'(2) that(2) by (simp_all add: pool_shape_def)
    qed
    have t: "table4 (g_map4_list g)" "table6 (g_map6_list g)" and c: "cache_inv g"
      using inv by (simp_all add: translation_inv_def)
    have moved: "table4 (g_map4_list g')" "table6 (g_map6_list g')" "cache_inv g'"
      if rh: "r = Some i" "g' = move_to_mapped i h" "g_map4_list h = g_map4_list g" "g_map6_list h = g_map6_list g"
        "cache_inv h" for i h
    proof -
      obtain d where d: "g_dyn g' i = Some d" using res [OF rh(1)] by blast
      then have "g_dyn h i = Some d" using rh(2) by (simp add: move_to_mapped_dyn)
      then show "table4 (g_map4_list g')" "table6 (g_map6_list g')" "cache_inv g'"
        using move_to_mapped_tables [of h i d] wf [OF rh(1) d] t rh by simp_all
    qed
    from asg Some have "table4 (g_map4_list g') \<and> table6 (g_map6_list g') \<and> cache_inv g'"
    proof (cases rule: assign_dynamic_cases)
      case (react i)
      then show ?thesis using moved [of i g] c by simp
    next
      case (fresh i f a g1)
      have "g_map4_list g1 = g_map4_list g" "g_map6_list g1 = g_map6_list g"
        using fresh(2) by (auto simp: alloc_map_dynamic_def Let_def upd_pool_def set_d_def split: list.splits option.splits)
      then show ?thesis using moved [of i "g1\<lparr>g_map_write_pending := True\<rparr>"] fresh alloc_cache [OF fresh(2)] c by simp
    next
      case (nomem f a)
      then have "g' = g" by (auto simp: alloc_map_dynamic_def Let_def split: list.splits option.splits)
      then show ?thesis using t c by simp
    next
      case (reassign i)
      then show ?thesis using moved [of i "(set_map6_addr i a6 g)\<lparr>g_map_write_pending := True\<rparr>"] c by simp
    next
      case exhausted
      then show ?thesis using t c by simp
    qed
    then show ?thesis using pool res store_assign [OF _ asg] inv by (auto simp: translation_inv_def)
  qed
  then show "translation_inv g'" and "r = Some i \<Longrightarrow> \<exists>d. g_dyn g' i = Some d \<and> m6_addr (d_map6 d) = a6"
    by blast+
qed

lemma touch_trans_inv: "translation_inv g \<Longrightarrow> translation_inv (touch c g)"
  by (rule cache_only_inv [OF touch_only]) (auto simp: translation_inv_def touch_inv)

lemma map_ip4_to_ip6_inv:
  assumes "translation_inv g"
  shows "translation_inv (snd (map_ip4_to_ip6 a g))"
proof -
  have "translation_inv (snd (map4_slow a g))"
    using map4_slow_inv [OF assms] by (metis prod.collapse)
  then show ?thesis using assms
    by (auto simp: map_ip4_to_ip6_def cache_lookup4_def touch_trans_inv split: option.splits)
qed

lemma map_ip6_to_ip4_inv:
  assumes "translation_inv g"
  shows "translation_inv (snd (map_ip6_to_ip4 b dyn_alloc g))"
proof -
  have e: "translation_inv (snd (map6_entry b m h))" if "translation_inv h" for m h
    using map6_entry_inv [OF that] by (metis prod.collapse)
  have "translation_inv (snd (map6_slow b dyn_alloc g))"
    using assms e assign_dynamic_inv(1) [OF assms]
    by (auto simp: map6_slow_def split: option.split prod.split)
  then show ?thesis using assms
    by (auto simp: map_ip6_to_ip4_def cache_lookup6_def touch_trans_inv split: option.splits)
qed

text \<open>The only errors are reject and drop.\<close>

lemma map_ip6_to_ip4_errors:
  "fst (map_ip6_to_ip4 b dyn_alloc g) = Inl e \<Longrightarrow> e = ERROR_REJECT \<or> e = ERROR_DROP"
proof -
  have "fst (map6_entry b m h) = Inl e \<Longrightarrow> e = ERROR_REJECT \<or> e = ERROR_DROP" for m h
    by (auto simp: map6_entry_def Let_def split: option.splits map_type.splits if_splits sum.splits)
  then show "fst (map_ip6_to_ip4 b dyn_alloc g) = Inl e \<Longrightarrow> e = ERROR_REJECT \<or> e = ERROR_DROP"
    by (auto simp: map_ip6_to_ip4_def map6_slow_def split: option.splits prod.splits if_splits)
qed

lemma map_ip4_to_ip6_errors:
  "fst (map_ip4_to_ip6 a g) = Inl e \<Longrightarrow> e = ERROR_REJECT \<or> e = ERROR_DROP"
proof -
  have "append_to_prefix s a p n = Inl e \<Longrightarrow> e = ERROR_REJECT \<or> e = ERROR_DROP" for s p n
    by (auto simp: append_to_prefix_def split: if_splits)
  then show "fst (map_ip4_to_ip6 a g) = Inl e \<Longrightarrow> e = ERROR_REJECT \<or> e = ERROR_DROP"
    by (auto simp: map_ip4_to_ip6_def map4_slow_def Let_def split: option.splits map_type.splits if_splits sum.splits)
qed

end
