(* ===== verification/Samples.thy ===== *)
theory Samples
  imports Addrmap_Inv
begin

text \<open>
  Concrete configurations on which the properties are applied: the well-known prefix as an
  RFC 6052 map, the explicit mapping of 198.51.100.0/24 to 2001:db8:64::/120, a static host and
  the dynamic pool 10.0.0.0/30, entered with the code's own operations.
\<close>

definition mk4 :: "in_addr \<Rightarrow> nat \<Rightarrow> map_type \<Rightarrow> nat \<Rightarrow> map4" where
  "mk4 a n t i = \<lparr>m4_addr = a, m4_mask = snd (calc_ip4_mask 0 None (int n)), m4_prefix_len = n,
     m4_type = t, m4_obj = i\<rparr>"

definition mk6 :: "in6_addr \<Rightarrow> nat \<Rightarrow> map_type \<Rightarrow> nat \<Rightarrow> map6" where
  "mk6 a n t i = \<lparr>m6_addr = a, m6_mask = snd (calc_ip6_mask in6_zero None (int n)), m6_prefix_len = n,
     m6_type = t, m6_obj = i\<rparr>"

definition wkpf_static :: map_static where
  "wkpf_static = \<lparr>ms_map4 = mk4 0 0 MAP_TYPE_RFC6052 0, ms_map6 = mk6 (ip6_lit 0x0064ff9b 0 0 0) 96 MAP_TYPE_RFC6052 0,
     ms_line_no = 1, ms_origin = MAP_ORIGIN_CONFFILE\<rparr>"

definition net_static :: map_static where
  "net_static = \<lparr>ms_map4 = mk4 (ip4_lit 198 51 100 0) 24 MAP_TYPE_STATIC 1,
     ms_map6 = mk6 (ip6_lit 0x20010db8 0x00640000 0 0) 120 MAP_TYPE_STATIC 1,
     ms_line_no = 2, ms_origin = MAP_ORIGIN_CONFFILE\<rparr>"

definition pool_map :: map4 where
  "pool_map = mk4 (ip4_lit 10 0 0 0) 30 MAP_TYPE_DYNAMIC_POOL 2"

definition sample_base :: gstate where
  "sample_base = \<lparr>g_mtu = 1500, g_local_addr4 = ip4_lit 192 168 255 1, g_local_addr6 = ip6_lit 0x20010db8 0 0 1,
     g_map4_list = [], g_map6_list = [], g_data_dir = False, g_dyn_min_lease = 7200,
     g_dyn_max_lease = 1209600, g_max_commit_delay = 3600, g_dynamic_pool = Some (init_pool pool_map),
     g_hash_bits = 7, g_cache_size = 4, g_rand = (\<lambda>_. 1), g_cache_pool = [0, 1, 2, 3], g_cache_active = [],
     g_hash_table4 = (\<lambda>_. []), g_hash_table6 = (\<lambda>_. []), g_last_map_write = 0,
     g_map_write_pending = False, g_ipv6_offlink_mtu = 1280, g_wkpf_strict = True,
     g_udp_cksum_mode = UDP_CKSUM_DROP, g_now = 1000, g_entry = (\<lambda>_. zero_entry),
     g_static = (\<lambda>i. if i = 0 then Some wkpf_static else if i = 1 then Some net_static else None),
     g_dyn = (\<lambda>_. None), g_alloc = [10, 11, 12]\<rparr>"

definition sample_state :: gstate where
  "sample_state = sample_base
     \<lparr>g_map4_list := [pool_map, ms_map4 net_static, ms_map4 wkpf_static],
      g_map6_list := [ms_map6 net_static, ms_map6 wkpf_static]\<rparr>"

lemma wf_mk4: "n \<le> 32 \<Longrightarrow> fst (calc_ip4_mask 0 (Some a) (int n)) = 0 \<Longrightarrow> wf_map4 (mk4 a n t i)"
  using canon4_calc by (simp add: wf_map4_def mk4_def)

lemma wf_mk6: "n \<le> 128 \<Longrightarrow> fst (calc_ip6_mask in6_zero (Some a) (int n)) = 0 \<Longrightarrow> wf_map6 (mk6 a n t i)"
  using canon6_calc by (simp add: wf_map6_def mk6_def)

lemma sample_wf4:
  "wf_map4 pool_map" "wf_map4 (ms_map4 net_static)" "wf_map4 (ms_map4 wkpf_static)"
proof -
  have e: "fst (calc_ip4_mask 0 (Some (ip4_lit 10 0 0 0)) 30) = 0"
    "fst (calc_ip4_mask 0 (Some (ip4_lit 198 51 100 0)) 24) = 0" "fst (calc_ip4_mask 0 (Some 0) 0) = 0"
    by (simp_all add: eval_addr)
  show "wf_map4 pool_map" unfolding pool_map_def by (rule wf_mk4) (simp_all add: e)
  show "wf_map4 (ms_map4 net_static)"
    unfolding net_static_def map_static.simps by (rule wf_mk4) (simp_all add: e)
  show "wf_map4 (ms_map4 wkpf_static)"
    unfolding wkpf_static_def map_static.simps by (rule wf_mk4) (simp_all add: e)
qed

lemma sample_wf6: "wf_map6 (ms_map6 net_static)" "wf_map6 (ms_map6 wkpf_static)"
proof -
  have e: "fst (calc_ip6_mask in6_zero (Some (ip6_lit 0x20010db8 0x00640000 0 0)) 120) = 0"
    "fst (calc_ip6_mask in6_zero (Some (ip6_lit 0x0064ff9b 0 0 0)) 96) = 0"
    by (simp_all add: eval_addr)
  show "wf_map6 (ms_map6 net_static)"
    unfolding net_static_def map_static.simps by (rule wf_mk6) (simp_all add: e)
  show "wf_map6 (ms_map6 wkpf_static)"
    unfolding wkpf_static_def map_static.simps by (rule wf_mk6) (simp_all add: e)
qed

lemma sample_disjoint: "disjoint6 (ms_map6 net_static) (ms_map6 wkpf_static)"
proof -
  have "\<not> conflict6 (ms_map6 net_static) (ms_map6 wkpf_static)"
    by (simp add: conflict6_def net_static_def wkpf_static_def mk6_def in6_is_in_net_def map6_overlaps_def eval_addr)
  then show ?thesis using conflict6_iff [OF sample_wf6] by blast
qed

lemma sample_tables: "table4 (g_map4_list sample_state)" "table6 (g_map6_list sample_state)"
proof -
  show "table4 (g_map4_list sample_state)"
    using sample_wf4 by (simp add: table4_def sample_state_def pool_map_def net_static_def wkpf_static_def mk4_def)
  show "table6 (g_map6_list sample_state)"
    using sample_wf6 sample_disjoint
    by (simp add: table6_def sample_state_def net_static_def wkpf_static_def mk6_def)
qed

lemma sample_cache: "cache_inv sample_state"
  by (simp add: cache_inv_def sample_state_def sample_base_def)

lemma sample_pool_core: "pool_core sample_state (init_pool pool_map) {}"
proof -
  have "unat (ntohl (ip4_lit 10 0 0 0)) = 167772160" "unat (drop_bit 30 (0xffffffff :: u32)) = 3"
    by (simp_all add: eval_addr)
  then show ?thesis
    by (simp add: pool_core_def init_pool_def pool_map_def mk4_def pool_base_def pool_size_def
        free_at_def sample_state_def sample_base_def)
qed

lemma sample_pool_shape: "pool_shape sample_state (init_pool pool_map)"
  using sample_pool_core by (simp add: pool_shape_def leases_def init_pool_def)

lemma sample_pool: "pool_inv sample_state"
  using sample_pool_shape by (simp add: pool_inv_def sample_state_def sample_base_def)

lemma sample_statics: "statics_ok sample_state"
  using sample_wf4 sample_wf6
  by (auto simp: statics_ok_def sample_state_def sample_base_def net_static_def wkpf_static_def mk4_def mk6_def pool_map_def)

lemma sample_store: "store_inv sample_state"
  using sample_statics
  by (simp add: store_inv_def ids_free_def leases_own_def file_both_def sample_state_def sample_base_def net_static_def
      wkpf_static_def mk4_def mk6_def pool_map_def)

lemma sample_inv: "translation_inv sample_state"
  by (simp add: translation_inv_def sample_cache sample_pool sample_tables sample_store)

end
