(* ===== verification/Mapping_Props.thy ===== *)
theory Mapping_Props
  imports Samples
begin

text \<open>
  The properties of the mapping tables, the cache, the dynamic pool and the translation
  functions, each applied to a concrete configuration.
\<close>

section \<open>Tables\<close>

text \<open>C38. Lookup after insertion: the new entry wins exactly where it is the longer match.\<close>

theorem find_map4_after_insert:
  assumes "table4 t" "wf_map4 m" "insert_map4 m t = Inr t'"
  shows "find_map4 t' a =
    (case find_map4 t a of
       None \<Rightarrow> if covers4 m a then Some m else None
     | Some f \<Rightarrow> if covers4 m a \<and> m4_prefix_len f < m4_prefix_len m then Some m else Some f)"
proof (rule t4.find_insert [OF assms])
  show "m \<notin> set t" using assms(3) by (auto simp: insert_map4_eq find_None_iff split: option.splits)
qed

lemma find_map4_after_insert_witness:
  "find_map4 [ms_map4 net_static, ms_map4 wkpf_static] (ip4_lit 198 51 100 7) =
    (case find_map4 [ms_map4 wkpf_static] (ip4_lit 198 51 100 7) of
       None \<Rightarrow> if covers4 (ms_map4 net_static) (ip4_lit 198 51 100 7) then Some (ms_map4 net_static) else None
     | Some f \<Rightarrow> if covers4 (ms_map4 net_static) (ip4_lit 198 51 100 7)
         \<and> m4_prefix_len f < m4_prefix_len (ms_map4 net_static) then Some (ms_map4 net_static) else Some f)"
proof (rule find_map4_after_insert)
  show "table4 [ms_map4 wkpf_static]" using sample_wf4 by (simp add: table4_def)
  show "wf_map4 (ms_map4 net_static)" by (rule sample_wf4)
  show "insert_map4 (ms_map4 net_static) [ms_map4 wkpf_static] = Inr [ms_map4 net_static, ms_map4 wkpf_static]"
    by (simp add: insert_map4_eq net_static_def wkpf_static_def mk4_def)
qed

text \<open>The IPv6 lookup returns an entry exactly when it is the longest one covering the address.\<close>

theorem find_map6_longest:
  assumes "table6 t"
  shows "find_map6 t a = Some m \<longleftrightarrow>
    m \<in> set t \<and> covers6 m a \<and> (\<forall>m'\<in>set t. covers6 m' a \<longrightarrow> m6_prefix_len m' \<le> m6_prefix_len m)"
  by (rule t6.find_Some_iff [OF assms])

lemma find_map6_longest_witness:
  "find_map6 (g_map6_list sample_state) (ip6_lit 0x0064ff9b 0 0 1) = Some (ms_map6 wkpf_static)"
proof (rule iffD2 [OF find_map6_longest [OF sample_tables(2)]])
  have "in6_is_in_net (ip6_lit 0x0064ff9b 0 0 1) (m6_addr (ms_map6 wkpf_static)) (m6_mask (ms_map6 wkpf_static))"
    "\<not> in6_is_in_net (ip6_lit 0x0064ff9b 0 0 1) (m6_addr (ms_map6 net_static)) (m6_mask (ms_map6 net_static))"
    by (simp_all add: in6_is_in_net_def wkpf_static_def net_static_def mk6_def eval_addr)
  then show "ms_map6 wkpf_static \<in> set (g_map6_list sample_state) \<and> covers6 (ms_map6 wkpf_static) (ip6_lit 0x0064ff9b 0 0 1)
    \<and> (\<forall>m'\<in>set (g_map6_list sample_state). covers6 m' (ip6_lit 0x0064ff9b 0 0 1)
         \<longrightarrow> m6_prefix_len m' \<le> m6_prefix_len (ms_map6 wkpf_static))"
    by (simp add: covers6_test sample_wf6 sample_state_def)
qed

text \<open>Insertion of an IPv6 prefix is refused exactly when it shares an address with an entry.\<close>

theorem insert_map6_refused:
  assumes "table6 t" "wf_map6 m"
  shows "(\<exists>s. insert_map6 m t = Inl s) \<longleftrightarrow> (\<exists>s\<in>set t. \<not> disjoint6 s m)"
proof -
  have "(\<exists>s. insert_map6 m t = Inl s) \<longleftrightarrow> (\<exists>s\<in>set t. conflict6 m s)"
    by (auto simp: insert_map6_eq find_None_iff split: option.splits dest: find_SomeD)
  then show ?thesis using assms conflict6_iff [OF assms(2)] disjoint6_sym by (auto simp: table6_def)
qed

lemma insert_map6_refused_witness:
  "\<exists>s. insert_map6 (ms_map6 net_static) (g_map6_list sample_state) = Inl s"
proof (rule iffD2 [OF insert_map6_refused [OF sample_tables(2) sample_wf6(1)]])
  show "\<exists>s\<in>set (g_map6_list sample_state). \<not> disjoint6 s (ms_map6 net_static)"
    using covers6_self [OF sample_wf6(1)] by (auto simp: disjoint6_def sample_state_def)
qed

section \<open>The cache\<close>

text \<open>
  A pair entered in the cache is found from both sides at once, no other pair is lost, and
  the structure stays consistent; when the pool of entries is used up nothing changes.
\<close>

theorem cache_insert_lookup:
  assumes "cache_inv g" "cache_insert a b (hash_ip4 g a) (hash_ip6 g b) g = (r, g')"
  shows "cache_inv g' \<and>
    (case r of
       None \<Rightarrow> cache_pairs g' = cache_pairs g
     | Some c \<Rightarrow> cache_pairs g' = insert (a, b) (cache_pairs g)
         \<and> cache_lookup4 a g' \<noteq> None \<and> cache_lookup6 b g' \<noteq> None)"
proof -
  note ci = cache_insert_spec [OF assms]
  show ?thesis
    using ci(1,2) cache_lookup4_None [OF ci(1), of a] cache_lookup6_None [OF ci(1), of b]
    by (auto split: option.split)
qed

lemma cache_insert_lookup_witness:
  "\<exists>r g'. cache_insert (ip4_lit 8 8 8 8) in6_zero (hash_ip4 sample_state (ip4_lit 8 8 8 8))
      (hash_ip6 sample_state in6_zero) sample_state = (r, g') \<and> cache_inv g' \<and> r = Some 0
    \<and> cache_lookup4 (ip4_lit 8 8 8 8) g' \<noteq> None \<and> cache_lookup6 in6_zero g' \<noteq> None"
proof -
  obtain r g' where ci: "cache_insert (ip4_lit 8 8 8 8) in6_zero (hash_ip4 sample_state (ip4_lit 8 8 8 8))
      (hash_ip6 sample_state in6_zero) sample_state = (r, g')" by fastforce
  moreover from ci have "r = Some 0"
    by (auto simp: cache_insert_def sample_state_def sample_base_def add_to_hash_table_def Let_def)
  ultimately show ?thesis using cache_insert_lookup [OF sample_cache ci] by simp
qed

text \<open>
  A maintenance pass over the cache removes exactly the entries older than the maximum age,
  returns them to the pool of free entries, and keeps the hash tables in step.
\<close>

theorem addrmap_maint_expires:
  assumes "cache_inv g"
  shows "cache_inv (addrmap_maint g)
    \<and> set (g_cache_active (addrmap_maint g)) = {c \<in> set (g_cache_active g). \<not> expired g c}
    \<and> set (g_cache_pool (addrmap_maint g)) \<union> set (g_cache_active (addrmap_maint g))
      = set (g_cache_pool g) \<union> set (g_cache_active g)"
  using addrmap_maint_inv [OF assms] by blast

definition aged_state :: gstate where
  "aged_state = (snd (cache_insert 1 in6_zero (hash_ip4 sample_state 1) (hash_ip6 sample_state in6_zero) sample_state))
     \<lparr>g_now := 1121\<rparr>"

lemma addrmap_maint_expires_witness:
  "g_cache_active aged_state = [0] \<and> g_cache_active (addrmap_maint aged_state) = []"
proof -
  let ?g = "snd (cache_insert 1 in6_zero (hash_ip4 sample_state 1) (hash_ip6 sample_state in6_zero) sample_state)"
  have "cache_inv ?g"
    by (rule cache_insert_spec(1) [OF sample_cache prod.collapse [symmetric]])
  moreover have "cache_inv (?g\<lparr>g_now := 1121\<rparr>) = cache_inv ?g"
    by (rule cache_cong) (simp_all add: fun_eq_iff ent4_def ent6_def hash_ip4_def hash_ip6_def)
  ultimately have i: "cache_inv aged_state" by (simp add: aged_state_def)
  have a: "g_cache_active aged_state = [0]" and e: "expired aged_state 0"
    by (simp_all add: aged_state_def cache_insert_def sample_state_def sample_base_def
        add_to_hash_table_def Let_def expired_def CACHE_MAX_AGE_def list_add_def list_del_def)
  from addrmap_maint_expires [OF i] a e have "set (g_cache_active (addrmap_maint aged_state)) = {}"
    by auto
  with a show ?thesis by simp
qed

text \<open>
  Setting up the hash tables: a first call puts every entry in the pool; a later call rebuilds
  the tables, whatever they held, from the entries in use, and loses no pair.
\<close>

theorem create_cache_rebuilds:
  assumes "g_cache_pool g = [] \<and> g_cache_active g = []
    \<or> distinct (g_cache_pool g @ g_cache_active g) \<and> inj_on (\<lambda>c. (ent4 g c, ent6 g c)) (set (g_cache_active g))"
  shows "cache_inv (snd (create_cache True g)) \<and> cache_pairs (snd (create_cache True g)) = cache_pairs g"
  using create_cache_inv [OF assms] by blast

lemma create_cache_rebuilds_witness:
  "cache_inv (snd (create_cache True (aged_state\<lparr>g_hash_bits := 9, g_hash_table4 := (\<lambda>_. [3, 3])\<rparr>)))"
proof -
  have a: "g_cache_active aged_state = [0]" "g_cache_pool aged_state = [1, 2, 3]"
    by (simp_all add: aged_state_def cache_insert_def sample_state_def sample_base_def
        add_to_hash_table_def Let_def list_add_def list_del_def)
  show ?thesis
    using create_cache_rebuilds [of "aged_state\<lparr>g_hash_bits := 9, g_hash_table4 := (\<lambda>_. [3, 3])\<rparr>"] a by simp
qed

section \<open>The dynamic pool\<close>

text \<open>
  The three counters that are reported for the pool add up to its size less its first
  address, whatever has been leased, parked or released.
\<close>

theorem dynamic_get_stats_total:
  assumes "g_dynamic_pool g = Some p" "pool_shape g p"
  shows "(case dynamic_get_stats g of (mapped, dormant, free) \<Rightarrow>
    unat (mapped + dormant + free) + 1 = pool_size p)"
proof -
  have s: "pool_size p \<le> 4294967296" using assms(2) by (simp add: pool_shape_def pool_core_def)
  let ?t = "sum_list (map (\<lambda>f. unat (fa_count (free_at g p f))) (dp_free p))"
  have sum: "sum_list (map (\<lambda>f. fa_count (free_at g p f)) fs)
      = word_of_nat (sum_list (map (\<lambda>f. unat (fa_count (free_at g p f))) fs))" for fs
    by (induction fs) simp_all
  have "unat (word_of_nat (length (dp_mapped p) + length (dp_dormant p) + ?t) :: u32)
      = length (dp_mapped p) + length (dp_dormant p) + ?t"
    using pool_account [OF assms(2)] s by (simp add: unsigned_of_nat take_bit_nat_eq_self del: of_nat_add)
  then show ?thesis using pool_account [OF assms(2)] assms(1)
    by (simp add: dynamic_get_stats_def sum)
qed

lemma dynamic_get_stats_total_witness:
  "case dynamic_get_stats sample_state of (mapped, dormant, free) \<Rightarrow>
     unat (mapped + dormant + free) + 1 = pool_size (init_pool pool_map)"
  by (rule dynamic_get_stats_total [OF _ sample_pool_shape]) (simp add: sample_state_def sample_base_def)

text \<open>
  C12. Assigning a lease keeps the pool consistent, keeps every lease it had, and hands out an
  address that no other lease of the pool owns.
\<close>

theorem assign_dynamic_unique:
  assumes "g_dynamic_pool g = Some p" "pool_shape g p" "assign_dynamic b g = (Some i, g')"
  shows "\<exists>p' d. g_dynamic_pool g' = Some p' \<and> pool_shape g' p' \<and> set (leases p) \<subseteq> set (leases p')
    \<and> i \<in> set (dp_mapped p') \<and> g_dyn g' i = Some d \<and> m6_addr (d_map6 d) = b
    \<and> (\<forall>j\<in>set (leases p'). \<forall>e. g_dyn g' j = Some e \<and> m4_addr (d_map4 e) = m4_addr (d_map4 d) \<longrightarrow> j = i)"
proof (rule assign_dynamic_shape [OF assms])
  fix p'
  assume p': "g_dynamic_pool g' = Some p'" "pool_shape g' p'" "set (leases p) \<subseteq> set (leases p')"
    and i: "\<And>k. Some i = Some k \<Longrightarrow> k \<in> set (dp_mapped p') \<and> (\<exists>d. g_dyn g' k = Some d \<and> m6_addr (d_map6 d) = b)"
  then obtain d where d: "g_dyn g' i = Some d" "m6_addr (d_map6 d) = b" "i \<in> set (dp_mapped p')" by blast
  then have "i \<in> set (leases p')" by (simp add: leases_def)
  then show ?thesis using lease_addr_inj [OF p'(2) _ _ _ d(1)] p' d by blast
qed

lemma sample_assign:
  "fst (assign_dynamic (ip6_lit 0x20010db8 0 0 7) sample_state) = Some 10"
  by (simp add: assign_dynamic_def sample_state_def sample_base_def init_pool_def find_dormant_def search_free_def
      dyn_base_def fold_base.simps Let_def pool_map_def mk4_def eval_addr scan_run.simps free_at_def alloc_map_dynamic_def)

lemma assign_dynamic_unique_witness:
  "\<exists>p' d. g_dynamic_pool (snd (assign_dynamic (ip6_lit 0x20010db8 0 0 7) sample_state)) = Some p'
    \<and> pool_shape (snd (assign_dynamic (ip6_lit 0x20010db8 0 0 7) sample_state)) p' \<and> 10 \<in> set (dp_mapped p')
    \<and> g_dyn (snd (assign_dynamic (ip6_lit 0x20010db8 0 0 7) sample_state)) 10 = Some d"
proof -
  obtain g' where g': "assign_dynamic (ip6_lit 0x20010db8 0 0 7) sample_state = (Some 10, g')"
    using sample_assign by (metis prod.collapse)
  have "g_dynamic_pool sample_state = Some (init_pool pool_map)" by (simp add: sample_state_def sample_base_def)
  from assign_dynamic_unique [OF this sample_pool_shape g'] show ?thesis unfolding g' snd_conv by blast
qed

text \<open>
  C39. A host is refused a lease only when there is none to give: with memory to allocate, a
  parked lease, or an address after some free entry whose longest match is the pool itself,
  is enough for the assignment to succeed.
\<close>

theorem assign_dynamic_succeeds:
  assumes "g_dynamic_pool g = Some p" "pool_shape g p" "pool_mapped g p" "g_alloc g \<noteq> []"
    and free: "dp_dormant p \<noteq> [] \<or> (\<exists>f\<in>set (dp_free p). \<exists>a. unat (fa_addr (free_at g p f)) < a
      \<and> a \<le> unat (fa_addr (free_at g p f)) + unat (fa_count (free_at g p f))
      \<and> map_option m4_obj (find_map4 (g_map4_list g) (htonl (word_of_nat a))) = Some (m4_obj (dp_map4 p)))"
  shows "fst (assign_dynamic b g) \<noteq> None"
proof -
  have core: "pool_core g p (set (leases p))" using assms(2) by (simp add: pool_shape_def)
  have "dp_dormant p \<noteq> []" if "search_free g p b = None"
    using free search_free_complete [OF core assms(3) that] by blast
  then show ?thesis using assms(1,4)
    by (auto simp: assign_dynamic_def alloc_map_dynamic_def Let_def neq_Nil_conv split: option.split prod.split)
qed

lemma assign_dynamic_succeeds_witness: "fst (assign_dynamic in6_zero sample_state) \<noteq> None"
proof (rule assign_dynamic_succeeds [OF _ sample_pool_shape])
  show "g_dynamic_pool sample_state = Some (init_pool pool_map)" "g_alloc sample_state \<noteq> []"
    by (simp_all add: sample_state_def sample_base_def)
  show "pool_mapped sample_state (init_pool pool_map)"
    using sample_tables(1)
    by (simp add: pool_mapped_def pool_base_def init_pool_def sample_state_def pool_map_def net_static_def wkpf_static_def mk4_def)
  have "find_map4 (g_map4_list sample_state) (htonl (word_of_nat 167772162)) = Some pool_map"
    by (simp add: sample_state_def pool_map_def mk4_def eval_addr)
  then have "\<exists>f\<in>set (dp_free (init_pool pool_map)). \<exists>a. unat (fa_addr (free_at sample_state (init_pool pool_map) f)) < a
      \<and> a \<le> unat (fa_addr (free_at sample_state (init_pool pool_map) f))
          + unat (fa_count (free_at sample_state (init_pool pool_map) f))
      \<and> map_option m4_obj (find_map4 (g_map4_list sample_state) (htonl (word_of_nat a)))
          = Some (m4_obj (dp_map4 (init_pool pool_map)))"
    by (intro bexI [of _ Free_Head] exI [of _ 167772162])
      (simp_all add: init_pool_def free_at_def pool_map_def mk4_def eval_addr)
  then show "dp_dormant (init_pool pool_map) \<noteq> [] \<or> (\<exists>f\<in>set (dp_free (init_pool pool_map)). \<exists>a.
      unat (fa_addr (free_at sample_state (init_pool pool_map) f)) < a
      \<and> a \<le> unat (fa_addr (free_at sample_state (init_pool pool_map) f))
          + unat (fa_count (free_at sample_state (init_pool pool_map) f))
      \<and> map_option m4_obj (find_map4 (g_map4_list sample_state) (htonl (word_of_nat a)))
          = Some (m4_obj (dp_map4 (init_pool pool_map))))" by (rule disjI2)
qed

section \<open>Translation\<close>

text \<open>
  C34. Translating an IPv4 address keeps the cache, the pool and both tables consistent, and so
  does translating an IPv6 address, with or without the assignment of a lease.
\<close>

theorem translation_keeps_inv:
  assumes "translation_inv g"
  shows "translation_inv (snd (map_ip4_to_ip6 a g)) \<and> translation_inv (snd (map_ip6_to_ip4 b dyn_alloc g))"
  using map_ip4_to_ip6_inv [OF assms] map_ip6_to_ip4_inv [OF assms] by blast

lemma translation_keeps_inv_witness:
  "translation_inv (snd (map_ip4_to_ip6 (ip4_lit 8 8 4 4) sample_state))
    \<and> translation_inv (snd (map_ip6_to_ip4 (ip6_lit 0x20010db8 0 0 7) True sample_state))"
  by (rule translation_keeps_inv [OF sample_inv])

text \<open>
  The two functions fail only by asking for a rejection or a silent drop: the verdict on a
  link-local address never reaches a caller.
\<close>

theorem translation_errors:
  "fst (map_ip4_to_ip6 a g) = Inl e \<or> fst (map_ip6_to_ip4 b dyn_alloc g) = Inl e
    \<Longrightarrow> e = ERROR_REJECT \<or> e = ERROR_DROP"
  using map_ip4_to_ip6_errors map_ip6_to_ip4_errors by blast

lemma translation_errors_witness: "ERROR_REJECT = ERROR_REJECT \<or> ERROR_REJECT = ERROR_DROP"
proof (rule translation_errors)
  show "fst (map_ip4_to_ip6 (ip4_lit 10 0 0 2) sample_state) = Inl ERROR_REJECT
      \<or> fst (map_ip6_to_ip4 in6_zero False sample_state) = Inl ERROR_REJECT"
    by (simp add: map_ip4_to_ip6_def map4_slow_def cache_lookup4_def sample_state_def sample_base_def pool_map_def
        mk4_def eval_addr)
qed

lemma static_embeds:
  assumes inv: "translation_inv g" and so: "statics_ok g"
    and m: "find_map4 (g_map4_list g) a = Some m" "m4_type m = MAP_TYPE_STATIC"
    and a: "m4_prefix_len m < 32 \<Longrightarrow> validate_ip4_addr a = ERROR_NONE \<and> a \<noteq> g_local_addr4 g"
    and l6: "\<And>s. m4_prefix_len m = 32 \<Longrightarrow> g_static g (m4_obj m) = Some s \<Longrightarrow> ms_map6 s \<in> set (g_map6_list g)"
    and r: "fst (map4_slow a g) = Inr b"
  shows "\<exists>s. g_static g (m4_obj m) = Some s \<and> b = eam_embed m (ms_map6 s) a \<and> wf_map4 m \<and> wf_map6 (ms_map6 s)
    \<and> m6_prefix_len (ms_map6 s) + (32 - m4_prefix_len m) \<le> 128 \<and> fst (map6_slow b dyn_alloc g) = Inr a"
proof -
  have tb: "table4 (g_map4_list g)" "table6 (g_map6_list g)" using inv by (simp_all add: translation_inv_def)
  note fm = t4.find_Some [OF tb(1) m(1)]
  obtain s where s: "g_static g (m4_obj m) = Some s"
    using r m by (auto simp: map4_slow_def split: option.splits)
  have sm: "ms_map4 s = m" and ids: "m4_obj (ms_map4 s) = m4_obj m" "m6_obj (ms_map6 s) = m4_obj m"
    "m6_type (ms_map6 s) = MAP_TYPE_STATIC"
    and wf: "wf_map4 m" "wf_map6 (ms_map6 s)"
    and fit: "m6_prefix_len (ms_map6 s) + (32 - m4_prefix_len m) \<le> 128"
    using so s fm m(2) unfolding statics_ok_def by (metis (no_types, lifting))+
  have b: "b = eam_embed m (ms_map6 s) a" using r m s by (auto simp: map4_slow_def Let_def split: if_splits)
  have n: "find_map6 (g_map6_list g) b = Some (ms_map6 s)"
  proof (cases "m4_prefix_len m = 32")
    case True
    have "covers6 (ms_map6 s) b" unfolding b by (rule eam_embed_covers [OF wf fit])
    then show ?thesis unfolding t6.find_Some_iff [OF tb(2)] using l6 [OF True s] table6_unique [OF tb(2)] by blast
  next
    case False
    then have "m4_prefix_len m < 32" using wf(1) by (simp add: wf_map4_def is_mask4_def)
    then have "map_option m6_obj (find_map6 (g_map6_list g) b) = Some (m6_obj (ms_map6 s))"
      using r m s b by (auto simp: map4_slow_def Let_def split: if_splits)
    then obtain n where n: "find_map6 (g_map6_list g) b = Some n" "m6_obj n = m4_obj m" using ids by auto
    then have "n = ms_map6 s" using so s t6.find_Some [OF tb(2) n(1)] unfolding statics_ok_def by metis
    then show ?thesis using n(1) by simp
  qed
  have "eam_extract m (ms_map6 s) b = a"
    unfolding b by (rule eam_extract_embed [OF wf fit]) (use fm in blast)
  then have "fst (map6_entry b (ms_map6 s) g) = Inr a"
    using s ids sm m a by (auto simp: map6_entry_def Let_def)
  then have "fst (map6_slow b dyn_alloc g) = Inr a" using n by (simp add: map6_slow_def)
  then show ?thesis using s b wf fit by blast
qed

text \<open>
  C15. Round trip of an explicit address mapping, of a prefix or of a host: an address whose longest match it
  is translates, where it translates, to the mapping's IPv6 prefix with the address's remaining bits
  behind it and zeros behind these, and that IPv6 address translates back to the address. For a
  prefix the address is a valid one that is not the translator's own; for a host its IPv6 entry is in the table.
\<close>

theorem static_round_trip:
  assumes "translation_inv g" and "statics_ok g"
    and "find_map4 (g_map4_list g) a = Some m" "m4_type m = MAP_TYPE_STATIC"
    and "m4_prefix_len m < 32 \<Longrightarrow> validate_ip4_addr a = ERROR_NONE \<and> a \<noteq> g_local_addr4 g"
    and "\<And>s. m4_prefix_len m = 32 \<Longrightarrow> g_static g (m4_obj m) = Some s \<Longrightarrow> ms_map6 s \<in> set (g_map6_list g)"
    and "fst (map4_slow a g) = Inr b"
  shows "fst (map6_slow b dyn_alloc g) = Inr a
    \<and> (\<exists>s. g_static g (m4_obj m) = Some s \<and> (\<forall>i<128. ip6_bit b i \<longleftrightarrow>
        (if i < m6_prefix_len (ms_map6 s) then ip6_bit (m6_addr (ms_map6 s)) i
         else m4_prefix_len m + (i - m6_prefix_len (ms_map6 s)) < 32 \<and> ip4_bit a (m4_prefix_len m + (i - m6_prefix_len (ms_map6 s))))))"
proof -
  obtain s where s: "g_static g (m4_obj m) = Some s" "b = eam_embed m (ms_map6 s) a" "wf_map4 m" "wf_map6 (ms_map6 s)"
    "m6_prefix_len (ms_map6 s) + (32 - m4_prefix_len m) \<le> 128" "fst (map6_slow b dyn_alloc g) = Inr a"
    using static_embeds [OF assms] by blast
  have "m4_prefix_len m \<le> 32" "\<And>i. i < 128 \<Longrightarrow> ip6_bit (m6_addr (ms_map6 s)) i \<Longrightarrow> i < m6_prefix_len (ms_map6 s)"
    using s(3,4) by (auto simp: wf_map4_def is_mask4_def wf_map6_def v6.canon_def)
  then show ?thesis using s(1,6) eam_embed_bits [OF s(3-5)] by (auto simp: s(2) intro!: exI [of _ s])
qed

lemma static_round_trip_witness:
  "fst (map6_slow (ip6_lit 0x20010db8 0x00640000 0 7) False sample_state) = Inr (ip4_lit 198 51 100 7)"
proof (rule conjunct1 [OF static_round_trip [OF sample_inv sample_statics]])
  show "find_map4 (g_map4_list sample_state) (ip4_lit 198 51 100 7) = Some (ms_map4 net_static)"
    by (simp add: sample_state_def pool_map_def net_static_def mk4_def eval_addr)
  show "m4_type (ms_map4 net_static) = MAP_TYPE_STATIC" by (simp add: net_static_def mk4_def)
  have "validate_ip4_addr (ip4_lit 198 51 100 7) = ERROR_NONE" by (simp add: validate_ip4_addr_def eval_addr)
  moreover have "ip4_lit 198 51 100 7 \<noteq> g_local_addr4 sample_state"
    by (simp add: sample_state_def sample_base_def eval_addr)
  ultimately show "validate_ip4_addr (ip4_lit 198 51 100 7) = ERROR_NONE \<and> ip4_lit 198 51 100 7 \<noteq> g_local_addr4 sample_state" by simp
  show "ms_map6 s \<in> set (g_map6_list sample_state)" if "m4_prefix_len (ms_map4 net_static) = 32" for s
    using that by (simp add: net_static_def mk4_def)
  show "fst (map4_slow (ip4_lit 198 51 100 7) sample_state) = Inr (ip6_lit 0x20010db8 0x00640000 0 7)"
    by (simp add: map4_slow_def sample_state_def sample_base_def pool_map_def net_static_def wkpf_static_def
        mk4_def mk6_def eam_embed_def eam_suffix4_def or_word_def validate_ip6_addr_def s6_addr16_0_def
        WKPF_def in6_is_in_net_def eval_addr Let_def)
qed

text \<open>
  C16. Round trip of an RFC 6052 prefix: what embeds in the prefix translates back to the
  address embedded.
\<close>

theorem rfc6052_round_trip:
  assumes inv: "translation_inv g" and so: "statics_ok g"
    and m: "find_map4 (g_map4_list g) a = Some m" "m4_type m = MAP_TYPE_RFC6052"
    and l6: "\<And>s. g_static g (m4_obj m) = Some s \<Longrightarrow> ms_map6 s \<in> set (g_map6_list g)"
    and r: "fst (map4_slow a g) = Inr b"
  shows "fst (map6_slow b dyn_alloc g) = Inr a"
proof -
  have tb: "table4 (g_map4_list g)" "table6 (g_map6_list g)" using inv by (simp_all add: translation_inv_def)
  note fm = t4.find_Some [OF tb(1) m(1)]
  obtain s where s: "g_static g (m4_obj m) = Some s"
    using r m by (auto simp: map4_slow_def split: option.splits)
  let ?n = "ms_map6 s"
  have sm: "ms_map4 s = m" and ids: "m6_obj ?n = m4_obj m" "m6_type ?n = MAP_TYPE_RFC6052" and wf: "wf_map6 ?n"
    using so s fm m(2) unfolding statics_ok_def by (metis (no_types, lifting))+
  have app: "append_to_prefix (g_wkpf_strict g) a (m6_addr ?n) (m6_prefix_len ?n) = Inr b"
    using r m s by (auto simp: map4_slow_def split: sum.splits)
  have canon: "v6.canon (m6_addr ?n) (m6_prefix_len ?n)" using wf by (simp add: wf_map6_def)
  have "covers6 ?n b" unfolding covers6_def by (rule append_pmatch [OF app canon])
  moreover have "?n \<in> set (g_map6_list g)" by (rule l6 [OF s])
  ultimately have n: "find_map6 (g_map6_list g) b = Some ?n"
    unfolding t6.find_Some_iff [OF tb(2)] using table6_unique [OF tb(2)] by blast
  have ext: "extract_from_prefix b (m6_prefix_len ?n) = Inr a"
    using extract_append_bits [OF app canon] append_to_prefix_cases(1) [OF app]
    by (simp add: extract_from_prefix_def)
  have "\<not> (a0 (m6_addr ?n) = WKPF \<and> a1 (m6_addr ?n) = 0 \<and> a2 (m6_addr ?n) = 0
      \<and> g_wkpf_strict g \<and> is_private_ip4_addr a \<noteq> ERROR_NONE)"
    using app by (auto simp: append_to_prefix_def split: if_splits)
  then have "fst (map6_entry b ?n g) = Inr a"
    using s ids sm m ext by (auto simp: map6_entry_def)
  then show ?thesis using n by (simp add: map6_slow_def)
qed

lemma rfc6052_round_trip_witness:
  "fst (map6_slow (ip6_lit 0x0064ff9b 0 0 0x08080404) False sample_state) = Inr (ip4_lit 8 8 4 4)"
proof (rule rfc6052_round_trip [OF sample_inv sample_statics])
  show "find_map4 (g_map4_list sample_state) (ip4_lit 8 8 4 4) = Some (ms_map4 wkpf_static)"
    by (simp add: sample_state_def pool_map_def net_static_def wkpf_static_def mk4_def eval_addr)
  show "m4_type (ms_map4 wkpf_static) = MAP_TYPE_RFC6052"
    by (simp add: wkpf_static_def mk4_def)
  show "\<And>s. g_static sample_state (m4_obj (ms_map4 wkpf_static)) = Some s \<Longrightarrow> ms_map6 s \<in> set (g_map6_list sample_state)"
    by (auto simp: sample_state_def sample_base_def wkpf_static_def mk4_def)
  show "fst (map4_slow (ip4_lit 8 8 4 4) sample_state) = Inr (ip6_lit 0x0064ff9b 0 0 0x08080404)"
    by (simp add: map4_slow_def sample_state_def sample_base_def pool_map_def net_static_def wkpf_static_def
        mk4_def mk6_def append_to_prefix_def validate_ip4_addr_def is_private_ip4_addr_def WKPF_def eval_addr)
qed

end
