(* ===== verification/Tun.thy ===== *)
theory Tun
  imports State
begin

text \<open>
  Packet output of \<open>src/src/tun.c\<close>: \<open>tun_write\<close>, \<open>tun_writev\<close>, \<open>tun_writev_vnet\<close>,
  \<open>tun_write_vnet\<close> and \<open>tun_write_vnet_inplace\<close>. The world of packet handling is the
  configuration and mapping state together with the memory that holds the receive buffer, the
  identification counter and the device. A vector of buffers is the list of their bytes. The
  device is a list of the outcomes of the next system calls, after whose end every write is
  accepted, and the list of the frames it has accepted. Counters and the asynchronous ring are
  not modelled.
\<close>

section \<open>World\<close>

datatype errno = EINTR | EAGAIN | EINVAL | EMSGSIZE | EIO | E_other int

text \<open>The outcome of one \<open>write\<close>: the full length, a shorter one, or an error.\<close>

datatype io = Io_Full | Io_Short nat | Io_Error errno

record world =
  w_g :: gstate
  w_vnet :: nat
  w_offload :: bool
  w_has_uso :: bool
  w_ident :: u16
  w_mem :: mem
  w_io :: "io list"
  w_errno :: errno
  w_tx :: "u8 list list"

text \<open>Running an operation on the mapping state inside the world.\<close>

definition with_g :: "(gstate \<Rightarrow> 'a \<times> gstate) \<Rightarrow> world \<Rightarrow> 'a \<times> world" where
  "with_g f w = (case f (w_g w) of (r, g) \<Rightarrow> (r, w\<lparr>w_g := g\<rparr>))"

section \<open>Writing\<close>

definition fail_with :: "errno \<Rightarrow> world \<Rightarrow> int \<times> world" where
  "fail_with e w = (-1, w\<lparr>w_errno := e\<rparr>)"

text \<open>One frame, at most \<open>n\<close> more attempts; only an interrupted call is repeated.\<close>

fun write_frame :: "nat \<Rightarrow> u8 list \<Rightarrow> world \<Rightarrow> int \<times> world" where
  "write_frame 0 frame w = (-1, w)"
| "write_frame (Suc n) frame w =
     (case w_io w of
        [] \<Rightarrow> (int (length frame), w\<lparr>w_tx := w_tx w @ [frame]\<rparr>)
      | Io_Full # rs \<Rightarrow> (int (length frame), w\<lparr>w_io := rs, w_tx := w_tx w @ [frame]\<rparr>)
      | Io_Short k # rs \<Rightarrow>
          if k = length frame then (int (length frame), w\<lparr>w_io := rs, w_tx := w_tx w @ [frame]\<rparr>)
          else fail_with EIO (w\<lparr>w_io := rs\<rparr>)
      | Io_Error e # rs \<Rightarrow>
          if e = EINTR then write_frame n frame (w\<lparr>w_io := rs, w_errno := EINTR\<rparr>)
          else fail_with e (w\<lparr>w_io := rs\<rparr>))"

text \<open>The size test: a running total, compared before each addition.\<close>

fun iov_total :: "nat \<Rightarrow> u8 list list \<Rightarrow> nat option" where
  "iov_total acc [] = Some acc"
| "iov_total acc (b # bs) =
     (if length b > RECV_BUF_SIZE - acc then None else iov_total (acc + length b) bs)"

text \<open>The part of \<open>tun_writev\<close> after the test of the offload header.\<close>

definition tun_send :: "u8 list list \<Rightarrow> world \<Rightarrow> int \<times> world" where
  "tun_send iov w =
     (case iov_total 0 iov of
        None \<Rightarrow> fail_with EMSGSIZE w
      | Some _ \<Rightarrow> write_frame 5 (concat iov) w)"

text \<open>
  \<open>tun_writev\<close> and \<open>tun_writev_vnet\<close> call each other once: a vector that does not start with
  an offload header gets an empty one. The two mutual calls are unfolded here and the recursive
  equation of the source is lemma \<open>tun_writev_rec\<close>.
\<close>

definition tun_writev :: "u8 list list \<Rightarrow> world \<Rightarrow> int \<times> world" where
  "tun_writev iov w =
     (if length iov < 1 \<or> length iov > 64 then fail_with EINVAL w
      else if w_vnet w > 0 \<and> length (hd iov) \<noteq> w_vnet w then
        (if length iov > 63 then fail_with EINVAL w
         else tun_send (take (w_vnet w) (vnet_bytes vnet_zero) # iov) w)
      else tun_send iov w)"

definition tun_writev_vnet :: "vnet_hdr \<Rightarrow> u8 list list \<Rightarrow> world \<Rightarrow> int \<times> world" where
  "tun_writev_vnet vhdr iov w =
     (if length iov < 1 \<or> length iov > 63 then fail_with EINVAL w
      else if w_vnet w > 0 then tun_writev (take (w_vnet w) (vnet_bytes vhdr) # iov) w
      else tun_writev iov w)"

definition tun_write :: "u8 list \<Rightarrow> world \<Rightarrow> int \<times> world" where
  "tun_write buf w = tun_writev [buf] w"

definition tun_write_vnet :: "vnet_hdr \<Rightarrow> u8 list \<Rightarrow> world \<Rightarrow> int \<times> world" where
  "tun_write_vnet vhdr buf w =
     (if w_vnet w > 0 then tun_writev [take (w_vnet w) (vnet_bytes vhdr), buf] w
      else tun_write buf w)"

text \<open>
  The frame lies in memory at \<open>buf\<close>; the offload header is stored in the headroom before it.
\<close>

definition tun_write_vnet_inplace :: "vnet_hdr option \<Rightarrow> nat \<Rightarrow> nat \<Rightarrow> world \<Rightarrow> int \<times> world" where
  "tun_write_vnet_inplace vhdr buf len w =
     (if len = 0 then fail_with EINVAL w
      else if w_vnet w > 0 then
        (let write_ptr = buf - w_vnet w;
             hdr = (case vhdr of Some v \<Rightarrow> take (w_vnet w) (vnet_bytes v) | None \<Rightarrow> replicate (w_vnet w) 0);
             w = w\<lparr>w_mem := store (w_mem w) write_ptr hdr\<rparr>
         in write_frame 5 (load (w_mem w) write_ptr (w_vnet w + len)) w)
      else write_frame 5 (load (w_mem w) buf len) w)"

section \<open>What a write does\<close>

text \<open>The offload header is absent or one of the two sizes of the kernel interface.\<close>

definition vnet_ok :: "world \<Rightarrow> bool" where
  "vnet_ok w \<longleftrightarrow> w_vnet w \<in> {0, 10, 12}"

lemma vnet_le: "vnet_ok w \<Longrightarrow> w_vnet w \<le> 12"
  by (auto simp: vnet_ok_def)

lemma iov_total_eq: "acc \<le> RECV_BUF_SIZE \<Longrightarrow>
    iov_total acc iov = (if acc + sum_list (map length iov) \<le> RECV_BUF_SIZE
      then Some (acc + sum_list (map length iov)) else None)"
  by (induction iov arbitrary: acc) auto

lemma tun_writev_rec:
  assumes "vnet_ok w" "iov \<noteq> []" "length iov \<le> 64"
  shows "tun_writev iov w =
    (if w_vnet w > 0 \<and> length (hd iov) \<noteq> w_vnet w then tun_writev_vnet vnet_zero iov w else tun_send iov w)"
  using assms vnet_le [OF assms(1)]
  by (cases iov) (auto simp: tun_writev_def tun_writev_vnet_def)

text \<open>
  A write leaves the state and the memory alone (the in-place variant writes the headroom), and
  the frame is on the wire exactly when the call returns its length.
\<close>

definition sent :: "world \<Rightarrow> u8 list list \<Rightarrow> world \<Rightarrow> bool" where
  "sent w fs w' \<longleftrightarrow> w_g w' = w_g w \<and> w_vnet w' = w_vnet w \<and> w_offload w' = w_offload w
     \<and> w_has_uso w' = w_has_uso w
     \<and> w_ident w' = w_ident w \<and> w_tx w' = w_tx w @ fs"

lemma sent_refl: "sent w [] w"
  by (simp add: sent_def)

lemma sent_trans: "sent w fs w1 \<Longrightarrow> sent w1 gs w2 \<Longrightarrow> sent w (fs @ gs) w2"
  by (simp add: sent_def)

lemma write_frame_spec:
  "write_frame n frame w = (r, w') \<Longrightarrow>
     w_mem w' = w_mem w \<and> (r = int (length frame) \<and> sent w [frame] w' \<or> r = -1 \<and> sent w [] w')"
proof (induction n arbitrary: w)
  case (Suc n)
  show ?case
  proof (cases "w_io w")
    case Nil
    then show ?thesis using Suc.prems by (auto simp: sent_def)
  next
    case (Cons o1 rs)
    show ?thesis
    proof (cases "o1 = Io_Error EINTR")
      case True
      then show ?thesis
        using Suc.IH [of "w\<lparr>w_io := rs, w_errno := EINTR\<rparr>"] Suc.prems Cons by (simp add: sent_def)
    next
      case False
      then show ?thesis using Suc.prems Cons
        by (cases o1) (auto simp: sent_def fail_with_def split: if_splits)
    qed
  qed
qed (simp add: sent_refl)

lemma write_frame_ok: "w_io w = [] \<Longrightarrow> 0 < n \<Longrightarrow>
    write_frame n frame w = (int (length frame), w\<lparr>w_tx := w_tx w @ [frame]\<rparr>)"
  by (cases n) auto

text \<open>Any outcome of a call on the frame \<open>frame\<close>.\<close>

definition may_send :: "u8 list \<Rightarrow> world \<Rightarrow> int \<Rightarrow> world \<Rightarrow> bool" where
  "may_send frame w r w' \<longleftrightarrow>
     r = int (length frame) \<and> sent w [frame] w' \<or> r = -1 \<and> sent w [] w'"

definition vnet_prefix :: "vnet_hdr \<Rightarrow> world \<Rightarrow> u8 list" where
  "vnet_prefix v w = take (w_vnet w) (vnet_bytes v)"

lemma tun_send_spec: "tun_send iov w = (r, w') \<Longrightarrow> w_mem w' = w_mem w \<and> may_send (concat iov) w r w'"
  using write_frame_spec [of 5 "concat iov" w]
  by (auto simp: tun_send_def may_send_def fail_with_def sent_def split: option.splits)

text \<open>The frame a vector becomes: in offload mode an empty header comes first.\<close>

lemma vnet_zero_bytes: "n \<le> 12 \<Longrightarrow> take n (vnet_bytes vnet_zero) = replicate n 0"
proof -
  have "vnet_bytes vnet_zero = replicate 12 0"
    by (simp add: vnet_bytes_def vnet_zero_def le_bytes_def upt_rec numeral_eq_Suc)
  then show "n \<le> 12 \<Longrightarrow> take n (vnet_bytes vnet_zero) = replicate n 0" by simp
qed

definition plain_frame :: "world \<Rightarrow> u8 list \<Rightarrow> u8 list" where
  "plain_frame w ip = replicate (w_vnet w) 0 @ ip"

lemma sent_vnet: "sent w fs w' \<Longrightarrow> w_vnet w' = w_vnet w"
  by (simp add: sent_def)

lemma sent_ok: "sent w fs w' \<Longrightarrow> vnet_ok w \<Longrightarrow> vnet_ok w'"
  by (simp add: sent_def vnet_ok_def)

lemma tun_writev_eq:
  assumes "vnet_ok w" "iov \<noteq> []" "length iov \<le> 63" "12 < length (hd iov)"
  shows "tun_writev iov w = tun_send (if w_vnet w = 0 then iov else replicate (w_vnet w) 0 # iov) w"
  using assms vnet_le [OF assms(1)] by (cases iov) (auto simp: tun_writev_def vnet_zero_bytes)

lemma tun_writev_spec:
  assumes "vnet_ok w" "iov \<noteq> []" "length iov \<le> 63" "12 < length (hd iov)" "tun_writev iov w = (r, w')"
  shows "w_mem w' = w_mem w" "may_send (plain_frame w (concat iov)) w r w'"
  using tun_send_spec [OF assms(5) [unfolded tun_writev_eq [OF assms(1-4)]]]
  by (simp_all add: plain_frame_def split: if_splits)

lemma tun_writev_accepted:
  assumes "vnet_ok w" "iov \<noteq> []" "length iov \<le> 63" "12 < length (hd iov)" "w_io w = []"
    and "12 + length (concat iov) \<le> RECV_BUF_SIZE"
  shows "tun_writev iov w = (int (length (plain_frame w (concat iov))),
    w\<lparr>w_tx := w_tx w @ [plain_frame w (concat iov)]\<rparr>)"
proof -
  let ?iov = "if w_vnet w = 0 then iov else replicate (w_vnet w) 0 # iov"
  have c: "concat ?iov = plain_frame w (concat iov)" by (simp add: plain_frame_def)
  have "iov_total 0 ?iov \<noteq> None"
    using assms(6) vnet_le [OF assms(1)] by (simp add: iov_total_eq length_concat del: iov_total.simps)
  then show ?thesis
    using assms(5) unfolding tun_writev_eq [OF assms(1-4)] tun_send_def c
    by (auto simp: write_frame_ok simp del: iov_total.simps split: option.split)
qed

definition inplace_hdr :: "vnet_hdr option \<Rightarrow> world \<Rightarrow> u8 list" where
  "inplace_hdr vhdr w = take (w_vnet w) (vnet_bytes (case vhdr of Some v \<Rightarrow> v | None \<Rightarrow> vnet_zero))"

lemma length_inplace_hdr: "vnet_ok w \<Longrightarrow> length (inplace_hdr v w) = w_vnet w"
  using vnet_le by (simp add: inplace_hdr_def)

lemma inplace_hdr_plain: "vnet_ok w \<Longrightarrow> inplace_hdr None w @ ip = plain_frame w ip"
  using vnet_le by (simp add: inplace_hdr_def plain_frame_def vnet_zero_bytes)

lemma store_Nil [simp]: "store m a [] = m"
  by (rule ext) (auto simp: store_def)

lemma tun_write_vnet_inplace_eq:
  assumes "vnet_ok w" "0 < len" "w_vnet w \<le> buf"
  shows "tun_write_vnet_inplace vhdr buf len w =
    write_frame 5 (inplace_hdr vhdr w @ load (w_mem w) buf len)
      (w\<lparr>w_mem := store (w_mem w) (buf - w_vnet w) (inplace_hdr vhdr w)\<rparr>)"
proof (cases "w_vnet w = 0")
  case True
  then show ?thesis using assms by (simp add: tun_write_vnet_inplace_def inplace_hdr_def)
next
  case False
  have h: "(case vhdr of Some v \<Rightarrow> take (w_vnet w) (vnet_bytes v) | None \<Rightarrow> replicate (w_vnet w) 0)
      = inplace_hdr vhdr w"
    using vnet_le [OF assms(1)] by (simp add: inplace_hdr_def vnet_zero_bytes split: option.split)
  have l: "load (store (w_mem w) (buf - w_vnet w) (inplace_hdr vhdr w)) (buf - w_vnet w) (w_vnet w + len)
      = inplace_hdr vhdr w @ load (w_mem w) buf len"
    using assms(3) length_inplace_hdr [OF assms(1)]
    by (simp add: load_append load_store_disjoint)
  show ?thesis using False assms l by (simp add: tun_write_vnet_inplace_def h Let_def)
qed

lemma tun_write_vnet_inplace_spec:
  assumes "vnet_ok w" "0 < len" "w_vnet w \<le> buf" "tun_write_vnet_inplace vhdr buf len w = (r, w')"
  shows "w_mem w' = store (w_mem w) (buf - w_vnet w) (inplace_hdr vhdr w)"
    "may_send (inplace_hdr vhdr w @ load (w_mem w) buf len) w r w'"
proof -
  note f = write_frame_spec [OF assms(4) [unfolded tun_write_vnet_inplace_eq [OF assms(1-3)]]]
  show "w_mem w' = store (w_mem w) (buf - w_vnet w) (inplace_hdr vhdr w)" using f by simp
  show "may_send (inplace_hdr vhdr w @ load (w_mem w) buf len) w r w'"
    using f unfolding may_send_def sent_def by simp
qed

lemma tun_write_vnet_inplace_accepted:
  assumes "vnet_ok w" "0 < len" "w_vnet w \<le> buf" "w_io w = []"
    and "frame = inplace_hdr vhdr w @ load (w_mem w) buf len"
  shows "tun_write_vnet_inplace vhdr buf len w = (int (length frame),
    w\<lparr>w_mem := store (w_mem w) (buf - w_vnet w) (inplace_hdr vhdr w), w_tx := w_tx w @ [frame]\<rparr>)"
  unfolding tun_write_vnet_inplace_eq [OF assms(1-3)] using assms(4,5) by (simp add: write_frame_ok)

end
