(* ===== verification/Checksum.thy ===== *)
theory Checksum
  imports Net_Types
begin

text \<open>
  The one's complement checksums of \<open>src/src/nat64.c\<close> (\<open>ip_checksum\<close>, \<open>ones_add\<close>,
  \<open>ip4_checksum\<close>, \<open>ip6_checksum\<close>, \<open>convert_cksum\<close>), the unrolled header checksum of
  \<open>src/src/tayga.h\<close> and the pseudo-header sums of \<open>src/src/gso.c\<close>. Each routine is shown to
  compute one abstract quantity: the representative \<open>oc\<close> of a sum modulo 65535.
\<close>

section \<open>The routines\<close>

text \<open>The carry-folding loop \<open>while (sum > 0xffff) sum = (sum & 0xffff) + (sum >> 16)\<close>.\<close>

lemma unat_and_ffff: "unat ((s :: 'a::len word) AND 0xffff) = unat s mod 65536"
proof -
  have "s AND 0xffff = take_bit 16 s"
    by (simp only: take_bit_eq_mask mask_eq_exp_minus_1) simp
  then have "unat (s AND 0xffff) = take_bit 16 (unat s)"
    by (simp only: unsigned_take_bit_eq)
  then show ?thesis by (simp only: take_bit_eq_mod) simp
qed

lemma unat_drop16: "unat (drop_bit 16 (s :: 'a::len word)) = unat s div 65536"
proof -
  have "unat (drop_bit 16 s) = drop_bit 16 (unat s)"
    by (rule unat_drop_bit_eq)
  then show ?thesis by (simp only: drop_bit_eq_div) simp
qed

lemma unat_ffff: "LENGTH('a::len) > 16 \<Longrightarrow> unat (0xffff :: 'a word) = 65535"
proof -
  assume "LENGTH('a) > 16"
  then have "(2::nat) ^ 16 \<le> 2 ^ LENGTH('a)" by (intro power_increasing) auto
  then show ?thesis by (simp add: unsigned_numeral take_bit_eq_mod)
qed

lemma unat_fold_step:
  "unat ((s AND 0xffff) + drop_bit 16 (s :: 'a::len word)) = unat s mod 65536 + unat s div 65536"
proof -
  have "unat s = 65536 * (unat s div 65536) + unat s mod 65536" by simp
  then have "unat s mod 65536 + unat s div 65536 \<le> unat s" by linarith
  also have "\<dots> < 2 ^ LENGTH('a)" by (rule unsigned_less)
  finally show ?thesis by (simp add: unat_word_ariths unat_and_ffff unat_drop16)
qed

lemma fold_step_less:
  assumes "LENGTH('a::len) > 16" "0xffff < (s :: 'a word)"
  shows "unat ((s AND 0xffff) + drop_bit 16 s) < unat s"
proof -
  have "unat (0xffff :: 'a word) < unat s" using assms(2) by (simp only: word_less_nat_alt)
  with assms(1) have "65535 < unat s" by (simp only: unat_ffff)
  moreover have "unat s = 65536 * (unat s div 65536) + unat s mod 65536" by simp
  ultimately show ?thesis unfolding unat_fold_step by linarith
qed

function fold16 :: "'a::len word \<Rightarrow> 'a word" where
  "fold16 s = (if LENGTH('a) > 16 \<and> 0xffff < s then fold16 ((s AND 0xffff) + drop_bit 16 s) else s)"
  by pat_completeness auto
termination
  by (relation "measure unat") (simp, simp only: in_measure fold_step_less)

declare fold16.simps [simp del]

text \<open>
  The representative a folded one's complement sum has: 0 only for the empty sum, else the
  value in 1..65535 congruent to it modulo 65535.
\<close>

definition oc :: "nat \<Rightarrow> nat" where
  "oc n = (if n = 0 then 0 else (n - 1) mod 65535 + 1)"

lemma oc_le: "oc n \<le> 65535"
proof -
  have "(n - 1) mod 65535 \<le> 65534" using mod_less_divisor [of 65535 "n - 1"] by linarith
  then show ?thesis by (simp add: oc_def)
qed

lemma oc_mod: "oc n mod 65535 = n mod 65535"
proof (cases n)
  case 0
  then show ?thesis by (simp add: oc_def)
next
  case (Suc k)
  then show ?thesis by (simp add: oc_def mod_Suc_eq)
qed

lemma oc_id: "n \<le> 65535 \<Longrightarrow> oc n = n"
  by (cases n) (simp_all add: oc_def)

lemma oc_0 [simp]: "oc 0 = 0"
  by (simp add: oc_def)

lemma oc_eq_0_iff [simp]: "oc n = 0 \<longleftrightarrow> n = 0"
  by (simp add: oc_def)

lemma oc_eqI: "m mod 65535 = n mod 65535 \<Longrightarrow> m = 0 \<longleftrightarrow> n = 0 \<Longrightarrow> oc m = oc n"
proof (cases m; cases n)
  fix a b
  assume h: "m mod 65535 = n mod 65535" "m = Suc a" "n = Suc b"
  then have "(a + 1 + 65534) mod 65535 = (b + 1 + 65534) mod 65535"
    by (metis Suc_eq_plus1 mod_add_left_eq)
  then have "a mod 65535 = b mod 65535" by simp
  with h show ?thesis by (simp add: oc_def)
qed auto

lemma oc_eq_iff_bounded:
  "r \<le> 65535 \<Longrightarrow> r mod 65535 = n mod 65535 \<Longrightarrow> r = 0 \<longleftrightarrow> n = 0 \<Longrightarrow> r = oc n"
  by (metis oc_eqI oc_id)

lemma oc_fold: "oc (n mod 65536 + n div 65536) = oc n"
proof (rule oc_eqI)
  have "n = (n mod 65536 + n div 65536) + 65535 * (n div 65536)"
    using mod_mult_div_eq [of n 65536] by linarith
  then show "(n mod 65536 + n div 65536) mod 65535 = n mod 65535"
    by (metis mod_mult_self2)
next
  show "(n mod 65536 + n div 65536 = 0) = (n = 0)" by auto
qed

lemma oc_add_left: "a \<le> 65535 \<Longrightarrow> oc (oc a + b) = oc (a + b)"
  by (simp add: oc_id)

lemma oc_add_oc [simp]: "oc (oc a + b) = oc (a + b)" "oc (b + oc a) = oc (b + a)"
  by (rule oc_eqI; (auto simp: mod_add_left_eq mod_add_right_eq oc_mod
      intro: mod_add_cong)[1])+

lemma unat_fold16:
  "LENGTH('a::len) > 16 \<Longrightarrow> unat (fold16 (s :: 'a word)) = oc (unat s)"
proof (induction s rule: fold16.induct)
  case (1 s)
  show ?case
  proof (cases "0xffff < s")
    case True
    with 1 have "unat (fold16 ((s AND 0xffff) + drop_bit 16 s)) = oc (unat ((s AND 0xffff) + drop_bit 16 s))"
      by simp
    with True 1(2) show ?thesis
      by (simp only: fold16.simps [of s] unat_fold_step oc_fold) simp
  next
    case False
    then have "unat s \<le> unat (0xffff :: 'a word)" by (simp only: word_less_nat_alt not_less)
    then have "unat s \<le> 65535" using 1(2) by (simp only: unat_ffff)
    with False show ?thesis by (simp add: fold16.simps [of s] oc_id)
  qed
qed

text \<open>
  \<open>ip_checksum\<close>: eight bytes at a time with end-around carry in 64 bits, two folds to 32 bits,
  the tail of four, two and one byte, and the final folding loop. \<open>csum8\<close> is the first loop.
\<close>

function csum8 :: "u64 \<Rightarrow> u8 list \<Rightarrow> u64 \<times> u8 list" where
  "csum8 acc bs =
     (if 8 \<le> length bs then
        (let word = le_word (take 8 bs); s = acc + word; s' = (if s < word then s + 1 else s)
         in csum8 s' (drop 8 bs))
      else (acc, bs))"
  by pat_completeness auto
termination
  by (relation "measure (\<lambda>(s, bs). length bs)") auto

declare csum8.simps [simp del]

definition fold32 :: "u64 \<Rightarrow> u64" where
  "fold32 s = (s AND 0xffffffff) + drop_bit 32 s"

definition ip_checksum :: "u8 list \<Rightarrow> u16" where
  "ip_checksum d =
     (let (sum, p) = csum8 0xffff d;
          sum = fold32 sum;
          sum = fold32 sum;
          (sum, p) = (if 4 \<le> length p then (sum + le_word (take 4 p), drop 4 p) else (sum, p));
          (sum, p) = (if 2 \<le> length p then (sum + le_word (take 2 p), drop 2 p) else (sum, p));
          sum = (case p of [] \<Rightarrow> sum | b # _ \<Rightarrow> sum + ucast b);
          sum = fold16 sum
      in ucast (NOT sum))"

definition ones_add :: "u16 \<Rightarrow> u16 \<Rightarrow> u16" where
  "ones_add a b = (let sum = ucast (NOT a) + ucast (NOT b) :: u32
     in ucast (NOT ((sum AND 0xffff) + drop_bit 16 sum)))"

text \<open>The two 16-bit halves a \<open>uint16_t\<close> pointer walks over in a 32-bit field.\<close>

definition lo16 :: "u32 \<Rightarrow> u32" where "lo16 w = w AND 0xffff"
definition hi16 :: "u32 \<Rightarrow> u32" where "hi16 w = drop_bit 16 w"

definition halves :: "u32 list \<Rightarrow> u32" where
  "halves ws = sum_list (map (\<lambda>w. lo16 w + hi16 w) ws)"

definition ip4_checksum :: "ip4 \<Rightarrow> u32 \<Rightarrow> u8 \<Rightarrow> u16" where
  "ip4_checksum h data_len proto =
     (let sum = halves [i4_src h, i4_dest h];
          sum = sum + drop_bit 16 (htonl data_len);
          sum = sum + (htonl data_len AND 0xffff);
          sum = sum + ucast (htons (ucast proto));
          sum = fold16 sum
      in ucast (NOT sum))"

definition ip6_checksum :: "ip6 \<Rightarrow> u32 \<Rightarrow> u8 \<Rightarrow> u16" where
  "ip6_checksum h data_len proto =
     (let sum = halves (in6_words (i6_src h) @ in6_words (i6_dest h));
          sum = sum + drop_bit 16 (htonl data_len);
          sum = sum + (htonl data_len AND 0xffff);
          sum = sum + ucast (htons (ucast proto));
          sum = fold16 sum
      in ucast (NOT sum))"

definition convert_cksum :: "ip6 \<Rightarrow> ip4 \<Rightarrow> u16" where
  "convert_cksum h6 h4 =
     (let sum = sum_list (map ucast ([NOT (i4_src h4), NOT (i4_dest h4)]
            @ in6_words (i6_src h6) @ in6_words (i6_dest h6))) :: u64;
          sum = (if sum > 0xffffffff then (sum AND 0xffffffff) + drop_bit 32 sum else sum);
          sum = (if sum > 0xffff then (sum AND 0xffff) + drop_bit 16 sum else sum);
          sum = (if sum > 0xffff then (sum AND 0xffff) + drop_bit 16 sum else sum)
      in ucast sum)"

definition ip4_header_checksum :: "ip4 \<Rightarrow> u16" where
  "ip4_header_checksum h =
     (let bs = ip4_bytes h;
          w = (\<lambda>i. ucast (le_word (take 4 (drop (4 * i) bs)) :: u32) :: u64);
          sum = w 0 + w 1 + w 2 + w 3 + w 4;
          sum = (sum AND 0xffffffff) + drop_bit 32 sum;
          sum = (sum AND 0xffff) + drop_bit 16 sum;
          sum = (sum AND 0xffff) + drop_bit 16 sum
      in ucast (NOT sum))"

text \<open>The pseudo-header sums of \<open>gso.c\<close>, in host byte order and not complemented.\<close>

definition be_halves :: "u32 \<Rightarrow> u32" where
  "be_halves w = ucast (ntohs (ucast w)) + ucast (ntohs (ucast (drop_bit 16 w)))"

definition gso_calc_pseudo4 :: "in_addr \<Rightarrow> in_addr \<Rightarrow> u8 \<Rightarrow> u32 \<Rightarrow> u16" where
  "gso_calc_pseudo4 src4 dst4 proto len =
     (let sum = be_halves src4 + be_halves dst4 + ucast proto + (len AND 0xffff)
      in ucast (fold16 sum))"

definition gso_calc_pseudo6 :: "in6_addr \<Rightarrow> in6_addr \<Rightarrow> u8 \<Rightarrow> u32 \<Rightarrow> u16" where
  "gso_calc_pseudo6 src6 dst6 proto len =
     (let sum = sum_list (map be_halves (in6_words src6 @ in6_words dst6))
            + drop_bit 16 len + (len AND 0xffff) + ucast proto
      in ucast (fold16 sum))"

definition gso_calc_tcp_pseudo4 :: "in_addr \<Rightarrow> in_addr \<Rightarrow> u32 \<Rightarrow> u16" where
  "gso_calc_tcp_pseudo4 src4 dst4 tcp_len = gso_calc_pseudo4 src4 dst4 IPPROTO_TCP tcp_len"

definition gso_calc_tcp_pseudo6 :: "in6_addr \<Rightarrow> in6_addr \<Rightarrow> u32 \<Rightarrow> u16" where
  "gso_calc_tcp_pseudo6 src6 dst6 tcp_len = gso_calc_pseudo6 src6 dst6 IPPROTO_TCP tcp_len"

definition gso_calc_udp_pseudo4 :: "in_addr \<Rightarrow> in_addr \<Rightarrow> u32 \<Rightarrow> u16" where
  "gso_calc_udp_pseudo4 src4 dst4 udp_len = gso_calc_pseudo4 src4 dst4 IPPROTO_UDP udp_len"

definition gso_calc_udp_pseudo6 :: "in6_addr \<Rightarrow> in6_addr \<Rightarrow> u32 \<Rightarrow> u16" where
  "gso_calc_udp_pseudo6 src6 dst6 udp_len = gso_calc_pseudo6 src6 dst6 IPPROTO_UDP udp_len"

section \<open>What the routines compute\<close>

text \<open>The sum of the 16-bit words of a byte string, the last one padded with a zero byte.\<close>

fun sum16 :: "u8 list \<Rightarrow> nat" where
  "sum16 [] = 0"
| "sum16 [b] = unat b"
| "sum16 (a # b # bs) = unat a + 256 * unat b + sum16 bs"

text \<open>The reference checksum (RFC 1071): the complement of the folded 16-bit sum.\<close>

definition ref_checksum :: "u8 list \<Rightarrow> u16" where
  "ref_checksum bs = NOT (word_of_nat (oc (65535 + sum16 bs)))"

text \<open>The sum a checksum field stands for.\<close>

definition csv :: "u16 \<Rightarrow> nat" where
  "csv c = unat (NOT c)"

lemma csv_alt: "csv c = 65535 - unat c"
  by (simp add: csv_def unat_not_u16)

lemma csv_le: "csv c \<le> 65535"
  by (simp add: csv_alt)

lemma csv_inject: "csv c = csv d \<longleftrightarrow> c = d"
  by (simp add: csv_def word_unat_eq_iff [symmetric])

lemma csv_not [simp]: "csv (NOT c) = unat c"
  by (simp add: csv_def)

lemma csv_add_mod: "(csv c + unat c) mod 65535 = 0"
  using unat_u16_le [of c] by (simp add: csv_alt)

lemma sum16_append:
  "even (length xs) \<Longrightarrow> sum16 (xs @ ys) = sum16 xs + sum16 ys"
  by (induction xs rule: sum16.induct) auto

lemma sum16_le_val: "sum16 bs mod 65535 = le_val bs mod 65535"
proof (induction bs rule: sum16.induct)
  case (3 a b bs)
  have "le_val (a # b # bs) = unat a + 256 * unat b + le_val bs + 65535 * le_val bs" by simp
  then have "le_val (a # b # bs) mod 65535 = (unat a + 256 * unat b + le_val bs) mod 65535"
    by (metis mod_mult_self2)
  with 3 show ?case by (metis mod_add_right_eq sum16.simps(3))
qed simp_all

lemma unat_ucast_not:
  "LENGTH('a::len) \<ge> 16 \<Longrightarrow> unat (s :: 'a word) \<le> 65535 \<Longrightarrow> csv (ucast (NOT s)) = unat s"
proof -
  assume a: "LENGTH('a) \<ge> 16" "unat s \<le> 65535"
  have "NOT (ucast (NOT s) :: u16) = ucast s"
    using a(1) by (intro bit_word_eqI) (auto simp: bit_not_iff bit_ucast_iff)
  then have "csv (ucast (NOT s)) = unat (ucast s :: u16)" by (simp add: csv_def)
  also have "\<dots> = unat s" using a(2) by (simp add: unsigned_ucast_eq take_bit_eq_mod)
  finally show ?thesis .
qed

lemma mod_65535_pow: "(a + k * 65535) mod 65535 = a mod (65535 :: nat)"
  by simp

lemma mod_add_mid:
  "x mod n = y mod n \<Longrightarrow> (a + x + z) mod n = (a + (y + z)) mod (n :: nat)"
  unfolding add.assoc by (intro mod_add_cong refl)

lemma carry_step:
  fixes acc word :: u64
  defines "s \<equiv> acc + word"
  defines "s' \<equiv> (if s < word then s + 1 else s)"
  shows "unat s' mod 65535 = (unat acc + unat word) mod 65535" and "0 < unat acc \<Longrightarrow> 0 < unat s'"
proof -
  let ?M = "18446744073709551616 :: nat"
  have b: "unat acc < ?M" "unat word < ?M"
    using unsigned_less [of acc] unsigned_less [of word] by simp_all
  have s: "unat s = (unat acc + unat word) mod ?M"
    unfolding s_def by (simp add: unat_word_ariths)
  have "unat s' = unat acc + unat word
      \<or> unat s' + 281479271743489 * 65535 = unat acc + unat word \<and> 0 < unat s'"
  proof (cases "unat acc + unat word < ?M")
    case True
    then have u: "unat s = unat acc + unat word" using s by simp
    then have "\<not> s < word" by (simp add: word_less_nat_alt)
    then show ?thesis using u by (simp add: s'_def)
  next
    case False
    then have "unat s = (unat acc + unat word - ?M) mod ?M"
      using s by (simp only: le_mod_geq not_less)
    also have "\<dots> = unat acc + unat word - ?M"
      using b by (intro mod_less) linarith
    finally have u: "unat s + ?M = unat acc + unat word"
      using False by linarith
    then have l: "s < word" using b by (simp add: word_less_nat_alt)
    have "unat (s + 1) = unat s + 1"
      using u b by (simp add: unat_word_ariths)
    with l u show ?thesis by (simp add: s'_def)
  qed
  note split = this
  show "unat s' mod 65535 = (unat acc + unat word) mod 65535"
    using split by (metis mod_65535_pow)
  show "0 < unat acc \<Longrightarrow> 0 < unat s'"
    using split by auto
qed

lemma csum8_spec:
  "csum8 acc bs = (s, r) \<Longrightarrow>
     (unat s + sum16 r) mod 65535 = (unat acc + sum16 bs) mod 65535 \<and> length r < 8
     \<and> (0 < unat acc \<longrightarrow> 0 < unat s)"
proof (induction acc bs arbitrary: s r rule: csum8.induct)
  case (1 acc bs)
  show ?case
  proof (cases "8 \<le> length bs")
    case True
    let ?w = "le_word (take 8 bs) :: u64"
    let ?s = "if acc + ?w < ?w then acc + ?w + 1 else acc + ?w"
    have "csum8 ?s (drop 8 bs) = (s, r)"
      using 1(2) True by (simp add: csum8.simps [of acc bs] Let_def)
    then have ih: "(unat s + sum16 r) mod 65535 = (unat ?s + sum16 (drop 8 bs)) mod 65535"
      and l: "length r < 8" "0 < unat ?s \<Longrightarrow> 0 < unat s"
      using 1(1) [OF True refl refl refl] by auto
    have w: "unat ?w = le_val (take 8 bs)"
      using True by (simp add: unat_le_word_small)
    have "sum16 bs = sum16 (take 8 bs) + sum16 (drop 8 bs)"
      using sum16_append [of "take 8 bs" "drop 8 bs"] True by simp
    moreover have "unat ?s mod 65535 = (unat acc + unat ?w) mod 65535"
      by (rule carry_step)
    moreover have "unat ?w mod 65535 = sum16 (take 8 bs) mod 65535"
      by (simp only: w sum16_le_val)
    ultimately have "(unat ?s + sum16 (drop 8 bs)) mod 65535 = (unat acc + sum16 bs) mod 65535"
      by (metis (no_types, lifting) add.assoc mod_add_left_eq mod_add_right_eq)
    then show ?thesis using ih l carry_step(2) [of acc ?w] by auto
  next
    case False
    then show ?thesis using 1(2) by (simp add: csum8.simps [of acc bs])
  qed
qed

lemma unat_and_ffffffff: "unat ((s :: u64) AND 0xffffffff) = unat s mod 4294967296"
proof -
  have "s AND 0xffffffff = take_bit 32 s"
    by (simp only: take_bit_eq_mask mask_eq_exp_minus_1) simp
  then have "unat (s AND 0xffffffff) = take_bit 32 (unat s)"
    by (simp only: unsigned_take_bit_eq)
  then show ?thesis by (simp only: take_bit_eq_mod) simp
qed

lemma unat_drop32: "unat (drop_bit 32 (s :: u64)) = unat s div 4294967296"
proof -
  have "unat (drop_bit 32 s) = drop_bit 32 (unat s)"
    by (rule unat_drop_bit_eq)
  then show ?thesis by (simp only: drop_bit_eq_div) simp
qed

lemma unat_fold32: "unat (fold32 s) = unat s mod 4294967296 + unat s div 4294967296"
proof -
  have "unat s < 18446744073709551616" using unsigned_less [of s] by simp
  then have "unat s mod 4294967296 + unat s div 4294967296 < 18446744073709551616" by linarith
  then show ?thesis
    by (simp add: fold32_def unat_word_ariths unat_and_ffffffff unat_drop32)
qed

lemma fold32_mod: "unat (fold32 s) mod 65535 = unat s mod 65535"
proof -
  have "unat s = unat (fold32 s) + (unat s div 4294967296 * 65537) * 65535"
    unfolding unat_fold32 using mod_mult_div_eq [of "unat s" 4294967296] by linarith
  then show ?thesis by (metis mod_65535_pow)
qed

lemma fold32_pos: "0 < unat s \<Longrightarrow> 0 < unat (fold32 s)"
  unfolding unat_fold32 using mod_mult_div_eq [of "unat s" 4294967296] by linarith

lemma fold32_twice_le: "unat (fold32 (fold32 s)) \<le> 4294967296"
proof -
  have "unat s < 18446744073709551616" using unsigned_less [of s] by simp
  then have "unat (fold32 s) \<le> 8589934590" unfolding unat_fold32 by linarith
  then show ?thesis unfolding unat_fold32 [of "fold32 s"] by linarith
qed

lemma ip_checksum_csv: "csv (ip_checksum bs) = oc (65535 + sum16 bs)"
proof -
  obtain s r where c: "csum8 0xffff bs = (s, r)" by (cases "csum8 0xffff bs")
  have spec: "(unat s + sum16 r) mod 65535 = (65535 + sum16 bs) mod 65535" "length r < 8" "0 < unat s"
    using csum8_spec [OF c] by simp_all
  define t where "t = fold32 (fold32 s)"
  have t: "unat t mod 65535 = unat s mod 65535" "0 < unat t" "unat t \<le> 4294967296"
    using spec(3) by (simp_all only: t_def fold32_mod fold32_pos fold32_twice_le)
  have small: "unat (le_word q :: u64) = le_val q" if "length q \<le> 8" for q
    using that by (simp add: unat_le_word_small)
  have add: "unat (x + y) = unat x + unat y" if "unat x < 2 ^ 63" "unat y < 2 ^ 63" for x y :: u64
    using that by (simp add: unat_word_ariths)
  define a where "a = (if 4 \<le> length r then t + le_word (take 4 r) else t)"
  define ra where "ra = (if 4 \<le> length r then drop 4 r else r)"
  have lv4: "le_val (take 4 r) < 4294967296"
    using le_val_take_less [of 4 r] by simp
  have a: "unat a = unat t + (if 4 \<le> length r then le_val (take 4 r) else 0)"
    using t(3) lv4 by (simp add: a_def add small)
  have a_le: "unat a < 8589934593" using a t(3) lv4 by (simp split: if_splits)
  have sa: "(unat a + sum16 ra) mod 65535 = (unat t + sum16 r) mod 65535"
  proof (cases "4 \<le> length r")
    case True
    have "sum16 r = sum16 (take 4 r) + sum16 ra"
      using sum16_append [of "take 4 r" "drop 4 r"] True by (simp add: ra_def)
    then show ?thesis
      using a True by (simp only: if_True mod_add_mid [OF sum16_le_val [symmetric]])
  qed (simp add: a ra_def)
  have la: "length ra < 4" using spec(2) by (auto simp: ra_def)
  define b where "b = (if 2 \<le> length ra then a + le_word (take 2 ra) else a)"
  define rb where "rb = (if 2 \<le> length ra then drop 2 ra else ra)"
  have lv2: "le_val (take 2 ra) < 65536"
    using le_val_take_less [of 2 ra] by simp
  have b: "unat b = unat a + (if 2 \<le> length ra then le_val (take 2 ra) else 0)"
    using a_le lv2 by (simp add: b_def add small)
  have b_le: "unat b < 8590000129" using b a_le lv2 by (simp split: if_splits)
  have sb: "(unat b + sum16 rb) mod 65535 = (unat a + sum16 ra) mod 65535"
  proof (cases "2 \<le> length ra")
    case True
    have "sum16 ra = sum16 (take 2 ra) + sum16 rb"
      using sum16_append [of "take 2 ra" "drop 2 ra"] True by (simp add: rb_def)
    then show ?thesis
      using b True by (simp only: if_True mod_add_mid [OF sum16_le_val [symmetric]])
  qed (simp add: b rb_def)
  have lb: "length rb < 2" using la by (auto simp: rb_def)
  define d where "d = (case rb of [] \<Rightarrow> b | x # _ \<Rightarrow> b + ucast x)"
  have d: "unat d = unat b + sum16 rb"
  proof (cases rb)
    case Nil
    then show ?thesis by (simp add: d_def)
  next
    case (Cons x xs)
    then have "rb = [x]" using lb by simp
    then show ?thesis using b_le unat_u8_less [of x] Cons by (simp add: d_def add)
  qed
  have res: "ip_checksum bs = ucast (NOT (fold16 d))"
    unfolding d_def b_def a_def t_def rb_def ra_def by (simp add: ip_checksum_def c Let_def)
  have "unat (fold16 d) = oc (unat d)" by (simp add: unat_fold16)
  moreover have "oc (unat d) = oc (65535 + sum16 bs)"
  proof (rule oc_eqI)
    have "unat d mod 65535 = (unat t + sum16 r) mod 65535" using d sb sa by simp
    also have "\<dots> = (unat s + sum16 r) mod 65535" using t(1) by (metis mod_add_left_eq)
    finally show "unat d mod 65535 = (65535 + sum16 bs) mod 65535" using spec(1) by simp
    show "(unat d = 0) = (65535 + sum16 bs = 0)" using d b a t(2) by simp
  qed
  ultimately have "unat (fold16 d) = oc (65535 + sum16 bs)" by simp
  then show ?thesis
    unfolding res by (simp add: unat_ucast_not oc_le)
qed

text \<open>C35. The unrolled checksum loop computes the RFC 1071 checksum of any byte string.\<close>

theorem ip_checksum_eq_ref: "ip_checksum bs = ref_checksum bs"
proof -
  have "unat (word_of_nat (oc (65535 + sum16 bs)) :: u16) = oc (65535 + sum16 bs)"
    using oc_le [of "65535 + sum16 bs"] by (simp add: unsigned_of_nat take_bit_eq_mod)
  then have "csv (ref_checksum bs) = oc (65535 + sum16 bs)"
    by (simp add: ref_checksum_def csv_def)
  then show ?thesis using ip_checksum_csv by (metis csv_inject)
qed

lemma oc_eq_65535_iff: "oc (65535 + n) = 65535 \<longleftrightarrow> n mod 65535 = 0"
proof
  assume "oc (65535 + n) = 65535"
  then have "65535 mod 65535 = (65535 + n) mod 65535" by (metis oc_mod)
  then show "n mod 65535 = 0" by simp
next
  assume "n mod 65535 = 0"
  then have "65535 = oc (65535 + n)"
    by (intro oc_eq_iff_bounded) simp_all
  then show "oc (65535 + n) = 65535" by simp
qed

lemma ip_checksum_0_iff: "ip_checksum bs = 0 \<longleftrightarrow> sum16 bs mod 65535 = 0"
proof -
  have c0: "csv 0 = 65535" by (simp add: csv_alt)
  have "ip_checksum bs = 0 \<longleftrightarrow> csv (ip_checksum bs) = csv 0" by (simp only: csv_inject)
  also have "\<dots> \<longleftrightarrow> oc (65535 + sum16 bs) = 65535" by (simp only: ip_checksum_csv c0)
  finally show ?thesis by (simp only: oc_eq_65535_iff)
qed

lemma fold_once: "n \<le> 131070 \<Longrightarrow> n mod 65536 + n div 65536 = oc n"
proof -
  assume n: "n \<le> 131070"
  have "n mod 65536 + n div 65536 \<le> 65535"
  proof (cases "n < 65536")
    case False
    then have "n mod 65536 = n - 65536" "n div 65536 = 1"
      using n by (simp_all add: le_mod_geq le_div_geq)
    then show ?thesis using n by linarith
  qed simp
  then show ?thesis by (metis oc_fold oc_id)
qed

lemma ones_add_csv: "csv (ones_add a b) = oc (csv a + csv b)"
proof -
  define s where "s = (ucast (NOT a) + ucast (NOT b) :: u32)"
  have s: "unat s = csv a + csv b"
    using csv_le [of a] csv_le [of b]
    by (simp add: s_def csv_def unat_word_ariths)
  let ?f = "(s AND 0xffff) + drop_bit 16 s"
  have f: "unat ?f = oc (csv a + csv b)"
    using csv_le [of a] csv_le [of b] by (simp only: unat_fold_step s fold_once)
  have "ones_add a b = ucast (NOT ?f)" by (simp only: ones_add_def Let_def s_def)
  then show ?thesis by (simp add: unat_ucast_not f oc_le)
qed

text \<open>The 16-bit halves of a 32-bit field, and the pseudo-header sums as naturals.\<close>

definition hsum :: "u32 \<Rightarrow> nat" where
  "hsum w = unat w mod 65536 + unat w div 65536"

definition pseudo4 :: "in_addr \<Rightarrow> in_addr \<Rightarrow> u32 \<Rightarrow> u8 \<Rightarrow> nat" where
  "pseudo4 src dest len proto =
     hsum src + hsum dest + hsum (htonl len) + unat (htons (ucast proto))"

definition pseudo6 :: "in6_addr \<Rightarrow> in6_addr \<Rightarrow> u32 \<Rightarrow> u8 \<Rightarrow> nat" where
  "pseudo6 src dest len proto =
     sum_list (map hsum (in6_words src @ in6_words dest)) + hsum (htonl len)
     + unat (htons (ucast proto))"

lemma hsum_le: "hsum w \<le> 131070"
  using unat_u32_less [of w] unfolding hsum_def by linarith

lemma hsum_mod: "hsum w mod 65535 = unat w mod 65535"
proof -
  have "unat w = hsum w + (unat w div 65536) * 65535"
    unfolding hsum_def using mod_mult_div_eq [of "unat w" 65536] by linarith
  then show ?thesis by (metis mod_65535_pow)
qed

lemma unat_lo_hi: "unat (lo16 w + hi16 w) = hsum w"
  by (simp only: lo16_def hi16_def unat_fold_step hsum_def)

lemma unat_sum_list_small:
  "sum_list (map unat ws) < 2 ^ LENGTH('a) \<Longrightarrow> unat (sum_list ws :: 'a::len word) = sum_list (map unat ws)"
proof (induction ws)
  case (Cons w ws)
  then have "unat (sum_list ws) = sum_list (map unat ws)" by simp
  with Cons show ?case by (simp add: unat_word_ariths)
qed simp

lemma sum_list_hsum_le: "sum_list (map hsum ws) \<le> 131070 * length ws"
proof (induction ws)
  case (Cons w ws)
  then show ?case using hsum_le [of w] by simp
qed simp

lemma unat_halves:
  assumes "length ws \<le> 16"
  shows "unat (halves ws) = sum_list (map hsum ws)"
proof -
  have "sum_list (map hsum ws) \<le> 131070 * 16"
    using sum_list_hsum_le [of ws] assms by linarith
  then show ?thesis
    unfolding halves_def by (subst unat_sum_list_small) (simp_all add: comp_def unat_lo_hi)
qed

lemma pseudo_tail:
  assumes "length ws \<le> 16"
  shows "csv (ucast (NOT (fold16 (halves ws + drop_bit 16 (htonl len) + (htonl len AND 0xffff)
           + ucast (htons (ucast (proto :: u8)))))))
         = oc (sum_list (map hsum ws) + hsum (htonl len) + unat (htons (ucast proto)))"
proof -
  let ?t = "drop_bit 16 (htonl len)" and ?l = "htonl len AND 0xffff"
  let ?p = "ucast (htons (ucast proto)) :: u32"
  have b: "unat (halves ws) \<le> 2097120"
    using sum_list_hsum_le [of ws] assms by (simp add: unat_halves)
  have t: "unat ?t < 65536" "unat ?l < 65536"
    using unat_u32_less [of "htonl len"] unfolding unat_drop16 unat_and_ffff by linarith+
  have p: "unat ?p = unat (htons (ucast proto))" by simp
  have q: "unat (htons (ucast proto)) < 65536" by (rule unat_u16_less)
  have "unat (halves ws + ?t + ?l + ?p) = unat (halves ws) + unat ?t + unat ?l + unat ?p"
    using b t p q by (simp add: unat_word_ariths)
  then have "unat (halves ws + ?t + ?l + ?p)
      = sum_list (map hsum ws) + hsum (htonl len) + unat (htons (ucast proto))"
    using assms by (simp add: unat_halves hsum_def unat_drop16 unat_and_ffff p)
  then show ?thesis by (simp add: unat_ucast_not unat_fold16 oc_le)
qed

lemma ip4_checksum_csv:
  "csv (ip4_checksum h len proto) = oc (pseudo4 (i4_src h) (i4_dest h) len proto)"
  by (simp add: ip4_checksum_def Let_def pseudo_tail pseudo4_def)

lemma ip6_checksum_csv:
  "csv (ip6_checksum h len proto) = oc (pseudo6 (i6_src h) (i6_dest h) len proto)"
  unfolding ip6_checksum_def Let_def pseudo6_def
  by (rule pseudo_tail) (simp add: in6_words_def)

text \<open>\<open>convert_cksum\<close>: three conditional folds are enough to reach 16 bits.\<close>

lemma fold32_if_le:
  fixes s :: u64
  assumes "unat s \<le> 42949672950"
  defines "s1 \<equiv> (if s > 0xffffffff then (s AND 0xffffffff) + drop_bit 32 s else s)"
  shows "unat s1 \<le> 4294967304" and "unat s1 mod 65535 = unat s mod 65535"
    and "unat s1 = 0 \<longleftrightarrow> unat s = 0"
proof -
  have r: "s1 = (if s > 0xffffffff then fold32 s else s)" by (simp add: s1_def fold32_def)
  have g: "s > 0xffffffff \<longleftrightarrow> 4294967295 < unat s" by (simp add: word_less_nat_alt)
  show "unat s1 \<le> 4294967304"
  proof (cases "s > 0xffffffff")
    case True
    have "unat s mod 4294967296 \<le> 4294967295"
      using mod_less_divisor [of 4294967296 "unat s"] by linarith
    moreover have "unat s div 4294967296 \<le> 9" using assms(1) by linarith
    ultimately show ?thesis using True by (simp add: r unat_fold32)
  next
    case False
    then show ?thesis unfolding r g by simp
  qed
  show "unat s1 mod 65535 = unat s mod 65535" by (simp add: r fold32_mod)
  show "unat s1 = 0 \<longleftrightarrow> unat s = 0"
    using fold32_pos [of s] unfolding r g by (auto simp: unat_fold32)
qed

lemma fold_bound: "n \<le> 4294967304 \<Longrightarrow> n mod 65536 + n div 65536 \<le> (131070 :: nat)"
proof (cases "n < 4294967296")
  case True
  then have "n div 65536 \<le> 65535" by linarith
  then show ?thesis using mod_less_divisor [of 65536 n] by linarith
next
  case False
  assume "n \<le> 4294967304"
  moreover define k where "k = n - 4294967296"
  ultimately have k: "n = 65536 * 65536 + k" "k \<le> 8" using False by (simp_all add: k_def)
  have "n mod 65536 = k mod 65536" unfolding k(1) by (rule mod_mult_self3)
  then have "n mod 65536 = k" using k(2) by simp
  moreover have "n div 65536 = 65536" using k by linarith
  ultimately show ?thesis using k(2) by linarith
qed

lemma fold16_if:
  defines "f \<equiv> (\<lambda>s :: u64. if s > 0xffff then (s AND 0xffff) + drop_bit 16 s else s)"
  assumes "unat s \<le> 4294967304"
  shows "unat (f (f s)) = oc (unat s)"
proof -
  have g: "(x :: u64) > 0xffff \<longleftrightarrow> 65535 < unat x" for x by (simp add: word_less_nat_alt)
  have fv: "unat (f x) = (if 65535 < unat x then unat x mod 65536 + unat x div 65536 else unat x)" for x
    by (simp add: f_def g unat_fold_step)
  have fo: "oc (unat (f x)) = oc (unat x)" for x
    by (simp add: fv oc_fold)
  have "unat (f s) \<le> 131070"
    unfolding fv using fold_bound [OF assms(2)] by auto
  then have "unat (f (f s)) = oc (unat (f s))"
    unfolding fv [of "f s"] by (simp add: fold_once oc_id)
  then show ?thesis by (simp only: fo)
qed

lemma sum_list_bound:
  "(\<And>x. x \<in> set xs \<Longrightarrow> x \<le> b) \<Longrightarrow> sum_list xs \<le> b * length (xs :: nat list)"
  by (induction xs) (simp_all add: add_mono)

lemma convert_cksum_value:
  "unat (convert_cksum h6 h4) =
     oc (unat (NOT (i4_src h4)) + unat (NOT (i4_dest h4))
       + sum_list (map unat (in6_words (i6_src h6) @ in6_words (i6_dest h6))))"
proof -
  let ?ws = "[NOT (i4_src h4), NOT (i4_dest h4)] @ in6_words (i6_src h6) @ in6_words (i6_dest h6)"
  let ?s = "sum_list (map ucast ?ws) :: u64"
  have le: "unat w \<le> 4294967295" for w :: u32 using unat_u32_less [of w] by linarith
  have b: "sum_list (map unat ?ws) \<le> 4294967295 * length (map unat ?ws)"
    by (rule sum_list_bound) (auto simp: le)
  have l: "length (map unat ?ws) = 10" by (simp add: in6_words_def)
  have m: "map unat (map ucast ?ws :: u64 list) = map unat ?ws" by simp
  have s: "unat ?s = sum_list (map unat ?ws)"
  proof -
    have "sum_list (map unat (map ucast ?ws :: u64 list)) < 2 ^ LENGTH(64)"
      unfolding m using b unfolding l by simp
    then have "unat ?s = sum_list (map unat (map ucast ?ws :: u64 list))"
      by (rule unat_sum_list_small)
    then show ?thesis unfolding m .
  qed
  have "unat ?s \<le> 42949672950" using b l s by simp
  note f = fold32_if_le [OF this]
  let ?s1 = "if ?s > 0xffffffff then (?s AND 0xffffffff) + drop_bit 32 ?s else ?s"
  have "unat (convert_cksum h6 h4) = oc (unat ?s1)"
    unfolding convert_cksum_def Let_def
    using fold16_if [OF f(1)] oc_le [of "unat ?s1"]
    by (simp only: unsigned_ucast_eq take_bit_eq_mod) simp
  also have "\<dots> = oc (unat ?s)" using f(2,3) by (rule oc_eqI)
  finally show ?thesis unfolding s by (simp add: add.assoc)
qed

end
