(* ===== verification/Checksum_Laws.thy ===== *)
theory Checksum_Laws
  imports Checksum
begin

text \<open>
  Congruence modulo 65535 and what follows from it for the checksum routines: header checksums
  validate, the address-family conversion of \<open>convert_cksum\<close> keeps a segment valid in both
  directions, parts add up, and the pseudo-header sums of \<open>gso.c\<close> agree with \<open>nat64.c\<close>.
\<close>

text \<open>Congruence modulo 65535, the arithmetic of the one's complement sum.\<close>

definition oceq :: "int \<Rightarrow> int \<Rightarrow> bool" where
  "oceq a b \<longleftrightarrow> 65535 dvd (a - b)"

lemma oceq_refl [simp]: "oceq a a"
  by (simp add: oceq_def)

lemma oceq_sym: "oceq a b \<Longrightarrow> oceq b a"
  by (simp add: oceq_def dvd_diff_commute)

lemma oceq_trans [trans]: "oceq a b \<Longrightarrow> oceq b c \<Longrightarrow> oceq a c"
  unfolding oceq_def by (drule (1) dvd_add) simp

lemma oceq_add: "oceq a b \<Longrightarrow> oceq c d \<Longrightarrow> oceq (a + c) (b + d)"
  unfolding oceq_def by (drule (1) dvd_add) (simp add: algebra_simps)

lemma oceq_diff: "oceq a b \<Longrightarrow> oceq c d \<Longrightarrow> oceq (a - c) (b - d)"
  unfolding oceq_def by (drule (1) dvd_diff) (simp add: algebra_simps)

lemma oceq_minus: "oceq a b \<Longrightarrow> oceq (- a) (- b)"
  using oceq_diff [of 0 0 a b] by simp

lemma oceq_mult: "oceq a b \<Longrightarrow> oceq (k * a) (k * b)"
  unfolding oceq_def by (metis dvd_mult right_diff_distrib)

lemma oceq_mod: "oceq (int m) (int n) \<longleftrightarrow> m mod 65535 = n mod 65535"
proof -
  have "oceq (int m) (int n) \<longleftrightarrow> int m mod 65535 = int n mod 65535"
    by (simp add: oceq_def mod_eq_dvd_iff)
  also have "\<dots> \<longleftrightarrow> int (m mod 65535) = int (n mod 65535)" by (simp add: of_nat_mod)
  finally show ?thesis by (simp only: of_nat_eq_iff)
qed

lemma oceq_0: "oceq (int n) 0 \<longleftrightarrow> n mod 65535 = 0"
  using oceq_mod [of n 0] by simp

lemma oceq_oc: "oceq (int (oc n)) (int n)"
  by (simp only: oceq_mod oc_mod)

lemma oceq_hsum: "oceq (int (hsum w)) (int (unat w))"
  by (simp only: oceq_mod hsum_mod)

lemma oceq_csv: "oceq (int (csv c)) (- int (unat c))"
proof -
  have "int (csv c) - - int (unat c) = 65535"
    using unat_u16_le [of c] by (simp add: csv_alt of_nat_diff)
  then show ?thesis by (simp add: oceq_def)
qed

lemma oceq_unat: "oceq (int (unat c)) (- int (csv c))"
  using oceq_csv [of c] unfolding oceq_def by (metis add.commute diff_minus_eq_add)

lemma oceq_not_u32: "oceq (int (unat (NOT w :: u32))) (- int (unat w))"
proof -
  have "int (unat (NOT w)) - - int (unat w) = 65535 * 65537"
    using unat_u32_less [of w] by (simp add: unat_not_u32 of_nat_diff)
  then show ?thesis unfolding oceq_def by (metis dvd_triv_left)
qed

lemma oceq_sum_list:
  "(\<And>x. x \<in> set xs \<Longrightarrow> oceq (int (f x)) (int (g x)))
    \<Longrightarrow> oceq (int (sum_list (map f xs))) (int (sum_list (map g xs)))"
  by (induction xs) (simp_all add: oceq_add)

lemma oceq_ones_add: "oceq (int (unat (ones_add a b))) (int (unat a) + int (unat b))"
proof -
  have "oceq (int (unat (ones_add a b))) (- int (csv (ones_add a b)))" by (rule oceq_unat)
  also have "oceq (- int (csv (ones_add a b))) (- (int (csv a) + int (csv b)))"
    using oceq_diff [OF oceq_refl oceq_oc [of "csv a + csv b"], of 0] by (simp add: ones_add_csv)
  also have "oceq (- (int (csv a) + int (csv b))) (int (unat a) + int (unat b))"
    using oceq_minus [OF oceq_add [OF oceq_csv [of a] oceq_csv [of b]]] by (simp add: add.commute)
  finally show ?thesis .
qed

lemma oceq_ip_checksum: "oceq (int (unat (ip_checksum bs))) (- int (sum16 bs))"
proof -
  have "oceq (int (unat (ip_checksum bs))) (- int (csv (ip_checksum bs)))" by (rule oceq_unat)
  also have "oceq \<dots> (- int (65535 + sum16 bs))"
    using oceq_diff [OF oceq_refl oceq_oc [of "65535 + sum16 bs"], of 0] by (simp add: ip_checksum_csv)
  also have "oceq \<dots> (- int (sum16 bs))" by (simp add: oceq_def)
  finally show ?thesis .
qed

lemma oceq_csv_oc: "csv c = oc n \<Longrightarrow> oceq (int (unat c)) (- int n)"
  using oceq_trans [OF oceq_unat [of c], of "- int n"] oceq_minus [OF oceq_oc [of n]] by simp

lemmas oceq_ip4_checksum = oceq_csv_oc [OF ip4_checksum_csv]
lemmas oceq_ip6_checksum = oceq_csv_oc [OF ip6_checksum_csv]

lemma oceq_convert:
  "oceq (int (unat (convert_cksum h6 h4)))
     (int (pseudo6 (i6_src h6) (i6_dest h6) len proto) - int (pseudo4 (i4_src h4) (i4_dest h4) len proto))"
proof -
  let ?ws = "in6_words (i6_src h6) @ in6_words (i6_dest h6)"
  have "oceq (int (unat (convert_cksum h6 h4)))
      (int (unat (NOT (i4_src h4))) + int (unat (NOT (i4_dest h4))) + int (sum_list (map unat ?ws)))"
    unfolding convert_cksum_value by (rule oceq_trans [OF oceq_oc]) simp
  also have "oceq \<dots> (- int (unat (i4_src h4)) + - int (unat (i4_dest h4)) + int (sum_list (map hsum ?ws)))"
    by (intro oceq_add oceq_not_u32 oceq_sum_list oceq_sym [OF oceq_hsum])
  also have "oceq \<dots> (0 - int (hsum (i4_src h4)) - int (hsum (i4_dest h4)) + int (sum_list (map hsum ?ws)))"
    using oceq_add [OF oceq_diff [OF oceq_diff [OF oceq_refl [of 0] oceq_sym [OF oceq_hsum [of "i4_src h4"]]]
        oceq_sym [OF oceq_hsum [of "i4_dest h4"]]] oceq_refl [of "int (sum_list (map hsum ?ws))"]]
    by simp
  also have "\<dots> = int (pseudo6 (i6_src h6) (i6_dest h6) len proto)
      - int (pseudo4 (i4_src h4) (i4_dest h4) len proto)"
    by (simp add: pseudo6_def pseudo4_def)
  finally show ?thesis .
qed

text \<open>
  A transport segment is valid when the code's own test \<open>ones_add (ip_checksum seg)
  (ip4_checksum h len proto) = 0\<close> accepts it.
\<close>

lemma ones_add_0_iff: "ones_add a b = 0 \<longleftrightarrow> (csv a + csv b) mod 65535 = 0 \<and> 0 < csv a + csv b"
proof -
  have c0: "csv 0 = 65535" by (simp add: csv_alt)
  have "ones_add a b = 0 \<longleftrightarrow> csv (ones_add a b) = csv 0" by (simp only: csv_inject)
  also have "\<dots> \<longleftrightarrow> oc (csv a + csv b) = 65535" by (simp only: ones_add_csv c0)
  also have "\<dots> \<longleftrightarrow> (csv a + csv b) mod 65535 = 0 \<and> 0 < csv a + csv b"
  proof
    assume o: "oc (csv a + csv b) = 65535"
    then have "(csv a + csv b) mod 65535 = 65535 mod 65535" by (metis oc_mod)
    moreover have "csv a + csv b \<noteq> 0" by (rule notI) (use o in simp)
    ultimately show "(csv a + csv b) mod 65535 = 0 \<and> 0 < csv a + csv b" by simp
  next
    assume "(csv a + csv b) mod 65535 = 0 \<and> 0 < csv a + csv b"
    then have "65535 = oc (csv a + csv b)" by (intro oc_eq_iff_bounded) simp_all
    then show "oc (csv a + csv b) = 65535" by simp
  qed
  finally show ?thesis .
qed

definition valid4 :: "in_addr \<Rightarrow> in_addr \<Rightarrow> u8 \<Rightarrow> u8 list \<Rightarrow> bool" where
  "valid4 src dest proto seg \<longleftrightarrow>
     (sum16 seg + pseudo4 src dest (word_of_nat (length seg)) proto) mod 65535 = 0"

definition valid6 :: "in6_addr \<Rightarrow> in6_addr \<Rightarrow> u8 \<Rightarrow> u8 list \<Rightarrow> bool" where
  "valid6 src dest proto seg \<longleftrightarrow>
     (sum16 seg + pseudo6 src dest (word_of_nat (length seg)) proto) mod 65535 = 0"

lemma ones_add_ip_checksum_0_iff:
  assumes "csv c = oc p"
  shows "ones_add (ip_checksum seg) c = 0 \<longleftrightarrow> (sum16 seg + p) mod 65535 = 0"
proof -
  have "0 < csv (ip_checksum seg)" unfolding ip_checksum_csv oc_def by simp
  moreover have "(csv (ip_checksum seg) + oc p) mod 65535 = (65535 + sum16 seg + p) mod 65535"
    unfolding ip_checksum_csv by (rule mod_add_cong) (simp_all only: oc_mod)
  moreover have "(65535 + sum16 seg + p) mod 65535 = (sum16 seg + p) mod 65535"
    unfolding add.assoc by (rule mod_add_self1)
  ultimately show ?thesis unfolding ones_add_0_iff assms by (simp only:) simp
qed

text \<open>
  Header checksum: \<open>ip4_header_checksum\<close> needs one 32-bit and two 16-bit folds only.
\<close>

lemma le_val_le_bytes: "8 * n = LENGTH('a::len) \<Longrightarrow> le_val (le_bytes n (w :: 'a word)) = unat w"
  using unat_le_word_small [of "le_bytes n w", where 'a = 'a] by (simp add: le_word_le_bytes)

lemma sum16_le_bytes2 [simp]: "sum16 (le_bytes 2 (w :: u16)) = unat w"
  using le_val_le_bytes [of 2 w] by (simp add: le_bytes_def upt_rec numeral_2_eq_2)

lemma sum16_two_words: "length bs = 4 \<Longrightarrow> sum16 bs = le_val bs mod 65536 + le_val bs div 65536"
proof -
  assume "length bs = 4"
  then obtain a b c d where bs: "bs = [a, b, c, d]"
    by (auto simp: numeral_eq_Suc length_Suc_conv)
  have "le_val bs = (unat a + 256 * unat b) + 65536 * (unat c + 256 * unat d)"
    by (simp add: bs)
  moreover have "unat a + 256 * unat b < 65536"
    using unat_u8_less [of a] unat_u8_less [of b] by linarith
  ultimately have "le_val bs mod 65536 = unat a + 256 * unat b" "le_val bs div 65536 = unat c + 256 * unat d"
    by (simp_all only: mod_mult_self2 mod_less div_mult_self2 div_less)
  then show ?thesis by (simp add: bs)
qed

lemma sum16_le_bytes4 [simp]: "sum16 (le_bytes 4 (w :: u32)) = hsum w"
  by (simp add: sum16_two_words le_val_le_bytes hsum_def)

lemma sum16_ip4_bytes:
  "sum16 (ip4_bytes h) = unat (i4_ver_ihl h) + 256 * unat (i4_tos h) + unat (i4_length h)
     + unat (i4_ident h) + unat (i4_flags_offset h) + unat (i4_ttl h) + 256 * unat (i4_proto h)
     + unat (i4_cksum h) + hsum (i4_src h) + hsum (i4_dest h)"
  by (simp add: ip4_bytes_def sum16_append)

lemma take_drop_step: "take n (drop k bs) @ drop (k + n) bs = drop k bs"
  using append_take_drop_id [of n "drop k bs"] by (simp add: add.commute)

lemma split_five:
  assumes "length bs = 20"
  shows "bs = take 4 bs @ take 4 (drop 4 bs) @ take 4 (drop 8 bs) @ take 4 (drop 12 bs) @ take 4 (drop 16 bs)"
  using take_drop_step [of 4 0 bs] take_drop_step [of 4 4 bs] take_drop_step [of 4 8 bs]
    take_drop_step [of 4 12 bs] assms by simp

lemma sum16_five_words:
  assumes "length bs = 20"
  defines "n \<equiv> le_val (take 4 bs) + le_val (take 4 (drop 4 bs)) + le_val (take 4 (drop 8 bs))
    + le_val (take 4 (drop 12 bs)) + le_val (take 4 (drop 16 bs))"
  shows "oc n = oc (sum16 bs)"
proof (rule oc_eqI)
  have s: "sum16 bs = sum16 (take 4 bs) + sum16 (take 4 (drop 4 bs)) + sum16 (take 4 (drop 8 bs))
      + sum16 (take 4 (drop 12 bs)) + sum16 (take 4 (drop 16 bs))"
    by (subst split_five [OF assms(1)]) (simp add: sum16_append assms(1))
  show "n mod 65535 = sum16 bs mod 65535"
    unfolding s n_def by (intro mod_add_cong sum16_le_val [symmetric])
  have z: "le_val (take 4 (drop k bs)) = 0 \<longleftrightarrow> sum16 (take 4 (drop k bs)) = 0" if "k \<le> 16" for k
    using that assms(1) by (subst sum16_two_words) auto
  show "n = 0 \<longleftrightarrow> sum16 bs = 0"
    unfolding s n_def using z [of 0] z [of 4] z [of 8] z [of 12] z [of 16] by simp
qed

lemma ip4_header_checksum_csv: "csv (ip4_header_checksum h) = oc (sum16 (ip4_bytes h))"
proof -
  define bs where "bs = ip4_bytes h"
  have len: "length bs = 20" by (simp add: bs_def)
  define w where "w = (\<lambda>i. ucast (le_word (take 4 (drop (4 * i) bs)) :: u32) :: u64)"
  have w: "unat (w i) = le_val (take 4 (drop (4 * i) bs))" for i
    by (simp add: w_def unat_le_word_small)
  have wl: "unat (w i) < 4294967296" for i
    using le_val_take_less [of 4 "drop (4 * i) bs"] by (simp add: w)
  define s where "s = w 0 + w 1 + w 2 + w 3 + w 4"
  have s: "unat s = unat (w 0) + unat (w 1) + unat (w 2) + unat (w 3) + unat (w 4)"
    using wl [of 0] wl [of 1] wl [of 2] wl [of 3] wl [of 4]
    by (simp add: s_def unat_word_ariths)
  have so: "oc (unat s) = oc (sum16 bs)"
    unfolding s w using sum16_five_words [OF len] by simp
  have s_le: "unat s \<le> 21474836475"
    using s wl [of 0] wl [of 1] wl [of 2] wl [of 3] wl [of 4] by linarith
  have f1: "unat (fold32 s) \<le> 4294967299"
    using s_le mod_less_divisor [of 4294967296 "unat s"] unfolding unat_fold32 by linarith
  have f1o: "oc (unat (fold32 s)) = oc (unat s)"
    by (rule oc_eqI) (use fold32_mod fold32_pos [of s] in \<open>auto simp: unat_fold32\<close>)
  let ?a = "(fold32 s AND 0xffff) + drop_bit 16 (fold32 s)"
  let ?b = "(?a AND 0xffff) + drop_bit 16 ?a"
  have a: "unat ?a \<le> 131070"
    unfolding unat_fold_step by (rule fold_bound) (use f1 in simp)
  have "unat ?b = oc (unat ?a)" unfolding unat_fold_step [of ?a] by (rule fold_once [OF a])
  also have "\<dots> = oc (sum16 bs)" unfolding unat_fold_step oc_fold f1o so ..
  finally have b: "unat ?b = oc (sum16 bs)" .
  have "ip4_header_checksum h = ucast (NOT ?b)"
    by (simp only: ip4_header_checksum_def Let_def s_def w_def bs_def fold32_def)
  then show ?thesis by (simp add: unat_ucast_not b oc_le bs_def)
qed

text \<open>A header whose checksum field was filled in by the routine validates.\<close>

lemma ip4_header_sealed:
  "ip_checksum (ip4_bytes (h\<lparr>i4_cksum := ip4_header_checksum (h\<lparr>i4_cksum := 0\<rparr>)\<rparr>)) = 0"
proof -
  let ?h0 = "h\<lparr>i4_cksum := 0\<rparr>"
  let ?c = "ip4_header_checksum ?h0"
  have "oceq (int (unat ?c)) (- int (sum16 (ip4_bytes ?h0)))"
    using oceq_unat [of ?c] oceq_minus [OF oceq_oc [of "sum16 (ip4_bytes ?h0)"]]
    unfolding ip4_header_checksum_csv by (rule oceq_trans)
  then have "oceq (int (unat ?c) + int (sum16 (ip4_bytes ?h0))) 0"
    by (simp add: oceq_def)
  moreover have "sum16 (ip4_bytes (h\<lparr>i4_cksum := ?c\<rparr>)) = unat ?c + sum16 (ip4_bytes ?h0)"
    by (simp add: sum16_ip4_bytes)
  ultimately have "oceq (int (sum16 (ip4_bytes (h\<lparr>i4_cksum := ?c\<rparr>)))) 0"
    by (simp only: of_nat_add)
  then show ?thesis by (simp only: ip_checksum_0_iff oceq_0)
qed

text \<open>A header stored with the checksum the code computes verifies.\<close>

theorem ip4_header_checksum_valid:
  "ip_checksum (ip4_bytes (h\<lparr>i4_cksum := ip4_header_checksum (h\<lparr>i4_cksum := 0\<rparr>)\<rparr>)) = 0"
  by (rule ip4_header_sealed)

lemma valid4_iff:
  "valid4 (i4_src h) (i4_dest h) proto seg \<longleftrightarrow>
     ones_add (ip_checksum seg) (ip4_checksum h (word_of_nat (length seg)) proto) = 0"
  unfolding valid4_def by (rule ones_add_ip_checksum_0_iff [OF ip4_checksum_csv, symmetric])

lemma valid6_iff:
  "valid6 (i6_src h) (i6_dest h) proto seg \<longleftrightarrow>
     ones_add (ip_checksum seg) (ip6_checksum h (word_of_nat (length seg)) proto) = 0"
  unfolding valid6_def by (rule ones_add_ip_checksum_0_iff [OF ip6_checksum_csv, symmetric])

text \<open>The checksum field replaced the way the translator does it keeps a segment valid.\<close>

lemma sum16_field:
  "even (length pre) \<Longrightarrow> sum16 (pre @ le_bytes 2 (c :: u16) @ post) = sum16 pre + unat c + sum16 post"
  by (simp add: sum16_append)

lemma valid4_field:
  "even (length pre) \<Longrightarrow> valid4 src dest proto (pre @ le_bytes 2 (c :: u16) @ post) \<longleftrightarrow>
     oceq (int (unat c)) (- int (sum16 pre + sum16 post
       + pseudo4 src dest (word_of_nat (length pre + 2 + length post)) proto))"
  unfolding valid4_def oceq_0 [symmetric] by (simp add: sum16_field oceq_def algebra_simps)

lemma valid6_field:
  "even (length pre) \<Longrightarrow> valid6 src dest proto (pre @ le_bytes 2 (c :: u16) @ post) \<longleftrightarrow>
     oceq (int (unat c)) (- int (sum16 pre + sum16 post
       + pseudo6 src dest (word_of_nat (length pre + 2 + length post)) proto))"
  unfolding valid6_def oceq_0 [symmetric] by (simp add: sum16_field oceq_def algebra_simps)

lemma oceq_not_u16: "oceq (int (unat (NOT c :: u16))) (- int (unat c))"
  using oceq_csv [of c] by (simp only: csv_def)

lemma convert_step:
  fixes n m :: int
  assumes "oceq (int (unat k)) (n - m)"
  shows "oceq (int (unat c)) m \<Longrightarrow> oceq (int (unat (ones_add c k))) n"
    and "oceq (int (unat c)) n \<Longrightarrow> oceq (int (unat (ones_add c (NOT k)))) m"
  using oceq_trans [OF oceq_ones_add oceq_add [OF _ assms]]
    oceq_trans [OF oceq_ones_add oceq_add [OF _ oceq_trans [OF oceq_not_u16 oceq_minus [OF assms]]]]
  by fastforce+

lemma convert_cksum_4to6:
  fixes c :: u16
  assumes "even (length pre)" "valid4 (i4_src h4) (i4_dest h4) proto (pre @ le_bytes 2 c @ post)"
  shows "valid6 (i6_src h6) (i6_dest h6) proto
    (pre @ le_bytes 2 (ones_add c (NOT (convert_cksum h6 h4))) @ post)"
proof -
  let ?l = "word_of_nat (length pre + 2 + length post) :: u32"
  let ?s = "- int (sum16 pre + sum16 post)"
  have "oceq (int (unat (convert_cksum h6 h4)))
    ((?s - int (pseudo4 (i4_src h4) (i4_dest h4) ?l proto)) - (?s - int (pseudo6 (i6_src h6) (i6_dest h6) ?l proto)))"
    by (rule oceq_trans [OF oceq_convert [of h6 h4 ?l proto]]) simp
  from convert_step(2) [OF this] show ?thesis
    using assms by (simp add: valid4_field valid6_field)
qed

lemma convert_cksum_6to4:
  fixes c :: u16
  assumes "even (length pre)" "valid6 (i6_src h6) (i6_dest h6) proto (pre @ le_bytes 2 c @ post)"
  shows "valid4 (i4_src h4) (i4_dest h4) proto
    (pre @ le_bytes 2 (ones_add c (convert_cksum h6 h4)) @ post)"
proof -
  let ?l = "word_of_nat (length pre + 2 + length post) :: u32"
  let ?s = "- int (sum16 pre + sum16 post)"
  have "oceq (int (unat (convert_cksum h6 h4)))
    ((?s - int (pseudo4 (i4_src h4) (i4_dest h4) ?l proto)) - (?s - int (pseudo6 (i6_src h6) (i6_dest h6) ?l proto)))"
    by (rule oceq_trans [OF oceq_convert [of h6 h4 ?l proto]]) simp
  from convert_step(1) [OF this] show ?thesis
    using assms by (simp add: valid4_field valid6_field)
qed

text \<open>
  Byte order independence: the pseudo-header sums the GSO code computes in host order are the
  byte-swapped, uncomplemented sums of the translator.
\<close>

lemma unat_bswap16: "unat (bswap16 x) = unat x div 256 + 256 * (unat x mod 256)"
proof -
  have "bswap16 x = push_bit 8 x + drop_bit 8 x" unfolding bswap16_def
    by (rule disjunctive_add [symmetric]) (auto simp: bit_push_bit_iff bit_drop_bit_eq dest: bit_imp_le_length)
  then have "bswap16 x = x * 256 + drop_bit 8 x" by (simp add: push_bit_eq_mult)
  moreover have "unat (drop_bit 8 x) = unat x div 256"
    using drop_bit_eq_div [of 8 "unat x"] by (simp add: unat_drop_bit_eq)
  moreover have "unat (x * 256) = 256 * (unat x mod 256)"
    using mult_mod_right [of 256 "unat x" 256] by (simp add: unat_word_ariths mult.commute)
  moreover have "unat x div 256 + 256 * (unat x mod 256) < 65536"
    using unat_u16_less [of x] by linarith
  ultimately show ?thesis by (simp add: unat_word_ariths)
qed

lemma oceq_bswap16: "oceq (int (unat (bswap16 x))) (256 * int (unat x))"
proof -
  have "256 * unat x = unat (bswap16 x) + 65535 * (unat x div 256)"
    unfolding unat_bswap16 using mod_mult_div_eq [of "unat x" 256] by linarith
  then have "256 * int (unat x) = int (unat (bswap16 x)) + 65535 * int (unat x div 256)"
    by (metis of_nat_add of_nat_mult of_nat_numeral)
  then show ?thesis by (simp add: oceq_def)
qed

lemma oceq_be_halves: "oceq (int (unat (be_halves w))) (256 * int (hsum w))"
proof -
  have l: "unat (ucast w :: u16) = unat w mod 65536" for w :: u32
    by (simp add: unsigned_ucast_eq take_bit_eq_mod)
  have h: "unat (ucast (drop_bit 16 w) :: u16) = unat w div 65536"
    unfolding l unat_drop16 using unat_u32_less [of w] by (intro mod_less) linarith
  have "unat (be_halves w) = unat (bswap16 (ucast w)) + unat (bswap16 (ucast (drop_bit 16 w)))"
    using unat_u16_less [of "bswap16 (ucast w)"] unat_u16_less [of "bswap16 (ucast (drop_bit 16 w))"]
    by (simp add: be_halves_def unat_word_ariths)
  then have "int (unat (be_halves w))
      = int (unat (bswap16 (ucast w))) + int (unat (bswap16 (ucast (drop_bit 16 w))))" by simp
  also have "oceq \<dots> (256 * int (unat w mod 65536) + 256 * int (unat w div 65536))"
    using oceq_add [OF oceq_bswap16 [of "ucast w"] oceq_bswap16 [of "ucast (drop_bit 16 w)"]]
    unfolding h unfolding l .
  finally show ?thesis by (simp add: hsum_def)
qed

lemma unat_be_halves_le: "unat (be_halves w) \<le> 131070"
  using unat_u16_le [of "bswap16 (ucast w)"] unat_u16_le [of "bswap16 (ucast (drop_bit 16 w))"]
  by (simp add: be_halves_def unat_word_ariths)

lemma be_halves_htonl: "be_halves (htonl w) = drop_bit 16 w + (w AND 0xffff)"
proof -
  have m: "bit (0xffff :: u32) n \<longleftrightarrow> n < 16" for n
  proof -
    have "(0xffff :: u32) = mask 16" by (simp add: mask_eq_exp_minus_1)
    then show ?thesis by (simp only: bit_mask_iff) auto
  qed
  have "ucast (ntohs (ucast (htonl w))) = drop_bit 16 w"
    by (rule bit_word_eqI)
      (auto simp: bit_ucast_iff bit_bswap16 bit_bswap32 bit_drop_bit_eq not_less bit_unsigned_iff ac_simps
        dest: bit_imp_le_length)
  moreover have "ucast (ntohs (ucast (drop_bit 16 (htonl w)))) = w AND 0xffff"
    by (rule bit_word_eqI)
      (auto simp: bit_ucast_iff bit_bswap16 bit_bswap32 bit_drop_bit_eq m bit_and_iff bit_unsigned_iff ac_simps
        simp del: bit_numeral_word_iff dest: bit_imp_le_length)
  ultimately show ?thesis by (simp only: be_halves_def)
qed

lemma oceq_eqI:
  "m \<le> 65535 \<Longrightarrow> n \<le> 65535 \<Longrightarrow> oceq (int m) (int n) \<Longrightarrow> m = 0 \<longleftrightarrow> n = 0 \<Longrightarrow> m = n"
  unfolding oceq_mod by (metis oc_eq_iff_bounded oc_id)

lemma be_halves_eq_0: "unat (be_halves w) = 0 \<longleftrightarrow> hsum w = 0"
proof -
  have l: "unat (ucast w :: u16) = unat w mod 65536" for w :: u32
    by (simp add: unsigned_ucast_eq take_bit_eq_mod)
  have h: "unat (ucast (drop_bit 16 w) :: u16) = unat w div 65536"
    unfolding l unat_drop16 using unat_u32_less [of w] by (intro mod_less) linarith
  have z: "unat (bswap16 x) = 0 \<longleftrightarrow> unat x = 0" for x
    by (simp only: unat_eq_0 bswap16_eq_0_iff)
  have "unat (be_halves w) = unat (bswap16 (ucast w)) + unat (bswap16 (ucast (drop_bit 16 w)))"
    using unat_u16_less [of "bswap16 (ucast w)"] unat_u16_less [of "bswap16 (ucast (drop_bit 16 w))"]
    by (simp add: be_halves_def unat_word_ariths)
  then have "unat (be_halves w) = 0 \<longleftrightarrow> unat w mod 65536 = 0 \<and> unat w div 65536 = 0"
    by (simp only: add_is_0 z h) (simp only: l)
  then show ?thesis by (simp only: hsum_def add_is_0)
qed

text \<open>A host-order sum that is congruent to 256 times the network sum folds to its swap.\<close>

lemma swap_fold:
  assumes "oceq (int (unat (s :: u32))) (256 * int n)" "unat s = 0 \<longleftrightarrow> n = 0" "csv c = oc n"
  shows "ucast (fold16 s) = ntohs (NOT c)"
proof -
  have f: "unat (ucast (fold16 s) :: u16) = oc (unat s)"
    using oc_le [of "unat s"] by (simp add: unat_fold16 unsigned_ucast_eq take_bit_eq_mod)
  have b: "oceq (int (unat (ntohs (NOT c)))) (256 * int n)"
    using oceq_trans [OF oceq_bswap16 [of "NOT c"], of "256 * int n"] oceq_mult [OF oceq_oc [of n], of 256]
    unfolding assms(3) [symmetric] csv_def by simp
  have "oc (unat s) = unat (ntohs (NOT c))"
  proof (rule oceq_eqI)
    show "oc (unat s) \<le> 65535" "unat (ntohs (NOT c)) \<le> 65535" by (rule oc_le, rule unat_u16_le)
    show "oceq (int (oc (unat s))) (int (unat (ntohs (NOT c))))"
      by (rule oceq_trans [OF oceq_oc oceq_trans [OF assms(1) oceq_sym [OF b]]])
    have "unat (ntohs (NOT c)) = 0 \<longleftrightarrow> csv c = 0" by (simp only: unat_eq_0 bswap16_eq_0_iff csv_def)
    then show "(oc (unat s) = 0) = (unat (ntohs (NOT c)) = 0)" using assms(2,3) by simp
  qed
  then show ?thesis using f by (metis word_unat_eq_iff)
qed

lemma htons_proto: "oceq (int (unat (proto :: u8))) (256 * int (unat (htons (ucast proto))))"
  "unat (htons (ucast proto)) = 0 \<longleftrightarrow> unat proto = 0"
proof -
  have "unat (htons (ucast proto)) = 256 * unat proto"
    using unat_u8_less [of proto] by (simp add: unat_bswap16)
  then show "oceq (int (unat proto)) (256 * int (unat (htons (ucast proto))))"
    "unat (htons (ucast proto)) = 0 \<longleftrightarrow> unat proto = 0"
    by (simp_all add: oceq_def)
qed

lemma gso_pseudo4_swap:
  assumes "unat len < 65536"
  shows "gso_calc_pseudo4 (i4_src h) (i4_dest h) proto len = ntohs (NOT (ip4_checksum h len proto))"
proof -
  let ?s = "be_halves (i4_src h) + be_halves (i4_dest h) + ucast proto + (len AND 0xffff)"
  have l: "unat (len AND 0xffff) = unat (be_halves (htonl len))"
    unfolding be_halves_htonl unat_fold_step add.commute [of "drop_bit 16 len"] unat_and_ffff
    using assms by simp
  have v: "unat ?s = unat (be_halves (i4_src h)) + unat (be_halves (i4_dest h)) + unat proto
      + unat (be_halves (htonl len))"
    using unat_be_halves_le [of "i4_src h"] unat_be_halves_le [of "i4_dest h"] unat_u8_less [of proto]
      unat_be_halves_le [of "htonl len"]
    by (simp add: unat_word_ariths flip: l)
  show ?thesis
    unfolding gso_calc_pseudo4_def Let_def
  proof (rule swap_fold [OF _ _ ip4_checksum_csv])
    show "oceq (int (unat ?s)) (256 * int (pseudo4 (i4_src h) (i4_dest h) len proto))"
      unfolding v pseudo4_def of_nat_add distrib_left
      using oceq_add [OF oceq_add [OF oceq_add [OF oceq_be_halves [of "i4_src h"] oceq_be_halves [of "i4_dest h"]]
        oceq_be_halves [of "htonl len"]] htons_proto(1) [of proto]] by (simp add: algebra_simps)
    show "(unat ?s = 0) = (pseudo4 (i4_src h) (i4_dest h) len proto = 0)"
      unfolding v pseudo4_def add_is_0 be_halves_eq_0 htons_proto(2) by auto
  qed
qed

text \<open>The offload pseudo-header sum agrees with the translator's for IPv4.\<close>

theorem gso_calc_pseudo4_eq:
  assumes "unat len < 65536"
  shows "gso_calc_pseudo4 (i4_src h) (i4_dest h) proto len = ntohs (NOT (ip4_checksum h len proto))"
  by (rule gso_pseudo4_swap [OF assms])

lemma gso_calc_pseudo4_eq_witness:
  "gso_calc_pseudo4 (i4_src sample_ip4) (i4_dest sample_ip4) 6 20 = ntohs (NOT (ip4_checksum sample_ip4 20 6))"
  by (rule gso_calc_pseudo4_eq) simp

lemma unat_sum_list_be:
  assumes "length ws \<le> 16"
  shows "unat (sum_list (map be_halves ws)) = sum_list (map (\<lambda>w. unat (be_halves w)) ws)"
    and "sum_list (map (\<lambda>w. unat (be_halves w)) ws) \<le> 2097120"
proof -
  have "sum_list (map (\<lambda>w. unat (be_halves w)) ws) \<le> 131070 * length (map (\<lambda>w. unat (be_halves w)) ws)"
    by (rule sum_list_bound) (auto simp: unat_be_halves_le)
  then show b: "sum_list (map (\<lambda>w. unat (be_halves w)) ws) \<le> 2097120" using assms by simp
  then show "unat (sum_list (map be_halves ws)) = sum_list (map (\<lambda>w. unat (be_halves w)) ws)"
    by (subst unat_sum_list_small) (simp_all add: comp_def)
qed

lemma oceq_sum_be:
  "oceq (int (sum_list (map (\<lambda>w. unat (be_halves w)) ws))) (256 * int (sum_list (map hsum ws)))"
proof (induction ws)
  case (Cons w ws)
  from oceq_add [OF oceq_be_halves [of w] this] show ?case by (simp add: algebra_simps)
qed simp

lemma gso_pseudo6_swap:
  "gso_calc_pseudo6 (i6_src h) (i6_dest h) proto len = ntohs (NOT (ip6_checksum h len proto))"
proof -
  let ?ws = "in6_words (i6_src h) @ in6_words (i6_dest h)"
  have lw: "length ?ws \<le> 16" by (simp add: in6_words_def)
  let ?s = "sum_list (map be_halves ?ws) + drop_bit 16 len + (len AND 0xffff) + ucast proto"
  have s: "?s = sum_list (map be_halves ?ws) + be_halves (htonl len) + ucast proto"
    by (simp only: be_halves_htonl add.assoc)
  have add3: "unat (a + b + ucast proto) = unat a + unat b + unat proto"
    if "unat a \<le> 2097120" "unat b \<le> 131070" for a b :: u32
    using that unat_u8_less [of proto] by (simp add: unat_word_ariths)
  have v: "unat ?s = sum_list (map (\<lambda>w. unat (be_halves w)) ?ws) + unat (be_halves (htonl len)) + unat proto"
    unfolding s unat_sum_list_be(1) [OF lw, symmetric]
    by (rule add3 [OF _ unat_be_halves_le]) (simp only: unat_sum_list_be [OF lw])
  show ?thesis
    unfolding gso_calc_pseudo6_def Let_def
  proof (rule swap_fold [OF _ _ ip6_checksum_csv])
    show "oceq (int (unat ?s)) (256 * int (pseudo6 (i6_src h) (i6_dest h) len proto))"
      unfolding v pseudo6_def of_nat_add distrib_left
      by (intro oceq_add oceq_sum_be oceq_be_halves htons_proto(1))
    have "(sum_list (map (\<lambda>w. unat (be_halves w)) ws) = 0) = (sum_list (map hsum ws) = 0)" for ws
      by (induction ws) (simp_all only: list.map sum_list.Cons add_is_0 be_halves_eq_0)
    then show "(unat ?s = 0) = (pseudo6 (i6_src h) (i6_dest h) len proto = 0)"
      unfolding v pseudo6_def add_is_0 be_halves_eq_0 htons_proto(2) by blast
  qed
qed

text \<open>The offload pseudo-header sum agrees with the translator's for IPv6.\<close>

theorem gso_calc_pseudo6_eq:
  "gso_calc_pseudo6 (i6_src h) (i6_dest h) proto len = ntohs (NOT (ip6_checksum h len proto))"
  by (rule gso_pseudo6_swap)

text \<open>
  The checksum of two adjoining parts is the one's complement sum of their checksums when the
  first part has even length: how the code splits headers and data.
\<close>

text \<open>The checksum of a concatenation is the ones-complement sum of the parts.\<close>

theorem ip_checksum_append:
  assumes "even (length xs)"
  shows "ip_checksum (xs @ ys) = ones_add (ip_checksum xs) (ip_checksum ys)"
proof -
  have "csv (ones_add (ip_checksum xs) (ip_checksum ys)) = oc (65535 + sum16 xs + (65535 + sum16 ys))"
    unfolding ones_add_csv ip_checksum_csv by simp
  also have "\<dots> = oc (65535 + (sum16 xs + sum16 ys))"
    using mod_65535_pow [of "sum16 xs + sum16 ys" 2] by (intro oc_eqI) (simp_all add: add.commute)
  finally have "csv (ones_add (ip_checksum xs) (ip_checksum ys)) = csv (ip_checksum (xs @ ys))"
    using assms by (simp add: ip_checksum_csv sum16_append add.assoc)
  then show ?thesis by (simp only: csv_inject)
qed

lemma ip_checksum_append_witness:
  "ip_checksum ([0x45, 0x00] @ [0x12, 0x34, 0x56]) = ones_add (ip_checksum [0x45, 0x00]) (ip_checksum [0x12, 0x34, 0x56])"
  by (rule ip_checksum_append) simp

end
