(* ===== verification/Host_Icmp.thy ===== *)
theory Host_Icmp
  imports Tun Checksum_Laws
begin

text \<open>
  ICMP messages the translator sends itself (\<open>src/src/nat64.c\<close>): \<open>host_send_icmp4\<close>,
  \<open>host_send_icmp4_error\<close>, \<open>host_handle_icmp4\<close> and the IPv6 counterparts. A C function
  without a result is a function from the world to the world; data is passed as the offset and
  length of a range of the receive buffer.
\<close>

text \<open>The ICMP header a packet points to; the pointer is null for other protocols.\<close>

definition icmp_ptr :: "pkt \<Rightarrow> nat" where
  "icmp_ptr p = (case p_icmp p of Some a \<Rightarrow> a | None \<Rightarrow> 0)"

definition icmp_of :: "mem \<Rightarrow> pkt \<Rightarrow> icmp" where
  "icmp_of m p = ld_icmp m (icmp_ptr p)"

section \<open>IPv4\<close>

definition icmp4_ip :: "u8 \<Rightarrow> in_addr \<Rightarrow> in_addr \<Rightarrow> u32 \<Rightarrow> ip4" where
  "icmp4_ip tos src dest data_len =
     (let h = \<lparr>i4_ver_ihl = 0x45, i4_tos = tos, i4_length = htons (ucast (20 + 8 + data_len)),
               i4_ident = 0, i4_flags_offset = 0, i4_ttl = 64, i4_proto = 1, i4_cksum = 0,
               i4_src = src, i4_dest = dest\<rparr>
      in h\<lparr>i4_cksum := ip4_header_checksum h\<rparr>)"

definition icmp4_sealed :: "icmp \<Rightarrow> u8 list \<Rightarrow> icmp" where
  "icmp4_sealed ic data =
     (let ic = ic\<lparr>ic_cksum := 0\<rparr>
      in ic\<lparr>ic_cksum := ones_add (ip_checksum data) (ip_checksum (icmp_bytes ic))\<rparr>)"

definition host_send_icmp4 ::
  "u8 \<Rightarrow> in_addr \<Rightarrow> in_addr \<Rightarrow> icmp \<Rightarrow> nat \<Rightarrow> u32 \<Rightarrow> world \<Rightarrow> world" where
  "host_send_icmp4 tos src dest ic data data_len w =
     (let bytes = load (w_mem w) data (unat data_len);
          header = ip4_bytes (icmp4_ip tos src dest data_len) @ icmp_bytes (icmp4_sealed ic bytes)
      in snd (tun_writev (if data_len \<noteq> 0 then [header, bytes] else [header]) w))"

definition host_send_icmp4_error :: "u8 \<Rightarrow> u8 \<Rightarrow> u32 \<Rightarrow> pkt \<Rightarrow> world \<Rightarrow> world" where
  "host_send_icmp4_error type code word orig w =
     (if p_data_proto orig = 1 \<and> ic_type (icmp_of (w_mem w) orig) \<noteq> 8 then w
      else
        (let orig_len = p_header_len orig + p_data_len orig;
             orig_len = (if orig_len > 576 - 20 - 8 then 576 - 20 - 8 else orig_len);
             ic = \<lparr>ic_type = type, ic_code = code, ic_cksum = 0, ic_word = htonl word\<rparr>
         in host_send_icmp4 0 (g_local_addr4 (w_g w)) (i4_src (ld_ip4 (w_mem w) (p_ip4 orig))) ic
              (p_ip4 orig) orig_len w))"

definition host_handle_icmp4 :: "pkt \<Rightarrow> world \<Rightarrow> world" where
  "host_handle_icmp4 p w =
     (let p = p\<lparr>p_data := p_data p + 8, p_data_len := p_data_len p - 8\<rparr>
      in if ic_type (icmp_of (w_mem w) p) = 8 then
           (let w = w\<lparr>w_mem := store (w_mem w) (icmp_ptr p) [0]\<rparr>;
                h = ld_ip4 (w_mem w) (p_ip4 p)
            in host_send_icmp4 (i4_tos h) (i4_dest h) (i4_src h) (icmp_of (w_mem w) p)
                 (p_data p) (p_data_len p) w)
         else w)"

section \<open>IPv6\<close>

definition icmp6_ip :: "u8 \<Rightarrow> in6_addr \<Rightarrow> in6_addr \<Rightarrow> u32 \<Rightarrow> ip6" where
  "icmp6_ip tc src dest data_len =
     \<lparr>i6_ver_tc_fl = htonl (0x60000000 OR push_bit 20 (ucast tc)),
      i6_payload_length = htons (ucast (8 + data_len)), i6_next_header = 58, i6_hop_limit = 64,
      i6_src = src, i6_dest = dest\<rparr>"

definition icmp6_sealed :: "ip6 \<Rightarrow> icmp \<Rightarrow> u8 list \<Rightarrow> u32 \<Rightarrow> icmp" where
  "icmp6_sealed h ic data data_len =
     (let ic = ic\<lparr>ic_cksum := 0\<rparr>;
          ck = ones_add (ip_checksum data) (ip_checksum (icmp_bytes ic))
      in ic\<lparr>ic_cksum := ones_add ck (ip6_checksum h (data_len + 8) 58)\<rparr>)"

definition host_send_icmp6 ::
  "u8 \<Rightarrow> in6_addr \<Rightarrow> in6_addr \<Rightarrow> icmp \<Rightarrow> nat \<Rightarrow> u32 \<Rightarrow> world \<Rightarrow> world" where
  "host_send_icmp6 tc src dest ic data data_len w =
     (let bytes = load (w_mem w) data (unat data_len);
          h = icmp6_ip tc src dest data_len;
          header = ip6_bytes h @ icmp_bytes (icmp6_sealed h ic bytes data_len)
      in snd (tun_writev (if data_len \<noteq> 0 then [header, bytes] else [header]) w))"

definition host_send_icmp6_error :: "u8 \<Rightarrow> u8 \<Rightarrow> u32 \<Rightarrow> pkt \<Rightarrow> world \<Rightarrow> world" where
  "host_send_icmp6_error type code word orig w =
     (if p_data_proto orig = 58 \<and> ic_type (icmp_of (w_mem w) orig) \<noteq> 128 then w
      else
        (let orig_len = 40 + p_header_len orig + p_data_len orig;
             orig_len = (if orig_len > MTU_MIN - 40 - 8 then MTU_MIN - 40 - 8 else orig_len);
             ic = \<lparr>ic_type = type, ic_code = code, ic_cksum = 0, ic_word = htonl word\<rparr>
         in host_send_icmp6 0 (g_local_addr6 (w_g w)) (i6_src (ld_ip6 (w_mem w) (p_ip6 orig))) ic
              (p_ip6 orig) orig_len w))"

definition host_handle_icmp6 :: "pkt \<Rightarrow> world \<Rightarrow> world" where
  "host_handle_icmp6 p w =
     (let p = p\<lparr>p_data := p_data p + 8, p_data_len := p_data_len p - 8\<rparr>
      in if ic_type (icmp_of (w_mem w) p) = 128 then
           (let w = w\<lparr>w_mem := store (w_mem w) (icmp_ptr p) [129]\<rparr>;
                h = ld_ip6 (w_mem w) (p_ip6 p)
            in host_send_icmp6 (ucast (drop_bit 20 (ntohl (i6_ver_tc_fl h)) AND 0xff)) (i6_dest h) (i6_src h)
                 (icmp_of (w_mem w) p) (p_data p) (p_data_len p) w)
         else w)"

section \<open>The messages are valid\<close>

lemma oceq_icmp_sum: "sum16 (icmp_bytes ic) = unat (ic_type ic) + 256 * unat (ic_code ic)
    + unat (ic_cksum ic) + hsum (ic_word ic)"
  by (simp add: icmp_bytes_def sum16_append)

lemma icmp4_sealed_valid: "ip_checksum (icmp_bytes (icmp4_sealed ic data) @ data) = 0"
proof -
  let ?ic = "ic\<lparr>ic_cksum := 0\<rparr>"
  let ?c = "ones_add (ip_checksum data) (ip_checksum (icmp_bytes ?ic))"
  have "oceq (int (unat ?c)) (- int (sum16 data) + - int (sum16 (icmp_bytes ?ic)))"
    by (rule oceq_trans [OF oceq_ones_add oceq_add [OF oceq_ip_checksum oceq_ip_checksum]])
  then have "oceq (int (sum16 (icmp_bytes (icmp4_sealed ic data)) + sum16 data)) 0"
    by (simp add: icmp4_sealed_def Let_def oceq_icmp_sum oceq_def algebra_simps)
  then show ?thesis by (simp only: ip_checksum_0_iff oceq_0) (simp add: sum16_append)
qed

lemma icmp6_sealed_valid:
  assumes "unat data_len = length data"
  shows "valid6 (i6_src h) (i6_dest h) 58 (icmp_bytes (icmp6_sealed h ic data data_len) @ data)"
proof -
  let ?ic = "ic\<lparr>ic_cksum := 0\<rparr>"
  let ?p = "pseudo6 (i6_src h) (i6_dest h) (data_len + 8) 58"
  let ?ck = "ones_add (ip_checksum data) (ip_checksum (icmp_bytes ?ic))"
  let ?c = "ones_add ?ck (ip6_checksum h (data_len + 8) 58)"
  have l: "(word_of_nat (length data) :: u32) = data_len"
    unfolding assms [symmetric] by simp
  have k: "oceq (int (unat ?ck)) (- int (sum16 data) + - int (sum16 (icmp_bytes ?ic)))"
    by (rule oceq_trans [OF oceq_ones_add oceq_add [OF oceq_ip_checksum oceq_ip_checksum]])
  have p: "oceq (int (unat (ip6_checksum h (data_len + 8) 58))) (- int ?p)"
    by (rule oceq_ip6_checksum)
  have "oceq (int (unat ?c)) (- int (sum16 data) + - int (sum16 (icmp_bytes ?ic)) + - int ?p)"
    by (rule oceq_trans [OF oceq_ones_add oceq_add [OF k p]])
  then have "oceq (int (sum16 (icmp_bytes (icmp6_sealed h ic data data_len)) + sum16 data + ?p)) 0"
    by (simp add: icmp6_sealed_def Let_def oceq_icmp_sum oceq_def algebra_simps)
  then show ?thesis unfolding valid6_def oceq_0 by (simp add: sum16_append l add.commute)
qed

section \<open>What is sent\<close>

text \<open>
  The state is left alone and at most one frame is appended: \<open>emits w ip w'\<close> says that the frame
  is the IP packet \<open>ip\<close> behind an empty offload header, and that a device that accepts
  everything gets it.
\<close>

definition emits :: "world \<Rightarrow> u8 list \<Rightarrow> world \<Rightarrow> bool" where
  "emits w ip w' \<longleftrightarrow> (sent w [plain_frame w ip] w' \<or> sent w [] w')
     \<and> (w_io w = [] \<and> 12 + length ip \<le> RECV_BUF_SIZE \<longrightarrow> sent w [plain_frame w ip] w' \<and> w_io w' = [])"

lemma tun_writev_emits:
  assumes "vnet_ok w" "iov \<noteq> []" "length iov \<le> 63" "12 < length (hd iov)" "ip = concat iov"
  shows "w_mem (snd (tun_writev iov w)) = w_mem w" "emits w ip (snd (tun_writev iov w))"
proof -
  obtain r w' where r: "tun_writev iov w = (r, w')" by fastforce
  note sp = tun_writev_spec [OF assms(1-4) r]
  show "w_mem (snd (tun_writev iov w)) = w_mem w" using sp r by simp
  have "w_io w = [] \<and> 12 + length ip \<le> RECV_BUF_SIZE \<longrightarrow> sent w [plain_frame w ip] w' \<and> w_io w' = []"
    using tun_writev_accepted [OF assms(1-4)] r assms(5) by (auto simp: sent_def)
  then show "emits w ip (snd (tun_writev iov w))"
    using sp(2) r assms(5) by (auto simp: emits_def may_send_def)
qed

lemma host_send_icmp4_emits:
  fixes data :: nat and data_len :: u32
  assumes "vnet_ok w"
  defines "bytes \<equiv> load (w_mem w) data (unat data_len)"
  shows "w_mem (host_send_icmp4 tos src dest ic data data_len w) = w_mem w"
    "emits w (ip4_bytes (icmp4_ip tos src dest data_len) @ icmp_bytes (icmp4_sealed ic bytes) @ bytes)
      (host_send_icmp4 tos src dest ic data data_len w)"
  unfolding host_send_icmp4_def Let_def bytes_def [symmetric]
  by (rule tun_writev_emits; use assms in \<open>simp add: unat_eq_0\<close>)+

lemma host_send_icmp6_emits:
  fixes data :: nat and data_len :: u32 and tc :: u8 and src dest :: in6_addr
  assumes "vnet_ok w"
  defines "bytes \<equiv> load (w_mem w) data (unat data_len)"
  defines "h \<equiv> icmp6_ip tc src dest data_len"
  shows "w_mem (host_send_icmp6 tc src dest ic data data_len w) = w_mem w"
    "emits w (ip6_bytes h @ icmp_bytes (icmp6_sealed h ic bytes data_len) @ bytes)
      (host_send_icmp6 tc src dest ic data data_len w)"
  unfolding host_send_icmp6_def Let_def bytes_def [symmetric] h_def [symmetric]
  by (rule tun_writev_emits; use assms in \<open>simp add: unat_eq_0\<close>)+

end
