(* ===== verification/Parse.thy ===== *)
theory Parse
  imports Host_Icmp Addr
begin

text \<open>
  \<open>parse_ip4\<close> and \<open>parse_ip6\<close> of \<open>src/src/nat64.c\<close>. A parser gives \<open>Inl e\<close> for its nonzero
  result and \<open>Inr p\<close> with the filled packet record; \<open>parse_ip6\<close> may also send a message. The
  second flag is set for a packet embedded in an ICMP error. In \<open>parse_ip6\<close> the failing first
  test returns the same code on each of its branches, which differ in logging only.
\<close>

section \<open>IPv4\<close>

definition parse_ip4 :: "mem \<Rightarrow> bool \<Rightarrow> pkt \<Rightarrow> err + pkt" where
  "parse_ip4 m em p =
     (let p = p\<lparr>p_ip4 := p_data p\<rparr>;
          h = ld_ip4 m (p_ip4 p)
      in if p_data_len p < 20 then Inl ERROR_DROP
         else
           (let p = p\<lparr>p_header_len := ucast (i4_ver_ihl h AND 0x0f) * 4\<rparr>
            in if drop_bit 4 (i4_ver_ihl h) \<noteq> 4 \<or> p_header_len p < 20 \<or> p_data_len p < p_header_len p
                 \<or> ucast (ntohs (i4_length h)) < p_header_len p
                 \<or> validate_ip4_addr (i4_src h) = ERROR_DROP \<or> validate_ip4_addr (i4_dest h) = ERROR_DROP
               then Inl ERROR_DROP
               else
                 (let p = (if p_data_len p > ucast (ntohs (i4_length h))
                           then p\<lparr>p_data_len := ucast (ntohs (i4_length h))\<rparr> else p);
                      p = p\<lparr>p_data := p_data p + unat (p_header_len p),
                            p_data_len := p_data_len p - p_header_len p, p_data_proto := i4_proto h\<rparr>
                  in if p_data_proto p = 1 then
                       (if \<not> em \<and> i4_flags_offset h AND htons (IP4_F_MASK OR IP4_F_MF) \<noteq> 0 then Inl ERROR_DROP
                        else if p_data_len p < 8 then Inl ERROR_DROP
                        else Inr (p\<lparr>p_icmp := Some (p_data p)\<rparr>))
                     else if p_data_proto p \<in> {0, 43, 44, 58, 60} then Inl ERROR_DROP
                     else if \<not> em \<and> i4_flags_offset h AND htons IP4_F_MF \<noteq> 0 \<and> p_data_len p AND 0x7 \<noteq> 0
                     then Inl ERROR_DROP
                     else if ucast (ntohs (i4_flags_offset h) AND IP4_F_MASK) * 8 + p_data_len p > 65535
                     then Inl ERROR_DROP
                     else Inr p)))"

text \<open>
  What an accepted packet looks like: the header and the payload lie in the bytes received, and
  the ICMP header is present exactly when the protocol is ICMP.
\<close>

definition parsed4 :: "mem \<Rightarrow> bool \<Rightarrow> pkt \<Rightarrow> pkt \<Rightarrow> bool" where
  "parsed4 m em p q \<longleftrightarrow> (let h = ld_ip4 m (p_data p) in
     p_ip4 q = p_data p
     \<and> p_data q = p_data p + unat (p_header_len q)
     \<and> unat (p_header_len q) = 4 * unat (i4_ver_ihl h AND 0x0f)
     \<and> 20 \<le> unat (p_header_len q)
     \<and> unat (p_header_len q) + unat (p_data_len q) \<le> unat (p_data_len p)
     \<and> unat (p_header_len q) + unat (p_data_len q) \<le> unat (ntohs (i4_length h))
     \<and> p_data_proto q = i4_proto h
     \<and> p_data_proto q \<notin> {0, 43, 44, 58, 60}
     \<and> validate_ip4_addr (i4_src h) \<noteq> ERROR_DROP \<and> validate_ip4_addr (i4_dest h) \<noteq> ERROR_DROP
     \<and> (if p_data_proto q = 1
        then p_icmp q = Some (p_data q) \<and> 8 \<le> unat (p_data_len q)
             \<and> (em \<or> i4_flags_offset h AND htons (IP4_F_MASK OR IP4_F_MF) = 0)
        else p_icmp q = p_icmp p
             \<and> 8 * unat (ntohs (i4_flags_offset h) AND IP4_F_MASK) + unat (p_data_len q) \<le> 65535
             \<and> (em \<or> i4_flags_offset h AND htons IP4_F_MF = 0 \<or> p_data_len q AND 0x7 = 0))
     \<and> p_has_vhdr q = p_has_vhdr p \<and> p_vhdr q = p_vhdr p \<and> p_tun_fd q = p_tun_fd p
     \<and> p_ip6_frag q = p_ip6_frag p)"

lemma unat_ihl: "unat (ucast (b AND 0x0f :: u8) * 4 :: u32) = 4 * unat (b AND 0x0f)"
  and ihl_le: "unat (b AND 0x0f :: u8) \<le> 15"
proof -
  have m: "(0x0f :: u8) = mask 4" by (simp add: mask_eq_exp_minus_1)
  have "b AND 0x0f = take_bit 4 b" unfolding m by (simp only: take_bit_eq_mask)
  then have "unat (b AND 0x0f) = take_bit 4 (unat b)" by (simp only: unsigned_take_bit_eq)
  then have "unat (b AND 0x0f) < 16" by (simp add: take_bit_eq_mod)
  then show "unat (b AND 0x0f) \<le> 15" by simp
  then show "unat (ucast (b AND 0x0f) * 4 :: u32) = 4 * unat (b AND 0x0f)"
    by (simp add: unat_word_ariths)
qed

lemma parse_ip4_ok:
  assumes "parse_ip4 m em p = Inr q"
  shows "parsed4 m em p q"
proof -
  let ?h = "ld_ip4 m (p_data p)"
  define hl where "hl = (ucast (i4_ver_ihl ?h AND 0x0f) * 4 :: u32)"
  define dl where "dl = (if p_data_len p > ucast (ntohs (i4_length ?h))
    then ucast (ntohs (i4_length ?h)) else p_data_len p)"
  have c: "\<not> p_data_len p < 20" "\<not> hl < 20" "\<not> p_data_len p < hl" "\<not> ucast (ntohs (i4_length ?h)) < hl"
    "validate_ip4_addr (i4_src ?h) \<noteq> ERROR_DROP" "validate_ip4_addr (i4_dest ?h) \<noteq> ERROR_DROP"
    using assms by (auto simp: parse_ip4_def Let_def hl_def split: if_splits)
  let ?q = "p\<lparr>p_ip4 := p_data p, p_header_len := hl, p_data := p_data p + unat hl, p_data_len := dl - hl,
      p_data_proto := i4_proto ?h\<rparr>"
  have q: "if i4_proto ?h = 1
      then q = ?q\<lparr>p_icmp := Some (p_data p + unat hl)\<rparr> \<and> \<not> dl - hl < 8
        \<and> (em \<or> i4_flags_offset ?h AND htons (IP4_F_MASK OR IP4_F_MF) = 0)
      else q = ?q \<and> i4_proto ?h \<notin> {0, 43, 44, 58, 60}
        \<and> \<not> ucast (ntohs (i4_flags_offset ?h) AND IP4_F_MASK) * 8 + (dl - hl) > 65535
        \<and> (em \<or> i4_flags_offset ?h AND htons IP4_F_MF = 0 \<or> (dl - hl) AND 0x7 = 0)"
    using assms c by (simp add: parse_ip4_def Let_def hl_def [symmetric] dl_def split: if_splits)
  have len: "unat (p_data_len p) \<ge> unat hl" "unat hl \<le> unat (ntohs (i4_length ?h))" "20 \<le> unat hl"
    using c by (simp_all add: word_less_nat_alt not_less)
  have "hl \<le> dl" using c by (auto simp: dl_def not_less)
  then have d: "unat (dl - hl) = unat dl - unat hl" by (rule unat_sub)
  have dl: "unat dl \<le> unat (p_data_len p)" "unat dl \<le> unat (ntohs (i4_length ?h))" "unat hl \<le> unat dl"
    using \<open>hl \<le> dl\<close> by (auto simp: dl_def word_less_nat_alt word_le_nat_alt not_less)
  have off: "unat (ucast (ntohs (i4_flags_offset ?h) AND IP4_F_MASK) * 8 + (dl - hl) :: u32)
      = 8 * unat (ntohs (i4_flags_offset ?h) AND IP4_F_MASK) + unat (dl - hl)"
  proof -
    have "unat (dl - hl) \<le> 65535" using d dl(2) unat_u16_le [of "ntohs (i4_length ?h)"] by linarith
    moreover have "unat (ntohs (i4_flags_offset ?h) AND IP4_F_MASK) \<le> 65535" by (rule unat_u16_le)
    ultimately show ?thesis by (simp add: unat_word_ariths)
  qed
  show ?thesis
  proof (cases "i4_proto ?h = 1")
    case True
    then show ?thesis using q len dl c d
      by (simp add: parsed4_def Let_def word_less_nat_alt not_less hl_def [symmetric] flip: unat_ihl)
  next
    case False
    then show ?thesis using q len dl c d off
      by (auto simp: parsed4_def Let_def word_less_nat_alt not_less hl_def [symmetric] simp flip: unat_ihl)
  qed
qed

section \<open>IPv6\<close>

text \<open>
  The chain of extension headers: at most \<open>n\<close> more. The second component is the number of
  segments left in the last routing header, the third the offset of the routing header.
\<close>

fun ext_headers :: "mem \<Rightarrow> nat \<Rightarrow> pkt \<Rightarrow> u8 \<Rightarrow> u32 \<Rightarrow> (pkt \<times> u8 \<times> u32) option" where
  "ext_headers m n p seg_left seg_ptr =
     (if p_data_proto p \<notin> {0, 43, 60} then Some (p, seg_left, seg_ptr)
      else (case n of
          0 \<Rightarrow> None
        | Suc n \<Rightarrow>
            if p_data_len p < 2 then None
            else
              (let hdr_len = (ucast (m (p_data p + 1)) + 1) * 8
               in if p_data_len p < hdr_len then None
                  else
                    (let seg_left = (if p_data_proto p = 43 then m (p_data p + 3) else seg_left);
                         seg_ptr = (if seg_left = 0 then seg_ptr + hdr_len else seg_ptr);
                         p = p\<lparr>p_data_proto := m (p_data p), p_data := p_data p + unat hdr_len,
                               p_data_len := p_data_len p - hdr_len, p_header_len := p_header_len p + hdr_len\<rparr>
                     in ext_headers m n p seg_left seg_ptr))))"

declare ext_headers.simps [simp del]

text \<open>The fragment header, if it is next.\<close>

definition frag_header :: "mem \<Rightarrow> bool \<Rightarrow> pkt \<Rightarrow> pkt option" where
  "frag_header m em p =
     (if p_data_proto p \<noteq> 44 then Some p
      else if p_ip6_frag p \<noteq> None \<or> p_data_len p < 8 then None
      else
        (let fr = ld_ip6_frag m (p_data p);
             p = p\<lparr>p_ip6_frag := Some (p_data p), p_data_proto := fr_next_header fr, p_data := p_data p + 8,
                   p_data_len := p_data_len p - 8, p_header_len := p_header_len p + 8\<rparr>
         in if \<not> em \<and> fr_offset_flags fr AND htons IP6_F_MF \<noteq> 0 \<and> p_data_len p AND 0x7 \<noteq> 0 then None
            else if ucast (ntohs (fr_offset_flags fr) AND IP6_F_MASK) + p_data_len p > 65535 then None
            else Some p))"

text \<open>The fragment header of a packet; the pointer is null when there is none.\<close>

definition frag_of :: "mem \<Rightarrow> pkt \<Rightarrow> ip6_frag option" where
  "frag_of m p = map_option (ld_ip6_frag m) (p_ip6_frag p)"

definition upper_header :: "mem \<Rightarrow> bool \<Rightarrow> pkt \<Rightarrow> pkt option" where
  "upper_header m em p =
     (if p_data_proto p = 58 then
        (if \<not> em \<and> (case frag_of m p of
              Some fr \<Rightarrow> fr_offset_flags fr AND htons (IP6_F_MASK OR IP6_F_MF) \<noteq> 0 | None \<Rightarrow> False) then None
         else if p_data_len p < 8 then None
         else Some (p\<lparr>p_icmp := Some (p_data p)\<rparr>))
      else if p_data_proto p = 1 then None
      else Some p)"

definition parse_ip6 :: "pkt \<Rightarrow> bool \<Rightarrow> world \<Rightarrow> (err + pkt) \<times> world" where
  "parse_ip6 p em w =
     (let m = w_mem w;
          p = p\<lparr>p_ip6 := p_data p\<rparr>;
          h = ld_ip6 m (p_ip6 p)
      in if p_data_len p < 40 \<or> drop_bit 28 (ntohl (i6_ver_tc_fl h)) \<noteq> 6
           \<or> validate_ip6_addr (i6_src h) \<noteq> ERROR_NONE \<or> validate_ip6_addr (i6_dest h) \<noteq> ERROR_NONE
         then (Inl ERROR_DROP, w)
         else
           (let p = p\<lparr>p_data_proto := i6_next_header h, p_data := p_data p + 40, p_data_len := p_data_len p - 40\<rparr>;
                p = (if p_data_len p > ucast (ntohs (i6_payload_length h))
                     then p\<lparr>p_data_len := ucast (ntohs (i6_payload_length h))\<rparr> else p)
            in (case ext_headers m 8 p 0 40 of
                  None \<Rightarrow> (Inl ERROR_DROP, w)
                | Some (p, seg_left, seg_ptr) \<Rightarrow>
                    (case frag_header m em p of
                       None \<Rightarrow> (Inl ERROR_DROP, w)
                     | Some p \<Rightarrow>
                         (case upper_header m em p of
                            None \<Rightarrow> (Inl ERROR_DROP, w)
                          | Some p \<Rightarrow>
                              if seg_left \<noteq> 0 then
                                (Inl ERROR_DROP,
                                 if em then w else host_send_icmp6_error 4 0 (seg_ptr + 4) p w)
                              else (Inr p, w))))))"

text \<open>How far a packet record has advanced: \<open>k\<close> bytes of headers after the first one.\<close>

definition advanced :: "pkt \<Rightarrow> pkt \<Rightarrow> bool" where
  "advanced p q \<longleftrightarrow> (\<exists>k. p_data q = p_data p + k \<and> unat (p_header_len q) = unat (p_header_len p) + k
     \<and> unat (p_data_len q) + k = unat (p_data_len p)
     \<and> p_ip4 q = p_ip4 p \<and> p_ip6 q = p_ip6 p \<and> p_tun_fd q = p_tun_fd p \<and> p_vhdr q = p_vhdr p \<and> p_has_vhdr q = p_has_vhdr p)"

lemma advanced_refl: "advanced p p"
  unfolding advanced_def by (rule exI [of _ 0]) simp

lemma advanced_trans: "advanced p q \<Longrightarrow> advanced q r \<Longrightarrow> advanced p r"
proof -
  assume "advanced p q" "advanced q r"
  then obtain k j where "p_data q = p_data p + k" "unat (p_header_len q) = unat (p_header_len p) + k"
    "unat (p_data_len q) + k = unat (p_data_len p)" "p_ip4 q = p_ip4 p" "p_ip6 q = p_ip6 p"
    "p_tun_fd q = p_tun_fd p" "p_vhdr q = p_vhdr p" "p_has_vhdr q = p_has_vhdr p"
    "p_data r = p_data q + j" "unat (p_header_len r) = unat (p_header_len q) + j"
    "unat (p_data_len r) + j = unat (p_data_len q)" "p_ip4 r = p_ip4 q" "p_ip6 r = p_ip6 q"
    "p_tun_fd r = p_tun_fd q" "p_vhdr r = p_vhdr q" "p_has_vhdr r = p_has_vhdr q"
    unfolding advanced_def by blast
  then show ?thesis unfolding advanced_def by (intro exI [of _ "k + j"]) simp
qed

text \<open>One step past \<open>n\<close> bytes of headers; the header length cannot overflow.\<close>

lemma advance_step:
  assumes "n \<le> p_data_len p" "unat (p_header_len p) + unat (p_data_len p) < 4294967296"
  shows "advanced p (p\<lparr>p_data_proto := b, p_data := p_data p + unat n, p_data_len := p_data_len p - n,
      p_header_len := p_header_len p + n, p_ip6_frag := f, p_icmp := i\<rparr>)"
proof -
  have "unat n \<le> unat (p_data_len p)" using assms(1) by (simp add: word_le_nat_alt)
  then have "unat (p_header_len p + n) = unat (p_header_len p) + unat n"
    using assms(2) by (subst unat_add_lem [THEN iffD1]) simp_all
  moreover have "unat (p_data_len p - n) = unat (p_data_len p) - unat n" by (rule unat_sub [OF assms(1)])
  ultimately show ?thesis unfolding advanced_def
    using \<open>unat n \<le> unat (p_data_len p)\<close> by (intro exI [of _ "unat n"]) simp
qed

lemma advanced_bound:
  "advanced p q \<Longrightarrow> unat (p_header_len p) + unat (p_data_len p) < 4294967296
    \<Longrightarrow> unat (p_header_len q) + unat (p_data_len q) < 4294967296"
  by (auto simp: advanced_def)

lemma ext_headers_advanced:
  "ext_headers m n p sl sp = Some (q, sl', sp') \<Longrightarrow> unat (p_header_len p) + unat (p_data_len p) < 4294967296
    \<Longrightarrow> advanced p q \<and> p_data_proto q \<notin> {0, 43, 60} \<and> p_ip6_frag q = p_ip6_frag p \<and> p_icmp q = p_icmp p"
proof (induction n arbitrary: p sl sp)
  case 0
  then show ?case by (auto simp: ext_headers.simps [of m 0] advanced_refl split: if_splits)
next
  case (Suc n)
  show ?case
  proof (cases "p_data_proto p \<in> {0, 43, 60}")
    case False
    then show ?thesis using Suc.prems(1) by (simp add: ext_headers.simps [of m "Suc n"] advanced_refl)
  next
    case True
    define hl where "hl = (ucast (m (p_data p + 1)) + 1 :: u32) * 8"
    let ?q = "p\<lparr>p_data_proto := m (p_data p), p_data := p_data p + unat hl,
        p_data_len := p_data_len p - hl, p_header_len := p_header_len p + hl\<rparr>"
    let ?sl = "if p_data_proto p = 43 then m (p_data p + 3) else sl"
    from True Suc.prems(1) have le: "hl \<le> p_data_len p"
      and r: "ext_headers m n ?q ?sl (if ?sl = 0 then sp + hl else sp) = Some (q, sl', sp')"
      unfolding ext_headers.simps [of m "Suc n"] Let_def hl_def [symmetric]
      by (simp_all split: if_split_asm)
    have a: "advanced p ?q"
      using advance_step [of hl p, where b = "m (p_data p)" and f = "p_ip6_frag p" and i = "p_icmp p"] le Suc.prems(2) by simp
    from Suc.IH [OF r advanced_bound [OF a Suc.prems(2)]] show ?thesis
      using advanced_trans [OF a] by simp
  qed
qed

text \<open>What an accepted IPv6 packet looks like.\<close>

definition parsed6 :: "mem \<Rightarrow> bool \<Rightarrow> pkt \<Rightarrow> pkt \<Rightarrow> bool" where
  "parsed6 m em p q \<longleftrightarrow> (let h = ld_ip6 m (p_data p) in
     p_ip6 q = p_data p
     \<and> p_data q = p_data p + 40 + unat (p_header_len q)
     \<and> 40 + unat (p_header_len q) + unat (p_data_len q) \<le> unat (p_data_len p)
     \<and> unat (p_header_len q) + unat (p_data_len q) \<le> unat (ntohs (i6_payload_length h))
     \<and> p_data_proto q \<noteq> 1
     \<and> validate_ip6_addr (i6_src h) = ERROR_NONE \<and> validate_ip6_addr (i6_dest h) = ERROR_NONE
     \<and> (if p_data_proto q = 58
        then p_icmp q = Some (p_data q) \<and> 8 \<le> unat (p_data_len q)
             \<and> (em \<or> (\<forall>fr. frag_of m q = Some fr \<longrightarrow> fr_offset_flags fr AND htons (IP6_F_MASK OR IP6_F_MF) = 0))
        else p_icmp q = None)
     \<and> (\<forall>f. p_ip6_frag q = Some f \<longrightarrow> f + 8 = p_data q \<and> 8 \<le> unat (p_header_len q)
        \<and> unat (ntohs (fr_offset_flags (ld_ip6_frag m f)) AND IP6_F_MASK) + unat (p_data_len q) \<le> 65535
        \<and> (em \<or> fr_offset_flags (ld_ip6_frag m f) AND htons IP6_F_MF = 0 \<or> p_data_len q AND 0x7 = 0))
     \<and> p_has_vhdr q = p_has_vhdr p \<and> p_vhdr q = p_vhdr p \<and> p_tun_fd q = p_tun_fd p)"

lemma frag_header_ok:
  assumes "frag_header m em p = Some q" "p_ip6_frag p = None" "unat (p_header_len p) + unat (p_data_len p) < 131072"
  shows "advanced p q" "p_icmp q = p_icmp p"
    "p_ip6_frag q = Some f \<Longrightarrow> f + 8 = p_data q \<and> 8 \<le> unat (p_header_len q)
      \<and> unat (ntohs (fr_offset_flags (ld_ip6_frag m f)) AND IP6_F_MASK) + unat (p_data_len q) \<le> 65535
      \<and> (em \<or> fr_offset_flags (ld_ip6_frag m f) AND htons IP6_F_MF = 0 \<or> p_data_len q AND 0x7 = 0)"
proof -
  have "advanced p q \<and> p_icmp q = p_icmp p \<and> (p_ip6_frag q = Some f \<longrightarrow> f + 8 = p_data q \<and> 8 \<le> unat (p_header_len q)
      \<and> unat (ntohs (fr_offset_flags (ld_ip6_frag m f)) AND IP6_F_MASK) + unat (p_data_len q) \<le> 65535
      \<and> (em \<or> fr_offset_flags (ld_ip6_frag m f) AND htons IP6_F_MF = 0 \<or> p_data_len q AND 0x7 = 0))"
  proof (cases "p_data_proto p = 44")
    case False
    then show ?thesis using assms by (auto simp: frag_header_def advanced_refl)
  next
    case True
    define fr where "fr = ld_ip6_frag m (p_data p)"
    let ?x = "ntohs (fr_offset_flags fr) AND IP6_F_MASK"
    have le: "8 \<le> p_data_len p" and big: "\<not> ucast ?x + (p_data_len p - 8) > (65535 :: u32)"
      and al: "em \<or> fr_offset_flags fr AND htons IP6_F_MF = 0 \<or> (p_data_len p - 8) AND 0x7 = 0"
      and q: "q = p\<lparr>p_ip6_frag := Some (p_data p), p_data_proto := fr_next_header fr, p_data := p_data p + 8,
          p_data_len := p_data_len p - 8, p_header_len := p_header_len p + 8\<rparr>"
      using True assms(1,2) unfolding frag_header_def Let_def fr_def by (auto split: if_split_asm)
    have a: "advanced p q"
      using advance_step [of 8 p, where b = "fr_next_header fr" and f = "Some (p_data p)" and i = "p_icmp p"]
        le assms(3) by (simp add: q advanced_def)
    have "8 \<le> unat (p_data_len p)" using le by (simp add: word_le_nat_alt)
    then have h8: "8 \<le> unat (p_header_len p + 8)" using assms(3) by (simp add: unat_word_ariths)
    have "unat (p_data_len p - 8) = unat (p_data_len p) - 8" using unat_sub [OF le] by simp
    then have "unat (ucast ?x + (p_data_len p - 8) :: u32) = unat ?x + unat (p_data_len p - 8)"
      using assms(3) unat_u16_le [of ?x] by (simp add: unat_word_ariths)
    with big have "unat ?x + unat (p_data_len p - 8) \<le> 65535" by (simp add: word_less_nat_alt not_less)
    then show ?thesis using a al h8 by (auto simp: q fr_def)
  qed
  then show "advanced p q" "p_icmp q = p_icmp p"
    "p_ip6_frag q = Some f \<Longrightarrow> f + 8 = p_data q \<and> 8 \<le> unat (p_header_len q)
      \<and> unat (ntohs (fr_offset_flags (ld_ip6_frag m f)) AND IP6_F_MASK) + unat (p_data_len q) \<le> 65535
      \<and> (em \<or> fr_offset_flags (ld_ip6_frag m f) AND htons IP6_F_MF = 0 \<or> p_data_len q AND 0x7 = 0)"
    by blast+
qed

lemma parse_ip6_cases:
  assumes "parse_ip6 p em w = (Inr q, w')"
  obtains dl p1 sp p2 where "w' = w" "40 \<le> unat (p_data_len p)"
    "validate_ip6_addr (i6_src (ld_ip6 (w_mem w) (p_data p))) = ERROR_NONE"
    "validate_ip6_addr (i6_dest (ld_ip6 (w_mem w) (p_data p))) = ERROR_NONE"
    "unat dl \<le> unat (p_data_len p) - 40" "unat dl \<le> unat (ntohs (i6_payload_length (ld_ip6 (w_mem w) (p_data p))))"
    "ext_headers (w_mem w) 8 (p\<lparr>p_ip6 := p_data p, p_data_proto := i6_next_header (ld_ip6 (w_mem w) (p_data p)),
       p_data := p_data p + 40, p_data_len := dl\<rparr>) 0 40 = Some (p1, 0, sp)"
    "frag_header (w_mem w) em p1 = Some p2" "upper_header (w_mem w) em p2 = Some q"
proof -
  let ?h = "ld_ip6 (w_mem w) (p_data p)"
  define dl where "dl = (if p_data_len p - 40 > ucast (ntohs (i6_payload_length ?h))
    then ucast (ntohs (i6_payload_length ?h)) else p_data_len p - 40)"
  let ?p = "p\<lparr>p_ip6 := p_data p, p_data_proto := i6_next_header ?h, p_data := p_data p + 40, p_data_len := dl\<rparr>"
  have g: "\<not> p_data_len p < 40" "validate_ip6_addr (i6_src ?h) = ERROR_NONE" "validate_ip6_addr (i6_dest ?h) = ERROR_NONE"
    using assms by (auto simp: parse_ip6_def Let_def split: if_splits)
  have pe: "(let p = p\<lparr>p_ip6 := p_data p, p_data_proto := i6_next_header ?h, p_data := p_data p + 40,
        p_data_len := p_data_len p - 40\<rparr>
      in if p_data_len p > ucast (ntohs (i6_payload_length ?h))
         then p\<lparr>p_data_len := ucast (ntohs (i6_payload_length ?h))\<rparr> else p) = ?p"
    by (simp add: dl_def)
  from assms obtain p1 sl sp p2 where r: "w' = w" "ext_headers (w_mem w) 8 ?p 0 40 = Some (p1, sl, sp)" "sl = 0"
    "frag_header (w_mem w) em p1 = Some p2" "upper_header (w_mem w) em p2 = Some q"
    unfolding parse_ip6_def by (auto simp: Let_def dl_def split: if_split_asm option.split_asm)
  have l40: "40 \<le> p_data_len p" using g(1) by simp
  have "unat (p_data_len p - 40) = unat (p_data_len p) - 40" using unat_sub [OF l40] by simp
  then have "unat dl \<le> unat (p_data_len p) - 40" "unat dl \<le> unat (ntohs (i6_payload_length ?h))"
    by (auto simp: dl_def word_less_nat_alt not_less)
  moreover have "40 \<le> unat (p_data_len p)" using l40 by (simp add: word_le_nat_alt)
  ultimately show ?thesis using that g r by blast
qed

lemma parse_ip6_ok:
  assumes "parse_ip6 p em w = (Inr q, w')" "p_header_len p = 0" "p_ip6_frag p = None" "p_icmp p = None"
  shows "w' = w" "parsed6 (w_mem w) em p q"
proof -
  let ?m = "w_mem w"
  let ?h = "ld_ip6 ?m (p_data p)"
  from parse_ip6_cases [OF assms(1)] obtain dl p1 sp p2 where c: "w' = w" "40 \<le> unat (p_data_len p)"
    "validate_ip6_addr (i6_src ?h) = ERROR_NONE" "validate_ip6_addr (i6_dest ?h) = ERROR_NONE"
    "unat dl \<le> unat (p_data_len p) - 40" "unat dl \<le> unat (ntohs (i6_payload_length ?h))"
    "ext_headers ?m 8 (p\<lparr>p_ip6 := p_data p, p_data_proto := i6_next_header ?h,
       p_data := p_data p + 40, p_data_len := dl\<rparr>) 0 40 = Some (p1, 0, sp)"
    "frag_header ?m em p1 = Some p2" "upper_header ?m em p2 = Some q" by metis
  let ?p = "p\<lparr>p_ip6 := p_data p, p_data_proto := i6_next_header ?h, p_data := p_data p + 40, p_data_len := dl\<rparr>"
  have dl: "unat dl \<le> 65535" using c(6) unat_u16_le le_trans by blast
  have e: "advanced ?p p1" "p_ip6_frag p1 = None" "p_icmp p1 = None"
    using ext_headers_advanced [OF c(7)] dl assms(2-4) by simp_all
  have b1: "unat (p_header_len p1) + unat (p_data_len p1) < 131072"
    using e(1) dl assms(2) by (auto simp: advanced_def)
  note f = frag_header_ok [OF c(8) e(2) b1]
  have a: "advanced ?p p2" by (rule advanced_trans [OF e(1) f(1)])
  have u: "if p_data_proto p2 = 58 then q = p2\<lparr>p_icmp := Some (p_data p2)\<rparr> \<and> \<not> p_data_len p2 < 8
      \<and> (em \<or> (\<forall>fr. frag_of ?m p2 = Some fr \<longrightarrow> fr_offset_flags fr AND htons (IP6_F_MASK OR IP6_F_MF) = 0))
      else q = p2 \<and> p_data_proto p2 \<noteq> 1"
    using c(9) by (auto simp: upper_header_def split: if_split_asm option.splits)
  show "w' = w" by (rule c(1))
  from a obtain k where "p_data p2 = p_data p + 40 + k" "unat (p_header_len p2) = k" "unat (p_data_len p2) + k = unat dl"
    "p_ip6 p2 = p_data p" "p_tun_fd p2 = p_tun_fd p" "p_vhdr p2 = p_vhdr p" "p_has_vhdr p2 = p_has_vhdr p"
    using assms(2) by (auto simp: advanced_def)
  then show "parsed6 ?m em p q"
    using u c f(2,3) e(3) unfolding parsed6_def Let_def
    by (cases "p_data_proto p2 = 58") (auto simp: frag_of_def word_less_nat_alt not_less)
qed

end
