(* ===== verification/Payload.thy ===== *)
theory Payload
  imports Parse
begin

text \<open>
  Header and payload translation of \<open>src/src/nat64.c\<close>: \<open>xlate_header_4to6\<close>,
  \<open>xlate_payload_4to6\<close>, \<open>xlate_header_6to4\<close> and \<open>xlate_payload_6to4\<close>, with the identification
  counter. A payload routine returns its result, the packet record (it may clear the checksum
  offload flag) and the world (it writes the checksum field). The switch over the protocol is
  split into one definition per case; \<open>Adjust\<close> is the code after the switch.
\<close>

section \<open>Shared steps\<close>

definition put16 :: "nat \<Rightarrow> u16 \<Rightarrow> world \<Rightarrow> world" where
  "put16 a v w = w\<lparr>w_mem := st16 (w_mem w) a v\<rparr>"

definition clear_needs_csum :: "pkt \<Rightarrow> pkt" where
  "clear_needs_csum p =
     p\<lparr>p_vhdr := (p_vhdr p)\<lparr>vh_flags := vh_flags (p_vhdr p) AND NOT VIRTIO_NET_HDR_F_NEEDS_CSUM\<rparr>\<rparr>"

text \<open>A checksum that means \<open>none\<close> when it is zero is sent as its other representation.\<close>

definition nonzero_ck :: "u16 \<Rightarrow> u16" where
  "nonzero_ck ck = (if ck = 0 then 0xffff else ck)"

text \<open>The offload metadata does not describe the checksum field at \<open>off\<close> of the transport header.\<close>

definition bad_meta :: "pkt \<Rightarrow> u32 \<Rightarrow> u16 \<Rightarrow> u32 \<Rightarrow> bool" where
  "bad_meta p start off lim \<longleftrightarrow>
     ucast (vh_csum_start (p_vhdr p)) \<noteq> start \<or> vh_csum_offset (p_vhdr p) \<noteq> off
     \<or> ucast (vh_csum_start (p_vhdr p)) + ucast (vh_csum_offset (p_vhdr p)) + 2 > lim"

definition bad_udp_len :: "mem \<Rightarrow> pkt \<Rightarrow> bool" where
  "bad_udp_len m p \<longleftrightarrow> (let udp_len = ntohs (ld16 m (p_data p + 4))
     in udp_len < 8 \<or> ucast udp_len > p_data_len p)"

definition bad_tcp_doff :: "mem \<Rightarrow> pkt \<Rightarrow> bool" where
  "bad_tcp_doff m p \<longleftrightarrow> (let doff = (drop_bit 4 (m (p_data p + 12)) AND 0x0f) * 4
     in doff < 20 \<or> ucast doff > p_data_len p)"

text \<open>Where the checksum field of a transport protocol lies.\<close>

definition csum_off :: "u8 \<Rightarrow> nat" where
  "csum_off proto = (if proto = IPPROTO_TCP then 16 else 6)"

datatype verdict = Done err | Adjust

section \<open>IPv4 to IPv6\<close>

definition xlate_header_4to6 :: "mem \<Rightarrow> pkt \<Rightarrow> ip6 \<Rightarrow> u32 \<Rightarrow> ip6" where
  "xlate_header_4to6 m p ip6 payload_length =
     (let h = ld_ip4 m (p_ip4 p)
      in ip6\<lparr>i6_ver_tc_fl := htonl (0x60000000 OR push_bit 20 (ucast (i4_tos h))),
             i6_payload_length := htons (ucast payload_length),
             i6_next_header := if p_data_proto p = 1 then 58 else p_data_proto p,
             i6_hop_limit := i4_ttl h\<rparr>)"

definition full_csum6 :: "mem \<Rightarrow> pkt \<Rightarrow> ip6 \<Rightarrow> u8 \<Rightarrow> u16" where
  "full_csum6 m p ip6 proto =
     ones_add (ip_checksum (pkt_payload m p)) (ip6_checksum ip6 (p_data_len p) proto)"

definition icmp_4to6 :: "pkt \<Rightarrow> ip6 \<Rightarrow> world \<Rightarrow> world" where
  "icmp_4to6 p ip6 w =
     (let m = w_mem w;
          ic = icmp_of m p;
          cksum = ip6_checksum ip6 (ucast (ntohs (i4_length (ld_ip4 m (p_ip4 p)))) - p_header_len p) 58;
          cksum = ones_add (ic_cksum ic) cksum
      in if ic_type ic = 8 then
           put16 (icmp_ptr p + 2) (ones_add cksum (NOT (128 - 8))) (w\<lparr>w_mem := store m (icmp_ptr p) [128]\<rparr>)
         else
           put16 (icmp_ptr p + 2) (ones_add cksum (NOT (129 - 0))) (w\<lparr>w_mem := store m (icmp_ptr p) [129]\<rparr>))"

definition udp_4to6 :: "pkt \<Rightarrow> ip6 \<Rightarrow> bool \<Rightarrow> world \<Rightarrow> verdict \<times> pkt \<times> world" where
  "udp_4to6 p ip6 em w =
     (if p_data_len p < 8 then (Done (if em then ERROR_NONE else ERROR_DROP), p, w)
      else if needs_csum p then
        (if bad_meta p (p_header_len p) 6 (ucast (ntohs (i4_length (ld_ip4 (w_mem w) (p_ip4 p)))))
         then (Done ERROR_DROP, p, w)
         else if bad_udp_len (w_mem w) p then (Done ERROR_DROP, p, w)
         else if w_vnet w = 0 then
           (let w = put16 (p_data p + 6) 0 w;
                ck = nonzero_ck (full_csum6 (w_mem w) p ip6 IPPROTO_UDP)
            in (Done ERROR_NONE, clear_needs_csum p, put16 (p_data p + 6) ck w))
         else (Done ERROR_NONE, p,
               put16 (p_data p + 6) (htons (gso_calc_udp_pseudo6 (i6_src ip6) (i6_dest ip6) (p_data_len p))) w))
      else if ld16 (w_mem w) (p_data p + 6) = 0 then
        (if em then
           (Done (if g_udp_cksum_mode (w_g w) = UDP_CKSUM_DROP then ERROR_DROP else ERROR_NONE), p, w)
         else
           (case g_udp_cksum_mode (w_g w) of
              UDP_CKSUM_DROP \<Rightarrow> (Done ERROR_DROP, p, w)
            | UDP_CKSUM_FWD \<Rightarrow> (Done ERROR_NONE, p, w)
            | UDP_CKSUM_CALC \<Rightarrow>
                (let ck = nonzero_ck (full_csum6 (w_mem w) p ip6 17)
                 in (Done ERROR_NONE, p, put16 (p_data p + 6) ck w))))
      else (Adjust, p, w))"

definition tcp_4to6 :: "pkt \<Rightarrow> ip6 \<Rightarrow> bool \<Rightarrow> world \<Rightarrow> verdict \<times> pkt \<times> world" where
  "tcp_4to6 p ip6 em w =
     (if p_data_len p < 20 then (Done (if em then ERROR_NONE else ERROR_DROP), p, w)
      else if needs_csum p then
        (if bad_meta p (p_header_len p) 16 (ucast (ntohs (i4_length (ld_ip4 (w_mem w) (p_ip4 p)))))
         then (Done ERROR_DROP, p, w)
         else if bad_tcp_doff (w_mem w) p then (Done ERROR_DROP, p, w)
         else if w_vnet w = 0 then
           (let w = put16 (p_data p + 16) 0 w;
                ck = full_csum6 (w_mem w) p ip6 IPPROTO_TCP
            in (Done ERROR_NONE, clear_needs_csum p, put16 (p_data p + 16) ck w))
         else (Done ERROR_NONE, p,
               put16 (p_data p + 16) (htons (gso_calc_tcp_pseudo6 (i6_src ip6) (i6_dest ip6) (p_data_len p))) w))
      else (Adjust, p, w))"

text \<open>UDP-Lite and DCCP; the same lines in both directions.\<close>

definition lite_payload :: "pkt \<Rightarrow> bool \<Rightarrow> world \<Rightarrow> verdict" where
  "lite_payload p em w =
     (if p_data_len p < (if p_data_proto p = IPPROTO_DCCP then 12 else 8)
      then Done (if em then ERROR_NONE else ERROR_DROP)
      else if needs_csum p then Done ERROR_DROP
      else if p_data_proto p = IPPROTO_UDPLITE \<and> ld16 (w_mem w) (p_data p + 6) = 0
      then Done (if em then ERROR_NONE else ERROR_DROP)
      else Adjust)"

definition adjust_4to6 :: "pkt \<Rightarrow> ip6 \<Rightarrow> world \<Rightarrow> world" where
  "adjust_4to6 p ip6 w =
     (let off = csum_off (p_data_proto p);
          adj_ck = ones_add (ld16 (w_mem w) (p_data p + off))
            (NOT (convert_cksum ip6 (ld_ip4 (w_mem w) (p_ip4 p))));
          adj_ck = (if p_data_proto p = IPPROTO_UDP \<or> p_data_proto p = IPPROTO_UDPLITE
                    then nonzero_ck adj_ck else adj_ck)
      in put16 (p_data p + off) adj_ck w)"

definition xlate_payload_4to6 :: "pkt \<Rightarrow> ip6 \<Rightarrow> bool \<Rightarrow> world \<Rightarrow> err \<times> pkt \<times> world" where
  "xlate_payload_4to6 p ip6 em w =
     (let ip4_frag = ntohs (i4_flags_offset (ld_ip4 (w_mem w) (p_ip4 p)))
      in if ip4_frag AND (IP4_F_MASK OR IP4_F_MF) \<noteq> 0 \<and> needs_csum p then (ERROR_DROP, p, w)
         else if ip4_frag AND IP4_F_MASK \<noteq> 0 then (ERROR_NONE, p, w)
         else if p_data_proto p = 1 then (ERROR_NONE, p, icmp_4to6 p ip6 w)
         else
           (case (if p_data_proto p = 17 then udp_4to6 p ip6 em w
                  else if p_data_proto p = 6 then tcp_4to6 p ip6 em w
                  else if p_data_proto p = IPPROTO_DCCP \<or> p_data_proto p = IPPROTO_UDPLITE
                  then (lite_payload p em w, p, w)
                  else (Done (if needs_csum p then ERROR_DROP else ERROR_NONE), p, w)) of
              (Done e, p, w) \<Rightarrow> (e, p, w)
            | (Adjust, p, w) \<Rightarrow> (ERROR_NONE, p, adjust_4to6 p ip6 w)))"

section \<open>IPv6 to IPv4\<close>

text \<open>\<open>reserve_ip4_ident\<close>: fetch and add on a 16-bit counter.\<close>

definition reserve_ip4_ident :: "u16 \<Rightarrow> world \<Rightarrow> u16 \<times> world" where
  "reserve_ip4_ident n w = (w_ident w, w\<lparr>w_ident := w_ident w + n\<rparr>)"

definition next_ip4_ident :: "world \<Rightarrow> u16 \<times> world" where
  "next_ip4_ident w = reserve_ip4_ident 1 w"

definition xlate_header_6to4 :: "pkt \<Rightarrow> ip4 \<Rightarrow> u32 \<Rightarrow> world \<Rightarrow> ip4 \<times> world" where
  "xlate_header_6to4 p ip4 payload_length w =
     (let h = ld_ip6 (w_mem w) (p_ip6 p);
          ip4 = ip4\<lparr>i4_ver_ihl := 0x45, i4_tos := ucast (drop_bit 20 (ntohl (i6_ver_tc_fl h)) AND 0xff),
                    i4_length := htons (ucast (20 + payload_length))\<rparr>;
          (ip4, w) =
            (case frag_of (w_mem w) p of
               Some fr \<Rightarrow>
                 (let fo = htons (drop_bit 3 (ntohs (fr_offset_flags fr)));
                      fo = (if fr_offset_flags fr AND htons IP6_F_MF \<noteq> 0 then fo OR htons IP4_F_MF else fo)
                  in (ip4\<lparr>i4_ident := htons (ucast (ntohl (fr_ident fr) AND 0xffff)),
                          i4_flags_offset := fo AND NOT (htons IP4_F_DF)\<rparr>, w))
             | None \<Rightarrow>
                 (if 20 + payload_length \<le> 1260 then
                    (case next_ip4_ident w of (n, w) \<Rightarrow> (ip4\<lparr>i4_ident := htons n, i4_flags_offset := 0\<rparr>, w))
                  else (ip4\<lparr>i4_ident := 0, i4_flags_offset := htons IP4_F_DF\<rparr>, w)))
      in (ip4\<lparr>i4_ttl := i6_hop_limit h, i4_proto := if p_data_proto p = 58 then 1 else p_data_proto p,
              i4_cksum := 0\<rparr>, w))"

definition full_csum4 :: "mem \<Rightarrow> pkt \<Rightarrow> ip4 \<Rightarrow> u8 \<Rightarrow> u16" where
  "full_csum4 m p ip4 proto =
     ones_add (ip_checksum (pkt_payload m p)) (ip4_checksum ip4 (p_data_len p) proto)"

definition icmp_6to4 :: "pkt \<Rightarrow> world \<Rightarrow> world" where
  "icmp_6to4 p w =
     (let m = w_mem w;
          ic = icmp_of m p;
          h = ld_ip6 m (p_ip6 p);
          cksum = NOT (ip6_checksum h (ucast (ntohs (i6_payload_length h)) - p_header_len p) 58);
          cksum = ones_add (ic_cksum ic) cksum
      in if ic_type ic = 128 then
           put16 (icmp_ptr p + 2) (ones_add cksum (128 - 8)) (w\<lparr>w_mem := store m (icmp_ptr p) [8]\<rparr>)
         else
           put16 (icmp_ptr p + 2) (ones_add cksum (129 - 0)) (w\<lparr>w_mem := store m (icmp_ptr p) [0]\<rparr>))"

definition total6 :: "mem \<Rightarrow> pkt \<Rightarrow> u32" where
  "total6 m p = 40 + ucast (ntohs (i6_payload_length (ld_ip6 m (p_ip6 p))))"

definition udp_6to4 :: "pkt \<Rightarrow> ip4 \<Rightarrow> bool \<Rightarrow> world \<Rightarrow> verdict \<times> pkt \<times> world" where
  "udp_6to4 p ip4 em w =
     (if p_data_len p < 8 then (Done (if em then ERROR_NONE else ERROR_DROP), p, w)
      else if needs_csum p then
        (if bad_meta p (40 + p_header_len p) 6 (total6 (w_mem w) p) then (Done ERROR_DROP, p, w)
         else if bad_udp_len (w_mem w) p then (Done ERROR_DROP, p, w)
         else if w_vnet w = 0 then
           (let w = put16 (p_data p + 6) 0 w;
                ck = nonzero_ck (full_csum4 (w_mem w) p ip4 IPPROTO_UDP)
            in (Done ERROR_NONE, clear_needs_csum p, put16 (p_data p + 6) ck w))
         else (Done ERROR_NONE, p,
               put16 (p_data p + 6) (htons (gso_calc_udp_pseudo4 (i4_src ip4) (i4_dest ip4) (p_data_len p))) w))
      else if ld16 (w_mem w) (p_data p + 6) = 0 then
        (if em then
           (Done (if g_udp_cksum_mode (w_g w) = UDP_CKSUM_DROP then ERROR_DROP else ERROR_NONE), p, w)
         else
           (case g_udp_cksum_mode (w_g w) of
              UDP_CKSUM_DROP \<Rightarrow> (Done ERROR_DROP, p, w)
            | UDP_CKSUM_FWD \<Rightarrow> (Done ERROR_NONE, p, w)
            | UDP_CKSUM_CALC \<Rightarrow>
                (let ck = nonzero_ck (full_csum4 (w_mem w) p ip4 (p_data_proto p))
                 in (Done ERROR_NONE, p, put16 (p_data p + 6) ck w))))
      else (Adjust, p, w))"

definition tcp_6to4 :: "pkt \<Rightarrow> ip4 \<Rightarrow> bool \<Rightarrow> world \<Rightarrow> verdict \<times> pkt \<times> world" where
  "tcp_6to4 p ip4 em w =
     (if p_data_len p < 20 then (Done (if em then ERROR_NONE else ERROR_DROP), p, w)
      else if needs_csum p then
        (if bad_meta p (40 + p_header_len p) 16 (total6 (w_mem w) p) then (Done ERROR_DROP, p, w)
         else if bad_tcp_doff (w_mem w) p then (Done ERROR_DROP, p, w)
         else if w_vnet w = 0 then
           (let w = put16 (p_data p + 16) 0 w;
                ck = full_csum4 (w_mem w) p ip4 IPPROTO_TCP
            in (Done ERROR_NONE, clear_needs_csum p, put16 (p_data p + 16) ck w))
         else (Done ERROR_NONE, p,
               put16 (p_data p + 16) (htons (gso_calc_tcp_pseudo4 (i4_src ip4) (i4_dest ip4) (p_data_len p))) w))
      else (Adjust, p, w))"

definition adjust_6to4 :: "pkt \<Rightarrow> ip4 \<Rightarrow> world \<Rightarrow> world" where
  "adjust_6to4 p ip4 w =
     (let off = csum_off (p_data_proto p);
          adj_ck = ones_add (ld16 (w_mem w) (p_data p + off))
            (convert_cksum (ld_ip6 (w_mem w) (p_ip6 p)) ip4);
          adj_ck = (if p_data_proto p = IPPROTO_UDP \<or> p_data_proto p = IPPROTO_UDPLITE
                    then nonzero_ck adj_ck else adj_ck)
      in put16 (p_data p + off) adj_ck w)"

definition xlate_payload_6to4 :: "pkt \<Rightarrow> ip4 \<Rightarrow> bool \<Rightarrow> world \<Rightarrow> err \<times> pkt \<times> world" where
  "xlate_payload_6to4 p ip4 em w =
     (let ip6_frag = (case frag_of (w_mem w) p of Some fr \<Rightarrow> ntohs (fr_offset_flags fr) | None \<Rightarrow> 0)
      in if ip6_frag AND (IP6_F_MASK OR IP6_F_MF) \<noteq> 0 \<and> needs_csum p then (ERROR_DROP, p, w)
         else if ip6_frag AND IP6_F_MASK \<noteq> 0 then (ERROR_NONE, p, w)
         else if p_data_proto p = 58 then (ERROR_NONE, p, icmp_6to4 p w)
         else
           (case (if p_data_proto p = 17 then udp_6to4 p ip4 em w
                  else if p_data_proto p = 6 then tcp_6to4 p ip4 em w
                  else if p_data_proto p = IPPROTO_DCCP \<or> p_data_proto p = IPPROTO_UDPLITE
                  then (lite_payload p em w, p, w)
                  else (Done (if needs_csum p then ERROR_DROP else ERROR_NONE), p, w)) of
              (Done e, p, w) \<Rightarrow> (e, p, w)
            | (Adjust, p, w) \<Rightarrow> (ERROR_NONE, p, adjust_6to4 p ip4 w)))"

end
