(* ===== verification/Nat64.thy ===== *)
theory Nat64
  imports Payload Addrmap
begin

text \<open>
  The translation of a packet that is not for the translator itself (\<open>src/src/nat64.c\<close>):
  \<open>xlate_4to6_data\<close> with the fragmentation of its output, \<open>xlate_4to6_icmp_error\<close>,
  \<open>xlate_6to4_data\<close> and \<open>xlate_6to4_icmp_error\<close>, in the branches compiled for Linux. A function
  that runs the fragmentation loop returns an option, where \<open>None\<close> stands for a loop that does
  not end. The mapping functions fail with the results reject and drop only (proved with the
  mapping tables), so every failure but a reject is the drop branch here.
\<close>

section \<open>IPv4 data to IPv6\<close>

text \<open>The header on the stack before it is filled in; every other field is assigned later.\<close>

definition ip6_new :: "in6_addr \<Rightarrow> in6_addr \<Rightarrow> ip6" where
  "ip6_new src dest = \<lparr>i6_ver_tc_fl = 0, i6_payload_length = 0, i6_next_header = 0, i6_hop_limit = 0,
     i6_src = src, i6_dest = dest\<rparr>"

definition ip4_new :: "in_addr \<Rightarrow> in_addr \<Rightarrow> ip4" where
  "ip4_new src dest = \<lparr>i4_ver_ihl = 0, i4_tos = 0, i4_length = 0, i4_ident = 0, i4_flags_offset = 0,
     i4_ttl = 0, i4_proto = 0, i4_cksum = 0, i4_src = src, i4_dest = dest\<rparr>"

text \<open>The offload header that goes with a packet the device still has to checksum.\<close>

definition out_vhdr :: "pkt \<Rightarrow> u16 \<Rightarrow> vnet_hdr option" where
  "out_vhdr p l3 =
     (if needs_csum p \<and> (p_data_proto p = IPPROTO_TCP \<or> p_data_proto p = IPPROTO_UDP)
      then Some ((p_vhdr p)\<lparr>vh_gso_type := VIRTIO_NET_HDR_GSO_NONE, vh_csum_start := l3,
             vh_csum_offset := if p_data_proto p = IPPROTO_UDP then 6 else 16\<rparr>)
      else None)"

definition send_whole6 :: "ip6 \<Rightarrow> pkt \<Rightarrow> world \<Rightarrow> world" where
  "send_whole6 h p w =
     (let out = p_data p - 40;
          w = w\<lparr>w_mem := store (w_mem w) out (ip6_bytes h)\<rparr>
      in snd (tun_write_vnet_inplace (out_vhdr p 40) out (40 + unat (p_data_len p)) w))"

text \<open>The checksum is completed before the payload is cut.\<close>

definition complete_csum6 :: "ip6 \<Rightarrow> pkt \<Rightarrow> world \<Rightarrow> pkt \<times> world" where
  "complete_csum6 h p w =
     (if needs_csum p then
        (let csum_off = p_data p + (if p_data_proto p = IPPROTO_UDP then 6 else 16);
             w = put16 csum_off 0 w;
             ck = full_csum6 (w_mem w) p h (p_data_proto p);
             ck = (if p_data_proto p = IPPROTO_UDP \<and> ck = 0 then 0xffff else ck)
         in (clear_needs_csum p, put16 csum_off ck w))
      else (p, w))"

text \<open>The loop over the fragments; \<open>frag_size\<close> of zero with data left would repeat for ever.\<close>

partial_function (option) frag_loop ::
  "ip6 \<Rightarrow> ip6_frag \<Rightarrow> u32 \<Rightarrow> u16 \<Rightarrow> pkt \<Rightarrow> world \<Rightarrow> world option" where
  "frag_loop h fr frag_size off p w =
     (if p_data_len p = 0 then Some w
      else
        (let frag_size = (if p_data_len p < frag_size then p_data_len p else frag_size);
             h = h\<lparr>i6_payload_length := htons (ucast (8 + frag_size))\<rparr>;
             fr = fr\<lparr>fr_offset_flags := htons off\<rparr>;
             data = load (w_mem w) (p_data p) (unat frag_size);
             p = p\<lparr>p_data := p_data p + unat frag_size, p_data_len := p_data_len p - frag_size\<rparr>;
             off = off + ucast frag_size;
             fr = (if p_data_len p \<noteq> 0 \<or> i4_flags_offset (ld_ip4 (w_mem w) (p_ip4 p)) AND htons IP4_F_MF \<noteq> 0
                   then fr\<lparr>fr_offset_flags := fr_offset_flags fr OR htons IP6_F_MF\<rparr> else fr)
         in case tun_writev [ip6_bytes h @ ip6_frag_bytes fr, data] w of
              (ret, w) \<Rightarrow> if ret < 0 then Some w else frag_loop h fr frag_size off p w))"

definition send_fragments6 :: "ip6 \<Rightarrow> u32 \<Rightarrow> u16 \<Rightarrow> pkt \<Rightarrow> world \<Rightarrow> world option" where
  "send_fragments6 h frag_size off p w =
     (case complete_csum6 h p w of
        (p, w) \<Rightarrow>
          (let fr = \<lparr>fr_next_header = i6_next_header h, fr_reserved = 0, fr_offset_flags = 0,
                     fr_ident = htonl (ucast (ntohs (i4_ident (ld_ip4 (w_mem w) (p_ip4 p)))))\<rparr>;
               h = h\<lparr>i6_next_header := 44\<rparr>
           in frag_loop h fr ((frag_size - 8) AND NOT 7) ((off AND IP4_F_MASK) * 8) p w))"

definition xlate_4to6_data :: "pkt \<Rightarrow> world \<Rightarrow> world option" where
  "xlate_4to6_data p w =
     (let ip4 = ld_ip4 (w_mem w) (p_ip4 p);
          mtu = ucast (g_mtu (w_g w));
          off = ntohs (i4_flags_offset ip4);
          frag_size = g_ipv6_offlink_mtu (w_g w);
          frag_size = (if frag_size > mtu then mtu else frag_size);
          frag_size = frag_size - 40
      in case with_g (map_ip4_to_ip6 (i4_dest ip4)) w of
           (Inl e, w) \<Rightarrow> Some (if e = ERROR_REJECT then host_send_icmp4_error 3 1 0 p w else w)
         | (Inr dest, w) \<Rightarrow>
             (case with_g (map_ip4_to_ip6 (i4_src ip4)) w of
                (Inl e, w) \<Rightarrow> Some (if e = ERROR_REJECT then host_send_icmp4_error 3 10 0 p w else w)
              | (Inr src, w) \<Rightarrow>
                  if off AND (IP4_F_MASK OR IP4_F_MF) = 0 \<and> off AND IP4_F_DF \<noteq> 0
                     \<and> 40 + unat (p_data_len p) > unat mtu
                  then Some (host_send_icmp4_error 3 4 (mtu - MTU_ADJ) p w)
                  else
                    (let no_frag_hdr = (off AND (IP4_F_MASK OR IP4_F_MF) = 0
                           \<and> (off AND IP4_F_DF \<noteq> 0 \<or> p_data_len p \<le> frag_size));
                         h = xlate_header_4to6 (w_mem w) p (ip6_new src dest) (p_data_len p);
                         h = h\<lparr>i6_hop_limit := i6_hop_limit h - 1\<rparr>
                     in case xlate_payload_4to6 p h False w of
                          (e, p, w) \<Rightarrow>
                            if e \<noteq> ERROR_NONE then Some w
                            else if no_frag_hdr then Some (send_whole6 h p w)
                            else send_fragments6 h frag_size off p w)))"

section \<open>IPv4 ICMP errors to IPv6\<close>

fun est_mtu_table :: "u32 \<Rightarrow> u32 list \<Rightarrow> u32" where
  "est_mtu_table too_big [] = 68"
| "est_mtu_table too_big (t # ts) = (if too_big > t then t else est_mtu_table too_big ts)"

definition est_mtu :: "u32 \<Rightarrow> u32" where
  "est_mtu too_big =
     est_mtu_table too_big [65535, 32000, 17914, 8166, 4352, 2002, 1492, 1006, 508, 296]"

text \<open>
  The ICMP header of the translated error: \<open>em_length\<close> is the length of the embedded packet in
  host order. \<open>None\<close> is a message that is not translated.
\<close>

definition ptr_tbl_4to6 :: "int list" where
  "ptr_tbl_4to6 = [0, 1, 4, 4, -1, -1, -1, -1, 7, 6, -1, -1, 8, 8, 8, 8, 24, 24, 24, 24]"

definition icmp_head :: "u8 \<Rightarrow> u8 \<Rightarrow> u32 \<Rightarrow> icmp" where
  "icmp_head type code word = \<lparr>ic_type = type, ic_code = code, ic_cksum = 0, ic_word = word\<rparr>"

definition icmp_error_4to6 :: "u32 \<Rightarrow> u16 \<Rightarrow> icmp \<Rightarrow> icmp option" where
  "icmp_error_4to6 own_mtu em_length ic =
     (if ic_type ic = 3 then
        (if ic_code ic \<in> {0, 1, 5, 6, 7, 8, 11, 12} then Some (icmp_head 1 0 0)
         else if ic_code ic = 2 then Some (icmp_head 4 1 (htonl 6))
         else if ic_code ic = 3 then Some (icmp_head 1 4 0)
         else if ic_code ic = 4 then
           (let mtu = ntohl (ic_word ic) AND 0xffff;
                mtu = (if mtu < 68 then est_mtu (ucast em_length) else mtu);
                mtu = mtu + MTU_ADJ;
                mtu = (if mtu > own_mtu then own_mtu else mtu);
                mtu = (if mtu < MTU_MIN then MTU_MIN else mtu)
            in Some (icmp_head 2 0 (htonl mtu)))
         else if ic_code ic \<in> {9, 10, 13, 15} then Some (icmp_head 1 1 0)
         else None)
      else if ic_type ic = 11 then Some (icmp_head 3 (ic_code ic) 0)
      else if ic_type ic = 12 then
        (let old_ptr = drop_bit 24 (ntohl (ic_word ic))
         in if ic_code ic \<noteq> 0 \<and> ic_code ic \<noteq> 2 then None
            else if old_ptr > 19 then None
            else if ptr_tbl_4to6 ! unat old_ptr < 0 then None
            else Some (icmp_head 4 0 (htonl (word_of_int (ptr_tbl_4to6 ! unat old_ptr)))))
      else None)"


text \<open>The packet embedded in an error: what follows the ICMP header, cut to the length it gives.\<close>

definition em_start :: "pkt \<Rightarrow> pkt" where
  "em_start p = pkt_zero\<lparr>p_data := p_data p + 8, p_data_len := p_data_len p - 8\<rparr>"

definition em_cut :: "u16 \<Rightarrow> pkt \<Rightarrow> pkt option" where
  "em_cut em_len p_em =
     (if em_len = 0 then Some p_em
      else if p_data_len p_em < ucast em_len then None
      else Some (p_em\<lparr>p_data_len := ucast em_len\<rparr>))"

text \<open>Length, validity and kind of the embedded packet, up to the cut to the minimum MTU.\<close>

definition em_packet4 :: "pkt \<Rightarrow> world \<Rightarrow> (pkt \<times> u16 \<times> u32) option" where
  "em_packet4 p w =
     (let ic = icmp_of (w_mem w) p;
          em_len = (if ic_type ic = 3 \<or> ic_type ic = 11 \<or> ic_type ic = 12
                    then ucast (drop_bit 14 (ntohl (ic_word ic)) AND 0x3fc) else 0)
      in case em_cut em_len (em_start p) of
           None \<Rightarrow> None
         | Some p_em \<Rightarrow>
             (case parse_ip4 (w_mem w) True p_em of
                Inl _ \<Rightarrow> None
              | Inr p_em \<Rightarrow>
                  if p_data_proto p_em = 1 \<and> ic_type (icmp_of (w_mem w) p_em) \<noteq> 8 then None
                  else
                    (let em_off = ntohs (i4_flags_offset (ld_ip4 (w_mem w) (p_ip4 p_em)));
                         em_frag_len = (if em_off AND (IP4_F_MASK OR IP4_F_MF) \<noteq> 0 then 8 else 0);
                         p_em = (if 40 * 2 + 8 + em_frag_len + p_data_len p_em > MTU_MIN
                                 then p_em\<lparr>p_data_len := MTU_MIN - 40 * 2 - 8 - em_frag_len\<rparr> else p_em)
                     in Some (p_em, em_off, em_frag_len))))"

text \<open>The embedded IPv6 header with its fragment header, as bytes.\<close>

definition em_header6 :: "mem \<Rightarrow> pkt \<Rightarrow> u16 \<Rightarrow> u32 \<Rightarrow> in6_addr \<Rightarrow> in6_addr \<Rightarrow> ip6 \<times> u8 list" where
  "em_header6 m p_em em_off em_frag_len src dest =
     (let ip4 = ld_ip4 m (p_ip4 p_em);
          em_payload_len = ucast (ntohs (i4_length ip4)) - p_header_len p_em + em_frag_len;
          em_payload_len = (if em_payload_len > 0xffff then 0xffff else em_payload_len);
          h = xlate_header_4to6 m p_em (ip6_new src dest) em_payload_len
      in if em_frag_len \<noteq> 0 then
           (let fr = \<lparr>fr_next_header = i6_next_header h, fr_reserved = 0,
                  fr_offset_flags = htons (push_bit 3 (em_off AND IP4_F_MASK)
                     OR (if em_off AND IP4_F_MF \<noteq> 0 then IP6_F_MF else 0)),
                  fr_ident = htonl (ucast (ntohs (i4_ident ip4)))\<rparr>;
                h = h\<lparr>i6_next_header := 44\<rparr>
            in (h, ip6_bytes h @ ip6_frag_bytes fr))
         else (h, ip6_bytes h))"

text \<open>The outer headers, the checksum and the write; \<open>em\<close> is the embedded header.\<close>

definition send_error6 :: "pkt \<Rightarrow> icmp \<Rightarrow> u8 list \<Rightarrow> u32 \<Rightarrow> pkt \<Rightarrow> in6_addr \<Rightarrow> in6_addr \<Rightarrow> world \<Rightarrow> world" where
  "send_error6 p ic em em_frag_len p_em src dest w =
     (let data = pkt_payload (w_mem w) p_em;
          h = xlate_header_4to6 (w_mem w) p (ip6_new src dest) (8 + 40 + em_frag_len + p_data_len p_em);
          h = h\<lparr>i6_hop_limit := i6_hop_limit h - 1\<rparr>;
          ic = ic\<lparr>ic_cksum := 0\<rparr>;
          ck = ones_add (ip6_checksum h (ucast (ntohs (i6_payload_length h))) 58)
                 (ones_add (ip_checksum (icmp_bytes ic @ em)) (ip_checksum data))
      in snd (tun_writev [ip6_bytes h @ icmp_bytes (ic\<lparr>ic_cksum := ck\<rparr>) @ em, data] w))"

definition xlate_4to6_icmp_error :: "pkt \<Rightarrow> world \<Rightarrow> world" where
  "xlate_4to6_icmp_error p w =
     (case em_packet4 p w of
        None \<Rightarrow> w
      | Some (p_em, em_off, em_frag_len) \<Rightarrow>
          (let em_ip4 = ld_ip4 (w_mem w) (p_ip4 p_em)
           in case with_g (map_ip4_to_ip6 (i4_src em_ip4)) w of
                (Inl _, w) \<Rightarrow> w
              | (Inr em_src, w) \<Rightarrow>
                  (case with_g (map_ip4_to_ip6 (i4_dest em_ip4)) w of
                     (Inl _, w) \<Rightarrow> w
                   | (Inr em_dest, w) \<Rightarrow>
                       (case em_header6 (w_mem w) p_em em_off em_frag_len em_src em_dest of
                          (h_em, em) \<Rightarrow>
                            (case icmp_error_4to6 (ucast (g_mtu (w_g w))) (ntohs (i4_length em_ip4)) (icmp_of (w_mem w) p) of
                               None \<Rightarrow> w
                             | Some ic \<Rightarrow>
                                 (case xlate_payload_4to6 p_em h_em True w of
                                    (e, p_em, w) \<Rightarrow>
                                      if e \<noteq> ERROR_NONE then w
                                      else
                                        (case with_g (map_ip4_to_ip6 (i4_src (ld_ip4 (w_mem w) (p_ip4 p)))) w of
                                           (r, w) \<Rightarrow>
                                             (let src = (case r of Inl _ \<Rightarrow> g_local_addr6 (w_g w) | Inr a \<Rightarrow> a)
                                              in case with_g (map_ip4_to_ip6 (i4_dest (ld_ip4 (w_mem w) (p_ip4 p)))) w of
                                                   (Inl _, w) \<Rightarrow> w
                                                 | (Inr dest, w) \<Rightarrow>
                                                     send_error6 p ic em em_frag_len p_em src dest w))))))))"

section \<open>IPv6 data to IPv4\<close>

definition send_whole4 :: "ip4 \<Rightarrow> pkt \<Rightarrow> world \<Rightarrow> world" where
  "send_whole4 h p w =
     (let out = p_data p - 20;
          w = w\<lparr>w_mem := store (w_mem w) out (ip4_bytes h)\<rparr>
      in snd (tun_write_vnet_inplace (out_vhdr p 20) out (20 + unat (p_data_len p)) w))"

definition xlate_6to4_data :: "pkt \<Rightarrow> world \<Rightarrow> world" where
  "xlate_6to4_data p w =
     (let ip6 = ld_ip6 (w_mem w) (p_ip6 p);
          mtu = ucast (g_mtu (w_g w))
      in case with_g (map_ip6_to_ip4 (i6_dest ip6) False) w of
           (Inl e, w) \<Rightarrow> if e = ERROR_REJECT then host_send_icmp6_error 1 0 0 p w else w
         | (Inr dest, w) \<Rightarrow>
             (case with_g (map_ip6_to_ip4 (i6_src ip6) True) w of
                (Inl e, w) \<Rightarrow> if e = ERROR_REJECT then host_send_icmp6_error 1 5 0 p w else w
              | (Inr src, w) \<Rightarrow>
                  if 40 + unat (p_data_len p) > unat mtu then host_send_icmp6_error 2 0 mtu p w
                  else
                    (case xlate_header_6to4 p (ip4_new src dest) (p_data_len p) w of
                       (h, w) \<Rightarrow>
                         (let h = h\<lparr>i4_ttl := i4_ttl h - 1\<rparr>
                          in case xlate_payload_6to4 p h False w of
                               (e, p, w) \<Rightarrow>
                                 if e \<noteq> ERROR_NONE then w
                                 else send_whole4 (h\<lparr>i4_cksum := ip4_header_checksum h\<rparr>) p w))))"

section \<open>IPv6 ICMP errors to IPv4\<close>

definition ptr_tbl_6to4 :: "int list" where
  "ptr_tbl_6to4 = [0, 1, -1, -1, 2, 2, 9, 8]"

definition icmp_error_6to4 :: "u32 \<Rightarrow> icmp \<Rightarrow> icmp option" where
  "icmp_error_6to4 own_mtu ic =
     (if ic_type ic = 1 then
        (if ic_code ic \<in> {0, 2, 3} then Some (icmp_head 3 1 0)
         else if ic_code ic \<in> {1, 5, 6} then Some (icmp_head 3 10 0)
         else if ic_code ic = 4 then Some (icmp_head 3 3 0)
         else None)
      else if ic_type ic = 2 then
        (let mtu = ntohl (ic_word ic)
         in if mtu < 68 + MTU_ADJ then None
            else
              (let mtu = (if mtu > own_mtu then own_mtu else mtu)
               in Some (icmp_head 3 4 (htonl (mtu - MTU_ADJ)))))
      else if ic_type ic = 3 then Some (icmp_head 11 (ic_code ic) 0)
      else if ic_type ic = 4 then
        (if ic_code ic = 0 then
           (let old_ptr = ntohl (ic_word ic)
            in if old_ptr > 39 then None
               else
                 (let new_ptr = (if old_ptr > 23 then 16 else if old_ptr > 7 then 12
                                 else ptr_tbl_6to4 ! unat old_ptr)
                  in if new_ptr < 0 then None
                     else Some (icmp_head 12 0 (htonl (push_bit 24 (word_of_int new_ptr))))))
         else if ic_code ic = 1 then Some (icmp_head 3 2 0)
         else None)
      else None)"

definition em_packet6 :: "pkt \<Rightarrow> world \<Rightarrow> pkt option" where
  "em_packet6 p w =
     (let ic = icmp_of (w_mem w) p;
          em_len = (if ic_type ic = 1 \<or> ic_type ic = 3
                    then ucast (drop_bit 21 (ntohl (ic_word ic)) AND 0x7f8) else 0)
      in case em_cut em_len (em_start p) of
           None \<Rightarrow> None
         | Some p_em \<Rightarrow>
             (case fst (parse_ip6 p_em True w) of
                Inl _ \<Rightarrow> None
              | Inr p_em \<Rightarrow>
                  if p_data_proto p_em = 58 \<and> ic_type (icmp_of (w_mem w) p_em) \<noteq> 128 then None
                  else Some (if 20 * 2 + 8 + p_data_len p_em > 576
                             then p_em\<lparr>p_data_len := 576 - 20 * 2 - 8\<rparr> else p_em)))"

definition send_error4 :: "pkt \<Rightarrow> icmp \<Rightarrow> ip4 \<Rightarrow> pkt \<Rightarrow> in_addr \<Rightarrow> in_addr \<Rightarrow> world \<Rightarrow> world" where
  "send_error4 p ic h_em p_em src dest w =
     (case xlate_header_6to4 p (ip4_new src dest) (8 + 20 + p_data_len p_em) w of
        (h, w) \<Rightarrow>
          (let h = h\<lparr>i4_ttl := i4_ttl h - 1\<rparr>;
               h = h\<lparr>i4_cksum := ip4_header_checksum h\<rparr>;
               data = pkt_payload (w_mem w) p_em;
               ic = ic\<lparr>ic_cksum := 0\<rparr>;
               ck = ones_add (ip_checksum (icmp_bytes ic @ ip4_bytes h_em)) (ip_checksum data)
           in snd (tun_writev [ip4_bytes h @ icmp_bytes (ic\<lparr>ic_cksum := ck\<rparr>) @ ip4_bytes h_em, data] w)))"

definition xlate_6to4_icmp_error :: "pkt \<Rightarrow> world \<Rightarrow> world" where
  "xlate_6to4_icmp_error p w =
     (case em_packet6 p w of
        None \<Rightarrow> w
      | Some p_em \<Rightarrow>
          (case icmp_error_6to4 (ucast (g_mtu (w_g w))) (icmp_of (w_mem w) p) of
             None \<Rightarrow> w
           | Some ic \<Rightarrow>
               (let em_ip6 = ld_ip6 (w_mem w) (p_ip6 p_em)
                in case with_g (map_ip6_to_ip4 (i6_src em_ip6) False) w of
                     (Inl _, w) \<Rightarrow> w
                   | (Inr em_src, w) \<Rightarrow>
                       (case with_g (map_ip6_to_ip4 (i6_dest em_ip6) False) w of
                          (Inl _, w) \<Rightarrow> w
                        | (Inr em_dest, w) \<Rightarrow>
                            (case xlate_header_6to4 p_em (ip4_new em_src em_dest)
                                 (ucast (ntohs (i6_payload_length em_ip6)) - p_header_len p_em) w of
                               (h_em, w) \<Rightarrow>
                                 (case xlate_payload_6to4 p_em h_em True w of
                                    (e, p_em, w) \<Rightarrow>
                                      if e \<noteq> ERROR_NONE then w
                                      else
                                        (let h_em = h_em\<lparr>i4_cksum := ip_checksum (ip4_bytes h_em)\<rparr>
                                         in case with_g (map_ip6_to_ip4 (i6_src (ld_ip6 (w_mem w) (p_ip6 p))) False) w of
                                              (r, w) \<Rightarrow>
                                                (let src = (case r of Inl _ \<Rightarrow> g_local_addr4 (w_g w) | Inr a \<Rightarrow> a)
                                                 in case with_g (map_ip6_to_ip4 (i6_dest (ld_ip6 (w_mem w) (p_ip6 p))) False) w of
                                                      (Inl _, w) \<Rightarrow> w
                                                    | (Inr dest, w) \<Rightarrow>
                                                        send_error4 p ic h_em p_em src dest w))))))))"

end
