(* ===== verification/Gso.thy ===== *)
theory Gso
  imports Payload Addrmap
begin

text \<open>
  Segmentation offload (\<open>src/src/gso.c\<close>): the tests on offloaded frames, the mapping of their
  addresses, the update of TCP checksums and the software segmentation of TCP and UDP in both
  directions. A frame lies in the receive buffer at \<open>p_data\<close>. A result is the int of the C
  function; the segmentation loops are written once, as a loop over a function that makes the
  headers of one segment, and return \<open>None\<close> when they do not end. Counters are left out.
\<close>

section \<open>Transport headers\<close>

record tcp_hdr =
  tcp_src_port :: u16
  tcp_dst_port :: u16
  tcp_seq :: u32
  tcp_ack_seq :: u32
  tcp_doff_res :: u8
  tcp_flags :: u8
  tcp_window :: u16
  tcp_cksum :: u16
  tcp_urg_ptr :: u16

record udp_hdr =
  udp_src_port :: u16
  udp_dst_port :: u16
  udp_length :: u16
  udp_cksum :: u16

definition TCP_FLAG_FIN :: u8 where "TCP_FLAG_FIN = 0x01"
definition TCP_FLAG_PSH :: u8 where "TCP_FLAG_PSH = 0x08"
definition TCP_FLAG_CWR :: u8 where "TCP_FLAG_CWR = 0x80"

definition ld_tcp :: "mem \<Rightarrow> nat \<Rightarrow> tcp_hdr" where
  "ld_tcp m a = \<lparr>tcp_src_port = ld16 m a, tcp_dst_port = ld16 m (a + 2), tcp_seq = ld32 m (a + 4),
     tcp_ack_seq = ld32 m (a + 8), tcp_doff_res = m (a + 12), tcp_flags = m (a + 13),
     tcp_window = ld16 m (a + 14), tcp_cksum = ld16 m (a + 16), tcp_urg_ptr = ld16 m (a + 18)\<rparr>"

definition tcp_bytes :: "tcp_hdr \<Rightarrow> u8 list" where
  "tcp_bytes t = le_bytes 2 (tcp_src_port t) @ le_bytes 2 (tcp_dst_port t) @ le_bytes 4 (tcp_seq t)
     @ le_bytes 4 (tcp_ack_seq t) @ [tcp_doff_res t, tcp_flags t] @ le_bytes 2 (tcp_window t)
     @ le_bytes 2 (tcp_cksum t) @ le_bytes 2 (tcp_urg_ptr t)"

definition ld_udp :: "mem \<Rightarrow> nat \<Rightarrow> udp_hdr" where
  "ld_udp m a = \<lparr>udp_src_port = ld16 m a, udp_dst_port = ld16 m (a + 2), udp_length = ld16 m (a + 4),
     udp_cksum = ld16 m (a + 6)\<rparr>"

definition udp_bytes :: "udp_hdr \<Rightarrow> u8 list" where
  "udp_bytes u = le_bytes 2 (udp_src_port u) @ le_bytes 2 (udp_dst_port u) @ le_bytes 2 (udp_length u)
     @ le_bytes 2 (udp_cksum u)"

lemma length_tcp_bytes [simp]: "length (tcp_bytes t) = 20"
  by (simp add: tcp_bytes_def)

lemma length_udp_bytes [simp]: "length (udp_bytes u) = 8"
  by (simp add: udp_bytes_def)

text \<open>\<open>(doff_res >> 4) * 4\<close>\<close>

definition tcp_hdr_len :: "mem \<Rightarrow> nat \<Rightarrow> u32" where
  "tcp_hdr_len m a = ucast (drop_bit 4 (tcp_doff_res (ld_tcp m a))) * 4"

section \<open>Checksum updates\<close>

definition gso_update_csum_seed_6to4 :: "in_addr \<Rightarrow> in_addr \<Rightarrow> u32 \<Rightarrow> tcp_hdr \<Rightarrow> tcp_hdr" where
  "gso_update_csum_seed_6to4 src4 dst4 tcp_len tcp =
     tcp\<lparr>tcp_cksum := htons (gso_calc_tcp_pseudo4 src4 dst4 tcp_len)\<rparr>"

definition gso_update_csum_seed_4to6 :: "in6_addr \<Rightarrow> in6_addr \<Rightarrow> u32 \<Rightarrow> tcp_hdr \<Rightarrow> tcp_hdr" where
  "gso_update_csum_seed_4to6 src6 dst6 tcp_len tcp =
     tcp\<lparr>tcp_cksum := htons (gso_calc_tcp_pseudo6 src6 dst6 tcp_len)\<rparr>"

text \<open>The incremental update of a full checksum: old words are added, new ones complemented.\<close>

definition not_halves :: "u32 \<Rightarrow> u32" where
  "not_halves w = ucast (NOT (ntohs (ucast w))) + ucast (NOT (ntohs (ucast (drop_bit 16 w))))"

definition fold_nonzero :: "u32 \<Rightarrow> u16" where
  "fold_nonzero s = (let s = fold16 s; s = (if s = 0 then 0xffff else s) in htons (ucast s))"

definition gso_update_csum_6to4 ::
  "in6_addr \<Rightarrow> in6_addr \<Rightarrow> in_addr \<Rightarrow> in_addr \<Rightarrow> u32 \<Rightarrow> tcp_hdr \<Rightarrow> tcp_hdr" where
  "gso_update_csum_6to4 src6 dst6 src4 dst4 tcp_len tcp =
     (let s = ucast (ntohs (tcp_cksum tcp));
          s = s + sum_list (map be_halves (in6_words src6 @ in6_words dst6))
                + drop_bit 16 tcp_len + (tcp_len AND 0xffff) + ucast IPPROTO_TCP;
          s = s + not_halves src4 + not_halves dst4 + ucast (NOT (ucast IPPROTO_TCP :: u16))
                + ucast (NOT (ucast tcp_len :: u16))
      in tcp\<lparr>tcp_cksum := fold_nonzero s\<rparr>)"

definition gso_update_csum_4to6 ::
  "in_addr \<Rightarrow> in_addr \<Rightarrow> in6_addr \<Rightarrow> in6_addr \<Rightarrow> u32 \<Rightarrow> tcp_hdr \<Rightarrow> tcp_hdr" where
  "gso_update_csum_4to6 src4 dst4 src6 dst6 tcp_len tcp =
     (let s = ucast (ntohs (tcp_cksum tcp));
          s = s + be_halves src4 + be_halves dst4 + ucast IPPROTO_TCP + (tcp_len AND 0xffff);
          s = s + sum_list (map not_halves (in6_words src6 @ in6_words dst6))
                + ucast (NOT (ucast (drop_bit 16 tcp_len) :: u16)) + ucast (NOT (ucast tcp_len :: u16))
                + ucast (NOT (ucast IPPROTO_TCP :: u16))
      in tcp\<lparr>tcp_cksum := fold_nonzero s\<rparr>)"

section \<open>Validation\<close>

text \<open>The segmentation type without the ECN flag.\<close>

definition gso_type :: "pkt \<Rightarrow> u8" where
  "gso_type p = vh_gso_type (p_vhdr p) AND NOT VIRTIO_NET_HDR_GSO_ECN"

definition gso_validate_header :: "pkt \<Rightarrow> int" where
  "gso_validate_header p =
     (if \<not> p_has_vhdr p then 0
      else if gso_type p = VIRTIO_NET_HDR_GSO_NONE then 0
      else if gso_type p \<noteq> VIRTIO_NET_HDR_GSO_TCPV4 \<and> gso_type p \<noteq> VIRTIO_NET_HDR_GSO_TCPV6
        \<and> gso_type p \<noteq> VIRTIO_NET_HDR_GSO_UDP_L4 then -1
      else if gso_type p = VIRTIO_NET_HDR_GSO_UDP_L4 \<and> vh_gso_type (p_vhdr p) AND VIRTIO_NET_HDR_GSO_ECN \<noteq> 0
      then -1
      else if vh_gso_size (p_vhdr p) = 0 \<or> ucast (vh_hdr_len (p_vhdr p)) > p_data_len p then -1
      else if vh_flags (p_vhdr p) AND VIRTIO_NET_HDR_F_NEEDS_CSUM \<noteq> 0
        \<and> (ucast (vh_csum_start (p_vhdr p)) \<ge> p_data_len p
           \<or> ucast (vh_csum_start (p_vhdr p)) + ucast (vh_csum_offset (p_vhdr p)) + 2 > p_data_len p)
      then -1
      else 1)"

text \<open>The scan of the IPv4 options, from \<open>off\<close> on. Offsets are at most 60, so they are numbers.\<close>

function ip4_options_ok :: "mem \<Rightarrow> nat \<Rightarrow> nat \<Rightarrow> nat \<Rightarrow> bool" where
  "ip4_options_ok m data ihl off =
     (if ihl \<le> off then True
      else
        (let kind = m (data + off)
         in if kind = 0 then True
            else if kind = 1 then ip4_options_ok m data ihl (off + 1)
            else if off + 2 > ihl then False
            else
              (let len = unat (m (data + off + 1))
               in if len < 2 \<or> off + len > ihl then False
                  else if (kind = 131 \<or> kind = 137) \<and> (len < 3 \<or> unat (m (data + off + 2)) \<le> len) then False
                  else ip4_options_ok m data ihl (off + len))))"
  by pat_completeness auto
termination by (relation "measure (\<lambda>(m, data, ihl, off). ihl - off)") auto

declare ip4_options_ok.simps [simp del]

definition gso_validate_ipv4_header :: "mem \<Rightarrow> pkt \<Rightarrow> u8 \<Rightarrow> u32 option" where
  "gso_validate_ipv4_header m p proto =
     (if p_data_len p < 20 then None
      else
        (let h = ld_ip4 m (p_data p);
             ihl = ucast (i4_ver_ihl h AND 0x0f) * 4
         in if drop_bit 4 (i4_ver_ihl h) \<noteq> 4 \<or> i4_proto h \<noteq> proto
              \<or> i4_length h \<noteq> htons (ucast (p_data_len p))
              \<or> ntohs (i4_flags_offset h) AND (IP4_F_MASK OR IP4_F_MF) \<noteq> 0
            then None
            else if ihl < 20 \<or> ihl > p_data_len p \<or> ip_checksum (load m (p_data p) (unat ihl)) \<noteq> 0
              \<or> validate_ip4_addr (i4_src h) = ERROR_DROP \<or> validate_ip4_addr (i4_dest h) = ERROR_DROP
            then None
            else if ip4_options_ok m (p_data p) (unat ihl) 20 then Some ihl else None))"

definition gso_validate_transport_vnet :: "pkt \<Rightarrow> u32 \<Rightarrow> u32 \<Rightarrow> u32 \<Rightarrow> bool" where
  "gso_validate_transport_vnet p l3_len transport_len csum_offset \<longleftrightarrow>
     vh_flags (p_vhdr p) AND VIRTIO_NET_HDR_F_NEEDS_CSUM \<noteq> 0
     \<and> vh_flags (p_vhdr p) AND VIRTIO_NET_HDR_F_DATA_VALID = 0
     \<and> ucast (vh_csum_start (p_vhdr p)) = l3_len \<and> ucast (vh_csum_offset (p_vhdr p)) = csum_offset
     \<and> ucast (vh_hdr_len (p_vhdr p)) \<ge> l3_len + transport_len
     \<and> ucast (vh_hdr_len (p_vhdr p)) \<le> p_data_len p"

definition gso_validate_udp_segment_count :: "u32 \<Rightarrow> u32 \<Rightarrow> bool" where
  "gso_validate_udp_segment_count payload_len gso_size \<longleftrightarrow>
     gso_size \<noteq> 0 \<and> (if payload_len \<noteq> 0 then (payload_len + gso_size - 1) div gso_size else 1) \<le> 128"

text \<open>The tests on the IPv6 header of an offloaded frame.\<close>

definition gso_ip6_ok :: "mem \<Rightarrow> pkt \<Rightarrow> u8 \<Rightarrow> bool" where
  "gso_ip6_ok m p proto \<longleftrightarrow> (let h = ld_ip6 m (p_data p)
     in drop_bit 28 (ntohl (i6_ver_tc_fl h)) = 6 \<and> i6_next_header h = proto
        \<and> ucast (ntohs (i6_payload_length h)) = p_data_len p - 40
        \<and> validate_ip6_addr (i6_src h) = ERROR_NONE \<and> validate_ip6_addr (i6_dest h) = ERROR_NONE)"

section \<open>Answers and addresses\<close>

text \<open>The frame becomes a parsed packet and an ICMP message quotes it.\<close>

definition gso_icmp6 :: "u8 \<Rightarrow> u8 \<Rightarrow> u32 \<Rightarrow> u8 \<Rightarrow> pkt \<Rightarrow> world \<Rightarrow> world" where
  "gso_icmp6 type code word l4_proto p w =
     (let p = p\<lparr>p_ip6 := p_data p, p_header_len := 0, p_data := p_data p + 40,
                p_data_len := p_data_len p - 40, p_data_proto := l4_proto\<rparr>
      in host_send_icmp6_error type code word p w)"

definition gso_icmp4 :: "u8 \<Rightarrow> u8 \<Rightarrow> u32 \<Rightarrow> u32 \<Rightarrow> u8 \<Rightarrow> pkt \<Rightarrow> world \<Rightarrow> world" where
  "gso_icmp4 type code word ip4_hdr_len l4_proto p w =
     (let p = p\<lparr>p_ip4 := p_data p, p_header_len := ip4_hdr_len, p_data := p_data p + unat ip4_hdr_len,
                p_data_len := p_data_len p - ip4_hdr_len, p_data_proto := l4_proto\<rparr>
      in host_send_icmp4_error type code word p w)"

text \<open>\<open>Inr\<close> are the addresses; \<open>Inl 1\<close> a frame that was answered, \<open>Inl (-1)\<close> one that is dropped.\<close>

definition gso_map_6to4_with_icmp :: "pkt \<Rightarrow> u8 \<Rightarrow> world \<Rightarrow> (int + in_addr \<times> in_addr) \<times> world" where
  "gso_map_6to4_with_icmp p l4_proto w =
     (let ip6 = ld_ip6 (w_mem w) (p_data p)
      in if i6_dest ip6 = g_local_addr6 (w_g w) then (Inl 1, gso_icmp6 4 1 6 l4_proto p w)
         else
           (case with_g (map_ip6_to_ip4 (i6_dest ip6) False) w of
              (Inl e, w) \<Rightarrow> if e = ERROR_REJECT then (Inl 1, gso_icmp6 1 0 0 l4_proto p w) else (Inl (-1), w)
            | (Inr dst4, w) \<Rightarrow>
                (case with_g (map_ip6_to_ip4 (i6_src ip6) True) w of
                   (Inl e, w) \<Rightarrow> if e = ERROR_REJECT then (Inl 1, gso_icmp6 1 5 0 l4_proto p w) else (Inl (-1), w)
                 | (Inr src4, w) \<Rightarrow> (Inr (src4, dst4), w))))"

definition gso_map_4to6_with_icmp :: "pkt \<Rightarrow> u32 \<Rightarrow> u8 \<Rightarrow> world \<Rightarrow> (int + in6_addr \<times> in6_addr) \<times> world" where
  "gso_map_4to6_with_icmp p ip4_hdr_len l4_proto w =
     (let ip4 = ld_ip4 (w_mem w) (p_data p)
      in if i4_dest ip4 = g_local_addr4 (w_g w) then (Inl 1, gso_icmp4 3 2 0 ip4_hdr_len l4_proto p w)
         else
           (case with_g (map_ip4_to_ip6 (i4_dest ip4)) w of
              (Inl e, w) \<Rightarrow>
                if e = ERROR_REJECT then (Inl 1, gso_icmp4 3 1 0 ip4_hdr_len l4_proto p w) else (Inl (-1), w)
            | (Inr dst6, w) \<Rightarrow>
                (case with_g (map_ip4_to_ip6 (i4_src ip4)) w of
                   (Inl e, w) \<Rightarrow>
                     if e = ERROR_REJECT then (Inl 1, gso_icmp4 3 10 0 ip4_hdr_len l4_proto p w) else (Inl (-1), w)
                 | (Inr src6, w) \<Rightarrow> (Inr (src6, dst6), w))))"

end
