(* ===== verification/Gso_Segment.thy ===== *)
theory Gso_Segment
  imports Gso
begin

text \<open>
  Software segmentation (\<open>src/src/gso.c\<close>): \<open>gso_software_segment_and_send_6to4\<close>, its IPv4
  counterpart and the two variants for UDP. The header buffer of a segment is the list of its
  bytes. The loop is \<open>segment_loop\<close>; its first argument builds the headers of the segment at an
  offset and returns the next identification.
\<close>

section \<open>The loop\<close>

type_synonym make_segment = "u32 \<Rightarrow> u32 \<Rightarrow> u16 \<Rightarrow> world \<Rightarrow> (u8 list \<times> u16) option"

partial_function (option) segment_loop ::
  "make_segment \<Rightarrow> nat \<Rightarrow> u32 \<Rightarrow> u32 \<Rightarrow> u32 \<Rightarrow> u16 \<Rightarrow> world \<Rightarrow> (int \<times> world) option" where
  "segment_loop build payload payload_len gso_size offset next_id w =
     (if offset < payload_len \<or> offset = 0 \<and> payload_len = 0 then
        (let seg_data_len = payload_len - offset;
             seg_data_len = (if seg_data_len > gso_size then gso_size else seg_data_len)
         in case build offset seg_data_len next_id w of
              None \<Rightarrow> Some (-1, w)
            | Some (hdr, next_id) \<Rightarrow>
                (let data = load (w_mem w) (payload + unat offset) (unat seg_data_len)
                 in case tun_writev (if seg_data_len > 0 then [hdr, data] else [hdr]) w of
                      (ret, w) \<Rightarrow>
                        if ret > 0 then
                          (let offset = offset + seg_data_len
                           in if offset \<ge> payload_len then Some (0, w)
                              else segment_loop build payload payload_len gso_size offset next_id w)
                        else Some (-1, w)))
      else Some (0, w))"

section \<open>Headers of a segment\<close>

definition gso_ip4_hdr :: "u8 \<Rightarrow> u32 \<Rightarrow> u16 \<Rightarrow> u16 \<Rightarrow> u8 \<Rightarrow> u8 \<Rightarrow> in_addr \<Rightarrow> in_addr \<Rightarrow> ip4" where
  "gso_ip4_hdr tos ip4_total ident flags_offset ttl proto src4 dst4 =
     (let h = \<lparr>i4_ver_ihl = 0x45, i4_tos = tos, i4_length = htons (ucast ip4_total), i4_ident = ident,
               i4_flags_offset = flags_offset, i4_ttl = ttl, i4_proto = proto, i4_cksum = 0,
               i4_src = src4, i4_dest = dst4\<rparr>
      in h\<lparr>i4_cksum := ip4_header_checksum h\<rparr>)"

definition gso_ip6_hdr :: "u8 \<Rightarrow> u32 \<Rightarrow> u8 \<Rightarrow> u8 \<Rightarrow> in6_addr \<Rightarrow> in6_addr \<Rightarrow> ip6" where
  "gso_ip6_hdr tos len proto hop_limit src6 dst6 =
     \<lparr>i6_ver_tc_fl = htonl (0x60000000 OR push_bit 20 (ucast tos)),
      i6_payload_length = htons (ucast len), i6_next_header = proto, i6_hop_limit = hop_limit,
      i6_src = src6, i6_dest = dst6\<rparr>"

text \<open>The DF flag and the identification depend on the length of the segment.\<close>

definition segment_ident :: "u32 \<Rightarrow> u16 \<Rightarrow> u16 \<times> u16 \<times> u16" where
  "segment_ident ip4_total next_id =
     (if ip4_total \<le> 1260 then (htons next_id, 0, next_id + 1) else (0, htons IP4_F_DF, next_id))"

text \<open>The TCP header of the segment: FIN and PSH on the last one only, CWR on the first one only.\<close>

definition segment_tcp :: "tcp_hdr \<Rightarrow> u32 \<Rightarrow> u32 \<Rightarrow> u32 \<Rightarrow> tcp_hdr" where
  "segment_tcp orig payload_len offset seg_data_len =
     (let t = orig\<lparr>tcp_seq := htonl (ntohl (tcp_seq orig) + offset)\<rparr>;
          t = (if offset + seg_data_len \<noteq> payload_len
               then t\<lparr>tcp_flags := tcp_flags t AND NOT (TCP_FLAG_FIN OR TCP_FLAG_PSH)\<rparr> else t)
      in if offset > 0 then t\<lparr>tcp_flags := tcp_flags t AND NOT TCP_FLAG_CWR\<rparr> else t)"

definition data_csum :: "mem \<Rightarrow> nat \<Rightarrow> u32 \<Rightarrow> u16" where
  "data_csum m a n = (if n > 0 then ip_checksum (load m a (unat n)) else 0)"

definition ip6_tos :: "ip6 \<Rightarrow> u8" where
  "ip6_tos h = ucast (drop_bit 20 (ntohl (i6_ver_tc_fl h)) AND 0xff)"

definition tcp_segment_6to4 :: "pkt \<Rightarrow> u32 \<Rightarrow> u32 \<Rightarrow> in_addr \<Rightarrow> in_addr \<Rightarrow> make_segment" where
  "tcp_segment_6to4 p thl payload_len src4 dst4 offset seg_data_len next_id w =
     (let m = w_mem w;
          ip6 = ld_ip6 m (p_data p);
          orig = p_data p + 40;
          payload = orig + unat thl;
          seg_tcp_total_len = thl + seg_data_len;
          ip4_total = 20 + seg_tcp_total_len
      in if ip4_total > 0xffff then None
         else
           (let t = (segment_tcp (ld_tcp m orig) payload_len offset seg_data_len)\<lparr>tcp_cksum := 0\<rparr>;
                opts = load m (orig + 20) (unat thl - 20)
            in case segment_ident ip4_total next_id of
                 (ident, flags, next_id) \<Rightarrow>
                   (let h = gso_ip4_hdr (ip6_tos ip6) ip4_total ident flags (i6_hop_limit ip6 - 1)
                              IPPROTO_TCP src4 dst4;
                        ck = ones_add (ones_add (ip_checksum (tcp_bytes t @ opts))
                               (data_csum m (payload + unat offset) seg_data_len))
                             (ip4_checksum h seg_tcp_total_len IPPROTO_TCP)
                    in Some (ip4_bytes h @ tcp_bytes (t\<lparr>tcp_cksum := ck\<rparr>) @ opts, next_id))))"

definition tcp_segment_4to6 :: "pkt \<Rightarrow> u32 \<Rightarrow> u32 \<Rightarrow> u32 \<Rightarrow> in6_addr \<Rightarrow> in6_addr \<Rightarrow> make_segment" where
  "tcp_segment_4to6 p ihl thl payload_len src6 dst6 offset seg_data_len next_id w =
     (let m = w_mem w;
          ip4 = ld_ip4 m (p_data p);
          orig = p_data p + unat ihl;
          payload = orig + unat thl;
          seg_tcp_total_len = thl + seg_data_len;
          ip6_total = 40 + seg_tcp_total_len
      in if ip6_total > 40 + 0xffff then None
         else
           (let t = (segment_tcp (ld_tcp m orig) payload_len offset seg_data_len)\<lparr>tcp_cksum := 0\<rparr>;
                opts = load m (orig + 20) (unat thl - 20);
                h = gso_ip6_hdr (i4_tos ip4) seg_tcp_total_len IPPROTO_TCP (i4_ttl ip4 - 1) src6 dst6;
                ck = ones_add (ones_add (ip_checksum (tcp_bytes t @ opts))
                       (data_csum m (payload + unat offset) seg_data_len))
                     (ip6_checksum h seg_tcp_total_len IPPROTO_TCP)
            in Some (ip6_bytes h @ tcp_bytes (t\<lparr>tcp_cksum := ck\<rparr>) @ opts, next_id)))"

definition udp_segment_6to4 :: "pkt \<Rightarrow> in_addr \<Rightarrow> in_addr \<Rightarrow> make_segment" where
  "udp_segment_6to4 p src4 dst4 offset seg_data_len next_id w =
     (let m = w_mem w;
          ip6 = ld_ip6 m (p_data p);
          orig = ld_udp m (p_data p + 40);
          payload = p_data p + 40 + 8;
          seg_udp_total = 8 + seg_data_len;
          ip4_total = 20 + seg_udp_total
      in if seg_udp_total > 0xffff \<or> ip4_total > 0xffff then None
         else
           (let u = orig\<lparr>udp_length := htons (ucast seg_udp_total), udp_cksum := 0\<rparr>
            in case segment_ident ip4_total next_id of
                 (ident, flags, next_id) \<Rightarrow>
                   (let h = gso_ip4_hdr (ip6_tos ip6) ip4_total ident flags (i6_hop_limit ip6 - 1)
                              IPPROTO_UDP src4 dst4;
                        ck = ones_add (ones_add (ip_checksum (udp_bytes u))
                               (data_csum m (payload + unat offset) seg_data_len))
                             (ip4_checksum h seg_udp_total IPPROTO_UDP)
                    in Some (ip4_bytes h @ udp_bytes (u\<lparr>udp_cksum := nonzero_ck ck\<rparr>), next_id))))"

definition udp_segment_4to6 :: "pkt \<Rightarrow> u32 \<Rightarrow> in6_addr \<Rightarrow> in6_addr \<Rightarrow> make_segment" where
  "udp_segment_4to6 p ihl src6 dst6 offset seg_data_len next_id w =
     (let m = w_mem w;
          ip4 = ld_ip4 m (p_data p);
          orig = ld_udp m (p_data p + unat ihl);
          payload = p_data p + unat ihl + 8;
          seg_udp_total = 8 + seg_data_len;
          ip6_total = 40 + seg_udp_total
      in if ip6_total > 40 + 0xffff then None
         else
           (let u = orig\<lparr>udp_length := htons (ucast seg_udp_total), udp_cksum := 0\<rparr>;
                h = gso_ip6_hdr (i4_tos ip4) seg_udp_total IPPROTO_UDP (i4_ttl ip4 - 1) src6 dst6;
                ck = ones_add (ones_add (ip_checksum (udp_bytes u))
                       (data_csum m (payload + unat offset) seg_data_len))
                     (ip6_checksum h seg_udp_total IPPROTO_UDP)
            in Some (ip6_bytes h @ udp_bytes (u\<lparr>udp_cksum := nonzero_ck ck\<rparr>), next_id)))"


section \<open>The four entry points\<close>

text \<open>How many segments get an identification of their own.\<close>

definition gso_df0_segments :: "u32 \<Rightarrow> u32 \<Rightarrow> u32 \<Rightarrow> u16" where
  "gso_df0_segments payload_len gso_size header_len =
     (if payload_len = 0 then 1
      else if header_len + gso_size \<le> 1260 then ucast ((payload_len + gso_size - 1) div gso_size)
      else
        (let tail = payload_len mod gso_size
         in if tail \<noteq> 0 \<and> header_len + tail \<le> 1260 then 1 else 0))"

text \<open>\<open>df0_segments ? reserve_ip4_ident(df0_segments) : 0\<close>\<close>

definition reserve_df0 :: "u16 \<Rightarrow> world \<Rightarrow> u16 \<times> world" where
  "reserve_df0 n w = (if n \<noteq> 0 then reserve_ip4_ident n w else (0, w))"

definition seg_size :: "pkt \<Rightarrow> u32 \<Rightarrow> u32" where
  "seg_size p payload_len =
     (let gso_size = ucast (vh_gso_size (p_vhdr p))
      in if gso_size = 0 then (if payload_len > 0 then payload_len else 1) else gso_size)"

definition first_seg :: "u32 \<Rightarrow> u32 \<Rightarrow> u32" where
  "first_seg payload_len gso_size = (if payload_len > gso_size then gso_size else payload_len)"

text \<open>The tests on the path MTU.\<close>

definition mtu_exceeded6 :: "world \<Rightarrow> u32 \<Rightarrow> bool" where
  "mtu_exceeded6 w max_seg_wire6 \<longleftrightarrow> g_mtu (w_g w) > 0 \<and> max_seg_wire6 > ucast (g_mtu (w_g w))"

definition mtu_exceeded4 :: "world \<Rightarrow> ip4 \<Rightarrow> u32 \<Rightarrow> bool" where
  "mtu_exceeded4 w ip4 max_seg_wire4 \<longleftrightarrow>
     ntohs (i4_flags_offset ip4) AND IP4_F_DF \<noteq> 0 \<and> ucast (g_mtu (w_g w)) > MTU_ADJ
     \<and> max_seg_wire4 > ucast (g_mtu (w_g w)) - MTU_ADJ"

text \<open>The result for addresses that did not map.\<close>

definition map_rc :: "int \<Rightarrow> int" where
  "map_rc r = (if r > 0 then 0 else -1)"

definition gso_software_segment_and_send_6to4 :: "pkt \<Rightarrow> world \<Rightarrow> (int \<times> world) option" where
  "gso_software_segment_and_send_6to4 p w =
     (if \<not> p_has_vhdr p \<or> gso_type p \<noteq> VIRTIO_NET_HDR_GSO_TCPV6 \<or> gso_validate_header p \<le> 0 then Some (-1, w)
      else if p_data_len p < 40 + 20 then Some (-1, w)
      else if \<not> gso_ip6_ok (w_mem w) p IPPROTO_TCP then Some (-1, w)
      else
        (let ip6 = ld_ip6 (w_mem w) (p_data p);
             thl = tcp_hdr_len (w_mem w) (p_data p + 40)
         in if thl < 20 \<or> p_data_len p < 40 + thl then Some (-1, w)
            else if ucast (vh_hdr_len (p_vhdr p)) < 40 + thl
              \<or> vh_flags (p_vhdr p) AND VIRTIO_NET_HDR_F_NEEDS_CSUM \<noteq> 0
                \<and> \<not> gso_validate_transport_vnet p 40 thl 16 then Some (-1, w)
            else
              (let payload = p_data p + 40 + unat thl;
                   payload_len = p_data_len p - 40 - thl;
                   gso_size = seg_size p payload_len
               in if mtu_exceeded6 w (40 + thl + first_seg payload_len gso_size)
                  then Some (0, gso_icmp6 2 0 (ucast (g_mtu (w_g w))) IPPROTO_TCP p w)
                  else if i6_hop_limit ip6 \<le> 1 then Some (0, gso_icmp6 3 0 0 IPPROTO_TCP p w)
                  else
                    (case gso_map_6to4_with_icmp p IPPROTO_TCP w of
                       (Inl r, w) \<Rightarrow> Some (map_rc r, w)
                     | (Inr (src4, dst4), w) \<Rightarrow>
                         (case reserve_df0 (gso_df0_segments payload_len gso_size (20 + thl)) w of
                            (next_id, w) \<Rightarrow>
                              segment_loop (tcp_segment_6to4 p thl payload_len src4 dst4)
                                payload payload_len gso_size 0 next_id w)))))"

definition gso_software_segment_and_send_4to6 :: "pkt \<Rightarrow> world \<Rightarrow> (int \<times> world) option" where
  "gso_software_segment_and_send_4to6 p w =
     (if \<not> p_has_vhdr p \<or> gso_type p \<noteq> VIRTIO_NET_HDR_GSO_TCPV4 \<or> gso_validate_header p \<le> 0 then Some (-1, w)
      else if p_data_len p < 20 + 20 then Some (-1, w)
      else
        (case gso_validate_ipv4_header (w_mem w) p IPPROTO_TCP of
           None \<Rightarrow> Some (-1, w)
         | Some ihl \<Rightarrow>
             (if p_data_len p < ihl + 20 then Some (-1, w)
              else
                (let ip4 = ld_ip4 (w_mem w) (p_data p);
                     thl = tcp_hdr_len (w_mem w) (p_data p + unat ihl)
                 in if thl < 20 \<or> p_data_len p < ihl + thl then Some (-1, w)
                    else if ucast (vh_hdr_len (p_vhdr p)) < ihl + thl
                      \<or> vh_flags (p_vhdr p) AND VIRTIO_NET_HDR_F_NEEDS_CSUM \<noteq> 0
                        \<and> \<not> gso_validate_transport_vnet p ihl thl 16 then Some (-1, w)
                    else
                      (let payload = p_data p + unat ihl + unat thl;
                           payload_len = p_data_len p - ihl - thl;
                           gso_size = seg_size p payload_len
                       in if mtu_exceeded4 w ip4 (ihl + thl + first_seg payload_len gso_size)
                          then Some (0, gso_icmp4 3 4 (ucast (g_mtu (w_g w)) - MTU_ADJ) ihl IPPROTO_TCP p w)
                          else if i4_ttl ip4 \<le> 1 then Some (0, gso_icmp4 11 0 0 ihl IPPROTO_TCP p w)
                          else
                            (case gso_map_4to6_with_icmp p ihl IPPROTO_TCP w of
                               (Inl r, w) \<Rightarrow> Some (map_rc r, w)
                             | (Inr (src6, dst6), w) \<Rightarrow>
                                 segment_loop (tcp_segment_4to6 p ihl thl payload_len src6 dst6)
                                   payload payload_len gso_size 0 0 w))))))"

definition gso_software_segment_and_send_udp_6to4 :: "pkt \<Rightarrow> world \<Rightarrow> (int \<times> world) option" where
  "gso_software_segment_and_send_udp_6to4 p w =
     (if \<not> p_has_vhdr p \<or> gso_type p \<noteq> VIRTIO_NET_HDR_GSO_UDP_L4 \<or> gso_validate_header p \<le> 0 then Some (-1, w)
      else if p_data_len p < 40 + 8 \<or> \<not> gso_validate_transport_vnet p 40 8 6 then Some (-1, w)
      else if \<not> gso_ip6_ok (w_mem w) p IPPROTO_UDP then Some (-1, w)
      else
        (let ip6 = ld_ip6 (w_mem w) (p_data p);
             udp_len = p_data_len p - 40
         in if udp_len < 8 \<or> ucast (ntohs (udp_length (ld_udp (w_mem w) (p_data p + 40)))) \<noteq> udp_len
            then Some (-1, w)
            else
              (let payload = p_data p + 40 + 8;
                   payload_len = udp_len - 8;
                   gso_size = seg_size p payload_len
               in if gso_size > 0xffff - 8 \<or> \<not> gso_validate_udp_segment_count payload_len gso_size
                  then Some (-1, w)
                  else if mtu_exceeded6 w (40 + 8 + first_seg payload_len gso_size)
                  then Some (0, gso_icmp6 2 0 (ucast (g_mtu (w_g w))) IPPROTO_UDP p w)
                  else if i6_hop_limit ip6 \<le> 1 then Some (0, gso_icmp6 3 0 0 IPPROTO_UDP p w)
                  else
                    (case gso_map_6to4_with_icmp p IPPROTO_UDP w of
                       (Inl r, w) \<Rightarrow> Some (map_rc r, w)
                     | (Inr (src4, dst4), w) \<Rightarrow>
                         (case reserve_df0 (gso_df0_segments payload_len gso_size (20 + 8)) w of
                            (next_id, w) \<Rightarrow>
                              segment_loop (udp_segment_6to4 p src4 dst4)
                                payload payload_len gso_size 0 next_id w)))))"

definition gso_software_segment_and_send_udp_4to6 :: "pkt \<Rightarrow> world \<Rightarrow> (int \<times> world) option" where
  "gso_software_segment_and_send_udp_4to6 p w =
     (if \<not> p_has_vhdr p \<or> gso_type p \<noteq> VIRTIO_NET_HDR_GSO_UDP_L4 \<or> gso_validate_header p \<le> 0 then Some (-1, w)
      else
        (case gso_validate_ipv4_header (w_mem w) p IPPROTO_UDP of
           None \<Rightarrow> Some (-1, w)
         | Some ihl \<Rightarrow>
             (if p_data_len p < ihl + 8 \<or> \<not> gso_validate_transport_vnet p ihl 8 6 then Some (-1, w)
              else
                (let ip4 = ld_ip4 (w_mem w) (p_data p);
                     udp_len = p_data_len p - ihl
                 in if i4_ttl ip4 \<le> 1 then Some (0, gso_icmp4 11 0 0 ihl IPPROTO_UDP p w)
                    else if ucast (ntohs (udp_length (ld_udp (w_mem w) (p_data p + unat ihl)))) \<noteq> udp_len
                    then Some (-1, w)
                    else
                      (let payload = p_data p + unat ihl + 8;
                           payload_len = udp_len - 8;
                           gso_size = seg_size p payload_len
                       in if gso_size > 0xffff - 8 \<or> \<not> gso_validate_udp_segment_count payload_len gso_size
                          then Some (-1, w)
                          else if mtu_exceeded4 w ip4 (ihl + 8 + first_seg payload_len gso_size)
                          then Some (0, gso_icmp4 3 4 (ucast (g_mtu (w_g w)) - MTU_ADJ) ihl IPPROTO_UDP p w)
                          else
                            (case gso_map_4to6_with_icmp p ihl IPPROTO_UDP w of
                               (Inl r, w) \<Rightarrow> Some (map_rc r, w)
                             | (Inr (src6, dst6), w) \<Rightarrow>
                                 segment_loop (udp_segment_4to6 p ihl src6 dst6)
                                   payload payload_len gso_size 0 0 w))))))"

end
