(* ===== verification/Gso_Fast.thy ===== *)
theory Gso_Fast
  imports Gso_Segment
begin

text \<open>
  The translation of an offloaded frame as one frame (\<open>src/src/gso.c\<close>):
  \<open>gso_translate_tcp_6to4\<close> with the split of its last segment, \<open>gso_translate_tcp_4to6\<close> and the
  two variants for UDP. The new IP header is written in place in front of the transport header.
\<close>

definition gso_normalize_tcp_output :: "u32 \<Rightarrow> vnet_hdr \<Rightarrow> vnet_hdr" where
  "gso_normalize_tcp_output payload_len vh =
     (if payload_len \<le> ucast (vh_gso_size vh)
      then vh\<lparr>vh_gso_type := VIRTIO_NET_HDR_GSO_NONE, vh_gso_size := 0\<rparr> else vh)"

text \<open>The offload header with another segmentation type, for the same segmentation.\<close>

definition gso_retype :: "u8 \<Rightarrow> vnet_hdr \<Rightarrow> vnet_hdr" where
  "gso_retype t vh =
     vh\<lparr>vh_gso_type := t OR (vh_gso_type vh AND VIRTIO_NET_HDR_GSO_ECN),
        vh_flags := vh_flags vh OR VIRTIO_NET_HDR_F_NEEDS_CSUM\<rparr>"

section \<open>TCP from IPv6 to IPv4\<close>

text \<open>The head of a split frame: all full segments, without FIN and PSH.\<close>

definition send_split_head :: "pkt \<Rightarrow> u8 \<Rightarrow> u8 \<Rightarrow> in_addr \<Rightarrow> in_addr \<Rightarrow> u32 \<Rightarrow> u32 \<Rightarrow> world \<Rightarrow> world" where
  "send_split_head p tos ttl src4 dst4 thl head_payload_len w =
     (let tcp = p_data p + 40;
          head_tcp_len = thl + head_payload_len;
          t = ld_tcp (w_mem w) tcp;
          t = t\<lparr>tcp_flags := tcp_flags t AND NOT (TCP_FLAG_FIN OR TCP_FLAG_PSH)\<rparr>;
          t = gso_update_csum_seed_6to4 src4 dst4 head_tcp_len t;
          w = w\<lparr>w_mem := store (w_mem w) tcp (tcp_bytes t)\<rparr>;
          h = gso_ip4_hdr tos (20 + head_tcp_len) 0 (htons IP4_F_DF) ttl IPPROTO_TCP src4 dst4;
          head_ip4 = p_data p + 20;
          w = w\<lparr>w_mem := store (w_mem w) head_ip4 (ip4_bytes h)\<rparr>;
          head_out_len = 20 + head_tcp_len;
          vh = gso_retype VIRTIO_NET_HDR_GSO_TCPV4 (p_vhdr p);
          vh = vh\<lparr>vh_hdr_len := vh_hdr_len vh - 20\<rparr>;
          vh = (if ucast (vh_hdr_len vh) > head_out_len then vh\<lparr>vh_hdr_len := ucast head_out_len\<rparr> else vh);
          vh = vh\<lparr>vh_csum_start := vh_csum_start vh - 20\<rparr>;
          vh = gso_normalize_tcp_output head_payload_len vh
      in snd (tun_write_vnet_inplace (Some vh) head_ip4 (unat head_out_len) w))"

text \<open>
  The tail: the TCP header is copied in front of the last bytes of the payload and gets the next
  sequence number and the original flags without CWR.
\<close>

definition send_split_tail ::
  "pkt \<Rightarrow> u8 \<Rightarrow> u8 \<Rightarrow> in_addr \<Rightarrow> in_addr \<Rightarrow> u32 \<Rightarrow> u32 \<Rightarrow> u32 \<Rightarrow> u8 \<Rightarrow> u32 \<Rightarrow> world \<Rightarrow> world" where
  "send_split_tail p tos ttl src4 dst4 thl head_payload_len tail_len orig_flags orig_seq w =
     (let tcp = p_data p + 40;
          tail_payload = tcp + unat thl + unat head_payload_len;
          tail_tcp = tail_payload - unat thl;
          tail_ip4 = tail_tcp - 20;
          w = w\<lparr>w_mem := store (w_mem w) tail_tcp (load (w_mem w) tcp (unat thl))\<rparr>;
          t = (ld_tcp (w_mem w) tail_tcp)\<lparr>tcp_seq := htonl (orig_seq + head_payload_len),
                tcp_flags := orig_flags AND NOT TCP_FLAG_CWR\<rparr>;
          tail_tcp_total_len = thl + tail_len
      in case next_ip4_ident w of
           (n, w) \<Rightarrow>
             (let h = gso_ip4_hdr tos (20 + tail_tcp_total_len) (htons n) 0 ttl IPPROTO_TCP src4 dst4;
                  w = w\<lparr>w_mem := store (w_mem w) tail_ip4 (ip4_bytes h)\<rparr>;
                  tail_out_len = unat (20 + tail_tcp_total_len)
              in if w_vnet w > 0 then
                   (let t = t\<lparr>tcp_cksum := htons (gso_calc_tcp_pseudo4 src4 dst4 tail_tcp_total_len)\<rparr>;
                        w = w\<lparr>w_mem := store (w_mem w) tail_tcp (tcp_bytes t)\<rparr>;
                        vh = vnet_zero\<lparr>vh_flags := VIRTIO_NET_HDR_F_NEEDS_CSUM,
                               vh_gso_type := VIRTIO_NET_HDR_GSO_NONE, vh_hdr_len := ucast (20 + thl),
                               vh_csum_start := 20, vh_csum_offset := 16\<rparr>
                    in snd (tun_write_vnet_inplace (Some vh) tail_ip4 tail_out_len w))
                 else
                   (let w = w\<lparr>w_mem := store (w_mem w) tail_tcp (tcp_bytes (t\<lparr>tcp_cksum := 0\<rparr>))\<rparr>;
                        ck = ones_add (ones_add (ip_checksum (load (w_mem w) tail_tcp (unat thl)))
                               (ip_checksum (load (w_mem w) tail_payload (unat tail_len))))
                             (ip4_checksum h tail_tcp_total_len IPPROTO_TCP);
                        w = put16 (tail_tcp + 16) ck w
                    in snd (tun_write (load (w_mem w) tail_ip4 tail_out_len) w))))"

text \<open>DF and the identification: with DF clear the identifications of all segments are reserved.\<close>

definition gso_ident :: "bool \<Rightarrow> u32 \<Rightarrow> u32 \<Rightarrow> world \<Rightarrow> u16 \<times> u16 \<times> world" where
  "gso_ident small payload_len gso_size w =
     (if small then
        (case reserve_ip4_ident (if payload_len \<noteq> 0 then ucast ((payload_len + gso_size - 1) div gso_size) else 1) w of
           (n, w) \<Rightarrow> (htons n, 0, w))
      else (0, htons IP4_F_DF, w))"

text \<open>The whole frame.\<close>

definition send_gso_tcp4 :: "pkt \<Rightarrow> u8 \<Rightarrow> u8 \<Rightarrow> in_addr \<Rightarrow> in_addr \<Rightarrow> u32 \<Rightarrow> u32 \<Rightarrow> u32 \<Rightarrow> world \<Rightarrow> world" where
  "send_gso_tcp4 p tos ttl src4 dst4 thl payload_len gso_size w =
     (let tcp = p_data p + 40;
          tcp_len = thl + payload_len;
          t = gso_update_csum_seed_6to4 src4 dst4 tcp_len (ld_tcp (w_mem w) tcp);
          w = w\<lparr>w_mem := store (w_mem w) tcp (tcp_bytes t)\<rparr>;
          ip4 = p_data p + 20
      in case gso_ident (20 + thl + first_seg payload_len gso_size \<le> 1260) payload_len gso_size w of
           (ident, flags, w) \<Rightarrow>
             (let h = gso_ip4_hdr tos (20 + tcp_len) ident flags ttl IPPROTO_TCP src4 dst4;
                  w = w\<lparr>w_mem := store (w_mem w) ip4 (ip4_bytes h)\<rparr>;
                  vh = gso_retype VIRTIO_NET_HDR_GSO_TCPV4 (p_vhdr p);
                  vh = vh\<lparr>vh_hdr_len := vh_hdr_len vh - 20, vh_csum_start := vh_csum_start vh - 20\<rparr>;
                  vh = gso_normalize_tcp_output payload_len vh
              in snd (tun_write_vnet_inplace (Some vh) ip4 (unat (20 + tcp_len)) w)))"

definition gso_translate_tcp_6to4 :: "pkt \<Rightarrow> world \<Rightarrow> (int \<times> world) option" where
  "gso_translate_tcp_6to4 p w =
     (if \<not> p_has_vhdr p \<or> gso_type p \<noteq> VIRTIO_NET_HDR_GSO_TCPV6 then Some (-1, w)
      else if gso_validate_header p \<le> 0 then Some (-1, w)
      else if p_data_len p < 40 + 20 then Some (-1, w)
      else if \<not> gso_ip6_ok (w_mem w) p IPPROTO_TCP then Some (-1, w)
      else
        (let ip6 = ld_ip6 (w_mem w) (p_data p);
             thl = tcp_hdr_len (w_mem w) (p_data p + 40)
         in if thl < 20 \<or> 40 + thl > p_data_len p then Some (-1, w)
            else if \<not> gso_validate_transport_vnet p 40 thl 16 then Some (-1, w)
            else
              (let payload_len = p_data_len p - 40 - thl;
                   gso_size = ucast (vh_gso_size (p_vhdr p))
               in if gso_size = 0 then Some (-1, w)
                  else if mtu_exceeded6 w (40 + thl + first_seg payload_len gso_size)
                  then Some (0, gso_icmp6 2 0 (ucast (g_mtu (w_g w))) IPPROTO_TCP p w)
                  else if i6_hop_limit ip6 \<le> 1 then Some (0, gso_icmp6 3 0 0 IPPROTO_TCP p w)
                  else
                    (let full_seg_ip4_len = 20 + thl + gso_size;
                         tail_len = payload_len mod gso_size;
                         tail_ip4_len = (if tail_len > 0 then 20 + thl + tail_len else full_seg_ip4_len)
                     in if 20 + thl + payload_len > 0xffff then gso_software_segment_and_send_6to4 p w
                        else
                          (case gso_map_6to4_with_icmp p IPPROTO_TCP w of
                             (Inl r, w) \<Rightarrow> Some (map_rc r, w)
                           | (Inr (src4, dst4), w) \<Rightarrow>
                               (let tos = ip6_tos ip6;
                                    ttl = i6_hop_limit ip6 - 1
                                in if full_seg_ip4_len > 1260 \<and> tail_len > 0 \<and> tail_ip4_len \<le> 1260
                                     \<and> payload_len > gso_size then
                                     (let t = ld_tcp (w_mem w) (p_data p + 40);
                                          head = (payload_len div gso_size) * gso_size;
                                          w = send_split_head p tos ttl src4 dst4 thl head w
                                      in Some (0, send_split_tail p tos ttl src4 dst4 thl head tail_len
                                            (tcp_flags t) (ntohl (tcp_seq t)) w))
                                   else Some (0, send_gso_tcp4 p tos ttl src4 dst4 thl payload_len gso_size w)))))))"

section \<open>TCP from IPv4 to IPv6\<close>

text \<open>The transport segment is moved over the IPv4 options.\<close>

definition send_gso_tcp6 :: "pkt \<Rightarrow> u32 \<Rightarrow> u8 \<Rightarrow> u8 \<Rightarrow> in6_addr \<Rightarrow> in6_addr \<Rightarrow> u32 \<Rightarrow> u32 \<Rightarrow> world \<Rightarrow> world" where
  "send_gso_tcp6 p ihl tos ttl src6 dst6 thl payload_len w =
     (let tcp = p_data p + unat ihl;
          tcp_len = thl + payload_len;
          t = gso_update_csum_seed_4to6 src6 dst6 tcp_len (ld_tcp (w_mem w) tcp);
          w = w\<lparr>w_mem := store (w_mem w) tcp (tcp_bytes t)\<rparr>;
          w = (if ihl > 20
               then w\<lparr>w_mem := store (w_mem w) (p_data p + 20) (load (w_mem w) tcp (unat tcp_len))\<rparr> else w);
          out = p_data p - 20;
          h = gso_ip6_hdr tos tcp_len IPPROTO_TCP (ttl - 1) src6 dst6;
          w = w\<lparr>w_mem := store (w_mem w) out (ip6_bytes h)\<rparr>;
          vh = gso_retype VIRTIO_NET_HDR_GSO_TCPV6 (p_vhdr p);
          vh = vh\<lparr>vh_hdr_len := vh_hdr_len vh + (40 - ucast ihl),
                  vh_csum_start := vh_csum_start vh + (40 - ucast ihl)\<rparr>;
          vh = gso_normalize_tcp_output payload_len vh
      in snd (tun_write_vnet_inplace (Some vh) out (unat (40 + tcp_len)) w))"

definition gso_translate_tcp_4to6 :: "pkt \<Rightarrow> world \<Rightarrow> (int \<times> world) option" where
  "gso_translate_tcp_4to6 p w =
     (if \<not> p_has_vhdr p \<or> gso_type p \<noteq> VIRTIO_NET_HDR_GSO_TCPV4 then Some (-1, w)
      else if gso_validate_header p \<le> 0 then Some (-1, w)
      else if p_data_len p < 20 + 20 then Some (-1, w)
      else
        (case gso_validate_ipv4_header (w_mem w) p IPPROTO_TCP of
           None \<Rightarrow> Some (-1, w)
         | Some ihl \<Rightarrow>
             (if vh_flags (p_vhdr p) AND VIRTIO_NET_HDR_F_NEEDS_CSUM = 0 then Some (-1, w)
              else
                (let ip4 = ld_ip4 (w_mem w) (p_data p);
                     thl = tcp_hdr_len (w_mem w) (p_data p + unat ihl)
                 in if thl < 20 \<or> ihl + thl > p_data_len p then Some (-1, w)
                    else if \<not> gso_validate_transport_vnet p ihl thl 16 then Some (-1, w)
                    else
                      (let payload_len = p_data_len p - ihl - thl;
                           gso_size = ucast (vh_gso_size (p_vhdr p))
                       in if mtu_exceeded4 w ip4 (20 + thl + first_seg payload_len gso_size)
                          then Some (0, gso_icmp4 3 4 (ucast (g_mtu (w_g w)) - MTU_ADJ) ihl IPPROTO_TCP p w)
                          else if i4_ttl ip4 \<le> 1 then Some (0, gso_icmp4 11 0 0 ihl IPPROTO_TCP p w)
                          else
                            (case gso_map_4to6_with_icmp p ihl IPPROTO_TCP w of
                               (Inl r, w) \<Rightarrow> Some (map_rc r, w)
                             | (Inr (src6, dst6), w) \<Rightarrow>
                                 Some (0, send_gso_tcp6 p ihl (i4_tos ip4) (i4_ttl ip4) src6 dst6 thl payload_len w)))))))"

section \<open>UDP\<close>

text \<open>The seed of the checksum; zero would mean that there is no checksum.\<close>

definition udp_seed :: "u16 \<Rightarrow> u16" where
  "udp_seed seed = htons (if seed = 0 then 0xffff else seed)"

definition send_gso_udp4 :: "pkt \<Rightarrow> u8 \<Rightarrow> u8 \<Rightarrow> in_addr \<Rightarrow> in_addr \<Rightarrow> u32 \<Rightarrow> u32 \<Rightarrow> u32 \<Rightarrow> u32 \<Rightarrow> world \<Rightarrow> world" where
  "send_gso_udp4 p tos ttl src4 dst4 udp_len payload_len gso_size max_segment_len w =
     (let w = put16 (p_data p + 40 + 6) (udp_seed (gso_calc_udp_pseudo4 src4 dst4 udp_len)) w;
          ip4 = p_data p + 20
      in case gso_ident (max_segment_len \<le> 1260) payload_len gso_size w of
           (ident, flags, w) \<Rightarrow>
             (let h = gso_ip4_hdr tos (20 + udp_len) ident flags ttl IPPROTO_UDP src4 dst4;
                  w = w\<lparr>w_mem := store (w_mem w) ip4 (ip4_bytes h)\<rparr>;
                  vh = (gso_retype VIRTIO_NET_HDR_GSO_UDP_L4 (p_vhdr p))
                         \<lparr>vh_hdr_len := 20 + 8, vh_csum_start := 20, vh_csum_offset := 6\<rparr>
              in snd (tun_write_vnet_inplace (Some vh) ip4 (unat (20 + udp_len)) w)))"

definition gso_translate_udp_6to4 :: "pkt \<Rightarrow> world \<Rightarrow> (int \<times> world) option" where
  "gso_translate_udp_6to4 p w =
     (if \<not> p_has_vhdr p \<or> gso_type p \<noteq> VIRTIO_NET_HDR_GSO_UDP_L4 then Some (-1, w)
      else if gso_validate_header p \<le> 0 then Some (-1, w)
      else if p_data_len p < 40 + 8 then Some (-1, w)
      else
        (let ip6 = ld_ip6 (w_mem w) (p_data p);
             udp_len = p_data_len p - 40
         in if \<not> gso_ip6_ok (w_mem w) p IPPROTO_UDP \<or> udp_len < 8 \<or> \<not> gso_validate_transport_vnet p 40 8 6
            then Some (-1, w)
            else if ucast (ntohs (udp_length (ld_udp (w_mem w) (p_data p + 40)))) \<noteq> udp_len then Some (-1, w)
            else if i6_hop_limit ip6 \<le> 1 then Some (0, gso_icmp6 3 0 0 IPPROTO_UDP p w)
            else
              (let payload_len = udp_len - 8;
                   gso_size = ucast (vh_gso_size (p_vhdr p))
               in if gso_size > 0xffff - 8 \<or> \<not> gso_validate_udp_segment_count payload_len gso_size
                  then Some (-1, w)
                  else
                    (let full_segments = payload_len div gso_size;
                         tail_len = payload_len mod gso_size;
                         largest = (if full_segments \<noteq> 0 then gso_size else payload_len)
                     in if mtu_exceeded6 w (40 + 8 + largest)
                        then Some (0, gso_icmp6 2 0 (ucast (g_mtu (w_g w))) IPPROTO_UDP p w)
                        else
                          (let max_segment_len = 20 + 8 + largest;
                               tail_segment_len = 20 + 8 + tail_len;
                               mixed_df = (full_segments \<noteq> 0 \<and> tail_len \<noteq> 0
                                 \<and> (max_segment_len \<le> 1260) \<noteq> (tail_segment_len \<le> 1260))
                           in if max_segment_len > 0xffff then Some (-1, w)
                              else if \<not> w_has_uso w \<or> 20 + udp_len > 65535 \<or> mixed_df
                              then gso_software_segment_and_send_udp_6to4 p w
                              else
                                (case gso_map_6to4_with_icmp p IPPROTO_UDP w of
                                   (Inl r, w) \<Rightarrow> Some (map_rc r, w)
                                 | (Inr (src4, dst4), w) \<Rightarrow>
                                     Some (0, send_gso_udp4 p (ip6_tos ip6) (i6_hop_limit ip6 - 1) src4 dst4
                                           udp_len payload_len gso_size max_segment_len w)))))))"

definition send_gso_udp6 :: "pkt \<Rightarrow> u8 \<Rightarrow> u8 \<Rightarrow> in6_addr \<Rightarrow> in6_addr \<Rightarrow> u32 \<Rightarrow> world \<Rightarrow> world" where
  "send_gso_udp6 p tos hop_limit src6 dst6 udp_len w =
     (let w = put16 (p_data p + 20 + 6) (udp_seed (gso_calc_udp_pseudo6 src6 dst6 udp_len)) w;
          out = p_data p - 20;
          h = gso_ip6_hdr tos (if udp_len \<le> 65535 then udp_len else 0) IPPROTO_UDP hop_limit src6 dst6;
          w = w\<lparr>w_mem := store (w_mem w) out (ip6_bytes h)\<rparr>;
          vh = (gso_retype VIRTIO_NET_HDR_GSO_UDP_L4 (p_vhdr p))
                 \<lparr>vh_hdr_len := 40 + 8, vh_csum_start := 40, vh_csum_offset := 6\<rparr>
      in snd (tun_write_vnet_inplace (Some vh) out (unat (40 + udp_len)) w))"

definition gso_translate_udp_4to6 :: "pkt \<Rightarrow> world \<Rightarrow> (int \<times> world) option" where
  "gso_translate_udp_4to6 p w =
     (if \<not> p_has_vhdr p \<or> gso_type p \<noteq> VIRTIO_NET_HDR_GSO_UDP_L4 then Some (-1, w)
      else if gso_validate_header p \<le> 0 then Some (-1, w)
      else if p_data_len p < 20 + 8 then Some (-1, w)
      else
        (case gso_validate_ipv4_header (w_mem w) p IPPROTO_UDP of
           None \<Rightarrow> Some (-1, w)
         | Some ihl \<Rightarrow>
             (if p_data_len p < ihl + 8 \<or> \<not> gso_validate_transport_vnet p ihl 8 6 then Some (-1, w)
              else
                (let ip4 = ld_ip4 (w_mem w) (p_data p);
                     udp_len = p_data_len p - ihl
                 in if i4_ttl ip4 \<le> 1 then Some (0, gso_icmp4 11 0 0 ihl IPPROTO_UDP p w)
                    else if udp_len > 0xffff
                      \<or> ucast (ntohs (udp_length (ld_udp (w_mem w) (p_data p + unat ihl)))) \<noteq> udp_len
                    then Some (-1, w)
                    else
                      (let payload_len = udp_len - 8;
                           gso_size = ucast (vh_gso_size (p_vhdr p))
                       in if gso_size > 0xffff - 8 \<or> \<not> gso_validate_udp_segment_count payload_len gso_size
                          then Some (-1, w)
                          else if mtu_exceeded4 w ip4 (20 + 8 + first_seg payload_len gso_size)
                          then Some (0, gso_icmp4 3 4 (ucast (g_mtu (w_g w)) - MTU_ADJ) ihl IPPROTO_UDP p w)
                          else if \<not> w_has_uso w \<or> ihl \<noteq> 20 then gso_software_segment_and_send_udp_4to6 p w
                          else
                            (case gso_map_4to6_with_icmp p ihl IPPROTO_UDP w of
                               (Inl r, w) \<Rightarrow> Some (map_rc r, w)
                             | (Inr (src6, dst6), w) \<Rightarrow>
                                 Some (0, send_gso_udp6 p (i4_tos ip4) (i4_ttl ip4 - 1) src6 dst6 udp_len w)))))))"

end
