(* ===== verification/Handle.thy ===== *)
theory Handle
  imports Nat64 Gso_Fast
begin

text \<open>
  \<open>handle_ip4\<close> and \<open>handle_ip6\<close> of \<open>src/src/nat64.c\<close>, and \<open>tun_process_frame\<close> of
  \<open>src/src/tun.c\<close>, which reads the offload header and dispatches on the IP version. The receive
  buffer starts at offset 0 of the memory; the frame ends up behind the headroom. \<open>None\<close> is a
  translation that does not end.
\<close>

definition handle_ip4 :: "pkt \<Rightarrow> world \<Rightarrow> world option" where
  "handle_ip4 p w =
     (if p_has_vhdr p \<and> gso_type p \<noteq> VIRTIO_NET_HDR_GSO_NONE then
        (if w_offload w \<and> gso_type p = VIRTIO_NET_HDR_GSO_TCPV4 then map_option snd (gso_translate_tcp_4to6 p w)
         else if w_offload w \<and> gso_type p = VIRTIO_NET_HDR_GSO_UDP_L4 then map_option snd (gso_translate_udp_4to6 p w)
         else Some w)
      else
        (case parse_ip4 (w_mem w) False p of
           Inl _ \<Rightarrow> Some w
         | Inr p \<Rightarrow>
             (let ip4 = ld_ip4 (w_mem w) (p_ip4 p);
                  ic = icmp_of (w_mem w) p
              in if i4_ttl ip4 = 0 \<or> ip_checksum (load (w_mem w) (p_ip4 p) (unat (p_header_len p))) \<noteq> 0
                   \<or> p_header_len p + p_data_len p \<noteq> ucast (ntohs (i4_length ip4))
                 then Some w
                 else if p_icmp p \<noteq> None \<and> ip_checksum (pkt_payload (w_mem w) p) \<noteq> 0 then Some w
                 else if i4_dest ip4 = g_local_addr4 (w_g w) then
                   Some (if p_data_proto p = 1 then host_handle_icmp4 p w else host_send_icmp4_error 3 2 0 p w)
                 else if i4_ttl ip4 = 1 then Some (host_send_icmp4_error 11 0 0 p w)
                 else if p_data_proto p \<noteq> 1 \<or> ic_type ic = 8 \<or> ic_type ic = 0 then xlate_4to6_data p w
                 else Some (xlate_4to6_icmp_error p w))))"

definition handle_ip6 :: "pkt \<Rightarrow> world \<Rightarrow> world option" where
  "handle_ip6 p w =
     (if p_has_vhdr p \<and> gso_type p \<noteq> VIRTIO_NET_HDR_GSO_NONE then
        (if w_offload w \<and> gso_type p = VIRTIO_NET_HDR_GSO_TCPV6 then map_option snd (gso_translate_tcp_6to4 p w)
         else if w_offload w \<and> gso_type p = VIRTIO_NET_HDR_GSO_UDP_L4 then map_option snd (gso_translate_udp_6to4 p w)
         else Some w)
      else
        (case parse_ip6 p False w of
           (Inl _, w) \<Rightarrow> Some w
         | (Inr p, w) \<Rightarrow>
             (let ip6 = ld_ip6 (w_mem w) (p_ip6 p);
                  ic = icmp_of (w_mem w) p
              in if i6_hop_limit ip6 = 0
                   \<or> p_header_len p + p_data_len p \<noteq> ucast (ntohs (i6_payload_length ip6))
                 then Some w
                 else if p_icmp p \<noteq> None
                   \<and> ones_add (ip_checksum (pkt_payload (w_mem w) p)) (ip6_checksum ip6 (p_data_len p) 58) \<noteq> 0
                 then Some w
                 else if i6_dest ip6 = g_local_addr6 (w_g w) then
                   Some (if p_data_proto p = 58 then host_handle_icmp6 p w else host_send_icmp6_error 4 1 6 p w)
                 else if i6_hop_limit ip6 = 1 then Some (host_send_icmp6_error 3 0 0 p w)
                 else if p_data_proto p \<noteq> 58 \<or> ic_type ic = 128 \<or> ic_type ic = 129
                 then Some (xlate_6to4_data p w)
                 else Some (xlate_6to4_icmp_error p w))))"

text \<open>The offload header of a received frame; a short one leaves the last field zero.\<close>

definition ld_vnet :: "mem \<Rightarrow> nat \<Rightarrow> nat \<Rightarrow> vnet_hdr" where
  "ld_vnet m a sz =
     (let bs = load m a sz @ replicate (12 - sz) 0
      in \<lparr>vh_flags = bs ! 0, vh_gso_type = bs ! 1, vh_hdr_len = le_word (take 2 (drop 2 bs)),
          vh_gso_size = le_word (take 2 (drop 4 bs)), vh_csum_start = le_word (take 2 (drop 6 bs)),
          vh_csum_offset = le_word (take 2 (drop 8 bs)), vh_num_buffers = le_word (take 2 (drop 10 bs))\<rparr>)"

definition frame_pkt :: "world \<Rightarrow> int \<Rightarrow> int \<Rightarrow> pkt option" where
  "frame_pkt w ret tun_fd =
     (if w_vnet w > 0 then
        (if ret \<le> int (w_vnet w) then None
         else Some (pkt_zero\<lparr>p_tun_fd := tun_fd, p_data := HEADROOM, p_data_len := word_of_int (ret - int (w_vnet w)),
                p_has_vhdr := True, p_vhdr := ld_vnet (w_mem w) (HEADROOM - w_vnet w) (w_vnet w)\<rparr>))
      else if ret < 1 then None
      else Some (pkt_zero\<lparr>p_tun_fd := tun_fd, p_data := HEADROOM, p_data_len := word_of_int ret\<rparr>))"

definition tun_process_frame :: "int \<Rightarrow> int \<Rightarrow> world \<Rightarrow> world option" where
  "tun_process_frame ret tun_fd w =
     (case frame_pkt w ret tun_fd of
        None \<Rightarrow> Some w
      | Some p \<Rightarrow>
          (if drop_bit 4 (w_mem w (p_data p)) = 4 then handle_ip4 p w
           else if drop_bit 4 (w_mem w (p_data p)) = 6 then handle_ip6 p w
           else Some w))"


section \<open>Reading a frame\<close>

text \<open>
  \<open>tun_read_packet\<close> without the dispatch mode. The first argument is the outcome of the read:
  an error or the bytes received, of which there are at most as many as the buffer has room for.
\<close>

datatype tun_read = TUN_READ_CONSUMED | TUN_READ_WOULDBLOCK | TUN_READ_INTR | TUN_READ_FATAL

definition read_len :: "world \<Rightarrow> nat" where
  "read_len w = RECV_BUF_SIZE - HEADROOM + w_vnet w"

definition tun_read_packet :: "errno + u8 list \<Rightarrow> int \<Rightarrow> world \<Rightarrow> (tun_read \<times> world) option" where
  "tun_read_packet input tun_fd w =
     (case input of
        Inl e \<Rightarrow> Some (if e = EAGAIN then TUN_READ_WOULDBLOCK else if e = EINTR then TUN_READ_INTR
                    else TUN_READ_FATAL, w\<lparr>w_errno := e\<rparr>)
      | Inr bytes \<Rightarrow>
          (let w = w\<lparr>w_mem := store (w_mem w) (HEADROOM - w_vnet w) bytes\<rparr>
           in if length bytes = read_len w then Some (TUN_READ_CONSUMED, w)
              else map_option (Pair TUN_READ_CONSUMED) (tun_process_frame (int (length bytes)) tun_fd w)))"

end
