(* ===== verification/Payload_Csum.thy ===== *)
theory Payload_Csum
  imports Payload
begin

text \<open>
  The payload translation keeps transport checksums right. A segment is the payload in the
  buffer followed by the bytes \<open>rest\<close> of the later fragments of its datagram; \<open>with_field\<close>
  puts a checksum into it. When the offload flag is still set on output, the device completes
  the checksum (\<open>device_csum\<close>) before the segment reaches the wire.
\<close>

section \<open>Fields of a payload\<close>

definition with_field :: "u8 list \<Rightarrow> nat \<Rightarrow> u16 \<Rightarrow> u8 list" where
  "with_field bs off v = take off bs @ le_bytes 2 v @ drop (off + 2) bs"

lemma length_with_field [simp]: "off + 2 \<le> length bs \<Longrightarrow> length (with_field bs off v) = length bs"
  by (simp add: with_field_def)

lemma with_field_twice [simp]: "off + 2 \<le> length bs \<Longrightarrow> with_field (with_field bs off u) off v = with_field bs off v"
  by (simp add: with_field_def)

lemma load_take: "k \<le> n \<Longrightarrow> take k (load m a n) = load m a k"
  by (rule nth_equalityI) simp_all

lemma load_drop: "k \<le> n \<Longrightarrow> drop k (load m a n) = load m (a + k) (n - k)"
  by (rule nth_equalityI) (simp_all add: add.assoc)

lemma load_three:
  assumes "off + 2 \<le> n"
  shows "load m a n = load m a off @ load m (a + off) 2 @ load m (a + off + 2) (n - (off + 2))"
proof -
  obtain k where n: "n = off + (2 + k)" using assms by (metis add.assoc le_Suc_ex)
  show ?thesis unfolding n load_append [of m a off] load_append [of m "a + off" 2] by simp
qed

lemma load_parts:
  assumes "off + 2 \<le> n"
  shows "take off (load m a n) = load m a off" "drop (off + 2) (load m a n) = load m (a + off + 2) (n - (off + 2))"
  using load_take [of off n m a] load_drop [of "off + 2" n m a] assms by (simp_all add: add.assoc)

lemma load_st16:
  assumes "off + 2 \<le> n"
  shows "load (st16 m (a + off) v) a n = with_field (load m a n) off v"
proof -
  let ?m = "store m (a + off) (le_bytes 2 v)"
  have "load ?m a n = load ?m a off @ load ?m (a + off) 2 @ load ?m (a + off + 2) (n - (off + 2))"
    by (rule load_three [OF assms])
  then show ?thesis
    unfolding with_field_def load_parts [OF assms] st16_def by (simp add: load_store_disjoint)
qed

lemma load_field:
  assumes "off + 2 \<le> n"
  shows "with_field (load m a n) off (ld16 m (a + off)) = load m a n"
proof -
  have "le_bytes 2 (ld16 m (a + off)) = load m (a + off) 2"
    using le_bytes_le_word [of "load m (a + off) 2", where 'a = 16] by (simp add: ld16_def)
  then show ?thesis unfolding with_field_def load_parts [OF assms] by (simp only: load_three [OF assms, symmetric])
qed

lemma payload_put:
  assumes "off + 2 \<le> unat (p_data_len p)"
  shows "pkt_payload (st16 m (p_data p + off) v) p = with_field (pkt_payload m p) off v"
    "with_field (pkt_payload m p) off (ld16 m (p_data p + off)) = pkt_payload m p"
  using load_st16 [OF assms] load_field [OF assms] by (simp_all add: pkt_payload_def)

lemma length_payload [simp]: "length (pkt_payload m p) = unat (p_data_len p)"
  by (simp add: pkt_payload_def)

section \<open>Validity of a segment as a congruence for its checksum field\<close>

definition seg_sum :: "u8 list \<Rightarrow> nat \<Rightarrow> u8 list \<Rightarrow> nat" where
  "seg_sum bs off rest = sum16 (take off bs) + sum16 (drop (off + 2) bs @ rest)"

lemma valid4_with_field:
  assumes "even off" "off + 2 \<le> length bs"
  shows "valid4 s d proto (with_field bs off v @ rest) \<longleftrightarrow> oceq (int (unat v))
    (- int (seg_sum bs off rest + pseudo4 s d (word_of_nat (length bs + length rest)) proto))"
  using valid4_field [of "take off bs" s d proto v "drop (off + 2) bs @ rest"] assms
  by (simp add: with_field_def seg_sum_def)

lemma valid6_with_field:
  assumes "even off" "off + 2 \<le> length bs"
  shows "valid6 s d proto (with_field bs off v @ rest) \<longleftrightarrow> oceq (int (unat v))
    (- int (seg_sum bs off rest + pseudo6 s d (word_of_nat (length bs + length rest)) proto))"
  using valid6_field [of "take off bs" s d proto v "drop (off + 2) bs @ rest"] assms
  by (simp add: with_field_def seg_sum_def)

lemma sum16_with_field:
  "even off \<Longrightarrow> off + 2 \<le> length bs \<Longrightarrow> sum16 (with_field bs off v) = seg_sum bs off [] + unat v"
  by (simp add: with_field_def seg_sum_def sum16_field)

lemma oceq_nonzero: "oceq (int (unat (nonzero_ck c))) (int (unat c))"
  by (simp add: nonzero_ck_def oceq_def)

lemma csum_off_even [simp]: "even (csum_off proto)"
  by (simp add: csum_off_def)

text \<open>The incremental update.\<close>

lemma adjust_field_4to6:
  fixes h4 :: ip4 and h6 :: ip6
  assumes "even off" "off + 2 \<le> length bs" "valid4 (i4_src h4) (i4_dest h4) proto (with_field bs off c @ rest)"
    and v: "v = ones_add c (NOT (convert_cksum h6 h4)) \<or> v = nonzero_ck (ones_add c (NOT (convert_cksum h6 h4)))"
  shows "valid6 (i6_src h6) (i6_dest h6) proto (with_field bs off v @ rest)"
proof -
  let ?u = "ones_add c (NOT (convert_cksum h6 h4))"
  have "valid6 (i6_src h6) (i6_dest h6) proto (with_field bs off ?u @ rest)"
    using convert_cksum_4to6 [of "take off bs" h4 proto c "drop (off + 2) bs @ rest" h6] assms(1-3)
    by (simp add: with_field_def)
  then show ?thesis using v oceq_trans [OF oceq_nonzero [of ?u]]
    by (auto simp: valid6_with_field [OF assms(1,2)])
qed

lemma adjust_field_6to4:
  fixes h4 :: ip4 and h6 :: ip6
  assumes "even off" "off + 2 \<le> length bs" "valid6 (i6_src h6) (i6_dest h6) proto (with_field bs off c @ rest)"
    and v: "v = ones_add c (convert_cksum h6 h4) \<or> v = nonzero_ck (ones_add c (convert_cksum h6 h4))"
  shows "valid4 (i4_src h4) (i4_dest h4) proto (with_field bs off v @ rest)"
proof -
  let ?u = "ones_add c (convert_cksum h6 h4)"
  have "valid4 (i4_src h4) (i4_dest h4) proto (with_field bs off ?u @ rest)"
    using convert_cksum_6to4 [of "take off bs" h6 proto c "drop (off + 2) bs @ rest" h4] assms(1-3)
    by (simp add: with_field_def)
  then show ?thesis using v oceq_trans [OF oceq_nonzero [of ?u]]
    by (auto simp: valid4_with_field [OF assms(1,2)])
qed

text \<open>A checksum computed from scratch over a zero field.\<close>

lemma full_field_6:
  fixes h :: ip6
  assumes "even off" "off + 2 \<le> length bs" "length bs = unat len"
    and v: "v = ck \<or> v = nonzero_ck ck" "ck = ones_add (ip_checksum (with_field bs off 0)) (ip6_checksum h len proto)"
  shows "valid6 (i6_src h) (i6_dest h) proto (with_field bs off v)"
proof -
  have s: "sum16 (with_field bs off 0) = seg_sum bs off []"
    using sum16_with_field [OF assms(1,2), of 0] by simp
  have "oceq (int (unat ck)) (- int (sum16 (with_field bs off 0)) + - int (pseudo6 (i6_src h) (i6_dest h) len proto))"
    unfolding v(2) by (rule oceq_trans [OF oceq_ones_add oceq_add [OF oceq_ip_checksum oceq_ip6_checksum]])
  then have "oceq (int (unat v)) (- int (seg_sum bs off [] + pseudo6 (i6_src h) (i6_dest h) len proto))"
    using v(1) oceq_trans [OF oceq_nonzero [of ck]] by (auto simp: s)
  then show ?thesis
    using valid6_with_field [OF assms(1,2), of "i6_src h" "i6_dest h" proto v "[]"] by (simp add: assms(3))
qed

lemma full_field_4:
  fixes h :: ip4
  assumes "even off" "off + 2 \<le> length bs" "length bs = unat len"
    and v: "v = ck \<or> v = nonzero_ck ck" "ck = ones_add (ip_checksum (with_field bs off 0)) (ip4_checksum h len proto)"
  shows "valid4 (i4_src h) (i4_dest h) proto (with_field bs off v)"
proof -
  have s: "sum16 (with_field bs off 0) = seg_sum bs off []"
    using sum16_with_field [OF assms(1,2), of 0] by simp
  have "oceq (int (unat ck)) (- int (sum16 (with_field bs off 0)) + - int (pseudo4 (i4_src h) (i4_dest h) len proto))"
    unfolding v(2) by (rule oceq_trans [OF oceq_ones_add oceq_add [OF oceq_ip_checksum oceq_ip4_checksum]])
  then have "oceq (int (unat v)) (- int (seg_sum bs off [] + pseudo4 (i4_src h) (i4_dest h) len proto))"
    using v(1) oceq_trans [OF oceq_nonzero [of ck]] by (auto simp: s)
  then show ?thesis
    using valid4_with_field [OF assms(1,2), of "i4_src h" "i4_dest h" proto v "[]"] by (simp add: assms(3))
qed

text \<open>
  Checksum offload: the field holds the pseudo-header sum, the device sums the segment and stores
  the complement.
\<close>

definition device_csum :: "u8 list \<Rightarrow> nat \<Rightarrow> u8 list" where
  "device_csum bs off = with_field bs off (ip_checksum bs)"

lemma device_field_6:
  fixes h :: ip6
  assumes "even off" "off + 2 \<le> length bs" "length bs = unat len"
    and v: "v = htons (gso_calc_pseudo6 (i6_src h) (i6_dest h) proto len)"
  shows "valid6 (i6_src h) (i6_dest h) proto (device_csum (with_field bs off v) off)"
proof -
  let ?p = "pseudo6 (i6_src h) (i6_dest h) len proto"
  have "v = NOT (ip6_checksum h len proto)" using v by (simp add: gso_pseudo6_swap)
  then have "oceq (int (unat v)) (int ?p)"
    using oceq_trans [OF oceq_not_u16 oceq_minus [OF oceq_ip6_checksum]] by simp
  then have "oceq (- int (sum16 (with_field bs off v))) (- int (seg_sum bs off [] + ?p))"
    unfolding sum16_with_field [OF assms(1,2)] by (simp add: oceq_def algebra_simps dvd_diff_commute)
  from oceq_trans [OF oceq_ip_checksum this] show ?thesis
    using valid6_with_field [OF assms(1,2), of "i6_src h" "i6_dest h" proto _ "[]"]
    unfolding device_csum_def with_field_twice [OF assms(2)] by (simp add: assms(3))
qed

lemma device_field_4:
  fixes h :: ip4
  assumes "even off" "off + 2 \<le> length bs" "length bs = unat len" "unat len < 65536"
    and v: "v = htons (gso_calc_pseudo4 (i4_src h) (i4_dest h) proto len)"
  shows "valid4 (i4_src h) (i4_dest h) proto (device_csum (with_field bs off v) off)"
proof -
  let ?p = "pseudo4 (i4_src h) (i4_dest h) len proto"
  have "v = NOT (ip4_checksum h len proto)" using v by (simp add: gso_pseudo4_swap assms(4))
  then have "oceq (int (unat v)) (int ?p)"
    using oceq_trans [OF oceq_not_u16 oceq_minus [OF oceq_ip4_checksum]] by simp
  then have "oceq (- int (sum16 (with_field bs off v))) (- int (seg_sum bs off [] + ?p))"
    unfolding sum16_with_field [OF assms(1,2)] by (simp add: oceq_def algebra_simps dvd_diff_commute)
  from oceq_trans [OF oceq_ip_checksum this] show ?thesis
    using valid4_with_field [OF assms(1,2), of "i4_src h" "i4_dest h" proto _ "[]"]
    unfolding device_csum_def with_field_twice [OF assms(2)] by (simp add: assms(3))
qed

end
