(* ===== verification/Payload_Laws.thy ===== *)
theory Payload_Laws
  imports Payload_Csum
begin

text \<open>
  Correctness of \<open>xlate_payload_4to6\<close> and \<open>xlate_payload_6to4\<close>: a segment that is valid for one
  address family leaves as a segment that is valid for the other, and nothing outside the
  transport header and payload is written.
\<close>

section \<open>The segment on the wire\<close>

definition wire_seg :: "mem \<Rightarrow> pkt \<Rightarrow> u8 list" where
  "wire_seg m p = (if needs_csum p then device_csum (pkt_payload m p) (csum_off (p_data_proto p))
     else pkt_payload m p)"

text \<open>Protocols with a checksum over the pseudo-header.\<close>

definition csum_proto :: "u8 \<Rightarrow> bool" where
  "csum_proto proto \<longleftrightarrow> proto \<in> {IPPROTO_TCP, IPPROTO_UDP, IPPROTO_DCCP, IPPROTO_UDPLITE}"

text \<open>UDP without a checksum.\<close>

definition udp_no_csum :: "mem \<Rightarrow> pkt \<Rightarrow> bool" where
  "udp_no_csum m p \<longleftrightarrow> p_data_proto p = IPPROTO_UDP \<and> ld16 m (p_data p + 6) = 0"

lemma clear_needs_csum_simps [simp]:
  "needs_csum (clear_needs_csum p) = False" "pkt_payload m (clear_needs_csum p) = pkt_payload m p"
  "p_data_proto (clear_needs_csum p) = p_data_proto p" "p_data (clear_needs_csum p) = p_data p"
  "p_data_len (clear_needs_csum p) = p_data_len p" "p_tun_fd (clear_needs_csum p) = p_tun_fd p"
  "p_ip4 (clear_needs_csum p) = p_ip4 p" "p_ip6 (clear_needs_csum p) = p_ip6 p"
  "p_header_len (clear_needs_csum p) = p_header_len p" "p_ip6_frag (clear_needs_csum p) = p_ip6_frag p"
  "p_icmp (clear_needs_csum p) = p_icmp p" "p_has_vhdr (clear_needs_csum p) = p_has_vhdr p"
proof -
  have "(x AND NOT y) AND y = 0" for x y :: u8 by (rule bit_word_eqI) (auto simp: bit_and_iff bit_not_iff)
  then show "needs_csum (clear_needs_csum p) = False" by (simp add: needs_csum_def clear_needs_csum_def)
qed (simp_all add: clear_needs_csum_def pkt_payload_def)

lemma put16_simps [simp]:
  "w_mem (put16 a v w) = st16 (w_mem w) a v" "w_g (put16 a v w) = w_g w" "w_vnet (put16 a v w) = w_vnet w"
  "w_offload (put16 a v w) = w_offload w" "w_has_uso (put16 a v w) = w_has_uso w" "w_ident (put16 a v w) = w_ident w" "w_io (put16 a v w) = w_io w"
  "w_tx (put16 a v w) = w_tx w" "w_errno (put16 a v w) = w_errno w"
  by (simp_all add: put16_def)

lemma put16_put16: "w_mem (put16 a v (put16 a u w)) = st16 (st16 (w_mem w) a u) a v"
  by simp

lemma csum_off_simps: "csum_off IPPROTO_TCP = 16" "csum_off IPPROTO_UDP = 6" "csum_off 17 = 6" "csum_off 6 = 16"
  "csum_off IPPROTO_DCCP = 6" "csum_off IPPROTO_UDPLITE = 6"
  by (simp_all add: csum_off_def proto_defs)

lemma len_le: "\<not> p_data_len p < n \<Longrightarrow> unat n \<le> unat (p_data_len p)"
  by (simp add: word_less_nat_alt not_less)

section \<open>IPv4 to IPv6\<close>

text \<open>The three ways a checksum field is filled without looking at the old checksum.\<close>

lemma calc_seal_6:
  fixes h :: ip6 and m :: mem and proto :: u8
  assumes "even off" "off + 2 \<le> unat (p_data_len p)"
  defines "ck \<equiv> full_csum6 (st16 m (p_data p + off) 0) p h proto"
  shows "valid6 (i6_src h) (i6_dest h) proto
      (pkt_payload (st16 (st16 m (p_data p + off) 0) (p_data p + off) ck) p)" (is ?A)
    and "valid6 (i6_src h) (i6_dest h) proto
      (pkt_payload (st16 (st16 m (p_data p + off) 0) (p_data p + off) (nonzero_ck ck)) p)" (is ?B)
proof -
  have l: "off + 2 \<le> length (pkt_payload m p)" using assms(2) by simp
  have ck: "ck = ones_add (ip_checksum (with_field (pkt_payload m p) off 0)) (ip6_checksum h (p_data_len p) proto)"
    by (simp add: ck_def full_csum6_def payload_put(1) [OF assms(2)])
  have "valid6 (i6_src h) (i6_dest h) proto (with_field (pkt_payload m p) off v)"
    if "v = ck \<or> v = nonzero_ck ck" for v
    by (rule full_field_6 [OF assms(1) l _ that ck]) simp
  then show ?A ?B using l by (simp_all add: payload_put(1) [OF assms(2)])
qed

lemma calc_zero_6:
  fixes h :: ip6 and m :: mem
  assumes "even off" "off + 2 \<le> unat (p_data_len p)" "ld16 m (p_data p + off) = 0"
  shows "valid6 (i6_src h) (i6_dest h) proto
    (pkt_payload (st16 m (p_data p + off) (nonzero_ck (full_csum6 m p h proto))) p)"
proof -
  have "st16 m (p_data p + off) 0 = m"
  proof
    fix i
    have "le_bytes 2 (0 :: u16) = load m (p_data p + off) 2"
      using le_bytes_le_word [of "load m (p_data p + off) 2", where 'a = 16] assms(3) by (simp add: ld16_def)
    then show "st16 m (p_data p + off) 0 i = m i" by (auto simp: st16_def store_def)
  qed
  then show ?thesis using calc_seal_6(2) [OF assms(1,2), where m = m] by simp
qed

lemma seed_6:
  fixes h :: ip6 and m :: mem
  assumes "even off" "off + 2 \<le> unat (p_data_len p)"
  shows "valid6 (i6_src h) (i6_dest h) proto (device_csum (pkt_payload (st16 m (p_data p + off)
    (htons (gso_calc_pseudo6 (i6_src h) (i6_dest h) proto (p_data_len p)))) p) off)"
  unfolding payload_put(1) [OF assms(2)]
  by (rule device_field_6 [OF assms(1)]) (use assms in simp_all)

text \<open>The outcomes of the case for UDP and of the case for TCP.\<close>

lemma udp_4to6_cases:
  assumes "udp_4to6 p ip6 False w = (v, q, w')" "p_data_proto p = 17" "v \<noteq> Done ERROR_DROP"
  shows "8 \<le> unat (p_data_len p) \<and>
    (if needs_csum p then v = Done ERROR_NONE \<and> valid6 (i6_src ip6) (i6_dest ip6) 17 (wire_seg (w_mem w') q)
     else if udp_no_csum (w_mem w) p then v = Done ERROR_NONE
       \<and> (g_udp_cksum_mode (w_g w) = UDP_CKSUM_FWD \<and> w' = w \<and> q = p
          \<or> g_udp_cksum_mode (w_g w) = UDP_CKSUM_CALC \<and> valid6 (i6_src ip6) (i6_dest ip6) 17 (wire_seg (w_mem w') q))
     else v = Adjust \<and> q = p \<and> w' = w)"
proof -
  have l: "\<not> p_data_len p < 8" using assms(1,3) by (auto simp: udp_4to6_def)
  then have l8: "6 + 2 \<le> unat (p_data_len p)" using len_le by fastforce
  note calc_seal_6(2) [OF _ l8, where m = "w_mem w" and h = ip6 and proto = 17, simplified]
    calc_zero_6 [OF _ l8, where m = "w_mem w" and h = ip6 and proto = 17, simplified] seed_6 [OF _ l8, where m = "w_mem w" and h = ip6 and proto = 17, simplified]
  with assms l l8 show ?thesis
    by (auto simp: udp_4to6_def Let_def wire_seg_def udp_no_csum_def IPPROTO_UDP_def gso_calc_udp_pseudo6_def
        csum_off_simps split: if_splits udp_cksum_mode.splits)
qed

lemma tcp_4to6_cases:
  assumes "tcp_4to6 p ip6 False w = (v, q, w')" "p_data_proto p = 6" "v \<noteq> Done ERROR_DROP"
  shows "20 \<le> unat (p_data_len p) \<and>
    (if needs_csum p then v = Done ERROR_NONE \<and> valid6 (i6_src ip6) (i6_dest ip6) 6 (wire_seg (w_mem w') q)
     else v = Adjust \<and> q = p \<and> w' = w)"
proof -
  have l: "\<not> p_data_len p < 20" using assms(1,3) by (auto simp: tcp_4to6_def)
  then have l20: "20 \<le> unat (p_data_len p)" "16 + 2 \<le> unat (p_data_len p)" using len_le by fastforce+
  note calc_seal_6(1) [OF _ l20(2), where m = "w_mem w" and h = ip6 and proto = 6, simplified]
    seed_6 [OF _ l20(2), where m = "w_mem w" and h = ip6 and proto = 6, simplified]
  with assms l l20 show ?thesis
    by (auto simp: tcp_4to6_def Let_def wire_seg_def IPPROTO_TCP_def gso_calc_tcp_pseudo6_def
        csum_off_simps split: if_splits)
qed

lemma lite_payload_cases:
  assumes "lite_payload p False w = v" "v \<noteq> Done ERROR_DROP"
  shows "8 \<le> unat (p_data_len p) \<and> v = Adjust \<and> \<not> needs_csum p"
  using assms len_le [of p 8] len_le [of p 12] by (auto simp: lite_payload_def split: if_splits)

lemma adjust_4to6_valid:
  assumes "csum_off (p_data_proto p) + 2 \<le> unat (p_data_len p)"
    and "valid4 (i4_src (ld_ip4 (w_mem w) (p_ip4 p))) (i4_dest (ld_ip4 (w_mem w) (p_ip4 p))) (p_data_proto p)
      (pkt_payload (w_mem w) p @ rest)"
  shows "valid6 (i6_src ip6) (i6_dest ip6) (p_data_proto p) (pkt_payload (w_mem (adjust_4to6 p ip6 w)) p @ rest)"
proof -
  let ?off = "csum_off (p_data_proto p)"
  let ?c = "ld16 (w_mem w) (p_data p + ?off)"
  let ?k = "ones_add ?c (NOT (convert_cksum ip6 (ld_ip4 (w_mem w) (p_ip4 p))))"
  let ?v = "if p_data_proto p = IPPROTO_UDP \<or> p_data_proto p = IPPROTO_UDPLITE then nonzero_ck ?k else ?k"
  have v: "?v = ?k \<or> ?v = nonzero_ck ?k" "w_mem (adjust_4to6 p ip6 w) = st16 (w_mem w) (p_data p + ?off) ?v"
    by (simp_all add: adjust_4to6_def Let_def)
  show ?thesis
    unfolding v(2) payload_put(1) [OF assms(1)]
    by (rule adjust_field_4to6 [OF csum_off_even _ _ v(1)]) (use assms in \<open>simp_all add: payload_put(2)\<close>)
qed

text \<open>
  The whole routine: \<open>rest\<close> stands for the later fragments of the datagram, of which only the first
  has the checksum.
\<close>

lemma payload_4to6_valid:
  assumes x: "xlate_payload_4to6 p ip6 False w = (ERROR_NONE, q, w')"
    and h: "h = ld_ip4 (w_mem w) (p_ip4 p)"
    and first: "ntohs (i4_flags_offset h) AND IP4_F_MASK = 0"
    and proto: "csum_proto (p_data_proto p)"
    and whole: "needs_csum p \<or> udp_no_csum (w_mem w) p \<Longrightarrow> rest = []"
    and calc: "\<not> needs_csum p \<Longrightarrow> udp_no_csum (w_mem w) p \<Longrightarrow> g_udp_cksum_mode (w_g w) \<noteq> UDP_CKSUM_FWD"
    and inp: "\<not> needs_csum p \<Longrightarrow> \<not> udp_no_csum (w_mem w) p \<Longrightarrow>
      valid4 (i4_src h) (i4_dest h) (p_data_proto p) (pkt_payload (w_mem w) p @ rest)"
  shows "valid6 (i6_src ip6) (i6_dest ip6) (p_data_proto p) (wire_seg (w_mem w') q @ rest)"
proof -
  let ?step = "if p_data_proto p = 17 then udp_4to6 p ip6 False w
    else if p_data_proto p = 6 then tcp_4to6 p ip6 False w
    else if p_data_proto p = IPPROTO_DCCP \<or> p_data_proto p = IPPROTO_UDPLITE then (lite_payload p False w, p, w)
    else (Done (if needs_csum p then ERROR_DROP else ERROR_NONE), p, w)"
  obtain v q1 w1 where st: "?step = (v, q1, w1)" by (cases ?step) auto
  have p1: "p_data_proto p \<noteq> 1" using proto by (auto simp: csum_proto_def proto_defs)
  have vr: "case v of Done e \<Rightarrow> e = ERROR_NONE \<and> q = q1 \<and> w' = w1 | Adjust \<Rightarrow> q = q1 \<and> w' = adjust_4to6 q1 ip6 w1"
    using x first p1 h st by (auto simp: xlate_payload_4to6_def Let_def split: if_splits verdict.splits)
  have nd: "v \<noteq> Done ERROR_DROP" using vr by auto
  have adj: ?thesis if "v = Adjust" "q1 = p" "w1 = w" "csum_off (p_data_proto p) + 2 \<le> unat (p_data_len p)"
    "\<not> needs_csum p" "\<not> udp_no_csum (w_mem w) p"
    using adjust_4to6_valid [OF that(4), of w rest ip6] vr that inp h by (simp add: wire_seg_def)
  consider "p_data_proto p = 17" | "p_data_proto p = 6" | "p_data_proto p = IPPROTO_DCCP \<or> p_data_proto p = IPPROTO_UDPLITE"
    using proto by (auto simp: csum_proto_def proto_defs)
  then show ?thesis
  proof cases
    case 1
    from udp_4to6_cases [of p ip6 w v q1 w1] st nd 1 show ?thesis
      using adj vr whole calc by (auto simp: csum_off_simps split: if_splits)
  next
    case 2
    then have "\<not> udp_no_csum (w_mem w) p" by (simp add: udp_no_csum_def IPPROTO_UDP_def)
    with tcp_4to6_cases [of p ip6 w v q1 w1] st nd 2 show ?thesis
      using adj vr whole by (auto simp: csum_off_simps split: if_splits)
  next
    case 3
    then have n: "\<not> udp_no_csum (w_mem w) p" "csum_off (p_data_proto p) = 6" "p_data_proto p \<noteq> 17" "p_data_proto p \<noteq> 6"
      unfolding udp_no_csum_def csum_off_def proto_defs by (elim disjE; simp)+
    from st n(3,4) 3 have l: "lite_payload p False w = v" "q1 = p" "w1 = w" by auto
    from lite_payload_cases [OF l(1) nd] show ?thesis using adj l n by simp
  qed
qed

section \<open>ICMP echo\<close>

text \<open>Changing the first byte of a message changes its sum by the difference.\<close>

lemma load_set_first: "0 < n \<Longrightarrow> load (store m a [b]) a n = b # tl (load m a n)"
proof (rule nth_equalityI)
  fix i
  assume "0 < n" "i < length (load (store m a [b]) a n)"
  then show "load (store m a [b]) a n ! i = (b # tl (load m a n)) ! i"
    by (cases i) (auto simp: store_def nth_tl)
qed simp

lemma seg_sum_type:
  assumes "4 \<le> length bs" "hd bs = t"
  shows "int (seg_sum (b # tl bs) 2 rest) = int (seg_sum bs 2 rest) + int (unat b) - int (unat t)"
proof -
  obtain c r where "bs = t # c # r"
    using assms by (cases bs; cases "tl bs") auto
  then show ?thesis by (simp add: seg_sum_def)
qed

text \<open>
  The message with type \<open>t\<close> and checksum \<open>ck\<close> becomes the one with type \<open>b\<close> and checksum \<open>ck'\<close>.
\<close>

lemma icmp_payload_step:
  assumes "4 \<le> unat (p_data_len p)"
  shows "pkt_payload (st16 (store m (p_data p) [b]) (p_data p + 2) v) p = with_field (b # tl (pkt_payload m p)) 2 v"
    "with_field (pkt_payload m p) 2 (ld16 m (p_data p + 2)) = pkt_payload m p"
    "hd (pkt_payload m p) = m (p_data p)"
proof -
  have l: "2 + 2 \<le> unat (p_data_len p)" "0 < unat (p_data_len p)" using assms by simp_all
  show "pkt_payload (st16 (store m (p_data p) [b]) (p_data p + 2) v) p = with_field (b # tl (pkt_payload m p)) 2 v"
    using payload_put(1) [OF l(1), of "store m (p_data p) [b]" v] load_set_first [OF l(2)] by (simp add: pkt_payload_def)
  show "with_field (pkt_payload m p) 2 (ld16 m (p_data p + 2)) = pkt_payload m p" by (rule payload_put(2) [OF l(1)])
  have "pkt_payload m p \<noteq> []" using l(2) by (metis length_payload list.size(3) less_irrefl)
  then show "hd (pkt_payload m p) = m (p_data p)" using l(2) by (simp add: hd_conv_nth) (simp add: pkt_payload_def)
qed

text \<open>Requests become requests, everything else becomes a reply.\<close>

definition echo_4to6 :: "u8 \<Rightarrow> u8" where "echo_4to6 t = (if t = 8 then 128 else 129)"
definition echo_6to4 :: "u8 \<Rightarrow> u8" where "echo_6to4 t = (if t = 128 then 8 else 0)"

lemma icmp_4to6_mem:
  assumes "p_icmp p = Some (p_data p)"
  shows "icmp_4to6 p ip6 w = w\<lparr>w_mem := st16 (store (w_mem w) (p_data p) [echo_4to6 (w_mem w (p_data p))]) (p_data p + 2)
    (ones_add (ones_add (ld16 (w_mem w) (p_data p + 2))
        (ip6_checksum ip6 (ucast (ntohs (i4_length (ld_ip4 (w_mem w) (p_ip4 p)))) - p_header_len p) 58))
      (NOT (if w_mem w (p_data p) = 8 then 120 else 129)))\<rparr>"
  using assms by (simp add: icmp_4to6_def Let_def icmp_of_def icmp_ptr_def ld_icmp_def put16_def echo_4to6_def)

lemma icmp_4to6_valid:
  assumes icmp: "p_icmp p = Some (p_data p)" "8 \<le> unat (p_data_len p)"
    and len: "ucast (ntohs (i4_length (ld_ip4 (w_mem w) (p_ip4 p)))) - p_header_len p = p_data_len p"
    and type: "w_mem w (p_data p) = 8 \<or> w_mem w (p_data p) = 0"
    and ok: "ip_checksum (pkt_payload (w_mem w) p) = 0"
  shows "valid6 (i6_src ip6) (i6_dest ip6) 58 (pkt_payload (w_mem (icmp_4to6 p ip6 w)) p)"
proof -
  let ?m = "w_mem w"
  let ?bs = "pkt_payload ?m p"
  let ?t = "?m (p_data p)"
  let ?k = "if ?t = 8 then 120 else 129 :: u16"
  let ?c = "ld16 ?m (p_data p + 2)"
  let ?pc = "pseudo6 (i6_src ip6) (i6_dest ip6) (p_data_len p) 58"
  let ?v = "ones_add (ones_add ?c (ip6_checksum ip6 (p_data_len p) 58)) (NOT ?k)"
  have l4: "4 \<le> unat (p_data_len p)" using icmp(2) by simp
  note st = icmp_payload_step [OF l4]
  have "oceq (int (sum16 (with_field ?bs 2 ?c))) 0"
    using ok unfolding st(2) ip_checksum_0_iff oceq_0 .
  then have c: "oceq (int (unat ?c)) (- int (seg_sum ?bs 2 []))"
    using l4 by (simp add: sum16_with_field oceq_def algebra_simps)
  have k: "int (unat ?k) = int (unat (echo_4to6 ?t)) - int (unat ?t)"
    using type by (auto simp: echo_4to6_def)
  have "oceq (int (unat ?v))
      (- int (seg_sum ?bs 2 []) + - int ?pc + - int (unat ?k))"
    by (rule oceq_trans [OF oceq_ones_add oceq_add [OF oceq_trans [OF oceq_ones_add oceq_add [OF c oceq_ip6_checksum]] oceq_not_u16]])
  also have "- int (seg_sum ?bs 2 []) + - int ?pc + - int (unat ?k)
      = - int (seg_sum (echo_4to6 ?t # tl ?bs) 2 [] + ?pc)"
    using seg_sum_type [of ?bs ?t "echo_4to6 ?t" "[]"] st(3) l4 unfolding k by simp
  finally have v: "oceq (int (unat ?v)) (- int (seg_sum (echo_4to6 ?t # tl ?bs) 2 [] + ?pc))" .
  have mem: "w_mem (icmp_4to6 p ip6 w) = st16 (store ?m (p_data p) [echo_4to6 ?t]) (p_data p + 2) ?v"
    using icmp_4to6_mem [OF icmp(1), of ip6 w] unfolding len by simp
  have "valid6 (i6_src ip6) (i6_dest ip6) 58 (with_field (echo_4to6 ?t # tl ?bs) 2 ?v @ [])"
    using v l4 by (subst valid6_with_field) simp_all
  then show ?thesis unfolding mem st(1) by simp
qed

section \<open>What is written\<close>

text \<open>
  Only the bytes of the payload change in memory, only the offload flag in the packet record and
  nothing else in the world.
\<close>

definition payload_only :: "pkt \<Rightarrow> world \<Rightarrow> pkt \<Rightarrow> world \<Rightarrow> bool" where
  "payload_only p w q w' \<longleftrightarrow> (q = p \<or> q = clear_needs_csum p) \<and> w' = w\<lparr>w_mem := w_mem w'\<rparr>
     \<and> (\<forall>i. i < p_data p \<or> p_data p + unat (p_data_len p) \<le> i \<longrightarrow> w_mem w' i = w_mem w i)"

lemma payload_only_refl: "payload_only p w p w"
  by (simp add: payload_only_def)

lemma payload_only_put: "off + 2 \<le> unat (p_data_len p) \<Longrightarrow> payload_only p w p (put16 (p_data p + off) v w)"
  by (auto simp: payload_only_def put16_def st16_other)

lemma payload_only_put_clear: "off + 2 \<le> unat (p_data_len p) \<Longrightarrow>
    payload_only p w (clear_needs_csum p) (put16 (p_data p + off) v (put16 (p_data p + off) u w))"
  by (auto simp: payload_only_def put16_def st16_other)

lemma payload_only_type: "4 \<le> unat (p_data_len p) \<Longrightarrow>
    payload_only p w p (put16 (p_data p + 2) v (w\<lparr>w_mem := store (w_mem w) (p_data p) [b]\<rparr>))"
  by (auto simp: payload_only_def put16_def st16_other) (auto simp: st16_def store_def)

lemmas payload_only_rules = payload_only_refl payload_only_put payload_only_put_clear

lemma udp_4to6_only:
  assumes "udp_4to6 p ip6 em w = (v, q, w')"
  shows "payload_only p w q w' \<and> (v = Adjust \<longrightarrow> q = p \<and> w' = w \<and> 8 \<le> unat (p_data_len p))"
proof (cases "p_data_len p < 8")
  case True
  then show ?thesis using assms by (auto simp: udp_4to6_def payload_only_refl)
next
  case False
  then have "6 + 2 \<le> unat (p_data_len p)" using len_le by fastforce
  note payload_only_put [OF this] payload_only_put_clear [OF this]
  with assms False \<open>6 + 2 \<le> unat (p_data_len p)\<close> show ?thesis
    by (auto simp: udp_4to6_def Let_def payload_only_refl split: if_splits udp_cksum_mode.splits)
qed

lemma tcp_4to6_only:
  assumes "tcp_4to6 p ip6 em w = (v, q, w')"
  shows "payload_only p w q w' \<and> (v = Adjust \<longrightarrow> q = p \<and> w' = w \<and> 20 \<le> unat (p_data_len p))"
proof (cases "p_data_len p < 20")
  case True
  then show ?thesis using assms by (auto simp: tcp_4to6_def payload_only_refl)
next
  case False
  then have l: "16 + 2 \<le> unat (p_data_len p)" "20 \<le> unat (p_data_len p)" using len_le by fastforce+
  note payload_only_put [OF l(1)] payload_only_put_clear [OF l(1)]
  with assms False l show ?thesis
    by (auto simp: tcp_4to6_def Let_def payload_only_refl split: if_splits)
qed

lemma lite_payload_len: "lite_payload p em w = Adjust \<Longrightarrow> 8 \<le> unat (p_data_len p)"
  using len_le [of p 8] len_le [of p 12] by (auto simp: lite_payload_def split: if_splits)

text \<open>Every case that reaches the update has the room for the checksum field.\<close>

lemma csum_off_fits:
  "proto = 6 \<and> 20 \<le> n \<or> proto \<noteq> 6 \<and> 8 \<le> n \<Longrightarrow> csum_off proto + 2 \<le> n"
  by (auto simp: csum_off_def IPPROTO_TCP_def)

lemma payload_4to6_only:
  assumes "xlate_payload_4to6 p ip6 em w = (e, q, w')"
    and icmp: "p_data_proto p = 1 \<Longrightarrow> p_icmp p = Some (p_data p) \<and> 8 \<le> unat (p_data_len p)"
  shows "payload_only p w q w'"
proof -
  let ?step = "if p_data_proto p = 17 then udp_4to6 p ip6 em w
    else if p_data_proto p = 6 then tcp_4to6 p ip6 em w
    else if p_data_proto p = IPPROTO_DCCP \<or> p_data_proto p = IPPROTO_UDPLITE then (lite_payload p em w, p, w)
    else (Done (if needs_csum p then ERROR_DROP else ERROR_NONE), p, w)"
  obtain v q1 w1 where st: "?step = (v, q1, w1)" by (cases ?step) auto
  have o: "payload_only p w q1 w1"
    and a: "v = Adjust \<Longrightarrow> q1 = p \<and> w1 = w \<and> csum_off (p_data_proto p) + 2 \<le> unat (p_data_len p)"
    using st udp_4to6_only [of p ip6 em w v q1 w1] tcp_4to6_only [of p ip6 em w v q1 w1]
      lite_payload_len [of p em w] csum_off_fits [of "p_data_proto p" "unat (p_data_len p)"]
    by (auto simp: payload_only_refl split: if_splits)
  have adj: "payload_only p w p (adjust_4to6 p ip6 w)" if "csum_off (p_data_proto p) + 2 \<le> unat (p_data_len p)"
    using payload_only_put [OF that] by (simp add: adjust_4to6_def Let_def)
  have ic: "p_data_proto p = 1 \<Longrightarrow> payload_only p w p (icmp_4to6 p ip6 w)"
    using icmp payload_only_type [of p w] by (auto simp: icmp_4to6_def icmp_ptr_def Let_def)
  from assms(1) show ?thesis
    unfolding xlate_payload_4to6_def Let_def st
    using o a adj ic payload_only_refl by (auto split: if_splits verdict.splits)
qed

end
