(* ===== verification/Payload_Laws6.thy ===== *)
theory Payload_Laws6
  imports Payload_Laws
begin

text \<open>
  Correctness of \<open>xlate_payload_6to4\<close>: the same facts as for the other direction. The length of a
  payload is below 65536, the bound every parsed packet obeys.
\<close>

section \<open>Transport checksums\<close>

text \<open>The three ways a checksum field is filled without looking at the old checksum.\<close>

lemma calc_seal_4:
  fixes h :: ip4 and m :: mem and proto :: u8
  assumes "even off" "off + 2 \<le> unat (p_data_len p)"
  defines "ck \<equiv> full_csum4 (st16 m (p_data p + off) 0) p h proto"
  shows "valid4 (i4_src h) (i4_dest h) proto
      (pkt_payload (st16 (st16 m (p_data p + off) 0) (p_data p + off) ck) p)" (is ?A)
    and "valid4 (i4_src h) (i4_dest h) proto
      (pkt_payload (st16 (st16 m (p_data p + off) 0) (p_data p + off) (nonzero_ck ck)) p)" (is ?B)
proof -
  have l: "off + 2 \<le> length (pkt_payload m p)" using assms(2) by simp
  have ck: "ck = ones_add (ip_checksum (with_field (pkt_payload m p) off 0)) (ip4_checksum h (p_data_len p) proto)"
    by (simp add: ck_def full_csum4_def payload_put(1) [OF assms(2)])
  have "valid4 (i4_src h) (i4_dest h) proto (with_field (pkt_payload m p) off v)"
    if "v = ck \<or> v = nonzero_ck ck" for v
    by (rule full_field_4 [OF assms(1) l _ that ck]) simp
  then show ?A ?B using l by (simp_all add: payload_put(1) [OF assms(2)])
qed

lemma calc_zero_4:
  fixes h :: ip4 and m :: mem
  assumes "even off" "off + 2 \<le> unat (p_data_len p)" "ld16 m (p_data p + off) = 0"
  shows "valid4 (i4_src h) (i4_dest h) proto
    (pkt_payload (st16 m (p_data p + off) (nonzero_ck (full_csum4 m p h proto))) p)"
proof -
  have "st16 m (p_data p + off) 0 = m"
  proof
    fix i
    have "le_bytes 2 (0 :: u16) = load m (p_data p + off) 2"
      using le_bytes_le_word [of "load m (p_data p + off) 2", where 'a = 16] assms(3) by (simp add: ld16_def)
    then show "st16 m (p_data p + off) 0 i = m i" by (auto simp: st16_def store_def)
  qed
  then show ?thesis using calc_seal_4(2) [OF assms(1,2), where m = m] by simp
qed

lemma seed_4:
  fixes h :: ip4 and m :: mem
  assumes "even off" "off + 2 \<le> unat (p_data_len p)" "unat (p_data_len p) < 65536"
  shows "valid4 (i4_src h) (i4_dest h) proto (device_csum (pkt_payload (st16 m (p_data p + off)
    (htons (gso_calc_pseudo4 (i4_src h) (i4_dest h) proto (p_data_len p)))) p) off)"
  unfolding payload_put(1) [OF assms(2)]
  by (rule device_field_4 [OF assms(1)]) (use assms in simp_all)

text \<open>The outcomes of the case for UDP and of the case for TCP.\<close>

lemma udp_6to4_cases:
  assumes "udp_6to4 p ip4 False w = (v, q, w')" "p_data_proto p = 17" "v \<noteq> Done ERROR_DROP"
    and sz: "unat (p_data_len p) < 65536"
  shows "8 \<le> unat (p_data_len p) \<and>
    (if needs_csum p then v = Done ERROR_NONE \<and> valid4 (i4_src ip4) (i4_dest ip4) 17 (wire_seg (w_mem w') q)
     else if udp_no_csum (w_mem w) p then v = Done ERROR_NONE
       \<and> (g_udp_cksum_mode (w_g w) = UDP_CKSUM_FWD \<and> w' = w \<and> q = p
          \<or> g_udp_cksum_mode (w_g w) = UDP_CKSUM_CALC \<and> valid4 (i4_src ip4) (i4_dest ip4) 17 (wire_seg (w_mem w') q))
     else v = Adjust \<and> q = p \<and> w' = w)"
proof -
  have l: "\<not> p_data_len p < 8" using assms(1,3) by (auto simp: udp_6to4_def)
  then have l8: "6 + 2 \<le> unat (p_data_len p)" using len_le by fastforce
  note calc_seal_4(2) [OF _ l8, where m = "w_mem w" and h = ip4 and proto = 17, simplified]
    calc_zero_4 [OF _ l8, where m = "w_mem w" and h = ip4 and proto = 17, simplified] seed_4 [OF _ l8 sz, where m = "w_mem w" and h = ip4 and proto = 17, simplified]
  with assms l l8 show ?thesis
    by (auto simp: udp_6to4_def Let_def wire_seg_def udp_no_csum_def IPPROTO_UDP_def gso_calc_udp_pseudo4_def
        csum_off_simps split: if_splits udp_cksum_mode.splits)
qed

lemma tcp_6to4_cases:
  assumes "tcp_6to4 p ip4 False w = (v, q, w')" "p_data_proto p = 6" "v \<noteq> Done ERROR_DROP"
    and sz: "unat (p_data_len p) < 65536"
  shows "20 \<le> unat (p_data_len p) \<and>
    (if needs_csum p then v = Done ERROR_NONE \<and> valid4 (i4_src ip4) (i4_dest ip4) 6 (wire_seg (w_mem w') q)
     else v = Adjust \<and> q = p \<and> w' = w)"
proof -
  have l: "\<not> p_data_len p < 20" using assms(1,3) by (auto simp: tcp_6to4_def)
  then have l20: "20 \<le> unat (p_data_len p)" "16 + 2 \<le> unat (p_data_len p)" using len_le by fastforce+
  note calc_seal_4(1) [OF _ l20(2), where m = "w_mem w" and h = ip4 and proto = 6, simplified]
    seed_4 [OF _ l20(2) sz, where m = "w_mem w" and h = ip4 and proto = 6, simplified]
  with assms l l20 show ?thesis
    by (auto simp: tcp_6to4_def Let_def wire_seg_def IPPROTO_TCP_def gso_calc_tcp_pseudo4_def
        csum_off_simps split: if_splits)
qed

lemma adjust_6to4_valid:
  assumes "csum_off (p_data_proto p) + 2 \<le> unat (p_data_len p)"
    and "valid6 (i6_src (ld_ip6 (w_mem w) (p_ip6 p))) (i6_dest (ld_ip6 (w_mem w) (p_ip6 p))) (p_data_proto p)
      (pkt_payload (w_mem w) p @ rest)"
  shows "valid4 (i4_src ip4) (i4_dest ip4) (p_data_proto p) (pkt_payload (w_mem (adjust_6to4 p ip4 w)) p @ rest)"
proof -
  let ?off = "csum_off (p_data_proto p)"
  let ?c = "ld16 (w_mem w) (p_data p + ?off)"
  let ?k = "ones_add ?c (convert_cksum (ld_ip6 (w_mem w) (p_ip6 p)) ip4)"
  let ?v = "if p_data_proto p = IPPROTO_UDP \<or> p_data_proto p = IPPROTO_UDPLITE then nonzero_ck ?k else ?k"
  have v: "?v = ?k \<or> ?v = nonzero_ck ?k" "w_mem (adjust_6to4 p ip4 w) = st16 (w_mem w) (p_data p + ?off) ?v"
    by (simp_all add: adjust_6to4_def Let_def)
  show ?thesis
    unfolding v(2) payload_put(1) [OF assms(1)]
    by (rule adjust_field_6to4 [OF csum_off_even _ _ v(1)]) (use assms in \<open>simp_all add: payload_put(2)\<close>)
qed

text \<open>
  The whole routine: \<open>rest\<close> stands for the later fragments of the datagram, of which only the first
  has the checksum.
\<close>

lemma payload_6to4_valid:
  assumes x: "xlate_payload_6to4 p ip4 False w = (ERROR_NONE, q, w')"
    and h: "h = ld_ip6 (w_mem w) (p_ip6 p)"
    and first: "\<And>fr. frag_of (w_mem w) p = Some fr \<Longrightarrow> ntohs (fr_offset_flags fr) AND IP6_F_MASK = 0"
    and proto: "csum_proto (p_data_proto p)" and sz: "unat (p_data_len p) < 65536"
    and whole: "needs_csum p \<or> udp_no_csum (w_mem w) p \<Longrightarrow> rest = []"
    and calc: "\<not> needs_csum p \<Longrightarrow> udp_no_csum (w_mem w) p \<Longrightarrow> g_udp_cksum_mode (w_g w) \<noteq> UDP_CKSUM_FWD"
    and inp: "\<not> needs_csum p \<Longrightarrow> \<not> udp_no_csum (w_mem w) p \<Longrightarrow>
      valid6 (i6_src h) (i6_dest h) (p_data_proto p) (pkt_payload (w_mem w) p @ rest)"
  shows "valid4 (i4_src ip4) (i4_dest ip4) (p_data_proto p) (wire_seg (w_mem w') q @ rest)"
proof -
  let ?step = "if p_data_proto p = 17 then udp_6to4 p ip4 False w
    else if p_data_proto p = 6 then tcp_6to4 p ip4 False w
    else if p_data_proto p = IPPROTO_DCCP \<or> p_data_proto p = IPPROTO_UDPLITE then (lite_payload p False w, p, w)
    else (Done (if needs_csum p then ERROR_DROP else ERROR_NONE), p, w)"
  obtain v q1 w1 where st: "?step = (v, q1, w1)" by (cases ?step) auto
  have p1: "p_data_proto p \<noteq> 58" using proto by (auto simp: csum_proto_def proto_defs)
  have vr: "case v of Done e \<Rightarrow> e = ERROR_NONE \<and> q = q1 \<and> w' = w1 | Adjust \<Rightarrow> q = q1 \<and> w' = adjust_6to4 q1 ip4 w1"
    using x first p1 h st unfolding xlate_payload_6to4_def Let_def
    by (cases "frag_of (w_mem w) p") (auto split: if_splits verdict.splits)
  have nd: "v \<noteq> Done ERROR_DROP" using vr by auto
  have adj: ?thesis if "v = Adjust" "q1 = p" "w1 = w" "csum_off (p_data_proto p) + 2 \<le> unat (p_data_len p)"
    "\<not> needs_csum p" "\<not> udp_no_csum (w_mem w) p"
    using adjust_6to4_valid [OF that(4), of w rest ip4] vr that inp h by (simp add: wire_seg_def)
  consider "p_data_proto p = 17" | "p_data_proto p = 6" | "p_data_proto p = IPPROTO_DCCP \<or> p_data_proto p = IPPROTO_UDPLITE"
    using proto by (auto simp: csum_proto_def proto_defs)
  then show ?thesis
  proof cases
    case 1
    from udp_6to4_cases [of p ip4 w v q1 w1] sz st nd 1 show ?thesis
      using adj vr whole calc by (auto simp: csum_off_simps split: if_splits)
  next
    case 2
    then have "\<not> udp_no_csum (w_mem w) p" by (simp add: udp_no_csum_def IPPROTO_UDP_def)
    with tcp_6to4_cases [of p ip4 w v q1 w1] sz st nd 2 show ?thesis
      using adj vr whole by (auto simp: csum_off_simps split: if_splits)
  next
    case 3
    then have n: "\<not> udp_no_csum (w_mem w) p" "csum_off (p_data_proto p) = 6" "p_data_proto p \<noteq> 17" "p_data_proto p \<noteq> 6"
      unfolding udp_no_csum_def csum_off_def proto_defs by (elim disjE; simp)+
    from st n(3,4) 3 have l: "lite_payload p False w = v" "q1 = p" "w1 = w" by auto
    from lite_payload_cases [OF l(1) nd] show ?thesis using adj l n by simp
  qed
qed

section \<open>ICMP echo\<close>

lemma icmp_6to4_mem:
  assumes "p_icmp p = Some (p_data p)"
  shows "w_mem (icmp_6to4 p w) = st16 (store (w_mem w) (p_data p) [echo_6to4 (w_mem w (p_data p))]) (p_data p + 2)
    (ones_add (ones_add (ld16 (w_mem w) (p_data p + 2))
        (NOT (ip6_checksum (ld_ip6 (w_mem w) (p_ip6 p))
          (ucast (ntohs (i6_payload_length (ld_ip6 (w_mem w) (p_ip6 p)))) - p_header_len p) 58)))
      (if w_mem w (p_data p) = 128 then 120 else 129))"
  using assms by (simp add: icmp_6to4_def Let_def icmp_of_def icmp_ptr_def ld_icmp_def put16_def echo_6to4_def)

lemma icmp_6to4_valid:
  assumes icmp: "p_icmp p = Some (p_data p)" "8 \<le> unat (p_data_len p)"
    and h: "h = ld_ip6 (w_mem w) (p_ip6 p)"
    and len: "ucast (ntohs (i6_payload_length h)) - p_header_len p = p_data_len p"
    and type: "w_mem w (p_data p) = 128 \<or> w_mem w (p_data p) = 129"
    and ok: "valid6 (i6_src h) (i6_dest h) 58 (pkt_payload (w_mem w) p)"
  shows "ip_checksum (pkt_payload (w_mem (icmp_6to4 p w)) p) = 0"
proof -
  let ?m = "w_mem w"
  let ?bs = "pkt_payload ?m p"
  let ?t = "?m (p_data p)"
  let ?k = "if ?t = 128 then 120 else 129 :: u16"
  let ?c = "ld16 ?m (p_data p + 2)"
  let ?pc = "pseudo6 (i6_src h) (i6_dest h) (p_data_len p) 58"
  let ?v = "ones_add (ones_add ?c (NOT (ip6_checksum h (p_data_len p) 58))) ?k"
  have l4: "4 \<le> unat (p_data_len p)" using icmp(2) by simp
  note st = icmp_payload_step [OF l4]
  have "valid6 (i6_src h) (i6_dest h) 58 (with_field ?bs 2 ?c @ [])" using ok unfolding st(2) by simp
  then have c: "oceq (int (unat ?c)) (- int (seg_sum ?bs 2 [] + ?pc))"
    using l4 by (subst (asm) valid6_with_field) simp_all
  have k: "int (unat ?k) = int (unat ?t) - int (unat (echo_6to4 ?t))"
    using type by (auto simp: echo_6to4_def)
  have n: "oceq (int (unat (NOT (ip6_checksum h (p_data_len p) 58)))) (int ?pc)"
    using oceq_trans [OF oceq_not_u16 oceq_minus [OF oceq_ip6_checksum]] by simp
  have "oceq (int (unat ?v)) (- int (seg_sum ?bs 2 [] + ?pc) + int ?pc + int (unat ?k))"
    by (rule oceq_trans [OF oceq_ones_add oceq_add [OF oceq_trans [OF oceq_ones_add oceq_add [OF c n]] oceq_refl]])
  also have "- int (seg_sum ?bs 2 [] + ?pc) + int ?pc + int (unat ?k) = - int (seg_sum (echo_6to4 ?t # tl ?bs) 2 [])"
    using seg_sum_type [of ?bs ?t "echo_6to4 ?t" "[]"] st(3) l4 unfolding k by simp
  finally have v: "oceq (int (unat ?v)) (- int (seg_sum (echo_6to4 ?t # tl ?bs) 2 []))" .
  have mem: "w_mem (icmp_6to4 p w) = st16 (store ?m (p_data p) [echo_6to4 ?t]) (p_data p + 2) ?v"
    unfolding icmp_6to4_mem [OF icmp(1)] h [symmetric] len ..
  have "oceq (int (sum16 (with_field (echo_6to4 ?t # tl ?bs) 2 ?v))) 0"
    using v l4 by (subst sum16_with_field) (simp_all add: oceq_def algebra_simps)
  then show ?thesis unfolding mem st(1) ip_checksum_0_iff oceq_0 .
qed

section \<open>What is written\<close>

lemma udp_6to4_only:
  assumes "udp_6to4 p ip4 em w = (v, q, w')"
  shows "payload_only p w q w' \<and> (v = Adjust \<longrightarrow> q = p \<and> w' = w \<and> 8 \<le> unat (p_data_len p))"
proof (cases "p_data_len p < 8")
  case True
  then show ?thesis using assms by (auto simp: udp_6to4_def payload_only_refl)
next
  case False
  then have "6 + 2 \<le> unat (p_data_len p)" using len_le by fastforce
  note payload_only_put [OF this] payload_only_put_clear [OF this]
  with assms False \<open>6 + 2 \<le> unat (p_data_len p)\<close> show ?thesis
    by (auto simp: udp_6to4_def Let_def payload_only_refl split: if_splits udp_cksum_mode.splits)
qed

lemma tcp_6to4_only:
  assumes "tcp_6to4 p ip4 em w = (v, q, w')"
  shows "payload_only p w q w' \<and> (v = Adjust \<longrightarrow> q = p \<and> w' = w \<and> 20 \<le> unat (p_data_len p))"
proof (cases "p_data_len p < 20")
  case True
  then show ?thesis using assms by (auto simp: tcp_6to4_def payload_only_refl)
next
  case False
  then have l: "16 + 2 \<le> unat (p_data_len p)" "20 \<le> unat (p_data_len p)" using len_le by fastforce+
  note payload_only_put [OF l(1)] payload_only_put_clear [OF l(1)]
  with assms False l show ?thesis
    by (auto simp: tcp_6to4_def Let_def payload_only_refl split: if_splits)
qed

lemma payload_6to4_only:
  assumes "xlate_payload_6to4 p ip4 em w = (e, q, w')"
    and icmp: "p_data_proto p = 58 \<Longrightarrow> p_icmp p = Some (p_data p) \<and> 8 \<le> unat (p_data_len p)"
  shows "payload_only p w q w'"
proof -
  let ?step = "if p_data_proto p = 17 then udp_6to4 p ip4 em w
    else if p_data_proto p = 6 then tcp_6to4 p ip4 em w
    else if p_data_proto p = IPPROTO_DCCP \<or> p_data_proto p = IPPROTO_UDPLITE then (lite_payload p em w, p, w)
    else (Done (if needs_csum p then ERROR_DROP else ERROR_NONE), p, w)"
  obtain v q1 w1 where st: "?step = (v, q1, w1)" by (cases ?step) auto
  have o: "payload_only p w q1 w1"
    and a: "v = Adjust \<Longrightarrow> q1 = p \<and> w1 = w \<and> csum_off (p_data_proto p) + 2 \<le> unat (p_data_len p)"
    using st udp_6to4_only [of p ip4 em w v q1 w1] tcp_6to4_only [of p ip4 em w v q1 w1]
      lite_payload_len [of p em w] csum_off_fits [of "p_data_proto p" "unat (p_data_len p)"]
    by (auto simp: payload_only_refl split: if_splits)
  have adj: "payload_only p w p (adjust_6to4 p ip4 w)" if "csum_off (p_data_proto p) + 2 \<le> unat (p_data_len p)"
    using payload_only_put [OF that] by (simp add: adjust_6to4_def Let_def)
  have ic: "p_data_proto p = 58 \<Longrightarrow> payload_only p w p (icmp_6to4 p w)"
    using icmp payload_only_type [of p w] by (auto simp: icmp_6to4_def icmp_ptr_def Let_def)
  from assms(1) show ?thesis
    unfolding xlate_payload_6to4_def Let_def st
    using o a adj ic payload_only_refl by (auto split: if_splits verdict.splits)
qed

end
