(* ===== verification/World_Laws.thy ===== *)
theory World_Laws
  imports Handle Addrmap_Inv Payload_Laws Payload_Laws6
begin

text \<open>
  What processing a packet may do to the world: \<open>progress lo hi w w'\<close> says that the configuration
  is kept, the mapping state stays consistent, frames are only appended to the output, and memory
  is written between \<open>lo\<close> and \<open>hi\<close> only. The lemmas show it for the primitive operations.
\<close>

section \<open>Configuration\<close>

definition conf :: "gstate \<Rightarrow> u16 \<times> in_addr \<times> in6_addr \<times> u32 \<times> udp_cksum_mode \<times> bool \<times> nat \<times> int" where
  "conf g = (g_mtu g, g_local_addr4 g, g_local_addr6 g, g_ipv6_offlink_mtu g, g_udp_cksum_mode g,
     g_wkpf_strict g, g_cache_size g, g_now g)"

lemma conf_updates [simp]:
  "conf (g\<lparr>g_entry := a\<rparr>) = conf g" "conf (g\<lparr>g_cache_pool := b\<rparr>) = conf g" "conf (g\<lparr>g_cache_active := b\<rparr>) = conf g"
  "conf (g\<lparr>g_hash_table4 := h\<rparr>) = conf g" "conf (g\<lparr>g_hash_table6 := h\<rparr>) = conf g" "conf (g\<lparr>g_dyn := d\<rparr>) = conf g"
  "conf (g\<lparr>g_map4_list := m4\<rparr>) = conf g" "conf (g\<lparr>g_map6_list := m6\<rparr>) = conf g" "conf (g\<lparr>g_alloc := l\<rparr>) = conf g"
  "conf (g\<lparr>g_dynamic_pool := p\<rparr>) = conf g" "conf (g\<lparr>g_map_write_pending := w\<rparr>) = conf g"
  by (simp_all add: conf_def)

lemma conf_touch [simp]: "conf (touch c g) = conf g"
  and conf_set_d [simp]: "conf (set_d i d g) = conf g"
  and conf_upd_pool [simp]: "conf (upd_pool f g) = conf g"
  by (simp_all add: touch_def set_d_def upd_pool_def split: option.split)

lemma conf_cache_insert: "cache_insert a b h4 h6 g = (c, g') \<Longrightarrow> conf g' = conf g"
  by (auto simp: cache_insert_def add_to_hash_table_def Let_def split: option.splits list.splits)

lemma conf_publish [simp]: "conf (publish a b dyn g) = conf g"
proof -
  obtain c g1 where "cache_insert a b (hash_ip4 g a) (hash_ip6 g b) g = (c, g1)" by fastforce
  with conf_cache_insert [OF this] show ?thesis
    by (simp add: publish_def Let_def split: option.splits)
qed

lemma conf_map4: "conf (snd (map_ip4_to_ip6 a g)) = conf g"
  by (auto simp: map_ip4_to_ip6_def map4_slow_def cache_lookup4_def Let_def
      split: option.splits map_type.splits sum.splits)

lemma conf_map6_entry: "conf (snd (map6_entry a m g)) = conf g"
  by (auto simp: map6_entry_def Let_def split: option.splits map_type.splits sum.splits)

lemma conf_move [simp]: "conf (move_to_mapped i g) = conf g"
  by (simp add: move_to_mapped_def Let_def split: option.split sum.split)

lemma conf_alloc: "alloc_map_dynamic a6 a4 f g = (r, g') \<Longrightarrow> conf g' = conf g"
  by (auto simp: alloc_map_dynamic_def Let_def set_count_def split: list.splits option.splits free_ref.splits)

lemma conf_assign: "assign_dynamic a6 g = (r, g') \<Longrightarrow> conf g' = conf g"
  by (auto simp: assign_dynamic_def Let_def set_map6_addr_def conf_alloc
      split: option.splits prod.splits if_splits)

lemma conf_map6: "conf (snd (map_ip6_to_ip4 a b g)) = conf g"
  by (auto simp: map_ip6_to_ip4_def map6_slow_def cache_lookup6_def conf_map6_entry dest: conf_assign
      split: option.splits prod.splits)

section \<open>Progress\<close>

definition progress :: "nat \<Rightarrow> nat \<Rightarrow> world \<Rightarrow> world \<Rightarrow> bool" where
  "progress lo hi w w' \<longleftrightarrow> conf (w_g w') = conf (w_g w)
     \<and> (translation_inv (w_g w) \<longrightarrow> translation_inv (w_g w'))
     \<and> w_vnet w' = w_vnet w \<and> w_offload w' = w_offload w \<and> w_has_uso w' = w_has_uso w
     \<and> (\<exists>fs. w_tx w' = w_tx w @ fs)
     \<and> (\<forall>i. i < lo \<or> hi \<le> i \<longrightarrow> w_mem w' i = w_mem w i)"

lemma progress_refl [intro, simp]: "progress lo hi w w"
  by (simp add: progress_def)

lemma progress_trans: "progress lo hi w w1 \<Longrightarrow> progress lo hi w1 w2 \<Longrightarrow> progress lo hi w w2"
  unfolding progress_def by auto

lemma progress_weaken: "progress lo hi w w' \<Longrightarrow> lo' \<le> lo \<Longrightarrow> hi \<le> hi' \<Longrightarrow> progress lo' hi' w w'"
  by (simp add: progress_def)

lemma progress_vnet: "progress lo hi w w' \<Longrightarrow> w_vnet w' = w_vnet w"
  by (simp add: progress_def)

lemma progress_g:
  "conf g' = conf (w_g w) \<Longrightarrow> (translation_inv (w_g w) \<Longrightarrow> translation_inv g') \<Longrightarrow> progress lo hi w (w\<lparr>w_g := g'\<rparr>)"
  by (simp add: progress_def)

lemma progress_map4: "with_g (map_ip4_to_ip6 a) w = (r, w') \<Longrightarrow> progress lo hi w w' \<and> w_mem w' = w_mem w"
  using conf_map4 [of a "w_g w"] map_ip4_to_ip6_inv [of "w_g w" a]
  by (auto simp: with_g_def split: prod.splits intro!: progress_g)

lemma progress_map6: "with_g (map_ip6_to_ip4 a b) w = (r, w') \<Longrightarrow> progress lo hi w w' \<and> w_mem w' = w_mem w"
  using conf_map6 [of a b "w_g w"] map_ip6_to_ip4_inv [of "w_g w" a b]
  by (auto simp: with_g_def split: prod.splits intro!: progress_g)

text \<open>A step as a fact to reason on with: what follows it also follows the whole.\<close>

definition then_progress :: "nat \<Rightarrow> nat \<Rightarrow> world \<Rightarrow> world \<Rightarrow> bool" where
  "then_progress lo hi w w1 \<longleftrightarrow> progress lo hi w w1 \<and> (\<forall>w2. progress lo hi w1 w2 \<longrightarrow> progress lo hi w w2)"

lemma then_progressI: "progress lo hi w w1 \<Longrightarrow> then_progress lo hi w w1"
  by (simp add: then_progress_def) (blast intro: progress_trans)

lemma then_map4: "with_g (map_ip4_to_ip6 a) w = (r, w') \<Longrightarrow> then_progress lo hi w w'"
  and then_map6: "with_g (map_ip6_to_ip4 b d) w = (r', w') \<Longrightarrow> then_progress lo hi w w'"
  using progress_map4 progress_map6 then_progressI by blast+

text \<open>Writing to memory, and writing a frame.\<close>

lemma progress_mem:
  "(\<And>i. i < lo \<or> hi \<le> i \<Longrightarrow> m i = w_mem w i) \<Longrightarrow> progress lo hi w (w\<lparr>w_mem := m\<rparr>)"
  by (simp add: progress_def)

lemma progress_store: "lo \<le> a \<Longrightarrow> a + length bs \<le> hi \<Longrightarrow> progress lo hi w (w\<lparr>w_mem := store (w_mem w) a bs\<rparr>)"
  by (rule progress_mem) (auto simp: store_def)

lemma progress_put16: "lo \<le> a \<Longrightarrow> a + 2 \<le> hi \<Longrightarrow> progress lo hi w (put16 a v w)"
  unfolding put16_def st16_def by (rule progress_store) simp_all

lemma progress_ident: "progress lo hi w (w\<lparr>w_ident := n\<rparr>)"
  by (simp add: progress_def)

lemma progress_sent: "sent w fs w' \<Longrightarrow> w_mem w' = w_mem w \<Longrightarrow> progress lo hi w w'"
  by (auto simp: progress_def sent_def)

lemma tun_writev_sent: "tun_writev iov w = (r, w') \<Longrightarrow> (\<exists>fs. sent w fs w') \<and> w_mem w' = w_mem w"
  using tun_send_spec [of iov w r w'] tun_send_spec [of "take (w_vnet w) (vnet_bytes vnet_zero) # iov" w r w']
  by (auto simp: tun_writev_def may_send_def fail_with_def sent_def split: if_splits)

lemma progress_writev: "progress lo hi w (snd (tun_writev iov w))"
proof -
  obtain r w' where r: "tun_writev iov w = (r, w')" by fastforce
  with tun_writev_sent [OF r] show ?thesis using progress_sent by auto
qed

lemma progress_inplace:
  assumes "vnet_ok w" "lo + w_vnet w \<le> buf" "buf \<le> hi"
  shows "progress lo hi w (snd (tun_write_vnet_inplace v buf len w))"
proof (cases "len = 0")
  case True
  then show ?thesis by (simp add: tun_write_vnet_inplace_def fail_with_def progress_def)
next
  case False
  obtain r w' where r: "tun_write_vnet_inplace v buf len w = (r, w')" by fastforce
  have "w_vnet w \<le> buf" "0 < len" using assms(2) False by simp_all
  note sp = tun_write_vnet_inplace_spec [OF assms(1) this(2,1) r]
  let ?w = "w\<lparr>w_mem := store (w_mem w) (buf - w_vnet w) (inplace_hdr v w)\<rparr>"
  have "progress lo hi w ?w"
    using assms length_inplace_hdr [OF assms(1), of v] by (intro progress_store) simp_all
  moreover have "progress lo hi ?w w'"
    using sp by (auto simp: may_send_def sent_def progress_def)
  ultimately show ?thesis using progress_trans r by auto
qed

lemma progress_vnet_ok: "progress lo hi w w' \<Longrightarrow> vnet_ok w \<Longrightarrow> vnet_ok w'"
  by (simp add: progress_def vnet_ok_def)

section \<open>Own messages\<close>

lemma progress_send_icmp4: "progress lo hi w (host_send_icmp4 tos s d ic data n w)"
  and progress_send_icmp6: "progress lo hi w (host_send_icmp6 tc s6 d6 ic data n w)"
  by (simp_all add: host_send_icmp4_def host_send_icmp6_def Let_def progress_writev)

lemma progress_icmp4_error: "progress lo hi w (host_send_icmp4_error t c x p w)"
  and progress_icmp6_error: "progress lo hi w (host_send_icmp6_error t c x p w)"
  by (simp_all add: host_send_icmp4_error_def host_send_icmp6_error_def Let_def progress_send_icmp4 progress_send_icmp6)

lemma progress_handle_icmp4:
  "p_icmp p = Some a \<Longrightarrow> lo \<le> a \<Longrightarrow> a < hi \<Longrightarrow> progress lo hi w (host_handle_icmp4 p w)"
  by (auto simp: host_handle_icmp4_def Let_def icmp_ptr_def
      intro!: progress_trans [OF progress_store progress_send_icmp4])

lemma progress_handle_icmp6:
  "p_icmp p = Some a \<Longrightarrow> lo \<le> a \<Longrightarrow> a < hi \<Longrightarrow> progress lo hi w (host_handle_icmp6 p w)"
  by (auto simp: host_handle_icmp6_def Let_def icmp_ptr_def
      intro!: progress_trans [OF progress_store progress_send_icmp6])

section \<open>Payloads\<close>

lemma progress_payload_only:
  "payload_only p w q w' \<Longrightarrow> lo \<le> p_data p \<Longrightarrow> p_data p + unat (p_data_len p) \<le> hi \<Longrightarrow> progress lo hi w w'"
  unfolding payload_only_def progress_def
  by (metis (no_types, lifting) append_Nil2 le_trans less_le_trans world.select_convs world.surjective
      world.update_convs(6))

lemma payload_only_pkt:
  "payload_only p w q w' \<Longrightarrow> p_data q = p_data p \<and> p_data_len q = p_data_len p \<and> p_data_proto q = p_data_proto p
    \<and> p_ip4 q = p_ip4 p \<and> p_ip6 q = p_ip6 p \<and> p_header_len q = p_header_len p"
  by (auto simp: payload_only_def)

end
