(* ===== verification/Frag_Laws.thy ===== *)
theory Frag_Laws
  imports World_Laws
begin

text \<open>
  The fragmentation loop of \<open>xlate_4to6_data\<close>: it ends, and what it sends is the list
  \<open>frag_list\<close>, whose fragments put the payload back together in any order.
\<close>

section \<open>The loop ends\<close>

lemma frag_loop_step:
  fixes p :: pkt and w :: world and h :: ip6 and fr :: ip6_frag and frag_size :: u32 and off :: u16
  assumes "p_data_len p \<noteq> 0"
  defines "fs \<equiv> if p_data_len p < frag_size then p_data_len p else frag_size"
  defines "q \<equiv> p\<lparr>p_data := p_data p + unat fs, p_data_len := p_data_len p - fs\<rparr>"
  defines "mfl \<equiv> p_data_len p - fs \<noteq> 0 \<or> i4_flags_offset (ld_ip4 (w_mem w) (p_ip4 p)) AND htons IP4_F_MF \<noteq> 0"
  defines "h' \<equiv> h\<lparr>i6_payload_length := htons (ucast (8 + fs))\<rparr>"
  defines "fr' \<equiv> fr\<lparr>fr_offset_flags := htons off OR (if mfl then htons IP6_F_MF else 0)\<rparr>"
  shows "frag_loop h fr frag_size off p w =
    (case tun_writev [ip6_bytes h' @ ip6_frag_bytes fr', load (w_mem w) (p_data p) (unat fs)] w of
       (ret, w) \<Rightarrow> if ret < 0 then Some w else frag_loop h' fr' fs (off + ucast fs) q w)"
  unfolding h'_def fr'_def mfl_def q_def
  by (subst frag_loop.simps) (use assms(1) in \<open>simp add: Let_def flip: fs_def cong: prod.case_cong if_cong\<close>)

text \<open>The size of the next fragment.\<close>

lemma frag_size_step:
  fixes len n :: u32
  assumes "len \<noteq> 0" "n \<noteq> 0"
  defines "fs \<equiv> if len < n then len else n"
  shows "fs \<noteq> 0" "unat fs = min (unat n) (unat len)" "0 < unat fs" "unat (len - fs) = unat len - unat fs"
    "unat (len - fs) < unat len"
proof -
  have le: "fs \<le> len" by (auto simp: fs_def)
  show "fs \<noteq> 0" using assms by (auto simp: fs_def)
  then show "0 < unat fs" by (simp add: unat_gt_0)
  show "unat fs = min (unat n) (unat len)" by (auto simp: fs_def word_less_nat_alt)
  show "unat (len - fs) = unat len - unat fs" by (rule unat_sub [OF le])
  with \<open>0 < unat fs\<close> le show "unat (len - fs) < unat len" by (simp add: word_le_nat_alt)
qed

lemma frag_loop_ends:
  assumes "frag_size \<noteq> 0"
  shows "\<exists>w'. frag_loop h fr frag_size off p w = Some w' \<and> progress lo hi w w'"
  using assms
proof (induction "unat (p_data_len p)" arbitrary: h fr frag_size off p w rule: less_induct)
  case less
  show ?case
  proof (cases "p_data_len p = 0")
    case True
    then show ?thesis by (simp add: frag_loop.simps [of h])
  next
    case False
    define fs where "fs = (if p_data_len p < frag_size then p_data_len p else frag_size)"
    note fs = frag_size_step [OF False less.prems, folded fs_def]
    let ?q = "p\<lparr>p_data := p_data p + unat fs, p_data_len := p_data_len p - fs\<rparr>"
    obtain iov h' fr' off' where e: "frag_loop h fr frag_size off p w =
        (case tun_writev iov w of (ret, w) \<Rightarrow> if ret < 0 then Some w else frag_loop h' fr' fs off' ?q w)"
      by (rule that [OF frag_loop_step [OF False, of h fr frag_size off w, folded fs_def]])
    obtain r w1 where r: "tun_writev iov w = (r, w1)" by fastforce
    have p1: "progress lo hi w w1" using progress_writev [of lo hi w iov] r by simp
    obtain w2 where "frag_loop h' fr' fs off' ?q w1 = Some w2" "progress lo hi w1 w2"
      using less.hyps [of ?q fs h' fr' off' w1] fs(1,5) by auto
    then show ?thesis using e r p1 progress_trans [OF p1] by auto
  qed
qed

section \<open>What it sends\<close>

text \<open>The fragments of the bytes \<open>data\<close>, at most \<open>n\<close> bytes each, the first one at offset \<open>off\<close>.\<close>

definition frag_bytes :: "ip6 \<Rightarrow> ip6_frag \<Rightarrow> nat \<Rightarrow> bool \<Rightarrow> u8 list \<Rightarrow> u8 list" where
  "frag_bytes h fr off mfl d =
     ip6_bytes (h\<lparr>i6_payload_length := htons (word_of_nat (8 + length d))\<rparr>)
     @ ip6_frag_bytes (fr\<lparr>fr_offset_flags := htons (word_of_nat off) OR (if mfl then htons IP6_F_MF else 0)\<rparr>) @ d"

function frag_list :: "ip6 \<Rightarrow> ip6_frag \<Rightarrow> nat \<Rightarrow> nat \<Rightarrow> bool \<Rightarrow> u8 list \<Rightarrow> u8 list list" where
  "frag_list h fr n off mf data =
     (if data = [] \<or> n = 0 then []
      else frag_bytes h fr off (n < length data \<or> mf) (take n data)
           # frag_list h fr n (off + min n (length data)) mf (drop n data))"
  by pat_completeness auto
termination by (relation "measure (\<lambda>(h, fr, n, off, mf, data). length data)") auto

declare frag_list.simps [simp del]

lemma frag_list_Nil [simp]: "frag_list h fr n off mf [] = []"
  by (simp add: frag_list.simps [of h])

lemma frag_list_cong_header:
  "frag_list (h\<lparr>i6_payload_length := x\<rparr>) (fr\<lparr>fr_offset_flags := y\<rparr>) n off mf data = frag_list h fr n off mf data"
proof (induction "length data" arbitrary: data off rule: less_induct)
  case less
  then show ?case
    by (subst (1 2) frag_list.simps) (simp add: frag_bytes_def)
qed

lemma frag_loop_sends:
  assumes "frag_size \<noteq> 0" "vnet_ok w" "w_io w = []" "unat frag_size \<le> 65535" "unat off + unat (p_data_len p) \<le> 65535"
  shows "frag_loop h fr frag_size off p w = Some (w\<lparr>w_tx := w_tx w @ map (plain_frame w)
    (frag_list h fr (unat frag_size) (unat off)
      (i4_flags_offset (ld_ip4 (w_mem w) (p_ip4 p)) AND htons IP4_F_MF \<noteq> 0) (pkt_payload (w_mem w) p))\<rparr>)"
  using assms
proof (induction "unat (p_data_len p)" arbitrary: h fr frag_size off p w rule: less_induct)
  case less
  let ?mf = "i4_flags_offset (ld_ip4 (w_mem w) (p_ip4 p)) AND htons IP4_F_MF \<noteq> 0"
  show ?case
  proof (cases "p_data_len p = 0")
    case True
    then show ?thesis by (simp add: frag_loop.simps [of h] frag_list.simps [of h] pkt_payload_def)
  next
    case False
    define fs where "fs = (if p_data_len p < frag_size then p_data_len p else frag_size)"
    note fs = frag_size_step [OF False less.prems(1), folded fs_def]
    note ufs = fs(2) and sub = fs(4) and dec = fs(5)
    define off' where "off' = off + ucast fs"
    have uoff: "unat off' = unat off + unat fs"
    proof -
      have "unat (ucast fs :: u16) = unat fs" using less.prems(4) ufs by (simp add: unsigned_ucast_eq take_bit_eq_mod)
      moreover have "unat off + unat fs < 65536" using less.prems(5) ufs by simp
      ultimately show ?thesis unfolding off'_def by (simp add: unat_word_ariths)
    qed
    let ?h = "h\<lparr>i6_payload_length := htons (ucast (8 + fs))\<rparr>"
    let ?more = "p_data_len p - fs \<noteq> 0 \<or> ?mf"
    let ?fr = "fr\<lparr>fr_offset_flags := htons off OR (if ?more then htons IP6_F_MF else 0)\<rparr>"
    let ?q = "p\<lparr>p_data := p_data p + unat fs, p_data_len := p_data_len p - fs\<rparr>"
    let ?data = "load (w_mem w) (p_data p) (unat fs)"
    let ?iov = "[ip6_bytes ?h @ ip6_frag_bytes ?fr, ?data]"
    let ?frame = "plain_frame w (concat ?iov)"
    have e: "frag_loop h fr frag_size off p w =
        (case tun_writev ?iov w of (ret, w) \<Rightarrow> if ret < 0 then Some w else frag_loop ?h ?fr fs off' ?q w)"
      using frag_loop_step [OF False, of h fr frag_size off w] unfolding fs_def [symmetric] off'_def .
    have wr: "tun_writev ?iov w = (int (length ?frame), w\<lparr>w_tx := w_tx w @ [?frame]\<rparr>)"
      by (rule tun_writev_accepted) (use less.prems ufs in \<open>simp_all add: RECV_BUF_SIZE_def HEADROOM_def\<close>)
    let ?w = "w\<lparr>w_tx := w_tx w @ [?frame]\<rparr>"
    have ih: "frag_loop ?h ?fr fs off' ?q ?w = Some (?w\<lparr>w_tx := w_tx ?w @ map (plain_frame ?w)
        (frag_list ?h ?fr (unat fs) (unat off')
        (i4_flags_offset (ld_ip4 (w_mem ?w) (p_ip4 ?q)) AND htons IP4_F_MF \<noteq> 0) (pkt_payload (w_mem ?w) ?q))\<rparr>)"
      by (rule less.hyps) (use dec fs(1) less.prems ufs uoff sub in \<open>simp_all add: vnet_ok_def\<close>)
    let ?bs = "pkt_payload (w_mem w) p"
    have tk: "take (unat frag_size) ?bs = ?data"
      by (auto simp: pkt_payload_def ufs load_take min_def)
    have dr: "drop (unat frag_size) ?bs = pkt_payload (w_mem w) ?q"
      using ufs sub by (cases "unat frag_size \<le> unat (p_data_len p)") (simp_all add: pkt_payload_def load_drop)
    have mfl: "unat frag_size < unat (p_data_len p) \<longleftrightarrow> p_data_len p - fs \<noteq> 0"
      unfolding unat_eq_0 [symmetric] sub ufs by (auto simp: min_def)
    have len8: "(ucast (8 + fs) :: u16) = word_of_nat (8 + unat fs)"
    proof -
      have "unat (8 + fs) = 8 + unat fs" using less.prems(4) ufs by (simp add: unat_word_ariths)
      then show ?thesis by (metis of_nat_unat)
    qed
    have fb: "concat ?iov = frag_bytes h fr (unat off) (unat frag_size < unat (p_data_len p) \<or> ?mf) ?data"
      by (simp add: frag_bytes_def mfl len8)
    have ne: "?bs \<noteq> []" using False by (metis length_payload list.size(3) unat_eq_0)
    have rest: "frag_list ?h ?fr (unat fs) (unat off') ?mf (drop (unat frag_size) ?bs)
        = frag_list h fr (unat frag_size) (unat off + min (unat frag_size) (length ?bs)) ?mf (drop (unat frag_size) ?bs)"
    proof (cases "unat frag_size < unat (p_data_len p)")
      case True
      then show ?thesis using ufs uoff by (simp add: frag_list_cong_header min_def)
    next
      case False
      then have "drop (unat frag_size) ?bs = []" by simp
      then show ?thesis by (simp only: frag_list.simps [of _ _ _ _ _ "[]"] simp_thms if_True)
    qed
    have fl: "frag_list h fr (unat frag_size) (unat off) ?mf ?bs =
        concat ?iov # frag_list ?h ?fr (unat fs) (unat off') ?mf (drop (unat frag_size) ?bs)"
    proof -
      have c: "\<not> (?bs = [] \<or> unat frag_size = 0)" using ne less.prems(1) by (simp add: unat_eq_0)
      show ?thesis unfolding rest by (subst frag_list.simps) (simp only: c if_False fb tk length_payload)
    qed
    have pf: "plain_frame (w\<lparr>w_tx := x\<rparr>) = plain_frame w" for x by (simp add: plain_frame_def fun_eq_iff)
    have "\<not> int (length ?frame) < 0" by linarith
    then show ?thesis
      unfolding e wr prod.case fl dr by (simp only: if_False ih) (simp add: pf)
  qed
qed


section \<open>Reassembly\<close>

text \<open>
  A receiver reads the offset and the payload of a fragment from its bytes. \<open>reassemble\<close> finds
  every byte of the datagram in some fragment that covers it.
\<close>

definition frag_off :: "u8 list \<Rightarrow> nat" where
  "frag_off f = unat (ntohs (le_word (take 2 (drop 42 f))) AND IP6_F_MASK)"

definition frag_more :: "u8 list \<Rightarrow> bool" where
  "frag_more f \<longleftrightarrow> ntohs (le_word (take 2 (drop 42 f))) AND IP6_F_MF \<noteq> 0"

definition frag_payload :: "u8 list \<Rightarrow> u8 list" where
  "frag_payload f = drop 48 f"

definition frag_covers :: "nat \<Rightarrow> u8 list \<Rightarrow> bool" where
  "frag_covers i f \<longleftrightarrow> frag_off f \<le> i \<and> i < frag_off f + length (frag_payload f)"

definition reassemble :: "u8 list list \<Rightarrow> nat \<Rightarrow> nat \<Rightarrow> u8 option list" where
  "reassemble fs base n =
     map (\<lambda>i. map_option (\<lambda>f. frag_payload f ! (i - frag_off f)) (List.find (frag_covers i) fs)) [base..<base + n]"

lemma frag_flags:
  assumes "off \<le> 65535" "off mod 8 = 0"
  shows "unat (ntohs (htons (word_of_nat off) OR (if b then htons IP6_F_MF else 0)) AND IP6_F_MASK) = off"
    "(ntohs (htons (word_of_nat off) OR (if b then htons IP6_F_MF else 0)) AND IP6_F_MF \<noteq> 0) = b"
proof -
  have swap: "ntohs (htons x OR (if b then htons y else 0)) = x OR (if b then y else 0)" for x y :: u16
    by (rule bit_word_eqI) (auto simp: bit_bswap16 bit_or_iff ac_simps dest: bit_imp_le_length)
  obtain k where k: "off = 8 * k" using assms(2) by auto
  have e: "(word_of_nat off :: u16) = push_bit 3 (word_of_nat k)"
    by (simp add: k push_bit_eq_mult)
  have bits: "bit (word_of_nat off :: u16) n \<Longrightarrow> 3 \<le> n" for n
    unfolding e by (simp add: bit_push_bit_iff)
  have m: "bit IP6_F_MASK n \<longleftrightarrow> 3 \<le> n \<and> n < 16" for n
  proof -
    have k: "IP6_F_MASK = push_bit 3 (mask 13)" by (simp add: IP6_F_MASK_def mask_eq_exp_minus_1 push_bit_eq_mult)
    show ?thesis unfolding k bit_push_bit_iff bit_mask_iff by auto
  qed
  have f: "bit IP6_F_MF n \<longleftrightarrow> n = 0" for n
    by (simp add: IP6_F_MF_def bit_1_iff)
  have "(word_of_nat off OR (if b then IP6_F_MF else 0)) AND IP6_F_MASK = word_of_nat off"
    using bits by (intro bit_word_eqI) (auto simp: bit_and_iff bit_or_iff m f)
  then show "unat (ntohs (htons (word_of_nat off) OR (if b then htons IP6_F_MF else 0)) AND IP6_F_MASK) = off"
    using assms(1) unfolding swap by (simp add: unat_of_nat)
  have "(word_of_nat off OR (if b then IP6_F_MF else 0)) AND IP6_F_MF = (if b then IP6_F_MF else 0)"
    using bits by (intro bit_word_eqI) (auto simp: bit_and_iff bit_or_iff f intro: gr_zeroI dest!: bits)
  then show "(ntohs (htons (word_of_nat off) OR (if b then htons IP6_F_MF else 0)) AND IP6_F_MF \<noteq> 0) = b"
    unfolding swap by (simp add: IP6_F_MF_def)
qed


lemma frag_bytes_fields:
  assumes "off \<le> 65535" "off mod 8 = 0"
  shows "frag_off (frag_bytes h fr off b d) = off" "frag_more (frag_bytes h fr off b d) = b"
    "frag_payload (frag_bytes h fr off b d) = d" "length (frag_bytes h fr off b d) = 48 + length d"
proof -
  let ?v = "htons (word_of_nat off) OR (if b then htons IP6_F_MF else 0)"
  have "take 2 (drop 42 (frag_bytes h fr off b d)) = le_bytes 2 ?v"
    by (simp add: frag_bytes_def ip6_frag_bytes_def)
  then show "frag_off (frag_bytes h fr off b d) = off" "frag_more (frag_bytes h fr off b d) = b"
    using frag_flags [OF assms, of b] by (simp_all add: frag_off_def frag_more_def le_word_le_bytes)
  show "frag_payload (frag_bytes h fr off b d) = d" "length (frag_bytes h fr off b d) = 48 + length d"
    by (simp_all add: frag_payload_def frag_bytes_def)
qed

text \<open>Every fragment carries its part of the data, fits the limit and leaves no gap.\<close>

definition carries :: "nat \<Rightarrow> u8 list \<Rightarrow> nat \<Rightarrow> u8 list \<Rightarrow> bool" where
  "carries base data n f \<longleftrightarrow> base \<le> frag_off f \<and> frag_off f - base + length (frag_payload f) \<le> length data
     \<and> frag_payload f = take (length (frag_payload f)) (drop (frag_off f - base) data)
     \<and> length f = 48 + length (frag_payload f) \<and> length (frag_payload f) \<le> n"

lemma frag_list_carries:
  assumes "0 < n" "n mod 8 = 0" "base mod 8 = 0" "base + length data \<le> 65535"
  shows "f \<in> set (frag_list h fr n base mf data) \<Longrightarrow> carries base data n f"
    and "base \<le> i \<Longrightarrow> i < base + length data \<Longrightarrow> \<exists>f \<in> set (frag_list h fr n base mf data). frag_covers i f"
proof -
  have "(\<forall>f \<in> set (frag_list h fr n base mf data). carries base data n f)
    \<and> (\<forall>i. base \<le> i \<and> i < base + length data \<longrightarrow> (\<exists>f \<in> set (frag_list h fr n base mf data). frag_covers i f))"
    using assms
  proof (induction "length data" arbitrary: data base rule: less_induct)
    case less
    show ?case
    proof (cases "data = []")
      case True
      then show ?thesis by (simp add: frag_list.simps [of h])
    next
      case False
      let ?b = "n < length data \<or> mf"
      let ?f = "frag_bytes h fr base ?b (take n data)"
      let ?rest = "frag_list h fr n (base + min n (length data)) mf (drop n data)"
      have step: "frag_list h fr n base mf data = ?f # ?rest"
        using False less.prems(1) by (simp add: frag_list.simps [of h fr n base mf data])
      have ff: "frag_off ?f = base" "frag_payload ?f = take n data" "length ?f = 48 + length (take n data)"
        using frag_bytes_fields [of base h fr ?b "take n data"] less.prems by simp_all
      have head: "carries base data n ?f" unfolding carries_def ff by (simp add: min_def)
      have cov: "frag_covers i ?f" if "base \<le> i" "i < base + min n (length data)" for i
        using that unfolding frag_covers_def ff by (simp add: min.commute)
      show ?thesis
      proof (cases "n < length data")
        case False
        then have "?rest = []" by simp
        then show ?thesis unfolding step using head cov False by auto
      next
        case True
        have ih: "(\<forall>f \<in> set ?rest. carries (base + min n (length data)) (drop n data) n f)
          \<and> (\<forall>i. base + min n (length data) \<le> i \<and> i < base + min n (length data) + length (drop n data)
            \<longrightarrow> (\<exists>f \<in> set ?rest. frag_covers i f))"
          by (rule less.hyps) (use less.prems True in \<open>simp_all add: mod_add_eq [symmetric, of base n]\<close>)
        have "carries base data n f" if "carries (base + n) (drop n data) n f" for f
          using that True unfolding carries_def
          by (auto simp: drop_drop)
        then show ?thesis unfolding step using head cov ih True by (auto simp: min_def) (meson not_le_imp_less)
      qed
    qed
  qed
  then show "f \<in> set (frag_list h fr n base mf data) \<Longrightarrow> carries base data n f"
    and "base \<le> i \<Longrightarrow> i < base + length data \<Longrightarrow> \<exists>f \<in> set (frag_list h fr n base mf data). frag_covers i f"
    by blast+
qed

text \<open>
  The flag for more fragments is clear on the last one only, and every fragment has the same header
  but for its length and offset.
\<close>

lemma frag_list_fields:
  assumes "0 < n" "n mod 8 = 0" "base mod 8 = 0" "base + length data \<le> 65535"
  shows "f \<in> set (frag_list h fr n base mf data) \<Longrightarrow>
    (frag_more f \<longleftrightarrow> mf \<or> frag_off f + length (frag_payload f) < base + length data)
    \<and> (\<exists>off b. f = frag_bytes h fr off b (frag_payload f))"
  using assms
proof (induction "length data" arbitrary: data base rule: less_induct)
  case less
  have ne: "data \<noteq> []" using less.prems(1) by auto
  let ?b = "n < length data \<or> mf"
  let ?f = "frag_bytes h fr base ?b (take n data)"
  have step: "frag_list h fr n base mf data = ?f # frag_list h fr n (base + min n (length data)) mf (drop n data)"
    using ne less.prems(2) by (simp add: frag_list.simps [of h fr n base mf data])
  have ff: "frag_off ?f = base" "frag_more ?f = ?b" "frag_payload ?f = take n data"
    using frag_bytes_fields [of base h fr ?b "take n data"] less.prems by simp_all
  show ?case
  proof (cases "f = ?f")
    case True
    then have e: "frag_off f = base" "frag_more f = ?b" "frag_payload f = take n data" using ff by simp_all
    have "f = frag_bytes h fr base ?b (frag_payload f)" unfolding e(3) by (rule True)
    moreover have "frag_more f \<longleftrightarrow> mf \<or> frag_off f + length (frag_payload f) < base + length data"
      unfolding e by auto
    ultimately show ?thesis by blast
  next
    case False
    then have f: "f \<in> set (frag_list h fr n (base + min n (length data)) mf (drop n data))"
      using less.prems(1) unfolding step by simp
    then have "drop n data \<noteq> []" by auto
    then have lt: "n < length data" by simp
    have "(frag_more f \<longleftrightarrow> mf \<or> frag_off f + length (frag_payload f)
          < base + min n (length data) + length (drop n data))
        \<and> (\<exists>off b. f = frag_bytes h fr off b (frag_payload f))"
      by (rule less.hyps [OF _ f]) (use less.prems lt in \<open>simp_all add: mod_add_eq [symmetric, of base n]\<close>)
    then show ?thesis using lt by (simp add: min_def)
  qed
qed

text \<open>Reassembly in any order.\<close>

lemma reassemble_any:
  assumes "\<And>f. f \<in> set fs \<Longrightarrow> carries base data n f"
    and "\<And>i. base \<le> i \<Longrightarrow> i < base + length data \<Longrightarrow> \<exists>f \<in> set fs. frag_covers i f"
  shows "reassemble fs base (length data) = map Some data"
proof (rule nth_equalityI)
  fix k
  assume "k < length (reassemble fs base (length data))"
  then have k: "k < length data" by (simp add: reassemble_def)
  let ?i = "base + k"
  obtain f where f: "List.find (frag_covers ?i) fs = Some f" "f \<in> set fs" "frag_covers ?i f"
  proof -
    obtain g where "g \<in> set fs" "frag_covers ?i g" using assms(2) [of ?i] k by auto
    then have "List.find (frag_covers ?i) fs \<noteq> None" by (auto simp: find_None_iff)
    then obtain f where f: "List.find (frag_covers ?i) fs = Some f" by blast
    then have "f \<in> set fs \<and> frag_covers ?i f" unfolding find_Some_iff by (metis nth_mem)
    with f show ?thesis using that by blast
  qed
  from assms(1) [OF f(2)] have c: "frag_payload f = take (length (frag_payload f)) (drop (frag_off f - base) data)"
    "base \<le> frag_off f" "frag_off f - base + length (frag_payload f) \<le> length data" unfolding carries_def by blast+
  have j: "?i - frag_off f < length (frag_payload f)" "frag_off f \<le> ?i" using f(3) by (auto simp: frag_covers_def)
  have nth: "take n (drop o1 data) ! j = data ! (o1 + j)" if "j < n" "o1 + n \<le> length data" for n o1 j
    using that by simp
  have "frag_payload f ! (?i - frag_off f) = data ! (frag_off f - base + (?i - frag_off f))"
    by (subst c(1)) (rule nth [OF j(1) c(3)])
  also have "frag_off f - base + (?i - frag_off f) = k" using j c(2) by simp
  finally show "reassemble fs base (length data) ! k = map Some data ! k"
    using k f(1) by (simp add: reassemble_def)
qed (simp add: reassemble_def)

end
