(* ===== verification/Nat64_Laws.thy ===== *)
theory Nat64_Laws
  imports Frag_Laws
begin

text \<open>
  The translation routines of \<open>Nat64\<close> make progress: they end, keep the state consistent, only
  append frames and write only inside the given range of the receive buffer.
\<close>

section \<open>The size of fragments\<close>

lemma unat_and_not7: "unat (x AND NOT 7 :: u32) = unat x div 8 * 8"
proof -
  have m: "(7 :: u32) = mask 3" by (simp add: mask_eq_exp_minus_1)
  have "x AND NOT 7 = push_bit 3 (drop_bit 3 x)"
    unfolding m by (rule bit_word_eqI) (auto simp: bit_and_iff bit_not_iff bit_push_bit_iff bit_drop_bit_eq bit_mask_iff)
  moreover have "unat (push_bit 3 (drop_bit 3 x)) = unat x div 8 * 8"
  proof -
    have "unat (drop_bit 3 x) = unat x div 8"
      unfolding unat_drop_bit_eq by (simp add: drop_bit_eq_div)
    moreover have "unat x < 2 ^ LENGTH(32)" by (rule unsigned_less)
    then have "unat x div 8 * 8 < 4294967296" by simp
    ultimately show ?thesis by (simp add: push_bit_eq_mult unat_word_ariths)
  qed
  ultimately show ?thesis by simp
qed

definition big_mtu :: "gstate \<Rightarrow> bool" where
  "big_mtu g \<longleftrightarrow> 1280 \<le> g_mtu g \<and> 1280 \<le> g_ipv6_offlink_mtu g"

lemma big_mtu_conf: "conf g' = conf g \<Longrightarrow> big_mtu g' = big_mtu g"
  by (simp add: big_mtu_def conf_def)

lemma progress_big_mtu: "progress lo hi w w' \<Longrightarrow> big_mtu (w_g w') = big_mtu (w_g w)"
  by (rule big_mtu_conf) (simp add: progress_def)

definition frag_limit :: "gstate \<Rightarrow> u32" where
  "frag_limit g = (if g_ipv6_offlink_mtu g > ucast (g_mtu g) then ucast (g_mtu g) else g_ipv6_offlink_mtu g) - 40"

lemma frag_limit_bounds:
  assumes "big_mtu g"
  shows "1240 \<le> unat (frag_limit g)" "unat (frag_limit g) + 40 \<le> unat (g_mtu g)"
    "unat (frag_limit g) + 40 \<le> unat (g_ipv6_offlink_mtu g)"
proof -
  let ?x = "if g_ipv6_offlink_mtu g > ucast (g_mtu g) then ucast (g_mtu g) else g_ipv6_offlink_mtu g"
  have u: "unat (ucast (g_mtu g) :: u32) = unat (g_mtu g)" by simp
  have x: "unat ?x = min (unat (g_mtu g)) (unat (g_ipv6_offlink_mtu g))"
    by (auto simp: word_less_nat_alt)
  have "1280 \<le> unat (g_mtu g)" "1280 \<le> unat (g_ipv6_offlink_mtu g)"
    using assms by (auto simp: big_mtu_def word_le_nat_alt)
  then have "1280 \<le> unat ?x" using x by simp
  moreover have "unat (?x - 40) = unat ?x - 40"
  proof -
    have "40 \<le> ?x" using \<open>1280 \<le> unat ?x\<close> by (simp only: word_le_nat_alt) simp
    from unat_sub [OF this] show ?thesis by simp
  qed
  ultimately show "1240 \<le> unat (frag_limit g)" "unat (frag_limit g) + 40 \<le> unat (g_mtu g)"
    "unat (frag_limit g) + 40 \<le> unat (g_ipv6_offlink_mtu g)"
    using x unfolding frag_limit_def by linarith+
qed

lemma frag_unit:
  fixes n :: u32
  assumes "1240 \<le> unat n"
  defines "m \<equiv> (n - 8) AND NOT 7"
  shows "m \<noteq> 0" "unat m mod 8 = 0" "unat m + 8 \<le> unat n" "1224 \<le> unat m"
proof -
  have "8 \<le> n" using assms by (simp add: word_le_nat_alt)
  then have "unat (n - 8) = unat n - 8" using unat_sub [of 8 n] by simp
  then have m: "unat m = (unat n - 8) div 8 * 8" unfolding m_def by (simp only: unat_and_not7)
  then show "unat m mod 8 = 0" "unat m + 8 \<le> unat n" "1224 \<le> unat m"
    using assms by simp_all
  then show "m \<noteq> 0" by auto
qed

section \<open>IPv4 to IPv6\<close>

lemma progress_send_whole6:
  assumes "vnet_ok w" "lo + 52 \<le> p_data p" "p_data p \<le> hi"
  shows "progress lo hi w (send_whole6 h p w)"
proof -
  let ?w = "w\<lparr>w_mem := store (w_mem w) (p_data p - 40) (ip6_bytes h)\<rparr>"
  have "progress lo hi w ?w" using assms by (intro progress_store) simp_all
  moreover have "progress lo hi ?w (send_whole6 h p w)"
    unfolding send_whole6_def Let_def
    by (rule progress_inplace) (use assms vnet_le [OF assms(1)] in \<open>simp_all add: vnet_ok_def\<close>)
  ultimately show ?thesis by (rule progress_trans)
qed

text \<open>A packet record with the payload inside a range, and room for the checksum if there is one.\<close>

definition pkt_in :: "nat \<Rightarrow> nat \<Rightarrow> pkt \<Rightarrow> bool" where
  "pkt_in lo hi p \<longleftrightarrow> lo + 52 \<le> p_data p \<and> p_data p + unat (p_data_len p) \<le> hi"

lemma complete_csum6_progress:
  assumes "complete_csum6 h p w = (q, w')" "pkt_in lo hi p" "needs_csum p \<Longrightarrow> 18 \<le> unat (p_data_len p)"
  shows "progress lo hi w w' \<and> p_data q = p_data p \<and> p_data_len q = p_data_len p \<and> p_ip4 q = p_ip4 p"
proof (cases "needs_csum p")
  case True
  let ?o = "p_data p + (if p_data_proto p = IPPROTO_UDP then 6 else 16)"
  have r: "progress lo hi x (put16 ?o v x)" for x v
    using assms(2,3) True by (intro progress_put16) (auto simp: pkt_in_def)
  from assms(1) obtain u v where "q = clear_needs_csum p" "w' = put16 ?o v (put16 ?o u w)"
    using True by (auto simp: complete_csum6_def Let_def)
  then show ?thesis using progress_trans [OF r r] by simp
qed (use assms(1) in \<open>auto simp: complete_csum6_def\<close>)

lemma send_fragments6_ends:
  assumes "1240 \<le> unat n" "pkt_in lo hi p" "needs_csum p \<Longrightarrow> 18 \<le> unat (p_data_len p)"
  shows "\<exists>w'. send_fragments6 h n off p w = Some w' \<and> progress lo hi w w'"
proof -
  obtain q w1 where c: "complete_csum6 h p w = (q, w1)" by fastforce
  from complete_csum6_progress [OF c assms(2,3)] have p1: "progress lo hi w w1" by simp
  let ?fr = "\<lparr>fr_next_header = i6_next_header h, fr_reserved = 0, fr_offset_flags = 0,
      fr_ident = htonl (ucast (ntohs (i4_ident (ld_ip4 (w_mem w1) (p_ip4 q)))))\<rparr>"
  obtain w2 where "frag_loop (h\<lparr>i6_next_header := 44\<rparr>) ?fr ((n - 8) AND NOT 7) ((off AND IP4_F_MASK) * 8) q w1 = Some w2"
    "progress lo hi w1 w2"
    using frag_loop_ends [OF frag_unit(1) [OF assms(1)]] by blast
  then show ?thesis using progress_trans [OF p1] unfolding send_fragments6_def c by (auto simp: Let_def)
qed


definition icmp_in :: "u8 \<Rightarrow> pkt \<Rightarrow> bool" where
  "icmp_in proto p \<longleftrightarrow> (p_data_proto p = proto \<longrightarrow> p_icmp p = Some (p_data p) \<and> 8 \<le> unat (p_data_len p))"

lemma payload_4to6_progress:
  assumes "xlate_payload_4to6 p h em w = (e, q, w')" "pkt_in lo hi p" "icmp_in 1 p"
  shows "progress lo hi w w'" "pkt_in lo hi q" "p_data_len q = p_data_len p" "p_ip4 q = p_ip4 p"
proof -
  have o: "payload_only p w q w'" using payload_4to6_only [OF assms(1)] assms(3) by (simp add: icmp_in_def)
  show "progress lo hi w w'" using progress_payload_only [OF o, of lo hi] assms(2) by (simp add: pkt_in_def)
  show "pkt_in lo hi q" "p_data_len q = p_data_len p" "p_ip4 q = p_ip4 p"
    using payload_only_pkt [OF o] assms(2) by (simp_all add: pkt_in_def)
qed

lemma payload_4to6_frag_csum:
  assumes "xlate_payload_4to6 p h False w = (ERROR_NONE, q, w')" "needs_csum q" "icmp_in 1 p"
  shows "ntohs (i4_flags_offset (ld_ip4 (w_mem w) (p_ip4 p))) AND (IP4_F_MASK OR IP4_F_MF) = 0"
proof -
  have o: "payload_only p w q w'" using payload_4to6_only [OF assms(1)] assms(3) by (simp add: icmp_in_def)
  then have "needs_csum p" using assms(2) by (auto simp: payload_only_def)
  then show ?thesis using assms(1) by (auto simp: xlate_payload_4to6_def Let_def split: if_splits)
qed

lemma xlate_4to6_data_ends:
  assumes ok: "vnet_ok w" "big_mtu (w_g w)" and p: "pkt_in lo hi p" "icmp_in 1 p"
  shows "\<exists>w'. xlate_4to6_data p w = Some w' \<and> progress lo hi w w'"
proof -
  let ?h = "ld_ip4 (w_mem w) (p_ip4 p)"
  let ?n = "frag_limit (w_g w)"
  let ?off = "ntohs (i4_flags_offset ?h)"
  obtain r1 w1 where m1: "with_g (map_ip4_to_ip6 (i4_dest ?h)) w = (r1, w1)" by fastforce
  obtain r2 w2 where m2: "with_g (map_ip4_to_ip6 (i4_src ?h)) w1 = (r2, w2)" by fastforce
  have p1: "progress lo hi w w1" "w_mem w1 = w_mem w" using progress_map4 [OF m1] by blast+
  have p2: "progress lo hi w w2" "w_mem w2 = w_mem w"
    using progress_map4 [OF m2] progress_trans [OF p1(1)] p1(2) by auto
  note e1 = progress_trans [OF p1(1) progress_icmp4_error] and e2 = progress_trans [OF p2(1) progress_icmp4_error]
  let ?mtu = "ucast (g_mtu (w_g w)) :: u32"
  let ?big = "?off AND (IP4_F_MASK OR IP4_F_MF) = 0 \<and> ?off AND IP4_F_DF \<noteq> 0 \<and> 40 + unat (p_data_len p) > unat ?mtu"
  let ?whole = "?off AND (IP4_F_MASK OR IP4_F_MF) = 0 \<and> (?off AND IP4_F_DF \<noteq> 0 \<or> p_data_len p \<le> ?n)"
  have fin: "\<exists>w'. (case xlate_payload_4to6 p h False w2 of
        (e, p, w) \<Rightarrow> if e \<noteq> ERROR_NONE then Some w else if ?whole then Some (send_whole6 h p w)
          else send_fragments6 h ?n ?off p w) = Some w' \<and> progress lo hi w w'" for h
  proof -
    obtain e q w3 where x: "xlate_payload_4to6 p h False w2 = (e, q, w3)" by (metis prod_cases3)
    note pl = payload_4to6_progress [OF x p]
    have p3: "progress lo hi w w3" by (rule progress_trans [OF p2(1) pl(1)])
    have v3: "vnet_ok w3" by (rule progress_vnet_ok [OF p3 ok(1)])
    show ?thesis
    proof (cases "e = ERROR_NONE")
      case False
      then show ?thesis using x p3 by simp
    next
      case True
      have whole: "progress lo hi w (send_whole6 h q w3)"
        by (rule progress_trans [OF p3 progress_send_whole6 [OF v3]]) (use pl(2) in \<open>auto simp: pkt_in_def\<close>)
      have "needs_csum q \<Longrightarrow> 18 \<le> unat (p_data_len q)" if "\<not> ?whole"
      proof -
        assume "needs_csum q"
        with payload_4to6_frag_csum [of p h w2 q w3] x True p(2) p2(2)
        have "?off AND (IP4_F_MASK OR IP4_F_MF) = 0" by simp
        with that have "\<not> p_data_len p \<le> ?n" by simp
        then show ?thesis using frag_limit_bounds(1) [OF ok(2)] pl(3) by (simp add: word_le_nat_alt)
      qed
      then have "\<exists>w'. send_fragments6 h ?n ?off q w3 = Some w' \<and> progress lo hi w3 w'" if "\<not> ?whole"
        using send_fragments6_ends [OF frag_limit_bounds(1) [OF ok(2)] pl(2)] that by blast
      then show ?thesis using x True whole progress_trans [OF p3] by (cases ?whole) auto
    qed
  qed
  have e: "xlate_4to6_data p w =
    (case r1 of Inl e \<Rightarrow> Some (if e = ERROR_REJECT then host_send_icmp4_error 3 1 0 p w1 else w1)
     | Inr dest \<Rightarrow>
       (case r2 of Inl e \<Rightarrow> Some (if e = ERROR_REJECT then host_send_icmp4_error 3 10 0 p w2 else w2)
        | Inr src \<Rightarrow>
          if ?big then Some (host_send_icmp4_error 3 4 (?mtu - MTU_ADJ) p w2)
          else (let h = xlate_header_4to6 (w_mem w2) p (ip6_new src dest) (p_data_len p);
                    h = h\<lparr>i6_hop_limit := i6_hop_limit h - 1\<rparr>
            in case xlate_payload_4to6 p h False w2 of
              (e, p, w) \<Rightarrow> if e \<noteq> ERROR_NONE then Some w else if ?whole then Some (send_whole6 h p w)
                else send_fragments6 h ?n ?off p w)))"
    unfolding xlate_4to6_data_def Let_def m1 prod.case m2 frag_limit_def by (cases r1; cases r2) (simp_all add: m2)
  show ?thesis
    unfolding e Let_def using fin e1 e2 p1(1) p2(1) by (auto split: sum.split)
qed


section \<open>IPv6 to IPv4\<close>

lemma progress_header_6to4: "xlate_header_6to4 p h n w = (h', w') \<Longrightarrow> progress lo hi w w' \<and> w_mem w' = w_mem w"
  by (auto simp: xlate_header_6to4_def next_ip4_ident_def reserve_ip4_ident_def Let_def progress_ident
      split: option.splits if_splits)

lemma progress_send_whole4:
  assumes "vnet_ok w" "lo + 52 \<le> p_data p" "p_data p \<le> hi"
  shows "progress lo hi w (send_whole4 h p w)"
proof -
  let ?w = "w\<lparr>w_mem := store (w_mem w) (p_data p - 20) (ip4_bytes h)\<rparr>"
  have "progress lo hi w ?w" using assms by (intro progress_store) simp_all
  moreover have "progress lo hi ?w (send_whole4 h p w)"
    unfolding send_whole4_def Let_def
    by (rule progress_inplace) (use assms vnet_le [OF assms(1)] in \<open>simp_all add: vnet_ok_def\<close>)
  ultimately show ?thesis by (rule progress_trans)
qed

lemma payload_6to4_progress:
  assumes "xlate_payload_6to4 p h em w = (e, q, w')" "pkt_in lo hi p" "icmp_in 58 p"
  shows "progress lo hi w w'" "pkt_in lo hi q" "p_data_len q = p_data_len p"
proof -
  have o: "payload_only p w q w'" using payload_6to4_only [OF assms(1)] assms(3) by (simp add: icmp_in_def)
  show "progress lo hi w w'" using progress_payload_only [OF o, of lo hi] assms(2) by (simp add: pkt_in_def)
  show "pkt_in lo hi q" "p_data_len q = p_data_len p" using payload_only_pkt [OF o] assms(2) by (simp_all add: pkt_in_def)
qed

lemma xlate_6to4_data_progress:
  assumes ok: "vnet_ok w" and p: "pkt_in lo hi p" "icmp_in 58 p"
  shows "progress lo hi w (xlate_6to4_data p w)"
proof -
  let ?h = "ld_ip6 (w_mem w) (p_ip6 p)"
  obtain r1 w1 where m1: "with_g (map_ip6_to_ip4 (i6_dest ?h) False) w = (r1, w1)" by fastforce
  obtain r2 w2 where m2: "with_g (map_ip6_to_ip4 (i6_src ?h) True) w1 = (r2, w2)" by fastforce
  have p1: "progress lo hi w w1" using progress_map6 [OF m1] by blast
  have p2: "progress lo hi w w2" using progress_map6 [OF m2] progress_trans [OF p1] by blast
  have fin: "progress lo hi w (case xlate_header_6to4 p (ip4_new src dest) (p_data_len p) w2 of
      (h, w) \<Rightarrow> (let h = h\<lparr>i4_ttl := i4_ttl h - 1\<rparr> in case xlate_payload_6to4 p h False w of
        (e, p, w) \<Rightarrow> if e \<noteq> ERROR_NONE then w else send_whole4 (h\<lparr>i4_cksum := ip4_header_checksum h\<rparr>) p w))" for src dest
  proof -
    obtain h w3 where x: "xlate_header_6to4 p (ip4_new src dest) (p_data_len p) w2 = (h, w3)" by fastforce
    let ?h' = "h\<lparr>i4_ttl := i4_ttl h - 1\<rparr>"
    obtain e q w4 where y: "xlate_payload_6to4 p ?h' False w3 = (e, q, w4)" by (metis prod_cases3)
    note pl = payload_6to4_progress [OF y p]
    have p3: "progress lo hi w w3" using progress_header_6to4 [OF x] progress_trans [OF p2] by blast
    have p4: "progress lo hi w w4" by (rule progress_trans [OF p3 pl(1)])
    have "progress lo hi w (send_whole4 hh q w4)" for hh
      by (rule progress_trans [OF p4 progress_send_whole4 [OF progress_vnet_ok [OF p4 ok]]])
        (use pl(2) in \<open>auto simp: pkt_in_def\<close>)
    then show ?thesis using x y p4 by (simp add: Let_def)
  qed
  note e1 = progress_trans [OF p1 progress_icmp6_error] and e2 = progress_trans [OF p2 progress_icmp6_error]
  show ?thesis
    unfolding xlate_6to4_data_def Let_def m1 prod.case
    using fin [unfolded Let_def] e1 e2 p1 p2 by (cases r1; cases r2) (simp_all add: m2)
qed

section \<open>ICMP errors\<close>

lemma em_cut_in: "em_cut n p = Some q \<Longrightarrow> p_data q = p_data p \<and> p_header_len q = p_header_len p
    \<and> p_ip6_frag q = p_ip6_frag p \<and> p_icmp q = p_icmp p \<and> unat (p_data_len q) \<le> unat (p_data_len p)"
  by (auto simp: em_cut_def word_le_nat_alt not_less split: if_splits)

lemma em_start_in:
  assumes "pkt_in lo hi p" "8 \<le> unat (p_data_len p)"
  shows "p_data (em_start p) = p_data p + 8" "unat (p_data_len (em_start p)) + 8 = unat (p_data_len p)"
    "p_header_len (em_start p) = 0" "p_ip6_frag (em_start p) = None" "p_icmp (em_start p) = None"
proof -
  have "8 \<le> p_data_len p" using assms(2) by (simp add: word_le_nat_alt)
  from unat_sub [OF this] show "unat (p_data_len (em_start p)) + 8 = unat (p_data_len p)"
    using assms(2) by (simp add: em_start_def)
qed (simp_all add: em_start_def pkt_zero_def)

lemma em_packet4_in:
  assumes "em_packet4 p w = Some (q, off, fl)" "pkt_in lo hi p" "8 \<le> unat (p_data_len p)"
  shows "pkt_in lo hi q \<and> icmp_in 1 q"
proof -
  from assms(1) obtain n p1 p2 where c: "em_cut n (em_start p) = Some p1" "parse_ip4 (w_mem w) True p1 = Inr p2"
    and q: "q = p2 \<or> q = p2\<lparr>p_data_len := MTU_MIN - 40 * 2 - 8 - fl\<rparr> \<and> 40 * 2 + 8 + fl + p_data_len p2 > MTU_MIN"
    and fl: "fl = 0 \<or> fl = 8"
    by (auto simp: em_packet4_def Let_def split: option.splits sum.splits if_splits)
  note s = em_start_in [OF assms(2,3)] and k = em_cut_in [OF c(1)]
  have ps: "parsed4 (w_mem w) True p1 p2" by (rule parse_ip4_ok [OF c(2)])
  have l2: "unat (p_header_len p2) + unat (p_data_len p2) \<le> unat (p_data_len p1)" "p_data p2 = p_data p1 + unat (p_header_len p2)"
    "p_data_proto p2 = 1 \<Longrightarrow> p_icmp p2 = Some (p_data p2) \<and> 8 \<le> unat (p_data_len p2)"
    using ps by (simp_all add: parsed4_def Let_def)
  have dl: "p_data q = p_data p2 \<and> p_icmp q = p_icmp p2 \<and> p_data_proto q = p_data_proto p2
      \<and> unat (p_data_len q) \<le> unat (p_data_len p2) \<and> (p_data_len q = p_data_len p2 \<or> 8 \<le> unat (p_data_len q))"
  proof (cases "q = p2")
    case False
    with q have q': "q = p2\<lparr>p_data_len := MTU_MIN - 40 * 2 - 8 - fl\<rparr>" "40 * 2 + 8 + fl + p_data_len p2 > MTU_MIN" by auto
    have "unat (MTU_MIN - 40 * 2 - 8 - fl) = 1192 - unat fl" using fl by (auto simp: MTU_MIN_def)
    moreover have "unat (40 * 2 + 8 + fl + p_data_len p2) \<le> 88 + unat fl + unat (p_data_len p2)"
      using fl by (auto simp: unat_word_ariths)
    ultimately show ?thesis using q' fl by (auto simp: MTU_MIN_def word_less_nat_alt)
  qed simp
  then show ?thesis using s k l2 assms(2) by (auto simp: pkt_in_def icmp_in_def)
qed

lemma progress_send_error6: "progress lo hi w (send_error6 p ic em fl q s d w)"
  by (simp add: send_error6_def Let_def progress_writev)

lemma xlate_4to6_icmp_error_progress:
  assumes p: "pkt_in lo hi p" "8 \<le> unat (p_data_len p)"
  shows "progress lo hi w (xlate_4to6_icmp_error p w)"
proof (cases "em_packet4 p w")
  case None
  then show ?thesis by (simp add: xlate_4to6_icmp_error_def)
next
  case (Some t)
  obtain q off fl where t: "t = (q, off, fl)" by (cases t)
  have q: "pkt_in lo hi q" "icmp_in 1 q" using em_packet4_in [OF _ p] Some t by auto
  show ?thesis
    unfolding xlate_4to6_icmp_error_def Some t
    by (auto simp: Let_def then_progress_def progress_send_error6 split: sum.splits option.splits prod.splits
      dest!: then_map4 [where lo = lo and hi = hi] then_progressI [OF payload_4to6_progress(1) [OF _ q]])
qed


lemma em_packet6_in:
  assumes "em_packet6 p w = Some q" "pkt_in lo hi p" "8 \<le> unat (p_data_len p)"
  shows "pkt_in lo hi q \<and> icmp_in 58 q"
proof -
  from assms(1) obtain n p1 p2 where c: "em_cut n (em_start p) = Some p1" "fst (parse_ip6 p1 True w) = Inr p2"
    and q: "q = p2 \<or> q = p2\<lparr>p_data_len := 576 - 20 * 2 - 8\<rparr> \<and> 20 * 2 + 8 + p_data_len p2 > 576"
    by (auto simp: em_packet6_def Let_def split: option.splits sum.splits if_splits)
  note s = em_start_in [OF assms(2,3)] and k = em_cut_in [OF c(1)]
  obtain w' where "parse_ip6 p1 True w = (Inr p2, w')" using c(2) by (metis prod.collapse)
  from parse_ip6_ok(2) [OF this] s k have ps: "parsed6 (w_mem w) True p1 p2" by simp
  have l2: "40 + unat (p_header_len p2) + unat (p_data_len p2) \<le> unat (p_data_len p1)"
    "p_data p2 = p_data p1 + 40 + unat (p_header_len p2)"
    "p_data_proto p2 = 58 \<Longrightarrow> p_icmp p2 = Some (p_data p2) \<and> 8 \<le> unat (p_data_len p2)"
    using ps unfolding parsed6_def Let_def by presburger+
  have dl: "p_data q = p_data p2 \<and> p_icmp q = p_icmp p2 \<and> p_data_proto q = p_data_proto p2
      \<and> unat (p_data_len q) \<le> unat (p_data_len p2) \<and> (p_data_len q = p_data_len p2 \<or> 8 \<le> unat (p_data_len q))"
  proof (cases "q = p2")
    case False
    with q have q': "q = p2\<lparr>p_data_len := 528\<rparr>" "48 + p_data_len p2 > 576" by auto
    have "unat (48 + p_data_len p2) \<le> 48 + unat (p_data_len p2)" by (simp add: unat_word_ariths)
    then show ?thesis using q' by (auto simp: word_less_nat_alt)
  qed simp
  then show ?thesis using s k l2 assms(2) by (auto simp: pkt_in_def icmp_in_def)
qed

lemma progress_send_error4: "progress lo hi w (send_error4 p ic h q s d w)"
  by (auto simp: send_error4_def Let_def split: prod.split
      intro: progress_trans [OF conjunct1 [OF progress_header_6to4] progress_writev])

lemma xlate_6to4_icmp_error_progress:
  assumes p: "pkt_in lo hi p" "8 \<le> unat (p_data_len p)"
  shows "progress lo hi w (xlate_6to4_icmp_error p w)"
proof (cases "em_packet6 p w")
  case None
  then show ?thesis by (simp add: xlate_6to4_icmp_error_def)
next
  case (Some q)
  have q: "pkt_in lo hi q" "icmp_in 58 q" using em_packet6_in [OF Some p] by auto
  show ?thesis
    unfolding xlate_6to4_icmp_error_def Some
    by (auto simp: Let_def then_progress_def progress_send_error4 split: sum.splits option.splits prod.splits
      dest!: then_map6 [where lo = lo and hi = hi] then_progressI [OF payload_6to4_progress(1) [OF _ q]]
        then_progressI [OF conjunct1 [OF progress_header_6to4 [where lo = lo and hi = hi]]])
qed

end
