(* ===== verification/Wire.thy ===== *)
theory Wire
  imports Nat64_Laws
begin

text \<open>
  What reaches the wire. The kernel reads the offload header of a frame and completes the checksum
  the header asks for; \<open>wire_packet\<close> is that step, and the lemmas give the packet that the
  translation of a data packet puts on the wire.
\<close>

section \<open>The device\<close>

definition wire_packet :: "nat \<Rightarrow> u8 list \<Rightarrow> u8 list" where
  "wire_packet n frame =
     (let v = take n frame;
          pkt = drop n frame;
          start = unat (le_word (take 2 (drop 6 v)) :: u16);
          off = unat (le_word (take 2 (drop 8 v)) :: u16)
      in if 0 < n \<and> v ! 0 AND VIRTIO_NET_HDR_F_NEEDS_CSUM \<noteq> 0
         then with_field pkt (start + off) (ip_checksum (drop start pkt)) else pkt)"

lemma wire_plain:
  assumes "vnet_ok w"
  shows "wire_packet (w_vnet w) (inplace_hdr None w @ ip) = ip" "wire_packet (w_vnet w) (plain_frame w ip) = ip"
proof -
  have "wire_packet (w_vnet w) (plain_frame w ip) = ip"
    using assms by (auto simp: wire_packet_def plain_frame_def vnet_ok_def Let_def nth_append)
  then show "wire_packet (w_vnet w) (plain_frame w ip) = ip"
    and "wire_packet (w_vnet w) (inplace_hdr None w @ ip) = ip"
    using inplace_hdr_plain [OF assms] by simp_all
qed

lemma wire_vhdr:
  assumes "vnet_ok w" "w_vnet w \<noteq> 0" "unat (vh_csum_start v) = length hdr"
    "unat (vh_csum_offset v) + 2 \<le> length seg"
  shows "wire_packet (w_vnet w) (inplace_hdr (Some v) w @ hdr @ seg) =
    hdr @ (if vh_flags v AND VIRTIO_NET_HDR_F_NEEDS_CSUM \<noteq> 0 then device_csum seg (unat (vh_csum_offset v)) else seg)"
proof -
  let ?v = "take (w_vnet w) (vnet_bytes v)"
  have len: "length ?v = w_vnet w" using vnet_le [OF assms(1)] by simp
  have t2: "take 2 (le_bytes 2 (x :: u16) @ ys) = le_bytes 2 x" for x ys by simp
  have vb: "?v = [vh_flags v, vh_gso_type v] @ le_bytes 2 (vh_hdr_len v) @ le_bytes 2 (vh_gso_size v)
      @ le_bytes 2 (vh_csum_start v) @ le_bytes 2 (vh_csum_offset v)
      @ take (w_vnet w - 10) (le_bytes 2 (vh_num_buffers v))"
    using assms(1,2) by (auto simp: vnet_ok_def vnet_bytes_def)
  have f: "?v ! 0 = vh_flags v" "take 2 (drop 6 ?v) = le_bytes 2 (vh_csum_start v)"
    "take 2 (drop 8 ?v) = le_bytes 2 (vh_csum_offset v)"
    unfolding vb by simp_all
  have w: "with_field (hdr @ seg) (length hdr + o1) c = hdr @ with_field seg o1 c" for o1 c
    by (simp add: with_field_def)
  show ?thesis
    using f assms(2-4) len
    by (simp add: wire_packet_def inplace_hdr_def Let_def le_word_le_bytes device_csum_def w)
qed

section \<open>A packet written as a whole\<close>

text \<open>The bytes of a header stored directly in front of the payload.\<close>

lemma load_header:
  assumes "length hdr = n" "n \<le> p_data p"
  shows "load (store m (p_data p - n) hdr) (p_data p - n) (n + unat (p_data_len p)) = hdr @ pkt_payload m p"
proof -
  have "p_data p - n + n = p_data p" using assms(2) by simp
  then have "load (store m (p_data p - n) hdr) (p_data p - n) (n + unat (p_data_len p))
      = load (store m (p_data p - n) hdr) (p_data p - n) n @ load (store m (p_data p - n) hdr) (p_data p) (unat (p_data_len p))"
    by (simp only: load_append)
  also have "load (store m (p_data p - n) hdr) (p_data p) (unat (p_data_len p)) = pkt_payload m p"
    unfolding pkt_payload_def by (rule load_store_disjoint) (use assms in simp)
  finally show ?thesis using assms(1) by simp
qed

lemma send_whole6_frame:
  assumes "vnet_ok w" "w_io w = []" "52 \<le> p_data p"
  shows "w_tx (send_whole6 h p w) = w_tx w @ [inplace_hdr (out_vhdr p 40) w @ ip6_bytes h @ pkt_payload (w_mem w) p]"
proof -
  let ?w = "w\<lparr>w_mem := store (w_mem w) (p_data p - 40) (ip6_bytes h)\<rparr>"
  have hd: "inplace_hdr v ?w = inplace_hdr v w" for v by (simp add: inplace_hdr_def)
  note acc = tun_write_vnet_inplace_accepted [of ?w "40 + unat (p_data_len p)" "p_data p - 40" _ "out_vhdr p 40", OF _ _ _ _ refl]
  show ?thesis
    unfolding send_whole6_def Let_def
    by (subst acc) (use assms vnet_le [OF assms(1)] load_header [of "ip6_bytes h" 40 p "w_mem w"] in \<open>simp_all add: hd vnet_ok_def\<close>)
qed

lemma send_whole4_frame:
  assumes "vnet_ok w" "w_io w = []" "52 \<le> p_data p"
  shows "w_tx (send_whole4 h p w) = w_tx w @ [inplace_hdr (out_vhdr p 20) w @ ip4_bytes h @ pkt_payload (w_mem w) p]"
proof -
  let ?w = "w\<lparr>w_mem := store (w_mem w) (p_data p - 20) (ip4_bytes h)\<rparr>"
  have hd: "inplace_hdr v ?w = inplace_hdr v w" for v by (simp add: inplace_hdr_def)
  note acc = tun_write_vnet_inplace_accepted [of ?w "20 + unat (p_data_len p)" "p_data p - 20" _ "out_vhdr p 20", OF _ _ _ _ refl]
  show ?thesis
    unfolding send_whole4_def Let_def
    by (subst acc) (use assms vnet_le [OF assms(1)] load_header [of "ip4_bytes h" 20 p "w_mem w"] in \<open>simp_all add: hd vnet_ok_def\<close>)
qed

text \<open>A checksum left to the device goes with an offload header that asks for it.\<close>

lemma wire_out:
  assumes "vnet_ok w" "length hdr = unat l3" "needs_csum p \<Longrightarrow> w_vnet w \<noteq> 0"
    "needs_csum p \<Longrightarrow> p_data_proto p = IPPROTO_TCP \<or> p_data_proto p = IPPROTO_UDP"
    "needs_csum p \<Longrightarrow> csum_off (p_data_proto p) + 2 \<le> unat (p_data_len p)"
  shows "wire_packet (w_vnet w) (inplace_hdr (out_vhdr p l3) w @ hdr @ pkt_payload m p) = hdr @ wire_seg m p"
proof (cases "needs_csum p")
  case False
  then show ?thesis using wire_plain(1) [OF assms(1)] by (simp add: out_vhdr_def wire_seg_def)
next
  case True
  let ?v = "(p_vhdr p)\<lparr>vh_gso_type := VIRTIO_NET_HDR_GSO_NONE, vh_csum_start := l3,
      vh_csum_offset := if p_data_proto p = IPPROTO_UDP then 6 else 16\<rparr>"
  have o: "out_vhdr p l3 = Some ?v" using True assms(4) by (simp add: out_vhdr_def)
  have c: "unat (vh_csum_offset ?v) = csum_off (p_data_proto p)"
    using assms(4) [OF True] by (auto simp: csum_off_def proto_defs)
  have f: "vh_flags ?v AND VIRTIO_NET_HDR_F_NEEDS_CSUM \<noteq> 0" using True by (simp add: needs_csum_def)
  show ?thesis
    unfolding o
    by (subst wire_vhdr [OF assms(1) assms(3) [OF True]]) (use c f True assms(2,5) in \<open>simp_all add: wire_seg_def\<close>)
qed

text \<open>When a payload routine leaves the checksum to the device.\<close>

lemma payload_4to6_offload:
  assumes "xlate_payload_4to6 p h False w = (ERROR_NONE, q, w')" "csum_proto (p_data_proto p)" "needs_csum q"
    "ntohs (i4_flags_offset (ld_ip4 (w_mem w) (p_ip4 p))) AND IP4_F_MASK = 0"
  shows "w_vnet w \<noteq> 0" "p_data_proto q = IPPROTO_TCP \<or> p_data_proto q = IPPROTO_UDP"
    "csum_off (p_data_proto q) + 2 \<le> unat (p_data_len q)"
proof -
  have np: "p_data_proto p \<noteq> 1" using assms(2) by (auto simp: csum_proto_def proto_defs)
  have o: "payload_only p w q w'" using payload_4to6_only [OF assms(1)] np by simp
  have n: "needs_csum p" using o assms(3) by (auto simp: payload_only_def)
  note eq = payload_only_pkt [OF o]
  have l: "\<not> p_data_len p < 8 \<Longrightarrow> 8 \<le> unat (p_data_len p)" "\<not> p_data_len p < 20 \<Longrightarrow> 20 \<le> unat (p_data_len p)"
    using len_le [of p 8] len_le [of p 20] by simp_all
  have "w_vnet w \<noteq> 0 \<and> (p_data_proto p = 6 \<and> 20 \<le> unat (p_data_len p) \<or> p_data_proto p = 17 \<and> 8 \<le> unat (p_data_len p))"
    using assms np n l
    by (auto simp: xlate_payload_4to6_def udp_4to6_def tcp_4to6_def lite_payload_def Let_def
        split: if_splits verdict.splits prod.splits)
  then show "w_vnet w \<noteq> 0" "p_data_proto q = IPPROTO_TCP \<or> p_data_proto q = IPPROTO_UDP"
    "csum_off (p_data_proto q) + 2 \<le> unat (p_data_len q)"
    using eq by (auto simp: csum_off_def proto_defs)
qed

lemma payload_6to4_offload:
  assumes "xlate_payload_6to4 p h False w = (ERROR_NONE, q, w')" "csum_proto (p_data_proto p)" "needs_csum q"
    "\<And>fr. frag_of (w_mem w) p = Some fr \<Longrightarrow> ntohs (fr_offset_flags fr) AND IP6_F_MASK = 0"
  shows "w_vnet w \<noteq> 0" "p_data_proto q = IPPROTO_TCP \<or> p_data_proto q = IPPROTO_UDP"
    "csum_off (p_data_proto q) + 2 \<le> unat (p_data_len q)"
proof -
  have np: "p_data_proto p \<noteq> 58" using assms(2) by (auto simp: csum_proto_def proto_defs)
  have o: "payload_only p w q w'" using payload_6to4_only [OF assms(1)] np by simp
  have n: "needs_csum p" using o assms(3) by (auto simp: payload_only_def)
  note eq = payload_only_pkt [OF o]
  have l: "\<not> p_data_len p < 8 \<Longrightarrow> 8 \<le> unat (p_data_len p)" "\<not> p_data_len p < 20 \<Longrightarrow> 20 \<le> unat (p_data_len p)"
    using len_le [of p 8] len_le [of p 20] by simp_all
  have "w_vnet w \<noteq> 0 \<and> (p_data_proto p = 6 \<and> 20 \<le> unat (p_data_len p) \<or> p_data_proto p = 17 \<and> 8 \<le> unat (p_data_len p))"
    using assms np n l
    by (auto simp: xlate_payload_6to4_def udp_6to4_def tcp_6to4_def lite_payload_def Let_def
        split: if_splits verdict.splits prod.splits option.splits)
  then show "w_vnet w \<noteq> 0" "p_data_proto q = IPPROTO_TCP \<or> p_data_proto q = IPPROTO_UDP"
    "csum_off (p_data_proto q) + 2 \<le> unat (p_data_len q)"
    using eq by (auto simp: csum_off_def proto_defs)
qed

end
