(* ===== verification/Forward.thy ===== *)
theory Forward
  imports Wire
begin

text \<open>
  A data packet from the receive buffer to the wire: when both addresses map and the packet passes
  the tests of the code, \<open>xlate_4to6_data\<close> and \<open>xlate_6to4_data\<close> send one packet, whose header is
  the translated header and whose segment is the segment received with a new checksum, valid for
  the new addresses.
\<close>

section \<open>Segments that are sent\<close>

text \<open>The shortest transport header.\<close>

definition min_hdr :: "u8 \<Rightarrow> nat" where
  "min_hdr proto = (if proto = IPPROTO_TCP then 20 else if proto = IPPROTO_DCCP then 12 else 8)"

text \<open>A segment with its checksum in place, or UDP without one when the code computes it.\<close>

definition plain_ok :: "pkt \<Rightarrow> world \<Rightarrow> bool" where
  "plain_ok p w \<longleftrightarrow> \<not> needs_csum p \<and> csum_proto (p_data_proto p)
     \<and> min_hdr (p_data_proto p) \<le> unat (p_data_len p)
     \<and> (if ld16 (w_mem w) (p_data p + 6) \<noteq> 0 then True
        else p_data_proto p \<noteq> IPPROTO_UDPLITE
             \<and> (p_data_proto p = IPPROTO_UDP \<longrightarrow> g_udp_cksum_mode (w_g w) = UDP_CKSUM_CALC))"

text \<open>A segment whose checksum is left to the device: \<open>start\<close> is where the transport header lies.\<close>

definition offload_ok :: "pkt \<Rightarrow> u32 \<Rightarrow> u32 \<Rightarrow> world \<Rightarrow> bool" where
  "offload_ok p start lim w \<longleftrightarrow> needs_csum p \<and> w_vnet w \<noteq> 0
     \<and> (p_data_proto p = IPPROTO_TCP \<and> 20 \<le> unat (p_data_len p) \<and> \<not> bad_meta p start 16 lim
          \<and> \<not> bad_tcp_doff (w_mem w) p
        \<or> p_data_proto p = IPPROTO_UDP \<and> 8 \<le> unat (p_data_len p) \<and> \<not> bad_meta p start 6 lim
          \<and> \<not> bad_udp_len (w_mem w) p)"

lemma offload_ok_fits:
  assumes "offload_ok p start lim w"
  shows "csum_proto (p_data_proto p)" "csum_off (p_data_proto p) + 2 \<le> unat (p_data_len p)" "needs_csum p"
    "w_vnet w \<noteq> 0" "p_data_proto p = IPPROTO_TCP \<or> p_data_proto p = IPPROTO_UDP"
  using assms by (auto simp: offload_ok_def csum_proto_def csum_off_def proto_defs)

lemma plain_ok_fits:
  assumes "plain_ok p w"
  shows "csum_proto (p_data_proto p)" "csum_off (p_data_proto p) + 2 \<le> unat (p_data_len p)" "\<not> needs_csum p"
  using assms by (auto simp: plain_ok_def csum_proto_def csum_off_def min_hdr_def proto_defs)

lemma len_not_less: "n \<le> unat (p_data_len p) \<Longrightarrow> unat k = n \<Longrightarrow> \<not> p_data_len p < k"
  by (simp add: word_less_nat_alt not_less)

lemma payload_4to6_plain:
  assumes ok: "plain_ok p w" and first: "ntohs (i4_flags_offset (ld_ip4 (w_mem w) (p_ip4 p))) AND IP4_F_MASK = 0"
  shows "\<exists>v. xlate_payload_4to6 p h False w = (ERROR_NONE, p, put16 (p_data p + csum_off (p_data_proto p)) v w)"
proof -
  note n = plain_ok_fits [OF ok]
  have l: "min_hdr (p_data_proto p) \<le> unat (p_data_len p)" using ok by (simp add: plain_ok_def)
  consider "p_data_proto p = 17" | "p_data_proto p = 6" | "p_data_proto p = 33" | "p_data_proto p = 136"
    using n(1) by (auto simp: csum_proto_def proto_defs)
  then show ?thesis
  proof cases
    case 1
    then have "\<not> p_data_len p < 8" using len_not_less [of 8 p 8] l by (simp add: min_hdr_def proto_defs)
    then show ?thesis using 1 n(3) first ok
      by (auto simp: xlate_payload_4to6_def udp_4to6_def adjust_4to6_def plain_ok_def Let_def csum_off_simps IPPROTO_UDP_def)
  next
    case 2
    then have "\<not> p_data_len p < 20" using len_not_less [of 20 p 20] l by (simp add: min_hdr_def proto_defs)
    then show ?thesis using 2 n(3) first
      by (auto simp: xlate_payload_4to6_def tcp_4to6_def adjust_4to6_def Let_def)
  next
    case 3
    then have "\<not> p_data_len p < 12" using len_not_less [of 12 p 12] l by (simp add: min_hdr_def proto_defs)
    then show ?thesis using 3 n(3) first
      by (auto simp: xlate_payload_4to6_def lite_payload_def adjust_4to6_def Let_def proto_defs)
  next
    case 4
    then have "\<not> p_data_len p < 8" using len_not_less [of 8 p 8] l by (simp add: min_hdr_def proto_defs)
    then show ?thesis using 4 n(3) first ok
      by (auto simp: xlate_payload_4to6_def lite_payload_def adjust_4to6_def plain_ok_def Let_def proto_defs split: if_splits)
  qed
qed

lemma payload_4to6_offloaded:
  assumes ok: "offload_ok p (p_header_len p) (ucast (ntohs (i4_length (ld_ip4 (w_mem w) (p_ip4 p))))) w"
    and whole: "ntohs (i4_flags_offset (ld_ip4 (w_mem w) (p_ip4 p))) AND (IP4_F_MASK OR IP4_F_MF) = 0"
    and first: "ntohs (i4_flags_offset (ld_ip4 (w_mem w) (p_ip4 p))) AND IP4_F_MASK = 0"
  shows "\<exists>v. xlate_payload_4to6 p h False w = (ERROR_NONE, p, put16 (p_data p + csum_off (p_data_proto p)) v w)"
proof -
  note n = offload_ok_fits [OF ok]
  have "p_data_proto p = 6 \<and> \<not> p_data_len p < 20 \<or> p_data_proto p = 17 \<and> \<not> p_data_len p < 8"
    using ok len_not_less [of 20 p 20] len_not_less [of 8 p 8] by (auto simp: offload_ok_def proto_defs)
  then show ?thesis using n(3,4) ok whole first
    by (auto simp: xlate_payload_4to6_def udp_4to6_def tcp_4to6_def offload_ok_def Let_def csum_off_simps proto_defs)
qed

lemma payload_6to4_plain:
  assumes ok: "plain_ok p w"
    and first: "\<And>fr. frag_of (w_mem w) p = Some fr \<Longrightarrow> ntohs (fr_offset_flags fr) AND IP6_F_MASK = 0"
  shows "\<exists>v. xlate_payload_6to4 p h False w = (ERROR_NONE, p, put16 (p_data p + csum_off (p_data_proto p)) v w)"
proof -
  note n = plain_ok_fits [OF ok]
  have f: "(case frag_of (w_mem w) p of Some fr \<Rightarrow> ntohs (fr_offset_flags fr) | None \<Rightarrow> 0) AND IP6_F_MASK = 0"
    using first by (auto split: option.split)
  have l: "min_hdr (p_data_proto p) \<le> unat (p_data_len p)" using ok by (simp add: plain_ok_def)
  consider "p_data_proto p = 17" | "p_data_proto p = 6" | "p_data_proto p = 33" | "p_data_proto p = 136"
    using n(1) by (auto simp: csum_proto_def proto_defs)
  then show ?thesis
  proof cases
    case 1
    then have "\<not> p_data_len p < 8" using len_not_less [of 8 p 8] l by (simp add: min_hdr_def proto_defs)
    then show ?thesis using 1 n(3) f ok
      by (auto simp: xlate_payload_6to4_def udp_6to4_def adjust_6to4_def plain_ok_def Let_def csum_off_simps IPPROTO_UDP_def)
  next
    case 2
    then have "\<not> p_data_len p < 20" using len_not_less [of 20 p 20] l by (simp add: min_hdr_def proto_defs)
    then show ?thesis using 2 n(3) f
      by (auto simp: xlate_payload_6to4_def tcp_6to4_def adjust_6to4_def Let_def)
  next
    case 3
    then have "\<not> p_data_len p < 12" using len_not_less [of 12 p 12] l by (simp add: min_hdr_def proto_defs)
    then show ?thesis using 3 n(3) f
      by (auto simp: xlate_payload_6to4_def lite_payload_def adjust_6to4_def Let_def proto_defs)
  next
    case 4
    then have "\<not> p_data_len p < 8" using len_not_less [of 8 p 8] l by (simp add: min_hdr_def proto_defs)
    then show ?thesis using 4 n(3) f ok
      by (auto simp: xlate_payload_6to4_def lite_payload_def adjust_6to4_def plain_ok_def Let_def proto_defs split: if_splits)
  qed
qed

lemma payload_6to4_offloaded:
  assumes ok: "offload_ok p (40 + p_header_len p) (total6 (w_mem w) p) w"
    and whole: "\<And>fr. frag_of (w_mem w) p = Some fr \<Longrightarrow> ntohs (fr_offset_flags fr) AND (IP6_F_MASK OR IP6_F_MF) = 0"
    and first: "\<And>fr. frag_of (w_mem w) p = Some fr \<Longrightarrow> ntohs (fr_offset_flags fr) AND IP6_F_MASK = 0"
  shows "\<exists>v. xlate_payload_6to4 p h False w = (ERROR_NONE, p, put16 (p_data p + csum_off (p_data_proto p)) v w)"
proof -
  note n = offload_ok_fits [OF ok]
  let ?fo = "case frag_of (w_mem w) p of Some fr \<Rightarrow> ntohs (fr_offset_flags fr) | None \<Rightarrow> 0"
  have f: "?fo AND IP6_F_MASK = 0" "?fo AND (IP6_F_MASK OR IP6_F_MF) = 0"
    using first whole by (auto split: option.split)
  have "p_data_proto p = 6 \<and> \<not> p_data_len p < 20 \<or> p_data_proto p = 17 \<and> \<not> p_data_len p < 8"
    using ok len_not_less [of 20 p 20] len_not_less [of 8 p 8] by (auto simp: offload_ok_def proto_defs)
  then show ?thesis using n(3,4) ok f
    by (auto simp: xlate_payload_6to4_def udp_6to4_def tcp_6to4_def offload_ok_def Let_def csum_off_simps proto_defs)
qed

text \<open>The segment on the wire is the one received, with another checksum.\<close>

lemma wire_seg_put:
  assumes "csum_off (p_data_proto p) + 2 \<le> unat (p_data_len p)"
  shows "\<exists>ck. wire_seg (st16 m (p_data p + csum_off (p_data_proto p)) v) p
    = with_field (pkt_payload m p) (csum_off (p_data_proto p)) ck"
  using assms by (auto simp: wire_seg_def payload_put(1) [OF assms] device_csum_def)

section \<open>IPv4 to IPv6\<close>

lemma and_or_0:
  fixes x :: "'a::len word"
  assumes "x AND (y OR z) = 0"
  shows "x AND y = 0" "x AND z = 0"
proof -
  have e: "x AND y = (x AND (y OR z)) AND y" "x AND z = (x AND (y OR z)) AND z"
    by (rule bit_word_eqI, auto simp: bit_and_iff bit_or_iff)+
  show "x AND y = 0" "x AND z = 0" unfolding e assms by simp_all
qed

text \<open>
  \<open>rest\<close> are the bytes of the later fragments of the datagram; a checksum that is not in the packet
  yet covers the whole datagram.
\<close>

definition segment_ok4 :: "pkt \<Rightarrow> u8 list \<Rightarrow> world \<Rightarrow> bool" where
  "segment_ok4 p rest w \<longleftrightarrow> (let h = ld_ip4 (w_mem w) (p_ip4 p) in
     if needs_csum p then
       offload_ok p (p_header_len p) (ucast (ntohs (i4_length h))) w \<and> rest = []
       \<and> ntohs (i4_flags_offset h) AND (IP4_F_MASK OR IP4_F_MF) = 0
     else plain_ok p w \<and> (if udp_no_csum (w_mem w) p then rest = []
        else valid4 (i4_src h) (i4_dest h) (p_data_proto p) (pkt_payload (w_mem w) p @ rest)))"

lemma segment_ok4_fits:
  assumes "segment_ok4 p rest w"
  shows "csum_proto (p_data_proto p)" "csum_off (p_data_proto p) + 2 \<le> unat (p_data_len p)" "p_data_proto p \<noteq> 1"
    "needs_csum p \<Longrightarrow> w_vnet w \<noteq> 0 \<and> (p_data_proto p = IPPROTO_TCP \<or> p_data_proto p = IPPROTO_UDP)"
proof -
  have d: "offload_ok p (p_header_len p) (ucast (ntohs (i4_length (ld_ip4 (w_mem w) (p_ip4 p))))) w
      \<or> \<not> needs_csum p \<and> plain_ok p w"
    using assms unfolding segment_ok4_def Let_def by presburger
  show c: "csum_proto (p_data_proto p)" using d offload_ok_fits(1) plain_ok_fits(1) by blast
  show "csum_off (p_data_proto p) + 2 \<le> unat (p_data_len p)" using d offload_ok_fits(2) plain_ok_fits(2) by blast
  show "w_vnet w \<noteq> 0 \<and> (p_data_proto p = IPPROTO_TCP \<or> p_data_proto p = IPPROTO_UDP)" if "needs_csum p"
    using d that offload_ok_fits(4,5) by blast
  show "p_data_proto p \<noteq> 1" using c by (auto simp: csum_proto_def proto_defs)
qed

lemma segment_ok4_conf:
  assumes "segment_ok4 p rest w" "conf g = conf (w_g w)"
  shows "segment_ok4 p rest (w\<lparr>w_g := g\<rparr>)"
  using assms by (auto simp: segment_ok4_def offload_ok_def plain_ok_def conf_def Let_def split: if_splits)

lemma payload_4to6_segment:
  assumes ok: "segment_ok4 p rest w"
    and first: "ntohs (i4_flags_offset (ld_ip4 (w_mem w) (p_ip4 p))) AND IP4_F_MASK = 0"
  shows "\<exists>v. xlate_payload_4to6 p h6 False w = (ERROR_NONE, p, put16 (p_data p + csum_off (p_data_proto p)) v w)
    \<and> valid6 (i6_src h6) (i6_dest h6) (p_data_proto p)
        (wire_seg (st16 (w_mem w) (p_data p + csum_off (p_data_proto p)) v) p @ rest)"
proof -
  note sp = segment_ok4_fits [OF ok]
  obtain v where pay: "xlate_payload_4to6 p h6 False w = (ERROR_NONE, p, put16 (p_data p + csum_off (p_data_proto p)) v w)"
    using payload_4to6_offloaded [of p w h6] payload_4to6_plain [of p w h6] ok first
    by (cases "needs_csum p") (auto simp: segment_ok4_def Let_def)
  have c: "g_udp_cksum_mode (w_g w) \<noteq> UDP_CKSUM_FWD" if "\<not> needs_csum p" "udp_no_csum (w_mem w) p"
    using ok that by (auto simp: segment_ok4_def plain_ok_def udp_no_csum_def Let_def)
  have r: "rest = []" if "needs_csum p \<or> udp_no_csum (w_mem w) p"
    using ok that by (auto simp: segment_ok4_def Let_def split: if_splits)
  have "valid6 (i6_src h6) (i6_dest h6) (p_data_proto p)
      (wire_seg (w_mem (put16 (p_data p + csum_off (p_data_proto p)) v w)) p @ rest)"
    by (rule payload_4to6_valid [OF pay refl first sp(1)])
      (use c r ok in \<open>auto simp: segment_ok4_def Let_def split: if_splits\<close>)
  then show ?thesis using pay by auto
qed

text \<open>The header of the translated packet.\<close>

definition header_4to6 :: "ip4 \<Rightarrow> u8 \<Rightarrow> u32 \<Rightarrow> in6_addr \<Rightarrow> in6_addr \<Rightarrow> ip6" where
  "header_4to6 h proto len src dest = \<lparr>i6_ver_tc_fl = htonl (0x60000000 OR push_bit 20 (ucast (i4_tos h))),
     i6_payload_length = htons (ucast len), i6_next_header = proto, i6_hop_limit = i4_ttl h - 1,
     i6_src = src, i6_dest = dest\<rparr>"

lemma xlate_header_4to6_eq:
  "(xlate_header_4to6 m p (ip6_new src dest) len)\<lparr>i6_hop_limit :=
      i6_hop_limit (xlate_header_4to6 m p (ip6_new src dest) len) - 1\<rparr>
    = header_4to6 (ld_ip4 m (p_ip4 p)) (if p_data_proto p = 1 then 58 else p_data_proto p) len src dest"
  by (simp add: xlate_header_4to6_def header_4to6_def ip6_new_def Let_def)

text \<open>What \<open>xlate_4to6_data\<close> does after both addresses are mapped.\<close>

lemma xlate_4to6_data_mapped:
  assumes h: "h = ld_ip4 (w_mem w) (p_ip4 p)"
    and map: "map_ip4_to_ip6 (i4_dest h) (w_g w) = (Inr dest, g1)" "map_ip4_to_ip6 (i4_src h) g1 = (Inr src, g2)"
    and fit: "ntohs (i4_flags_offset h) AND (IP4_F_MASK OR IP4_F_MF) = 0 \<Longrightarrow> ntohs (i4_flags_offset h) AND IP4_F_DF \<noteq> 0
      \<Longrightarrow> 40 + unat (p_data_len p) \<le> unat (g_mtu (w_g w))"
    and h6: "h6 = header_4to6 h (if p_data_proto p = 1 then 58 else p_data_proto p) (p_data_len p) src dest"
    and pay: "xlate_payload_4to6 p h6 False (w\<lparr>w_g := g2\<rparr>) = (ERROR_NONE, q, w3)"
  shows "xlate_4to6_data p w =
    (if ntohs (i4_flags_offset h) AND (IP4_F_MASK OR IP4_F_MF) = 0
        \<and> (ntohs (i4_flags_offset h) AND IP4_F_DF \<noteq> 0 \<or> p_data_len p \<le> frag_limit (w_g w))
     then Some (send_whole6 h6 q w3)
     else send_fragments6 h6 (frag_limit (w_g w)) (ntohs (i4_flags_offset h)) q w3)"
proof -
  have m1: "with_g (map_ip4_to_ip6 (i4_dest h)) w = (Inr dest, w\<lparr>w_g := g1\<rparr>)"
    and m2: "with_g (map_ip4_to_ip6 (i4_src h)) (w\<lparr>w_g := g1\<rparr>) = (Inr src, w\<lparr>w_g := g2\<rparr>)"
    using map by (simp_all add: with_g_def)
  have nf: "\<not> (ntohs (i4_flags_offset h) AND (IP4_F_MASK OR IP4_F_MF) = 0 \<and> ntohs (i4_flags_offset h) AND IP4_F_DF \<noteq> 0
      \<and> 40 + unat (p_data_len p) > unat (ucast (g_mtu (w_g w)) :: u32))"
    using fit by auto
  have hd: "(xlate_header_4to6 (w_mem w) p (ip6_new src dest) (p_data_len p))\<lparr>i6_hop_limit :=
      i6_hop_limit (xlate_header_4to6 (w_mem w) p (ip6_new src dest) (p_data_len p)) - 1\<rparr> = h6"
    unfolding h6 h by (rule xlate_header_4to6_eq)
  have mem: "w_mem (w\<lparr>w_g := g2\<rparr>) = w_mem w" by simp
  show ?thesis
    unfolding xlate_4to6_data_def Let_def h [symmetric] m1 m2 prod.case sum.case if_not_P [OF nf] mem hd pay
      frag_limit_def
    by simp
qed

lemma xlate_4to6_data_whole:
  assumes dev: "vnet_ok w" "w_io w = []" and room: "52 \<le> p_data p"
    and h: "h = ld_ip4 (w_mem w) (p_ip4 p)" and seg: "segment_ok4 p [] w"
    and whole: "ntohs (i4_flags_offset h) AND (IP4_F_MASK OR IP4_F_MF) = 0"
    and fit: "40 + unat (p_data_len p) \<le> unat (g_mtu (w_g w))"
      "ntohs (i4_flags_offset h) AND IP4_F_DF \<noteq> 0 \<or> p_data_len p \<le> frag_limit (w_g w)"
    and map: "map_ip4_to_ip6 (i4_dest h) (w_g w) = (Inr dest, g1)" "map_ip4_to_ip6 (i4_src h) g1 = (Inr src, g2)"
  shows "\<exists>w' frame ck. xlate_4to6_data p w = Some w' \<and> w_tx w' = w_tx w @ [frame]
    \<and> wire_packet (w_vnet w) frame = ip6_bytes (header_4to6 h (p_data_proto p) (p_data_len p) src dest)
        @ with_field (pkt_payload (w_mem w) p) (csum_off (p_data_proto p)) ck
    \<and> valid6 src dest (p_data_proto p) (with_field (pkt_payload (w_mem w) p) (csum_off (p_data_proto p)) ck)"
proof -
  let ?w2 = "w\<lparr>w_g := g2\<rparr>"
  have "conf g2 = conf (w_g w)"
    using conf_map4 [of "i4_dest h" "w_g w"] conf_map4 [of "i4_src h" g1] map by simp
  then have ok2: "segment_ok4 p [] ?w2" by (rule segment_ok4_conf [OF seg])
  note f1 = and_or_0(1) [OF whole] and sp = segment_ok4_fits [OF ok2]
  let ?P = "p_data_proto p" and ?off = "csum_off (p_data_proto p)" and ?len = "p_data_len p"
  let ?h6 = "header_4to6 h ?P ?len src dest"
  obtain v where pay: "xlate_payload_4to6 p ?h6 False ?w2 = (ERROR_NONE, p, put16 (p_data p + ?off) v ?w2)"
    and val: "valid6 (i6_src ?h6) (i6_dest ?h6) ?P (wire_seg (st16 (w_mem ?w2) (p_data p + ?off) v) p @ [])"
    using payload_4to6_segment [OF ok2, of ?h6] f1 h by auto
  let ?w3 = "put16 (p_data p + ?off) v ?w2"
  have x: "xlate_4to6_data p w = Some (send_whole6 ?h6 p ?w3)"
    using xlate_4to6_data_mapped [OF h map fit(1) refl, of p ?w3] pay sp(3) fit whole by simp
  obtain ck where ck: "wire_seg (w_mem ?w3) p = with_field (pkt_payload (w_mem w) p) ?off ck"
    using wire_seg_put [OF sp(2), of "w_mem w" v] by auto
  have tx: "w_tx (send_whole6 ?h6 p ?w3) = w_tx w @ [inplace_hdr (out_vhdr p 40) ?w3 @ ip6_bytes ?h6 @ pkt_payload (w_mem ?w3) p]"
    by (subst send_whole6_frame) (use dev room in \<open>simp_all add: vnet_ok_def\<close>)
  have "wire_packet (w_vnet ?w3) (inplace_hdr (out_vhdr p 40) ?w3 @ ip6_bytes ?h6 @ pkt_payload (w_mem ?w3) p)
      = ip6_bytes ?h6 @ wire_seg (w_mem ?w3) p"
    by (rule wire_out) (use dev sp in \<open>simp_all add: vnet_ok_def\<close>)
  then show ?thesis using x tx val ck by (auto simp: header_4to6_def)
qed

text \<open>An echo request or reply: the type changes and the checksum gains the pseudo-header.\<close>

lemma send_whole6_plain:
  assumes "vnet_ok w" "w_io w = []" "52 \<le> p_data p" "p_data_proto p \<noteq> IPPROTO_TCP" "p_data_proto p \<noteq> IPPROTO_UDP"
  shows "\<exists>frame. w_tx (send_whole6 h p w) = w_tx w @ [frame]
    \<and> wire_packet (w_vnet w) frame = ip6_bytes h @ pkt_payload (w_mem w) p"
proof -
  have "out_vhdr p 40 = None" using assms(4,5) by (simp add: out_vhdr_def)
  then show ?thesis using send_whole6_frame [OF assms(1-3), of h] wire_plain(1) [OF assms(1)] by auto
qed

lemma xlate_4to6_data_echo:
  assumes dev: "vnet_ok w" "w_io w = []" and room: "52 \<le> p_data p"
    and h: "h = ld_ip4 (w_mem w) (p_ip4 p)"
    and icmp: "p_data_proto p = 1" "p_icmp p = Some (p_data p)" "8 \<le> unat (p_data_len p)"
    and len: "ucast (ntohs (i4_length h)) - p_header_len p = p_data_len p"
    and type: "w_mem w (p_data p) = 8 \<or> w_mem w (p_data p) = 0"
    and ok: "ip_checksum (pkt_payload (w_mem w) p) = 0"
    and whole: "ntohs (i4_flags_offset h) AND (IP4_F_MASK OR IP4_F_MF) = 0"
    and fit: "40 + unat (p_data_len p) \<le> unat (g_mtu (w_g w))"
      "ntohs (i4_flags_offset h) AND IP4_F_DF \<noteq> 0 \<or> p_data_len p \<le> frag_limit (w_g w)"
    and map: "map_ip4_to_ip6 (i4_dest h) (w_g w) = (Inr dest, g1)" "map_ip4_to_ip6 (i4_src h) g1 = (Inr src, g2)"
  shows "\<exists>w' frame ck. xlate_4to6_data p w = Some w' \<and> w_tx w' = w_tx w @ [frame]
    \<and> wire_packet (w_vnet w) frame = ip6_bytes (header_4to6 h 58 (p_data_len p) src dest)
        @ with_field (echo_4to6 (w_mem w (p_data p)) # tl (pkt_payload (w_mem w) p)) 2 ck
    \<and> valid6 src dest 58 (with_field (echo_4to6 (w_mem w (p_data p)) # tl (pkt_payload (w_mem w) p)) 2 ck)"
proof -
  let ?w2 = "w\<lparr>w_g := g2\<rparr>" and ?h6 = "header_4to6 h 58 (p_data_len p) src dest"
  let ?w3 = "icmp_4to6 p ?h6 ?w2"
  note f1 = and_or_0(1) [OF whole]
  have pay: "xlate_payload_4to6 p ?h6 False ?w2 = (ERROR_NONE, p, ?w3)"
    using icmp(1) whole f1 h by (simp add: xlate_payload_4to6_def Let_def)
  have x: "xlate_4to6_data p w = Some (send_whole6 ?h6 p ?w3)"
    using xlate_4to6_data_mapped [OF h map fit(1) refl, of p ?w3] pay icmp(1) fit whole by simp
  have l4: "4 \<le> unat (p_data_len p)" using icmp(3) by simp
  obtain v where mem: "?w3 = ?w2\<lparr>w_mem := st16 (store (w_mem w) (p_data p) [echo_4to6 (w_mem w (p_data p))]) (p_data p + 2) v\<rparr>"
    using icmp_4to6_mem [OF icmp(2), of ?h6 ?w2] by auto
  have seg: "pkt_payload (w_mem ?w3) p = with_field (echo_4to6 (w_mem w (p_data p)) # tl (pkt_payload (w_mem w) p)) 2 v"
    unfolding mem using icmp_payload_step(1) [OF l4] by simp
  have val: "valid6 (i6_src ?h6) (i6_dest ?h6) 58 (pkt_payload (w_mem ?w3) p)"
    by (rule icmp_4to6_valid) (use icmp len type ok h in simp_all)
  obtain frame where "w_tx (send_whole6 ?h6 p ?w3) = w_tx ?w3 @ [frame]"
    "wire_packet (w_vnet ?w3) frame = ip6_bytes ?h6 @ pkt_payload (w_mem ?w3) p"
    using send_whole6_plain [of ?w3 p ?h6] dev room icmp(1) by (auto simp: mem vnet_ok_def proto_defs)
  then have "w_tx (send_whole6 ?h6 p ?w3) = w_tx w @ [frame]"
    "wire_packet (w_vnet w) frame = ip6_bytes ?h6 @ pkt_payload (w_mem ?w3) p"
    unfolding mem by simp_all
  with x val seg show ?thesis by (auto simp: header_4to6_def)
qed

section \<open>IPv4 to IPv6 in fragments\<close>

lemma ld_ip4_cong: "(\<And>i. a \<le> i \<Longrightarrow> i < a + 20 \<Longrightarrow> m' i = m i) \<Longrightarrow> ld_ip4 m' a = ld_ip4 m a"
  by (auto simp: ld_ip4_def ld16_def ld32_def load_def intro!: arg_cong [where f = le_word])

lemma payload_only_ld_ip4:
  "payload_only p w q w' \<Longrightarrow> a + 20 \<le> p_data p \<Longrightarrow> ld_ip4 (w_mem w') a = ld_ip4 (w_mem w) a"
  by (rule ld_ip4_cong) (simp add: payload_only_def)

text \<open>The checksum completed before the cut makes the segment valid on its own.\<close>

lemma complete_csum6_seg:
  assumes ok: "segment_ok4 p rest w0" and c: "complete_csum6 h p w = (q, w')"
    and val: "valid6 (i6_src h) (i6_dest h) (p_data_proto p) (wire_seg (w_mem w) p @ rest)"
    and orig: "\<exists>ck. wire_seg (w_mem w) p = with_field bs (csum_off (p_data_proto p)) ck" and len: "length bs = unat (p_data_len p)"
  shows "payload_only p w q w' \<and> \<not> needs_csum q
    \<and> (\<exists>ck. pkt_payload (w_mem w') q = with_field bs (csum_off (p_data_proto p)) ck
      \<and> valid6 (i6_src h) (i6_dest h) (p_data_proto p) (with_field bs (csum_off (p_data_proto p)) ck @ rest))"
proof (cases "needs_csum p")
  case False
  then show ?thesis using c val orig by (auto simp: complete_csum6_def wire_seg_def payload_only_refl)
next
  case True
  let ?off = "csum_off (p_data_proto p)"
  note sp = segment_ok4_fits [OF ok]
  have r: "rest = []" using ok True by (simp add: segment_ok4_def Let_def)
  have o: "?off = (if p_data_proto p = IPPROTO_UDP then 6 else 16)"
    using sp(4) [OF True] by (auto simp: csum_off_def proto_defs)
  have fld: "(csum_off (p_data_proto p) + 2 \<le> length bs)" using sp(2) len by simp
  let ?ck = "full_csum6 (st16 (w_mem w) (p_data p + ?off) 0) p h (p_data_proto p)"
  let ?v = "if p_data_proto p = IPPROTO_UDP \<and> ?ck = 0 then 0xffff else ?ck"
  have q: "q = clear_needs_csum p" "w' = put16 (p_data p + ?off) ?v (put16 (p_data p + ?off) 0 w)"
    using c unfolding complete_csum6_def if_P [OF True] Let_def o [symmetric] put16_simps by blast+
  have v: "?v = ?ck \<or> ?v = nonzero_ck ?ck" by (simp add: nonzero_ck_def)
  have e: "with_field (pkt_payload (w_mem w) p) ?off x = with_field bs ?off x" for x
  proof -
    obtain c1 c2 where "with_field (pkt_payload (w_mem w) p) ?off c1 = with_field bs ?off c2"
      using orig True unfolding wire_seg_def device_csum_def by auto
    then have "take ?off (pkt_payload (w_mem w) p) = take ?off bs"
      "drop (?off + 2) (pkt_payload (w_mem w) p) = drop (?off + 2) bs"
      using sp(2) len by (auto simp: with_field_def)
    then show ?thesis by (simp add: with_field_def)
  qed
  have "pkt_payload (st16 (st16 (w_mem w) (p_data p + ?off) 0) (p_data p + ?off) x) p = with_field bs ?off x" for x
    by (simp add: payload_put(1) [OF sp(2)] e with_field_twice [OF fld])
  then have bs: "pkt_payload (w_mem w') q = with_field bs ?off ?v"
    unfolding q by (simp only: put16_simps clear_needs_csum_simps)
  note seal = calc_seal_6 [OF csum_off_even sp(2), of h "p_data_proto p" "w_mem w"]
  have "valid6 (i6_src h) (i6_dest h) (p_data_proto p)
      (pkt_payload (st16 (st16 (w_mem w) (p_data p + ?off) 0) (p_data p + ?off) ?v) p)"
    by (rule disjE [OF v]) (simp_all only: seal)
  then have "valid6 (i6_src h) (i6_dest h) (p_data_proto p) (pkt_payload (w_mem w') q)"
    unfolding q by (simp only: put16_simps clear_needs_csum_simps)
  then have "\<exists>ck. pkt_payload (w_mem w') q = with_field bs ?off ck
      \<and> valid6 (i6_src h) (i6_dest h) (p_data_proto p) (with_field bs ?off ck @ rest)"
    using bs unfolding r append_Nil2 by (intro exI [of _ ?v] conjI) simp_all
  moreover have "payload_only p w q w'" unfolding q by (rule payload_only_put_clear [OF sp(2)])
  moreover have "\<not> needs_csum q" unfolding q(1) by simp
  ultimately show ?thesis by blast
qed

text \<open>
  The fragments of \<open>data\<close>, which starts at byte \<open>base\<close> of its datagram: the headers, the limit on
  the size, the flag for more fragments, and reassembly from the fragments in any order and with
  repetitions.
\<close>

definition fragments_of ::
  "ip6 \<Rightarrow> u8 \<Rightarrow> u32 \<Rightarrow> nat \<Rightarrow> nat \<Rightarrow> bool \<Rightarrow> u8 list \<Rightarrow> u8 list list \<Rightarrow> bool" where
  "fragments_of h proto ident lim base mf data fs \<longleftrightarrow>
     (\<forall>f \<in> set fs. take 40 f = ip6_bytes (h\<lparr>i6_next_header := 44, i6_payload_length := htons (word_of_nat (length f - 40))\<rparr>)
        \<and> f ! 40 = proto \<and> take 4 (drop 44 f) = le_bytes 4 ident \<and> length f \<le> lim
        \<and> (frag_more f \<longleftrightarrow> mf \<or> frag_off f + length (frag_payload f) < base + length data))
     \<and> (\<forall>fs'. set fs' = set fs \<longrightarrow> reassemble fs' base (length data) = map Some data)"

lemma frag_list_fragments:
  assumes "0 < n" "n mod 8 = 0" "base mod 8 = 0" "base + length data \<le> 65535"
  shows "fragments_of h (fr_next_header fr) (fr_ident fr) (48 + n) base mf data
    (frag_list (h\<lparr>i6_next_header := 44\<rparr>) fr n base mf data)"
proof -
  let ?fs = "frag_list (h\<lparr>i6_next_header := 44\<rparr>) fr n base mf data"
  note car = frag_list_carries [OF assms, of _ "h\<lparr>i6_next_header := 44\<rparr>" fr mf]
  have one: "take 40 f = ip6_bytes (h\<lparr>i6_next_header := 44, i6_payload_length := htons (word_of_nat (length f - 40))\<rparr>)
      \<and> f ! 40 = fr_next_header fr \<and> take 4 (drop 44 f) = le_bytes 4 (fr_ident fr) \<and> length f \<le> 48 + n
      \<and> (frag_more f \<longleftrightarrow> mf \<or> frag_off f + length (frag_payload f) < base + length data)"
    if f: "f \<in> set ?fs" for f
  proof -
    note fields = frag_list_fields [OF assms f]
    obtain off b d where e: "f = frag_bytes (h\<lparr>i6_next_header := 44\<rparr>) fr off b d" "frag_payload f = d" using fields by blast
    have len: "length f = 48 + length (frag_payload f)" "length (frag_payload f) \<le> n"
      using car(1) [OF f] by (simp_all add: carries_def)
    have "take 40 f = ip6_bytes (h\<lparr>i6_next_header := 44, i6_payload_length := htons (word_of_nat (8 + length (frag_payload f)))\<rparr>)"
      "f ! 40 = fr_next_header fr" "take 4 (drop 44 f) = le_bytes 4 (fr_ident fr)"
      unfolding e(2) unfolding e(1) by (simp_all add: frag_bytes_def ip6_frag_bytes_def nth_append)
    moreover have "8 + length (frag_payload f) = length f - 40" "length f \<le> 48 + n" using len by simp_all
    ultimately show ?thesis using conjunct1 [OF fields] by presburger
  qed
  have "reassemble fs' base (length data) = map Some data" if "set fs' = set ?fs" for fs'
    by (rule reassemble_any [where n = n]) (use car that in auto)
  with one show ?thesis unfolding fragments_of_def by blast
qed

lemma send_fragments6_sends:
  assumes c: "complete_csum6 h p w = (q, w1)" and o: "payload_only p w q w1"
    and dev: "vnet_ok w" "w_io w = []" and n: "1240 \<le> unat n" "unat n \<le> 65535"
    and ip: "p_ip4 p + 20 \<le> p_data p" "8 * unat (off AND IP4_F_MASK) + unat (p_data_len p) \<le> 65535"
  shows "\<exists>w' fs. send_fragments6 h n off p w = Some w' \<and> w_tx w' = w_tx w @ map (plain_frame w) fs
    \<and> fragments_of h (i6_next_header h) (htonl (ucast (ntohs (i4_ident (ld_ip4 (w_mem w) (p_ip4 p))))))
        (40 + unat n) (8 * unat (off AND IP4_F_MASK)) (i4_flags_offset (ld_ip4 (w_mem w) (p_ip4 p)) AND htons IP4_F_MF \<noteq> 0)
        (pkt_payload (w_mem w1) q) fs"
proof -
  let ?h4 = "ld_ip4 (w_mem w) (p_ip4 p)"
  have q: "p_data q = p_data p" "p_data_len q = p_data_len p" "p_ip4 q = p_ip4 p" using payload_only_pkt [OF o] by simp_all
  have ip4: "ld_ip4 (w_mem w1) (p_ip4 q) = ?h4" unfolding q by (rule payload_only_ld_ip4 [OF o ip(1)])
  obtain m where w1: "w1 = w\<lparr>w_mem := m\<rparr>" using o by (auto simp: payload_only_def)
  let ?u = "(n - 8) AND NOT 7"
  note u = frag_unit [OF n(1)]
  have u2: "unat ?u \<le> 65535" using u(3) n(2) by simp
  have off: "unat ((off AND IP4_F_MASK) * 8) = 8 * unat (off AND IP4_F_MASK)"
    using ip(2) by (simp add: unat_word_ariths)
  let ?fr = "\<lparr>fr_next_header = i6_next_header h, fr_reserved = 0, fr_offset_flags = 0,
      fr_ident = htonl (ucast (ntohs (i4_ident ?h4)))\<rparr>"
  let ?data = "pkt_payload (w_mem w1) q" and ?mf = "i4_flags_offset ?h4 AND htons IP4_F_MF \<noteq> 0"
  let ?fs = "frag_list (h\<lparr>i6_next_header := 44\<rparr>) ?fr (unat ?u) (8 * unat (off AND IP4_F_MASK)) ?mf ?data"
  have s: "send_fragments6 h n off p w = frag_loop (h\<lparr>i6_next_header := 44\<rparr>) ?fr ?u ((off AND IP4_F_MASK) * 8) q w1"
    unfolding send_fragments6_def c prod.case Let_def ip4 ..
  also have "\<dots> = Some (w1\<lparr>w_tx := w_tx w1 @ map (plain_frame w1) ?fs\<rparr>)"
    unfolding off [symmetric] ip4 [symmetric]
    by (rule frag_loop_sends [OF u(1)]) (use dev u2 off ip(2) q w1 in \<open>simp_all add: vnet_ok_def\<close>)
  finally have "send_fragments6 h n off p w = Some (w1\<lparr>w_tx := w_tx w1 @ map (plain_frame w1) ?fs\<rparr>)" .
  moreover have "w_tx w1 @ map (plain_frame w1) ?fs = w_tx w @ map (plain_frame w) ?fs"
    by (simp add: w1 plain_frame_def fun_eq_iff)
  moreover have "fragments_of h (fr_next_header ?fr) (fr_ident ?fr) (48 + unat ?u) (8 * unat (off AND IP4_F_MASK)) ?mf ?data ?fs"
    by (rule frag_list_fragments) (use u ip(2) q in \<open>simp_all add: unat_gt_0\<close>)
  then have "fragments_of h (i6_next_header h) (htonl (ucast (ntohs (i4_ident ?h4)))) (40 + unat n)
      (8 * unat (off AND IP4_F_MASK)) ?mf ?data ?fs"
    using u(3) by (fastforce simp: fragments_of_def)
  ultimately show ?thesis by (intro exI [of _ "w1\<lparr>w_tx := w_tx w1 @ map (plain_frame w1) ?fs\<rparr>"] exI [of _ ?fs]) simp
qed

text \<open>A packet that does not fit, or the first fragment of a datagram.\<close>

lemma xlate_4to6_data_fragmented:
  assumes dev: "vnet_ok w" "w_io w = []" and mtu: "big_mtu (w_g w)" and room: "p_ip4 p + 20 \<le> p_data p"
    and h: "h = ld_ip4 (w_mem w) (p_ip4 p)" and seg: "segment_ok4 p rest w"
    and first: "ntohs (i4_flags_offset h) AND IP4_F_MASK = 0"
    and long: "\<not> (ntohs (i4_flags_offset h) AND (IP4_F_MASK OR IP4_F_MF) = 0
      \<and> (ntohs (i4_flags_offset h) AND IP4_F_DF \<noteq> 0 \<or> p_data_len p \<le> frag_limit (w_g w)))"
    and len: "unat (p_data_len p) \<le> 65535"
    and map: "map_ip4_to_ip6 (i4_dest h) (w_g w) = (Inr dest, g1)" "map_ip4_to_ip6 (i4_src h) g1 = (Inr src, g2)"
  shows "\<exists>w' fs ck. xlate_4to6_data p w = Some w' \<and> w_tx w' = w_tx w @ map (plain_frame w) fs
    \<and> fragments_of (header_4to6 h (p_data_proto p) (p_data_len p) src dest) (p_data_proto p)
        (htonl (ucast (ntohs (i4_ident h)))) (40 + unat (frag_limit (w_g w))) 0
        (i4_flags_offset h AND htons IP4_F_MF \<noteq> 0)
        (with_field (pkt_payload (w_mem w) p) (csum_off (p_data_proto p)) ck) fs
    \<and> valid6 src dest (p_data_proto p) (with_field (pkt_payload (w_mem w) p) (csum_off (p_data_proto p)) ck @ rest)"
proof -
  let ?w2 = "w\<lparr>w_g := g2\<rparr>"
  let ?P = "p_data_proto p" and ?off = "csum_off (p_data_proto p)"
  let ?h6 = "header_4to6 h ?P (p_data_len p) src dest"
  have "conf g2 = conf (w_g w)"
    using conf_map4 [of "i4_dest h" "w_g w"] conf_map4 [of "i4_src h" g1] map by simp
  then have ok2: "segment_ok4 p rest ?w2" by (rule segment_ok4_conf [OF seg])
  note sp = segment_ok4_fits [OF ok2]
  obtain v where pay: "xlate_payload_4to6 p ?h6 False ?w2 = (ERROR_NONE, p, put16 (p_data p + ?off) v ?w2)"
    and val: "valid6 (i6_src ?h6) (i6_dest ?h6) ?P (wire_seg (st16 (w_mem ?w2) (p_data p + ?off) v) p @ rest)"
    using payload_4to6_segment [OF ok2, of ?h6] first h by auto
  let ?w3 = "put16 (p_data p + ?off) v ?w2"
  have x: "xlate_4to6_data p w = send_fragments6 ?h6 (frag_limit (w_g w)) (ntohs (i4_flags_offset h)) p ?w3"
    using xlate_4to6_data_mapped [OF h map _ refl, of p ?w3] pay sp(3) long by auto
  obtain q w4 where c: "complete_csum6 ?h6 p ?w3 = (q, w4)" by fastforce
  have ps: "payload_only p ?w2 p ?w3" by (rule payload_only_put [OF sp(2)])
  obtain ck where o: "payload_only p ?w3 q w4"
    and bs: "pkt_payload (w_mem w4) q = with_field (pkt_payload (w_mem w) p) ?off ck"
    and v6: "valid6 (i6_src ?h6) (i6_dest ?h6) ?P (with_field (pkt_payload (w_mem w) p) ?off ck @ rest)"
    using complete_csum6_seg [OF ok2 c, of "pkt_payload (w_mem w) p"] val wire_seg_put [OF sp(2), of "w_mem w" v] by auto
  have ip4: "ld_ip4 (w_mem ?w3) (p_ip4 p) = h" using payload_only_ld_ip4 [OF ps room] h by simp
  note lim = frag_limit_bounds [OF mtu]
  have "unat (frag_limit (w_g w)) \<le> 65535" using lim(2) unat_u16_le [of "g_mtu (w_g w)"] by simp
  then obtain w' fs where s: "send_fragments6 ?h6 (frag_limit (w_g w)) (ntohs (i4_flags_offset h)) p ?w3 = Some w'"
    "w_tx w' = w_tx ?w3 @ map (plain_frame ?w3) fs"
    "fragments_of ?h6 (i6_next_header ?h6) (htonl (ucast (ntohs (i4_ident h)))) (40 + unat (frag_limit (w_g w))) 0
      (i4_flags_offset h AND htons IP4_F_MF \<noteq> 0) (pkt_payload (w_mem w4) q) fs"
    using send_fragments6_sends [OF c o, of "frag_limit (w_g w)" "ntohs (i4_flags_offset h)"] dev lim(1) room len first ip4
    by (auto simp: vnet_ok_def)
  have "map (plain_frame ?w3) fs = map (plain_frame w) fs" by (simp add: plain_frame_def fun_eq_iff)
  with x s v6 bs show ?thesis by (auto simp: header_4to6_def)
qed

text \<open>What later bytes do to a checksum that was right without them.\<close>

lemma hsum_htonl_len:
  assumes "n < 65536"
  shows "hsum (htonl (word_of_nat n)) mod 65535 = 256 * n mod 65535"
proof -
  let ?w = "word_of_nat n :: u32"
  have n: "unat ?w = n" using assms by (simp add: unsigned_of_nat take_bit_nat_eq_self)
  have "unat (drop_bit 16 ?w) = drop_bit 16 (take_bit 32 n)" by (simp only: unsigned_drop_bit_eq n) simp
  then have "unat (drop_bit 16 ?w) = 0" using assms by (simp only: drop_bit_eq_div take_bit_eq_mod) simp
  then have d: "drop_bit 16 ?w = 0" by (simp only: unat_eq_zero)
  have "(0xffff :: u32) = mask 16" by (simp add: mask_eq_exp_minus_1)
  then have "unat (?w AND 0xffff) = n mod 2 ^ 16" by (simp only: unat_and_mask n)
  then have "unat (be_halves (htonl ?w)) = n" using assms d by (simp add: be_halves_htonl)
  then have "oceq (int n) (256 * int (hsum (htonl ?w)))" using oceq_be_halves [of "htonl ?w"] by simp
  then have "(256 * int n) mod 65535 = (256 * (256 * int (hsum (htonl ?w)))) mod 65535"
    unfolding oceq_def mod_eq_dvd_iff [symmetric] by (rule mod_mult_cong [OF refl])
  also have "\<dots> = int (hsum (htonl ?w)) mod 65535"
  proof -
    have "256 * (256 * int (hsum (htonl ?w))) = int (hsum (htonl ?w)) + 65535 * int (hsum (htonl ?w))" by simp
    then show ?thesis by (simp only: mod_mult_self2)
  qed
  finally have "int (256 * n mod 65535) = int (hsum (htonl ?w) mod 65535)" by (simp only: of_nat_mod of_nat_mult of_nat_numeral)
  then show ?thesis by simp
qed

lemma valid6_extend:
  assumes v: "valid6 src dest proto x" and x: "even (length x)" and l: "length x + length rest < 65536"
  shows "valid6 src dest proto (x @ rest) \<longleftrightarrow> (sum16 rest + 256 * length rest) mod 65535 = 0"
proof -
  let ?c = "sum_list (map hsum (in6_words src @ in6_words dest)) + unat (htons (ucast proto))"
  have e: "valid6 src dest proto seg \<longleftrightarrow> (sum16 seg + ?c + 256 * length seg) mod 65535 = 0" if "length seg < 65536" for seg
  proof -
    have "sum16 seg + pseudo6 src dest (word_of_nat (length seg)) proto = sum16 seg + ?c + hsum (htonl (word_of_nat (length seg)))"
      by (simp add: pseudo6_def)
    then show ?thesis unfolding valid6_def using mod_add_cong [OF refl hsum_htonl_len [OF that], of "sum16 seg + ?c"] by (simp only:)
  qed
  have "valid6 src dest proto (x @ rest) \<longleftrightarrow> ((sum16 x + ?c + 256 * length x) + (sum16 rest + 256 * length rest)) mod 65535 = 0"
    using l by (simp only: e length_append sum16_append [OF x]) (simp add: algebra_simps)
  moreover have "(sum16 x + ?c + 256 * length x) mod 65535 = 0" using v l by (simp only: e)
  ultimately show ?thesis by (metis mod_add_left_eq add_0)
qed

text \<open>
  A first fragment of a UDP datagram without a checksum: the one that \<open>udp-cksum-mode calc\<close> computes
  is that of the fragment alone, so with the later fragments \<open>rest\<close> it is right only by accident.
\<close>

lemma udp_calc_first_fragment:
  assumes "vnet_ok w" "w_io w = []" "big_mtu (w_g w)" "p_ip4 p + 20 \<le> p_data p" "h = ld_ip4 (w_mem w) (p_ip4 p)"
    and udp: "\<not> needs_csum p" "udp_no_csum (w_mem w) p" "g_udp_cksum_mode (w_g w) = UDP_CKSUM_CALC"
    and first: "ntohs (i4_flags_offset h) AND IP4_F_MASK = 0" "ntohs (i4_flags_offset h) AND IP4_F_MF \<noteq> 0"
    and len: "8 \<le> unat (p_data_len p)" "even (unat (p_data_len p))" "unat (p_data_len p) \<le> 65535"
    and map: "map_ip4_to_ip6 (i4_dest h) (w_g w) = (Inr dest, g1)" "map_ip4_to_ip6 (i4_src h) g1 = (Inr src, g2)"
  shows "\<exists>w' fs ck. xlate_4to6_data p w = Some w' \<and> w_tx w' = w_tx w @ map (plain_frame w) fs
    \<and> fragments_of (header_4to6 h 17 (p_data_len p) src dest) 17 (htonl (ucast (ntohs (i4_ident h))))
        (40 + unat (frag_limit (w_g w))) 0 (i4_flags_offset h AND htons IP4_F_MF \<noteq> 0)
        (with_field (pkt_payload (w_mem w) p) 6 ck) fs
    \<and> (\<forall>rest. unat (p_data_len p) + length rest < 65536 \<longrightarrow>
        valid6 src dest 17 (with_field (pkt_payload (w_mem w) p) 6 ck @ rest) =
          ((sum16 rest + 256 * length rest) mod 65535 = 0))"
proof -
  have p: "p_data_proto p = 17" "csum_off 17 = 6"
    using udp(2) by (simp_all add: udp_no_csum_def csum_off_def proto_defs)
  have seg: "segment_ok4 p [] w"
    using udp len(1) p(1) by (auto simp: segment_ok4_def plain_ok_def udp_no_csum_def csum_proto_def min_hdr_def proto_defs Let_def)
  have "\<not> (ntohs (i4_flags_offset h) AND (IP4_F_MASK OR IP4_F_MF) = 0
      \<and> (ntohs (i4_flags_offset h) AND IP4_F_DF \<noteq> 0 \<or> p_data_len p \<le> frag_limit (w_g w)))"
    using first(2) and_or_0(2) by blast
  from xlate_4to6_data_fragmented [OF assms(1-5) seg first(1) this len(3) map]
  obtain w' fs ck where x: "xlate_4to6_data p w = Some w' \<and> w_tx w' = w_tx w @ map (plain_frame w) fs
    \<and> fragments_of (header_4to6 h 17 (p_data_len p) src dest) 17 (htonl (ucast (ntohs (i4_ident h))))
        (40 + unat (frag_limit (w_g w))) 0 (i4_flags_offset h AND htons IP4_F_MF \<noteq> 0)
        (with_field (pkt_payload (w_mem w) p) 6 ck) fs"
    and v: "valid6 src dest 17 (with_field (pkt_payload (w_mem w) p) 6 ck)" unfolding p by auto
  have l: "length (with_field (pkt_payload (w_mem w) p) 6 ck) = unat (p_data_len p)"
    using len(1) by (simp add: pkt_payload_def)
  show ?thesis using x valid6_extend [OF v] l len(2) by auto
qed

text \<open>A later fragment.\<close>

lemma xlate_4to6_data_later:
  assumes dev: "vnet_ok w" "w_io w = []" and mtu: "big_mtu (w_g w)" and room: "p_ip4 p + 20 \<le> p_data p"
    and h: "h = ld_ip4 (w_mem w) (p_ip4 p)" and later: "ntohs (i4_flags_offset h) AND IP4_F_MASK \<noteq> 0"
    and plain: "\<not> needs_csum p" "p_data_proto p \<noteq> 1"
    and len: "8 * unat (ntohs (i4_flags_offset h) AND IP4_F_MASK) + unat (p_data_len p) \<le> 65535"
    and map: "map_ip4_to_ip6 (i4_dest h) (w_g w) = (Inr dest, g1)" "map_ip4_to_ip6 (i4_src h) g1 = (Inr src, g2)"
  shows "\<exists>w' fs. xlate_4to6_data p w = Some w' \<and> w_tx w' = w_tx w @ map (plain_frame w) fs
    \<and> fragments_of (header_4to6 h (p_data_proto p) (p_data_len p) src dest) (p_data_proto p)
        (htonl (ucast (ntohs (i4_ident h)))) (40 + unat (frag_limit (w_g w)))
        (8 * unat (ntohs (i4_flags_offset h) AND IP4_F_MASK)) (i4_flags_offset h AND htons IP4_F_MF \<noteq> 0)
        (pkt_payload (w_mem w) p) fs"
proof -
  let ?w2 = "w\<lparr>w_g := g2\<rparr>"
  let ?h6 = "header_4to6 h (p_data_proto p) (p_data_len p) src dest"
  have nz: "ntohs (i4_flags_offset h) AND (IP4_F_MASK OR IP4_F_MF) \<noteq> 0" using later and_or_0(1) by blast
  have pay: "xlate_payload_4to6 p ?h6 False ?w2 = (ERROR_NONE, p, ?w2)"
    using later plain h by (simp add: xlate_payload_4to6_def Let_def)
  have x: "xlate_4to6_data p w = send_fragments6 ?h6 (frag_limit (w_g w)) (ntohs (i4_flags_offset h)) p ?w2"
    using xlate_4to6_data_mapped [OF h map _ refl, of p ?w2] pay plain(2) nz by simp
  have c: "complete_csum6 ?h6 p ?w2 = (p, ?w2)" using plain(1) by (simp add: complete_csum6_def)
  note lim = frag_limit_bounds [OF mtu]
  have "unat (frag_limit (w_g w)) \<le> 65535" using lim(2) unat_u16_le [of "g_mtu (w_g w)"] by simp
  then obtain w' fs where s: "send_fragments6 ?h6 (frag_limit (w_g w)) (ntohs (i4_flags_offset h)) p ?w2 = Some w'"
    "w_tx w' = w_tx ?w2 @ map (plain_frame ?w2) fs"
    "fragments_of ?h6 (i6_next_header ?h6) (htonl (ucast (ntohs (i4_ident h)))) (40 + unat (frag_limit (w_g w)))
      (8 * unat (ntohs (i4_flags_offset h) AND IP4_F_MASK)) (i4_flags_offset h AND htons IP4_F_MF \<noteq> 0)
      (pkt_payload (w_mem ?w2) p) fs"
    using send_fragments6_sends [OF c payload_only_refl, of "frag_limit (w_g w)" "ntohs (i4_flags_offset h)"] dev lim(1) room len h
    by (auto simp: vnet_ok_def)
  have "map (plain_frame ?w2) fs = map (plain_frame w) fs" by (simp add: plain_frame_def fun_eq_iff)
  with x s show ?thesis by (auto simp: header_4to6_def)
qed

end
