(* ===== verification/Forward6.thy ===== *)
theory Forward6
  imports Forward
begin

text \<open>
  The same for \<open>xlate_6to4_data\<close>: one IPv4 packet, whose header checksum verifies, with the
  identification and the fragment fields of the received packet.
\<close>

section \<open>Segments\<close>

text \<open>The offset and flags of the fragment header, zero without one.\<close>

definition frag_bits :: "mem \<Rightarrow> pkt \<Rightarrow> u16" where
  "frag_bits m p = (case frag_of m p of Some fr \<Rightarrow> ntohs (fr_offset_flags fr) | None \<Rightarrow> 0)"

lemma frag_bits_Some: "frag_of m p = Some fr \<Longrightarrow> ntohs (fr_offset_flags fr) = frag_bits m p"
  by (simp add: frag_bits_def)

definition segment_ok6 :: "pkt \<Rightarrow> u8 list \<Rightarrow> world \<Rightarrow> bool" where
  "segment_ok6 p rest w \<longleftrightarrow> (let h = ld_ip6 (w_mem w) (p_ip6 p) in
     if needs_csum p then
       offload_ok p (40 + p_header_len p) (total6 (w_mem w) p) w \<and> rest = []
       \<and> frag_bits (w_mem w) p AND (IP6_F_MASK OR IP6_F_MF) = 0
     else plain_ok p w \<and> (if udp_no_csum (w_mem w) p then rest = []
        else valid6 (i6_src h) (i6_dest h) (p_data_proto p) (pkt_payload (w_mem w) p @ rest)))"

lemma segment_ok6_fits:
  assumes "segment_ok6 p rest w"
  shows "csum_proto (p_data_proto p)" "csum_off (p_data_proto p) + 2 \<le> unat (p_data_len p)" "p_data_proto p \<noteq> 58"
    "needs_csum p \<Longrightarrow> w_vnet w \<noteq> 0 \<and> (p_data_proto p = IPPROTO_TCP \<or> p_data_proto p = IPPROTO_UDP)"
proof -
  have d: "offload_ok p (40 + p_header_len p) (total6 (w_mem w) p) w \<or> \<not> needs_csum p \<and> plain_ok p w"
    using assms unfolding segment_ok6_def Let_def by presburger
  show c: "csum_proto (p_data_proto p)" using d offload_ok_fits(1) plain_ok_fits(1) by blast
  show "csum_off (p_data_proto p) + 2 \<le> unat (p_data_len p)" using d offload_ok_fits(2) plain_ok_fits(2) by blast
  show "w_vnet w \<noteq> 0 \<and> (p_data_proto p = IPPROTO_TCP \<or> p_data_proto p = IPPROTO_UDP)" if "needs_csum p"
    using d that offload_ok_fits(4,5) by blast
  show "p_data_proto p \<noteq> 58" using c by (auto simp: csum_proto_def proto_defs)
qed

text \<open>The mappings and the identification counter do not matter.\<close>

lemma segment_ok6_conf:
  assumes "segment_ok6 p rest w" "conf g = conf (w_g w)"
  shows "segment_ok6 p rest (w\<lparr>w_g := g, w_ident := n\<rparr>)"
  using assms by (auto simp: segment_ok6_def offload_ok_def plain_ok_def conf_def Let_def split: if_splits)

lemma payload_6to4_segment:
  assumes ok: "segment_ok6 p rest w" and first: "frag_bits (w_mem w) p AND IP6_F_MASK = 0"
    and len: "unat (p_data_len p) < 65536"
  shows "\<exists>v. xlate_payload_6to4 p h4 False w = (ERROR_NONE, p, put16 (p_data p + csum_off (p_data_proto p)) v w)
    \<and> valid4 (i4_src h4) (i4_dest h4) (p_data_proto p)
        (wire_seg (st16 (w_mem w) (p_data p + csum_off (p_data_proto p)) v) p @ rest)"
proof -
  note sp = segment_ok6_fits [OF ok]
  have first': "ntohs (fr_offset_flags fr) AND IP6_F_MASK = 0" if "frag_of (w_mem w) p = Some fr" for fr
    using first unfolding frag_bits_Some [OF that] .
  have whole: "ntohs (fr_offset_flags fr) AND (IP6_F_MASK OR IP6_F_MF) = 0"
    if "frag_of (w_mem w) p = Some fr" "needs_csum p" for fr
    using ok that(2) unfolding frag_bits_Some [OF that(1)] by (simp add: segment_ok6_def Let_def)
  obtain v where pay: "xlate_payload_6to4 p h4 False w = (ERROR_NONE, p, put16 (p_data p + csum_off (p_data_proto p)) v w)"
  proof (cases "needs_csum p")
    case True
    then have "offload_ok p (40 + p_header_len p) (total6 (w_mem w) p) w" using ok by (simp add: segment_ok6_def Let_def)
    then show ?thesis using payload_6to4_offloaded [of p w h4] whole True first' that by blast
  next
    case False
    then have "plain_ok p w" using ok by (simp add: segment_ok6_def Let_def)
    then show ?thesis using payload_6to4_plain [of p w h4] first' that by blast
  qed
  have c: "g_udp_cksum_mode (w_g w) \<noteq> UDP_CKSUM_FWD" if "\<not> needs_csum p" "udp_no_csum (w_mem w) p"
    using ok that by (auto simp: segment_ok6_def plain_ok_def udp_no_csum_def Let_def)
  have r: "rest = []" if "needs_csum p \<or> udp_no_csum (w_mem w) p"
    using ok that by (auto simp: segment_ok6_def Let_def split: if_splits)
  have "valid4 (i4_src h4) (i4_dest h4) (p_data_proto p)
      (wire_seg (w_mem (put16 (p_data p + csum_off (p_data_proto p)) v w)) p @ rest)"
    by (rule payload_6to4_valid [OF pay refl first' sp(1) len])
      (use c r ok in \<open>auto simp: segment_ok6_def Let_def split: if_splits\<close>)
  then show ?thesis using pay by auto
qed

section \<open>The header\<close>

text \<open>
  The identification and the flags: from the fragment header, or from the counter for a packet
  that IPv6 could not have fragmented further, and DF for a longer one.
\<close>

definition ident_6to4 :: "pkt \<Rightarrow> world \<Rightarrow> u16 \<times> u16" where
  "ident_6to4 p w =
     (case frag_of (w_mem w) p of
        Some fr \<Rightarrow>
          (htons (ucast (ntohl (fr_ident fr))),
           htons (drop_bit 3 (ntohs (fr_offset_flags fr)) OR (if ntohs (fr_offset_flags fr) AND IP6_F_MF \<noteq> 0 then IP4_F_MF else 0)))
      | None \<Rightarrow> if unat (p_data_len p) \<le> 1240 then (htons (w_ident w), 0) else (0, htons IP4_F_DF))"

definition header_6to4 :: "ip6 \<Rightarrow> u8 \<Rightarrow> u32 \<Rightarrow> u16 \<times> u16 \<Rightarrow> in_addr \<Rightarrow> in_addr \<Rightarrow> ip4" where
  "header_6to4 h proto len ids src dest =
     (let h4 = \<lparr>i4_ver_ihl = 0x45, i4_tos = ucast (drop_bit 20 (ntohl (i6_ver_tc_fl h))),
          i4_length = htons (ucast (20 + len)), i4_ident = fst ids, i4_flags_offset = snd ids,
          i4_ttl = i6_hop_limit h - 1, i4_proto = proto, i4_cksum = 0, i4_src = src, i4_dest = dest\<rparr>
      in h4\<lparr>i4_cksum := ip4_header_checksum h4\<rparr>)"

lemma bswap16_and_0: "bswap16 x AND bswap16 y = 0 \<longleftrightarrow> x AND y = 0"
  by (simp flip: bswap16_and)

lemma bit_IP4_F: "bit IP4_F_DF n \<longleftrightarrow> n = 14" "bit IP4_F_MF n \<longleftrightarrow> n = 13"
proof -
  have k: "IP4_F_DF = push_bit 14 1" "IP4_F_MF = push_bit 13 1" by (simp_all add: IP4_F_DF_def IP4_F_MF_def)
  show "bit IP4_F_DF n \<longleftrightarrow> n = 14" "bit IP4_F_MF n \<longleftrightarrow> n = 13"
    unfolding k bit_push_bit_iff bit_1_iff by auto
qed

lemma and_not_disjoint: "x AND y = 0 \<Longrightarrow> x AND NOT y = (x :: 'a::len word)"
  by (rule bit_word_eqI) (metis bit_0_eq bit_and_iff bit_not_iff bot_apply bot_bool_def impossible_bit)

lemma frag_fields_6to4:
  fixes o1 :: u16
  shows "(if o1 AND htons IP6_F_MF \<noteq> 0 then htons (drop_bit 3 (ntohs o1)) OR htons IP4_F_MF else htons (drop_bit 3 (ntohs o1)))
      AND NOT (htons IP4_F_DF)
    = htons (drop_bit 3 (ntohs o1) OR (if ntohs o1 AND IP6_F_MF \<noteq> 0 then IP4_F_MF else 0))"
proof -
  have c: "o1 AND htons IP6_F_MF \<noteq> 0 \<longleftrightarrow> ntohs o1 AND IP6_F_MF \<noteq> 0"
    using bswap16_and_0 [of "ntohs o1" IP6_F_MF] by simp
  have "htons (drop_bit 3 x OR y) AND NOT (htons IP4_F_DF) = htons (drop_bit 3 x OR y)"
    if "y = 0 \<or> y = IP4_F_MF" for x y :: u16
  proof -
    have "(drop_bit 3 x OR y) AND IP4_F_DF = 0"
      using that by (intro bit_word_eqI)
        (auto simp: bit_and_iff bit_or_iff bit_drop_bit_eq bit_IP4_F dest: bit_imp_le_length)
    then show ?thesis by (intro and_not_disjoint) (simp add: bswap16_and_0)
  qed
  note d = this
  have o: "htons x OR htons y = htons (x OR y)" for x y :: u16
    by (rule bit_word_eqI) (auto simp: bit_bswap16 bit_or_iff)
  show ?thesis
    unfolding c using d [of 0 "ntohs o1"] d [of IP4_F_MF "ntohs o1"] by (auto simp: o)
qed

lemma low_bits:
  "ucast (x AND 0xff :: u32) = (ucast x :: u8)" "ucast (x AND 0xffff :: u32) = (ucast x :: u16)"
proof -
  have m: "(0xff :: u32) = mask 8" "(0xffff :: u32) = mask 16" by (simp_all add: mask_eq_exp_minus_1)
  show "ucast (x AND 0xff :: u32) = (ucast x :: u8)" "ucast (x AND 0xffff :: u32) = (ucast x :: u16)"
    unfolding m by (rule bit_word_eqI, auto simp: bit_ucast_iff bit_and_iff bit_mask_iff)+
qed

lemma short_6to4: "unat (n :: u32) < 65536 \<Longrightarrow> 20 + n \<le> 1260 \<longleftrightarrow> unat n \<le> 1240"
  by (simp add: word_le_nat_alt unat_word_ariths)

lemma xlate_header_6to4_eq:
  assumes "xlate_header_6to4 p (ip4_new src dest) (p_data_len p) w = (h, w')" "unat (p_data_len p) < 65536"
  shows "(h\<lparr>i4_ttl := i4_ttl h - 1\<rparr>)\<lparr>i4_cksum := ip4_header_checksum (h\<lparr>i4_ttl := i4_ttl h - 1\<rparr>)\<rparr>
      = header_6to4 (ld_ip6 (w_mem w) (p_ip6 p)) (if p_data_proto p = 58 then 1 else p_data_proto p) (p_data_len p)
          (ident_6to4 p w) src dest"
    and "\<exists>n. w' = w\<lparr>w_ident := n\<rparr>"
proof -
  let ?h = "ld_ip6 (w_mem w) (p_ip6 p)"
  have h: "h\<lparr>i4_ttl := i4_ttl h - 1\<rparr> = \<lparr>i4_ver_ihl = 0x45, i4_tos = ucast (drop_bit 20 (ntohl (i6_ver_tc_fl ?h))),
        i4_length = htons (ucast (20 + p_data_len p)), i4_ident = fst (ident_6to4 p w),
        i4_flags_offset = snd (ident_6to4 p w), i4_ttl = i6_hop_limit ?h - 1,
        i4_proto = if p_data_proto p = 58 then 1 else p_data_proto p, i4_cksum = 0, i4_src = src, i4_dest = dest\<rparr>
      \<and> (\<exists>n. w' = w\<lparr>w_ident := n\<rparr>)"
  proof (cases "frag_of (w_mem w) p")
    case None
    then show ?thesis using assms(1)
      by (auto simp: xlate_header_6to4_def ip4_new_def ident_6to4_def next_ip4_ident_def reserve_ip4_ident_def
          Let_def low_bits short_6to4 [OF assms(2)] intro: exI [of _ "w_ident w"] split: if_splits)
  next
    case (Some fr)
    then show ?thesis using assms(1) frag_fields_6to4 [of "fr_offset_flags fr"]
      by (auto simp: xlate_header_6to4_def ip4_new_def ident_6to4_def Let_def low_bits intro: exI [of _ "w_ident w"])
  qed
  then show "(h\<lparr>i4_ttl := i4_ttl h - 1\<rparr>)\<lparr>i4_cksum := ip4_header_checksum (h\<lparr>i4_ttl := i4_ttl h - 1\<rparr>)\<rparr>
      = header_6to4 ?h (if p_data_proto p = 58 then 1 else p_data_proto p) (p_data_len p) (ident_6to4 p w) src dest"
    and "\<exists>n. w' = w\<lparr>w_ident := n\<rparr>"
    by (simp_all add: header_6to4_def Let_def)
qed

lemma header_6to4_sealed: "ip_checksum (ip4_bytes (header_6to4 h proto len ids src dest)) = 0"
  unfolding header_6to4_def Let_def
  using ip4_header_sealed [of "\<lparr>i4_ver_ihl = 0x45, i4_tos = ucast (drop_bit 20 (ntohl (i6_ver_tc_fl h))),
      i4_length = htons (ucast (20 + len)), i4_ident = fst ids, i4_flags_offset = snd ids,
      i4_ttl = i6_hop_limit h - 1, i4_proto = proto, i4_cksum = 0, i4_src = src, i4_dest = dest\<rparr>"]
  by simp

lemma header_6to4_addr [simp]:
  "i4_src (header_6to4 h proto len ids src dest) = src" "i4_dest (header_6to4 h proto len ids src dest) = dest"
  by (simp_all add: header_6to4_def Let_def)

section \<open>The packet\<close>

lemma xlate_6to4_data_mapped:
  assumes h: "h = ld_ip6 (w_mem w) (p_ip6 p)"
    and map: "map_ip6_to_ip4 (i6_dest h) False (w_g w) = (Inr dest, g1)" "map_ip6_to_ip4 (i6_src h) True g1 = (Inr src, g2)"
    and fit: "40 + unat (p_data_len p) \<le> unat (g_mtu (w_g w))"
  shows "\<exists>n h0. xlate_6to4_data p w =
      (case xlate_payload_6to4 p h0 False (w\<lparr>w_g := g2, w_ident := n\<rparr>) of
         (e, p, w) \<Rightarrow> if e \<noteq> ERROR_NONE then w else send_whole4 (h0\<lparr>i4_cksum := ip4_header_checksum h0\<rparr>) p w)
    \<and> h0\<lparr>i4_cksum := ip4_header_checksum h0\<rparr> = header_6to4 h (if p_data_proto p = 58 then 1 else p_data_proto p)
          (p_data_len p) (ident_6to4 p w) src dest
    \<and> i4_src h0 = src \<and> i4_dest h0 = dest"
proof -
  have m1: "with_g (map_ip6_to_ip4 (i6_dest h) False) w = (Inr dest, w\<lparr>w_g := g1\<rparr>)"
    and m2: "with_g (map_ip6_to_ip4 (i6_src h) True) (w\<lparr>w_g := g1\<rparr>) = (Inr src, w\<lparr>w_g := g2\<rparr>)"
    using map by (simp_all add: with_g_def)
  have f: "\<not> 40 + unat (p_data_len p) > unat (ucast (g_mtu (w_g w)) :: u32)" using fit by simp
  have len: "unat (p_data_len p) < 65536" using fit unat_u16_le [of "g_mtu (w_g w)"] by simp
  obtain h1 w1 where x: "xlate_header_6to4 p (ip4_new src dest) (p_data_len p) (w\<lparr>w_g := g2\<rparr>) = (h1, w1)" by fastforce
  note e = xlate_header_6to4_eq [OF x len]
  obtain n where w1: "w1 = w\<lparr>w_g := g2, w_ident := n\<rparr>" using e(2) by auto
  let ?h0 = "h1\<lparr>i4_ttl := i4_ttl h1 - 1\<rparr>"
  have i: "ident_6to4 p (w\<lparr>w_g := g2\<rparr>) = ident_6to4 p w" by (simp add: ident_6to4_def split: option.split)
  have hd: "?h0\<lparr>i4_cksum := ip4_header_checksum ?h0\<rparr> = header_6to4 h (if p_data_proto p = 58 then 1 else p_data_proto p)
      (p_data_len p) (ident_6to4 p w) src dest"
    using e(1) unfolding i by (simp add: h)
  have "i4_src ?h0 = src" "i4_dest ?h0 = dest"
    using arg_cong [OF hd, of i4_src] arg_cong [OF hd, of i4_dest] by simp_all
  moreover have "xlate_6to4_data p w =
      (case xlate_payload_6to4 p ?h0 False w1 of
         (e, p, w) \<Rightarrow> if e \<noteq> ERROR_NONE then w else send_whole4 (?h0\<lparr>i4_cksum := ip4_header_checksum ?h0\<rparr>) p w)"
    unfolding xlate_6to4_data_def Let_def h [symmetric] m1 m2 prod.case sum.case if_not_P [OF f] x ..
  ultimately show ?thesis using hd unfolding w1 by blast
qed

lemma xlate_6to4_data_whole:
  assumes dev: "vnet_ok w" "w_io w = []" and room: "52 \<le> p_data p"
    and h: "h = ld_ip6 (w_mem w) (p_ip6 p)" and seg: "segment_ok6 p rest w"
    and first: "frag_bits (w_mem w) p AND IP6_F_MASK = 0"
    and fit: "40 + unat (p_data_len p) \<le> unat (g_mtu (w_g w))"
    and map: "map_ip6_to_ip4 (i6_dest h) False (w_g w) = (Inr dest, g1)" "map_ip6_to_ip4 (i6_src h) True g1 = (Inr src, g2)"
  shows "\<exists>frame ck. w_tx (xlate_6to4_data p w) = w_tx w @ [frame]
    \<and> wire_packet (w_vnet w) frame = ip4_bytes (header_6to4 h (p_data_proto p) (p_data_len p) (ident_6to4 p w) src dest)
        @ with_field (pkt_payload (w_mem w) p) (csum_off (p_data_proto p)) ck
    \<and> valid4 src dest (p_data_proto p) (with_field (pkt_payload (w_mem w) p) (csum_off (p_data_proto p)) ck @ rest)"
proof -
  let ?P = "p_data_proto p" and ?off = "csum_off (p_data_proto p)"
  let ?hdr = "header_6to4 h ?P (p_data_len p) (ident_6to4 p w) src dest"
  have len: "unat (p_data_len p) < 65536" using fit unat_u16_le [of "g_mtu (w_g w)"] by simp
  note sp = segment_ok6_fits [OF seg]
  obtain n h0 where x: "xlate_6to4_data p w = (case xlate_payload_6to4 p h0 False (w\<lparr>w_g := g2, w_ident := n\<rparr>) of
         (e, p, w) \<Rightarrow> if e \<noteq> ERROR_NONE then w else send_whole4 (h0\<lparr>i4_cksum := ip4_header_checksum h0\<rparr>) p w)"
    and h0: "h0\<lparr>i4_cksum := ip4_header_checksum h0\<rparr> = ?hdr" "i4_src h0 = src" "i4_dest h0 = dest"
    using xlate_6to4_data_mapped [OF h map fit] sp(3) by auto
  let ?w2 = "w\<lparr>w_g := g2, w_ident := n\<rparr>"
  have "conf g2 = conf (w_g w)"
    using conf_map6 [of "i6_dest h" False "w_g w"] conf_map6 [of "i6_src h" True g1] map by simp
  then have ok2: "segment_ok6 p rest ?w2" by (rule segment_ok6_conf [OF seg])
  obtain v where pay: "xlate_payload_6to4 p h0 False ?w2 = (ERROR_NONE, p, put16 (p_data p + ?off) v ?w2)"
    and val: "valid4 src dest ?P (wire_seg (st16 (w_mem ?w2) (p_data p + ?off) v) p @ rest)"
    using payload_6to4_segment [OF ok2 _ len, of h0] first h0 by auto
  let ?w3 = "put16 (p_data p + ?off) v ?w2"
  have x': "xlate_6to4_data p w = send_whole4 ?hdr p ?w3" unfolding x pay prod.case h0(1) by simp
  obtain ck where ck: "wire_seg (w_mem ?w3) p = with_field (pkt_payload (w_mem w) p) ?off ck"
    using wire_seg_put [OF sp(2), of "w_mem w" v] by auto
  have tx: "w_tx (send_whole4 ?hdr p ?w3) = w_tx w @ [inplace_hdr (out_vhdr p 20) ?w3 @ ip4_bytes ?hdr @ pkt_payload (w_mem ?w3) p]"
    by (subst send_whole4_frame) (use dev room in \<open>simp_all add: vnet_ok_def\<close>)
  have "wire_packet (w_vnet ?w3) (inplace_hdr (out_vhdr p 20) ?w3 @ ip4_bytes ?hdr @ pkt_payload (w_mem ?w3) p)
      = ip4_bytes ?hdr @ wire_seg (w_mem ?w3) p"
    by (rule wire_out) (use dev sp in \<open>simp_all add: vnet_ok_def\<close>)
  then show ?thesis using x' tx val ck by auto
qed

text \<open>Packets whose segment is not checksummed with the header: later fragments and echo messages.\<close>

lemma send_whole4_plain:
  assumes "vnet_ok w" "w_io w = []" "52 \<le> p_data p"
    "\<not> needs_csum p \<or> p_data_proto p \<noteq> IPPROTO_TCP \<and> p_data_proto p \<noteq> IPPROTO_UDP"
  shows "\<exists>frame. w_tx (send_whole4 h p w) = w_tx w @ [frame]
    \<and> wire_packet (w_vnet w) frame = ip4_bytes h @ pkt_payload (w_mem w) p"
proof -
  have "out_vhdr p 20 = None" using assms(4) by (auto simp: out_vhdr_def)
  then show ?thesis using send_whole4_frame [OF assms(1-3), of h] wire_plain(1) [OF assms(1)] by auto
qed

lemma xlate_6to4_data_later:
  assumes dev: "vnet_ok w" "w_io w = []" and room: "52 \<le> p_data p"
    and h: "h = ld_ip6 (w_mem w) (p_ip6 p)"
    and later: "frag_bits (w_mem w) p AND IP6_F_MASK \<noteq> 0" and plain: "\<not> needs_csum p" "p_data_proto p \<noteq> 58"
    and fit: "40 + unat (p_data_len p) \<le> unat (g_mtu (w_g w))"
    and map: "map_ip6_to_ip4 (i6_dest h) False (w_g w) = (Inr dest, g1)" "map_ip6_to_ip4 (i6_src h) True g1 = (Inr src, g2)"
  shows "\<exists>frame. w_tx (xlate_6to4_data p w) = w_tx w @ [frame]
    \<and> wire_packet (w_vnet w) frame
        = ip4_bytes (header_6to4 h (p_data_proto p) (p_data_len p) (ident_6to4 p w) src dest) @ pkt_payload (w_mem w) p"
proof -
  let ?hdr = "header_6to4 h (p_data_proto p) (p_data_len p) (ident_6to4 p w) src dest"
  obtain n h0 where x: "xlate_6to4_data p w = (case xlate_payload_6to4 p h0 False (w\<lparr>w_g := g2, w_ident := n\<rparr>) of
         (e, p, w) \<Rightarrow> if e \<noteq> ERROR_NONE then w else send_whole4 (h0\<lparr>i4_cksum := ip4_header_checksum h0\<rparr>) p w)"
    and h0: "h0\<lparr>i4_cksum := ip4_header_checksum h0\<rparr> = ?hdr"
    using xlate_6to4_data_mapped [OF h map fit] plain(2) by auto
  let ?w2 = "w\<lparr>w_g := g2, w_ident := n\<rparr>"
  have "xlate_payload_6to4 p h0 False ?w2 = (ERROR_NONE, p, ?w2)"
    using later plain by (simp add: xlate_payload_6to4_def frag_bits_def Let_def)
  then have "xlate_6to4_data p w = send_whole4 ?hdr p ?w2" unfolding x h0 by simp
  then show ?thesis using send_whole4_plain [of ?w2 p ?hdr] dev room plain(1) by (auto simp: vnet_ok_def)
qed

lemma xlate_6to4_data_echo:
  assumes dev: "vnet_ok w" "w_io w = []" and room: "52 \<le> p_data p"
    and h: "h = ld_ip6 (w_mem w) (p_ip6 p)"
    and icmp: "p_data_proto p = 58" "p_icmp p = Some (p_data p)" "8 \<le> unat (p_data_len p)"
    and len: "ucast (ntohs (i6_payload_length h)) - p_header_len p = p_data_len p"
    and type: "w_mem w (p_data p) = 128 \<or> w_mem w (p_data p) = 129"
    and ok: "valid6 (i6_src h) (i6_dest h) 58 (pkt_payload (w_mem w) p)"
    and whole: "frag_bits (w_mem w) p AND (IP6_F_MASK OR IP6_F_MF) = 0"
    and fit: "40 + unat (p_data_len p) \<le> unat (g_mtu (w_g w))"
    and map: "map_ip6_to_ip4 (i6_dest h) False (w_g w) = (Inr dest, g1)" "map_ip6_to_ip4 (i6_src h) True g1 = (Inr src, g2)"
  shows "\<exists>frame ck. w_tx (xlate_6to4_data p w) = w_tx w @ [frame]
    \<and> wire_packet (w_vnet w) frame = ip4_bytes (header_6to4 h 1 (p_data_len p) (ident_6to4 p w) src dest)
        @ with_field (echo_6to4 (w_mem w (p_data p)) # tl (pkt_payload (w_mem w) p)) 2 ck
    \<and> ip_checksum (with_field (echo_6to4 (w_mem w (p_data p)) # tl (pkt_payload (w_mem w) p)) 2 ck) = 0"
proof -
  let ?hdr = "header_6to4 h 1 (p_data_len p) (ident_6to4 p w) src dest"
  obtain n h0 where x: "xlate_6to4_data p w = (case xlate_payload_6to4 p h0 False (w\<lparr>w_g := g2, w_ident := n\<rparr>) of
         (e, p, w) \<Rightarrow> if e \<noteq> ERROR_NONE then w else send_whole4 (h0\<lparr>i4_cksum := ip4_header_checksum h0\<rparr>) p w)"
    and h0: "h0\<lparr>i4_cksum := ip4_header_checksum h0\<rparr> = ?hdr"
    using xlate_6to4_data_mapped [OF h map fit] icmp(1) by auto
  let ?w2 = "w\<lparr>w_g := g2, w_ident := n\<rparr>"
  let ?w3 = "icmp_6to4 p ?w2"
  have "xlate_payload_6to4 p h0 False ?w2 = (ERROR_NONE, p, ?w3)"
    using whole and_or_0(1) [OF whole] icmp(1) by (simp add: xlate_payload_6to4_def frag_bits_def Let_def)
  then have x': "xlate_6to4_data p w = send_whole4 ?hdr p ?w3" unfolding x h0 by simp
  have l4: "4 \<le> unat (p_data_len p)" using icmp(3) by simp
  obtain v where mem: "w_mem ?w3 = st16 (store (w_mem w) (p_data p) [echo_6to4 (w_mem w (p_data p))]) (p_data p + 2) v"
    using icmp_6to4_mem [OF icmp(2), of ?w2] by auto
  have fr: "w_vnet ?w3 = w_vnet w" "w_io ?w3 = w_io w" "w_tx ?w3 = w_tx w"
    by (simp_all add: icmp_6to4_def Let_def)
  have seg: "pkt_payload (w_mem ?w3) p = with_field (echo_6to4 (w_mem w (p_data p)) # tl (pkt_payload (w_mem w) p)) 2 v"
    unfolding mem using icmp_payload_step(1) [OF l4] by simp
  have val: "ip_checksum (pkt_payload (w_mem ?w3) p) = 0"
    by (rule icmp_6to4_valid [OF icmp(2,3) refl]) (use len type ok h in simp_all)
  have np: "p_data_proto p \<noteq> IPPROTO_TCP \<and> p_data_proto p \<noteq> IPPROTO_UDP" using icmp(1) by (simp add: proto_defs)
  show ?thesis using send_whole4_plain [of ?w3 p ?hdr] dev room np x' val seg fr by (auto simp: vnet_ok_def)
qed

end
