(* ===== verification/Quote_Laws.thy ===== *)
theory Quote_Laws
  imports Forward6
begin

text \<open>
  What an ICMP error quotes: where the embedded packet starts, how much of it is kept, and which of
  its bytes the translation of the payload may change.
\<close>

section \<open>The bytes a payload translation changes\<close>

text \<open>The transport checksum, and the type of an echo message.\<close>

definition csum_field :: "u8 \<Rightarrow> nat set" where
  "csum_field proto = (if proto = 1 \<or> proto = 58 then {0, 2, 3} else {csum_off proto, csum_off proto + 1})"

definition quotes :: "mem \<Rightarrow> nat \<Rightarrow> nat \<Rightarrow> u8 \<Rightarrow> u8 list \<Rightarrow> bool" where
  "quotes m a n proto data \<longleftrightarrow> length data = n \<and> (\<forall>i<n. i \<notin> csum_field proto \<longrightarrow> data ! i = m (a + i))"

definition same_but :: "nat set \<Rightarrow> nat \<Rightarrow> world \<Rightarrow> world \<Rightarrow> bool" where
  "same_but S a w w' \<longleftrightarrow> (\<forall>i. i \<notin> S \<longrightarrow> w_mem w' (a + i) = w_mem w (a + i))"

lemma same_but_refl [simp]: "same_but S a w w"
  by (simp add: same_but_def)

lemma same_but_put: "same_but {off, off + 1} a w (put16 (a + off) v w)"
  unfolding same_but_def put16_def
proof (intro allI impI)
  fix i
  assume "i \<notin> {off, off + 1}"
  then have "a + i < a + off \<or> a + off + 2 \<le> a + i" by auto
  then show "w_mem (w\<lparr>w_mem := st16 (w_mem w) (a + off) v\<rparr>) (a + i) = w_mem w (a + i)" by (simp add: st16_other)
qed

lemma same_but_type: "same_but {0, 2, 3} a w (put16 (a + 2) v (w\<lparr>w_mem := store (w_mem w) a [t]\<rparr>))"
  unfolding same_but_def put16_def
proof (intro allI impI)
  fix i :: nat
  assume i: "i \<notin> {0, 2, 3}"
  then have "a + i < a + 2 \<or> a + 2 + 2 \<le> a + i" by auto
  then show "w_mem (w\<lparr>w_mem := store (w_mem w) a [t], w_mem := st16 (w_mem (w\<lparr>w_mem := store (w_mem w) a [t]\<rparr>)) (a + 2) v\<rparr>) (a + i)
      = w_mem w (a + i)" using i by (simp add: st16_other) (simp add: store_def)
qed

text \<open>Both directions end the same way.\<close>

lemma checksum_field_only:
  assumes "\<not> needs_csum p" "p_data_proto p \<noteq> 1" "p_data_proto p \<noteq> 58"
    and "(v, q, w') = (if p_data_proto p = 17 then u else if p_data_proto p = 6 then t
      else if p_data_proto p = IPPROTO_DCCP \<or> p_data_proto p = IPPROTO_UDPLITE then (lite_payload p em w, p, w)
      else (Done (if needs_csum p then ERROR_DROP else ERROR_NONE), p, w))"
    and "p_data_proto p = 17 \<Longrightarrow> fst (snd u) = p \<and> (snd (snd u) = w \<or> (\<exists>k. snd (snd u) = put16 (p_data p + 6) k w))"
    and "p_data_proto p = 6 \<Longrightarrow> snd t = (p, w)"
  shows "q = p \<and> same_but (csum_field (p_data_proto p)) (p_data p) w w'"
proof -
  have "same_but {6, 7} (p_data p) w (put16 (p_data p + 6) k w)" for k using same_but_put [of 6 "p_data p" w k] by simp
  then show ?thesis using assms by (auto simp: csum_field_def csum_off_def IPPROTO_TCP_def split: if_splits)
qed

lemma same_but_adjust: "same_but (csum_field proto) a w w' \<Longrightarrow> proto \<noteq> 1 \<Longrightarrow> proto \<noteq> 58
    \<Longrightarrow> same_but (csum_field proto) a w (put16 (a + csum_off proto) k w')"
  using same_but_put [of "csum_off proto" a w' k] by (simp add: csum_field_def same_but_def)

lemma payload_4to6_bytes:
  assumes "xlate_payload_4to6 p ip6 em w = (e, q, w')" "\<not> needs_csum p" "p_data_proto p \<noteq> 58"
    and "p_data_proto p = 1 \<Longrightarrow> p_icmp p = Some (p_data p)"
  shows "q = p" "same_but (csum_field (p_data_proto p)) (p_data p) w w'"
proof -
  let ?step = "if p_data_proto p = 17 then udp_4to6 p ip6 em w
    else if p_data_proto p = 6 then tcp_4to6 p ip6 em w
    else if p_data_proto p = IPPROTO_DCCP \<or> p_data_proto p = IPPROTO_UDPLITE then (lite_payload p em w, p, w)
    else (Done (if needs_csum p then ERROR_DROP else ERROR_NONE), p, w)"
  obtain v q1 w1 where st: "(v, q1, w1) = ?step" by (metis prod_cases3)
  have u: "fst (snd (udp_4to6 p ip6 em w)) = p
      \<and> (snd (snd (udp_4to6 p ip6 em w)) = w \<or> (\<exists>k. snd (snd (udp_4to6 p ip6 em w)) = put16 (p_data p + 6) k w))"
    using assms(2) by (auto simp: udp_4to6_def Let_def split: udp_cksum_mode.splits)
  have t: "snd (tcp_4to6 p ip6 em w) = (p, w)" using assms(2) by (simp add: tcp_4to6_def)
  have "q = p \<and> same_but (csum_field (p_data_proto p)) (p_data p) w w'"
  proof (cases "p_data_proto p = 1")
    case True
    then show ?thesis using assms(1,2,4) same_but_type
      by (auto simp: xlate_payload_4to6_def icmp_4to6_def icmp_ptr_def csum_field_def Let_def split: if_splits)
  next
    case False
    note c = checksum_field_only [OF assms(2) False assms(3) st u t]
    have "same_but (csum_field (p_data_proto p)) (p_data p) w (adjust_4to6 p ip6 w1)"
      using same_but_adjust [OF _ False assms(3)] c by (simp add: adjust_4to6_def Let_def)
    then show ?thesis using assms(1) False c unfolding xlate_payload_4to6_def Let_def st [symmetric]
      by (auto split: if_splits verdict.splits)
  qed
  then show "q = p" "same_but (csum_field (p_data_proto p)) (p_data p) w w'" by blast+
qed

lemma payload_6to4_bytes:
  assumes "xlate_payload_6to4 p ip4 em w = (e, q, w')" "\<not> needs_csum p" "p_data_proto p \<noteq> 1"
    and "p_data_proto p = 58 \<Longrightarrow> p_icmp p = Some (p_data p)"
  shows "q = p" "same_but (csum_field (p_data_proto p)) (p_data p) w w'"
proof -
  let ?step = "if p_data_proto p = 17 then udp_6to4 p ip4 em w
    else if p_data_proto p = 6 then tcp_6to4 p ip4 em w
    else if p_data_proto p = IPPROTO_DCCP \<or> p_data_proto p = IPPROTO_UDPLITE then (lite_payload p em w, p, w)
    else (Done (if needs_csum p then ERROR_DROP else ERROR_NONE), p, w)"
  obtain v q1 w1 where st: "(v, q1, w1) = ?step" by (metis prod_cases3)
  have u: "fst (snd (udp_6to4 p ip4 em w)) = p
      \<and> (snd (snd (udp_6to4 p ip4 em w)) = w \<or> (\<exists>k. snd (snd (udp_6to4 p ip4 em w)) = put16 (p_data p + 6) k w))"
    using assms(2) by (auto simp: udp_6to4_def Let_def split: udp_cksum_mode.splits)
  have t: "snd (tcp_6to4 p ip4 em w) = (p, w)" using assms(2) by (simp add: tcp_6to4_def)
  have "q = p \<and> same_but (csum_field (p_data_proto p)) (p_data p) w w'"
  proof (cases "p_data_proto p = 58")
    case True
    then show ?thesis using assms(1,2,4) same_but_type
      by (auto simp: xlate_payload_6to4_def icmp_6to4_def icmp_ptr_def csum_field_def Let_def split: if_splits option.splits)
  next
    case False
    note c = checksum_field_only [OF assms(2,3) False st u t]
    have "same_but (csum_field (p_data_proto p)) (p_data p) w (adjust_6to4 p ip4 w1)"
      using same_but_adjust [OF _ assms(3) False] c by (simp add: adjust_6to4_def Let_def)
    then show ?thesis using assms(1) False c unfolding xlate_payload_6to4_def Let_def st [symmetric]
      by (auto split: if_splits verdict.splits)
  qed
  then show "q = p" "same_but (csum_field (p_data_proto p)) (p_data p) w w'" by blast+
qed

lemma same_but_quotes:
  "same_but (csum_field proto) a w w' \<Longrightarrow> unat (p_data_len p) = n \<Longrightarrow> p_data p = a \<Longrightarrow> quotes (w_mem w) a n proto (pkt_payload (w_mem w') p)"
  by (auto simp: quotes_def same_but_def pkt_payload_def load_def)

section \<open>The part that is quoted\<close>

lemma parse_ip4_len:
  assumes "parse_ip4 m em p = Inr q"
  shows "unat (p_data_len q) = min (unat (p_data_len p)) (unat (ntohs (i4_length (ld_ip4 m (p_data p))))) - unat (p_header_len q)"
proof -
  let ?h = "ld_ip4 m (p_data p)"
  define dl where "dl = (if p_data_len p > ucast (ntohs (i4_length ?h)) then ucast (ntohs (i4_length ?h)) else p_data_len p)"
  have q: "p_data_len q = dl - p_header_len q" "\<not> p_data_len p < p_header_len q" "\<not> ucast (ntohs (i4_length ?h)) < p_header_len q"
    using assms by (auto simp: parse_ip4_def Let_def dl_def split: if_splits)
  then have "p_header_len q \<le> dl" by (auto simp: dl_def not_less)
  then have "unat (p_data_len q) = unat dl - unat (p_header_len q)" unfolding q(1) by (rule unat_sub)
  moreover have "unat dl = min (unat (p_data_len p)) (unat (ntohs (i4_length ?h)))"
    by (auto simp: dl_def word_less_nat_alt min_def)
  ultimately show ?thesis by simp
qed

lemma parse_ip6_len:
  assumes "parse_ip6 p em w = (Inr q, w')" "p_header_len p = 0" "p_ip6_frag p = None" "p_icmp p = None"
  shows "unat (p_data_len q) = min (unat (p_data_len p) - 40) (unat (ntohs (i6_payload_length (ld_ip6 (w_mem w) (p_data p)))))
    - unat (p_header_len q)"
proof -
  let ?m = "w_mem w"
  let ?h = "ld_ip6 ?m (p_data p)"
  define dl where "dl = (if p_data_len p - 40 > ucast (ntohs (i6_payload_length ?h))
    then ucast (ntohs (i6_payload_length ?h)) else p_data_len p - 40)"
  let ?p = "p\<lparr>p_ip6 := p_data p, p_data_proto := i6_next_header ?h, p_data := p_data p + 40, p_data_len := dl\<rparr>"
  have l40: "40 \<le> p_data_len p" using assms(1) by (auto simp: parse_ip6_def Let_def split: if_splits)
  from assms(1) obtain p1 sl sp p2 where r: "ext_headers ?m 8 ?p 0 40 = Some (p1, sl, sp)"
    "frag_header ?m em p1 = Some p2" "upper_header ?m em p2 = Some q"
    unfolding parse_ip6_def by (auto simp: Let_def dl_def split: if_split_asm option.split_asm)
  have "unat (p_data_len p - 40) = unat (p_data_len p) - 40" using unat_sub [OF l40] by simp
  then have n: "unat dl = min (unat (p_data_len p) - 40) (unat (ntohs (i6_payload_length ?h)))"
    by (auto simp: dl_def word_less_nat_alt min_def)
  then have dl: "unat dl \<le> 65535" using unat_u16_le [of "ntohs (i6_payload_length ?h)"] by simp
  have e: "advanced ?p p1" "p_ip6_frag p1 = None"
    using ext_headers_advanced [OF r(1)] dl assms(2-4) by simp_all
  have "unat (p_header_len p1) + unat (p_data_len p1) < 131072"
    using e(1) dl assms(2) by (auto simp: advanced_def)
  from advanced_trans [OF e(1) frag_header_ok(1) [OF r(2) e(2) this]] have a: "advanced ?p p2" .
  have "p_data_len q = p_data_len p2 \<and> p_header_len q = p_header_len p2"
    using r(3) by (auto simp: upper_header_def split: if_split_asm option.splits)
  then show ?thesis using a assms(2) n by (auto simp: advanced_def)
qed

text \<open>The length of the quote: that of RFC 4884, where the message gives one, or all that is there.\<close>

definition quoted_len4 :: "mem \<Rightarrow> pkt \<Rightarrow> nat" where
  "quoted_len4 m p =
     (let n = 4 * (unat (ntohl (ic_word (icmp_of m p))) div 2 ^ 16 mod 256)
      in if ic_type (icmp_of m p) \<in> {3, 11, 12} \<and> n \<noteq> 0 then n else unat (p_data_len p) - 8)"

definition quoted_len6 :: "mem \<Rightarrow> pkt \<Rightarrow> nat" where
  "quoted_len6 m p =
     (let n = 8 * (unat (ntohl (ic_word (icmp_of m p))) div 2 ^ 24)
      in if ic_type (icmp_of m p) \<in> {1, 3} \<and> n \<noteq> 0 then n else unat (p_data_len p) - 8)"

lemma field_mask:
  fixes x :: u32
  assumes "k + n \<le> 32" "j \<le> k"
  shows "drop_bit (k - j) x AND push_bit j (mask n) = push_bit j (take_bit n (drop_bit k x))"
proof (rule bit_word_eqI)
  fix i
  assume i: "i < LENGTH(32)"
  show "bit (drop_bit (k - j) x AND push_bit j (mask n)) i = bit (push_bit j (take_bit n (drop_bit k x))) i"
    using assms by (auto simp: bit_and_iff bit_drop_bit_eq bit_push_bit_iff bit_mask_iff bit_take_bit_iff dest: bit_imp_le_length)
qed

lemma quote_len_words:
  fixes x :: u32
  shows "unat (ucast (drop_bit 14 x AND 0x3fc) :: u16) = 4 * (unat x div 2 ^ 16 mod 256)"
    "unat (ucast (drop_bit 21 x AND 0x7f8) :: u16) = 8 * (unat x div 2 ^ 24)"
proof -
  have a: "drop_bit 14 x AND 0x3fc = push_bit 2 (take_bit 8 (drop_bit 16 x))"
    using field_mask [of 16 8 2 x] by (simp add: mask_eq_exp_minus_1 push_bit_eq_mult)
  have b: "drop_bit 21 x AND 0x7f8 = push_bit 3 (take_bit 8 (drop_bit 24 x))"
    using field_mask [of 24 8 3 x] by (simp add: mask_eq_exp_minus_1 push_bit_eq_mult)
  have ux: "unat x < 2 ^ 32" using unsigned_less [of x, where 'a = nat] by simp
  have m: "unat x div 2 ^ 16 mod 256 < 256" "unat x div 2 ^ 24 < 256" using ux by simp_all
  have d: "unat x div 65536 mod 4294967296 = unat x div 65536" using ux by simp
  have "unat (push_bit 2 (take_bit 8 (drop_bit 16 x))) = 4 * (unat x div 2 ^ 16 mod 256)"
    using m(1) d by (simp add: push_bit_eq_mult unat_word_ariths unsigned_take_bit_eq unsigned_drop_bit_eq take_bit_eq_mod drop_bit_eq_div)
  then show "unat (ucast (drop_bit 14 x AND 0x3fc) :: u16) = 4 * (unat x div 2 ^ 16 mod 256)"
    unfolding a using m(1) by (simp add: unsigned_ucast_eq take_bit_eq_mod)
  have "unat (push_bit 3 (take_bit 8 (drop_bit 24 x))) = 8 * (unat x div 2 ^ 24)"
    using m(2) by (simp add: push_bit_eq_mult unat_word_ariths unsigned_take_bit_eq unsigned_drop_bit_eq take_bit_eq_mod drop_bit_eq_div)
  then show "unat (ucast (drop_bit 21 x AND 0x7f8) :: u16) = 8 * (unat x div 2 ^ 24)"
    unfolding b using m(2) by (simp add: unsigned_ucast_eq take_bit_eq_mod)
qed

lemma em_cut_len: "em_cut n p = Some q \<Longrightarrow> unat (p_data_len q) = (if n = 0 then unat (p_data_len p) else unat n)"
  by (auto simp: em_cut_def unsigned_ucast_eq take_bit_eq_mod split: if_splits)

lemma em_cut_fields: "em_cut n p = Some q \<Longrightarrow> p_has_vhdr q = p_has_vhdr p"
  by (auto simp: em_cut_def split: if_splits)

lemma em_packet4_exact:
  assumes e: "em_packet4 p w = Some (q, off, fl)" and p: "pkt_in lo hi p" "8 \<le> unat (p_data_len p)"
    and h: "h = ld_ip4 (w_mem w) (p_data p + 8)"
  shows "p_ip4 q = p_data p + 8" "p_data q = p_data p + 8 + 4 * unat (i4_ver_ihl h AND 0x0f)"
    "unat (p_data_len q) = min (min (quoted_len4 (w_mem w) p) (unat (ntohs (i4_length h))) - 4 * unat (i4_ver_ihl h AND 0x0f)) (1192 - unat fl)"
    "p_data_proto q = i4_proto h" "p_data_proto q \<noteq> 58" "p_data_proto q = 1 \<Longrightarrow> p_icmp q = Some (p_data q)" "\<not> needs_csum q"
    "fl = (if ntohs (i4_flags_offset h) AND (IP4_F_MASK OR IP4_F_MF) \<noteq> 0 then 8 else 0)" "off = ntohs (i4_flags_offset h)"
proof -
  let ?ic = "icmp_of (w_mem w) p"
  define n :: u16 where "n = (if ic_type ?ic = 3 \<or> ic_type ?ic = 11 \<or> ic_type ?ic = 12 then ucast (drop_bit 14 (ntohl (ic_word ?ic)) AND 0x3fc) else 0)"
  from e obtain p1 p2 where c: "em_cut n (em_start p) = Some p1" "parse_ip4 (w_mem w) True p1 = Inr p2"
    and off: "off = ntohs (i4_flags_offset (ld_ip4 (w_mem w) (p_ip4 p2)))"
    and fl: "fl = (if off AND (IP4_F_MASK OR IP4_F_MF) \<noteq> 0 then 8 else 0)"
    and q: "q = (if 40 * 2 + 8 + fl + p_data_len p2 > MTU_MIN then p2\<lparr>p_data_len := MTU_MIN - 40 * 2 - 8 - fl\<rparr> else p2)"
    unfolding em_packet4_def Let_def n_def [symmetric] by (auto split: option.splits sum.splits if_split_asm)
  note s = em_start_in [OF p] and k = em_cut_in [OF c(1)]
  have a: "p_data p1 = p_data p + 8" using s k by simp
  have ps: "parsed4 (w_mem w) True p1 p2" by (rule parse_ip4_ok [OF c(2)])
  have p2: "p_ip4 p2 = p_data p + 8" "unat (p_header_len p2) = 4 * unat (i4_ver_ihl h AND 0x0f)"
    "p_data p2 = p_data p + 8 + unat (p_header_len p2)" "p_data_proto p2 = i4_proto h" "p_data_proto p2 \<noteq> 58"
    "p_data_proto p2 = 1 \<Longrightarrow> p_icmp p2 = Some (p_data p2)" "p_has_vhdr p2 = p_has_vhdr p1"
    using ps by (auto simp: parsed4_def Let_def a h)
  show "p_ip4 q = p_data p + 8" "p_data q = p_data p + 8 + 4 * unat (i4_ver_ihl h AND 0x0f)" "p_data_proto q = i4_proto h"
    "p_data_proto q \<noteq> 58" using p2 by (simp_all add: q)
  show "p_data_proto q = 1 \<Longrightarrow> p_icmp q = Some (p_data q)" using p2(6) by (auto simp: q split: if_splits)
  have "unat (p_data_len p1) = quoted_len4 (w_mem w) p"
  proof -
    have "unat n = (if ic_type ?ic \<in> {3, 11, 12} then 4 * (unat (ntohl (ic_word ?ic)) div 2 ^ 16 mod 256) else 0)"
      unfolding n_def by (simp add: quote_len_words)
    moreover have "n = 0 \<longleftrightarrow> unat n = 0" by (simp add: unat_eq_0)
    ultimately show ?thesis using em_cut_len [OF c(1)] s(2) unfolding quoted_len4_def Let_def by auto
  qed
  then have l2: "unat (p_data_len p2) = min (quoted_len4 (w_mem w) p) (unat (ntohs (i4_length h))) - 4 * unat (i4_ver_ihl h AND 0x0f)"
    using parse_ip4_len [OF c(2)] p2(2) by (simp add: a h)
  then have "unat (p_data_len p2) \<le> 65535" using unat_u16_le [of "ntohs (i4_length h)"] by simp
  then have "unat (p_data_len q) = min (unat (p_data_len p2)) (1192 - unat fl)"
    using fl by (auto simp: q MTU_MIN_def word_less_nat_alt unat_word_ariths)
  then show "unat (p_data_len q) = min (min (quoted_len4 (w_mem w) p) (unat (ntohs (i4_length h))) - 4 * unat (i4_ver_ihl h AND 0x0f)) (1192 - unat fl)"
    using l2 by simp
  have "\<not> p_has_vhdr p1" using em_cut_fields [OF c(1)] by (simp add: em_start_def pkt_zero_def)
  then show "\<not> needs_csum q" using p2(7) by (simp add: q needs_csum_def)
  show "off = ntohs (i4_flags_offset h)" using off by (simp add: p2(1) h)
  then show "fl = (if ntohs (i4_flags_offset h) AND (IP4_F_MASK OR IP4_F_MF) \<noteq> 0 then 8 else 0)" using fl by simp
qed

lemma em_packet4_header:
  assumes e: "em_packet4 p w = Some (q, off, fl)" and p: "pkt_in lo hi p" "8 \<le> unat (p_data_len p)"
    and h: "h = ld_ip4 (w_mem w) (p_data p + 8)"
  shows "unat (p_header_len q) = 4 * unat (i4_ver_ihl h AND 0x0f)" "unat (p_header_len q) \<le> unat (ntohs (i4_length h))"
proof -
  from e obtain n p1 p2 where c: "em_cut n (em_start p) = Some p1" "parse_ip4 (w_mem w) True p1 = Inr p2"
    and q: "p_header_len q = p_header_len p2"
    by (auto simp: em_packet4_def Let_def split: option.splits sum.splits if_splits)
  have a: "p_data p1 = p_data p + 8" using em_start_in [OF p] em_cut_in [OF c(1)] by simp
  have "parsed4 (w_mem w) True p1 p2" by (rule parse_ip4_ok [OF c(2)])
  then show "unat (p_header_len q) = 4 * unat (i4_ver_ihl h AND 0x0f)" "unat (p_header_len q) \<le> unat (ntohs (i4_length h))"
    by (simp_all add: parsed4_def Let_def a h q)
qed

lemma em_packet6_exact:
  assumes e: "em_packet6 p w = Some q" and p: "pkt_in lo hi p" "8 \<le> unat (p_data_len p)"
    and h: "h = ld_ip6 (w_mem w) (p_data p + 8)"
  shows "p_ip6 q = p_data p + 8" "p_data q = p_data p + 48 + unat (p_header_len q)"
    "unat (p_data_len q) = min (min (quoted_len6 (w_mem w) p - 40) (unat (ntohs (i6_payload_length h))) - unat (p_header_len q)) 528"
    "p_data_proto q \<noteq> 1" "p_data_proto q = 58 \<Longrightarrow> p_icmp q = Some (p_data q)" "\<not> needs_csum q"
proof -
  let ?ic = "icmp_of (w_mem w) p"
  define n :: u16 where "n = (if ic_type ?ic = 1 \<or> ic_type ?ic = 3 then ucast (drop_bit 21 (ntohl (ic_word ?ic)) AND 0x7f8) else 0)"
  from e obtain p1 p2 where c: "em_cut n (em_start p) = Some p1" "fst (parse_ip6 p1 True w) = Inr p2"
    and q: "q = (if 20 * 2 + 8 + p_data_len p2 > 576 then p2\<lparr>p_data_len := 576 - 20 * 2 - 8\<rparr> else p2)"
    unfolding em_packet6_def Let_def n_def [symmetric] by (auto split: option.splits sum.splits if_split_asm)
  note s = em_start_in [OF p] and k = em_cut_in [OF c(1)]
  obtain w' where ok: "parse_ip6 p1 True w = (Inr p2, w')" using c(2) by (metis prod.collapse)
  have z: "p_header_len p1 = 0" "p_ip6_frag p1 = None" "p_icmp p1 = None" "p_data p1 = p_data p + 8" using k s by simp_all
  have p2: "p_ip6 p2 = p_data p + 8" "p_data p2 = p_data p + 48 + unat (p_header_len p2)" "p_data_proto p2 \<noteq> 1"
    "p_data_proto p2 = 58 \<Longrightarrow> p_icmp p2 = Some (p_data p2)" "p_has_vhdr p2 = p_has_vhdr p1"
    using parse_ip6_ok(2) [OF ok z(1-3)] unfolding parsed6_def Let_def by (simp_all add: z(4))
  show "p_ip6 q = p_data p + 8" "p_data q = p_data p + 48 + unat (p_header_len q)" "p_data_proto q \<noteq> 1"
    using p2 by (simp_all add: q)
  show "p_data_proto q = 58 \<Longrightarrow> p_icmp q = Some (p_data q)" using p2(4) by (auto simp: q split: if_splits)
  have "unat (p_data_len p1) = quoted_len6 (w_mem w) p"
  proof -
    have "unat n = (if ic_type ?ic \<in> {1, 3} then 8 * (unat (ntohl (ic_word ?ic)) div 2 ^ 24) else 0)"
      unfolding n_def by (simp add: quote_len_words)
    moreover have "n = 0 \<longleftrightarrow> unat n = 0" by (simp add: unat_eq_0)
    ultimately show ?thesis using em_cut_len [OF c(1)] s(2) unfolding quoted_len6_def Let_def by auto
  qed
  then have l2: "unat (p_data_len p2) = min (quoted_len6 (w_mem w) p - 40) (unat (ntohs (i6_payload_length h))) - unat (p_header_len p2)"
    using parse_ip6_len [OF ok z(1-3)] by (simp add: z(4) h)
  then have "unat (p_data_len p2) \<le> 65535" using unat_u16_le [of "ntohs (i6_payload_length h)"] by simp
  then have "unat (p_data_len q) = min (unat (p_data_len p2)) 528"
    by (auto simp: q word_less_nat_alt unat_word_ariths)
  moreover have "p_header_len q = p_header_len p2" by (simp add: q)
  ultimately show "unat (p_data_len q) = min (min (quoted_len6 (w_mem w) p - 40) (unat (ntohs (i6_payload_length h))) - unat (p_header_len q)) 528"
    using l2 by simp
  have "\<not> p_has_vhdr p1" using em_cut_fields [OF c(1)] by (simp add: em_start_def pkt_zero_def)
  then show "\<not> needs_csum q" using p2(5) by (simp add: q needs_csum_def)
qed

end
