(* ===== verification/Error_Laws.thy ===== *)
theory Error_Laws
  imports Quote_Laws
begin

text \<open>
  Translated ICMP errors: the MTU they report, and the message that is sent, whose checksum is
  valid, whose size is at most the minimum MTU and which carries the translated header of the
  packet the error is about.
\<close>

section \<open>The reported MTU\<close>

text \<open>The estimate is the next plateau below, and never under 68.\<close>

lemma est_mtu_table_bounds:
  assumes "\<And>t. t \<in> set ts \<Longrightarrow> 68 \<le> t"
  shows "68 \<le> est_mtu_table n ts" "68 < n \<Longrightarrow> est_mtu_table n ts < n"
proof -
  have "68 \<le> est_mtu_table n ts \<and> (68 < n \<longrightarrow> est_mtu_table n ts < n)"
    using assms by (induction n ts rule: est_mtu_table.induct) auto
  then show "68 \<le> est_mtu_table n ts" "68 < n \<Longrightarrow> est_mtu_table n ts < n" by blast+
qed

lemma est_mtu_bounds: "68 \<le> est_mtu n" "68 < n \<Longrightarrow> est_mtu n < n"
  unfolding est_mtu_def by (rule est_mtu_table_bounds, auto)+

text \<open>It is the largest plateau below the length.\<close>

definition plateaus :: "nat set" where
  "plateaus = {65535, 32000, 17914, 8166, 4352, 2002, 1492, 1006, 508, 296, 68}"

lemma est_mtu_table_Max:
  assumes "sorted_wrt (>) ts" "\<And>t. t \<in> set ts \<Longrightarrow> 68 < t"
  shows "unat (est_mtu_table n ts) = Max (insert 68 {t \<in> unat ` set ts. t < unat n})"
  using assms
proof (induction ts)
  case (Cons t ts)
  show ?case
  proof (cases "n > t")
    case True
    have "68 < unat t" using Cons.prems(2) [of t] by (simp add: word_less_nat_alt)
    then have "Max (insert 68 {x \<in> unat ` set (t # ts). x < unat n}) = unat t"
      by (intro Max_eqI) (use Cons.prems(1) True in \<open>auto simp: word_less_nat_alt dest: order.strict_implies_order\<close>)
    then show ?thesis using True by simp
  next
    case False
    then have "{x \<in> unat ` set (t # ts). x < unat n} = {x \<in> unat ` set ts. x < unat n}" by (auto simp: word_less_nat_alt)
    then show ?thesis using Cons False by simp
  qed
qed simp

lemma est_mtu_Max: "unat (est_mtu n) = Max (insert 68 {t \<in> plateaus. t < unat n})"
proof -
  let ?ts = "[65535, 32000, 17914, 8166, 4352, 2002, 1492, 1006, 508, 296] :: u32 list"
  have "insert 68 {t \<in> unat ` set ?ts. t < unat n} = insert 68 {t \<in> plateaus. t < unat n}" by (auto simp: plateaus_def)
  moreover have "unat (est_mtu n) = Max (insert 68 {t \<in> unat ` set ?ts. t < unat n})"
    unfolding est_mtu_def by (rule est_mtu_table_Max) auto
  ultimately show ?thesis by simp
qed

text \<open>
  The table of RFC 7915, section 4.2: type and code of the ICMPv6 error for an ICMPv4 error, and the
  word that follows its checksum. Nothing else has a counterpart.
\<close>

definition unreachable_4to6 :: "nat \<Rightarrow> (nat \<times> nat) option" where
  "unreachable_4to6 = map_of [(0, 1, 0), (1, 1, 0), (2, 4, 1), (3, 1, 4), (4, 2, 0), (5, 1, 0), (6, 1, 0), (7, 1, 0), (8, 1, 0),
     (9, 1, 1), (10, 1, 1), (11, 1, 0), (12, 1, 0), (13, 1, 1), (15, 1, 1)]"

definition pointer_4to6 :: "nat \<Rightarrow> nat option" where
  "pointer_4to6 = map_of [(0, 0), (1, 1), (2, 4), (3, 4), (8, 7), (9, 6), (12, 8), (13, 8), (14, 8), (15, 8),
     (16, 24), (17, 24), (18, 24), (19, 24)]"

definition error_4to6_spec :: "nat \<Rightarrow> nat \<Rightarrow> nat \<Rightarrow> nat \<Rightarrow> (nat \<times> nat \<times> nat) option" where
  "error_4to6_spec type code pointer mtu =
     (if type = 3 then map_option (\<lambda>(t, c). (t, c, if code = 2 then 6 else if code = 4 then mtu else 0)) (unreachable_4to6 code)
      else if type = 11 then Some (3, code, 0)
      else if type = 12 \<and> (code = 0 \<or> code = 2) then map_option (\<lambda>k. (4, 0, k)) (pointer_4to6 pointer)
      else None)"

text \<open>The MTU an ICMPv4 error reports; an old router reports none, and the plateaus stand in.\<close>

definition reported_mtu4 :: "u16 \<Rightarrow> icmp \<Rightarrow> nat" where
  "reported_mtu4 len ic =
     (let m = unat (ntohl (ic_word ic)) mod 65536 in if m < 68 then Max (insert 68 {t \<in> plateaus. t < unat len}) else m)"

definition icmp_fields :: "icmp \<Rightarrow> nat \<times> nat \<times> nat" where
  "icmp_fields ic = (unat (ic_type ic), unat (ic_code ic), unat (ntohl (ic_word ic)))"

lemma reported_mtu4_word:
  "unat (let m = ntohl (ic_word ic) AND 0xffff in if m < 68 then est_mtu (ucast len) else m) = reported_mtu4 len ic"
proof -
  have "ntohl (ic_word ic) AND 0xffff = take_bit 16 (ntohl (ic_word ic))" by (simp add: take_bit_eq_mask mask_eq_exp_minus_1)
  then have "unat (ntohl (ic_word ic) AND 0xffff) = unat (ntohl (ic_word ic)) mod 65536"
    by (simp add: take_bit_eq_mod unat_mod)
  then show ?thesis by (simp add: reported_mtu4_def Let_def est_mtu_Max word_less_nat_alt unsigned_ucast_eq)
qed

lemma reported_mtu4_bound: "reported_mtu4 len ic \<le> 65535"
proof -
  have "Max (insert 68 {t \<in> plateaus. t < unat len}) \<le> 65535" by (subst Max_le_iff) (auto simp: plateaus_def)
  moreover have "unat (ntohl (ic_word ic)) mod 65536 \<le> 65535" by simp
  ultimately show ?thesis by (simp add: reported_mtu4_def Let_def del: Max_insert)
qed

lemma pointer_table:
  assumes "k < 20"
  shows "pointer_4to6 k = (if ptr_tbl_4to6 ! k < 0 then None else Some (nat (ptr_tbl_4to6 ! k)))"
    "ptr_tbl_4to6 ! k \<le> 24"
proof -
  have "list_all (\<lambda>k. pointer_4to6 k = (if ptr_tbl_4to6 ! k < 0 then None else Some (nat (ptr_tbl_4to6 ! k))) \<and> ptr_tbl_4to6 ! k \<le> 24) [0..<20]"
    by code_simp
  then show "pointer_4to6 k = (if ptr_tbl_4to6 ! k < 0 then None else Some (nat (ptr_tbl_4to6 ! k)))" "ptr_tbl_4to6 ! k \<le> 24"
    using assms by (simp_all add: list_all_iff)
qed

lemma small_int: "0 \<le> k \<Longrightarrow> k \<le> 24 \<Longrightarrow> unat (word_of_int k :: u32) = nat k"
  unfolding unat_eq_nat_uint uint_word_of_int by simp

lemma too_big_mtu:
  fixes own m :: u32
  assumes "unat m \<le> 65535"
  shows "unat (let mtu = m + MTU_ADJ; mtu = (if mtu > own then own else mtu) in if mtu < MTU_MIN then MTU_MIN else mtu)
    = max 1280 (min (unat own) (unat m + 20))"
proof -
  have "unat (m + MTU_ADJ) = unat m + 20" using assms by (simp add: MTU_ADJ_def unat_word_ariths)
  then show ?thesis by (auto simp: Let_def word_less_nat_alt MTU_MIN_def max_def min_def)
qed

lemma icmp_error_4to6_spec:
  "map_option icmp_fields (icmp_error_4to6 own len ic) =
    error_4to6_spec (unat (ic_type ic)) (unat (ic_code ic)) (unat (ntohl (ic_word ic)) div 2 ^ 24)
      (max 1280 (min (unat own) (reported_mtu4 len ic + 20)))"
proof -
  let ?ptr = "drop_bit 24 (ntohl (ic_word ic))"
  have ptr: "unat (ntohl (ic_word ic)) div 2 ^ 24 = unat ?ptr" by (simp add: drop_bit_eq_div unat_div)
  let ?m = "let m = ntohl (ic_word ic) AND 0xffff in if m < 68 then est_mtu (ucast len) else m"
  have m: "unat ?m \<le> 65535" unfolding reported_mtu4_word by (rule reported_mtu4_bound)
  note mtu = too_big_mtu [OF m, of own, unfolded reported_mtu4_word]
  consider "ic_type ic = 3" | "ic_type ic = 11" | "ic_type ic = 12" | "ic_type ic \<notin> {3, 11, 12}" by blast
  then show ?thesis
  proof cases
    case 1
    show ?thesis
    proof (cases "ic_code ic = 4")
      case True
      then show ?thesis using 1 mtu
        by (simp add: icmp_error_4to6_def error_4to6_spec_def unreachable_4to6_def icmp_fields_def icmp_head_def Let_def)
    next
      case False
      then show ?thesis using 1
        by (auto simp: icmp_error_4to6_def error_4to6_spec_def unreachable_4to6_def icmp_fields_def icmp_head_def word_unat_eq_iff)
    qed
  next
    case 2
    then show ?thesis by (simp add: icmp_error_4to6_def error_4to6_spec_def icmp_fields_def icmp_head_def)
  next
    case 3
    then show ?thesis
    proof (cases "unat ?ptr < 20")
      case True
      note t = pointer_table [OF True]
      show ?thesis unfolding ptr using 3 True t
        by (auto simp: icmp_error_4to6_def error_4to6_spec_def icmp_fields_def icmp_head_def word_unat_eq_iff word_less_nat_alt small_int Let_def)
    next
      case False
      then have "pointer_4to6 (unat ?ptr) = None" by (auto simp: pointer_4to6_def)
      then show ?thesis unfolding ptr using 3 False
        by (simp add: icmp_error_4to6_def error_4to6_spec_def word_less_nat_alt Let_def)
    qed
  next
    case 4
    then show ?thesis by (simp add: icmp_error_4to6_def error_4to6_spec_def word_unat_eq_iff)
  qed
qed

lemma mtu_6to4:
  fixes m own :: u32
  assumes "68 + MTU_ADJ \<le> m" "MTU_MIN \<le> own"
  defines "k \<equiv> (if m > own then own else m) - MTU_ADJ"
  shows "68 \<le> k" "k \<le> own - MTU_ADJ" "k \<le> m - MTU_ADJ"
proof -
  have l: "88 \<le> unat m" "1280 \<le> unat own" using assms(1,2) by (simp_all add: word_le_nat_alt MTU_ADJ_def MTU_MIN_def)
  then have sub: "unat (m - MTU_ADJ) = unat m - 20" "unat (own - MTU_ADJ) = unat own - 20"
    using unat_sub [of MTU_ADJ m] unat_sub [of MTU_ADJ own] by (simp_all add: word_le_nat_alt MTU_ADJ_def)
  have k: "unat k = min (unat m) (unat own) - 20"
    using sub by (auto simp: k_def word_less_nat_alt)
  show "68 \<le> k" "k \<le> own - MTU_ADJ" "k \<le> m - MTU_ADJ"
    unfolding word_le_nat_alt k sub using l by auto
qed

lemma icmp_error_6to4_ok:
  assumes "icmp_error_6to4 own ic = Some ic'" "MTU_MIN \<le> own"
  shows "ic_type ic' \<in> {3, 11, 12}" "ic_cksum ic' = 0"
    "ic_type ic' = 3 \<Longrightarrow> ic_code ic' = 4 \<Longrightarrow> 68 \<le> ntohl (ic_word ic') \<and> ntohl (ic_word ic') \<le> own - MTU_ADJ
      \<and> ntohl (ic_word ic') \<le> ntohl (ic_word ic) - MTU_ADJ"
    "ic_type ic' = 3 \<and> ic_code ic' = 4 \<longleftrightarrow> ic_type ic = 2"
  using assms(1) mtu_6to4 [OF _ assms(2), of "ntohl (ic_word ic)"]
  by (auto simp: icmp_error_6to4_def icmp_head_def Let_def not_less split: if_splits)

section \<open>IPv4 errors to IPv6\<close>

text \<open>The checksum of a message in parts.\<close>

lemma seal_parts_6:
  fixes h :: ip6
  assumes "even (length em)" "ck = ones_add (ip6_checksum h n 58)
      (ones_add (ip_checksum (icmp_bytes (ic\<lparr>ic_cksum := 0\<rparr>) @ em)) (ip_checksum data))"
    "unat n = 8 + length em + length data"
  shows "valid6 (i6_src h) (i6_dest h) 58 (icmp_bytes (ic\<lparr>ic_cksum := ck\<rparr>) @ em @ data)"
proof -
  let ?b = "icmp_bytes (ic\<lparr>ic_cksum := 0\<rparr>) @ em" and ?p = "pseudo6 (i6_src h) (i6_dest h) n 58"
  have n: "word_of_nat (8 + length em + length data) = n" unfolding assms(3) [symmetric] by simp
  have "oceq (int (unat ck)) (- int ?p + (- int (sum16 ?b) + - int (sum16 data)))"
    unfolding assms(2)
    by (rule oceq_trans [OF oceq_ones_add oceq_add [OF oceq_ip6_checksum oceq_trans [OF oceq_ones_add oceq_add [OF oceq_ip_checksum oceq_ip_checksum]]]])
  then have "oceq (int (unat ck + sum16 ?b + sum16 data + ?p)) 0"
    by (simp add: oceq_def algebra_simps)
  moreover have "sum16 (icmp_bytes (ic\<lparr>ic_cksum := ck\<rparr>) @ em @ data) = unat ck + sum16 ?b + sum16 data"
    using assms(1) by (simp add: sum16_append oceq_icmp_sum)
  ultimately show ?thesis
    unfolding valid6_def oceq_0 [symmetric] by (simp add: n [symmetric] add.assoc)
qed

lemma seal_parts_4:
  assumes "even (length em)" "ck = ones_add (ip_checksum (icmp_bytes (ic\<lparr>ic_cksum := 0\<rparr>) @ em)) (ip_checksum data)"
  shows "ip_checksum (icmp_bytes (ic\<lparr>ic_cksum := ck\<rparr>) @ em @ data) = 0"
proof -
  let ?b = "icmp_bytes (ic\<lparr>ic_cksum := 0\<rparr>) @ em"
  have "oceq (int (unat ck)) (- int (sum16 ?b) + - int (sum16 data))"
    unfolding assms(2) by (rule oceq_trans [OF oceq_ones_add oceq_add [OF oceq_ip_checksum oceq_ip_checksum]])
  then have "oceq (int (unat ck + sum16 ?b + sum16 data)) 0" by (simp add: oceq_def algebra_simps)
  moreover have "sum16 (icmp_bytes (ic\<lparr>ic_cksum := ck\<rparr>) @ em @ data) = unat ck + sum16 ?b + sum16 data"
    using assms(1) by (simp add: sum16_append oceq_icmp_sum)
  ultimately show ?thesis by (simp only: ip_checksum_0_iff oceq_0)
qed

text \<open>The embedded packet is cut so that the message fits.\<close>

lemma em_packet4_size:
  assumes "em_packet4 p w = Some (q, off, fl)" "pkt_in lo hi p" "8 \<le> unat (p_data_len p)"
  shows "fl = 0 \<or> fl = 8" "88 + unat fl + unat (p_data_len q) \<le> 1280" "p_data p + 28 \<le> p_data q"
proof -
  from assms(1) obtain n p1 p2 where c: "em_cut n (em_start p) = Some p1" "parse_ip4 (w_mem w) True p1 = Inr p2"
    and q: "q = (if 40 * 2 + 8 + fl + p_data_len p2 > MTU_MIN then p2\<lparr>p_data_len := MTU_MIN - 40 * 2 - 8 - fl\<rparr> else p2)"
    and fl: "fl = 0 \<or> fl = 8"
    by (auto simp: em_packet4_def Let_def split: option.splits sum.splits if_splits)
  show "fl = 0 \<or> fl = 8" by (rule fl)
  have ps: "parsed4 (w_mem w) True p1 p2" by (rule parse_ip4_ok [OF c(2)])
  have p2: "p_data p2 = p_data p1 + unat (p_header_len p2)" "20 \<le> unat (p_header_len p2)"
    "unat (p_data_len p2) \<le> 65535"
    using ps unat_u16_le [of "ntohs (i4_length (ld_ip4 (w_mem w) (p_data p1)))"] by (simp_all add: parsed4_def Let_def)
  have "p_data p1 = p_data p + 8" using em_cut_in [OF c(1)] em_start_in(1) [OF assms(2,3)] by simp
  then show "p_data p + 28 \<le> p_data q" using p2 by (simp add: q)
  show "88 + unat fl + unat (p_data_len q) \<le> 1280"
    using fl p2(3) by (auto simp: q MTU_MIN_def word_less_nat_alt unat_word_ariths)
qed

lemma em_header6_parts:
  assumes "em_header6 m q off fl src dest = (h, em)" "fl = 0 \<or> fl = 8"
  shows "length em = 40 + unat fl"
  using assms by (auto simp: em_header6_def Let_def split: if_splits)

text \<open>The header of the quoted packet, translated but with its hop limit kept, and its fragment header.\<close>

definition quoted_header6 :: "ip4 \<Rightarrow> u32 \<Rightarrow> in6_addr \<Rightarrow> in6_addr \<Rightarrow> u8 list" where
  "quoted_header6 h fl src dest =
     (let proto = (if i4_proto h = 1 then 58 else i4_proto h);
          off = ntohs (i4_flags_offset h);
          n = min 65535 (unat (ntohs (i4_length h)) - 4 * unat (i4_ver_ihl h AND 0x0f) + unat fl);
          h6 = (header_4to6 h proto (word_of_nat n) src dest)\<lparr>i6_hop_limit := i4_ttl h\<rparr>
      in if fl = 0 then ip6_bytes h6
         else ip6_bytes (h6\<lparr>i6_next_header := 44\<rparr>) @ ip6_frag_bytes \<lparr>fr_next_header = proto, fr_reserved = 0,
           fr_offset_flags = htons (push_bit 3 (off AND IP4_F_MASK) OR (if off AND IP4_F_MF \<noteq> 0 then IP6_F_MF else 0)),
           fr_ident = htonl (ucast (ntohs (i4_ident h)))\<rparr>)"

lemma em_header6_quoted:
  assumes e: "em_packet4 p w = Some (q, off, fl)" and p: "pkt_in lo hi p" "8 \<le> unat (p_data_len p)"
    and h: "h = ld_ip4 (w_mem w) (p_data p + 8)" and em: "em_header6 (w_mem w) q off fl src dest = (h6, em)"
    and hl: "unat (p_header_len q) = 4 * unat (i4_ver_ihl h AND 0x0f)" "unat (p_header_len q) \<le> unat (ntohs (i4_length h))"
  shows "em = quoted_header6 h fl src dest"
proof -
  note x = em_packet4_exact [OF e p h]
  define n where "n = (ucast (ntohs (i4_length h)) - p_header_len q + fl :: u32)"
  have fl: "fl = 0 \<or> fl = 8" using x(8) by (auto split: if_splits)
  have le: "p_header_len q \<le> ucast (ntohs (i4_length h))" using hl(2) by (simp add: word_le_nat_alt)
  have "unat (ucast (ntohs (i4_length h)) - p_header_len q) = unat (ntohs (i4_length h)) - unat (p_header_len q)"
    using unat_sub [OF le] by simp
  then have un: "unat n = unat (ntohs (i4_length h)) - unat (p_header_len q) + unat fl"
    using fl unat_u16_le [of "ntohs (i4_length h)"] by (auto simp: n_def unat_word_ariths)
  have m: "unat (if n > 0xffff then 0xffff else n) = min 65535 (unat n)" by (auto simp: word_less_nat_alt)
  have w: "word_of_nat (unat x) = x" for x :: u32 by simp
  have "(if n > 0xffff then 0xffff else n) = word_of_nat (min 65535 (unat n))" unfolding m [symmetric] w by (rule refl)
  then have len: "(if n > 0xffff then 0xffff else n) = word_of_nat (min 65535 (unat (ntohs (i4_length h)) - 4 * unat (i4_ver_ihl h AND 0x0f) + unat fl))"
    by (simp add: un hl(1))
  have q: "ld_ip4 (w_mem w) (p_ip4 q) = h" "p_data_proto q = i4_proto h" using x(1,4) h by simp_all
  have x6: "xlate_header_4to6 (w_mem w) q (ip6_new src dest) k
      = (header_4to6 h (if i4_proto h = 1 then 58 else i4_proto h) k src dest)\<lparr>i6_hop_limit := i4_ttl h\<rparr>" for k
    by (simp add: xlate_header_4to6_def header_4to6_def ip6_new_def Let_def q)
  have em': "em_header6 (w_mem w) q off fl src dest = (h6, em)" by (rule em)
  show ?thesis
    using em' unfolding em_header6_def q(1) Let_def n_def [symmetric] len x6
    by (auto simp: quoted_header6_def x(9) header_4to6_def Let_def split: if_splits)
qed

lemma send_error6_sends:
  fixes p q :: pkt and w :: world and fl :: u32 and src dest :: in6_addr
  assumes dev: "vnet_ok w" "w_io w = []" and em: "length em = 40 + unat fl" "fl = 0 \<or> fl = 8"
    and fit: "88 + unat fl + unat (p_data_len q) \<le> 1280" and icmp: "p_data_proto p = 1"
  defines "hdr \<equiv> header_4to6 (ld_ip4 (w_mem w) (p_ip4 p)) 58 (8 + 40 + fl + p_data_len q) src dest"
  shows "\<exists>ck. w_tx (send_error6 p ic em fl q src dest w)
      = w_tx w @ [plain_frame w (ip6_bytes hdr @ icmp_bytes (ic\<lparr>ic_cksum := ck\<rparr>) @ em @ pkt_payload (w_mem w) q)]
    \<and> valid6 src dest 58 (icmp_bytes (ic\<lparr>ic_cksum := ck\<rparr>) @ em @ pkt_payload (w_mem w) q)
    \<and> length (ip6_bytes hdr @ icmp_bytes (ic\<lparr>ic_cksum := ck\<rparr>) @ em @ pkt_payload (w_mem w) q) \<le> 1280"
proof -
  let ?n = "8 + 40 + fl + p_data_len q" and ?data = "pkt_payload (w_mem w) q"
  have n: "unat ?n = 48 + unat fl + unat (p_data_len q)" using em(2) fit by (auto simp: unat_word_ariths)
  have len: "(ucast (ntohs (i6_payload_length hdr)) :: u32) = ?n"
  proof (rule unsigned_word_eqI)
    have "unat (ucast (ntohs (i6_payload_length hdr)) :: u32) = unat (ucast ?n :: u16)" by (simp add: hdr_def header_4to6_def)
    also have "\<dots> = unat ?n" using n fit by (simp add: unsigned_ucast_eq take_bit_eq_mod)
    finally show "unat (ucast (ntohs (i6_payload_length hdr)) :: u32) = unat ?n" .
  qed
  define ck where "ck = ones_add (ip6_checksum hdr ?n 58)
      (ones_add (ip_checksum (icmp_bytes (ic\<lparr>ic_cksum := 0\<rparr>) @ em)) (ip_checksum ?data))"
  have h: "(xlate_header_4to6 (w_mem w) p (ip6_new src dest) ?n)\<lparr>i6_hop_limit :=
      i6_hop_limit (xlate_header_4to6 (w_mem w) p (ip6_new src dest) ?n) - 1\<rparr> = hdr"
    unfolding hdr_def xlate_header_4to6_eq icmp by simp
  let ?iov = "[ip6_bytes hdr @ icmp_bytes (ic\<lparr>ic_cksum := ck\<rparr>) @ em, ?data]"
  have s: "send_error6 p ic em fl q src dest w = snd (tun_writev ?iov w)"
    unfolding send_error6_def Let_def h len ck_def by simp
  have "tun_writev ?iov w = (int (length (plain_frame w (concat ?iov))), w\<lparr>w_tx := w_tx w @ [plain_frame w (concat ?iov)]\<rparr>)"
    by (rule tun_writev_accepted) (use dev em fit in \<open>simp_all add: RECV_BUF_SIZE_def HEADROOM_def\<close>)
  then have tx: "w_tx (send_error6 p ic em fl q src dest w)
      = w_tx w @ [plain_frame w (ip6_bytes hdr @ icmp_bytes (ic\<lparr>ic_cksum := ck\<rparr>) @ em @ ?data)]"
    unfolding s by simp
  have ev: "even (length em)" using em by auto
  have "valid6 (i6_src hdr) (i6_dest hdr) 58 (icmp_bytes (ic\<lparr>ic_cksum := ck\<rparr>) @ em @ ?data)"
    by (rule seal_parts_6 [OF ev ck_def]) (simp only: n em(1) length_payload)
  moreover have "i6_src hdr = src" "i6_dest hdr = dest" by (simp_all add: hdr_def header_4to6_def)
  ultimately show ?thesis using tx em fit by (intro exI [of _ ck]) simp
qed

lemma xlate_4to6_icmp_error_sends:
  assumes dev: "vnet_ok w" "w_io w = []"
    and p: "pkt_in lo hi p" "8 \<le> unat (p_data_len p)" "p_ip4 p + 20 \<le> p_data p" "p_data_proto p = 1"
    and em: "em_packet4 p w = Some (q, off, fl)" "h4 = ld_ip4 (w_mem w) (p_data p + 8)"
    and map: "map_ip4_to_ip6 (i4_src h4) (w_g w) = (Inr es, g1)" "map_ip4_to_ip6 (i4_dest h4) g1 = (Inr ed, g2)"
    and hdr: "em_header6 (w_mem w) q off fl es ed = (h_em, em)"
    and ic: "icmp_error_4to6 (ucast (g_mtu (w_g w))) (ntohs (i4_length h4)) (icmp_of (w_mem w) p) = Some ic"
    and pay: "xlate_payload_4to6 q h_em True (w\<lparr>w_g := g2\<rparr>) = (ERROR_NONE, q', w3)"
    and h: "h = ld_ip4 (w_mem w) (p_ip4 p)"
    and omap: "map_ip4_to_ip6 (i4_src h) g2 = (r, g3)" "map_ip4_to_ip6 (i4_dest h) g3 = (Inr dest, g4)"
    and src: "src = (case r of Inl _ \<Rightarrow> g_local_addr6 (w_g w) | Inr a \<Rightarrow> a)"
  shows "\<exists>ck data. w_tx (xlate_4to6_icmp_error p w) = w_tx w @ [plain_frame w
        (ip6_bytes (header_4to6 h 58 (48 + fl + word_of_nat (length data)) src dest) @ icmp_bytes (ic\<lparr>ic_cksum := ck\<rparr>)
         @ quoted_header6 h4 fl es ed @ data)]
    \<and> valid6 src dest 58 (icmp_bytes (ic\<lparr>ic_cksum := ck\<rparr>) @ quoted_header6 h4 fl es ed @ data)
    \<and> length (icmp_bytes (ic\<lparr>ic_cksum := ck\<rparr>) @ quoted_header6 h4 fl es ed @ data) \<le> 1240
    \<and> quotes (w_mem w) (p_data p + 8 + 4 * unat (i4_ver_ihl h4 AND 0x0f))
        (min (min (quoted_len4 (w_mem w) p) (unat (ntohs (i4_length h4))) - 4 * unat (i4_ver_ihl h4 AND 0x0f)) (1192 - unat fl))
        (i4_proto h4) data"
proof -
  note sz = em_packet4_size [OF em(1) p(1,2)] and q = em_packet4_in [OF em(1) p(1,2)]
  note ex = em_packet4_exact [OF em(1) p(1,2) em(2)]
  have parts: "length em = 40 + unat fl" by (rule em_header6_parts [OF hdr sz(1)])
  have pb: "q' = q" "same_but (csum_field (i4_proto h4)) (p_data q) (w\<lparr>w_g := g2\<rparr>) w3"
    using payload_4to6_bytes [OF pay ex(7,5)] ex(4,6) by simp_all
  have hm6: "em = quoted_header6 h4 fl es ed"
    by (rule em_header6_quoted [OF em(1) p(1,2) em(2) hdr]) (use em_packet4_header [OF em(1) p(1,2) em(2)] in simp_all)
  have em2: "h4 = ld_ip4 (w_mem w) (p_ip4 q)" using em(2) ex(1) by simp
  let ?w2 = "w\<lparr>w_g := g2\<rparr>"
  have cf: "conf g2 = conf (w_g w)" "conf g3 = conf (w_g w)"
    using conf_map4 [of "i4_src h4" "w_g w"] conf_map4 [of "i4_dest h4" g1] conf_map4 [of "i4_src h" g2] map omap by simp_all
  have o: "payload_only q ?w2 q' w3" using payload_4to6_only [OF pay] q by (simp add: icmp_in_def)
  obtain m where w3: "w3 = w\<lparr>w_g := g2, w_mem := m\<rparr>" using o by (auto simp: payload_only_def)
  have ip4: "ld_ip4 (w_mem w3) (p_ip4 p) = h" using payload_only_ld_ip4 [OF o, of "p_ip4 p"] p(3) sz(3) h by simp
  have len: "p_data_len q' = p_data_len q" using payload_only_pkt [OF o] by simp
  let ?w5 = "w\<lparr>w_g := g4, w_mem := m\<rparr>"
  have m1: "with_g (map_ip4_to_ip6 (i4_src h4)) w = (Inr es, w\<lparr>w_g := g1\<rparr>)"
    "with_g (map_ip4_to_ip6 (i4_dest h4)) (w\<lparr>w_g := g1\<rparr>) = (Inr ed, ?w2)"
    "with_g (map_ip4_to_ip6 (i4_src h)) w3 = (r, w3\<lparr>w_g := g3\<rparr>)"
    "with_g (map_ip4_to_ip6 (i4_dest h)) (w3\<lparr>w_g := g3\<rparr>) = (Inr dest, ?w5)"
    using map omap by (simp_all add: with_g_def w3)
  have g: "g_mtu g2 = g_mtu (w_g w)" "g_local_addr6 g3 = g_local_addr6 (w_g w)" using cf by (simp_all add: conf_def)
  have s: "(case r of Inl _ \<Rightarrow> g_local_addr6 (w_g (w3\<lparr>w_g := g3\<rparr>)) | Inr a \<Rightarrow> a) = src"
    unfolding src by (simp add: g split: sum.split)
  have x: "xlate_4to6_icmp_error p w = send_error6 p ic em fl q' src dest ?w5"
    unfolding xlate_4to6_icmp_error_def em(1) option.case prod.case Let_def em2 [symmetric] m1(1,2) sum.case
    using hdr ic pay m1(3,4) ip4 by (simp add: g s)
  have hm: "ld_ip4 (w_mem ?w5) (p_ip4 p) = h" using ip4 by (simp add: w3)
  have fit: "88 + unat fl + unat (p_data_len q') \<le> 1280" using sz(2) len by simp
  obtain ck where tx: "w_tx (send_error6 p ic em fl q' src dest ?w5) = w_tx ?w5 @ [plain_frame ?w5
        (ip6_bytes (header_4to6 h 58 (8 + 40 + fl + p_data_len q') src dest) @ icmp_bytes (ic\<lparr>ic_cksum := ck\<rparr>) @ em
         @ pkt_payload (w_mem ?w5) q')]"
    "valid6 src dest 58 (icmp_bytes (ic\<lparr>ic_cksum := ck\<rparr>) @ em @ pkt_payload (w_mem ?w5) q')"
    using send_error6_sends [where w = ?w5 and em = em and fl = fl and q = q' and p = p and src = src and dest = dest and ic = ic] dev parts sz(1) fit p(4) unfolding hm
    by (auto simp: vnet_ok_def)
  have pf: "plain_frame ?w5 = plain_frame w" by (simp add: plain_frame_def fun_eq_iff)
  have "length (icmp_bytes (ic\<lparr>ic_cksum := ck\<rparr>) @ em @ pkt_payload (w_mem ?w5) q') \<le> 1240"
    using fit parts by simp
  moreover have "quotes (w_mem w) (p_data p + 8 + 4 * unat (i4_ver_ihl h4 AND 0x0f))
        (min (min (quoted_len4 (w_mem w) p) (unat (ntohs (i4_length h4))) - 4 * unat (i4_ver_ihl h4 AND 0x0f)) (1192 - unat fl))
        (i4_proto h4) (pkt_payload (w_mem ?w5) q')"
    using same_but_quotes [OF pb(2), of q' "unat (p_data_len q)"] pb(1) ex(2,3) by (simp add: w3)
  ultimately show ?thesis
    using tx unfolding x pf len hm6 by (intro exI [of _ ck] exI [of _ "pkt_payload (w_mem ?w5) q'"]) (simp add: len)
qed

section \<open>IPv6 errors to IPv4\<close>

lemma ld_ip6_cong: "(\<And>i. a \<le> i \<Longrightarrow> i < a + 40 \<Longrightarrow> m' i = m i) \<Longrightarrow> ld_ip6 m' a = ld_ip6 m a"
  by (auto simp: ld_ip6_def ld16_def ld32_def ld_in6_def load_def
      intro!: arg_cong [where f = le_word] arg_cong [where f = in6_of_bytes])

lemma em_packet6_size:
  assumes "em_packet6 p w = Some q" "pkt_in lo hi p" "8 \<le> unat (p_data_len p)"
  shows "48 + unat (p_data_len q) \<le> 576" "p_data p + 48 \<le> p_data q"
proof -
  from assms(1) obtain n p1 p2 where c: "em_cut n (em_start p) = Some p1" "fst (parse_ip6 p1 True w) = Inr p2"
    and q: "q = (if 20 * 2 + 8 + p_data_len p2 > 576 then p2\<lparr>p_data_len := 576 - 20 * 2 - 8\<rparr> else p2)"
    by (auto simp: em_packet6_def Let_def split: option.splits sum.splits if_splits)
  note s = em_start_in [OF assms(2,3)] and k = em_cut_in [OF c(1)]
  obtain w' where ok: "parse_ip6 p1 True w = (Inr p2, w')" using c(2) by (metis prod.collapse)
  have ps: "parsed6 (w_mem w) True p1 p2" using parse_ip6_ok [OF ok] k s by simp
  have p2: "p_data p2 = p_data p1 + 40 + unat (p_header_len p2)" "unat (p_data_len p2) \<le> 65535"
    using ps unat_u16_le [of "ntohs (i6_payload_length (ld_ip6 (w_mem w) (p_data p1)))"]
    unfolding parsed6_def Let_def by (presburger | linarith)+
  show "p_data p + 48 \<le> p_data q" using p2 k s by (simp add: q)
  show "48 + unat (p_data_len q) \<le> 576"
    using p2(2) by (auto simp: q word_less_nat_alt unat_word_ariths)
qed

lemma xlate_header_6to4_len:
  "xlate_header_6to4 p ip4 n w = xlate_header_6to4 (p\<lparr>p_data_len := n\<rparr>) ip4 (p_data_len (p\<lparr>p_data_len := n\<rparr>)) w"
  by (simp add: xlate_header_6to4_def frag_of_def)

lemma xlate_header_6to4_fields:
  assumes "xlate_header_6to4 p (ip4_new src dest) n w = (h, w')"
  shows "i4_src h = src" "i4_dest h = dest" "i4_cksum h = 0"
  using assms by (auto simp: xlate_header_6to4_def ip4_new_def next_ip4_ident_def reserve_ip4_ident_def Let_def split: option.splits if_splits)

lemma xlate_header_6to4_world:
  assumes "xlate_header_6to4 p ip4 n w = (h, w')"
  shows "\<exists>k. w' = w\<lparr>w_ident := k\<rparr>"
proof -
  have r: "\<exists>k. (x :: world) = x\<lparr>w_ident := k\<rparr>" for x by (rule exI [of _ "w_ident x"]) simp
  show ?thesis using assms
    by (auto simp: xlate_header_6to4_def next_ip4_ident_def reserve_ip4_ident_def Let_def
        split: option.splits if_splits intro: r)
qed

lemma ip4_checksum_sealed:
  assumes "i4_cksum h = 0"
  shows "ip_checksum (ip4_bytes (h\<lparr>i4_cksum := ip_checksum (ip4_bytes h)\<rparr>)) = 0"
proof -
  have h: "h\<lparr>i4_cksum := 0\<rparr> = h" using assms by simp
  have "oceq (int (unat (ip_checksum (ip4_bytes h)))) (- int (sum16 (ip4_bytes h)))" by (rule oceq_ip_checksum)
  then have "oceq (int (sum16 (ip4_bytes (h\<lparr>i4_cksum := ip_checksum (ip4_bytes h)\<rparr>)))) 0"
    using assms by (simp add: sum16_ip4_bytes oceq_def algebra_simps)
  then show ?thesis by (simp only: ip_checksum_0_iff oceq_0)
qed

lemma send_error4_sends:
  fixes p q :: pkt and w :: world and src dest :: in_addr and h_em :: ip4
  assumes dev: "vnet_ok w" "w_io w = []" and fit: "48 + unat (p_data_len q) \<le> 576" and icmp: "p_data_proto p = 58"
  defines "hdr \<equiv> header_6to4 (ld_ip6 (w_mem w) (p_ip6 p)) 1 (28 + p_data_len q)
    (ident_6to4 (p\<lparr>p_data_len := 28 + p_data_len q\<rparr>) w) src dest"
  shows "\<exists>ck. w_tx (send_error4 p ic h_em q src dest w)
      = w_tx w @ [plain_frame w (ip4_bytes hdr @ icmp_bytes (ic\<lparr>ic_cksum := ck\<rparr>) @ ip4_bytes h_em @ pkt_payload (w_mem w) q)]
    \<and> ip_checksum (icmp_bytes (ic\<lparr>ic_cksum := ck\<rparr>) @ ip4_bytes h_em @ pkt_payload (w_mem w) q) = 0"
proof -
  let ?n = "28 + p_data_len q" and ?data = "pkt_payload (w_mem w) q"
  have n: "unat ?n < 65536" using fit by (simp add: unat_word_ariths)
  obtain h0 w1 where x: "xlate_header_6to4 p (ip4_new src dest) ?n w = (h0, w1)" by fastforce
  note e = xlate_header_6to4_eq [OF x [unfolded xlate_header_6to4_len [of p _ ?n]]]
  have hdr: "(h0\<lparr>i4_ttl := i4_ttl h0 - 1\<rparr>)\<lparr>i4_cksum := ip4_header_checksum (h0\<lparr>i4_ttl := i4_ttl h0 - 1\<rparr>)\<rparr> = hdr"
    using e(1) n icmp by (simp add: hdr_def)
  obtain k where w1: "w1 = w\<lparr>w_ident := k\<rparr>" using e(2) n by auto
  define ck where "ck = ones_add (ip_checksum (icmp_bytes (ic\<lparr>ic_cksum := 0\<rparr>) @ ip4_bytes h_em)) (ip_checksum ?data)"
  let ?iov = "[ip4_bytes hdr @ icmp_bytes (ic\<lparr>ic_cksum := ck\<rparr>) @ ip4_bytes h_em, ?data]"
  have a: "(8 + 20 + p_data_len q :: u32) = ?n" by simp
  have s: "send_error4 p ic h_em q src dest w = snd (tun_writev ?iov w1)"
    unfolding send_error4_def a x prod.case Let_def hdr ck_def by (simp add: w1)
  have "tun_writev ?iov w1 = (int (length (plain_frame w1 (concat ?iov))), w1\<lparr>w_tx := w_tx w1 @ [plain_frame w1 (concat ?iov)]\<rparr>)"
    by (rule tun_writev_accepted) (use dev fit in \<open>simp_all add: w1 vnet_ok_def RECV_BUF_SIZE_def HEADROOM_def\<close>)
  then have "w_tx (send_error4 p ic h_em q src dest w)
      = w_tx w @ [plain_frame w (ip4_bytes hdr @ icmp_bytes (ic\<lparr>ic_cksum := ck\<rparr>) @ ip4_bytes h_em @ ?data)]"
    unfolding s by (simp add: w1 plain_frame_def)
  moreover have "ip_checksum (icmp_bytes (ic\<lparr>ic_cksum := ck\<rparr>) @ ip4_bytes h_em @ ?data) = 0"
    by (rule seal_parts_4 [OF _ ck_def]) simp
  ultimately show ?thesis by blast
qed

lemma xlate_header_6to4_kind:
  assumes "xlate_header_6to4 p ip4 n w = (h, w')"
  shows "i4_ttl h = i6_hop_limit (ld_ip6 (w_mem w) (p_ip6 p))" "i4_proto h = (if p_data_proto p = 58 then 1 else p_data_proto p)"
  using assms by (auto simp: xlate_header_6to4_def next_ip4_ident_def reserve_ip4_ident_def Let_def split: option.splits if_splits)

lemma xlate_6to4_icmp_error_sends:
  assumes dev: "vnet_ok w" "w_io w = []"
    and p: "pkt_in lo hi p" "8 \<le> unat (p_data_len p)" "p_ip6 p + 40 \<le> p_data p" "p_data_proto p = 58"
      "p_ip6_frag p = None"
    and em: "em_packet6 p w = Some q" "hq = ld_ip6 (w_mem w) (p_data p + 8)"
    and ic: "icmp_error_6to4 (ucast (g_mtu (w_g w))) (icmp_of (w_mem w) p) = Some ic"
    and map: "map_ip6_to_ip4 (i6_src hq) False (w_g w) = (Inr es, g1)" "map_ip6_to_ip4 (i6_dest hq) False g1 = (Inr ed, g2)"
    and hdr: "xlate_header_6to4 q (ip4_new es ed) (ucast (ntohs (i6_payload_length hq)) - p_header_len q) (w\<lparr>w_g := g2\<rparr>) = (h_em, w2)"
    and pay: "xlate_payload_6to4 q h_em True w2 = (ERROR_NONE, q', w3)"
    and h: "h = ld_ip6 (w_mem w) (p_ip6 p)"
    and omap: "map_ip6_to_ip4 (i6_src h) False g2 = (r, g3)" "map_ip6_to_ip4 (i6_dest h) False g3 = (Inr dest, g4)"
    and src: "src = (case r of Inl _ \<Rightarrow> g_local_addr4 (w_g w) | Inr a \<Rightarrow> a)"
  shows "\<exists>ck data n. w_tx (xlate_6to4_icmp_error p w) = w_tx w @ [plain_frame w
        (ip4_bytes (header_6to4 h 1 (28 + word_of_nat (length data)) (htons n, 0) src dest) @ icmp_bytes (ic\<lparr>ic_cksum := ck\<rparr>)
         @ ip4_bytes (h_em\<lparr>i4_cksum := ip_checksum (ip4_bytes h_em)\<rparr>) @ data)]
    \<and> ip_checksum (ip4_bytes (header_6to4 h 1 (28 + word_of_nat (length data)) (htons n, 0) src dest)) = 0
    \<and> ip_checksum (icmp_bytes (ic\<lparr>ic_cksum := ck\<rparr>) @ ip4_bytes (h_em\<lparr>i4_cksum := ip_checksum (ip4_bytes h_em)\<rparr>) @ data) = 0
    \<and> 20 + length (icmp_bytes (ic\<lparr>ic_cksum := ck\<rparr>) @ ip4_bytes (h_em\<lparr>i4_cksum := ip_checksum (ip4_bytes h_em)\<rparr>) @ data) \<le> 576
    \<and> ip_checksum (ip4_bytes (h_em\<lparr>i4_cksum := ip_checksum (ip4_bytes h_em)\<rparr>)) = 0
    \<and> i4_src h_em = es \<and> i4_dest h_em = ed \<and> i4_ttl h_em = i6_hop_limit hq
    \<and> i4_proto h_em = (if p_data_proto q = 58 then 1 else p_data_proto q)
    \<and> quotes (w_mem w) (p_data p + 48 + unat (p_header_len q))
        (min (min (quoted_len6 (w_mem w) p - 40) (unat (ntohs (i6_payload_length hq))) - unat (p_header_len q)) 528) (p_data_proto q) data"
proof -
  note ex = em_packet6_exact [OF em(1) p(1,2) em(2)]
  have em2: "hq = ld_ip6 (w_mem w) (p_ip6 q)" using em(2) ex(1) by simp
  note sz = em_packet6_size [OF em(1) p(1,2)] and q = em_packet6_in [OF em(1) p(1,2)]
  note fields = xlate_header_6to4_fields [OF hdr]
  let ?he = "h_em\<lparr>i4_cksum := ip_checksum (ip4_bytes h_em)\<rparr>"
  have cf: "conf g2 = conf (w_g w)" "conf g3 = conf (w_g w)"
    using conf_map6 [of "i6_src hq" False "w_g w"] conf_map6 [of "i6_dest hq" False g1] conf_map6 [of "i6_src h" False g2] map omap
    by simp_all
  obtain k where w2: "w2 = w\<lparr>w_g := g2, w_ident := k\<rparr>"
    using xlate_header_6to4_world [OF hdr] by auto
  have o: "payload_only q w2 q' w3" using payload_6to4_only [OF pay] q by (simp add: icmp_in_def)
  obtain m where w3: "w3 = w\<lparr>w_g := g2, w_ident := k, w_mem := m\<rparr>" using o by (auto simp: payload_only_def w2)
  have ip6: "ld_ip6 m (p_ip6 p) = h"
    unfolding h by (rule ld_ip6_cong) (use o p(3) sz(2) in \<open>auto simp: payload_only_def w2 w3\<close>)
  have len: "p_data_len q' = p_data_len q" using payload_only_pkt [OF o] by simp
  let ?w5 = "w\<lparr>w_g := g4, w_ident := k, w_mem := m\<rparr>"
  have m1: "with_g (map_ip6_to_ip4 (i6_src hq) False) w = (Inr es, w\<lparr>w_g := g1\<rparr>)"
    "with_g (map_ip6_to_ip4 (i6_dest hq) False) (w\<lparr>w_g := g1\<rparr>) = (Inr ed, w\<lparr>w_g := g2\<rparr>)"
    "with_g (map_ip6_to_ip4 (i6_src h) False) w3 = (r, w3\<lparr>w_g := g3\<rparr>)"
    "with_g (map_ip6_to_ip4 (i6_dest h) False) (w3\<lparr>w_g := g3\<rparr>) = (Inr dest, ?w5)"
    using map omap by (simp_all add: with_g_def w3)
  have g: "g_local_addr4 g3 = g_local_addr4 (w_g w)" using cf by (simp add: conf_def)
  have s: "(case r of Inl _ \<Rightarrow> g_local_addr4 (w_g (w3\<lparr>w_g := g3\<rparr>)) | Inr a \<Rightarrow> a) = src"
    unfolding src by (simp add: g split: sum.split)
  have mem: "w_mem w3 = m" by (simp add: w3)
  have x: "xlate_6to4_icmp_error p w = send_error4 p ic ?he q' src dest ?w5"
    unfolding xlate_6to4_icmp_error_def em(1) option.case Let_def ic em2 [symmetric] m1(1,2) sum.case prod.case hdr pay
      mem ip6 m1(3) s using m1(4) ip6 by (simp add: w3)
  have fit: "48 + unat (p_data_len q') \<le> 576" using sz(1) len by simp
  have "unat (28 + p_data_len q') = 28 + unat (p_data_len q')" using fit by (simp add: unat_word_ariths)
  then have i: "ident_6to4 (p\<lparr>p_data_len := 28 + p_data_len q'\<rparr>) ?w5 = (htons k, 0)"
    using p(5) fit by (simp add: ident_6to4_def frag_of_def)
  have pb: "q' = q" "same_but (csum_field (p_data_proto q)) (p_data q) w2 w3"
    using payload_6to4_bytes [OF pay ex(6,4)] ex(5) by simp_all
  have qu: "quotes (w_mem w) (p_data p + 48 + unat (p_header_len q))
        (min (min (quoted_len6 (w_mem w) p - 40) (unat (ntohs (i6_payload_length hq))) - unat (p_header_len q)) 528) (p_data_proto q)
        (pkt_payload m q')"
    using same_but_quotes [OF pb(2), of q' "unat (p_data_len q)"] pb(1) ex(2,3) by (simp add: w3 w2)
  have he: "i4_ttl h_em = i6_hop_limit hq" "i4_proto h_em = (if p_data_proto q = 58 then 1 else p_data_proto q)"
    using xlate_header_6to4_kind [OF hdr] by (simp_all add: em2)
  have pf: "plain_frame ?w5 = plain_frame w" by (simp add: plain_frame_def fun_eq_iff)
  have hm: "ld_ip6 (w_mem ?w5) (p_ip6 p) = h" using ip6 by simp
  obtain ck where tx: "w_tx (send_error4 p ic ?he q' src dest ?w5) = w_tx w @ [plain_frame w
        (ip4_bytes (header_6to4 h 1 (28 + p_data_len q) (htons k, 0) src dest) @ icmp_bytes (ic\<lparr>ic_cksum := ck\<rparr>) @ ip4_bytes ?he
         @ pkt_payload m q')]"
    "ip_checksum (icmp_bytes (ic\<lparr>ic_cksum := ck\<rparr>) @ ip4_bytes ?he @ pkt_payload m q') = 0"
    using send_error4_sends [where w = ?w5 and q = q' and p = p and src = src and dest = dest and ic = ic and h_em = ?he]
      dev fit p(4) unfolding hm i pf by (auto simp: vnet_ok_def len)
  show ?thesis
    using tx fit header_6to4_sealed [of h 1 "28 + p_data_len q" "(htons k, 0)" src dest] fields ip4_checksum_sealed [OF fields(3)] qu he
    unfolding x by (intro exI [of _ ck] exI [of _ "pkt_payload m q'"] exI [of _ k]) (simp add: len)
qed

end
