(* ===== verification/Gso_Progress.thy ===== *)
theory Gso_Progress
  imports World_Laws
begin

text \<open>
  Segmentation offload makes progress: the segmentation loops end, and the routines keep the state
  consistent, only append frames and write only into the frame and the headroom before it.
\<close>

section \<open>The segmentation loop\<close>

text \<open>The size of the next segment.\<close>

lemma seg_step:
  fixes len n off :: u32
  assumes "off < len" "n \<noteq> 0"
  defines "k \<equiv> if len - off > n then n else len - off"
  shows "k \<noteq> 0" "unat k = min (unat n) (unat len - unat off)" "unat (off + k) = unat off + unat k"
    "unat off < unat (off + k)" "unat (off + k) \<le> unat len"
proof -
  have le: "off \<le> len" using assms(1) by simp
  have sub: "unat (len - off) = unat len - unat off" by (rule unat_sub [OF le])
  have lt: "unat off < unat len" using assms(1) by (simp add: word_less_nat_alt)
  show u: "unat k = min (unat n) (unat len - unat off)"
    using sub by (auto simp: k_def word_less_nat_alt)
  have "0 < unat n" using assms(2) by (simp add: unat_gt_0)
  then have k0: "0 < unat k" using u lt by simp
  then show "k \<noteq> 0" by auto
  have "unat off + unat k \<le> unat len" using u lt by simp
  moreover have "unat len < 2 ^ LENGTH(32)" by (rule unsigned_less)
  ultimately show s: "unat (off + k) = unat off + unat k" by (simp add: unat_word_ariths)
  show "unat off < unat (off + k)" "unat (off + k) \<le> unat len"
    using s k0 \<open>unat off + unat k \<le> unat len\<close> by simp_all
qed

lemma segment_loop_ends:
  assumes "gso_size \<noteq> 0"
  shows "\<exists>r w'. segment_loop build payload len gso_size off n w = Some (r, w') \<and> progress lo hi w w'"
proof (induction "unat len - unat off" arbitrary: off n w rule: less_induct)
  case less
  show ?case
  proof (cases "off < len \<or> off = 0 \<and> len = 0")
    case False
    then have "segment_loop build payload len gso_size off n w = Some (0, w)"
      by (subst segment_loop.simps) auto
    then show ?thesis by auto
  next
    case True
    define k where "k = (if len - off > gso_size then gso_size else len - off)"
    show ?thesis
    proof (cases "build off k n w")
      case None
      then have "segment_loop build payload len gso_size off n w = Some (-1, w)"
        using True by (subst segment_loop.simps) (simp add: Let_def flip: k_def)
      then show ?thesis by auto
    next
      case (Some t)
      obtain hdr n' where t: "build off k n w = Some (hdr, n')" using Some by (cases t) auto
      let ?iov = "if k > 0 then [hdr, load (w_mem w) (payload + unat off) (unat k)] else [hdr]"
      obtain ret w1 where r: "tun_writev ?iov w = (ret, w1)" by fastforce
      have p1: "progress lo hi w w1" using progress_writev [of lo hi w ?iov] r by simp
      have e: "segment_loop build payload len gso_size off n w =
          (if ret > 0 then if off + k \<ge> len then Some (0, w1) else segment_loop build payload len gso_size (off + k) n' w1
           else Some (-1, w1))"
        using True r by (subst segment_loop.simps) (simp add: Let_def t flip: k_def cong: if_cong)
      have "\<exists>r w'. segment_loop build payload len gso_size (off + k) n' w1 = Some (r, w') \<and> progress lo hi w1 w'"
        if "\<not> off + k \<ge> len"
      proof (rule less.hyps)
        have "off < len" using True that by (auto simp: k_def)
        from seg_step [OF this assms, folded k_def] show "unat len - unat (off + k) < unat len - unat off"
          by linarith
      qed
      then show ?thesis unfolding e using p1 progress_trans [OF p1] by (cases "off + k \<ge> len") auto
    qed
  qed
qed


section \<open>Whole frames\<close>

definition gso_in :: "nat \<Rightarrow> nat \<Rightarrow> pkt \<Rightarrow> bool" where
  "gso_in lo hi p \<longleftrightarrow> lo + 32 \<le> p_data p \<and> p_data p + unat (p_data_len p) \<le> hi"

lemma progress_gso_icmp4: "progress lo hi w (gso_icmp4 t c x l proto p w)"
  and progress_gso_icmp6: "progress lo hi w (gso_icmp6 t c x proto p w)"
  by (simp_all add: gso_icmp4_def gso_icmp6_def Let_def progress_icmp4_error progress_icmp6_error)

lemma progress_gso_map_6to4: "gso_map_6to4_with_icmp p proto w = (r, w') \<Longrightarrow> progress lo hi w w'"
  by (auto simp: gso_map_6to4_with_icmp_def Let_def then_progress_def progress_gso_icmp6
      split: sum.splits prod.splits if_splits dest!: then_map6 [where lo = lo and hi = hi])

lemma progress_gso_map_4to6: "gso_map_4to6_with_icmp p l proto w = (r, w') \<Longrightarrow> progress lo hi w w'"
  by (auto simp: gso_map_4to6_with_icmp_def Let_def then_progress_def progress_gso_icmp4
      split: sum.splits prod.splits if_splits dest!: then_map4 [where lo = lo and hi = hi])

text \<open>Storing a header and writing the frame that starts with it.\<close>

lemma progress_store_inplace:
  assumes "progress lo hi w0 w" "vnet_ok w0" "lo + 12 \<le> a" "a + length bs \<le> hi"
  shows "progress lo hi w0 (snd (tun_write_vnet_inplace v a n (w\<lparr>w_mem := store (w_mem w) a bs\<rparr>)))"
proof -
  let ?w = "w\<lparr>w_mem := store (w_mem w) a bs\<rparr>"
  have p: "progress lo hi w0 ?w" by (rule progress_trans [OF assms(1) progress_store]) (use assms in simp_all)
  have "vnet_ok ?w" by (rule progress_vnet_ok [OF p assms(2)])
  with vnet_le [OF this] show ?thesis
    by (intro progress_trans [OF p progress_inplace]) (use assms(3,4) in simp_all)
qed

lemma progress_split_head:
  assumes "vnet_ok w" "gso_in lo hi p" "60 \<le> unat (p_data_len p)"
  shows "progress lo hi w (send_split_head p tos ttl s d thl hp w)"
  unfolding send_split_head_def Let_def
  by (rule progress_store_inplace [OF progress_store assms(1)]) (use assms in \<open>simp_all add: gso_in_def\<close>)

lemma progress_split_tail:
  assumes "vnet_ok w" "gso_in lo hi p" "40 + unat thl + unat hp \<le> unat (p_data_len p)" "20 \<le> unat thl"
  shows "progress lo hi w (send_split_tail p tos ttl s d thl hp tail fl sq w)"
proof -
  let ?tcp = "p_data p + 40" and ?pay = "p_data p + 40 + unat thl + unat hp"
  let ?tt = "?pay - unat thl"
  let ?w1 = "w\<lparr>w_mem := store (w_mem w) ?tt (load (w_mem w) ?tcp (unat thl))\<rparr>"
  obtain n w2 where i: "next_ip4_ident ?w1 = (n, w2)" by fastforce
  have b: "lo + 32 \<le> p_data p" "?pay \<le> hi" "?tt = p_data p + 40 + unat hp"
    using assms by (simp_all add: gso_in_def)
  have p1: "progress lo hi w ?w1" by (rule progress_store) (use b in simp_all)
  have p2: "progress lo hi w w2"
    using i progress_trans [OF p1 progress_ident] by (auto simp: next_ip4_ident_def reserve_ip4_ident_def)
  let ?hdr = "\<lambda>h. w2\<lparr>w_mem := store (w_mem w2) (?tt - 20) (ip4_bytes h)\<rparr>"
  have p3: "progress lo hi w (?hdr h)" for h
    by (rule progress_trans [OF p2 progress_store]) (use b assms(4) in simp_all)
  have p4: "progress lo hi w (?hdr h\<lparr>w_mem := store (w_mem (?hdr h)) ?tt (tcp_bytes t)\<rparr>)" for h t
    by (rule progress_trans [OF p3 progress_store]) (use b assms(4) in simp_all)
  have v4: "vnet_ok (?hdr h\<lparr>w_mem := store (w_mem (?hdr h)) ?tt (tcp_bytes t)\<rparr>)" for h t
    by (rule progress_vnet_ok [OF p4 assms(1)])
  have p5: "progress lo hi w (snd (tun_write_vnet_inplace v (?tt - 20) k
      (?hdr h\<lparr>w_mem := store (w_mem (?hdr h)) ?tt (tcp_bytes t)\<rparr>)))" for h t v k
    by (rule progress_trans [OF p4 progress_inplace [OF v4]]) (use b vnet_le [OF v4] in simp_all)
  have p6: "progress lo hi w (snd (tun_write bs (put16 (?tt + 16) ck
      (?hdr h\<lparr>w_mem := store (w_mem (?hdr h)) ?tt (tcp_bytes t)\<rparr>))))" for h t bs ck
    unfolding tun_write_def
    by (rule progress_trans [OF progress_trans [OF p4 progress_put16] progress_writev]) (use b assms(4) in simp_all)
  show ?thesis
    unfolding send_split_tail_def Let_def i prod.case
    using p5 p6 by (simp split: if_split)
qed

lemma progress_gso_ident: "gso_ident small pl gs w = (i, f, w') \<Longrightarrow> progress lo hi w w'"
  by (auto simp: gso_ident_def reserve_ip4_ident_def progress_ident split: if_splits)

lemma progress_gso_tcp4:
  assumes "vnet_ok w" "gso_in lo hi p" "60 \<le> unat (p_data_len p)"
  shows "progress lo hi w (send_gso_tcp4 p tos ttl s d thl pl gs w)"
proof -
  have p1: "progress lo hi w (w\<lparr>w_mem := store (w_mem w) (p_data p + 40) (tcp_bytes t)\<rparr>)" for t
    by (rule progress_store) (use assms in \<open>simp_all add: gso_in_def\<close>)
  have b: "lo + 12 \<le> p_data p + 20" "p_data p + 40 \<le> hi" using assms by (simp_all add: gso_in_def)
  obtain i f w2 where c: "gso_ident (20 + thl + first_seg pl gs \<le> 1260) pl gs (w\<lparr>w_mem := store (w_mem w) (p_data p + 40)
      (tcp_bytes (gso_update_csum_seed_6to4 s d (thl + pl) (ld_tcp (w_mem w) (p_data p + 40))))\<rparr>) = (i, f, w2)"
    by (metis prod_cases3)
  show ?thesis
    unfolding send_gso_tcp4_def Let_def c prod.case
    by (rule progress_store_inplace [OF progress_trans [OF p1 progress_gso_ident [OF c]] assms(1)]) (use b in simp_all)
qed

lemma progress_gso_tcp6:
  assumes "vnet_ok w" "gso_in lo hi p" "unat ihl + unat thl + unat pl \<le> unat (p_data_len p)"
    "20 \<le> unat ihl" "20 \<le> unat thl" "unat (thl + pl) \<le> unat thl + unat pl"
  shows "progress lo hi w (send_gso_tcp6 p ihl tos ttl s d thl pl w)"
proof -
  let ?w1 = "\<lambda>t. w\<lparr>w_mem := store (w_mem w) (p_data p + unat ihl) (tcp_bytes t)\<rparr>"
  have p1: "progress lo hi w (?w1 t)" for t
    by (rule progress_store) (use assms in \<open>simp_all add: gso_in_def\<close>)
  have p2: "progress lo hi w (if ihl > 20 then ?w1 t\<lparr>w_mem := store (w_mem (?w1 t)) (p_data p + 20)
      (load (w_mem (?w1 t)) (p_data p + unat ihl) (unat (thl + pl)))\<rparr> else ?w1 t)" for t
  proof -
    have "progress lo hi w (?w1 t\<lparr>w_mem := store (w_mem (?w1 t)) (p_data p + 20) bs\<rparr>)" if "length bs = unat (thl + pl)" for bs
      by (rule progress_trans [OF p1 progress_store]) (use assms that in \<open>simp_all add: gso_in_def\<close>)
    then show ?thesis using p1 by (simp split: if_split)
  qed
  have b: "lo + 12 \<le> p_data p - 20" "p_data p - 20 + 40 \<le> hi" using assms unfolding gso_in_def by linarith+
  show ?thesis
    unfolding send_gso_tcp6_def Let_def
    by (rule progress_store_inplace [OF p2 assms(1)]) (use b in simp_all)
qed

lemma progress_gso_udp4:
  assumes "vnet_ok w" "gso_in lo hi p" "48 \<le> unat (p_data_len p)"
  shows "progress lo hi w (send_gso_udp4 p tos ttl s d ul pl gs ms w)"
proof -
  have p1: "progress lo hi w (put16 (p_data p + 40 + 6) v w)" for v
    by (rule progress_put16) (use assms in \<open>simp_all add: gso_in_def\<close>)
  have b: "lo + 12 \<le> p_data p + 20" "p_data p + 40 \<le> hi" using assms by (simp_all add: gso_in_def)
  obtain i f w2 where c: "gso_ident (ms \<le> 1260) pl gs
      (put16 (p_data p + 40 + 6) (udp_seed (gso_calc_udp_pseudo4 s d ul)) w) = (i, f, w2)"
    by (metis prod_cases3)
  show ?thesis
    unfolding send_gso_udp4_def Let_def c prod.case
    by (rule progress_store_inplace [OF progress_trans [OF p1 progress_gso_ident [OF c]] assms(1)]) (use b in simp_all)
qed

lemma progress_gso_udp6:
  assumes "vnet_ok w" "gso_in lo hi p" "28 \<le> unat (p_data_len p)"
  shows "progress lo hi w (send_gso_udp6 p tos hl s d ul w)"
proof -
  have p1: "progress lo hi w (put16 (p_data p + 20 + 6) v w)" for v
    by (rule progress_put16) (use assms in \<open>simp_all add: gso_in_def\<close>)
  have b: "lo + 12 \<le> p_data p - 20" "p_data p - 20 + 40 \<le> hi" using assms unfolding gso_in_def by linarith+
  show ?thesis
    unfolding send_gso_udp6_def Let_def
    by (rule progress_store_inplace [OF p1 assms(1)]) (use b in simp_all)
qed


section \<open>The routines\<close>

definition ends :: "nat \<Rightarrow> nat \<Rightarrow> world \<Rightarrow> (int \<times> world) option \<Rightarrow> bool" where
  "ends lo hi w x \<longleftrightarrow> (\<exists>r w'. x = Some (r, w') \<and> progress lo hi w w')"

lemma ends_Some [simp]: "ends lo hi w (Some (r, w')) \<longleftrightarrow> progress lo hi w w'"
  by (simp add: ends_def)

lemma ends_trans: "progress lo hi w w1 \<Longrightarrow> ends lo hi w1 x \<Longrightarrow> ends lo hi w x"
  by (auto simp: ends_def intro: progress_trans)

lemma ends_segment_loop: "n \<noteq> 0 \<Longrightarrow> ends lo hi w (segment_loop build payload len n off i w)"
  using segment_loop_ends unfolding ends_def by blast

lemma seg_size_pos [simp]: "seg_size p n \<noteq> 0"
  by (auto simp: seg_size_def Let_def)

lemma progress_reserve_df0: "reserve_df0 n w = (i, w') \<Longrightarrow> progress lo hi w w'"
  by (auto simp: reserve_df0_def reserve_ip4_ident_def progress_ident split: if_splits)

lemmas ends_rules = progress_gso_icmp4 progress_gso_icmp6 ends_segment_loop

lemma software_6to4_ends: "ends lo hi w (gso_software_segment_and_send_6to4 p w)"
  unfolding gso_software_segment_and_send_6to4_def Let_def
  by (auto simp: ends_rules split: prod.split sum.split dest: progress_gso_map_6to4 [where lo = lo and hi = hi]
      intro: ends_trans [OF progress_gso_map_6to4 ends_trans [OF progress_reserve_df0 ends_segment_loop]])

lemma software_4to6_ends: "ends lo hi w (gso_software_segment_and_send_4to6 p w)"
  unfolding gso_software_segment_and_send_4to6_def Let_def
  by (auto simp: ends_rules split: prod.split sum.split option.split dest: progress_gso_map_4to6 [where lo = lo and hi = hi]
      intro: ends_trans [OF progress_gso_map_4to6 ends_segment_loop])

lemma software_udp_6to4_ends: "ends lo hi w (gso_software_segment_and_send_udp_6to4 p w)"
  unfolding gso_software_segment_and_send_udp_6to4_def Let_def
  by (auto simp: ends_rules split: prod.split sum.split dest: progress_gso_map_6to4 [where lo = lo and hi = hi]
      intro: ends_trans [OF progress_gso_map_6to4 ends_trans [OF progress_reserve_df0 ends_segment_loop]])

lemma software_udp_4to6_ends: "ends lo hi w (gso_software_segment_and_send_udp_4to6 p w)"
  unfolding gso_software_segment_and_send_udp_4to6_def Let_def
  by (auto simp: ends_rules split: prod.split sum.split option.split dest: progress_gso_map_4to6 [where lo = lo and hi = hi]
      intro: ends_trans [OF progress_gso_map_4to6 ends_segment_loop])


lemma tcp_hdr_len_le: "unat (tcp_hdr_len m a) \<le> 60"
proof -
  have "unat (drop_bit 4 b :: u8) \<le> 15" for b :: u8
  proof -
    have "unat b < 2 ^ LENGTH(8)" by (rule unsigned_less)
    then show ?thesis unfolding unat_drop_bit_eq by (simp add: drop_bit_eq_div)
  qed
  then have "unat (drop_bit 4 (tcp_doff_res (ld_tcp m a))) \<le> 15" .
  moreover have "unat (ucast b * 4 :: u32) = 4 * unat b" if "unat b \<le> 15" for b :: u8
    using that by (simp add: unat_word_ariths)
  ultimately show ?thesis unfolding tcp_hdr_len_def by simp
qed

text \<open>Lengths of the parts of a frame with headers of \<open>a\<close> and \<open>b\<close> bytes.\<close>

lemma frame_parts:
  fixes len a b :: u32
  assumes "\<not> a + b > len" "unat a \<le> 60" "unat b \<le> 60"
  shows "unat (len - a - b) = unat len - unat a - unat b" "unat a + unat b \<le> unat len"
    "unat (b + (len - a - b)) = unat len - unat a"
proof -
  have ab: "unat (a + b) = unat a + unat b" using assms(2,3) by (simp add: unat_word_ariths)
  have le: "a + b \<le> len" using assms(1) by simp
  then show l: "unat a + unat b \<le> unat len" using ab by (simp add: word_le_nat_alt)
  have "len - a - b = len - (a + b)" by (rule diff_diff_eq)
  then show d: "unat (len - a - b) = unat len - unat a - unat b" using unat_sub [OF le] ab by (simp only: diff_diff_left)
  have "b + (len - a - b) = len - a" by simp
  moreover have "a \<le> len" using l by (simp add: word_le_nat_alt)
  from unat_sub [OF this] have "unat (len - a) = unat len - unat a" .
  ultimately show "unat (b + (len - a - b)) = unat len - unat a" by simp
qed

lemma div_mult_le_word: "unat ((x div n) * n :: u32) \<le> unat x"
proof -
  have "unat (x div n) = unat x div unat n" by (rule unat_div)
  then have "unat ((x div n) * n) = (unat x div unat n * unat n) mod 2 ^ LENGTH(32)"
    by (simp only: unat_word_ariths)
  also have "\<dots> \<le> unat x div unat n * unat n" by simp
  also have "\<dots> \<le> unat x" by simp
  finally show ?thesis .
qed

lemma translate_tcp_6to4_ends:
  assumes "vnet_ok w" "gso_in lo hi p"
  shows "ends lo hi w (gso_translate_tcp_6to4 p w)"
proof -
  let ?thl = "tcp_hdr_len (w_mem w) (p_data p + 40)"
  have split: "progress lo hi w (send_split_tail p tos ttl s d ?thl hp tail fl sq (send_split_head p tos ttl s d ?thl hp w1))"
    and whole: "progress lo hi w (send_gso_tcp4 p tos ttl s d ?thl pl gs w1)"
    if "progress lo hi w w1" "\<not> p_data_len p < 60" "\<not> ?thl < 20" "\<not> 40 + ?thl > p_data_len p"
      "hp = (p_data_len p - 40 - ?thl) div gs * gs" for tos ttl s d hp tail fl sq pl gs w1
  proof -
    have v1: "vnet_ok w1" by (rule progress_vnet_ok [OF that(1) assms(1)])
    have l: "60 \<le> unat (p_data_len p)" "20 \<le> unat ?thl" using that(2,3) by (simp_all add: word_less_nat_alt not_less)
    note fp = frame_parts [OF that(4) _ tcp_hdr_len_le]
    have "unat hp \<le> unat (p_data_len p) - 40 - unat ?thl"
      using div_mult_le_word [of "p_data_len p - 40 - ?thl" gs] fp(1) unfolding that(5) by simp
    then have h: "40 + unat ?thl + unat hp \<le> unat (p_data_len p)" using fp(2) by simp
    have p2: "progress lo hi w (send_split_head p tos ttl s d ?thl hp w1)"
      by (rule progress_trans [OF that(1) progress_split_head [OF v1 assms(2) l(1)]])
    show "progress lo hi w (send_split_tail p tos ttl s d ?thl hp tail fl sq (send_split_head p tos ttl s d ?thl hp w1))"
      by (rule progress_trans [OF p2 progress_split_tail [OF progress_vnet_ok [OF p2 assms(1)] assms(2) h l(2)]])
    show "progress lo hi w (send_gso_tcp4 p tos ttl s d ?thl pl gs w1)"
      by (rule progress_trans [OF that(1) progress_gso_tcp4 [OF v1 assms(2) l(1)]])
  qed
  show ?thesis
    unfolding gso_translate_tcp_6to4_def Let_def
    by (auto simp: ends_rules software_6to4_ends split: prod.split sum.split
        dest: progress_gso_map_6to4 [where lo = lo and hi = hi] intro!: split whole)
qed

lemma validated_ihl:
  assumes "gso_validate_ipv4_header m p proto = Some ihl"
  shows "unat ihl \<le> 60" "20 \<le> unat ihl" "unat ihl \<le> unat (p_data_len p)"
proof -
  let ?i = "ucast (i4_ver_ihl (ld_ip4 m (p_data p)) AND 0x0f) * 4 :: u32"
  have i: "ihl = ?i" "\<not> ?i < 20" "\<not> ?i > p_data_len p"
    using assms by (auto simp: gso_validate_ipv4_header_def Let_def split: if_splits)
  show "unat ihl \<le> 60" unfolding i(1) unat_ihl using ihl_le by simp
  show "20 \<le> unat ihl" using i(2) unfolding i(1) by (simp add: word_less_nat_alt not_less)
  show "unat ihl \<le> unat (p_data_len p)" using i(3) unfolding i(1) by (simp add: word_less_nat_alt not_less)
qed

lemma translate_tcp_4to6_ends:
  assumes "vnet_ok w" "gso_in lo hi p"
  shows "ends lo hi w (gso_translate_tcp_4to6 p w)"
proof -
  have send: "progress lo hi w (send_gso_tcp6 p ihl tos ttl s d (tcp_hdr_len m a) (p_data_len p - ihl - tcp_hdr_len m a) w1)"
    if "gso_validate_ipv4_header (w_mem w) p IPPROTO_TCP = Some ihl" "progress lo hi w w1"
      "\<not> tcp_hdr_len m a < 20" "\<not> ihl + tcp_hdr_len m a > p_data_len p" for ihl tos ttl s d m a w1
  proof (rule progress_trans [OF that(2) progress_gso_tcp6 [OF progress_vnet_ok [OF that(2) assms(1)] assms(2)]])
    note i = validated_ihl [OF that(1)]
    note fp = frame_parts [OF that(4) i(1) tcp_hdr_len_le]
    show "20 \<le> unat ihl" by (rule i(2))
    show "20 \<le> unat (tcp_hdr_len m a)" using that(3) by (simp add: word_less_nat_alt not_less)
    show "unat ihl + unat (tcp_hdr_len m a) + unat (p_data_len p - ihl - tcp_hdr_len m a) \<le> unat (p_data_len p)"
      using fp by simp
    show "unat (tcp_hdr_len m a + (p_data_len p - ihl - tcp_hdr_len m a))
        \<le> unat (tcp_hdr_len m a) + unat (p_data_len p - ihl - tcp_hdr_len m a)"
      using fp by simp
  qed
  show ?thesis
    unfolding gso_translate_tcp_4to6_def Let_def
    by (auto simp: ends_rules split: prod.split sum.split option.split
        dest: progress_gso_map_4to6 [where lo = lo and hi = hi] intro!: send)
qed

lemma translate_udp_6to4_ends:
  assumes "vnet_ok w" "gso_in lo hi p"
  shows "ends lo hi w (gso_translate_udp_6to4 p w)"
proof -
  have send: "progress lo hi w (send_gso_udp4 p tos ttl s d ul pl gs ms w1)"
    if "progress lo hi w w1" "\<not> p_data_len p < 48" for tos ttl s d ul pl gs ms w1
    by (rule progress_trans [OF that(1) progress_gso_udp4 [OF progress_vnet_ok [OF that(1) assms(1)] assms(2)]])
      (use that(2) in \<open>simp add: word_less_nat_alt not_less\<close>)
  show ?thesis
    unfolding gso_translate_udp_6to4_def Let_def
    by (auto simp: ends_rules software_udp_6to4_ends split: prod.split sum.split
        dest: progress_gso_map_6to4 [where lo = lo and hi = hi] intro!: send)
qed

lemma translate_udp_4to6_ends:
  assumes "vnet_ok w" "gso_in lo hi p"
  shows "ends lo hi w (gso_translate_udp_4to6 p w)"
proof -
  have send: "progress lo hi w (send_gso_udp6 p tos hl s d ul w1)"
    if "progress lo hi w w1" "\<not> p_data_len p < 28" for tos hl s d ul w1
    by (rule progress_trans [OF that(1) progress_gso_udp6 [OF progress_vnet_ok [OF that(1) assms(1)] assms(2)]])
      (use that(2) in \<open>simp add: word_less_nat_alt not_less\<close>)
  show ?thesis
    unfolding gso_translate_udp_4to6_def Let_def
    by (auto simp: ends_rules software_udp_4to6_ends split: prod.split sum.split option.split
        dest: progress_gso_map_4to6 [where lo = lo and hi = hi] intro!: send)
qed

end
