(* ===== verification/Handle_Laws.thy ===== *)
theory Handle_Laws
  imports Nat64_Laws Gso_Progress
begin

text \<open>
  Every received frame is processed to the end, whatever it contains and whatever the device
  answers: the state stays consistent, frames are only appended to the output and memory is
  written only inside the receive buffer.
\<close>

lemma parse_ip6_progress: "parse_ip6 p em w = (r, w') \<Longrightarrow> progress lo hi w w'"
  by (auto simp: parse_ip6_def Let_def progress_icmp6_error split: if_splits option.splits)

text \<open>A packet record as the reader makes it.\<close>

definition fresh :: "nat \<Rightarrow> nat \<Rightarrow> pkt \<Rightarrow> bool" where
  "fresh lo hi p \<longleftrightarrow> gso_in lo hi p \<and> p_header_len p = 0 \<and> p_ip6_frag p = None \<and> p_icmp p = None"

lemma parsed4_in:
  assumes "parse_ip4 m False p = Inr q" "fresh lo hi p"
  shows "pkt_in lo hi q" "icmp_in 1 q"
proof -
  have ps: "parsed4 m False p q" by (rule parse_ip4_ok [OF assms(1)])
  have "p_data q = p_data p + unat (p_header_len q)" "20 \<le> unat (p_header_len q)"
    "unat (p_header_len q) + unat (p_data_len q) \<le> unat (p_data_len p)"
    "p_data_proto q = 1 \<Longrightarrow> p_icmp q = Some (p_data q) \<and> 8 \<le> unat (p_data_len q)"
    using ps by (simp_all add: parsed4_def Let_def)
  then show "pkt_in lo hi q" "icmp_in 1 q" using assms(2) by (auto simp: fresh_def gso_in_def pkt_in_def icmp_in_def)
qed

lemma parsed6_in:
  assumes "parse_ip6 p False w = (Inr q, w')" "fresh lo hi p"
  shows "pkt_in lo hi q" "icmp_in 58 q" "w' = w"
proof -
  have "parsed6 (w_mem w) False p q" "w' = w" using parse_ip6_ok [OF assms(1)] assms(2) by (simp_all add: fresh_def)
  then have "p_data q = p_data p + 40 + unat (p_header_len q)" "w' = w"
    "40 + unat (p_header_len q) + unat (p_data_len q) \<le> unat (p_data_len p)"
    "p_data_proto q = 58 \<Longrightarrow> p_icmp q = Some (p_data q) \<and> 8 \<le> unat (p_data_len q)"
    unfolding parsed6_def Let_def by presburger+
  then show "pkt_in lo hi q" "icmp_in 58 q" "w' = w"
    using assms(2) by (auto simp: fresh_def gso_in_def pkt_in_def icmp_in_def)
qed

text \<open>The result of a handler.\<close>

definition completes :: "nat \<Rightarrow> nat \<Rightarrow> world \<Rightarrow> world option \<Rightarrow> bool" where
  "completes lo hi w x \<longleftrightarrow> (\<exists>w'. x = Some w' \<and> progress lo hi w w')"

lemma completes_Some [simp]: "completes lo hi w (Some w') \<longleftrightarrow> progress lo hi w w'"
  by (simp add: completes_def)

lemma completes_ends: "ends lo hi w x \<Longrightarrow> completes lo hi w (map_option snd x)"
  by (auto simp: ends_def completes_def)

lemma handle_ip4_completes:
  assumes "vnet_ok w" "big_mtu (w_g w)" "fresh lo hi p"
  shows "completes lo hi w (handle_ip4 p w)"
proof -
  have g: "gso_in lo hi p" using assms(3) by (simp add: fresh_def)
  have data: "completes lo hi w (xlate_4to6_data q w)" if "parse_ip4 (w_mem w) False p = Inr q" for q
    using xlate_4to6_data_ends [OF assms(1,2) parsed4_in [OF that assms(3)]] by (simp add: completes_def)
  have icmp: "progress lo hi w (xlate_4to6_icmp_error q w)" "progress lo hi w (host_handle_icmp4 q w)"
    if "parse_ip4 (w_mem w) False p = Inr q" "p_data_proto q = 1" for q
  proof -
    note q = parsed4_in [OF that(1) assms(3)]
    have i: "p_icmp q = Some (p_data q)" "8 \<le> unat (p_data_len q)" using q(2) that(2) by (simp_all add: icmp_in_def)
    show "progress lo hi w (xlate_4to6_icmp_error q w)" by (rule xlate_4to6_icmp_error_progress [OF q(1) i(2)])
    show "progress lo hi w (host_handle_icmp4 q w)"
      by (rule progress_handle_icmp4 [OF i(1)]) (use q(1) i(2) in \<open>simp_all add: pkt_in_def\<close>)
  qed
  show ?thesis
  proof (cases "p_has_vhdr p \<and> gso_type p \<noteq> VIRTIO_NET_HDR_GSO_NONE")
    case True
    then show ?thesis
      by (auto simp: handle_ip4_def translate_tcp_4to6_ends [OF assms(1) g] translate_udp_4to6_ends [OF assms(1) g]
          intro!: completes_ends)
  next
    case False
    show ?thesis
    proof (cases "parse_ip4 (w_mem w) False p")
      case (Inl e)
      then show ?thesis unfolding handle_ip4_def if_not_P [OF False] by simp
    next
      case (Inr q)
      show ?thesis
        unfolding handle_ip4_def if_not_P [OF False] Inr sum.case Let_def
        by (simp add: progress_icmp4_error data [OF Inr] icmp [OF Inr])
    qed
  qed
qed

lemma handle_ip6_completes:
  assumes "vnet_ok w" "fresh lo hi p"
  shows "completes lo hi w (handle_ip6 p w)"
proof -
  have g: "gso_in lo hi p" using assms(2) by (simp add: fresh_def)
  have data: "progress lo hi w (xlate_6to4_data q w)" if "parse_ip6 p False w = (Inr q, w')" for q w'
    by (rule xlate_6to4_data_progress [OF assms(1) parsed6_in(1,2) [OF that assms(2)]])
  have icmp: "progress lo hi w (xlate_6to4_icmp_error q w)" "progress lo hi w (host_handle_icmp6 q w)"
    if "parse_ip6 p False w = (Inr q, w')" "p_data_proto q = 58" for q w'
  proof -
    note q = parsed6_in [OF that(1) assms(2)]
    have i: "p_icmp q = Some (p_data q)" "8 \<le> unat (p_data_len q)" using q(2) that(2) by (simp_all add: icmp_in_def)
    show "progress lo hi w (xlate_6to4_icmp_error q w)" by (rule xlate_6to4_icmp_error_progress [OF q(1) i(2)])
    show "progress lo hi w (host_handle_icmp6 q w)"
      by (rule progress_handle_icmp6 [OF i(1)]) (use q(1) i(2) in \<open>simp_all add: pkt_in_def\<close>)
  qed
  show ?thesis
  proof (cases "p_has_vhdr p \<and> gso_type p \<noteq> VIRTIO_NET_HDR_GSO_NONE")
    case True
    then show ?thesis
      by (auto simp: handle_ip6_def translate_tcp_6to4_ends [OF assms(1) g] translate_udp_6to4_ends [OF assms(1) g]
          intro!: completes_ends)
  next
    case False
    obtain r w' where r: "parse_ip6 p False w = (r, w')" by fastforce
    show ?thesis
    proof (cases r)
      case (Inl e)
      then show ?thesis using False r parse_ip6_progress [OF r] by (simp only: handle_ip6_def if_False prod.case sum.case completes_Some)
    next
      case (Inr q)
      with r have pr': "parse_ip6 p False w = (Inr q, w')" by simp
      have "w' = w" by (rule parsed6_in(3) [OF pr' assms(2)])
      with pr' have pr: "parse_ip6 p False w = (Inr q, w)" by (simp only:)
      show ?thesis
        unfolding handle_ip6_def if_not_P [OF False] pr prod.case sum.case Let_def
        by (simp add: progress_icmp6_error data [OF pr] icmp [OF pr])
    qed
  qed
qed

section \<open>A received frame\<close>

lemma frame_pkt_fresh:
  assumes "frame_pkt w ret fd = Some p" "ret \<le> int (RECV_BUF_SIZE - HEADROOM + w_vnet w)" "vnet_ok w"
  shows "fresh 32 RECV_BUF_SIZE p"
proof -
  have v: "w_vnet w \<le> 12" by (rule vnet_le [OF assms(3)])
  have n: "\<exists>n. p_data_len p = word_of_nat n \<and> n \<le> RECV_BUF_SIZE - HEADROOM"
  proof (cases "w_vnet w > 0")
    case True
    then have "p_data_len p = word_of_int (int (nat (ret - int (w_vnet w))))" "nat (ret - int (w_vnet w)) \<le> RECV_BUF_SIZE - HEADROOM"
      using assms(1,2) by (auto simp: frame_pkt_def split: if_splits)
    then show ?thesis by (metis of_int_of_nat_eq)
  next
    case False
    then have "p_data_len p = word_of_int (int (nat ret))" "nat ret \<le> RECV_BUF_SIZE - HEADROOM"
      using assms(1,2) by (auto simp: frame_pkt_def split: if_splits)
    then show ?thesis by (metis of_int_of_nat_eq)
  qed
  then obtain n where n: "p_data_len p = word_of_nat n" "n \<le> RECV_BUF_SIZE - HEADROOM" by blast
  then have "unat (p_data_len p) = n" by (simp add: unat_of_nat RECV_BUF_SIZE_def HEADROOM_def)
  moreover have "p_data p = HEADROOM \<and> p_header_len p = 0 \<and> p_ip6_frag p = None \<and> p_icmp p = None"
    using assms(1) by (auto simp: frame_pkt_def pkt_zero_def split: if_splits)
  ultimately show ?thesis using n(2) by (auto simp: fresh_def gso_in_def RECV_BUF_SIZE_def HEADROOM_def)
qed

lemma tun_process_frame_completes:
  assumes "vnet_ok w" "big_mtu (w_g w)" "ret \<le> int (read_len w)"
  shows "completes 32 RECV_BUF_SIZE w (tun_process_frame ret fd w)"
proof (cases "frame_pkt w ret fd")
  case None
  then show ?thesis by (simp add: tun_process_frame_def)
next
  case (Some p)
  have f: "fresh 32 RECV_BUF_SIZE p" by (rule frame_pkt_fresh [OF Some assms(3) [unfolded read_len_def] assms(1)])
  show ?thesis
    using handle_ip4_completes [OF assms(1,2) f] handle_ip6_completes [OF assms(1) f] by (simp add: tun_process_frame_def Some)
qed

lemma tun_read_packet_ends:
  assumes "vnet_ok w" "big_mtu (w_g w)" "\<And>bytes. input = Inr bytes \<Longrightarrow> length bytes \<le> read_len w"
  shows "\<exists>r w'. tun_read_packet input fd w = Some (r, w') \<and> progress 32 RECV_BUF_SIZE w w'"
proof (cases input)
  case (Inl e)
  then show ?thesis by (auto simp: tun_read_packet_def progress_def)
next
  case (Inr bytes)
  let ?w = "w\<lparr>w_mem := store (w_mem w) (HEADROOM - w_vnet w) bytes\<rparr>"
  have p: "progress 32 RECV_BUF_SIZE w ?w"
    by (rule progress_store) (use assms(3) [OF Inr] vnet_le [OF assms(1)] in \<open>simp_all add: read_len_def HEADROOM_def RECV_BUF_SIZE_def\<close>)
  have "completes 32 RECV_BUF_SIZE ?w (tun_process_frame (int (length bytes)) fd ?w)"
    by (rule tun_process_frame_completes) (use assms(3) [OF Inr] assms(1,2) in \<open>simp_all add: vnet_ok_def read_len_def\<close>)
  then show ?thesis using p progress_trans [OF p] by (auto simp: tun_read_packet_def Inr completes_def Let_def)
qed

end
