(* ===== verification/Sample_World.thy ===== *)
theory Sample_World
  imports Error_Laws Samples Handle_Laws
begin

text \<open>
  Concrete received packets on which the properties are applied: a world in offload mode with one
  packet in the receive buffer, from 198.51.100.7 to 198.51.100.9 or between their translations.
  The cache is off, so a lookup leaves the state as it is.
\<close>

definition packet_world :: "u8 list \<Rightarrow> world" where
  "packet_world bytes = \<lparr>w_g = sample_state\<lparr>g_cache_size := 0, g_udp_cksum_mode := UDP_CKSUM_CALC\<rparr>, w_vnet = 12,
     w_offload = True, w_has_uso = False, w_ident = 7, w_mem = store (\<lambda>_. 0) HEADROOM bytes, w_io = [],
     w_errno = EIO, w_tx = []\<rparr>"

lemma packet_world_simps [simp]:
  "w_g (packet_world b) = sample_state\<lparr>g_cache_size := 0, g_udp_cksum_mode := UDP_CKSUM_CALC\<rparr>"
  "w_vnet (packet_world b) = 12" "w_io (packet_world b) = []" "w_tx (packet_world b) = []" "w_ident (packet_world b) = 7"
  "w_mem (packet_world b) = store (\<lambda>_. 0) HEADROOM b" "w_offload (packet_world b)" "w_has_uso (packet_world b) = False"
  by (simp_all add: packet_world_def)

lemma packet_world_ok: "vnet_ok (packet_world b)" "big_mtu (w_g (packet_world b))" "g_mtu (w_g (packet_world b)) = 1500"
  "frag_limit (w_g (packet_world b)) = 1240"
  by (simp_all add: vnet_ok_def big_mtu_def frag_limit_def sample_state_def sample_base_def)

lemma packet_world_inv: "translation_inv (w_g (packet_world b))"
proof -
  have "store_inv (w_g (packet_world b)) = store_inv sample_state"
    by (rule store_cong) (simp_all add: maps_of_def fun_eq_iff)
  then show ?thesis
    using sample_cache sample_pool sample_tables sample_store
    by (simp add: translation_inv_def cache_inv_def pool_inv_def pool_shape_def pool_core_def sample_state_def sample_base_def
        free_at_def leases_def init_pool_def)
qed

text \<open>The two hosts.\<close>

definition host7 :: in_addr where "host7 = ip4_lit 198 51 100 7"
definition host9 :: in_addr where "host9 = ip4_lit 198 51 100 9"
definition host7_6 :: in6_addr where "host7_6 = ip6_lit 0x20010db8 0x00640000 0 7"
definition host9_6 :: in6_addr where "host9_6 = ip6_lit 0x20010db8 0x00640000 0 9"

lemma hosts_map4:
  "map_ip4_to_ip6 host7 (w_g (packet_world b)) = (Inr host7_6, w_g (packet_world b))"
  "map_ip4_to_ip6 host9 (w_g (packet_world b)) = (Inr host9_6, w_g (packet_world b))"
  by (simp_all add: map_ip4_to_ip6_def map4_slow_def sample_state_def sample_base_def pool_map_def net_static_def wkpf_static_def
      mk4_def mk6_def eam_embed_def eam_suffix4_def or_word_def validate_ip6_addr_def s6_addr16_0_def
      WKPF_def in6_is_in_net_def eval_addr Let_def host7_def host9_def host7_6_def host9_6_def)

lemma hosts_map6:
  "map_ip6_to_ip4 host7_6 d (w_g (packet_world b)) = (Inr host7, w_g (packet_world b))"
  "map_ip6_to_ip4 host9_6 d (w_g (packet_world b)) = (Inr host9, w_g (packet_world b))"
  by (simp_all add: map_ip6_to_ip4_def map6_slow_def map6_entry_def sample_state_def sample_base_def pool_map_def net_static_def wkpf_static_def
      mk4_def mk6_def eam_extract_def or_word_def validate_ip4_addr_def s6_addr16_0_def
      WKPF_def in6_is_in_net_def eval_addr Let_def host7_def host9_def host7_6_def host9_6_def)

section \<open>Packets\<close>

lemma load_part: "i + n \<le> length bs \<Longrightarrow> load (store m a bs) (a + i) n = take n (drop i bs)"
  by (rule nth_equalityI) (auto simp: store_def)

lemma store_part: "i < length bs \<Longrightarrow> store m a bs (a + i) = bs ! i"
  by (simp add: store_def)

lemma ld_ip4_store: "ld_ip4 (store m a (ip4_bytes h @ bs)) a = h"
proof -
  let ?m = "store m a (ip4_bytes h @ bs)"
  have b: "?m a = i4_ver_ihl h" "?m (a + 1) = i4_tos h" "?m (a + 8) = i4_ttl h" "?m (a + 9) = i4_proto h"
    using store_part [of 0 "ip4_bytes h @ bs" m a] store_part [of 1 "ip4_bytes h @ bs" m a]
      store_part [of 8 "ip4_bytes h @ bs" m a] store_part [of 9 "ip4_bytes h @ bs" m a]
    by (simp_all add: ip4_bytes_def nth_append)
  have w: "ld16 ?m (a + 2) = i4_length h" "ld16 ?m (a + 4) = i4_ident h" "ld16 ?m (a + 6) = i4_flags_offset h"
    "ld16 ?m (a + 10) = i4_cksum h" "ld32 ?m (a + 12) = i4_src h" "ld32 ?m (a + 16) = i4_dest h"
    unfolding ld16_def ld32_def by (subst load_part, simp, simp add: ip4_bytes_def le_word_le_bytes)+
  show ?thesis unfolding ld_ip4_def b w by simp
qed

lemma ld_ip6_store: "ld_ip6 (store m a (ip6_bytes h @ bs)) a = h"
proof -
  let ?m = "store m a (ip6_bytes h @ bs)"
  have b: "?m (a + 6) = i6_next_header h" "?m (a + 7) = i6_hop_limit h"
    using store_part [of 6 "ip6_bytes h @ bs" m a] store_part [of 7 "ip6_bytes h @ bs" m a]
    by (simp_all add: ip6_bytes_def nth_append)
  have "ld32 ?m a = i6_ver_tc_fl h"
    using load_part [of 0 4 "ip6_bytes h @ bs" m a] by (simp add: ld32_def) (simp add: ip6_bytes_def le_word_le_bytes)
  then show ?thesis
    by (simp add: ld_ip6_def ld16_def ld_in6_def load_part b) (simp add: ip6_bytes_def le_word_le_bytes)
qed

text \<open>A header of each family between the two hosts, with \<open>n\<close> bytes of payload.\<close>

definition header4 :: "u8 \<Rightarrow> u16 \<Rightarrow> nat \<Rightarrow> ip4" where
  "header4 proto fo n = \<lparr>i4_ver_ihl = 0x45, i4_tos = 0, i4_length = htons (word_of_nat (20 + n)), i4_ident = htons 5,
     i4_flags_offset = htons fo, i4_ttl = 64, i4_proto = proto, i4_cksum = 0, i4_src = host7, i4_dest = host9\<rparr>"

definition header6 :: "u8 \<Rightarrow> nat \<Rightarrow> ip6" where
  "header6 proto n = \<lparr>i6_ver_tc_fl = htonl 0x60000000, i6_payload_length = htons (word_of_nat n), i6_next_header = proto,
     i6_hop_limit = 64, i6_src = host7_6, i6_dest = host9_6\<rparr>"

definition world4 :: "u8 \<Rightarrow> u16 \<Rightarrow> u8 list \<Rightarrow> world" where
  "world4 proto fo seg = packet_world (ip4_bytes (header4 proto fo (length seg)) @ seg)"

definition world6 :: "u8 \<Rightarrow> u8 list \<Rightarrow> world" where
  "world6 proto seg = packet_world (ip6_bytes (header6 proto (length seg)) @ seg)"

text \<open>The packet record of each, as the parser fills it.\<close>

definition packet4 :: "u8 \<Rightarrow> nat \<Rightarrow> pkt" where
  "packet4 proto n = pkt_zero\<lparr>p_ip4 := HEADROOM, p_data := HEADROOM + 20, p_data_len := word_of_nat n,
     p_header_len := 20, p_data_proto := proto, p_has_vhdr := True, p_icmp := if proto = 1 then Some (HEADROOM + 20) else None\<rparr>"

definition packet6 :: "u8 \<Rightarrow> nat \<Rightarrow> pkt" where
  "packet6 proto n = pkt_zero\<lparr>p_ip6 := HEADROOM, p_data := HEADROOM + 40, p_data_len := word_of_nat n,
     p_data_proto := proto, p_has_vhdr := True, p_icmp := if proto = 58 then Some (HEADROOM + 40) else None\<rparr>"

lemma world4_facts:
  "ld_ip4 (w_mem (world4 proto fo seg)) (p_ip4 (packet4 proto n)) = header4 proto fo (length seg)"
  "length seg < 65516 \<Longrightarrow> pkt_payload (w_mem (world4 proto fo seg)) (packet4 proto (length seg)) = seg"
  "w_mem (world4 proto fo (b # seg)) (HEADROOM + 20) = b"
proof -
  show "ld_ip4 (w_mem (world4 proto fo seg)) (p_ip4 (packet4 proto n)) = header4 proto fo (length seg)"
    by (simp add: world4_def packet4_def ld_ip4_store)
  show "pkt_payload (w_mem (world4 proto fo seg)) (packet4 proto (length seg)) = seg" if "length seg < 65516"
    using that by (simp add: world4_def packet4_def pkt_payload_def unat_of_nat load_part)
  show "w_mem (world4 proto fo (b # seg)) (HEADROOM + 20) = b"
    by (simp add: world4_def store_part nth_append)
qed

lemma world6_facts:
  "ld_ip6 (w_mem (world6 proto seg)) (p_ip6 (packet6 proto n)) = header6 proto (length seg)"
  "length seg < 65516 \<Longrightarrow> pkt_payload (w_mem (world6 proto seg)) (packet6 proto (length seg)) = seg"
  "w_mem (world6 proto (b # seg)) (HEADROOM + 40) = b"
proof -
  show "ld_ip6 (w_mem (world6 proto seg)) (p_ip6 (packet6 proto n)) = header6 proto (length seg)"
    by (simp add: world6_def packet6_def ld_ip6_store)
  show "pkt_payload (w_mem (world6 proto seg)) (packet6 proto (length seg)) = seg" if "length seg < 65516"
    using that by (simp add: world6_def packet6_def pkt_payload_def unat_of_nat load_part)
  show "w_mem (world6 proto (b # seg)) (HEADROOM + 40) = b"
    by (simp add: world6_def store_part nth_append)
qed

text \<open>A UDP datagram with the payload \<open>hi\<close> and its checksum in either family.\<close>

definition udp_hi :: "u16 \<Rightarrow> u8 list" where
  "udp_hi ck = [3, 232, 0, 53, 0, 10] @ le_bytes 2 (htons ck) @ [104, 105]"

definition echo_message :: "u8 \<Rightarrow> u16 \<Rightarrow> u8 list" where
  "echo_message type ck = [type, 0] @ le_bytes 2 (htons ck) @ [0, 1, 0, 2]"

lemma length_samples [simp]: "length (udp_hi ck) = 10" "length (echo_message type ck) = 8"
  by (simp_all add: udp_hi_def echo_message_def)

text \<open>A long datagram without a checksum.\<close>

definition udp_long :: "u8 list" where
  "udp_long = [3, 232, 0, 53, 5, 128, 0, 0] @ replicate 1400 0"

lemma length_udp_long: "length udp_long = 1408"
  by (simp add: udp_long_def)

lemma world4_ld16: "i + 2 \<le> length seg \<Longrightarrow>
    ld16 (w_mem (world4 proto fo seg)) (p_data (packet4 proto' n) + i) = le_word (take 2 (drop i seg))"
  using load_part [of "20 + i" 2 "ip4_bytes (header4 proto fo (length seg)) @ seg" "\<lambda>_. 0" HEADROOM]
  by (simp add: ld16_def world4_def packet4_def add.assoc)

lemma world6_ld16: "i + 2 \<le> length seg \<Longrightarrow>
    ld16 (w_mem (world6 proto seg)) (p_data (packet6 proto' n) + i) = le_word (take 2 (drop i seg))"
  using load_part [of "40 + i" 2 "ip6_bytes (header6 proto (length seg)) @ seg" "\<lambda>_. 0" HEADROOM]
  by (simp add: ld16_def world6_def packet6_def add.assoc)

section \<open>Evaluation\<close>

lemma le_bytes_2: "le_bytes 2 w = [ucast w, ucast (drop_bit 8 w)]"
  by (simp add: le_bytes_def upt_rec)

lemma udp_hi_bytes: "udp_hi 0x3edc = [3, 232, 0, 53, 0, 10, 0x3e, 0xdc, 104, 105]"
  "udp_hi 0x370a = [3, 232, 0, 53, 0, 10, 0x37, 0x0a, 104, 105]"
  by (simp_all add: udp_hi_def le_bytes_2 bswap16_def)

lemma echo_bytes: "echo_message 8 0xf7fc = [8, 0, 0xf7, 0xfc, 0, 1, 0, 2]"
  "echo_message 128 0x2370 = [128, 0, 0x23, 0x70, 0, 1, 0, 2]"
  by (simp_all add: echo_message_def le_bytes_2 bswap16_def)

lemma host_words: "host7 = 0x076433c6" "host9 = 0x096433c6"
  "host7_6 = \<lparr>a0 = 0xb80d0120, a1 = 0x6400, a2 = 0, a3 = 0x07000000\<rparr>"
  "host9_6 = \<lparr>a0 = 0xb80d0120, a1 = 0x6400, a2 = 0, a3 = 0x09000000\<rparr>"
  by (simp_all add: host7_def host9_def host7_6_def host9_6_def ip4_lit_def eval_addr)

lemma sample_valid:
  "valid4 host7 host9 17 (udp_hi 0x3edc)" "valid6 host7_6 host9_6 17 (udp_hi 0x370a)"
  "ip_checksum (echo_message 8 0xf7fc) = 0" "valid6 host7_6 host9_6 58 (echo_message 128 0x2370)"
  unfolding udp_hi_bytes host_words echo_bytes ip_checksum_0_iff
  by (simp_all add: valid4_def valid6_def pseudo4_def pseudo6_def hsum_def in6_words_def bswap16_def bswap32_def)

section \<open>The world of a sample packet\<close>

lemma world4_dev: "vnet_ok (world4 proto fo seg)" "w_io (world4 proto fo seg) = []" "big_mtu (w_g (world4 proto fo seg))"
  "g_mtu (w_g (world4 proto fo seg)) = 1500" "frag_limit (w_g (world4 proto fo seg)) = 1240"
  "g_udp_cksum_mode (w_g (world4 proto fo seg)) = UDP_CKSUM_CALC"
  using packet_world_ok by (simp_all add: world4_def del: packet_world_simps add: packet_world_simps(3)) simp

lemma world6_dev: "vnet_ok (world6 proto seg)" "w_io (world6 proto seg) = []" "big_mtu (w_g (world6 proto seg))"
  "g_mtu (w_g (world6 proto seg)) = 1500" "frag_limit (w_g (world6 proto seg)) = 1240"
  "g_udp_cksum_mode (w_g (world6 proto seg)) = UDP_CKSUM_CALC"
  using packet_world_ok by (simp_all add: world6_def del: packet_world_simps add: packet_world_simps(3)) simp

lemma world4_map:
  "map_ip4_to_ip6 (i4_dest (header4 proto fo n)) (w_g (world4 proto' fo' seg)) = (Inr host9_6, w_g (world4 proto' fo' seg))"
  "map_ip4_to_ip6 (i4_src (header4 proto fo n)) (w_g (world4 proto' fo' seg)) = (Inr host7_6, w_g (world4 proto' fo' seg))"
  unfolding world4_def header4_def ip4.simps by (rule hosts_map4)+

lemma world6_map:
  "map_ip6_to_ip4 (i6_dest (header6 proto n)) d (w_g (world6 proto' seg)) = (Inr host9, w_g (world6 proto' seg))"
  "map_ip6_to_ip4 (i6_src (header6 proto n)) d (w_g (world6 proto' seg)) = (Inr host7, w_g (world6 proto' seg))"
  unfolding world6_def header6_def ip6.simps by (rule hosts_map6)+

lemma sample_plain [simp]: "\<not> needs_csum (packet4 proto n)" "\<not> needs_csum (packet6 proto n)"
  by (simp_all add: needs_csum_def packet4_def packet6_def pkt_zero_def vnet_zero_def)

lemma packet4_simps [simp]:
  "p_data (packet4 proto n) = 84" "p_ip4 (packet4 proto n) = 64" "p_data_len (packet4 proto n) = word_of_nat n"
  "p_data_proto (packet4 proto n) = proto" "p_header_len (packet4 proto n) = 20"
  by (simp_all add: packet4_def HEADROOM_def)

lemma packet6_simps [simp]:
  "p_data (packet6 proto n) = 104" "p_ip6 (packet6 proto n) = 64" "p_data_len (packet6 proto n) = word_of_nat n"
  "p_data_proto (packet6 proto n) = proto" "p_header_len (packet6 proto n) = 0" "p_ip6_frag (packet6 proto n) = None"
  by (simp_all add: packet6_def HEADROOM_def pkt_zero_def)

lemma udp_hi_segment4: "segment_ok4 (packet4 17 10) [] (world4 17 fo (udp_hi 0x3edc))"
proof -
  have c: "ld16 (w_mem (world4 17 fo (udp_hi 0x3edc))) (84 + 6) \<noteq> 0"
    using world4_ld16 [of 6 "udp_hi 0x3edc" 17 fo 17 10] unfolding udp_hi_bytes by (simp add: le_word_def)
  have "valid4 (i4_src (header4 17 fo 10)) (i4_dest (header4 17 fo 10)) 17 (udp_hi 0x3edc)"
    using sample_valid(1) by (simp add: header4_def)
  then show ?thesis
    using world4_facts(1) [of 17 fo "udp_hi 0x3edc" 10] world4_facts(2) [of "udp_hi 0x3edc" 17 fo] c
    by (simp add: segment_ok4_def plain_ok_def csum_proto_def min_hdr_def proto_defs udp_no_csum_def Let_def)
qed

lemma udp_hi_segment6: "segment_ok6 (packet6 17 10) [] (world6 17 (udp_hi 0x370a))"
proof -
  have c: "ld16 (w_mem (world6 17 (udp_hi 0x370a))) (104 + 6) \<noteq> 0"
    using world6_ld16 [of 6 "udp_hi 0x370a" 17 17 10] unfolding udp_hi_bytes by (simp add: le_word_def)
  have "valid6 (i6_src (header6 17 10)) (i6_dest (header6 17 10)) 17 (udp_hi 0x370a)"
    using sample_valid(2) by (simp add: header6_def)
  then show ?thesis
    using world6_facts(1) [of 17 "udp_hi 0x370a" 10] world6_facts(2) [of "udp_hi 0x370a" 17] c
    by (simp add: segment_ok6_def plain_ok_def csum_proto_def min_hdr_def proto_defs udp_no_csum_def Let_def)
qed

lemma udp_long_segment4: "segment_ok4 (packet4 17 1408) [] (world4 17 fo udp_long)"
proof -
  have c: "ld16 (w_mem (world4 17 fo udp_long)) (84 + 6) = 0"
    using world4_ld16 [of 6 udp_long 17 fo 17 1408] by (simp add: udp_long_def le_word_def)
  then show ?thesis
    using world4_dev(6) [of 17 fo udp_long]
    by (simp add: segment_ok4_def plain_ok_def csum_proto_def min_hdr_def proto_defs udp_no_csum_def Let_def)
qed

text \<open>A fragment that is not the first one.\<close>

definition later_header :: ip6_frag where
  "later_header = \<lparr>fr_next_header = 17, fr_reserved = 0, fr_offset_flags = htons 0x40, fr_ident = htonl 9\<rparr>"

definition later_world6 :: world where
  "later_world6 = packet_world (ip6_bytes (header6 44 12) @ ip6_frag_bytes later_header @ [1, 2, 3, 4])"

definition later_fragment6 :: pkt where
  "later_fragment6 = pkt_zero\<lparr>p_ip6 := HEADROOM, p_ip6_frag := Some (HEADROOM + 40), p_data := HEADROOM + 48, p_data_len := 4,
     p_header_len := 8, p_data_proto := 17, p_has_vhdr := True\<rparr>"

lemma later_world6_ok:
  "vnet_ok later_world6" "w_io later_world6 = []" "frag_bits (w_mem later_world6) later_fragment6 AND IP6_F_MASK \<noteq> 0"
  "ld_ip6 (w_mem later_world6) (p_ip6 later_fragment6) = header6 44 12"
  "map_ip6_to_ip4 (i6_dest (header6 44 12)) d (w_g later_world6) = (Inr host9, w_g later_world6)"
  "map_ip6_to_ip4 (i6_src (header6 44 12)) d (w_g later_world6) = (Inr host7, w_g later_world6)"
  "g_mtu (w_g later_world6) = 1500"
proof -
  let ?bs = "ip6_bytes (header6 44 12) @ ip6_frag_bytes later_header @ [1, 2, 3, 4]"
  have "ld16 (store (\<lambda>_. 0) HEADROOM ?bs) (HEADROOM + 42) = htons 0x40"
    unfolding ld16_def by (subst load_part, simp, simp add: ip6_frag_bytes_def later_header_def le_word_le_bytes)
  then have "fr_offset_flags (ld_ip6_frag (w_mem later_world6) (HEADROOM + 40)) = htons 0x40"
    by (simp add: ld_ip6_frag_def later_world6_def ac_simps)
  then show "frag_bits (w_mem later_world6) later_fragment6 AND IP6_F_MASK \<noteq> 0"
    by (simp add: frag_bits_def frag_of_def later_fragment6_def ip_flag_defs)
  show "ld_ip6 (w_mem later_world6) (p_ip6 later_fragment6) = header6 44 12"
    by (simp add: later_world6_def later_fragment6_def ld_ip6_store)
qed (use packet_world_ok in \<open>simp_all add: later_world6_def header6_def hosts_map6 del: packet_world_simps add: packet_world_simps(3)\<close>)

section \<open>ICMP errors\<close>

text \<open>An error about the datagram of the samples, in each family.\<close>

lemma store_append: "store m a (xs @ ys) = store (store m a xs) (a + length xs) ys"
  by (rule ext) (auto simp: store_def nth_append)

lemma ld_icmp_store: "ld_icmp (store m a (icmp_bytes h @ bs)) a = h"
proof -
  let ?m = "store m a (icmp_bytes h @ bs)"
  have b: "?m a = ic_type h" "?m (a + 1) = ic_code h"
    using store_part [of 0 "icmp_bytes h @ bs" m a] store_part [of 1 "icmp_bytes h @ bs" m a]
    by (simp_all add: icmp_bytes_def nth_append)
  have w: "ld16 ?m (a + 2) = ic_cksum h" "ld32 ?m (a + 4) = ic_word h"
    unfolding ld16_def ld32_def by (subst load_part, simp, simp add: icmp_bytes_def le_word_le_bytes)+
  show ?thesis unfolding ld_icmp_def b w by simp
qed

definition error_segment4 :: "u8 list" where
  "error_segment4 = icmp_bytes (icmp_head 3 4 (htonl 1300)) @ ip4_bytes (header4 17 0 10) @ udp_hi 0x3edc"

definition error_segment6 :: "u8 list" where
  "error_segment6 = icmp_bytes (icmp_head 2 0 (htonl 1400)) @ ip6_bytes (header6 17 10) @ udp_hi 0x370a"

definition embedded4 :: pkt where
  "embedded4 = pkt_zero\<lparr>p_ip4 := 92, p_data := 112, p_data_len := 10, p_header_len := 20, p_data_proto := 17\<rparr>"

definition embedded6 :: pkt where
  "embedded6 = pkt_zero\<lparr>p_ip6 := 112, p_data := 152, p_data_len := 10, p_data_proto := 17\<rparr>"

lemma error_world4_mem:
  "icmp_of (w_mem (world4 1 0 error_segment4)) (packet4 1 38) = icmp_head 3 4 (htonl 1300)"
  "ld_ip4 (w_mem (world4 1 0 error_segment4)) 92 = header4 17 0 10"
  "ld16 (w_mem (world4 1 0 error_segment4)) 118 = htons 0x3edc"
proof -
  let ?m = "store (\<lambda>_. 0) HEADROOM (ip4_bytes (header4 1 0 38))"
  have l: "length error_segment4 = 38" by (simp add: error_segment4_def)
  have m: "w_mem (world4 1 0 error_segment4) = store ?m 84 error_segment4"
    unfolding world4_def l packet_world_simps by (simp add: store_append HEADROOM_def)
  show "icmp_of (w_mem (world4 1 0 error_segment4)) (packet4 1 38) = icmp_head 3 4 (htonl 1300)"
    unfolding m by (simp add: icmp_of_def icmp_ptr_def packet4_def HEADROOM_def error_segment4_def ld_icmp_store)
  have m2: "store ?m 84 error_segment4 = store (store ?m 84 (icmp_bytes (icmp_head 3 4 (htonl 1300)))) 92
      (ip4_bytes (header4 17 0 10) @ udp_hi 0x3edc)"
    unfolding error_segment4_def by (subst store_append) simp
  show "ld_ip4 (w_mem (world4 1 0 error_segment4)) 92 = header4 17 0 10"
    unfolding m m2 by (rule ld_ip4_store)
  have "load (store (store ?m 84 (icmp_bytes (icmp_head 3 4 (htonl 1300)))) 92 (ip4_bytes (header4 17 0 10) @ udp_hi 0x3edc)) (92 + 26) 2
      = le_bytes 2 (htons 0x3edc :: u16)"
    by (subst load_part) (simp_all add: udp_hi_def)
  then show "ld16 (w_mem (world4 1 0 error_segment4)) 118 = htons 0x3edc"
    unfolding m m2 ld16_def by (simp add: le_word_le_bytes)
qed

lemma hosts_valid: "validate_ip4_addr host7 = ERROR_NONE" "validate_ip4_addr host9 = ERROR_NONE"
  "validate_ip6_addr host7_6 = ERROR_NONE" "validate_ip6_addr host9_6 = ERROR_NONE"
  by (simp_all add: validate_ip4_addr_def validate_ip6_addr_def s6_addr16_0_def host_words WKPF_def eval_addr)

lemma error_packet4: "em_packet4 (packet4 1 38) (world4 1 0 error_segment4) = Some (embedded4, 0, 0)"
  by (simp add: em_packet4_def em_cut_def em_start_def error_world4_mem icmp_head_def parse_ip4_def header4_def hosts_valid
      pkt_zero_def ip_flag_defs MTU_MIN_def embedded4_def Let_def)

lemma error_world6_mem:
  "icmp_of (w_mem (world6 58 error_segment6)) (packet6 58 58) = icmp_head 2 0 (htonl 1400)"
  "ld_ip6 (w_mem (world6 58 error_segment6)) 112 = header6 17 10"
  "ld16 (w_mem (world6 58 error_segment6)) 158 = htons 0x370a"
proof -
  let ?m = "store (\<lambda>_. 0) HEADROOM (ip6_bytes (header6 58 58))"
  have l: "length error_segment6 = 58" by (simp add: error_segment6_def)
  have m: "w_mem (world6 58 error_segment6) = store ?m 104 error_segment6"
    unfolding world6_def l packet_world_simps by (simp add: store_append HEADROOM_def)
  show "icmp_of (w_mem (world6 58 error_segment6)) (packet6 58 58) = icmp_head 2 0 (htonl 1400)"
    unfolding m by (simp add: icmp_of_def icmp_ptr_def packet6_def HEADROOM_def error_segment6_def ld_icmp_store)
  have m2: "store ?m 104 error_segment6 = store (store ?m 104 (icmp_bytes (icmp_head 2 0 (htonl 1400)))) 112
      (ip6_bytes (header6 17 10) @ udp_hi 0x370a)"
    unfolding error_segment6_def by (subst store_append) simp
  show "ld_ip6 (w_mem (world6 58 error_segment6)) 112 = header6 17 10"
    unfolding m m2 by (rule ld_ip6_store)
  have "load (store (store ?m 104 (icmp_bytes (icmp_head 2 0 (htonl 1400)))) 112 (ip6_bytes (header6 17 10) @ udp_hi 0x370a)) (112 + 46) 2
      = le_bytes 2 (htons 0x370a :: u16)"
    by (subst load_part) (simp_all add: udp_hi_def)
  then show "ld16 (w_mem (world6 58 error_segment6)) 158 = htons 0x370a"
    unfolding m m2 ld16_def by (simp add: le_word_le_bytes)
qed

lemma error_packet6: "em_packet6 (packet6 58 58) (world6 58 error_segment6) = Some embedded6"
  by (simp add: em_packet6_def em_cut_def em_start_def error_world6_mem icmp_head_def parse_ip6_def header6_def hosts_valid
      pkt_zero_def ip_flag_defs embedded6_def ext_headers.simps frag_header_def upper_header_def Let_def)

text \<open>What the translation of the embedded packets gives.\<close>

lemma embedded4_payload:
  "xlate_payload_4to6 embedded4 h True (world4 1 0 error_segment4)
    = (ERROR_NONE, embedded4, adjust_4to6 embedded4 h (world4 1 0 error_segment4))"
proof -
  have n: "\<not> needs_csum embedded4" by (simp add: needs_csum_def embedded4_def pkt_zero_def)
  have f: "i4_flags_offset (ld_ip4 (w_mem (world4 1 0 error_segment4)) (p_ip4 embedded4)) = 0"
    by (simp add: embedded4_def error_world4_mem header4_def)
  have c: "ld16 (w_mem (world4 1 0 error_segment4)) (p_data embedded4 + 6) \<noteq> 0"
    by (simp add: embedded4_def error_world4_mem bswap16_def)
  have e: "p_data_proto embedded4 = 17" "p_data_len embedded4 = 10" by (simp_all add: embedded4_def)
  show ?thesis using n c by (simp add: xlate_payload_4to6_def udp_4to6_def f e)
qed

lemma embedded6_payload:
  assumes "w_mem w = w_mem (world6 58 error_segment6)"
  shows "xlate_payload_6to4 embedded6 h True w = (ERROR_NONE, embedded6, adjust_6to4 embedded6 h w)"
proof -
  have n: "\<not> needs_csum embedded6" "frag_of (w_mem w) embedded6 = None" by (simp_all add: needs_csum_def embedded6_def pkt_zero_def frag_of_def)
  have c: "ld16 (w_mem w) (p_data embedded6 + 6) \<noteq> 0"
    by (simp add: assms embedded6_def error_world6_mem bswap16_def)
  have e: "p_data_proto embedded6 = 17" "p_data_len embedded6 = 10" by (simp_all add: embedded6_def)
  show ?thesis using n c by (simp add: xlate_payload_6to4_def udp_6to4_def e)
qed

end
