(* ===== verification/Packet_Props.thy ===== *)
theory Packet_Props
  imports Sample_World
begin

text \<open>
  The properties of packet translation: termination and safety of the whole receive path, the
  translation of data packets with and without fragments, and ICMP.
\<close>

section \<open>The receive path\<close>

text \<open>C6. Whatever the frame, reading and processing it returns: the loops over fragments and segments end for every MTU of at least 1280.\<close>

theorem receive_returns:
  assumes "vnet_ok w" "big_mtu (w_g w)" "length bytes \<le> read_len w"
  shows "\<exists>r w'. tun_read_packet (Inr bytes) fd w = Some (r, w')"
  using tun_read_packet_ends [OF assms(1,2), of "Inr bytes" fd] assms(3) by auto

lemma receive_returns_witness:
  "\<exists>r w'. tun_read_packet (Inr [0x45, 0, 0]) 3 (packet_world []) = Some (r, w')"
  by (rule receive_returns) (simp_all add: packet_world_ok read_len_def RECV_BUF_SIZE_def del: packet_world_simps)

text \<open>C7. Processing a frame keeps the mapping state consistent and the configuration as it is, and only appends to the output.\<close>

theorem receive_keeps_state:
  assumes "vnet_ok w" "big_mtu (w_g w)" "length bytes \<le> read_len w" "translation_inv (w_g w)"
  shows "\<exists>r w' fs. tun_read_packet (Inr bytes) fd w = Some (r, w') \<and> translation_inv (w_g w')
    \<and> conf (w_g w') = conf (w_g w) \<and> w_tx w' = w_tx w @ fs"
  using tun_read_packet_ends [OF assms(1,2), of "Inr bytes" fd] assms(3,4) by (auto simp: progress_def)

lemma receive_keeps_state_witness:
  "\<exists>r w' fs. tun_read_packet (Inr [0x60, 0, 0]) 3 (packet_world []) = Some (r, w') \<and> translation_inv (w_g w')
    \<and> conf (w_g w') = conf (w_g (packet_world [])) \<and> w_tx w' = w_tx (packet_world []) @ fs"
  by (rule receive_keeps_state)
    (simp_all add: packet_world_ok packet_world_inv read_len_def RECV_BUF_SIZE_def del: packet_world_simps)

text \<open>C5. Processing a frame writes no byte outside the receive buffer and its headroom.\<close>

theorem receive_stays_in_buffer:
  assumes "vnet_ok w" "big_mtu (w_g w)" "length bytes \<le> read_len w" "i < 32 \<or> RECV_BUF_SIZE \<le> i"
  shows "\<exists>r w'. tun_read_packet (Inr bytes) fd w = Some (r, w') \<and> w_mem w' i = w_mem w i"
  using tun_read_packet_ends [OF assms(1,2), of "Inr bytes" fd] assms(3,4) by (auto simp: progress_def)

lemma receive_stays_in_buffer_witness:
  "\<exists>r w'. tun_read_packet (Inr [0x45, 0, 0]) 3 (packet_world []) = Some (r, w')
    \<and> w_mem w' RECV_BUF_SIZE = w_mem (packet_world []) RECV_BUF_SIZE"
  by (rule receive_stays_in_buffer) (simp_all add: packet_world_ok read_len_def RECV_BUF_SIZE_def del: packet_world_simps)

section \<open>Data packets\<close>

text \<open>C2. A data packet that fits leaves as one IPv6 packet with the translated header and a segment whose checksum is valid for the new addresses, also when the device completes the checksum.\<close>

theorem data_packet_4to6:
  assumes "vnet_ok w" "w_io w = []" "52 \<le> p_data p"
    and "h = ld_ip4 (w_mem w) (p_ip4 p)" "segment_ok4 p [] w"
    and "ntohs (i4_flags_offset h) AND (IP4_F_MASK OR IP4_F_MF) = 0"
    and "40 + unat (p_data_len p) \<le> unat (g_mtu (w_g w))"
      "ntohs (i4_flags_offset h) AND IP4_F_DF \<noteq> 0 \<or> p_data_len p \<le> frag_limit (w_g w)"
    and "map_ip4_to_ip6 (i4_dest h) (w_g w) = (Inr dest, g1)" "map_ip4_to_ip6 (i4_src h) g1 = (Inr src, g2)"
  shows "\<exists>w' frame ck. xlate_4to6_data p w = Some w' \<and> w_tx w' = w_tx w @ [frame]
    \<and> wire_packet (w_vnet w) frame = ip6_bytes (header_4to6 h (p_data_proto p) (p_data_len p) src dest)
        @ with_field (pkt_payload (w_mem w) p) (csum_off (p_data_proto p)) ck
    \<and> valid6 src dest (p_data_proto p) (with_field (pkt_payload (w_mem w) p) (csum_off (p_data_proto p)) ck)"
  by (rule xlate_4to6_data_whole) (rule assms)+

lemma data_packet_4to6_witness:
  "\<exists>w' frame ck. xlate_4to6_data (packet4 17 10) (world4 17 IP4_F_DF (udp_hi 0x3edc)) = Some w'
    \<and> w_tx w' = w_tx (world4 17 IP4_F_DF (udp_hi 0x3edc)) @ [frame]
    \<and> wire_packet (w_vnet (world4 17 IP4_F_DF (udp_hi 0x3edc))) frame
      = ip6_bytes (header_4to6 (header4 17 IP4_F_DF 10) (p_data_proto (packet4 17 10)) (p_data_len (packet4 17 10)) host7_6 host9_6)
        @ with_field (pkt_payload (w_mem (world4 17 IP4_F_DF (udp_hi 0x3edc))) (packet4 17 10)) (csum_off (p_data_proto (packet4 17 10))) ck
    \<and> valid6 host7_6 host9_6 (p_data_proto (packet4 17 10))
        (with_field (pkt_payload (w_mem (world4 17 IP4_F_DF (udp_hi 0x3edc))) (packet4 17 10)) (csum_off (p_data_proto (packet4 17 10))) ck)"
  by (rule data_packet_4to6 [OF world4_dev(1,2) _ _ udp_hi_segment4 _ _ _ world4_map])
    (use world4_facts(1) [of 17 IP4_F_DF "udp_hi 0x3edc" 10]
      in \<open>simp_all add: world4_dev header4_def ip_flag_defs\<close>)

text \<open>
  C4. A packet too long for the IPv6 path, or a first fragment, leaves as fragments within the limit
  from which its segment is put together in any order, and the checksum is valid for the whole datagram,
  the later fragments \<open>rest\<close> included. Left out is a first fragment of a UDP datagram without a checksum,
  where the code computes one over that fragment alone (\<open>udp_calc_first_fragment\<close> in Forward).
\<close>

text \<open>C4. A packet too long for the IPv6 path, or a first fragment, leaves as fragments within the limit from which its segment is put together in any order, and the checksum is valid for the whole datagram, the later fragments rest included. Left out is a first fragment of a UDP datagram without a checksum, where the code computes one over that fragment alone (udp_calc_first_fragment in Forward).\<close>

theorem fragmented_4to6:
  assumes "vnet_ok w" "w_io w = []" "big_mtu (w_g w)" "p_ip4 p + 20 \<le> p_data p"
    and "h = ld_ip4 (w_mem w) (p_ip4 p)" "segment_ok4 p rest w"
    and "ntohs (i4_flags_offset h) AND IP4_F_MASK = 0"
    and "ntohs (i4_flags_offset h) AND IP4_F_MF = 0 \<or> \<not> udp_no_csum (w_mem w) p"
    and "\<not> (ntohs (i4_flags_offset h) AND (IP4_F_MASK OR IP4_F_MF) = 0
      \<and> (ntohs (i4_flags_offset h) AND IP4_F_DF \<noteq> 0 \<or> p_data_len p \<le> frag_limit (w_g w)))"
    and "unat (p_data_len p) \<le> 65535"
    and "map_ip4_to_ip6 (i4_dest h) (w_g w) = (Inr dest, g1)" "map_ip4_to_ip6 (i4_src h) g1 = (Inr src, g2)"
  shows "\<exists>w' fs ck. xlate_4to6_data p w = Some w' \<and> w_tx w' = w_tx w @ map (plain_frame w) fs
    \<and> fragments_of (header_4to6 h (p_data_proto p) (p_data_len p) src dest) (p_data_proto p)
        (htonl (ucast (ntohs (i4_ident h)))) (40 + unat (frag_limit (w_g w))) 0
        (i4_flags_offset h AND htons IP4_F_MF \<noteq> 0)
        (with_field (pkt_payload (w_mem w) p) (csum_off (p_data_proto p)) ck) fs
    \<and> valid6 src dest (p_data_proto p) (with_field (pkt_payload (w_mem w) p) (csum_off (p_data_proto p)) ck @ rest)"
  by (rule xlate_4to6_data_fragmented [OF assms(1-7,9-12)])

lemma fragmented_4to6_witness:
  "\<exists>w' fs ck. xlate_4to6_data (packet4 17 1408) (world4 17 0 udp_long) = Some w'
    \<and> w_tx w' = w_tx (world4 17 0 udp_long) @ map (plain_frame (world4 17 0 udp_long)) fs
    \<and> fragments_of (header_4to6 (header4 17 0 1408) (p_data_proto (packet4 17 1408)) (p_data_len (packet4 17 1408)) host7_6 host9_6)
        (p_data_proto (packet4 17 1408)) (htonl (ucast (ntohs (i4_ident (header4 17 0 1408)))))
        (40 + unat (frag_limit (w_g (world4 17 0 udp_long)))) 0
        (i4_flags_offset (header4 17 0 1408) AND htons IP4_F_MF \<noteq> 0)
        (with_field (pkt_payload (w_mem (world4 17 0 udp_long)) (packet4 17 1408)) (csum_off (p_data_proto (packet4 17 1408))) ck) fs
    \<and> valid6 host7_6 host9_6 (p_data_proto (packet4 17 1408))
        (with_field (pkt_payload (w_mem (world4 17 0 udp_long)) (packet4 17 1408)) (csum_off (p_data_proto (packet4 17 1408))) ck @ [])"
  by (rule fragmented_4to6 [OF world4_dev(1-3) _ _ udp_long_segment4 _ _ _ _ world4_map])
    (use world4_facts(1) [of 17 0 udp_long 1408]
      in \<open>simp_all add: world4_dev length_udp_long header4_def ip_flag_defs\<close>)

text \<open>C31. A later IPv4 fragment leaves as IPv6 fragments with its payload at the same place in the datagram.\<close>

theorem later_fragment_4to6:
  assumes "vnet_ok w" "w_io w = []" "big_mtu (w_g w)" "p_ip4 p + 20 \<le> p_data p"
    and "h = ld_ip4 (w_mem w) (p_ip4 p)" "ntohs (i4_flags_offset h) AND IP4_F_MASK \<noteq> 0"
    and "\<not> needs_csum p" "p_data_proto p \<noteq> 1"
    and "8 * unat (ntohs (i4_flags_offset h) AND IP4_F_MASK) + unat (p_data_len p) \<le> 65535"
    and "map_ip4_to_ip6 (i4_dest h) (w_g w) = (Inr dest, g1)" "map_ip4_to_ip6 (i4_src h) g1 = (Inr src, g2)"
  shows "\<exists>w' fs. xlate_4to6_data p w = Some w' \<and> w_tx w' = w_tx w @ map (plain_frame w) fs
    \<and> fragments_of (header_4to6 h (p_data_proto p) (p_data_len p) src dest) (p_data_proto p)
        (htonl (ucast (ntohs (i4_ident h)))) (40 + unat (frag_limit (w_g w)))
        (8 * unat (ntohs (i4_flags_offset h) AND IP4_F_MASK)) (i4_flags_offset h AND htons IP4_F_MF \<noteq> 0)
        (pkt_payload (w_mem w) p) fs"
  by (rule xlate_4to6_data_later) (rule assms)+

lemma later_fragment_4to6_witness:
  "\<exists>w' fs. xlate_4to6_data (packet4 17 1408) (world4 17 100 udp_long) = Some w'
    \<and> w_tx w' = w_tx (world4 17 100 udp_long) @ map (plain_frame (world4 17 100 udp_long)) fs
    \<and> fragments_of (header_4to6 (header4 17 100 1408) (p_data_proto (packet4 17 1408)) (p_data_len (packet4 17 1408)) host7_6 host9_6)
        (p_data_proto (packet4 17 1408)) (htonl (ucast (ntohs (i4_ident (header4 17 100 1408)))))
        (40 + unat (frag_limit (w_g (world4 17 100 udp_long))))
        (8 * unat (ntohs (i4_flags_offset (header4 17 100 1408)) AND IP4_F_MASK))
        (i4_flags_offset (header4 17 100 1408) AND htons IP4_F_MF \<noteq> 0)
        (pkt_payload (w_mem (world4 17 100 udp_long)) (packet4 17 1408)) fs"
  by (rule later_fragment_4to6 [OF world4_dev(1-3) _ _ _ _ _ _ world4_map])
    (use world4_facts(1) [of 17 100 udp_long 1408] in \<open>simp_all add: length_udp_long header4_def ip_flag_defs\<close>)

text \<open>C33. An echo message leaves with the ICMPv6 type and a checksum that covers the pseudo-header.\<close>

theorem echo_4to6_translated:
  assumes "vnet_ok w" "w_io w = []" "52 \<le> p_data p"
    and "h = ld_ip4 (w_mem w) (p_ip4 p)"
    and "p_data_proto p = 1" "p_icmp p = Some (p_data p)" "8 \<le> unat (p_data_len p)"
    and "ucast (ntohs (i4_length h)) - p_header_len p = p_data_len p"
    and "w_mem w (p_data p) = 8 \<or> w_mem w (p_data p) = 0"
    and "ip_checksum (pkt_payload (w_mem w) p) = 0"
    and "ntohs (i4_flags_offset h) AND (IP4_F_MASK OR IP4_F_MF) = 0"
    and "40 + unat (p_data_len p) \<le> unat (g_mtu (w_g w))"
      "ntohs (i4_flags_offset h) AND IP4_F_DF \<noteq> 0 \<or> p_data_len p \<le> frag_limit (w_g w)"
    and "map_ip4_to_ip6 (i4_dest h) (w_g w) = (Inr dest, g1)" "map_ip4_to_ip6 (i4_src h) g1 = (Inr src, g2)"
  shows "\<exists>w' frame ck. xlate_4to6_data p w = Some w' \<and> w_tx w' = w_tx w @ [frame]
    \<and> wire_packet (w_vnet w) frame = ip6_bytes (header_4to6 h 58 (p_data_len p) src dest)
        @ with_field (echo_4to6 (w_mem w (p_data p)) # tl (pkt_payload (w_mem w) p)) 2 ck
    \<and> valid6 src dest 58 (with_field (echo_4to6 (w_mem w (p_data p)) # tl (pkt_payload (w_mem w) p)) 2 ck)"
  by (rule xlate_4to6_data_echo) (rule assms)+

lemma echo_4to6_translated_witness:
  "\<exists>w' frame ck. xlate_4to6_data (packet4 1 8) (world4 1 0 (echo_message 8 0xf7fc)) = Some w'
    \<and> w_tx w' = w_tx (world4 1 0 (echo_message 8 0xf7fc)) @ [frame]
    \<and> wire_packet (w_vnet (world4 1 0 (echo_message 8 0xf7fc))) frame
      = ip6_bytes (header_4to6 (header4 1 0 8) 58 (p_data_len (packet4 1 8)) host7_6 host9_6)
        @ with_field (echo_4to6 (w_mem (world4 1 0 (echo_message 8 0xf7fc)) (p_data (packet4 1 8)))
            # tl (pkt_payload (w_mem (world4 1 0 (echo_message 8 0xf7fc))) (packet4 1 8))) 2 ck
    \<and> valid6 host7_6 host9_6 58 (with_field (echo_4to6 (w_mem (world4 1 0 (echo_message 8 0xf7fc)) (p_data (packet4 1 8)))
            # tl (pkt_payload (w_mem (world4 1 0 (echo_message 8 0xf7fc))) (packet4 1 8))) 2 ck)"
proof -
  let ?w = "world4 1 0 (echo_message 8 0xf7fc)"
  have t: "w_mem ?w (p_data (packet4 1 8)) = 8"
    using world4_facts(3) [of 1 0 8 "[0, 0xf7, 0xfc, 0, 1, 0, 2]"] unfolding echo_bytes by (simp add: HEADROOM_def)
  have c: "ip_checksum (pkt_payload (w_mem ?w) (packet4 1 8)) = 0"
    using world4_facts(2) [of "echo_message 8 0xf7fc" 1 0] sample_valid(3) by simp
  show ?thesis
    by (rule echo_4to6_translated [OF world4_dev(1,2) _ _ _ _ _ _ _ c _ _ _ world4_map])
      (use world4_facts(1) [of 1 0 "echo_message 8 0xf7fc" 8] t
        in \<open>simp_all add: world4_dev header4_def ip_flag_defs packet4_def HEADROOM_def\<close>)
qed

text \<open>C3. A data packet leaves as one IPv4 packet whose header checksum verifies, with the identification and fragment fields of the received packet, and with a segment valid for the new addresses.\<close>

theorem data_packet_6to4:
  assumes "vnet_ok w" "w_io w = []" "52 \<le> p_data p"
    and "h = ld_ip6 (w_mem w) (p_ip6 p)" "segment_ok6 p rest w"
    and "frag_bits (w_mem w) p AND IP6_F_MASK = 0"
    and "40 + unat (p_data_len p) \<le> unat (g_mtu (w_g w))"
    and "map_ip6_to_ip4 (i6_dest h) False (w_g w) = (Inr dest, g1)" "map_ip6_to_ip4 (i6_src h) True g1 = (Inr src, g2)"
  shows "\<exists>frame ck. w_tx (xlate_6to4_data p w) = w_tx w @ [frame]
    \<and> wire_packet (w_vnet w) frame = ip4_bytes (header_6to4 h (p_data_proto p) (p_data_len p) (ident_6to4 p w) src dest)
        @ with_field (pkt_payload (w_mem w) p) (csum_off (p_data_proto p)) ck
    \<and> ip_checksum (ip4_bytes (header_6to4 h (p_data_proto p) (p_data_len p) (ident_6to4 p w) src dest)) = 0
    \<and> valid4 src dest (p_data_proto p) (with_field (pkt_payload (w_mem w) p) (csum_off (p_data_proto p)) ck @ rest)"
  using xlate_6to4_data_whole [OF assms] header_6to4_sealed by blast

lemma data_packet_6to4_witness:
  "\<exists>frame ck. w_tx (xlate_6to4_data (packet6 17 10) (world6 17 (udp_hi 0x370a))) = w_tx (world6 17 (udp_hi 0x370a)) @ [frame]
    \<and> wire_packet (w_vnet (world6 17 (udp_hi 0x370a))) frame
      = ip4_bytes (header_6to4 (header6 17 10) (p_data_proto (packet6 17 10)) (p_data_len (packet6 17 10))
            (ident_6to4 (packet6 17 10) (world6 17 (udp_hi 0x370a))) host7 host9)
        @ with_field (pkt_payload (w_mem (world6 17 (udp_hi 0x370a))) (packet6 17 10)) (csum_off (p_data_proto (packet6 17 10))) ck
    \<and> ip_checksum (ip4_bytes (header_6to4 (header6 17 10) (p_data_proto (packet6 17 10)) (p_data_len (packet6 17 10))
            (ident_6to4 (packet6 17 10) (world6 17 (udp_hi 0x370a))) host7 host9)) = 0
    \<and> valid4 host7 host9 (p_data_proto (packet6 17 10))
        (with_field (pkt_payload (w_mem (world6 17 (udp_hi 0x370a))) (packet6 17 10)) (csum_off (p_data_proto (packet6 17 10))) ck @ [])"
  by (rule data_packet_6to4 [OF world6_dev(1,2) _ _ udp_hi_segment6 _ _ world6_map])
    (use world6_facts(1) [of 17 "udp_hi 0x370a" 10]
      in \<open>simp_all add: world6_dev frag_bits_def frag_of_def\<close>)

text \<open>C32. A later IPv6 fragment leaves as the IPv4 fragment with the same offset, flag and payload.\<close>

theorem later_fragment_6to4:
  assumes "vnet_ok w" "w_io w = []" "52 \<le> p_data p"
    and "h = ld_ip6 (w_mem w) (p_ip6 p)"
    and "frag_bits (w_mem w) p AND IP6_F_MASK \<noteq> 0" "\<not> needs_csum p" "p_data_proto p \<noteq> 58"
    and "40 + unat (p_data_len p) \<le> unat (g_mtu (w_g w))"
    and "map_ip6_to_ip4 (i6_dest h) False (w_g w) = (Inr dest, g1)" "map_ip6_to_ip4 (i6_src h) True g1 = (Inr src, g2)"
  shows "\<exists>frame. w_tx (xlate_6to4_data p w) = w_tx w @ [frame]
    \<and> wire_packet (w_vnet w) frame
        = ip4_bytes (header_6to4 h (p_data_proto p) (p_data_len p) (ident_6to4 p w) src dest) @ pkt_payload (w_mem w) p"
  by (rule xlate_6to4_data_later) (rule assms)+

lemma later_fragment_6to4_witness:
  "\<exists>frame. w_tx (xlate_6to4_data later_fragment6 later_world6) = w_tx later_world6 @ [frame]
    \<and> wire_packet (w_vnet later_world6) frame
        = ip4_bytes (header_6to4 (header6 44 12) (p_data_proto later_fragment6) (p_data_len later_fragment6)
            (ident_6to4 later_fragment6 later_world6) host7 host9) @ pkt_payload (w_mem later_world6) later_fragment6"
proof (rule later_fragment_6to4 [OF later_world6_ok(1,2) _ _ later_world6_ok(3) _ _ _ later_world6_ok(5,6)])
  show "header6 44 12 = ld_ip6 (w_mem later_world6) (p_ip6 later_fragment6)" by (rule later_world6_ok(4) [symmetric])
qed (simp_all add: later_fragment6_def later_world6_ok needs_csum_def pkt_zero_def vnet_zero_def HEADROOM_def)

text \<open>An ICMPv6 echo message leaves with the ICMP type and a checksum without the pseudo-header.\<close>

theorem echo_6to4_translated:
  assumes "vnet_ok w" "w_io w = []" "52 \<le> p_data p"
    and "h = ld_ip6 (w_mem w) (p_ip6 p)"
    and "p_data_proto p = 58" "p_icmp p = Some (p_data p)" "8 \<le> unat (p_data_len p)"
    and "ucast (ntohs (i6_payload_length h)) - p_header_len p = p_data_len p"
    and "w_mem w (p_data p) = 128 \<or> w_mem w (p_data p) = 129"
    and "valid6 (i6_src h) (i6_dest h) 58 (pkt_payload (w_mem w) p)"
    and "frag_bits (w_mem w) p AND (IP6_F_MASK OR IP6_F_MF) = 0"
    and "40 + unat (p_data_len p) \<le> unat (g_mtu (w_g w))"
    and "map_ip6_to_ip4 (i6_dest h) False (w_g w) = (Inr dest, g1)" "map_ip6_to_ip4 (i6_src h) True g1 = (Inr src, g2)"
  shows "\<exists>frame ck. w_tx (xlate_6to4_data p w) = w_tx w @ [frame]
    \<and> wire_packet (w_vnet w) frame = ip4_bytes (header_6to4 h 1 (p_data_len p) (ident_6to4 p w) src dest)
        @ with_field (echo_6to4 (w_mem w (p_data p)) # tl (pkt_payload (w_mem w) p)) 2 ck
    \<and> ip_checksum (with_field (echo_6to4 (w_mem w (p_data p)) # tl (pkt_payload (w_mem w) p)) 2 ck) = 0"
  by (rule xlate_6to4_data_echo) (rule assms)+

lemma echo_6to4_translated_witness:
  "\<exists>frame ck. w_tx (xlate_6to4_data (packet6 58 8) (world6 58 (echo_message 128 0x2370)))
      = w_tx (world6 58 (echo_message 128 0x2370)) @ [frame]
    \<and> wire_packet (w_vnet (world6 58 (echo_message 128 0x2370))) frame
      = ip4_bytes (header_6to4 (header6 58 8) 1 (p_data_len (packet6 58 8))
            (ident_6to4 (packet6 58 8) (world6 58 (echo_message 128 0x2370))) host7 host9)
        @ with_field (echo_6to4 (w_mem (world6 58 (echo_message 128 0x2370)) (p_data (packet6 58 8)))
            # tl (pkt_payload (w_mem (world6 58 (echo_message 128 0x2370))) (packet6 58 8))) 2 ck
    \<and> ip_checksum (with_field (echo_6to4 (w_mem (world6 58 (echo_message 128 0x2370)) (p_data (packet6 58 8)))
            # tl (pkt_payload (w_mem (world6 58 (echo_message 128 0x2370))) (packet6 58 8))) 2 ck) = 0"
proof -
  let ?w = "world6 58 (echo_message 128 0x2370)"
  have t: "w_mem ?w (p_data (packet6 58 8)) = 128"
    using world6_facts(3) [of 58 128 "[0, 0x23, 0x70, 0, 1, 0, 2]"] unfolding echo_bytes by (simp add: HEADROOM_def)
  have c: "valid6 (i6_src (header6 58 8)) (i6_dest (header6 58 8)) 58 (pkt_payload (w_mem ?w) (packet6 58 8))"
    using world6_facts(2) [of "echo_message 128 0x2370" 58] sample_valid(4) by (simp add: header6_def)
  show ?thesis
    by (rule echo_6to4_translated [OF world6_dev(1,2) _ _ _ _ _ _ _ c _ _ world6_map])
      (use world6_facts(1) [of 58 "echo_message 128 0x2370" 8] t
        in \<open>simp_all add: world6_dev header6_def packet6_def pkt_zero_def HEADROOM_def frag_bits_def frag_of_def\<close>)
qed

section \<open>ICMP errors\<close>

text \<open>
  C40. An ICMPv4 error is translated to ICMPv6 exactly as the table of RFC 7915 says, for every type,
  code and pointer: type, code and the word behind the checksum are those of the table, and an error without a
  counterpart there is dropped. The MTU in Packet Too Big is the reported one, or where
  none is reported the next lower plateau, plus the 20 bytes by which the headers differ, at most the
  translator's MTU and at least 1280.
\<close>

theorem error_mtu_4to6:
  "map_option icmp_fields (icmp_error_4to6 own len ic) =
    error_4to6_spec (unat (ic_type ic)) (unat (ic_code ic)) (unat (ntohl (ic_word ic)) div 2 ^ 24)
      (max 1280 (min (unat own) (reported_mtu4 len ic + 20)))"
  by (rule icmp_error_4to6_spec)

text \<open>Fragmentation Needed is reported for Packet Too Big only, with an MTU of at least 68 that leaves room for the longer IPv6 header.\<close>

theorem error_mtu_6to4:
  assumes "icmp_error_6to4 own ic = Some ic'" "MTU_MIN \<le> own"
  shows "ic_type ic' \<in> {3, 11, 12} \<and> (ic_type ic' = 3 \<and> ic_code ic' = 4 \<longleftrightarrow> ic_type ic = 2)
    \<and> (ic_type ic = 2 \<longrightarrow> 68 \<le> ntohl (ic_word ic') \<and> ntohl (ic_word ic') \<le> own - MTU_ADJ
      \<and> ntohl (ic_word ic') \<le> ntohl (ic_word ic) - MTU_ADJ)"
  using icmp_error_6to4_ok [OF assms] by blast

lemma error_mtu_6to4_witness:
  "ic_type (icmp_head 3 4 (htonl 1380)) \<in> {3, 11, 12} \<and> ntohl (ic_word (icmp_head 3 4 (htonl 1380))) \<le> 1400 - MTU_ADJ"
proof -
  have e: "icmp_error_6to4 1500 (icmp_head 2 0 (htonl 1400)) = Some (icmp_head 3 4 (htonl 1380))"
    by (simp add: icmp_error_6to4_def icmp_head_def MTU_ADJ_def)
  show ?thesis using error_mtu_6to4 [OF e] by (simp add: MTU_MIN_def MTU_ADJ_def icmp_head_def)
qed

text \<open>
  C10. An ICMP error leaves as one ICMPv6 error of at most 1280 bytes with a valid checksum. It quotes
  the packet the error is about: its IPv6 header with the mapped addresses, and a fragment header where it has one, then
  its payload from the byte after its IPv4 header, as long as the message (RFC 4884) and the packet
  say and the 1280 bytes allow, byte for byte but for the translated transport checksum (and the type of an echo request).
\<close>

theorem error_message_4to6:
  assumes "vnet_ok w" "w_io w = []"
    and "pkt_in lo hi p" "8 \<le> unat (p_data_len p)" "p_ip4 p + 20 \<le> p_data p" "p_data_proto p = 1"
    and "em_packet4 p w = Some (q, off, fl)" "h4 = ld_ip4 (w_mem w) (p_data p + 8)"
    and "map_ip4_to_ip6 (i4_src h4) (w_g w) = (Inr es, g1)" "map_ip4_to_ip6 (i4_dest h4) g1 = (Inr ed, g2)"
    and "em_header6 (w_mem w) q off fl es ed = (h_em, em)"
    and "icmp_error_4to6 (ucast (g_mtu (w_g w))) (ntohs (i4_length h4)) (icmp_of (w_mem w) p) = Some ic"
    and "xlate_payload_4to6 q h_em True (w\<lparr>w_g := g2\<rparr>) = (ERROR_NONE, q', w3)"
    and "h = ld_ip4 (w_mem w) (p_ip4 p)"
    and "map_ip4_to_ip6 (i4_src h) g2 = (r, g3)" "map_ip4_to_ip6 (i4_dest h) g3 = (Inr dest, g4)"
    and "src = (case r of Inl _ \<Rightarrow> g_local_addr6 (w_g w) | Inr a \<Rightarrow> a)"
  shows "\<exists>ck data. w_tx (xlate_4to6_icmp_error p w) = w_tx w @ [plain_frame w
        (ip6_bytes (header_4to6 h 58 (48 + fl + word_of_nat (length data)) src dest) @ icmp_bytes (ic\<lparr>ic_cksum := ck\<rparr>)
         @ quoted_header6 h4 fl es ed @ data)]
    \<and> valid6 src dest 58 (icmp_bytes (ic\<lparr>ic_cksum := ck\<rparr>) @ quoted_header6 h4 fl es ed @ data)
    \<and> length (icmp_bytes (ic\<lparr>ic_cksum := ck\<rparr>) @ quoted_header6 h4 fl es ed @ data) \<le> 1240
    \<and> quotes (w_mem w) (p_data p + 8 + 4 * unat (i4_ver_ihl h4 AND 0x0f))
        (min (min (quoted_len4 (w_mem w) p) (unat (ntohs (i4_length h4))) - 4 * unat (i4_ver_ihl h4 AND 0x0f)) (1192 - unat fl))
        (i4_proto h4) data"
  by (rule xlate_4to6_icmp_error_sends) (rule assms)+

lemma error_message_4to6_witness:
  "\<exists>ck data. w_tx (xlate_4to6_icmp_error (packet4 1 38) (world4 1 0 error_segment4))
      = w_tx (world4 1 0 error_segment4) @ [plain_frame (world4 1 0 error_segment4)
        (ip6_bytes (header_4to6 (header4 1 0 38) 58 (48 + 0 + word_of_nat (length data)) host7_6 host9_6)
         @ icmp_bytes ((icmp_head 2 0 (htonl 1320))\<lparr>ic_cksum := ck\<rparr>) @ quoted_header6 (header4 17 0 10) 0 host7_6 host9_6 @ data)]
    \<and> quotes (w_mem (world4 1 0 error_segment4)) 112 10 17 data"
proof -
  let ?w = "world4 1 0 error_segment4"
  have l: "length error_segment4 = 38" by (simp add: error_segment4_def)
  obtain h_em em where hdr: "em_header6 (w_mem ?w) embedded4 0 0 host7_6 host9_6 = (h_em, em)" by fastforce
  have h4: "header4 17 0 10 = ld_ip4 (w_mem ?w) (p_data (packet4 1 38) + 8)" by (simp add: packet4_def HEADROOM_def error_world4_mem)
  have h: "header4 1 0 38 = ld_ip4 (w_mem ?w) (p_ip4 (packet4 1 38))" using world4_facts(1) [of 1 0 error_segment4 38] l by simp
  have ic: "icmp_error_4to6 (ucast (g_mtu (w_g ?w))) (ntohs (i4_length (header4 17 0 10))) (icmp_of (w_mem ?w) (packet4 1 38))
      = Some (icmp_head 2 0 (htonl 1320))"
    by (simp add: error_world4_mem world4_dev icmp_error_4to6_def icmp_head_def MTU_ADJ_def MTU_MIN_def)
  have pay: "xlate_payload_4to6 embedded4 h_em True (?w\<lparr>w_g := w_g ?w\<rparr>) = (ERROR_NONE, embedded4, adjust_4to6 embedded4 h_em ?w)"
    using embedded4_payload by simp
  have p: "pkt_in 32 RECV_BUF_SIZE (packet4 1 38)" by (simp add: pkt_in_def RECV_BUF_SIZE_def)
  have "unat (p_data_len (packet4 1 38)) = 38" by (simp add: packet4_def)
  then have ql: "quoted_len4 (w_mem ?w) (packet4 1 38) = 30" unfolding quoted_len4_def error_world4_mem by (simp add: icmp_head_def)
  have n: "p_data (packet4 1 38) + 8 + 4 * unat (i4_ver_ihl (header4 17 0 10) AND 0x0f) = 112"
    "min (min (quoted_len4 (w_mem ?w) (packet4 1 38)) (unat (ntohs (i4_length (header4 17 0 10)))) - 4 * unat (i4_ver_ihl (header4 17 0 10) AND 0x0f)) (1192 - unat (0 :: u32)) = 10"
    "i4_proto (header4 17 0 10) = 17"
    using ql by (simp_all add: header4_def packet4_def HEADROOM_def)
  show ?thesis
    using error_message_4to6 [OF world4_dev(1,2) p _ _ _ error_packet4 h4 world4_map(2,1) hdr ic pay h world4_map(2,1)]
    unfolding n by fastforce
qed

text \<open>
  C11. An ICMPv6 error leaves as one ICMP error of at most 576 bytes, and the checksums of both IPv4
  headers and of the message verify. It quotes the packet the error is about: an IPv4 header with the mapped addresses,
  then the payload from the byte after the quoted IPv6 headers, as long as the message (RFC 4884) and
  the packet say and the 576 bytes allow, byte for byte but for the translated transport checksum (and the type of an echo request).
\<close>

theorem error_message_6to4:
  assumes "vnet_ok w" "w_io w = []"
    and "pkt_in lo hi p" "8 \<le> unat (p_data_len p)" "p_ip6 p + 40 \<le> p_data p" "p_data_proto p = 58"
      "p_ip6_frag p = None"
    and "em_packet6 p w = Some q" "hq = ld_ip6 (w_mem w) (p_data p + 8)"
    and "icmp_error_6to4 (ucast (g_mtu (w_g w))) (icmp_of (w_mem w) p) = Some ic"
    and "map_ip6_to_ip4 (i6_src hq) False (w_g w) = (Inr es, g1)" "map_ip6_to_ip4 (i6_dest hq) False g1 = (Inr ed, g2)"
    and "xlate_header_6to4 q (ip4_new es ed) (ucast (ntohs (i6_payload_length hq)) - p_header_len q) (w\<lparr>w_g := g2\<rparr>) = (h_em, w2)"
    and "xlate_payload_6to4 q h_em True w2 = (ERROR_NONE, q', w3)"
    and "h = ld_ip6 (w_mem w) (p_ip6 p)"
    and "map_ip6_to_ip4 (i6_src h) False g2 = (r, g3)" "map_ip6_to_ip4 (i6_dest h) False g3 = (Inr dest, g4)"
    and "src = (case r of Inl _ \<Rightarrow> g_local_addr4 (w_g w) | Inr a \<Rightarrow> a)"
  shows "\<exists>ck data n. w_tx (xlate_6to4_icmp_error p w) = w_tx w @ [plain_frame w
        (ip4_bytes (header_6to4 h 1 (28 + word_of_nat (length data)) (htons n, 0) src dest) @ icmp_bytes (ic\<lparr>ic_cksum := ck\<rparr>)
         @ ip4_bytes (h_em\<lparr>i4_cksum := ip_checksum (ip4_bytes h_em)\<rparr>) @ data)]
    \<and> ip_checksum (ip4_bytes (header_6to4 h 1 (28 + word_of_nat (length data)) (htons n, 0) src dest)) = 0
    \<and> ip_checksum (icmp_bytes (ic\<lparr>ic_cksum := ck\<rparr>) @ ip4_bytes (h_em\<lparr>i4_cksum := ip_checksum (ip4_bytes h_em)\<rparr>) @ data) = 0
    \<and> 20 + length (icmp_bytes (ic\<lparr>ic_cksum := ck\<rparr>) @ ip4_bytes (h_em\<lparr>i4_cksum := ip_checksum (ip4_bytes h_em)\<rparr>) @ data) \<le> 576
    \<and> ip_checksum (ip4_bytes (h_em\<lparr>i4_cksum := ip_checksum (ip4_bytes h_em)\<rparr>)) = 0
    \<and> i4_src h_em = es \<and> i4_dest h_em = ed \<and> i4_ttl h_em = i6_hop_limit hq
    \<and> i4_proto h_em = (if p_data_proto q = 58 then 1 else p_data_proto q)
    \<and> quotes (w_mem w) (p_data p + 48 + unat (p_header_len q))
        (min (min (quoted_len6 (w_mem w) p - 40) (unat (ntohs (i6_payload_length hq))) - unat (p_header_len q)) 528) (p_data_proto q) data"
  by (rule xlate_6to4_icmp_error_sends) (rule assms)+

lemma error_message_6to4_witness:
  "\<exists>ck data n h_em. w_tx (xlate_6to4_icmp_error (packet6 58 58) (world6 58 error_segment6))
      = w_tx (world6 58 error_segment6) @ [plain_frame (world6 58 error_segment6)
        (ip4_bytes (header_6to4 (header6 58 58) 1 (28 + word_of_nat (length data)) (htons n, 0) host7 host9)
         @ icmp_bytes ((icmp_head 3 4 (htonl 1380))\<lparr>ic_cksum := ck\<rparr>)
         @ ip4_bytes (h_em\<lparr>i4_cksum := ip_checksum (ip4_bytes h_em)\<rparr>) @ data)]
    \<and> i4_src h_em = host7 \<and> i4_dest h_em = host9 \<and> quotes (w_mem (world6 58 error_segment6)) 152 10 17 data"
proof -
  let ?w = "world6 58 error_segment6"
  have l: "length error_segment6 = 58" by (simp add: error_segment6_def)
  have hq: "header6 17 10 = ld_ip6 (w_mem ?w) (p_data (packet6 58 58) + 8)" by (simp add: packet6_def HEADROOM_def error_world6_mem)
  have h: "header6 58 58 = ld_ip6 (w_mem ?w) (p_ip6 (packet6 58 58))" using world6_facts(1) [of 58 error_segment6 58] l by simp
  have ic: "icmp_error_6to4 (ucast (g_mtu (w_g ?w))) (icmp_of (w_mem ?w) (packet6 58 58)) = Some (icmp_head 3 4 (htonl 1380))"
    by (simp add: error_world6_mem world6_dev icmp_error_6to4_def icmp_head_def MTU_ADJ_def)
  obtain h_em w2 where hdr: "xlate_header_6to4 embedded6 (ip4_new host7 host9)
      (ucast (ntohs (i6_payload_length (header6 17 10))) - p_header_len embedded6) (?w\<lparr>w_g := w_g ?w\<rparr>) = (h_em, w2)" by fastforce
  obtain k where "w2 = ?w\<lparr>w_ident := k\<rparr>" using xlate_header_6to4_world [OF hdr] by auto
  then have pay: "xlate_payload_6to4 embedded6 h_em True w2 = (ERROR_NONE, embedded6, adjust_6to4 embedded6 h_em w2)"
    by (intro embedded6_payload) simp
  have p: "pkt_in 32 RECV_BUF_SIZE (packet6 58 58)" by (simp add: pkt_in_def RECV_BUF_SIZE_def)
  have "unat (p_data_len (packet6 58 58)) = 58" by (simp add: packet6_def)
  then have ql: "quoted_len6 (w_mem ?w) (packet6 58 58) = 50" unfolding quoted_len6_def error_world6_mem by (simp add: icmp_head_def)
  have n: "p_data (packet6 58 58) + 48 + unat (p_header_len embedded6) = 152"
    "min (min (quoted_len6 (w_mem ?w) (packet6 58 58) - 40) (unat (ntohs (i6_payload_length (header6 17 10)))) - unat (p_header_len embedded6)) 528 = 10"
    "p_data_proto embedded6 = 17"
    using ql by (simp_all add: header6_def packet6_def embedded6_def pkt_zero_def HEADROOM_def)
  show ?thesis
    using error_message_6to4 [OF world6_dev(1,2) p _ _ _ _ error_packet6 hq ic world6_map(2,1) hdr pay h world6_map(2,1)]
    unfolding n by fastforce
qed

end
