(* ===== verification/Gso_Laws.thy ===== *)
theory Gso_Laws
  imports Gso_Progress Forward6
begin

text \<open>
  What software segmentation sends: the segments of the payload in order, each with headers of its
  own whose checksums are valid. The loop is related to the list of the offsets and sizes.
\<close>

section \<open>The loop\<close>

text \<open>Offsets and sizes of the parts of \<open>n\<close> bytes, at most \<open>g\<close> each, from \<open>off\<close> on.\<close>

function chunks :: "nat \<Rightarrow> nat \<Rightarrow> nat \<Rightarrow> (nat \<times> nat) list" where
  "chunks g n off = (off, min g (n - off)) # (if 0 < g \<and> off + g < n then chunks g n (off + g) else [])"
  by pat_completeness auto
termination by (relation "measure (\<lambda>(g, n, off). n - off)") auto

declare chunks.simps [simp del]

lemma chunks_data:
  assumes "0 < g"
  shows "concat (map (\<lambda>(off, k). take k (drop off data)) (chunks g (length data) off)) = drop off data"
proof (induction "length data - off" arbitrary: off rule: less_induct)
  case less
  show ?case
  proof (cases "off + g < length data")
    case True
    then have "concat (map (\<lambda>(off, k). take k (drop off data)) (chunks g (length data) (off + g))) = drop (off + g) data"
      by (intro less) (use assms in auto)
    then show ?thesis using True assms
      by (subst chunks.simps) (simp add: min_def add.commute flip: drop_drop)
  next
    case False
    then show ?thesis by (subst chunks.simps) (auto simp: min_def)
  qed
qed

text \<open>The segment number \<open>i\<close> starts at \<open>i * g\<close>.\<close>

lemma chunks_eq:
  assumes "0 < g" "off < n \<or> off = 0"
  shows "chunks g n off = map (\<lambda>i. (off + i * g, min g (n - (off + i * g)))) [0..<max 1 ((n - off + g - 1) div g)]"
  using assms(2)
proof (induction "n - off" arbitrary: off rule: less_induct)
  case less
  show ?case
  proof (cases "off + g < n")
    case False
    then have "n - off + g - 1 < 2 * g" using assms(1) by simp
    then have "(n - off + g - 1) div g < 2" by (rule less_mult_imp_div_less)
    then have "max 1 ((n - off + g - 1) div g) = 1" by simp
    then show ?thesis using False by (subst chunks.simps) simp
  next
    case True
    let ?k = "(n - (off + g) + g - 1) div g"
    have e: "n - off + g - 1 = (n - (off + g) + g - 1) + g" using True assms(1) by simp
    have "(n - (off + g) + g - 1 + g) div g = ?k + 1" by (rule div_add_self2) (use assms(1) in simp)
    then have k: "(n - off + g - 1) div g = Suc ?k" unfolding e by (simp only: Suc_eq_plus1)
    have "g \<le> n - (off + g) + g - 1" using True by simp
    then have "1 \<le> ?k" using assms(1) by (simp add: div_greater_zero_iff Suc_le_eq)
    then have m: "max 1 ((n - off + g - 1) div g) = Suc ?k" "max 1 ?k = ?k" unfolding k by simp_all
    have ih: "chunks g n (off + g) = map (\<lambda>i. (off + g + i * g, min g (n - (off + g + i * g)))) [0..<?k]"
      using less.hyps [of "off + g"] True assms(1) unfolding m(2) by simp
    have "[0..<Suc ?k] = 0 # map Suc [0..<?k]" by (simp add: map_Suc_upt upt_conv_Cons del: upt_Suc)
    then show ?thesis unfolding m(1)
      by (subst chunks.simps) (use True assms(1) ih in \<open>simp add: add.assoc add.commute add.left_commute\<close>)
  qed
qed

text \<open>The packets: \<open>H\<close> makes the headers of a segment and the next identification.\<close>

fun seg_frames :: "(u32 \<Rightarrow> u32 \<Rightarrow> u16 \<Rightarrow> u8 list \<times> u16) \<Rightarrow> u8 list \<Rightarrow> u16 \<Rightarrow> (nat \<times> nat) list \<Rightarrow> u8 list list" where
  "seg_frames H data n [] = []"
| "seg_frames H data n ((off, k) # cs) =
     (case H (word_of_nat off) (word_of_nat k) n of
        (hdr, n') \<Rightarrow> (hdr @ take k (drop off data)) # seg_frames H data n' cs)"

lemma length_seg_frames: "length (seg_frames H data n cs) = length cs"
  by (induction H data n cs rule: seg_frames.induct) (simp_all split: prod.split)

text \<open>
  On a device that accepts frames the loop sends exactly these packets. The headers of a segment
  depend on the memory only, which the loop does not change.
\<close>

lemma segment_loop_sends:
  assumes "gso_size \<noteq> 0" "vnet_ok w" "w_io w = []" "off < len \<or> off = 0"
    and "\<And>k off n. unat k \<le> unat gso_size \<Longrightarrow> unat k \<le> unat len \<Longrightarrow> off \<le> len \<Longrightarrow> \<exists>hdr n'. H off k n = (hdr, n')
      \<and> 12 < length hdr \<and> 12 + length hdr + unat k \<le> RECV_BUF_SIZE
      \<and> (\<forall>w'. w_mem w' = w_mem w \<longrightarrow> build off k n w' = Some (hdr, n'))"
  shows "segment_loop build payload len gso_size off n w = Some (0, w\<lparr>w_tx := w_tx w @ map (plain_frame w)
    (seg_frames H (load (w_mem w) payload (unat len)) n (chunks (unat gso_size) (unat len) (unat off)))\<rparr>)"
  using assms
proof (induction "unat len - unat off" arbitrary: off n w rule: less_induct)
  case less
  define k where "k = (if len - off > gso_size then gso_size else len - off)"
  have le: "off \<le> len" using less.prems(4) by auto
  have lt: "unat off \<le> unat len" using le by (simp add: word_le_nat_alt)
  have uk: "unat k = min (unat gso_size) (unat len - unat off)"
    using unat_sub [OF le] by (auto simp: k_def word_less_nat_alt)
  have ok: "unat (off + k) = unat off + unat k"
  proof -
    have "unat len < 2 ^ LENGTH(32)" by (rule unsigned_less)
    then have "unat off + unat k < 4294967296" using lt uk by simp
    then show ?thesis by (simp add: unat_word_ariths)
  qed
  have kk: "unat k \<le> unat gso_size" "unat k \<le> unat len" using uk by simp_all
  obtain hdr n' where h: "H off k n = (hdr, n')" "12 < length hdr" "12 + length hdr + unat k \<le> RECV_BUF_SIZE"
    and b: "\<And>w'. w_mem w' = w_mem w \<Longrightarrow> build off k n w' = Some (hdr, n')"
    using less.prems(5) [OF kk le, of n] by blast
  let ?data = "load (w_mem w) payload (unat len)"
  let ?iov = "if k > 0 then [hdr, load (w_mem w) (payload + unat off) (unat k)] else [hdr]"
  have dat: "load (w_mem w) (payload + unat off) (unat k) = take (unat k) (drop (unat off) ?data)"
    using uk lt by (simp add: load_drop load_take)
  have k0: "k = 0 \<longleftrightarrow> unat k = 0" by (simp add: unat_eq_0)
  have c: "concat ?iov = hdr @ take (unat k) (drop (unat off) ?data)"
    using k0 by (auto simp: dat word_gt_0)
  let ?f = "plain_frame w (concat ?iov)"
  let ?w = "w\<lparr>w_tx := w_tx w @ [?f]\<rparr>"
  have wr: "tun_writev ?iov w = (int (length ?f), ?w)"
    by (rule tun_writev_accepted) (use less.prems(2,3) h c in \<open>auto simp: word_gt_0\<close>)
  have pos: "0 < int (length ?f)" using h(2) c by (simp add: plain_frame_def)
  have e: "segment_loop build payload len gso_size off n w =
      (if off + k \<ge> len then Some (0, ?w) else segment_loop build payload len gso_size (off + k) n' ?w)"
  proof -
    have gd: "off < len \<or> off = 0 \<and> len = 0" using less.prems(4) by (auto simp: word_gt_0)
    show ?thesis
      by (subst segment_loop.simps)
        (simp only: Let_def gd if_True k_def [symmetric] b [OF refl] option.case prod.case wr pos)
  qed
  have fin: "off + k \<ge> len \<longleftrightarrow> \<not> unat off + unat gso_size < unat len"
    using uk lt by (simp add: word_le_nat_alt ok) linarith
  have hd: "(word_of_nat (unat off), word_of_nat (unat k)) = (off, k)" by simp
  have g0: "0 < unat gso_size" using less.prems(1) by (simp add: unat_gt_0)
  have step: "seg_frames H ?data n (chunks (unat gso_size) (unat len) (unat off)) =
      concat ?iov # seg_frames H ?data n' (if unat off + unat gso_size < unat len
        then chunks (unat gso_size) (unat len) (unat off + unat gso_size) else [])"
    using g0 by (subst chunks.simps) (simp add: h(1) c flip: uk)
  have pf: "plain_frame (w\<lparr>w_tx := x\<rparr>) = plain_frame w" for x by (simp add: plain_frame_def fun_eq_iff)
  show ?case
  proof (cases "off + k \<ge> len")
    case True
    then show ?thesis unfolding e step using fin by simp
  next
    case False
    then have kg: "unat off + unat gso_size < unat len" "unat (off + k) = unat off + unat gso_size"
      using fin uk ok by auto
    have "segment_loop build payload len gso_size (off + k) n' ?w = Some (0, ?w\<lparr>w_tx := w_tx ?w @ map (plain_frame ?w)
        (seg_frames H (load (w_mem ?w) payload (unat len)) n' (chunks (unat gso_size) (unat len) (unat (off + k))))\<rparr>)"
    proof (rule less.hyps)
      show "unat len - unat (off + k) < unat len - unat off" using kg g0 by linarith
      show "vnet_ok ?w" using less.prems(2) by (simp add: vnet_ok_def)
      show "off + k < len \<or> off + k = 0" using kg by (simp add: word_less_nat_alt)
    qed (use less.prems(1,3,5) in simp_all)
    then show ?thesis unfolding e step using False kg by (simp add: pf)
  qed
qed

text \<open>When the headers step the identification by one for some sizes, the count gives each packet its own.\<close>

lemma seg_frames_nth:
  assumes "\<And>off k n. (off, k) \<in> set cs \<Longrightarrow>
      snd (H (word_of_nat off) (word_of_nat k) n) = n + (if small (word_of_nat k) then 1 else 0)" "i < length cs"
  shows "seg_frames H data n cs ! i
    = fst (H (word_of_nat (fst (cs ! i))) (word_of_nat (snd (cs ! i)))
          (n + word_of_nat (length (filter (\<lambda>(off, k). small (word_of_nat k)) (take i cs)))))
      @ take (snd (cs ! i)) (drop (fst (cs ! i)) data)"
  using assms
proof (induction H data n cs arbitrary: i rule: seg_frames.induct)
  case (2 H data n off k cs)
  obtain hdr n1 where h: "H (word_of_nat off) (word_of_nat k) n = (hdr, n1)" by fastforce
  show ?case
  proof (cases i)
    case 0
    then show ?thesis using h by simp
  next
    case (Suc j)
    have "n1 = n + (if small (word_of_nat k) then 1 else 0)" using "2.prems"(1) [of off k n] h by simp
    then show ?thesis using "2.IH" [OF h [symmetric], of j] "2.prems" h Suc by (simp add: add.assoc)
  qed
qed simp

section \<open>Where the segments lie\<close>

definition seg_count :: "nat \<Rightarrow> nat \<Rightarrow> nat" where
  "seg_count g n = max 1 ((n + g - 1) div g)"

lemma seg_index:
  assumes "0 < g" "i < seg_count g n"
  shows "i * g \<le> n" "i * g + min g (n - i * g) = n \<longleftrightarrow> Suc i = seg_count g n"
proof -
  let ?c = "(n + g - 1) div g"
  have "?c * g + (n + g - 1) mod g = n + g - 1" "(n + g - 1) mod g < g" using assms(1) by simp_all
  then have d: "?c * g \<le> n + g - 1" "n + g - 1 < ?c * g + g" by linarith+
  have "i * g \<le> n \<and> (i * g + min g (n - i * g) = n \<longleftrightarrow> Suc i = seg_count g n)"
  proof (cases "n = 0")
    case True
    then show ?thesis using assms by (simp add: seg_count_def)
  next
    case False
    then have "0 < ?c" using assms(1) by (simp add: div_greater_zero_iff)
    then have N: "seg_count g n = ?c" by (simp add: seg_count_def)
    show ?thesis
    proof (cases "Suc i = ?c")
      case True
      then have "i * g + g = ?c * g" by (metis add.commute mult_Suc)
      then have "i * g < n" "n \<le> i * g + g" using d assms(1) False by linarith+
      then show ?thesis using N True by (simp add: min_def) arith
    next
      case f: False
      then have "Suc (Suc i) \<le> ?c" using assms(2) N by simp
      then have "Suc (Suc i) * g \<le> ?c * g" by (rule mult_le_mono1)
      then have "i * g + g < n" using d assms(1) unfolding mult_Suc by linarith
      then show ?thesis using N f by (simp add: min_def)
    qed
  qed
  then show "i * g \<le> n" "i * g + min g (n - i * g) = n \<longleftrightarrow> Suc i = seg_count g n" by auto
qed

lemma chunks_0:
  assumes "0 < g"
  shows "chunks g n 0 = map (\<lambda>i. (i * g, min g (n - i * g))) [0..<seg_count g n]"
  using chunks_eq [OF assms, of 0 n] by (simp add: seg_count_def)

text \<open>The number of segments with an identification of their own.\<close>

lemma small_chunks:
  assumes "0 < g" "off < n"
  shows "length (filter (\<lambda>(off, k). l + k \<le> b) (chunks g n off)) =
    (if l + g \<le> b then (n - off + g - 1) div g
     else if (n - off) mod g \<noteq> 0 \<and> l + (n - off) mod g \<le> b then 1 else 0)"
  using assms(2)
proof (induction "n - off" arbitrary: off rule: less_induct)
  case less
  show ?case
  proof (cases "off + g < n")
    case False
    then have m: "min g (n - off) = n - off" by simp
    have d: "(n - off + g - 1) div g = 1"
      using False less.prems assms(1) by (intro div_nat_eqI) auto
    have "(n - off) mod g = (if n - off = g then 0 else n - off)" using False by auto
    then show ?thesis using False less.prems d by (subst chunks.simps) (auto simp: m)
  next
    case True
    define m where "m = n - (off + g)"
    have e: "n - off = m + g" "n - off + g - 1 = (m + g - 1) + g" using True assms(1) by (simp_all add: m_def)
    have "(m + g - 1 + g) div g = (m + g - 1) div g + 1" by (rule div_add_self2) (use assms(1) in simp)
    then have d: "(n - off + g - 1) div g = Suc ((n - (off + g) + g - 1) div g)" "(n - off) mod g = (n - (off + g)) mod g"
      unfolding e(2) m_def [symmetric] by (simp_all only: Suc_eq_plus1 e(1) mod_add_self2)
    have "length (filter (\<lambda>(off, k). l + k \<le> b) (chunks g n (off + g))) =
      (if l + g \<le> b then (n - (off + g) + g - 1) div g
       else if (n - (off + g)) mod g \<noteq> 0 \<and> l + (n - (off + g)) mod g \<le> b then 1 else 0)"
      by (rule less.hyps) (use True assms(1) in auto)
    then show ?thesis using True assms(1) unfolding d by (subst chunks.simps) simp
  qed
qed

text \<open>
  The loop from the start, for headers of \<open>l\<close> bytes with a property \<open>P\<close> of their own: the packets
  carry the payload in order, and number \<open>i\<close> has the bytes from \<open>i * g\<close> on.
\<close>

lemma segments_sent:
  assumes "gso_size \<noteq> 0" "vnet_ok w" "w_io w = []" "12 < l" "12 + l + unat len \<le> RECV_BUF_SIZE"
    and "\<And>off k idn. unat k \<le> unat gso_size \<Longrightarrow> unat k \<le> unat len \<Longrightarrow> off \<le> len \<Longrightarrow> \<exists>hdr. length hdr = l \<and> P off k idn hdr
      \<and> (\<forall>w'. w_mem w' = w_mem w \<longrightarrow> build off k idn w' = Some (hdr, idn + (if small k then 1 else 0)))"
    and g: "g = unat gso_size" and n: "n = unat len" and data: "data = load (w_mem w) payload n"
  shows "\<exists>fs. segment_loop build payload len gso_size 0 idn w = Some (0, w\<lparr>w_tx := w_tx w @ map (plain_frame w) fs\<rparr>)
    \<and> length fs = seg_count g n \<and> concat (map (drop l) fs) = data
    \<and> (\<forall>i < length fs. \<exists>hdr. fs ! i = hdr @ take (min g (n - i * g)) (drop (i * g) data) \<and> length hdr = l
        \<and> P (word_of_nat (i * g)) (word_of_nat (min g (n - i * g)))
            (idn + word_of_nat (length (filter (\<lambda>(off, k). small (word_of_nat k)) (take i (chunks g n 0))))) hdr)"
proof -
  define H where "H off k idn = the (build off k idn w)" for off k idn
  have g0: "0 < g" using assms(1) by (simp add: g unat_gt_0)
  have H: "\<exists>hdr. H off k idn = (hdr, idn + (if small k then 1 else 0)) \<and> length hdr = l \<and> P off k idn hdr
      \<and> (\<forall>w'. w_mem w' = w_mem w \<longrightarrow> build off k idn w' = Some (hdr, idn + (if small k then 1 else 0)))"
    if "unat k \<le> g" "unat k \<le> n" "off \<le> len" for off k idn
    using assms(6) [of k off idn] that unfolding g n by (fastforce simp: H_def)
  let ?cs = "chunks g n 0"
  let ?fs = "seg_frames H data idn ?cs"
  have loop: "segment_loop build payload len gso_size 0 idn w = Some (0, w\<lparr>w_tx := w_tx w @ map (plain_frame w) ?fs\<rparr>)"
    unfolding data g n
    by (subst segment_loop_sends [OF assms(1-3), of 0 len H build])
      (use H assms(4,5) in \<open>fastforce simp: g n\<close>)+
  have cs: "?cs = map (\<lambda>i. (i * g, min g (n - i * g))) [0..<seg_count g n]" by (rule chunks_0 [OF g0])
  have le: "word_of_nat (i * g) \<le> len" "unat (word_of_nat (min g (n - i * g)) :: u32) \<le> g"
    "unat (word_of_nat (min g (n - i * g)) :: u32) \<le> n" if "i < seg_count g n" for i
  proof -
    have wle: "unat (word_of_nat x :: u32) \<le> x" for x by (simp add: unsigned_of_nat take_bit_eq_mod)
    have "i * g \<le> unat len" using seg_index(1) [OF g0 that] n by simp
    then show "word_of_nat (i * g) \<le> len" unfolding word_le_nat_alt by (rule le_trans [OF wle])
    have m: "min g (n - i * g) \<le> g" "min g (n - i * g) \<le> n" by simp_all
    show "unat (word_of_nat (min g (n - i * g)) :: u32) \<le> g" by (rule le_trans [OF wle m(1)])
    show "unat (word_of_nat (min g (n - i * g)) :: u32) \<le> n" by (rule le_trans [OF wle m(2)])
  qed
  have len: "length ?fs = seg_count g n" by (simp add: length_seg_frames cs)
  have nth: "\<exists>hdr. ?fs ! i = hdr @ take (min g (n - i * g)) (drop (i * g) data) \<and> length hdr = l
      \<and> P (word_of_nat (i * g)) (word_of_nat (min g (n - i * g)))
          (idn + word_of_nat (length (filter (\<lambda>(off, k). small (word_of_nat k)) (take i ?cs)))) hdr"
    if i: "i < seg_count g n" for i
  proof -
    have "?fs ! i = fst (H (word_of_nat (fst (?cs ! i))) (word_of_nat (snd (?cs ! i)))
          (idn + word_of_nat (length (filter (\<lambda>(off, k). small (word_of_nat k)) (take i ?cs)))))
        @ take (snd (?cs ! i)) (drop (fst (?cs ! i)) data)"
    proof (rule seg_frames_nth)
      fix off k n' assume "(off, k) \<in> set ?cs"
      then obtain j where j: "j < seg_count g n" "off = j * g" "k = min g (n - j * g)" by (auto simp: cs)
      then show "snd (H (word_of_nat off) (word_of_nat k) n') = n' + (if small (word_of_nat k) then 1 else 0)"
        using H [OF le(2) [OF j(1)] le(3) [OF j(1)] le(1) [OF j(1)], of n'] unfolding j(2,3) by auto
    qed (simp add: cs i)
    moreover have "?cs ! i = (i * g, min g (n - i * g))" using i by (simp add: cs)
    ultimately show ?thesis using H [OF le(2) [OF i] le(3) [OF i] le(1) [OF i]] by (metis fst_conv snd_conv)
  qed
  have "map (drop l) ?fs = map (\<lambda>(off, k). take k (drop off data)) ?cs"
  proof (rule nth_equalityI)
    fix i assume "i < length (map (drop l) ?fs)"
    then have i: "i < seg_count g n" by (simp add: len)
    then show "map (drop l) ?fs ! i = map (\<lambda>(off, k). take k (drop off data)) ?cs ! i"
      using nth [OF i] len by (auto simp: cs)
  qed (simp add: length_seg_frames)
  then have "concat (map (drop l) ?fs) = data" using chunks_data [OF g0, of data 0] by (simp add: data)
  then show ?thesis using loop len nth by (intro exI [of _ ?fs]) simp
qed

end
