(* ===== verification/Gso_Seal.thy ===== *)
theory Gso_Seal
  imports Gso_Laws
begin

text \<open>
  The packets of software segmentation: the headers of every segment verify, the sequence numbers
  and flags are those of its place, and the identifications are the reserved ones.
\<close>

section \<open>Checksums over three parts\<close>

lemma data_csum_oceq: "oceq (int (unat (data_csum m a n))) (- int (sum16 (load m a (unat n))))"
  using oceq_ip_checksum [of "load m a (unat n)"] by (cases "n = 0") (simp_all add: data_csum_def word_gt_0 load_def)

lemma nonzero_oceq: "oceq (int (unat c)) x \<Longrightarrow> oceq (int (unat (nonzero_ck c))) x"
  by (auto simp: nonzero_ck_def oceq_def)

lemma parts_oceq:
  assumes "oceq (int (unat d)) (- int (sum16 data))" "oceq (int (unat h)) (- int ps)"
  shows "oceq (int (unat (ones_add (ones_add (ip_checksum bs) d) h))) (- int (sum16 bs) + - int (sum16 data) + - int ps)"
  by (rule oceq_trans [OF oceq_ones_add oceq_add [OF oceq_trans [OF oceq_ones_add oceq_add [OF oceq_ip_checksum assms(1)]] assms(2)]])

lemma parts_sum:
  fixes ck :: u16
  assumes "even (length pre)" "even (length post)"
    and "oceq (int (unat ck)) (- int (sum16 (pre @ le_bytes 2 (0 :: u16) @ post)) + - int (sum16 data) + - int ps)"
  shows "(sum16 (pre @ le_bytes 2 ck @ post @ data) + ps) mod 65535 = 0"
proof -
  have "sum16 (pre @ le_bytes 2 ck @ post @ data) + ps
      = unat ck + (sum16 (pre @ le_bytes 2 (0 :: u16) @ post) + sum16 data + ps)"
    using assms(1,2) by (simp add: sum16_append)
  moreover have "oceq (int (unat ck + (sum16 (pre @ le_bytes 2 (0 :: u16) @ post) + sum16 data + ps))) 0"
    using assms(3) by (simp add: oceq_def algebra_simps)
  ultimately show ?thesis by (simp only: oceq_0)
qed

lemma tcp_bytes_field: "tcp_bytes (t\<lparr>tcp_cksum := c\<rparr>) = take 16 (tcp_bytes t) @ le_bytes 2 c @ drop 18 (tcp_bytes t)"
  by (simp add: tcp_bytes_def)

lemma udp_bytes_field: "udp_bytes (u\<lparr>udp_cksum := c\<rparr>) = take 6 (udp_bytes u) @ le_bytes 2 c"
  by (simp add: udp_bytes_def)

lemma tcp_sealed:
  assumes "even (length opts)" "oceq (int (unat d)) (- int (sum16 data))" "oceq (int (unat h)) (- int ps)"
    "ck = ones_add (ones_add (ip_checksum (tcp_bytes (t\<lparr>tcp_cksum := 0\<rparr>) @ opts)) d) h"
  shows "(sum16 (tcp_bytes (t\<lparr>tcp_cksum := ck\<rparr>) @ opts @ data) + ps) mod 65535 = 0"
  using parts_sum [of "take 16 (tcp_bytes t)" "drop 18 (tcp_bytes t) @ opts" ck data ps] assms(1)
    parts_oceq [OF assms(2,3), of "tcp_bytes (t\<lparr>tcp_cksum := 0\<rparr>) @ opts"]
  unfolding assms(4) [symmetric] by (simp only: tcp_bytes_field append_assoc) simp

lemma udp_sealed:
  assumes "oceq (int (unat d)) (- int (sum16 data))" "oceq (int (unat h)) (- int ps)"
    "ck = nonzero_ck (ones_add (ones_add (ip_checksum (udp_bytes (u\<lparr>udp_cksum := 0\<rparr>))) d) h)"
  shows "(sum16 (udp_bytes (u\<lparr>udp_cksum := ck\<rparr>) @ data) + ps) mod 65535 = 0"
  using parts_sum [of "take 6 (udp_bytes u)" "[]" ck data ps]
    nonzero_oceq [OF parts_oceq [OF assms(1,2), of "udp_bytes (u\<lparr>udp_cksum := 0\<rparr>)"]]
  unfolding assms(3) [symmetric] by (simp only: udp_bytes_field append_assoc append_Nil append_Nil2) simp

lemma gso_ip4_hdr_sealed: "ip_checksum (ip4_bytes (gso_ip4_hdr tos n i f ttl proto s d)) = 0"
  using ip4_header_sealed [of "\<lparr>i4_ver_ihl = 0x45, i4_tos = tos, i4_length = htons (ucast n), i4_ident = i,
    i4_flags_offset = f, i4_ttl = ttl, i4_proto = proto, i4_cksum = 0, i4_src = s, i4_dest = d\<rparr>"]
  by (simp add: gso_ip4_hdr_def Let_def)

lemma gso_ip4_hdr_simps [simp]:
  "i4_src (gso_ip4_hdr tos n i f ttl proto s d) = s" "i4_dest (gso_ip4_hdr tos n i f ttl proto s d) = d"
  "i4_length (gso_ip4_hdr tos n i f ttl proto s d) = htons (ucast n)" "i4_ttl (gso_ip4_hdr tos n i f ttl proto s d) = ttl"
  "i4_ident (gso_ip4_hdr tos n i f ttl proto s d) = i" "i4_flags_offset (gso_ip4_hdr tos n i f ttl proto s d) = f"
  by (simp_all add: gso_ip4_hdr_def Let_def)

lemma gso_ip6_hdr_simps [simp]:
  "i6_src (gso_ip6_hdr tos n proto hl s d) = s" "i6_dest (gso_ip6_hdr tos n proto hl s d) = d"
  "i6_payload_length (gso_ip6_hdr tos n proto hl s d) = htons (ucast n)"
  "i6_hop_limit (gso_ip6_hdr tos n proto hl s d) = hl"
  by (simp_all add: gso_ip6_hdr_def Let_def)

section \<open>One segment\<close>

lemma segment_tcp_seq: "tcp_seq (segment_tcp t n off k) = htonl (ntohl (tcp_seq t) + off)"
  by (simp add: segment_tcp_def Let_def)

lemma segment_tcp_flags:
  "tcp_flags (segment_tcp t n off k) = tcp_flags t
     AND (if off + k = n then NOT 0 else NOT (TCP_FLAG_FIN OR TCP_FLAG_PSH)) AND (if off = 0 then NOT 0 else NOT TCP_FLAG_CWR)"
  by (auto simp: segment_tcp_def Let_def word_gt_0 ac_simps)

lemma segment_tcp_ports:
  "tcp_src_port (segment_tcp t n off k) = tcp_src_port t" "tcp_dst_port (segment_tcp t n off k) = tcp_dst_port t"
  "tcp_ack_seq (segment_tcp t n off k) = tcp_ack_seq t" "tcp_window (segment_tcp t n off k) = tcp_window t"
  by (simp_all add: segment_tcp_def Let_def)

text \<open>A segment whose headers take \<open>l\<close> bytes of IPv4 gets an identification up to 1260 bytes.\<close>

definition df0 :: "u32 \<Rightarrow> u32 \<Rightarrow> bool" where
  "df0 l k \<longleftrightarrow> l + k \<le> 1260"

lemma u32_add_le: "unat (a :: u32) + unat b \<le> n \<Longrightarrow> n \<le> 200000 \<Longrightarrow> unat (a + b) = unat a + unat b"
  by (simp add: unat_word_ariths)

lemma tcp_segment_6to4_ok:
  fixes thl k n off :: u32 and p :: pkt and w :: world and idn :: u16 and src dst :: in_addr
  assumes "20 \<le> unat thl" "even (unat thl)" "unat thl + unat k \<le> 65515"
  defines "tcp \<equiv> ld_tcp (w_mem w) (p_data p + 40)"
    and "h \<equiv> gso_ip4_hdr (ip6_tos (ld_ip6 (w_mem w) (p_data p))) (20 + (thl + k)) (if df0 (20 + thl) k then htons idn else 0)
        (if df0 (20 + thl) k then 0 else htons IP4_F_DF) (i6_hop_limit (ld_ip6 (w_mem w) (p_data p)) - 1) 6 src dst"
    and "opts \<equiv> load (w_mem w) (p_data p + 40 + 20) (unat thl - 20)"
  shows "\<exists>ck. tcp_segment_6to4 p thl n src dst off k idn w
      = Some (ip4_bytes h @ tcp_bytes ((segment_tcp tcp n off k)\<lparr>tcp_cksum := ck\<rparr>) @ opts, idn + (if df0 (20 + thl) k then 1 else 0))
    \<and> valid4 src dst 6 (tcp_bytes ((segment_tcp tcp n off k)\<lparr>tcp_cksum := ck\<rparr>) @ opts
        @ load (w_mem w) (p_data p + 40 + unat thl + unat off) (unat k))"
proof -
  have tk: "unat (thl + k) = unat thl + unat k" by (rule u32_add_le [OF assms(3)]) simp
  have t: "unat (20 + (thl + k)) = 20 + unat thl + unat k"
    by (subst u32_add_le [of _ _ 65535]) (use assms(3) tk in simp_all)
  have small: "\<not> 20 + (thl + k) > 0xffff" using assms(3) t by (simp add: word_less_nat_alt not_less)
  have d: "20 + (thl + k) \<le> 1260 \<longleftrightarrow> df0 (20 + thl) k" by (simp add: df0_def add.assoc)
  define ck where "ck = ones_add (ones_add (ip_checksum (tcp_bytes ((segment_tcp tcp n off k)\<lparr>tcp_cksum := 0\<rparr>) @ opts))
      (data_csum (w_mem w) (p_data p + 40 + unat thl + unat off) k)) (ip4_checksum h (thl + k) IPPROTO_TCP)"
  have hd: "i4_src h = src" "i4_dest h = dst" by (simp_all add: h_def)
  let ?seg = "tcp_bytes ((segment_tcp tcp n off k)\<lparr>tcp_cksum := ck\<rparr>) @ opts
        @ load (w_mem w) (p_data p + 40 + unat thl + unat off) (unat k)"
  have "length ?seg = unat (thl + k)" using assms(1) by (simp add: opts_def tk)
  then have ln: "word_of_nat (length ?seg) = thl + k" by (simp only: of_nat_unat ucast_id)
  have "valid4 src dst 6 ?seg"
    unfolding valid4_def ln
    by (rule tcp_sealed [OF _ data_csum_oceq oceq_ip4_checksum [of h, unfolded hd] ck_def [unfolded IPPROTO_TCP_def]])
      (use assms(2) in \<open>simp add: opts_def\<close>)
  moreover have "tcp_segment_6to4 p thl n src dst off k idn w
      = Some (ip4_bytes h @ tcp_bytes ((segment_tcp tcp n off k)\<lparr>tcp_cksum := ck\<rparr>) @ opts, idn + (if df0 (20 + thl) k then 1 else 0))"
    unfolding tcp_segment_6to4_def Let_def segment_ident_def d using small
    by (simp add: ck_def h_def opts_def tcp_def IPPROTO_TCP_def)
  ultimately show ?thesis by blast
qed

lemma tcp_segment_4to6_ok:
  fixes ihl thl k n off :: u32 and p :: pkt and w :: world and src dst :: in6_addr
  assumes "20 \<le> unat thl" "even (unat thl)" "unat thl + unat k \<le> 65535"
  defines "tcp \<equiv> ld_tcp (w_mem w) (p_data p + unat ihl)"
    and "h \<equiv> gso_ip6_hdr (i4_tos (ld_ip4 (w_mem w) (p_data p))) (thl + k) 6 (i4_ttl (ld_ip4 (w_mem w) (p_data p)) - 1) src dst"
    and "opts \<equiv> load (w_mem w) (p_data p + unat ihl + 20) (unat thl - 20)"
  shows "\<exists>ck. tcp_segment_4to6 p ihl thl n src dst off k idn w
      = Some (ip6_bytes h @ tcp_bytes ((segment_tcp tcp n off k)\<lparr>tcp_cksum := ck\<rparr>) @ opts, idn)
    \<and> valid6 src dst 6 (tcp_bytes ((segment_tcp tcp n off k)\<lparr>tcp_cksum := ck\<rparr>) @ opts
        @ load (w_mem w) (p_data p + unat ihl + unat thl + unat off) (unat k))"
proof -
  have tk: "unat (thl + k) = unat thl + unat k" by (rule u32_add_le [OF assms(3)]) simp
  have t: "unat (40 + (thl + k)) = 40 + unat thl + unat k"
    by (subst u32_add_le [of _ _ 65575]) (use assms(3) tk in simp_all)
  have small: "\<not> 40 + (thl + k) > 40 + 0xffff" using assms(3) t by (simp add: word_less_nat_alt not_less)
  define ck where "ck = ones_add (ones_add (ip_checksum (tcp_bytes ((segment_tcp tcp n off k)\<lparr>tcp_cksum := 0\<rparr>) @ opts))
      (data_csum (w_mem w) (p_data p + unat ihl + unat thl + unat off) k)) (ip6_checksum h (thl + k) IPPROTO_TCP)"
  have hd: "i6_src h = src" "i6_dest h = dst" by (simp_all add: h_def)
  let ?seg = "tcp_bytes ((segment_tcp tcp n off k)\<lparr>tcp_cksum := ck\<rparr>) @ opts
        @ load (w_mem w) (p_data p + unat ihl + unat thl + unat off) (unat k)"
  have "length ?seg = unat (thl + k)" using assms(1) by (simp add: opts_def tk)
  then have ln: "word_of_nat (length ?seg) = thl + k" by (simp only: of_nat_unat ucast_id)
  have "valid6 src dst 6 ?seg"
    unfolding valid6_def ln
    by (rule tcp_sealed [OF _ data_csum_oceq oceq_ip6_checksum [of h, unfolded hd] ck_def [unfolded IPPROTO_TCP_def]])
      (use assms(2) in \<open>simp add: opts_def\<close>)
  moreover have "tcp_segment_4to6 p ihl thl n src dst off k idn w
      = Some (ip6_bytes h @ tcp_bytes ((segment_tcp tcp n off k)\<lparr>tcp_cksum := ck\<rparr>) @ opts, idn)"
    unfolding tcp_segment_4to6_def Let_def using small
    by (simp add: ck_def h_def opts_def tcp_def IPPROTO_TCP_def)
  ultimately show ?thesis by blast
qed

section \<open>The whole frame\<close>

lemma even_tcp_hdr_len: "even (unat (tcp_hdr_len m a))"
proof -
  have "unat (x * 4 :: u32) = unat x * 4 mod 4294967296" for x by (simp add: unat_word_ariths)
  moreover have "even (y * 4 mod 4294967296 :: nat)" for y by (rule dvd_mod) simp_all
  ultimately show ?thesis unfolding tcp_hdr_len_def by simp
qed

lemma gso_size_nonzero: "(ucast (x :: u16) :: u32) = 0 \<longleftrightarrow> x = 0"
  unfolding unat_eq_0 [symmetric] by simp

lemma seg_size_eq: "vh_gso_size (p_vhdr p) \<noteq> 0 \<Longrightarrow> seg_size p n = ucast (vh_gso_size (p_vhdr p))"
  by (simp add: seg_size_def Let_def gso_size_nonzero)

lemma gso_valid_size: "0 < gso_validate_header p \<Longrightarrow> vh_gso_size (p_vhdr p) \<noteq> 0"
  by (auto simp: gso_validate_header_def split: if_splits)

lemma with_g_only: "with_g f w = (r, w') \<Longrightarrow> \<exists>g. w' = w\<lparr>w_g := g\<rparr>"
  by (auto simp: with_g_def split: prod.splits)

lemma gso_map_6to4_only: "gso_map_6to4_with_icmp p proto w = (Inr a, w') \<Longrightarrow> \<exists>g. w' = w\<lparr>w_g := g\<rparr>"
  by (auto simp: gso_map_6to4_with_icmp_def Let_def split: prod.splits sum.splits if_splits dest!: with_g_only)

lemma gso_map_4to6_only: "gso_map_4to6_with_icmp p l proto w = (Inr a, w') \<Longrightarrow> \<exists>g. w' = w\<lparr>w_g := g\<rparr>"
  by (auto simp: gso_map_4to6_with_icmp_def Let_def split: prod.splits sum.splits if_splits dest!: with_g_only)

text \<open>The lengths of a frame with an IPv6 header and its TCP payload.\<close>

lemma gso_ip6_len:
  assumes "gso_ip6_ok m p proto" "unat thl \<ge> 20" "40 + thl \<le> p_data_len p" "unat thl \<le> 60"
  shows "unat (p_data_len p - 40 - thl) + unat thl \<le> 65535" "60 \<le> p_data_len p"
proof -
  have "ucast (ntohs (i6_payload_length (ld_ip6 m (p_data p)))) = p_data_len p - 40"
    using assms(1) by (simp add: gso_ip6_ok_def Let_def)
  moreover have "unat (ucast x :: u32) \<le> 65535" for x :: u16
  proof -
    have "unat x < 2 ^ LENGTH(16)" by (rule unsigned_less)
    then show ?thesis by simp
  qed
  ultimately have l: "unat (p_data_len p - 40) \<le> 65535" by metis
  have t: "unat (40 + thl) = 40 + unat thl" by (subst u32_add_le [of _ _ 100]) (use assms(4) in simp_all)
  then have d: "40 + unat thl \<le> unat (p_data_len p)" using assms(3) by (simp add: word_le_nat_alt)
  then have s: "unat (p_data_len p - 40) = unat (p_data_len p) - 40" by (subst unat_sub) (simp_all add: word_le_nat_alt)
  have "unat (p_data_len p - 40 - thl) = unat (p_data_len p) - 40 - unat thl"
    by (subst unat_sub) (use s d in \<open>simp_all add: word_le_nat_alt\<close>)
  then show "unat (p_data_len p - 40 - thl) + unat thl \<le> 65535" using l s d by simp
  show "60 \<le> p_data_len p" using d assms(2) by (simp add: word_le_nat_alt)
qed

text \<open>The place of a segment in words.\<close>

lemma seg_words:
  fixes len :: u32
  assumes "0 < g" "i < seg_count g (unat len)" "unat len \<le> 65535"
  shows "unat (word_of_nat (i * g) :: u32) = i * g" "unat (word_of_nat (min g (unat len - i * g)) :: u32) = min g (unat len - i * g)"
    "(word_of_nat (i * g) :: u32) = 0 \<longleftrightarrow> i = 0"
    "word_of_nat (i * g) + word_of_nat (min g (unat len - i * g)) = len \<longleftrightarrow> Suc i = seg_count g (unat len)"
proof -
  note s = seg_index [OF assms(1,2)]
  have u: "unat (word_of_nat x :: u32) = x" if "x \<le> 65535" for x
    using that by (simp add: unsigned_of_nat take_bit_nat_eq_self)
  have a: "i * g \<le> 65535" "min g (unat len - i * g) \<le> 65535" "i * g + min g (unat len - i * g) \<le> 65535"
    using s(1) assms(3) by linarith+
  show 1: "unat (word_of_nat (i * g) :: u32) = i * g" by (rule u [OF a(1)])
  show 2: "unat (word_of_nat (min g (unat len - i * g)) :: u32) = min g (unat len - i * g)" by (rule u [OF a(2)])
  have "(word_of_nat (i * g) :: u32) = 0 \<longleftrightarrow> i * g = 0" unfolding unat_eq_0 [symmetric] 1 by simp
  then show "(word_of_nat (i * g) :: u32) = 0 \<longleftrightarrow> i = 0" using assms(1) by simp
  have "word_of_nat (i * g) + word_of_nat (min g (unat len - i * g)) = (word_of_nat (i * g + min g (unat len - i * g)) :: u32)"
    by (simp only: of_nat_add)
  moreover have "word_of_nat (i * g + min g (unat len - i * g)) = len \<longleftrightarrow> i * g + min g (unat len - i * g) = unat len"
    using u [OF a(3)] by (metis of_nat_unat ucast_id)
  ultimately show "word_of_nat (i * g) + word_of_nat (min g (unat len - i * g)) = len \<longleftrightarrow> Suc i = seg_count g (unat len)"
    using s(2) by simp
qed

lemma segment_tcp_place:
  fixes len :: u32 and tcp :: tcp_hdr
  assumes "0 < g" "i < seg_count g (unat len)" "unat len \<le> 65535"
  defines "t \<equiv> segment_tcp tcp len (word_of_nat (i * g)) (word_of_nat (min g (unat len - i * g)))"
  shows "tcp_seq (t\<lparr>tcp_cksum := c\<rparr>) = htonl (ntohl (tcp_seq tcp) + word_of_nat (i * g))"
    "tcp_ack_seq (t\<lparr>tcp_cksum := c\<rparr>) = tcp_ack_seq tcp"
    "tcp_flags (t\<lparr>tcp_cksum := c\<rparr>) = tcp_flags tcp
      AND (if Suc i = seg_count g (unat len) then NOT 0 else NOT (TCP_FLAG_FIN OR TCP_FLAG_PSH))
      AND (if i = 0 then NOT 0 else NOT TCP_FLAG_CWR)"
proof -
  have r: "tcp_seq (t\<lparr>tcp_cksum := c\<rparr>) = tcp_seq t" "tcp_ack_seq (t\<lparr>tcp_cksum := c\<rparr>) = tcp_ack_seq t"
    "tcp_flags (t\<lparr>tcp_cksum := c\<rparr>) = tcp_flags t" by simp_all
  show "tcp_seq (t\<lparr>tcp_cksum := c\<rparr>) = htonl (ntohl (tcp_seq tcp) + word_of_nat (i * g))"
    unfolding r unfolding t_def by (rule segment_tcp_seq)
  show "tcp_ack_seq (t\<lparr>tcp_cksum := c\<rparr>) = tcp_ack_seq tcp"
    unfolding r unfolding t_def by (rule segment_tcp_ports)
  show "tcp_flags (t\<lparr>tcp_cksum := c\<rparr>) = tcp_flags tcp
      AND (if Suc i = seg_count g (unat len) then NOT 0 else NOT (TCP_FLAG_FIN OR TCP_FLAG_PSH))
      AND (if i = 0 then NOT 0 else NOT TCP_FLAG_CWR)"
    unfolding r unfolding t_def segment_tcp_flags seg_words(3,4) [OF assms(1-3)] by (rule refl)
qed

lemma tcp_segment_6to4_mem: "w_mem w' = w_mem w \<Longrightarrow> tcp_segment_6to4 p thl n s d off k idn w' = tcp_segment_6to4 p thl n s d off k idn w"
  by (simp add: tcp_segment_6to4_def)

lemma tcp_segment_4to6_mem: "w_mem w' = w_mem w \<Longrightarrow> tcp_segment_4to6 p ihl thl n s d off k idn w' = tcp_segment_4to6 p ihl thl n s d off k idn w"
  by (simp add: tcp_segment_4to6_def)

section \<open>The segments of a TCP frame, IPv6 to IPv4\<close>

text \<open>What is said of the headers of a segment: the bytes, and that the segment is valid.\<close>

definition segment_head4 ::
  "mem \<Rightarrow> pkt \<Rightarrow> u32 \<Rightarrow> u32 \<Rightarrow> in_addr \<Rightarrow> in_addr \<Rightarrow> u32 \<Rightarrow> u32 \<Rightarrow> u16 \<Rightarrow> u8 list \<Rightarrow> bool" where
  "segment_head4 m p thl n src dst off k idn hdr \<longleftrightarrow>
     (\<exists>h t ck. h = gso_ip4_hdr (ip6_tos (ld_ip6 m (p_data p))) (20 + (thl + k)) (if df0 (20 + thl) k then htons idn else 0)
          (if df0 (20 + thl) k then 0 else htons IP4_F_DF) (i6_hop_limit (ld_ip6 m (p_data p)) - 1) 6 src dst
      \<and> t = (segment_tcp (ld_tcp m (p_data p + 40)) n off k)\<lparr>tcp_cksum := ck\<rparr>
      \<and> hdr = ip4_bytes h @ tcp_bytes t @ load m (p_data p + 40 + 20) (unat thl - 20)
      \<and> valid4 src dst 6 (tcp_bytes t @ load m (p_data p + 40 + 20) (unat thl - 20)
          @ load m (p_data p + 40 + unat thl + unat off) (unat k)))"

lemma segment_head4_made:
  fixes w :: world
  assumes "20 \<le> unat thl" "even (unat thl)" "unat thl + unat k \<le> 65515"
  shows "\<exists>hdr. length hdr = 20 + unat thl \<and> segment_head4 (w_mem w) p thl n src dst off k idn hdr
    \<and> (\<forall>w'. w_mem w' = w_mem w \<longrightarrow>
        tcp_segment_6to4 p thl n src dst off k idn w' = Some (hdr, idn + (if df0 (20 + thl) k then 1 else 0)))"
proof -
  from tcp_segment_6to4_ok [OF assms, where p = p and w = w and n = n and off = off and idn = idn and src = src and dst = dst]
  obtain hdr where "tcp_segment_6to4 p thl n src dst off k idn w = Some (hdr, idn + (if df0 (20 + thl) k then 1 else 0))"
    "segment_head4 (w_mem w) p thl n src dst off k idn hdr"
    unfolding segment_head4_def by blast
  moreover from this(2) have "length hdr = 20 + unat thl" using assms(1) by (auto simp: segment_head4_def)
  ultimately show ?thesis using tcp_segment_6to4_mem by (metis (no_types))
qed

text \<open>The packet number \<open>i\<close>.\<close>

definition segment4 ::
  "mem \<Rightarrow> pkt \<Rightarrow> u32 \<Rightarrow> in_addr \<Rightarrow> in_addr \<Rightarrow> nat \<Rightarrow> nat \<Rightarrow> nat \<Rightarrow> u16 \<Rightarrow> u8 list \<Rightarrow> u8 list \<Rightarrow> bool" where
  "segment4 m p thl src dst g n i idn part f \<longleftrightarrow>
     (\<exists>h t. f = ip4_bytes h @ tcp_bytes t @ load m (p_data p + 40 + 20) (unat thl - 20) @ part
        \<and> ip_checksum (ip4_bytes h) = 0 \<and> valid4 src dst 6 (drop 20 f)
        \<and> i4_src h = src \<and> i4_dest h = dst \<and> i4_ttl h = i6_hop_limit (ld_ip6 m (p_data p)) - 1
        \<and> i4_length h = htons (word_of_nat (length f))
        \<and> i4_ident h = (if length f \<le> 1260 then htons idn else 0)
        \<and> i4_flags_offset h = (if length f \<le> 1260 then 0 else htons IP4_F_DF)
        \<and> tcp_seq t = htonl (ntohl (tcp_seq (ld_tcp m (p_data p + 40))) + word_of_nat (i * g))
        \<and> tcp_ack_seq t = tcp_ack_seq (ld_tcp m (p_data p + 40))
        \<and> tcp_flags t = tcp_flags (ld_tcp m (p_data p + 40))
            AND (if Suc i = seg_count g n then NOT 0 else NOT (TCP_FLAG_FIN OR TCP_FLAG_PSH))
            AND (if i = 0 then NOT 0 else NOT TCP_FLAG_CWR))"

lemma segment4_head:
  fixes len :: u32
  assumes "20 \<le> unat thl" "unat thl + min g n \<le> 65515" "unat len \<le> 65535"
    and n: "n = unat len" and "0 < g" "i < seg_count g n"
    and "segment_head4 m p thl len src dst (word_of_nat (i * g)) (word_of_nat (min g (n - i * g))) idn hdr"
    and "part = take (min g (n - i * g)) (drop (i * g) (load m (p_data p + 40 + unat thl) n))"
  shows "segment4 m p thl src dst g n i idn part (hdr @ part)"
proof -
  let ?o = "word_of_nat (i * g) :: u32" and ?k = "word_of_nat (min g (n - i * g)) :: u32"
  let ?opts = "load m (p_data p + 40 + 20) (unat thl - 20)"
  note ix = assms(6) [unfolded n]
  note sw = seg_words [OF assms(5) ix assms(3), folded n]
  note place = segment_tcp_place [OF assms(5) ix assms(3), folded n]
  from assms(7) obtain h t ck where h: "h = gso_ip4_hdr (ip6_tos (ld_ip6 m (p_data p))) (20 + (thl + ?k))
        (if df0 (20 + thl) ?k then htons idn else 0) (if df0 (20 + thl) ?k then 0 else htons IP4_F_DF)
        (i6_hop_limit (ld_ip6 m (p_data p)) - 1) 6 src dst"
    and t: "t = (segment_tcp (ld_tcp m (p_data p + 40)) len ?o ?k)\<lparr>tcp_cksum := ck\<rparr>"
    and hdr: "hdr = ip4_bytes h @ tcp_bytes t @ ?opts"
    and v: "valid4 src dst 6 (tcp_bytes t @ ?opts @ load m (p_data p + 40 + unat thl + unat ?o) (unat ?k))"
    unfolding segment_head4_def by blast
  have le: "i * g + min g (n - i * g) \<le> n" using seg_index(1) [OF assms(5,6)] by simp
  have part: "load m (p_data p + 40 + unat thl + unat ?o) (unat ?k) = part"
    unfolding sw(1,2) assms(8) using le by (simp add: load_drop load_take)
  have ln: "length (hdr @ part) = 20 + unat thl + min g (n - i * g)"
    unfolding hdr assms(8) using assms(1) le by simp
  have ku: "unat (thl + ?k) = unat thl + min g (n - i * g)"
    by (subst u32_add_le [of _ _ 65535]) (use assms(2) sw(2) in simp_all)
  have "unat (20 + (thl + ?k)) = length (hdr @ part)"
    by (subst u32_add_le [of _ _ 65555]) (use assms(2) ku ln in simp_all)
  note total_len = this
  have d0: "df0 (20 + thl) ?k \<longleftrightarrow> length (hdr @ part) \<le> 1260"
    unfolding total_len [symmetric] by (simp add: df0_def word_le_nat_alt add.assoc)
  have idf: "i4_ident h = (if length (hdr @ part) \<le> 1260 then htons idn else 0)"
    "i4_flags_offset h = (if length (hdr @ part) \<le> 1260 then 0 else htons IP4_F_DF)"
    unfolding h d0 by (rule gso_ip4_hdr_simps)+
  have "(ucast (20 + (thl + ?k)) :: u16) = word_of_nat (length (hdr @ part))" using total_len by (metis of_nat_unat)
  then have "i4_length h = htons (word_of_nat (length (hdr @ part)))" by (simp only: h gso_ip4_hdr_simps)
  moreover have "drop 20 (hdr @ part) = tcp_bytes t @ ?opts @ part" unfolding hdr by simp
  then have "valid4 src dst 6 (drop 20 (hdr @ part))" using v unfolding part by (simp only:)
  moreover have "hdr @ part = ip4_bytes h @ tcp_bytes t @ ?opts @ part" unfolding hdr by (simp only: append_assoc)
  ultimately show ?thesis
    unfolding segment4_def h t
    by (intro exI conjI) (assumption | rule place idf [unfolded h] gso_ip4_hdr_sealed gso_ip4_hdr_simps)+
qed

text \<open>The identification of packet number \<open>i\<close>, counted over the packets before it.\<close>

definition ident_at :: "u16 \<Rightarrow> nat \<Rightarrow> u8 list list \<Rightarrow> u16" where
  "ident_at idn i fs = idn + word_of_nat (length (filter (\<lambda>f. length f \<le> 1260) (take i fs)))"

lemma ident_count:
  fixes thl :: u32
  assumes "map length fs = map (\<lambda>(off, k). 20 + unat thl + k) cs" "\<And>off k. (off, k) \<in> set cs \<Longrightarrow> 20 + unat thl + k \<le> 65535"
  shows "idn + word_of_nat (length (filter (\<lambda>(off, k). df0 (20 + thl) (word_of_nat k)) (take i cs))) = ident_at idn i fs"
proof -
  have d: "df0 (20 + thl) (word_of_nat k) \<longleftrightarrow> 20 + unat thl + k \<le> 1260" if "(off, k) \<in> set (take i cs)" for off k
  proof -
    have k: "20 + unat thl + k \<le> 65535" using assms(2) that in_set_takeD by fastforce
    have "unat (20 + thl) = 20 + unat thl" by (subst u32_add_le [of _ _ 65535]) (use k in simp_all)
    moreover have "unat (word_of_nat k :: u32) = k" using k by (simp add: unsigned_of_nat take_bit_nat_eq_self)
    ultimately have "unat (20 + thl + word_of_nat k) = 20 + unat thl + k" by (subst u32_add_le [of _ _ 65535]) (use k in simp_all)
    then show ?thesis by (simp add: df0_def word_le_nat_alt)
  qed
  have "filter (\<lambda>(off, k). df0 (20 + thl) (word_of_nat k)) (take i cs) = filter (\<lambda>c. (\<lambda>(off, k). 20 + unat thl + k) c \<le> 1260) (take i cs)"
    by (rule filter_cong) (use d in auto)
  then have "length (filter (\<lambda>(off, k). df0 (20 + thl) (word_of_nat k)) (take i cs))
      = length (filter (\<lambda>n. n \<le> 1260) (take i (map (\<lambda>(off, k). 20 + unat thl + k) cs)))"
    by (simp add: take_map filter_map comp_def)
  also have "\<dots> = length (filter (\<lambda>f. length f \<le> 1260) (take i fs))"
    unfolding assms(1) [symmetric] by (simp add: take_map filter_map comp_def)
  finally show ?thesis by (simp add: ident_at_def)
qed

text \<open>The number of reserved identifications is the number of packets that use one.\<close>

lemma df0_count:
  fixes n gs l :: u32
  assumes "gs \<noteq> 0" "unat n \<le> 65535" "unat gs \<le> 65535" "unat l \<le> 1260"
  defines "c \<equiv> length (filter (\<lambda>(off, k). unat l + k \<le> 1260) (chunks (unat gs) (unat n) 0))"
  shows "gso_df0_segments n gs l = word_of_nat c" "c \<le> 65535"
proof -
  have g0: "0 < unat gs" using assms(1) by (simp add: unat_gt_0)
  have ag: "unat (l + gs) = unat l + unat gs" by (subst u32_add_le [of _ _ 70000]) (use assms in simp_all)
  have small: "l + gs \<le> 1260 \<longleftrightarrow> unat l + unat gs \<le> 1260" by (simp add: word_le_nat_alt ag)
  have "gso_df0_segments n gs l = word_of_nat c \<and> c \<le> 65535"
  proof (cases "n = 0")
    case True
    then have "c = 1" using assms(4) unfolding c_def by (simp add: chunks.simps)
    then show ?thesis using True by (simp add: gso_df0_segments_def)
  next
    case False
    then have n0: "0 < unat n" by (simp add: unat_gt_0)
    have c: "c = (if unat l + unat gs \<le> 1260 then (unat n + unat gs - 1) div unat gs
        else if unat n mod unat gs \<noteq> 0 \<and> unat l + unat n mod unat gs \<le> 1260 then 1 else 0)"
      unfolding c_def using small_chunks [OF g0 n0, of "unat l" 1260] by simp
    have an: "unat (n + gs) = unat n + unat gs" by (subst u32_add_le [of _ _ 131070]) (use assms(2,3) in simp_all)
    have "unat (n + gs - 1) = unat n + unat gs - 1"
      by (subst unat_sub) (use an n0 in \<open>simp_all add: word_le_nat_alt\<close>)
    then have q: "unat ((n + gs - 1) div gs) = (unat n + unat gs - 1) div unat gs" by (simp add: unat_div)
    have r: "unat (n mod gs) = unat n mod unat gs" by (rule unat_mod)
    have lr: "unat (l + n mod gs) = unat l + unat n mod unat gs"
    proof -
      have "unat n mod unat gs \<le> 65535" using assms(2) mod_less_eq_dividend order_trans by blast
      then show ?thesis unfolding r [symmetric] by (subst u32_add_le [of _ _ 70000]) (use assms(4) in simp_all)
    qed
    have t: "n mod gs \<noteq> 0 \<and> l + n mod gs \<le> 1260 \<longleftrightarrow> unat n mod unat gs \<noteq> 0 \<and> unat l + unat n mod unat gs \<le> 1260"
      unfolding word_le_nat_alt lr r [symmetric] by (simp add: unat_eq_0)
    have "ucast ((n + gs - 1) div gs) = (word_of_nat ((unat n + unat gs - 1) div unat gs) :: u16)"
      unfolding q [symmetric] by (metis of_nat_unat)
    then have "gso_df0_segments n gs l = word_of_nat c"
      unfolding gso_df0_segments_def Let_def c t small using False by simp
    moreover have "(unat n + unat gs - 1) div unat gs \<le> unat n"
    proof -
      have "unat n + unat gs - 1 \<le> unat n * unat gs + (unat gs - 1)" proof -
        have "unat n * 1 \<le> unat n * unat gs" by (rule mult_le_mono2) (use g0 in simp)
        then show ?thesis using g0 by linarith
      qed
      then have "(unat n + unat gs - 1) div unat gs \<le> (unat n * unat gs + (unat gs - 1)) div unat gs" by (rule div_le_mono)
      also have "\<dots> = unat n" by (rule div_nat_eqI) (use g0 in \<open>simp_all add: algebra_simps\<close>)
      finally show ?thesis .
    qed
    then have "c \<le> 65535" unfolding c using assms(2) by simp
    ultimately show ?thesis by blast
  qed
  then show "gso_df0_segments n gs l = word_of_nat c" "c \<le> 65535" by simp_all
qed

lemma ident_at_all:
  fixes l :: u32
  assumes "map length fs = map (\<lambda>(off, k). unat l + k) cs"
  shows "ident_at idn (length fs) fs = idn + word_of_nat (length (filter (\<lambda>(off, k). unat l + k \<le> 1260) cs))"
    "filter (\<lambda>(off, k). unat l + k \<le> 1260) cs = [] \<Longrightarrow> f \<in> set fs \<Longrightarrow> 1260 < length f"
proof -
  have "length (filter (\<lambda>f. length f \<le> 1260) fs) = length (filter (\<lambda>n. n \<le> 1260) (map length fs))"
    by (simp add: filter_map comp_def)
  also have "\<dots> = length (filter (\<lambda>(off, k). unat l + k \<le> 1260) cs)"
    unfolding assms by (simp add: filter_map comp_def split_def)
  finally have c: "length (filter (\<lambda>f. length f \<le> 1260) fs) = length (filter (\<lambda>(off, k). unat l + k \<le> 1260) cs)" .
  then show "ident_at idn (length fs) fs = idn + word_of_nat (length (filter (\<lambda>(off, k). unat l + k \<le> 1260) cs))"
    by (simp add: ident_at_def)
  show "1260 < length f" if "filter (\<lambda>(off, k). unat l + k \<le> 1260) cs = []" "f \<in> set fs"
    using c that by (auto simp: filter_empty_conv)
qed

lemma segment4_any_ident:
  "1260 < length f \<Longrightarrow> segment4 m p thl src dst g n i idn part f \<Longrightarrow> segment4 m p thl src dst g n i idm part f"
  by (auto simp: segment4_def)

lemma tcp_6to4_loop:
  assumes "vnet_ok w" "w_io w = []" "20 \<le> unat thl" "even (unat thl)" "unat thl + unat len \<le> 65535"
    and "gs \<noteq> 0" and g: "g = unat gs" and n: "n = unat len" and "unat thl + min g n \<le> 65515"
    and data: "data = load (w_mem w) (p_data p + 40 + unat thl) n"
  shows "\<exists>fs. segment_loop (tcp_segment_6to4 p thl len src dst) (p_data p + 40 + unat thl) len gs 0 idn w
      = Some (0, w\<lparr>w_tx := w_tx w @ map (plain_frame w) fs\<rparr>)
    \<and> map length fs = map (\<lambda>(off, k). 20 + unat thl + k) (chunks g n 0)
    \<and> length fs = seg_count g n \<and> concat (map (drop (20 + unat thl)) fs) = data
    \<and> (\<forall>i < length fs. segment4 (w_mem w) p thl src dst g n i (ident_at idn i fs) (take (min g (n - i * g)) (drop (i * g) data)) (fs ! i))"
proof -
  have g0: "0 < g" using assms(6) by (simp add: g unat_gt_0)
  have "\<exists>fs. segment_loop (tcp_segment_6to4 p thl len src dst) (p_data p + 40 + unat thl) len gs 0 idn w
      = Some (0, w\<lparr>w_tx := w_tx w @ map (plain_frame w) fs\<rparr>)
    \<and> length fs = seg_count g n \<and> concat (map (drop (20 + unat thl)) fs) = data
    \<and> (\<forall>i < length fs. \<exists>hdr. fs ! i = hdr @ take (min g (n - i * g)) (drop (i * g) data) \<and> length hdr = 20 + unat thl
        \<and> segment_head4 (w_mem w) p thl len src dst (word_of_nat (i * g)) (word_of_nat (min g (n - i * g)))
            (idn + word_of_nat (length (filter (\<lambda>(off, k). df0 (20 + thl) (word_of_nat k)) (take i (chunks g n 0))))) hdr)"
  proof (rule segments_sent [OF assms(6,1,2) _ _ segment_head4_made [OF assms(3,4)] g n data])
    fix k :: u32 assume "unat k \<le> unat gs" "unat k \<le> unat len"
    then show "unat thl + unat k \<le> 65515" using assms(9) unfolding g n by simp
  qed (use assms(3,5) in \<open>simp_all add: RECV_BUF_SIZE_def HEADROOM_def\<close>)
  then obtain fs where loop: "segment_loop (tcp_segment_6to4 p thl len src dst) (p_data p + 40 + unat thl) len gs 0 idn w
      = Some (0, w\<lparr>w_tx := w_tx w @ map (plain_frame w) fs\<rparr>)"
    and fs: "length fs = seg_count g n" "concat (map (drop (20 + unat thl)) fs) = data"
    and nth: "\<And>i. i < length fs \<Longrightarrow> \<exists>hdr. fs ! i = hdr @ take (min g (n - i * g)) (drop (i * g) data) \<and> length hdr = 20 + unat thl
        \<and> segment_head4 (w_mem w) p thl len src dst (word_of_nat (i * g)) (word_of_nat (min g (n - i * g)))
          (idn + word_of_nat (length (filter (\<lambda>(off, k). df0 (20 + thl) (word_of_nat k)) (take i (chunks g n 0))))) hdr"
    by blast
  have cs: "chunks g n 0 = map (\<lambda>i. (i * g, min g (n - i * g))) [0..<seg_count g n]" by (rule chunks_0 [OF g0])
  have lens: "map length fs = map (\<lambda>(off, k). 20 + unat thl + k) (chunks g n 0)"
  proof (rule nth_equalityI)
    fix i assume "i < length (map length fs)"
    then have i: "i < length fs" by simp
    have "i * g \<le> n" using seg_index(1) [OF g0] i fs(1) by simp
    moreover have "length data = n" by (simp add: data)
    ultimately show "map length fs ! i = map (\<lambda>(off, k). 20 + unat thl + k) (chunks g n 0) ! i"
      using nth [OF i] i fs(1) by (auto simp: cs)
  qed (simp add: cs fs(1))
  from this have idn: "idn + word_of_nat (length (filter (\<lambda>(off, k). df0 (20 + thl) (word_of_nat k)) (take i (chunks g n 0))))
      = ident_at idn i fs" for i
    by (rule ident_count) (use assms(9) in \<open>auto simp: cs\<close>)
  have "segment4 (w_mem w) p thl src dst g n i (ident_at idn i fs) (take (min g (n - i * g)) (drop (i * g) data)) (fs ! i)"
    if i: "i < length fs" for i
  proof -
    from nth [OF i] obtain hdr where f: "fs ! i = hdr @ take (min g (n - i * g)) (drop (i * g) data)"
      and hd: "segment_head4 (w_mem w) p thl len src dst (word_of_nat (i * g)) (word_of_nat (min g (n - i * g))) (ident_at idn i fs) hdr"
      unfolding idn by blast
    have len: "unat len \<le> 65535" using assms(5) by simp
    show ?thesis
      unfolding f using segment4_head [OF assms(3,9) len n g0 i [unfolded fs(1)] hd refl] unfolding data .
  qed
  then show ?thesis using loop fs lens by blast
qed

lemma u16_bound: "unat (x :: u16) \<le> 65535"
proof -
  have "unat x < 2 ^ LENGTH(16)" by (rule unsigned_less)
  then show ?thesis by simp
qed

lemma tcp_segmentation_6to4_sends:
  assumes "vnet_ok w" "w_io w = []"
    and "p_has_vhdr p" "gso_type p = VIRTIO_NET_HDR_GSO_TCPV6" "0 < gso_validate_header p"
    and "gso_ip6_ok (w_mem w) p IPPROTO_TCP"
    and "thl = tcp_hdr_len (w_mem w) (p_data p + 40)" "20 \<le> thl" "40 + thl \<le> p_data_len p"
    and "40 + thl \<le> ucast (vh_hdr_len (p_vhdr p))" "needs_csum p \<Longrightarrow> gso_validate_transport_vnet p 40 thl 16"
    and "g = unat (vh_gso_size (p_vhdr p))" "n = unat (p_data_len p - 40 - thl)"
    and "40 + unat thl + min g n \<le> unat (g_mtu (w_g w))" "1 < i6_hop_limit (ld_ip6 (w_mem w) (p_data p))"
    and "gso_map_6to4_with_icmp p IPPROTO_TCP w = (Inr (src, dst), w1)"
    and "data = load (w_mem w) (p_data p + 40 + unat thl) n"
  shows "\<exists>w' fs. gso_software_segment_and_send_6to4 p w = Some (0, w') \<and> w_tx w' = w_tx w @ map (plain_frame w) fs
    \<and> w_ident w' = ident_at (w_ident w) (length fs) fs
    \<and> length fs = seg_count g n \<and> concat (map (drop (20 + unat thl)) fs) = data
    \<and> (\<forall>i < length fs. segment4 (w_mem w) p thl src dst g n i (ident_at (w_ident w) i fs) (take (min g (n - i * g)) (drop (i * g) data)) (fs ! i))"
proof -
  let ?n = "p_data_len p - 40 - thl" and ?g = "ucast (vh_gso_size (p_vhdr p)) :: u32"
  have l20: "20 \<le> unat thl" using assms(8) by (simp add: word_le_nat_alt)
  have l60: "unat thl \<le> 60" unfolding assms(7) by (rule tcp_hdr_len_le)
  have ev: "even (unat thl)" unfolding assms(7) by (rule even_tcp_hdr_len)
  note len = gso_ip6_len [OF assms(6) l20 assms(9) l60]
  have g0: "?g \<noteq> 0" using gso_valid_size [OF assms(5)] by (simp add: gso_size_nonzero)
  have ug: "g = unat ?g" by (simp add: assms(12))
  have fit: "unat thl + min g n \<le> 65495"
  proof -
    have "unat (g_mtu (w_g w)) < 2 ^ LENGTH(16)" by (rule unsigned_less)
    then show ?thesis using assms(14) by simp
  qed
  have t40: "unat (40 + thl) = 40 + unat thl" by (subst u32_add_le [of _ _ 100]) (use l60 in simp_all)
  have fsg: "unat (first_seg ?n ?g) = min g n" by (simp add: first_seg_def assms(12,13) word_less_nat_alt min_def)
  have "unat (40 + thl + first_seg ?n ?g) = 40 + unat thl + min g n"
    by (subst u32_add_le [of _ _ 70000]) (use t40 fsg fit in simp_all)
  then have mtu: "\<not> mtu_exceeded6 w (40 + thl + first_seg ?n ?g)"
    using assms(14) by (simp add: mtu_exceeded6_def word_less_nat_alt)
  obtain st where w1: "w1 = w\<lparr>w_g := st\<rparr>" using gso_map_6to4_only [OF assms(16)] by blast
  obtain idn w2 where rs: "reserve_df0 (gso_df0_segments ?n ?g (20 + thl)) w1 = (idn, w2)" by fastforce
  obtain c where w2: "w2 = w\<lparr>w_g := st, w_ident := c\<rparr>"
    using rs w1 by (auto simp: reserve_df0_def reserve_ip4_ident_def split: if_splits) (metis world.surjective world.update_convs(5))
  have ri: "idn = w_ident w \<or> gso_df0_segments ?n ?g (20 + thl) = 0" "w_ident w2 = w_ident w + gso_df0_segments ?n ?g (20 + thl)"
    using rs w1 by (auto simp: reserve_df0_def reserve_ip4_ident_def split: if_splits)
  have neg: "\<not> p_data_len p < 40 + 20" "\<not> (thl < 20 \<or> p_data_len p < 40 + thl)" "\<not> ucast (vh_hdr_len (p_vhdr p)) < 40 + thl"
    "\<not> i6_hop_limit (ld_ip6 (w_mem w) (p_data p)) \<le> 1" "\<not> gso_validate_header p \<le> 0"
    using len(2) assms(5,8-10,15) by (simp_all add: not_less not_le)
  have eq: "gso_software_segment_and_send_6to4 p w =
      segment_loop (tcp_segment_6to4 p thl ?n src dst) (p_data p + 40 + unat thl) ?n ?g 0 idn w2"
    unfolding gso_software_segment_and_send_6to4_def Let_def assms(7) [symmetric] seg_size_eq [OF gso_valid_size [OF assms(5)]]
    using neg mtu assms(3,4,6,11) by (auto simp: needs_csum_def assms(16) rs)
  have ok: "vnet_ok w2" "w_io w2 = []" "unat thl + unat ?n \<le> 65535" "unat thl + min g n \<le> 65515"
    "data = load (w_mem w2) (p_data p + 40 + unat thl) n"
    using assms(1,2,17) len(1) fit by (simp_all add: w2 vnet_ok_def)
  have same: "plain_frame w2 = plain_frame w" "w_mem w2 = w_mem w" "w_tx w2 = w_tx w"
    by (simp_all add: w2 plain_frame_def fun_eq_iff)
  have ids: "w_ident w2 = ident_at (w_ident w) (length fs) fs"
      "segment4 m p thl src dst g n i (ident_at idn i fs) part f \<Longrightarrow> segment4 m p thl src dst g n i (ident_at (w_ident w) i fs) part f"
    if fl: "map length fs = map (\<lambda>(off, k). 20 + unat thl + k) (chunks g n 0)" and fm: "f \<in> set fs" for fs f i m part
  proof -
    have t20: "unat (20 + thl) = 20 + unat thl" by (subst u32_add_le [of _ _ 100]) (use l60 in simp_all)
    have b: "unat ?n \<le> 65535" "unat ?g \<le> 65535" "unat (20 + thl) \<le> 1260"
      using len(1) l60 t20 u16_bound [of "vh_gso_size (p_vhdr p)"] by simp_all
    note c = df0_count [OF g0 b, folded ug assms(13), unfolded t20]
    note a = ident_at_all [of fs "20 + thl", unfolded t20, OF fl]
    show "w_ident w2 = ident_at (w_ident w) (length fs) fs" unfolding ri(2) a(1) c(1) ..
    show "segment4 m p thl src dst g n i (ident_at (w_ident w) i fs) part f" if s: "segment4 m p thl src dst g n i (ident_at idn i fs) part f"
    proof (cases "idn = w_ident w")
      case True then show ?thesis using s by simp
    next
      case False
      then have "word_of_nat (length (filter (\<lambda>(off, k). 20 + unat thl + k \<le> 1260) (chunks g n 0))) = (0 :: u16)"
        using ri(1) c(1) by simp
      then have "65536 dvd length (filter (\<lambda>(off, k). 20 + unat thl + k \<le> 1260) (chunks g n 0))"
        unfolding word_of_nat_eq_0_iff by simp
      then have "\<not> 0 < length (filter (\<lambda>(off, k). 20 + unat thl + k \<le> 1260) (chunks g n 0))"
        using c(2) nat_dvd_not_less by fastforce
      then have "filter (\<lambda>(off, k). 20 + unat thl + k \<le> 1260) (chunks g n 0) = []" by blast
      then show ?thesis using a(2) fm s segment4_any_ident by blast
    qed
  qed
  from tcp_6to4_loop [OF ok(1,2) l20 ev ok(3) g0 ug assms(13) ok(4,5), of src dst idn]
  obtain fs where r: "segment_loop (tcp_segment_6to4 p thl ?n src dst) (p_data p + 40 + unat thl) ?n ?g 0 idn w2
      = Some (0, w2\<lparr>w_tx := w_tx w2 @ map (plain_frame w2) fs\<rparr>)"
    and fs: "map length fs = map (\<lambda>(off, k). 20 + unat thl + k) (chunks g n 0)" "length fs = seg_count g n"
      "concat (map (drop (20 + unat thl)) fs) = data"
    and seg: "\<forall>i < length fs. segment4 (w_mem w2) p thl src dst g n i (ident_at idn i fs) (take (min g (n - i * g)) (drop (i * g) data)) (fs ! i)"
    by blast
  have "fs ! 0 \<in> set fs" using fs(2) by (simp add: seg_count_def)
  from ids(1) [OF fs(1) this] have "w_ident w2 = ident_at (w_ident w) (length fs) fs" .
  moreover have "\<forall>i < length fs. segment4 (w_mem w) p thl src dst g n i (ident_at (w_ident w) i fs)
      (take (min g (n - i * g)) (drop (i * g) data)) (fs ! i)"
    using seg ids(2) [OF fs(1) nth_mem] unfolding same by blast
  ultimately show ?thesis unfolding eq r same using fs(2,3)
    by (intro exI [of _ "w2\<lparr>w_tx := w_tx w @ map (plain_frame w) fs\<rparr>"] exI [of _ fs]) simp
qed

end
