(* ===== verification/Gso_Seal6.thy ===== *)
theory Gso_Seal6
  imports Gso_Seal
begin

text \<open>
  The packets of software segmentation from IPv4 to IPv6: the counterpart of the last section of
  \<open>Gso_Seal\<close>. There are no identifications; the offset of the segments is that of the IPv4 header.
\<close>

text \<open>What is said of the headers of a segment: the bytes, and that the segment is valid.\<close>

definition segment_head6 ::
  "mem \<Rightarrow> pkt \<Rightarrow> u32 \<Rightarrow> u32 \<Rightarrow> u32 \<Rightarrow> in6_addr \<Rightarrow> in6_addr \<Rightarrow> u32 \<Rightarrow> u32 \<Rightarrow> u8 list \<Rightarrow> bool" where
  "segment_head6 m p ihl thl n src dst off k hdr \<longleftrightarrow>
     (\<exists>h t ck. h = gso_ip6_hdr (i4_tos (ld_ip4 m (p_data p))) (thl + k) 6 (i4_ttl (ld_ip4 m (p_data p)) - 1) src dst
      \<and> t = (segment_tcp (ld_tcp m (p_data p + unat ihl)) n off k)\<lparr>tcp_cksum := ck\<rparr>
      \<and> hdr = ip6_bytes h @ tcp_bytes t @ load m (p_data p + unat ihl + 20) (unat thl - 20)
      \<and> valid6 src dst 6 (tcp_bytes t @ load m (p_data p + unat ihl + 20) (unat thl - 20)
          @ load m (p_data p + unat ihl + unat thl + unat off) (unat k)))"

lemma segment_head6_made:
  fixes w :: world
  assumes "20 \<le> unat thl" "even (unat thl)" "unat thl + unat k \<le> 65535"
  shows "\<exists>hdr. length hdr = 40 + unat thl \<and> segment_head6 (w_mem w) p ihl thl n src dst off k hdr
    \<and> (\<forall>w'. w_mem w' = w_mem w \<longrightarrow>
        tcp_segment_4to6 p ihl thl n src dst off k idn w' = Some (hdr, idn + (if False then 1 else 0)))"
proof -
  from tcp_segment_4to6_ok [OF assms, where p = p and w = w and n = n and off = off and ihl = ihl and idn = idn and src = src and dst = dst]
  obtain hdr where "tcp_segment_4to6 p ihl thl n src dst off k idn w = Some (hdr, idn)"
    "segment_head6 (w_mem w) p ihl thl n src dst off k hdr"
    unfolding segment_head6_def by blast
  moreover from this(2) have "length hdr = 40 + unat thl" using assms(1) by (auto simp: segment_head6_def)
  ultimately show ?thesis unfolding if_False add_0_right using tcp_segment_4to6_mem by metis
qed

text \<open>The packet number \<open>i\<close>.\<close>

definition segment6 ::
  "mem \<Rightarrow> pkt \<Rightarrow> u32 \<Rightarrow> u32 \<Rightarrow> in6_addr \<Rightarrow> in6_addr \<Rightarrow> nat \<Rightarrow> nat \<Rightarrow> nat \<Rightarrow> u8 list \<Rightarrow> u8 list \<Rightarrow> bool" where
  "segment6 m p ihl thl src dst g n i part f \<longleftrightarrow>
     (\<exists>h t. f = ip6_bytes h @ tcp_bytes t @ load m (p_data p + unat ihl + 20) (unat thl - 20) @ part
        \<and> valid6 src dst 6 (drop 40 f)
        \<and> i6_src h = src \<and> i6_dest h = dst \<and> i6_hop_limit h = i4_ttl (ld_ip4 m (p_data p)) - 1
        \<and> i6_payload_length h = htons (word_of_nat (length f - 40))
        \<and> tcp_seq t = htonl (ntohl (tcp_seq (ld_tcp m (p_data p + unat ihl))) + word_of_nat (i * g))
        \<and> tcp_ack_seq t = tcp_ack_seq (ld_tcp m (p_data p + unat ihl))
        \<and> tcp_flags t = tcp_flags (ld_tcp m (p_data p + unat ihl))
            AND (if Suc i = seg_count g n then NOT 0 else NOT (TCP_FLAG_FIN OR TCP_FLAG_PSH))
            AND (if i = 0 then NOT 0 else NOT TCP_FLAG_CWR))"

lemma segment6_head:
  fixes len :: u32
  assumes "20 \<le> unat thl" "unat thl + min g n \<le> 65535" "unat len \<le> 65535"
    and n: "n = unat len" and "0 < g" "i < seg_count g n"
    and "segment_head6 m p ihl thl len src dst (word_of_nat (i * g)) (word_of_nat (min g (n - i * g))) hdr"
    and "part = take (min g (n - i * g)) (drop (i * g) (load m (p_data p + unat ihl + unat thl) n))"
  shows "segment6 m p ihl thl src dst g n i part (hdr @ part)"
proof -
  let ?o = "word_of_nat (i * g) :: u32" and ?k = "word_of_nat (min g (n - i * g)) :: u32"
  let ?opts = "load m (p_data p + unat ihl + 20) (unat thl - 20)"
  note ix = assms(6) [unfolded n]
  note sw = seg_words [OF assms(5) ix assms(3), folded n]
  note place = segment_tcp_place [OF assms(5) ix assms(3), folded n]
  from assms(7) obtain h t ck where
    h: "h = gso_ip6_hdr (i4_tos (ld_ip4 m (p_data p))) (thl + ?k) 6 (i4_ttl (ld_ip4 m (p_data p)) - 1) src dst"
    and t: "t = (segment_tcp (ld_tcp m (p_data p + unat ihl)) len ?o ?k)\<lparr>tcp_cksum := ck\<rparr>"
    and hdr: "hdr = ip6_bytes h @ tcp_bytes t @ ?opts"
    and v: "valid6 src dst 6 (tcp_bytes t @ ?opts @ load m (p_data p + unat ihl + unat thl + unat ?o) (unat ?k))"
    unfolding segment_head6_def by blast
  have le: "i * g + min g (n - i * g) \<le> n" using seg_index(1) [OF assms(5,6)] by simp
  have part: "load m (p_data p + unat ihl + unat thl + unat ?o) (unat ?k) = part"
    unfolding sw(1,2) assms(8) using le by (simp add: load_drop load_take)
  have ln: "length (hdr @ part) - 40 = unat thl + min g (n - i * g)"
    unfolding hdr assms(8) using assms(1) le by simp
  have ku: "unat (thl + ?k) = length (hdr @ part) - 40"
    unfolding ln by (subst u32_add_le [of _ _ 65535]) (use assms(2) sw(2) in simp_all)
  then have "(ucast (thl + ?k) :: u16) = word_of_nat (length (hdr @ part) - 40)" by (metis of_nat_unat)
  then have "i6_payload_length h = htons (word_of_nat (length (hdr @ part) - 40))" by (simp only: h gso_ip6_hdr_simps)
  moreover have "drop 40 (hdr @ part) = tcp_bytes t @ ?opts @ part" unfolding hdr by simp
  then have "valid6 src dst 6 (drop 40 (hdr @ part))" using v unfolding part by (simp only:)
  moreover have "hdr @ part = ip6_bytes h @ tcp_bytes t @ ?opts @ part" unfolding hdr by (simp only: append_assoc)
  ultimately show ?thesis
    unfolding segment6_def h t
    by (intro exI conjI) (assumption | rule place gso_ip6_hdr_simps)+
qed

lemma tcp_4to6_loop:
  assumes "vnet_ok w" "w_io w = []" "20 \<le> unat thl" "even (unat thl)" "unat thl + unat len \<le> 65535"
    and "gs \<noteq> 0" and g: "g = unat gs" and n: "n = unat len"
    and data: "data = load (w_mem w) (p_data p + unat ihl + unat thl) n"
  shows "\<exists>fs. segment_loop (tcp_segment_4to6 p ihl thl len src dst) (p_data p + unat ihl + unat thl) len gs 0 idn w
      = Some (0, w\<lparr>w_tx := w_tx w @ map (plain_frame w) fs\<rparr>)
    \<and> length fs = seg_count g n \<and> concat (map (drop (40 + unat thl)) fs) = data
    \<and> (\<forall>i < length fs. segment6 (w_mem w) p ihl thl src dst g n i (take (min g (n - i * g)) (drop (i * g) data)) (fs ! i))"
proof -
  have g0: "0 < g" using assms(6) by (simp add: g unat_gt_0)
  have "\<exists>fs. segment_loop (tcp_segment_4to6 p ihl thl len src dst) (p_data p + unat ihl + unat thl) len gs 0 idn w
      = Some (0, w\<lparr>w_tx := w_tx w @ map (plain_frame w) fs\<rparr>)
    \<and> length fs = seg_count g n \<and> concat (map (drop (40 + unat thl)) fs) = data
    \<and> (\<forall>i < length fs. \<exists>hdr. fs ! i = hdr @ take (min g (n - i * g)) (drop (i * g) data) \<and> length hdr = 40 + unat thl
        \<and> (\<lambda>off k _. segment_head6 (w_mem w) p ihl thl len src dst off k) (word_of_nat (i * g)) (word_of_nat (min g (n - i * g)))
            (idn + word_of_nat (length (filter (\<lambda>(off, k). (\<lambda>_. False) (word_of_nat k :: u32)) (take i (chunks g n 0))))) hdr)"
  proof (rule segments_sent [OF assms(6,1,2) _ _ segment_head6_made [OF assms(3,4)] g n data])
    fix k :: u32 assume "unat k \<le> unat len"
    then show "unat thl + unat k \<le> 65535" using assms(5) by simp
  qed (use assms(3,5) in \<open>simp_all add: RECV_BUF_SIZE_def HEADROOM_def\<close>)
  then obtain fs where loop: "segment_loop (tcp_segment_4to6 p ihl thl len src dst) (p_data p + unat ihl + unat thl) len gs 0 idn w
      = Some (0, w\<lparr>w_tx := w_tx w @ map (plain_frame w) fs\<rparr>)"
    and fs: "length fs = seg_count g n" "concat (map (drop (40 + unat thl)) fs) = data"
    and nth: "\<And>i. i < length fs \<Longrightarrow> \<exists>hdr. fs ! i = hdr @ take (min g (n - i * g)) (drop (i * g) data)
        \<and> segment_head6 (w_mem w) p ihl thl len src dst (word_of_nat (i * g)) (word_of_nat (min g (n - i * g))) hdr"
    by blast
  have len: "unat len \<le> 65535" "unat thl + min g n \<le> 65535" using assms(5) unfolding n by simp_all
  have "segment6 (w_mem w) p ihl thl src dst g n i (take (min g (n - i * g)) (drop (i * g) data)) (fs ! i)"
    if i: "i < length fs" for i
  proof -
    from nth [OF i] obtain hdr where f: "fs ! i = hdr @ take (min g (n - i * g)) (drop (i * g) data)"
      and hd: "segment_head6 (w_mem w) p ihl thl len src dst (word_of_nat (i * g)) (word_of_nat (min g (n - i * g))) hdr" by blast
    show ?thesis
      unfolding f using segment6_head [OF assms(3) len(2,1) n g0 i [unfolded fs(1)] hd refl] unfolding data .
  qed
  then show ?thesis using loop fs by blast
qed

lemma tcp_segmentation_4to6_sends:
  assumes "vnet_ok w" "w_io w = []"
    and "p_has_vhdr p" "gso_type p = VIRTIO_NET_HDR_GSO_TCPV4" "0 < gso_validate_header p"
    and "gso_validate_ipv4_header (w_mem w) p IPPROTO_TCP = Some ihl" "unat (p_data_len p) \<le> 65535"
    and "thl = tcp_hdr_len (w_mem w) (p_data p + unat ihl)" "20 \<le> thl" "ihl + thl \<le> p_data_len p"
    and "ihl + thl \<le> ucast (vh_hdr_len (p_vhdr p))" "needs_csum p \<Longrightarrow> gso_validate_transport_vnet p ihl thl 16"
    and "g = unat (vh_gso_size (p_vhdr p))" "n = unat (p_data_len p - ihl - thl)"
    and "\<not> mtu_exceeded4 w (ld_ip4 (w_mem w) (p_data p)) (ihl + thl + word_of_nat (min g n))"
    and "1 < i4_ttl (ld_ip4 (w_mem w) (p_data p))"
    and "gso_map_4to6_with_icmp p ihl IPPROTO_TCP w = (Inr (src, dst), w1)"
    and "data = load (w_mem w) (p_data p + unat ihl + unat thl) n"
  shows "\<exists>w' fs. gso_software_segment_and_send_4to6 p w = Some (0, w') \<and> w_tx w' = w_tx w @ map (plain_frame w) fs
    \<and> length fs = seg_count g n \<and> concat (map (drop (40 + unat thl)) fs) = data
    \<and> (\<forall>i < length fs. segment6 (w_mem w) p ihl thl src dst g n i (take (min g (n - i * g)) (drop (i * g) data)) (fs ! i))"
proof -
  let ?n = "p_data_len p - ihl - thl" and ?g = "ucast (vh_gso_size (p_vhdr p)) :: u32"
  have l20: "20 \<le> unat thl" using assms(9) by (simp add: word_le_nat_alt)
  have l60: "unat thl \<le> 60" unfolding assms(8) by (rule tcp_hdr_len_le)
  have ev: "even (unat thl)" unfolding assms(8) by (rule even_tcp_hdr_len)
  have ihl: "unat ihl \<le> 60" "20 \<le> unat ihl"
    by (rule validated_ihl [OF assms(6)])+
  have fp: "\<not> ihl + thl > p_data_len p" using assms(10) by (simp add: not_less)
  note parts = frame_parts [OF fp ihl(1) l60]
  have len: "unat thl + unat ?n \<le> 65535" using parts assms(7) by linarith
  have it: "unat (ihl + thl) = unat ihl + unat thl" "unat (ihl + 20) = unat ihl + 20"
    by (subst u32_add_le [of _ _ 200]; use ihl l60 in simp)+
  have g0: "?g \<noteq> 0" using gso_valid_size [OF assms(5)] by (simp add: gso_size_nonzero)
  have ug: "g = unat ?g" by (simp add: assms(13))
  have "unat (first_seg ?n ?g) = min g n" by (simp add: first_seg_def assms(13,14) word_less_nat_alt min_def)
  then have "first_seg ?n ?g = word_of_nat (min g n)" by (metis of_nat_unat ucast_id)
  then have mtu: "\<not> mtu_exceeded4 w (ld_ip4 (w_mem w) (p_data p)) (ihl + thl + first_seg ?n ?g)" using assms(15) by simp
  obtain st where w1: "w1 = w\<lparr>w_g := st\<rparr>" using gso_map_4to6_only [OF assms(17)] by blast
  have neg: "\<not> p_data_len p < 20 + 20" "\<not> p_data_len p < ihl + 20" "\<not> (thl < 20 \<or> p_data_len p < ihl + thl)"
    "\<not> ucast (vh_hdr_len (p_vhdr p)) < ihl + thl"
    using parts(2) l20 ihl it assms(9-11) by (simp_all add: not_less word_le_nat_alt)
  have neg2: "\<not> i4_ttl (ld_ip4 (w_mem w) (p_data p)) \<le> 1" "\<not> gso_validate_header p \<le> 0"
    using assms(5,16) by (simp_all add: not_le)
  have eq: "gso_software_segment_and_send_4to6 p w =
      segment_loop (tcp_segment_4to6 p ihl thl ?n src dst) (p_data p + unat ihl + unat thl) ?n ?g 0 0 w1"
    unfolding gso_software_segment_and_send_4to6_def Let_def assms(6) option.case assms(8) [symmetric]
      seg_size_eq [OF gso_valid_size [OF assms(5)]]
    using neg neg2 mtu assms(3,4,12) by (auto simp: needs_csum_def assms(17))
  have ok: "vnet_ok w1" "w_io w1 = []" "data = load (w_mem w1) (p_data p + unat ihl + unat thl) n"
    using assms(1,2,18) by (simp_all add: w1 vnet_ok_def)
  have same: "plain_frame w1 = plain_frame w" "w_mem w1 = w_mem w" "w_tx w1 = w_tx w"
    by (simp_all add: w1 plain_frame_def fun_eq_iff)
  from tcp_4to6_loop [OF ok(1,2) l20 ev len g0 ug assms(14) ok(3), of src dst 0]
  show ?thesis unfolding eq same by fastforce
qed

end
