(* ===== verification/Gso_Props.thy ===== *)
theory Gso_Props
  imports Gso_Seal6 Sample_World
begin

text \<open>
  The properties of software segmentation, on the routines themselves, and a frame for each
  direction at which they are instantiated.
\<close>

section \<open>Sample frames\<close>

text \<open>A TCP segment with FIN, PSH, ACK and CWR and five bytes of payload, to be cut in parts of two.\<close>

definition tcp_hello :: "u8 list" where
  "tcp_hello = [3, 232, 0, 80, 0, 0, 0, 1, 0, 0, 0, 2, 0x50, 0x99, 1, 0, 0, 0, 0, 0, 104, 101, 108, 108, 111]"

lemma length_tcp_hello [simp]: "length tcp_hello = 25"
  by (simp add: tcp_hello_def)

definition gso_frame :: "u8 \<Rightarrow> u16 \<Rightarrow> nat \<Rightarrow> pkt" where
  "gso_frame type hdr_len n = pkt_zero\<lparr>p_data := HEADROOM, p_data_len := word_of_nat n, p_has_vhdr := True,
     p_vhdr := vnet_zero\<lparr>vh_gso_type := type, vh_gso_size := 2, vh_hdr_len := hdr_len\<rparr>\<rparr>"

lemma gso_frame_simps [simp]:
  "p_data (gso_frame t h n) = 64" "p_data_len (gso_frame t h n) = word_of_nat n" "p_has_vhdr (gso_frame t h n)"
  "vh_gso_type (p_vhdr (gso_frame t h n)) = t" "vh_gso_size (p_vhdr (gso_frame t h n)) = 2"
  "vh_hdr_len (p_vhdr (gso_frame t h n)) = h" "\<not> needs_csum (gso_frame t h n)"
  by (simp_all add: gso_frame_def HEADROOM_def needs_csum_def vnet_zero_def)

lemma gso_frame_valid:
  "gso_type (gso_frame VIRTIO_NET_HDR_GSO_TCPV6 60 65) = VIRTIO_NET_HDR_GSO_TCPV6"
  "0 < gso_validate_header (gso_frame VIRTIO_NET_HDR_GSO_TCPV6 60 65)"
  "gso_type (gso_frame VIRTIO_NET_HDR_GSO_TCPV4 40 45) = VIRTIO_NET_HDR_GSO_TCPV4"
  "0 < gso_validate_header (gso_frame VIRTIO_NET_HDR_GSO_TCPV4 40 45)"
  by (simp_all add: gso_validate_header_def gso_type_def VIRTIO_NET_HDR_GSO_TCPV6_def VIRTIO_NET_HDR_GSO_TCPV4_def
      VIRTIO_NET_HDR_GSO_ECN_def VIRTIO_NET_HDR_GSO_NONE_def gso_frame_def vnet_zero_def)

definition gso_world6 :: world where
  "gso_world6 = world6 6 tcp_hello"

definition gso_header4 :: ip4 where
  "gso_header4 = (header4 6 0 25)\<lparr>i4_cksum := ip4_header_checksum ((header4 6 0 25)\<lparr>i4_cksum := 0\<rparr>)\<rparr>"

definition gso_world4 :: world where
  "gso_world4 = packet_world (ip4_bytes gso_header4 @ tcp_hello)"

lemma gso_world_dev:
  "vnet_ok gso_world6" "w_io gso_world6 = []" "g_mtu (w_g gso_world6) = 1500"
  "vnet_ok gso_world4" "w_io gso_world4 = []" "g_mtu (w_g gso_world4) = 1500"
  using packet_world_ok by (simp_all add: gso_world6_def gso_world4_def world6_dev del: packet_world_simps add: packet_world_simps(3))

lemma gso_world6_mem:
  "ld_ip6 (w_mem gso_world6) 64 = header6 6 25" "tcp_hdr_len (w_mem gso_world6) 104 = 20"
proof -
  show "ld_ip6 (w_mem gso_world6) 64 = header6 6 25"
    using world6_facts(1) [of 6 tcp_hello 25] by (simp add: gso_world6_def)
  have "w_mem gso_world6 (64 + 52) = tcp_hello ! 12"
    using store_part [of 52 "ip6_bytes (header6 6 25) @ tcp_hello" "\<lambda>_. 0" 64]
    by (simp add: gso_world6_def world6_def nth_append HEADROOM_def)
  then show "tcp_hdr_len (w_mem gso_world6) 104 = 20"
    by (simp add: tcp_hdr_len_def ld_tcp_def tcp_hello_def)
qed

lemma gso_world4_mem:
  "ld_ip4 (w_mem gso_world4) 64 = gso_header4" "tcp_hdr_len (w_mem gso_world4) 84 = 20"
  "load (w_mem gso_world4) 64 20 = ip4_bytes gso_header4"
proof -
  show "ld_ip4 (w_mem gso_world4) 64 = gso_header4"
    using ld_ip4_store [of "\<lambda>_. 0" HEADROOM gso_header4 tcp_hello] by (simp add: gso_world4_def HEADROOM_def)
  have "w_mem gso_world4 (64 + 32) = tcp_hello ! 12"
    using store_part [of 32 "ip4_bytes gso_header4 @ tcp_hello" "\<lambda>_. 0" 64]
    by (simp add: gso_world4_def nth_append HEADROOM_def)
  then show "tcp_hdr_len (w_mem gso_world4) 84 = 20"
    by (simp add: tcp_hdr_len_def ld_tcp_def tcp_hello_def)
  show "load (w_mem gso_world4) 64 20 = ip4_bytes gso_header4"
    using load_part [of 0 20 "ip4_bytes gso_header4 @ tcp_hello" "\<lambda>_. 0" 64] by (simp add: gso_world4_def HEADROOM_def)
qed

lemma gso_world6_ip: "gso_ip6_ok (w_mem gso_world6) (gso_frame VIRTIO_NET_HDR_GSO_TCPV6 60 65) IPPROTO_TCP"
  by (simp add: gso_ip6_ok_def gso_world6_mem header6_def IPPROTO_TCP_def validate_ip6_addr_def host7_6_def host9_6_def
      s6_addr16_0_def eval_addr Let_def)

lemma gso_world4_ip:
  "gso_validate_ipv4_header (w_mem gso_world4) (gso_frame VIRTIO_NET_HDR_GSO_TCPV4 40 45) IPPROTO_TCP = Some 20"
proof -
  have c: "ip_checksum (load (w_mem gso_world4) 64 20) = 0"
    unfolding gso_world4_mem gso_header4_def by (rule ip4_header_sealed)
  have o: "ip4_options_ok m 64 20 20" for m by (simp add: ip4_options_ok.simps)
  show ?thesis
    using c o by (simp add: gso_validate_ipv4_header_def gso_world4_mem gso_header4_def header4_def IPPROTO_TCP_def
        validate_ip4_addr_def host7_def host9_def ip4_lit_def eval_addr Let_def IP4_F_MASK_def IP4_F_MF_def)
qed

lemma gso_world_map:
  "gso_map_6to4_with_icmp (gso_frame t h n) proto gso_world6 = (Inr (host7, host9), gso_world6)"
  "gso_map_4to6_with_icmp (gso_frame t h n) l proto gso_world4 = (Inr (host7_6, host9_6), gso_world4)"
proof -
  have w: "with_g (map_ip6_to_ip4 host7_6 d) gso_world6 = (Inr host7, gso_world6)"
    "with_g (map_ip6_to_ip4 host9_6 d) gso_world6 = (Inr host9, gso_world6)"
    "with_g (map_ip4_to_ip6 host7) gso_world4 = (Inr host7_6, gso_world4)"
    "with_g (map_ip4_to_ip6 host9) gso_world4 = (Inr host9_6, gso_world4)" for d
    by (simp_all add: with_g_def gso_world6_def world6_def gso_world4_def hosts_map6 hosts_map4 del: packet_world_simps(1))
  have l: "g_local_addr6 (w_g gso_world6) \<noteq> host9_6" "g_local_addr4 (w_g gso_world4) \<noteq> host9"
    by (simp_all add: gso_world6_def world6_def gso_world4_def sample_state_def sample_base_def host9_6_def host9_def eval_addr)
  have a: "i6_src (header6 6 25) = host7_6" "i6_dest (header6 6 25) = host9_6" "i4_src gso_header4 = host7" "i4_dest gso_header4 = host9"
    by (simp_all add: header6_def gso_header4_def header4_def)
  show "gso_map_6to4_with_icmp (gso_frame t h n) proto gso_world6 = (Inr (host7, host9), gso_world6)"
    unfolding gso_map_6to4_with_icmp_def Let_def gso_frame_simps gso_world6_mem a using l(1) by (simp add: w)
  show "gso_map_4to6_with_icmp (gso_frame t h n) l proto gso_world4 = (Inr (host7_6, host9_6), gso_world4)"
    unfolding gso_map_4to6_with_icmp_def Let_def gso_frame_simps gso_world4_mem a using l(2) by (simp add: w)
qed

section \<open>Segmentation of TCP frames\<close>

text \<open>C8. Software segmentation of a TCP frame sends the payload in order, in packets of the announced size whose header and TCP checksums verify, with the sequence number and flags of their place, and with exactly the reserved identifications.\<close>

theorem tcp_segmentation_6to4:
  assumes "vnet_ok w" "w_io w = []"
    and "p_has_vhdr p" "gso_type p = VIRTIO_NET_HDR_GSO_TCPV6" "0 < gso_validate_header p"
    and "gso_ip6_ok (w_mem w) p IPPROTO_TCP"
    and "thl = tcp_hdr_len (w_mem w) (p_data p + 40)" "20 \<le> thl" "40 + thl \<le> p_data_len p"
    and "40 + thl \<le> ucast (vh_hdr_len (p_vhdr p))" "needs_csum p \<Longrightarrow> gso_validate_transport_vnet p 40 thl 16"
    and "g = unat (vh_gso_size (p_vhdr p))" "n = unat (p_data_len p - 40 - thl)"
    and "40 + unat thl + min g n \<le> unat (g_mtu (w_g w))" "1 < i6_hop_limit (ld_ip6 (w_mem w) (p_data p))"
    and "gso_map_6to4_with_icmp p IPPROTO_TCP w = (Inr (src, dst), w1)"
    and "data = load (w_mem w) (p_data p + 40 + unat thl) n"
  shows "\<exists>w' fs. gso_software_segment_and_send_6to4 p w = Some (0, w') \<and> w_tx w' = w_tx w @ map (plain_frame w) fs
    \<and> w_ident w' = ident_at (w_ident w) (length fs) fs
    \<and> length fs = seg_count g n \<and> concat (map (drop (20 + unat thl)) fs) = data
    \<and> (\<forall>i < length fs. segment4 (w_mem w) p thl src dst g n i (ident_at (w_ident w) i fs)
          (take (min g (n - i * g)) (drop (i * g) data)) (fs ! i))"
  by (rule tcp_segmentation_6to4_sends) (rule assms, assumption?)+

lemma tcp_segmentation_6to4_witness:
  "\<exists>w' fs. gso_software_segment_and_send_6to4 (gso_frame VIRTIO_NET_HDR_GSO_TCPV6 60 65) gso_world6 = Some (0, w')
    \<and> w_tx w' = w_tx gso_world6 @ map (plain_frame gso_world6) fs
    \<and> w_ident w' = ident_at (w_ident gso_world6) (length fs) fs
    \<and> length fs = 3 \<and> concat (map (drop (20 + unat (20 :: u32))) fs) = load (w_mem gso_world6) 124 5"
proof -
  have c: "seg_count 2 5 = 3" by (simp add: seg_count_def)
  have m: "20 = tcp_hdr_len (w_mem gso_world6) (p_data (gso_frame VIRTIO_NET_HDR_GSO_TCPV6 60 65) + 40)"
    "1 < i6_hop_limit (ld_ip6 (w_mem gso_world6) (p_data (gso_frame VIRTIO_NET_HDR_GSO_TCPV6 60 65)))"
    by (simp_all add: gso_world6_mem header6_def)
  have d: "load (w_mem gso_world6) 124 5 = load (w_mem gso_world6) (p_data (gso_frame VIRTIO_NET_HDR_GSO_TCPV6 60 65) + 40 + unat (20 :: u32)) 5"
    by simp
  have "\<exists>w' fs. gso_software_segment_and_send_6to4 (gso_frame VIRTIO_NET_HDR_GSO_TCPV6 60 65) gso_world6 = Some (0, w')
    \<and> w_tx w' = w_tx gso_world6 @ map (plain_frame gso_world6) fs
    \<and> w_ident w' = ident_at (w_ident gso_world6) (length fs) fs
    \<and> length fs = seg_count 2 5 \<and> concat (map (drop (20 + unat (20 :: u32))) fs) = load (w_mem gso_world6) 124 5
    \<and> (\<forall>i < length fs. segment4 (w_mem gso_world6) (gso_frame VIRTIO_NET_HDR_GSO_TCPV6 60 65) 20 host7 host9 2 5 i
        (ident_at (w_ident gso_world6) i fs) (take (min 2 (5 - i * 2)) (drop (i * 2) (load (w_mem gso_world6) 124 5))) (fs ! i))"
    by (rule tcp_segmentation_6to4 [OF gso_world_dev(1,2) gso_frame_simps(3) gso_frame_valid(1,2) gso_world6_ip m(1)
        _ _ _ _ _ _ _ m(2) gso_world_map(1) d]) (simp_all add: gso_world_dev)
  then show ?thesis unfolding c by blast
qed

text \<open>C9. The same from IPv4 to IPv6: the payload in order, each packet with a valid TCP checksum and the header of its place.\<close>

theorem tcp_segmentation_4to6:
  assumes "vnet_ok w" "w_io w = []"
    and "p_has_vhdr p" "gso_type p = VIRTIO_NET_HDR_GSO_TCPV4" "0 < gso_validate_header p"
    and "gso_validate_ipv4_header (w_mem w) p IPPROTO_TCP = Some ihl" "unat (p_data_len p) \<le> 65535"
    and "thl = tcp_hdr_len (w_mem w) (p_data p + unat ihl)" "20 \<le> thl" "ihl + thl \<le> p_data_len p"
    and "ihl + thl \<le> ucast (vh_hdr_len (p_vhdr p))" "needs_csum p \<Longrightarrow> gso_validate_transport_vnet p ihl thl 16"
    and "g = unat (vh_gso_size (p_vhdr p))" "n = unat (p_data_len p - ihl - thl)"
    and "\<not> mtu_exceeded4 w (ld_ip4 (w_mem w) (p_data p)) (ihl + thl + word_of_nat (min g n))"
    and "1 < i4_ttl (ld_ip4 (w_mem w) (p_data p))"
    and "gso_map_4to6_with_icmp p ihl IPPROTO_TCP w = (Inr (src, dst), w1)"
    and "data = load (w_mem w) (p_data p + unat ihl + unat thl) n"
  shows "\<exists>w' fs. gso_software_segment_and_send_4to6 p w = Some (0, w') \<and> w_tx w' = w_tx w @ map (plain_frame w) fs
    \<and> length fs = seg_count g n \<and> concat (map (drop (40 + unat thl)) fs) = data
    \<and> (\<forall>i < length fs. segment6 (w_mem w) p ihl thl src dst g n i (take (min g (n - i * g)) (drop (i * g) data)) (fs ! i))"
  by (rule tcp_segmentation_4to6_sends) (rule assms, assumption?)+

lemma tcp_segmentation_4to6_witness:
  "\<exists>w' fs. gso_software_segment_and_send_4to6 (gso_frame VIRTIO_NET_HDR_GSO_TCPV4 40 45) gso_world4 = Some (0, w')
    \<and> w_tx w' = w_tx gso_world4 @ map (plain_frame gso_world4) fs
    \<and> length fs = 3 \<and> concat (map (drop (40 + unat (20 :: u32))) fs) = load (w_mem gso_world4) 104 5"
proof -
  have c: "seg_count 2 5 = 3" by (simp add: seg_count_def)
  have m: "20 = tcp_hdr_len (w_mem gso_world4) (p_data (gso_frame VIRTIO_NET_HDR_GSO_TCPV4 40 45) + unat (20 :: u32))"
    "1 < i4_ttl (ld_ip4 (w_mem gso_world4) (p_data (gso_frame VIRTIO_NET_HDR_GSO_TCPV4 40 45)))"
    "\<not> mtu_exceeded4 gso_world4 (ld_ip4 (w_mem gso_world4) (p_data (gso_frame VIRTIO_NET_HDR_GSO_TCPV4 40 45)))
      (20 + 20 + word_of_nat (min 2 5))"
    by (simp_all add: gso_world4_mem gso_header4_def header4_def mtu_exceeded4_def)
  have d: "load (w_mem gso_world4) 104 5
      = load (w_mem gso_world4) (p_data (gso_frame VIRTIO_NET_HDR_GSO_TCPV4 40 45) + unat (20 :: u32) + unat (20 :: u32)) 5"
    by simp
  have "\<exists>w' fs. gso_software_segment_and_send_4to6 (gso_frame VIRTIO_NET_HDR_GSO_TCPV4 40 45) gso_world4 = Some (0, w')
    \<and> w_tx w' = w_tx gso_world4 @ map (plain_frame gso_world4) fs
    \<and> length fs = seg_count 2 5 \<and> concat (map (drop (40 + unat (20 :: u32))) fs) = load (w_mem gso_world4) 104 5
    \<and> (\<forall>i < length fs. segment6 (w_mem gso_world4) (gso_frame VIRTIO_NET_HDR_GSO_TCPV4 40 45) 20 20 host7_6 host9_6 2 5 i
        (take (min 2 (5 - i * 2)) (drop (i * 2) (load (w_mem gso_world4) 104 5))) (fs ! i))"
    by (rule tcp_segmentation_4to6 [OF gso_world_dev(4,5) gso_frame_simps(3) gso_frame_valid(3,4) gso_world4_ip
        _ m(1) _ _ _ _ _ _ m(3,2) gso_world_map(2) d]) simp_all
  then show ?thesis unfolding c by blast
qed

end
