(* ===== verification/Text.thy ===== *)
theory Text
  imports Addr
begin

text \<open>
  The text functions of the C library that \<open>src/src/conffile.c\<close> and \<open>addrmap_reload\<close> in
  \<open>src/src/addrmap.c\<close> read their files with: lines, tokens, decimal numbers, comparison without
  regard to case, and \<open>inet_pton\<close>. A file is the string of its characters; a line read by \<open>fgets\<close> into a
  buffer of 512 bytes is seen up to its first NUL character. The locale is the C locale.
\<close>

section \<open>Characters\<close>

definition code :: "char \<Rightarrow> nat" where "code c = of_char c"

definition is_digit :: "char \<Rightarrow> bool" where "is_digit c \<longleftrightarrow> 48 \<le> code c \<and> code c \<le> 57"

definition is_space :: "char \<Rightarrow> bool" where "is_space c \<longleftrightarrow> code c = 32 \<or> 9 \<le> code c \<and> code c \<le> 13"

definition is_delim :: "char \<Rightarrow> bool" where "is_delim c \<longleftrightarrow> code c \<in> {32, 9, 13, 10}"

text \<open>The code of the lower case letter.\<close>

definition lower :: "char \<Rightarrow> nat" where
  "lower c = (if 65 \<le> code c \<and> code c \<le> 90 then code c + 32 else code c)"

definition strcaseeq :: "string \<Rightarrow> string \<Rightarrow> bool" where
  "strcaseeq s t \<longleftrightarrow> map lower s = map lower t"

definition strncaseeq :: "nat \<Rightarrow> string \<Rightarrow> string \<Rightarrow> bool" where
  "strncaseeq n s t \<longleftrightarrow> strcaseeq (take n s) (take n t)"

section \<open>Lines and tokens\<close>

text \<open>One call of \<open>fgets\<close> with room for \<open>n\<close> characters: up to and including the newline.\<close>

fun take_line :: "nat \<Rightarrow> string \<Rightarrow> string \<times> string" where
  "take_line n [] = ([], [])"
| "take_line n (c # cs) =
     (if n = 0 then ([], c # cs)
      else if code c = 10 then ([c], cs)
      else (case take_line (n - 1) cs of (l, r) \<Rightarrow> (c # l, r)))"

lemma take_line_append: "take_line n cs = (l, r) \<Longrightarrow> l @ r = cs"
  by (induction cs arbitrary: n l r) (auto split: prod.splits if_splits)

lemma take_line_progress: "take_line (Suc n) (c # cs) = (l, r) \<Longrightarrow> length r \<le> length cs"
  using take_line_append [of "Suc n" "c # cs" l r]
  by (cases l) (auto split: prod.splits if_splits)

lemma take_line_511: "take_line 511 (c # cs) = (l, r) \<Longrightarrow> length r < Suc (length cs)"
  using take_line_progress [of 510 c cs l r] by (simp add: eval_nat_numeral)

text \<open>The strings the calls of \<open>fgets\<close> leave in the buffer.\<close>

function file_lines :: "string \<Rightarrow> string list" where
  "file_lines [] = []"
| "file_lines (c # cs) =
     (case take_line 511 (c # cs) of (l, r) \<Rightarrow> takeWhile (\<lambda>c. code c \<noteq> 0) l # file_lines r)"
  by pat_completeness auto
termination
  by (relation "measure length") (auto simp: take_line_511 simp flip: less_Suc_eq_le dest!: sym [of "(_, _)"])

text \<open>The tokens \<open>strtok_r\<close> returns one after the other: the longest runs without delimiters.\<close>

lemma dropWhile_shorter: "dropWhile P cs = d # ds \<Longrightarrow> length (dropWhile Q ds) < length cs"
  using length_dropWhile_le [of P cs] length_dropWhile_le [of Q ds] by simp

function tokens :: "string \<Rightarrow> string list" where
  "tokens cs =
     (case dropWhile is_delim cs of
        [] \<Rightarrow> []
      | c # cs \<Rightarrow> (c # takeWhile (\<lambda>c. \<not> is_delim c) cs) # tokens (dropWhile (\<lambda>c. \<not> is_delim c) cs))"
  by pat_completeness auto
termination
  by (relation "measure length") (auto simp: dropWhile_shorter)

declare tokens.simps [simp del]

text \<open>The tokens of a line up to the first one that starts a comment.\<close>

definition line_tokens :: "string \<Rightarrow> string list" where
  "line_tokens line = takeWhile (\<lambda>t. hd t \<noteq> CHR ''#'') (tokens line)"

section \<open>Numbers\<close>

fun dec :: "int \<Rightarrow> string \<Rightarrow> int" where
  "dec n [] = n"
| "dec n (c # cs) = dec (10 * n + int (code c) - 48) cs"

text \<open>
  \<open>strtol(s, &end, 10)\<close>: the value, what \<open>end\<close> points to, and whether the value was out of the
  range of a 64-bit \<open>long\<close>, which sets \<open>errno\<close>.
\<close>

definition strtol :: "string \<Rightarrow> int \<times> string \<times> bool" where
  "strtol s =
     (let r = dropWhile is_space s;
          neg = r \<noteq> [] \<and> hd r = CHR ''-'';
          r = (if r \<noteq> [] \<and> (hd r = CHR ''-'' \<or> hd r = CHR ''+'') then tl r else r);
          ds = takeWhile is_digit r;
          v = (if neg then - dec 0 ds else dec 0 ds)
      in if ds = [] then (0, s, False)
         else (max (- (2 ^ 63)) (min (2 ^ 63 - 1) v), dropWhile is_digit r, v < - (2 ^ 63) \<or> v > 2 ^ 63 - 1))"

text \<open>\<open>atoi\<close> converts the result of \<open>strtol\<close> to \<open>int\<close>.\<close>

definition atoi :: "string \<Rightarrow> int" where
  "atoi s = sint (word_of_int (fst (strtol s)) :: 32 word)"

text \<open>\<open>strchr(s, '/')\<close>: the text before and behind the first slash.\<close>

definition split_slash :: "string \<Rightarrow> (string \<times> string) option" where
  "split_slash s =
     (case dropWhile (\<lambda>c. c \<noteq> CHR ''/'') s of [] \<Rightarrow> None | _ # r \<Rightarrow> Some (takeWhile (\<lambda>c. c \<noteq> CHR ''/'') s, r))"

section \<open>Addresses\<close>

text \<open>One octet of an IPv4 address: decimal, without leading zeros.\<close>

definition octet :: "string \<Rightarrow> u8 option" where
  "octet s =
     (if s \<noteq> [] \<and> length s \<le> 3 \<and> list_all is_digit s \<and> (hd s = CHR ''0'' \<longrightarrow> length s = 1) \<and> dec 0 s \<le> 255
      then Some (word_of_int (dec 0 s)) else None)"

text \<open>The pieces between the separators.\<close>

fun split_at :: "char \<Rightarrow> string \<Rightarrow> string list" where
  "split_at d [] = [[]]"
| "split_at d (c # cs) =
     (if c = d then [] # split_at d cs else (case split_at d cs of [] \<Rightarrow> [[c]] | p # ps \<Rightarrow> (c # p) # ps))"

definition pton4_bytes :: "string \<Rightarrow> u8 list option" where
  "pton4_bytes s =
     (let os = map octet (split_at (CHR ''.'') s)
      in if length os = 4 \<and> list_all (\<lambda>x. x \<noteq> None) os then Some (map the os) else None)"

definition inet_pton4 :: "string \<Rightarrow> in_addr option" where
  "inet_pton4 s = map_option le_word (pton4_bytes s)"

definition hex_digit :: "char \<Rightarrow> u16 option" where
  "hex_digit c =
     (if is_digit c then Some (word_of_nat (code c - 48))
      else if 97 \<le> lower c \<and> lower c \<le> 102 then Some (word_of_nat (lower c - 87)) else None)"

text \<open>
  The scan of an IPv6 address: \<open>out\<close> are the bytes so far, \<open>gap\<close> the place of the \<open>::\<close>, \<open>tok\<close> the
  current group from its start, with \<open>n\<close> digits and the value \<open>v\<close>.
\<close>

fun pton6_scan :: "u8 list \<Rightarrow> nat option \<Rightarrow> string \<Rightarrow> nat \<Rightarrow> u16 \<Rightarrow> string \<Rightarrow> (u8 list \<times> nat option) option" where
  "pton6_scan out gap tok n v [] =
     (if n = 0 then Some (out, gap)
      else if length out + 2 > 16 then None
      else Some (out @ [ucast (drop_bit 8 v), ucast v], gap))"
| "pton6_scan out gap tok n v (c # cs) =
     (case hex_digit c of
        Some d \<Rightarrow> if n = 4 then None else pton6_scan out gap tok (n + 1) (push_bit 4 v OR d) cs
      | None \<Rightarrow>
          if c = CHR '':'' then
            (if n = 0 then (if gap \<noteq> None then None else pton6_scan out (Some (length out)) cs 0 0 cs)
             else if cs = [] \<or> length out + 2 > 16 then None
             else pton6_scan (out @ [ucast (drop_bit 8 v), ucast v]) gap cs 0 0 cs)
          else if c = CHR ''.'' \<and> length out + 4 \<le> 16 then
            map_option (\<lambda>bs. (out @ bs, gap)) (pton4_bytes tok)
          else None)"

definition pton6_bytes :: "string \<Rightarrow> u8 list option" where
  "pton6_bytes s =
     (let s = (if s \<noteq> [] \<and> hd s = CHR '':'' then (if tl s \<noteq> [] \<and> hd (tl s) = CHR '':'' then tl s else []) else s)
      in if s = [] then None
         else
           (case pton6_scan [] None s 0 0 s of
              None \<Rightarrow> None
            | Some (out, None) \<Rightarrow> if length out = 16 then Some out else None
            | Some (out, Some g) \<Rightarrow>
                if length out = 16 then None
                else Some (take g out @ replicate (16 - length out) 0 @ drop g out)))"

definition inet_pton6 :: "string \<Rightarrow> in6_addr option" where
  "inet_pton6 s = map_option in6_of_bytes (pton6_bytes s)"

end
