(* ===== verification/Reload.thy ===== *)
theory Reload
  imports Text Cache
begin

text \<open>
  Reloading the map file (\<open>addrmap_reload\<close> of \<open>src/src/addrmap.c\<close>): the file is parsed into a
  staged list first, and only a file without errors replaces the mappings that came from it. The
  arguments are the content of the file (\<open>None\<close> when it cannot be opened) and whether reading and
  closing it succeeded. A freed identity is not handed out again.
\<close>

section \<open>One entry\<close>

text \<open>An address with an optional length; \<open>None\<close> for a length that is no number in range.\<close>

definition entry_len :: "nat \<Rightarrow> string \<Rightarrow> (string \<times> nat) option" where
  "entry_len max_len s =
     (case split_slash s of
        None \<Rightarrow> Some (s, max_len)
      | Some (a, l) \<Rightarrow>
          (case strtol l of
             (bits, rest, erange) \<Rightarrow>
               if erange \<or> l = [] \<or> rest \<noteq> [] \<or> bits < 0 \<or> bits > int max_len then None else Some (a, nat bits)))"

definition parse_map_entry :: "nat \<Rightarrow> int \<Rightarrow> string \<Rightarrow> string \<Rightarrow> map_static option" where
  "parse_map_entry i line v4 v6 =
     (case (entry_len 32 v4, entry_len 128 v6) of
        (Some (s4, n4), Some (s6, n6)) \<Rightarrow>
          (if 32 - int n4 > 128 - int n6 then None
           else
             (case (inet_pton4 s4, inet_pton6 s6) of
                (Some addr4, Some addr6) \<Rightarrow>
                  (case (calc_ip4_mask 0 (Some addr4) (int n4), calc_ip6_mask in6_zero (Some addr6) (int n6)) of
                     ((r4, mask4), (r6, mask6)) \<Rightarrow>
                       if r4 \<noteq> 0 \<or> r6 \<noteq> 0 \<or> n4 \<noteq> 0 \<and> validate_ip4_addr addr4 = ERROR_DROP
                          \<or> n6 \<noteq> 0 \<and> validate_ip6_addr addr6 \<noteq> ERROR_NONE
                       then None
                       else Some \<lparr>ms_map4 = \<lparr>m4_addr = addr4, m4_mask = mask4, m4_prefix_len = n4, m4_type = MAP_TYPE_STATIC, m4_obj = i\<rparr>,
                         ms_map6 = \<lparr>m6_addr = addr6, m6_mask = mask6, m6_prefix_len = n6, m6_type = MAP_TYPE_STATIC, m6_obj = i\<rparr>,
                         ms_line_no = line, ms_origin = MAP_ORIGIN_MAPFILE\<rparr>)
              | _ \<Rightarrow> None))
      | _ \<Rightarrow> None)"

section \<open>Staging\<close>

text \<open>A later entry of the file replaces the earlier ones it collides with.\<close>

definition clashes :: "map_static \<Rightarrow> map_static \<Rightarrow> bool" where
  "clashes old m \<longleftrightarrow>
     m4_prefix_len (ms_map4 old) = m4_prefix_len (ms_map4 m) \<and> m4_addr (ms_map4 old) = m4_addr (ms_map4 m)
     \<or> map6_overlaps (ms_map6 old) (ms_map6 m)"

definition stage_entry :: "map_static \<Rightarrow> map_static list \<Rightarrow> map_static list" where
  "stage_entry m staged = filter (\<lambda>old. \<not> clashes old m) staged @ [m]"

text \<open>The loop over the lines: the staged list, \<open>None\<close> after a failure, and the identities left.\<close>

fun stage_lines :: "int \<Rightarrow> string list \<Rightarrow> map_static list \<Rightarrow> nat list \<Rightarrow> map_static list option \<times> nat list" where
  "stage_lines lineno [] staged ids = (Some staged, ids)"
| "stage_lines lineno (line # ls) staged ids =
     (let lineno = lineno + 1; args = line_tokens line
      in if length line = 511 then (None, ids)
         else if length args > 4 then (None, ids)
         else if args = [] then stage_lines lineno ls staged ids
         else if length args \<noteq> 3 \<or> \<not> strcaseeq (args ! 0) ''map'' then (None, ids)
         else
           (case ids of
              [] \<Rightarrow> (None, [])
            | i # ids \<Rightarrow>
                (case parse_map_entry i lineno (args ! 1) (args ! 2) of
                   None \<Rightarrow> (None, ids)
                 | Some m \<Rightarrow> stage_lines lineno ls (stage_entry m staged) ids)))"

section \<open>Publication\<close>

definition from_file :: "gstate \<Rightarrow> map_type \<Rightarrow> nat \<Rightarrow> bool" where
  "from_file g t i \<longleftrightarrow> t = MAP_TYPE_STATIC
     \<and> (case g_static g i of None \<Rightarrow> False | Some s \<Rightarrow> ms_origin s = MAP_ORIGIN_MAPFILE)"

definition is_file_map4 :: "gstate \<Rightarrow> map4 \<Rightarrow> bool" where
  "is_file_map4 g m \<longleftrightarrow> from_file g (m4_type m) (m4_obj m)"

definition is_file_map6 :: "gstate \<Rightarrow> map6 \<Rightarrow> bool" where
  "is_file_map6 g m \<longleftrightarrow> from_file g (m6_type m) (m6_obj m)"

text \<open>A staged entry is skipped when it collides with a mapping that did not come from the file.\<close>

definition fixed_conflict :: "gstate \<Rightarrow> map_static \<Rightarrow> bool" where
  "fixed_conflict g m \<longleftrightarrow>
     list_ex (\<lambda>f. \<not> is_file_map4 g f \<and> m4_prefix_len f = m4_prefix_len (ms_map4 m) \<and> m4_addr f = m4_addr (ms_map4 m))
       (g_map4_list g)
     \<or> list_ex (\<lambda>f. \<not> is_file_map6 g f \<and> map6_overlaps f (ms_map6 m)) (g_map6_list g)"

definition remove_file_map :: "map4 \<Rightarrow> gstate \<Rightarrow> gstate" where
  "remove_file_map m g =
     (if is_file_map4 g m then
        (case g_static g (m4_obj m) of
           None \<Rightarrow> g
         | Some s \<Rightarrow> g\<lparr>g_map4_list := list_del (ms_map4 s) (g_map4_list g),
             g_map6_list := list_del (ms_map6 s) (g_map6_list g), g_static := (g_static g)(m4_obj m := None)\<rparr>)
      else g)"

text \<open>The results of the two insertions are ignored.\<close>

definition install :: "map_static \<Rightarrow> gstate \<Rightarrow> gstate" where
  "install m g =
     (let l4 = (case insert_map4 (ms_map4 m) (g_map4_list g) of Inl _ \<Rightarrow> g_map4_list g | Inr l \<Rightarrow> l);
          l6 = (case insert_map6 (ms_map6 m) (g_map6_list g) of Inl _ \<Rightarrow> g_map6_list g | Inr l \<Rightarrow> l)
      in g\<lparr>g_map4_list := l4, g_map6_list := l6, g_static := (g_static g)(m4_obj (ms_map4 m) := Some m)\<rparr>)"

definition flush_cache :: "gstate \<Rightarrow> gstate" where
  "flush_cache g = fold retire (g_cache_active g) g"

definition publish_maps :: "map_static list \<Rightarrow> gstate \<Rightarrow> gstate" where
  "publish_maps staged g =
     (let staged = filter (\<lambda>m. \<not> fixed_conflict g m) staged;
          g = fold remove_file_map (g_map4_list g) g;
          g = fold install staged g
      in flush_cache g)"

definition addrmap_reload :: "bool \<Rightarrow> string option \<Rightarrow> bool \<Rightarrow> gstate \<Rightarrow> err \<times> gstate" where
  "addrmap_reload map_file content io_ok g =
     (if \<not> map_file then (ERROR_NONE, g)
      else
        (case content of
           None \<Rightarrow> (ERROR_REJECT, g)
         | Some text \<Rightarrow>
             (case stage_lines 0 (file_lines text) [] (g_alloc g) of
                (r, ids) \<Rightarrow>
                  (let g = g\<lparr>g_alloc := ids\<rparr>
                   in case r of
                        None \<Rightarrow> (ERROR_REJECT, g)
                      | Some staged \<Rightarrow>
                          if \<not> io_ok then (ERROR_REJECT, g) else (ERROR_NONE, publish_maps staged g)))))"

end
