(* ===== verification/Config.thy ===== *)
theory Config
  imports Text Dynamic Rfc6052
begin

text \<open>
  The configuration file (\<open>src/src/conffile.c\<close>): the defaults of \<open>config_init\<close>, one function per
  directive, the table of directives, \<open>config_read\<close> and \<open>config_validate\<close>. A result is the error
  code and the configuration, which a failing directive may have changed too. Messages and the
  opening of the file are left out; \<open>malloc\<close> takes an identity from the allocator.
\<close>

section \<open>The configuration\<close>

datatype tun_offload_mode = TUN_OFFLOAD_OFF | TUN_OFFLOAD_TCP | TUN_OFFLOAD_AUTO | TUN_OFFLOAD_UDP

definition LOG_OPT_REJECT :: u32 where "LOG_OPT_REJECT = 1"
definition LOG_OPT_DROP :: u32 where "LOG_OPT_DROP = 2"
definition LOG_OPT_ICMP :: u32 where "LOG_OPT_ICMP = 4"
definition LOG_OPT_SELF :: u32 where "LOG_OPT_SELF = 8"
definition LOG_OPT_DYN :: u32 where "LOG_OPT_DYN = 16"
definition LOG_OPT_CONFIG :: u32 where "LOG_OPT_CONFIG = 32768"
definition MAX_ARGS :: nat where "MAX_ARGS = 10"
definition MAX_WORKERS :: int where "MAX_WORKERS = 64"

text \<open>The fields of \<open>gcfg\<close> that only the set-up uses, beside those of the state.\<close>

record config =
  c_g :: gstate
  c_tundev :: string
  c_tun_up :: bool
  c_tun_ip4 :: "(in_addr \<times> int) list"
  c_tun_ip6 :: "(in6_addr \<times> int) list"
  c_tun_rt4 :: "(in_addr \<times> int) list"
  c_tun_rt6 :: "(in6_addr \<times> int) list"
  c_data_dir :: string
  c_map_file :: string
  c_runtime_dir :: string
  c_runtime_dir_configured :: bool
  c_maps_immutable :: bool
  c_log_opts :: u32
  c_workers :: int
  c_tun_offload :: tun_offload_mode
  c_steering_groups :: bool
  c_steering_flows :: bool

text \<open>The stores, the allocator and the clock are those of \<open>g0\<close>.\<close>

definition config_init :: "gstate \<Rightarrow> config" where
  "config_init g0 =
     \<lparr>c_g = g0\<lparr>g_mtu := 0, g_local_addr4 := 0, g_local_addr6 := in6_zero, g_map4_list := [], g_map6_list := [],
        g_data_dir := False, g_dyn_min_lease := 7200 + 4 * 60, g_dyn_max_lease := 14 * 86400,
        g_max_commit_delay := 14 * 86400 div 4, g_dynamic_pool := None, g_hash_bits := 7, g_cache_size := 8192,
        g_rand := (\<lambda>_. 0), g_cache_pool := [], g_cache_active := [], g_hash_table4 := (\<lambda>_. []), g_hash_table6 := (\<lambda>_. []),
        g_last_map_write := 0, g_map_write_pending := False, g_ipv6_offlink_mtu := 0, g_wkpf_strict := True,
        g_udp_cksum_mode := UDP_CKSUM_DROP\<rparr>,
      c_tundev = [], c_tun_up = False, c_tun_ip4 = [], c_tun_ip6 = [], c_tun_rt4 = [], c_tun_rt6 = [],
      c_data_dir = [], c_map_file = [], c_runtime_dir = ''/run'', c_runtime_dir_configured = False,
      c_maps_immutable = False, c_log_opts = 0, c_workers = -1, c_tun_offload = TUN_OFFLOAD_AUTO,
      c_steering_groups = False, c_steering_flows = False\<rparr>"

definition upd_g :: "(gstate \<Rightarrow> gstate) \<Rightarrow> config \<Rightarrow> config" where
  "upd_g f c = c\<lparr>c_g := f (c_g c)\<rparr>"

definition malloc :: "config \<Rightarrow> (nat \<times> config) option" where
  "malloc c = (case g_alloc (c_g c) of [] \<Rightarrow> None | i # ids \<Rightarrow> Some (i, upd_g (\<lambda>g. g\<lparr>g_alloc := ids\<rparr>) c))"

section \<open>Prefixes and static mappings\<close>

definition parse_prefix :: "(string \<Rightarrow> 'a option) \<Rightarrow> int \<Rightarrow> string \<Rightarrow> ('a \<times> nat) option" where
  "parse_prefix pton max_len src =
     (case split_slash src of
        None \<Rightarrow> None
      | Some (a, l) \<Rightarrow>
          (case (strtol l, pton a) of
             ((n, rest, _), Some addr) \<Rightarrow> if rest \<noteq> [] \<or> n < 0 \<or> n > max_len then None else Some (addr, nat n)
           | _ \<Rightarrow> None))"

definition new_static :: "nat \<Rightarrow> int \<Rightarrow> map_static" where
  "new_static i ln =
     \<lparr>ms_map4 = \<lparr>m4_addr = 0, m4_mask = snd (calc_ip4_mask 0 None 32), m4_prefix_len = 32, m4_type = MAP_TYPE_STATIC, m4_obj = i\<rparr>,
      ms_map6 = \<lparr>m6_addr = in6_zero, m6_mask = snd (calc_ip6_mask in6_zero None 128), m6_prefix_len = 128,
        m6_type = MAP_TYPE_STATIC, m6_obj = i\<rparr>,
      ms_line_no = ln, ms_origin = MAP_ORIGIN_CONFFILE\<rparr>"

definition alloc_map_static :: "int \<Rightarrow> config \<Rightarrow> (map_static \<times> config) option" where
  "alloc_map_static ln c = map_option (\<lambda>(i, c). (new_static i ln, c)) (malloc c)"

text \<open>The address, mask and length of an entry, and whether the prefix has no host bits.\<close>

definition set_map4 :: "in_addr \<Rightarrow> nat \<Rightarrow> map4 \<Rightarrow> map4 option" where
  "set_map4 a n m =
     (case calc_ip4_mask (m4_mask m) (Some a) (int n) of
        (r, mk) \<Rightarrow> if r \<noteq> 0 then None else Some (m\<lparr>m4_addr := a, m4_mask := mk, m4_prefix_len := n\<rparr>))"

definition set_map6 :: "in6_addr \<Rightarrow> nat \<Rightarrow> map6 \<Rightarrow> map6 option" where
  "set_map6 a n m =
     (case calc_ip6_mask (m6_mask m) (Some a) (int n) of
        (r, mk) \<Rightarrow> if r \<noteq> 0 then None else Some (m\<lparr>m6_addr := a, m6_mask := mk, m6_prefix_len := n\<rparr>))"

text \<open>The two insertions; a failing second one takes the first back.\<close>

definition link_static :: "map_static \<Rightarrow> config \<Rightarrow> err \<times> config" where
  "link_static m c =
     (case insert_map4 (ms_map4 m) (g_map4_list (c_g c)) of
        Inl _ \<Rightarrow> (ERROR_REJECT, c)
      | Inr l4 \<Rightarrow>
          (case insert_map6 (ms_map6 m) (g_map6_list (c_g c)) of
             Inl _ \<Rightarrow> (ERROR_REJECT, c)
           | Inr l6 \<Rightarrow>
               (ERROR_NONE, upd_g (\<lambda>g. g\<lparr>g_map4_list := l4, g_map6_list := l6,
                  g_static := (g_static g)(m4_obj (ms_map4 m) := Some m)\<rparr>) c)))"

section \<open>Directives\<close>

text \<open>A directive gets the line number and its arguments.\<close>

type_synonym directive = "int \<Rightarrow> string list \<Rightarrow> config \<Rightarrow> err \<times> config"

definition config_ipv4_addr :: directive where
  "config_ipv4_addr ln args c =
     (if g_local_addr4 (c_g c) \<noteq> 0 then (ERROR_REJECT, c)
      else
        (case inet_pton4 (hd args) of
           None \<Rightarrow> (ERROR_REJECT, c)
         | Some a \<Rightarrow>
             (let c = upd_g (\<lambda>g. g\<lparr>g_local_addr4 := a\<rparr>) c;
                  ret = validate_ip4_addr a
              in if ret = ERROR_LOCAL then (ERROR_NONE, c)
                 else if ret \<noteq> ERROR_NONE then (ERROR_REJECT, c)
                 else (ERROR_NONE, c))))"

definition config_ipv6_addr :: directive where
  "config_ipv6_addr ln args c =
     (if s6_addr (g_local_addr6 (c_g c)) 0 \<noteq> 0 then (ERROR_REJECT, c)
      else
        (case inet_pton6 (hd args) of
           None \<Rightarrow> (ERROR_REJECT, c)
         | Some a \<Rightarrow>
             (let c = upd_g (\<lambda>g. g\<lparr>g_local_addr6 := a\<rparr>) c
              in if validate_ip6_addr a \<noteq> ERROR_NONE then (ERROR_REJECT, c) else (ERROR_NONE, c))))"

definition config_prefix :: directive where
  "config_prefix ln args c =
     (case alloc_map_static ln c of
        None \<Rightarrow> (ERROR_REJECT, c)
      | Some (m, c) \<Rightarrow>
          (let m = m\<lparr>ms_map4 := (ms_map4 m)\<lparr>m4_prefix_len := 0, m4_mask := 0, m4_type := MAP_TYPE_RFC6052\<rparr>,
                     ms_map6 := (ms_map6 m)\<lparr>m6_type := MAP_TYPE_RFC6052\<rparr>\<rparr>
           in case parse_prefix inet_pton6 128 (hd args) of
                None \<Rightarrow> (ERROR_REJECT, c)
              | Some (a, n) \<Rightarrow>
                  (case set_map6 a n (ms_map6 m) of
                     None \<Rightarrow> (ERROR_REJECT, c)
                   | Some m6 \<Rightarrow>
                       (if validate_ip6_addr a \<noteq> ERROR_NONE then (ERROR_REJECT, c)
                        else if n \<noteq> 32 \<and> n \<noteq> 40 \<and> n \<noteq> 48 \<and> n \<noteq> 56 \<and> n \<noteq> 64 \<and> n \<noteq> 96 then (ERROR_REJECT, c)
                        else if a0 a = WKPF \<and> a1 a = 0 \<and> a2 a = 0 \<and> n \<noteq> 96 then (ERROR_REJECT, c)
                        else link_static (m\<lparr>ms_map6 := m6\<rparr>) c))))"

text \<open>The truth values of \<open>wkpf-strict\<close> and \<open>tun-up\<close>.\<close>

definition truth_value :: "string \<Rightarrow> bool option" where
  "truth_value s =
     (if strcaseeq s ''true'' \<or> strcaseeq s ''on'' \<or> strcaseeq s ''yes'' \<or> strcaseeq s ''1'' then Some True
      else if strcaseeq s ''false'' \<or> strcaseeq s ''off'' \<or> strcaseeq s ''no'' \<or> strcaseeq s ''0'' then Some False
      else None)"

definition config_wkpf_strict :: directive where
  "config_wkpf_strict ln args c =
     (case truth_value (hd args) of
        None \<Rightarrow> (ERROR_REJECT, c) | Some b \<Rightarrow> (ERROR_NONE, upd_g (\<lambda>g. g\<lparr>g_wkpf_strict := b\<rparr>) c))"

definition config_udp_cksum_mode :: directive where
  "config_udp_cksum_mode ln args c =
     (if strncaseeq 2 (hd args) ''dr'' then (ERROR_NONE, upd_g (\<lambda>g. g\<lparr>g_udp_cksum_mode := UDP_CKSUM_DROP\<rparr>) c)
      else if strncaseeq 4 (hd args) ''calc'' then (ERROR_NONE, upd_g (\<lambda>g. g\<lparr>g_udp_cksum_mode := UDP_CKSUM_CALC\<rparr>) c)
      else if strncaseeq 4 (hd args) ''forw'' \<or> strncaseeq 3 (hd args) ''fwd''
      then (ERROR_NONE, upd_g (\<lambda>g. g\<lparr>g_udp_cksum_mode := UDP_CKSUM_FWD\<rparr>) c)
      else (ERROR_REJECT, c))"

definition config_tun_up :: directive where
  "config_tun_up ln args c =
     (case truth_value (hd args) of None \<Rightarrow> (ERROR_REJECT, c) | Some b \<Rightarrow> (ERROR_NONE, c\<lparr>c_tun_up := b\<rparr>))"

definition config_tun_device :: directive where
  "config_tun_device ln args c =
     (if c_tundev c \<noteq> [] then (ERROR_REJECT, c)
      else if length (hd args) + 1 > 16 then (ERROR_REJECT, c)
      else (ERROR_NONE, c\<lparr>c_tundev := hd args\<rparr>))"

text \<open>
  An address with an optional length, as \<open>tun-ip\<close> and \<open>tun-route\<close> read it: IPv6 is tried first.
  A length that \<open>atoi\<close> makes negative counts as none.
\<close>

definition tun_prefix :: "string \<Rightarrow> ((in6_addr \<times> int) + (in_addr \<times> int)) option" where
  "tun_prefix arg =
     (let (a, len) = (case split_slash arg of
            None \<Rightarrow> (arg, Some (-1))
          | Some (a, l) \<Rightarrow>
              (let prefix = atoi l
               in (a, if l = [] \<or> \<not> is_digit (hd l) \<or> prefix = 0 \<and> hd l \<noteq> CHR ''0'' then None else Some prefix)))
      in case len of
           None \<Rightarrow> None
         | Some n \<Rightarrow>
             (case inet_pton6 a of
                Some x \<Rightarrow> (let n = (if n < 0 then 128 else n) in if n > 128 then None else Some (Inl (x, n)))
              | None \<Rightarrow>
                  (case inet_pton4 a of
                     Some x \<Rightarrow> (let n = (if n < 0 then 32 else n) in if n > 32 then None else Some (Inr (x, n)))
                   | None \<Rightarrow> None)))"

definition config_tun_ip :: directive where
  "config_tun_ip ln args c =
     (case malloc c of
        None \<Rightarrow> (ERROR_REJECT, c)
      | Some (_, c) \<Rightarrow>
          (case tun_prefix (hd args) of
             None \<Rightarrow> (ERROR_REJECT, c)
           | Some (Inl x) \<Rightarrow> (ERROR_NONE, c\<lparr>c_tun_ip6 := x # c_tun_ip6 c\<rparr>)
           | Some (Inr x) \<Rightarrow> (ERROR_NONE, c\<lparr>c_tun_ip4 := x # c_tun_ip4 c\<rparr>)))"

definition config_tun_route :: directive where
  "config_tun_route ln args c =
     (case malloc c of
        None \<Rightarrow> (ERROR_REJECT, c)
      | Some (_, c) \<Rightarrow>
          (case tun_prefix (hd args) of
             None \<Rightarrow> (ERROR_REJECT, c)
           | Some (Inl x) \<Rightarrow> (ERROR_NONE, c\<lparr>c_tun_rt6 := x # c_tun_rt6 c\<rparr>)
           | Some (Inr x) \<Rightarrow> (ERROR_NONE, c\<lparr>c_tun_rt4 := x # c_tun_rt4 c\<rparr>)))"

text \<open>The two sides of a \<open>map\<close> directive: a prefix, or an address for a single host.\<close>

definition map_arg4 :: "string \<Rightarrow> map4 \<Rightarrow> map4 option" where
  "map_arg4 arg m =
     (if CHR ''/'' \<in> set arg then
        (case parse_prefix inet_pton4 32 arg of None \<Rightarrow> None | Some (a, n) \<Rightarrow> set_map4 a n m)
      else
        (case inet_pton4 arg of
           None \<Rightarrow> None
         | Some a \<Rightarrow> Some (m\<lparr>m4_addr := a, m4_prefix_len := 32, m4_mask := snd (calc_ip4_mask (m4_mask m) (Some a) 32)\<rparr>)))"

definition map_arg6 :: "string \<Rightarrow> map6 \<Rightarrow> map6 option" where
  "map_arg6 arg m =
     (if CHR ''/'' \<in> set arg then
        (case parse_prefix inet_pton6 128 arg of None \<Rightarrow> None | Some (a, n) \<Rightarrow> set_map6 a n m)
      else
        (case inet_pton6 arg of
           None \<Rightarrow> None
         | Some a \<Rightarrow> Some (m\<lparr>m6_addr := a, m6_prefix_len := 128, m6_mask := snd (calc_ip6_mask (m6_mask m) (Some a) 128)\<rparr>)))"

definition config_map :: directive where
  "config_map ln args c =
     (case alloc_map_static ln c of
        None \<Rightarrow> (ERROR_REJECT, c)
      | Some (m, c) \<Rightarrow>
          (case map_arg4 (args ! 0) (ms_map4 m) of
             None \<Rightarrow> (ERROR_REJECT, c)
           | Some m4 \<Rightarrow>
               (case map_arg6 (args ! 1) (ms_map6 m) of
                  None \<Rightarrow> (ERROR_REJECT, c)
                | Some m6 \<Rightarrow>
                    (if 32 - int (m4_prefix_len m4) > 128 - int (m6_prefix_len m6) then (ERROR_REJECT, c)
                     else
                       (let ret = (if m4_prefix_len m4 \<noteq> 0 then validate_ip4_addr (m4_addr m4) else ERROR_NONE)
                        in if ret \<noteq> ERROR_LOCAL \<and> ret \<noteq> ERROR_NONE then (ERROR_REJECT, c)
                           else if m6_prefix_len m6 \<noteq> 0 \<and> validate_ip6_addr (m6_addr m6) \<noteq> ERROR_NONE then (ERROR_REJECT, c)
                           else link_static (m\<lparr>ms_map4 := m4, ms_map6 := m6\<rparr>) c)))))"

definition config_dynamic_pool :: directive where
  "config_dynamic_pool ln args c =
     (if g_dynamic_pool (c_g c) \<noteq> None then (ERROR_REJECT, c)
      else
        (case malloc c of
           None \<Rightarrow> (ERROR_REJECT, c)
         | Some (i, c) \<Rightarrow>
             (case parse_prefix inet_pton4 32 (hd args) of
                None \<Rightarrow> (ERROR_REJECT, c)
              | Some (a, n) \<Rightarrow>
                  (case set_map4 a n \<lparr>m4_addr = 0, m4_mask = 0, m4_prefix_len = 0, m4_type = MAP_TYPE_DYNAMIC_POOL, m4_obj = i\<rparr> of
                     None \<Rightarrow> (ERROR_REJECT, c)
                   | Some m4 \<Rightarrow>
                       (let ret = validate_ip4_addr a
                        in if ret \<noteq> ERROR_LOCAL \<and> ret \<noteq> ERROR_NONE then (ERROR_REJECT, c)
                           else if n > 31 then (ERROR_REJECT, c)
                           else
                             (case insert_map4 m4 (g_map4_list (c_g c)) of
                                Inl _ \<Rightarrow> (ERROR_REJECT, c)
                              | Inr l4 \<Rightarrow>
                                  (ERROR_NONE, upd_g (\<lambda>g. g\<lparr>g_map4_list := l4, g_dynamic_pool := Some (init_pool m4)\<rparr>) c)))))))"

definition config_data_dir :: directive where
  "config_data_dir ln args c =
     (if c_data_dir c \<noteq> [] then (ERROR_REJECT, c)
      else if hd (hd args) \<noteq> CHR ''/'' then (ERROR_REJECT, c)
      else (ERROR_NONE, upd_g (\<lambda>g. g\<lparr>g_data_dir := True\<rparr>) (c\<lparr>c_data_dir := hd args\<rparr>)))"

definition config_map_file :: directive where
  "config_map_file ln args c =
     (if c_map_file c \<noteq> [] then (ERROR_REJECT, c) else (ERROR_NONE, c\<lparr>c_map_file := hd args\<rparr>))"

definition config_strict_fh :: directive where
  "config_strict_fh ln args c = (ERROR_NONE, c)"

definition log_opt :: "string \<Rightarrow> u32 option" where
  "log_opt s =
     (if strcaseeq s ''drop'' then Some LOG_OPT_DROP
      else if strcaseeq s ''reject'' then Some LOG_OPT_REJECT
      else if strcaseeq s ''icmp'' then Some LOG_OPT_ICMP
      else if strcaseeq s ''self'' then Some LOG_OPT_SELF
      else if strcaseeq s ''dyn'' then Some LOG_OPT_DYN
      else None)"

fun set_log_opts :: "string list \<Rightarrow> config \<Rightarrow> err \<times> config" where
  "set_log_opts [] c = (ERROR_NONE, c)"
| "set_log_opts (s # ss) c =
     (case log_opt s of
        None \<Rightarrow> (ERROR_REJECT, c) | Some b \<Rightarrow> set_log_opts ss (c\<lparr>c_log_opts := c_log_opts c OR b\<rparr>))"

definition config_log :: directive where
  "config_log ln args c =
     (if c_log_opts c \<noteq> 0 then (ERROR_REJECT, c)
      else set_log_opts args (c\<lparr>c_log_opts := c_log_opts c OR LOG_OPT_CONFIG\<rparr>))"

definition config_offlink_mtu :: directive where
  "config_offlink_mtu ln args c =
     (if g_ipv6_offlink_mtu (c_g c) \<noteq> 0 then (ERROR_REJECT, c)
      else
        (case strtol (hd args) of
           (mtu, rest, _) \<Rightarrow>
             if rest \<noteq> [] then (ERROR_REJECT, c)
             else if mtu < int (unat MTU_MIN) then (ERROR_REJECT, c)
             else if mtu > 65535 then (ERROR_REJECT, c)
             else (ERROR_NONE, upd_g (\<lambda>g. g\<lparr>g_ipv6_offlink_mtu := word_of_int mtu\<rparr>) c)))"

definition config_workers :: directive where
  "config_workers ln args c =
     (if c_workers c \<noteq> -1 then (ERROR_REJECT, c)
      else
        (case strtol (hd args) of
           (workers, rest, _) \<Rightarrow>
             if rest \<noteq> [] then (ERROR_REJECT, c)
             else if workers < 0 then (ERROR_REJECT, c)
             else if workers > MAX_WORKERS then (ERROR_REJECT, c)
             else (ERROR_NONE, c\<lparr>c_workers := workers\<rparr>)))"

definition config_tun_offload :: directive where
  "config_tun_offload ln args c =
     (if strcaseeq (hd args) ''off'' then (ERROR_NONE, c\<lparr>c_tun_offload := TUN_OFFLOAD_OFF\<rparr>)
      else if strcaseeq (hd args) ''tcp'' then (ERROR_NONE, c\<lparr>c_tun_offload := TUN_OFFLOAD_TCP\<rparr>)
      else if strcaseeq (hd args) ''auto'' then (ERROR_NONE, c\<lparr>c_tun_offload := TUN_OFFLOAD_AUTO\<rparr>)
      else if strcaseeq (hd args) ''udp'' then (ERROR_NONE, c\<lparr>c_tun_offload := TUN_OFFLOAD_UDP\<rparr>)
      else (ERROR_REJECT, c))"

definition config_tun_steering :: directive where
  "config_tun_steering ln args c =
     (if strcaseeq (hd args) ''kernel'' then (ERROR_NONE, c\<lparr>c_steering_groups := False, c_steering_flows := False\<rparr>)
      else if strcaseeq (hd args) ''groups'' then (ERROR_NONE, c\<lparr>c_steering_groups := True, c_steering_flows := False\<rparr>)
      else if strcaseeq (hd args) ''flows'' then (ERROR_NONE, c\<lparr>c_steering_groups := False, c_steering_flows := True\<rparr>)
      else (ERROR_REJECT, c))"

definition config_runtime_dir :: directive where
  "config_runtime_dir ln args c =
     (if c_runtime_dir_configured c \<or> hd (hd args) \<noteq> CHR ''/'' \<or> length (hd args) \<ge> 512 then (ERROR_REJECT, c)
      else (ERROR_NONE, c\<lparr>c_runtime_dir := hd args, c_runtime_dir_configured := True\<rparr>))"

definition config_directives :: "(string \<times> directive \<times> int) list" where
  "config_directives =
     [(''ipv4-addr'', config_ipv4_addr, 1),
      (''ipv6-addr'', config_ipv6_addr, 1),
      (''prefix'', config_prefix, 1),
      (''wkpf-strict'', config_wkpf_strict, 1),
      (''udp-cksum-mode'', config_udp_cksum_mode, 1),
      (''tun-up'', config_tun_up, 1),
      (''tun-ip'', config_tun_ip, 1),
      (''tun-route'', config_tun_route, 1),
      (''tun-device'', config_tun_device, 1),
      (''map'', config_map, 2),
      (''dynamic-pool'', config_dynamic_pool, 1),
      (''runtime-dir'', config_runtime_dir, 1),
      (''data-dir'', config_data_dir, 1),
      (''map-file'', config_map_file, 1),
      (''strict-frag-hdr'', config_strict_fh, 1),
      (''log'', config_log, -1),
      (''offlink-mtu'', config_offlink_mtu, 1),
      (''workers'', config_workers, 1),
      (''tun-offload'', config_tun_offload, 1),
      (''tun-steering'', config_tun_steering, 1)]"

section \<open>Reading and validation\<close>

text \<open>One line; the result says whether it makes the program exit.\<close>

definition config_line :: "int \<Rightarrow> string \<Rightarrow> config \<Rightarrow> bool \<times> config" where
  "config_line ln line c =
     (if length line + 1 = 512 then (True, c)
      else
        (let ts = line_tokens line;
             too_many = length ts > MAX_ARGS;
             args = take MAX_ARGS ts
         in if args = [] then (False, c)
            else
              (case List.find (\<lambda>(name, _). strcaseeq (hd args) name) config_directives of
                 None \<Rightarrow> (True, c)
               | Some (_, f, need) \<Rightarrow>
                   if need \<ge> 0 \<and> int (length args - 1) \<noteq> need then (True, c)
                   else (case f ln (tl args) c of (e, c) \<Rightarrow> (too_many \<or> e \<noteq> ERROR_NONE, c)))))"

fun config_lines :: "int \<Rightarrow> string list \<Rightarrow> bool \<Rightarrow> config \<Rightarrow> bool \<times> config" where
  "config_lines ln [] willexit c = (willexit, c)"
| "config_lines ln (l # ls) willexit c =
     (case config_line (ln + 1) l c of (bad, c) \<Rightarrow> config_lines (ln + 1) ls (willexit \<or> bad) c)"

text \<open>The argument is the content of the file, \<open>None\<close> when there is no path or it cannot be opened.\<close>

definition config_read :: "string option \<Rightarrow> config \<Rightarrow> err \<times> config" where
  "config_read conffile c =
     (case conffile of
        None \<Rightarrow> (ERROR_REJECT, c)
      | Some text \<Rightarrow>
          (case config_lines 0 (file_lines text) False c of
             (willexit, c) \<Rightarrow> (if willexit then ERROR_REJECT else ERROR_NONE, c)))"

text \<open>The environment variable \<open>STATE_DIRECTORY\<close>.\<close>

definition use_state_dir :: "string option \<Rightarrow> config \<Rightarrow> config option" where
  "use_state_dir sd c =
     (case sd of
        None \<Rightarrow> Some c
      | Some d \<Rightarrow>
          (if c_data_dir c \<noteq> [] then Some c
           else if d = [] \<or> hd d \<noteq> CHR ''/'' then None
           else if length d + 1 > 512 then None
           else Some (upd_g (\<lambda>g. g\<lparr>g_data_dir := True\<rparr>) (c\<lparr>c_data_dir := takeWhile (\<lambda>x. x \<noteq> CHR '':'') d\<rparr>))))"

text \<open>The entry for the translator's own addresses.\<close>

definition self_static :: "config \<Rightarrow> err \<times> config" where
  "self_static c =
     (case alloc_map_static 0 c of
        None \<Rightarrow> (ERROR_REJECT, c)
      | Some (m, c) \<Rightarrow>
          (let a4 = g_local_addr4 (c_g c);
               a6 = g_local_addr6 (c_g c);
               m = m\<lparr>ms_map4 := (ms_map4 m)\<lparr>m4_addr := a4\<rparr>, ms_origin := MAP_ORIGIN_SELF\<rparr>
           in case insert_map4 (ms_map4 m) (g_map4_list (c_g c)) of
                Inl _ \<Rightarrow> (ERROR_REJECT, c)
              | Inr l4 \<Rightarrow>
                  (if a0 a6 = WKPF \<and> a1 a6 = 0 \<and> a2 a6 = 0 \<and> g_wkpf_strict (c_g c) then (ERROR_REJECT, c)
                   else if a0 a6 \<noteq> 0 then
                     (let m = m\<lparr>ms_map6 := (ms_map6 m)\<lparr>m6_addr := a6\<rparr>\<rparr>
                      in case insert_map6 (ms_map6 m) (g_map6_list (c_g c)) of
                           Inl _ \<Rightarrow> (ERROR_REJECT, c)
                         | Inr l6 \<Rightarrow>
                             (ERROR_NONE, upd_g (\<lambda>g. g\<lparr>g_map4_list := l4, g_map6_list := l6,
                                g_static := (g_static g)(m4_obj (ms_map4 m) := Some m)\<rparr>) c))
                   else
                     (let m6 = last (g_map6_list (c_g c))
                      in if m6_type m6 \<noteq> MAP_TYPE_RFC6052 then (ERROR_REJECT, c)
                         else
                           (let r = append_to_prefix (g_wkpf_strict (c_g c)) a4 (m6_addr m6) (m6_prefix_len m6)
                            in if isl r \<and> g_wkpf_strict (c_g c) then (ERROR_REJECT, c)
                               else
                                 (let a6 = (case r of Inl _ \<Rightarrow> a6 | Inr b \<Rightarrow> b);
                                      m = m\<lparr>ms_map6 := (ms_map6 m)\<lparr>m6_addr := a6\<rparr>\<rparr>
                                  in (ERROR_NONE, upd_g (\<lambda>g. g\<lparr>g_map4_list := l4, g_local_addr6 := a6,
                                        g_static := (g_static g)(m4_obj (ms_map4 m) := Some m)\<rparr>) c)))))))"

definition config_validate :: "string option \<Rightarrow> config \<Rightarrow> err \<times> config" where
  "config_validate sd c =
     (if g_map6_list (c_g c) = [] then (ERROR_REJECT, c)
      else
        (case use_state_dir sd c of
           None \<Rightarrow> (ERROR_REJECT, c)
         | Some c \<Rightarrow>
             (let immutable = g_dynamic_pool (c_g c) = None \<and> c_map_file c = [];
                  c = c\<lparr>c_maps_immutable := immutable\<rparr>;
                  c = (if immutable then upd_g (\<lambda>g. g\<lparr>g_cache_size := 0\<rparr>) c else c)
              in if g_local_addr4 (c_g c) = 0 then (ERROR_REJECT, c)
                 else
                   (case self_static c of
                      (e, c) \<Rightarrow>
                        if e \<noteq> ERROR_NONE then (e, c)
                        else
                          (let c = (if g_ipv6_offlink_mtu (c_g c) \<le> MTU_MIN
                                    then upd_g (\<lambda>g. g\<lparr>g_ipv6_offlink_mtu := MTU_MIN\<rparr>) c else c)
                           in if c_tundev c = [] then (ERROR_REJECT, c) else (ERROR_NONE, c))))))"

end
