(* ===== verification/Config_Laws.thy ===== *)
theory Config_Laws
  imports Config Addrmap_Inv
begin

text \<open>
  What an accepted configuration guarantees. \<open>setup_inv\<close> is the state between two directives; every
  directive keeps it, and \<open>config_validate\<close> turns it into the invariant the translator starts from.
\<close>

section \<open>The state between two directives\<close>

definition setup_inv :: "gstate \<Rightarrow> bool" where
  "setup_inv g \<longleftrightarrow>
     table4 (g_map4_list g) \<and> table6 (g_map6_list g) \<and> store_inv g \<and> (\<forall>i. g_dyn g i = None)
     \<and> distinct (map m4_obj (g_map4_list g))
     \<and> (\<forall>m\<in>set (g_map6_list g). g_static g (m6_obj m) \<noteq> None)
     \<and> (\<forall>p. g_dynamic_pool g = Some p \<longrightarrow>
          (\<exists>m\<in>set (g_map4_list g). p = init_pool m \<and> m4_prefix_len m \<le> 31))
     \<and> g_cache_pool g = [] \<and> g_cache_active g = [] \<and> g_hash_table4 g = (\<lambda>_. []) \<and> g_hash_table6 g = (\<lambda>_. [])
     \<and> (g_ipv6_offlink_mtu g = 0 \<or> MTU_MIN \<le> g_ipv6_offlink_mtu g \<and> g_ipv6_offlink_mtu g \<le> 65535)"

lemma store_frames [simp]:
  "store_inv (g\<lparr>g_local_addr4 := a4\<rparr>) = store_inv g" "store_inv (g\<lparr>g_local_addr6 := a6\<rparr>) = store_inv g"
  "store_inv (g\<lparr>g_wkpf_strict := b\<rparr>) = store_inv g" "store_inv (g\<lparr>g_udp_cksum_mode := u\<rparr>) = store_inv g"
  "store_inv (g\<lparr>g_data_dir := b\<rparr>) = store_inv g" "store_inv (g\<lparr>g_cache_size := n\<rparr>) = store_inv g"
  "store_inv (g\<lparr>g_ipv6_offlink_mtu := m\<rparr>) = store_inv g"
  by (rule store_cong; simp add: maps_of_def fun_eq_iff)+

lemma setup_frames [simp]:
  "setup_inv (g\<lparr>g_local_addr4 := a4\<rparr>) = setup_inv g"
  "setup_inv (g\<lparr>g_local_addr6 := a6\<rparr>) = setup_inv g"
  "setup_inv (g\<lparr>g_wkpf_strict := b\<rparr>) = setup_inv g"
  "setup_inv (g\<lparr>g_udp_cksum_mode := u\<rparr>) = setup_inv g"
  "setup_inv (g\<lparr>g_data_dir := b\<rparr>) = setup_inv g"
  "setup_inv (g\<lparr>g_cache_size := n\<rparr>) = setup_inv g"
  by (simp_all add: setup_inv_def)

lemma upd_g_g [simp]: "c_g (upd_g f c) = f (c_g c)"
  by (simp add: upd_g_def)

lemma setup_init:
  "distinct (g_alloc g0) \<Longrightarrow> g_static g0 = (\<lambda>_. None) \<Longrightarrow> g_dyn g0 = (\<lambda>_. None) \<Longrightarrow> setup_inv (c_g (config_init g0))"
  by (simp add: setup_inv_def config_init_def store_inv_def statics_ok_def ids_free_def leases_own_def file_both_def
      table4_def table6_def)

lemma setup_fresh:
  assumes "malloc c = Some (i, c')" "setup_inv (c_g c)"
  shows "setup_inv (c_g c') \<and> fresh_id i (c_g c')" "g_dynamic_pool (c_g c') = g_dynamic_pool (c_g c)"
proof -
  obtain ids where a: "g_alloc (c_g c) = i # ids" "c' = upd_g (\<lambda>g. g\<lparr>g_alloc := ids\<rparr>) c"
    using assms(1) by (auto simp: malloc_def split: list.splits)
  have g: "c_g c' = (c_g c)\<lparr>g_alloc := drop 1 (g_alloc (c_g c))\<rparr>" by (simp add: a)
  have st: "store_inv (c_g c)" using assms(2) by (simp add: setup_inv_def)
  have f: "ids_free (c_g c)" using st by (simp add: store_inv_def)
  have "setup_inv (c_g c')" using assms(2) store_drop [OF st, of 1] unfolding g setup_inv_def by simp
  moreover have "fresh_id i (c_g c')"
    using f assms(2) unfolding g fresh_id_def ids_free_def setup_inv_def by (auto simp: a(1))
  ultimately show "setup_inv (c_g c') \<and> fresh_id i (c_g c')" ..
  show "g_dynamic_pool (c_g c') = g_dynamic_pool (c_g c)" by (simp add: a(2))
qed

section \<open>Static mappings\<close>

lemma distinct_insert_map4:
  assumes "insert_map4 m ms = Inr ms'" "distinct (map m4_obj ms)" "m4_obj m \<notin> m4_obj ` set ms"
  shows "distinct (map m4_obj ms')"
proof -
  let ?P = "\<lambda>s. m4_prefix_len m \<le> m4_prefix_len s"
  have ms': "ms' = takeWhile ?P ms @ m # dropWhile ?P ms"
    using assms(1) unfolding insert_map4_eq by (auto split: option.splits)
  show ?thesis
    unfolding ms' by (rule distinct_map_insert) (simp_all add: assms(2,3) del: map_append set_append)
qed

text \<open>The lists and the stored mapping after an insertion; a self mapping may skip the IPv6 list.\<close>

lemma setup_static:
  assumes g: "setup_inv g" and i: "fresh_id i g" and m: "static_wf i m"
    and l4: "insert_map4 (ms_map4 m) (g_map4_list g) = Inr l4"
    and l6: "l6 = g_map6_list g \<or> insert_map6 (ms_map6 m) (g_map6_list g) = Inr l6"
  shows "setup_inv (g\<lparr>g_map4_list := l4, g_map6_list := l6, g_static := (g_static g)(i := Some m)\<rparr>)"
proof -
  note s4 = insert_map4_set [OF l4]
  have s6: "set l6 \<subseteq> insert (ms_map6 m) (set (g_map6_list g))" using l6 insert_map6_set by auto
  have t4: "table4 l4" using insert_map4_table [OF _ _ l4] g m by (simp add: setup_inv_def static_wf_def)
  have t6: "table6 l6" using l6 insert_map6_table g m by (auto simp: setup_inv_def static_wf_def)
  have d: "distinct (map m4_obj l4)"
    using distinct_insert_map4 [OF l4] g i m by (simp add: setup_inv_def fresh_id_def static_wf_def)
  have st: "store_inv (g\<lparr>g_map4_list := l4, g_map6_list := l6, g_static := (g_static g)(i := Some m)\<rparr>)"
    by (rule store_add [OF _ i m s4 s6]) (use g in \<open>simp add: setup_inv_def\<close>)
  have "\<forall>x\<in>set l6. x = ms_map6 m \<or> g_static g (m6_obj x) \<noteq> None" using s6 g by (auto simp: setup_inv_def)
  then have "\<forall>x\<in>set l6. ((g_static g)(i := Some m)) (m6_obj x) \<noteq> None" using m by (auto simp: static_wf_def)
  moreover have "\<forall>x\<in>set (g_map4_list g). x \<in> set l4" using s4 by blast
  ultimately show ?thesis using g t4 t6 d st unfolding setup_inv_def by auto (blast, blast)
qed

lemma setup_link:
  assumes "setup_inv (c_g c)" "fresh_id i (c_g c)" "static_wf i m" "link_static m c = (e, c')"
  shows "setup_inv (c_g c')"
  using assms setup_static [OF assms(1-3)]
  by (auto simp: link_static_def static_wf_def split: sum.splits)

text \<open>A parsed prefix has a length in range, and the prepared map is well formed.\<close>

lemma parse_prefix_len: "parse_prefix pton mx src = Some (a, n) \<Longrightarrow> 0 \<le> mx \<Longrightarrow> n \<le> nat mx"
  by (auto simp: parse_prefix_def split: option.splits prod.splits if_splits)

lemma set_map4_wf:
  assumes "set_map4 a n m = Some m'" "n \<le> 32"
  shows "wf_map4 m' \<and> m4_obj m' = m4_obj m \<and> m4_type m' = m4_type m \<and> m4_prefix_len m' = n"
proof -
  have r: "fst (calc_ip4_mask (m4_mask m) (Some a) (int n)) = 0"
    and m': "m' = m\<lparr>m4_addr := a, m4_mask := snd (calc_ip4_mask (m4_mask m) (Some a) (int n)), m4_prefix_len := n\<rparr>"
    using assms(1) by (auto simp: set_map4_def split: prod.splits if_splits)
  have "0 \<le> int n" "int n \<le> 32" using assms(2) by simp_all
  then have "wf_map4 m'"
    using r [unfolded calc_ip4_mask_ok] calc_ip4_mask_bits [of "int n" "m4_mask m" "Some a"] by (simp add: wf_map4_def m' v4.canon_def)
  then show ?thesis by (simp add: m')
qed

lemma set_map6_wf:
  assumes "set_map6 a n m = Some m'" "n \<le> 128"
  shows "wf_map6 m' \<and> m6_obj m' = m6_obj m \<and> m6_type m' = m6_type m \<and> m6_prefix_len m' = n"
proof -
  have r: "fst (calc_ip6_mask (m6_mask m) (Some a) (int n)) = 0"
    and m': "m' = m\<lparr>m6_addr := a, m6_mask := snd (calc_ip6_mask (m6_mask m) (Some a) (int n)), m6_prefix_len := n\<rparr>"
    using assms(1) by (auto simp: set_map6_def split: prod.splits if_splits)
  have "0 \<le> int n" "int n \<le> 128" using assms(2) by simp_all
  then have "wf_map6 m'"
    using r [unfolded calc_ip6_mask_ok] calc_ip6_mask_bits [of "int n" "m6_mask m" "Some a"] by (simp add: wf_map6_def m' v6.canon_def)
  then show ?thesis by (simp add: m')
qed

lemma map_arg4_wf:
  "map_arg4 arg m = Some m' \<Longrightarrow> wf_map4 m' \<and> m4_obj m' = m4_obj m \<and> m4_type m' = m4_type m \<and> m4_prefix_len m' \<le> 32"
  using set_map4_wf parse_prefix_len [of inet_pton4 32 arg] calc_ip4_mask_bits [of 32]
  by (fastforce simp: map_arg4_def wf_map4_def v4.canon_def split: if_splits option.splits)

lemma map_arg6_wf:
  "map_arg6 arg m = Some m' \<Longrightarrow> wf_map6 m' \<and> m6_obj m' = m6_obj m \<and> m6_type m' = m6_type m \<and> m6_prefix_len m' \<le> 128"
  using set_map6_wf parse_prefix_len [of inet_pton6 128 arg] calc_ip6_mask_bits [of 128]
  by (fastforce simp: map_arg6_def wf_map6_def v6.canon_def split: if_splits option.splits)

section \<open>Every directive keeps the invariant\<close>

definition keeps_setup :: "directive \<Rightarrow> bool" where
  "keeps_setup f \<longleftrightarrow> (\<forall>ln args c e c'. f ln args c = (e, c') \<longrightarrow> setup_inv (c_g c) \<longrightarrow> setup_inv (c_g c'))"

lemma keeps_setupI:
  "(\<And>ln args c e c'. f ln args c = (e, c') \<Longrightarrow> setup_inv (c_g c) \<Longrightarrow> setup_inv (c_g c')) \<Longrightarrow> keeps_setup f"
  by (auto simp: keeps_setup_def)

lemma keeps_plain:
  "keeps_setup config_ipv4_addr" "keeps_setup config_ipv6_addr" "keeps_setup config_wkpf_strict"
  "keeps_setup config_udp_cksum_mode" "keeps_setup config_tun_up" "keeps_setup config_tun_device"
  "keeps_setup config_data_dir" "keeps_setup config_map_file" "keeps_setup config_strict_fh"
  "keeps_setup config_workers" "keeps_setup config_tun_offload" "keeps_setup config_tun_steering"
  "keeps_setup config_runtime_dir"
  by (rule keeps_setupI; auto simp: config_ipv4_addr_def config_ipv6_addr_def config_wkpf_strict_def
      config_udp_cksum_mode_def config_tun_up_def config_tun_device_def config_data_dir_def config_map_file_def
      config_strict_fh_def config_workers_def config_tun_offload_def config_tun_steering_def config_runtime_dir_def
      Let_def split: if_splits option.splits prod.splits)+

lemma keeps_tun: "keeps_setup config_tun_ip" "keeps_setup config_tun_route"
proof -
  have "\<exists>i c1. malloc c = Some (i, c1) \<and> c_g c' = c_g c1 \<or> c' = c"
    if "config_tun_ip ln args c = (e, c') \<or> config_tun_route ln args c = (e, c')" for ln args c e c'
    using that by (auto simp: config_tun_ip_def config_tun_route_def split: option.splits sum.splits)
  then show "keeps_setup config_tun_ip" "keeps_setup config_tun_route"
    by (metis keeps_setupI setup_fresh(1))+
qed

lemma set_log_opts_g: "set_log_opts ss c = (e, c') \<Longrightarrow> c_g c' = c_g c"
  by (induction ss c rule: set_log_opts.induct) (auto split: option.splits)

lemma keeps_log: "keeps_setup config_log"
  by (rule keeps_setupI) (auto simp: config_log_def set_log_opts_g split: if_splits)

lemma setup_mtu:
  "setup_inv g \<Longrightarrow> MTU_MIN \<le> m \<Longrightarrow> m \<le> 65535 \<Longrightarrow> setup_inv (g\<lparr>g_ipv6_offlink_mtu := m\<rparr>)"
  by (simp add: setup_inv_def)

lemma keeps_mtu: "keeps_setup config_offlink_mtu"
proof (rule keeps_setupI)
  fix ln args c e c'
  assume r: "config_offlink_mtu ln args c = (e, c')" and g: "setup_inv (c_g c)"
  have m: "MTU_MIN \<le> (word_of_int i :: u32) \<and> (word_of_int i :: u32) \<le> 65535" if "int (unat MTU_MIN) \<le> i" "i \<le> 65535" for i
    using that by (simp add: word_le_def uint_word_of_int MTU_MIN_def)
  obtain i rest x where s: "strtol (hd args) = (i, rest, x)" by (cases "strtol (hd args)") blast
  have "c' = c \<or> int (unat MTU_MIN) \<le> i \<and> i \<le> 65535 \<and> c' = upd_g (\<lambda>g. g\<lparr>g_ipv6_offlink_mtu := word_of_int i\<rparr>) c"
    using r unfolding config_offlink_mtu_def s prod.case not_le [symmetric]
    by (simp only: prod.inject not_less split: if_splits) blast+
  then consider "c' = c"
    | "int (unat MTU_MIN) \<le> i" "i \<le> 65535" "c' = upd_g (\<lambda>g. g\<lparr>g_ipv6_offlink_mtu := word_of_int i\<rparr>) c" by blast
  then show "setup_inv (c_g c')"
  proof cases
    case 2
    show ?thesis unfolding 2(3) upd_g_g using setup_mtu [OF g] m [OF 2(1,2)] by blast
  qed (simp add: g)
qed

lemma new_static_wf: "static_wf i (new_static i ln)"
  using calc_ip4_mask_bits [of 32 0 None] calc_ip6_mask_bits [of 128 in6_zero None]
  by (simp add: static_wf_def new_static_def wf_map4_def wf_map6_def v4.canon_def v6.canon_def)

lemma alloc_static_Some:
  "alloc_map_static ln c = Some (m, c') \<Longrightarrow> \<exists>i. malloc c = Some (i, c') \<and> m = new_static i ln"
  by (auto simp: alloc_map_static_def)

lemma keeps_map: "keeps_setup config_map"
proof (rule keeps_setupI)
  fix ln args c e c'
  assume r: "config_map ln args c = (e, c')" and g: "setup_inv (c_g c)"
  show "setup_inv (c_g c')"
  proof (cases "alloc_map_static ln c")
    case None
    with r g show ?thesis by (simp add: config_map_def)
  next
    case (Some a)
    then obtain i c1 where i: "malloc c = Some (i, c1)" and a: "a = (new_static i ln, c1)"
      using alloc_static_Some by (cases a) blast
    note f = setup_fresh(1) [OF i g]
    consider "c' = c1"
      | m4 m6 where "map_arg4 (args ! 0) (ms_map4 (new_static i ln)) = Some m4"
          "map_arg6 (args ! 1) (ms_map6 (new_static i ln)) = Some m6"
          "\<not> 128 - int (m6_prefix_len m6) < 32 - int (m4_prefix_len m4)"
          "link_static ((new_static i ln)\<lparr>ms_map4 := m4, ms_map6 := m6\<rparr>) c1 = (e, c')"
      using r unfolding config_map_def Some a Let_def prod.case option.case
      by (auto split: option.splits if_splits)
    then show ?thesis
    proof cases
      case 2
      have "static_wf i ((new_static i ln)\<lparr>ms_map4 := m4, ms_map6 := m6\<rparr>)"
        using map_arg4_wf [OF 2(1)] map_arg6_wf [OF 2(2)] 2(3) by (auto simp: static_wf_def new_static_def)
      then show ?thesis using f 2(4) setup_link by blast
    qed (use f in simp)
  qed
qed

lemma keeps_prefix: "keeps_setup config_prefix"
proof (rule keeps_setupI)
  fix ln args c e c'
  assume r: "config_prefix ln args c = (e, c')" and g: "setup_inv (c_g c)"
  show "setup_inv (c_g c')"
  proof (cases "alloc_map_static ln c")
    case None
    with r g show ?thesis by (simp add: config_prefix_def)
  next
    case (Some a)
    then obtain i c1 where i: "malloc c = Some (i, c1)" and a: "a = (new_static i ln, c1)"
      using alloc_static_Some by (cases a) blast
    note f = setup_fresh(1) [OF i g]
    let ?m = "(new_static i ln)\<lparr>ms_map4 := (ms_map4 (new_static i ln))\<lparr>m4_prefix_len := 0, m4_mask := 0, m4_type := MAP_TYPE_RFC6052\<rparr>,
      ms_map6 := (ms_map6 (new_static i ln))\<lparr>m6_type := MAP_TYPE_RFC6052\<rparr>\<rparr>"
    consider "c' = c1"
      | b n m6 where "set_map6 b n (ms_map6 ?m) = Some m6" "n \<le> 96" "link_static (?m\<lparr>ms_map6 := m6\<rparr>) c1 = (e, c')"
      using r unfolding config_prefix_def Some a Let_def prod.case option.case
      by (auto split: option.splits if_splits)
    then show ?thesis
    proof cases
      case 2
      have "static_wf i (?m\<lparr>ms_map6 := m6\<rparr>)"
        using set_map6_wf [OF 2(1)] 2(2)
        by (simp add: static_wf_def new_static_def wf_map4_def v4.canon_def is_mask4_def)
      then show ?thesis using f 2(3) setup_link by blast
    qed (use f in simp)
  qed
qed

section \<open>The dynamic pool\<close>

lemma setup_pool:
  assumes "setup_inv g" "fresh_id i g" "wf_map4 m" "m4_obj m = i" "m4_prefix_len m \<le> 31"
    "insert_map4 m (g_map4_list g) = Inr l4" "g_dynamic_pool g = None"
  shows "setup_inv (g\<lparr>g_map4_list := l4, g_dynamic_pool := Some (init_pool m)\<rparr>)"
proof -
  note s4 = insert_map4_set [OF assms(6)]
  have "table4 l4" using insert_map4_table [OF _ assms(3,6)] assms(1) by (simp add: setup_inv_def)
  moreover have "distinct (map m4_obj l4)"
    using distinct_insert_map4 [OF assms(6)] assms(1,2,4) by (simp add: setup_inv_def fresh_id_def)
  moreover have "store_inv (g\<lparr>g_map4_list := l4, g_map6_list := g_map6_list g\<rparr>)"
    by (rule store_insert [of g i]) (use assms s4 in \<open>auto simp: setup_inv_def fresh_id_def\<close>)
  then have "store_inv (g\<lparr>g_map4_list := l4, g_dynamic_pool := Some (init_pool m)\<rparr>)"
    by (rule store_cong [THEN iffD1, rotated -1]) (simp_all add: maps_of_def fun_eq_iff)
  ultimately show ?thesis
    using assms by (simp add: setup_inv_def s4)
qed

lemma keeps_pool: "keeps_setup config_dynamic_pool"
proof (rule keeps_setupI)
  fix ln args c e c'
  assume r: "config_dynamic_pool ln args c = (e, c')" and g: "setup_inv (c_g c)"
  show "setup_inv (c_g c')"
  proof (cases "g_dynamic_pool (c_g c) = None \<and> malloc c \<noteq> None")
    case False
    with r g show ?thesis by (auto simp: config_dynamic_pool_def split: if_splits option.splits)
  next
    case True
    then obtain i c1 where i: "malloc c = Some (i, c1)" and n: "g_dynamic_pool (c_g c) = None" by auto
    note f = setup_fresh(1) [OF i g]
    let ?m = "\<lparr>m4_addr = 0, m4_mask = 0, m4_prefix_len = 0, m4_type = MAP_TYPE_DYNAMIC_POOL, m4_obj = i\<rparr>"
    have "c' = c1 \<or> (\<exists>a len m4 l4. set_map4 a len ?m = Some m4 \<and> len \<le> 31
        \<and> insert_map4 m4 (g_map4_list (c_g c1)) = Inr l4
        \<and> c' = upd_g (\<lambda>g. g\<lparr>g_map4_list := l4, g_dynamic_pool := Some (init_pool m4)\<rparr>) c1)"
      using r unfolding config_dynamic_pool_def i n Let_def prod.case option.case
      by (simp only: not_less prod.inject simp_thms split: option.splits if_splits sum.splits prod.splits) blast+
    then consider "c' = c1"
      | a len m4 l4 where "set_map4 a len ?m = Some m4" "len \<le> 31" "insert_map4 m4 (g_map4_list (c_g c1)) = Inr l4"
          "c' = upd_g (\<lambda>g. g\<lparr>g_map4_list := l4, g_dynamic_pool := Some (init_pool m4)\<rparr>) c1" by blast
    then show ?thesis
    proof cases
      case 2
      have "len \<le> 32" using 2(2) by simp
      from set_map4_wf [OF 2(1) this] 2(2) show ?thesis
        unfolding 2(4) upd_g_g using f n setup_fresh(2) [OF i g] 2(3) by (intro setup_pool) auto
    qed (use f in simp)
  qed
qed

text \<open>A fresh pool satisfies the pool's invariant.\<close>

lemma canon4_mod:
  assumes "v4.canon a n" "n \<le> 32"
  shows "unat (ntohl a) mod 2 ^ (32 - n) = 0"
proof -
  have "ntohl a AND mask (32 - n) = 0"
  proof (rule bit_word_eqI)
    fix k :: nat
    assume "k < LENGTH(32)"
    then have k: "k < 32" by simp
    have "ip4_bit a (31 - k) \<longrightarrow> 31 - k < n" using assms(1) k by (simp add: v4.canon_def)
    then have "bit (ntohl a) k \<longrightarrow> \<not> k < 32 - n" using k by (auto simp: ip4_bit_def)
    then show "bit (ntohl a AND mask (32 - n)) k = bit (0 :: u32) k" by (auto simp: bit_and_iff bit_mask_iff)
  qed
  with unat_and_mask [of "32 - n" "ntohl a"] show ?thesis by simp
qed

lemma block_fits: "(b :: nat) < 2 ^ m \<Longrightarrow> k \<le> m \<Longrightarrow> b mod 2 ^ k = 0 \<Longrightarrow> b + 2 ^ k \<le> 2 ^ m"
proof -
  assume b: "b < 2 ^ m" and k: "k \<le> m" and z: "b mod 2 ^ k = 0"
  obtain q where q: "b = 2 ^ k * q" using z by (auto simp: mod_eq_0_iff_dvd dvd_def)
  have m: "(2 :: nat) ^ m = 2 ^ k * 2 ^ (m - k)" using k by (simp flip: power_add)
  have "q < 2 ^ (m - k)" using b unfolding q m by simp
  then have "q + 1 \<le> 2 ^ (m - k)" by simp
  then have "2 ^ k * (q + 1) \<le> 2 ^ k * (2 :: nat) ^ (m - k)" by (rule mult_le_mono2)
  then show ?thesis unfolding q m by simp
qed

lemma init_pool_inv:
  assumes "wf_map4 m" "m4_prefix_len m \<le> 31" "distinct (g_alloc g)"
  shows "pool_shape g (init_pool m)"
proof -
  let ?n = "m4_prefix_len m"
  have n: "?n \<le> 32" using assms(2) by simp
  have c: "v4.canon (m4_addr m) ?n" using assms(1) by (simp add: wf_map4_def)
  have "unat (ntohl (m4_addr m)) + 2 ^ (32 - ?n) \<le> 2 ^ 32"
    using canon4_mod [OF c n] unsigned_less [of "ntohl (m4_addr m)"] by (intro block_fits) simp_all
  moreover have "unat (drop_bit ?n (0xffffffff :: u32)) + 1 = 2 ^ (32 - ?n)"
  proof -
    have "unat (mask (32 - ?n) :: u32) = 2 ^ (32 - ?n) - 1" by (rule unat_mask_u32) simp
    then show ?thesis by (simp add: low_mask [OF n])
  qed
  ultimately have "pool_core g (init_pool m) {}"
    using assms(2,3) by (simp add: pool_core_def init_pool_def pool_base_def pool_size_def free_at_def)
  then show ?thesis by (simp add: pool_shape_def leases_def init_pool_def)
qed

lemma setup_translation:
  assumes "setup_inv g"
  shows "pool_inv g" "translation_inv (snd (create_cache True g))"
proof -
  have d: "distinct (g_alloc g)" using assms by (simp add: setup_inv_def store_inv_def ids_free_def)
  show p: "pool_inv g"
  proof (cases "g_dynamic_pool g")
    case (Some p)
    then obtain m where "m \<in> set (g_map4_list g)" "p = init_pool m" "m4_prefix_len m \<le> 31" "table4 (g_map4_list g)"
      using assms unfolding setup_inv_def by blast
    then show ?thesis using Some init_pool_inv [OF _ _ d] by (simp add: pool_inv_def table4_def)
  qed (simp add: pool_inv_def)
  have c: "g_cache_pool g = [] \<and> g_cache_active g = []" using assms by (simp add: setup_inv_def)
  have "cache_inv (snd (create_cache True g))" by (rule create_cache_inv) (use c in simp)
  moreover have "dyn_same g (snd (create_cache True g)) \<and> g_map4_list (snd (create_cache True g)) = g_map4_list g
      \<and> g_map6_list (snd (create_cache True g)) = g_map6_list g"
    using c by (simp add: create_cache_def Let_def dyn_same_def)
  moreover have "pool_inv (snd (create_cache True g)) = pool_inv g"
    by (rule dyn_same_pool_inv) (use c in \<open>simp_all add: create_cache_def Let_def dyn_same_def\<close>)
  moreover have "store_inv (snd (create_cache True g)) = store_inv g"
    by (rule store_cong) (use c in \<open>simp_all add: create_cache_def Let_def maps_of_def fun_eq_iff\<close>)
  moreover have "table4 (g_map4_list g)" "table6 (g_map6_list g)" "store_inv g" using assms by (simp_all add: setup_inv_def)
  ultimately show "translation_inv (snd (create_cache True g))"
    using p by (simp add: translation_inv_def)
qed

section \<open>Reading the file\<close>

lemma directives_keep: "\<forall>(name, f, need)\<in>set config_directives. keeps_setup f"
  by (simp add: config_directives_def keeps_plain keeps_tun keeps_log keeps_mtu keeps_map keeps_prefix keeps_pool)

lemma config_line_setup: "config_line ln line c = (b, c') \<Longrightarrow> setup_inv (c_g c) \<Longrightarrow> setup_inv (c_g c')"
proof -
  assume r: "config_line ln line c = (b, c')" and g: "setup_inv (c_g c)"
  have k: "keeps_setup f" if "List.find P config_directives = Some (n, f, k)" for P n f k
    using find_SomeD [OF that] directives_keep by fastforce
  show ?thesis
    using r g k unfolding config_line_def Let_def keeps_setup_def
    by (auto split: if_splits option.splits prod.splits)
qed

lemma config_lines_setup: "config_lines ln ls b c = (b', c') \<Longrightarrow> setup_inv (c_g c) \<Longrightarrow> setup_inv (c_g c')"
proof (induction ls arbitrary: ln b c)
  case (Cons l ls)
  obtain b1 c1 where l: "config_line (ln + 1) l c = (b1, c1)" by (cases "config_line (ln + 1) l c") blast
  with Cons.prems(1) have "config_lines (ln + 1) ls (b \<or> b1) c1 = (b', c')" by simp
  then show ?case using Cons.IH config_line_setup [OF l Cons.prems(2)] by blast
qed simp

lemma config_read_setup: "config_read f c = (e, c') \<Longrightarrow> setup_inv (c_g c) \<Longrightarrow> setup_inv (c_g c')"
  using config_lines_setup by (auto simp: config_read_def split: option.splits prod.splits)

section \<open>Validation\<close>

text \<open>The translator's own mapping is in the IPv4 table and pairs its two addresses.\<close>

definition self_mapped :: "gstate \<Rightarrow> bool" where
  "self_mapped g \<longleftrightarrow> (\<exists>s. ms_map4 s \<in> set (g_map4_list g) \<and> g_static g (m4_obj (ms_map4 s)) = Some s
     \<and> ms_origin s = MAP_ORIGIN_SELF \<and> m4_type (ms_map4 s) = MAP_TYPE_STATIC \<and> m4_addr (ms_map4 s) = g_local_addr4 g \<and> m4_prefix_len (ms_map4 s) = 32
     \<and> m6_addr (ms_map6 s) = g_local_addr6 g \<and> m6_prefix_len (ms_map6 s) = 128)"

lemma local6_order:
  "g\<lparr>g_map4_list := l, g_local_addr6 := b, g_static := s\<rparr>
     = g\<lparr>g_map4_list := l, g_map6_list := g_map6_list g, g_static := s, g_local_addr6 := b\<rparr>"
  by (cases g) simp

lemma self_static_setup:
  assumes r: "self_static c = (e, c')" and g: "setup_inv (c_g c)"
  shows "setup_inv (c_g c')" "e = ERROR_NONE \<Longrightarrow> self_mapped (c_g c')"
    "g_local_addr4 (c_g c') = g_local_addr4 (c_g c)" "c_tundev c' = c_tundev c"
proof -
  have "setup_inv (c_g c') \<and> (e = ERROR_NONE \<longrightarrow> self_mapped (c_g c'))
      \<and> g_local_addr4 (c_g c') = g_local_addr4 (c_g c) \<and> c_tundev c' = c_tundev c"
  proof (cases "alloc_map_static 0 c")
    case None
    with r g show ?thesis by (auto simp: self_static_def)
  next
    case (Some a)
    then obtain i c1 where i: "malloc c = Some (i, c1)" and a: "a = (new_static i 0, c1)"
      using alloc_static_Some by (cases a) blast
    have c1: "g_local_addr4 (c_g c1) = g_local_addr4 (c_g c)" "g_local_addr6 (c_g c1) = g_local_addr6 (c_g c)"
        "c_tundev c1 = c_tundev c" "g_wkpf_strict (c_g c1) = g_wkpf_strict (c_g c)"
      using i by (auto simp: malloc_def upd_g_def split: list.splits)
    note f = setup_fresh(1) [OF i g]
    let ?a4 = "g_local_addr4 (c_g c)"
    let ?m = "(new_static i 0)\<lparr>ms_map4 := (ms_map4 (new_static i 0))\<lparr>m4_addr := ?a4\<rparr>, ms_origin := MAP_ORIGIN_SELF\<rparr>"
    let ?s = "\<lambda>b. ?m\<lparr>ms_map6 := (ms_map6 ?m)\<lparr>m6_addr := b\<rparr>\<rparr>"
    have wf: "static_wf i (?s b)" for b
      using new_static_wf [of i 0] by (simp add: static_wf_def new_static_def wf_map4_def wf_map6_def v4.canon_def v6.canon_def)
    have e: "ms_map4 (?s b) = ms_map4 ?m" "m4_obj (ms_map4 ?m) = i" "m4_addr (ms_map4 ?m) = ?a4"
      "m4_prefix_len (ms_map4 ?m) = 32" "m6_prefix_len (ms_map6 (?s b)) = 128" "m4_type (ms_map4 ?m) = MAP_TYPE_STATIC" for b
      by (simp_all add: new_static_def)
    let ?goal = "setup_inv (c_g c') \<and> (e = ERROR_NONE \<longrightarrow> self_mapped (c_g c'))
      \<and> g_local_addr4 (c_g c') = ?a4 \<and> c_tundev c' = c_tundev c"
    have fail: ?goal if "e = ERROR_REJECT" "c' = c1" using that f c1 by simp
    have good: ?goal
      if l: "insert_map4 (ms_map4 ?m) (g_map4_list (c_g c1)) = Inr l4"
        "l6 = g_map6_list (c_g c1) \<or> insert_map6 (ms_map6 (?s b)) (g_map6_list (c_g c1)) = Inr l6"
        and c': "c' = upd_g (\<lambda>g. h (g\<lparr>g_map4_list := l4, g_map6_list := l6, g_static := (g_static g)(i := Some (?s b))\<rparr>)) c1"
        and h: "h = (\<lambda>g. g\<lparr>g_local_addr6 := b\<rparr>) \<or> h = (\<lambda>g. g) \<and> b = g_local_addr6 (c_g c)" for b l4 l6 h
    proof -
      let ?g = "(c_g c1)\<lparr>g_map4_list := l4, g_map6_list := l6, g_static := (g_static (c_g c1))(i := Some (?s b))\<rparr>"
      have "setup_inv ?g" by (rule setup_static) (use f wf l e in simp_all)
      moreover have "self_mapped (h ?g)"
        unfolding self_mapped_def by (rule exI [of _ "?s b"]) (use h c1 e insert_map4_set [OF l(1)] in auto)
      ultimately show ?thesis using h c1 unfolding c' by (auto simp: upd_g_def)
    qed
    show ?thesis
    proof (cases "insert_map4 (ms_map4 ?m) (g_map4_list (c_g c1))")
      case (Inl x)
      then show ?thesis using r fail unfolding self_static_def Some a Let_def prod.case option.case c1 by simp
    next
      case l4: (Inr l4)
      let ?a6 = "g_local_addr6 (c_g c)"
      note r' = r [unfolded self_static_def Some a Let_def prod.case option.case c1 l4 sum.case]
      consider "a0 ?a6 = WKPF \<and> a1 ?a6 = 0 \<and> a2 ?a6 = 0 \<and> g_wkpf_strict (c_g c)"
        | "\<not> (a0 ?a6 = WKPF \<and> a1 ?a6 = 0 \<and> a2 ?a6 = 0 \<and> g_wkpf_strict (c_g c))" "a0 ?a6 \<noteq> 0"
        | "\<not> (a0 ?a6 = WKPF \<and> a1 ?a6 = 0 \<and> a2 ?a6 = 0 \<and> g_wkpf_strict (c_g c))" "a0 ?a6 = 0" by blast
      then show ?thesis
      proof cases
        case 1
        then show ?thesis using r' fail by simp
      next
        case 2
        then have r2: "(case insert_map6 (ms_map6 (?s ?a6)) (g_map6_list (c_g c1)) of
            Inl _ \<Rightarrow> (ERROR_REJECT, c1)
          | Inr l6 \<Rightarrow> (ERROR_NONE, upd_g (\<lambda>g. g\<lparr>g_map4_list := l4, g_map6_list := l6,
              g_static := (g_static g)(i := Some (?s ?a6))\<rparr>) c1)) = (e, c')"
          using r' by (simp only: e simp_thms if_False if_True)
        show ?thesis
        proof (cases "insert_map6 (ms_map6 (?s ?a6)) (g_map6_list (c_g c1))")
          case (Inl x)
          then show ?thesis using r2 fail by simp
        next
          case (Inr l6)
          then show ?thesis using r2 good [OF l4, of l6 ?a6 "\<lambda>g. g"] by (simp only: sum.case prod.inject simp_thms)
        qed
      next
        case 3
        let ?p = "last (g_map6_list (c_g c1))"
        let ?r = "append_to_prefix (g_wkpf_strict (c_g c)) ?a4 (m6_addr ?p) (m6_prefix_len ?p)"
        let ?b = "case ?r of Inl _ \<Rightarrow> ?a6 | Inr b \<Rightarrow> b"
        have "(e, c') = (ERROR_REJECT, c1) \<or> c' = upd_g (\<lambda>g. g\<lparr>g_map4_list := l4, g_local_addr6 := ?b,
            g_static := (g_static g)(i := Some (?s ?b))\<rparr>) c1"
          using r' 3 by (simp only: e simp_thms if_False prod.inject split: if_split_asm)
        moreover have "upd_g (\<lambda>g. g\<lparr>g_map4_list := l4, g_local_addr6 := ?b,
            g_static := (g_static g)(i := Some (?s ?b))\<rparr>) c1 =
          upd_g (\<lambda>g. g\<lparr>g_map4_list := l4, g_map6_list := g_map6_list (c_g c1),
            g_static := (g_static g)(i := Some (?s ?b)), g_local_addr6 := ?b\<rparr>) c1"
          unfolding upd_g_def by (subst local6_order) (rule refl)
        ultimately have "(e, c') = (ERROR_REJECT, c1) \<or>
          c' = upd_g (\<lambda>g. g\<lparr>g_map4_list := l4, g_map6_list := g_map6_list (c_g c1),
            g_static := (g_static g)(i := Some (?s ?b)), g_local_addr6 := ?b\<rparr>) c1" by simp
        then show ?thesis
          using fail good [OF l4, of _ "case ?r of Inl _ \<Rightarrow> ?a6 | Inr b \<Rightarrow> b"
            "\<lambda>g. g\<lparr>g_local_addr6 := case ?r of Inl _ \<Rightarrow> ?a6 | Inr b \<Rightarrow> b\<rparr>"] by blast
      qed
    qed
  qed
  then show "setup_inv (c_g c')" "e = ERROR_NONE \<Longrightarrow> self_mapped (c_g c')"
    "g_local_addr4 (c_g c') = g_local_addr4 (c_g c)" "c_tundev c' = c_tundev c" by blast+
qed

lemma use_state_dir_g:
  "use_state_dir sd c = Some c' \<Longrightarrow> setup_inv (c_g c') = setup_inv (c_g c)
     \<and> g_local_addr4 (c_g c') = g_local_addr4 (c_g c)"
  by (auto simp: use_state_dir_def split: option.splits if_splits)

definition started :: "gstate \<Rightarrow> bool" where
  "started g \<longleftrightarrow> translation_inv g \<and> self_mapped g \<and> g_local_addr4 g \<noteq> 0
     \<and> MTU_MIN \<le> g_ipv6_offlink_mtu g \<and> g_ipv6_offlink_mtu g \<le> 65535 \<and> cache_pairs g = {}"

lemma config_validate_setup:
  assumes v: "config_validate sd c = (ERROR_NONE, c')" and g: "setup_inv (c_g c)"
  shows "setup_inv (c_g c') \<and> self_mapped (c_g c') \<and> g_local_addr4 (c_g c') \<noteq> 0
    \<and> MTU_MIN \<le> g_ipv6_offlink_mtu (c_g c')"
proof -
  obtain c1 where c1: "use_state_dir sd c = Some c1"
    using v by (auto simp: config_validate_def split: if_splits option.splits)
  let ?im = "g_dynamic_pool (c_g c1) = None \<and> c_map_file c1 = []"
  let ?c2 = "if ?im then upd_g (\<lambda>g. g\<lparr>g_cache_size := 0\<rparr>) (c1\<lparr>c_maps_immutable := ?im\<rparr>) else c1\<lparr>c_maps_immutable := ?im\<rparr>"
  obtain e c3 where c3: "self_static ?c2 = (e, c3)" by (cases "self_static ?c2") blast
  have g2: "setup_inv (c_g ?c2)" "g_local_addr4 (c_g ?c2) = g_local_addr4 (c_g c1)"
    using use_state_dir_g [OF c1] g by (auto simp: upd_g_def)
  note s = self_static_setup [OF c3 g2(1)]
  have r: "g_local_addr4 (c_g ?c2) \<noteq> 0 \<and> e = ERROR_NONE
      \<and> c' = (if g_ipv6_offlink_mtu (c_g c3) \<le> MTU_MIN then upd_g (\<lambda>g. g\<lparr>g_ipv6_offlink_mtu := MTU_MIN\<rparr>) c3 else c3)"
    using v unfolding config_validate_def c1 option.case Let_def c3 prod.case
    by (simp split: if_split_asm)
  have m: "setup_inv (c_g c')" using r s(1) setup_mtu [OF s(1), of MTU_MIN] by (simp add: MTU_MIN_def)
  moreover have "self_mapped (c_g c') \<longleftrightarrow> self_mapped (c_g c3)" using r by (simp add: self_mapped_def)
  moreover have "g_local_addr4 (c_g c') = g_local_addr4 (c_g c3)" using r by simp
  moreover have "MTU_MIN \<le> g_ipv6_offlink_mtu (c_g c')" using r by (simp add: not_le less_imp_le)
  ultimately show ?thesis using r s by simp
qed

lemma started_setup:
  assumes "setup_inv g" "self_mapped g" "g_local_addr4 g \<noteq> 0" "MTU_MIN \<le> g_ipv6_offlink_mtu g"
  shows "started (snd (create_cache True g))"
proof -
  have c: "g_cache_pool g = []" "g_cache_active g = []" using assms(1) by (simp_all add: setup_inv_def)
  have "cache_pairs (snd (create_cache True g)) = cache_pairs g" by (rule create_cache_inv) (use c in simp)
  moreover have "self_mapped (snd (create_cache True g)) = self_mapped g"
    "g_local_addr4 (snd (create_cache True g)) = g_local_addr4 g"
    "g_ipv6_offlink_mtu (snd (create_cache True g)) = g_ipv6_offlink_mtu g"
    using c by (simp_all add: create_cache_def Let_def self_mapped_def)
  moreover have "g_ipv6_offlink_mtu g \<noteq> 0" using assms(4) by (auto simp: MTU_MIN_def)
  ultimately show ?thesis
    using assms setup_translation(2) [OF assms(1)] c by (simp add: started_def setup_inv_def cache_pairs_def)
qed

section \<open>The translator's own addresses\<close>

text \<open>
  Where the own IPv6 address comes from: the configured one has a host entry of its own in the IPv6
  table; without one it is the IPv4 address embedded in the shortest prefix, if that embedding exists.
\<close>

definition own6_source :: "gstate \<Rightarrow> gstate \<Rightarrow> bool" where
  "own6_source g g' \<longleftrightarrow>
     (if a0 (g_local_addr6 g) \<noteq> 0 then
        g_local_addr6 g' = g_local_addr6 g \<and> (\<exists>s. g_static g' (m4_obj (ms_map4 s)) = Some s \<and> ms_map6 s \<in> set (g_map6_list g')
          \<and> m6_addr (ms_map6 s) = g_local_addr6 g \<and> m6_prefix_len (ms_map6 s) = 128 \<and> m6_type (ms_map6 s) = MAP_TYPE_STATIC
          \<and> m4_addr (ms_map4 s) = g_local_addr4 g \<and> m4_prefix_len (ms_map4 s) = 32)
      else
        (let p = last (g_map6_list g); r = append_to_prefix (g_wkpf_strict g) (g_local_addr4 g) (m6_addr p) (m6_prefix_len p)
         in m6_type p = MAP_TYPE_RFC6052 \<and> g_map6_list g' = g_map6_list g
            \<and> (case r of Inr b \<Rightarrow> g_local_addr6 g' = b | Inl _ \<Rightarrow> g_local_addr6 g' = g_local_addr6 g \<and> \<not> g_wkpf_strict g)))"

text \<open>The two ways a successful \<open>self_static\<close> ends.\<close>

lemma self_static_given:
  assumes r: "self_static c = (ERROR_NONE, c')" and a: "alloc_map_static 0 c = Some (m0, c1)"
    and c1: "g_local_addr4 (c_g c1) = g_local_addr4 (c_g c)" "g_local_addr6 (c_g c1) = g_local_addr6 (c_g c)"
      "g_wkpf_strict (c_g c1) = g_wkpf_strict (c_g c)" "g_map6_list (c_g c1) = g_map6_list (c_g c)"
    and nz: "a0 (g_local_addr6 (c_g c)) \<noteq> 0"
  shows "\<exists>l4 l6. insert_map6 ((ms_map6 m0)\<lparr>m6_addr := g_local_addr6 (c_g c)\<rparr>) (g_map6_list (c_g c)) = Inr l6
    \<and> c_g c' = (c_g c1)\<lparr>g_map4_list := l4, g_map6_list := l6, g_static := (g_static (c_g c1))(m4_obj (ms_map4 m0) :=
        Some (m0\<lparr>ms_map4 := (ms_map4 m0)\<lparr>m4_addr := g_local_addr4 (c_g c)\<rparr>, ms_origin := MAP_ORIGIN_SELF,
          ms_map6 := (ms_map6 m0)\<lparr>m6_addr := g_local_addr6 (c_g c)\<rparr>\<rparr>))\<rparr>"
proof -
  note r' = r [unfolded self_static_def a Let_def prod.case option.case c1]
  let ?m = "m0\<lparr>ms_map4 := (ms_map4 m0)\<lparr>m4_addr := g_local_addr4 (c_g c)\<rparr>, ms_origin := MAP_ORIGIN_SELF\<rparr>"
  obtain l4 where l4: "insert_map4 (ms_map4 ?m) (g_map4_list (c_g c1)) = Inr l4"
    using r' by (cases "insert_map4 (ms_map4 ?m) (g_map4_list (c_g c1))") simp_all
  obtain l6 where l6: "insert_map6 ((ms_map6 m0)\<lparr>m6_addr := g_local_addr6 (c_g c)\<rparr>) (g_map6_list (c_g c)) = Inr l6"
    using r' nz l4 by (cases "insert_map6 ((ms_map6 m0)\<lparr>m6_addr := g_local_addr6 (c_g c)\<rparr>) (g_map6_list (c_g c))") (simp_all split: if_split_asm)
  show ?thesis using r' nz l4 l6 by (auto simp: upd_g_def split: if_split_asm)
qed

lemma own6_source_cong:
  "g_local_addr6 h = g_local_addr6 g' \<Longrightarrow> g_static h = g_static g' \<Longrightarrow> g_map6_list h = g_map6_list g' \<Longrightarrow> own6_source g h = own6_source g g'"
  unfolding own6_source_def by (simp only:)

lemma self_static_own6:
  assumes "self_static c = (ERROR_NONE, c')"
  shows "own6_source (c_g c) (c_g c')"
proof -
  obtain i c1 where a: "alloc_map_static 0 c = Some (new_static i 0, c1)" "malloc c = Some (i, c1)"
    using assms alloc_static_Some by (fastforce simp: self_static_def split: option.splits)
  have c1: "g_local_addr4 (c_g c1) = g_local_addr4 (c_g c)" "g_local_addr6 (c_g c1) = g_local_addr6 (c_g c)"
    "g_wkpf_strict (c_g c1) = g_wkpf_strict (c_g c)" "g_map6_list (c_g c1) = g_map6_list (c_g c)"
    using a(2) by (auto simp: malloc_def upd_g_def split: list.splits)
  show ?thesis
  proof (cases "a0 (g_local_addr6 (c_g c)) \<noteq> 0")
    case True
    let ?s = "(new_static i 0)\<lparr>ms_map4 := (ms_map4 (new_static i 0))\<lparr>m4_addr := g_local_addr4 (c_g c)\<rparr>, ms_origin := MAP_ORIGIN_SELF,
        ms_map6 := (ms_map6 (new_static i 0))\<lparr>m6_addr := g_local_addr6 (c_g c)\<rparr>\<rparr>"
    obtain l4 l6 where l6: "insert_map6 (ms_map6 ?s) (g_map6_list (c_g c)) = Inr l6"
      and c': "c_g c' = (c_g c1)\<lparr>g_map4_list := l4, g_map6_list := l6, g_static := (g_static (c_g c1))(i := Some ?s)\<rparr>"
      using self_static_given [OF assms a(1) c1 True] by (auto simp: new_static_def)
    have "ms_map6 ?s \<in> set l6" using insert_map6_set [OF l6] by blast
    then show ?thesis using True unfolding own6_source_def c'
      by (simp add: c1, intro exI [of _ ?s]) (simp add: new_static_def)
  next
    case False
    let ?p = "last (g_map6_list (c_g c))"
    let ?r = "append_to_prefix (g_wkpf_strict (c_g c)) (g_local_addr4 (c_g c)) (m6_addr ?p) (m6_prefix_len ?p)"
    have "m6_type ?p = MAP_TYPE_RFC6052 \<and> g_map6_list (c_g c') = g_map6_list (c_g c) \<and> \<not> (isl ?r \<and> g_wkpf_strict (c_g c))
        \<and> g_local_addr6 (c_g c') = (case ?r of Inl _ \<Rightarrow> g_local_addr6 (c_g c) | Inr b \<Rightarrow> b)"
      using assms False by (auto simp: self_static_def a c1 Let_def upd_g_def split: sum.splits if_split_asm)
    then show ?thesis using False by (auto simp: own6_source_def Let_def split: sum.splits)
  qed
qed

lemma use_state_dir_conf:
  "use_state_dir sd c = Some c' \<Longrightarrow> g_local_addr4 (c_g c') = g_local_addr4 (c_g c) \<and> g_local_addr6 (c_g c') = g_local_addr6 (c_g c)
     \<and> g_wkpf_strict (c_g c') = g_wkpf_strict (c_g c) \<and> g_map6_list (c_g c') = g_map6_list (c_g c)"
  by (auto simp: use_state_dir_def split: option.splits if_splits)

lemma config_validate_own6:
  assumes v: "config_validate sd c = (ERROR_NONE, c')"
  shows "own6_source (c_g c) (c_g c')" "g_local_addr4 (c_g c') = g_local_addr4 (c_g c)" "g_wkpf_strict (c_g c') = g_wkpf_strict (c_g c)"
    "g_map6_list (c_g c) \<noteq> []"
proof -
  obtain c1 where c1: "use_state_dir sd c = Some c1"
    using v by (auto simp: config_validate_def split: if_splits option.splits)
  let ?im = "g_dynamic_pool (c_g c1) = None \<and> c_map_file c1 = []"
  let ?c2 = "if ?im then upd_g (\<lambda>g. g\<lparr>g_cache_size := 0\<rparr>) (c1\<lparr>c_maps_immutable := ?im\<rparr>) else c1\<lparr>c_maps_immutable := ?im\<rparr>"
  have g2: "g_local_addr4 (c_g ?c2) = g_local_addr4 (c_g c)" "g_local_addr6 (c_g ?c2) = g_local_addr6 (c_g c)"
    "g_wkpf_strict (c_g ?c2) = g_wkpf_strict (c_g c)" "g_map6_list (c_g ?c2) = g_map6_list (c_g c)"
    using use_state_dir_conf [OF c1] by (simp_all add: upd_g_def)
  obtain e c3 where c3: "self_static ?c2 = (e, c3)" by (cases "self_static ?c2") blast
  have r: "e = ERROR_NONE \<and> c' = (if g_ipv6_offlink_mtu (c_g c3) \<le> MTU_MIN then upd_g (\<lambda>g. g\<lparr>g_ipv6_offlink_mtu := MTU_MIN\<rparr>) c3 else c3)"
    using v unfolding config_validate_def c1 option.case Let_def c3 prod.case by (simp split: if_split_asm)
  then have "own6_source (c_g ?c2) (c_g c3)" using self_static_own6 c3 by blast
  then have "own6_source (c_g c) (c_g c3)" unfolding own6_source_def g2 .
  moreover have "own6_source (c_g c) (c_g c') = own6_source (c_g c) (c_g c3)" by (rule own6_source_cong) (use r in \<open>simp_all add: upd_g_def\<close>)
  ultimately show "own6_source (c_g c) (c_g c')" by simp
  have k: "g_local_addr4 (c_g c3) = g_local_addr4 (c_g ?c2) \<and> g_wkpf_strict (c_g c3) = g_wkpf_strict (c_g ?c2)"
    using c3 by (auto simp: self_static_def alloc_map_static_def malloc_def Let_def upd_g_def split: option.splits list.splits sum.splits if_split_asm)
  show "g_local_addr4 (c_g c') = g_local_addr4 (c_g c)" "g_wkpf_strict (c_g c') = g_wkpf_strict (c_g c)" using r k g2 by simp_all
  show "g_map6_list (c_g c) \<noteq> []" using v by (auto simp: config_validate_def)
qed

text \<open>A host entry of the tables translates its two addresses into each other.\<close>

lemma self_maps4:
  assumes "table4 (g_map4_list g)" "statics_ok g" "self_mapped g"
  shows "fst (map4_slow (g_local_addr4 g) g) = Inr (g_local_addr6 g)"
proof -
  obtain s where s: "ms_map4 s \<in> set (g_map4_list g)" "g_static g (m4_obj (ms_map4 s)) = Some s" "m4_type (ms_map4 s) = MAP_TYPE_STATIC"
    "m4_addr (ms_map4 s) = g_local_addr4 g" "m4_prefix_len (ms_map4 s) = 32" "m6_addr (ms_map6 s) = g_local_addr6 g"
    "m6_prefix_len (ms_map6 s) = 128" using assms(3) by (auto simp: self_mapped_def)
  have w: "wf_map4 (ms_map4 s)" "wf_map6 (ms_map6 s)" using assms(2) s(2) by (auto simp: statics_ok_def)
  have le: "m4_prefix_len x \<le> 32" if "x \<in> set (g_map4_list g)" for x
    using assms(1) that by (simp add: table4_def wf_map4_def is_mask4_def)
  have "covers4 (ms_map4 s) (g_local_addr4 g)" using s(4,5) by (simp add: covers4_def v4.pmatch_def)
  then have "find_map4 (g_map4_list g) (g_local_addr4 g) = Some (ms_map4 s)"
    unfolding t4.find_Some_iff [OF assms(1)] using s(1,5) le by simp
  moreover have "eam_embed (ms_map4 s) (ms_map6 s) (g_local_addr4 g) = g_local_addr6 g"
    by (rule ip6_ext) (use s(5-7) eam_embed_bits [OF w] in auto)
  ultimately show ?thesis using s by (simp add: map4_slow_def Let_def)
qed

lemma self_maps6:
  assumes "table6 (g_map6_list g)" "statics_ok g"
    and s: "g_static g (m4_obj (ms_map4 s)) = Some s" "ms_map6 s \<in> set (g_map6_list g)" "m6_addr (ms_map6 s) = a"
      "m6_prefix_len (ms_map6 s) = 128" "m6_type (ms_map6 s) = MAP_TYPE_STATIC" "m4_addr (ms_map4 s) = b" "m4_prefix_len (ms_map4 s) = 32"
  shows "fst (map6_slow a d g) = Inr b"
proof -
  have w: "wf_map4 (ms_map4 s)" "wf_map6 (ms_map6 s)" "m6_obj (ms_map6 s) = m4_obj (ms_map4 s)"
    using assms(2) s(1) unfolding statics_ok_def by blast+
  have "covers6 (ms_map6 s) a" using s(3,4) by (simp add: covers6_def v6.pmatch_def)
  then have "find_map6 (g_map6_list g) a = Some (ms_map6 s)"
    unfolding t6.find_Some_iff [OF assms(1)] using s(2) table6_unique [OF assms(1)] by blast
  moreover have "eam_extract (ms_map4 s) (ms_map6 s) a = b"
    by (rule ip4_ext) (use s(4,6,7) eam_extract_bits [OF w(1,2)] in auto)
  ultimately show ?thesis using s w(3) by (simp add: map6_slow_def map6_entry_def Let_def)
qed

text \<open>Every prefix the file gives has one of the six lengths of RFC 6052.\<close>

definition prefix_lens :: "gstate \<Rightarrow> bool" where
  "prefix_lens g \<longleftrightarrow> (\<forall>m\<in>set (g_map6_list g). m6_type m = MAP_TYPE_RFC6052 \<longrightarrow> rfc6052_len (m6_prefix_len m))"

definition keeps_lens :: "directive \<Rightarrow> bool" where
  "keeps_lens f \<longleftrightarrow> (\<forall>ln args c e c'. f ln args c = (e, c') \<longrightarrow> prefix_lens (c_g c) \<longrightarrow> prefix_lens (c_g c'))"

lemma same_lens:
  "(\<And>ln args c e c'. f ln args c = (e, c') \<Longrightarrow> g_map6_list (c_g c') = g_map6_list (c_g c)) \<Longrightarrow> keeps_lens f"
  by (simp add: keeps_lens_def prefix_lens_def)

lemma malloc_map6: "malloc c = Some (i, c') \<Longrightarrow> g_map6_list (c_g c') = g_map6_list (c_g c)"
  by (auto simp: malloc_def upd_g_def split: list.splits)

lemma lens_plain:
  "keeps_lens config_ipv4_addr" "keeps_lens config_ipv6_addr" "keeps_lens config_wkpf_strict"
  "keeps_lens config_udp_cksum_mode" "keeps_lens config_tun_up" "keeps_lens config_tun_device"
  "keeps_lens config_data_dir" "keeps_lens config_map_file" "keeps_lens config_strict_fh"
  "keeps_lens config_workers" "keeps_lens config_tun_offload" "keeps_lens config_tun_steering"
  "keeps_lens config_runtime_dir"
  by (rule same_lens; auto simp: config_ipv4_addr_def config_ipv6_addr_def config_wkpf_strict_def
      config_udp_cksum_mode_def config_tun_up_def config_tun_device_def config_data_dir_def config_map_file_def
      config_strict_fh_def config_workers_def config_tun_offload_def config_tun_steering_def config_runtime_dir_def
      Let_def split: if_splits option.splits prod.splits)+

lemma lens_tun: "keeps_lens config_tun_ip" "keeps_lens config_tun_route"
  by (rule same_lens; auto simp: config_tun_ip_def config_tun_route_def malloc_map6 split: option.splits sum.splits)+

lemma lens_log: "keeps_lens config_log"
  by (rule same_lens) (auto simp: config_log_def set_log_opts_g split: if_splits)

lemma lens_mtu: "keeps_lens config_offlink_mtu"
proof (rule same_lens)
  fix ln args c e c'
  assume r: "config_offlink_mtu ln args c = (e, c')"
  obtain i rest x where s: "strtol (hd args) = (i, rest, x)" by (cases "strtol (hd args)") blast
  have "c' = c \<or> c' = upd_g (\<lambda>g. g\<lparr>g_ipv6_offlink_mtu := word_of_int i\<rparr>) c"
    using r unfolding config_offlink_mtu_def s prod.case by (simp only: prod.inject split: if_splits) blast+
  then show "g_map6_list (c_g c') = g_map6_list (c_g c)" by auto
qed

lemma lens_pool: "keeps_lens config_dynamic_pool"
  by (rule same_lens) (auto simp: config_dynamic_pool_def malloc_map6 Let_def split: if_splits option.splits sum.splits)

lemma lens_link:
  assumes "link_static m c = (e, c')" "prefix_lens (c_g c)"
    and "m6_type (ms_map6 m) = MAP_TYPE_RFC6052 \<Longrightarrow> rfc6052_len (m6_prefix_len (ms_map6 m))"
  shows "prefix_lens (c_g c')"
  using assms insert_map6_set [of "ms_map6 m"] by (fastforce simp: link_static_def prefix_lens_def split: sum.splits)

lemma lens_map: "keeps_lens config_map"
  unfolding keeps_lens_def
proof (intro allI impI)
  fix ln args c e c'
  assume r: "config_map ln args c = (e, c')" and g: "prefix_lens (c_g c)"
  show "prefix_lens (c_g c')"
  proof (cases "alloc_map_static ln c")
    case (Some a)
    then obtain i c1 where i: "malloc c = Some (i, c1)" and a: "a = (new_static i ln, c1)"
      using alloc_static_Some by (cases a) blast
    have f: "prefix_lens (c_g c1)" using g malloc_map6 [OF i] by (simp add: prefix_lens_def)
    consider "c' = c1" | m4 m6 where "map_arg6 (args ! 1) (ms_map6 (new_static i ln)) = Some m6"
        "link_static ((new_static i ln)\<lparr>ms_map4 := m4, ms_map6 := m6\<rparr>) c1 = (e, c')"
      using r unfolding config_map_def Some a Let_def prod.case option.case by (auto split: option.splits if_splits)
    then show ?thesis
    proof cases
      case 2
      then show ?thesis using lens_link [OF 2(2) f] map_arg6_wf [OF 2(1)] by (simp add: new_static_def)
    qed (simp add: f)
  qed (use r g in \<open>simp add: config_map_def\<close>)
qed

lemma lens_prefix: "keeps_lens config_prefix"
  unfolding keeps_lens_def
proof (intro allI impI)
  fix ln args c e c'
  assume r: "config_prefix ln args c = (e, c')" and g: "prefix_lens (c_g c)"
  show "prefix_lens (c_g c')"
  proof (cases "alloc_map_static ln c")
    case (Some a)
    then obtain i c1 where i: "malloc c = Some (i, c1)" and a: "a = (new_static i ln, c1)"
      using alloc_static_Some by (cases a) blast
    have f: "prefix_lens (c_g c1)" using g malloc_map6 [OF i] by (simp add: prefix_lens_def)
    let ?m = "(new_static i ln)\<lparr>ms_map4 := (ms_map4 (new_static i ln))\<lparr>m4_prefix_len := 0, m4_mask := 0, m4_type := MAP_TYPE_RFC6052\<rparr>,
      ms_map6 := (ms_map6 (new_static i ln))\<lparr>m6_type := MAP_TYPE_RFC6052\<rparr>\<rparr>"
    consider "c' = c1"
      | b n m6 where "set_map6 b n (ms_map6 ?m) = Some m6" "rfc6052_len n" "link_static (?m\<lparr>ms_map6 := m6\<rparr>) c1 = (e, c')"
      using r unfolding config_prefix_def Some a Let_def prod.case option.case
      by (auto simp: rfc6052_len_def split: option.splits if_splits)
    then show ?thesis
    proof cases
      case 2
      have "m6_prefix_len m6 = n" using 2(1) by (auto simp: set_map6_def split: prod.splits if_splits)
      then show ?thesis using lens_link [OF 2(3) f] 2(2) by simp
    qed (simp add: f)
  qed (use r g in \<open>simp add: config_prefix_def\<close>)
qed

lemma directives_lens: "\<forall>(name, f, need)\<in>set config_directives. keeps_lens f"
  by (simp add: config_directives_def lens_plain lens_tun lens_log lens_mtu lens_map lens_prefix lens_pool)

lemma config_line_lens: "config_line ln line c = (b, c') \<Longrightarrow> prefix_lens (c_g c) \<Longrightarrow> prefix_lens (c_g c')"
proof -
  assume r: "config_line ln line c = (b, c')" and g: "prefix_lens (c_g c)"
  have k: "keeps_lens f" if "List.find P config_directives = Some (n, f, k)" for P n f k
    using find_SomeD [OF that] directives_lens by fastforce
  show ?thesis
    using r g k unfolding config_line_def Let_def keeps_lens_def
    by (auto split: if_splits option.splits prod.splits)
qed

lemma config_lines_lens: "config_lines ln ls b c = (b', c') \<Longrightarrow> prefix_lens (c_g c) \<Longrightarrow> prefix_lens (c_g c')"
proof (induction ls arbitrary: ln b c)
  case (Cons l ls)
  obtain b1 c1 where l: "config_line (ln + 1) l c = (b1, c1)" by (cases "config_line (ln + 1) l c") blast
  with Cons.prems(1) have "config_lines (ln + 1) ls (b \<or> b1) c1 = (b', c')" by simp
  then show ?case using Cons.IH config_line_lens [OF l Cons.prems(2)] by blast
qed simp

lemma config_read_lens: "config_read (Some body) (config_init g0) = (e, c') \<Longrightarrow> prefix_lens (c_g c')"
proof -
  assume r: "config_read (Some body) (config_init g0) = (e, c')"
  have "prefix_lens (c_g (config_init g0))" by (simp add: prefix_lens_def config_init_def)
  then show ?thesis using r config_lines_lens by (auto simp: config_read_def split: prod.splits)
qed

lemma create_cache_fields:
  assumes "g_cache_pool g = []" "g_cache_active g = []"
  shows "g_local_addr4 (snd (create_cache b g)) = g_local_addr4 g" "g_local_addr6 (snd (create_cache b g)) = g_local_addr6 g"
    "g_map6_list (snd (create_cache b g)) = g_map6_list g" "g_static (snd (create_cache b g)) = g_static g"
  using assms by (simp_all add: create_cache_def Let_def)

text \<open>What the start leaves of the own addresses; the last case is a link-local IPv4 address without an embedding.\<close>

lemma started_own:
  assumes "setup_inv (c_g c1)" "config_validate sd c1 = (ERROR_NONE, c2)" and g: "g = snd (create_cache True (c_g c2))"
  shows "started g" "g_local_addr4 g = g_local_addr4 (c_g c1)" "own6_source (c_g c1) g"
    "fst (map4_slow (g_local_addr4 g) g) = Inr (g_local_addr6 g)"
    "a0 (g_local_addr6 (c_g c1)) \<noteq> 0 \<Longrightarrow> fst (map6_slow (g_local_addr6 g) d g) = Inr (g_local_addr4 g)"
proof -
  note s = config_validate_setup [OF assms(2,1)] and o = config_validate_own6 [OF assms(2)]
  show st: "started g" unfolding g using s started_setup by blast
  have c: "g_cache_pool (c_g c2) = []" "g_cache_active (c_g c2) = []" using s by (simp_all add: setup_inv_def)
  note f = create_cache_fields [OF c, of True]
  show 4: "g_local_addr4 g = g_local_addr4 (c_g c1)" using o(2) f by (simp add: g)
  show os: "own6_source (c_g c1) g" using o(1) unfolding g own6_source_cong [OF f(2,4,3)] .
  have t: "table4 (g_map4_list g)" "table6 (g_map6_list g)" "statics_ok g" "self_mapped g"
    using st by (simp_all add: started_def translation_inv_def store_inv_def)
  show "fst (map4_slow (g_local_addr4 g) g) = Inr (g_local_addr6 g)" by (rule self_maps4 [OF t(1,3,4)])
  show "fst (map6_slow (g_local_addr6 g) d g) = Inr (g_local_addr4 g)" if a: "a0 (g_local_addr6 (c_g c1)) \<noteq> 0"
  proof -
    obtain s where s: "g_static g (m4_obj (ms_map4 s)) = Some s" "ms_map6 s \<in> set (g_map6_list g)" "m6_addr (ms_map6 s) = g_local_addr6 g"
      "m6_prefix_len (ms_map6 s) = 128" "m6_type (ms_map6 s) = MAP_TYPE_STATIC" "m4_addr (ms_map4 s) = g_local_addr4 g" "m4_prefix_len (ms_map4 s) = 32"
      using os a 4 by (auto simp: own6_source_def)
    show ?thesis by (rule self_maps6 [OF t(2,3) s])
  qed
qed

lemma extract_bits_zero: "extract_bits in6_zero n = Some b \<Longrightarrow> b = 0"
  by (auto simp: extract_bits_def in6_zero_def s6_addr16_3_def s6_addr_def in6_words_def split: if_splits)

text \<open>The embedding in a prefix of the table can fail in two ways only.\<close>

lemma append_fails:
  "rfc6052_len n \<Longrightarrow> append_to_prefix strict a p n = Inl e \<Longrightarrow> \<not> strict \<Longrightarrow> validate_ip4_addr a \<noteq> ERROR_NONE"
  by (auto simp: append_to_prefix_def rfc6052_len_def split: if_splits)

lemma generated_own6:
  assumes "setup_inv (c_g c1)" "own6_source (c_g c1) g" "a0 (g_local_addr6 (c_g c1)) = 0"
    and "g_map6_list (c_g c1) \<noteq> []" "g_local_addr4 (c_g c1) \<noteq> 0"
    and ok: "g_wkpf_strict (c_g c1) \<or> validate_ip4_addr (g_local_addr4 (c_g c1)) = ERROR_NONE"
    and len: "prefix_lens (c_g c1)"
  shows "\<exists>p. find_map6 (g_map6_list g) (g_local_addr6 g) = Some p \<and> p = last (g_map6_list (c_g c1)) \<and> m6_type p = MAP_TYPE_RFC6052
    \<and> append_to_prefix (g_wkpf_strict (c_g c1)) (g_local_addr4 (c_g c1)) (m6_addr p) (m6_prefix_len p) = Inr (g_local_addr6 g)
    \<and> extract_bits (g_local_addr6 g) (m6_prefix_len p) = Some (g_local_addr4 (c_g c1))"
proof -
  let ?p = "last (g_map6_list (c_g c1))"
  have p: "?p \<in> set (g_map6_list (c_g c1))" using assms(4) by simp
  have t: "table6 (g_map6_list (c_g c1))" using assms(1) by (simp add: setup_inv_def)
  have q: "m6_type ?p = MAP_TYPE_RFC6052" "g_map6_list g = g_map6_list (c_g c1)"
    using assms(2,3) by (simp_all add: own6_source_def Let_def)
  obtain b where b: "append_to_prefix (g_wkpf_strict (c_g c1)) (g_local_addr4 (c_g c1)) (m6_addr ?p) (m6_prefix_len ?p) = Inr b"
    "g_local_addr6 g = b"
  proof (cases "append_to_prefix (g_wkpf_strict (c_g c1)) (g_local_addr4 (c_g c1)) (m6_addr ?p) (m6_prefix_len ?p)")
    case (Inl e)
    then have n: "\<not> g_wkpf_strict (c_g c1)" using assms(2,3) by (simp add: own6_source_def Let_def)
    then show thesis using append_fails [OF _ Inl n] ok len p q(1) by (auto simp: prefix_lens_def)
  next
    case (Inr b)
    then show thesis using that assms(2,3) by (simp add: own6_source_def Let_def)
  qed
  have w: "v6.canon (m6_addr ?p) (m6_prefix_len ?p)" using t p by (simp add: table6_def wf_map6_def)
  have "covers6 ?p b" unfolding covers6_def by (rule append_pmatch [OF b(1) w])
  then have "find_map6 (g_map6_list g) b = Some ?p"
    unfolding q(2) t6.find_Some_iff [OF t] using p table6_unique [OF t] by blast
  then show ?thesis using b extract_append_bits [OF b(1) w] q(1) by blast
qed

text \<open>
  C13. A configuration that is read and validated without an error starts the translator in its
  invariant, with both own addresses set. The IPv4 address is the configured one and translates to
  the IPv6 address. A configured ipv6-addr is the IPv6 address, and translates back. Without one it
  is the IPv4 address embedded in the configured prefix that covers it. Excepted is a
  link-local ipv4-addr without ipv6-addr when wkpf-strict is off: then the code leaves the IPv6 address unset.
\<close>

theorem configured_start:
  assumes "distinct (g_alloc g0)" "g_static g0 = (\<lambda>_. None)" "g_dyn g0 = (\<lambda>_. None)"
    and "config_read (Some body) (config_init g0) = (ERROR_NONE, c1)"
    and "config_validate sd c1 = (ERROR_NONE, c2)" and "g = snd (create_cache True (c_g c2))"
    and "a0 (g_local_addr6 (c_g c1)) \<noteq> 0 \<or> g_wkpf_strict (c_g c1) \<or> validate_ip4_addr (g_local_addr4 (c_g c1)) = ERROR_NONE"
  shows "started g \<and> g_local_addr4 g = g_local_addr4 (c_g c1) \<and> g_local_addr4 g \<noteq> 0 \<and> g_local_addr6 g \<noteq> in6_zero
    \<and> fst (map4_slow (g_local_addr4 g) g) = Inr (g_local_addr6 g)
    \<and> (if a0 (g_local_addr6 (c_g c1)) \<noteq> 0
       then g_local_addr6 g = g_local_addr6 (c_g c1) \<and> fst (map6_slow (g_local_addr6 g) False g) = Inr (g_local_addr4 g)
       else \<exists>p. find_map6 (g_map6_list g) (g_local_addr6 g) = Some p \<and> p = last (g_map6_list (c_g c1)) \<and> m6_type p = MAP_TYPE_RFC6052
         \<and> extract_bits (g_local_addr6 g) (m6_prefix_len p) = Some (g_local_addr4 g))"
proof -
  have s: "setup_inv (c_g c1)" by (rule config_read_setup [OF assms(4) setup_init [OF assms(1-3)]])
  note o = started_own [OF s assms(5,6)] and l = config_read_lens [OF assms(4)]
  have n: "g_local_addr4 g \<noteq> 0" using o(1) by (simp add: started_def)
  show ?thesis
  proof (cases "a0 (g_local_addr6 (c_g c1)) = 0")
    case False
    then have "g_local_addr6 g = g_local_addr6 (c_g c1)" using o(3) by (simp add: own6_source_def)
    then show ?thesis using False o n by (auto simp: in6_zero_def)
  next
    case True
    obtain p where p: "find_map6 (g_map6_list g) (g_local_addr6 g) = Some p" "p = last (g_map6_list (c_g c1))" "m6_type p = MAP_TYPE_RFC6052"
      "extract_bits (g_local_addr6 g) (m6_prefix_len p) = Some (g_local_addr4 g)"
      using generated_own6 [OF s o(3) True config_validate_own6(4) [OF assms(5)] _ _ l] n o(2) True assms(7) by auto
    have "g_local_addr6 g \<noteq> in6_zero" using p(4) n extract_bits_zero by fastforce
    then show ?thesis using True o n p by simp
  qed
qed

text \<open>The exception: nothing stops the start when the embedding fails.\<close>

lemma link_local_unset:
  assumes "setup_inv (c_g c1)" "config_validate sd c1 = (ERROR_NONE, c2)" "g_local_addr6 (c_g c1) = in6_zero"
    and "validate_ip4_addr (g_local_addr4 (c_g c1)) \<noteq> ERROR_NONE"
  shows "g_local_addr6 (c_g c2) = in6_zero"
proof -
  have "a0 (g_local_addr6 (c_g c1)) = 0" using assms(3) by (simp add: in6_zero_def)
  then show ?thesis
    using config_validate_own6(1) [OF assms(2)] assms(3,4) by (simp add: own6_source_def Let_def append_to_prefix_def)
qed

end
