(* ===== verification/Reload_Laws.thy ===== *)
theory Reload_Laws
  imports Reload Config_Laws
begin

text \<open>
  The reload of the map file is a transaction: a rejected file changes no mapping, an accepted one
  replaces exactly the mappings of the file, keeps the invariants and empties the cache. The
  insertions of the publication, whose results the code ignores, never fail.
\<close>

section \<open>Staged entries\<close>

lemma entry_len_le: "entry_len mx s = Some (a, n) \<Longrightarrow> n \<le> mx"
  by (auto simp: entry_len_def split: option.splits prod.splits if_splits)

definition file_entry :: "map_static \<Rightarrow> bool" where
  "file_entry m \<longleftrightarrow> static_wf (m4_obj (ms_map4 m)) m \<and> m4_type (ms_map4 m) = MAP_TYPE_STATIC
     \<and> ms_origin m = MAP_ORIGIN_MAPFILE"

lemma parse_map_entry_wf:
  assumes "parse_map_entry i ln v4 v6 = Some m"
  shows "file_entry m \<and> m4_obj (ms_map4 m) = i"
proof -
  obtain s4 n4 s6 n6 where l: "entry_len 32 v4 = Some (s4, n4)" "entry_len 128 v6 = Some (s6, n6)"
    using assms by (auto simp: parse_map_entry_def split: option.splits)
  obtain b4 b6 where a: "inet_pton4 s4 = Some b4" "inet_pton6 s6 = Some b6" "\<not> 32 - int n4 > 128 - int n6"
    using assms by (auto simp: parse_map_entry_def l split: option.splits if_splits)
  obtain r4 k4 r6 k6 where k: "calc_ip4_mask 0 (Some b4) (int n4) = (r4, k4)"
      "calc_ip6_mask in6_zero (Some b6) (int n6) = (r6, k6)" by (metis surj_pair)
  have r: "r4 = 0" "r6 = 0"
    and m: "m = \<lparr>ms_map4 = \<lparr>m4_addr = b4, m4_mask = k4, m4_prefix_len = n4, m4_type = MAP_TYPE_STATIC, m4_obj = i\<rparr>,
      ms_map6 = \<lparr>m6_addr = b6, m6_mask = k6, m6_prefix_len = n6, m6_type = MAP_TYPE_STATIC, m6_obj = i\<rparr>,
      ms_line_no = ln, ms_origin = MAP_ORIGIN_MAPFILE\<rparr>"
    using assms a by (simp_all add: parse_map_entry_def l a k split: if_split_asm)
  have n: "n4 \<le> 32" "n6 \<le> 128" using entry_len_le [OF l(1)] entry_len_le [OF l(2)] by simp_all
  have "set_map4 b4 n4 (ms_map4 m\<lparr>m4_mask := 0\<rparr>) = Some (ms_map4 m)"
    "set_map6 b6 n6 (ms_map6 m\<lparr>m6_mask := in6_zero\<rparr>) = Some (ms_map6 m)"
    by (simp_all add: set_map4_def set_map6_def m k r)
  then have "wf_map4 (ms_map4 m)" "wf_map6 (ms_map6 m)" using n set_map4_wf set_map6_wf by blast+
  then show ?thesis using a(3) n by (simp add: file_entry_def static_wf_def m)
qed

text \<open>The staged entries never collide with each other and hold identities of their own.\<close>

definition apart :: "map_static \<Rightarrow> map_static \<Rightarrow> bool" where
  "apart a b \<longleftrightarrow> \<not> (m4_prefix_len (ms_map4 a) = m4_prefix_len (ms_map4 b) \<and> m4_addr (ms_map4 a) = m4_addr (ms_map4 b))
     \<and> disjoint6 (ms_map6 a) (ms_map6 b) \<and> m4_obj (ms_map4 a) \<noteq> m4_obj (ms_map4 b)"

lemma apart_sym: "apart a b \<Longrightarrow> apart b a"
  by (auto simp: apart_def disjoint6_sym)

definition staged_ok :: "map_static list \<Rightarrow> bool" where
  "staged_ok ms \<longleftrightarrow> (\<forall>m\<in>set ms. file_entry m) \<and> sorted_wrt apart ms"

lemma staged_filter: "staged_ok ms \<Longrightarrow> staged_ok (filter P ms)"
  by (auto simp: staged_ok_def sorted_wrt_filter)

lemma stage_entry_ok:
  assumes "staged_ok ms" "file_entry m" "\<forall>x\<in>set ms. m4_obj (ms_map4 x) \<noteq> m4_obj (ms_map4 m)"
  shows "staged_ok (stage_entry m ms)"
proof -
  have "apart x m" if "x \<in> set ms" "\<not> clashes x m" for x
  proof -
    have "wf_map6 (ms_map6 x)" "wf_map6 (ms_map6 m)"
      using assms that by (simp_all add: staged_ok_def file_entry_def static_wf_def)
    then show ?thesis using that assms(3) map6_overlaps_iff by (auto simp: apart_def clashes_def)
  qed
  then show ?thesis
    using assms staged_filter [OF assms(1)] by (auto simp: staged_ok_def stage_entry_def sorted_wrt_append)
qed

definition entry_ids :: "map_static list \<Rightarrow> nat set" where
  "entry_ids ms = (\<lambda>m. m4_obj (ms_map4 m)) ` set ms"

lemma stage_lines_ok:
  "stage_lines ln ls ms ids = (r, ids') \<Longrightarrow> staged_ok ms \<Longrightarrow> distinct ids \<Longrightarrow> entry_ids ms \<inter> set ids = {}
   \<Longrightarrow> (\<exists>k. ids' = drop k ids)
     \<and> (\<forall>ms'. r = Some ms' \<longrightarrow> staged_ok ms' \<and> entry_ids ms' \<subseteq> entry_ids ms \<union> set ids \<and> entry_ids ms' \<inter> set ids' = {})"
proof (induction ln ls ms ids rule: stage_lines.induct)
  case (1 ln ms ids)
  then show ?case by (auto intro: exI [of _ 0])
next
  case (2 ln l ls ms ids)
  let ?args = "line_tokens l"
  consider "length l = 511 \<or> length ?args > 4 \<or> ?args \<noteq> [] \<and> (length ?args \<noteq> 3 \<or> \<not> strcaseeq (?args ! 0) ''map'')"
    | "length l \<noteq> 511" "\<not> length ?args > 4" "?args = []"
    | "length l \<noteq> 511" "\<not> length ?args > 4" "?args \<noteq> []" "\<not> (length ?args \<noteq> 3 \<or> \<not> strcaseeq (?args ! 0) ''map'')" by blast
  then show ?case
  proof cases
    case 1
    then show ?thesis using 2(3) by (auto simp: Let_def intro: exI [of _ 0] split: if_splits)
  next
    case c: 2
    then show ?thesis using 2(1) [OF refl refl c] 2(3-6) by (simp add: Let_def)
  next
    case c: 3
    show ?thesis
    proof (cases ids)
      case Nil
      then show ?thesis using 2(3) c by (auto simp: Let_def)
    next
      case (Cons i js)
      show ?thesis
      proof (cases "parse_map_entry i (ln + 1) (?args ! 1) (?args ! 2)")
        case None
        then have "r = None" "ids' = drop 1 ids" using 2(3) c Cons by (auto simp: Let_def)
        then show ?thesis by blast
      next
        case (Some m)
        note w = parse_map_entry_wf [OF Some]
        have "stage_lines (ln + 1) ls (stage_entry m ms) js = (r, ids')" using 2(3) c Cons Some by (simp add: Let_def)
        moreover have "staged_ok (stage_entry m ms)"
          using 2(4,6) w Cons by (intro stage_entry_ok) (auto simp: entry_ids_def image_iff)
        moreover have e: "entry_ids (stage_entry m ms) \<subseteq> insert i (entry_ids ms)"
          using w by (auto simp: entry_ids_def stage_entry_def)
        moreover have "entry_ids (stage_entry m ms) \<inter> set js = {}" "distinct js" using e 2(5,6) Cons by auto
        ultimately obtain k where k: "ids' = drop k js"
          and r: "\<forall>ms'. r = Some ms' \<longrightarrow> staged_ok ms' \<and> entry_ids ms' \<subseteq> entry_ids (stage_entry m ms) \<union> set js
            \<and> entry_ids ms' \<inter> set ids' = {}"
          using 2(2) [OF refl refl c Cons Some] by blast
        have "ids' = drop (Suc k) ids" using k Cons by simp
        moreover have "entry_ids (stage_entry m ms) \<union> set js \<subseteq> entry_ids ms \<union> set ids" using e Cons by auto
        ultimately show ?thesis using r by blast
      qed
    qed
  qed
qed

section \<open>Removal of the old mappings\<close>

definition drop_ids :: "nat set \<Rightarrow> gstate \<Rightarrow> gstate" where
  "drop_ids F g = g\<lparr>g_map4_list := filter (\<lambda>m. m4_obj m \<notin> F) (g_map4_list g),
     g_map6_list := filter (\<lambda>m. m6_obj m \<notin> F) (g_map6_list g), g_static := (g_static g) |` (- F)\<rparr>"

lemma drop_ids_empty [simp]: "drop_ids {} g = g"
proof -
  have "g_static g |` (- {}) = g_static g" by (simp add: restrict_map_def)
  then show ?thesis unfolding drop_ids_def by simp
qed

lemma drop_ids_drop: "drop_ids E (drop_ids F g) = drop_ids (E \<union> F) g"
  by (simp add: drop_ids_def conj_commute Int_commute)

lemma drop_ids_statics: "statics_ok g \<Longrightarrow> statics_ok (drop_ids F g)"
  by (auto simp: statics_ok_def drop_ids_def restrict_map_def split: if_splits)

lemma drop_ids_store:
  assumes "store_inv g"
  shows "store_inv (drop_ids F g)"
proof -
  have st: "statics_ok g" "ids_free g" "leases_own g" "file_both g" using assms by (simp_all add: store_inv_def)
  have "ids_free (drop_ids F g)" using st(2) by (simp add: ids_free_def drop_ids_def restrict_map_def)
  moreover have "leases_own (drop_ids F g)"
    using st(3) unfolding leases_own_def drop_ids_def restrict_map_def by simp blast
  moreover have "file_both (drop_ids F g)"
  proof -
    have "m4_obj (ms_map4 s) = m6_obj m" if "g_static g (m6_obj m) = Some s" for m s
      using st(1) that unfolding statics_ok_def by metis
    then show ?thesis using st(4) unfolding file_both_def drop_ids_def restrict_map_def by (auto split: if_splits)
  qed
  ultimately show ?thesis using drop_ids_statics [OF st(1)] by (simp add: store_inv_def)
qed

lemma drop_ids_file: "is_file_map4 (drop_ids F g) m \<longleftrightarrow> is_file_map4 g m \<and> m4_obj m \<notin> F"
  by (auto simp: is_file_map4_def from_file_def drop_ids_def restrict_map_def)

lemma remove_file_map_drop:
  assumes "statics_ok g" "is_file_map4 g m"
  shows "remove_file_map m g = drop_ids {m4_obj m} g"
proof -
  obtain s where s: "g_static g (m4_obj m) = Some s"
    using assms(2) by (auto simp: is_file_map4_def from_file_def split: option.splits)
  have o: "m4_obj (ms_map4 s) = m4_obj m" "m6_obj (ms_map6 s) = m4_obj m"
    using assms(1) s by (auto simp: statics_ok_def)
  have 4: "x = ms_map4 s \<longleftrightarrow> m4_obj x = m4_obj m" if "x \<in> set (g_map4_list g)" for x
    using assms(1) s o(1) that unfolding statics_ok_def by metis
  have 6: "x = ms_map6 s \<longleftrightarrow> m6_obj x = m4_obj m" if "x \<in> set (g_map6_list g)" for x
    using assms(1) s o(2) that unfolding statics_ok_def by metis
  have "list_del (ms_map4 s) (g_map4_list g) = filter (\<lambda>x. m4_obj x \<notin> {m4_obj m}) (g_map4_list g)"
    unfolding list_del_def by (rule filter_cong [OF refl]) (use 4 in simp)
  moreover have "list_del (ms_map6 s) (g_map6_list g) = filter (\<lambda>x. m6_obj x \<notin> {m4_obj m}) (g_map6_list g)"
    unfolding list_del_def by (rule filter_cong [OF refl]) (use 6 in simp)
  moreover have "(g_static g)(m4_obj m := None) = g_static g |` (- {m4_obj m})"
    by (auto simp: restrict_map_def)
  ultimately show ?thesis using assms(2) s by (simp add: remove_file_map_def drop_ids_def)
qed

lemma remove_fold:
  "statics_ok g \<Longrightarrow> fold remove_file_map ms g = drop_ids {m4_obj m | m. m \<in> set ms \<and> is_file_map4 g m} g"
proof (induction ms arbitrary: g)
  case (Cons m ms)
  show ?case
  proof (cases "is_file_map4 g m")
    case True
    note r = remove_file_map_drop [OF Cons.prems True]
    have "fold remove_file_map (m # ms) g
        = drop_ids {m4_obj x | x. x \<in> set ms \<and> is_file_map4 (drop_ids {m4_obj m} g) x} (drop_ids {m4_obj m} g)"
      using Cons.IH [OF drop_ids_statics [OF Cons.prems]] by (simp add: r)
    also have "\<dots> = drop_ids {m4_obj x | x. x \<in> set (m # ms) \<and> is_file_map4 g x} g"
      unfolding drop_ids_drop by (rule arg_cong [where f = "\<lambda>F. drop_ids F g"]) (use True in \<open>auto simp: drop_ids_file\<close>)
    finally show ?thesis .
  next
    case False
    then have "remove_file_map m g = g" by (simp add: remove_file_map_def)
    moreover have "{m4_obj x | x. x \<in> set (m # ms) \<and> is_file_map4 g x} = {m4_obj x | x. x \<in> set ms \<and> is_file_map4 g x}"
      using False by auto
    ultimately show ?thesis using Cons by simp
  qed
qed simp

lemma removed_tables:
  assumes "store_inv g"
  shows "fold remove_file_map (g_map4_list g) g =
    g\<lparr>g_map4_list := filter (\<lambda>m. \<not> is_file_map4 g m) (g_map4_list g),
      g_map6_list := filter (\<lambda>m. \<not> is_file_map6 g m) (g_map6_list g),
      g_static := g_static g |` (- {m4_obj m | m. m \<in> set (g_map4_list g) \<and> is_file_map4 g m})\<rparr>"
proof -
  let ?F = "{m4_obj m | m. m \<in> set (g_map4_list g) \<and> is_file_map4 g m}"
  have st: "statics_ok g" "file_both g" using assms by (simp_all add: store_inv_def)
  have 4: "m4_obj x \<in> ?F \<longleftrightarrow> is_file_map4 g x" if "x \<in> set (g_map4_list g)" for x
  proof
    assume "m4_obj x \<in> ?F"
    then obtain m where m: "m4_obj m = m4_obj x" "m \<in> set (g_map4_list g)" "is_file_map4 g m" by auto
    then obtain s where "g_static g (m4_obj x) = Some s" by (auto simp: is_file_map4_def from_file_def split: option.splits)
    then have "ms_map4 s = m" "ms_map4 s = x" using st(1) m that unfolding statics_ok_def by metis+
    then show "is_file_map4 g x" using m by simp
  qed (use that in auto)
  have 6: "m6_obj x \<in> ?F \<longleftrightarrow> is_file_map6 g x" if x: "x \<in> set (g_map6_list g)" for x
  proof
    assume "m6_obj x \<in> ?F"
    then obtain m where m: "m4_obj m = m6_obj x" "m \<in> set (g_map4_list g)" "is_file_map4 g m" by auto
    then obtain s where s: "g_static g (m6_obj x) = Some s" "ms_origin s = MAP_ORIGIN_MAPFILE" "m4_type m = MAP_TYPE_STATIC"
      by (auto simp: is_file_map4_def from_file_def split: option.splits)
    have "ms_map4 s = m" "ms_map6 s = x" "m4_type (ms_map4 s) = m6_type (ms_map6 s)"
      using st(1) m x s(1) unfolding statics_ok_def by metis+
    then show "is_file_map6 g x" using s by (simp add: is_file_map6_def from_file_def)
  next
    assume f: "is_file_map6 g x"
    then obtain s where s: "g_static g (m6_obj x) = Some s" "ms_origin s = MAP_ORIGIN_MAPFILE"
      by (auto simp: is_file_map6_def from_file_def split: option.splits)
    then have l: "ms_map4 s \<in> set (g_map4_list g)" using st(2) x by (simp add: file_both_def)
    have "m4_obj (ms_map4 s) = m6_obj x" "ms_map6 s = x" "m4_type (ms_map4 s) = m6_type (ms_map6 s)"
      using st(1) x s(1) unfolding statics_ok_def by metis+
    then have "is_file_map4 g (ms_map4 s)" using f by (simp add: is_file_map4_def is_file_map6_def from_file_def s)
    with l \<open>m4_obj (ms_map4 s) = m6_obj x\<close> show "m6_obj x \<in> ?F" by force
  qed
  have "filter (\<lambda>m. m4_obj m \<notin> ?F) (g_map4_list g) = filter (\<lambda>m. \<not> is_file_map4 g m) (g_map4_list g)"
    by (rule filter_cong [OF refl]) (simp only: 4)
  moreover have "filter (\<lambda>m. m6_obj m \<notin> ?F) (g_map6_list g) = filter (\<lambda>m. \<not> is_file_map6 g m) (g_map6_list g)"
    by (rule filter_cong [OF refl]) (simp only: 6)
  ultimately show ?thesis unfolding remove_fold [OF st(1)] drop_ids_def by (simp only:)
qed

section \<open>Installation of the new mappings\<close>

text \<open>An entry that collides with nothing in the two lists, and whose identity is in neither.\<close>

definition admissible :: "gstate \<Rightarrow> map_static \<Rightarrow> bool" where
  "admissible g m \<longleftrightarrow> file_entry m \<and> fresh_id (m4_obj (ms_map4 m)) g
     \<and> (\<forall>f\<in>set (g_map4_list g). \<not> (m4_prefix_len f = m4_prefix_len (ms_map4 m) \<and> m4_addr f = m4_addr (ms_map4 m)))
     \<and> (\<forall>f\<in>set (g_map6_list g). disjoint6 f (ms_map6 m))"

definition tables_ok :: "gstate \<Rightarrow> bool" where
  "tables_ok g \<longleftrightarrow> table4 (g_map4_list g) \<and> table6 (g_map6_list g) \<and> store_inv g"

lemma install_one:
  assumes t: "tables_ok g" and m: "admissible g m"
  shows "\<exists>l4 l6. install m g = g\<lparr>g_map4_list := l4, g_map6_list := l6, g_static := (g_static g)(m4_obj (ms_map4 m) := Some m)\<rparr>
    \<and> set l4 = insert (ms_map4 m) (set (g_map4_list g)) \<and> set l6 = insert (ms_map6 m) (set (g_map6_list g))"
    and "tables_ok (install m g)"
proof -
  have w: "static_wf (m4_obj (ms_map4 m)) m" "wf_map4 (ms_map4 m)" "wf_map6 (ms_map6 m)"
    using m by (auto simp: admissible_def file_entry_def static_wf_def)
  have "List.find (\<lambda>s. m4_prefix_len s = m4_prefix_len (ms_map4 m) \<and> m4_addr s = m4_addr (ms_map4 m)) (g_map4_list g) = None"
    using m by (auto simp: admissible_def find_None_iff)
  then obtain l4 where l4: "insert_map4 (ms_map4 m) (g_map4_list g) = Inr l4" by (simp add: insert_map4_eq)
  have "List.find (conflict6 (ms_map6 m)) (g_map6_list g) = None"
    using m t w(3) conflict6_iff [of "ms_map6 m"] disjoint6_sym
    by (auto simp: admissible_def find_None_iff tables_ok_def table6_def)
  then obtain l6 where l6: "insert_map6 (ms_map6 m) (g_map6_list g) = Inr l6" by (simp add: insert_map6_eq)
  note s = insert_map4_set [OF l4] insert_map6_set [OF l6]
  have e: "install m g = g\<lparr>g_map4_list := l4, g_map6_list := l6, g_static := (g_static g)(m4_obj (ms_map4 m) := Some m)\<rparr>"
    by (simp add: install_def l4 l6)
  then show "\<exists>l4 l6. install m g = g\<lparr>g_map4_list := l4, g_map6_list := l6, g_static := (g_static g)(m4_obj (ms_map4 m) := Some m)\<rparr>
    \<and> set l4 = insert (ms_map4 m) (set (g_map4_list g)) \<and> set l6 = insert (ms_map6 m) (set (g_map6_list g))" using s by blast
  have "table4 l4" "table6 l6" using insert_map4_table [OF _ w(2) l4] insert_map6_table [OF _ w(3) l6] t by (simp_all add: tables_ok_def)
  moreover have "store_inv (install m g)"
    unfolding e by (rule store_add) (use t m w s in \<open>simp_all add: tables_ok_def admissible_def\<close>)
  ultimately show "tables_ok (install m g)" by (simp add: tables_ok_def e)
qed

lemma admissible_install:
  assumes "tables_ok g" "admissible g m" "admissible g x" "apart m x"
  shows "admissible (install m g) x"
proof -
  obtain l4 l6 where i: "install m g = g\<lparr>g_map4_list := l4, g_map6_list := l6, g_static := (g_static g)(m4_obj (ms_map4 m) := Some m)\<rparr>"
    "set l4 = insert (ms_map4 m) (set (g_map4_list g))" "set l6 = insert (ms_map6 m) (set (g_map6_list g))"
    using install_one(1) [OF assms(1,2)] by blast
  have "m6_obj (ms_map6 m) = m4_obj (ms_map4 m)" using assms(2) by (simp add: admissible_def file_entry_def static_wf_def)
  then show ?thesis using assms(3,4) by (auto simp: admissible_def i apart_def fresh_id_def)
qed

lemma install_fold:
  "tables_ok g \<Longrightarrow> \<forall>m\<in>set ms. admissible g m \<Longrightarrow> sorted_wrt apart ms \<Longrightarrow>
   \<exists>l4 l6 st. fold install ms g = g\<lparr>g_map4_list := l4, g_map6_list := l6, g_static := st\<rparr>
     \<and> set l4 = set (g_map4_list g) \<union> ms_map4 ` set ms \<and> set l6 = set (g_map6_list g) \<union> ms_map6 ` set ms
     \<and> (\<forall>i. i \<notin> entry_ids ms \<longrightarrow> st i = g_static g i) \<and> (\<forall>m\<in>set ms. st (m4_obj (ms_map4 m)) = Some m)
     \<and> tables_ok (fold install ms g)"
proof (induction ms arbitrary: g)
  case Nil
  then show ?case
    by (intro exI [of _ "g_map4_list g"] exI [of _ "g_map6_list g"] exI [of _ "g_static g"]) simp
next
  case (Cons m ms)
  have a: "admissible g m" using Cons.prems by simp
  obtain l4 l6 where i: "install m g = g\<lparr>g_map4_list := l4, g_map6_list := l6, g_static := (g_static g)(m4_obj (ms_map4 m) := Some m)\<rparr>"
    "set l4 = insert (ms_map4 m) (set (g_map4_list g))" "set l6 = insert (ms_map6 m) (set (g_map6_list g))"
    using install_one(1) [OF Cons.prems(1) a] by blast
  have "\<forall>x\<in>set ms. admissible (install m g) x" using admissible_install [OF Cons.prems(1) a] Cons.prems by auto
  with Cons.IH [OF install_one(2) [OF Cons.prems(1) a]] Cons.prems(3)
  obtain k4 k6 st where k: "fold install ms (install m g) = (install m g)\<lparr>g_map4_list := k4, g_map6_list := k6, g_static := st\<rparr>"
      "set k4 = set (g_map4_list (install m g)) \<union> ms_map4 ` set ms" "set k6 = set (g_map6_list (install m g)) \<union> ms_map6 ` set ms"
      "\<forall>i. i \<notin> entry_ids ms \<longrightarrow> st i = g_static (install m g) i" "\<forall>m\<in>set ms. st (m4_obj (ms_map4 m)) = Some m"
      "tables_ok (fold install ms (install m g))"
    by auto
  have "m4_obj (ms_map4 m) \<notin> entry_ids ms" using Cons.prems(3) by (auto simp: apart_def entry_ids_def)
  then have "st (m4_obj (ms_map4 m)) = Some m" using k(4) by (simp add: i)
  moreover have "\<forall>j. j \<notin> entry_ids (m # ms) \<longrightarrow> st j = g_static g j" using k(4) by (simp add: i entry_ids_def)
  ultimately show ?case using k i by (intro exI [of _ k4] exI [of _ k6] exI [of _ st]) auto
qed

section \<open>The cache\<close>

lemma retire_dyn: "dyn_same g (retire c g) \<and> g_alloc (retire c g) = g_alloc g"
proof -
  have "dyn_same g (report_ageout c g) \<and> g_alloc (report_ageout c g) = g_alloc g"
    using set_d_same by (auto simp: report_ageout_def set_d_def split: option.splits)
  then show ?thesis by (auto simp: retire_def unhash_def Let_def dyn_same_def)
qed

lemma flush_fold:
  "cache_inv g \<Longrightarrow> set cs \<subseteq> set (g_cache_active g) \<Longrightarrow> distinct cs \<Longrightarrow>
    cache_inv (fold retire cs g) \<and> set (g_cache_active (fold retire cs g)) = set (g_cache_active g) - set cs
    \<and> dyn_same g (fold retire cs g) \<and> g_alloc (fold retire cs g) = g_alloc g
    \<and> g_map4_list (fold retire cs g) = g_map4_list g \<and> g_map6_list (fold retire cs g) = g_map6_list g
    \<and> g_static (fold retire cs g) = g_static g \<and> g_dynamic_pool (fold retire cs g) = g_dynamic_pool g"
proof (induction cs arbitrary: g)
  case (Cons c cs)
  have c: "c \<in> set (g_cache_active g)" using Cons.prems by simp
  have "set cs \<subseteq> set (g_cache_active (retire c g))" "distinct cs" using Cons.prems by (auto simp: retire_fields)
  from Cons.IH [OF retire_inv(1) [OF Cons.prems(1) c] this] retire_dyn [of g c]
  show ?case using dyn_same_trans by (auto simp: retire_fields)
qed simp

lemma flush_cache_inv:
  assumes "cache_inv g"
  shows "cache_inv (flush_cache g)" "cache_pairs (flush_cache g) = {}" "dyn_same g (flush_cache g)"
    "g_alloc (flush_cache g) = g_alloc g" "g_map4_list (flush_cache g) = g_map4_list g"
    "g_map6_list (flush_cache g) = g_map6_list g" "g_static (flush_cache g) = g_static g"
    "g_dynamic_pool (flush_cache g) = g_dynamic_pool g"
  using flush_fold [OF assms, of "g_cache_active g"] assms
  by (simp_all add: flush_cache_def cache_inv_def cache_pairs_def)

section \<open>The transaction\<close>

text \<open>The staged entries of a file that parses, and those that are published.\<close>

definition staged_of :: "string \<Rightarrow> gstate \<Rightarrow> map_static list option" where
  "staged_of text g = fst (stage_lines 0 (file_lines text) [] (g_alloc g))"

definition published :: "gstate \<Rightarrow> map_static list \<Rightarrow> map_static set" where
  "published g ms = {m \<in> set ms. \<not> fixed_conflict g m}"

lemma alloc_file [simp]:
  "is_file_map4 (g\<lparr>g_alloc := ids\<rparr>) = is_file_map4 g" "is_file_map6 (g\<lparr>g_alloc := ids\<rparr>) = is_file_map6 g"
  "fixed_conflict (g\<lparr>g_alloc := ids\<rparr>) = fixed_conflict g"
  by (auto simp: is_file_map4_def is_file_map6_def from_file_def fixed_conflict_def fun_eq_iff)

text \<open>The state between the removal and the installation.\<close>

definition cleared :: "nat \<Rightarrow> gstate \<Rightarrow> gstate" where
  "cleared k g = fold remove_file_map (g_map4_list g) (g\<lparr>g_alloc := drop k (g_alloc g)\<rparr>)"

lemma cleared_fields:
  assumes "store_inv g"
  shows "g_map4_list (cleared k g) = filter (\<lambda>m. \<not> is_file_map4 g m) (g_map4_list g)"
    "g_map6_list (cleared k g) = filter (\<lambda>m. \<not> is_file_map6 g m) (g_map6_list g)"
    "g_static (cleared k g) = g_static g |` (- {m4_obj m | m. m \<in> set (g_map4_list g) \<and> is_file_map4 g m})"
    "g_alloc (cleared k g) = drop k (g_alloc g)" "g_dyn (cleared k g) = g_dyn g"
    "g_dynamic_pool (cleared k g) = g_dynamic_pool g"
    "g_local_addr4 (cleared k g) = g_local_addr4 g" "g_local_addr6 (cleared k g) = g_local_addr6 g"
    "cache_inv (cleared k g) = cache_inv g"
proof -
  note r = removed_tables [OF store_drop [OF assms, of k]]
  have c: "cleared k g = g\<lparr>g_alloc := drop k (g_alloc g), g_map4_list := filter (\<lambda>m. \<not> is_file_map4 g m) (g_map4_list g),
      g_map6_list := filter (\<lambda>m. \<not> is_file_map6 g m) (g_map6_list g),
      g_static := g_static g |` (- {m4_obj m | m. m \<in> set (g_map4_list g) \<and> is_file_map4 g m})\<rparr>"
    using r by (simp add: cleared_def)
  show "g_map4_list (cleared k g) = filter (\<lambda>m. \<not> is_file_map4 g m) (g_map4_list g)"
    "g_map6_list (cleared k g) = filter (\<lambda>m. \<not> is_file_map6 g m) (g_map6_list g)"
    "g_static (cleared k g) = g_static g |` (- {m4_obj m | m. m \<in> set (g_map4_list g) \<and> is_file_map4 g m})"
    "g_alloc (cleared k g) = drop k (g_alloc g)" "g_dyn (cleared k g) = g_dyn g"
    "g_dynamic_pool (cleared k g) = g_dynamic_pool g"
    "g_local_addr4 (cleared k g) = g_local_addr4 g" "g_local_addr6 (cleared k g) = g_local_addr6 g"
    by (simp_all only: c) simp_all
  show "cache_inv (cleared k g) = cache_inv g"
    by (rule cache_cong) (simp_all add: c hash_ip4_def hash_ip6_def ent4_def ent6_def fun_eq_iff)
qed

lemma cleared_tables: "store_inv g \<Longrightarrow> table4 (g_map4_list g) \<Longrightarrow> table6 (g_map6_list g) \<Longrightarrow> tables_ok (cleared k g)"
proof -
  assume g: "store_inv g" "table4 (g_map4_list g)" "table6 (g_map6_list g)"
  have "statics_ok (g\<lparr>g_alloc := drop k (g_alloc g)\<rparr>)" using store_drop [OF g(1), of k] by (simp add: store_inv_def)
  then have "store_inv (cleared k g)"
    unfolding cleared_def by (simp add: remove_fold drop_ids_store store_drop [OF g(1)])
  then show ?thesis using g by (simp add: tables_ok_def cleared_fields table4_filter table6_filter)
qed

lemma published_admissible:
  assumes g: "store_inv g" "table6 (g_map6_list g)" and ms: "staged_ok ms" "entry_ids ms \<subseteq> set (g_alloc g)"
    and k: "entry_ids ms \<inter> set (drop k (g_alloc g)) = {}" and m: "m \<in> published g ms"
  shows "admissible (cleared k g) m"
proof -
  have m': "m \<in> set ms" "\<not> fixed_conflict g m" "file_entry m" "wf_map6 (ms_map6 m)" "m4_obj (ms_map4 m) \<in> set (g_alloc g)"
    "m4_obj (ms_map4 m) \<notin> set (drop k (g_alloc g))"
    using m ms k by (auto simp: published_def staged_ok_def entry_ids_def file_entry_def static_wf_def)
  have 6: "disjoint6 f (ms_map6 m)" if "f \<in> set (g_map6_list g)" "\<not> is_file_map6 g f" for f
  proof -
    have "\<not> map6_overlaps f (ms_map6 m)" using m'(2) that by (auto simp: fixed_conflict_def list_ex_iff)
    moreover have "wf_map6 f" using g(2) that(1) by (simp add: table6_def)
    ultimately show ?thesis using map6_overlaps_iff m'(4) by blast
  qed
  show ?thesis
    using m' g(1) 6
    by (auto simp: admissible_def cleared_fields fixed_conflict_def list_ex_iff store_inv_def ids_free_def
        restrict_map_def fresh_id_def dest: in_set_dropD)
qed

text \<open>What a publication leaves: the new tables and everything that stays.\<close>

lemma publish_shape:
  assumes g: "translation_inv g" and ms: "staged_ok ms" "entry_ids ms \<subseteq> set (g_alloc g)"
    and k: "entry_ids ms \<inter> set (drop k (g_alloc g)) = {}"
  obtains l4 l6 st g1 where "publish_maps ms (g\<lparr>g_alloc := drop k (g_alloc g)\<rparr>) = flush_cache g1"
    "g1 = (cleared k g)\<lparr>g_map4_list := l4, g_map6_list := l6, g_static := st\<rparr>" "tables_ok g1"
    "set l4 = {m \<in> set (g_map4_list g). \<not> is_file_map4 g m} \<union> ms_map4 ` published g ms"
    "set l6 = {m \<in> set (g_map6_list g). \<not> is_file_map6 g m} \<union> ms_map6 ` published g ms"
    "\<forall>i. i \<notin> entry_ids ms \<longrightarrow> st i = g_static (cleared k g) i"
    "\<forall>m\<in>published g ms. st (m4_obj (ms_map4 m)) = Some m"
    "\<forall>i. st i = g_static (cleared k g) i \<or> (\<exists>m\<in>published g ms. st i = Some m)"
proof -
  let ?ms = "filter (\<lambda>m. \<not> fixed_conflict g m) ms"
  have t: "table4 (g_map4_list g)" "table6 (g_map6_list g)" "store_inv g" using g by (simp_all add: translation_inv_def)
  have p: "set ?ms = published g ms" by (auto simp: published_def)
  have "\<forall>m\<in>set ?ms. admissible (cleared k g) m" using published_admissible [OF t(3,2) ms k] p by simp
  moreover have "sorted_wrt apart ?ms" using ms(1) by (simp add: staged_ok_def sorted_wrt_filter)
  ultimately obtain l4 l6 st where f: "fold install ?ms (cleared k g) = (cleared k g)\<lparr>g_map4_list := l4, g_map6_list := l6, g_static := st\<rparr>"
      "set l4 = set (g_map4_list (cleared k g)) \<union> ms_map4 ` set ?ms" "set l6 = set (g_map6_list (cleared k g)) \<union> ms_map6 ` set ?ms"
      "\<forall>i. i \<notin> entry_ids ?ms \<longrightarrow> st i = g_static (cleared k g) i" "\<forall>m\<in>set ?ms. st (m4_obj (ms_map4 m)) = Some m"
      "tables_ok (fold install ?ms (cleared k g))"
    using install_fold [OF cleared_tables [OF t(3,1,2)]] by blast
  have e: "entry_ids ?ms \<subseteq> entry_ids ms" by (auto simp: entry_ids_def)
  have st: "st i = g_static (cleared k g) i \<or> (\<exists>m\<in>published g ms. st i = Some m)" for i
    using f(4,5) p by (cases "i \<in> entry_ids ?ms") (auto simp: entry_ids_def)
  show thesis
    by (rule that [of "fold install ?ms (cleared k g)" st l6 l4])
      (use f p e st cleared_fields(1,2) [OF t(3)] in \<open>auto simp: publish_maps_def Let_def cleared_def\<close>)
qed

lemma publish_spec:
  assumes g: "translation_inv g" and ms: "staged_ok ms" "entry_ids ms \<subseteq> set (g_alloc g)"
    and k: "entry_ids ms \<inter> set (drop k (g_alloc g)) = {}"
  defines "g' \<equiv> publish_maps ms (g\<lparr>g_alloc := drop k (g_alloc g)\<rparr>)"
  shows "translation_inv g'" "cache_pairs g' = {}"
    "set (g_map4_list g') = {m \<in> set (g_map4_list g). \<not> is_file_map4 g m} \<union> ms_map4 ` published g ms"
    "set (g_map6_list g') = {m \<in> set (g_map6_list g). \<not> is_file_map6 g m} \<union> ms_map6 ` published g ms"
proof -
  obtain l4 l6 st g1 where f: "g' = flush_cache g1"
      "g1 = (cleared k g)\<lparr>g_map4_list := l4, g_map6_list := l6, g_static := st\<rparr>" "tables_ok g1"
      "set l4 = {m \<in> set (g_map4_list g). \<not> is_file_map4 g m} \<union> ms_map4 ` published g ms"
      "set l6 = {m \<in> set (g_map6_list g). \<not> is_file_map6 g m} \<union> ms_map6 ` published g ms"
      "\<forall>i. i \<notin> entry_ids ms \<longrightarrow> st i = g_static (cleared k g) i"
      "\<forall>m\<in>published g ms. st (m4_obj (ms_map4 m)) = Some m"
      "\<forall>i. st i = g_static (cleared k g) i \<or> (\<exists>m\<in>published g ms. st i = Some m)"
    unfolding g'_def by (rule publish_shape [OF g ms k])
  have c1: "cache_inv g1"
  proof -
    have "cache_inv g1 = cache_inv (cleared k g)"
      by (rule cache_cong) (simp_all add: f(2) hash_ip4_def hash_ip6_def ent4_def ent6_def fun_eq_iff)
    then show ?thesis using g by (simp add: cleared_fields translation_inv_def)
  qed
  have st: "store_inv g" using g by (simp add: translation_inv_def)
  note fl = flush_cache_inv [OF c1]
  have a1: "g_alloc g1 = drop k (g_alloc g)" "g_dyn g1 = g_dyn g" "g_dynamic_pool g1 = g_dynamic_pool g"
    "g_map4_list g1 = l4" "g_map6_list g1 = l6" "g_static g1 = st"
    using st by (simp_all add: f(2) cleared_fields)
  have "pool_inv g1"
  proof (cases "g_dynamic_pool g")
    case (Some p)
    have d: "dyn_same g (g1\<lparr>g_alloc := g_alloc g\<rparr>)" by (simp add: dyn_same_def a1)
    have "pool_shape g p" using g Some by (simp add: translation_inv_def pool_inv_def)
    then have "pool_shape (g1\<lparr>g_alloc := g_alloc g\<rparr>) p" using dyn_same_shape [OF d] by simp
    moreover have "free_at (g1\<lparr>g_alloc := g_alloc g\<rparr>) = free_at g1" "lease_ok (g1\<lparr>g_alloc := g_alloc g\<rparr>) = lease_ok g1"
      by (auto simp: free_at_def lease_ok_def fun_eq_iff split: free_ref.split)
    ultimately have "pool_shape g1 p"
      using set_drop_subset [of k "g_alloc g"] distinct_drop [of "g_alloc g" k] a1(1)
      unfolding pool_shape_def pool_core_def by auto
    then show ?thesis using Some a1(3) by (simp add: pool_inv_def)
  qed (simp add: pool_inv_def a1)
  then have "pool_inv g'" using dyn_same_pool_inv [OF fl(3,4,8)] f(1) by simp
  moreover have "store_inv g' = store_inv g1"
    by (rule store_cong) (simp_all add: f(1) fl dyn_same_maps [OF fl(3)])
  ultimately show "translation_inv g'" using fl f(1,3) by (simp add: translation_inv_def tables_ok_def)
  show "cache_pairs g' = {}" using fl f(1) by simp
  show "set (g_map4_list g') = {m \<in> set (g_map4_list g). \<not> is_file_map4 g m} \<union> ms_map4 ` published g ms"
    "set (g_map6_list g') = {m \<in> set (g_map6_list g). \<not> is_file_map6 g m} \<union> ms_map6 ` published g ms"
    using fl f(1,4,5) a1 by simp_all
qed

lemma staged_of_ok:
  assumes "store_inv g" "stage_lines 0 ls [] (g_alloc g) = (r, ids)"
  shows "\<exists>k. ids = drop k (g_alloc g)"
    and "r = Some ms \<Longrightarrow> staged_ok ms \<and> entry_ids ms \<subseteq> set (g_alloc g) \<and> entry_ids ms \<inter> set ids = {}"
  using stage_lines_ok [OF assms(2)] assms(1) by (auto simp: staged_ok_def entry_ids_def store_inv_def ids_free_def)

lemma rejected_state:
  assumes e: "fst (addrmap_reload map_file content io_ok g) \<noteq> ERROR_NONE"
  shows "\<exists>ids. snd (addrmap_reload map_file content io_ok g) = g\<lparr>g_alloc := ids\<rparr>
    \<and> (ids = g_alloc g \<or> (\<exists>ls r. stage_lines 0 ls [] (g_alloc g) = (r, ids)))"
proof (cases "map_file \<and> content \<noteq> None")
  case True
  then obtain c where t: "content = Some c" by blast
  obtain r ids where l: "stage_lines 0 (file_lines c) [] (g_alloc g) = (r, ids)" by (meson surj_pair)
  have "snd (addrmap_reload map_file content io_ok g) = g\<lparr>g_alloc := ids\<rparr>"
  proof (cases r)
    case None
    then show ?thesis using True by (simp add: addrmap_reload_def t l Let_def)
  next
    case (Some ms)
    then have "\<not> io_ok" using e True by (simp add: addrmap_reload_def t l Let_def split: if_splits)
    then show ?thesis using Some True by (simp add: addrmap_reload_def t l Let_def)
  qed
  then show ?thesis using l by blast
next
  case False
  then have "snd (addrmap_reload map_file content io_ok g) = g\<lparr>g_alloc := g_alloc g\<rparr>"
    by (auto simp: addrmap_reload_def split: option.splits)
  then show ?thesis by blast
qed

lemma accepted_state:
  assumes "translation_inv g" "addrmap_reload True (Some text) io_ok g = (ERROR_NONE, g')"
  shows "\<exists>staged. staged_of text g = Some staged
    \<and> set (g_map4_list g') = {m \<in> set (g_map4_list g). \<not> is_file_map4 g m} \<union> ms_map4 ` published g staged
    \<and> set (g_map6_list g') = {m \<in> set (g_map6_list g). \<not> is_file_map6 g m} \<union> ms_map6 ` published g staged
    \<and> translation_inv g' \<and> cache_pairs g' = {}"
proof -
  obtain r ids where l: "stage_lines 0 (file_lines text) [] (g_alloc g) = (r, ids)" by (meson surj_pair)
  then obtain ms where r: "r = Some ms" and g': "g' = publish_maps ms (g\<lparr>g_alloc := ids\<rparr>)"
    using assms(2) by (auto simp: addrmap_reload_def Let_def split: option.splits if_splits)
  have st: "store_inv g" using assms(1) by (simp add: translation_inv_def)
  obtain k where k: "ids = drop k (g_alloc g)" using staged_of_ok(1) [OF st l] by blast
  note m = staged_of_ok(2) [OF st l r]
  have d: "entry_ids ms \<inter> set (drop k (g_alloc g)) = {}" using m k by simp
  have "staged_of text g = Some ms" by (simp add: staged_of_def l r)
  then show ?thesis using publish_spec [OF assms(1) _ _ d] m unfolding g' k by blast
qed

text \<open>Either way the state stays consistent.\<close>

lemma drop_alloc_inv:
  assumes "translation_inv g"
  shows "translation_inv (g\<lparr>g_alloc := drop k (g_alloc g)\<rparr>)"
proof -
  let ?g = "g\<lparr>g_alloc := drop k (g_alloc g)\<rparr>"
  have s: "dyn_same g ?g" by (simp add: dyn_same_def)
  have "pool_shape ?g p" if "pool_shape g p" for p
    using that set_drop_subset [of k "g_alloc g"]
    by (auto simp: pool_shape_def pool_core_def dyn_same_free [OF s] dyn_same_lease [OF s])
  then have "pool_inv ?g" using assms by (simp add: translation_inv_def pool_inv_def split: option.splits)
  moreover have "cache_inv ?g = cache_inv g"
    by (rule cache_cong(1)) (simp_all add: ent4_def ent6_def fun_eq_iff hash_ip4_def hash_ip6_def)
  moreover have "store_inv ?g" using assms by (simp add: translation_inv_def store_drop)
  ultimately show ?thesis using assms by (simp add: translation_inv_def)
qed

lemma reload_inv:
  assumes "translation_inv g"
  shows "translation_inv (snd (addrmap_reload b content io_ok g))"
proof (cases "fst (addrmap_reload b content io_ok g) = ERROR_NONE")
  case True
  show ?thesis
  proof (cases b)
    case b: True
    then obtain t where t: "content = Some t" using True by (cases content) (simp_all add: addrmap_reload_def)
    have "addrmap_reload True (Some t) io_ok g = (ERROR_NONE, snd (addrmap_reload b content io_ok g))"
      using True b t by (metis prod.collapse)
    then show ?thesis using accepted_state [OF assms] by blast
  qed (use assms in \<open>simp add: addrmap_reload_def\<close>)
next
  case False
  from rejected_state [OF this] obtain ids where
    i: "snd (addrmap_reload b content io_ok g) = g\<lparr>g_alloc := ids\<rparr>"
      "ids = g_alloc g \<or> (\<exists>ls r. stage_lines 0 ls [] (g_alloc g) = (r, ids))" by blast
  have st: "store_inv g" using assms by (simp add: translation_inv_def)
  have "\<exists>k. ids = drop k (g_alloc g)" using i(2) staged_of_ok(1) [OF st] drop_0 by metis
  then show ?thesis using i(1) drop_alloc_inv [OF assms] by metis
qed

section \<open>Which files are accepted\<close>

text \<open>
  A mapping of the file: two prefixes, without host bits, in the unicast ranges, and at least as many
  IPv6 as IPv4 host bits. A line has one, or only a comment, and fits the buffer.
\<close>

definition entry_ok :: "string \<Rightarrow> string \<Rightarrow> bool" where
  "entry_ok v4 v6 \<longleftrightarrow> (\<exists>s4 n4 a4 s6 n6 a6. entry_len 32 v4 = Some (s4, n4) \<and> entry_len 128 v6 = Some (s6, n6)
     \<and> inet_pton4 s4 = Some a4 \<and> inet_pton6 s6 = Some a6 \<and> 96 + n4 \<ge> n6
     \<and> (\<forall>i<32. ip4_bit a4 i \<longrightarrow> i < n4) \<and> (\<forall>i<128. ip6_bit a6 i \<longrightarrow> i < n6)
     \<and> (n4 = 0 \<or> validate_ip4_addr a4 \<noteq> ERROR_DROP) \<and> (n6 = 0 \<or> validate_ip6_addr a6 = ERROR_NONE))"

definition line_ok :: "string \<Rightarrow> bool" where
  "line_ok line \<longleftrightarrow> length line < 511 \<and> (case line_tokens line of [] \<Rightarrow> True
     | [word, v4, v6] \<Rightarrow> strcaseeq word ''map'' \<and> entry_ok v4 v6 | _ \<Rightarrow> False)"

definition file_ok :: "string option \<Rightarrow> bool \<Rightarrow> bool" where
  "file_ok content io_ok \<longleftrightarrow> io_ok \<and> (case content of None \<Rightarrow> False | Some text \<Rightarrow> \<forall>line\<in>set (file_lines text). line_ok line)"

lemma parse_iff_ok: "parse_map_entry i n v4 v6 \<noteq> None \<longleftrightarrow> entry_ok v4 v6"
proof (cases "entry_len 32 v4 = None \<or> entry_len 128 v6 = None")
  case False
  then obtain s4 n4 s6 n6 where l: "entry_len 32 v4 = Some (s4, n4)" "entry_len 128 v6 = Some (s6, n6)" by auto
  have len: "n4 \<le> 32" "n6 \<le> 128" using l entry_len_le by blast+
  show ?thesis
  proof (cases "inet_pton4 s4 = None \<or> inet_pton6 s6 = None")
    case False
    then obtain a4 a6 where a: "inet_pton4 s4 = Some a4" "inet_pton6 s6 = Some a6" by auto
    obtain r4 k4 r6 k6 where k: "calc_ip4_mask 0 (Some a4) (int n4) = (r4, k4)" "calc_ip6_mask in6_zero (Some a6) (int n6) = (r6, k6)"
      by (metis surj_pair)
    have r: "r4 = 0 \<longleftrightarrow> (\<forall>i<32. ip4_bit a4 i \<longrightarrow> i < n4)" "r6 = 0 \<longleftrightarrow> (\<forall>i<128. ip6_bit a6 i \<longrightarrow> i < n6)"
      using calc_ip4_mask_ok [of 0 a4 "int n4"] calc_ip6_mask_ok [of in6_zero a6 "int n6"] len by (simp_all add: k)
    have c: "\<not> 32 - int n4 > 128 - int n6 \<longleftrightarrow> n6 \<le> 96 + n4" using len by linarith
    show ?thesis using r c by (auto simp: parse_map_entry_def entry_ok_def l a k)
  qed (auto simp: parse_map_entry_def entry_ok_def l split: option.splits)
qed (auto simp: parse_map_entry_def entry_ok_def split: option.splits)

text \<open>The mappings of a good file, in its order, and those no later one replaces.\<close>

fun file_maps :: "int \<Rightarrow> string list \<Rightarrow> nat list \<Rightarrow> map_static list" where
  "file_maps n (line # ls) (i # ids) =
     (case line_tokens line of
        [_, v4, v6] \<Rightarrow> the (parse_map_entry i (n + 1) v4 v6) # file_maps (n + 1) ls ids
      | _ \<Rightarrow> file_maps (n + 1) ls (i # ids))"
| "file_maps n _ _ = []"

fun last_wins :: "map_static list \<Rightarrow> map_static list" where
  "last_wins [] = []"
| "last_wins (m # ms) = (if \<exists>x\<in>set ms. clashes m x then last_wins ms else m # last_wins ms)"

lemma fold_stage: "fold stage_entry es ms = filter (\<lambda>old. \<forall>m\<in>set es. \<not> clashes old m) ms @ last_wins es"
  by (induction es arbitrary: ms) (auto simp: stage_entry_def intro: filter_cong)

text \<open>The two kinds of lines the staging passes, and everything else.\<close>

lemma line_ok_cases:
  assumes "line_ok line"
  obtains "line_tokens line = []" | word v4 v6 where "line_tokens line = [word, v4, v6]" "strcaseeq word ''map''" "entry_ok v4 v6"
  using assms by (auto simp: line_ok_def split: list.splits)

lemma stage_lines_good:
  "\<forall>line\<in>set ls. line_ok line \<Longrightarrow> length ls \<le> length ids
    \<Longrightarrow> \<exists>ids'. stage_lines n ls ms ids = (Some (fold stage_entry (file_maps n ls ids) ms), ids')"
proof (induction ls arbitrary: n ms ids)
  case (Cons line ls)
  then obtain i js where ids: "ids = i # js" "length ls \<le> length js" by (cases ids) auto
  have len: "length line \<noteq> 511" using Cons.prems(1) by (simp add: line_ok_def)
  have "line_ok line" using Cons.prems(1) by simp
  then show ?case
  proof (cases rule: line_ok_cases)
    case 1
    then show ?thesis using Cons.IH [of "i # js"] Cons.prems(1) ids len by simp
  next
    case (2 word v4 v6)
    obtain m where m: "parse_map_entry i (n + 1) v4 v6 = Some m" using parse_iff_ok 2(3) by fastforce
    show ?thesis using Cons.IH [of js "n + 1" "stage_entry m ms"] Cons.prems(1) ids len 2(1,2) m by simp
  qed
qed simp





lemma good_file_staged:
  assumes "file_ok (Some body) io_ok" "length (file_lines body) \<le> length (g_alloc g)"
  shows "staged_of body g = Some (last_wins (file_maps 0 (file_lines body) (g_alloc g)))"
  using assms stage_lines_good [of "file_lines body" "g_alloc g" 0 "[]"]
  by (auto simp: file_ok_def staged_of_def fold_stage)

lemma good_file_accepted:
  assumes "file_ok content io_ok" "length (file_lines (the content)) \<le> length (g_alloc g)"
  shows "fst (addrmap_reload True content io_ok g) = ERROR_NONE"
proof -
  obtain body where t: "content = Some body" using assms(1) by (auto simp: file_ok_def split: option.splits)
  have "fst (stage_lines 0 (file_lines body) [] (g_alloc g)) \<noteq> None"
    using good_file_staged [of body io_ok g] assms by (simp add: t staged_of_def)
  then show ?thesis using assms(1) by (auto simp: addrmap_reload_def t file_ok_def Let_def split: prod.splits option.splits)
qed

lemma good_file_published:
  assumes g: "translation_inv g" and f: "file_ok (Some body) io_ok" and n: "length (file_lines body) \<le> length (g_alloc g)"
    and entries: "entries = last_wins (file_maps 0 (file_lines body) (g_alloc g))"
    and 4: "\<forall>m\<in>set entries. \<forall>f\<in>set (g_map4_list g). \<not> is_file_map4 g f \<longrightarrow>
      \<not> (m4_prefix_len f = m4_prefix_len (ms_map4 m) \<and> m4_addr f = m4_addr (ms_map4 m))"
    and 6: "\<forall>m\<in>set entries. \<forall>f\<in>set (g_map6_list g). \<not> is_file_map6 g f \<longrightarrow> disjoint6 f (ms_map6 m)"
  shows "\<exists>g'. addrmap_reload True (Some body) io_ok g = (ERROR_NONE, g')
    \<and> set (g_map4_list g') = {m \<in> set (g_map4_list g). \<not> is_file_map4 g m} \<union> ms_map4 ` set entries
    \<and> set (g_map6_list g') = {m \<in> set (g_map6_list g). \<not> is_file_map6 g m} \<union> ms_map6 ` set entries
    \<and> translation_inv g' \<and> cache_pairs g' = {}"
proof -
  note s = good_file_staged [OF f n, folded entries]
  obtain g' where r: "addrmap_reload True (Some body) io_ok g = (ERROR_NONE, g')"
    using good_file_accepted [OF f] n by (metis option.sel prod.collapse)
  obtain ids where "stage_lines 0 (file_lines body) [] (g_alloc g) = (Some entries, ids)"
    using s by (metis staged_of_def prod.collapse)
  then have ok: "staged_ok entries" using staged_of_ok(2) g by (auto simp: translation_inv_def)
  have "\<not> fixed_conflict g m" if m: "m \<in> set entries" for m
  proof -
    have "wf_map6 (ms_map6 m)" using ok m by (simp add: staged_ok_def file_entry_def static_wf_def)
    moreover have "wf_map6 f" if "f \<in> set (g_map6_list g)" for f using g that by (simp add: translation_inv_def table6_def)
    ultimately show ?thesis using 4 6 m map6_overlaps_iff by (auto simp: fixed_conflict_def list_ex_iff)
  qed
  then have "published g entries = set entries" by (auto simp: published_def)
  then show ?thesis using accepted_state [OF g r] s r by auto
qed


text \<open>
  What an accepted reload publishes. An entry that collides with a mapping that stays is skipped,
  although the manual and the comment in the code say that it rejects the file.
\<close>

theorem reload_skips_conflicts:
  assumes "translation_inv g"
    and "addrmap_reload True (Some body) io_ok g = (ERROR_NONE, g')"
  shows "\<exists>staged. staged_of body g = Some staged
    \<and> set (g_map4_list g') = {m \<in> set (g_map4_list g). \<not> is_file_map4 g m} \<union> ms_map4 ` published g staged
    \<and> set (g_map6_list g') = {m \<in> set (g_map6_list g). \<not> is_file_map6 g m} \<union> ms_map6 ` published g staged
    \<and> translation_inv g' \<and> cache_pairs g' = {}"
  by (rule accepted_state [OF assms])

text \<open>
  C14. A file without a bad line, none of whose entries collides with a mapping that is not from the file, is published
  when there is memory for its lines: the mappings of the previous file are replaced by the entries of this one, of entries that collide with each other
  the last, and no other mapping changes. The invariants hold and the cache is empty.
\<close>

theorem reload_publishes:
  assumes "translation_inv g" "file_ok (Some body) io_ok" "length (file_lines body) \<le> length (g_alloc g)"
    and "entries = last_wins (file_maps 0 (file_lines body) (g_alloc g))"
    and "\<forall>m\<in>set entries. \<forall>f\<in>set (g_map4_list g). \<not> is_file_map4 g f \<longrightarrow>
      \<not> (m4_prefix_len f = m4_prefix_len (ms_map4 m) \<and> m4_addr f = m4_addr (ms_map4 m))"
    and "\<forall>m\<in>set entries. \<forall>f\<in>set (g_map6_list g). \<not> is_file_map6 g f \<longrightarrow> disjoint6 f (ms_map6 m)"
  shows "\<exists>g'. addrmap_reload True (Some body) io_ok g = (ERROR_NONE, g')
    \<and> set (g_map4_list g') = {m \<in> set (g_map4_list g). \<not> is_file_map4 g m} \<union> ms_map4 ` set entries
    \<and> set (g_map6_list g') = {m \<in> set (g_map6_list g). \<not> is_file_map6 g m} \<union> ms_map6 ` set entries
    \<and> translation_inv g' \<and> cache_pairs g' = {}"
  by (rule good_file_published [OF assms])

end
