(* ===== verification/Sample_Reload.thy ===== *)
theory Sample_Reload
  imports Reload_Laws Samples "HOL-Library.Code_Target_Numeral"
begin

text \<open>Two map files: one that is published, and one with a malformed second line.\<close>

definition map_line :: string where
  "map_line = ''map 203.0.113.0/24 2001:db8:99::/120'' @ [CHR 0x0A]"

definition bad_line :: string where
  "bad_line = ''map 203.0.113.9''"

lemma map_lines: "file_lines map_line = [map_line]" "file_lines (map_line @ bad_line) = [map_line, bad_line]"
  by code_simp+

lemma map_tokens:
  "line_tokens map_line = [''map'', ''203.0.113.0/24'', ''2001:db8:99::/120'']"
  "line_tokens bad_line = [''map'', ''203.0.113.9'']"
  by code_simp+

lemma map_parts:
  "entry_len 32 ''203.0.113.0/24'' = Some (''203.0.113.0'', 24)"
  "entry_len 128 ''2001:db8:99::/120'' = Some (''2001:db8:99::'', 120)"
  by code_simp+

lemma map_addrs:
  "inet_pton4 ''203.0.113.0'' = Some (ip4_lit 203 0 113 0)"
  "inet_pton6 ''2001:db8:99::'' = Some (ip6_lit 0x20010db8 0x00990000 0 0)"
  by code_simp+

lemma map_valid4: "validate_ip4_addr (ip4_lit 203 0 113 0) = ERROR_NONE"
  by code_simp

lemma map_valid6: "validate_ip6_addr (ip6_lit 0x20010db8 0x00990000 0 0) = ERROR_NONE"
  by code_simp

definition new_map :: map_static where
  "new_map = \<lparr>ms_map4 = mk4 (ip4_lit 203 0 113 0) 24 MAP_TYPE_STATIC 10,
     ms_map6 = mk6 (ip6_lit 0x20010db8 0x00990000 0 0) 120 MAP_TYPE_STATIC 10,
     ms_line_no = 1, ms_origin = MAP_ORIGIN_MAPFILE\<rparr>"

lemma map_entry: "parse_map_entry 10 1 ''203.0.113.0/24'' ''2001:db8:99::/120'' = Some new_map"
proof -
  have "calc_ip4_mask 0 (Some (ip4_lit 203 0 113 0)) 24 = (0, snd (calc_ip4_mask 0 None 24))"
    "calc_ip6_mask in6_zero (Some (ip6_lit 0x20010db8 0x00990000 0 0)) 120 = (0, snd (calc_ip6_mask in6_zero None 120))"
    by (simp_all add: eval_addr)
  then show ?thesis
    by (simp add: parse_map_entry_def map_parts map_addrs map_valid4 map_valid6 new_map_def mk4_def mk6_def)
qed

lemma map_case: "strcaseeq ''map'' ''map''"
  by (simp add: strcaseeq_def)

lemma sample_alloc: "g_alloc sample_state = [10, 11, 12]"
  by (simp add: sample_state_def sample_base_def)

lemma sample_file_ok: "file_ok (Some map_line) True" "\<not> file_ok (Some (map_line @ bad_line)) True"
proof -
  have "entry_ok ''203.0.113.0/24'' ''2001:db8:99::/120''" using parse_iff_ok map_entry by blast
  moreover have "length map_line < 511" by (simp add: map_line_def)
  ultimately show "file_ok (Some map_line) True" by (simp add: file_ok_def map_lines line_ok_def map_tokens map_case)
  show "\<not> file_ok (Some (map_line @ bad_line)) True" by (simp add: file_ok_def map_lines line_ok_def map_tokens)
qed

lemma sample_maps: "file_maps 0 (file_lines map_line) (g_alloc sample_state) = [new_map]"
  by (simp add: map_lines sample_alloc map_tokens map_entry)

lemma new_map_free:
  "f \<in> set (g_map4_list sample_state) \<Longrightarrow> m4_addr f \<noteq> m4_addr (ms_map4 new_map)"
  "k \<in> set (g_map6_list sample_state) \<Longrightarrow> disjoint6 k (ms_map6 new_map)"
proof -
  show "f \<in> set (g_map4_list sample_state) \<Longrightarrow> m4_addr f \<noteq> m4_addr (ms_map4 new_map)"
    by (auto simp: sample_state_def pool_map_def net_static_def wkpf_static_def new_map_def mk4_def eval_addr)
  have e: "fst (calc_ip6_mask in6_zero (Some (ip6_lit 0x20010db8 0x00990000 0 0)) 120) = 0" by (simp add: eval_addr)
  have w: "wf_map6 (ms_map6 new_map)" unfolding new_map_def map_static.simps by (rule wf_mk6) (simp_all add: e)
  have "\<not> map6_overlaps (ms_map6 net_static) (ms_map6 new_map)" "\<not> map6_overlaps (ms_map6 wkpf_static) (ms_map6 new_map)"
    by (simp_all add: net_static_def wkpf_static_def new_map_def mk6_def in6_is_in_net_def map6_overlaps_def eval_addr)
  then show "k \<in> set (g_map6_list sample_state) \<Longrightarrow> disjoint6 k (ms_map6 new_map)"
    using map6_overlaps_iff sample_wf6 w by (auto simp: sample_state_def)
qed

lemma reload_publishes_witness:
  "\<exists>g'. addrmap_reload True (Some map_line) True sample_state = (ERROR_NONE, g')
     \<and> set (g_map4_list g') = {m \<in> set (g_map4_list sample_state). \<not> is_file_map4 sample_state m} \<union> {ms_map4 new_map}
     \<and> translation_inv g' \<and> cache_pairs g' = {}"
proof -
  have n: "length (file_lines map_line) \<le> length (g_alloc sample_state)" by (simp add: map_lines sample_alloc)
  have m: "[new_map] = last_wins (file_maps 0 (file_lines map_line) (g_alloc sample_state))" by (simp add: sample_maps)
  show ?thesis using reload_publishes [OF sample_inv sample_file_ok(1) n m] new_map_free by auto
qed


end
