(* ===== verification/Sample_Config.thy ===== *)
theory Sample_Config
  imports Config_Laws Samples "HOL-Library.Code_Target_Numeral"
begin

text \<open>
  A configuration file of four directives, read and validated step by step; the parsing of its
  tokens is evaluated, the effect of each line is a rewrite rule on the configuration.
\<close>

definition line_of :: "string \<Rightarrow> string" where
  "line_of s = s @ [CHR 0x0A]"

definition conf_text :: string where
  "conf_text = line_of ''tun-device nat64'' @ line_of ''ipv4-addr 192.168.255.1''
     @ line_of ''prefix 2001:db8:ff::/96 # translation'' @ line_of ''dynamic-pool 10.0.0.0/30''"

definition conf_start :: gstate where
  "conf_start = sample_base\<lparr>g_static := (\<lambda>_. None), g_alloc := [0, 7, 2, 3, 4, 5]\<rparr>"

lemma conf_lines: "file_lines conf_text = [line_of ''tun-device nat64'', line_of ''ipv4-addr 192.168.255.1'',
    line_of ''prefix 2001:db8:ff::/96 # translation'', line_of ''dynamic-pool 10.0.0.0/30'']"
  by code_simp

lemma conf_tokens:
  "line_tokens (line_of ''tun-device nat64'') = [''tun-device'', ''nat64'']"
  "line_tokens (line_of ''ipv4-addr 192.168.255.1'') = [''ipv4-addr'', ''192.168.255.1'']"
  "line_tokens (line_of ''prefix 2001:db8:ff::/96 # translation'') = [''prefix'', ''2001:db8:ff::/96'']"
  "line_tokens (line_of ''dynamic-pool 10.0.0.0/30'') = [''dynamic-pool'', ''10.0.0.0/30'']"
  by code_simp+

lemma conf_find:
  "List.find (\<lambda>(name, _). strcaseeq ''tun-device'' name) config_directives = Some (''tun-device'', config_tun_device, 1)"
  "List.find (\<lambda>(name, _). strcaseeq ''ipv4-addr'' name) config_directives = Some (''ipv4-addr'', config_ipv4_addr, 1)"
  "List.find (\<lambda>(name, _). strcaseeq ''prefix'' name) config_directives = Some (''prefix'', config_prefix, 1)"
  "List.find (\<lambda>(name, _). strcaseeq ''dynamic-pool'' name) config_directives = Some (''dynamic-pool'', config_dynamic_pool, 1)"
  by (simp_all add: config_directives_def strcaseeq_def lower_def code_def)

lemma conf_numbers:
  "inet_pton4 ''192.168.255.1'' = Some (ip4_lit 192 168 255 1)"
  "inet_pton4 ''10.0.0.0'' = Some (ip4_lit 10 0 0 0)"
  "inet_pton6 ''2001:db8:ff::'' = Some (ip6_lit 0x20010db8 0x00ff0000 0 0)"
  "split_slash ''2001:db8:ff::/96'' = Some (''2001:db8:ff::'', ''96'')"
  "split_slash ''10.0.0.0/30'' = Some (''10.0.0.0'', ''30'')"
  "strtol ''96'' = (96, [], False)" "strtol ''30'' = (30, [], False)"
  by code_simp+

lemma conf_args:
  "parse_prefix inet_pton6 128 ''2001:db8:ff::/96'' = Some (ip6_lit 0x20010db8 0x00ff0000 0 0, 96)"
  "parse_prefix inet_pton4 32 ''10.0.0.0/30'' = Some (ip4_lit 10 0 0 0, 30)"
  by (simp_all add: parse_prefix_def conf_numbers)

lemma conf_valid_1: "validate_ip4_addr (ip4_lit 192 168 255 1) = ERROR_NONE"
  by code_simp

lemma conf_valid_2: "validate_ip4_addr (ip4_lit 10 0 0 0) = ERROR_NONE"
  by code_simp

lemma conf_valid_3: "validate_ip6_addr (ip6_lit 0x20010db8 0x00ff0000 0 0) = ERROR_NONE"
  by code_simp

lemmas conf_valid = conf_valid_1 conf_valid_2 conf_valid_3

lemma conf_length:
  "length (line_of ''tun-device nat64'') \<noteq> 511" "length (line_of ''ipv4-addr 192.168.255.1'') \<noteq> 511"
  "length (line_of ''prefix 2001:db8:ff::/96 # translation'') \<noteq> 511" "length (line_of ''dynamic-pool 10.0.0.0/30'') \<noteq> 511"
  by (simp_all add: line_of_def)

section \<open>The lines\<close>

lemma line_tun:
  "c_tundev c = [] \<Longrightarrow> config_line ln (line_of ''tun-device nat64'') c = (False, c\<lparr>c_tundev := ''nat64''\<rparr>)"
  using conf_length(1)
  by (simp add: config_line_def conf_tokens conf_find MAX_ARGS_def config_tun_device_def)

lemma line_addr:
  "g_local_addr4 (c_g c) = 0 \<Longrightarrow> config_line ln (line_of ''ipv4-addr 192.168.255.1'') c
     = (False, upd_g (\<lambda>g. g\<lparr>g_local_addr4 := ip4_lit 192 168 255 1\<rparr>) c)"
  using conf_length(2)
  by (simp add: config_line_def conf_tokens conf_find MAX_ARGS_def config_ipv4_addr_def conf_numbers conf_valid)

definition conf_prefix6 :: map6 where
  "conf_prefix6 = mk6 (ip6_lit 0x20010db8 0x00ff0000 0 0) 96 MAP_TYPE_RFC6052 0"

definition conf_rfc :: "int \<Rightarrow> map_static" where
  "conf_rfc ln = \<lparr>ms_map4 = \<lparr>m4_addr = 0, m4_mask = 0, m4_prefix_len = 0, m4_type = MAP_TYPE_RFC6052, m4_obj = 0\<rparr>,
     ms_map6 = conf_prefix6, ms_line_no = ln, ms_origin = MAP_ORIGIN_CONFFILE\<rparr>"

lemma conf_set_prefix:
  "set_map6 (ip6_lit 0x20010db8 0x00ff0000 0 0) 96
     \<lparr>m6_addr = in6_zero, m6_mask = mk, m6_prefix_len = 128, m6_type = MAP_TYPE_RFC6052, m6_obj = 0\<rparr> = Some conf_prefix6"
proof -
  have "calc_ip6_mask mk (Some (ip6_lit 0x20010db8 0x00ff0000 0 0)) 96 = (0, snd (calc_ip6_mask in6_zero None 96))"
    by (simp add: eval_addr)
  then show ?thesis by (simp add: set_map6_def conf_prefix6_def mk6_def)
qed

lemma line_prefix:
  assumes "g_alloc (c_g c) = 0 # ids" "g_map4_list (c_g c) = []" "g_map6_list (c_g c) = []" "g_static (c_g c) = (\<lambda>_. None)"
  shows "config_line ln (line_of ''prefix 2001:db8:ff::/96 # translation'') c
     = (False, upd_g (\<lambda>g. g\<lparr>g_alloc := ids, g_map4_list := [ms_map4 (conf_rfc ln)], g_map6_list := [conf_prefix6],
         g_static := (\<lambda>_. None)(0 := Some (conf_rfc ln))\<rparr>) c)"
  using conf_length(3) assms
  by (simp add: config_line_def conf_tokens conf_find MAX_ARGS_def config_prefix_def conf_args conf_valid
      alloc_map_static_def malloc_def new_static_def conf_set_prefix link_static_def
      insert_map4_eq insert_map6_eq upd_g_def conf_rfc_def)

definition conf_pool4 :: map4 where
  "conf_pool4 = mk4 (ip4_lit 10 0 0 0) 30 MAP_TYPE_DYNAMIC_POOL 7"

lemma conf_set_pool:
  "set_map4 (ip4_lit 10 0 0 0) 30
     \<lparr>m4_addr = 0, m4_mask = 0, m4_prefix_len = 0, m4_type = MAP_TYPE_DYNAMIC_POOL, m4_obj = 7\<rparr> = Some conf_pool4"
proof -
  have "calc_ip4_mask 0 (Some (ip4_lit 10 0 0 0)) 30 = (0, snd (calc_ip4_mask 0 None 30))" by (simp add: eval_addr)
  then show ?thesis by (simp add: set_map4_def conf_pool4_def mk4_def)
qed

lemma line_pool:
  assumes "g_alloc (c_g c) = 7 # ids" "g_map4_list (c_g c) = [ms_map4 (conf_rfc k)]" "g_dynamic_pool (c_g c) = None"
  shows "config_line ln (line_of ''dynamic-pool 10.0.0.0/30'') c
     = (False, upd_g (\<lambda>g. g\<lparr>g_alloc := ids, g_map4_list := [conf_pool4, ms_map4 (conf_rfc k)],
         g_dynamic_pool := Some (init_pool conf_pool4)\<rparr>) c)"
  using conf_length(4) assms
  by (simp add: config_line_def conf_tokens conf_find MAX_ARGS_def config_dynamic_pool_def conf_args conf_valid
      malloc_def conf_set_pool insert_map4_eq upd_g_def conf_rfc_def conf_pool4_def mk4_def)

section \<open>The configuration\<close>

definition conf_g :: gstate where
  "conf_g = (c_g (config_init conf_start))\<lparr>g_local_addr4 := ip4_lit 192 168 255 1, g_alloc := [2, 3, 4, 5],
     g_map4_list := [conf_pool4, ms_map4 (conf_rfc 3)], g_map6_list := [conf_prefix6],
     g_static := (\<lambda>_. None)(0 := Some (conf_rfc 3)), g_dynamic_pool := Some (init_pool conf_pool4)\<rparr>"

definition conf_read :: config where
  "conf_read = (config_init conf_start)\<lparr>c_tundev := ''nat64'', c_g := conf_g\<rparr>"

lemma sample_read: "config_read (Some conf_text) (config_init conf_start) = (ERROR_NONE, conf_read)"
proof -
  have i: "c_tundev (config_init conf_start) = []" "g_local_addr4 (c_g (config_init conf_start)) = 0"
    "g_alloc (c_g (config_init conf_start)) = [0, 7, 2, 3, 4, 5]" "g_map4_list (c_g (config_init conf_start)) = []"
    "g_map6_list (c_g (config_init conf_start)) = []" "g_static (c_g (config_init conf_start)) = (\<lambda>_. None)"
    "g_dynamic_pool (c_g (config_init conf_start)) = None"
    by (simp_all add: config_init_def conf_start_def)
  show ?thesis
    by (simp add: config_read_def conf_lines line_tun line_addr line_prefix line_pool i)
      (simp add: conf_read_def conf_g_def upd_g_def)
qed

lemma sample_validate: "fst (config_validate None conf_read) = ERROR_NONE"
proof -
  have g: "g_map6_list (c_g conf_read) = [conf_prefix6]" "g_dynamic_pool (c_g conf_read) = Some (init_pool conf_pool4)"
    "g_local_addr4 (c_g conf_read) = ip4_lit 192 168 255 1" "g_local_addr6 (c_g conf_read) = in6_zero"
    "g_alloc (c_g conf_read) = [2, 3, 4, 5]" "g_map4_list (c_g conf_read) = [conf_pool4, ms_map4 (conf_rfc 3)]"
    "c_tundev conf_read = ''nat64''" "g_wkpf_strict (c_g conf_read)"
    by (simp_all add: conf_read_def conf_g_def config_init_def)
  have n: "ip4_lit 192 168 255 1 \<noteq> 0" "ip4_lit 192 168 255 1 \<noteq> ip4_lit 10 0 0 0" by (simp_all add: eval_addr)
  have a: "\<not> isl (append_to_prefix True (ip4_lit 192 168 255 1) (ip6_lit 0x20010db8 0x00ff0000 0 0) 96)" by code_simp
  have "fst (self_static (conf_read\<lparr>c_maps_immutable := False\<rparr>)) = ERROR_NONE
      \<and> c_tundev (snd (self_static (conf_read\<lparr>c_maps_immutable := False\<rparr>))) = ''nat64''"
    using n a by (simp add: self_static_def alloc_map_static_def malloc_def g new_static_def insert_map4_eq conf_rfc_def
        conf_pool4_def conf_prefix6_def mk4_def mk6_def upd_g_def WKPF_def in6_zero_def Let_def)
  then obtain c where "self_static (conf_read\<lparr>c_maps_immutable := False\<rparr>) = (ERROR_NONE, c)" "c_tundev c = ''nat64''"
    by (metis prod.collapse)
  then show ?thesis
    using n by (simp add: config_validate_def use_state_dir_def g Let_def upd_g_def)
qed

text \<open>The file is accepted, and the translator starts in its invariant.\<close>

lemma configured_start_witness:
  "config_read (Some conf_text) (config_init conf_start) = (ERROR_NONE, conf_read)
   \<and> fst (config_validate None conf_read) = ERROR_NONE
   \<and> started (snd (create_cache True (c_g (snd (config_validate None conf_read)))))"
proof -
  have "distinct (g_alloc conf_start)" "g_static conf_start = (\<lambda>_. None)" "g_dyn conf_start = (\<lambda>_. None)"
    by (simp_all add: conf_start_def sample_base_def)
  moreover have v: "config_validate None conf_read = (ERROR_NONE, snd (config_validate None conf_read))"
    using sample_validate by (metis prod.collapse)
  moreover have "a0 (g_local_addr6 (c_g conf_read)) \<noteq> 0 \<or> g_wkpf_strict (c_g conf_read)
      \<or> validate_ip4_addr (g_local_addr4 (c_g conf_read)) = ERROR_NONE"
    by (simp add: conf_read_def conf_g_def config_init_def)
  ultimately have "started (snd (create_cache True (c_g (snd (config_validate None conf_read)))))"
    using configured_start [OF _ _ _ sample_read v refl] by blast
  then show ?thesis using sample_read sample_validate by blast
qed

end
