(* ===== verification/Device.thy ===== *)
theory Device
  imports Config Tun
begin

text \<open>
  The part of \<open>tun_setup\<close> of \<open>src/src/tun.c\<close> (Linux) that decides how packets are exchanged with
  the device: the size of the offload header, the MTU, and the negotiation of the offload features
  over all queues (\<open>tun_negotiate\<close>). The answers of the kernel are an argument; an ended list of
  answers means success. Attaching, routes, addresses and roll-back are outside.
\<close>

section \<open>Negotiation of the offload features\<close>

definition TUN_F_CSUM :: u32 where "TUN_F_CSUM = 1"
definition TUN_F_TSO4 :: u32 where "TUN_F_TSO4 = 2"
definition TUN_F_TSO6 :: u32 where "TUN_F_TSO6 = 4"
definition TUN_F_USO4 :: u32 where "TUN_F_USO4 = 32"
definition TUN_F_USO6 :: u32 where "TUN_F_USO6 = 64"

definition TCP_OFFLOAD_FLAGS :: u32 where
  "TCP_OFFLOAD_FLAGS = TUN_F_CSUM OR TUN_F_TSO4 OR TUN_F_TSO6"

definition UDP_OFFLOAD_FLAGS :: u32 where
  "UDP_OFFLOAD_FLAGS = TCP_OFFLOAD_FLAGS OR TUN_F_USO4 OR TUN_F_USO6"

definition EBADF :: errno where "EBADF = E_other 9"
definition ENODEV :: errno where "ENODEV = E_other 19"

text \<open>One call per entry: the queue, -1 for the primary one, the features and the answer.\<close>

type_synonym offload_calls = "(int \<times> u32 \<times> errno option) list"

record offload =
  o_flags :: u32
  o_uso :: bool
  o_effective :: tun_offload_mode
  o_complete :: bool
  o_errno :: "errno option"
  o_queue :: int
  o_reason :: string

text \<open>One queue: an interrupted call is repeated at most \<open>left\<close> times.\<close>

fun offload_ioctl :: "nat \<Rightarrow> int \<Rightarrow> u32 \<Rightarrow> errno option list \<Rightarrow> errno option \<times> offload_calls \<times> errno option list" where
  "offload_ioctl left q m ans =
     (let r = (case ans of [] \<Rightarrow> None | r # _ \<Rightarrow> r); ans = drop 1 ans
      in case (r = Some EINTR, left) of
           (True, Suc k) \<Rightarrow> (case offload_ioctl k q m ans of (r', cs, ans) \<Rightarrow> (r', (q, m, r) # cs, ans))
         | _ \<Rightarrow> (r, [(q, m, r)], ans))"

declare offload_ioctl.simps [simp del]

text \<open>The queues in order, up to the first that refuses.\<close>

fun offer_queues :: "u32 \<Rightarrow> int list \<Rightarrow> errno option list \<Rightarrow> (int \<times> errno) option \<times> offload_calls \<times> errno option list" where
  "offer_queues m [] ans = (None, [], ans)"
| "offer_queues m (q # qs) ans =
     (case offload_ioctl 2 q m ans of
        (Some e, cs, ans) \<Rightarrow> (Some (q, e), cs, ans)
      | (None, cs, ans) \<Rightarrow> (case offer_queues m qs ans of (f, cs', ans) \<Rightarrow> (f, cs @ cs', ans)))"

text \<open>The candidates in order; the result says whether one was agreed on.\<close>

fun offer_masks :: "u32 list \<Rightarrow> int list \<Rightarrow> errno option list \<Rightarrow> offload \<Rightarrow> bool \<times> offload \<times> offload_calls" where
  "offer_masks [] qs ans s = (False, s, [])"
| "offer_masks (m # ms) qs ans s =
     (case offer_queues m qs ans of
        (Some (q, e), cs, ans) \<Rightarrow>
          (let s = s\<lparr>o_errno := Some e, o_queue := q,
                 o_reason := (if m = UDP_OFFLOAD_FLAGS then ''udp_unavailable'' else ''offload_unavailable'')\<rparr>
           in if m = 0 \<or> e = EBADF \<or> e = ENODEV then (False, s, cs)
              else (case offer_masks ms qs ans s of (r, s, cs') \<Rightarrow> (r, s, cs @ cs')))
      | (None, cs, ans) \<Rightarrow>
          (let uso = (m = UDP_OFFLOAD_FLAGS)
           in (True, s\<lparr>o_flags := m, o_uso := uso,
                 o_effective := (if uso then TUN_OFFLOAD_UDP else if m \<noteq> 0 then TUN_OFFLOAD_TCP else TUN_OFFLOAD_OFF),
                 o_complete := True\<rparr>, cs)))"

definition offload_masks :: "tun_offload_mode \<Rightarrow> bool \<Rightarrow> u32 list" where
  "offload_masks requested has_vnet =
     (if has_vnet \<and> (requested = TUN_OFFLOAD_AUTO \<or> requested = TUN_OFFLOAD_UDP) then [UDP_OFFLOAD_FLAGS] else [])
     @ (if has_vnet \<and> (requested = TUN_OFFLOAD_AUTO \<or> requested = TUN_OFFLOAD_TCP) then [TCP_OFFLOAD_FLAGS] else [])
     @ (if requested = TUN_OFFLOAD_AUTO \<or> requested = TUN_OFFLOAD_OFF then [0] else [])"

definition tun_negotiate ::
  "nat \<Rightarrow> tun_offload_mode \<Rightarrow> bool \<Rightarrow> errno option list \<Rightarrow> offload \<Rightarrow> bool \<times> offload \<times> offload_calls" where
  "tun_negotiate count requested has_vnet ans s =
     (let s = s\<lparr>o_complete := False, o_uso := False, o_flags := 0, o_effective := TUN_OFFLOAD_OFF,
            o_reason := (if \<not> has_vnet \<and> requested = TUN_OFFLOAD_AUTO then ''vnet_unavailable'' else ''none''),
            o_errno := (if has_vnet \<or> requested \<noteq> TUN_OFFLOAD_AUTO then None else o_errno s), o_queue := -1\<rparr>
      in offer_masks (offload_masks requested has_vnet) (-1 # map int [0..<count]) ans s)"

section \<open>Setting up the device\<close>

text \<open>
  What the kernel reports: whether the device has offload headers, their size, the MTU, and the
  answers to the negotiation over the primary and the worker queues; \<open>None\<close> is a failed call.
\<close>

record device =
  dev_vnet :: bool
  dev_hdr_sz :: "int option"
  dev_mtu :: "int option"
  dev_queues :: nat
  dev_answers :: "errno option list"
  dev_io :: "io list"

definition vnet_hdr_sz :: "device \<Rightarrow> nat option" where
  "vnet_hdr_sz dv =
     (if dev_vnet dv then
        (case dev_hdr_sz dv of
           None \<Rightarrow> None
         | Some sz \<Rightarrow> if sz \<noteq> 10 \<and> sz \<noteq> 12 then None else Some (nat sz))
      else Some 0)"

definition no_offload :: offload where
  "no_offload = \<lparr>o_flags = 0, o_uso = False, o_effective = TUN_OFFLOAD_OFF, o_complete = False, o_errno = None,
     o_queue = 0, o_reason = []\<rparr>"

text \<open>\<open>global_ip4_ident\<close> starts at a fixed value; \<open>mem\<close> is the uninitialised receive buffer.\<close>

definition tun_setup :: "tun_offload_mode \<Rightarrow> device \<Rightarrow> mem \<Rightarrow> gstate \<Rightarrow> world option" where
  "tun_setup requested dv mem g =
     (case vnet_hdr_sz dv of
        None \<Rightarrow> None
      | Some sz \<Rightarrow>
          (case dev_mtu dv of
             None \<Rightarrow> None
           | Some mtu \<Rightarrow>
               (let g = g\<lparr>g_mtu := word_of_int mtu\<rparr>
                in if ucast (g_mtu g) < MTU_MIN then None
                   else
                     (case tun_negotiate (dev_queues dv) requested (dev_vnet dv) (dev_answers dv) no_offload of
                        (False, _) \<Rightarrow> None
                      | (True, s, _) \<Rightarrow>
                          Some \<lparr>w_g = g, w_vnet = sz, w_offload = (o_effective s \<noteq> TUN_OFFLOAD_OFF),
                            w_has_uso = o_uso s, w_ident = 0xb00b, w_mem = mem, w_io = dev_io dv, w_errno = E_other 0,
                            w_tx = []\<rparr>))))"

lemma tun_setup_Some:
  assumes "tun_setup requested dv mem g = Some w"
  shows "w_vnet w \<in> {0, 10, 12}" "\<exists>mtu. w_g w = g\<lparr>g_mtu := mtu\<rparr> \<and> 1280 \<le> mtu" "w_tx w = []"
proof -
  have "w_vnet w \<in> {0, 10, 12} \<and> (\<exists>mtu. w_g w = g\<lparr>g_mtu := mtu\<rparr> \<and> 1280 \<le> mtu) \<and> w_tx w = []"
    using assms
    by (auto simp: tun_setup_def vnet_hdr_sz_def MTU_MIN_def Let_def word_less_nat_alt word_le_nat_alt not_less unat_ucast_up
        split: option.splits if_split_asm prod.splits bool.splits)
  then show "w_vnet w \<in> {0, 10, 12}" "\<exists>mtu. w_g w = g\<lparr>g_mtu := mtu\<rparr> \<and> 1280 \<le> mtu" "w_tx w = []" by blast+
qed

section \<open>What the negotiation agrees on\<close>

text \<open>The last call on a queue.\<close>

fun last_call :: "int \<Rightarrow> offload_calls \<Rightarrow> (u32 \<times> errno option) option" where
  "last_call q [] = None"
| "last_call q ((q', c) # cs) = (case last_call q cs of Some x \<Rightarrow> Some x | None \<Rightarrow> if q' = q then Some c else None)"

lemma last_call_append: "last_call q (xs @ ys) = (case last_call q ys of Some x \<Rightarrow> Some x | None \<Rightarrow> last_call q xs)"
  by (induction xs) (auto split: option.split)

lemma offload_ioctl_last:
  "offload_ioctl left q m ans = (r, cs, rest) \<Longrightarrow> last_call q cs = Some (m, r) \<and> (\<forall>q'. q' \<noteq> q \<longrightarrow> last_call q' cs = None)"
proof (induction left q m ans arbitrary: r cs rest rule: offload_ioctl.induct)
  case (1 left q m ans)
  let ?r = "case ans of [] \<Rightarrow> None | r # _ \<Rightarrow> r"
  show ?case
  proof (cases "?r = Some EINTR \<and> left \<noteq> 0")
    case True
    then obtain k where k: "left = Suc k" by (cases left) auto
    obtain r' cs' rest' where o: "offload_ioctl k q m (drop 1 ans) = (r', cs', rest')" by (metis prod_cases3)
    have "cs = (q, m, ?r) # cs' \<and> r = r'" using 1(2) True unfolding offload_ioctl.simps [of left q m ans] Let_def by (simp add: k o [unfolded One_nat_def])
    then show ?thesis using 1(1) [OF refl refl refl] o True k by auto
  next
    case False
    then have "cs = [(q, m, ?r)] \<and> r = ?r" using 1(2) unfolding offload_ioctl.simps [of left q m ans] Let_def by (cases left) (auto split: bool.splits)
    then show ?thesis by simp
  qed
qed

lemma offer_queues_last:
  "offer_queues m qs ans = (f, cs, rest) \<Longrightarrow> (f = None \<longrightarrow> (\<forall>q\<in>set qs. last_call q cs = Some (m, None)))
    \<and> (\<forall>q. q \<notin> set qs \<longrightarrow> last_call q cs = None)"
proof (induction m qs ans arbitrary: f cs rest rule: offer_queues.induct)
  case (2 m q qs ans)
  obtain r cs1 ans1 where o: "offload_ioctl 2 q m ans = (r, cs1, ans1)" by (metis prod_cases3)
  show ?case
  proof (cases r)
    case None
    obtain f' cs' rest' where q: "offer_queues m qs ans1 = (f', cs', rest')" by (metis prod_cases3)
    have e: "f = f'" "cs = cs1 @ cs'" using 2(2) by (simp_all add: o None q)
    show ?thesis using 2(1) [OF sym [OF o] None refl q] offload_ioctl_last [OF o] None
      unfolding e by (cases "q \<in> set qs") (auto simp: last_call_append split: option.split)
  qed (use 2(2) o offload_ioctl_last [OF o] in auto)
qed simp

lemma offer_masks_agreed:
  "offer_masks ms qs ans s = (True, s', cs) \<Longrightarrow>
     o_complete s' \<and> o_flags s' \<in> set ms \<and> (\<forall>q\<in>set qs. last_call q cs = Some (o_flags s', None))
     \<and> (o_uso s' \<longleftrightarrow> o_flags s' = UDP_OFFLOAD_FLAGS)
     \<and> o_effective s' = (if o_flags s' = UDP_OFFLOAD_FLAGS then TUN_OFFLOAD_UDP
          else if o_flags s' \<noteq> 0 then TUN_OFFLOAD_TCP else TUN_OFFLOAD_OFF)"
proof (induction ms qs ans s arbitrary: s' cs rule: offer_masks.induct)
  case (2 m ms qs ans s)
  obtain f cs1 ans1 where o: "offer_queues m qs ans = (f, cs1, ans1)" by (metis prod_cases3)
  show ?case
  proof (cases f)
    case None
    then show ?thesis using 2(2) offer_queues_last [OF o] by (auto simp: o Let_def)
  next
    case (Some qe)
    obtain q e where qe: "qe = (q, e)" by fastforce
    let ?s = "s\<lparr>o_errno := Some e, o_queue := q,
      o_reason := (if m = UDP_OFFLOAD_FLAGS then ''udp_unavailable'' else ''offload_unavailable'')\<rparr>"
    obtain r s1 cs2 where n: "offer_masks ms qs ans1 ?s = (r, s1, cs2)" by (metis prod_cases3)
    have c: "\<not> (m = 0 \<or> e = EBADF \<or> e = ENODEV)" using 2(2) by (auto simp: o Some qe Let_def split: if_split_asm)
    have e: "r = True" "s' = s1" "cs = cs1 @ cs2" using 2(2) c n by (simp_all add: o Some qe Let_def)
    show ?thesis
      using 2(1) [OF sym [OF o] Some sym [OF qe] refl refl c n [unfolded e(1)]] unfolding e by (auto simp: last_call_append)
  qed
qed simp

lemma offload_masks_mode:
  "m \<in> set (offload_masks requested has_vnet) \<Longrightarrow>
     (requested = TUN_OFFLOAD_UDP \<longrightarrow> m = UDP_OFFLOAD_FLAGS) \<and> (requested = TUN_OFFLOAD_TCP \<longrightarrow> m = TCP_OFFLOAD_FLAGS)
     \<and> (requested = TUN_OFFLOAD_OFF \<or> \<not> has_vnet \<longrightarrow> m = 0)"
  by (auto simp: offload_masks_def split: if_split_asm)

lemma offload_flags_distinct: "UDP_OFFLOAD_FLAGS \<noteq> 0" "TCP_OFFLOAD_FLAGS \<noteq> 0" "UDP_OFFLOAD_FLAGS \<noteq> TCP_OFFLOAD_FLAGS"
  by (simp_all add: UDP_OFFLOAD_FLAGS_def TCP_OFFLOAD_FLAGS_def TUN_F_CSUM_def TUN_F_TSO4_def TUN_F_TSO6_def TUN_F_USO4_def TUN_F_USO6_def)

text \<open>
  C30. When the negotiation succeeds, the last thing the kernel was told on the primary and on every
  worker queue is the recorded feature set, and it was accepted there; an explicit mode is never
  replaced by another, and without offload headers no offload is in effect.
\<close>

theorem negotiation_agreed:
  assumes "tun_negotiate count requested has_vnet ans s = (True, s', cs)"
  shows "o_complete s' \<and> (\<forall>q\<in>insert (-1) (int ` {..<count}). last_call q cs = Some (o_flags s', None))
    \<and> (requested \<noteq> TUN_OFFLOAD_AUTO \<longrightarrow> o_effective s' = requested) \<and> (\<not> has_vnet \<longrightarrow> o_effective s' = TUN_OFFLOAD_OFF)"
proof -
  note a = offer_masks_agreed [OF assms [unfolded tun_negotiate_def Let_def]]
  have "set (-1 # map int [0..<count]) = insert (-1) (int ` {..<count})" by (auto simp: lessThan_atLeast0)
  then have q: "\<forall>q\<in>insert (-1) (int ` {..<count}). last_call q cs = Some (o_flags s', None)" using a by metis
  have m: "o_flags s' \<in> set (offload_masks requested has_vnet)" using a by blast
  show ?thesis
    using a q offload_masks_mode [OF m] offload_flags_distinct by (cases requested) auto
qed

text \<open>The UDP features are refused by the second queue, once after an interrupted call; TCP is agreed on.\<close>

lemma negotiation_agreed_witness:
  "\<exists>s cs. tun_negotiate 1 TUN_OFFLOAD_AUTO True [Some EINTR, None, Some EINVAL, None] no_offload = (True, s, cs)
    \<and> o_effective s = TUN_OFFLOAD_TCP \<and> last_call 0 cs = Some (TCP_OFFLOAD_FLAGS, None)"
proof -
  have e: "tun_negotiate 1 TUN_OFFLOAD_AUTO True [Some EINTR, None, Some EINVAL, None] no_offload
    = (True, no_offload\<lparr>o_errno := Some EINVAL, o_queue := 0, o_reason := ''udp_unavailable'', o_flags := TCP_OFFLOAD_FLAGS,
        o_effective := TUN_OFFLOAD_TCP, o_complete := True\<rparr>,
       [(-1, UDP_OFFLOAD_FLAGS, Some EINTR), (-1, UDP_OFFLOAD_FLAGS, None), (0, UDP_OFFLOAD_FLAGS, Some EINVAL),
        (-1, TCP_OFFLOAD_FLAGS, None), (0, TCP_OFFLOAD_FLAGS, None)])"
    using offload_flags_distinct
    by (simp add: tun_negotiate_def offload_masks_def no_offload_def Let_def EBADF_def ENODEV_def numeral_2_eq_2 offload_ioctl.simps)
  from negotiation_agreed [OF e] show ?thesis using e by fastforce
qed

end
