(* ===== verification/Dynamic_Maint.thy ===== *)
theory Dynamic_Maint
  imports Addrmap_Inv
begin

text \<open>
  Maintenance of the dynamic pool keeps the invariant of the translator: idle leases become
  dormant, the oldest dormant ones are dissolved into the free run before them, and the leases of
  a map file are entered at start-up.
\<close>

section \<open>Idle leases\<close>

lemma dormant_cache [simp]: "cache_inv (move_to_dormant i g) = cache_inv g"
  by (rule cache_cong(1)) (simp_all add: move_to_dormant_def upd_pool_def Let_def ent4_def ent6_def fun_eq_iff
      hash_ip4_def hash_ip6_def)

lemma lease_static:
  assumes "translation_inv g" "g_dynamic_pool g = Some p" "i \<in> set (leases p)"
  shows "g_static g i = None"
proof -
  have "pool_core g p (set (leases p))" using assms(1,2) by (simp add: translation_inv_def pool_inv_def pool_shape_def)
  then obtain d where "g_dyn g i = Some d" using assms(3) by (auto simp: pool_core_def lease_ok_def)
  then show ?thesis using store_lease assms(1) by (simp add: translation_inv_def)
qed

lemma to_dormant_inv:
  assumes inv: "translation_inv g" and p: "g_dynamic_pool g = Some p" and i: "i \<in> set (dp_mapped p)"
  shows "translation_inv (move_to_dormant i g)"
    "\<exists>p'. g_dynamic_pool (move_to_dormant i g) = Some p' \<and> dp_mapped p' = list_del i (dp_mapped p)
      \<and> set (leases p') = set (leases p)"
proof -
  have s: "pool_core g p (set (leases p))" "distinct (leases p)" "store_inv g"
    using inv p by (simp_all add: translation_inv_def pool_inv_def pool_shape_def)
  have i': "i \<in> set (leases p)" "i \<notin> set (dp_dormant p)" using i s(2) by (auto simp: leases_def)
  have S: "set (leases p) = insert i (set (leases p))" using i'(1) by auto
  obtain p' where p': "g_dynamic_pool (move_to_dormant i g) = Some p'" "pool_shape (move_to_dormant i g) p'"
      "set (leases p') = set (leases p)" "dp_mapped p' = list_del i (dp_mapped p)"
    by (rule move_to_dormant_core [OF s(1) p S s(2) i'(2)]) blast
  then show "\<exists>p'. g_dynamic_pool (move_to_dormant i g) = Some p' \<and> dp_mapped p' = list_del i (dp_mapped p)
      \<and> set (leases p') = set (leases p)" by blast
  have "pool_inv (move_to_dormant i g)" using p'(1,2) by (simp add: pool_inv_def del: move_to_dormant_fields)
  then show "translation_inv (move_to_dormant i g)"
    using inv store_dormant [OF s(3) lease_static [OF inv p i'(1)]]
    by (simp add: translation_inv_def move_to_dormant_fields(5,6) table4_filter table6_filter)
qed

lemma idle_fold:
  "translation_inv g \<Longrightarrow> g_dynamic_pool g = Some p \<Longrightarrow> set is \<subseteq> set (dp_mapped p) \<Longrightarrow> distinct is
   \<Longrightarrow> translation_inv (fold lease_idle is g)
     \<and> (\<exists>p'. g_dynamic_pool (fold lease_idle is g) = Some p' \<and> set (leases p') = set (leases p))"
proof (induction "is" arbitrary: g p)
  case (Cons i js)
  show ?case
  proof (cases "lease_idle i g = g")
    case True
    then show ?thesis using Cons by simp
  next
    case False
    then have l: "lease_idle i g = move_to_dormant i g" by (auto simp: lease_idle_def split: option.splits)
    have i: "i \<in> set (dp_mapped p)" using Cons.prems by simp
    obtain p' where p': "g_dynamic_pool (move_to_dormant i g) = Some p'" "dp_mapped p' = list_del i (dp_mapped p)"
        "set (leases p') = set (leases p)"
      using to_dormant_inv(2) [OF Cons.prems(1,2) i] by blast
    have "set js \<subseteq> set (dp_mapped p')" "distinct js" using Cons.prems p'(2) by auto
    from Cons.IH [OF to_dormant_inv(1) [OF Cons.prems(1,2) i] p'(1) this] show ?thesis using l p'(3) by simp
  qed
qed simp

section \<open>Dissolving a lease\<close>

lemma prev_ref_split:
  "prev_ref r xs = Some f \<Longrightarrow> \<exists>us vs. xs = us @ f # r # vs"
proof (induction r xs rule: prev_ref.induct)
  case (1 r a b rs)
  then show ?case
    by (cases "b = r") (auto intro: exI [of _ "[]"] dest: append_Cons [THEN sym, THEN trans, rotated], metis append_Cons)
qed simp_all

lemma prev_ref_Some: "r \<in> set (tl xs) \<Longrightarrow> \<exists>f. prev_ref r xs = Some f"
proof (induction r xs rule: prev_ref.induct)
  case (1 r a b rs)
  then show ?case by (cases "b = r") auto
qed simp_all

lemma dissolve_core:
  assumes core: "pool_core g p S" and pool: "g_dynamic_pool g = Some p" and i: "i \<in> S"
  obtains p' where "g_dynamic_pool (dissolve i g) = Some p'" "pool_core (dissolve i g) p' (S - {i})"
    "dp_mapped p' = dp_mapped p" "dp_dormant p' = list_del i (dp_dormant p)"
proof -
  obtain d where d: "g_dyn g i = Some d" using core i by (auto simp: pool_core_def lease_ok_def)
  obtain rs where rs: "dp_free p = Free_Head # rs" using core by (auto simp: pool_core_def)
  have "Free_Of i \<in> set (tl (dp_free p))" using core i rs by (auto simp: pool_core_def)
  then obtain f where f: "prev_ref (Free_Of i) (dp_free p) = Some f" using prev_ref_Some by blast
  obtain us vs where sp: "dp_free p = us @ f # Free_Of i # vs" using prev_ref_split [OF f] by blast
  have dist: "distinct (dp_free p)" using core by (simp add: pool_core_def)
  have v: "valid_ref g f" by (rule core_valid_ref [OF core]) (simp add: sp)
  let ?n = "fa_count (free_at g p f) + (fa_count (d_free d) + 1)"
  obtain q where q: "g_dynamic_pool (set_count f ?n g) = Some q" "dp_map4 q = dp_map4 p" "dp_mapped q = dp_mapped p"
      "dp_dormant q = dp_dormant p" "dp_free q = dp_free p" "pool_base q = pool_base p"
      "\<And>r. free_at (set_count f ?n g) q r = (if r = f then (free_at g p f)\<lparr>fa_count := ?n\<rparr> else free_at g p r)"
    by (rule set_count_spec [OF pool v]) blast
  let ?p' = "q\<lparr>dp_free := list_del (Free_Of i) (dp_free q), dp_dormant := list_del i (dp_dormant q)\<rparr>"
  have g': "dissolve i g = (set_count f ?n g)\<lparr>g_dynamic_pool := Some ?p', g_dyn := (g_dyn (set_count f ?n g))(i := None)\<rparr>"
    by (simp add: dissolve_def pool d f Let_def upd_pool_def q(1))
  have fi: "f \<noteq> Free_Of i" "Free_Of i \<notin> set us" "Free_Of i \<notin> set vs" "f \<notin> set us" "f \<notin> set vs" using dist by (auto simp: sp)
  have "list_del (Free_Of i) us = us" "list_del (Free_Of i) vs = vs" using fi by simp_all
  then have fr: "dp_free ?p' = us @ f # vs" using fi(1) by (simp add: q(5) sp list_del_def)
  have at: "free_at (dissolve i g) ?p' r = free_at (set_count f ?n g) q r" if "r \<noteq> Free_Of i" for r
    using that by (auto simp: g' free_at_def split: free_ref.split)
  have fd: "free_at g p (Free_Of i) = d_free d" by (simp add: free_at_def d)
  have m: "map (free_at (dissolve i g) ?p') (us @ f # vs)
      = map (free_at g p) us @ (free_at g p f)\<lparr>fa_count := ?n\<rparr> # map (free_at g p) vs"
  proof -
    have "free_at (dissolve i g) ?p' x = free_at g p x" if "x \<in> set us \<union> set vs" for x
    proof -
      have "x \<noteq> Free_Of i" "x \<noteq> f" using fi that by auto
      then show ?thesis by (simp add: at q(7))
    qed
    then have "map (free_at (dissolve i g) ?p') us = map (free_at g p) us" "map (free_at (dissolve i g) ?p') vs = map (free_at g p) vs"
      by simp_all
    then show ?thesis using fi(1) by (simp add: at q(7))
  qed
  have "tiles (pool_base p) (pool_base p + pool_size p)
      (map (free_at g p) us @ (free_at g p f)\<lparr>fa_count := ?n\<rparr> # map (free_at g p) vs)"
    using tiles_join [of _ _ "map (free_at g p) us" "free_at g p f" "free_at g p (Free_Of i)"] core
    by (simp add: pool_core_def sp fd)
  then have t: "tiles (pool_base p) (pool_base p + pool_size p) (map (free_at (dissolve i g) ?p') (dp_free ?p'))"
    unfolding fr m .
  have ok: "lease_ok (dissolve i g) j" if "j \<in> S - {i}" for j
  proof -
    have "lease_ok (dissolve i g) j = lease_ok (set_count f ?n g) j" by (rule lease_ok_cong) (use that in \<open>simp add: g'\<close>)
    then show ?thesis using that core by (simp add: pool_core_def)
  qed
  have h: "\<exists>rs. dp_free ?p' = Free_Head # rs" unfolding q(5) using rs by (simp add: list_del_def)
  have st: "set (dp_free ?p') = insert Free_Head (Free_Of ` (S - {i}))" using core by (auto simp: q(5) pool_core_def)
  have "pool_core (dissolve i g) ?p' (S - {i})"
    unfolding pool_core_def
  proof (intro conjI)
    show "\<exists>rs. dp_free ?p' = Free_Head # rs" "set (dp_free ?p') = insert Free_Head (Free_Of ` (S - {i}))" by (rule h st)+
    show "distinct (dp_free ?p')" using dist by (simp add: q(5) distinct_list_del)
    show "\<forall>j\<in>S - {i}. lease_ok (dissolve i g) j" using ok by blast
    show "tiles (pool_base ?p') (pool_base ?p' + pool_size ?p') (map (free_at (dissolve i g) ?p') (dp_free ?p'))"
      using t q(2,6) by (simp add: pool_base_def pool_size_def)
  qed (use core q(2,6) in \<open>auto simp: pool_core_def g' pool_base_def pool_size_def\<close>)
  then show thesis using that [of ?p'] by (simp add: g' q)
qed

lemma dissolve_frames:
  "g_map4_list (dissolve i g) = g_map4_list g" "g_map6_list (dissolve i g) = g_map6_list g"
  "cache_inv (dissolve i g) = cache_inv g" "g_static (dissolve i g) = g_static g" "g_alloc (dissolve i g) = g_alloc g"
proof -
  show "cache_inv (dissolve i g) = cache_inv g"
    by (rule cache_cong(1)) (auto simp: dissolve_def upd_pool_def set_count_def set_d_def Let_def ent4_def ent6_def fun_eq_iff
        hash_ip4_def hash_ip6_def split: option.split free_ref.split)
qed (auto simp: dissolve_def upd_pool_def set_count_def set_d_def Let_def split: option.split free_ref.split)

lemma dissolve_maps: "maps_of (dissolve i g) j = maps_of g j \<or> maps_of (dissolve i g) j = None"
proof (cases "g_dynamic_pool g = None \<or> g_dyn g i = None")
  case True
  then show ?thesis by (auto simp: dissolve_def split: option.split)
next
  case False
  then obtain p d where p: "g_dynamic_pool g = Some p" "g_dyn g i = Some d" by auto
  have c: "maps_of (set_count f n g) = maps_of g" for f n
    by (auto simp: maps_of_def set_count_def set_d_def upd_pool_def fun_eq_iff split: free_ref.split option.split)
  show ?thesis
  proof (cases "prev_ref (Free_Of i) (dp_free p)")
    case (Some f)
    let ?n = "fa_count (free_at g p f) + (fa_count (d_free d) + 1)"
    have "maps_of (dissolve i g) j = (if j = i then None else maps_of (set_count f ?n g) j)"
      by (simp add: dissolve_def p Some Let_def upd_pool_def maps_of_def)
    then show ?thesis by (simp add: c)
  qed (simp add: dissolve_def p Let_def upd_pool_def maps_of_def)
qed

lemma store_dissolve:
  assumes "store_inv g"
  shows "store_inv (dissolve i g)"
proof -
  have st: "statics_ok g" "ids_free g" "leases_own g" "file_both g" using assms by (simp_all add: store_inv_def)
  have m: "maps_of (dissolve i g) j = maps_of g j \<or> maps_of (dissolve i g) j = None" for j
    by (rule dissolve_maps)
  have "ids_free (dissolve i g)"
    using st(2) m unfolding ids_free_def maps_of_None dissolve_frames by metis
  moreover have "leases_own (dissolve i g)"
    unfolding leases_own_maps dissolve_frames
  proof
    fix j
    have "case maps_of g j of None \<Rightarrow> True | Some (a, b) \<Rightarrow> g_static g j = None \<and> m4_obj a = j \<and> m6_obj b = j"
      using st(3) unfolding leases_own_maps by blast
    then show "case maps_of (dissolve i g) j of None \<Rightarrow> True | Some (a, b) \<Rightarrow> g_static g j = None \<and> m4_obj a = j \<and> m6_obj b = j"
      using m [of j] by (elim disjE) simp_all
  qed
  moreover have "statics_ok (dissolve i g) = statics_ok g" "file_both (dissolve i g) = file_both g"
    by (simp_all add: statics_ok_def file_both_def dissolve_frames)
  ultimately show ?thesis using st by (simp add: store_inv_def)
qed

lemma dissolve_inv:
  assumes inv: "translation_inv g" and p: "g_dynamic_pool g = Some p" and i: "i \<in> set (dp_dormant p)"
  shows "translation_inv (dissolve i g)"
    "\<exists>p'. g_dynamic_pool (dissolve i g) = Some p' \<and> dp_dormant p' = list_del i (dp_dormant p) \<and> dp_mapped p' = dp_mapped p"
proof -
  have s: "pool_core g p (set (leases p))" "distinct (leases p)" "store_inv g"
    using inv p by (simp_all add: translation_inv_def pool_inv_def pool_shape_def)
  have i': "i \<in> set (leases p)" "i \<notin> set (dp_mapped p)" using i s(2) by (auto simp: leases_def)
  obtain p' where p': "g_dynamic_pool (dissolve i g) = Some p'" "pool_core (dissolve i g) p' (set (leases p) - {i})"
      "dp_mapped p' = dp_mapped p" "dp_dormant p' = list_del i (dp_dormant p)"
    by (rule dissolve_core [OF s(1) p i'(1)]) blast
  then show "\<exists>p'. g_dynamic_pool (dissolve i g) = Some p' \<and> dp_dormant p' = list_del i (dp_dormant p) \<and> dp_mapped p' = dp_mapped p"
    by blast
  have "set (leases p') = set (leases p) - {i}" "distinct (leases p')"
    using s(2) i'(2) by (auto simp: leases_def p'(3,4) intro: distinct_list_del)
  then have "pool_inv (dissolve i g)" using p'(1,2) by (simp add: pool_inv_def pool_shape_def)
  then show "translation_inv (dissolve i g)"
    using inv store_dissolve [OF s(3)] by (simp add: translation_inv_def dissolve_frames)
qed

lemma dissolve_old_inv:
  "translation_inv g \<Longrightarrow> g_dynamic_pool g = Some p \<Longrightarrow> set is \<subseteq> set (dp_dormant p) \<Longrightarrow> distinct is
   \<Longrightarrow> translation_inv (dissolve_old is g)"
proof (induction "is" arbitrary: g p)
  case (Cons i js)
  have i: "i \<in> set (dp_dormant p)" using Cons.prems by simp
  obtain p' where p': "g_dynamic_pool (dissolve i g) = Some p'" "dp_dormant p' = list_del i (dp_dormant p)"
    using dissolve_inv(2) [OF Cons.prems(1,2) i] by blast
  have "set js \<subseteq> set (dp_dormant p')" "distinct js" using Cons.prems p'(2) by auto
  from Cons.IH [OF dissolve_inv(1) [OF Cons.prems(1,2) i] p'(1) this] show ?case using Cons.prems(1) by simp
qed simp

section \<open>Maintenance\<close>

lemma sweep_inv:
  assumes "translation_inv g"
  shows "translation_inv (dynamic_sweep g)"
proof (cases "g_dynamic_pool g")
  case (Some p)
  have d: "distinct (dp_mapped p)" using assms Some by (simp add: translation_inv_def pool_inv_def pool_shape_def leases_def)
  obtain p' where p': "translation_inv (fold lease_idle (dp_mapped p) g)" "g_dynamic_pool (fold lease_idle (dp_mapped p) g) = Some p'"
    using idle_fold [OF assms Some order_refl d] by blast
  then have "distinct (rev (dp_dormant p'))" by (simp add: translation_inv_def pool_inv_def pool_shape_def leases_def)
  then show ?thesis using dissolve_old_inv [OF p'] by (simp add: dynamic_sweep_def Some p'(2) Let_def)
qed (use assms in \<open>simp add: dynamic_sweep_def\<close>)

lemma write_frames:
  "translation_inv (g\<lparr>g_map_write_pending := b\<rparr>) = translation_inv g"
  "translation_inv (g\<lparr>g_last_map_write := t\<rparr>) = translation_inv g"
proof -
  have "dyn_same g (g\<lparr>g_map_write_pending := b\<rparr>)" "dyn_same g (g\<lparr>g_last_map_write := t\<rparr>)" by (simp_all add: dyn_same_def)
  note p = this [THEN dyn_same_pool_inv]
  have "cache_inv (g\<lparr>g_last_map_write := t\<rparr>) = cache_inv g" "store_inv (g\<lparr>g_last_map_write := t\<rparr>) = store_inv g"
    by (rule cache_cong(1) store_cong; simp add: ent4_def ent6_def fun_eq_iff hash_ip4_def hash_ip6_def maps_of_def)+
  then show "translation_inv (g\<lparr>g_map_write_pending := b\<rparr>) = translation_inv g"
    "translation_inv (g\<lparr>g_last_map_write := t\<rparr>) = translation_inv g"
    using p by (simp_all add: translation_inv_def)
qed

lemma maint_inv: "translation_inv g \<Longrightarrow> translation_inv (snd (dynamic_maint shutdown mem_ok write_ok g))"
  using sweep_inv [of g] by (simp add: dynamic_maint_def Let_def write_frames)

end
