(* ===== verification/Dynamic_Load.thy ===== *)
theory Dynamic_Load
  imports Dynamic_Maint Text
begin

text \<open>
  Loading the leases of the map file of the dynamic pool (\<open>load_dynamic\<close> of \<open>src/src/dynamic.c\<close>),
  from the text of the file on. Whatever the file holds, the state stays consistent.
\<close>

section \<open>The rows of the file\<close>

text \<open>One line: \<open>None\<close> for a comment, an empty line, an oversized line and a malformed one.\<close>

definition read_row :: "string \<Rightarrow> (in6_addr \<times> in_addr \<times> int) option" where
  "read_row line =
     (if length line + 1 = 512 then None
      else
        (case tokens line of
           [s4, s6, stime] \<Rightarrow>
             (if hd s4 = CHR ''#'' then None
              else
                (case (inet_pton4 s4, inet_pton6 s6) of
                   (Some addr4, Some addr6) \<Rightarrow>
                     (case strtol stime of
                        (last_use, rest, _) \<Rightarrow> if last_use \<le> 0 \<or> rest \<noteq> [] then None else Some (addr6, addr4, last_use))
                 | _ \<Rightarrow> None))
         | _ \<Rightarrow> None))"

text \<open>The argument is the content of the file, \<open>None\<close> when it cannot be opened.\<close>

definition load_dynamic_file :: "string option \<Rightarrow> int \<Rightarrow> gstate \<Rightarrow> gstate" where
  "load_dynamic_file content time g =
     (case (g_dynamic_pool g, content) of
        (Some _, Some text) \<Rightarrow> load_dynamic (List.map_filter read_row (file_lines text)) time g
      | _ \<Rightarrow> g)"

section \<open>One row\<close>

lemma translation_pool:
  "translation_inv g \<Longrightarrow> g_dynamic_pool g = Some p \<Longrightarrow> pool_core g p (set (leases p)) \<and> distinct (leases p)"
  by (simp add: translation_inv_def pool_inv_def pool_shape_def)

text \<open>A new lease, not on a list yet, becomes dormant.\<close>

lemma park_new_inv:
  assumes core: "pool_core g p (insert i (set (leases p)))" and p: "g_dynamic_pool g = Some p"
    and d: "distinct (leases p)" "i \<notin> set (leases p)" and dy: "g_dyn g i = Some dd"
    and t: "table4 (g_map4_list g)" "table6 (g_map6_list g)" "cache_inv g" "store_inv g"
  shows "translation_inv (move_to_dormant i (set_d i (dd\<lparr>d_last_use := u\<rparr>) g))"
proof -
  let ?g = "set_d i (dd\<lparr>d_last_use := u\<rparr>) g"
  have s: "dyn_same g ?g" by (rule set_d_same [OF dy]) simp_all
  have f: "g_alloc ?g = g_alloc g" "g_map4_list ?g = g_map4_list g" "g_map6_list ?g = g_map6_list g"
    "g_dynamic_pool ?g = Some p" "g_static ?g = g_static g"
    using p by (simp_all add: set_d_def)
  have c: "pool_core ?g p (insert i (set (leases p)))"
    using core by (simp add: pool_core_def dyn_same_free [OF s] dyn_same_lease [OF s] f(1))
  have n: "i \<notin> set (dp_dormant p)" using d(2) by (simp add: leases_def)
  obtain p' where p': "g_dynamic_pool (move_to_dormant i ?g) = Some p'" "pool_shape (move_to_dormant i ?g) p'"
    by (rule move_to_dormant_core [OF c f(4) refl d(1) n])
  have "store_inv ?g" by (rule store_set_d [OF t(4) dy]) simp_all
  moreover have "g_static ?g i = None" using store_lease [OF t(4) dy] f(5) by simp
  ultimately have st: "store_inv (move_to_dormant i ?g)" by (rule store_dormant)
  have "pool_inv (move_to_dormant i ?g)" using p' by (simp add: pool_inv_def del: move_to_dormant_fields)
  then show ?thesis
    using t(1-3) st by (simp add: translation_inv_def move_to_dormant_fields(5,6) f(2,3) table4_filter table6_filter)
qed

lemma find_free:
  assumes "pool_core g p S" "List.find (\<lambda>f. fa_addr (free_at g p f) + fa_count (free_at g p f) \<ge> a) (dp_free p) = Some f"
    "\<not> fa_addr (free_at g p f) \<ge> a"
  shows "f \<in> set (dp_free p)" "fa_addr (free_at g p f) < a"
    "unat a \<le> unat (fa_addr (free_at g p f)) + unat (fa_count (free_at g p f))"
proof -
  show "f \<in> set (dp_free p)" "fa_addr (free_at g p f) < a" using assms(2,3) by (auto simp: find_Some_iff)
  have "a \<le> fa_addr (free_at g p f) + fa_count (free_at g p f)" using assms(2) by (auto simp: find_Some_iff)
  then show "unat a \<le> unat (fa_addr (free_at g p f)) + unat (fa_count (free_at g p f))"
    using unat_word_ariths(1) [of "fa_addr (free_at g p f)" "fa_count (free_at g p f)"]
    by (simp add: word_le_nat_alt)
qed

lemma load_map_inv:
  assumes inv: "translation_inv g"
  shows "translation_inv (load_map a6 a4 t g)"
proof (cases "load_map a6 a4 t g = g")
  case False
  then obtain p where p: "g_dynamic_pool g = Some p" by (auto simp: load_map_def split: option.splits)
  have sh: "pool_core g p (set (leases p))" "distinct (leases p)" using translation_pool [OF inv p] by simp_all
  from False p obtain f where f: "List.find (\<lambda>f. fa_addr (free_at g p f) + fa_count (free_at g p f) \<ge> ntohl a4) (dp_free p) = Some f"
    and nf: "\<not> fa_addr (free_at g p f) \<ge> ntohl a4"
    and eq: "load_map a6 a4 t g = (case alloc_map_dynamic a6 a4 f g of
        (None, g) \<Rightarrow> g
      | (Some i, g) \<Rightarrow> (case g_dyn g i of Some d \<Rightarrow> move_to_dormant i (set_d i (d\<lparr>d_last_use := t\<rparr>) g) | None \<Rightarrow> g))"
    by (simp add: load_map_def Let_def split: if_split_asm option.splits)
  note ff = find_free [OF sh(1) f nf]
  show ?thesis
  proof (cases "g_alloc g")
    case Nil
    then show ?thesis using inv eq by (simp add: alloc_map_dynamic_def)
  next
    case (Cons i ids)
    obtain p' g' where a: "alloc_map_dynamic a6 a4 f g = (Some i, g')" "g_dynamic_pool g' = Some p'"
      "pool_core g' p' (insert i (set (leases p)))" "dp_mapped p' = dp_mapped p" "dp_dormant p' = dp_dormant p"
      "i \<notin> set (leases p)" "g_map4_list g' = g_map4_list g" "g_map6_list g' = g_map6_list g"
      "\<exists>fa. g_dyn g' i = Some (new_lease i a6 a4 fa)"
      by (rule alloc_core [OF sh(1) p ff(1) Cons ff(2,3), of a6]) blast
    obtain fa where fa: "g_dyn g' i = Some (new_lease i a6 a4 fa)" using a(9) by blast
    have l: "leases p' = leases p" by (simp add: leases_def a(4,5))
    have "translation_inv (move_to_dormant i (set_d i ((new_lease i a6 a4 fa)\<lparr>d_last_use := t\<rparr>) g'))"
    proof (rule park_new_inv [OF _ a(2) _ _ fa])
      show "pool_core g' p' (insert i (set (leases p')))" "distinct (leases p')" "i \<notin> set (leases p')"
        using a(3,6) sh(2) by (simp_all add: l)
      show "store_inv g'" using store_alloc [OF _ a(1)] inv by (simp add: translation_inv_def)
      show "cache_inv g'" using alloc_cache [OF a(1)] inv by (simp add: translation_inv_def)
    qed (use inv in \<open>simp_all add: translation_inv_def a(7,8)\<close>)
    then show ?thesis unfolding eq a(1) by (simp add: fa)
  qed
qed (use inv in simp)

section \<open>The file\<close>

lemma load_rows_inv: "translation_inv g \<Longrightarrow> translation_inv (fold (\<lambda>(a6, a4, t) g. load_map a6 a4 t g) rows g)"
  by (induction rows arbitrary: g) (auto intro: load_map_inv)

lemma set_last_use_inv: "translation_inv g \<Longrightarrow> translation_inv (set_last_use i t g)"
  by (auto simp: set_last_use_def last_use_inv split: option.split)

lemma set_last_uses_inv: "translation_inv g \<Longrightarrow> translation_inv (fold (\<lambda>i g. set_last_use i (f g) g) is g)"
  by (induction "is" arbitrary: g) (auto intro: set_last_use_inv)

lemma now_inv: "translation_inv (g\<lparr>g_now := t\<rparr>) = translation_inv g"
proof -
  have "dyn_same g (g\<lparr>g_now := t\<rparr>)" by (simp add: dyn_same_def)
  then have "pool_inv (g\<lparr>g_now := t\<rparr>) = pool_inv g" by (rule dyn_same_pool_inv) simp_all
  moreover have "cache_inv (g\<lparr>g_now := t\<rparr>) = cache_inv g" "store_inv (g\<lparr>g_now := t\<rparr>) = store_inv g"
    by (rule cache_cong(1) store_cong; simp add: ent4_def ent6_def fun_eq_iff hash_ip4_def hash_ip6_def maps_of_def)+
  ultimately show ?thesis by (simp add: translation_inv_def)
qed

lemma to_mapped_inv:
  assumes inv: "translation_inv g" and p: "g_dynamic_pool g = Some p" and i: "i \<in> set (leases p)"
  shows "translation_inv (move_to_mapped i g)"
    "\<exists>p'. g_dynamic_pool (move_to_mapped i g) = Some p' \<and> set (leases p') = set (leases p)"
proof -
  have sh: "pool_core g p (set (leases p))" "distinct (leases p)" using translation_pool [OF inv p] by simp_all
  have S: "set (leases p) = insert i (set (leases p))" using i by auto
  obtain p' where p': "g_dynamic_pool (move_to_mapped i g) = Some p'" "pool_shape (move_to_mapped i g) p'"
      "set (leases p') = set (leases p)"
    by (rule move_to_mapped_core [OF sh(1) p i S sh(2)]) blast
  then show "\<exists>p'. g_dynamic_pool (move_to_mapped i g) = Some p' \<and> set (leases p') = set (leases p)" by blast
  obtain d where d: "g_dyn g i = Some d" using sh(1) i by (auto simp: pool_core_def lease_ok_def)
  have "wf_map4 (d_map4 d)" "wf_map6 (d_map6 d)" using lease_maps_wf [OF sh(1) i d] by simp_all
  then have "table4 (g_map4_list (move_to_mapped i g))" "table6 (g_map6_list (move_to_mapped i g))"
    using move_to_mapped_tables [OF _ _ d] inv by (simp_all add: translation_inv_def)
  moreover have "pool_inv (move_to_mapped i g)" using p'(1,2) by (simp add: pool_inv_def)
  ultimately show "translation_inv (move_to_mapped i g)"
    using inv store_mapped [of g i] by (simp add: translation_inv_def)
qed

lemma activate_recent_inv:
  "translation_inv g \<Longrightarrow> g_dynamic_pool g = Some p \<Longrightarrow> set is \<subseteq> set (leases p) \<Longrightarrow> translation_inv (activate_recent is g)"
proof (induction "is" arbitrary: g p)
  case (Cons i js)
  have i: "i \<in> set (leases p)" using Cons.prems(3) by simp
  obtain p' where "g_dynamic_pool (move_to_mapped i g) = Some p'" "set (leases p') = set (leases p)"
    using to_mapped_inv(2) [OF Cons.prems(1,2) i] by blast
  then have "translation_inv (activate_recent js (move_to_mapped i g))"
    using Cons.IH [OF to_mapped_inv(1) [OF Cons.prems(1,2) i]] Cons.prems(3) by simp
  then show ?case using Cons.prems(1) by simp
qed simp

lemma load_dynamic_inv:
  assumes "translation_inv g"
  shows "translation_inv (load_dynamic rows time g)"
proof (cases "g_dynamic_pool g")
  case (Some q)
  let ?g = "(fold (\<lambda>(a6, a4, t) g. load_map a6 a4 t g) rows g)\<lparr>g_now := time\<rparr>"
  let ?d = "case g_dynamic_pool ?g of Some p \<Rightarrow> dp_dormant p | None \<Rightarrow> []"
  have i: "translation_inv ?g" using load_rows_inv [OF assms] by (simp only: now_inv)
  have "translation_inv (activate_recent ?d ?g)"
  proof (cases "g_dynamic_pool ?g")
    case (Some p)
    show ?thesis by (rule activate_recent_inv [OF i Some]) (simp add: Some leases_def)
  qed (use i in simp)
  then show ?thesis
    unfolding load_dynamic_def Some option.case Let_def using set_last_uses_inv [OF i] by presburger
qed (use assms in \<open>simp add: load_dynamic_def\<close>)

lemma load_dynamic_file_inv: "translation_inv g \<Longrightarrow> translation_inv (load_dynamic_file content time g)"
  by (simp add: load_dynamic_file_def load_dynamic_inv split: option.split)

end
