(* ===== verification/Daemon.thy ===== *)
theory Daemon
  imports Config Reload Device Dynamic_Load Handle
begin

text \<open>
  The main program (\<open>src/src/tayga.c\<close>): the order in which \<open>main\<close> starts the components, and the
  steps of the running daemon. The outside world is an argument: the contents of the files, the
  clock, the random numbers, the answers of the kernel. Command line, change of user and
  directory, threads, signals' delivery and messages are outside.
\<close>

section \<open>Start\<close>

record env =
  e_conffile :: "string option"
  e_state_dir :: "string option"
  e_map_file :: "string option"
  e_map_io :: bool
  e_rand :: "nat \<Rightarrow> u32"
  e_dynamic_map :: "string option"
  e_time :: int
  e_mem :: bool
  e_device :: device
  e_buffer :: mem

text \<open>The map file is read after the configuration is valid; a failure ends the start.\<close>

definition start_maps :: "env \<Rightarrow> config \<Rightarrow> err \<times> gstate" where
  "start_maps env c =
     (if c_map_file c \<noteq> [] then addrmap_reload True (e_map_file env) (e_map_io env) (c_g c) else (ERROR_NONE, c_g c))"

text \<open>The random numbers of the cache; the first one is made odd.\<close>

definition seed_cache :: "(nat \<Rightarrow> u32) \<Rightarrow> gstate \<Rightarrow> gstate" where
  "seed_cache r g = (if g_cache_size g > 0 then g\<lparr>g_rand := r(0 := r 0 OR 1)\<rparr> else g)"

definition start_leases :: "env \<Rightarrow> gstate \<Rightarrow> gstate" where
  "start_leases env g =
     (if g_data_dir g \<and> g_dynamic_pool g \<noteq> None then load_dynamic_file (e_dynamic_map env) (e_time env) g else g)"

definition start_cache :: "env \<Rightarrow> gstate \<Rightarrow> err \<times> gstate" where
  "start_cache env g = (if g_cache_size g > 0 then create_cache (e_mem env) g else (ERROR_NONE, g))"

text \<open>
  The running daemon: the state of the translator and its device, whether a map file is configured,
  the times of the last maintenance and whether the main loop has been left.
\<close>

record daemon =
  dm_w :: world
  dm_map_file :: bool
  dm_last_cache :: int
  dm_last_dynamic :: int
  dm_stop :: bool

definition main_start :: "env \<Rightarrow> gstate \<Rightarrow> daemon option" where
  "main_start env g0 =
     (case config_read (e_conffile env) (config_init g0) of
        (ERROR_NONE, c) \<Rightarrow>
          (case config_validate (e_state_dir env) c of
             (ERROR_NONE, c) \<Rightarrow>
               (case start_maps env c of
                  (ERROR_NONE, g) \<Rightarrow>
                    (case start_cache env (start_leases env (seed_cache (e_rand env) g)) of
                       (ERROR_NONE, g) \<Rightarrow>
                         (case tun_setup (c_tun_offload c) (e_device env) (e_buffer env) g of
                            None \<Rightarrow> None
                          | Some w \<Rightarrow> Some \<lparr>dm_w = w, dm_map_file = c_map_file c \<noteq> [], dm_last_cache = 0,
                              dm_last_dynamic = 0, dm_stop = False\<rparr>)
                     | _ \<Rightarrow> None)
                | _ \<Rightarrow> None)
           | _ \<Rightarrow> None)
      | _ \<Rightarrow> None)"

section \<open>The main loop\<close>

definition upd_w :: "(gstate \<Rightarrow> gstate) \<Rightarrow> daemon \<Rightarrow> daemon" where
  "upd_w f d = d\<lparr>dm_w := (dm_w d)\<lparr>w_g := f (w_g (dm_w d))\<rparr>\<rparr>"

definition flush_leases :: "bool \<Rightarrow> bool \<Rightarrow> gstate \<Rightarrow> gstate" where
  "flush_leases mem_ok write_ok g = (if g_dynamic_pool g \<noteq> None then snd (dynamic_maint True mem_ok write_ok g) else g)"

text \<open>\<open>SIGHUP\<close> reloads the map file and saves the leases; the signals that end the daemon save them too.\<close>

definition signal_hup :: "bool \<Rightarrow> string option \<Rightarrow> bool \<Rightarrow> bool \<Rightarrow> bool \<Rightarrow> gstate \<Rightarrow> gstate" where
  "signal_hup map_file content io_ok mem_ok write_ok g =
     flush_leases mem_ok write_ok (snd (addrmap_reload map_file content io_ok g))"

text \<open>The end of each turn of the loop: the clock, and the two kinds of maintenance when they are due.\<close>

definition main_turn :: "int \<Rightarrow> bool \<Rightarrow> bool \<Rightarrow> daemon \<Rightarrow> daemon" where
  "main_turn now mem_ok write_ok d =
     (let d = upd_w (\<lambda>g. g\<lparr>g_now := now\<rparr>) d;
          g = w_g (dm_w d);
          d = (if g_cache_size g > 0 \<and> (dm_last_cache d + CACHE_CHECK_INTERVAL < now \<or> dm_last_cache d > now)
               then (upd_w addrmap_maint d)\<lparr>dm_last_cache := now\<rparr> else d);
          g = w_g (dm_w d)
      in if g_dynamic_pool g \<noteq> None \<and> (dm_last_dynamic d + POOL_CHECK_INTERVAL < now \<or> dm_last_dynamic d > now)
         then (upd_w (\<lambda>g. snd (dynamic_maint False mem_ok write_ok g)) d)\<lparr>dm_last_dynamic := now\<rparr> else d)"

text \<open>
  The steps. A frame is read into the buffer of the thread that reads it, which holds whatever is
  left from before; the device decides about the writes to come.
\<close>

inductive daemon_step :: "daemon \<Rightarrow> daemon \<Rightarrow> bool" where
  frame: "\<not> dm_stop d \<Longrightarrow> (\<And>bytes. input = Inr bytes \<Longrightarrow> length bytes \<le> read_len (dm_w d))
    \<Longrightarrow> tun_read_packet input fd ((dm_w d)\<lparr>w_mem := buffer\<rparr>) = Some (r, w)
    \<Longrightarrow> daemon_step d (d\<lparr>dm_w := w, dm_stop := (r = TUN_READ_FATAL)\<rparr>)"
| turn: "\<not> dm_stop d \<Longrightarrow> daemon_step d (main_turn now mem_ok write_ok d)"
| hup: "\<not> dm_stop d \<Longrightarrow> daemon_step d (upd_w (signal_hup (dm_map_file d) content io_ok mem_ok write_ok) d)"
| quit: "\<not> dm_stop d \<Longrightarrow> daemon_step d ((upd_w (flush_leases mem_ok write_ok) d)\<lparr>dm_stop := True\<rparr>)"
| device: "\<not> dm_stop d \<Longrightarrow> daemon_step d (d\<lparr>dm_w := (dm_w d)\<lparr>w_io := io\<rparr>\<rparr>)"

text \<open>The states the daemon reaches.\<close>

inductive reachable :: "env \<Rightarrow> gstate \<Rightarrow> daemon \<Rightarrow> bool" for env g0 where
  start: "main_start env g0 = Some d \<Longrightarrow> reachable env g0 d"
| step: "reachable env g0 d \<Longrightarrow> daemon_step d d' \<Longrightarrow> reachable env g0 d'"

end
