(* ===== verification/Daemon_Laws.thy ===== *)
theory Daemon_Laws
  imports Daemon Config_Laws Reload_Laws Handle_Laws
begin

text \<open>
  The state of the translator is consistent in every state the daemon reaches, from any accepted
  configuration and in any order of frames, signals and maintenance, and every frame that arrives
  in such a state is processed to the end.
\<close>

section \<open>What keeps the configuration\<close>

lemma conf_retire [simp]: "conf (retire c g) = conf g"
  by (simp add: retire_def report_ageout_def unhash_def Let_def split: option.split)

lemma conf_fold: "(\<And>x g. conf (f x g) = conf g) \<Longrightarrow> conf (fold f xs g) = conf g"
  by (induction xs arbitrary: g) simp_all

lemma conf_maint [simp]: "conf (addrmap_maint g) = conf g"
  unfolding addrmap_maint_def by (rule conf_fold) (simp add: maint_entry_def)

lemma conf_static [simp]: "conf (g\<lparr>g_static := s\<rparr>) = conf g" "conf (g\<lparr>g_last_map_write := t\<rparr>) = conf g"
  by (simp_all add: conf_def)

lemma conf_dormant [simp]: "conf (move_to_dormant i g) = conf g"
  by (simp add: move_to_dormant_def Let_def)

lemma conf_idle [simp]: "conf (lease_idle i g) = conf g"
  by (simp add: lease_idle_def split: option.split)

lemma conf_set_count [simp]: "conf (set_count f n g) = conf g"
  by (simp add: set_count_def split: free_ref.split option.split)

lemma conf_dissolve [simp]: "conf (dissolve i g) = conf g"
  by (simp add: dissolve_def Let_def split: option.split)

lemma conf_dissolve_old [simp]: "conf (dissolve_old is g) = conf g"
  by (induction "is" arbitrary: g) simp_all

lemma conf_dynamic_maint [simp]: "conf (snd (dynamic_maint s mem_ok write_ok g)) = conf g"
  by (simp add: dynamic_maint_def dynamic_sweep_def Let_def conf_fold)

lemma conf_remove [simp]: "conf (remove_file_map m g) = conf g"
  by (simp add: remove_file_map_def split: option.split)

lemma conf_install [simp]: "conf (install m g) = conf g"
  by (simp add: install_def Let_def)

lemma conf_reload [simp]: "conf (snd (addrmap_reload b content io_ok g)) = conf g"
  by (simp add: addrmap_reload_def publish_maps_def flush_cache_def conf_fold Let_def split: option.split prod.split)

section \<open>What keeps the state consistent\<close>

lemma retire_only: "cache_only g (retire c g)"
  using retire_dyn [of g c] by (simp add: cache_only_def retire_fields)

lemma addrmap_maint_trans: "translation_inv g \<Longrightarrow> translation_inv (addrmap_maint g)"
proof -
  assume g: "translation_inv g"
  have "cache_only g (fold maint_entry cs g)" for cs and g :: gstate
  proof (induction cs arbitrary: g)
    case (Cons c cs)
    have "cache_only g (maint_entry c g)" by (simp add: maint_entry_def retire_only)
    then show ?case using Cons.IH [of "maint_entry c g"] cache_only_trans by simp
  qed simp
  then have o: "cache_only g (addrmap_maint g)" by (simp add: addrmap_maint_def)
  show ?thesis by (rule cache_only_inv [OF o g addrmap_maint_inv(1)]) (use g in \<open>simp add: translation_inv_def\<close>)
qed


section \<open>The start\<close>

lemma conf_load_map [simp]: "conf (load_map a6 a4 t g) = conf g"
  by (auto simp: load_map_def Let_def conf_alloc split: option.split prod.split)

lemma conf_set_last_use [simp]: "conf (set_last_use i t g) = conf g"
  by (simp add: set_last_use_def split: option.split)

lemma conf_activate [simp]: "conf (activate_recent is g) = conf g"
  by (induction "is" arbitrary: g) simp_all

lemma conf_load_rows [simp]: "conf (fold (\<lambda>(a6, a4, t) g. load_map a6 a4 t g) rows g) = conf g"
  by (rule conf_fold) (simp split: prod.split)

definition mtus :: "gstate \<Rightarrow> u16 \<times> u32" where
  "mtus g = (g_mtu g, g_ipv6_offlink_mtu g)"

lemma mtus_conf: "conf g' = conf g \<Longrightarrow> mtus g' = mtus g"
  by (simp add: conf_def mtus_def)

lemma mtus_now [simp]: "mtus (g\<lparr>g_now := t\<rparr>) = mtus g" "mtus (g\<lparr>g_rand := r\<rparr>) = mtus g"
  by (simp_all add: mtus_def)

lemma mtus_load: "mtus (load_dynamic rows time g) = mtus g"
proof -
  let ?g = "fold (\<lambda>(a6, a4, t) g. load_map a6 a4 t g) rows g"
  have f: "mtus ?g = mtus g" by (rule mtus_conf) simp
  have "mtus (fold (\<lambda>i g. set_last_use i (u g) g) is h) = mtus h" for "is" u h
    by (rule mtus_conf, rule conf_fold) simp
  moreover have "mtus (activate_recent is h) = mtus h" for "is" h by (rule mtus_conf) simp
  ultimately show ?thesis using f by (simp add: load_dynamic_def Let_def split: option.split)
qed

lemma mtus_load_file [simp]: "mtus (load_dynamic_file content time g) = mtus g"
  by (simp add: load_dynamic_file_def mtus_load split: option.split)

lemma setup_running:
  assumes "setup_inv g"
  shows "translation_inv g" "cache_pairs g = {}"
proof -
  have "cache_inv g" "cache_pairs g = {}" using assms by (simp_all add: setup_inv_def cache_inv_def cache_pairs_def)
  then show "translation_inv g" "cache_pairs g = {}"
    using setup_translation(1) [OF assms] assms by (simp_all add: translation_inv_def setup_inv_def)
qed

lemma seed_inv:
  assumes g: "translation_inv g" "cache_pairs g = {}"
  shows "translation_inv (seed_cache r g)"
proof -
  have a: "g_cache_active g = []" using g(2) by (simp add: cache_pairs_def)
  have "cache_inv (g\<lparr>g_rand := r'\<rparr>)" for r'
    using g(1) a by (simp add: translation_inv_def cache_inv_def)
  moreover have "cache_only g (g\<lparr>g_rand := r'\<rparr>)" for r' by (simp add: cache_only_def dyn_same_def)
  ultimately show ?thesis using cache_only_inv [OF _ g(1)] g(1) by (simp add: seed_cache_def)
qed

lemma rehash_only: "cache_only g (rehash c g)"
  by (simp add: rehash_def add_to_hash_table_def cache_only_def dyn_same_def Let_def)

lemma create_cache_trans:
  assumes g: "translation_inv g"
  shows "translation_inv (snd (create_cache mem_ok g))" "conf (snd (create_cache mem_ok g)) = conf g"
proof -
  have h: "conf (g\<lparr>g_hash_table4 := (\<lambda>_. []), g_hash_table6 := (\<lambda>_. [])\<rparr>) = conf g" by simp
  have r: "conf (fold rehash cs g) = conf g" for cs g
    by (rule conf_fold) (simp add: rehash_def add_to_hash_table_def Let_def)
  show "conf (snd (create_cache mem_ok g)) = conf g" using h r by (simp add: create_cache_def Let_def)
  have f: "cache_only g (fold rehash cs g)" for cs and g :: gstate
    by (induction cs arbitrary: g) (auto intro: cache_only_trans [OF rehash_only])
  have c: "cache_inv g" using g by (simp add: translation_inv_def)
  have "cache_only g (g\<lparr>g_hash_table4 := (\<lambda>_. []), g_hash_table6 := (\<lambda>_. [])\<rparr>)" by (simp add: cache_only_def dyn_same_def)
  from cache_only_trans [OF this f] have o: "cache_only g (snd (create_cache True g))"
    by (auto simp: create_cache_def Let_def) (simp add: cache_only_def dyn_same_def)
  have "cache_inv (snd (create_cache True g))"
    by (rule create_cache_inv(1)) (use c in \<open>simp add: cache_inv_def\<close>)
  then have "translation_inv (snd (create_cache True g))" by (rule cache_only_inv [OF o g])
  then show "translation_inv (snd (create_cache mem_ok g))" using g by (cases mem_ok) (simp_all add: create_cache_def)
qed

text \<open>The invariant of the running daemon.\<close>

definition daemon_inv :: "daemon \<Rightarrow> bool" where
  "daemon_inv d \<longleftrightarrow> translation_inv (w_g (dm_w d)) \<and> big_mtu (w_g (dm_w d)) \<and> vnet_ok (dm_w d)"

lemma big_mtu_mtus: "mtus g' = mtus g \<Longrightarrow> big_mtu g' = big_mtu g"
  by (simp add: mtus_def big_mtu_def)

lemma start_maps_inv:
  assumes "setup_inv (c_g c)" "start_maps env c = (ERROR_NONE, g)"
  shows "translation_inv g" "cache_pairs g = {}" "mtus g = mtus (c_g c)"
proof -
  note s = setup_running [OF assms(1)]
  have "translation_inv g \<and> cache_pairs g = {}"
  proof (cases "c_map_file c = []")
    case False
    then obtain t where "e_map_file env = Some t" "addrmap_reload True (Some t) (e_map_io env) (c_g c) = (ERROR_NONE, g)"
      using assms(2) by (cases "e_map_file env") (auto simp: start_maps_def addrmap_reload_def)
    then show ?thesis using accepted_state [OF s(1)] by blast
  qed (use assms(2) s in \<open>simp add: start_maps_def\<close>)
  then show "translation_inv g" "cache_pairs g = {}" by blast+
  have "conf g = conf (c_g c)"
    using conf_reload [of True "e_map_file env" "e_map_io env" "c_g c"] assms(2)
    unfolding start_maps_def by (metis snd_conv)
  then show "mtus g = mtus (c_g c)" by (rule mtus_conf)
qed

lemma seed_mtus [simp]: "mtus (seed_cache r g) = mtus g"
  by (simp add: seed_cache_def)

lemma start_rest:
  assumes "translation_inv g" "cache_pairs g = {}" "start_cache env (start_leases env (seed_cache (e_rand env) g)) = (e, g')"
  shows "translation_inv g'" "mtus g' = mtus g"
proof -
  let ?g = "start_leases env (seed_cache (e_rand env) g)"
  have l: "translation_inv ?g" "mtus ?g = mtus g"
    using seed_inv [OF assms(1,2)] by (simp_all add: start_leases_def load_dynamic_file_inv)
  have g': "g' = (if g_cache_size ?g > 0 then snd (create_cache (e_mem env) ?g) else ?g)"
    using assms(3) unfolding start_cache_def by (metis snd_conv)
  show "translation_inv g'" using l(1) create_cache_trans(1) [OF l(1)] unfolding g' by presburger
  have "mtus (snd (create_cache (e_mem env) ?g)) = mtus ?g" by (rule mtus_conf [OF create_cache_trans(2) [OF l(1)]])
  then show "mtus g' = mtus g" using l(2) unfolding g' by presburger
qed

lemma started_daemon:
  assumes g0: "distinct (g_alloc g0)" "g_static g0 = (\<lambda>_. None)" "g_dyn g0 = (\<lambda>_. None)"
    and m: "main_start env g0 = Some d"
  shows "daemon_inv d"
proof -
  from m obtain c1 c2 g1 g2 w where p: "config_read (e_conffile env) (config_init g0) = (ERROR_NONE, c1)"
      "config_validate (e_state_dir env) c1 = (ERROR_NONE, c2)" "start_maps env c2 = (ERROR_NONE, g1)"
      "start_cache env (start_leases env (seed_cache (e_rand env) g1)) = (ERROR_NONE, g2)"
      "tun_setup (c_tun_offload c2) (e_device env) (e_buffer env) g2 = Some w" "dm_w d = w"
    unfolding main_start_def by (auto split: prod.splits err.splits option.splits)
  obtain t where t: "e_conffile env = Some t" using p(1) by (cases "e_conffile env") (auto simp: config_read_def)
  have s: "setup_inv (c_g c1)" using config_read_setup [OF p(1) [unfolded t] setup_init [OF g0]] .
  note v = config_validate_setup [OF p(2) s]
  note a = start_maps_inv [OF conjunct1 [OF v] p(3)]
  note b = start_rest [OF a(1,2) p(4)]
  have o: "1280 \<le> g_ipv6_offlink_mtu g2" using v a(3) b(2) by (simp add: mtus_def MTU_MIN_def)
  obtain mtu where w: "w_g w = g2\<lparr>g_mtu := mtu\<rparr>" "1280 \<le> mtu" using tun_setup_Some(2) [OF p(5)] by blast
  have "cache_only g2 (w_g w)" "cache_inv (w_g w) = cache_inv g2"
    unfolding w(1) by (simp add: cache_only_def dyn_same_def)
      (rule cache_cong(1), simp_all add: ent4_def ent6_def fun_eq_iff hash_ip4_def hash_ip6_def)
  then have "translation_inv (w_g w)" using cache_only_inv [OF _ b(1)] b(1) by (simp add: translation_inv_def)
  then show ?thesis using w o tun_setup_Some(1) [OF p(5)] by (simp add: daemon_inv_def p(6) big_mtu_def vnet_ok_def)
qed

section \<open>The steps\<close>

lemma upd_w_inv:
  assumes "daemon_inv d" "translation_inv (f (w_g (dm_w d)))" "mtus (f (w_g (dm_w d))) = mtus (w_g (dm_w d))"
  shows "daemon_inv (upd_w f d)"
  using assms big_mtu_mtus [OF assms(3)] by (simp add: daemon_inv_def upd_w_def vnet_ok_def)

lemma daemon_inv_frames [simp]:
  "daemon_inv (d\<lparr>dm_stop := b\<rparr>) = daemon_inv d" "daemon_inv (d\<lparr>dm_last_cache := t\<rparr>) = daemon_inv d"
  "daemon_inv (d\<lparr>dm_last_dynamic := t\<rparr>) = daemon_inv d"
  by (simp_all add: daemon_inv_def)

lemma main_turn_inv:
  assumes "daemon_inv d"
  shows "daemon_inv (main_turn now mem_ok write_ok d)"
proof -
  have i: "translation_inv (w_g (dm_w d))" if "daemon_inv d" for d using that by (simp add: daemon_inv_def)
  have n: "daemon_inv (upd_w (\<lambda>g. g\<lparr>g_now := now\<rparr>) d)"
    by (rule upd_w_inv [OF assms]) (simp_all add: now_inv i [OF assms])
  have c: "daemon_inv (upd_w addrmap_maint e)" if "daemon_inv e" for e
    by (rule upd_w_inv [OF that], rule addrmap_maint_trans [OF i [OF that]], rule mtus_conf [OF conf_maint])
  have y: "daemon_inv (upd_w (\<lambda>g. snd (dynamic_maint False mem_ok write_ok g)) e)" if "daemon_inv e" for e
    by (rule upd_w_inv [OF that], rule maint_inv [OF i [OF that]], rule mtus_conf [OF conf_dynamic_maint])
  show ?thesis unfolding main_turn_def Let_def using n c y by simp
qed

lemma flush_leases_inv: "translation_inv g \<Longrightarrow> translation_inv (flush_leases mem_ok write_ok g)"
  by (simp add: flush_leases_def maint_inv)

lemma flush_leases_conf: "conf (flush_leases mem_ok write_ok g) = conf g"
  by (simp add: flush_leases_def)

lemma daemon_step_inv: "daemon_step d d' \<Longrightarrow> daemon_inv d \<Longrightarrow> daemon_inv d'"
proof (induction rule: daemon_step.induct)
  case (frame d input fd buffer r w)
  let ?w = "(dm_w d)\<lparr>w_mem := buffer\<rparr>"
  have p: "vnet_ok ?w" "big_mtu (w_g ?w)" "translation_inv (w_g ?w)"
    using frame.prems by (simp_all add: daemon_inv_def vnet_ok_def)
  obtain r' w' where e: "tun_read_packet input fd ?w = Some (r', w')" "progress 32 RECV_BUF_SIZE ?w w'"
    using tun_read_packet_ends [OF p(1,2), of input fd] frame.hyps(2) by (auto simp: read_len_def)
  have w: "w' = w" using e(1) frame.hyps(3) by simp
  have "translation_inv (w_g w)" "big_mtu (w_g w)" "vnet_ok w"
    using e(2) p progress_big_mtu [OF e(2)] progress_vnet_ok [OF e(2)] unfolding w by (simp_all add: progress_def)
  then show ?case by (simp add: daemon_inv_def)
next
  case (turn d now mem_ok write_ok)
  then show ?case by (simp add: main_turn_inv)
next
  case (hup d content io_ok mem_ok write_ok)
  then have "translation_inv (w_g (dm_w d))" by (simp add: daemon_inv_def)
  then show ?case
    unfolding signal_hup_def
    by (intro upd_w_inv [OF hup.prems] flush_leases_inv reload_inv mtus_conf) (simp_all add: flush_leases_conf)
next
  case (quit d mem_ok write_ok)
  then have "translation_inv (w_g (dm_w d))" by (simp add: daemon_inv_def)
  then have "daemon_inv (upd_w (flush_leases mem_ok write_ok) d)"
    by (intro upd_w_inv [OF quit.prems] flush_leases_inv mtus_conf) (simp_all add: flush_leases_conf)
  then show ?case by simp
next
  case (device d io)
  then show ?case by (simp add: daemon_inv_def vnet_ok_def)
qed

lemma reachable_inv:
  "reachable env g0 d \<Longrightarrow> distinct (g_alloc g0) \<Longrightarrow> g_static g0 = (\<lambda>_. None) \<Longrightarrow> g_dyn g0 = (\<lambda>_. None)
   \<Longrightarrow> daemon_inv d"
proof (induction rule: reachable.induct)
  case (start d)
  then show ?case using started_daemon by blast
next
  case (step d d')
  then show ?case using daemon_step_inv by blast
qed

text \<open>
  C1. In every state the daemon can reach from a configuration it accepts, whatever frames, signals,
  map files and maintenance have come before and in whatever order, the state of the translator is
  consistent, and the next frame is processed to the end, writes nothing outside its buffer and
  only appends to the output.
\<close>

theorem daemon_always_serves:
  assumes "distinct (g_alloc g0)" "g_static g0 = (\<lambda>_. None)" "g_dyn g0 = (\<lambda>_. None)"
    and "reachable env g0 d" "length bytes \<le> read_len (dm_w d)"
  shows "translation_inv (w_g (dm_w d)) \<and>
    (\<exists>r w fs. tun_read_packet (Inr bytes) fd ((dm_w d)\<lparr>w_mem := buffer\<rparr>) = Some (r, w)
       \<and> w_tx w = w_tx (dm_w d) @ fs \<and> (\<forall>a. a < 32 \<or> RECV_BUF_SIZE \<le> a \<longrightarrow> w_mem w a = buffer a))"
proof -
  let ?w = "(dm_w d)\<lparr>w_mem := buffer\<rparr>"
  have i: "daemon_inv d" by (rule reachable_inv [OF assms(4,1-3)])
  then have p: "vnet_ok ?w" "big_mtu (w_g ?w)" by (simp_all add: daemon_inv_def vnet_ok_def)
  obtain r w where "tun_read_packet (Inr bytes) fd ?w = Some (r, w)" "progress 32 RECV_BUF_SIZE ?w w"
    using tun_read_packet_ends [OF p, of "Inr bytes" fd] assms(5) by (auto simp: read_len_def)
  then show ?thesis using i by (auto simp: daemon_inv_def progress_def)
qed

end
