(* ===== verification/Sample_Daemon.thy ===== *)
theory Sample_Daemon
  imports Sample_Config Daemon_Laws
begin

text \<open>
  A daemon started on the sample configuration, with an empty map file and a device that accepts
  every feature, as the witness of the properties of the running daemon.
\<close>

lemma offload_ioctl_quiet: "offload_ioctl n q m [] = (None, [(q, m, None)], [])"
  by (simp add: offload_ioctl.simps)

lemma offer_queues_quiet: "\<exists>cs. offer_queues m qs [] = (None, cs, [])"
  by (induction qs) (auto simp: offload_ioctl_quiet)

lemma negotiate_quiet: "\<exists>s' cs. tun_negotiate n requested True [] s = (True, s', cs)"
proof -
  have "offload_masks requested True \<noteq> []" by (cases requested) (simp_all add: offload_masks_def)
  then obtain m ms where m: "offload_masks requested True = m # ms" by (cases "offload_masks requested True") auto
  then show ?thesis
    using offer_queues_quiet [of m "-1 # map int [0..<n]"] by (auto simp: tun_negotiate_def Let_def)
qed

definition sample_env :: env where
  "sample_env = \<lparr>e_conffile = Some conf_text, e_state_dir = None, e_map_file = Some [], e_map_io = True,
     e_rand = (\<lambda>i. of_nat i), e_dynamic_map = None, e_time = 1000, e_mem = True,
     e_device = \<lparr>dev_vnet = True, dev_hdr_sz = Some 12, dev_mtu = Some 1500, dev_queues = 2, dev_answers = [], dev_io = []\<rparr>,
     e_buffer = (\<lambda>_. 0)\<rparr>"

lemma env_simps [simp]:
  "e_conffile sample_env = Some conf_text" "e_state_dir sample_env = None" "e_map_file sample_env = Some []"
  "e_map_io sample_env" "e_mem sample_env" "vnet_hdr_sz (e_device sample_env) = Some 12"
  "dev_mtu (e_device sample_env) = Some 1500" "dev_vnet (e_device sample_env)" "dev_queues (e_device sample_env) = 2"
  "dev_answers (e_device sample_env) = []"
  by (simp_all add: sample_env_def vnet_hdr_sz_def)

lemma sample_started: "\<exists>d. main_start sample_env conf_start = Some d \<and> \<not> dm_stop d"
proof -
  obtain c where c: "config_validate None conf_read = (ERROR_NONE, c)" using sample_validate by (metis prod.collapse)
  have "fst (start_maps sample_env c) = ERROR_NONE" by (simp add: start_maps_def addrmap_reload_def Let_def)
  then obtain g where g: "start_maps sample_env c = (ERROR_NONE, g)" by (metis prod.collapse)
  let ?g = "start_leases sample_env (seed_cache (e_rand sample_env) g)"
  have "fst (start_cache sample_env ?g) = ERROR_NONE" by (simp add: start_cache_def create_cache_def Let_def)
  then obtain g' where g': "start_cache sample_env ?g = (ERROR_NONE, g')" by (metis prod.collapse)
  obtain s cs where n: "tun_negotiate 2 (c_tun_offload c) True [] no_offload = (True, s, cs)" using negotiate_quiet by blast
  obtain w where w: "tun_setup (c_tun_offload c) (e_device sample_env) (e_buffer sample_env) g' = Some w"
    using n by (simp add: tun_setup_def MTU_MIN_def Let_def)
  have "main_start sample_env conf_start
      = Some \<lparr>dm_w = w, dm_map_file = c_map_file c \<noteq> [], dm_last_cache = 0, dm_last_dynamic = 0, dm_stop = False\<rparr>"
    using sample_read c g g' w by (simp add: main_start_def)
  then show ?thesis by auto
qed

text \<open>After a reload the daemon still serves a truncated frame.\<close>

lemma daemon_always_serves_witness:
  "\<exists>d. reachable sample_env conf_start d \<and> translation_inv (w_g (dm_w d))
    \<and> (\<exists>r w fs. tun_read_packet (Inr [0x45, 0]) 3 ((dm_w d)\<lparr>w_mem := (\<lambda>_. 0)\<rparr>) = Some (r, w) \<and> w_tx w = w_tx (dm_w d) @ fs)"
proof -
  obtain d where d: "main_start sample_env conf_start = Some d" "\<not> dm_stop d" using sample_started by blast
  let ?d = "upd_w (signal_hup (dm_map_file d) None True True True) d"
  have r: "reachable sample_env conf_start ?d" by (rule reachable.step [OF reachable.start [OF d(1)] daemon_step.hup [OF d(2)]])
  have "length [0x45 :: u8, 0] \<le> read_len (dm_w ?d)" by (simp add: read_len_def RECV_BUF_SIZE_def HEADROOM_def)
  from daemon_always_serves [OF _ _ _ r this, of 3 "\<lambda>_. 0"] r show ?thesis by (auto simp: conf_start_def sample_base_def)
qed

end
