(* ===== verification/Slot_Queue.thy ===== *)
theory Slot_Queue
  imports Prelude
begin

text \<open>
  The ring buffers of the dispatcher (\<open>src/src/experimental_io.c\<close>, \<open>head\<close>, \<open>tail\<close>, \<open>count\<close> and
  \<open>queues\<close>): the indices run freely as 32-bit words and are reduced on every access. A ring is
  shown to be a first-in first-out queue of at most 512 slots.
\<close>

section \<open>The queue a worker relies on\<close>

locale fifo =
  fixes ok :: "'r \<Rightarrow> bool" and contents :: "'r \<Rightarrow> 'a list" and cap :: nat
    and enq :: "'a \<Rightarrow> 'r \<Rightarrow> 'r" and deq :: "'r \<Rightarrow> 'a \<times> 'r"
  assumes enq_ok: "ok r \<Longrightarrow> length (contents r) < cap \<Longrightarrow> ok (enq x r) \<and> contents (enq x r) = contents r @ [x]"
    and deq_ok: "ok r \<Longrightarrow> contents r = x # xs \<Longrightarrow> fst (deq r) = x \<and> ok (snd (deq r)) \<and> contents (snd (deq r)) = xs"
    and cap: "ok r \<Longrightarrow> length (contents r) \<le> cap"
begin

lemma enq_all:
  "ok r \<Longrightarrow> length (contents r) + length xs \<le> cap
   \<Longrightarrow> ok (fold enq xs r) \<and> contents (fold enq xs r) = contents r @ xs"
proof (induction xs arbitrary: r)
  case (Cons x xs)
  then have "length (contents r) < cap" by simp
  from enq_ok [OF Cons.prems(1) this, of x] show ?case using Cons.IH [of "enq x r"] Cons.prems(2) by simp
qed simp

text \<open>What comes in after \<open>x\<close> leaves after \<open>x\<close>.\<close>

fun deqs :: "nat \<Rightarrow> 'r \<Rightarrow> 'a list \<times> 'r" where
  "deqs 0 r = ([], r)"
| "deqs (Suc n) r = (let (x, r) = deq r; (xs, r) = deqs n r in (x # xs, r))"

lemma deqs_contents:
  "ok r \<Longrightarrow> n \<le> length (contents r)
   \<Longrightarrow> fst (deqs n r) = take n (contents r) \<and> ok (snd (deqs n r)) \<and> contents (snd (deqs n r)) = drop n (contents r)"
proof (induction n arbitrary: r)
  case (Suc n)
  then obtain x xs where c: "contents r = x # xs" by (cases "contents r") auto
  note d = deq_ok [OF Suc.prems(1) c]
  show ?case using Suc.IH [of "snd (deq r)"] Suc.prems(2) d c by (auto simp: Let_def split: prod.splits)
qed simp

lemma enq_deq_all:
  assumes "ok r" "contents r = []" "length xs \<le> cap"
  shows "fst (deqs (length xs) (fold enq xs r)) = xs"
  using enq_all [OF assms(1), of xs] deqs_contents [of "fold enq xs r" "length xs"] assms by simp

end

section \<open>The rings of the code\<close>

definition DISPATCH_FRAMES :: nat where "DISPATCH_FRAMES = 512"

record ring =
  rg_slots :: "nat list"
  rg_head :: u32
  rg_tail :: u32
  rg_count :: nat

definition ring_index :: "u32 \<Rightarrow> nat" where
  "ring_index i = unat i mod DISPATCH_FRAMES"

definition ring_put :: "nat \<Rightarrow> ring \<Rightarrow> ring" where
  "ring_put slot r = r\<lparr>rg_slots := (rg_slots r)[ring_index (rg_tail r) := slot], rg_tail := rg_tail r + 1, rg_count := rg_count r + 1\<rparr>"

definition ring_get :: "ring \<Rightarrow> nat \<times> ring" where
  "ring_get r = (rg_slots r ! ring_index (rg_head r), r\<lparr>rg_head := rg_head r + 1, rg_count := rg_count r - 1\<rparr>)"

definition empty_ring :: ring where
  "empty_ring = \<lparr>rg_slots = replicate DISPATCH_FRAMES 0, rg_head = 0, rg_tail = 0, rg_count = 0\<rparr>"

definition ring_ok :: "ring \<Rightarrow> bool" where
  "ring_ok r \<longleftrightarrow> length (rg_slots r) = DISPATCH_FRAMES \<and> rg_count r \<le> DISPATCH_FRAMES \<and> rg_tail r = rg_head r + of_nat (rg_count r)"

definition ring_list :: "ring \<Rightarrow> nat list" where
  "ring_list r = map (\<lambda>k. rg_slots r ! ring_index (rg_head r + of_nat k)) [0..<rg_count r]"

lemma length_ring_list [simp]: "length (ring_list r) = rg_count r"
  by (simp add: ring_list_def)

lemma empty_ring [simp]: "ring_ok empty_ring" "ring_list empty_ring = []"
  by (simp_all add: empty_ring_def ring_ok_def ring_list_def)

lemma ring_index_add: "ring_index (i + of_nat k) = (ring_index i + k) mod DISPATCH_FRAMES"
proof -
  have "unat (i + of_nat k) = (unat i + k) mod 2 ^ 32"
    by (simp add: unat_word_ariths unat_of_nat mod_simps)
  moreover have "x mod 2 ^ 32 mod 512 = x mod (512 :: nat)" for x
    by (rule mod_mod_cancel) simp
  ultimately show ?thesis by (simp add: ring_index_def DISPATCH_FRAMES_def mod_simps)
qed

lemma ring_index_less [simp]: "ring_index i < DISPATCH_FRAMES"
  by (simp add: ring_index_def DISPATCH_FRAMES_def)

lemma ring_index_neq:
  assumes "j < k" "k < DISPATCH_FRAMES"
  shows "ring_index (i + of_nat j) \<noteq> ring_index (i + of_nat k)"
proof
  assume "ring_index (i + of_nat j) = ring_index (i + of_nat k)"
  then have "(ring_index i + k) mod DISPATCH_FRAMES = (ring_index i + j) mod DISPATCH_FRAMES" by (simp add: ring_index_add)
  then have "DISPATCH_FRAMES dvd (ring_index i + k) - (ring_index i + j)" by (rule mod_eq_dvd_iff_nat [THEN iffD1, rotated]) (use assms in simp)
  then have "DISPATCH_FRAMES \<le> k - j" using assms by (auto dest: dvd_imp_le)
  then show False using assms by simp
qed

lemma ring_put_list:
  assumes "ring_ok r" "rg_count r < DISPATCH_FRAMES"
  shows "ring_ok (ring_put x r) \<and> ring_list (ring_put x r) = ring_list r @ [x]"
proof
  show "ring_ok (ring_put x r)" using assms by (simp add: ring_ok_def ring_put_def)
  let ?t = "ring_index (rg_head r + of_nat (rg_count r))"
  have "map (\<lambda>k. (rg_slots r)[?t := x] ! ring_index (rg_head r + of_nat k)) [0..<rg_count r] = ring_list r"
    unfolding ring_list_def using ring_index_neq assms(2) by (intro map_cong refl nth_list_update_neq) (metis atLeastLessThan_iff set_upt)
  moreover have "(rg_slots r)[?t := x] ! ?t = x" using assms(1) by (simp add: ring_ok_def)
  moreover have "ring_list (ring_put x r) =
      map (\<lambda>k. (rg_slots r)[?t := x] ! ring_index (rg_head r + of_nat k)) [0..<rg_count r] @ [(rg_slots r)[?t := x] ! ?t]"
    using assms(1) unfolding ring_list_def by (simp add: ring_put_def ring_ok_def)
  ultimately show "ring_list (ring_put x r) = ring_list r @ [x]" by simp
qed

lemma ring_get_list:
  assumes "ring_ok r" "ring_list r = x # xs"
  shows "fst (ring_get r) = x \<and> ring_ok (snd (ring_get r)) \<and> ring_list (snd (ring_get r)) = xs"
proof -
  have c: "rg_count r = Suc (length xs)" using arg_cong [OF assms(2), of length] by simp
  let ?g = "\<lambda>k. rg_slots r ! ring_index (rg_head r + of_nat k)"
  have l: "ring_list r = ?g 0 # map (\<lambda>k. ?g (Suc k)) [0..<length xs]"
    unfolding ring_list_def c by (simp only: upt_conv_Cons [OF zero_less_Suc] list.map map_Suc_upt [symmetric] map_map o_def)
  have "ring_list (snd (ring_get r)) = map (\<lambda>k. ?g (Suc k)) [0..<length xs]"
    by (simp add: ring_list_def ring_get_def c add.assoc)
  moreover have "fst (ring_get r) = ?g 0" by (simp add: ring_get_def)
  moreover have "ring_ok (snd (ring_get r))" using assms(1) c by (simp add: ring_ok_def ring_get_def)
  ultimately show ?thesis using l assms(2) by simp
qed

interpretation rq: fifo ring_ok ring_list DISPATCH_FRAMES ring_put ring_get
proof unfold_locales
  show "ring_ok (ring_put x r) \<and> ring_list (ring_put x r) = ring_list r @ [x]"
    if "ring_ok r" "length (ring_list r) < DISPATCH_FRAMES" for r x
    using ring_put_list [OF that(1)] that(2) by simp
  show "fst (ring_get r) = x \<and> ring_ok (snd (ring_get r)) \<and> ring_list (snd (ring_get r)) = xs"
    if "ring_ok r" "ring_list r = x # xs" for r x xs
    by (rule ring_get_list [OF that])
qed (simp add: ring_ok_def)

end
