(* ===== verification/Frames.thy ===== *)
theory Frames
  imports Prelude
begin

text \<open>
  The ownership of frame buffers (\<open>src/src/packet_io_lifetime.h\<close>): a pool of frames, each with a
  generation and a state, and tokens that name one use of a frame. Generations are 64-bit words;
  offsets and lengths are \<open>size_t\<close> values kept below the capacity of a frame.
\<close>

section \<open>Operations\<close>

datatype frame_state = FRAME_FREE | FRAME_RX_POSTED | FRAME_RECEIVED | FRAME_TRANSLATING | FRAME_PENDING_TX
  | FRAME_TX_SUBMITTED | FRAME_COMPLETED

record packet_frame =
  f_storage :: "nat option"
  f_capacity :: nat
  f_offset :: nat
  f_length :: nat
  f_generation :: "64 word"
  f_state :: frame_state

record frame_token =
  t_slot :: nat
  t_generation :: "64 word"
  t_identity :: "64 word"

record frame_pool =
  fp_frames :: "packet_frame list"
  fp_identity :: "64 word"
  fp_stopping :: bool
  fp_closed :: bool

datatype frame_error = F_EINVAL | F_ESTALE | F_ESHUTDOWN | F_EBUSY | F_EOVERFLOW | F_ENOBUFS

definition packet_frame_geometry :: "packet_frame \<Rightarrow> bool" where
  "packet_frame_geometry f \<longleftrightarrow> f_storage f \<noteq> None \<and> f_offset f \<le> f_capacity f \<and> f_length f \<le> f_capacity f - f_offset f"

definition packet_frame_pool_init :: "packet_frame list \<Rightarrow> 64 word \<Rightarrow> frame_error + frame_pool" where
  "packet_frame_pool_init frames identity =
     (if frames = [] \<or> identity = 0 then Inl F_EINVAL
      else if list_ex (\<lambda>f. f_storage f = None \<or> f_capacity f = 0) frames then Inl F_EINVAL
      else Inr \<lparr>fp_frames = map (\<lambda>f. f\<lparr>f_offset := 0, f_length := 0, f_generation := 0, f_state := FRAME_FREE\<rparr>) frames,
        fp_identity = identity, fp_stopping = False, fp_closed = False\<rparr>)"

definition packet_frame_lookup :: "frame_pool \<Rightarrow> frame_token \<Rightarrow> packet_frame option" where
  "packet_frame_lookup p t =
     (if t_identity t \<noteq> fp_identity p \<or> t_slot t \<ge> length (fp_frames p) \<or> t_generation t = 0
         \<or> f_generation (fp_frames p ! t_slot t) \<noteq> t_generation t
      then None else Some (fp_frames p ! t_slot t))"

definition put_frame :: "nat \<Rightarrow> packet_frame \<Rightarrow> frame_pool \<Rightarrow> frame_pool" where
  "put_frame i f p = p\<lparr>fp_frames := (fp_frames p)[i := f]\<rparr>"

definition packet_frame_acquire :: "nat \<Rightarrow> frame_pool \<Rightarrow> frame_error + (frame_token \<times> frame_pool)" where
  "packet_frame_acquire slot p =
     (if slot \<ge> length (fp_frames p) then Inl F_EINVAL
      else if fp_stopping p then Inl F_ESHUTDOWN
      else
        (let f = fp_frames p ! slot
         in if f_state f \<noteq> FRAME_FREE then Inl F_EBUSY
            else if f_generation f = 0xffffffffffffffff then Inl F_EOVERFLOW
            else
              (let f = f\<lparr>f_generation := f_generation f + 1, f_offset := 0, f_length := 0, f_state := FRAME_RECEIVED\<rparr>
               in Inr (\<lparr>t_slot = slot, t_generation = f_generation f, t_identity = fp_identity p\<rparr>, put_frame slot f p))))"

fun frame_allowed :: "frame_pool \<Rightarrow> packet_frame \<Rightarrow> frame_state \<Rightarrow> bool" where
  "frame_allowed p f FRAME_RX_POSTED = (f_state f = FRAME_RECEIVED \<and> \<not> fp_stopping p \<and> f_length f = 0)"
| "frame_allowed p f FRAME_RECEIVED = (f_state f = FRAME_RX_POSTED)"
| "frame_allowed p f FRAME_TRANSLATING = (f_state f = FRAME_RECEIVED)"
| "frame_allowed p f FRAME_PENDING_TX = (f_state f = FRAME_TRANSLATING)"
| "frame_allowed p f FRAME_TX_SUBMITTED =
     ((f_state f = FRAME_TRANSLATING \<or> f_state f = FRAME_PENDING_TX) \<and> \<not> fp_closed p \<and> f_length f \<noteq> 0)"
| "frame_allowed p f FRAME_COMPLETED = (f_state f = FRAME_TX_SUBMITTED)"
| "frame_allowed p f FRAME_FREE =
     (f_state f = FRAME_RECEIVED \<or> f_state f = FRAME_TRANSLATING \<or> f_state f = FRAME_PENDING_TX \<or> f_state f = FRAME_COMPLETED)"

definition packet_frame_transition :: "frame_token \<Rightarrow> frame_state \<Rightarrow> frame_pool \<Rightarrow> frame_error + frame_pool" where
  "packet_frame_transition t to p =
     (case packet_frame_lookup p t of
        None \<Rightarrow> Inl F_ESTALE
      | Some f \<Rightarrow>
          (if \<not> frame_allowed p f to then Inl F_EBUSY
           else if to \<noteq> FRAME_FREE \<and> \<not> packet_frame_geometry f then Inl F_EINVAL
           else
             (let f = f\<lparr>f_state := to\<rparr>;
                  f = (if to = FRAME_FREE then f\<lparr>f_length := 0, f_offset := 0\<rparr> else f)
              in Inr (put_frame (t_slot t) f p))))"

definition packet_frame_prepend :: "frame_token \<Rightarrow> nat \<Rightarrow> frame_pool \<Rightarrow> frame_error + frame_pool" where
  "packet_frame_prepend t bytes p =
     (case packet_frame_lookup p t of
        None \<Rightarrow> Inl F_ESTALE
      | Some f \<Rightarrow>
          (if f_state f \<noteq> FRAME_TRANSLATING then Inl F_EBUSY
           else if \<not> packet_frame_geometry f then Inl F_EINVAL
           else if bytes > f_offset f then Inl F_ENOBUFS
           else Inr (put_frame (t_slot t) (f\<lparr>f_offset := f_offset f - bytes, f_length := f_length f + bytes\<rparr>) p)))"

definition packet_frame_unpublished_rollback :: "frame_token \<Rightarrow> frame_pool \<Rightarrow> frame_error + frame_pool" where
  "packet_frame_unpublished_rollback t p =
     (case packet_frame_lookup p t of
        None \<Rightarrow> Inl F_ESTALE
      | Some f \<Rightarrow>
          (if f_state f = FRAME_RX_POSTED then Inr (put_frame (t_slot t) (f\<lparr>f_state := FRAME_RECEIVED\<rparr>) p)
           else if f_state f = FRAME_TX_SUBMITTED then Inr (put_frame (t_slot t) (f\<lparr>f_state := FRAME_PENDING_TX\<rparr>) p)
           else Inl F_EBUSY))"

definition packet_frame_stop :: "frame_pool \<Rightarrow> frame_pool" where
  "packet_frame_stop p = p\<lparr>fp_stopping := True\<rparr>"

definition in_kernel :: "packet_frame \<Rightarrow> bool" where
  "in_kernel f \<longleftrightarrow> f_state f = FRAME_RX_POSTED \<or> f_state f = FRAME_TX_SUBMITTED"

definition packet_frame_backend_closed :: "frame_pool \<Rightarrow> frame_error + frame_pool" where
  "packet_frame_backend_closed p =
     (if \<not> fp_stopping p then Inl F_EINVAL
      else Inr (p\<lparr>fp_closed := True,
        fp_frames := map (\<lambda>f. if in_kernel f then f\<lparr>f_state := FRAME_COMPLETED\<rparr> else f) (fp_frames p)\<rparr>))"

definition packet_frame_can_unmap :: "frame_pool \<Rightarrow> bool" where
  "packet_frame_can_unmap p \<longleftrightarrow> fp_closed p \<and> list_all (\<lambda>f. f_state f = FRAME_FREE) (fp_frames p)"

section \<open>Steps\<close>

text \<open>
  A run of the pool: its state and the tokens handed out so far, the newest first. The owner of a
  frame that is not in the kernel's hands writes offset and length, within the capacity.
\<close>

type_synonym frame_run = "frame_pool \<times> frame_token list"

inductive frame_step :: "frame_run \<Rightarrow> frame_run \<Rightarrow> bool" where
  acquire: "packet_frame_acquire slot p = Inr (t, p') \<Longrightarrow> frame_step (p, ts) (p', t # ts)"
| transition: "t \<in> set ts \<Longrightarrow> packet_frame_transition t to p = Inr p' \<Longrightarrow> frame_step (p, ts) (p', ts)"
| prepend: "t \<in> set ts \<Longrightarrow> packet_frame_prepend t n p = Inr p' \<Longrightarrow> frame_step (p, ts) (p', ts)"
| rollback: "t \<in> set ts \<Longrightarrow> packet_frame_unpublished_rollback t p = Inr p' \<Longrightarrow> frame_step (p, ts) (p', ts)"
| fill: "t \<in> set ts \<Longrightarrow> packet_frame_lookup p t = Some f \<Longrightarrow> \<not> in_kernel f \<Longrightarrow> f_state f \<noteq> FRAME_FREE
    \<Longrightarrow> packet_frame_geometry (f\<lparr>f_offset := a, f_length := b\<rparr>)
    \<Longrightarrow> frame_step (p, ts) (put_frame (t_slot t) (f\<lparr>f_offset := a, f_length := b\<rparr>) p, ts)"
| stop: "frame_step (p, ts) (packet_frame_stop p, ts)"
| closed: "packet_frame_backend_closed p = Inr p' \<Longrightarrow> frame_step (p, ts) (p', ts)"

inductive frame_reach :: "packet_frame list \<Rightarrow> 64 word \<Rightarrow> frame_run \<Rightarrow> bool" for frames identity where
  init: "packet_frame_pool_init frames identity = Inr p \<Longrightarrow> frame_reach frames identity (p, [])"
| step: "frame_reach frames identity r \<Longrightarrow> frame_step r r' \<Longrightarrow> frame_reach frames identity r'"

section \<open>Invariant\<close>

text \<open>
  The generation of a token is one its slot has had; tokens are pairwise different; a frame that is
  in use has a token of its generation; the kernel holds nothing once its side is closed.
\<close>

definition token_ok :: "frame_pool \<Rightarrow> frame_token \<Rightarrow> bool" where
  "token_ok p t \<longleftrightarrow> t_identity t = fp_identity p \<and> t_slot t < length (fp_frames p) \<and> t_generation t \<noteq> 0
     \<and> t_generation t \<le> f_generation (fp_frames p ! t_slot t)"

definition frame_inv :: "frame_run \<Rightarrow> bool" where
  "frame_inv r \<longleftrightarrow>
     (case r of (p, ts) \<Rightarrow>
        (\<forall>f\<in>set (fp_frames p). packet_frame_geometry f)
        \<and> (\<forall>t\<in>set ts. token_ok p t) \<and> distinct ts
        \<and> (\<forall>i<length (fp_frames p). f_state (fp_frames p ! i) \<noteq> FRAME_FREE
             \<longrightarrow> \<lparr>t_slot = i, t_generation = f_generation (fp_frames p ! i), t_identity = fp_identity p\<rparr> \<in> set ts)
        \<and> (fp_closed p \<longrightarrow> fp_stopping p \<and> (\<forall>f\<in>set (fp_frames p). \<not> in_kernel f)))"

lemma lookup_Some:
  "packet_frame_lookup p t = Some f \<longleftrightarrow> t_identity t = fp_identity p \<and> t_slot t < length (fp_frames p)
     \<and> t_generation t \<noteq> 0 \<and> f = fp_frames p ! t_slot t \<and> f_generation f = t_generation t"
  by (auto simp: packet_frame_lookup_def)

lemma put_frame_simps [simp]:
  "fp_frames (put_frame i f p) = (fp_frames p)[i := f]" "fp_identity (put_frame i f p) = fp_identity p"
  "fp_stopping (put_frame i f p) = fp_stopping p" "fp_closed (put_frame i f p) = fp_closed p"
  by (simp_all add: put_frame_def)

text \<open>Writing a frame of the same generation.\<close>

lemma put_frame_inv:
  assumes inv: "frame_inv (p, ts)" and l: "packet_frame_lookup p t = Some f"
    and f: "f_generation f' = f_generation f" "packet_frame_geometry f'" "f_state f \<noteq> FRAME_FREE"
    and k: "fp_closed p \<Longrightarrow> \<not> in_kernel f'"
  shows "frame_inv (put_frame (t_slot t) f' p, ts)"
proof -
  let ?i = "t_slot t"
  have i: "?i < length (fp_frames p)" "f = fp_frames p ! ?i" using l by (simp_all add: lookup_Some)
  have g: "f_generation ((fp_frames p)[?i := f'] ! j) = f_generation (fp_frames p ! j)" for j
    using i f(1) by (cases "j = ?i") auto
  have s: "f_state (fp_frames p ! j) \<noteq> FRAME_FREE" if "f_state ((fp_frames p)[?i := f'] ! j) \<noteq> FRAME_FREE" for j
    using that i f(3) by (cases "j = ?i") auto
  have set: "set ((fp_frames p)[?i := f']) \<subseteq> insert f' (set (fp_frames p))" by (rule set_update_subset_insert)
  show ?thesis
    unfolding frame_inv_def prod.case put_frame_simps
  proof (intro conjI)
    show "\<forall>f\<in>set ((fp_frames p)[?i := f']). packet_frame_geometry f"
      using inv f(2) set by (auto simp: frame_inv_def)
    show "\<forall>t\<in>set ts. token_ok (put_frame ?i f' p) t" using inv by (simp add: frame_inv_def token_ok_def g)
    show "distinct ts" using inv by (simp add: frame_inv_def)
    show "\<forall>j<length ((fp_frames p)[?i := f']). f_state ((fp_frames p)[?i := f'] ! j) \<noteq> FRAME_FREE
        \<longrightarrow> \<lparr>t_slot = j, t_generation = f_generation ((fp_frames p)[?i := f'] ! j), t_identity = fp_identity p\<rparr> \<in> set ts"
      using inv s by (simp add: frame_inv_def g)
    show "fp_closed p \<longrightarrow> fp_stopping p \<and> (\<forall>f\<in>set ((fp_frames p)[?i := f']). \<not> in_kernel f)"
      using inv k set by (auto simp: frame_inv_def)
  qed
qed

lemma transition_Inr:
  assumes "packet_frame_transition t to p = Inr p'"
  obtains f where "packet_frame_lookup p t = Some f" "frame_allowed p f to"
    "to \<noteq> FRAME_FREE \<Longrightarrow> packet_frame_geometry f \<and> p' = put_frame (t_slot t) (f\<lparr>f_state := to\<rparr>) p"
    "to = FRAME_FREE \<Longrightarrow> p' = put_frame (t_slot t) (f\<lparr>f_state := FRAME_FREE, f_length := 0, f_offset := 0\<rparr>) p"
  using assms by (auto simp: packet_frame_transition_def Let_def split: option.splits if_split_asm)

lemma geometry_frames [simp]:
  "packet_frame_geometry (f\<lparr>f_state := s\<rparr>) = packet_frame_geometry f"
  "packet_frame_geometry (f\<lparr>f_generation := n\<rparr>) = packet_frame_geometry f"
  by (simp_all add: packet_frame_geometry_def)

lemma geometry_reset: "packet_frame_geometry f \<Longrightarrow> packet_frame_geometry (f\<lparr>f_length := 0, f_offset := 0\<rparr>)"
  "packet_frame_geometry f \<Longrightarrow> packet_frame_geometry (f\<lparr>f_offset := 0, f_length := 0\<rparr>)"
  by (simp_all add: packet_frame_geometry_def)

lemma lookup_geometry: "frame_inv (p, ts) \<Longrightarrow> packet_frame_lookup p t = Some f \<Longrightarrow> packet_frame_geometry f"
  by (auto simp: frame_inv_def lookup_Some)

lemma transition_inv:
  assumes inv: "frame_inv (p, ts)" and tr: "packet_frame_transition t to p = Inr p'"
  shows "frame_inv (p', ts)"
  using tr
proof (cases rule: transition_Inr)
  case (1 f)
  have g: "packet_frame_geometry f" by (rule lookup_geometry [OF inv 1(1)])
  have n: "f_state f \<noteq> FRAME_FREE" using 1(2) by (cases to) auto
  show ?thesis
  proof (cases "to = FRAME_FREE")
    case True
    have "packet_frame_geometry (f\<lparr>f_state := FRAME_FREE, f_length := 0, f_offset := 0\<rparr>)"
      using g by (simp add: packet_frame_geometry_def)
    then show ?thesis using put_frame_inv [OF inv 1(1)] 1(4) [OF True] n by (simp add: in_kernel_def)
  next
    case False
    have "\<not> in_kernel (f\<lparr>f_state := to\<rparr>)" if "fp_closed p"
      using 1(2) that inv by (cases to) (auto simp: in_kernel_def frame_inv_def)
    then show ?thesis using put_frame_inv [OF inv 1(1)] 1(3) [OF False] n g by simp
  qed
qed

lemma below_next: "x \<noteq> 0xffffffffffffffff \<Longrightarrow> x < x + 1" for x :: "64 word"
proof -
  assume "x \<noteq> 0xffffffffffffffff"
  then have "unat x \<noteq> 18446744073709551615" by (simp add: word_unat_eq_iff)
  moreover have "unat x < 18446744073709551616" using unsigned_less [of x, where 'a = nat] by simp
  ultimately show "x < x + 1" by (simp add: word_less_nat_alt unat_word_ariths(1))
qed

lemma acquire_inv:
  assumes inv: "frame_inv (p, ts)" and a: "packet_frame_acquire i p = Inr (t, p')"
  shows "frame_inv (p', t # ts)" "packet_frame_lookup p' t \<noteq> None" "t \<notin> set ts"
proof -
  let ?f = "fp_frames p ! i"
  let ?f' = "?f\<lparr>f_generation := f_generation ?f + 1, f_offset := 0, f_length := 0, f_state := FRAME_RECEIVED\<rparr>"
  have i: "i < length (fp_frames p)" "\<not> fp_stopping p" "f_generation ?f \<noteq> 0xffffffffffffffff"
    and t: "t = \<lparr>t_slot = i, t_generation = f_generation ?f + 1, t_identity = fp_identity p\<rparr>" "p' = put_frame i ?f' p"
    using a by (auto simp: packet_frame_acquire_def Let_def split: if_split_asm)
  have up: "f_generation ?f < f_generation ?f + 1" by (rule below_next [OF i(3)])
  have n0: "f_generation ?f + 1 \<noteq> 0" using up by (metis word_not_simps(1))
  have old: "t_generation t' \<le> f_generation ?f" if "t' \<in> set ts" "t_slot t' = i" for t'
    using inv that by (auto simp: frame_inv_def token_ok_def)
  show nt: "t \<notin> set ts" using old up t(1) by (metis frame_token.select_convs(1,2) leD)
  have g: "f_generation (fp_frames p ! j) \<le> f_generation ((fp_frames p)[i := ?f'] ! j)" for j
    using i up by (cases "j = i") auto
  have gf: "packet_frame_geometry ?f'"
    using inv i(1) by (simp add: frame_inv_def packet_frame_geometry_def)
  have set: "set ((fp_frames p)[i := ?f']) \<subseteq> insert ?f' (set (fp_frames p))" by (rule set_update_subset_insert)
  show "packet_frame_lookup p' t \<noteq> None" using i(1) n0 by (simp add: t packet_frame_lookup_def)
  show "frame_inv (p', t # ts)"
    unfolding frame_inv_def prod.case t(2) put_frame_simps
  proof (intro conjI)
    show "\<forall>f\<in>set ((fp_frames p)[i := ?f']). packet_frame_geometry f"
      using inv gf set unfolding frame_inv_def prod.case by blast
    show "\<forall>t'\<in>set (t # ts). token_ok (put_frame i ?f' p) t'"
    proof
      fix t'
      assume "t' \<in> set (t # ts)"
      then show "token_ok (put_frame i ?f' p) t'"
      proof (cases "t' = t")
        case True
        then show ?thesis using i(1) n0 by (simp add: token_ok_def t(1))
      next
        case False
        then have "token_ok p t'" using \<open>t' \<in> set (t # ts)\<close> inv by (simp add: frame_inv_def)
        then show ?thesis using g [of "t_slot t'"] by (auto simp: token_ok_def intro: order_trans)
      qed
    qed
    show "distinct (t # ts)" using inv nt by (simp add: frame_inv_def)
    show "\<forall>j<length ((fp_frames p)[i := ?f']). f_state ((fp_frames p)[i := ?f'] ! j) \<noteq> FRAME_FREE
        \<longrightarrow> \<lparr>t_slot = j, t_generation = f_generation ((fp_frames p)[i := ?f'] ! j), t_identity = fp_identity p\<rparr> \<in> set (t # ts)"
    proof (intro allI impI)
      fix j
      assume j: "j < length ((fp_frames p)[i := ?f'])" "f_state ((fp_frames p)[i := ?f'] ! j) \<noteq> FRAME_FREE"
      show "\<lparr>t_slot = j, t_generation = f_generation ((fp_frames p)[i := ?f'] ! j), t_identity = fp_identity p\<rparr> \<in> set (t # ts)"
        using j i(1) inv by (cases "j = i") (simp_all add: t(1) frame_inv_def)
    qed
    show "fp_closed p \<longrightarrow> fp_stopping p \<and> (\<forall>f\<in>set ((fp_frames p)[i := ?f']). \<not> in_kernel f)"
      using inv i(2) by (simp add: frame_inv_def)
  qed
qed

lemma closed_inv:
  assumes inv: "frame_inv (p, ts)" and c: "packet_frame_backend_closed p = Inr p'"
  shows "frame_inv (p', ts)"
proof -
  let ?k = "\<lambda>f. if in_kernel f then f\<lparr>f_state := FRAME_COMPLETED\<rparr> else f"
  have p': "p' = p\<lparr>fp_closed := True, fp_frames := map ?k (fp_frames p)\<rparr>" "fp_stopping p"
    using c by (auto simp: packet_frame_backend_closed_def split: if_split_asm)
  have k: "f_generation (?k f) = f_generation f" "packet_frame_geometry (?k f) = packet_frame_geometry f"
    "f_state (?k f) \<noteq> FRAME_FREE \<Longrightarrow> f_state f \<noteq> FRAME_FREE" "\<not> in_kernel (?k f)" for f
    by (auto simp: in_kernel_def)
  show ?thesis
    unfolding frame_inv_def prod.case
  proof (intro conjI)
    have "\<forall>f\<in>set (fp_frames p). packet_frame_geometry (?k f)" using inv by (simp add: frame_inv_def k(2))
    then show "\<forall>f\<in>set (fp_frames p'). packet_frame_geometry f" by (auto simp: p'(1))
    show "\<forall>t\<in>set ts. token_ok p' t" using inv by (simp add: p'(1) frame_inv_def token_ok_def k(1))
    show "distinct ts" using inv by (simp add: frame_inv_def)
    show "\<forall>i<length (fp_frames p'). f_state (fp_frames p' ! i) \<noteq> FRAME_FREE
        \<longrightarrow> \<lparr>t_slot = i, t_generation = f_generation (fp_frames p' ! i), t_identity = fp_identity p'\<rparr> \<in> set ts"
    proof (intro allI impI)
      fix i
      assume i: "i < length (fp_frames p')" "f_state (fp_frames p' ! i) \<noteq> FRAME_FREE"
      then have "fp_frames p' ! i = ?k (fp_frames p ! i)" "i < length (fp_frames p)" by (simp_all add: p'(1))
      then show "\<lparr>t_slot = i, t_generation = f_generation (fp_frames p' ! i), t_identity = fp_identity p'\<rparr> \<in> set ts"
        using inv i k(1,3) [of "fp_frames p ! i"] unfolding frame_inv_def prod.case by (simp add: p'(1))
    qed
    show "fp_closed p' \<longrightarrow> fp_stopping p' \<and> (\<forall>f\<in>set (fp_frames p'). \<not> in_kernel f)" by (auto simp: p' in_kernel_def)
  qed
qed

lemma frame_step_inv: "frame_step r r' \<Longrightarrow> frame_inv r \<Longrightarrow> frame_inv r'"
proof (induction rule: frame_step.induct)
  case (acquire slot p t p' ts)
  then show ?case using acquire_inv(1) by blast
next
  case (transition t ts to p p')
  then show ?case using transition_inv by blast
next
  case (prepend t ts n p p')
  then obtain f where f: "packet_frame_lookup p t = Some f" "f_state f = FRAME_TRANSLATING" "packet_frame_geometry f" "n \<le> f_offset f"
    "p' = put_frame (t_slot t) (f\<lparr>f_offset := f_offset f - n, f_length := f_length f + n\<rparr>) p"
    by (auto simp: packet_frame_prepend_def split: option.splits if_split_asm)
  have "packet_frame_geometry (f\<lparr>f_offset := f_offset f - n, f_length := f_length f + n\<rparr>)"
    using f(3,4) by (auto simp: packet_frame_geometry_def)
  then show ?case unfolding f(5) using put_frame_inv [OF prepend.prems f(1)] f(2) by (simp add: in_kernel_def)
next
  case (rollback t ts p p')
  then obtain f s where f: "packet_frame_lookup p t = Some f" "in_kernel f" "s = FRAME_RECEIVED \<or> s = FRAME_PENDING_TX"
    "p' = put_frame (t_slot t) (f\<lparr>f_state := s\<rparr>) p"
    by (fastforce simp: packet_frame_unpublished_rollback_def in_kernel_def split: option.splits if_split_asm)
  have "f_state f \<noteq> FRAME_FREE" using f(2) by (auto simp: in_kernel_def)
  then show ?case
    unfolding f(4) using put_frame_inv [OF rollback.prems f(1)] lookup_geometry [OF rollback.prems f(1)] f(3) by (auto simp: in_kernel_def)
next
  case (fill t ts p f a b)
  then show ?case using put_frame_inv [OF fill.prems fill.hyps(2)] by (simp add: in_kernel_def)
next
  case (stop p ts)
  then show ?case by (simp add: frame_inv_def packet_frame_stop_def token_ok_def)
next
  case (closed p p' ts)
  then show ?case using closed_inv by blast
qed

lemma frame_reach_inv: "frame_reach frames identity r \<Longrightarrow> frame_inv r"
proof (induction rule: frame_reach.induct)
  case (init p)
  then have p: "p = \<lparr>fp_frames = map (\<lambda>f. f\<lparr>f_offset := 0, f_length := 0, f_generation := 0, f_state := FRAME_FREE\<rparr>) frames,
      fp_identity = identity, fp_stopping = False, fp_closed = False\<rparr>"
    and s: "\<forall>f\<in>set frames. f_storage f \<noteq> None"
    by (auto simp: packet_frame_pool_init_def list_ex_iff split: if_split_asm)
  show ?case using s by (simp add: frame_inv_def p packet_frame_geometry_def)
next
  case (step r r')
  then show ?case using frame_step_inv by blast
qed

section \<open>Ownership\<close>

lemma free_refuses:
  assumes "packet_frame_lookup p t = Some f" "f_state f = FRAME_FREE"
  shows "packet_frame_transition t to p = Inl F_EBUSY" "packet_frame_prepend t n p = Inl F_EBUSY"
    "packet_frame_unpublished_rollback t p = Inl F_EBUSY"
proof -
  have "\<not> frame_allowed p f to" using assms(2) by (cases to) simp_all
  then show "packet_frame_transition t to p = Inl F_EBUSY" by (simp add: packet_frame_transition_def assms(1))
qed (simp_all add: packet_frame_prepend_def packet_frame_unpublished_rollback_def assms)

text \<open>
  What one step does to a frame: its generation stays, and then a freed frame stays freed, or the
  frame is handed out anew with the next generation and a token of its own.
\<close>

definition generation_kept :: "packet_frame \<Rightarrow> packet_frame \<Rightarrow> bool" where
  "generation_kept f f' \<longleftrightarrow> f_generation f' = f_generation f \<and> (f_state f = FRAME_FREE \<longrightarrow> f_state f' = FRAME_FREE)"

lemma put_kept:
  assumes "packet_frame_lookup p t = Some f" "generation_kept f f'"
  shows "generation_kept (fp_frames p ! i) (fp_frames (put_frame (t_slot t) f' p) ! i)"
  using assms by (cases "i = t_slot t") (auto simp: lookup_Some generation_kept_def)

lemma frame_step_kept:
  assumes "frame_step (p, ts) (p', ts')"
  shows "fp_identity p' = fp_identity p \<and> length (fp_frames p') = length (fp_frames p)
    \<and> (ts' = ts \<and> (\<forall>i<length (fp_frames p). generation_kept (fp_frames p ! i) (fp_frames p' ! i))
       \<or> (\<exists>t. ts' = t # ts \<and> packet_frame_acquire (t_slot t) p = Inr (t, p')))"
  using assms
proof (cases rule: frame_step.cases)
  case (acquire slot t)
  then have "t_slot t = slot" "p' = put_frame slot (fp_frames p' ! slot) p"
    by (auto simp: packet_frame_acquire_def Let_def put_frame_def split: if_split_asm)
  then show ?thesis using acquire by (metis length_list_update put_frame_simps(1,2))
next
  case (transition t to)
  from transition(3) show ?thesis
  proof (cases rule: transition_Inr)
    case (1 f)
    have "f_state f \<noteq> FRAME_FREE" using 1(2) by (cases to) auto
    then have k: "generation_kept f (f\<lparr>f_state := to\<rparr>)" "generation_kept f (f\<lparr>f_state := FRAME_FREE, f_length := 0, f_offset := 0\<rparr>)"
      by (simp_all add: generation_kept_def)
    show ?thesis using 1(3,4) transition(1) put_kept [OF 1(1) k(1)] put_kept [OF 1(1) k(2)] by (cases "to = FRAME_FREE") simp_all
  qed
next
  case (prepend t n)
  then obtain f where f: "packet_frame_lookup p t = Some f"
    "p' = put_frame (t_slot t) (f\<lparr>f_offset := f_offset f - n, f_length := f_length f + n\<rparr>) p"
    by (auto simp: packet_frame_prepend_def split: option.splits if_split_asm)
  have "generation_kept f (f\<lparr>f_offset := f_offset f - n, f_length := f_length f + n\<rparr>)" by (simp add: generation_kept_def)
  then show ?thesis using put_kept [OF f(1)] prepend(1) f(2) by simp
next
  case (rollback t)
  then obtain f s where f: "packet_frame_lookup p t = Some f" "f_state f \<noteq> FRAME_FREE" "p' = put_frame (t_slot t) (f\<lparr>f_state := s\<rparr>) p"
    by (fastforce simp: packet_frame_unpublished_rollback_def split: option.splits if_split_asm)
  have "generation_kept f (f\<lparr>f_state := s\<rparr>)" using f(2) by (simp add: generation_kept_def)
  then show ?thesis using put_kept [OF f(1)] rollback(1) f(3) by simp
next
  case (fill t f a b)
  have "generation_kept f (f\<lparr>f_offset := x, f_length := y\<rparr>)" for x y by (simp add: generation_kept_def)
  then show ?thesis using put_kept [OF fill(4)] fill(1,2) by simp
next
  case stop
  then show ?thesis by (simp add: packet_frame_stop_def generation_kept_def)
next
  case closed
  then show ?thesis
    by (auto simp: packet_frame_backend_closed_def generation_kept_def in_kernel_def split: if_split_asm)
qed

lemma acquire_Inr:
  assumes "packet_frame_acquire i p = Inr (t, p')"
  shows "i < length (fp_frames p)" "f_state (fp_frames p ! i) = FRAME_FREE"
    "t = \<lparr>t_slot = i, t_generation = f_generation (fp_frames p ! i) + 1, t_identity = fp_identity p\<rparr>"
    "f_generation (fp_frames p ! i) < f_generation (fp_frames p ! i) + 1"
    "j < length (fp_frames p) \<Longrightarrow> f_generation (fp_frames p' ! j) = (if j = i then t_generation t else f_generation (fp_frames p ! j))"
    "j \<noteq> i \<Longrightarrow> fp_frames p' ! j = fp_frames p ! j"
  using assms by (auto simp: packet_frame_acquire_def Let_def nth_list_update below_next split: if_split_asm)

text \<open>
  The history of a slot: its tokens have decreasing generations, newest first, and the generation
  of a frame that was ever handed out is that of one of its tokens.
\<close>

definition token_history :: "frame_run \<Rightarrow> bool" where
  "token_history = (\<lambda>(p, ts). sorted_wrt (\<lambda>t t'. t_slot t = t_slot t' \<longrightarrow> t_generation t' < t_generation t) ts
     \<and> (\<forall>i<length (fp_frames p). f_generation (fp_frames p ! i) \<noteq> 0
          \<longrightarrow> \<lparr>t_slot = i, t_generation = f_generation (fp_frames p ! i), t_identity = fp_identity p\<rparr> \<in> set ts))"

lemma step_history:
  assumes s: "frame_step (p, ts) (p', ts')" and inv: "frame_inv (p, ts)" and h: "token_history (p, ts)"
  shows "token_history (p', ts')"
proof -
  note k = frame_step_kept [OF s]
  show ?thesis
  proof (cases "ts' = ts")
    case True
    then have "\<forall>i<length (fp_frames p). generation_kept (fp_frames p ! i) (fp_frames p' ! i)" using k by auto
    then show ?thesis using h k True by (simp add: token_history_def generation_kept_def)
  next
    case False
    then obtain t where t: "ts' = t # ts" "packet_frame_acquire (t_slot t) p = Inr (t, p')" using k by auto
    note a = acquire_Inr [OF t(2)]
    have g: "t_generation t = f_generation (fp_frames p ! t_slot t) + 1" by (subst a(3)) simp
    have "t_generation t' < t_generation t" if "t' \<in> set ts" "t_slot t' = t_slot t" for t'
    proof -
      have "token_ok p t'" using inv that(1) by (simp add: frame_inv_def)
      then show ?thesis using a(4) that(2) unfolding g by (auto simp: token_ok_def)
    qed
    moreover have "\<lparr>t_slot = i, t_generation = f_generation (fp_frames p' ! i), t_identity = fp_identity p'\<rparr> \<in> set ts'"
      if i: "i < length (fp_frames p)" "f_generation (fp_frames p' ! i) \<noteq> 0" for i
    proof (cases "i = t_slot t")
      case True
      then show ?thesis using a(5) [OF i(1)] a(3) k t(1) by (metis frame_token.select_convs(2) list.set_intros(1))
    next
      case False
      then show ?thesis using a(5) [OF i(1)] h i k t(1) by (auto simp: token_history_def)
    qed
    ultimately show ?thesis using h k t(1) by (simp add: token_history_def)
  qed
qed

lemma reach_history: "frame_reach frames identity r \<Longrightarrow> token_history r"
proof (induction rule: frame_reach.induct)
  case (init p)
  then show ?case by (auto simp: token_history_def packet_frame_pool_init_def split: if_split_asm)
next
  case (step r r')
  then show ?case using step_history [OF _ frame_reach_inv] by (metis surj_pair)
qed

lemma newest_recognised:
  assumes inv: "frame_inv (p, ts)" and h: "token_history (p, ts)" and i: "i < length ts"
  shows "packet_frame_lookup p (ts ! i) \<noteq> None \<longleftrightarrow> (\<forall>j<i. t_slot (ts ! j) \<noteq> t_slot (ts ! i))"
proof -
  let ?t = "ts ! i"
  let ?now = "\<lparr>t_slot = t_slot ?t, t_generation = f_generation (fp_frames p ! t_slot ?t), t_identity = fp_identity p\<rparr>"
  have ok: "token_ok p t" if "t \<in> set ts" for t using inv that by (simp add: frame_inv_def)
  have t: "token_ok p ?t" using ok i by simp
  have lk: "packet_frame_lookup p ?t \<noteq> None \<longleftrightarrow> t_generation ?t = f_generation (fp_frames p ! t_slot ?t)"
    using t by (auto simp: packet_frame_lookup_def token_ok_def)
  have old: "t_generation (ts ! b) < t_generation (ts ! a)" if "a < b" "b < length ts" "t_slot (ts ! a) = t_slot (ts ! b)" for a b
    using h that by (simp add: token_history_def sorted_wrt_iff_nth_less)
  have "t_generation ?t \<noteq> f_generation (fp_frames p ! t_slot ?t)" if "j < i" "t_slot (ts ! j) = t_slot ?t" for j
  proof -
    have "token_ok p (ts ! j)" using ok that(1) i by simp
    then show ?thesis using old [OF that(1) i that(2)] that(2) by (auto simp: token_ok_def)
  qed
  moreover have "t_generation ?t = f_generation (fp_frames p ! t_slot ?t)" if n: "\<forall>j<i. t_slot (ts ! j) \<noteq> t_slot ?t"
  proof -
    have "0 < t_generation ?t" "t_generation ?t \<le> f_generation (fp_frames p ! t_slot ?t)"
      using t by (simp_all add: token_ok_def word_gt_0)
    then have "?now \<in> set ts" using h t by (auto simp: token_history_def token_ok_def)
    then obtain k where k: "k < length ts" "ts ! k = ?now" by (metis in_set_conv_nth)
    have "\<not> k < i" using n k(2) by auto
    moreover have "\<not> i < k" using old [of i k] k \<open>t_generation ?t \<le> _\<close> by auto
    ultimately show ?thesis using k(2) by (metis frame_token.select_convs(2) linorder_neqE_nat)
  qed
  ultimately show ?thesis unfolding lk by blast
qed

text \<open>A freed token is dead, and stays dead.\<close>

definition token_dead :: "frame_pool \<Rightarrow> frame_token \<Rightarrow> bool" where
  "token_dead p t \<longleftrightarrow> t_slot t < length (fp_frames p)
     \<and> (t_generation t < f_generation (fp_frames p ! t_slot t)
        \<or> t_generation t = f_generation (fp_frames p ! t_slot t) \<and> f_state (fp_frames p ! t_slot t) = FRAME_FREE)"

lemma dead_refused:
  assumes "token_dead p t"
  shows "packet_frame_transition t to p \<in> {Inl F_ESTALE, Inl F_EBUSY}" "packet_frame_prepend t n p \<in> {Inl F_ESTALE, Inl F_EBUSY}"
    "packet_frame_unpublished_rollback t p \<in> {Inl F_ESTALE, Inl F_EBUSY}"
proof -
  have "packet_frame_transition t to p \<in> {Inl F_ESTALE, Inl F_EBUSY} \<and> packet_frame_prepend t n p \<in> {Inl F_ESTALE, Inl F_EBUSY}
    \<and> packet_frame_unpublished_rollback t p \<in> {Inl F_ESTALE, Inl F_EBUSY}"
  proof (cases "packet_frame_lookup p t")
    case None
    then show ?thesis by (simp add: packet_frame_transition_def packet_frame_prepend_def packet_frame_unpublished_rollback_def)
  next
    case (Some f)
    then have "f_state f = FRAME_FREE" using assms by (auto simp: lookup_Some token_dead_def)
    then show ?thesis using free_refuses [OF Some] by simp
  qed
  then show "packet_frame_transition t to p \<in> {Inl F_ESTALE, Inl F_EBUSY}" "packet_frame_prepend t n p \<in> {Inl F_ESTALE, Inl F_EBUSY}"
    "packet_frame_unpublished_rollback t p \<in> {Inl F_ESTALE, Inl F_EBUSY}" by blast+
qed

lemma free_dead: "packet_frame_transition t FRAME_FREE p = Inr p' \<Longrightarrow> token_dead p' t"
  by (erule transition_Inr) (simp add: lookup_Some token_dead_def)

lemma step_dead:
  assumes "frame_step (p, ts) (p', ts')" "token_dead p t"
  shows "token_dead p' t"
proof -
  note k = frame_step_kept [OF assms(1)]
  show ?thesis
  proof (cases "ts' = ts")
    case True
    then have "\<forall>i<length (fp_frames p). generation_kept (fp_frames p ! i) (fp_frames p' ! i)" using k by auto
    then show ?thesis using assms(2) k unfolding token_dead_def generation_kept_def by (metis (no_types, lifting))
  next
    case False
    then obtain n where n: "packet_frame_acquire (t_slot n) p = Inr (n, p')" using k by auto
    note a = acquire_Inr [OF n]
    have g: "t_generation n = f_generation (fp_frames p ! t_slot n) + 1" by (subst a(3)) simp
    show ?thesis
    proof (cases "t_slot t = t_slot n")
      case True
      then have "t_generation t \<le> f_generation (fp_frames p ! t_slot n)" using assms(2) by (auto simp: token_dead_def)
      then have "t_generation t < t_generation n" unfolding g using a(4) by (rule le_less_trans)
      then show ?thesis using True a(1) a(5) [OF a(1)] k by (simp add: token_dead_def)
    next
      case False
      then show ?thesis using assms(2) k a(6) by (simp add: token_dead_def)
    qed
  qed
qed

lemma run_dead: "frame_step\<^sup>*\<^sup>* (p, ts) r \<Longrightarrow> token_dead p t \<Longrightarrow> token_dead (fst r) t"
  by (induction rule: rtranclp_induct) (use step_dead in \<open>auto simp: split_paired_all\<close>)

text \<open>
  C23. A frame has at most one live token. All tokens ever handed out are different; a token is
  recognised exactly when no newer one was handed out for its slot; and once a frame was freed with
  its token, every operation with that token is refused in every later state, a second free too,
  also after the slot was handed out again.
\<close>

theorem frame_token_exclusive:
  assumes "frame_reach frames identity (p, ts)"
  shows "distinct ts
    \<and> (\<forall>i<length ts. packet_frame_lookup p (ts ! i) \<noteq> None \<longleftrightarrow> (\<forall>j<i. t_slot (ts ! j) \<noteq> t_slot (ts ! i)))
    \<and> (\<forall>t p1 p2 ts2 to n. packet_frame_transition t FRAME_FREE p = Inr p1 \<longrightarrow> frame_step\<^sup>*\<^sup>* (p1, ts) (p2, ts2)
         \<longrightarrow> packet_frame_transition t to p2 \<in> {Inl F_ESTALE, Inl F_EBUSY} \<and> packet_frame_prepend t n p2 \<in> {Inl F_ESTALE, Inl F_EBUSY}
             \<and> packet_frame_unpublished_rollback t p2 \<in> {Inl F_ESTALE, Inl F_EBUSY})"
proof -
  have inv: "frame_inv (p, ts)" by (rule frame_reach_inv [OF assms])
  have "token_dead p2 t" if "packet_frame_transition t FRAME_FREE p = Inr p1" "frame_step\<^sup>*\<^sup>* (p1, ts) (p2, ts2)" for t p1 p2 ts2
    using run_dead [OF that(2) free_dead [OF that(1)]] by simp
  then show ?thesis
    using newest_recognised [OF inv reach_history [OF assms]] inv dead_refused by (simp add: frame_inv_def)
qed

text \<open>Freeing every frame in use.\<close>

definition in_use :: "frame_pool \<Rightarrow> nat set" where
  "in_use p = {i. i < length (fp_frames p) \<and> f_state (fp_frames p ! i) \<noteq> FRAME_FREE}"

lemma free_one:
  assumes inv: "frame_inv (p, ts)" and c: "fp_closed p" and i: "i \<in> in_use p"
  shows "\<exists>p'. frame_step (p, ts) (p', ts) \<and> frame_inv (p', ts) \<and> fp_closed p' \<and> in_use p' = in_use p - {i}"
proof -
  let ?f = "fp_frames p ! i"
  let ?t = "\<lparr>t_slot = i, t_generation = f_generation ?f, t_identity = fp_identity p\<rparr>"
  have ii: "i < length (fp_frames p)" "f_state ?f \<noteq> FRAME_FREE" using i by (simp_all add: in_use_def)
  have t: "?t \<in> set ts" using inv ii by (simp add: frame_inv_def)
  then have "token_ok p ?t" using inv by (simp add: frame_inv_def)
  then have l: "packet_frame_lookup p ?t = Some ?f" using ii(1) by (simp add: packet_frame_lookup_def token_ok_def)
  have "\<not> in_kernel ?f" using inv c ii(1) by (simp add: frame_inv_def)
  then have a: "frame_allowed p ?f FRAME_FREE" using ii(2) by (cases "f_state ?f") (simp_all add: in_kernel_def)
  let ?p' = "put_frame i (?f\<lparr>f_state := FRAME_FREE, f_length := 0, f_offset := 0\<rparr>) p"
  have tr: "packet_frame_transition ?t FRAME_FREE p = Inr ?p'"
    using a by (simp add: packet_frame_transition_def l del: frame_allowed.simps)
  have "in_use ?p' = in_use p - {i}" using ii(1) by (auto simp: in_use_def nth_list_update split: if_split_asm)
  then show ?thesis using frame_step.transition [OF t tr] transition_inv [OF inv tr] c by auto
qed

lemma free_all:
  "frame_inv (p, ts) \<Longrightarrow> fp_closed p \<Longrightarrow> \<exists>p'. frame_step\<^sup>*\<^sup>* (p, ts) (p', ts) \<and> packet_frame_can_unmap p'"
proof (induction "card (in_use p)" arbitrary: p rule: less_induct)
  case less
  have fin: "finite (in_use p)" by (simp add: in_use_def)
  show ?case
  proof (cases "in_use p = {}")
    case True
    then have "packet_frame_can_unmap p"
      using less.prems(2) by (auto simp: packet_frame_can_unmap_def in_use_def list_all_length)
    then show ?thesis by blast
  next
    case False
    then obtain i where i: "i \<in> in_use p" by blast
    obtain p1 where p1: "frame_step (p, ts) (p1, ts)" "frame_inv (p1, ts)" "fp_closed p1" "in_use p1 = in_use p - {i}"
      using free_one [OF less.prems i] by blast
    have "card (in_use p1) < card (in_use p)" unfolding p1(4) by (rule card_Diff1_less [OF fin i])
    from less.hyps [OF this p1(2,3)] show ?thesis using p1(1) by (meson converse_rtranclp_into_rtranclp)
  qed
qed

text \<open>
  Once the kernel's side is closed it never holds a frame again, no frame is handed out any
  more, and every frame still in use can be freed by its owner, until the storage can be unmapped.
\<close>

theorem frame_shutdown:
  assumes "frame_reach frames identity (p, ts)" "fp_closed p"
  shows "(\<forall>f\<in>set (fp_frames p). f_state f \<noteq> FRAME_RX_POSTED \<and> f_state f \<noteq> FRAME_TX_SUBMITTED)
    \<and> (\<forall>i. \<exists>e. packet_frame_acquire i p = Inl e)
    \<and> (\<exists>p'. frame_step\<^sup>*\<^sup>* (p, ts) (p', ts) \<and> packet_frame_can_unmap p')"
proof -
  have inv: "frame_inv (p, ts)" by (rule frame_reach_inv [OF assms(1)])
  then have "fp_stopping p" "\<forall>f\<in>set (fp_frames p). \<not> in_kernel f" using assms(2) by (simp_all add: frame_inv_def)
  then show ?thesis using free_all [OF inv assms(2)] by (auto simp: packet_frame_acquire_def in_kernel_def)
qed

section \<open>Witnesses\<close>

definition one_frame :: "packet_frame list" where
  "one_frame = [\<lparr>f_storage = Some 0, f_capacity = 100, f_offset = 7, f_length = 9, f_generation = 5, f_state = FRAME_COMPLETED\<rparr>]"

definition frame_now :: "frame_state \<Rightarrow> packet_frame" where
  "frame_now s = \<lparr>f_storage = Some 0, f_capacity = 100, f_offset = 0, f_length = 0, f_generation = 1, f_state = s\<rparr>"

definition pool_now :: "frame_state \<Rightarrow> bool \<Rightarrow> frame_pool" where
  "pool_now s b = \<lparr>fp_frames = [frame_now s], fp_identity = 3, fp_stopping = b, fp_closed = b\<rparr>"

definition token_now :: frame_token where
  "token_now = \<lparr>t_slot = 0, t_generation = 1, t_identity = 3\<rparr>"

lemma pool_acquired: "frame_reach one_frame 3 (pool_now FRAME_RECEIVED False, [token_now])"
proof -
  let ?p = "\<lparr>fp_frames = [(frame_now FRAME_FREE)\<lparr>f_generation := 0\<rparr>], fp_identity = 3, fp_stopping = False, fp_closed = False\<rparr>"
  have "packet_frame_pool_init one_frame 3 = Inr ?p" by (simp add: packet_frame_pool_init_def one_frame_def frame_now_def)
  then have r: "frame_reach one_frame 3 (?p, [])" by (rule frame_reach.init)
  have "packet_frame_acquire 0 ?p = Inr (token_now, pool_now FRAME_RECEIVED False)"
    by (simp add: packet_frame_acquire_def put_frame_def frame_now_def pool_now_def token_now_def)
  then show ?thesis by (rule frame_reach.step [OF r frame_step.acquire])
qed

text \<open>A frame is freed and handed out again: the first token is dead, the second alive.\<close>

lemma frame_token_exclusive_witness:
  "\<exists>p t. packet_frame_lookup p t \<noteq> None \<and> packet_frame_lookup p token_now = None
    \<and> packet_frame_transition token_now FRAME_FREE p \<in> {Inl F_ESTALE, Inl F_EBUSY}"
proof -
  let ?p = "pool_now FRAME_RECEIVED False" and ?p1 = "pool_now FRAME_FREE False" and ?t = "\<lparr>t_slot = 0, t_generation = 2, t_identity = 3\<rparr>"
  let ?p2 = "put_frame 0 ((frame_now FRAME_RECEIVED)\<lparr>f_generation := 2\<rparr>) ?p1"
  have f: "packet_frame_transition token_now FRAME_FREE ?p = Inr ?p1"
    by (simp add: packet_frame_transition_def packet_frame_lookup_def token_now_def pool_now_def frame_now_def put_frame_def)
  have "packet_frame_acquire 0 ?p1 = Inr (?t, ?p2)"
    by (simp add: packet_frame_acquire_def put_frame_def frame_now_def pool_now_def)
  then have a: "frame_step (?p1, [token_now]) (?p2, [?t, token_now])" by (rule frame_step.acquire)
  have r: "frame_reach one_frame 3 (?p2, [?t, token_now])"
    using frame_reach.step [OF frame_reach.step [OF pool_acquired frame_step.transition [OF _ f]] a] by simp
  have old: "packet_frame_transition token_now FRAME_FREE ?p2 \<in> {Inl F_ESTALE, Inl F_EBUSY}"
    using frame_token_exclusive [OF pool_acquired] f r_into_rtranclp [of frame_step, OF a] by blast
  have "packet_frame_lookup ?p2 ([?t, token_now] ! 0) \<noteq> None" "packet_frame_lookup ?p2 ([?t, token_now] ! 1) = None"
    using frame_token_exclusive [OF r] by (auto simp: token_now_def less_Suc_eq)
  then show ?thesis using old by fastforce
qed

lemma frame_shutdown_witness:
  "\<exists>p'. frame_step\<^sup>*\<^sup>* (pool_now FRAME_RECEIVED True, [token_now]) (p', [token_now]) \<and> packet_frame_can_unmap p'"
proof -
  let ?p = "packet_frame_stop (pool_now FRAME_RECEIVED False)"
  have "frame_reach one_frame 3 (?p, [token_now])" by (rule frame_reach.step [OF pool_acquired frame_step.stop])
  moreover have "packet_frame_backend_closed ?p = Inr (pool_now FRAME_RECEIVED True)"
    by (simp add: packet_frame_backend_closed_def packet_frame_stop_def pool_now_def in_kernel_def frame_now_def)
  ultimately have "frame_reach one_frame 3 (pool_now FRAME_RECEIVED True, [token_now])"
    using frame_step.closed by (auto intro: frame_reach.step)
  from frame_shutdown [OF this] show ?thesis by (simp add: pool_now_def)
qed

end
