(* ===== verification/Reads.thy ===== *)
theory Reads
  imports Prelude "HOL-Library.Monad_Syntax"
begin

text \<open>
  Checked reads of received bytes, for the parsers of data from the network. A parser's result is
  \<open>None\<close> when it reads outside the bytes it was given, \<open>Some None\<close> when it refuses them.
\<close>

unbundle bit_operations_syntax

definition rd :: "u8 list \<Rightarrow> nat \<Rightarrow> u8 option" where
  "rd p i = (if i < length p then Some (p ! i) else None)"

definition rds :: "u8 list \<Rightarrow> nat \<Rightarrow> nat \<Rightarrow> u8 list option" where
  "rds p i k = (if i + k \<le> length p then Some (take k (drop i p)) else None)"

definition be16_at :: "u8 list \<Rightarrow> nat \<Rightarrow> u16 option" where
  "be16_at p i = (case (rd p i, rd p (i + 1)) of
     (Some a, Some b) \<Rightarrow> Some (push_bit 8 (ucast a) OR ucast b) | _ \<Rightarrow> None)"

definition reject :: "'a option option" where
  "reject = Some None"

text \<open>Go on with what was accepted.\<close>

definition ok_then :: "'a option option \<Rightarrow> ('a \<Rightarrow> 'b option option) \<Rightarrow> 'b option option" where
  "ok_then r f = (case r of None \<Rightarrow> None | Some None \<Rightarrow> Some None | Some (Some x) \<Rightarrow> f x)"

lemma ok_then_simps [simp]:
  "ok_then None f = None" "ok_then (Some None) f = Some None" "ok_then (Some (Some x)) f = f x" "ok_then reject f = reject"
  by (simp_all add: ok_then_def reject_def)

lemma ok_then_cong [fundef_cong]:
  "r = r' \<Longrightarrow> (\<And>x. r' = Some (Some x) \<Longrightarrow> f x = f' x) \<Longrightarrow> ok_then r f = ok_then r' f'"
  by (auto simp: ok_then_def split: option.split)

lemma ok_then_inside: "r \<noteq> None \<Longrightarrow> (\<And>x. r = Some (Some x) \<Longrightarrow> f x \<noteq> None) \<Longrightarrow> ok_then r f \<noteq> None"
  by (auto simp: ok_then_def split: option.split)

lemma reject_inside [simp]: "reject \<noteq> None" "\<exists>y. reject = Some y"
  by (simp_all add: reject_def)

lemma rds_Some: "i + k \<le> length p \<Longrightarrow> rds p i k = Some (take k (drop i p))"
  by (simp add: rds_def)

lemma rd_Some: "i < length p \<Longrightarrow> rd p i = Some (p ! i)"
  by (simp add: rd_def)

lemma be16_at_Some: "i + 2 \<le> length p \<Longrightarrow> be16_at p i = Some (push_bit 8 (ucast (p ! i)) OR ucast (p ! (i + 1)))"
  by (simp add: be16_at_def rd_Some)

end
