(* ===== verification/Flow.thy ===== *)
theory Flow
  imports Reads
begin

text \<open>
  The classifier of received packets (\<open>src/src/flow_dispatch.h\<close>): the hash of the flow a packet
  belongs to and, for a fragment, the key and hash of its datagram. Every read of the packet is
  checked: \<open>None\<close> is a read outside the bytes supplied, \<open>Some None\<close> a packet that is refused.
\<close>

section \<open>Hashing\<close>

definition flow_be16 :: "u8 list \<Rightarrow> nat \<Rightarrow> u16 option" where
  "flow_be16 p i = (case (rd p i, rd p (i + 1)) of
     (Some a, Some b) \<Rightarrow> Some (push_bit 8 (ucast a) OR ucast b) | _ \<Rightarrow> None)"

definition flow_hash_bytes :: "u8 list \<Rightarrow> u32" where
  "flow_hash_bytes bs =
     (let h = fold (\<lambda>b h. (h XOR ucast b) * 16777619) bs 2166136261;
          h = h XOR drop_bit 16 h;
          h = h * 0x7feb352d
      in h XOR drop_bit 15 h)"

section \<open>The IP headers\<close>

text \<open>What the two branches leave for the rest: the bounded length, the position and protocol behind
  the headers, the addresses and the fragment.\<close>

record flow_head =
  fh_n :: nat
  fh_off :: nat
  fh_proto :: u8
  fh_src :: "u8 list"
  fh_dst :: "u8 list"
  fh_fragmented :: bool
  fh_first :: bool
  fh_ident :: "u8 list"
  fh_next :: u8

record flow_packet =
  fl_key :: "u8 list"
  fl_hash :: u32
  fl_fragment_hash :: u32
  fl_fragmented :: bool
  fl_first :: bool
  fl_transport :: bool

definition flow_ip4 :: "bool \<Rightarrow> u8 list \<Rightarrow> nat \<Rightarrow> flow_head option option" where
  "flow_ip4 outer p n =
     (if n < 20 then reject
      else do {
        b0 \<leftarrow> rd p 0;
        let off = unat (b0 AND 15) * 4;
        if off < 20 \<or> off > n then reject
        else do {
          len16 \<leftarrow> flow_be16 p 2;
          let len = unat len16;
          if len < off \<or> outer \<and> len \<noteq> n then reject
          else do {
            let n = (if len < n then len else n);
            proto \<leftarrow> rd p 9;
            src \<leftarrow> rds p 12 4;
            dst \<leftarrow> rds p 16 4;
            frag \<leftarrow> flow_be16 p 6;
            ident \<leftarrow> rds p 4 2;
            let fragmented = (frag AND 0x3fff \<noteq> 0);
            if frag AND 0x8000 \<noteq> 0 then reject
            else if fragmented \<and> (frag AND 0x4000 \<noteq> 0 \<or> frag AND 0x2000 \<noteq> 0 \<and> (n - off) mod 8 \<noteq> 0) then reject
            else Some (Some \<lparr>fh_n = n, fh_off = off, fh_proto = proto, fh_src = src, fh_dst = dst,
              fh_fragmented = fragmented, fh_first = (frag AND 0x1fff = 0), fh_ident = ident, fh_next = proto\<rparr>)
          }
        }
      })"

text \<open>The loop over the extension headers; \<open>left\<close> is how many it may still pass.\<close>

definition is_ext :: "u8 \<Rightarrow> bool" where
  "is_ext proto \<longleftrightarrow> proto = 0 \<or> proto = 43 \<or> proto = 60 \<or> proto = 51 \<or> proto = 44"

fun flow_ext :: "nat \<Rightarrow> bool \<Rightarrow> u8 list \<Rightarrow> flow_head \<Rightarrow> flow_head option option" where
  "flow_ext left seen p h =
     (let off = fh_off h; n = fh_n h; proto = fh_proto h
      in if \<not> is_ext proto then Some (Some h)
         else
           (case left of
              0 \<Rightarrow> reject
            | Suc left \<Rightarrow>
                if off > 296 \<or> off + 2 > n then reject
                else do {
                  nxt \<leftarrow> rd p off;
                  b1 \<leftarrow> rd p (off + 1);
                  if proto = 44 then
                    (if seen \<or> off + 8 > n then reject
                     else do {
                       frag \<leftarrow> flow_be16 p (off + 2);
                       ident \<leftarrow> rds p (off + 4) 4;
                       let fragmented = (frag AND 0xfff9 \<noteq> 0);
                       let first = (frag AND 0xfff8 = 0);
                       if b1 \<noteq> 0 \<or> frag AND 6 \<noteq> 0 then reject
                       else if fragmented \<and> frag AND 1 \<noteq> 0 \<and> (n - off - 8) mod 8 \<noteq> 0 then reject
                       else if 8 > n - off \<or> off + 8 > 296 then reject
                       else do {
                         let h = h\<lparr>fh_off := off + 8, fh_proto := nxt, fh_fragmented := fragmented, fh_first := first\<rparr>;
                         let h = (if fragmented then h\<lparr>fh_ident := ident, fh_next := nxt\<rparr> else h);
                         if first then flow_ext left True p h else Some (Some h)
                       }
                     })
                  else do {
                    let len = (if proto = 51 then (unat b1 + 2) * 4 else (unat b1 + 1) * 8);
                    if len > n - off \<or> off + len > 296 then reject
                    else do {
                      let h = h\<lparr>fh_off := off + len, fh_proto := nxt\<rparr>;
                      if fh_first h then flow_ext left seen p h else Some (Some h)
                    }
                  }
                }))"

declare flow_ext.simps [simp del]

definition flow_ip6 :: "bool \<Rightarrow> u8 list \<Rightarrow> nat \<Rightarrow> flow_head option option" where
  "flow_ip6 outer p n =
     (if n < 40 then reject
      else do {
        pl \<leftarrow> flow_be16 p 4;
        let len = 40 + unat pl;
        if pl = 0 \<or> outer \<and> len \<noteq> n then reject
        else do {
          let n = (if len < n then len else n);
          proto \<leftarrow> rd p 6;
          src \<leftarrow> rds p 8 16;
          dst \<leftarrow> rds p 24 16;
          flow_ext 8 False p \<lparr>fh_n = n, fh_off = 40, fh_proto = proto, fh_src = src, fh_dst = dst,
            fh_fragmented = False, fh_first = True, fh_ident = [], fh_next = 0\<rparr>
        }
      })"

section \<open>Keys\<close>

definition pad :: "nat \<Rightarrow> u8 list \<Rightarrow> u8 list" where
  "pad k bs = bs @ replicate (k - length bs) 0"

definition fragment_key :: "u8 \<Rightarrow> flow_head \<Rightarrow> u8 list" where
  "fragment_key family h =
     (if fh_fragmented h
      then [family, fh_next h] @ pad 16 (fh_src h) @ pad 16 (fh_dst h) @ pad 6 (fh_ident h)
      else replicate 40 0)"

text \<open>\<open>memcmp(a, b, n) <= 0\<close>.\<close>

fun memcmp_le :: "u8 list \<Rightarrow> u8 list \<Rightarrow> bool" where
  "memcmp_le (a # as) (b # bs) = (if a = b then memcmp_le as bs else a < b)"
| "memcmp_le _ _ = True"

text \<open>The end points are ordered, so that both directions have the same key.\<close>

definition flow_key :: "u8 \<Rightarrow> u8 \<Rightarrow> u8 list \<Rightarrow> u8 list \<Rightarrow> u8 list" where
  "flow_key family proto src dst = [family, proto] @ (if memcmp_le src dst then src @ dst else dst @ src)"

definition end_point :: "u8 list \<Rightarrow> u8 list \<Rightarrow> u8 list" where
  "end_point addr port = pad 16 addr @ pad 2 port"

definition has_ports :: "u8 \<Rightarrow> bool" where
  "has_ports proto \<longleftrightarrow> proto = 6 \<or> proto = 17 \<or> proto = 33 \<or> proto = 132 \<or> proto = 136"

definition is_icmp_error :: "u8 \<Rightarrow> u8 \<Rightarrow> bool" where
  "is_icmp_error proto type \<longleftrightarrow> proto = 1 \<and> (type = 3 \<or> type = 11 \<or> type = 12) \<or> proto = 58 \<and> type < 128"

definition is_icmp_echo :: "u8 \<Rightarrow> u8 \<Rightarrow> bool" where
  "is_icmp_echo proto type \<longleftrightarrow> proto = 1 \<and> (type = 0 \<or> type = 8) \<or> proto = 58 \<and> (type = 128 \<or> type = 129)"

section \<open>The packet\<close>

definition flow_result :: "u8 \<Rightarrow> flow_head \<Rightarrow> bool \<Rightarrow> u8 list \<Rightarrow> u8 list \<Rightarrow> flow_packet" where
  "flow_result family h transport sport dport =
     \<lparr>fl_key = fragment_key family h,
      fl_hash = flow_hash_bytes (flow_key family (fh_proto h) (end_point (fh_src h) sport) (end_point (fh_dst h) dport)),
      fl_fragment_hash = (if fh_fragmented h then flow_hash_bytes (fragment_key family h) else 0),
      fl_fragmented = fh_fragmented h, fl_first = fh_first h, fl_transport = transport\<rparr>"

definition later_fragment :: "u8 \<Rightarrow> flow_head \<Rightarrow> flow_packet" where
  "later_fragment family h =
     \<lparr>fl_key = fragment_key family h, fl_hash = 0, fl_fragment_hash = flow_hash_bytes (fragment_key family h),
      fl_fragmented = True, fl_first = False, fl_transport = False\<rparr>"

text \<open>\<open>quote\<close> classifies the packet quoted by an error message; it is absent inside a quotation.\<close>

type_synonym classifier = "u8 list \<Rightarrow> nat \<Rightarrow> flow_packet option option"

definition flow_icmp :: "classifier option \<Rightarrow> u8 \<Rightarrow> u8 list \<Rightarrow> flow_head \<Rightarrow> flow_packet option option" where
  "flow_icmp quote family p h = do {
     type \<leftarrow> rd p (fh_off h);
     id \<leftarrow> rds p (fh_off h + 4) 2;
     q \<leftarrow> (case quote of
            Some f \<Rightarrow> if is_icmp_error (fh_proto h) type then f (drop (fh_off h + 8) p) (fh_n h - fh_off h - 8) else Some None
          | None \<Rightarrow> Some None);
     let own = (if is_icmp_echo (fh_proto h) type then flow_result family h True id id else flow_result family h False [] []);
     Some (Some (case q of
       Some x \<Rightarrow> if fl_transport x \<and> (\<not> fl_fragmented x \<or> fl_first x)
                  then own\<lparr>fl_hash := fl_hash x, fl_transport := True\<rparr> else own
     | None \<Rightarrow> own))
   }"

definition flow_transport :: "classifier option \<Rightarrow> u8 \<Rightarrow> u8 list \<Rightarrow> flow_head \<Rightarrow> flow_packet option option" where
  "flow_transport quote family p h =
     (if fh_fragmented h \<and> \<not> fh_first h then Some (Some (later_fragment family h))
      else if has_ports (fh_proto h) then
        (if fh_off h + 4 > fh_n h then reject
         else do {
           sport \<leftarrow> rds p (fh_off h) 2;
           dport \<leftarrow> rds p (fh_off h + 2) 2;
           Some (Some (flow_result family h True sport dport))
         })
      else if (fh_proto h = 1 \<or> fh_proto h = 58) \<and> fh_off h + 8 \<le> fh_n h then flow_icmp quote family p h
      else Some (Some (flow_result family h False [] [])))"

definition flow_parse_depth :: "classifier option \<Rightarrow> classifier" where
  "flow_parse_depth quote p n =
     (if n = 0 then reject
      else do {
        b0 \<leftarrow> rd p 0;
        let family = drop_bit 4 b0;
        r \<leftarrow> (if family = 4 then flow_ip4 (quote \<noteq> None) p n
              else if family = 6 then flow_ip6 (quote \<noteq> None) p n else reject);
        (case r of None \<Rightarrow> reject | Some h \<Rightarrow> flow_transport quote family p h)
      })"

definition flow_parse_quoted :: classifier where
  "flow_parse_quoted = flow_parse_depth None"

definition flow_parse :: classifier where
  "flow_parse = flow_parse_depth (Some flow_parse_quoted)"

section \<open>No read outside the packet\<close>

lemma be16_Some: "i + 2 \<le> length p \<Longrightarrow> \<exists>x. flow_be16 p i = Some x"
  by (simp add: flow_be16_def rd_Some)

text \<open>A header inside \<open>n\<close> bytes.\<close>

definition head_in :: "nat \<Rightarrow> flow_head option option \<Rightarrow> bool" where
  "head_in n r \<longleftrightarrow> r \<noteq> None \<and> (\<forall>h. r = Some (Some h) \<longrightarrow> fh_n h \<le> n \<and> fh_off h \<le> fh_n h)"

lemma head_in_simps [simp]:
  "head_in n reject" "head_in n (Some None)" "head_in n (Some (Some h)) \<longleftrightarrow> fh_n h \<le> n \<and> fh_off h \<le> fh_n h"
  by (simp_all add: head_in_def reject_def)

lemma flow_ip4_in:
  assumes "n \<le> length p"
  shows "head_in n (flow_ip4 outer p n)"
proof (cases "n < 20")
  case False
  then have l: "20 \<le> length p" using assms by linarith
  then have "p \<noteq> []" by auto
  obtain b0 b9 x2 x6 s d i where r: "rd p 0 = Some b0" "rd p 9 = Some b9" "flow_be16 p 2 = Some x2" "flow_be16 p 6 = Some x6"
    "rds p 12 4 = Some s" "rds p 16 4 = Some d" "rds p 4 2 = Some i"
    using be16_Some [of 2 p] be16_Some [of 6 p] l \<open>p \<noteq> []\<close> by (auto simp: rd_def rds_def)
  show ?thesis using False by (simp add: flow_ip4_def Let_def r)
qed (simp add: flow_ip4_def)

lemma flow_ext_in: "fh_n h \<le> length p \<Longrightarrow> fh_off h \<le> fh_n h \<Longrightarrow> head_in (fh_n h) (flow_ext left seen p h)"
proof (induction left arbitrary: seen h)
  case 0
  then show ?case by (simp add: flow_ext.simps [of 0] Let_def)
next
  case (Suc left)
  show ?case
  proof (cases "is_ext (fh_proto h) \<and> \<not> (fh_off h > 296 \<or> fh_off h + 2 > fh_n h)")
    case False
    then show ?thesis using Suc.prems by (auto simp: flow_ext.simps [of "Suc left"] Let_def)
  next
    case True
    obtain b b1 where b: "rd p (fh_off h) = Some b" "rd p (fh_off h + 1) = Some b1"
      using True Suc.prems by (simp add: rd_def)
    have next_in: "head_in (fh_n h) (flow_ext left seen' p h')" if "fh_n h' = fh_n h" "fh_off h' \<le> fh_n h" for seen' h'
      using Suc.IH [of h' seen'] Suc.prems that by simp
    show ?thesis
    proof (cases "fh_proto h = 44 \<and> fh_off h + 8 \<le> fh_n h")
      case p44: True
      obtain x i where x: "flow_be16 p (fh_off h + 2) = Some x" "rds p (fh_off h + 4) 4 = Some i"
        using be16_Some [of "fh_off h + 2" p] p44 Suc.prems by (auto simp: rds_def)
      show ?thesis using True p44 next_in by (simp add: flow_ext.simps [of "Suc left"] Let_def b [simplified] x [simplified])
    next
      case False
      then show ?thesis using True next_in by (auto simp: flow_ext.simps [of "Suc left"] Let_def b [simplified])
    qed
  qed
qed

lemma flow_ip6_in:
  assumes "n \<le> length p"
  shows "head_in n (flow_ip6 outer p n)"
proof (cases "n < 40")
  case False
  then have l: "40 \<le> length p" using assms by linarith
  obtain b6 x4 s d where r: "rd p 6 = Some b6" "flow_be16 p 4 = Some x4" "rds p 8 16 = Some s" "rds p 24 16 = Some d"
    using be16_Some [of 4 p] l by (auto simp: rd_def rds_def)
  have e: "head_in n (flow_ext 8 False p h)" if "fh_n h \<le> n" "fh_off h \<le> fh_n h" for h
    using flow_ext_in [of h p 8 False] that assms by (auto simp: head_in_def)
  show ?thesis using False e by (simp add: flow_ip6_def Let_def r)
qed (simp add: flow_ip6_def)

text \<open>A classifier that reads inside the bytes it is given.\<close>

definition reads_inside :: "classifier \<Rightarrow> bool" where
  "reads_inside f \<longleftrightarrow> (\<forall>p n. n \<le> length p \<longrightarrow> f p n \<noteq> None)"

lemma flow_transport_in:
  assumes "\<And>f. quote = Some f \<Longrightarrow> reads_inside f" "fh_n h \<le> length p" "fh_off h \<le> fh_n h"
  shows "flow_transport quote family p h \<noteq> None"
proof (cases "fh_off h + 8 \<le> fh_n h")
  case True
  obtain t i where t: "rd p (fh_off h) = Some t" "rds p (fh_off h + 4) 2 = Some i" using True assms(2) by (simp add: rd_def rds_def)
  have q: "f (drop (fh_off h + 8) p) (fh_n h - fh_off h - 8) \<noteq> None" if "quote = Some f" for f
    using assms(1) [OF that] assms(2) True unfolding reads_inside_def by simp
  have "flow_icmp quote family p h \<noteq> None"
    using q by (cases quote) (auto simp: flow_icmp_def t Let_def)
  moreover obtain s d where "rds p (fh_off h) 2 = Some s" "rds p (fh_off h + 2) 2 = Some d"
    using True assms(2) by (simp add: rds_def)
  ultimately show ?thesis by (simp add: flow_transport_def reject_def)
next
  case False
  show ?thesis using assms(2) False by (auto simp: flow_transport_def reject_def rds_def)
qed

lemma flow_parse_depth_in:
  assumes "\<And>f. quote = Some f \<Longrightarrow> reads_inside f"
  shows "reads_inside (flow_parse_depth quote)"
  unfolding reads_inside_def
proof (intro allI impI)
  fix p :: "u8 list" and n
  assume n: "n \<le> length p"
  show "flow_parse_depth quote p n \<noteq> None"
  proof (cases "n = 0")
    case False
    then obtain b where b: "rd p 0 = Some b" using n by (cases p) (simp_all add: rd_def)
    let ?r = "if drop_bit 4 b = 4 then flow_ip4 (quote \<noteq> None) p n else if drop_bit 4 b = 6 then flow_ip6 (quote \<noteq> None) p n else reject"
    have h: "head_in n ?r" using flow_ip4_in [OF n] flow_ip6_in [OF n] by simp
    then obtain x where x: "?r = Some x" by (auto simp: head_in_def)
    have "flow_parse_depth quote p n = (case x of None \<Rightarrow> reject | Some h \<Rightarrow> flow_transport quote (drop_bit 4 b) p h)"
      using False x by (simp add: flow_parse_depth_def b Let_def)
    moreover have "flow_transport quote (drop_bit 4 b) p y \<noteq> None" if "x = Some y" for y
      using flow_transport_in [OF assms] h n that unfolding x head_in_def by auto
    ultimately show ?thesis by (simp add: reject_def split: option.split)
  qed (simp add: flow_parse_depth_def reject_def)
qed

lemma flow_parse_in: "reads_inside flow_parse_quoted" "reads_inside flow_parse"
proof -
  show q: "reads_inside flow_parse_quoted" unfolding flow_parse_quoted_def by (rule flow_parse_depth_in) simp
  show "reads_inside flow_parse" unfolding flow_parse_def by (rule flow_parse_depth_in) (use q in simp)
qed

text \<open>Whatever the bytes, the classifier reads none outside those it is given, not in a quotation either.\<close>

theorem flow_parse_reads_inside: "flow_parse p (length p) \<noteq> None"
  using flow_parse_in(2) unfolding reads_inside_def by blast

end
