(* ===== verification/Dispatch.thy ===== *)
theory Dispatch
  imports Slot_Queue Frames Flow Net_Types "HOL-Library.Multiset"
begin

text \<open>
  The software dispatcher (\<open>src/src/experimental_io.c\<close>): received frames are copied into slots and
  queued for the worker of their flow; fragments that come before the first of their datagram are
  held until it names the flow. Every operation runs under the dispatcher's lock, so it is one
  step. The chain of held slots (\<open>first\<close>, \<open>last\<close>, \<open>next\<close>) is a list; counters and the wake-up of
  workers are left out.
\<close>

section \<open>State\<close>

definition DISPATCH_FRAGMENTS :: nat where "DISPATCH_FRAGMENTS = 1024"

definition EXP_WORKERS :: nat where "EXP_WORKERS = 8"

record fragment_entry =
  fe_key :: "u8 list"
  fe_used :: bool
  fe_resolved :: nat
  fe_queue :: nat
  fe_count :: nat
  fe_held :: "nat list"
  fe_deadline :: nat

text \<open>The free slots are a stack, its top first; \<open>d_data\<close> is what the copy into a slot's storage put there.\<close>

record dispatch =
  d_workers :: nat
  d_free :: "nat list"
  d_next_queue :: u32
  d_stop :: bool
  d_flow_queues :: "nat \<Rightarrow> nat"
  d_rings :: "nat \<Rightarrow> ring"
  d_data :: "nat \<Rightarrow> u8 list"
  d_tokens :: "nat \<Rightarrow> frame_token"
  d_pool :: frame_pool
  d_fragments :: "nat \<Rightarrow> fragment_entry"
  d_last_expire :: nat

definition no_fragment :: fragment_entry where
  "no_fragment = \<lparr>fe_key = replicate 40 0, fe_used = False, fe_resolved = 0, fe_queue = 0, fe_count = 0, fe_held = [], fe_deadline = 0\<rparr>"

text \<open>\<open>storage\<close> is the address that the allocation returned.\<close>

definition dispatch_frames :: "nat \<Rightarrow> packet_frame list" where
  "dispatch_frames storage =
     map (\<lambda>i. \<lparr>f_storage = Some (storage + i * RECV_BUF_SIZE), f_capacity = RECV_BUF_SIZE, f_offset = 0, f_length = 0,
       f_generation = 0, f_state = FRAME_FREE\<rparr>) [0..<DISPATCH_FRAMES]"

definition dispatch_init :: "nat option \<Rightarrow> nat \<Rightarrow> dispatch option" where
  "dispatch_init storage workers =
     (if workers = 0 \<or> workers > EXP_WORKERS then None
      else case storage of None \<Rightarrow> None
      | Some a \<Rightarrow>
          (case packet_frame_pool_init (dispatch_frames a) 1 of
             Inl _ \<Rightarrow> None
           | Inr pool \<Rightarrow> Some \<lparr>d_workers = workers, d_free = rev [0..<DISPATCH_FRAMES], d_next_queue = 0, d_stop = False,
               d_flow_queues = (\<lambda>_. 0), d_rings = (\<lambda>_. empty_ring), d_data = (\<lambda>_. []),
               d_tokens = (\<lambda>_. \<lparr>t_slot = 0, t_generation = 0, t_identity = 0\<rparr>), d_pool = pool,
               d_fragments = (\<lambda>_. no_fragment), d_last_expire = 0\<rparr>))"

section \<open>Operations\<close>

text \<open>The result of a transition is not looked at.\<close>

definition to_state :: "nat \<Rightarrow> frame_state \<Rightarrow> dispatch \<Rightarrow> dispatch" where
  "to_state slot to d =
     (case packet_frame_transition (d_tokens d slot) to (d_pool d) of Inl _ \<Rightarrow> d | Inr pool \<Rightarrow> d\<lparr>d_pool := pool\<rparr>)"

definition dispatch_free_locked :: "nat \<Rightarrow> dispatch \<Rightarrow> dispatch" where
  "dispatch_free_locked slot d = (let d = to_state slot FRAME_FREE d in d\<lparr>d_free := slot # d_free d\<rparr>)"

definition dispatch_queue_locked :: "nat \<Rightarrow> nat \<Rightarrow> dispatch \<Rightarrow> dispatch" where
  "dispatch_queue_locked queue slot d = d\<lparr>d_rings := (d_rings d)(queue := ring_put slot (d_rings d queue))\<rparr>"

definition flow_bucket :: "flow_packet \<Rightarrow> nat" where
  "flow_bucket f = unat (fl_hash f AND 65535)"

definition flow_queue :: "flow_packet \<Rightarrow> dispatch \<Rightarrow> dispatch \<times> nat" where
  "flow_queue f d =
     (if fl_transport f then
        (let b = flow_bucket f;
             d = (if d_flow_queues d b = 0
                  then d\<lparr>d_flow_queues := (d_flow_queues d)(b := 1 + unat (d_next_queue d) mod d_workers d), d_next_queue := d_next_queue d + 1\<rparr>
                  else d)
         in (d, d_flow_queues d b - 1))
      else (d, 0))"

definition fragment_gate :: "nat \<Rightarrow> flow_packet \<Rightarrow> nat \<Rightarrow> fragment_entry \<Rightarrow> fragment_entry \<times> nat option" where
  "fragment_gate now f queue e =
     (let e = (if \<not> fe_used e then e\<lparr>fe_used := True, fe_key := fl_key f, fe_held := [], fe_deadline := now + 30\<rparr> else e)
      in if fe_key e \<noteq> fl_key f \<or> fe_resolved e = 2 \<or> now \<ge> fe_deadline e \<or> fe_resolved e = 0 \<and> \<not> fl_first f \<and> fe_count e = 8
         then (e, None)
         else if fl_first f then
           (if fe_resolved e \<noteq> 0 \<and> fe_queue e \<noteq> queue then (e\<lparr>fe_resolved := 2\<rparr>, None)
            else (e\<lparr>fe_resolved := 1, fe_queue := queue\<rparr>, Some queue))
         else if fe_resolved e \<noteq> 0 then (e, Some (fe_queue e))
         else (e, Some queue))"

definition fragment_slot :: "flow_packet \<Rightarrow> nat" where
  "fragment_slot f = unat (fl_fragment_hash f) mod DISPATCH_FRAGMENTS"

definition frame_gate :: "nat \<Rightarrow> flow_packet \<Rightarrow> nat \<Rightarrow> dispatch \<Rightarrow> dispatch \<times> nat option" where
  "frame_gate now f queue d =
     (if fl_fragmented f then
        (let (e, g) = fragment_gate now f queue (d_fragments d (fragment_slot f))
         in (d\<lparr>d_fragments := (d_fragments d)(fragment_slot f := e)\<rparr>, g))
      else (d, Some queue))"

definition pending :: "flow_packet \<Rightarrow> dispatch \<Rightarrow> bool" where
  "pending f d \<longleftrightarrow> fl_fragmented f \<and> fe_resolved (d_fragments d (fragment_slot f)) = 0"

text \<open>A free slot with the frame, which has \<open>vnet\<close> bytes of offload header.\<close>

definition fill_slot :: "nat \<Rightarrow> u8 list \<Rightarrow> dispatch \<Rightarrow> (nat \<times> dispatch) option" where
  "fill_slot vnet frame d =
     (let slot = hd (d_free d)
      in case packet_frame_acquire slot (d_pool d) of
           Inl _ \<Rightarrow> None
         | Inr (t, pool) \<Rightarrow>
             Some (slot, d\<lparr>d_free := tl (d_free d), d_tokens := (d_tokens d)(slot := t),
               d_pool := put_frame slot ((fp_frames pool ! slot)\<lparr>f_length := length frame + HEADROOM - vnet\<rparr>) pool,
               d_data := (d_data d)(slot := frame)\<rparr>))"

definition place_slot :: "flow_packet \<Rightarrow> nat \<Rightarrow> nat \<Rightarrow> dispatch \<Rightarrow> dispatch" where
  "place_slot f queue slot d =
     (let i = fragment_slot f; e = d_fragments d i
      in if pending f d
         then d\<lparr>d_fragments := (d_fragments d)(i := e\<lparr>fe_held := fe_held e @ [slot], fe_count := fe_count e + 1\<rparr>)\<rparr>
         else
           (let d = dispatch_queue_locked queue slot d
            in if fl_fragmented f then
                 (let d = fold (dispatch_queue_locked queue) (fe_held e) d
                  in d\<lparr>d_fragments := (d_fragments d)(i := e\<lparr>fe_held := [], fe_count := 0\<rparr>)\<rparr>)
               else d))"

definition dispatch_locked :: "nat \<Rightarrow> nat \<Rightarrow> flow_packet \<Rightarrow> u8 list \<Rightarrow> dispatch \<Rightarrow> dispatch" where
  "dispatch_locked vnet now f frame d =
     (let (d, queue) = flow_queue f d; (d, gate) = frame_gate now f queue d
      in case gate of None \<Rightarrow> d
         | Some queue \<Rightarrow>
             if d_stop d \<or> d_free d = [] \<or> pending f d \<and> length (d_free d) \<le> 32 then d
             else case fill_slot vnet frame d of None \<Rightarrow> d | Some (slot, d) \<Rightarrow> place_slot f queue slot d)"

definition dispatch_submit :: "nat \<Rightarrow> nat \<Rightarrow> u8 list \<Rightarrow> dispatch \<Rightarrow> dispatch" where
  "dispatch_submit vnet now frame d =
     (if length frame \<le> vnet then d
      else case flow_parse (drop vnet frame) (length frame - vnet) of
             Some (Some f) \<Rightarrow> dispatch_locked vnet now f frame d
           | _ \<Rightarrow> d)"

definition dispatch_take :: "nat \<Rightarrow> dispatch \<Rightarrow> (nat \<times> u8 list) option \<times> dispatch" where
  "dispatch_take worker d =
     (if rg_count (d_rings d worker) = 0 then (None, d)
      else
        (let (slot, r) = ring_get (d_rings d worker);
             d = to_state slot FRAME_TRANSLATING (d\<lparr>d_rings := (d_rings d)(worker := r)\<rparr>)
         in (Some (slot, d_data d slot), d)))"

definition dispatch_release :: "nat \<Rightarrow> dispatch \<Rightarrow> dispatch" where
  "dispatch_release = dispatch_free_locked"

definition expire_entry :: "nat \<Rightarrow> nat \<Rightarrow> dispatch \<Rightarrow> dispatch" where
  "expire_entry now i d =
     (let e = d_fragments d i
      in if \<not> fe_used e \<or> fe_resolved e = 2 \<or> now < fe_deadline e then d
         else
           (let d = fold dispatch_free_locked (fe_held e) d
            in d\<lparr>d_fragments := (d_fragments d)(i := e\<lparr>fe_held := [], fe_count := 0, fe_resolved := 2\<rparr>)\<rparr>))"

definition dispatch_expire :: "nat \<Rightarrow> dispatch \<Rightarrow> dispatch" where
  "dispatch_expire now d =
     (if now = d_last_expire d then d
      else fold (expire_entry now) [0..<DISPATCH_FRAGMENTS] (d\<lparr>d_last_expire := now\<rparr>))"

definition dispatch_stop :: "dispatch \<Rightarrow> dispatch" where
  "dispatch_stop d = d\<lparr>d_stop := True, d_pool := packet_frame_stop (d_pool d)\<rparr>"

definition retire_slot :: "nat \<Rightarrow> dispatch \<Rightarrow> dispatch" where
  "retire_slot i d = (if f_state (fp_frames (d_pool d) ! i) \<noteq> FRAME_FREE then dispatch_free_locked i d else d)"

text \<open>What is left of the pool when the storage is given back.\<close>

definition dispatch_destroy :: "dispatch \<Rightarrow> frame_pool" where
  "dispatch_destroy d =
     (let d = fold retire_slot [0..<DISPATCH_FRAMES] d
      in case packet_frame_backend_closed (d_pool d) of Inl _ \<Rightarrow> d_pool d | Inr pool \<Rightarrow> pool)"

section \<open>Steps\<close>

text \<open>
  A run of the dispatcher: its state and the slots that workers have taken. The reader supplies
  frames that fit a buffer, and a worker releases what it has taken.
\<close>

inductive dispatch_step :: "nat \<Rightarrow> dispatch \<times> nat list \<Rightarrow> dispatch \<times> nat list \<Rightarrow> bool" for vnet where
  submit: "length frame + HEADROOM \<le> RECV_BUF_SIZE + vnet \<Longrightarrow> dispatch_step vnet (d, tk) (dispatch_submit vnet now frame d, tk)"
| take: "worker < d_workers d \<Longrightarrow> dispatch_take worker d = (Some (slot, b), d') \<Longrightarrow> dispatch_step vnet (d, tk) (d', slot # tk)"
| release: "slot \<in> set tk \<Longrightarrow> dispatch_step vnet (d, tk) (dispatch_release slot d, remove1 slot tk)"
| expire: "dispatch_step vnet (d, tk) (dispatch_expire now d, tk)"
| stop: "dispatch_step vnet (d, tk) (dispatch_stop d, tk)"

inductive dispatch_reach :: "nat \<Rightarrow> dispatch \<times> nat list \<Rightarrow> bool" for vnet where
  init: "dispatch_init storage workers = Some d \<Longrightarrow> dispatch_reach vnet (d, [])"
| step: "dispatch_reach vnet r \<Longrightarrow> dispatch_step vnet r r' \<Longrightarrow> dispatch_reach vnet r'"

end
