(* ===== verification/Dispatch_Inv.thy ===== *)
theory Dispatch_Inv
  imports Dispatch
begin

text \<open>
  The invariant of the dispatcher: every slot is in one place, free, in the queue of one worker,
  held for one datagram, or with the worker that took it. Every handler keeps it.
\<close>

section \<open>The places of a slot\<close>

definition queued :: "dispatch \<Rightarrow> nat multiset" where
  "queued d = (\<Sum>q<EXP_WORKERS. mset (ring_list (d_rings d q)))"

definition held :: "dispatch \<Rightarrow> nat multiset" where
  "held d = (\<Sum>i<DISPATCH_FRAGMENTS. mset (fe_held (d_fragments d i)))"

definition places :: "dispatch \<Rightarrow> nat list \<Rightarrow> nat multiset" where
  "places d tk = mset (d_free d) + queued d + held d + mset tk"

lemma sum_upd:
  fixes g :: "'b \<Rightarrow> 'a multiset" and h :: "nat \<Rightarrow> 'b"
  assumes "i < n"
  shows "(\<Sum>j<n. g ((h(i := x)) j)) + g (h i) = (\<Sum>j<n. g (h j)) + g x"
proof -
  have i: "i \<in> {..<n}" using assms by simp
  have "(\<Sum>j\<in>{..<n} - {i}. g ((h(i := x)) j)) = (\<Sum>j\<in>{..<n} - {i}. g (h j))" by (rule sum.cong) auto
  then show ?thesis
    using sum.remove [of "{..<n}" i "\<lambda>j. g ((h(i := x)) j)"] sum.remove [of "{..<n}" i "\<lambda>j. g (h j)"] i
    by (simp add: ac_simps)
qed

lemma queued_upd:
  assumes "q < EXP_WORKERS"
  shows "queued (d\<lparr>d_rings := (d_rings d)(q := r)\<rparr>) + mset (ring_list (d_rings d q)) = queued d + mset (ring_list r)"
  using sum_upd [OF assms, of "\<lambda>r. mset (ring_list r)" "d_rings d" r] by (simp add: queued_def)

lemma ring_queued: "q < EXP_WORKERS \<Longrightarrow> mset (ring_list (d_rings d q)) \<subseteq># queued d"
  unfolding queued_def by (subst sum.remove [of _ q]) auto

lemma held_upd:
  assumes "i < DISPATCH_FRAGMENTS"
  shows "held (d\<lparr>d_fragments := (d_fragments d)(i := e)\<rparr>) + mset (fe_held (d_fragments d i)) = held d + mset (fe_held e)"
  using sum_upd [OF assms, of "\<lambda>e. mset (fe_held e)" "d_fragments d" e] by (simp add: held_def)

lemma fragment_slot_less [simp]: "fragment_slot f < DISPATCH_FRAGMENTS"
  by (simp add: fragment_slot_def DISPATCH_FRAGMENTS_def)

section \<open>The invariant\<close>

text \<open>What the pool says of a slot.\<close>

definition live :: "dispatch \<Rightarrow> nat \<Rightarrow> frame_state \<Rightarrow> bool" where
  "live d s st \<longleftrightarrow> (let f = fp_frames (d_pool d) ! s
     in packet_frame_geometry f \<and> f_state f = st \<and> f_generation f \<noteq> 0
        \<and> d_tokens d s = \<lparr>t_slot = s, t_generation = f_generation f, t_identity = fp_identity (d_pool d)\<rparr>)"

definition slot_ok :: "dispatch \<Rightarrow> nat list \<Rightarrow> nat \<Rightarrow> bool" where
  "slot_ok d tk s \<longleftrightarrow>
     (if s \<in> set (d_free d) then f_state (fp_frames (d_pool d) ! s) = FRAME_FREE \<and> f_storage (fp_frames (d_pool d) ! s) \<noteq> None
         \<and> f_capacity (fp_frames (d_pool d) ! s) = RECV_BUF_SIZE
      else f_capacity (fp_frames (d_pool d) ! s) = RECV_BUF_SIZE \<and> live d s (if s \<in> set tk then FRAME_TRANSLATING else FRAME_RECEIVED))"

lemma slot_ok_upd [simp]:
  "slot_ok (d\<lparr>d_rings := r\<rparr>) tk s = slot_ok d tk s" "slot_ok (d\<lparr>d_fragments := e\<rparr>) tk s = slot_ok d tk s"
  "slot_ok (d\<lparr>d_flow_queues := a, d_next_queue := b\<rparr>) tk s = slot_ok d tk s" "slot_ok (d\<lparr>d_last_expire := t\<rparr>) tk s = slot_ok d tk s"
  "slot_ok (dispatch_stop d) tk s = slot_ok d tk s"
  by (simp_all add: slot_ok_def live_def dispatch_stop_def packet_frame_stop_def)

text \<open>\<open>hand\<close> are the slots that an operation has in its hands.\<close>

definition dispatch_inv :: "nat list \<Rightarrow> dispatch \<times> nat list \<Rightarrow> bool" where
  "dispatch_inv hand = (\<lambda>(d, tk).
     places d tk + mset hand = mset [0..<DISPATCH_FRAMES]
     \<and> (\<forall>q<EXP_WORKERS. ring_ok (d_rings d q))
     \<and> length (fp_frames (d_pool d)) = DISPATCH_FRAMES
     \<and> (\<forall>s<DISPATCH_FRAMES. slot_ok d tk s)
     \<and> fp_stopping (d_pool d) = d_stop d
     \<and> 0 < d_workers d \<and> d_workers d \<le> EXP_WORKERS
     \<and> (\<forall>b. d_flow_queues d b \<le> d_workers d)
     \<and> (\<forall>i. fe_queue (d_fragments d i) < d_workers d \<and> fe_count (d_fragments d i) = length (fe_held (d_fragments d i))
          \<and> (\<not> fe_used (d_fragments d i) \<longrightarrow> fe_held (d_fragments d i) = [] \<and> fe_resolved (d_fragments d i) = 0)))"

lemma dispatch_invD:
  assumes "dispatch_inv hand (d, tk)"
  shows "places d tk + mset hand = mset [0..<DISPATCH_FRAMES]" "q < EXP_WORKERS \<Longrightarrow> ring_ok (d_rings d q)"
    "length (fp_frames (d_pool d)) = DISPATCH_FRAMES" "s < DISPATCH_FRAMES \<Longrightarrow> slot_ok d tk s"
    "fp_stopping (d_pool d) = d_stop d" "0 < d_workers d" "d_workers d \<le> EXP_WORKERS" "d_flow_queues d b \<le> d_workers d"
    "fe_queue (d_fragments d i) < d_workers d" "fe_count (d_fragments d i) = length (fe_held (d_fragments d i))"
    "\<not> fe_used (d_fragments d i) \<Longrightarrow> fe_held (d_fragments d i) = [] \<and> fe_resolved (d_fragments d i) = 0"
  using assms by (auto simp: dispatch_inv_def)

lemma part_distinct:
  assumes "A + B = mset [0..<n]" "x \<in># A"
  shows "x < n" "x \<notin># B"
proof -
  have "x \<in># mset [0..<n]" unfolding assms(1) [symmetric] using assms(2) by simp
  then show "x < n" by simp
  have "count (mset [0..<n]) x \<le> 1" using distinct_count_atmost_1 [of "[0..<n]"] by (simp add: count_mset)
  then have "count A x + count B x \<le> 1" unfolding assms(1) [symmetric] by simp
  moreover have "0 < count A x" using assms(2) by simp
  ultimately have "count B x = 0" by linarith
  then show "x \<notin># B" by (simp add: count_eq_zero_iff)
qed

text \<open>A slot in hand is nowhere else.\<close>

lemma in_hand:
  assumes "dispatch_inv (s # hand) (d, tk)"
  shows "s < DISPATCH_FRAMES" "s \<notin> set (d_free d)" "s \<notin> set tk" "s \<notin> set hand" "live d s FRAME_RECEIVED"
proof -
  have p: "{#s#} + (places d tk + mset hand) = mset [0..<DISPATCH_FRAMES]"
    using dispatch_invD(1) [OF assms] by (simp add: ac_simps)
  note x = part_distinct [OF p, of s, simplified]
  show "s < DISPATCH_FRAMES" by (rule x(1))
  show n: "s \<notin> set (d_free d)" "s \<notin> set tk" "s \<notin> set hand" using x(2) by (auto simp: places_def)
  show "live d s FRAME_RECEIVED" using dispatch_invD(4) [OF assms x(1)] n by (simp add: slot_ok_def)
qed

text \<open>A transition of a live slot is never refused.\<close>

lemma to_state_live:
  assumes l: "live d s st" and s: "s < length (fp_frames (d_pool d))"
    and a: "st = FRAME_RECEIVED \<and> to = FRAME_TRANSLATING \<or> st \<in> {FRAME_RECEIVED, FRAME_TRANSLATING} \<and> to = FRAME_FREE"
  shows "packet_frame_transition (d_tokens d s) to (d_pool d) \<noteq> Inl e"
    "\<exists>f. to_state s to d = d\<lparr>d_pool := put_frame s f (d_pool d)\<rparr> \<and> f_state f = to \<and> f_storage f \<noteq> None
       \<and> f_capacity f = f_capacity (fp_frames (d_pool d) ! s) \<and> packet_frame_geometry f
       \<and> f_generation f = f_generation (fp_frames (d_pool d) ! s)"
proof -
  let ?f = "fp_frames (d_pool d) ! s"
  let ?g = "if to = FRAME_FREE then ?f\<lparr>f_state := to, f_length := 0, f_offset := 0\<rparr> else ?f\<lparr>f_state := to\<rparr>"
  have t: "d_tokens d s = \<lparr>t_slot = s, t_generation = f_generation ?f, t_identity = fp_identity (d_pool d)\<rparr>"
    and f: "packet_frame_geometry ?f" "f_state ?f = st" "f_generation ?f \<noteq> 0"
    using l by (simp_all add: live_def Let_def)
  have ts: "t_slot (d_tokens d s) = s" by (simp add: t)
  have lk: "packet_frame_lookup (d_pool d) (d_tokens d s) = Some ?f" using s f(3) by (simp add: packet_frame_lookup_def t)
  have "frame_allowed (d_pool d) ?f to" using a f(2) by auto
  then have r: "packet_frame_transition (d_tokens d s) to (d_pool d) = Inr (put_frame s ?g (d_pool d))"
    using f(1) ts by (simp add: packet_frame_transition_def lk Let_def)
  show "packet_frame_transition (d_tokens d s) to (d_pool d) \<noteq> Inl e" by (simp add: r)
  have "packet_frame_geometry ?g" using f(1) by (simp add: packet_frame_geometry_def)
  moreover have "f_storage ?g \<noteq> None" using f(1) by (simp add: packet_frame_geometry_def)
  ultimately show "\<exists>f. to_state s to d = d\<lparr>d_pool := put_frame s f (d_pool d)\<rparr> \<and> f_state f = to \<and> f_storage f \<noteq> None
       \<and> f_capacity f = f_capacity ?f \<and> packet_frame_geometry f \<and> f_generation f = f_generation ?f"
    by (intro exI [of _ ?g]) (simp add: to_state_def r)
qed

text \<open>Another slot does not notice.\<close>

lemma put_other [simp]: "s \<noteq> x \<Longrightarrow> fp_frames (put_frame x f p) ! s = fp_frames p ! s" "length (fp_frames (put_frame x f p)) = length (fp_frames p)"
  "fp_identity (put_frame x f p) = fp_identity p" "fp_stopping (put_frame x f p) = fp_stopping p"
  by (simp_all add: put_frame_def)

lemma put_same [simp]: "x < length (fp_frames p) \<Longrightarrow> fp_frames (put_frame x f p) ! x = f"
  by (simp add: put_frame_def)

section \<open>The operations on slots\<close>

lemma free_slot_inv:
  assumes inv: "dispatch_inv hand (d, tk)" and s: "s \<in> set tk \<or> s \<in> set hand"
    and m: "mset tk' + mset hand' + {#s#} = mset tk + mset hand" and o: "\<And>x. x \<noteq> s \<Longrightarrow> x \<in> set tk \<longleftrightarrow> x \<in> set tk'"
  shows "dispatch_inv hand' (dispatch_free_locked s d, tk')"
proof -
  have p: "mset tk + mset hand + (mset (d_free d) + queued d + held d) = mset [0..<DISPATCH_FRAMES]"
    using dispatch_invD(1) [OF inv] by (simp add: places_def ac_simps)
  have l: "s < DISPATCH_FRAMES" "s \<notin> set (d_free d)" using part_distinct [OF p, of s] s by auto
  obtain st where st: "live d s st" "st \<in> {FRAME_RECEIVED, FRAME_TRANSLATING}"
    using dispatch_invD(4) [OF inv l(1)] l(2) by (auto simp: slot_ok_def split: if_split_asm)
  have len: "length (fp_frames (d_pool d)) = DISPATCH_FRAMES" by (rule dispatch_invD(3) [OF inv])
  obtain f where f: "to_state s FRAME_FREE d = d\<lparr>d_pool := put_frame s f (d_pool d)\<rparr>" "f_state f = FRAME_FREE" "f_storage f \<noteq> None"
    "f_capacity f = f_capacity (fp_frames (d_pool d) ! s)"
    using to_state_live(2) [OF st(1), of FRAME_FREE] st(2) l(1) len by auto
  have d': "dispatch_free_locked s d = d\<lparr>d_pool := put_frame s f (d_pool d), d_free := s # d_free d\<rparr>"
    by (simp add: dispatch_free_locked_def f(1))
  have c: "f_capacity (fp_frames (d_pool d) ! s) = RECV_BUF_SIZE"
    using dispatch_invD(4) [OF inv l(1)] by (simp add: slot_ok_def split: if_split_asm)
  have "slot_ok (dispatch_free_locked s d) tk' x" if "x < DISPATCH_FRAMES" for x
  proof (cases "x = s")
    case True
    then show ?thesis using f c l(1) len by (simp add: slot_ok_def d')
  next
    case False
    then show ?thesis using dispatch_invD(4) [OF inv that] o [OF False] by (simp add: slot_ok_def d' live_def split: if_split_asm)
  qed
  moreover have "places (dispatch_free_locked s d) tk' + mset hand' = mset [0..<DISPATCH_FRAMES]"
  proof -
    have "places (dispatch_free_locked s d) tk' + mset hand' = (mset tk' + mset hand' + {#s#}) + (mset (d_free d) + queued d + held d)"
      by (simp add: places_def d' queued_def held_def ac_simps)
    then show ?thesis using p by (simp only: m)
  qed
  ultimately show ?thesis using inv len by (simp add: dispatch_inv_def d')
qed

lemma free_hand: "dispatch_inv (s # hand) (d, tk) \<Longrightarrow> dispatch_inv hand (dispatch_free_locked s d, tk)"
  by (rule free_slot_inv) auto

lemma free_hands: "dispatch_inv (xs @ hand) (d, tk) \<Longrightarrow> dispatch_inv hand (fold dispatch_free_locked xs d, tk)"
proof (induction xs arbitrary: d)
  case (Cons x xs)
  from free_hand [of x "xs @ hand"] Cons show ?case by simp
qed simp

lemma release_inv: "dispatch_inv [] (d, tk) \<Longrightarrow> s \<in> set tk \<Longrightarrow> dispatch_inv [] (dispatch_release s d, remove1 s tk)"
  unfolding dispatch_release_def by (rule free_slot_inv) (auto simp: in_set_remove1)

lemma queue_hand:
  assumes inv: "dispatch_inv (s # hand) (d, tk)" and q: "q < EXP_WORKERS"
  shows "dispatch_inv hand (dispatch_queue_locked q s d, tk)"
    "ring_list (d_rings (dispatch_queue_locked q s d) q) = ring_list (d_rings d q) @ [s]"
proof -
  let ?d = "dispatch_queue_locked q s d" and ?r = "d_rings d q"
  have p: "places d tk + mset (s # hand) = mset [0..<DISPATCH_FRAMES]" by (rule dispatch_invD(1) [OF inv])
  have "mset (ring_list ?r) \<subseteq># queued d" by (rule ring_queued [OF q])
  then have "mset (s # ring_list ?r) \<subseteq># mset [0..<DISPATCH_FRAMES]"
    unfolding p [symmetric] places_def by (auto simp: subset_mset.add_mono subset_mset.add_increasing subset_mset.add_increasing2)
  then have c: "length (ring_list ?r) < DISPATCH_FRAMES" using size_mset_mono by fastforce
  note r = rq.enq_ok [OF dispatch_invD(2) [OF inv q] c, of s]
  then show "ring_list (d_rings ?d q) = ring_list ?r @ [s]" by (simp add: dispatch_queue_locked_def)
  have "queued ?d = queued d + {#s#}"
    using queued_upd [OF q, of d "ring_put s ?r"] r by (simp add: dispatch_queue_locked_def)
  then have "places ?d tk + mset hand = places d tk + mset (s # hand)"
    by (simp add: places_def dispatch_queue_locked_def held_def)
  then show "dispatch_inv hand (?d, tk)"
    using inv r unfolding dispatch_inv_def by (simp add: dispatch_queue_locked_def)
qed

lemma queue_locked_fields [simp]:
  "d_free (dispatch_queue_locked q s d) = d_free d" "d_pool (dispatch_queue_locked q s d) = d_pool d"
  "d_data (dispatch_queue_locked q s d) = d_data d" "d_fragments (dispatch_queue_locked q s d) = d_fragments d"
  "d_flow_queues (dispatch_queue_locked q s d) = d_flow_queues d" "d_workers (dispatch_queue_locked q s d) = d_workers d"
  "q' \<noteq> q \<Longrightarrow> d_rings (dispatch_queue_locked q s d) q' = d_rings d q'"
  "dispatch_queue_locked q s (d\<lparr>d_fragments := F\<rparr>) = (dispatch_queue_locked q s d)\<lparr>d_fragments := F\<rparr>"
  by (simp_all add: dispatch_queue_locked_def)

lemma queue_hands:
  assumes "q < EXP_WORKERS"
  shows "dispatch_inv (xs @ hand) (d, tk) \<Longrightarrow> dispatch_inv hand (fold (dispatch_queue_locked q) xs d, tk)
    \<and> ring_list (d_rings (fold (dispatch_queue_locked q) xs d) q) = ring_list (d_rings d q) @ xs"
proof (induction xs arbitrary: d)
  case (Cons x xs)
  then have "dispatch_inv (x # xs @ hand) (d, tk)" by simp
  note h = queue_hand [OF this assms]
  show ?case using Cons.IH [OF h(1)] h(2) by simp
qed simp

lemma queue_fold_fields [simp]:
  "d_free (fold (dispatch_queue_locked q) xs d) = d_free d" "d_pool (fold (dispatch_queue_locked q) xs d) = d_pool d"
  "d_data (fold (dispatch_queue_locked q) xs d) = d_data d" "d_fragments (fold (dispatch_queue_locked q) xs d) = d_fragments d"
  "d_flow_queues (fold (dispatch_queue_locked q) xs d) = d_flow_queues d" "d_workers (fold (dispatch_queue_locked q) xs d) = d_workers d"
  "q' \<noteq> q \<Longrightarrow> d_rings (fold (dispatch_queue_locked q) xs d) q' = d_rings d q'"
  "fold (dispatch_queue_locked q) xs (d\<lparr>d_fragments := F\<rparr>) = (fold (dispatch_queue_locked q) xs d)\<lparr>d_fragments := F\<rparr>"
  by (induction xs arbitrary: d) simp_all

lemma free_locked_fields [simp]:
  "d_fragments (dispatch_free_locked s d) = d_fragments d" "d_rings (dispatch_free_locked s d) = d_rings d"
  "d_flow_queues (dispatch_free_locked s d) = d_flow_queues d" "d_data (dispatch_free_locked s d) = d_data d"
  "dispatch_free_locked s (d\<lparr>d_fragments := F\<rparr>) = (dispatch_free_locked s d)\<lparr>d_fragments := F\<rparr>"
  by (simp_all add: dispatch_free_locked_def to_state_def split: sum.split)

lemma free_fold_fields [simp]:
  "d_fragments (fold dispatch_free_locked xs d) = d_fragments d" "d_rings (fold dispatch_free_locked xs d) = d_rings d"
  "d_flow_queues (fold dispatch_free_locked xs d) = d_flow_queues d" "d_data (fold dispatch_free_locked xs d) = d_data d"
  "fold dispatch_free_locked xs (d\<lparr>d_fragments := F\<rparr>) = (fold dispatch_free_locked xs d)\<lparr>d_fragments := F\<rparr>"
  by (induction xs arbitrary: d) simp_all

text \<open>A changed fragment entry hands over or takes in slots.\<close>

lemma entry_inv:
  assumes inv: "dispatch_inv hand (d, tk)" and i: "i < DISPATCH_FRAGMENTS"
    and m: "mset hand' + mset (fe_held e) = mset hand + mset (fe_held (d_fragments d i))"
    and e: "fe_queue e < d_workers d" "fe_count e = length (fe_held e)" "fe_used e \<or> fe_held e = [] \<and> fe_resolved e = 0"
  shows "dispatch_inv hand' (d\<lparr>d_fragments := (d_fragments d)(i := e)\<rparr>, tk)"
proof -
  let ?d = "d\<lparr>d_fragments := (d_fragments d)(i := e)\<rparr>"
  have h: "held ?d + mset (fe_held (d_fragments d i)) = held d + mset (fe_held e)" by (rule held_upd [OF i])
  have "places ?d tk + mset hand' + mset (fe_held (d_fragments d i)) = mset (d_free d) + queued d + mset tk + mset hand'
      + (held ?d + mset (fe_held (d_fragments d i)))"
    by (simp add: places_def queued_def ac_simps)
  also have "\<dots> = mset (d_free d) + queued d + held d + mset tk + (mset hand' + mset (fe_held e))" unfolding h by (simp add: ac_simps)
  also have "\<dots> = places d tk + mset hand + mset (fe_held (d_fragments d i))" by (simp add: m places_def ac_simps)
  finally have "places ?d tk + mset hand' = places d tk + mset hand" by simp
  then show ?thesis using inv e unfolding dispatch_inv_def by auto
qed

section \<open>The handlers\<close>

lemma expire_entry_inv:
  assumes inv: "dispatch_inv [] (d, tk)" and i: "i < DISPATCH_FRAGMENTS"
  shows "dispatch_inv [] (expire_entry now i d, tk)"
proof (cases "\<not> fe_used (d_fragments d i) \<or> fe_resolved (d_fragments d i) = 2 \<or> now < fe_deadline (d_fragments d i)")
  case False
  let ?e = "(d_fragments d i)\<lparr>fe_held := [], fe_count := 0, fe_resolved := 2\<rparr>"
  have "dispatch_inv (fe_held (d_fragments d i) @ []) (d\<lparr>d_fragments := (d_fragments d)(i := ?e)\<rparr>, tk)"
    by (rule entry_inv [OF inv i]) (use dispatch_invD(9) [OF inv] False in auto)
  from free_hands [OF this] show ?thesis using False by (simp add: expire_entry_def Let_def)
qed (auto simp: expire_entry_def inv)

lemma expire_inv:
  assumes "dispatch_inv [] (d, tk)"
  shows "dispatch_inv [] (dispatch_expire now d, tk)"
proof -
  have f: "dispatch_inv [] (fold (expire_entry now) xs d, tk)" if "dispatch_inv [] (d, tk)" "\<forall>i\<in>set xs. i < DISPATCH_FRAGMENTS" for xs d
    using that by (induction xs arbitrary: d) (simp_all add: expire_entry_inv)
  have "dispatch_inv [] (d\<lparr>d_last_expire := now\<rparr>, tk)"
    using assms unfolding dispatch_inv_def by (simp add: places_def queued_def held_def)
  then show ?thesis using f assms by (simp add: dispatch_expire_def)
qed

lemma stop_inv: "dispatch_inv [] (d, tk) \<Longrightarrow> dispatch_inv [] (dispatch_stop d, tk)"
  unfolding dispatch_inv_def prod.case slot_ok_upd
  by (simp add: dispatch_stop_def places_def queued_def held_def packet_frame_stop_def)

lemma take_inv:
  assumes inv: "dispatch_inv [] (d, tk)" and w: "worker < d_workers d" and t: "dispatch_take worker d = (Some (slot, b), d')"
  shows "dispatch_inv [] (d', slot # tk)" "ring_list (d_rings d worker) = slot # ring_list (d_rings d' worker)" "b = d_data d slot"
    "\<And>q. q \<noteq> worker \<Longrightarrow> d_rings d' q = d_rings d q" "d_data d' = d_data d" "d_flow_queues d' = d_flow_queues d" "d_fragments d' = d_fragments d"
proof -
  let ?r = "d_rings d worker"
  have q: "worker < EXP_WORKERS" using w dispatch_invD(7) [OF inv] by simp
  have ok: "ring_ok ?r" by (rule dispatch_invD(2) [OF inv q])
  have c: "rg_count ?r \<noteq> 0" using t by (auto simp: dispatch_take_def split: if_split_asm)
  let ?d = "d\<lparr>d_rings := (d_rings d)(worker := snd (ring_get ?r))\<rparr>"
  have s: "slot = fst (ring_get ?r)" "d' = to_state slot FRAME_TRANSLATING ?d" "b = d_data d' slot"
    using t c by (auto simp: dispatch_take_def Let_def split: prod.splits)
  obtain x xs where x: "ring_list ?r = x # xs" using c length_ring_list [of ?r] by (cases "ring_list ?r") auto
  note g = rq.deq_ok [OF ok x]
  have r: "ring_list ?r = slot # ring_list (snd (ring_get ?r))" using x g s(1) by simp
  have "queued ?d + mset (ring_list ?r) = queued d + mset (ring_list (snd (ring_get ?r)))" by (rule queued_upd [OF q])
  then have "queued d = queued ?d + {#slot#}" unfolding r by simp
  then have "places ?d tk + mset [slot] = places d tk" by (simp add: places_def held_def)
  then have i: "dispatch_inv [slot] (?d, tk)" using inv g unfolding dispatch_inv_def by simp
  note h = in_hand [OF i]
  have len: "length (fp_frames (d_pool ?d)) = DISPATCH_FRAMES" by (rule dispatch_invD(3) [OF i])
  obtain f where f: "d' = ?d\<lparr>d_pool := put_frame slot f (d_pool ?d)\<rparr>" "f_state f = FRAME_TRANSLATING"
    "f_capacity f = f_capacity (fp_frames (d_pool ?d) ! slot)" "packet_frame_geometry f"
    "f_generation f = f_generation (fp_frames (d_pool ?d) ! slot)"
    using to_state_live(2) [OF h(5), of FRAME_TRANSLATING] h(1) len unfolding s(2) by auto
  have lv: "f_generation f \<noteq> 0"
    "d_tokens d slot = \<lparr>t_slot = slot, t_generation = f_generation f, t_identity = fp_identity (d_pool d)\<rparr>"
    using h(5) f(5) by (simp_all add: live_def Let_def)
  have cap: "f_capacity f = RECV_BUF_SIZE" using dispatch_invD(4) [OF i h(1)] h(2) f(3) by (simp add: slot_ok_def)
  have "slot_ok d' (slot # tk) x" if "x < DISPATCH_FRAMES" for x
  proof (cases "x = slot")
    case True
    then show ?thesis using h(1,2) len f(2,4) lv cap by (simp add: slot_ok_def live_def f(1))
  next
    case False
    then show ?thesis using dispatch_invD(4) [OF i that] by (simp add: slot_ok_def live_def f(1) split: if_split_asm)
  qed
  moreover have "places d' (slot # tk) = places ?d tk + mset [slot]"
    by (simp add: places_def f(1) queued_def held_def)
  ultimately show "dispatch_inv [] (d', slot # tk)" using i len unfolding dispatch_inv_def by (simp add: f(1))
  show "ring_list ?r = slot # ring_list (d_rings d' worker)" "b = d_data d slot" using r s(3) by (simp_all add: f(1))
  show "\<And>q. q \<noteq> worker \<Longrightarrow> d_rings d' q = d_rings d q" "d_data d' = d_data d" "d_flow_queues d' = d_flow_queues d" "d_fragments d' = d_fragments d"
    by (simp_all add: f(1))
qed

section \<open>Submission\<close>

lemma fill_slot_inv:
  assumes inv: "dispatch_inv [] (d, tk)" and fr: "d_free d \<noteq> []" and len: "length frame + HEADROOM \<le> RECV_BUF_SIZE + vnet"
    and f: "fill_slot vnet frame d = Some (s, d')"
  shows "dispatch_inv [s] (d', tk)" "d_free d = s # d_free d'" "d_data d' = (d_data d)(s := frame)" "d_rings d' = d_rings d"
    "d_fragments d' = d_fragments d" "d_flow_queues d' = d_flow_queues d" "d_workers d' = d_workers d"
proof -
  let ?F = "fp_frames (d_pool d) ! s"
  obtain t pool where a: "s = hd (d_free d)" "packet_frame_acquire s (d_pool d) = Inr (t, pool)"
    "d' = d\<lparr>d_free := tl (d_free d), d_tokens := (d_tokens d)(s := t),
       d_pool := put_frame s ((fp_frames pool ! s)\<lparr>f_length := length frame + HEADROOM - vnet\<rparr>) pool, d_data := (d_data d)(s := frame)\<rparr>"
    using f by (auto simp: fill_slot_def Let_def split: sum.splits prod.splits)
  have s: "d_free d = s # tl (d_free d)" using fr a(1) by simp
  have p: "mset (d_free d) + (queued d + held d + mset tk) = mset [0..<DISPATCH_FRAMES]"
    using dispatch_invD(1) [OF inv] by (simp add: places_def ac_simps)
  have lt: "s < DISPATCH_FRAMES" "s \<notin> set tk" using part_distinct [OF p, of s] s by (auto simp: list.set_sel a(1) fr)
  have ds: "s \<notin> set (tl (d_free d))"
  proof -
    have "{#s#} + (mset (tl (d_free d)) + (queued d + held d + mset tk)) = mset [0..<DISPATCH_FRAMES]"
      using p by (subst (asm) s) simp
    from part_distinct(2) [OF this, of s] show ?thesis by simp
  qed
  have len': "length (fp_frames (d_pool d)) = DISPATCH_FRAMES" by (rule dispatch_invD(3) [OF inv])
  have F: "f_storage ?F \<noteq> None" "f_capacity ?F = RECV_BUF_SIZE"
    using dispatch_invD(4) [OF inv lt(1)] s by (metis list.set_intros(1) slot_ok_def)+
  let ?g = "?F\<lparr>f_generation := f_generation ?F + 1, f_offset := 0, f_length := 0, f_state := FRAME_RECEIVED\<rparr>"
  have q: "t = \<lparr>t_slot = s, t_generation = f_generation ?F + 1, t_identity = fp_identity (d_pool d)\<rparr>"
    "pool = put_frame s ?g (d_pool d)" "f_generation ?F \<noteq> 0xffffffffffffffff"
    using a(2) by (auto simp: packet_frame_acquire_def Let_def split: if_split_asm)
  have gen: "f_generation ?F + 1 \<noteq> 0"
  proof
    assume "f_generation ?F + 1 = 0"
    then have "f_generation ?F = - 1" by (simp add: eq_neg_iff_add_eq_0)
    then show False using q(3) by simp
  qed
  have pl: "fp_frames (d_pool d') ! s = ?g\<lparr>f_length := length frame + HEADROOM - vnet\<rparr>" "length (fp_frames (d_pool d')) = DISPATCH_FRAMES"
    "\<And>x. x \<noteq> s \<Longrightarrow> fp_frames (d_pool d') ! x = fp_frames (d_pool d) ! x" "fp_identity (d_pool d') = fp_identity (d_pool d)"
    using lt(1) len' by (simp_all add: a(3) q(2))
  have "slot_ok d' tk x" if "x < DISPATCH_FRAMES" for x
  proof (cases "x = s")
    case True
    have "packet_frame_geometry (?g\<lparr>f_length := length frame + HEADROOM - vnet\<rparr>)"
      using F len by (simp add: packet_frame_geometry_def)
    then have "live d' s FRAME_RECEIVED" using gen by (simp add: live_def Let_def pl) (simp add: a(3) q(1))
    moreover have "d_free d' = tl (d_free d)" by (simp add: a(3))
    ultimately show ?thesis using True ds lt(2) F(2) by (simp add: slot_ok_def pl)
  next
    case False
    have "set (d_free d) = insert s (set (tl (d_free d)))" by (subst s) simp
    then have "x \<in> set (d_free d') \<longleftrightarrow> x \<in> set (d_free d)" using False by (simp add: a(3))
    moreover have "live d' x st = live d x st" for st using False by (simp add: live_def pl) (simp add: a(3))
    ultimately show ?thesis using dispatch_invD(4) [OF inv that] False by (simp add: slot_ok_def pl)
  qed
  moreover have "places d' tk + mset [s] = places d tk"
    using arg_cong [OF s, of mset] by (simp add: places_def a(3) queued_def held_def)
  ultimately show "dispatch_inv [s] (d', tk)" using inv pl(2) unfolding dispatch_inv_def by (simp add: a(3) q(2))
  show "d_free d = s # d_free d'" using s by (simp add: a(3))
  show "d_data d' = (d_data d)(s := frame)" "d_rings d' = d_rings d"
    "d_fragments d' = d_fragments d" "d_flow_queues d' = d_flow_queues d" "d_workers d' = d_workers d"
    by (simp_all add: a(3))
qed

lemma flow_queue_inv:
  assumes inv: "dispatch_inv hand (d, tk)" and f: "flow_queue f d = (d', q)"
  shows "dispatch_inv hand (d', tk)" "q < d_workers d" "d_workers d' = d_workers d" "d_rings d' = d_rings d" "d_free d' = d_free d"
    "d_data d' = d_data d" "d_fragments d' = d_fragments d"
    "\<And>b. d_flow_queues d b \<noteq> 0 \<Longrightarrow> d_flow_queues d' b = d_flow_queues d b"
    "fl_transport f \<Longrightarrow> d_flow_queues d' (flow_bucket f) = q + 1"
proof -
  let ?b = "flow_bucket f"
  have w: "0 < d_workers d" by (rule dispatch_invD(6) [OF inv])
  have m: "unat (d_next_queue d) mod d_workers d < d_workers d" using w by simp
  have "d_flow_queues d ?b \<le> d_workers d" by (rule dispatch_invD(8) [OF inv])
  then show "q < d_workers d" "d_workers d' = d_workers d" "d_rings d' = d_rings d" "d_free d' = d_free d"
    "d_data d' = d_data d" "d_fragments d' = d_fragments d"
    "\<And>b. d_flow_queues d b \<noteq> 0 \<Longrightarrow> d_flow_queues d' b = d_flow_queues d b"
    "fl_transport f \<Longrightarrow> d_flow_queues d' ?b = q + 1"
    using f w m by (auto simp: flow_queue_def Let_def split: if_split_asm)
  have "1 + unat (d_next_queue d) mod d_workers d \<le> d_workers d" using m by simp
  then show "dispatch_inv hand (d', tk)"
    using inv f unfolding dispatch_inv_def
    by (auto simp: flow_queue_def Let_def places_def queued_def held_def split: if_split_asm)
qed

text \<open>The gate of fragments. A datagram that has its queue keeps it or is closed.\<close>

lemma fragment_gate_entry:
  assumes "fragment_gate now f q e = (e', g)"
  shows "fe_used e'" "fe_count e' = fe_count e" "fe_used e \<or> fe_held e = [] \<Longrightarrow> fe_held e' = fe_held e"
    "fe_queue e' = fe_queue e \<or> fe_queue e' = q" "fe_used e \<Longrightarrow> fe_key e' = fe_key e \<and> fe_deadline e' = fe_deadline e"
    "fe_resolved e = 1 \<Longrightarrow> fe_queue e' = fe_queue e \<and> (fe_resolved e' = 1 \<or> fe_resolved e' = 2)"
    "fe_resolved e = 2 \<Longrightarrow> fe_used e \<Longrightarrow> e' = e \<and> g = None" "g = Some q' \<Longrightarrow> q' = q \<or> q' = fe_queue e"
    "g = Some q' \<Longrightarrow> fe_resolved e' \<noteq> 0 \<Longrightarrow> fe_key e' = fl_key f \<and> q' = fe_queue e' \<and> now < fe_deadline e'"
  using assms by (auto simp: fragment_gate_def Let_def split: if_split_asm)

lemma frame_gate_inv:
  assumes inv: "dispatch_inv [] (d, tk)" and q: "q < d_workers d" and f: "frame_gate now f q d = (d', g)"
  shows "dispatch_inv [] (d', tk)" "g = Some q' \<Longrightarrow> q' < d_workers d" "d_workers d' = d_workers d" "d_rings d' = d_rings d"
    "d_free d' = d_free d" "d_data d' = d_data d" "d_flow_queues d' = d_flow_queues d"
    "fl_fragmented f \<Longrightarrow> fe_used (d_fragments d' (fragment_slot f))"
proof -
  have "dispatch_inv [] (d', tk) \<and> (g = Some q' \<longrightarrow> q' < d_workers d) \<and> d_workers d' = d_workers d \<and> d_rings d' = d_rings d
    \<and> d_free d' = d_free d \<and> d_data d' = d_data d \<and> d_flow_queues d' = d_flow_queues d
    \<and> (fl_fragmented f \<longrightarrow> fe_used (d_fragments d' (fragment_slot f)))"
  proof (cases "fl_fragmented f")
    case True
    let ?e = "d_fragments d (fragment_slot f)"
    obtain e' where e: "fragment_gate now f q ?e = (e', g)" "d' = d\<lparr>d_fragments := (d_fragments d)(fragment_slot f := e')\<rparr>"
      using f True by (auto simp: frame_gate_def split: prod.splits)
    note g = fragment_gate_entry [OF e(1)]
    note i = dispatch_invD(9-11) [OF inv, of "fragment_slot f"]
    have h: "fe_held e' = fe_held ?e" using g(3) i(3) by blast
    have "dispatch_inv [] (d', tk)"
      unfolding e(2) by (rule entry_inv [OF inv fragment_slot_less]) (use g(1,2,4) h i q in auto)
    then show ?thesis using g(1,8) i(1) q by (auto simp: e(2))
  next
    case False
    then show ?thesis using f inv q by (auto simp: frame_gate_def)
  qed
  then show "dispatch_inv [] (d', tk)" "g = Some q' \<Longrightarrow> q' < d_workers d" "d_workers d' = d_workers d" "d_rings d' = d_rings d"
    "d_free d' = d_free d" "d_data d' = d_data d" "d_flow_queues d' = d_flow_queues d"
    "fl_fragmented f \<Longrightarrow> fe_used (d_fragments d' (fragment_slot f))" by simp_all
qed

lemma place_slot_inv:
  assumes inv: "dispatch_inv [s] (d, tk)" and q: "q < d_workers d"
    and u: "fl_fragmented f \<Longrightarrow> fe_used (d_fragments d (fragment_slot f))"
  shows "dispatch_inv [] (place_slot f q s d, tk)"
    "\<not> pending f d \<Longrightarrow> ring_list (d_rings (place_slot f q s d) q) = ring_list (d_rings d q) @ s #
      (if fl_fragmented f then fe_held (d_fragments d (fragment_slot f)) else [])"
proof -
  let ?i = "fragment_slot f" and ?e = "d_fragments d (fragment_slot f)"
  have q8: "q < EXP_WORKERS" using q dispatch_invD(7) [OF inv] by simp
  note i = dispatch_invD(9-11) [OF inv, of ?i]
  have "dispatch_inv [] (place_slot f q s d, tk) \<and> (\<not> pending f d \<longrightarrow> ring_list (d_rings (place_slot f q s d) q) =
      ring_list (d_rings d q) @ s # (if fl_fragmented f then fe_held ?e else []))"
  proof (cases "pending f d")
    case True
    then have u': "fe_used ?e" using u by (simp add: pending_def)
    have "dispatch_inv [] (d\<lparr>d_fragments := (d_fragments d)(?i := ?e\<lparr>fe_held := fe_held ?e @ [s], fe_count := fe_count ?e + 1\<rparr>)\<rparr>, tk)"
      by (rule entry_inv [OF inv fragment_slot_less]) (use i u' in auto)
    then show ?thesis using True by (simp add: place_slot_def Let_def)
  next
    case False
    note h = queue_hand [OF inv q8]
    let ?d = "dispatch_queue_locked q s d" and ?e' = "?e\<lparr>fe_held := [], fe_count := 0\<rparr>"
    show ?thesis
    proof (cases "fl_fragmented f")
      case True
      have "dispatch_inv (fe_held ?e @ []) (?d\<lparr>d_fragments := (d_fragments ?d)(?i := ?e')\<rparr>, tk)"
        by (rule entry_inv [OF h(1) fragment_slot_less]) (use i u True in auto)
      from queue_hands [OF q8 this] show ?thesis using h(2) False True by (simp add: place_slot_def Let_def)
    next
      case nf: False
      then show ?thesis using h False by (simp add: place_slot_def Let_def)
    qed
  qed
  then show "dispatch_inv [] (place_slot f q s d, tk)"
    "\<not> pending f d \<Longrightarrow> ring_list (d_rings (place_slot f q s d) q) = ring_list (d_rings d q) @ s #
      (if fl_fragmented f then fe_held ?e else [])" by simp_all
qed

text \<open>The three ends of a submission: the frame is dropped, held, or queued behind what its queue has.\<close>

lemma locked_eq:
  "flow_queue f d = (d1, q0) \<Longrightarrow> frame_gate now f q0 d1 = (d2, g) \<Longrightarrow> dispatch_locked vnet now f frame d =
    (case g of None \<Rightarrow> d2
     | Some q \<Rightarrow> if d_stop d2 \<or> d_free d2 = [] \<or> pending f d2 \<and> length (d_free d2) \<le> 32 then d2
         else case fill_slot vnet frame d2 of None \<Rightarrow> d2 | Some (s, d3) \<Rightarrow> place_slot f q s d3)"
  by (simp add: dispatch_locked_def)

lemma locked_inv:
  assumes inv: "dispatch_inv [] (d, tk)" and len: "length frame + HEADROOM \<le> RECV_BUF_SIZE + vnet"
  shows "dispatch_inv [] (dispatch_locked vnet now f frame d, tk)"
proof -
  obtain d1 q0 where 1: "flow_queue f d = (d1, q0)" by fastforce
  obtain d2 g where 2: "frame_gate now f q0 d1 = (d2, g)" by fastforce
  note a = flow_queue_inv [OF inv 1]
  have q0: "q0 < d_workers d1" using a(2,3) by simp
  note b = frame_gate_inv [OF a(1) q0 2]
  have "dispatch_inv [] (place_slot f q s d3, tk)"
    if "g = Some q" "d_free d2 \<noteq> []" "fill_slot vnet frame d2 = Some (s, d3)" for q s d3
  proof -
    note c = fill_slot_inv [OF b(1) that(2) len that(3)]
    show ?thesis by (rule place_slot_inv(1) [OF c(1)]) (use b(2,3,8) that(1) c(5,7) in auto)
  qed
  then show ?thesis unfolding locked_eq [OF 1 2] using b(1) by (auto split: option.split)
qed

lemma submit_inv:
  "dispatch_inv [] (d, tk) \<Longrightarrow> length frame + HEADROOM \<le> RECV_BUF_SIZE + vnet \<Longrightarrow> dispatch_inv [] (dispatch_submit vnet now frame d, tk)"
  by (simp add: dispatch_submit_def locked_inv split: option.split)

lemma init_inv:
  assumes "dispatch_init storage workers = Some d"
  shows "dispatch_inv [] (d, [])"
proof -
  have d: "d = \<lparr>d_workers = workers, d_free = rev [0..<DISPATCH_FRAMES], d_next_queue = 0, d_stop = False,
       d_flow_queues = (\<lambda>_. 0), d_rings = (\<lambda>_. empty_ring), d_data = (\<lambda>_. []),
       d_tokens = (\<lambda>_. \<lparr>t_slot = 0, t_generation = 0, t_identity = 0\<rparr>), d_pool = d_pool d,
       d_fragments = (\<lambda>_. no_fragment), d_last_expire = 0\<rparr>" "0 < workers" "workers \<le> EXP_WORKERS"
    and p: "\<exists>a. packet_frame_pool_init (dispatch_frames a) 1 = Inr (d_pool d)"
    using assms by (auto simp: dispatch_init_def split: if_split_asm option.splits sum.splits)
  from p obtain a where a: "d_pool d = \<lparr>fp_frames = map (\<lambda>f. f\<lparr>f_offset := 0, f_length := 0, f_generation := 0, f_state := FRAME_FREE\<rparr>) (dispatch_frames a),
      fp_identity = 1, fp_stopping = False, fp_closed = False\<rparr>"
    by (auto simp: packet_frame_pool_init_def dest!: sym [of _ "d_pool d"] split: if_split_asm)
  have fr: "length (fp_frames (d_pool d)) = DISPATCH_FRAMES"
    "\<And>s. s < DISPATCH_FRAMES \<Longrightarrow> f_state (fp_frames (d_pool d) ! s) = FRAME_FREE \<and> f_storage (fp_frames (d_pool d) ! s) \<noteq> None
        \<and> f_capacity (fp_frames (d_pool d) ! s) = RECV_BUF_SIZE"
    by (simp_all add: a dispatch_frames_def)
  have f: "d_free d = rev [0..<DISPATCH_FRAMES]" "d_stop d = False" "d_workers d = workers" "d_rings d = (\<lambda>_. empty_ring)"
    "d_fragments d = (\<lambda>_. no_fragment)" "d_flow_queues d = (\<lambda>_. 0)"
    by (subst d(1), simp)+
  have "\<forall>s<DISPATCH_FRAMES. slot_ok d [] s" using fr(2) by (simp add: slot_ok_def f)
  moreover have "places d [] = mset [0..<DISPATCH_FRAMES]"
    by (simp add: places_def queued_def held_def no_fragment_def f)
  moreover have "fp_stopping (d_pool d) = d_stop d" by (simp add: a f)
  ultimately show ?thesis
    unfolding dispatch_inv_def prod.case using fr(1) d(2,3) by (simp add: f no_fragment_def)
qed

lemma dispatch_step_inv: "dispatch_step vnet r r' \<Longrightarrow> dispatch_inv [] r \<Longrightarrow> dispatch_inv [] r'"
proof (induction rule: dispatch_step.induct)
  case (submit frame d tk now)
  then show ?case by (rule submit_inv [rotated])
next
  case (take worker d slot b d' tk)
  then show ?case using take_inv(1) by blast
next
  case (release slot tk d)
  then show ?case by (rule release_inv [rotated])
qed (rule expire_inv stop_inv, assumption)+

lemma dispatch_reach_inv: "dispatch_reach vnet r \<Longrightarrow> dispatch_inv [] r"
  by (induction rule: dispatch_reach.induct) (use init_inv dispatch_step_inv in auto)

text \<open>A free slot is nowhere else, and is handed out unless the pool is stopped.\<close>

lemma free_nowhere_else:
  assumes inv: "dispatch_inv [] (d, tk)" and s: "s \<in> set (d_free d)"
  shows "s < DISPATCH_FRAMES" "s \<notin># queued d" "s \<notin># held d" "s \<notin> set tk"
proof -
  have "mset (d_free d) + (queued d + held d + mset tk) = mset [0..<DISPATCH_FRAMES]"
    using dispatch_invD(1) [OF inv] by (simp add: places_def ac_simps)
  from part_distinct [OF this, of s] s show "s < DISPATCH_FRAMES" "s \<notin># queued d" "s \<notin># held d" "s \<notin> set tk" by auto
qed

lemma free_acquires:
  assumes inv: "dispatch_inv [] (d, tk)" and s: "d_free d \<noteq> []" "\<not> d_stop d"
    and g: "f_generation (fp_frames (d_pool d) ! hd (d_free d)) \<noteq> 0xffffffffffffffff"
  shows "\<exists>t p. packet_frame_acquire (hd (d_free d)) (d_pool d) = Inr (t, p)"
proof -
  let ?s = "hd (d_free d)"
  have s': "?s \<in> set (d_free d)" using s(1) by simp
  note lt = free_nowhere_else(1) [OF inv s']
  have "f_state (fp_frames (d_pool d) ! ?s) = FRAME_FREE" using dispatch_invD(4) [OF inv lt] s' by (simp add: slot_ok_def)
  then show ?thesis using lt g s(2) dispatch_invD(3,5) [OF inv] by (simp add: packet_frame_acquire_def Let_def)
qed

end
