(* ===== verification/Dispatch_Laws.thy ===== *)
theory Dispatch_Laws
  imports Dispatch_Inv "HOL-Library.Sublist"
begin

text \<open>
  What the dispatcher promises, from its invariant: no slot is lost, flows keep their queue and
  their order, the fragments of a datagram stay together and in order, and a stopped dispatcher
  gives every frame back.
\<close>

section \<open>What the dispatcher promises\<close>

text \<open>
  C19. In every state the dispatcher can reach each of its 512 slots is in exactly one place: free,
  once in one worker's queue, held once, or with one worker. So no queue overflows and no frame is
  lost or handed out twice; the frame's state names its place, and a release is never refused.
\<close>

theorem dispatch_slots:
  assumes "dispatch_reach vnet (d, tk)"
  shows "mset (d_free d) + (\<Sum>q<EXP_WORKERS. mset (ring_list (d_rings d q)))
      + (\<Sum>i<DISPATCH_FRAGMENTS. mset (fe_held (d_fragments d i))) + mset tk = mset [0..<DISPATCH_FRAMES]
    \<and> (\<forall>q<EXP_WORKERS. rg_count (d_rings d q) \<le> DISPATCH_FRAMES)
    \<and> (\<forall>s<DISPATCH_FRAMES. f_state (fp_frames (d_pool d) ! s) =
         (if s \<in> set (d_free d) then FRAME_FREE else if s \<in> set tk then FRAME_TRANSLATING else FRAME_RECEIVED))
    \<and> (\<forall>s\<in>set tk. \<forall>e. packet_frame_transition (d_tokens d s) FRAME_FREE (d_pool d) \<noteq> Inl e)"
proof -
  have inv: "dispatch_inv [] (d, tk)" by (rule dispatch_reach_inv [OF assms])
  have "packet_frame_transition (d_tokens d s) FRAME_FREE (d_pool d) \<noteq> Inl e" if "s \<in> set tk" for s e
  proof -
    have "mset tk + (mset (d_free d) + queued d + held d) = mset [0..<DISPATCH_FRAMES]"
      using dispatch_invD(1) [OF inv] by (simp add: places_def ac_simps)
    from part_distinct [OF this, of s] have s: "s < DISPATCH_FRAMES" "s \<notin> set (d_free d)" using that by auto
    have "live d s FRAME_TRANSLATING" using dispatch_invD(4) [OF inv s(1)] s(2) that by (simp add: slot_ok_def)
    then show ?thesis by (rule to_state_live(1)) (use s(1) dispatch_invD(3) [OF inv] in auto)
  qed
  moreover have "f_state (fp_frames (d_pool d) ! s) = (if s \<in> set (d_free d) then FRAME_FREE else if s \<in> set tk then FRAME_TRANSLATING else FRAME_RECEIVED)"
    if "s < DISPATCH_FRAMES" for s
    using dispatch_invD(4) [OF inv that] by (simp add: slot_ok_def live_def Let_def split: if_split_asm)
  ultimately show ?thesis
    using dispatch_invD(1,2) [OF inv] by (simp add: places_def queued_def held_def ring_ok_def)
qed

text \<open>What a step does to the flows' queues: only a packet's own bucket changes, and only from none.\<close>

lemma flow_queue_kept:
  assumes "flow_queue f d = (d', q)"
  shows "d_flow_queues d b \<noteq> 0 \<Longrightarrow> d_flow_queues d' b = d_flow_queues d b" "b \<noteq> flow_bucket f \<Longrightarrow> d_flow_queues d' b = d_flow_queues d b"
    "d_fragments d' = d_fragments d" "d_rings d' = d_rings d" "d_free d' = d_free d" "d_data d' = d_data d"
  using assms by (auto simp: flow_queue_def Let_def split: if_split_asm)

lemma frame_gate_kept:
  assumes "frame_gate now f q d = (d', g)"
  shows "d_flow_queues d' = d_flow_queues d" "d_rings d' = d_rings d" "d_free d' = d_free d" "d_data d' = d_data d"
    "j \<noteq> fragment_slot f \<Longrightarrow> d_fragments d' j = d_fragments d j"
    "fl_fragmented f \<Longrightarrow> fragment_gate now f q (d_fragments d (fragment_slot f)) = (d_fragments d' (fragment_slot f), g)"
    "\<not> fl_fragmented f \<Longrightarrow> d' = d \<and> g = Some q"
  using assms by (auto simp: frame_gate_def split: if_split_asm prod.splits)

lemma fill_slot_kept:
  assumes "fill_slot vnet frame d = Some (s, d')"
  shows "d_flow_queues d' = d_flow_queues d" "d_rings d' = d_rings d" "d_fragments d' = d_fragments d" "s = hd (d_free d)"
    "d_free d' = tl (d_free d)" "d_data d' = (d_data d)(s := frame)"
  using assms by (auto simp: fill_slot_def Let_def split: sum.splits prod.splits)

lemma place_slot_kept [simp]:
  "d_flow_queues (place_slot f q s d) = d_flow_queues d" "d_free (place_slot f q s d) = d_free d" "d_data (place_slot f q s d) = d_data d"
  "q' \<noteq> q \<Longrightarrow> d_rings (place_slot f q s d) q' = d_rings d q'"
  "j \<noteq> fragment_slot f \<Longrightarrow> d_fragments (place_slot f q s d) j = d_fragments d j"
  by (simp_all add: place_slot_def Let_def)

text \<open>The ends of a submission, in the order its parts are done.\<close>

lemma locked_cases:
  obtains d1 q0 d2 g where "flow_queue f d = (d1, q0)" "frame_gate now f q0 d1 = (d2, g)"
    "dispatch_locked vnet now f frame d = d2"
  | d1 q0 d2 q s d3 where "flow_queue f d = (d1, q0)" "frame_gate now f q0 d1 = (d2, Some q)" "d_free d2 \<noteq> []"
    "fill_slot vnet frame d2 = Some (s, d3)" "dispatch_locked vnet now f frame d = place_slot f q s d3"
proof -
  obtain d1 q0 where 1: "flow_queue f d = (d1, q0)" by fastforce
  obtain d2 g where 2: "frame_gate now f q0 d1 = (d2, g)" by fastforce
  show thesis
  proof (cases "dispatch_locked vnet now f frame d = d2")
    case True
    then show thesis using that(1) [OF 1 2] by simp
  next
    case False
    then obtain q s d3 where "g = Some q" "d_free d2 \<noteq> []" "fill_slot vnet frame d2 = Some (s, d3)"
      "dispatch_locked vnet now f frame d = place_slot f q s d3"
      using locked_eq [OF 1 2, of vnet frame] by (auto split: option.splits if_split_asm)
    then show thesis using that(2) 1 2 by simp
  qed
qed

lemma locked_flows:
  "d_flow_queues d b \<noteq> 0 \<or> b \<noteq> flow_bucket f \<Longrightarrow> d_flow_queues (dispatch_locked vnet now f frame d) b = d_flow_queues d b"
  by (rule locked_cases [of f d now vnet frame]) (use flow_queue_kept(1,2) in \<open>auto simp: frame_gate_kept(1) fill_slot_kept(1)\<close>)

lemma expire_fold_flows: "d_flow_queues (fold (expire_entry now) js d) = d_flow_queues d"
  by (induction js arbitrary: d) (simp_all add: expire_entry_def Let_def)

lemma step_flows:
  "dispatch_step vnet (d, tk) (d', tk') \<Longrightarrow> d_flow_queues d b \<noteq> 0 \<Longrightarrow> d_flow_queues d' b = d_flow_queues d b"
proof (erule dispatch_step.cases)
  fix frame da tka now
  assume "d_flow_queues d b \<noteq> 0" "(d, tk) = (da, tka)" "(d', tk') = (dispatch_submit vnet now frame da, tka)"
  then show ?thesis using locked_flows by (auto simp: dispatch_submit_def split: option.split)
next
  fix worker da slot bs da' tka
  assume "(d, tk) = (da, tka)" "(d', tk') = (da', slot # tka)" "dispatch_take worker da = (Some (slot, bs), da')"
  then show ?thesis by (auto simp: dispatch_take_def to_state_def Let_def split: if_split_asm prod.splits sum.splits)
next
  fix now da tka
  assume "(d, tk) = (da, tka)" "(d', tk') = (dispatch_expire now da, tka)"
  then show ?thesis by (simp add: dispatch_expire_def expire_fold_flows)
qed (auto simp: dispatch_release_def dispatch_stop_def)

lemma run_flows:
  assumes "(dispatch_step vnet)\<^sup>*\<^sup>* (d, tk) r" "d_flow_queues d b \<noteq> 0"
  shows "d_flow_queues (fst r) b = d_flow_queues d b"
  using assms by (induction rule: rtranclp_induct) (use step_flows in \<open>fastforce simp: split_paired_all\<close>)+

lemma flow_order:
  assumes r: "dispatch_reach vnet (d, tk)" and l: "vnet < length frame" "length frame + HEADROOM \<le> RECV_BUF_SIZE + vnet"
    and f: "flow_parse (drop vnet frame) (length frame - vnet) = Some (Some f)" "fl_transport f" "\<not> fl_fragmented f"
    and d': "d' = dispatch_submit vnet now frame d"
  shows "\<exists>q<d_workers d. d_flow_queues d' (flow_bucket f) = q + 1 \<and> d_flow_queues d (flow_bucket f) \<in> {0, q + 1}
    \<and> (\<forall>q'. q' \<noteq> q \<longrightarrow> d_rings d' q' = d_rings d q')
    \<and> (\<forall>s\<in>set (ring_list (d_rings d q)). d_data d' s = d_data d s)
    \<and> (d_rings d' q = d_rings d q \<and> (d_stop d \<or> d_free d = [] \<or> f_generation (fp_frames (d_pool d) ! hd (d_free d)) = 0xffffffffffffffff)
       \<or> (\<exists>s. ring_list (d_rings d' q) = ring_list (d_rings d q) @ [s] \<and> d_data d' s = frame))"
proof -
  have inv: "dispatch_inv [] (d, tk)" by (rule dispatch_reach_inv [OF r])
  obtain d1 q where 1: "flow_queue f d = (d1, q)" by fastforce
  have 2: "frame_gate now f q d1 = (d1, Some q)" by (simp add: frame_gate_def f(3))
  note a = flow_queue_inv [OF inv 1]
  have w: "d_pool d1 = d_pool d" "d_stop d1 = d_stop d" using 1 by (auto simp: flow_queue_def Let_def split: if_split_asm)
  have p: "\<not> pending f d" "place_slot f q s d = dispatch_queue_locked q s d" for s d
    by (simp_all add: pending_def place_slot_def f(3) Let_def)
  have d: "d' = (if d_stop d1 \<or> d_free d1 = [] then d1
      else case fill_slot vnet frame d1 of None \<Rightarrow> d1 | Some (s, d3) \<Rightarrow> dispatch_queue_locked q s d3)"
    using l(1) by (simp add: d' dispatch_submit_def f(1) locked_eq [OF 1 2] p split: option.split)
  have b: "d_flow_queues d (flow_bucket f) = 0 \<or> d_flow_queues d (flow_bucket f) = q + 1"
    using a(8) [of "flow_bucket f"] a(9) [OF f(2)] by (cases "d_flow_queues d (flow_bucket f) = 0") simp_all
  show ?thesis
  proof (cases "d_stop d1 \<or> d_free d1 = [] \<or> fill_slot vnet frame d1 = None")
    case True
    then have e: "d' = d1" using d by auto
    have "d_stop d \<or> d_free d = [] \<or> f_generation (fp_frames (d_pool d) ! hd (d_free d)) = 0xffffffffffffffff"
      using True free_acquires [OF inv] by (force simp: a(5) w fill_slot_def Let_def split: sum.splits)
    then show ?thesis using a(2,4,6) a(9) [OF f(2)] b e by auto
  next
    case False
    then obtain s d3 where s: "d_free d1 \<noteq> []" "fill_slot vnet frame d1 = Some (s, d3)" "d' = dispatch_queue_locked q s d3"
      using d by (auto split: if_split_asm option.splits)
    note c = fill_slot_inv [OF a(1) s(1) l(2) s(2)]
    have q8: "q < EXP_WORKERS" using a(2) dispatch_invD(7) [OF inv] by simp
    note e = queue_hand(2) [OF c(1) q8]
    have "s \<in> set (d_free d)" using a(5) c(2) by (metis list.set_intros(1))
    then have "s \<notin># queued d" using free_nowhere_else [OF inv] by blast
    then have "s \<notin> set (ring_list (d_rings d q))" using mset_subset_eqD [OF ring_queued [OF q8]] by fastforce
    then show ?thesis using a(2,4,6) a(9) [OF f(2)] b c(3,4,6) e unfolding s(3)
      by (intro exI [of _ q]) (auto intro!: exI [of _ s])
  qed
qed

text \<open>
  C22. The packets of a flow stay in order: a whole packet of a flow is put at the end of the one
  queue the flow has had since its first packet, and changes neither what is before it, nor another
  queue, nor the queue another flow has; only a stop, a lack of free slots or a slot with no
  generation left drops it. The flow keeps this queue in every later state.
\<close>

theorem dispatch_flow_order:
  assumes r: "dispatch_reach vnet (d, tk)" and l: "vnet < length frame" "length frame + HEADROOM \<le> RECV_BUF_SIZE + vnet"
    and f: "flow_parse (drop vnet frame) (length frame - vnet) = Some (Some f)" "fl_transport f" "\<not> fl_fragmented f"
    and d': "d' = dispatch_submit vnet now frame d"
  shows "(\<exists>q<d_workers d. d_flow_queues d (flow_bucket f) \<in> {0, q + 1}
      \<and> (\<forall>d'' tk''. (dispatch_step vnet)\<^sup>*\<^sup>* (d', tk) (d'', tk'') \<longrightarrow> d_flow_queues d'' (flow_bucket f) = q + 1)
      \<and> (\<forall>q'. q' \<noteq> q \<longrightarrow> d_rings d' q' = d_rings d q')
      \<and> (\<forall>s\<in>set (ring_list (d_rings d q)). d_data d' s = d_data d s)
      \<and> (d_rings d' q = d_rings d q \<and> (d_stop d \<or> d_free d = [] \<or> f_generation (fp_frames (d_pool d) ! hd (d_free d)) = 0xffffffffffffffff)
         \<or> (\<exists>s. ring_list (d_rings d' q) = ring_list (d_rings d q) @ [s] \<and> d_data d' s = frame)))
    \<and> (\<forall>b. b \<noteq> flow_bucket f \<longrightarrow> d_flow_queues d' b = d_flow_queues d b)"
proof -
  have "d_flow_queues d'' (flow_bucket f) = d_flow_queues d' (flow_bucket f)"
    if "(dispatch_step vnet)\<^sup>*\<^sup>* (d', tk) (d'', tk'')" "d_flow_queues d' (flow_bucket f) = q + 1" for d'' tk'' q
    using run_flows [OF that(1)] that(2) by simp
  moreover have "d_flow_queues d' b = d_flow_queues d b" if "b \<noteq> flow_bucket f" for b
    using locked_flows that l(1) by (simp add: d' dispatch_submit_def f(1))
  ultimately show ?thesis using flow_order [OF r l f d'] by auto
qed

text \<open>
  A worker gets the oldest frame of its queue, with the bytes that were stored for it, and no
  other queue is touched; it gets none only when its queue is empty.
\<close>

lemma dispatch_take_oldest:
  assumes "dispatch_reach vnet (d, tk)" "worker < d_workers d"
  shows "case dispatch_take worker d of
      (None, d') \<Rightarrow> ring_list (d_rings d worker) = [] \<and> d' = d
    | (Some (s, b), d') \<Rightarrow> ring_list (d_rings d worker) = s # ring_list (d_rings d' worker) \<and> b = d_data d s
        \<and> (\<forall>q. q \<noteq> worker \<longrightarrow> d_rings d' q = d_rings d q)"
proof (cases "dispatch_take worker d")
  case (Pair r d')
  show ?thesis
  proof (cases r)
    case None
    then show ?thesis using Pair by (auto simp: dispatch_take_def Let_def ring_list_def split: if_split_asm prod.splits)
  next
    case (Some x)
    then obtain s b where x: "r = Some (s, b)" by (cases x) simp
    show ?thesis using take_inv [OF dispatch_reach_inv [OF assms(1)] assms(2), of s b d'] Pair x by simp
  qed
qed

text \<open>A fragment whose entry is open gets a slot, and goes where its entry says.\<close>

lemma open_fragment:
  assumes inv: "dispatch_inv [] (d, tk)" and l: "vnet < length frame" "length frame + HEADROOM \<le> RECV_BUF_SIZE + vnet"
    and f: "flow_parse (drop vnet frame) (length frame - vnet) = Some (Some f)" "fl_fragmented f"
    and e: "e = d_fragments d (fragment_slot f)" "\<not> fe_used e \<or> fe_key e = fl_key f \<and> now < fe_deadline e \<and> fe_resolved e = 0"
    and free: "d_free d = s # fs" "\<not> d_stop d" "f_generation (fp_frames (d_pool d) ! s) \<noteq> 0xffffffffffffffff"
    and room: "fl_first f \<or> fe_count e < 8 \<and> 32 < length (d_free d)"
    and 1: "flow_queue f d = (d1, q)"
  obtains e' d3 where "fe_used e'" "fe_key e' = fl_key f" "fe_held e' = fe_held e" "fe_resolved e' = (if fl_first f then 1 else 0)"
    "fl_first f \<Longrightarrow> fe_queue e' = q" "d_fragments d3 (fragment_slot f) = e'" "d_rings d3 = d_rings d" "d_flow_queues d3 = d_flow_queues d1"
    "d_data d3 = (d_data d)(s := frame)" "dispatch_inv [s] (d3, tk)" "q < d_workers d3"
    "dispatch_submit vnet now frame d = place_slot f q s d3"
proof -
  let ?i = "fragment_slot f"
  note a = flow_queue_inv [OF inv 1]
  have w: "d_pool d1 = d_pool d" "d_stop d1 = d_stop d" using 1 by (auto simp: flow_queue_def Let_def split: if_split_asm)
  have i: "\<not> fe_used e \<Longrightarrow> fe_held e = [] \<and> fe_resolved e = 0" "fe_count e = length (fe_held e)"
    using dispatch_invD(10,11) [OF inv, of ?i] by (simp_all add: e(1))
  obtain e' where g: "fragment_gate now f q e = (e', Some q)" "fe_resolved e' = (if fl_first f then 1 else 0)" "fe_key e' = fl_key f"
    "fl_first f \<Longrightarrow> fe_queue e' = q"
    using e(2) i room by (cases "fe_used e"; cases "fl_first f") (auto simp: fragment_gate_def Let_def)
  have h: "fe_held e' = fe_held e" "fe_used e'" using fragment_gate_entry(1,3) [OF g(1)] i(1) by auto
  let ?d2 = "d1\<lparr>d_fragments := (d_fragments d1)(?i := e')\<rparr>"
  have 2: "frame_gate now f q d1 = (?d2, Some q)" using g(1) by (simp add: frame_gate_def f(2) a(7) e(1))
  have q1: "q < d_workers d1" using a(2,3) by simp
  note b = frame_gate_inv [OF a(1) q1 2]
  have fr: "d_free ?d2 \<noteq> []" "\<not> d_stop ?d2" "\<not> (pending f ?d2 \<and> length (d_free ?d2) \<le> 32)"
    using a(5) free w(2) room g(2) by (auto simp: pending_def)
  have "\<exists>t p. packet_frame_acquire s (d_pool d) = Inr (t, p)" using free_acquires [OF inv] free by simp
  then obtain d3 where s: "fill_slot vnet frame ?d2 = Some (s, d3)" by (auto simp: fill_slot_def w a(5) free(1) Let_def)
  note c = fill_slot_inv [OF b(1) fr(1) l(2) s]
  have d: "dispatch_submit vnet now frame d = place_slot f q s d3"
    using l(1) fr by (auto simp: dispatch_submit_def f(1) locked_eq [OF 1 2] s)
  show thesis
    by (rule that [of e' d3]) (use g h c b(4) a(4,6) q1 d in auto)
qed

lemma first_fragment_queued:
  assumes r: "dispatch_reach vnet (d, tk)" and l: "vnet < length frame" "length frame + HEADROOM \<le> RECV_BUF_SIZE + vnet"
    and f: "flow_parse (drop vnet frame) (length frame - vnet) = Some (Some f)" "fl_fragmented f"
    and e: "e = d_fragments d (fragment_slot f)" "\<not> fe_used e \<or> fe_key e = fl_key f \<and> now < fe_deadline e \<and> fe_resolved e = 0"
    and free: "d_free d = s # fs" "\<not> d_stop d" "f_generation (fp_frames (d_pool d) ! s) \<noteq> 0xffffffffffffffff"
    and first: "fl_transport f" "fl_first f"
    and d': "d' = dispatch_submit vnet now frame d"
  shows "\<exists>q. d_flow_queues d' (flow_bucket f) = q + 1
    \<and> ring_list (d_rings d' q) = ring_list (d_rings d q) @ s # fe_held e \<and> (\<forall>q'. q' \<noteq> q \<longrightarrow> d_rings d' q' = d_rings d q')
    \<and> d_data d' = (d_data d)(s := frame) \<and> fe_held (d_fragments d' (fragment_slot f)) = []
    \<and> fe_resolved (d_fragments d' (fragment_slot f)) = 1 \<and> fe_queue (d_fragments d' (fragment_slot f)) = q"
proof -
  have inv: "dispatch_inv [] (d, tk)" by (rule dispatch_reach_inv [OF r])
  obtain d1 q where 1: "flow_queue f d = (d1, q)" by fastforce
  have room: "fl_first f \<or> fe_count e < 8 \<and> 32 < length (d_free d)" using first by simp
  obtain e' d3 where c: "fe_used e'" "fe_key e' = fl_key f" "fe_held e' = fe_held e" "fe_resolved e' = (if fl_first f then 1 else 0)"
    "fl_first f \<Longrightarrow> fe_queue e' = q" "d_fragments d3 (fragment_slot f) = e'" "d_rings d3 = d_rings d" "d_flow_queues d3 = d_flow_queues d1"
    "d_data d3 = (d_data d)(s := frame)" "dispatch_inv [s] (d3, tk)" "q < d_workers d3"
    "dispatch_submit vnet now frame d = place_slot f q s d3"
    by (rule open_fragment [OF inv l f e free room 1]) (rule that)
  have np: "\<not> pending f d3" using first(2) c(4,6) by (simp add: pending_def)
  have u: "fl_fragmented f \<Longrightarrow> fe_used (d_fragments d3 (fragment_slot f))" using c(1,6) by simp
  have "ring_list (d_rings d' q) = ring_list (d_rings d q) @ s # fe_held e"
    using place_slot_inv(2) [OF c(10,11) u np] c(3,6,7) f(2) by (simp add: d' c(12))
  moreover have "d_fragments d' (fragment_slot f) = e'\<lparr>fe_held := [], fe_count := 0\<rparr>"
    using np f(2) c(6) by (simp add: d' c(12) place_slot_def Let_def)
  ultimately show ?thesis using first c(4,5,7-9) flow_queue_inv(9) [OF inv 1] by (simp add: d' c(12))
qed

lemma later_fragment_held:
  assumes r: "dispatch_reach vnet (d, tk)" and l: "vnet < length frame" "length frame + HEADROOM \<le> RECV_BUF_SIZE + vnet"
    and f: "flow_parse (drop vnet frame) (length frame - vnet) = Some (Some f)" "fl_fragmented f"
    and e: "e = d_fragments d (fragment_slot f)" "\<not> fe_used e \<or> fe_key e = fl_key f \<and> now < fe_deadline e \<and> fe_resolved e = 0"
    and free: "d_free d = s # fs" "\<not> d_stop d" "f_generation (fp_frames (d_pool d) ! s) \<noteq> 0xffffffffffffffff"
    and later: "\<not> fl_first f" "fe_count e < 8" "32 < length (d_free d)"
    and d': "d' = dispatch_submit vnet now frame d"
  shows "d_rings d' = d_rings d \<and> d_data d' = (d_data d)(s := frame) \<and> fe_held (d_fragments d' (fragment_slot f)) = fe_held e @ [s]
    \<and> fe_used (d_fragments d' (fragment_slot f)) \<and> fe_key (d_fragments d' (fragment_slot f)) = fl_key f
    \<and> fe_resolved (d_fragments d' (fragment_slot f)) = 0"
proof -
  obtain d1 q where 1: "flow_queue f d = (d1, q)" by fastforce
  have room: "fl_first f \<or> fe_count e < 8 \<and> 32 < length (d_free d)" using later by simp
  obtain e' d3 where c: "fe_used e'" "fe_key e' = fl_key f" "fe_held e' = fe_held e" "fe_resolved e' = (if fl_first f then 1 else 0)"
    "fl_first f \<Longrightarrow> fe_queue e' = q" "d_fragments d3 (fragment_slot f) = e'" "d_rings d3 = d_rings d" "d_flow_queues d3 = d_flow_queues d1"
    "d_data d3 = (d_data d)(s := frame)" "dispatch_inv [s] (d3, tk)" "q < d_workers d3"
    "dispatch_submit vnet now frame d = place_slot f q s d3"
    by (rule open_fragment [OF dispatch_reach_inv [OF r] l f e free room 1]) (rule that)
  have "pending f d3" using later(1) c(4,6) f(2) by (simp add: pending_def)
  then show ?thesis using later(1) c(1-4,6,7,9) by (simp add: d' c(12) place_slot_def Let_def)
qed

text \<open>What is held stays held, in its order, with its bytes, until the entry has a queue or is closed.\<close>

definition keeps_waiting :: "fragment_entry \<Rightarrow> fragment_entry \<Rightarrow> bool" where
  "keeps_waiting e e' \<longleftrightarrow> (fe_used e \<longrightarrow> fe_used e' \<and> (fe_resolved e' = 0 \<longrightarrow> fe_resolved e = 0 \<and> prefix (fe_held e) (fe_held e')))"

lemma keeps_waiting_refl [simp]: "keeps_waiting e e"
  by (simp add: keeps_waiting_def)

lemma keeps_waiting_trans: "keeps_waiting a b \<Longrightarrow> keeps_waiting b c \<Longrightarrow> keeps_waiting a c"
  by (auto simp: keeps_waiting_def intro: prefix_order.trans)

lemma gate_waiting: "fragment_gate now f q e = (e', g) \<Longrightarrow> keeps_waiting e e'"
  by (auto simp: fragment_gate_def Let_def keeps_waiting_def split: if_split_asm)

lemma locked_waiting: "keeps_waiting (d_fragments d i) (d_fragments (dispatch_locked vnet now f frame d) i)"
proof (rule locked_cases [of f d now vnet frame])
  have g: "keeps_waiting (d_fragments d i) (d_fragments d2 i)"
    if "flow_queue f d = (d1, q0)" "frame_gate now f q0 d1 = (d2, g)" for d1 q0 d2 g
    using that flow_queue_kept(3) frame_gate_kept(5-7) gate_waiting keeps_waiting_refl by metis
  show "?thesis" if "flow_queue f d = (d1, q0)" "frame_gate now f q0 d1 = (d2, g)" "dispatch_locked vnet now f frame d = d2" for d1 q0 d2 g
    using g that by simp
  show "?thesis" if "flow_queue f d = (d1, q0)" "frame_gate now f q0 d1 = (d2, Some q)" "d_free d2 \<noteq> []"
    "fill_slot vnet frame d2 = Some (s, d3)" "dispatch_locked vnet now f frame d = place_slot f q s d3" for d1 q0 d2 q s d3
  proof -
    have "keeps_waiting (d_fragments d3 i) (d_fragments (place_slot f q s d3) i)"
      by (auto simp: place_slot_def Let_def pending_def keeps_waiting_def)
    then show ?thesis using keeps_waiting_trans [OF g [OF that(1,2)]] fill_slot_kept(3) [OF that(4)] that(5) by simp
  qed
qed

lemma expire_fold_rel:
  assumes "\<And>e. R e (e\<lparr>fe_held := [], fe_count := 0, fe_resolved := 2\<rparr>)" "\<And>e. R e e" "\<And>a b c. R a b \<Longrightarrow> R b c \<Longrightarrow> R a c"
  shows "R (d_fragments d i) (d_fragments (fold (expire_entry now) js d) i)"
proof (induction js arbitrary: d)
  case (Cons j js)
  have "R (d_fragments d i) (d_fragments (expire_entry now j d) i)" using assms(1,2) by (simp add: expire_entry_def Let_def)
  then show ?case using Cons.IH [of "expire_entry now j d"] assms(3) by auto
qed (simp add: assms(2))

lemma step_waiting: "dispatch_step vnet (d, tk) (d', tk') \<Longrightarrow> keeps_waiting (d_fragments d i) (d_fragments d' i)"
proof (erule dispatch_step.cases)
  fix frame da tka now
  assume "(d, tk) = (da, tka)" "(d', tk') = (dispatch_submit vnet now frame da, tka)"
  then show ?thesis using locked_waiting by (auto simp: dispatch_submit_def split: option.split)
next
  fix worker da slot b da' tka
  assume "(d, tk) = (da, tka)" "(d', tk') = (da', slot # tka)" "dispatch_take worker da = (Some (slot, b), da')"
  then show ?thesis
    by (auto simp: dispatch_take_def to_state_def Let_def split: if_split_asm prod.splits sum.splits)
next
  fix now da tka
  assume eq: "(d, tk) = (da, tka)" "(d', tk') = (dispatch_expire now da, tka)"
  have "keeps_waiting (d_fragments d i) (d_fragments (fold (expire_entry now) js d) i)" for js d
    by (rule expire_fold_rel) (auto simp: keeps_waiting_def intro: prefix_order.trans)
  from this [of "da\<lparr>d_last_expire := now\<rparr>"] show ?thesis using eq by (simp add: dispatch_expire_def)
qed (auto simp: dispatch_release_def dispatch_stop_def)

lemma run_waiting: "(dispatch_step vnet)\<^sup>*\<^sup>* (d, tk) r \<Longrightarrow> keeps_waiting (d_fragments d i) (d_fragments (fst r) i)"
  by (induction rule: rtranclp_induct) (use step_waiting keeps_waiting_trans in \<open>auto simp: split_paired_all\<close>)

text \<open>Only a free slot gets new bytes.\<close>

lemma step_data: "dispatch_step vnet (d, tk) (d', tk') \<Longrightarrow> s \<notin> set (d_free d) \<Longrightarrow> d_data d' s = d_data d s"
proof (erule dispatch_step.cases)
  fix frame da tka now
  assume eq: "s \<notin> set (d_free d)" "(d, tk) = (da, tka)" "(d', tk') = (dispatch_submit vnet now frame da, tka)"
  have "d_data (dispatch_locked vnet now f frame d) s = d_data d s" for f
  proof (rule locked_cases [of f d now vnet frame])
    fix d1 q0 d2 q s' d3
    assume c: "flow_queue f d = (d1, q0)" "frame_gate now f q0 d1 = (d2, Some q)" "d_free d2 \<noteq> []"
      "fill_slot vnet frame d2 = Some (s', d3)" "dispatch_locked vnet now f frame d = place_slot f q s' d3"
    then have "s' \<in> set (d_free d)" using flow_queue_kept(5) frame_gate_kept(3) fill_slot_kept(4) by (metis list.set_sel(1))
    then have "s' \<noteq> s" using eq(1) by blast
    then show ?thesis using fill_slot_kept(6) [OF c(4)] frame_gate_kept(4) [OF c(2)] flow_queue_kept(6) [OF c(1)] c(5) by simp
  qed (use flow_queue_kept(6) frame_gate_kept(4) in metis)
  then show ?thesis using eq(2,3) by (auto simp: dispatch_submit_def split: option.split)
next
  fix worker da slot b da' tka
  assume "(d, tk) = (da, tka)" "(d', tk') = (da', slot # tka)" "dispatch_take worker da = (Some (slot, b), da')"
  then show ?thesis
    by (auto simp: dispatch_take_def to_state_def Let_def split: if_split_asm prod.splits sum.splits)
next
  fix now da tka
  assume eq: "(d, tk) = (da, tka)" "(d', tk') = (dispatch_expire now da, tka)"
  have "d_data (fold (expire_entry now) js d) = d_data d" for js d
    by (induction js arbitrary: d) (simp_all add: expire_entry_def Let_def)
  then show ?thesis using eq by (simp add: dispatch_expire_def)
qed (auto simp: dispatch_release_def dispatch_stop_def)

lemma held_not_free:
  assumes "dispatch_inv [] (d, tk)" "s \<in> set (fe_held (d_fragments d i))" "i < DISPATCH_FRAGMENTS"
  shows "s \<notin> set (d_free d)"
proof -
  have "mset (fe_held (d_fragments d i)) \<subseteq># held d" unfolding held_def by (subst sum.remove [of _ i]) (use assms(3) in auto)
  then have "s \<in># held d" using assms(2) by (auto dest: mset_subset_eqD)
  then show ?thesis using free_nowhere_else(3) [OF assms(1)] by blast
qed

lemma run_held_data:
  assumes "(dispatch_step vnet)\<^sup>*\<^sup>* (d, tk) r" "dispatch_reach vnet (d, tk)" "i < DISPATCH_FRAGMENTS" "fe_used (d_fragments d i)"
    "fe_resolved (d_fragments (fst r) i) = 0" "s \<in> set (fe_held (d_fragments d i))"
  shows "dispatch_reach vnet r \<and> d_data (fst r) s = d_data d s \<and> s \<in> set (fe_held (d_fragments (fst r) i))"
  using assms
proof (induction rule: rtranclp_induct)
  case (step r r')
  obtain d1 tk1 d2 tk2 where r: "r = (d1, tk1)" "r' = (d2, tk2)" by fastforce
  have "keeps_waiting (d_fragments d i) (d_fragments d1 i)" "keeps_waiting (d_fragments d1 i) (d_fragments d2 i)"
    using run_waiting [OF step.hyps(1)] step_waiting step.hyps(2) by (simp_all add: r)
  then have w: "fe_resolved (d_fragments d1 i) = 0" "prefix (fe_held (d_fragments d1 i)) (fe_held (d_fragments d2 i))"
    using step.prems(3,4) by (simp_all add: keeps_waiting_def r)
  have h: "dispatch_reach vnet (d1, tk1)" "d_data d1 s = d_data d s" "s \<in> set (fe_held (d_fragments d1 i))"
    using step.IH step.prems w(1) by (simp_all add: r)
  have "s \<notin> set (d_free d1)" by (rule held_not_free [OF dispatch_reach_inv [OF h(1)] h(3) step.prems(2)])
  then have "d_data d2 s = d_data d1 s" using step_data step.hyps(2) by (simp add: r)
  then show ?case using h w(2) set_mono_prefix dispatch_reach.step step.hyps(2) by (fastforce simp: r)
qed simp

text \<open>
  C20. The fragments of a datagram are queued together and in the order they came. A later fragment
  that arrives while its entry is open and the first is not there yet, with fewer than eight others
  waiting and more than 32 free slots, is held behind those that wait, and no queue changes. What is
  held keeps its order and its bytes in every later state until the entry has its queue or is closed. When the first
  fragment arrives and a slot is free, it is put at the end of its flow's queue with all that were
  held right behind it, in their order.
\<close>

theorem dispatch_first_fragment:
  assumes r: "dispatch_reach vnet (d, tk)" and l: "vnet < length frame" "length frame + HEADROOM \<le> RECV_BUF_SIZE + vnet"
    and f: "flow_parse (drop vnet frame) (length frame - vnet) = Some (Some f)" "fl_fragmented f" and i: "i = fragment_slot f"
    and e: "e = d_fragments d i" "\<not> fe_used e \<or> fe_key e = fl_key f \<and> now < fe_deadline e \<and> fe_resolved e = 0"
    and free: "d_free d = s # fs" "\<not> d_stop d" "f_generation (fp_frames (d_pool d) ! s) \<noteq> 0xffffffffffffffff"
    and d': "d' = dispatch_submit vnet now frame d"
  shows "(\<not> fl_first f \<and> fe_count e < 8 \<and> 32 < length (d_free d) \<longrightarrow>
      d_rings d' = d_rings d \<and> d_data d' = (d_data d)(s := frame) \<and> fe_held (d_fragments d' i) = fe_held e @ [s]
      \<and> fe_used (d_fragments d' i) \<and> fe_key (d_fragments d' i) = fl_key f \<and> fe_resolved (d_fragments d' i) = 0)
    \<and> (\<forall>d'' tk''. fe_used e \<and> (dispatch_step vnet)\<^sup>*\<^sup>* (d, tk) (d'', tk'') \<and> fe_resolved (d_fragments d'' i) = 0 \<longrightarrow>
         prefix (fe_held e) (fe_held (d_fragments d'' i)) \<and> (\<forall>x\<in>set (fe_held e). d_data d'' x = d_data d x))
    \<and> (fl_first f \<and> fl_transport f \<longrightarrow>
        (\<exists>q. d_flow_queues d' (flow_bucket f) = q + 1
          \<and> ring_list (d_rings d' q) = ring_list (d_rings d q) @ s # fe_held e \<and> (\<forall>q'. q' \<noteq> q \<longrightarrow> d_rings d' q' = d_rings d q')
          \<and> d_data d' = (d_data d)(s := frame) \<and> fe_held (d_fragments d' i) = []
          \<and> fe_resolved (d_fragments d' i) = 1 \<and> fe_queue (d_fragments d' i) = q))"
proof -
  note e' = e [unfolded i]
  have "prefix (fe_held e) (fe_held (d_fragments d'' i)) \<and> (\<forall>x\<in>set (fe_held e). d_data d'' x = d_data d x)"
    if "fe_used e" "(dispatch_step vnet)\<^sup>*\<^sup>* (d, tk) (d'', tk'')" "fe_resolved (d_fragments d'' i) = 0" for d'' tk''
    using run_waiting [OF that(2), of i] run_held_data [OF that(2) r, of i] that(1,3) by (simp add: e(1) i keeps_waiting_def)
  then show ?thesis
    using later_fragment_held [OF r l f e' free _ _ _ d'] first_fragment_queued [OF r l f e' free _ _ d'] unfolding i by blast
qed

text \<open>What the life of an entry allows.\<close>

definition entry_leads :: "fragment_entry \<Rightarrow> fragment_entry \<Rightarrow> bool" where
  "entry_leads e e' \<longleftrightarrow> (fe_used e \<longrightarrow> fe_used e' \<and> fe_key e' = fe_key e \<and> fe_deadline e' = fe_deadline e
     \<and> (fe_resolved e = 1 \<longrightarrow> fe_resolved e' = 1 \<and> fe_queue e' = fe_queue e \<or> fe_resolved e' = 2) \<and> (fe_resolved e = 2 \<longrightarrow> fe_resolved e' = 2))"

lemma entry_leads_refl [simp]: "entry_leads e e"
  by (simp add: entry_leads_def)

lemma entry_leads_trans: "entry_leads a b \<Longrightarrow> entry_leads b c \<Longrightarrow> entry_leads a c"
  by (auto simp: entry_leads_def)

lemma locked_leads: "entry_leads (d_fragments d i) (d_fragments (dispatch_locked vnet now f frame d) i)"
proof -
  obtain d1 q0 where 1: "flow_queue f d = (d1, q0)" by fastforce
  obtain d2 g where 2: "frame_gate now f q0 d1 = (d2, g)" by fastforce
  have a: "d_fragments d1 = d_fragments d" using 1 by (auto simp: flow_queue_def Let_def split: if_split_asm)
  have b: "entry_leads (d_fragments d i) (d_fragments d2 i)"
  proof (cases "fl_fragmented f \<and> i = fragment_slot f")
    case True
    then obtain e' where e: "fragment_gate now f q0 (d_fragments d i) = (e', g)" "d_fragments d2 i = e'"
      using 2 a by (auto simp: frame_gate_def split: prod.splits)
    then show ?thesis using fragment_gate_entry [OF e(1)] by (auto simp: entry_leads_def)
  qed (use 2 a in \<open>auto simp: frame_gate_def split: prod.splits if_split_asm\<close>)
  have c: "d_fragments d3 = d_fragments d2" if "fill_slot vnet frame d2 = Some (s, d3)" for s d3
    using that by (auto simp: fill_slot_def Let_def split: sum.splits prod.splits)
  have p: "entry_leads (d_fragments d3 i) (d_fragments (place_slot f q s d3) i)" for q s d3
    by (auto simp: place_slot_def Let_def entry_leads_def)
  have t: "entry_leads (d_fragments d i) (d_fragments (place_slot f q s d3) i)" if "fill_slot vnet frame d2 = Some (s, d3)" for q s d3
    using p [of d3 q s] entry_leads_trans [OF b] c [OF that] by simp
  show ?thesis
    unfolding locked_eq [OF 1 2] using b t by (auto split: option.split)
qed

lemma step_leads: "dispatch_step vnet (d, tk) (d', tk') \<Longrightarrow> entry_leads (d_fragments d i) (d_fragments d' i)"
proof (erule dispatch_step.cases)
  fix frame da tka now
  assume "(d, tk) = (da, tka)" "(d', tk') = (dispatch_submit vnet now frame da, tka)"
  then show ?thesis using locked_leads by (auto simp: dispatch_submit_def split: option.split)
next
  fix worker da slot b da' tka
  assume "(d, tk) = (da, tka)" "(d', tk') = (da', slot # tka)" "dispatch_take worker da = (Some (slot, b), da')"
  then show ?thesis
    by (auto simp: dispatch_take_def to_state_def Let_def split: if_split_asm prod.splits sum.splits)
next
  fix now da tka
  assume eq: "(d, tk) = (da, tka)" "(d', tk') = (dispatch_expire now da, tka)"
  have "entry_leads (d_fragments d i) (d_fragments (fold (expire_entry now) js d) i)" for js d
    by (rule expire_fold_rel) (auto simp: entry_leads_def)
  from this [of "da\<lparr>d_last_expire := now\<rparr>"] show ?thesis using eq by (simp add: dispatch_expire_def)
qed (auto simp: dispatch_release_def dispatch_stop_def)

lemma run_leads: "(dispatch_step vnet)\<^sup>*\<^sup>* (d, tk) r \<Longrightarrow> entry_leads (d_fragments d i) (d_fragments (fst r) i)"
  by (induction rule: rtranclp_induct) (use step_leads entry_leads_trans in \<open>auto simp: split_paired_all\<close>)

text \<open>A fragment meets its entry: an open one sends it to the entry's queue only, a closed one drops it.\<close>

lemma submit_fragment:
  assumes f: "flow_parse (drop vnet frame) (length frame - vnet) = Some (Some f)" "fl_fragmented f" "fragment_slot f = i"
    and e: "fe_used (d_fragments d i)"
  shows "fe_resolved (d_fragments d i) = 1 \<Longrightarrow> q \<noteq> fe_queue (d_fragments d i)
      \<Longrightarrow> d_rings (dispatch_submit vnet now frame d) q = d_rings d q"
    "fe_resolved (d_fragments d i) = 2 \<Longrightarrow> d_rings (dispatch_submit vnet now frame d) = d_rings d
       \<and> d_free (dispatch_submit vnet now frame d) = d_free d \<and> d_fragments (dispatch_submit vnet now frame d) = d_fragments d"
proof -
  let ?d' = "dispatch_locked vnet now f frame d" and ?e = "d_fragments d i"
  have gate: "fragment_gate now f q0 ?e = (d_fragments d2 i, g)"
    if "flow_queue f d = (d1, q0)" "frame_gate now f q0 d1 = (d2, g)" for d1 q0 d2 g
    using flow_queue_kept(3) [OF that(1)] frame_gate_kept(6) [OF that(2) f(2)] f(3) by simp
  have open_entry: "d_rings ?d' q = d_rings d q" if "fe_resolved ?e = 1" "q \<noteq> fe_queue ?e"
  proof (rule locked_cases [of f d now vnet frame])
    fix d1 q0 d2 q' s d3
    assume c: "flow_queue f d = (d1, q0)" "frame_gate now f q0 d1 = (d2, Some q')" "d_free d2 \<noteq> []"
      "fill_slot vnet frame d2 = Some (s, d3)" "dispatch_locked vnet now f frame d = place_slot f q' s d3"
    note g = gate [OF c(1,2)]
    have "q' = fe_queue ?e" using fragment_gate_entry(6,9) [OF g] that(1) by auto
    then show ?thesis
      using that(2) fill_slot_kept(2) [OF c(4)] frame_gate_kept(2) [OF c(2)] flow_queue_kept(4) [OF c(1)] by (simp add: c(5))
  qed (use flow_queue_kept(4) frame_gate_kept(2) in metis)
  have closed: "d_rings ?d' = d_rings d \<and> d_free ?d' = d_free d \<and> d_fragments ?d' = d_fragments d" if "fe_resolved ?e = 2"
  proof (rule locked_cases [of f d now vnet frame])
    fix d1 q0 d2 g
    assume c: "flow_queue f d = (d1, q0)" "frame_gate now f q0 d1 = (d2, g)" "?d' = d2"
    have "d_fragments d2 i = ?e" using fragment_gate_entry(7) [OF gate [OF c(1,2)] that e] by simp
    then have "d_fragments d2 = d_fragments d"
      using frame_gate_kept(5) [OF c(2)] flow_queue_kept(3) [OF c(1)] f(3) by (metis ext)
    then show ?thesis
      using c(3) frame_gate_kept(2,3) [OF c(2)] flow_queue_kept(4,5) [OF c(1)] by simp
  next
    fix d1 q0 d2 q' s d3
    assume c: "flow_queue f d = (d1, q0)" "frame_gate now f q0 d1 = (d2, Some q')"
    then show ?thesis using fragment_gate_entry(7) [OF gate [OF c] that e] by simp
  qed
  show "fe_resolved ?e = 1 \<Longrightarrow> q \<noteq> fe_queue ?e \<Longrightarrow> d_rings (dispatch_submit vnet now frame d) q = d_rings d q"
    using open_entry by (simp add: dispatch_submit_def f(1))
  show "fe_resolved ?e = 2 \<Longrightarrow> d_rings (dispatch_submit vnet now frame d) = d_rings d
       \<and> d_free (dispatch_submit vnet now frame d) = d_free d \<and> d_fragments (dispatch_submit vnet now frame d) = d_fragments d"
    using closed by (simp add: dispatch_submit_def f(1))
qed

text \<open>
  C21. The fragments of a datagram all go to one worker. A used fragment entry keeps its datagram and
  its deadline in every later state. Once its queue is known it keeps that queue or is closed, and as
  long as it keeps it, a fragment that meets the entry reaches no other queue. A closed entry is
  closed for good: every fragment that meets it is dropped, without a change to queues, slots or entries.
\<close>

theorem dispatch_fragments_together:
  assumes "(dispatch_step vnet)\<^sup>*\<^sup>* (d, tk) (d', tk')" "fe_used (d_fragments d i)"
  shows "fe_used (d_fragments d' i) \<and> fe_key (d_fragments d' i) = fe_key (d_fragments d i)
    \<and> fe_deadline (d_fragments d' i) = fe_deadline (d_fragments d i)
    \<and> (fe_resolved (d_fragments d i) = 1 \<longrightarrow> fe_resolved (d_fragments d' i) = 2
        \<or> fe_resolved (d_fragments d' i) = 1 \<and> fe_queue (d_fragments d' i) = fe_queue (d_fragments d i)
          \<and> (\<forall>now frame f q. flow_parse (drop vnet frame) (length frame - vnet) = Some (Some f) \<and> fl_fragmented f
               \<and> fragment_slot f = i \<and> q \<noteq> fe_queue (d_fragments d i) \<longrightarrow> d_rings (dispatch_submit vnet now frame d') q = d_rings d' q))
    \<and> (fe_resolved (d_fragments d i) = 2 \<longrightarrow> fe_resolved (d_fragments d' i) = 2
        \<and> (\<forall>now frame f. flow_parse (drop vnet frame) (length frame - vnet) = Some (Some f) \<and> fl_fragmented f
             \<and> fragment_slot f = i \<longrightarrow> d_rings (dispatch_submit vnet now frame d') = d_rings d'
               \<and> d_free (dispatch_submit vnet now frame d') = d_free d' \<and> d_fragments (dispatch_submit vnet now frame d') = d_fragments d'))"
proof -
  have l: "entry_leads (d_fragments d i) (d_fragments d' i)" using run_leads [OF assms(1)] by simp
  then have u: "fe_used (d_fragments d' i)" using assms(2) by (simp add: entry_leads_def)
  show ?thesis using l u assms(2) submit_fragment [OF _ _ _ u] by (auto simp: entry_leads_def)
qed

section \<open>The end\<close>

text \<open>The tokens of all slots in use are good.\<close>

definition tokens_live :: "dispatch \<Rightarrow> bool" where
  "tokens_live d \<longleftrightarrow> length (fp_frames (d_pool d)) = DISPATCH_FRAMES \<and> (\<forall>s<DISPATCH_FRAMES. f_state (fp_frames (d_pool d) ! s) = FRAME_FREE
     \<or> live d s FRAME_RECEIVED \<or> live d s FRAME_TRANSLATING)"

lemma retire_slot_free:
  assumes l: "tokens_live d" and i: "i < DISPATCH_FRAMES"
  shows "tokens_live (retire_slot i d) \<and> f_state (fp_frames (d_pool (retire_slot i d)) ! i) = FRAME_FREE
    \<and> (\<forall>s. f_state (fp_frames (d_pool d) ! s) = FRAME_FREE \<longrightarrow> f_state (fp_frames (d_pool (retire_slot i d)) ! s) = FRAME_FREE)
    \<and> fp_stopping (d_pool (retire_slot i d)) = fp_stopping (d_pool d)"
proof (cases "f_state (fp_frames (d_pool d) ! i) = FRAME_FREE")
  case True
  then show ?thesis using l by (simp add: retire_slot_def)
next
  case False
  have len: "i < length (fp_frames (d_pool d))" using l i by (simp add: tokens_live_def)
  obtain st where st: "live d i st" "st \<in> {FRAME_RECEIVED, FRAME_TRANSLATING}" using l i False by (auto simp: tokens_live_def)
  obtain f where f: "to_state i FRAME_FREE d = d\<lparr>d_pool := put_frame i f (d_pool d)\<rparr>" "f_state f = FRAME_FREE"
    using to_state_live(2) [OF st(1) len, of FRAME_FREE] st(2) by auto
  have d: "retire_slot i d = d\<lparr>d_pool := put_frame i f (d_pool d), d_free := i # d_free d\<rparr>"
    using False by (simp add: retire_slot_def dispatch_free_locked_def f(1))
  have s: "f_state (fp_frames (put_frame i f (d_pool d)) ! s) = FRAME_FREE" if "f_state (fp_frames (d_pool d) ! s) = FRAME_FREE" for s
    using that f(2) len by (cases "s = i") simp_all
  have "f_state (fp_frames (d_pool (retire_slot i d)) ! s) = FRAME_FREE \<or> live (retire_slot i d) s FRAME_RECEIVED
      \<or> live (retire_slot i d) s FRAME_TRANSLATING" if "s < DISPATCH_FRAMES" for s
  proof (cases "s = i")
    case False
    then show ?thesis using l that by (simp add: tokens_live_def live_def d)
  qed (use f(2) len d in simp)
  then show ?thesis using s l f(2) len unfolding tokens_live_def by (simp add: d)
qed

lemma retire_all:
  "tokens_live d \<Longrightarrow> \<forall>i\<in>set xs. i < DISPATCH_FRAMES \<Longrightarrow> tokens_live (fold retire_slot xs d)
    \<and> (\<forall>s. s \<in> set xs \<or> f_state (fp_frames (d_pool d) ! s) = FRAME_FREE \<longrightarrow> f_state (fp_frames (d_pool (fold retire_slot xs d)) ! s) = FRAME_FREE)
    \<and> fp_stopping (d_pool (fold retire_slot xs d)) = fp_stopping (d_pool d)"
proof (induction xs arbitrary: d)
  case (Cons x xs)
  then have x: "x < DISPATCH_FRAMES" by simp
  note r = retire_slot_free [OF Cons.prems(1) x]
  show ?case using Cons.IH [of "retire_slot x d"] r Cons.prems(2) by auto
qed simp

text \<open>
  C29. Once the dispatcher was stopped, destroying it frees every slot, wherever its frame was: in a
  queue, held, or still with a worker. The storage may then be given back.
\<close>

theorem dispatch_destroy_frees:
  assumes "dispatch_reach vnet (d, tk)" "d_stop d"
  shows "packet_frame_can_unmap (dispatch_destroy d)"
proof -
  have inv: "dispatch_inv [] (d, tk)" by (rule dispatch_reach_inv [OF assms(1)])
  have "f_state (fp_frames (d_pool d) ! s) = FRAME_FREE \<or> live d s FRAME_RECEIVED \<or> live d s FRAME_TRANSLATING"
    if "s < DISPATCH_FRAMES" for s
    using dispatch_invD(4) [OF inv that] by (auto simp: slot_ok_def split: if_split_asm)
  then have t: "tokens_live d" using dispatch_invD(3) [OF inv] by (simp add: tokens_live_def)
  let ?p = "d_pool (fold retire_slot [0..<DISPATCH_FRAMES] d)"
  have r: "length (fp_frames ?p) = DISPATCH_FRAMES" "\<forall>s<DISPATCH_FRAMES. f_state (fp_frames ?p ! s) = FRAME_FREE" "fp_stopping ?p"
    using retire_all [OF t, of "[0..<DISPATCH_FRAMES]"] dispatch_invD(5) [OF inv] assms(2) by (auto simp: tokens_live_def)
  have "f_state f = FRAME_FREE" if "f \<in> set (fp_frames ?p)" for f
    using that r(1,2) by (auto simp: in_set_conv_nth)
  then show ?thesis
    using r(3) by (simp add: dispatch_destroy_def Let_def packet_frame_backend_closed_def packet_frame_can_unmap_def list_all_iff in_kernel_def)
qed

end
