(* ===== verification/Flow_Laws.thy ===== *)
theory Flow_Laws
  imports Flow
begin

text \<open>
  What the classifier is for: both directions of a flow have the same hash, an ICMP error has the
  hash of the flow it is about, and all fragments of a datagram have the same key.
\<close>

section \<open>Ordered end points\<close>

lemma memcmp_total: "memcmp_le xs ys \<or> memcmp_le ys xs"
proof (induction xs ys rule: memcmp_le.induct)
  case (1 a as b bs)
  then show ?case by (cases "a = b") auto
qed simp_all

lemma memcmp_antisym: "memcmp_le xs ys \<Longrightarrow> memcmp_le ys xs \<Longrightarrow> length xs = length ys \<Longrightarrow> xs = ys"
proof (induction xs ys rule: memcmp_le.induct)
  case (1 a as b bs)
  then show ?case by (cases "a = b") auto
qed simp_all

lemma flow_key_sym: "length src = length dst \<Longrightarrow> flow_key family proto dst src = flow_key family proto src dst"
  using memcmp_total [of src dst] memcmp_antisym [of src dst] by (auto simp: flow_key_def)

section \<open>The reply\<close>

definition swap_at :: "nat \<Rightarrow> nat \<Rightarrow> u8 list \<Rightarrow> u8 list" where
  "swap_at i k p = take i p @ take k (drop (i + k) p) @ take k (drop i p) @ drop (i + 2 * k) p"

lemma length_swap [simp]: "i + 2 * k \<le> length p \<Longrightarrow> length (swap_at i k p) = length p"
  by (simp add: swap_at_def)

lemma swap_rds:
  assumes "i + 2 * k \<le> length p"
  shows "rds (swap_at i k p) i k = rds p (i + k) k" "rds (swap_at i k p) (i + k) k = rds p i k"
  using assms by (simp_all add: rds_def swap_at_def)

lemma swap_rds_other:
  assumes "i + 2 * k \<le> length p" "j + m \<le> i \<or> i + 2 * k \<le> j"
  shows "rds (swap_at i k p) j m = rds p j m"
proof (cases "j + m \<le> i")
  case True
  have t: "take m (drop j q) = drop j (take (m + j) (take i q))" for q :: "u8 list"
    using True by (simp add: take_drop min_def)
  have "take i (swap_at i k p) = take i p" using assms(1) by (simp add: swap_at_def)
  then have "take m (drop j (swap_at i k p)) = take m (drop j p)" by (simp only: t)
  then show ?thesis using assms(1) by (simp add: rds_def)
next
  case False
  then have "i + 2 * k \<le> j" using assms(2) by simp
  then have "drop j (swap_at i k p) = drop j p" using assms(1) by (simp add: swap_at_def)
  then show ?thesis using assms(1) by (simp add: rds_def)
qed

lemma rd_rds: "rd p i = map_option hd (rds p i 1)"
  by (simp add: rd_def rds_def hd_drop_conv_nth)

lemma swap_rd:
  assumes "i + 2 * k \<le> length p" "j < i \<or> i + 2 * k \<le> j"
  shows "rd (swap_at i k p) j = rd p j"
  unfolding rd_rds using swap_rds_other [OF assms(1), of j 1] assms(2) by auto

lemma swap_be16:
  assumes "i + 2 * k \<le> length p" "j + 1 < i \<or> i + 2 * k \<le> j"
  shows "flow_be16 (swap_at i k p) j = flow_be16 p j"
proof -
  have "rd (swap_at i k p) j = rd p j" "rd (swap_at i k p) (j + 1) = rd p (j + 1)"
    by (rule swap_rd [OF assms(1)], use assms(2) in linarith)+
  then show ?thesis by (simp only: flow_be16_def)
qed

text \<open>A packet with its addresses and ports exchanged.\<close>

definition reply :: "u8 list \<Rightarrow> u8 list" where
  "reply p =
     (if drop_bit 4 (hd p) = 4 then swap_at (unat (hd p AND 15) * 4) 2 (swap_at 12 4 p)
      else swap_at 40 2 (swap_at 8 16 p))"

definition mirrored :: "flow_head \<Rightarrow> flow_head" where
  "mirrored h = h\<lparr>fh_src := fh_dst h, fh_dst := fh_src h\<rparr>"

text \<open>The parts of an accepted IPv4 header.\<close>

lemma if_reject: "(if c then reject else x) = Some (Some h) \<longleftrightarrow> \<not> c \<and> x = Some (Some h)"
  by (simp add: reject_def)

lemma if_min: "(if a < b then a else b) = min a (b :: nat)"
  by (simp add: min_def)

lemma flow_ip4_Some:
  assumes "flow_ip4 outer p n = Some (Some h)"
  obtains b0 len proto src dst frag ident where
    "20 \<le> n" "rd p 0 = Some b0" "flow_be16 p 2 = Some len" "rd p 9 = Some proto" "rds p 12 4 = Some src"
    "rds p 16 4 = Some dst" "flow_be16 p 6 = Some frag" "rds p 4 2 = Some ident"
    "20 \<le> unat (b0 AND 15) * 4" "unat (b0 AND 15) * 4 \<le> n" "unat (b0 AND 15) * 4 \<le> unat len" "outer \<longrightarrow> unat len = n"
    "frag AND 0x8000 = 0"
    "frag AND 0x3fff \<noteq> 0 \<longrightarrow> frag AND 0x4000 = 0 \<and> (frag AND 0x2000 = 0 \<or> (min (unat len) n - unat (b0 AND 15) * 4) mod 8 = 0)"
    "h = \<lparr>fh_n = min (unat len) n, fh_off = unat (b0 AND 15) * 4, fh_proto = proto, fh_src = src, fh_dst = dst,
       fh_fragmented = (frag AND 0x3fff \<noteq> 0), fh_first = (frag AND 0x1fff = 0), fh_ident = ident, fh_next = proto\<rparr>"
proof -
  have "\<exists>b0 len proto src dst frag ident. 20 \<le> n \<and> rd p 0 = Some b0 \<and> flow_be16 p 2 = Some len \<and> rd p 9 = Some proto
      \<and> rds p 12 4 = Some src \<and> rds p 16 4 = Some dst \<and> flow_be16 p 6 = Some frag \<and> rds p 4 2 = Some ident
      \<and> 20 \<le> unat (b0 AND 15) * 4 \<and> unat (b0 AND 15) * 4 \<le> n \<and> unat (b0 AND 15) * 4 \<le> unat len \<and> (outer \<longrightarrow> unat len = n)
      \<and> frag AND 0x8000 = 0
      \<and> (frag AND 0x3fff \<noteq> 0 \<longrightarrow> frag AND 0x4000 = 0 \<and> (frag AND 0x2000 = 0 \<or> (min (unat len) n - unat (b0 AND 15) * 4) mod 8 = 0))
      \<and> h = \<lparr>fh_n = min (unat len) n, fh_off = unat (b0 AND 15) * 4, fh_proto = proto, fh_src = src, fh_dst = dst,
         fh_fragmented = (frag AND 0x3fff \<noteq> 0), fh_first = (frag AND 0x1fff = 0), fh_ident = ident, fh_next = proto\<rparr>"
    using assms unfolding flow_ip4_def Let_def if_min
      if_reject Option.bind_eq_Some_conv
    by (elim exE conjE) (intro exI conjI; force)
  then show ?thesis using that by (elim exE conjE)
qed

lemma flow_ip4_shape:
  assumes "flow_ip4 outer p n = Some (Some h)"
  shows "fh_n h \<le> n" "length (fh_src h) = 4" "length (fh_dst h) = 4" "rd p 9 = Some (fh_proto h)"
  by (rule flow_ip4_Some [OF assms], auto simp: rds_def split: if_split_asm)+

lemma flow_ip4_intro:
  assumes "20 \<le> n" "rd p 0 = Some b0" "flow_be16 p 2 = Some len" "rd p 9 = Some proto" "rds p 12 4 = Some src"
    "rds p 16 4 = Some dst" "flow_be16 p 6 = Some frag" "rds p 4 2 = Some ident"
    "20 \<le> unat (b0 AND 15) * 4" "unat (b0 AND 15) * 4 \<le> n" "unat (b0 AND 15) * 4 \<le> unat len" "outer \<longrightarrow> unat len = n"
    "frag AND 0x8000 = 0" "frag AND 0x3fff = 0"
  shows "flow_ip4 outer p n = Some (Some \<lparr>fh_n = min (unat len) n, fh_off = unat (b0 AND 15) * 4, fh_proto = proto,
    fh_src = src, fh_dst = dst, fh_fragmented = False, fh_first = (frag AND 0x1fff = 0), fh_ident = ident, fh_next = proto\<rparr>)"
  using assms by (auto simp: flow_ip4_def Let_def min_def)

lemma reply4_head:
  assumes h: "flow_ip4 outer p (length p) = Some (Some h)" and u: "\<not> fh_fragmented h"
    and f: "drop_bit 4 (hd p) = 4" and o: "fh_off h + 4 \<le> length p"
  shows "flow_ip4 outer (reply p) (length p) = Some (Some (mirrored h))" "rd (reply p) 0 = rd p 0" "length (reply p) = length p"
    "rds (reply p) (fh_off h) 2 = rds p (fh_off h + 2) 2" "rds (reply p) (fh_off h + 2) 2 = rds p (fh_off h) 2"
proof -
  obtain b0 len proto src dst frag ident where 1:
    "20 \<le> length p" "rd p 0 = Some b0" "flow_be16 p 2 = Some len" "rd p 9 = Some proto" "rds p 12 4 = Some src"
    "rds p 16 4 = Some dst" "flow_be16 p 6 = Some frag" "rds p 4 2 = Some ident"
    "20 \<le> unat (b0 AND 15) * 4" "unat (b0 AND 15) * 4 \<le> length p" "unat (b0 AND 15) * 4 \<le> unat len" "outer \<longrightarrow> unat len = length p"
    "frag AND 0x8000 = 0"
    "frag AND 0x3fff \<noteq> 0 \<longrightarrow> frag AND 0x4000 = 0 \<and> (frag AND 0x2000 = 0 \<or> (min (unat len) (length p) - unat (b0 AND 15) * 4) mod 8 = 0)"
    "h = \<lparr>fh_n = min (unat len) (length p), fh_off = unat (b0 AND 15) * 4, fh_proto = proto, fh_src = src, fh_dst = dst,
       fh_fragmented = (frag AND 0x3fff \<noteq> 0), fh_first = (frag AND 0x1fff = 0), fh_ident = ident, fh_next = proto\<rparr>"
    by (rule flow_ip4_Some [OF h], (rule that; assumption))
  let ?o = "unat (b0 AND 15) * 4" and ?q = "swap_at 12 4 p"
  have b: "hd p = b0" using 1(2) by (cases p) (simp_all add: rd_def)
  have off: "fh_off h = ?o" and fr: "frag AND 0x3fff = 0" using 1(15) u by simp_all
  have r: "reply p = swap_at ?o 2 ?q" using f by (simp add: reply_def b)
  have l: "12 + 2 * 4 \<le> length p" "?o + 2 * 2 \<le> length ?q" using 1(1) o off by simp_all
  have q: "rd (reply p) j = rd p j" if "j < 12" for j
    unfolding r using swap_rd [OF l(2), of j] swap_rd [OF l(1), of j] that 1(9) by simp
  have s: "rds (reply p) j m = rds ?q j m" if "j + m \<le> 20" for j m
    unfolding r by (rule swap_rds_other [OF l(2)]) (use that 1(9) in simp)
  have e: "flow_be16 (reply p) j = flow_be16 p j" if "j < 11" for j
    unfolding flow_be16_def using q that by simp
  have a: "rds (reply p) 12 4 = Some dst" "rds (reply p) 16 4 = Some src" "rds (reply p) 4 2 = Some ident"
    using swap_rds [OF l(1)] s [of 12 4] s [of 16 4] s [of 4 2] swap_rds_other [OF l(1), of 4 2] 1(5,6,8) by simp_all
  show "flow_ip4 outer (reply p) (length p) = Some (Some (mirrored h))"
    using flow_ip4_intro [of "length p" "reply p" b0 len proto dst src frag ident outer] 1 a q e fr
    by (simp add: mirrored_def)
  show "rd (reply p) 0 = rd p 0" by (rule q) simp
  show "length (reply p) = length p" using l by (simp add: r)
  show "rds (reply p) (fh_off h) 2 = rds p (fh_off h + 2) 2" "rds (reply p) (fh_off h + 2) 2 = rds p (fh_off h) 2"
    unfolding off r using swap_rds [OF l(2)] swap_rds_other [OF l(1), of ?o 2] swap_rds_other [OF l(1), of "?o + 2" 2] 1(9)
    by simp_all
qed

section \<open>A flow with ports\<close>

lemma end_point_length: "length src \<le> 16 \<Longrightarrow> length port = 2 \<Longrightarrow> length (end_point src port) = 18"
  by (simp add: end_point_def pad_def)

lemma rds_length: "rds p i k = Some bs \<Longrightarrow> length bs = k"
  by (auto simp: rds_def split: if_split_asm)

text \<open>The result for the head of an unfragmented packet.\<close>

lemma transport_ports:
  assumes "\<not> fh_fragmented h" "has_ports (fh_proto h)"
  shows "flow_transport quote family p h = Some (Some f) \<longleftrightarrow>
    fh_off h + 4 \<le> fh_n h \<and> (\<exists>s d. rds p (fh_off h) 2 = Some s \<and> rds p (fh_off h + 2) 2 = Some d \<and> f = flow_result family h True s d)"
  using assms by (auto simp: flow_transport_def reject_def Option.bind_eq_Some_conv)

lemma mirrored_simps [simp]:
  "fh_n (mirrored h) = fh_n h" "fh_off (mirrored h) = fh_off h" "fh_proto (mirrored h) = fh_proto h"
  "fh_src (mirrored h) = fh_dst h" "fh_dst (mirrored h) = fh_src h" "fh_fragmented (mirrored h) = fh_fragmented h"
  by (simp_all add: mirrored_def)

lemma result_mirrored:
  assumes "length (fh_src h) \<le> 16" "length (fh_dst h) \<le> 16" "length s = 2" "length d = 2"
  shows "fl_hash (flow_result family (mirrored h) True d s) = fl_hash (flow_result family h True s d)"
proof -
  have "length (end_point (fh_src h) s) = length (end_point (fh_dst h) d)" using assms by (simp add: end_point_length)
  from flow_key_sym [OF this] show ?thesis by (simp add: flow_result_def)
qed

definition flow_head_of :: "bool \<Rightarrow> u8 list \<Rightarrow> nat \<Rightarrow> flow_head option option" where
  "flow_head_of outer p n =
     (if drop_bit 4 (hd p) = 4 then flow_ip4 outer p n else if drop_bit 4 (hd p) = 6 then flow_ip6 outer p n else reject)"

lemma parse_depth_Some:
  "p \<noteq> [] \<Longrightarrow> n \<noteq> 0 \<Longrightarrow> flow_parse_depth quote p n = Some (Some f) \<longleftrightarrow>
    (\<exists>h. flow_head_of (quote \<noteq> None) p n = Some (Some h) \<and> flow_transport quote (drop_bit 4 (hd p)) p h = Some (Some f))"
  by (cases p) (auto simp: flow_parse_depth_def flow_head_of_def rd_def Let_def reject_def Option.bind_eq_Some_conv split: option.splits)

text \<open>An IPv6 header without extension headers.\<close>

lemma flow_ip6_plain:
  assumes "rd p 6 = Some proto" "\<not> is_ext proto"
  shows "flow_ip6 outer p n = Some (Some h) \<longleftrightarrow> 40 \<le> n \<and> (\<exists>pl src dst. flow_be16 p 4 = Some pl \<and> pl \<noteq> 0 \<and> (outer \<longrightarrow> 40 + unat pl = n)
    \<and> rds p 8 16 = Some src \<and> rds p 24 16 = Some dst
    \<and> h = \<lparr>fh_n = min (40 + unat pl) n, fh_off = 40, fh_proto = proto, fh_src = src, fh_dst = dst,
        fh_fragmented = False, fh_first = True, fh_ident = [], fh_next = 0\<rparr>)"
proof -
  have e: "flow_ext 8 False p h = Some (Some h)" if "fh_proto h = proto" for h
    using that assms(2) by (simp add: flow_ext.simps [of 8] Let_def)
  show ?thesis
    unfolding flow_ip6_def Let_def if_min if_reject Option.bind_eq_Some_conv by (auto simp: assms(1) e)
qed

lemma reply6_head:
  assumes h: "flow_ip6 outer p (length p) = Some (Some h)" and p: "rd p 6 = Some proto" "\<not> is_ext proto"
    and f: "drop_bit 4 (hd p) \<noteq> 4" and o: "44 \<le> length p"
  shows "flow_ip6 outer (reply p) (length p) = Some (Some (mirrored h))" "rd (reply p) 0 = rd p 0" "length (reply p) = length p"
    "rds (reply p) 40 2 = rds p 42 2" "rds (reply p) 42 2 = rds p 40 2"
proof -
  let ?q = "swap_at 8 16 p"
  have r: "reply p = swap_at 40 2 ?q" using f by (simp add: reply_def)
  have l: "8 + 2 * 16 \<le> length p" "40 + 2 * 2 \<le> length ?q" using o by simp_all
  have q: "rd (reply p) j = rd p j" if "j < 8" for j
    unfolding r using swap_rd [OF l(2), of j] swap_rd [OF l(1), of j] that by simp
  have s: "rds (reply p) j m = rds ?q j m" if "j + m \<le> 40" for j m
    unfolding r by (rule swap_rds_other [OF l(2)]) (use that in simp)
  have e: "flow_be16 (reply p) 4 = flow_be16 p 4" unfolding flow_be16_def using q by simp
  have a: "rds (reply p) 8 16 = rds p 24 16" "rds (reply p) 24 16 = rds p 8 16"
    using swap_rds [OF l(1)] s [of 8 16] s [of 24 16] by simp_all
  have p': "rd (reply p) 6 = Some proto" using q [of 6] p(1) by simp
  show "flow_ip6 outer (reply p) (length p) = Some (Some (mirrored h))"
    using h unfolding flow_ip6_plain [OF p] flow_ip6_plain [OF p' p(2)] e a by (auto simp: mirrored_def)
  show "rd (reply p) 0 = rd p 0" by (rule q) simp
  show "length (reply p) = length p" using l by (simp add: r)
  show "rds (reply p) 40 2 = rds p 42 2" "rds (reply p) 42 2 = rds p 40 2"
    unfolding r using swap_rds [OF l(2)] swap_rds_other [OF l(1), of 40 2] swap_rds_other [OF l(1), of 42 2] by simp_all
qed

text \<open>The protocol that the IP header names, and where that header ends.\<close>

definition proto_behind :: "u8 list \<Rightarrow> u8" where
  "proto_behind p = (if drop_bit 4 (hd p) = 4 then p ! 9 else p ! 6)"

definition header_length :: "u8 list \<Rightarrow> nat" where
  "header_length p = (if drop_bit 4 (hd p) = 4 then unat (hd p AND 15) * 4 else 40)"

lemma not_ext: "has_ports proto \<or> is_icmp_error proto type \<Longrightarrow> \<not> is_ext proto"
  by (auto simp: has_ports_def is_icmp_error_def is_ext_def)

lemma hd_rd: "rd p 0 = Some b \<Longrightarrow> hd p = b"
  by (cases p) (simp_all add: rd_def)

lemma plain_head:
  assumes h: "flow_head_of outer p n = Some (Some h)" and x: "\<not> is_ext (proto_behind p)" and n: "n \<le> length p"
  shows "fh_n h \<le> n \<and> (outer \<longrightarrow> fh_n h = n) \<and> fh_off h = header_length p \<and> fh_proto h = proto_behind p
    \<and> length (fh_src h) \<le> 16 \<and> length (fh_dst h) \<le> 16"
proof (cases "drop_bit 4 (hd p) = 4")
  case True
  then have e: "flow_ip4 outer p n = Some (Some h)" using h by (simp add: flow_head_of_def)
  show ?thesis
    by (rule flow_ip4_Some [OF e])
      (use True in \<open>auto simp: header_length_def proto_behind_def rd_def hd_conv_nth dest!: rds_length split: if_split_asm\<close>)
next
  case False
  then have e: "flow_ip6 outer p n = Some (Some h)" using h by (simp add: flow_head_of_def reject_def split: if_split_asm)
  then have "40 \<le> n" by (auto simp: flow_ip6_def reject_def split: if_split_asm)
  then have r: "rd p 6 = Some (p ! 6)" using n by (simp add: rd_def)
  have "\<not> is_ext (p ! 6)" using x False by (simp add: proto_behind_def)
  from e [unfolded flow_ip6_plain [OF r this]] show ?thesis
    using False by (auto simp: proto_behind_def header_length_def dest: rds_length)
qed

lemma icmp_fragmented: "flow_icmp quote family p h = Some (Some f) \<Longrightarrow> fl_fragmented f = fh_fragmented h"
proof -
  assume f: "flow_icmp quote family p h = Some (Some f)"
  have own: "fl_fragmented (if c then flow_result family h True i i else flow_result family h False [] []) = fh_fragmented h" for c i
    by (simp add: flow_result_def)
  have cs: "fl_fragmented (case q of
       Some x \<Rightarrow> if fl_transport x \<and> (\<not> fl_fragmented x \<or> fl_first x) then own\<lparr>fl_hash := fl_hash x, fl_transport := True\<rparr> else own
     | None \<Rightarrow> own) = fl_fragmented own" for q and own :: flow_packet
    by (simp split: option.split)
  from f show ?thesis
    unfolding flow_icmp_def Let_def Option.bind_eq_Some_conv option.inject by (elim exE conjE) (drule arg_cong [of _ _ fl_fragmented], simp only: cs own)
qed

lemma fragmented_eq: "flow_transport quote family p h = Some (Some f) \<Longrightarrow> fl_fragmented f = fh_fragmented h"
  by (auto simp: flow_transport_def reject_def flow_result_def later_fragment_def icmp_fragmented
      Option.bind_eq_Some_conv split: if_split_asm)

lemma parse_head:
  assumes "flow_parse_depth quote p n = Some (Some f)" "n \<le> length p" "\<not> fl_fragmented f"
  obtains h where "flow_head_of (quote \<noteq> None) p n = Some (Some h)" "\<not> fh_fragmented h"
    "flow_transport quote (drop_bit 4 (hd p)) p h = Some (Some f)" "p \<noteq> []" "n \<noteq> 0"
proof -
  have n: "p \<noteq> []" "n \<noteq> 0" using assms(1,2) by (auto simp: flow_parse_depth_def reject_def split: if_split_asm)
  from assms(1) obtain h where h: "flow_head_of (quote \<noteq> None) p n = Some (Some h)"
    and t: "flow_transport quote (drop_bit 4 (hd p)) p h = Some (Some f)"
    unfolding parse_depth_Some [OF n] by blast
  show ?thesis by (rule that [OF h _ t n]) (use fragmented_eq [OF t] assms(3) in simp)
qed

section \<open>Both directions\<close>

lemma reply_head:
  assumes h: "flow_head_of outer p (length p) = Some (Some h)" "\<not> fh_fragmented h" and x: "\<not> is_ext (proto_behind p)"
    and o: "fh_off h + 4 \<le> length p"
  shows "flow_head_of outer (reply p) (length p) = Some (Some (mirrored h)) \<and> hd (reply p) = hd p \<and> length (reply p) = length p
    \<and> rds (reply p) (fh_off h) 2 = rds p (fh_off h + 2) 2 \<and> rds (reply p) (fh_off h + 2) 2 = rds p (fh_off h) 2"
proof -
  have b: "rd p 0 = Some (hd p)" using o by (cases p) (simp_all add: rd_def)
  show ?thesis
  proof (cases "drop_bit 4 (hd p) = 4")
    case True
    then have e: "flow_ip4 outer p (length p) = Some (Some h)" using h by (simp add: flow_head_of_def)
    note r = reply4_head [OF e h(2) True o]
    have "hd (reply p) = hd p" using r(2) b by (metis hd_rd)
    then show ?thesis using r(4,5) by (simp add: flow_head_of_def True r(1,3))
  next
    case False
    then have e: "flow_ip6 outer p (length p) = Some (Some h)" using h by (simp add: flow_head_of_def reject_def split: if_split_asm)
    have off: "fh_off h = 40" using plain_head [OF h(1) x] False by (simp add: header_length_def)
    have n: "rd p 6 = Some (p ! 6)" "\<not> is_ext (p ! 6)" "44 \<le> length p"
      using o off x False by (simp_all add: rd_def proto_behind_def)
    note r = reply6_head [OF e n(1,2) False n(3)]
    have hd: "hd (reply p) = hd p" using r(2) b by (metis hd_rd)
    have "drop_bit 4 (hd p) = 6" using h(1) False by (simp add: flow_head_of_def reject_def split: if_split_asm)
    then show ?thesis by (simp add: flow_head_of_def hd off r(1,3,4,5))
  qed
qed

text \<open>
  C24. Both directions of a flow have the same hash: a whole packet of a protocol with ports, with
  IPv4 options or not, and the same packet with its addresses and its ports exchanged.
\<close>

theorem flow_directions_agree:
  assumes "flow_parse p (length p) = Some (Some f)" "\<not> fl_fragmented f" "has_ports (proto_behind p)"
  shows "\<exists>g. flow_parse (reply p) (length p) = Some (Some g) \<and> fl_hash g = fl_hash f \<and> fl_transport g"
proof -
  obtain h where h: "flow_head_of True p (length p) = Some (Some h)" "\<not> fh_fragmented h"
      "flow_transport (Some flow_parse_quoted) (drop_bit 4 (hd p)) p h = Some (Some f)" "p \<noteq> []"
    using parse_head [OF assms(1) [unfolded flow_parse_def] order_refl assms(2)] by auto
  have x: "\<not> is_ext (proto_behind p)" by (rule not_ext) (simp add: assms(3))
  note s = plain_head [OF h(1) x order_refl]
  then have p: "has_ports (fh_proto h)" using assms(3) by simp
  from h(3) [unfolded transport_ports [OF h(2) p]] obtain a b where
    a: "fh_off h + 4 \<le> fh_n h" "rds p (fh_off h) 2 = Some a" "rds p (fh_off h + 2) 2 = Some b"
      "f = flow_result (drop_bit 4 (hd p)) h True a b" by blast
  have "fh_off h + 4 \<le> length p" using a(1) s by simp
  note r = reply_head [OF h(1,2) x this]
  let ?g = "flow_result (drop_bit 4 (hd p)) (mirrored h) True b a"
  have "flow_transport (Some flow_parse_quoted) (drop_bit 4 (hd p)) (reply p) (mirrored h) = Some (Some ?g)"
    using transport_ports [of "mirrored h"] h(2) p r a by simp
  moreover have "reply p \<noteq> []" using r h(4) by auto
  ultimately have "flow_parse (reply p) (length p) = Some (Some ?g)"
    using parse_depth_Some [of "reply p" "length p" "Some flow_parse_quoted" ?g] r h(4) by (auto simp: flow_parse_def)
  moreover have "fl_hash ?g = fl_hash f" "fl_transport ?g"
    using result_mirrored [of h a b] s a rds_length by (auto simp: flow_result_def)
  ultimately show ?thesis by blast
qed

section \<open>ICMP errors\<close>

lemma take_reads:
  "j < k \<Longrightarrow> rd (take k p) j = rd p j"
  "j + 1 < k \<Longrightarrow> flow_be16 (take k p) j = flow_be16 p j"
  "j + m \<le> k \<Longrightarrow> rds (take k p) j m = rds p j m"
  by (auto simp: rd_def flow_be16_def rds_def drop_take min_def)

text \<open>The first \<open>k\<close> bytes of a packet, at least up to its ports, have its head.\<close>

lemma quoted_head:
  assumes h: "flow_head_of outer p (length p) = Some (Some h)" "\<not> fh_fragmented h" and x: "\<not> is_ext (proto_behind p)"
    and k: "fh_off h + 4 \<le> k" "k \<le> length p"
  shows "flow_head_of False (take k p) k = Some (Some (h\<lparr>fh_n := min (fh_n h) k\<rparr>))"
proof -
  have hd: "hd (take k p) = hd p" using k by (cases p) (auto simp: take_Cons split: nat.split)
  show ?thesis
  proof (cases "drop_bit 4 (hd p) = 4")
    case True
    then have e: "flow_ip4 outer p (length p) = Some (Some h)" using h by (simp add: flow_head_of_def)
    show ?thesis
    proof (rule flow_ip4_Some [OF e])
      fix b0 len proto src dst frag ident
      assume 1: "rd p 0 = Some b0" "flow_be16 p 2 = Some len" "rd p 9 = Some proto" "rds p 12 4 = Some src"
        "rds p 16 4 = Some dst" "flow_be16 p 6 = Some frag" "rds p 4 2 = Some ident"
        "20 \<le> unat (b0 AND 15) * 4" "unat (b0 AND 15) * 4 \<le> unat len" "frag AND 0x8000 = 0"
        and hh: "h = \<lparr>fh_n = min (unat len) (length p), fh_off = unat (b0 AND 15) * 4, fh_proto = proto, fh_src = src, fh_dst = dst,
          fh_fragmented = (frag AND 0x3fff \<noteq> 0), fh_first = (frag AND 0x1fff = 0), fh_ident = ident, fh_next = proto\<rparr>"
      have k': "24 \<le> k" "unat (b0 AND 15) * 4 \<le> k" using k 1(8) by (simp_all add: hh)
      have fr: "frag AND 0x3fff = 0" using h(2) by (simp add: hh)
      have "flow_ip4 False (take k p) k = Some (Some \<lparr>fh_n = min (unat len) k, fh_off = unat (b0 AND 15) * 4, fh_proto = proto,
        fh_src = src, fh_dst = dst, fh_fragmented = False, fh_first = (frag AND 0x1fff = 0), fh_ident = ident, fh_next = proto\<rparr>)"
        by (rule flow_ip4_intro) (use 1 k' fr in \<open>simp_all add: take_reads\<close>)
      then show ?thesis using k(2) True by (simp add: flow_head_of_def hd hh fr min.absorb2 min.assoc)
    qed
  next
    case False
    then have v6: "drop_bit 4 (hd p) = 6" using h by (simp add: flow_head_of_def reject_def split: if_split_asm)
    then have e: "flow_ip6 outer p (length p) = Some (Some h)" using h by (simp add: flow_head_of_def)
    have off: "fh_off h = 40" using plain_head [OF h(1) x order_refl] False by (simp add: header_length_def)
    have n: "rd p 6 = Some (p ! 6)" "\<not> is_ext (p ! 6)" "44 \<le> k"
      using k off x False by (simp_all add: rd_def proto_behind_def)
    have n': "rd (take k p) 6 = Some (p ! 6)" using n by (simp add: take_reads)
    have r: "flow_be16 (take k p) 4 = flow_be16 p 4" "rds (take k p) 8 16 = rds p 8 16" "rds (take k p) 24 16 = rds p 24 16"
      using n(3) by (simp_all add: take_reads)
    have "flow_ip6 False (take k p) k = Some (Some (h\<lparr>fh_n := min (fh_n h) k\<rparr>))"
      using e n(3) k(2) unfolding flow_ip6_plain [OF n(1,2)] flow_ip6_plain [OF n' n(2)] r
      by (auto simp: min.absorb2 min.assoc)
    then show ?thesis by (simp add: flow_head_of_def hd v6)
  qed
qed

text \<open>
  C25. An ICMP error about a packet goes the way of the packet: an unfragmented error of either
  version that quotes the packet at least up to its ports has the hash of the packet's flow.
\<close>

theorem flow_error_agrees:
  assumes "flow_parse p (length p) = Some (Some f)" "\<not> fl_fragmented f" "has_ports (proto_behind p)"
    and "flow_parse e (length e) = Some (Some g)" "\<not> fl_fragmented g" "is_icmp_error (proto_behind e) (e ! header_length e)"
    and "drop (header_length e + 8) e = take k p" "header_length p + 4 \<le> k" "k \<le> length p"
  shows "fl_hash g = fl_hash f \<and> fl_transport g"
proof -
  obtain h where h: "flow_head_of True p (length p) = Some (Some h)" "\<not> fh_fragmented h"
      "flow_transport (Some flow_parse_quoted) (drop_bit 4 (hd p)) p h = Some (Some f)" "p \<noteq> []"
    using parse_head [OF assms(1) [unfolded flow_parse_def] order_refl assms(2)] by auto
  have x: "\<not> is_ext (proto_behind p)" by (rule not_ext) (simp add: assms(3))
  note s = plain_head [OF h(1) x order_refl]
  then have p: "has_ports (fh_proto h)" using assms(3) by simp
  from h(3) [unfolded transport_ports [OF h(2) p]] obtain a b where
    a: "rds p (fh_off h) 2 = Some a" "rds p (fh_off h + 2) 2 = Some b" "f = flow_result (drop_bit 4 (hd p)) h True a b" by blast
  have k: "fh_off h + 4 \<le> k" using s assms(8) by simp
  let ?h = "h\<lparr>fh_n := min (fh_n h) k\<rparr>" and ?q = "take k p"
  let ?r = "flow_result (drop_bit 4 (hd p)) ?h True a b"
  have "flow_transport None (drop_bit 4 (hd p)) ?q ?h = Some (Some ?r)"
    using transport_ports [of ?h None "drop_bit 4 (hd p)" ?q ?r] h(2) p k s a assms(9) by (simp add: take_reads)
  moreover have "?q \<noteq> []" "k \<noteq> 0" "hd ?q = hd p" using k assms(9) h(4) by auto
  ultimately have q: "flow_parse_quoted ?q k = Some (Some ?r)"
    using quoted_head [OF h(1,2) x k assms(9)] parse_depth_Some [of ?q k None ?r] by (simp add: flow_parse_quoted_def)
  obtain i where i: "flow_head_of True e (length e) = Some (Some i)" "\<not> fh_fragmented i"
      "flow_transport (Some flow_parse_quoted) (drop_bit 4 (hd e)) e i = Some (Some g)"
    using parse_head [OF assms(4) [unfolded flow_parse_def] order_refl assms(5)] by auto
  have xe: "\<not> is_ext (proto_behind e)" using assms(6) not_ext by blast
  note t = plain_head [OF i(1) xe order_refl]
  have l: "length e = fh_off i + 8 + k" using arg_cong [OF assms(7), of length] k assms(9) t by simp
  have pr: "\<not> has_ports (fh_proto i)" "fh_proto i = 1 \<or> fh_proto i = 58" using assms(6) t by (auto simp: is_icmp_error_def has_ports_def)
  have rd: "rd e (fh_off i) = Some (e ! header_length e)" using l t by (simp add: rd_def)
  have "flow_icmp (Some flow_parse_quoted) (drop_bit 4 (hd e)) e i = Some (Some g)"
    using i(2,3) pr l t by (simp add: flow_transport_def)
  then show ?thesis using q assms(6) t rd l
    by (auto simp: flow_icmp_def Let_def Option.bind_eq_Some_conv assms(7) flow_result_def h(2) a(3))
qed

section \<open>Witnesses\<close>

text \<open>A DNS query, and the error that its destination port is unreachable.\<close>

definition query :: "u8 list" where
  "query = [0x45, 0, 0, 30, 0, 1, 0, 0, 64, 17, 0, 0, 10, 0, 0, 1, 192, 0, 2, 9, 0x12, 0x34, 0, 53, 0, 10, 0, 0, 7, 7]"

definition unreachable :: "u8 list" where
  "unreachable = [0x45, 0, 0, 56, 0, 9, 0, 0, 64, 1, 0, 0, 192, 0, 2, 9, 10, 0, 0, 1, 3, 3, 0, 0, 0, 0, 0, 0] @ take 28 query"

definition whole :: "flow_packet option option \<Rightarrow> bool" where
  "whole r \<longleftrightarrow> (case r of Some (Some f) \<Rightarrow> \<not> fl_fragmented f | _ \<Rightarrow> False)"

lemma whole_Some: "whole r \<Longrightarrow> \<exists>f. r = Some (Some f) \<and> \<not> fl_fragmented f"
  by (auto simp: whole_def split: option.splits)

lemma samples_whole: "whole (flow_parse query (length query))" "whole (flow_parse unreachable (length unreachable))"
  by code_simp+

lemma flow_directions_agree_witness:
  "\<exists>f g. flow_parse query 30 = Some (Some f) \<and> flow_parse (reply query) 30 = Some (Some g) \<and> fl_hash g = fl_hash f"
proof -
  obtain f where f: "flow_parse query (length query) = Some (Some f)" "\<not> fl_fragmented f"
    using whole_Some [OF samples_whole(1)] by blast
  have "has_ports (proto_behind query)" "length query = 30" by code_simp+
  then show ?thesis using flow_directions_agree [OF f] f(1) by auto
qed

lemma flow_error_agrees_witness:
  "\<exists>f g. flow_parse query 30 = Some (Some f) \<and> flow_parse unreachable 56 = Some (Some g) \<and> fl_hash g = fl_hash f"
proof -
  obtain f where f: "flow_parse query (length query) = Some (Some f)" "\<not> fl_fragmented f"
    using whole_Some [OF samples_whole(1)] by blast
  obtain g where g: "flow_parse unreachable (length unreachable) = Some (Some g)" "\<not> fl_fragmented g"
    using whole_Some [OF samples_whole(2)] by blast
  have "has_ports (proto_behind query)" "is_icmp_error (proto_behind unreachable) (unreachable ! header_length unreachable)"
    "drop (header_length unreachable + 8) unreachable = take 28 query" "header_length query + 4 \<le> 28" "28 \<le> length query"
    "length query = 30" "length unreachable = 56"
    by code_simp+
  then show ?thesis using flow_error_agrees [OF f _ g, of 28] f(1) g(1) by auto
qed

end
