(* ===== verification/Sample_Dispatch.thy ===== *)
theory Sample_Dispatch
  imports Dispatch_Laws Flow_Laws
begin

text \<open>
  The dispatcher's properties at concrete inputs: two workers, a DNS query and the first fragment
  of a datagram.
\<close>

definition started :: dispatch where
  "started = (case dispatch_init (Some 0) 2 of Some d \<Rightarrow> d | None \<Rightarrow> undefined)"

lemma started_init: "dispatch_init (Some 0) 2 = Some started"
proof -
  have "\<not> list_ex (\<lambda>f. f_storage f = None \<or> f_capacity f = 0) (dispatch_frames 0)" "dispatch_frames 0 \<noteq> []"
    by (simp_all add: dispatch_frames_def list_ex_iff RECV_BUF_SIZE_def DISPATCH_FRAMES_def)
  then have "\<exists>d. dispatch_init (Some 0) 2 = Some d"
    by (simp add: dispatch_init_def EXP_WORKERS_def packet_frame_pool_init_def)
  then show ?thesis by (auto simp: started_def)
qed

lemma started_reach: "dispatch_reach vnet (started, [])"
  by (rule dispatch_reach.init [OF started_init])

lemma init_fields:
  assumes "dispatch_init (Some a) workers = Some d"
  shows "packet_frame_pool_init (dispatch_frames a) 1 = Inr (d_pool d)" "d_free d = rev [0..<DISPATCH_FRAMES]"
    "d_stop d = False" "d_fragments d = (\<lambda>_. no_fragment)" "d_workers d = workers"
  using assms by (auto simp: dispatch_init_def split: if_split_asm sum.splits)

lemma pool_init_frames:
  "packet_frame_pool_init fs identity = Inr p
   \<Longrightarrow> fp_frames p = map (\<lambda>f. f\<lparr>f_offset := 0, f_length := 0, f_generation := 0, f_state := FRAME_FREE\<rparr>) fs"
  by (auto simp: packet_frame_pool_init_def split: if_split_asm)

lemma started_fields:
  "d_free started = 511 # rev [0..<511]" "d_stop started = False" "d_fragments started i = no_fragment" "d_workers started = 2"
  "f_generation (fp_frames (d_pool started) ! 511) = 0"
proof -
  note f = init_fields [OF started_init]
  have "[0..<512] = [0..<511] @ [511]" using upt_Suc_append [of 0 511] by simp
  then show "d_free started = 511 # rev [0..<511]" using f(2) by (simp add: DISPATCH_FRAMES_def)
  show "d_stop started = False" "d_fragments started i = no_fragment" "d_workers started = 2" by (simp_all add: f(3-5))
  show "f_generation (fp_frames (d_pool started) ! 511) = 0"
    using pool_init_frames [OF f(1)] by (simp add: dispatch_frames_def DISPATCH_FRAMES_def)
qed

text \<open>The query submitted, and a first fragment with the ports of a flow.\<close>

definition queried :: dispatch where
  "queried = dispatch_submit 0 100 query started"

definition first_piece :: "u8 list" where
  "first_piece = [0x45, 0, 0, 36, 0, 44, 0x20, 0, 64, 17, 0, 0, 192, 0, 2, 1, 192, 0, 2, 9, 0x10, 0xe1, 0, 53, 0, 40, 0, 0, 1, 2, 3, 4, 5, 6, 7, 8]"

definition pieced :: dispatch where
  "pieced = dispatch_submit 0 100 first_piece started"

lemma sample_lengths: "length query = 30" "length first_piece = 36" "30 + HEADROOM \<le> RECV_BUF_SIZE" "36 + HEADROOM \<le> RECV_BUF_SIZE"
  by (simp_all add: query_def first_piece_def RECV_BUF_SIZE_def)

lemma queried_reach: "dispatch_reach 0 (queried, [])"
  unfolding queried_def by (rule dispatch_reach.step [OF started_reach dispatch_step.submit]) (simp add: sample_lengths)

lemma query_flow: "\<exists>f. flow_parse query 30 = Some (Some f) \<and> fl_transport f \<and> \<not> fl_fragmented f"
proof -
  have "case flow_parse query 30 of Some (Some f) \<Rightarrow> fl_transport f \<and> \<not> fl_fragmented f | _ \<Rightarrow> False" by code_simp
  then show ?thesis by (auto split: option.splits)
qed

lemma piece_flow: "\<exists>f. flow_parse first_piece 36 = Some (Some f) \<and> fl_transport f \<and> fl_fragmented f \<and> fl_first f"
proof -
  have "case flow_parse first_piece 36 of Some (Some f) \<Rightarrow> fl_transport f \<and> fl_fragmented f \<and> fl_first f | _ \<Rightarrow> False" by code_simp
  then show ?thesis by (auto split: option.splits)
qed

lemma dispatch_slots_witness:
  "mset (d_free queried) + (\<Sum>q<EXP_WORKERS. mset (ring_list (d_rings queried q)))
     + (\<Sum>i<DISPATCH_FRAGMENTS. mset (fe_held (d_fragments queried i))) + mset [] = mset [0..<DISPATCH_FRAMES]"
  using dispatch_slots [OF queried_reach] by blast

lemma dispatch_flow_order_witness:
  "\<exists>f q. flow_parse query 30 = Some (Some f) \<and> d_flow_queues (dispatch_stop queried) (flow_bucket f) = q + 1
    \<and> (\<forall>q'. q' \<noteq> q \<longrightarrow> d_rings queried q' = d_rings started q')"
proof -
  obtain f where f: "flow_parse query 30 = Some (Some f)" "fl_transport f" "\<not> fl_fragmented f" using query_flow by blast
  have "(dispatch_step 0)\<^sup>*\<^sup>* (queried, []) (dispatch_stop queried, [])" using dispatch_step.stop by blast
  moreover have "0 < length query" "length query + HEADROOM \<le> RECV_BUF_SIZE + 0"
    "flow_parse (drop 0 query) (length query - 0) = Some (Some f)" using f(1) by (simp_all add: sample_lengths)
  note dispatch_flow_order [OF started_reach this f(2,3) queried_def]
  ultimately show ?thesis using f(1) by blast
qed

lemma piece_conditions:
  "0 < length first_piece" "length first_piece + HEADROOM \<le> RECV_BUF_SIZE + 0" "\<not> d_stop started"
  "\<not> fe_used (d_fragments started i) \<or> fe_key (d_fragments started i) = fl_key f \<and> 100 < fe_deadline (d_fragments started i)
     \<and> fe_resolved (d_fragments started i) = 0"
  "f_generation (fp_frames (d_pool started) ! 511) \<noteq> 0xffffffffffffffff"
  by (simp_all add: sample_lengths started_fields no_fragment_def)

lemma dispatch_first_fragment_witness:
  "\<exists>q. ring_list (d_rings pieced q) = ring_list (d_rings started q) @ [511] \<and> d_data pieced 511 = first_piece"
proof -
  obtain f where f: "flow_parse first_piece 36 = Some (Some f)" "fl_transport f" "fl_fragmented f" "fl_first f" using piece_flow by blast
  then have p: "flow_parse (drop 0 first_piece) (length first_piece - 0) = Some (Some f)" by (simp add: sample_lengths)
  note c = piece_conditions
  show ?thesis
    using dispatch_first_fragment [OF started_reach c(1,2) p f(3) refl refl c(4) started_fields(1) c(3,5) refl] f(2,4)
    by (auto simp: pieced_def started_fields no_fragment_def)
qed

lemma dispatch_fragments_together_witness:
  "\<exists>i. fe_resolved (d_fragments pieced i) = 1 \<and> fe_key (d_fragments (dispatch_expire 500 pieced) i) = fe_key (d_fragments pieced i)"
proof -
  obtain f where f: "flow_parse first_piece 36 = Some (Some f)" "fl_transport f" "fl_fragmented f" "fl_first f" using piece_flow by blast
  then have p: "flow_parse (drop 0 first_piece) (length first_piece - 0) = Some (Some f)" by (simp add: sample_lengths)
  let ?i = "fragment_slot f"
  note c = piece_conditions
  have e: "fe_resolved (d_fragments pieced ?i) = 1"
    using first_fragment_queued [OF started_reach c(1,2) p f(3) refl c(4) started_fields(1) c(3,5) f(2,4) refl] by (auto simp: pieced_def)
  have r: "dispatch_reach 0 (pieced, [])"
    unfolding pieced_def by (rule dispatch_reach.step [OF started_reach dispatch_step.submit]) (simp add: sample_lengths)
  have u: "fe_used (d_fragments pieced ?i)" using dispatch_invD(11) [OF dispatch_reach_inv [OF r], of ?i] e by auto
  have "(dispatch_step 0)\<^sup>*\<^sup>* (pieced, []) (dispatch_expire 500 pieced, [])" using dispatch_step.expire by blast
  from dispatch_fragments_together [OF this u] e show ?thesis by blast
qed

lemma dispatch_destroy_frees_witness: "packet_frame_can_unmap (dispatch_destroy (dispatch_stop queried))"
proof -
  have r: "dispatch_reach 0 (dispatch_stop queried, [])" by (rule dispatch_reach.step [OF queried_reach dispatch_step.stop])
  show ?thesis by (rule dispatch_destroy_frees [OF r]) (simp add: dispatch_stop_def)
qed

end
