(* ===== verification/Pref64.thy ===== *)
theory Pref64
  imports Prelude
begin

text \<open>
  Discovery of the translation prefix in \<open>src/src/helpers/pref64-discover.c\<close>: \<open>extract_pref64\<close>
  finds the prefix in a synthesized address of a well-known IPv4 address (RFC 7050) and
  \<open>synthesize_pref64\<close> puts an IPv4 address behind a prefix (RFC 6052). An address is the list of
  its 16 bytes.
\<close>

unbundle bit_operations_syntax

section \<open>Operations\<close>

definition wka1 :: "u8 list" where "wka1 = [192, 0, 0, 170]"

definition wka2 :: "u8 list" where "wka2 = [192, 0, 0, 171]"

definition match_v4 :: "u8 list \<Rightarrow> nat list \<Rightarrow> bool" where
  "match_v4 b is \<longleftrightarrow> map ((!) b) is = wka1 \<or> map ((!) b) is = wka2"

text \<open>Unspecified and IPv4-compatible, IPv4-mapped, multicast and link-local addresses.\<close>

definition excluded :: "u8 list \<Rightarrow> bool" where
  "excluded b \<longleftrightarrow> list_all ((=) 0) (take 10 b) \<and> (b ! 10 = 0 \<and> b ! 11 = 0 \<or> b ! 10 = 0xff \<and> b ! 11 = 0xff)
     \<or> b ! 0 = 0xff \<or> b ! 0 = 0xfe \<and> b ! 1 AND 0xc0 = 0x80"

definition zero_from :: "nat \<Rightarrow> u8 list \<Rightarrow> u8 list" where
  "zero_from k b = take k b @ replicate (16 - k) 0"

definition pref64_found :: "u8 list \<Rightarrow> nat \<Rightarrow> nat \<Rightarrow> (u8 list \<times> nat) option" where
  "pref64_found b k len = (if list_all ((=) 0) (zero_from k b) then None else Some (zero_from k b, len))"

definition extract_pref64 :: "u8 list \<Rightarrow> (u8 list \<times> nat) option" where
  "extract_pref64 b =
     (if excluded b then None
      else if match_v4 b [12, 13, 14, 15] then pref64_found b 12 96
      else if match_v4 b [9, 10, 11, 12] then pref64_found b 8 64
      else if match_v4 b [7, 9, 10, 11] then pref64_found b 7 56
      else if match_v4 b [6, 7, 9, 10] then pref64_found b 6 48
      else if match_v4 b [5, 6, 7, 9] then pref64_found b 5 40
      else if match_v4 b [4, 5, 6, 7] then pref64_found b 4 32
      else None)"

definition synthesize_pref64 :: "u8 list \<Rightarrow> nat \<Rightarrow> u8 list \<Rightarrow> u8 list option" where
  "synthesize_pref64 p len v =
     (if len = 96 then Some (take 12 p @ v)
      else if len = 64 then Some (take 8 p @ [0, v ! 0, v ! 1, v ! 2, v ! 3, 0, 0, 0])
      else if len = 56 then Some (take 7 p @ [v ! 0, 0, v ! 1, v ! 2, v ! 3, 0, 0, 0, 0])
      else if len = 48 then Some (take 6 p @ [v ! 0, v ! 1, 0, v ! 2, v ! 3, 0, 0, 0, 0, 0])
      else if len = 40 then Some (take 5 p @ [v ! 0, v ! 1, v ! 2, 0, v ! 3, 0, 0, 0, 0, 0, 0])
      else if len = 32 then Some (take 4 p @ [v ! 0, v ! 1, v ! 2, v ! 3, 0, 0, 0, 0, 0, 0, 0, 0])
      else None)"

section \<open>Round trip\<close>

definition pref64_len :: "nat \<Rightarrow> bool" where
  "pref64_len len \<longleftrightarrow> len \<in> {32, 40, 48, 56, 64, 96}"

lemma bytes16:
  "length (p :: 'a list) = 16 \<Longrightarrow> \<exists>p0 p1 p2 p3 p4 p5 p6 p7 p8 p9 p10 p11 p12 p13 p14 p15.
    p = [p0, p1, p2, p3, p4, p5, p6, p7, p8, p9, p10, p11, p12, p13, p14, p15]"
  by (auto simp: numeral_eq_Suc length_Suc_conv)

lemma synthesize_length:
  "length p = 16 \<Longrightarrow> length v = 4 \<Longrightarrow> synthesize_pref64 p len v = Some a \<Longrightarrow> length a = 16"
  by (auto simp: synthesize_pref64_def split: if_split_asm)

lemma synthesize_Some: "synthesize_pref64 p len v \<noteq> None \<longleftrightarrow> pref64_len len"
  by (auto simp: synthesize_pref64_def pref64_len_def)

text \<open>The steps of \<open>extract_pref64\<close>.\<close>

lemma extract_at:
  assumes "\<not> excluded a" "\<not> list_all ((=) 0) (zero_from (len div 8) p)"
    and "match_v4 a [12, 13, 14, 15] \<longleftrightarrow> len = 96" "len \<le> 64 \<Longrightarrow> match_v4 a [9, 10, 11, 12] \<longleftrightarrow> len = 64"
    "len \<le> 56 \<Longrightarrow> match_v4 a [7, 9, 10, 11] \<longleftrightarrow> len = 56" "len \<le> 48 \<Longrightarrow> match_v4 a [6, 7, 9, 10] \<longleftrightarrow> len = 48"
    "len \<le> 40 \<Longrightarrow> match_v4 a [5, 6, 7, 9] \<longleftrightarrow> len = 40" "len \<le> 32 \<Longrightarrow> match_v4 a [4, 5, 6, 7] \<longleftrightarrow> len = 32"
    and "pref64_len len" "take (len div 8) a = take (len div 8) p"
  shows "extract_pref64 a = Some (zero_from (len div 8) p, len)"
proof -
  have z: "zero_from (len div 8) a = zero_from (len div 8) p" using assms(10) by (simp add: zero_from_def)
  show ?thesis using assms(1-8) assms(9) unfolding pref64_len_def insert_iff empty_iff
    by (elim disjE) (use z in \<open>simp_all add: extract_pref64_def pref64_found_def\<close>)
qed

lemma match_word: "match_v4 b is \<longleftrightarrow> map ((!) b) is = [192, 0, 0, 170] \<or> map ((!) b) is = [192, 0, 0, 171]"
  by (simp add: match_v4_def wka1_def wka2_def)

lemma extract_synthesized:
  assumes p: "length p = 16" "pref64_len len" "\<not> excluded (zero_from (len div 8) p)" and v: "v = wka1 \<or> v = wka2"
    and a: "synthesize_pref64 p len v = Some a"
  shows "extract_pref64 a = Some (zero_from (len div 8) p, len)"
proof -
  obtain p0 p1 p2 p3 p4 p5 p6 p7 p8 p9 p10 p11 p12 p13 p14 p15 where
    e: "p = [p0, p1, p2, p3, p4, p5, p6, p7, p8, p9, p10, p11, p12, p13, p14, p15]"
    using bytes16 [OF p(1)] by blast
  have z: "zero_from 4 p = [p0, p1, p2, p3, 0, 0, 0, 0, 0, 0, 0, 0, 0, 0, 0, 0]"
    "zero_from 5 p = [p0, p1, p2, p3, p4, 0, 0, 0, 0, 0, 0, 0, 0, 0, 0, 0]"
    "zero_from 6 p = [p0, p1, p2, p3, p4, p5, 0, 0, 0, 0, 0, 0, 0, 0, 0, 0]"
    "zero_from 7 p = [p0, p1, p2, p3, p4, p5, p6, 0, 0, 0, 0, 0, 0, 0, 0, 0]"
    "zero_from 8 p = [p0, p1, p2, p3, p4, p5, p6, p7, 0, 0, 0, 0, 0, 0, 0, 0]"
    "zero_from 12 p = [p0, p1, p2, p3, p4, p5, p6, p7, p8, p9, p10, p11, 0, 0, 0, 0]"
    by (simp_all add: zero_from_def e numeral_eq_Suc)
  obtain w where w: "v = [192, 0, 0, w]" "w = 170 \<or> w = 171" using v by (auto simp: wka1_def wka2_def)
  from p(2) consider "len = 32" | "len = 40" | "len = 48" | "len = 56" | "len = 64" | "len = 96"
    by (auto simp: pref64_len_def)
  then show ?thesis
  proof cases
    case 1
    have "a = [p0, p1, p2, p3, 192, 0, 0, w, 0, 0, 0, 0, 0, 0, 0, 0]" using a by (simp add: synthesize_pref64_def 1 w(1) e)
    note a = this
    show ?thesis
    proof (rule extract_at)
      have "\<not> excluded [p0, p1, p2, p3, 0, 0, 0, 0, 0, 0, 0, 0, 0, 0, 0, 0]" using p(3) by (simp add: 1 z)
      then show "\<not> excluded a" "\<not> list_all ((=) 0) (zero_from (len div 8) p)" by (auto simp: 1 a z excluded_def)
    qed (use w(2) in \<open>auto simp: match_word a 1 pref64_len_def e\<close>)
  next
    case 2
    have "a = [p0, p1, p2, p3, p4, 192, 0, 0, 0, w, 0, 0, 0, 0, 0, 0]" using a by (simp add: synthesize_pref64_def 2 w(1) e)
    note a = this
    show ?thesis
    proof (rule extract_at)
      have "\<not> excluded [p0, p1, p2, p3, p4, 0, 0, 0, 0, 0, 0, 0, 0, 0, 0, 0]" using p(3) by (simp add: 2 z)
      then show "\<not> excluded a" "\<not> list_all ((=) 0) (zero_from (len div 8) p)" by (auto simp: 2 a z excluded_def)
    qed (use w(2) in \<open>auto simp: match_word a 2 pref64_len_def e\<close>)
  next
    case 3
    have "a = [p0, p1, p2, p3, p4, p5, 192, 0, 0, 0, w, 0, 0, 0, 0, 0]" using a by (simp add: synthesize_pref64_def 3 w(1) e)
    note a = this
    show ?thesis
    proof (rule extract_at)
      have "\<not> excluded [p0, p1, p2, p3, p4, p5, 0, 0, 0, 0, 0, 0, 0, 0, 0, 0]" using p(3) by (simp add: 3 z)
      then show "\<not> excluded a" "\<not> list_all ((=) 0) (zero_from (len div 8) p)" by (auto simp: 3 a z excluded_def)
    qed (use w(2) in \<open>auto simp: match_word a 3 pref64_len_def e\<close>)
  next
    case 4
    have "a = [p0, p1, p2, p3, p4, p5, p6, 192, 0, 0, 0, w, 0, 0, 0, 0]" using a by (simp add: synthesize_pref64_def 4 w(1) e)
    note a = this
    show ?thesis
    proof (rule extract_at)
      have "\<not> excluded [p0, p1, p2, p3, p4, p5, p6, 0, 0, 0, 0, 0, 0, 0, 0, 0]" using p(3) by (simp add: 4 z)
      then show "\<not> excluded a" "\<not> list_all ((=) 0) (zero_from (len div 8) p)" by (auto simp: 4 a z excluded_def)
    qed (use w(2) in \<open>auto simp: match_word a 4 pref64_len_def e\<close>)
  next
    case 5
    have "a = [p0, p1, p2, p3, p4, p5, p6, p7, 0, 192, 0, 0, w, 0, 0, 0]" using a by (simp add: synthesize_pref64_def 5 w(1) e)
    note a = this
    show ?thesis
    proof (rule extract_at)
      have "\<not> excluded [p0, p1, p2, p3, p4, p5, p6, p7, 0, 0, 0, 0, 0, 0, 0, 0]" using p(3) by (simp add: 5 z)
      then show "\<not> excluded a" "\<not> list_all ((=) 0) (zero_from (len div 8) p)" by (auto simp: 5 a z excluded_def)
    qed (use w(2) in \<open>auto simp: match_word a 5 pref64_len_def e\<close>)
  next
    case 6
    have "a = [p0, p1, p2, p3, p4, p5, p6, p7, p8, p9, p10, p11, 192, 0, 0, w]" using a by (simp add: synthesize_pref64_def 6 w(1) e)
    note a = this
    show ?thesis
    proof (rule extract_at)
      have "\<not> excluded [p0, p1, p2, p3, p4, p5, p6, p7, p8, p9, p10, p11, 0, 0, 0, 0]" using p(3) by (simp add: 6 z)
      then show "\<not> excluded a" "\<not> list_all ((=) 0) (zero_from (len div 8) p)" by (auto simp: 6 a z excluded_def)
    qed (use w(2) in \<open>auto simp: match_word a 6 pref64_len_def e\<close>)
  qed
qed

end
