(* ===== verification/Pref64_Laws.thy ===== *)
theory Pref64_Laws
  imports Pref64 Rfc6052
begin

text \<open>
  The helper's synthesis and the translator's own embedding are the same function.
\<close>

lemma le_bytes4: "le_bytes 4 (w :: u32) = [ucast w, ucast (drop_bit 8 w), ucast (drop_bit 16 w), ucast (drop_bit 24 w)]"
  by (simp add: le_bytes_def eval_nat_numeral)

lemma byte_or: "(ucast (drop_bit n (x OR y)) :: u8) = ucast (drop_bit n x) OR ucast (drop_bit n (y :: u32))"
  by (rule bit_word_eqI) (simp add: bit_simps)

lemma bytes_push:
  "le_bytes 4 (push_bit 8 (y :: u32)) = 0 # take 3 (le_bytes 4 y)"
  "le_bytes 4 (push_bit 16 (y :: u32)) = [0, 0] @ take 2 (le_bytes 4 y)"
  "le_bytes 4 (push_bit 24 (y :: u32)) = [0, 0, 0] @ take 1 (le_bytes 4 y)"
  unfolding le_bytes4 by (auto intro!: bit_word_eqI simp: bit_simps)

lemma byte_and: "(ucast (drop_bit n (x AND y)) :: u8) = ucast (drop_bit n x) AND ucast (drop_bit n (y :: u32))"
  by (rule bit_word_eqI) (simp add: bit_simps)

lemma bytes_or: "le_bytes 4 (x OR (y :: u32)) = map2 (OR) (le_bytes 4 x) (le_bytes 4 y)"
  using byte_or [of 0 x y] by (simp add: le_bytes4 byte_or del: drop_bit_or)

lemma bytes_and: "le_bytes 4 (x AND (y :: u32)) = map2 (AND) (le_bytes 4 x) (le_bytes 4 y)"
  using byte_and [of 0 x y] by (simp add: le_bytes4 byte_and del: drop_bit_and)

lemma mask_bytes:
  "le_bytes 4 (0x0000ff00 :: u32) = [0, - 1, 0, 0]" "le_bytes 4 (0x00ffff00 :: u32) = [0, - 1, - 1, 0]"
  "le_bytes 4 (0xffffff00 :: u32) = [0, - 1, - 1, - 1]"
  by (simp_all add: le_bytes4)

lemma bytes_drop:
  fixes y :: u32
  shows "le_bytes 4 (drop_bit 8 y) = drop 1 (le_bytes 4 y) @ [0]" "le_bytes 4 (drop_bit 16 y) = drop 2 (le_bytes 4 y) @ [0, 0]"
    "le_bytes 4 (drop_bit 24 y) = drop 3 (le_bytes 4 y) @ [0, 0, 0]"
  unfolding le_bytes4 by (auto intro!: bit_word_eqI simp: bit_simps dest: bit_imp_le_length)

lemma bytes_zero: "le_bytes 4 (0 :: u32) = [0, 0, 0, 0]"
  by (simp add: le_bytes4)

text \<open>The words of the embedded address.\<close>

lemma append_words:
  assumes "append_to_prefix strict y p len = Inr a"
  shows "len = 32 \<Longrightarrow> a = \<lparr>a0 = a0 p, a1 = y, a2 = 0, a3 = 0\<rparr>"
    "len = 40 \<Longrightarrow> a = \<lparr>a0 = a0 p, a1 = a1 p OR push_bit 8 y, a2 = drop_bit 16 y AND 0x0000ff00, a3 = 0\<rparr>"
    "len = 48 \<Longrightarrow> a = \<lparr>a0 = a0 p, a1 = a1 p OR push_bit 16 y, a2 = drop_bit 8 y AND 0x00ffff00, a3 = 0\<rparr>"
    "len = 56 \<Longrightarrow> a = \<lparr>a0 = a0 p, a1 = a1 p OR push_bit 24 y, a2 = y AND 0xffffff00, a3 = 0\<rparr>"
    "len = 64 \<Longrightarrow> a = \<lparr>a0 = a0 p, a1 = a1 p, a2 = push_bit 8 y, a3 = drop_bit 24 y\<rparr>"
    "len = 96 \<Longrightarrow> a = \<lparr>a0 = a0 p, a1 = a1 p, a2 = a2 p, a3 = y\<rparr>" "pref64_len len"
  using assms by (simp_all add: append_to_prefix_def pref64_len_def split: if_split_asm)

lemma synthesize_translator:
  assumes a: "append_to_prefix strict addr4 prefix len = Inr a" and p: "zero_from (len div 8) (in6_bytes prefix) = in6_bytes prefix"
  shows "synthesize_pref64 (in6_bytes prefix) len (le_bytes 4 addr4) = Some (in6_bytes a)"
proof -
  obtain y0 y1 y2 y3 where y: "le_bytes 4 addr4 = [y0, y1, y2, y3]" by (simp add: le_bytes4)
  obtain v0 v1 v2 v3 where x0: "le_bytes 4 (a0 prefix) = [v0, v1, v2, v3]" by (simp add: le_bytes4)
  obtain x0 x1 x2 x3 where x1: "le_bytes 4 (a1 prefix) = [x0, x1, x2, x3]" by (simp add: le_bytes4)
  obtain z0 z1 z2 z3 where x2: "le_bytes 4 (a2 prefix) = [z0, z1, z2, z3]" by (simp add: le_bytes4)
  obtain w0 w1 w2 w3 where x3: "le_bytes 4 (a3 prefix) = [w0, w1, w2, w3]" by (simp add: le_bytes4)
  have ip: "in6_bytes prefix = [v0, v1, v2, v3, x0, x1, x2, x3, z0, z1, z2, z3, w0, w1, w2, w3]"
    by (simp add: in6_bytes_def x0 x1 x2 x3)
  note b = in6_bytes_def x0 x1 x2 x3 bytes_push bytes_or bytes_zero bytes_and mask_bytes bytes_drop y
  have z: "replicate 12 (0 :: u8) = [0, 0, 0, 0, 0, 0, 0, 0, 0, 0, 0, 0]" "replicate 11 (0 :: u8) = [0, 0, 0, 0, 0, 0, 0, 0, 0, 0, 0]"
    "replicate 10 (0 :: u8) = [0, 0, 0, 0, 0, 0, 0, 0, 0, 0]" "replicate 9 (0 :: u8) = [0, 0, 0, 0, 0, 0, 0, 0, 0]"
    "replicate 8 (0 :: u8) = [0, 0, 0, 0, 0, 0, 0, 0]" "replicate 4 (0 :: u8) = [0, 0, 0, 0]"
    by (simp_all add: eval_nat_numeral)
  note w = append_words [OF a]
  from w(7) consider "len = 32" | "len = 40" | "len = 48" | "len = 56" | "len = 64" | "len = 96"
    by (auto simp: pref64_len_def)
  then show ?thesis
  proof cases
    case 1
    show ?thesis unfolding w(1) [OF 1] using p by (simp add: 1 ip b synthesize_pref64_def zero_from_def z)
  next
    case 2
    show ?thesis unfolding w(2) [OF 2] using p by (simp add: 2 ip b synthesize_pref64_def zero_from_def z)
  next
    case 3
    show ?thesis unfolding w(3) [OF 3] using p by (simp add: 3 ip b synthesize_pref64_def zero_from_def z)
  next
    case 4
    show ?thesis unfolding w(4) [OF 4] using p by (simp add: 4 ip b synthesize_pref64_def zero_from_def z)
  next
    case 5
    show ?thesis unfolding w(5) [OF 5] using p by (simp add: 5 ip b synthesize_pref64_def zero_from_def z)
  next
    case 6
    show ?thesis unfolding w(6) [OF 6] using p by (simp add: 6 ip b synthesize_pref64_def zero_from_def z)
  qed
qed

section \<open>Properties\<close>

text \<open>
  Discovery inverts synthesis: for every prefix of a legal length that is not of an excluded
  kind, the address synthesized for a well-known IPv4 address gives back the prefix, with its host
  bits cleared, and its length.
\<close>

theorem pref64_round_trip:
  assumes "length p = 16" "pref64_len len" "\<not> excluded (zero_from (len div 8) p)" "v = wka1 \<or> v = wka2"
  shows "\<exists>a. synthesize_pref64 p len v = Some a \<and> extract_pref64 a = Some (zero_from (len div 8) p, len)"
  using extract_synthesized [OF assms] synthesize_Some [of p len v] assms(2) by auto

text \<open>
  C0. The helper's synthesis is the translator's own embedding: whenever \<open>append_to_prefix\<close>
  succeeds for a prefix whose host bits are clear, \<open>synthesize_pref64\<close> gives the same address.
\<close>

text \<open>C36. The helper's synthesis embeds an IPv4 address exactly as the translator does.\<close>

theorem pref64_matches_translator:
  assumes "append_to_prefix strict addr4 prefix len = Inr a" "zero_from (len div 8) (in6_bytes prefix) = in6_bytes prefix"
  shows "synthesize_pref64 (in6_bytes prefix) len (le_bytes 4 addr4) = Some (in6_bytes a)"
  by (rule synthesize_translator [OF assms])

section \<open>Witnesses\<close>

text \<open>A /56 prefix with host bits set, and \<open>64:ff9b::/96\<close>.\<close>

definition sample_pref64 :: "u8 list" where
  "sample_pref64 = [0x20, 1, 0xd, 0xb8, 1, 2, 3, 4, 5, 6, 7, 8, 9, 10, 11, 12]"

lemma pref64_round_trip_witness:
  "\<exists>a. synthesize_pref64 sample_pref64 56 wka1 = Some a
     \<and> extract_pref64 a = Some ([0x20, 1, 0xd, 0xb8, 1, 2, 3, 0, 0, 0, 0, 0, 0, 0, 0, 0], 56)"
proof -
  have "length sample_pref64 = 16" "pref64_len 56" "\<not> excluded (zero_from (56 div 8) sample_pref64)"
    "zero_from (56 div 8) sample_pref64 = [0x20, 1, 0xd, 0xb8, 1, 2, 3, 0, 0, 0, 0, 0, 0, 0, 0, 0]"
    by code_simp+
  then show ?thesis using pref64_round_trip [of sample_pref64 56 wka1] by simp
qed

lemma pref64_matches_translator_witness:
  "synthesize_pref64 (in6_bytes (ip6_lit 0x0064ff9b 0 0 0)) 96 (le_bytes 4 (ip4_lit 8 8 4 4))
     = Some (in6_bytes (ip6_lit 0x0064ff9b 0 0 0x08080404))"
proof (rule pref64_matches_translator)
  show "append_to_prefix True (ip4_lit 8 8 4 4) (ip6_lit 0x0064ff9b 0 0 0) 96 = Inr (ip6_lit 0x0064ff9b 0 0 0x08080404)"
    by (simp add: append_to_prefix_def validate_ip4_addr_def is_private_ip4_addr_def WKPF_def eval_addr)
  show "zero_from (96 div 8) (in6_bytes (ip6_lit 0x0064ff9b 0 0 0)) = in6_bytes (ip6_lit 0x0064ff9b 0 0 0)"
  proof -
    have "replicate 4 (0 :: u8) = [0, 0, 0, 0]" by (simp add: eval_nat_numeral)
    then show ?thesis by (simp add: zero_from_def in6_bytes_def eval_addr bytes_zero)
  qed
qed

end
