(* ===== verification/Dns.thy ===== *)
theory Dns
  imports Reads Pref64 Text
begin

text \<open>
  The DNS messages of \<open>src/src/helpers/pref64-discover.c\<close>: names, the query, the check of a
  response, the records of a response and the reply that carries synthesized addresses. Every read
  of a received message is checked.
\<close>

section \<open>Names\<close>

text \<open>\<open>len\<close> is the length of the name so far.\<close>

function skip_dns_name :: "u8 list \<Rightarrow> nat \<Rightarrow> nat \<Rightarrow> nat option option" where
  "skip_dns_name resp pos len =
     (if pos < length resp then do {
        b \<leftarrow> rd resp pos;
        let pos = pos + 1;
        if b = 0 then Some (Some pos)
        else if b AND 0xc0 = 0xc0 then (if pos < length resp then Some (Some (pos + 1)) else reject)
        else if b AND 0xc0 \<noteq> 0 \<or> pos + unat b > length resp \<or> len + unat b + 1 > 255 then reject
        else skip_dns_name resp (pos + unat b) (len + unat b + 1)
      } else reject)"
  by pat_completeness auto
termination
  by (relation "measure (\<lambda>(resp, pos, len). length resp - pos)") auto

declare skip_dns_name.simps [simp del]

text \<open>The next label of a domain, and what is behind its dot.\<close>

definition next_label :: "string \<Rightarrow> string \<times> string" where
  "next_label cur =
     (takeWhile (\<lambda>c. c \<noteq> CHR ''.'') cur, case dropWhile (\<lambda>c. c \<noteq> CHR ''.'') cur of [] \<Rightarrow> [] | _ # r \<Rightarrow> r)"

definition chars :: "u8 list \<Rightarrow> string" where
  "chars = map (\<lambda>b. char_of (unat b))"

definition bytes :: "string \<Rightarrow> u8 list" where
  "bytes = map (\<lambda>c. of_nat (code c))"

text \<open>A byte string as a C string.\<close>

definition c_string :: "u8 list \<Rightarrow> string" where
  "c_string bs = chars (takeWhile (\<lambda>b. b \<noteq> 0) bs)"

text \<open>The loop over the labels of the question: where it stops, and what is left of the domain.\<close>

function match_question :: "u8 list \<Rightarrow> nat \<Rightarrow> string \<Rightarrow> (nat \<times> string) option option" where
  "match_question resp pos cur =
     (if pos < length resp then do {
        b \<leftarrow> rd resp pos;
        if b = 0 then Some (Some (pos, cur))
        else if b AND 0xc0 \<noteq> 0 then reject
        else do {
          let pos = pos + 1;
          if pos + unat b > length resp then reject
          else do {
            l \<leftarrow> rds resp pos (unat b);
            let (label, rest) = next_label cur;
            if label = [] \<or> length label \<noteq> unat b \<or> \<not> strcaseeq (chars l) label then reject
            else match_question resp (pos + unat b) rest
          }
        }
      } else Some (Some (pos, cur)))"
  by pat_completeness auto
termination
  by (relation "measure (\<lambda>(resp, pos, cur). length resp - pos)") auto

declare match_question.simps [simp del]

lemma next_label_shorter: "cur \<noteq> [] \<Longrightarrow> length (snd (next_label cur)) < length cur"
  using length_dropWhile_le [of "\<lambda>c. c \<noteq> CHR ''.''" cur]
  by (cases cur) (auto simp: next_label_def split: list.split)

function encode_labels :: "u8 list \<Rightarrow> string \<Rightarrow> u8 list option" where
  "encode_labels q cur =
     (if cur = [] then Some (q @ [0])
      else
        (let (label, rest) = next_label cur
         in if label = [] \<or> length label > 63 \<or> length q + 1 + length label \<ge> 255 then None
            else encode_labels (q @ of_nat (length label) # bytes label) rest))"
  by pat_completeness auto
termination
proof (relation "measure (\<lambda>(q, cur). length cur)", goal_cases)
  case (2 q cur x label rest)
  then show ?case using next_label_shorter [of cur] by (cases "next_label cur") auto
qed simp

declare encode_labels.simps [simp del]

definition encode_dns_name :: "string \<Rightarrow> u8 list option" where
  "encode_dns_name domain = encode_labels [] domain"

text \<open>\<open>acc\<close> is what has been written into the buffer of \<open>sz\<close> bytes.\<close>

function decode_labels :: "nat \<Rightarrow> u8 list \<Rightarrow> nat \<Rightarrow> u8 list \<Rightarrow> (u8 list \<times> nat) option option" where
  "decode_labels sz pkt pos acc =
     (if pos < length pkt then do {
        b \<leftarrow> rd pkt pos;
        let pos = pos + 1;
        if b = 0 then Some (Some (acc, pos))
        else if b AND 0xc0 \<noteq> 0 \<or> pos + unat b > length pkt then reject
        else if acc \<noteq> [] \<and> length acc + 1 \<ge> sz then reject
        else do {
          let acc = (if acc = [] then [] else acc @ [46]);
          if length acc + unat b \<ge> sz then reject
          else do {
            l \<leftarrow> rds pkt pos (unat b);
            decode_labels sz pkt (pos + unat b) (acc @ l)
          }
        }
      } else reject)"
  by pat_completeness auto
termination
  by (relation "measure (\<lambda>(sz, pkt, pos, acc). length pkt - pos)") auto

declare decode_labels.simps [simp del]

definition decode_qname :: "u8 list \<Rightarrow> nat \<Rightarrow> nat \<Rightarrow> (u8 list \<times> nat) option option" where
  "decode_qname pkt offset sz = decode_labels sz pkt offset []"

section \<open>Responses\<close>

text \<open>\<open>n\<close> questions.\<close>

fun skip_questions :: "nat \<Rightarrow> u8 list \<Rightarrow> nat \<Rightarrow> nat option option" where
  "skip_questions 0 resp pos = Some (Some pos)"
| "skip_questions (Suc n) resp pos =
     ok_then (skip_dns_name resp pos 0) (\<lambda>pos. if pos + 4 > length resp then reject else skip_questions n resp (pos + 4))"

text \<open>A resource record: its type and class, and the place and length of its data.\<close>

definition dns_record :: "u8 list \<Rightarrow> nat \<Rightarrow> (u16 \<times> u16 \<times> nat \<times> nat) option option" where
  "dns_record resp pos =
     ok_then (skip_dns_name resp pos 0) (\<lambda>pos.
       if pos + 10 > length resp then reject
       else do {
         atype \<leftarrow> be16_at resp pos;
         aclass \<leftarrow> be16_at resp (pos + 2);
         rdlen \<leftarrow> be16_at resp (pos + 8);
         let pos = pos + 10;
         if pos + unat rdlen > length resp then reject else Some (Some (atype, aclass, pos, unat rdlen))
       })"

text \<open>The answers up to the first with a prefix; at most \<open>n\<close> are left.\<close>

fun dns_answers :: "nat \<Rightarrow> u8 list \<Rightarrow> nat \<Rightarrow> (u8 list \<times> nat) option option" where
  "dns_answers 0 resp pos = reject"
| "dns_answers (Suc n) resp pos =
     (if pos \<ge> length resp then reject
      else ok_then (dns_record resp pos) (\<lambda>(atype, aclass, pos, rdlen).
        if atype = 28 \<and> aclass = 1 \<and> rdlen = 16 then do {
          a \<leftarrow> rds resp pos 16;
          (case extract_pref64 a of Some r \<Rightarrow> Some (Some r) | None \<Rightarrow> dns_answers n resp (pos + rdlen))
        }
        else dns_answers n resp (pos + rdlen)))"

text \<open>The question and the answers, with their counts.\<close>

definition dns_body :: "u8 list \<Rightarrow> string \<Rightarrow> nat \<Rightarrow> nat \<Rightarrow> (u8 list \<times> nat) option option" where
  "dns_body resp domain qdcount ancount =
     ok_then (match_question resp 12 domain) (\<lambda>(pos, cur).
       if pos \<ge> length resp then reject
       else do {
         b \<leftarrow> rd resp pos;
         let pos = pos + 1;
         if b \<noteq> 0 \<or> cur \<noteq> [] \<and> cur \<noteq> ''.'' \<or> pos + 4 > length resp then reject
         else do {
           qtype \<leftarrow> be16_at resp pos;
           qclass \<leftarrow> be16_at resp (pos + 2);
           if qtype \<noteq> 28 \<or> qclass \<noteq> 1 then reject
           else ok_then (skip_questions (qdcount - 1) resp (pos + 4)) (dns_answers ancount resp)
         }
       })"

datatype dns_error = Dns_bad | Dns_truncated

definition parse_dns_response :: "u8 list \<Rightarrow> u16 \<Rightarrow> string \<Rightarrow> (dns_error + u8 list \<times> nat) option" where
  "parse_dns_response resp expected_id expected_domain =
     (if length resp < 12 then Some (Inl Dns_bad)
      else do {
        id \<leftarrow> be16_at resp 0;
        b2 \<leftarrow> rd resp 2;
        b3 \<leftarrow> rd resp 3;
        qdcount \<leftarrow> be16_at resp 4;
        ancount \<leftarrow> be16_at resp 6;
        if id \<noteq> expected_id \<or> b2 AND 0x80 = 0 then Some (Inl Dns_bad)
        else if b2 AND 0x02 \<noteq> 0 then Some (Inl Dns_truncated)
        else if b3 AND 0x0f \<noteq> 0 \<or> qdcount < 1 \<or> ancount < 1 then Some (Inl Dns_bad)
        else do {
          r \<leftarrow> dns_body resp expected_domain (unat qdcount) (unat ancount);
          Some (case r of None \<Rightarrow> Inl Dns_bad | Some x \<Rightarrow> Inr x)
        }
      })"

section \<open>No read outside\<close>

lemma skip_dns_name_inside:
  "skip_dns_name resp pos len \<noteq> None
   \<and> (\<forall>q. skip_dns_name resp pos len = Some (Some q) \<longrightarrow> pos < q \<and> q \<le> length resp)"
proof (induction resp pos len rule: skip_dns_name.induct)
  case (1 resp pos len)
  show ?case
  proof (cases "pos < length resp")
    case True
    then have r: "rd resp pos = Some (resp ! pos)" by (rule rd_Some)
    show ?thesis
      using True "1.IH" [OF True r refl]
      by (auto simp: skip_dns_name.simps [of resp pos len] r Let_def reject_def)
  qed (simp add: skip_dns_name.simps [of resp pos len] reject_def)
qed

lemma match_question_inside: "match_question resp pos cur \<noteq> None"
proof (induction resp pos cur rule: match_question.induct)
  case (1 resp pos cur)
  show ?case
  proof (cases "pos < length resp")
    case True
    then have r: "rd resp pos = Some (resp ! pos)" by (rule rd_Some)
    show ?thesis
    proof (cases "pos + 1 + unat (resp ! pos) > length resp")
      case False
      then have l: "rds resp (pos + 1) (unat (resp ! pos)) = Some (take (unat (resp ! pos)) (drop (pos + 1) resp))"
        by (intro rds_Some) simp
      show ?thesis
        using "1.IH" [OF True r _ _ refl False l]
        by (simp add: match_question.simps [of resp pos cur] r True l [simplified] Let_def split: prod.split)
    qed (simp add: match_question.simps [of resp pos cur] r True)
  qed (simp add: match_question.simps [of resp pos cur])
qed

lemma decode_labels_inside:
  "decode_labels sz pkt pos acc \<noteq> None \<and> (\<forall>x q. decode_labels sz pkt pos acc = Some (Some (x, q)) \<longrightarrow> pos < q \<and> q \<le> length pkt)"
proof (induction sz pkt pos acc rule: decode_labels.induct)
  case (1 sz pkt pos acc)
  show ?case
  proof (cases "pos < length pkt")
    case True
    then have r: "rd pkt pos = Some (pkt ! pos)" by (rule rd_Some)
    show ?thesis
    proof (cases "pos + 1 + unat (pkt ! pos) > length pkt")
      case False
      then have l: "rds pkt (pos + 1) (unat (pkt ! pos)) = Some (take (unat (pkt ! pos)) (drop (pos + 1) pkt))"
        by (intro rds_Some) simp
      show ?thesis
        using True False "1.IH" [OF True r refl _ _ _ refl _ l]
        by (auto simp: decode_labels.simps [of sz pkt pos acc] r l [simplified] Let_def reject_def)
    qed (use True in \<open>auto simp: decode_labels.simps [of sz pkt pos acc] r reject_def\<close>)
  qed (simp add: decode_labels.simps [of sz pkt pos acc] reject_def)
qed

lemma skip_questions_inside: "skip_questions n resp pos \<noteq> None"
proof (induction n arbitrary: pos)
  case (Suc n)
  show ?case unfolding skip_questions.simps
    by (rule ok_then_inside) (use skip_dns_name_inside Suc in auto)
qed simp

lemma dns_record_inside:
  "dns_record resp pos \<noteq> None \<and> (\<forall>t c p l. dns_record resp pos = Some (Some (t, c, p, l)) \<longrightarrow> p + l \<le> length resp)"
proof (cases "skip_dns_name resp pos 0")
  case None
  then show ?thesis using skip_dns_name_inside [of resp pos 0] by simp
next
  case (Some q)
  then show ?thesis by (cases q) (auto simp: dns_record_def be16_at_Some Let_def reject_def)
qed

lemma dns_answers_inside: "dns_answers n resp pos \<noteq> None"
proof (induction n arbitrary: pos)
  case (Suc n)
  show ?case
  proof (cases "dns_record resp pos")
    case None
    then show ?thesis using dns_record_inside [of resp pos] by simp
  next
    case (Some q)
    then show ?thesis using Suc dns_record_inside [of resp pos] by (cases q) (auto simp: rds_Some split: option.split)
  qed
qed simp

lemma dns_body_inside: "dns_body resp domain qdcount ancount \<noteq> None"
  unfolding dns_body_def
  by (rule ok_then_inside) (auto simp: match_question_inside [simplified] rd_Some be16_at_Some Let_def
      intro!: ok_then_inside [simplified] skip_questions_inside [simplified] dns_answers_inside [simplified])

lemma parse_dns_response_inside: "parse_dns_response resp expected_id domain \<noteq> None"
proof (cases "length resp < 12")
  case False
  show ?thesis
    using False dns_body_inside [of resp domain]
    by (auto simp: parse_dns_response_def be16_at_Some rd_Some Let_def Option.bind_eq_Some_conv simp flip: not_None_eq) (metis option.exhaust)?
qed (simp add: parse_dns_response_def)

end
