(* ===== verification/Dns64.thy ===== *)
theory Dns64
  imports Dns
begin

text \<open>
  The client and the server of \<open>src/src/helpers/pref64-discover.c\<close>: the query for the well-known
  name with its repetition over TCP, and the DNS64 server's answer to one request. The
  network is a parameter: \<open>udp\<close>, \<open>tcp\<close> and \<open>up\<close> give the bytes received for the bytes
  sent, \<open>None\<close> on any failure, and the hosts file is its text.
\<close>

section \<open>The query\<close>

definition hi8 :: "nat \<Rightarrow> u8" where "hi8 n = of_nat (n div 256)"

definition lo8 :: "nat \<Rightarrow> u8" where "lo8 n = of_nat n"

text \<open>Recursion desired, one question for an AAAA record, one additional record with 1232 bytes of UDP payload.\<close>

definition dns_query :: "u16 \<Rightarrow> string \<Rightarrow> u8 list option" where
  "dns_query tx_id domain = map_option (\<lambda>qname.
     [hi8 (unat tx_id), lo8 (unat tx_id), 1, 0, 0, 1, 0, 0, 0, 0, 0, 1] @ qname @ [0, 28, 0, 1] @ [0, 0, 41, 4, 0xd0, 0, 0, 0, 0, 0, 0])
     (encode_dns_name domain)"

text \<open>A message with its length in front, as TCP carries it.\<close>

definition tcp_frame :: "u8 list \<Rightarrow> u8 list" where
  "tcp_frame m = hi8 (length m) # lo8 (length m) # m"

definition tcp_message :: "u8 list \<Rightarrow> u8 list option" where
  "tcp_message s =
     (case s of
        a # b # r \<Rightarrow> (let n = unat a * 256 + unat b in if length r < n then None else Some (take n r))
      | _ \<Rightarrow> None)"

definition query_dns_server ::
  "(u8 list \<Rightarrow> u8 list option) \<Rightarrow> (u8 list \<Rightarrow> u8 list option) \<Rightarrow> u16 \<Rightarrow> string \<Rightarrow> (u8 list \<times> nat) option option" where
  "query_dns_server udp tcp tx_id domain =
     (case dns_query tx_id domain of None \<Rightarrow> reject
      | Some packet \<Rightarrow>
          (case udp packet of None \<Rightarrow> reject
           | Some resp \<Rightarrow> do {
               r \<leftarrow> parse_dns_response resp tx_id domain;
               (case r of Inr x \<Rightarrow> Some (Some x)
                | Inl Dns_bad \<Rightarrow> reject
                | Inl Dns_truncated \<Rightarrow>
                    (case Option.bind (tcp (tcp_frame packet)) tcp_message of None \<Rightarrow> reject
                     | Some resp \<Rightarrow> do {
                         r \<leftarrow> parse_dns_response resp tx_id domain;
                         (case r of Inr x \<Rightarrow> Some (Some x) | Inl _ \<Rightarrow> reject)
                       }))
             }))"

section \<open>The reply\<close>

text \<open>The answer records that fit into \<open>sz\<close> bytes, written from \<open>pos\<close> on.\<close>

fun reply_records :: "u8 list \<Rightarrow> nat \<Rightarrow> nat \<Rightarrow> nat \<Rightarrow> nat \<Rightarrow> u8 list list \<Rightarrow> u8 list list" where
  "reply_records prefix prefix_len rtype sz pos [] = []"
| "reply_records prefix prefix_len rtype sz pos (v # vs) =
     (let rdlen = (if rtype = 28 then 16 else 4)
      in if pos + 12 + rdlen > sz then []
         else case (if rtype = 28 then synthesize_pref64 prefix prefix_len v else Some v) of
           None \<Rightarrow> reply_records prefix prefix_len rtype sz pos vs
         | Some rdata \<Rightarrow> ([0xc0, 0x0c, hi8 rtype, lo8 rtype, 0, 1, 0, 0, 0, 0x3c, 0, lo8 rdlen] @ rdata)
             # reply_records prefix prefix_len rtype sz (pos + 12 + rdlen) vs)"

text \<open>The reply, empty if not even the question fits.\<close>

definition build_dns64_reply ::
  "u8 list \<Rightarrow> nat \<Rightarrow> u8 list \<Rightarrow> nat \<Rightarrow> nat \<Rightarrow> u8 list list \<Rightarrow> u8 \<Rightarrow> nat \<Rightarrow> u8 list option" where
  "build_dns64_reply req qsec_len prefix prefix_len rtype v4_list rcode resp_sz =
     (if 12 + qsec_len > resp_sz then Some []
      else do {
        r0 \<leftarrow> rd req 0;
        r1 \<leftarrow> rd req 1;
        r2 \<leftarrow> rd req 2;
        question \<leftarrow> rds req 12 qsec_len;
        let records = reply_records prefix prefix_len rtype resp_sz (12 + qsec_len) v4_list;
        Some ([r0, r1, (r2 AND 1) OR 0x80, 0x80 OR (rcode AND 0x0f), 0, 1, hi8 (length records), lo8 (length records), 0, 0, 0, 0]
          @ question @ concat records)
      })"

section \<open>Lookups\<close>

text \<open>The first address of each line of the hosts file that names the host, at most \<open>max_v4\<close>.\<close>

definition hosts_line :: "string \<Rightarrow> string \<Rightarrow> u8 list option" where
  "hosts_line qname line =
     (case tokens (takeWhile (\<lambda>c. c \<noteq> CHR ''#'') line) of [] \<Rightarrow> None
      | ip # hosts \<Rightarrow>
          (case pton4_bytes ip of None \<Rightarrow> None
           | Some v \<Rightarrow> if list_ex (\<lambda>h. strcaseeq h qname) hosts then Some v else None))"

definition lookup_hosts_v4 :: "string \<Rightarrow> string \<Rightarrow> nat \<Rightarrow> u8 list list" where
  "lookup_hosts_v4 hosts qname max_v4 = take max_v4 (List.map_filter (hosts_line qname) (file_lines hosts))"

text \<open>The data of the records of a type; \<open>found\<close> is what has been found.\<close>

fun collect_records :: "nat \<Rightarrow> u8 list \<Rightarrow> u16 \<Rightarrow> nat \<Rightarrow> u8 list list \<Rightarrow> nat \<Rightarrow> u8 list list option" where
  "collect_records 0 resp want max_v4 found pos = Some found"
| "collect_records (Suc n) resp want max_v4 found pos =
     (if pos \<ge> length resp then Some found
      else do {
        r \<leftarrow> dns_record resp pos;
        (case r of None \<Rightarrow> Some found
         | Some (atype, aclass, pos, rdlen) \<Rightarrow> do {
             rdata \<leftarrow> rds resp pos rdlen;
             let found =
               (if atype = want \<and> aclass = 1
                   \<and> (want = 1 \<and> rdlen = 4 \<and> length found < max_v4 \<or> want = 28 \<and> rdlen = 16)
                then found @ [rdata] else found);
             collect_records n resp want max_v4 found (pos + rdlen)
           })
      })"

definition extract_dns_records :: "u8 list \<Rightarrow> u16 \<Rightarrow> nat \<Rightarrow> u8 list list option" where
  "extract_dns_records resp want max_v4 =
     (if length resp < 12 then Some []
      else do {
        b2 \<leftarrow> rd resp 2;
        b3 \<leftarrow> rd resp 3;
        qdcount \<leftarrow> be16_at resp 4;
        ancount \<leftarrow> be16_at resp 6;
        if b2 AND 0x80 = 0 \<or> b3 AND 0x0f \<noteq> 0 then Some []
        else do {
          q \<leftarrow> skip_questions (unat qdcount) resp 12;
          (case q of None \<Rightarrow> Some [] | Some pos \<Rightarrow> collect_records (unat ancount) resp want max_v4 [] pos)
        }
      })"

section \<open>The server\<close>

text \<open>
  One turn of the server's loop: the message sent for the request, \<open>None\<close> inside if none is. A
  name of the upstream server may be absent; then \<open>up\<close> always fails.
\<close>

definition upstream :: "(u8 list \<Rightarrow> u8 list option) \<Rightarrow> u8 list \<Rightarrow> u8 list" where
  "upstream up m = (case up m of None \<Rightarrow> [] | Some r \<Rightarrow> take 1500 r)"

definition to_send :: "u8 list \<Rightarrow> u8 list option" where
  "to_send m = (if m = [] then None else Some m)"

definition a_query :: "u8 list \<Rightarrow> nat \<Rightarrow> u8 list option" where
  "a_query req qsec_len = do {
     r0 \<leftarrow> rd req 0;
     r1 \<leftarrow> rd req 1;
     q \<leftarrow> rds req 12 qsec_len;
     Some ([r0, r1, 1, 0, 0, 1, 0, 0, 0, 0, 0, 0] @ q[qsec_len - 4 := 0, qsec_len - 3 := 1])
   }"

definition dns64_forward ::
  "u8 list \<Rightarrow> nat \<Rightarrow> (u8 list \<Rightarrow> u8 list option) \<Rightarrow> u8 list \<Rightarrow> nat \<Rightarrow> u16 \<Rightarrow> u16 \<Rightarrow> u8 list option option" where
  "dns64_forward prefix prefix_len up req qsec_len qtype qclass = do {
     let up_resp = upstream up req;
     let fail = map_option to_send (build_dns64_reply req qsec_len prefix prefix_len (unat qtype) [] 2 1500);
     let pass = (if length up_resp \<ge> 12 then Some (Some up_resp) else fail);
     if qtype = 28 \<and> qclass = 1 then do {
       aaaa \<leftarrow> extract_dns_records up_resp 28 0;
       if aaaa \<noteq> [] then Some (Some up_resp)
       else if 12 + qsec_len \<le> 512 then do {
         q \<leftarrow> a_query req qsec_len;
         v4 \<leftarrow> extract_dns_records (upstream up q) 1 16;
         if v4 \<noteq> [] then do {
           r \<leftarrow> build_dns64_reply req qsec_len prefix prefix_len 28 v4 0 1500;
           if r \<noteq> [] then Some (Some r) else pass
         }
         else pass
       }
       else pass
     }
     else pass
   }"

definition dns64_answer ::
  "u8 list \<Rightarrow> nat \<Rightarrow> string \<Rightarrow> (u8 list \<Rightarrow> u8 list option) \<Rightarrow> u8 list \<Rightarrow> u8 list option option" where
  "dns64_answer prefix prefix_len hosts up req =
     (if length req < 12 then reject
      else do {
        b2 \<leftarrow> rd req 2;
        qdcount \<leftarrow> be16_at req 4;
        if b2 AND 0x80 \<noteq> 0 \<or> qdcount < 1 then reject
        else ok_then (decode_qname req 12 256) (\<lambda>(name, qend).
          if qend + 4 > length req then reject
          else do {
            qtype \<leftarrow> be16_at req qend;
            qclass \<leftarrow> be16_at req (qend + 2);
            let qsec_len = qend + 4 - 12;
            let qname = c_string name;
            let reply = (\<lambda>rtype v4. map_option to_send (build_dns64_reply req qsec_len prefix prefix_len rtype v4 0 1500));
            if qclass = 1 \<and> strcaseeq qname ''ipv4only.arpa'' then
              (if qtype = 28 \<or> qtype = 1 then reply (unat qtype) [wka1, wka2] else reply (unat qtype) [])
            else do {
              let hosts_v4 = (if qclass = 1 then lookup_hosts_v4 hosts qname 8 else []);
              if hosts_v4 \<noteq> [] then (if qtype = 28 then reply 28 hosts_v4 else reply (unat qtype) [])
              else dns64_forward prefix prefix_len up req qsec_len qtype qclass
            }
          })
      })"

end
