(* ===== verification/Dns_Laws.thy ===== *)
theory Dns_Laws
  imports Dns64
begin

text \<open>
  What the DNS code guarantees: no read outside a received message, names that survive encoding
  and decoding, and a client that finds the server's prefix.
\<close>

section \<open>Bytes of names\<close>

lemma chars_bytes [simp]: "chars (bytes s) = s"
proof -
  have "char_of (unat (of_nat (code c) :: u8)) = c" for c
  proof -
    have "code c < 256" by (simp add: code_def)
    then have "unat (of_nat (code c) :: u8) = code c" by (simp add: unat_of_nat)
    then show ?thesis by (simp add: code_def)
  qed
  then show ?thesis by (simp add: chars_def bytes_def o_def)
qed

lemma length_bytes [simp]: "length (bytes s) = length s"
  by (simp add: bytes_def)

lemma label_byte:
  assumes "length label \<le> 63" "label \<noteq> []"
  shows "unat (of_nat (length label) :: u8) = length label" "(of_nat (length label) :: u8) AND 0xc0 = 0" "(of_nat (length label) :: u8) \<noteq> 0"
proof -
  have small: "length label < 256" using assms(1) by simp
  then show u: "unat (of_nat (length label) :: u8) = length label" by (simp add: unat_of_nat)
  have "list_all (\<lambda>n. (of_nat n :: u8) AND 0xc0 = 0) [0..<64]" by code_simp
  then show "(of_nat (length label) :: u8) AND 0xc0 = 0" using assms(1) by (simp add: list_all_iff)
  show "(of_nat (length label) :: u8) \<noteq> 0" using u assms(2) by (metis length_0_conv unat_0)
qed

section \<open>One label\<close>

text \<open>A label on the wire.\<close>

definition wire :: "string \<Rightarrow> u8 list" where
  "wire label = of_nat (length label) # bytes label"

lemma length_wire [simp]: "length (wire label) = length label + 1"
  by (simp add: wire_def)

lemma rd_at: "rd (xs @ b # ys) (length xs) = Some b"
  by (simp add: rd_def)

lemma rds_at: "length l = k \<Longrightarrow> i = length xs \<Longrightarrow> rds (xs @ l @ ys) i k = Some l"
  by (simp add: rds_def)

lemma match_label:
  assumes "length label \<le> 63" "label \<noteq> []" "next_label cur = (label, rest)"
  shows "match_question (xs @ wire label @ ys) (length xs) cur = match_question ((xs @ wire label) @ ys) (length (xs @ wire label)) rest"
proof -
  note b = label_byte [OF assms(1,2)]
  have r: "rd (xs @ wire label @ ys) (length xs) = Some (of_nat (length label))" by (simp add: wire_def rd_at)
  have l: "rds (xs @ wire label @ ys) (length xs + 1) (length label) = Some (bytes label)"
    using rds_at [of "bytes label" "length label" "length xs + 1" "xs @ [of_nat (length label)]" ys] by (simp add: wire_def)
  show ?thesis
    using b assms(2) by (subst match_question.simps) (simp add: r l [simplified] assms(3) Let_def strcaseeq_def)
qed

lemma decode_label:
  assumes "length label \<le> 63" "label \<noteq> []" "length acc + 1 + length label < sz"
  shows "decode_labels sz (xs @ wire label @ ys) (length xs) acc =
    decode_labels sz ((xs @ wire label) @ ys) (length (xs @ wire label)) ((if acc = [] then [] else acc @ [46]) @ bytes label)"
proof -
  note b = label_byte [OF assms(1,2)]
  have r: "rd (xs @ wire label @ ys) (length xs) = Some (of_nat (length label))" by (simp add: wire_def rd_at)
  have l: "rds (xs @ wire label @ ys) (length xs + 1) (length label) = Some (bytes label)"
    using rds_at [of "bytes label" "length label" "length xs + 1" "xs @ [of_nat (length label)]" ys] by (simp add: wire_def)
  show ?thesis
    using b assms(2,3) by (subst decode_labels.simps) (auto simp: r l [simplified] Let_def)
qed

section \<open>Whole names\<close>

text \<open>The labels of a domain without an empty one.\<close>

lemma next_label_parts:
  assumes "next_label cur = (label, rest)"
  shows "cur = label \<and> rest = [] \<or> cur = label @ CHR ''.'' # rest"
proof -
  let ?P = "\<lambda>c. c \<noteq> CHR ''.''"
  have c: "label @ dropWhile ?P cur = cur" and r: "rest = (case dropWhile ?P cur of [] \<Rightarrow> [] | _ # r \<Rightarrow> r)"
    using assms by (auto simp: next_label_def)
  show ?thesis
  proof (cases "dropWhile ?P cur")
    case Nil
    show ?thesis using c r unfolding Nil by simp
  next
    case (Cons d t)
    then have "d = CHR ''.''" using hd_dropWhile [of ?P cur] by simp
    then show ?thesis using c r unfolding Cons by simp
  qed
qed

text \<open>What is decoded behind \<open>acc\<close>.\<close>

definition joined :: "u8 list \<Rightarrow> string \<Rightarrow> u8 list" where
  "joined acc cur = (if cur = [] then acc else if acc = [] then bytes cur else acc @ [46] @ bytes cur)"

text \<open>\<open>w\<close> is the rest of a name on the wire, wherever it stands: it matches \<open>cur\<close> and decodes to it.\<close>

definition carries :: "u8 list \<Rightarrow> string \<Rightarrow> bool" where
  "carries w cur \<longleftrightarrow> (\<forall>xs ys.
     match_question (xs @ w @ ys) (length xs) cur = Some (Some (length xs + length w - 1, []))
     \<and> (\<forall>acc sz. (cur = [] \<or> last cur \<noteq> CHR ''.'') \<longrightarrow> (cur = [] \<or> length acc + 1 + length cur < sz) \<longrightarrow>
          decode_labels sz (xs @ w @ ys) (length xs) acc = Some (Some (joined acc cur, length xs + length w))))"

lemma carriesI:
  assumes "\<And>xs ys. match_question (xs @ w @ ys) (length xs) cur = Some (Some (length xs + length w - 1, []))"
    "\<And>xs ys acc sz. cur = [] \<or> last cur \<noteq> CHR ''.'' \<Longrightarrow> cur = [] \<or> length acc + 1 + length cur < sz \<Longrightarrow>
       decode_labels sz (xs @ w @ ys) (length xs) acc = Some (Some (joined acc cur, length xs + length w))"
  shows "carries w cur"
  using assms unfolding carries_def by blast

lemma carries_match:
  "carries w cur \<Longrightarrow> match_question (xs @ w @ ys) (length xs) cur = Some (Some (length xs + length w - 1, []))"
  unfolding carries_def by blast

lemma carries_decode:
  "carries w cur \<Longrightarrow> cur = [] \<or> last cur \<noteq> CHR ''.'' \<Longrightarrow> cur = [] \<or> length acc + 1 + length cur < sz \<Longrightarrow>
     decode_labels sz (xs @ w @ ys) (length xs) acc = Some (Some (joined acc cur, length xs + length w))"
  unfolding carries_def by blast

lemma carries_end: "carries [0] []"
proof (rule carriesI)
  show "match_question (xs @ [0] @ ys) (length xs) [] = Some (Some (length xs + length [0::u8] - 1, []))" for xs ys
    by (subst match_question.simps) (simp add: rd_def)
  show "decode_labels sz (xs @ [0] @ ys) (length xs) acc = Some (Some (joined acc [], length xs + length [0::u8]))" for xs ys acc sz
    by (subst decode_labels.simps) (simp add: rd_def joined_def)
qed

lemma carries_label:
  assumes "length label \<le> 63" "label \<noteq> []" "next_label cur = (label, rest)" "w \<noteq> []" "carries w rest"
  shows "carries (wire label @ w) cur"
proof (rule carriesI)
  fix xs ys :: "u8 list"
  note p = next_label_parts [OF assms(3)]
  show "match_question (xs @ (wire label @ w) @ ys) (length xs) cur = Some (Some (length xs + length (wire label @ w) - 1, []))"
    using match_label [OF assms(1-3), of xs "w @ ys"] carries_match [OF assms(5), of "xs @ wire label" ys] by simp
  fix acc :: "u8 list" and sz :: nat
  assume a: "cur = [] \<or> last cur \<noteq> CHR ''.''" "cur = [] \<or> length acc + 1 + length cur < sz"
  let ?acc = "(if acc = [] then [] else acc @ [46]) @ bytes label"
  have c: "cur \<noteq> []" using p assms(2) by auto
  have nt: "cur = label @ CHR ''.'' # rest \<Longrightarrow> rest \<noteq> []" using a(1) by auto
  have r: "rest = [] \<or> last rest \<noteq> CHR ''.''" using p a(1) c by auto
  have sz: "length acc + 1 + length label < sz" "rest = [] \<or> length ?acc + 1 + length rest < sz"
    using p a(2) c by auto
  have ne: "?acc \<noteq> []" using assms(2) by (simp add: bytes_def)
  have "joined ?acc rest = joined acc cur"
    using p ne assms(2) nt by (auto simp: joined_def bytes_def code_def)
  then show "decode_labels sz (xs @ (wire label @ w) @ ys) (length xs) acc = Some (Some (joined acc cur, length xs + length (wire label @ w)))"
    using decode_label [OF assms(1,2) sz(1), of xs "w @ ys"] carries_decode [OF assms(5) r sz(2), of "xs @ wire label" ys] by simp
qed

lemma encoded_labels:
  "encode_labels q cur = Some r \<Longrightarrow>
   \<exists>w. r = q @ w \<and> w \<noteq> [] \<and> last w = 0 \<and> length w \<ge> length cur + 1 \<and> (length q < 255 \<longrightarrow> length r \<le> 255) \<and> carries w cur"
proof (induction q cur arbitrary: r rule: encode_labels.induct)
  case (1 q cur)
  show ?case
  proof (cases "cur = []")
    case True
    then have "r = q @ [0]" using "1.prems" by (simp add: encode_labels.simps)
    then show ?thesis using True carries_end by (intro exI [of _ "[0]"]) simp
  next
    case False
    obtain label rest where n: "next_label cur = (label, rest)" by fastforce
    have e: "label \<noteq> []" "length label \<le> 63" "encode_labels (q @ wire label) rest = Some r" "length (q @ wire label) < 255"
      using "1.prems" False n by (auto simp: encode_labels.simps [of q cur] wire_def split: if_split_asm)
    have g: "\<not> (label = [] \<or> length label > 63 \<or> length q + 1 + length label \<ge> 255)"
      using "1.prems" False n by (auto simp: encode_labels.simps [of q cur] split: if_split_asm)
    obtain w where w: "r = (q @ wire label) @ w" "w \<noteq> []" "last w = 0" "length w \<ge> length rest + 1" "length r \<le> 255" "carries w rest"
      using "1.IH" [OF False n [symmetric] refl g, of r] e(3,4) by (auto simp: wire_def)
    have "length (wire label @ w) \<ge> length cur + 1" using next_label_parts [OF n] w(4) by auto
    then show ?thesis
      using w carries_label [OF e(2,1) n w(2,6)] by (intro exI [of _ "wire label @ w"]) auto
  qed
qed

section \<open>Names survive\<close>

definition no_nul :: "string \<Rightarrow> bool" where
  "no_nul d \<longleftrightarrow> list_all (\<lambda>c. code c \<noteq> 0) d"

lemma c_string_bytes: "no_nul d \<Longrightarrow> c_string (bytes d) = d"
proof -
  assume d: "no_nul d"
  have z: "(of_nat (code c) :: u8) \<noteq> 0" if "code c \<noteq> 0" for c
  proof -
    have "code c < 256" by (simp add: code_def)
    then have "unat (of_nat (code c) :: u8) = code c" by (simp add: unat_of_nat)
    then show ?thesis using that by (metis unat_0)
  qed
  have "takeWhile (\<lambda>b. b \<noteq> 0) (bytes d) = bytes d"
    using d z by (auto simp: no_nul_def list_all_iff bytes_def takeWhile_eq_all_conv)
  then have "c_string (bytes d) = chars (bytes d)" unfolding c_string_def by (rule arg_cong)
  then show ?thesis by simp
qed

lemma encoded_name:
  assumes "encode_dns_name d = Some w"
  shows "carries w d" "length w \<ge> length d + 1" "length w \<le> 255"
  using encoded_labels [of "[]" d w] assms by (auto simp: encode_dns_name_def)

lemma decode_encoded:
  assumes "encode_dns_name d = Some w" "d = [] \<or> last d \<noteq> CHR ''.''" "length xs = 12"
  shows "decode_qname (xs @ w @ ys) 12 256 = Some (Some (bytes d, 12 + length w))"
  using carries_decode [OF encoded_name(1) [OF assms(1)] assms(2), of "[]" 256 xs ys] encoded_name(2,3) [OF assms(1)] assms(3)
  by (auto simp: decode_qname_def joined_def bytes_def)

section \<open>Inside the server\<close>

lemma decode_qname_inside:
  "decode_qname req 12 sz \<noteq> None" "decode_qname req 12 sz = Some (Some (x, q)) \<Longrightarrow> 12 < q \<and> q \<le> length req"
  using decode_labels_inside [of sz req 12 "[]"]
  by (auto simp: decode_qname_def)

lemma collect_records_inside: "collect_records n resp want m found pos \<noteq> None"
proof (induction n arbitrary: found pos)
  case (Suc n)
  show ?case
  proof (cases "dns_record resp pos")
    case None
    then show ?thesis using dns_record_inside [of resp pos] by simp
  next
    case (Some r)
    then show ?thesis
      using Suc dns_record_inside [of resp pos] by (cases r) (auto simp: rds_Some Let_def)
  qed
qed simp

lemma extract_dns_records_inside: "extract_dns_records resp want m \<noteq> None"
proof (cases "length resp < 12")
  case False
  obtain q where "skip_questions (unat (the (be16_at resp 4))) resp 12 = Some q" using skip_questions_inside by blast
  then show ?thesis
    using False collect_records_inside
    by (cases q) (auto simp: extract_dns_records_def be16_at_Some rd_Some simp del: not_None_eq)
qed (simp add: extract_dns_records_def)

lemma rd_head: "length req \<ge> 12 \<Longrightarrow> rd req 0 = Some (req ! 0)"
  by (rule rd_Some) auto

lemma build_dns64_reply_inside:
  "length req \<ge> 12 \<Longrightarrow> 12 + n \<le> length req \<Longrightarrow> build_dns64_reply req n p len t v rc sz \<noteq> None"
  by (simp add: build_dns64_reply_def rd_head rd_Some rds_Some Let_def)

lemma a_query_inside: "length req \<ge> 12 \<Longrightarrow> 12 + n \<le> length req \<Longrightarrow> a_query req n \<noteq> None"
  by (simp add: a_query_def rd_head rd_Some rds_Some)

lemma dns64_forward_inside:
  assumes "length req \<ge> 12" "12 + n \<le> length req"
  shows "dns64_forward p len up req n t c \<noteq> None"
proof -
  obtain b where b: "build_dns64_reply req n p len (unat t) [] 2 1500 = Some b"
    using build_dns64_reply_inside [OF assms] by blast
  obtain a where a: "a_query req n = Some a" using a_query_inside [OF assms] by blast
  obtain x where x: "extract_dns_records (upstream up req) 28 0 = Some x" using extract_dns_records_inside by blast
  obtain v where v: "extract_dns_records (upstream up a) 1 16 = Some v" using extract_dns_records_inside by blast
  obtain r where r: "build_dns64_reply req n p len 28 v 0 1500 = Some r"
    using build_dns64_reply_inside [OF assms] by blast
  show ?thesis by (simp add: dns64_forward_def b a x v r Let_def)
qed

lemma dns64_answer_inside: "dns64_answer p len hosts up req \<noteq> None"
proof (cases "length req < 12")
  case False
  have "ok_then (decode_qname req 12 256) f \<noteq> None"
    if "\<And>name q. 12 < q \<Longrightarrow> q \<le> length req \<Longrightarrow> f (name, q) \<noteq> None" for f :: "_ \<Rightarrow> u8 list option option"
    using decode_qname_inside that by (intro ok_then_inside) auto
  then show ?thesis
    using False by (auto simp: dns64_answer_def rd_Some be16_at_Some Let_def build_dns64_reply_inside dns64_forward_inside simp del: not_None_eq)
qed (simp add: dns64_answer_def)

section \<open>Reads at an offset\<close>

lemma rd_off: "i = length xs + k \<Longrightarrow> rd (xs @ ys) i = rd ys k"
  by (simp add: rd_def nth_append)

lemma rds_off: "i = length xs + k \<Longrightarrow> rds (xs @ ys) i n = rds ys k n"
  by (simp add: rds_def)

lemma be16_off: "i = length xs + k \<Longrightarrow> be16_at (xs @ ys) i = be16_at ys k"
  by (simp add: be16_at_def rd_off [of _ xs])

lemma be16_here: "be16_at (a # b # ys) 0 = Some (push_bit 8 (ucast a) OR ucast b)"
  by (simp add: be16_at_def rd_def)

lemma rd_Cons: "rd (b # ys) 0 = Some b" "rd (b # ys) (Suc k) = rd ys k"
  by (simp_all add: rd_def)

lemma be16_Cons: "be16_at (b # ys) (Suc k) = be16_at ys k"
  by (simp add: be16_at_def rd_Cons)

section \<open>The query and the reply\<close>

definition query_tail :: "u8 list" where
  "query_tail = [0, 28, 0, 1] @ [0, 0, 41, 4, 0xd0, 0, 0, 0, 0, 0, 0]"

definition query_head :: "u16 \<Rightarrow> u8 list" where
  "query_head i = [hi8 (unat i), lo8 (unat i), 1, 0, 0, 1, 0, 0, 0, 0, 0, 1]"

lemma dns_query_form:
  "dns_query i d = Some q \<longleftrightarrow> (\<exists>w. encode_dns_name d = Some w \<and> q = query_head i @ w @ query_tail)"
  by (auto simp: dns_query_def query_head_def query_tail_def)

lemma id_bytes: "push_bit 8 (ucast (hi8 (unat i))) OR ucast (lo8 (unat i)) = (i :: u16)"
proof (rule bit_word_eqI)
  fix n assume n: "n < LENGTH(16)"
  have "unat i div 256 = drop_bit 8 (unat i)" by (simp add: drop_bit_eq_div)
  then show "bit (push_bit 8 (ucast (hi8 (unat i))) OR ucast (lo8 (unat i)) :: u16) n = bit i n"
    using n by (cases "n < 8") (auto simp: hi8_def lo8_def bit_simps)
qed

text \<open>One answer record with an address.\<close>

definition aaaa :: "u8 list \<Rightarrow> u8 list" where
  "aaaa a = [0xc0, 0x0c, 0, 28, 0, 1, 0, 0, 0, 0x3c, 0, 16] @ a"

lemma aaaa_record:
  assumes "length a = 16"
  shows "dns_record (xs @ aaaa a @ ys) (length xs) = Some (Some (28, 1, length xs + 12, 16))"
proof -
  have "rd (xs @ aaaa a @ ys) (length xs) = Some 0xc0" by (simp add: rd_off [of _ xs 0] aaaa_def rd_Cons)
  then have s: "skip_dns_name (xs @ aaaa a @ ys) (length xs) 0 = Some (Some (length xs + 2))"
    by (subst skip_dns_name.simps) (simp add: aaaa_def)
  have h: "be16_at (aaaa a @ ys) 2 = Some 28" "be16_at (aaaa a @ ys) 4 = Some 1" "be16_at (aaaa a @ ys) 10 = Some 16"
    by (simp_all add: aaaa_def be16_at_def rd_def)
  have b: "be16_at (xs @ aaaa a @ ys) (length xs + 2) = Some 28" "be16_at (xs @ aaaa a @ ys) (length xs + 2 + 2) = Some 1"
    "be16_at (xs @ aaaa a @ ys) (length xs + 2 + 8) = Some 16"
    using h by (simp_all add: be16_off [of _ xs 2] be16_off [of _ xs 4] be16_off [of _ xs 10])
  have l: "length (xs @ aaaa a @ ys) = length xs + 28 + length ys" using assms by (simp add: aaaa_def)
  show ?thesis unfolding dns_record_def s ok_then_simps b l by simp
qed

definition reply_head :: "u16 \<Rightarrow> u8 list" where
  "reply_head i = [hi8 (unat i), lo8 (unat i), 0x81, 0x80, 0, 1, 0, 2, 0, 0, 0, 0]"

lemma qlen: "encode_dns_name d = Some w \<Longrightarrow> 12 + (length w + 4) \<le> 271"
  using encoded_name(3) [of d w] by simp

lemma reply_records_wka:
  assumes "synthesize_pref64 p len wka1 = Some a" "synthesize_pref64 p len wka2 = Some b" "pos \<le> 271"
  shows "reply_records p len 28 1500 pos [wka1, wka2] = [aaaa a, aaaa b]"
  using assms by (simp add: aaaa_def hi8_def lo8_def)

lemma question_at:
  assumes "length xs = 12"
  shows "be16_at (xs @ w @ 0 # 28 # 0 # 1 # ys) (12 + length w) = Some 28"
    "be16_at (xs @ w @ 0 # 28 # 0 # 1 # ys) (14 + length w) = Some 1"
proof -
  have z: "be16_at (0 # 28 # 0 # 1 # ys) 0 = Some 28" "be16_at (0 # 28 # 0 # 1 # ys) 2 = Some 1"
    by (simp_all add: be16_at_def rd_def)
  show "be16_at (xs @ w @ 0 # 28 # 0 # 1 # ys) (12 + length w) = Some 28"
    "be16_at (xs @ w @ 0 # 28 # 0 # 1 # ys) (14 + length w) = Some 1"
    using be16_off [of "12 + length w" "xs @ w" 0 "0 # 28 # 0 # 1 # ys"] be16_off [of "14 + length w" "xs @ w" 2 "0 # 28 # 0 # 1 # ys"] assms z
    by simp_all
qed

lemma answered:
  assumes w: "encode_dns_name ''ipv4only.arpa'' = Some w" and a: "synthesize_pref64 p len wka1 = Some a"
    and b: "synthesize_pref64 p len wka2 = Some b"
  shows "dns64_answer p len hosts up (query_head i @ w @ query_tail) =
    Some (Some (reply_head i @ (w @ [0, 28, 0, 1]) @ aaaa a @ aaaa b))"
proof -
  let ?q = "query_head i @ w @ query_tail"
  have h: "length (query_head i) = 12" by (simp add: query_head_def)
  have n: "decode_qname ?q 12 256 = Some (Some (bytes ''ipv4only.arpa'', 12 + length w))"
    by (rule decode_encoded [OF w _ h]) simp
  have c: "c_string (bytes ''ipv4only.arpa'') = ''ipv4only.arpa''"
    by (rule c_string_bytes) code_simp
  have s: "strcaseeq ''ipv4only.arpa'' ''ipv4only.arpa''" by (simp add: strcaseeq_def)
  have t: "be16_at ?q (12 + length w) = Some 28" "be16_at ?q (12 + length w + 2) = Some 1"
    using question_at [OF h, of w] by (simp_all add: query_tail_def add.commute)
  have r: "rd ?q 0 = Some (hi8 (unat i))" "rd ?q 1 = Some (lo8 (unat i))" "rd ?q 2 = Some 1" "be16_at ?q 4 = Some 1"
    by (simp_all add: query_head_def rd_def be16_at_def)
  have l: "length ?q = 27 + length w" by (simp add: query_head_def query_tail_def)
  have d: "rds ?q 12 (length w + 4) = Some (w @ [0, 28, 0, 1])"
    using h by (simp add: rds_off [of _ "query_head i" 0] rds_def query_tail_def)
  have rep: "reply_records p len 28 1500 (12 + (length w + 4)) [wka1, wka2] = [aaaa a, aaaa b]"
    by (rule reply_records_wka [OF a b qlen [OF w]])
  have rep: "build_dns64_reply ?q (length w + 4) p len 28 [wka1, wka2] 0 1500 = Some (reply_head i @ (w @ [0, 28, 0, 1]) @ aaaa a @ aaaa b)"
    using qlen [OF w] by (simp only: build_dns64_reply_def r d rep) (simp add: reply_head_def hi8_def lo8_def)
  have sz: "12 + length w + 4 - 12 = length w + 4" "\<not> 12 + length w + 4 > length ?q" using l by simp_all
  show ?thesis
    unfolding dns64_answer_def r n t ok_then_simps bind.bind_lunit Let_def prod.case c sz
    using l by (simp add: s rep [simplified] to_send_def reply_head_def)
qed

lemma discovered:
  assumes w: "encode_dns_name d = Some w" and a: "length a = 16" "extract_pref64 a = Some r"
  shows "parse_dns_response (reply_head i @ (w @ [0, 28, 0, 1]) @ aaaa a @ ys) i d = Some (Inr r)"
proof -
  let ?r = "reply_head i @ (w @ [0, 28, 0, 1]) @ aaaa a @ ys"
  have h: "length (reply_head i) = 12" by (simp add: reply_head_def)
  have l: "length ?r = 12 + length w + 4 + 28 + length ys" using a(1) by (simp add: reply_head_def aaaa_def)
  have hd: "be16_at ?r 0 = Some i" "rd ?r 2 = Some 0x81" "rd ?r 3 = Some 0x80" "be16_at ?r 4 = Some 1" "be16_at ?r 6 = Some 2"
    using id_bytes [of i] by (simp_all add: reply_head_def rd_def be16_at_def)
  have m: "match_question ?r 12 d = Some (Some (11 + length w, []))"
    using carries_match [OF encoded_name(1) [OF w], of "reply_head i" "[0, 28, 0, 1] @ aaaa a @ ys"] h by simp
  have z: "rd ?r (11 + length w) = Some 0"
  proof -
    obtain w' where e: "w = w' @ [0]" using encoded_labels [of "[]" d w] w by (auto simp: encode_dns_name_def) (metis append_butlast_last_id)
    show ?thesis using rd_off [of "11 + length w" "reply_head i @ w'" 0] h by (simp add: e rd_Cons)
  qed
  have t: "be16_at ?r (12 + length w) = Some 28" "be16_at ?r (12 + length w + 2) = Some 1"
    using question_at [OF h, of w] by (simp_all add: add.commute)
  have rec: "dns_record ?r (16 + length w) = Some (Some (28, 1, 28 + length w, 16))"
    using aaaa_record [OF a(1), of "reply_head i @ w @ [0, 28, 0, 1]" ys] h by (simp add: add.commute)
  have rda: "rds ?r (28 + length w) 16 = Some a"
    using rds_at [of a 16 "28 + length w" "reply_head i @ w @ [0, 28, 0, 1] @ [0xc0, 0x0c, 0, 28, 0, 1, 0, 0, 0, 0x3c, 0, 16]" ys] a(1) h
    by (simp add: aaaa_def)
  have body: "dns_body ?r d 1 2 = Some (Some r)"
    unfolding dns_body_def m ok_then_simps using z t rec rda a l by (simp add: numeral_2_eq_2)
  show ?thesis unfolding parse_dns_response_def hd using l body by simp
qed

lemma wka_name: "\<exists>w. encode_dns_name ''ipv4only.arpa'' = Some w"
  by (rule exI, code_simp)

lemma server_found:
  assumes "length p = 16" "pref64_len len" "\<not> excluded (zero_from (len div 8) p)"
  shows "query_dns_server (\<lambda>q. case dns64_answer p len hosts up q of Some r \<Rightarrow> r | None \<Rightarrow> None) tcp i ''ipv4only.arpa'' =
    Some (Some (zero_from (len div 8) p, len))"
proof -
  obtain w where w: "encode_dns_name ''ipv4only.arpa'' = Some w" using wka_name by blast
  obtain a b where a: "synthesize_pref64 p len wka1 = Some a" and b: "synthesize_pref64 p len wka2 = Some b"
    using synthesize_Some assms(2) by blast
  have la: "length a = 16" by (rule synthesize_length [OF assms(1) _ a]) (simp add: wka1_def)
  have e: "extract_pref64 a = Some (zero_from (len div 8) p, len)" by (rule extract_synthesized [OF assms _ a]) simp
  have q: "dns_query i ''ipv4only.arpa'' = Some (query_head i @ w @ query_tail)" using dns_query_form w by blast
  show ?thesis
    using answered [OF w a b, of hosts up i] discovered [OF w la e, of i "aaaa b"]
    by (simp add: query_dns_server_def q)
qed

lemma query_dns_server_inside: "query_dns_server udp tcp i d \<noteq> None"
proof -
  have "\<exists>r. parse_dns_response m i d = Some r" for m using parse_dns_response_inside [of m i d] by auto
  then obtain R where "\<And>m. parse_dns_response m i d = Some (R m)" by metis
  then show ?thesis by (simp add: query_dns_server_def split: option.split sum.split dns_error.split)
qed

text \<open>
  C0. A name the helper puts into a query is the name the server reads from it and the name the
  response is checked against, wherever the message goes on: \<open>decode_qname\<close> and the loop over the
  question's labels undo \<open>encode_dns_name\<close>.
\<close>

text \<open>C27. A name put into a query is the name the server decodes and the name a response is checked against.\<close>

theorem dns_names:
  assumes "encode_dns_name d = Some w" "d = [] \<or> last d \<noteq> CHR ''.''" "no_nul d" "length xs = 12"
  shows "decode_qname (xs @ w @ ys) 12 256 = Some (Some (bytes d, 12 + length w)) \<and> c_string (bytes d) = d
    \<and> match_question (xs @ w @ ys) 12 d = Some (Some (11 + length w, [])) \<and> length w \<le> 255"
  using decode_encoded [OF assms(1,2,4)] c_string_bytes [OF assms(3)] carries_match [OF encoded_name(1) [OF assms(1)], of xs ys]
    encoded_name(2,3) [OF assms(1)] assms(4) by simp

lemma dns_names_witness:
  "decode_qname (replicate 12 0 @ [3, 110, 115, 49, 2, 105, 111, 0] @ [0, 28, 0, 1]) 12 256 = Some (Some (bytes ''ns1.io'', 20))"
proof -
  have e: "encode_dns_name ''ns1.io'' = Some [3, 110, 115, 49, 2, 105, 111, 0]" by code_simp
  have n: "no_nul ''ns1.io''" by code_simp
  show ?thesis using dns_names [OF e _ n, of "replicate 12 0" "[0, 28, 0, 1]"] by simp
qed

text \<open>
  C28. Neither the client nor the server of the PREF64 helper reads outside a message, whatever
  bytes arrive: a response, an upstream server's answer or a request.
\<close>

theorem dns_reads_inside:
  "parse_dns_response resp i d \<noteq> None \<and> query_dns_server udp tcp i d \<noteq> None
   \<and> extract_dns_records resp want m \<noteq> None \<and> dns64_answer p len hosts up req \<noteq> None"
  using parse_dns_response_inside query_dns_server_inside extract_dns_records_inside dns64_answer_inside by blast

text \<open>
  C26. Discovery finds the server's prefix: the client asks for the well-known name, the DNS64
  server answers with the well-known addresses behind its prefix, and the client takes exactly
  this prefix and length from the answer, without the TCP retry and whatever hosts file and
  upstream server there are.
\<close>

theorem dns64_discovery:
  assumes "length p = 16" "pref64_len len" "\<not> excluded (zero_from (len div 8) p)"
  shows "query_dns_server (\<lambda>q. case dns64_answer p len hosts up q of Some r \<Rightarrow> r | None \<Rightarrow> None) tcp i ''ipv4only.arpa'' =
    Some (Some (zero_from (len div 8) p, len))"
  by (rule server_found [OF assms])

lemma dns64_discovery_witness:
  "query_dns_server (\<lambda>q. case dns64_answer [0, 0x64, 0xff, 0x9b, 0, 0, 0, 0, 0, 0, 0, 0, 0, 0, 0, 0] 96 [] (\<lambda>_. None) q of Some r \<Rightarrow> r | None \<Rightarrow> None)
     (\<lambda>_. None) 7 ''ipv4only.arpa'' = Some (Some ([0, 0x64, 0xff, 0x9b, 0, 0, 0, 0, 0, 0, 0, 0, 0, 0, 0, 0], 96))"
proof -
  let ?p = "[0, 0x64, 0xff, 0x9b, 0, 0, 0, 0, 0, 0, 0, 0, 0, 0, 0, 0] :: u8 list"
  have z: "zero_from (96 div 8) ?p = ?p" by code_simp
  have n: "length ?p = 16" "pref64_len 96" "\<not> excluded (zero_from (96 div 8) ?p)" by code_simp+
  show ?thesis using dns64_discovery [OF n, of "[]" "\<lambda>_. None" "\<lambda>_. None" 7] unfolding z .
qed

end
