(* ===== verification/Ntop.thy ===== *)
theory Ntop
  imports Text
begin

text \<open>
  The C library's conversions of numbers and addresses to text, \<open>inet_ntop\<close> and the formats of
  \<open>fprintf\<close> that \<open>src/src/dynamic.c\<close> uses, and that \<open>strtol\<close> and \<open>inet_pton\<close> undo them.
\<close>

section \<open>Numbers and addresses as text\<close>

definition digit_char :: "nat \<Rightarrow> char" where
  "digit_char d = char_of (if d < 10 then 48 + d else 87 + d)"

text \<open>\<open>%u\<close> and \<open>%x\<close>.\<close>

fun digits :: "nat \<Rightarrow> nat \<Rightarrow> string" where
  "digits b n = (if b < 2 \<or> n < b then [digit_char n] else digits b (n div b) @ [digit_char (n mod b)])"

declare digits.simps [simp del]

text \<open>\<open>%d\<close> for a signed number.\<close>

definition signed_digits :: "int \<Rightarrow> string" where
  "signed_digits t = (if t < 0 then CHR ''-'' # digits 10 (nat (- t)) else digits 10 (nat t))"

fun join :: "char \<Rightarrow> string list \<Rightarrow> string" where
  "join c [] = []"
| "join c [x] = x"
| "join c (x # y # ys) = x @ c # join c (y # ys)"

definition ntop4 :: "u8 list \<Rightarrow> string" where
  "ntop4 bs = join (CHR ''.'') (map (\<lambda>b. digits 10 (unat b)) bs)"

text \<open>The longest run of zero words, the first one of several: its start and length.\<close>

definition longer :: "(nat \<times> nat) option \<Rightarrow> (nat \<times> nat) option \<Rightarrow> (nat \<times> nat) option" where
  "longer cur best = (case (cur, best) of
     (None, _) \<Rightarrow> best | (_, None) \<Rightarrow> cur | (Some (_, l), Some (_, k)) \<Rightarrow> if l > k then cur else best)"

fun zero_run :: "nat \<Rightarrow> (nat \<times> nat) option \<Rightarrow> (nat \<times> nat) option \<Rightarrow> u16 list \<Rightarrow> (nat \<times> nat) option" where
  "zero_run i cur best [] = longer cur best"
| "zero_run i cur best (w # ws) =
     (if w = 0 then zero_run (i + 1) (Some (case cur of None \<Rightarrow> (i, 1) | Some (b, l) \<Rightarrow> (b, l + 1))) best ws
      else zero_run (i + 1) None (longer cur best) ws)"

definition word_bytes :: "u16 \<Rightarrow> u8 list" where
  "word_bytes w = [ucast (drop_bit 8 w), ucast w]"

definition words_of :: "u8 list \<Rightarrow> u16 list" where
  "words_of bs = map (\<lambda>i. push_bit 8 (ucast (bs ! (2 * i))) OR ucast (bs ! (2 * i + 1))) [0..<8]"

definition ntop6 :: "u8 list \<Rightarrow> string" where
  "ntop6 bs =
     (let ws = words_of bs; hex = (\<lambda>w. digits 16 (unat w))
      in case zero_run 0 None None ws of
           Some (b, l) \<Rightarrow>
             if l < 2 then join (CHR '':'') (map hex ws)
             else if b = 0 \<and> l = 6 then ''::'' @ ntop4 (drop 12 bs)
             else if b = 0 \<and> l = 5 \<and> ws ! 5 = 0xffff then ''::ffff:'' @ ntop4 (drop 12 bs)
             else join (CHR '':'') (map hex (take b ws)) @ ''::'' @ join (CHR '':'') (map hex (drop (b + l) ws))
         | None \<Rightarrow> join (CHR '':'') (map hex ws))"

section \<open>Digits\<close>

lemma digits_ne: "digits b n \<noteq> []"
  by (subst digits.simps) simp

lemma digits_small: "n < b \<Longrightarrow> digits b n = [digit_char n]"
  by (subst digits.simps) simp

lemma digits_large: "2 \<le> b \<Longrightarrow> \<not> n < b \<Longrightarrow> digits b n = digits b (n div b) @ [digit_char (n mod b)]"
  by (subst digits.simps) simp

lemma length_digits: "2 \<le> b \<Longrightarrow> n < b ^ Suc k \<Longrightarrow> length (digits b n) \<le> Suc k"
proof (induction k arbitrary: n)
  case 0
  then show ?case by (simp add: digits_small)
next
  case (Suc k)
  show ?case
  proof (cases "n < b")
    case True
    then show ?thesis by (simp add: digits_small)
  next
    case False
    have "n div b < b ^ Suc k" using Suc.prems by (simp add: less_mult_imp_div_less mult.commute)
    then show ?thesis using Suc.IH [of "n div b"] Suc.prems(1) False by (simp add: digits_large)
  qed
qed

lemma code_digit: "d < 10 \<Longrightarrow> code (digit_char d) = 48 + d"
  by (simp add: digit_char_def code_def)

lemma decimal_digits: "list_all is_digit (digits 10 n)"
proof (induction n rule: less_induct)
  case (less n)
  show ?case
  proof (cases "n < 10")
    case True
    then show ?thesis by (simp add: digits_small is_digit_def code_digit)
  next
    case False
    then show ?thesis using less [of "n div 10"] by (simp add: digits_large is_digit_def code_digit)
  qed
qed

lemma dec_append: "dec k (xs @ ys) = dec (dec k xs) ys"
  by (induction xs arbitrary: k) simp_all

lemma dec_decimal: "dec 0 (digits 10 n) = int n"
proof (induction n rule: less_induct)
  case (less n)
  show ?case
  proof (cases "n < 10")
    case True
    then show ?thesis by (simp add: digits_small code_digit)
  next
    case False
    then have "dec 0 (digits 10 n) = 10 * int (n div 10) + int (n mod 10)"
      using less [of "n div 10"] by (simp add: digits_large dec_append code_digit)
    then show ?thesis by (simp add: of_nat_div of_nat_mod)
  qed
qed

lemma hd_decimal: "0 < n \<Longrightarrow> code (hd (digits 10 n)) \<noteq> 48"
proof (induction n rule: less_induct)
  case (less n)
  show ?case
  proof (cases "n < 10")
    case True
    then show ?thesis using less.prems by (simp add: digits_small code_digit)
  next
    case False
    then show ?thesis using less.IH [of "n div 10"] by (simp add: digits_large digits_ne hd_append)
  qed
qed

lemma length_decimal: "n < 1000 \<Longrightarrow> length (digits 10 n) \<le> 3"
  using length_digits [of 10 n 2] by simp

lemma octet_decimal: "octet (digits 10 (unat b)) = Some b"
proof -
  have b: "unat b < 256" using unsigned_less [of b] by simp
  have h: "hd (digits 10 (unat b)) = CHR ''0'' \<longrightarrow> length (digits 10 (unat b)) = 1"
  proof (cases "unat b = 0")
    case True
    then show ?thesis by (simp add: digits_small)
  next
    case False
    then have "code (hd (digits 10 (unat b))) \<noteq> 48" by (simp add: hd_decimal)
    then show ?thesis by (auto simp: code_def)
  qed
  have "length (digits 10 (unat b)) \<le> 3" using b by (intro length_decimal) simp
  moreover have "uint b \<le> 255" using unsigned_less [of b, where 'a = int] by simp
  ultimately show ?thesis using b h by (simp add: octet_def digits_ne decimal_digits dec_decimal)
qed

section \<open>IPv4 addresses\<close>

lemma split_at_piece: "list_all (\<lambda>c. c \<noteq> d) xs \<Longrightarrow> split_at d (xs @ d # ys) = xs # split_at d ys"
  by (induction xs) auto

lemma split_at_last: "list_all (\<lambda>c. c \<noteq> d) xs \<Longrightarrow> split_at d xs = [xs]"
  by (induction xs) auto

lemma split_at_join:
  "ps \<noteq> [] \<Longrightarrow> \<forall>p\<in>set ps. list_all (\<lambda>c. c \<noteq> d) p \<Longrightarrow> split_at d (join d ps) = ps"
  by (induction d ps rule: join.induct) (simp_all add: split_at_piece split_at_last)

lemma not_digit: "list_all is_digit xs \<Longrightarrow> \<not> is_digit c \<Longrightarrow> list_all (\<lambda>x. x \<noteq> c) xs"
  by (auto simp: list_all_iff)

lemma pton4_ntop4: "length bs = 4 \<Longrightarrow> pton4_bytes (ntop4 bs) = Some bs"
proof -
  assume l: "length bs = 4"
  have d: "\<not> is_digit (CHR ''.'')" by code_simp
  have "split_at (CHR ''.'') (ntop4 bs) = map (\<lambda>b. digits 10 (unat b)) bs"
    unfolding ntop4_def using l not_digit [OF decimal_digits d] by (intro split_at_join) auto
  then show ?thesis using l by (simp add: pton4_bytes_def octet_decimal list_all_iff o_def)
qed

section \<open>Hexadecimal groups\<close>

lemma hex_digit_char: "d < 16 \<Longrightarrow> hex_digit (digit_char d) = Some (of_nat d)"
  by (cases "d < 10") (simp_all add: hex_digit_def digit_char_def is_digit_def code_def lower_def)

lemma hex_step: "n < 65536 \<Longrightarrow> push_bit 4 (of_nat (n div 16)) OR of_nat (n mod 16) = (of_nat n :: u16)"
proof -
  have d: "n div 16 = drop_bit 4 n" "n mod 16 = take_bit 4 n" by (simp_all add: drop_bit_eq_div take_bit_eq_mod)
  show ?thesis unfolding d by (rule bit_word_eqI) (auto simp: bit_simps)
qed

lemma scan_hex:
  "n < 65536 \<Longrightarrow> pton6_scan out gap tok 0 0 (digits 16 n @ cs) = pton6_scan out gap tok (length (digits 16 n)) (of_nat n) cs"
proof (induction n arbitrary: cs rule: less_induct)
  case (less n)
  show ?case
  proof (cases "n < 16")
    case True
    then show ?thesis by (simp add: digits_small hex_digit_char)
  next
    case False
    have l: "length (digits 16 (n div 16)) \<le> 3" using length_digits [of 16 "n div 16" 2] less.prems by simp
    have "pton6_scan out gap tok 0 0 (digits 16 n @ cs)
        = pton6_scan out gap tok 0 0 (digits 16 (n div 16) @ digit_char (n mod 16) # cs)"
      using False by (simp add: digits_large)
    also have "\<dots> = pton6_scan out gap tok (length (digits 16 (n div 16))) (of_nat (n div 16)) (digit_char (n mod 16) # cs)"
      using less False by (intro less.IH) simp_all
    also have "\<dots> = pton6_scan out gap tok (length (digits 16 (n div 16)) + 1) (of_nat n) cs"
      using l hex_step [OF less.prems] by (simp add: hex_digit_char)
    finally show ?thesis using False by (simp add: digits_large)
  qed
qed

text \<open>A group of a word, with what may follow it.\<close>

lemma scan_word:
  "pton6_scan out gap tok 0 0 (digits 16 (unat (w :: u16)) @ cs) = pton6_scan out gap tok (length (digits 16 (unat w))) w cs"
  using scan_hex [of "unat w" out gap tok cs] unsigned_less [of w, where 'a = nat] by simp

lemma scan_group:
  "cs \<noteq> [] \<Longrightarrow> length out + 2 \<le> 16 \<Longrightarrow>
   pton6_scan out gap tok 0 0 (digits 16 (unat w) @ CHR '':'' # cs) = pton6_scan (out @ word_bytes w) gap cs 0 0 cs"
proof -
  have c: "hex_digit (CHR '':'') = None" by code_simp
  assume "cs \<noteq> []" "length out + 2 \<le> 16"
  then show ?thesis by (simp add: scan_word c digits_ne word_bytes_def)
qed

lemma scan_last: "length out + 2 \<le> 16 \<Longrightarrow> pton6_scan out gap tok 0 0 (digits 16 (unat w)) = Some (out @ word_bytes w, gap)"
  using scan_word [of out gap tok w "[]"] by (simp add: digits_ne word_bytes_def)

definition hex_groups :: "u16 list \<Rightarrow> string" where
  "hex_groups ws = join (CHR '':'') (map (\<lambda>w. digits 16 (unat w)) ws)"

definition bytes_of :: "u16 list \<Rightarrow> u8 list" where
  "bytes_of ws = concat (map word_bytes ws)"

lemma length_bytes_of [simp]: "length (bytes_of ws) = 2 * length ws"
  by (induction ws) (simp_all add: bytes_of_def word_bytes_def)

lemma bytes_of_simps [simp]: "bytes_of [] = []" "bytes_of (w # ws) = word_bytes w @ bytes_of ws" "bytes_of (xs @ ys) = bytes_of xs @ bytes_of ys"
  by (simp_all add: bytes_of_def)

lemma hex_groups_Cons: "ws \<noteq> [] \<Longrightarrow> hex_groups (w # ws) = digits 16 (unat w) @ CHR '':'' # hex_groups ws"
  by (cases ws) (simp_all add: hex_groups_def)

lemma hex_groups_ne: "ws \<noteq> [] \<Longrightarrow> hex_groups ws \<noteq> []"
  by (cases ws; cases "tl ws") (simp_all add: hex_groups_def digits_ne)

lemma length_word_bytes [simp]: "length (word_bytes w) = 2"
  by (simp add: word_bytes_def)

lemma scan_groups_end:
  "ws \<noteq> [] \<Longrightarrow> length out + 2 * length ws \<le> 16 \<Longrightarrow>
   pton6_scan out gap tok 0 0 (hex_groups ws) = Some (out @ bytes_of ws, gap)"
proof (induction ws arbitrary: out tok)
  case (Cons w ws)
  show ?case
  proof (cases "ws = []")
    case True
    then show ?thesis using Cons.prems by (simp add: hex_groups_def scan_last)
  next
    case False
    then show ?thesis
      using Cons.prems Cons.IH [of "out @ word_bytes w" "hex_groups ws"] by (simp add: hex_groups_Cons scan_group hex_groups_ne)
  qed
qed simp

lemma scan_groups:
  "cs \<noteq> [] \<Longrightarrow> ws \<noteq> [] \<Longrightarrow> length out + 2 * length ws \<le> 16 \<Longrightarrow>
   pton6_scan out gap tok 0 0 (hex_groups ws @ CHR '':'' # cs) = pton6_scan (out @ bytes_of ws) gap cs 0 0 cs"
proof (induction ws arbitrary: out tok)
  case (Cons w ws)
  show ?case
  proof (cases "ws = []")
    case True
    then show ?thesis using Cons.prems by (simp add: hex_groups_def scan_group)
  next
    case False
    then show ?thesis
      using Cons.prems Cons.IH [of "out @ word_bytes w"] by (simp add: hex_groups_Cons scan_group)
  qed
qed simp

section \<open>Runs of zeros\<close>

definition run_ok :: "u16 list \<Rightarrow> (nat \<times> nat) option \<Rightarrow> bool" where
  "run_ok ws r \<longleftrightarrow> (case r of None \<Rightarrow> True | Some (b, l) \<Rightarrow> b + l \<le> length ws \<and> take l (drop b ws) = replicate l 0)"

lemma run_ok_append: "run_ok ws r \<Longrightarrow> run_ok (ws @ xs) r"
  by (auto simp: run_ok_def split: option.splits)

lemma longer_ok: "run_ok ws cur \<Longrightarrow> run_ok ws best \<Longrightarrow> run_ok ws (longer cur best)"
  by (auto simp: longer_def split: option.split)

lemma zero_run_ok:
  "run_ok pre cur \<Longrightarrow> (\<forall>b l. cur = Some (b, l) \<longrightarrow> b + l = length pre) \<Longrightarrow> run_ok pre best
   \<Longrightarrow> run_ok (pre @ ws) (zero_run (length pre) cur best ws)"
proof (induction ws arbitrary: pre cur best)
  case Nil
  then show ?case by (simp add: longer_ok)
next
  case (Cons w ws)
  show ?case
  proof (cases "w = 0")
    case True
    let ?cur = "Some (case cur of None \<Rightarrow> (length pre, 1) | Some (b, l) \<Rightarrow> (b, l + 1))"
    have "run_ok (pre @ [w]) ?cur" "\<forall>b l. ?cur = Some (b, l) \<longrightarrow> b + l = length (pre @ [w])"
      using Cons.prems(1,2) True by (auto simp: run_ok_def replicate_append_same split: option.splits)
    from Cons.IH [OF this run_ok_append [OF Cons.prems(3)]] True show ?thesis by simp
  next
    case False
    have "run_ok (pre @ [w]) (longer cur best)" using longer_ok [OF Cons.prems(1,3)] by (rule run_ok_append)
    from Cons.IH [of "pre @ [w]" None, OF _ _ this] False show ?thesis by (simp add: run_ok_def)
  qed
qed

lemma zero_run_zero:
  "zero_run 0 None None ws = Some (b, l) \<Longrightarrow> b + l \<le> length ws \<and> ws = take b ws @ replicate l 0 @ drop (b + l) ws"
proof -
  assume r: "zero_run 0 None None ws = Some (b, l)"
  have "run_ok ws (zero_run 0 None None ws)" using zero_run_ok [of "[]" None None ws] by (simp add: run_ok_def)
  then have z: "b + l \<le> length ws" "take l (drop b ws) = replicate l 0" by (simp_all add: run_ok_def r)
  have "take b ws @ take l (drop b ws) @ drop l (drop b ws) = ws" by (simp only: append_take_drop_id)
  then show ?thesis using z by (simp add: add.commute)
qed

section \<open>IPv6 addresses\<close>

lemma word_bytes_pair: "word_bytes (push_bit 8 (ucast a) OR ucast b) = [a, b]"
proof -
  have "\<not> bit (b :: u8) (8 + n)" for n by (auto dest: bit_imp_le_length)
  then show ?thesis by (auto simp: word_bytes_def intro!: bit_word_eqI simp: bit_simps)
qed

lemma bytes_of_words: "length bs = 16 \<Longrightarrow> bytes_of (words_of bs) = bs"
proof -
  assume "length bs = 16"
  then obtain b0 b1 b2 b3 b4 b5 b6 b7 b8 b9 b10 b11 b12 b13 b14 b15 where
    "bs = [b0, b1, b2, b3, b4, b5, b6, b7, b8, b9, b10, b11, b12, b13, b14, b15]"
    by (auto simp: numeral_eq_Suc length_Suc_conv)
  then show ?thesis by (simp add: words_of_def upt_rec [of _ 8] word_bytes_pair)
qed

lemma length_words_of [simp]: "length (words_of bs) = 8"
  by (simp add: words_of_def)

lemma bytes_of_zeros: "bytes_of (replicate l 0) = replicate (2 * l) 0"
  by (induction l) (simp_all add: word_bytes_def)

lemma hex_digits: "list_all (\<lambda>c. hex_digit c \<noteq> None) (digits 16 n)"
proof (induction n rule: less_induct)
  case (less n)
  show ?case
  proof (cases "n < 16")
    case True
    then show ?thesis by (simp add: digits_small hex_digit_char)
  next
    case False
    then show ?thesis using less [of "n div 16"] by (simp add: digits_large hex_digit_char)
  qed
qed

lemma colon: "hex_digit (CHR '':'') = None"
  by code_simp

lemma hd_hex_groups: "ws \<noteq> [] \<Longrightarrow> hd (hex_groups ws @ xs) \<noteq> CHR '':''"
proof -
  have "hd (digits 16 n @ ys) \<noteq> CHR '':''" for n ys
    using hex_digits [of n] digits_ne [of 16 n] colon by (cases "digits 16 n") auto
  moreover assume "ws \<noteq> []"
  ultimately show ?thesis by (cases ws; cases "tl ws") (simp_all add: hex_groups_def)
qed

lemma scan_digits:
  "list_all is_digit ds \<Longrightarrow> n + length ds \<le> 4 \<Longrightarrow>
   \<exists>u. pton6_scan out gap tok n v (ds @ cs) = pton6_scan out gap tok (n + length ds) u cs"
proof (induction ds arbitrary: n v)
  case (Cons d ds)
  then show ?case using Cons.IH [of "n + 1"] by (simp add: hex_digit_def)
qed auto

lemma scan_ntop4:
  assumes "length bs = 4" "length out \<le> 12"
  shows "pton6_scan out gap (ntop4 bs) 0 0 (ntop4 bs) = Some (out @ bs, gap)"
proof -
  obtain b r where b: "bs = b # r" "r \<noteq> []" using assms(1) by (cases bs; cases "tl bs") auto
  then have e: "ntop4 bs = digits 10 (unat b) @ CHR ''.'' # join (CHR ''.'') (map (\<lambda>b. digits 10 (unat b)) r)"
    by (cases r) (simp_all add: ntop4_def)
  have l: "length (digits 10 (unat b)) \<le> 3" using unsigned_less [of b, where 'a = nat] by (intro length_decimal) simp
  have dot: "hex_digit (CHR ''.'') = None" by code_simp
  have "\<exists>u. pton6_scan out gap (ntop4 bs) 0 0 (ntop4 bs) =
      pton6_scan out gap (ntop4 bs) (length (digits 10 (unat b))) u (CHR ''.'' # join (CHR ''.'') (map (\<lambda>b. digits 10 (unat b)) r))"
    using scan_digits [OF decimal_digits, of 0 "unat b" out gap "ntop4 bs" 0 "CHR ''.'' # join (CHR ''.'') (map (\<lambda>b. digits 10 (unat b)) r)"] l
    unfolding e by simp
  then show ?thesis using assms by (auto simp: dot pton4_ntop4)
qed

lemma scan_gap: "pton6_scan out None tok 0 v (CHR '':'' # cs) = pton6_scan out (Some (length out)) cs 0 0 cs"
  by (simp add: colon)

text \<open>Groups with a gap.\<close>

lemma pton6_gap:
  assumes "pton6_scan (bytes_of pre) (Some (2 * length pre)) cs 0 0 cs = Some (bytes_of pre @ r, Some (2 * length pre))"
    "2 * length pre + length r < 16"
  shows "pton6_bytes (hex_groups pre @ ''::'' @ cs) = Some (bytes_of pre @ replicate (16 - 2 * length pre - length r) 0 @ r)"
proof (cases "pre = []")
  case True
  have "pton6_scan [] None (CHR '':'' # cs) 0 0 (CHR '':'' # cs) = Some (r, Some 0)"
    using assms(1) unfolding True by (simp add: colon)
  then show ?thesis using assms(2) unfolding True by (simp add: pton6_bytes_def hex_groups_def del: pton6_scan.simps)
next
  case False
  have "pton6_scan [] None (hex_groups pre @ ''::'' @ cs) 0 0 (hex_groups pre @ ''::'' @ cs) = Some (bytes_of pre @ r, Some (2 * length pre))"
    using scan_groups [of "CHR '':'' # cs" pre "[]" None] False assms by (simp add: colon)
  then show ?thesis using hd_hex_groups [OF False] hex_groups_ne [OF False] assms(2) by (simp add: pton6_bytes_def)
qed

text \<open>The four forms of the text, for the words \<open>ws\<close> of an address.\<close>

lemma pton6_full:
  assumes "length ws = 8"
  shows "pton6_bytes (hex_groups ws) = Some (bytes_of ws)"
proof -
  have ne: "ws \<noteq> []" using assms by auto
  have "pton6_scan [] None (hex_groups ws) 0 0 (hex_groups ws) = Some (bytes_of ws, None)"
    using scan_groups_end [OF ne, of "[]" None] assms by simp
  then show ?thesis
    using hd_hex_groups [OF ne, of "[]"] hex_groups_ne [OF ne] assms by (simp add: pton6_bytes_def)
qed

lemma pton6_compatible: "length v = 4 \<Longrightarrow> pton6_bytes (''::'' @ ntop4 v) = Some (replicate 12 0 @ v)"
  using pton6_gap [of "[]" "ntop4 v" v] scan_ntop4 [of v "[]" "Some 0"] by (simp add: hex_groups_def)

lemma pton6_mapped:
  assumes "length v = 4"
  shows "pton6_bytes (''::ffff:'' @ ntop4 v) = Some (replicate 10 0 @ [255, 255] @ v)"
proof -
  let ?cs = "hex_groups [0xffff] @ CHR '':'' # ntop4 v"
  have f: "word_bytes 0xffff = [255, 255]" by code_simp
  have c: "char_of (102 :: nat) = CHR ''f''" by code_simp
  have h: "hex_groups [0xffff] = ''ffff''" by (simp add: hex_groups_def digits_large digits_small digit_char_def c)
  have ne: "ntop4 v \<noteq> []" using pton4_ntop4 [OF assms] by (auto simp: pton4_bytes_def)
  have sc: "pton6_scan [] (Some 0) ?cs 0 0 ?cs = Some ([255, 255] @ v, Some 0)"
    using scan_groups [OF ne, of "[0xffff]" "[]" "Some 0" ?cs] scan_ntop4 [OF assms, of "[255, 255]" "Some 0"] by (simp add: f)
  have "pton6_bytes (hex_groups [] @ ''::'' @ ?cs) = Some (bytes_of [] @ replicate (16 - 2 * length ([] :: u16 list) - length ([255, 255] @ v)) 0 @ [255, 255] @ v)"
    by (rule pton6_gap) (use sc assms in simp_all)
  then show ?thesis using assms unfolding h by (simp add: hex_groups_def)
qed

lemma pton6_groups:
  assumes "length pre + l + length post = 8" "0 < l"
  shows "pton6_bytes (hex_groups pre @ ''::'' @ hex_groups post) = Some (bytes_of pre @ replicate (2 * l) 0 @ bytes_of post)"
proof -
  have sc: "pton6_scan (bytes_of pre) (Some (2 * length pre)) (hex_groups post) 0 0 (hex_groups post)
      = Some (bytes_of pre @ bytes_of post, Some (2 * length pre))"
    by (cases "post = []") (use assms(1) scan_groups_end in \<open>simp_all add: hex_groups_def\<close>)
  have n: "16 - 2 * length pre - length (bytes_of post) = 2 * l" using assms(1) by simp
  show ?thesis unfolding n [symmetric] by (rule pton6_gap [OF sc]) (use assms in simp)
qed

lemma pton6_ntop6:
  assumes "length bs = 16"
  shows "pton6_bytes (ntop6 bs) = Some bs"
proof -
  obtain ws where ws: "words_of bs = ws" "length ws = 8" "bytes_of ws = bs" using bytes_of_words [OF assms] by simp
  show ?thesis
  proof (cases "\<exists>b l. zero_run 0 None None ws = Some (b, l) \<and> \<not> l < 2")
    case False
    then have "ntop6 bs = hex_groups ws"
      by (auto simp: ntop6_def ws(1) hex_groups_def Let_def split: option.split)
    then show ?thesis using pton6_full [OF ws(2)] ws(3) by simp
  next
    case True
    then obtain b l where r: "zero_run 0 None None ws = Some (b, l)" "\<not> l < 2" by blast
    obtain pre post where z: "ws = pre @ replicate l 0 @ post" "length pre = b" "length pre + l + length post = 8"
      "take b ws = pre" "drop (b + l) ws = post"
    proof (rule that [of "take b ws" "drop (b + l) ws"])
      show "ws = take b ws @ replicate l 0 @ drop (b + l) ws" using zero_run_zero [OF r(1)] by blast
    qed (use zero_run_zero [OF r(1)] ws(2) in auto)
    have bs: "bs = bytes_of pre @ replicate (2 * l) 0 @ bytes_of post" using ws(3) by (simp add: z(1) bytes_of_zeros)
    consider "b = 0" "l = 6" | "b = 0" "l = 5" "ws ! 5 = 0xffff"
      | "\<not> (b = 0 \<and> l = 6)" "\<not> (b = 0 \<and> l = 5 \<and> ws ! 5 = 0xffff)" by blast
    then show ?thesis
    proof cases
      case 1
      have e: "ntop6 bs = ''::'' @ ntop4 (drop 12 bs)" using 1 r by (simp add: ntop6_def ws(1))
      have v: "bs = replicate 12 0 @ bytes_of post" "length (bytes_of post) = 4" using bs z(2,3) 1 by simp_all
      have "drop 12 bs = bytes_of post" unfolding v(1) by simp
      then show ?thesis using pton6_compatible [OF v(2)] unfolding e v(1) [symmetric] by simp
    next
      case 2
      obtain v where p: "post = 0xffff # v" using 2 z(1-3) by (cases post) (auto simp: nth_append)
      have f: "word_bytes 0xffff = [255, 255]" by code_simp
      have e: "ntop6 bs = ''::ffff:'' @ ntop4 (drop 12 bs)" using 2 r by (simp add: ntop6_def ws(1))
      have v: "bs = replicate 10 0 @ [255, 255] @ bytes_of v" "length (bytes_of v) = 4" using bs z(2,3) 2 p f by simp_all
      have "drop 12 bs = bytes_of v" unfolding v(1) by simp
      then show ?thesis using pton6_mapped [OF v(2)] unfolding e v(1) [symmetric] by simp
    next
      case 3
      then have e: "ntop6 bs = hex_groups pre @ ''::'' @ hex_groups post"
        using r z(4,5) by (auto simp: ntop6_def ws(1) hex_groups_def Let_def)
      show ?thesis unfolding e using pton6_groups [OF z(3)] r(2) bs [symmetric] by simp
    qed
  qed
qed

section \<open>Characters\<close>

text \<open>The text of a number or an address has no blanks, no line ends and no comment sign.\<close>

definition plain :: "string \<Rightarrow> bool" where
  "plain s \<longleftrightarrow> s \<noteq> [] \<and> list_all (\<lambda>c. code c > 35) s"

lemma plain_append: "plain s \<Longrightarrow> plain t \<Longrightarrow> plain (s @ t)"
  by (simp add: plain_def)

lemma plain_decimal: "plain (digits 10 n)"
  using decimal_digits [of n] by (auto simp: plain_def digits_ne list_all_iff is_digit_def)

lemma plain_hex: "plain (digits 16 n)"
proof -
  have "hex_digit c \<noteq> None \<Longrightarrow> code c > 35" for c
    by (auto simp: hex_digit_def is_digit_def lower_def split: if_split_asm)
  then show ?thesis using hex_digits [of n] by (auto simp: plain_def digits_ne list_all_iff)
qed

lemma plain_join: "code c > 35 \<Longrightarrow> ps \<noteq> [] \<Longrightarrow> \<forall>p\<in>set ps. plain p \<Longrightarrow> plain (join c ps)"
  by (induction c ps rule: join.induct) (auto simp: plain_def)

lemma plain_ntop4: "bs \<noteq> [] \<Longrightarrow> plain (ntop4 bs)"
  unfolding ntop4_def by (rule plain_join) (auto simp: plain_decimal code_def)

lemma plain_groups: "ws \<noteq> [] \<Longrightarrow> plain (hex_groups ws)"
  unfolding hex_groups_def by (rule plain_join) (auto simp: plain_hex code_def)

lemma plain_gap: "plain xs \<or> xs = [] \<Longrightarrow> plain ys \<or> ys = [] \<Longrightarrow> plain (xs @ ''::'' @ ys)"
  by (auto simp: plain_def code_def)

text \<open>The forms of an address as text.\<close>

lemma ntop6_forms:
  "ntop6 bs = hex_groups (words_of bs) \<or> ntop6 bs = ''::'' @ ntop4 (drop 12 bs) \<or> ntop6 bs = ''::ffff:'' @ ntop4 (drop 12 bs)
   \<or> (\<exists>b k. ntop6 bs = hex_groups (take b (words_of bs)) @ ''::'' @ hex_groups (drop k (words_of bs)))"
proof (cases "zero_run 0 None None (words_of bs)")
  case (Some r)
  obtain b l where r: "zero_run 0 None None (words_of bs) = Some (b, l)" using Some by (cases r) simp
  show ?thesis
  proof (cases "l < 2 \<or> b = 0 \<and> l = 6 \<or> b = 0 \<and> l = 5 \<and> words_of bs ! 5 = 0xffff")
    case False
    then have "ntop6 bs = hex_groups (take b (words_of bs)) @ ''::'' @ hex_groups (drop (b + l) (words_of bs))"
      by (auto simp: ntop6_def r hex_groups_def Let_def)
    then show ?thesis by blast
  qed (use r in \<open>auto simp: ntop6_def hex_groups_def Let_def\<close>)
qed (simp add: ntop6_def hex_groups_def)

lemma plain_ntop6: "length bs = 16 \<Longrightarrow> plain (ntop6 bs)"
proof -
  assume l: "length bs = 16"
  have g: "plain (hex_groups xs) \<or> hex_groups xs = []" for xs
    using plain_groups [of xs] by (cases "xs = []") (simp_all add: hex_groups_def)
  have w: "words_of bs \<noteq> []" using length_words_of [of bs] by (metis list.size(3) zero_neq_numeral)
  have v: "plain (ntop4 (drop 12 bs))" using l by (intro plain_ntop4) simp
  have c: "plain (''::'' @ ntop4 (drop 12 bs))" "plain (''::ffff:'' @ ntop4 (drop 12 bs))"
    using v by (simp_all add: plain_def code_def)
  show ?thesis using ntop6_forms [of bs] plain_groups [OF w] c plain_gap [OF g g] by auto
qed

lemma length_join: "\<forall>p\<in>set ps. length p \<le> k \<Longrightarrow> length (join c ps) \<le> (k + 1) * length ps"
  by (induction c ps rule: join.induct) auto

lemma length_ntop4: "length (ntop4 bs) \<le> 4 * length bs"
proof -
  have "length (digits 10 (unat b)) \<le> 3" for b :: u8
    using unsigned_less [of b, where 'a = nat] by (intro length_decimal) simp
  then show ?thesis
    using length_join [of "map (\<lambda>b. digits 10 (unat b)) bs" 3 "CHR ''.''"] by (simp add: ntop4_def)
qed

lemma length_groups: "length (hex_groups ws) \<le> 5 * length ws"
proof -
  have "length (digits 16 (unat w)) \<le> 4" for w :: u16
    using unsigned_less [of w, where 'a = nat] length_digits [of 16 "unat w" 3] by simp
  then show ?thesis
    using length_join [of "map (\<lambda>w. digits 16 (unat w)) ws" 4 "CHR '':''"] by (simp add: hex_groups_def)
qed

lemma length_ntop6: "length bs = 16 \<Longrightarrow> length (ntop6 bs) \<le> 82"
proof -
  assume l: "length bs = 16"
  have g: "length (hex_groups (take b (words_of bs))) \<le> 40" "length (hex_groups (drop b (words_of bs))) \<le> 40" for b
    using length_groups [of "take b (words_of bs)"] length_groups [of "drop b (words_of bs)"] by auto
  have v: "length (ntop4 (drop 12 bs)) \<le> 16" using l length_ntop4 [of "drop 12 bs"] by simp
  have "length (hex_groups (take b (words_of bs))) + length (hex_groups (drop k (words_of bs))) \<le> 80" for b k
    using g(1) [of b] g(2) [of k] by simp
  then show ?thesis using ntop6_forms [of bs] g(1) [of 8] v by auto
qed

lemma strtol_decimal: "n < 2 ^ 63 \<Longrightarrow> strtol (digits 10 n) = (int n, [], False)"
proof -
  assume n: "n < 2 ^ 63"
  have d: "list_all is_digit (digits 10 n)" by (rule decimal_digits)
  then have h: "is_digit (hd (digits 10 n))" using digits_ne [of 10 n] by (cases "digits 10 n") auto
  then have s: "dropWhile is_space (digits 10 n) = digits 10 n" "hd (digits 10 n) \<noteq> CHR ''-''" "hd (digits 10 n) \<noteq> CHR ''+''"
    by (cases "digits 10 n"; auto simp: is_digit_def is_space_def code_def)+
  have t: "takeWhile is_digit (digits 10 n) = digits 10 n" "dropWhile is_digit (digits 10 n) = []"
    using d by (simp_all add: takeWhile_eq_all_conv dropWhile_eq_Nil_conv list_all_iff)
  have "int n \<le> 2 ^ 63 - 1" using n by simp
  then show ?thesis using s unfolding strtol_def by (simp add: Let_def digits_ne dec_decimal t)
qed

end
