(* ===== verification/Lease_File.thy ===== *)
theory Lease_File
  imports Ntop Dynamic_Load
begin

text \<open>
  The lease file of the dynamic pool as text (\<open>write_to_file\<close> of \<open>src/src/dynamic.c\<close>): reading what
  was written gives the rows back, and a daemon started on the file has the leases again.
\<close>

section \<open>The file\<close>

definition lease_line :: "in_addr \<times> in6_addr \<times> int \<Rightarrow> string" where
  "lease_line r = (case r of (a4, a6, t) \<Rightarrow>
     ntop4 (le_bytes 4 a4) @ CHR 0x09 # ntop6 (in6_bytes a6) @ CHR 0x09 # signed_digits t @ [CHR 0x0A])"

text \<open>\<open>stamp\<close> is the time of writing as \<open>strftime\<close> gives it.\<close>

definition lease_file :: "string \<Rightarrow> (in_addr \<times> in6_addr \<times> int) list \<Rightarrow> string" where
  "lease_file stamp rows =
     ''### tayga dynamic map database'' @ CHR 0x0A # ''### Last written: '' @ stamp @ CHR 0x0A # CHR 0x0A
       # concat (map lease_line rows)"

text \<open>
  \<open>opened\<close>, \<open>written\<close> and \<open>renamed\<close> say whether these operations succeed; \<open>old\<close> is the file before.
  The result is whether it was written, and the file after.
\<close>

definition write_to_file ::
  "bool \<Rightarrow> bool \<Rightarrow> bool \<Rightarrow> string \<Rightarrow> (in_addr \<times> in6_addr \<times> int) list \<Rightarrow> string option \<Rightarrow> bool \<times> string option" where
  "write_to_file opened written renamed stamp rows old =
     (if \<not> opened then (False, old)
      else if \<not> written \<or> \<not> renamed then (False, old)
      else (True, Some (lease_file stamp rows)))"

section \<open>Lines\<close>

lemma plain_code: "plain s \<Longrightarrow> c \<in> set s \<Longrightarrow> code c > 35"
  by (simp add: plain_def list_all_iff)

lemma delims: "is_delim (CHR 0x09)" "is_delim (CHR 0x0A)"
  by code_simp+

lemma plain_delim: "plain s \<Longrightarrow> c \<in> set s \<Longrightarrow> \<not> is_delim c"
  using plain_code [of s c] by (auto simp: is_delim_def)

lemma tokens_plain:
  assumes "plain s" "is_delim d"
  shows "tokens (s @ d # cs) = s # tokens cs"
proof -
  obtain c r where s: "s = c # r" using assms(1) by (cases s) (auto simp: plain_def)
  have n: "\<not> is_delim c" "\<forall>x\<in>set r. \<not> is_delim x" using plain_delim [OF assms(1)] by (simp_all add: s)
  have "tokens (s @ d # cs) = s # tokens (d # cs)"
    using n assms(2) by (subst tokens.simps) (simp add: s takeWhile_append dropWhile_append)
  also have "tokens (d # cs) = tokens cs"
    using assms(2) by (subst (1 2) tokens.simps) simp
  finally show ?thesis .
qed

lemma tokens_end: "tokens [] = []"
  by (subst tokens.simps) simp

lemma take_line_whole:
  "\<forall>c\<in>set l. code c \<noteq> 10 \<Longrightarrow> length l < n \<Longrightarrow> take_line n (l @ CHR 0x0A # cs) = (l @ [CHR 0x0A], cs)"
proof (induction l arbitrary: n)
  case Nil
  have "code (CHR 0x0A) = 10" by code_simp
  then show ?case using Nil by simp
qed simp

lemma file_lines_line:
  assumes "\<forall>c\<in>set l. code c \<noteq> 10 \<and> code c \<noteq> 0" "length l < 511"
  shows "file_lines (l @ CHR 0x0A # cs) = (l @ [CHR 0x0A]) # file_lines cs"
proof -
  have t: "take_line 511 (l @ CHR 0x0A # cs) = (l @ [CHR 0x0A], cs)"
    using assms by (intro take_line_whole) auto
  have z: "takeWhile (\<lambda>c. code c \<noteq> 0) (l @ [CHR 0x0A]) = l @ [CHR 0x0A]"
    using assms(1) by (simp add: takeWhile_append code_def)
  obtain c r where "l @ CHR 0x0A # cs = c # r" by (cases l) auto
  then show ?thesis using t z by simp
qed

section \<open>The round trip\<close>

text \<open>A time \<open>load_dynamic\<close> accepts.\<close>

definition good_time :: "int \<Rightarrow> bool" where
  "good_time t \<longleftrightarrow> 0 < t \<and> t < 2 ^ 63"

text \<open>A line without its line end.\<close>

definition lease_text :: "in_addr \<times> in6_addr \<times> int \<Rightarrow> string" where
  "lease_text r = (case r of (a4, a6, t) \<Rightarrow>
     ntop4 (le_bytes 4 a4) @ CHR 0x09 # ntop6 (in6_bytes a6) @ CHR 0x09 # digits 10 (nat t))"

lemma lease_line_text: "good_time t \<Longrightarrow> lease_line (a4, a6, t) = lease_text (a4, a6, t) @ [CHR 0x0A]"
  by (simp add: lease_line_def lease_text_def signed_digits_def good_time_def)

lemma plain4: "plain (ntop4 (le_bytes 4 (a :: u32)))"
  by (rule plain_ntop4) (simp add: le_bytes_def)

lemma plain6: "plain (ntop6 (in6_bytes a))"
  by (rule plain_ntop6) simp

lemma lease_text_chars: "\<forall>c\<in>set (lease_text r). code c \<noteq> 10 \<and> code c \<noteq> 0"
proof -
  obtain a4 a6 t where r: "r = (a4, a6, t)" by (cases r) auto
  have "code (CHR 0x09) = 9" by code_simp
  then show ?thesis
    using plain_code [OF plain4 [of a4]] plain_code [OF plain6 [of a6]] plain_code [OF plain_decimal [of "nat t"]]
    unfolding r lease_text_def by fastforce
qed

lemma lease_text_length: "good_time t \<Longrightarrow> length (lease_text (a4, a6, t)) < 200"
proof -
  assume "good_time t"
  then have "nat t < 10 ^ Suc 18" by (simp add: good_time_def nat_less_iff)
  then have "length (digits 10 (nat t)) \<le> 19" using length_digits [of 10 "nat t" 18] by simp
  moreover have "length (ntop4 (le_bytes 4 a4)) \<le> 16" using length_ntop4 [of "le_bytes 4 a4"] by simp
  moreover have "length (ntop6 (in6_bytes a6)) \<le> 82" by (rule length_ntop6) simp
  ultimately show ?thesis by (simp add: lease_text_def)
qed

lemma read_lease:
  assumes "good_time t"
  shows "read_row (lease_text (a4, a6, t) @ [CHR 0x0A]) = Some (a6, a4, t)"
proof -
  let ?l = "lease_text (a4, a6, t) @ [CHR 0x0A]"
  have t: "tokens ?l = [ntop4 (le_bytes 4 a4), ntop6 (in6_bytes a6), digits 10 (nat t)]"
    by (simp add: lease_text_def tokens_plain [OF plain4 delims(1)] tokens_plain [OF plain6 delims(1)]
        tokens_plain [OF plain_decimal delims(2)] tokens_end)
  have h: "hd (ntop4 (le_bytes 4 a4)) \<noteq> CHR ''#''"
    using plain_code [OF plain4 [of a4], of "hd (ntop4 (le_bytes 4 a4))"] plain4 [of a4] by (auto simp: plain_def code_def)
  have p: "inet_pton4 (ntop4 (le_bytes 4 a4)) = Some a4" "inet_pton6 (ntop6 (in6_bytes a6)) = Some a6"
    by (simp_all add: inet_pton4_def inet_pton6_def pton4_ntop4 pton6_ntop6 le_word_le_bytes)
  have s: "strtol (digits 10 (nat t)) = (t, [], False)"
    using strtol_decimal [of "nat t"] assms by (simp add: good_time_def nat_less_iff)
  have "length ?l + 1 \<noteq> 512" using lease_text_length [OF assms, of a4 a6] by simp
  then show ?thesis unfolding read_row_def t using h p s assms by (simp add: good_time_def)
qed

lemma read_leases:
  assumes "\<forall>(a4, a6, t)\<in>set rows. good_time t"
  shows "List.map_filter read_row (file_lines (concat (map lease_line rows))) = map (\<lambda>(a4, a6, t). (a6, a4, t)) rows"
  using assms
proof (induction rows)
  case (Cons r rows)
  obtain a4 a6 t where r: "r = (a4, a6, t)" by (cases r) auto
  have g: "good_time t" using Cons.prems by (simp add: r)
  have "file_lines (lease_text r @ CHR 0x0A # concat (map lease_line rows))
      = (lease_text r @ [CHR 0x0A]) # file_lines (concat (map lease_line rows))"
    by (rule file_lines_line [OF lease_text_chars]) (use lease_text_length [OF g, of a4 a6] in \<open>simp add: r\<close>)
  then show ?case using Cons g by (simp add: r lease_line_text [OF g] read_lease [OF g] map_filter_simps)
qed (simp add: map_filter_simps)

text \<open>The lines of the heading are skipped, whatever the time is that they name.\<close>

definition stamp_ok :: "string \<Rightarrow> bool" where
  "stamp_ok s \<longleftrightarrow> length s < 64 \<and> list_all (\<lambda>c. code c \<noteq> 10 \<and> code c \<noteq> 0) s"

lemma comment_row: "hd l = CHR ''#'' \<Longrightarrow> l \<noteq> [] \<Longrightarrow> read_row (l @ xs) = None"
proof -
  assume "hd l = CHR ''#''" "l \<noteq> []"
  then obtain r where l: "l = CHR ''#'' # r" by (cases l) auto
  have "\<not> is_delim (CHR ''#'')" by code_simp
  then have "\<exists>t ts. tokens (l @ xs) = (CHR ''#'' # t) # ts"
    by (subst tokens.simps) (simp add: l)
  then show ?thesis by (auto simp: read_row_def split: list.split)
qed

lemma read_file:
  assumes "stamp_ok stamp" "\<forall>(a4, a6, t)\<in>set rows. good_time t"
  shows "List.map_filter read_row (file_lines (lease_file stamp rows)) = map (\<lambda>(a4, a6, t). (a6, a4, t)) rows"
proof -
  let ?rows = "concat (map lease_line rows)"
  let ?h1 = "''### tayga dynamic map database''" and ?h2 = "''### Last written: '' @ stamp"
  have c1: "\<forall>c\<in>set ?h1. code c \<noteq> 10 \<and> code c \<noteq> 0" by code_simp
  have "\<forall>c\<in>set ''### Last written: ''. code c \<noteq> 10 \<and> code c \<noteq> 0" by code_simp
  then have c2: "\<forall>c\<in>set ?h2. code c \<noteq> 10 \<and> code c \<noteq> 0" using assms(1) by (auto simp: stamp_ok_def list_all_iff)
  have n: "length ?h1 < 511" "length ?h2 < 511" "length ([] :: string) < 511" using assms(1) by (simp_all add: stamp_ok_def)
  have z: "\<forall>c\<in>set ([] :: string). code c \<noteq> 10 \<and> code c \<noteq> 0" by simp
  have l: "lease_file stamp rows = ?h1 @ CHR 0x0A # (?h2 @ CHR 0x0A # ([] @ CHR 0x0A # ?rows))" by (simp add: lease_file_def)
  have f: "file_lines (lease_file stamp rows) = (?h1 @ [CHR 0x0A]) # (?h2 @ [CHR 0x0A]) # ([] @ [CHR 0x0A]) # file_lines ?rows"
    unfolding l file_lines_line [OF c1 n(1)] file_lines_line [OF c2 n(2)] file_lines_line [OF z n(3)] by (rule refl)
  have e: "read_row ([] @ [CHR 0x0A]) = None" by code_simp
  have r1: "read_row (?h1 @ [CHR 0x0A]) = None" by (rule comment_row) simp_all
  have r2: "read_row (?h2 @ [CHR 0x0A]) = None" by (rule comment_row) simp_all
  show ?thesis unfolding f using read_leases [OF assms(2)] e r1 r2 by (simp add: map_filter_simps)
qed

text \<open>
  C18. The lease file survives: a write that fails anywhere leaves the file as it was, and of a
  write that succeeds a later start reads back exactly the rows that were written, every IPv4 and
  IPv6 address and every time, in their order.
\<close>

theorem lease_file_round_trip:
  assumes "stamp_ok stamp" "\<forall>(a4, a6, t)\<in>set rows. good_time t"
    and "write_to_file opened written renamed stamp rows old = (ok, new)"
  shows "if ok then \<exists>content. new = Some content
           \<and> List.map_filter read_row (file_lines content) = map (\<lambda>(a4, a6, t). (a6, a4, t)) rows
         else new = old"
  using read_file [OF assms(1,2)] assms(3) by (auto simp: write_to_file_def split: if_split_asm)

lemma lease_file_round_trip_witness:
  "\<exists>content. write_to_file True True True ''2026-01-02 03:04:05 UTC'' [(0x0100000a, \<lparr>a0 = 0xb80d0120, a1 = 0, a2 = 0, a3 = 0x01000000\<rparr>, 1700000000)] None = (True, Some content)
     \<and> List.map_filter read_row (file_lines content) = [(\<lparr>a0 = 0xb80d0120, a1 = 0, a2 = 0, a3 = 0x01000000\<rparr>, 0x0100000a, 1700000000)]"
proof -
  let ?rows = "[(0x0100000a, \<lparr>a0 = 0xb80d0120, a1 = 0, a2 = 0, a3 = 0x01000000\<rparr>, 1700000000)] :: (in_addr \<times> in6_addr \<times> int) list"
  let ?s = "''2026-01-02 03:04:05 UTC''"
  have s: "stamp_ok ?s" by code_simp
  have r: "\<forall>(a4, a6, t)\<in>set ?rows. good_time t" by (simp add: good_time_def)
  have w: "write_to_file True True True ?s ?rows None = (True, Some (lease_file ?s ?rows))" by (simp add: write_to_file_def)
  show ?thesis using lease_file_round_trip [OF s r w] unfolding w by simp
qed

end
