(* ===== verification/Spec2Isabelle.thy ===== *)
theory Spec2Isabelle
  imports Mapping_Props Packet_Props Gso_Props Sample_Reload Sample_Daemon Sample_Dispatch Pref64_Laws Dns_Laws Lease_File
begin

text \<open>
  TAYGA, a stateless NAT64 daemon: a model of the program and proofs of its correctness. File
  names without a directory are those of \<open>src/src/\<close>; definitions have the names of the C functions.

  \<^bold>\<open>The program.\<close> TAYGA reads IP packets from a TUN device, translates IPv4 to IPv6 and back,
  and writes the result to the device. Addresses are translated by mapping tables (\<open>addrmap.c\<close>):
  explicit mappings of the configuration and of a map file, RFC 6052 prefixes, and a pool of
  leases given out on demand (\<open>dynamic.c\<close>); an address cache is in front of them. The packet code
  (\<open>nat64.c\<close>) parses headers, translates them and the transport checksums, fragments, sends ICMP
  errors and translates those it receives. On a device with segmentation offload (\<open>gso.c\<close>,
  \<open>tun.c\<close>) a frame is many packets in one, and is passed on as such or cut into packets. \<open>main\<close>
  (\<open>tayga.c\<close>) reads the configuration (\<open>conffile.c\<close>), sets up the device and runs the loop: frames,
  signals, maintenance. With software dispatch (\<open>experimental_io.c\<close>, \<open>flow_dispatch.h\<close>,
  \<open>packet_io_lifetime.h\<close>) received frames are copied into slots and queued to workers by flow. The
  helper \<open>helpers/pref64-discover.c\<close> finds a network's translation prefix by DNS, and can serve it.

  \<^bold>\<open>How the model is built.\<close> Integers have the width of the C code (\<open>u8\<close> to \<open>u64\<close> are words); an
  address is stored as in memory, \<open>htonl\<close> and the other conversions are those of a little-endian
  host. Functions that fail return a sum whose left side is the error code, or an option. The
  state of the translator is the record \<open>gstate\<close>, the world of a packet is \<open>world\<close>: the state, the
  receive buffer, the frames written so far and what the device answers. Threads are not
  modelled: a worker's step is a whole frame, a dispatcher's step is what it does under its lock.

  \<^bold>\<open>Shared vocabulary.\<close>
  \<open>Prelude\<close>: machine integers, loads and stores, the collections \<open>byte_simps\<close> and \<open>width_simps\<close>.
  \<open>Net_Types\<close>: addresses, headers and constants of \<open>tayga.h\<close>, \<open>gso.h\<close>, \<open>list.h\<close>.
  \<open>Text\<close>: \<open>fgets\<close>, \<open>strtok_r\<close>, \<open>strtol\<close>, \<open>inet_pton\<close> as the code uses them.
  \<open>Reads\<close>: reads of received bytes that fail outside them.

  \<^bold>\<open>Addresses and mappings\<close> (\<open>addrmap.c\<close>).
  \<open>Addr\<close>: address classes and masks.
  \<open>Prefix\<close>: addresses as bit strings; the locale \<open>bit_space\<close> is interpreted for both families.
  \<open>Rfc6052\<close>: \<open>append_to_prefix\<close> and \<open>extract_from_prefix\<close>, which undo each other.
  \<open>Maps\<close>: the two ordered tables; the locale \<open>lpm_table\<close> says what insertion and search promise
  each other (longest match), and is interpreted for \<open>map4\<close> and \<open>map6\<close>.
  \<open>State\<close>: the record \<open>gstate\<close> with the objects the lists hold.
  \<open>Cache\<close>: hash tables, age list and free list of the cache, with their invariant.
  \<open>Addrmap\<close>, \<open>Addrmap_Inv\<close>: \<open>map_ip4_to_ip6\<close> and \<open>map_ip6_to_ip4\<close> keep the state well formed,
  fail only with reject or drop, and are inverse to each other on explicit and RFC 6052 mappings.
  \<open>Reload\<close>, \<open>Reload_Laws\<close>: \<open>addrmap_reload\<close> as a transaction: a file with a bad line changes nothing,
  a good one without conflicts replaces exactly the mappings of the previous file.

  \<^bold>\<open>The dynamic pool\<close> (\<open>dynamic.c\<close>).
  \<open>Dynamic\<close>: the free list, leases, dormant leases. \<open>Dynamic_Inv\<close>: the free list and the leases tile
  the pool. \<open>Dynamic_Search\<close>: an assignment succeeds unless the pool is exhausted, and its address
  is nobody else's. \<open>Dynamic_Maint\<close>, \<open>Dynamic_Load\<close>: maintenance, and the lease file at the
  start. \<open>Ntop\<close>, \<open>Lease_File\<close>: the text of the lease file, with \<open>inet_ntop\<close> as the GNU library has it; what
  is written is read back. \<open>Store\<close>: the C code embeds list entries in objects; identities stand for addresses, and
  an object freed is never found again.

  \<^bold>\<open>Packets\<close> (\<open>nat64.c\<close>).
  \<open>Checksum\<close>, \<open>Checksum_Laws\<close>: every checksum routine computes the one's complement sum of
  RFC 1071 of its data, and conversion between the families keeps a segment valid.
  \<open>Tun\<close>: output through the device, with its offload header. \<open>Host_Icmp\<close>: messages TAYGA sends.
  \<open>Parse\<close>: \<open>parse_ip4\<close> and \<open>parse_ip6\<close>; what an accepted packet satisfies.
  \<open>Payload\<close>, \<open>Payload_Csum\<close>, \<open>Payload_Laws\<close>, \<open>Payload_Laws6\<close>: translation of headers and
  transport checksums. \<open>Nat64\<close>, \<open>Nat64_Laws\<close>: the translation of data packets and ICMP errors.
  \<open>Frag_Laws\<close>: the fragmentation loop sends the datagram and ends. \<open>Handle\<close>, \<open>Handle_Laws\<close>: a
  frame from the device to the end. \<open>World_Laws\<close>: what processing may do to the world.
  \<open>Wire\<close>, \<open>Forward\<close>, \<open>Forward6\<close>: what reaches the wire, with its checksums. \<open>Quote_Laws\<close>, \<open>Error_Laws\<close>:
  which bytes of a packet a translated error quotes, and the types, codes and MTUs of RFC 7915.

  \<^bold>\<open>Segmentation offload\<close> (\<open>gso.c\<close>, \<open>tun.c\<close>).
  \<open>Gso\<close>, \<open>Gso_Segment\<close>, \<open>Gso_Fast\<close>: tests on offloaded frames, software segmentation and the
  translation of a frame as one frame. \<open>Gso_Progress\<close>: the loops end inside the buffer.
  \<open>Gso_Laws\<close>, \<open>Gso_Seal\<close>, \<open>Gso_Seal6\<close>: the packets sent are the payload in order, each with valid
  checksums, its sequence number and its reserved identification.
  \<open>Device\<close>: negotiation of the offload features on all queues.

  \<^bold>\<open>Configuration and daemon\<close> (\<open>conffile.c\<close>, \<open>tayga.c\<close>).
  \<open>Config\<close>, \<open>Config_Laws\<close>: one function per directive; an accepted configuration starts the
  translator in a consistent state, with both own addresses set and mapped. \<open>Daemon\<close>, \<open>Daemon_Laws\<close>: the start and the loop as a step
  relation; the state is consistent in every reachable state.

  \<^bold>\<open>Software dispatch.\<close>
  \<open>Flow\<close>, \<open>Flow_Laws\<close>: the classifier; both directions of a flow have one hash. \<open>Frames\<close>: ownership
  of frame buffers by tokens. \<open>Slot_Queue\<close>: the ring buffers, a model of the locale \<open>fifo\<close>.
  \<open>Dispatch\<close>, \<open>Dispatch_Inv\<close>: the dispatcher as a step relation; every slot is in one place.
  \<open>Dispatch_Laws\<close>: flows keep their queue and order, fragments of a datagram stay together.

  \<^bold>\<open>The PREF64 helper.\<close>
  \<open>Pref64\<close>, \<open>Pref64_Laws\<close>: extraction and synthesis of addresses, and that the helper embeds
  addresses as the translator does. \<open>Dns\<close>, \<open>Dns64\<close>, \<open>Dns_Laws\<close>: DNS messages, client and server:
  no read outside a message, and the client finds exactly the server's prefix.

  \<^bold>\<open>Properties.\<close> \<open>Mapping_Props\<close>, \<open>Packet_Props\<close>, \<open>Gso_Props\<close> and the laws of the other parts state
  the properties, numbered C1, C2 and so on; \<open>Samples\<close> and the \<open>Sample\<close> theories are configurations,
  packets, files and devices at which they are instantiated.

  \<^bold>\<open>Where the code departs from its purpose.\<close> Three properties leave out a case in which it does, and a
  lemma says what happens there instead: the checksum computed for the first fragment of a UDP
  datagram without one covers this fragment only (\<open>udp_calc_first_fragment\<close> in \<open>Forward\<close>); with
  \<open>wkpf-strict\<close> off, a link-local own IPv4 address and no \<open>ipv6-addr\<close> the own IPv6 address is left unset
  (\<open>link_local_unset\<close> in \<open>Config_Laws\<close>); and an entry of a map file that conflicts with a mapping that is not
  from the file is skipped where the manual says that the file is rejected (\<open>reload_skips_conflicts\<close> in \<open>Reload_Laws\<close>).

  \<^bold>\<open>Bounds.\<close> The loops of the packet code are not given fuel that a property depends on: that they
  end is proved for every MTU of at least 1280, which is what the configuration code guarantees
  (the fragment size is then a positive multiple of eight, and a segment is never empty). Writes
  lie between the 32nd byte of the headroom and the end of the receive buffer, of size
  \<open>RECV_BUF_SIZE\<close>. The loop over IPv6 extension headers of the classifier reads at most eight and
  goes one quotation deep, as in the code; an interrupted offload request is repeated at most three
  times. The dispatcher has 512 slots, 1024 entries for fragments and at most eight workers. The
  identity of a mapping object stands for its address; the model never reuses one, where the
  allocator may after a \<open>free\<close>.

  \<^bold>\<open>Not modelled.\<close> Interleaving of threads within a frame, and atomics and locks, of which no
  operation here holds only part of. Log messages, the statistics and their HTTP exporter
  (\<open>log.c\<close>, \<open>stats.c\<close>, \<open>stats_exporter.c\<close>): output only. Creation of the device and of its
  addresses and routes through the kernel (\<open>netlink_io.h\<close> and the rest of \<open>tun.c\<close>), BPF programs for queue steering
  and the asynchronous writer of \<open>experimental_io.c\<close>, which is built only with another library: the
  effects are in the kernel. The calendar time in the heading of the lease file, which is an argument,
  and the release of the configuration at exit. Of \<open>main\<close>: the command line, change of user and directory, and the PID file.
  Of the helper: sockets, the choice among public gateways, the command line and its output, and
  the clients used to test a device.
\<close>

end
